(* ===== verification/Prelude.thy ===== *)
theory Prelude
  imports Main "HOL-Library.AList" "HOL-Library.Sublist" "HOL-Library.Word"
    "HOL-Library.List_Lexorder" "HOL-Library.Char_ord"
begin

text \<open>
  Shared vocabulary of the development: Go strings (byte strings, decoded to runes where the
  code ranges over runes), the functions of package \<^verbatim>\<open>strings\<close> that the modelled code calls,
  Go maps as association lists with distinct keys, and the collections of rewrite rules that
  the component theories fill.

  A Go \<^verbatim>\<open>string\<close> or \<^verbatim>\<open>[]byte\<close> is a \<^typ>\<open>string\<close> (a list of 8-bit characters).  A Go \<^verbatim>\<open>map\<close> is an
  association list whose order stands for the (unspecified) iteration order of that map:
  a theorem that holds for every such list holds for every iteration order.  A Go slice is
  a list; the nil slice and the empty slice are both \<open>[]\<close>, as \<^verbatim>\<open>len\<close>, \<^verbatim>\<open>range\<close> and \<^verbatim>\<open>append\<close>
  treat them alike.  A \<^verbatim>\<open>time.Time\<close> is an \<^typ>\<open>int\<close>: nanoseconds since Go's zero time.
\<close>

named_theorems gomap \<open>rewrite rules for Go maps\<close>
named_theorems gostr \<open>rewrite rules for the functions of package strings\<close>

section \<open>Go maps\<close>

type_synonym ('k, 'v) gomap = "('k \<times> 'v) list"
type_synonym time = int

abbreviation mget :: "('k, 'v) gomap \<Rightarrow> 'k \<Rightarrow> 'v option" where
  "mget m k \<equiv> map_of m k"

abbreviation mput :: "'k \<Rightarrow> 'v \<Rightarrow> ('k, 'v) gomap \<Rightarrow> ('k, 'v) gomap" where
  "mput k v m \<equiv> AList.update k v m"

abbreviation mdel :: "'k \<Rightarrow> ('k, 'v) gomap \<Rightarrow> ('k, 'v) gomap" where
  "mdel k m \<equiv> AList.delete k m"

definition mwf :: "('k, 'v) gomap \<Rightarrow> bool" where
  "mwf m \<longleftrightarrow> distinct (map fst m)"

lemma mwf_Nil [simp]: "mwf []"
  by (simp add: mwf_def)

lemma mget_mput [simp]: "mget (mput k v m) k' = (if k' = k then Some v else mget m k')"
  by (simp add: update_conv)

lemma mget_mdel [simp]: "mget (mdel k m) k' = (if k' = k then None else mget m k')"
  by (simp add: delete_conv)

lemma mwf_mput [simp, intro]: "mwf m \<Longrightarrow> mwf (mput k v m)"
  by (simp add: mwf_def distinct_update)

lemma mwf_mdel [simp, intro]: "mwf m \<Longrightarrow> mwf (mdel k m)"
  by (simp add: mwf_def distinct_delete)

lemma mwf_filter [simp, intro]: "mwf m \<Longrightarrow> mwf (filter P m)"
  by (induction m) (auto simp: mwf_def)

lemma mwf_map_snd [simp]: "mwf (map (\<lambda>(k, v). (k, f k v)) m) = mwf m"
  by (simp add: mwf_def comp_def case_prod_beta)

lemma mget_in_set: "mget m k = Some v \<Longrightarrow> (k, v) \<in> set m"
  by (rule map_of_SomeD)

lemma in_set_mget: "mwf m \<Longrightarrow> ((k, v) \<in> set m) = (mget m k = Some v)"
  by (auto simp: mwf_def dest: map_of_SomeD)

lemma mget_None: "(mget m k = None) = (k \<notin> fst ` set m)"
  by (rule map_of_eq_None_iff)

lemma set_mput: "mwf m \<Longrightarrow> set (mput k v m) = insert (k, v) {p \<in> set m. fst p \<noteq> k}"
proof -
  assume m: "mwf m"
  have "(a, b) \<in> set (mput k v m) \<longleftrightarrow> mget (mput k v m) a = Some b" for a b
    using m by (intro in_set_mget) simp
  then show ?thesis
    using m by (auto simp: in_set_mget split: if_splits)
qed

lemma set_mdel: "set (mdel k m) = {p \<in> set m. fst p \<noteq> k}"
  by (auto simp: AList.delete_eq)

lemma length_mdel: "mwf m \<Longrightarrow> length (mdel k m) = (if k \<in> fst ` set m then length m - 1 else length m)"
proof (induction m)
  case (Cons p m)
  have "k \<notin> fst ` set m \<Longrightarrow> mdel k m = m"
    by (simp add: delete_idem)
  with Cons show ?case
    by (cases m) (auto simp: mwf_def AList.delete_eq)
qed simp

lemma length_mput: "length (mput k v m) = (if k \<in> fst ` set m then length m else Suc (length m))"
  by (induction m) auto

lemma mget_map_snd: "mget (map (\<lambda>(k, v). (k, f k v)) m) k = map_option (f k) (mget m k)"
  by (induction m) auto

lemma mget_filter: "mwf m \<Longrightarrow> mget (filter P m) k =
  (case mget m k of None \<Rightarrow> None | Some v \<Rightarrow> if P (k, v) then Some v else None)"
proof (induction m)
  case (Cons p m)
  then have "fst p \<notin> fst ` set m" and IH: "mget (filter P m) k =
      (case mget m k of None \<Rightarrow> None | Some v \<Rightarrow> if P (k, v) then Some v else None)"
    by (auto simp: mwf_def)
  then have "k = fst p \<Longrightarrow> mget m k = None" by (simp add: mget_None)
  with IH show ?case by (cases p) auto
qed simp

section \<open>Bytes, runes and package strings\<close>

text \<open>\<^verbatim>\<open>strings.HasPrefix\<close>, \<^verbatim>\<open>HasSuffix\<close>, \<^verbatim>\<open>Index\<close>, \<^verbatim>\<open>Contains\<close>, \<^verbatim>\<open>TrimLeft\<close>, \<^verbatim>\<open>TrimRight\<close>.\<close>

abbreviation has_prefix :: "'a list \<Rightarrow> 'a list \<Rightarrow> bool" where
  "has_prefix s p \<equiv> prefix p s"

abbreviation has_suffix :: "'a list \<Rightarrow> 'a list \<Rightarrow> bool" where
  "has_suffix s p \<equiv> suffix p s"

fun index_of :: "'a list \<Rightarrow> 'a list \<Rightarrow> nat option" where
  "index_of [] p = (if p = [] then Some 0 else None)"
| "index_of (x # xs) p = (if prefix p (x # xs) then Some 0 else map_option Suc (index_of xs p))"

definition contains :: "'a list \<Rightarrow> 'a list \<Rightarrow> bool" where
  "contains s p \<longleftrightarrow> index_of s p \<noteq> None"

definition trim_left :: "('a \<Rightarrow> bool) \<Rightarrow> 'a list \<Rightarrow> 'a list" where
  "trim_left P s = dropWhile P s"

definition trim_right :: "('a \<Rightarrow> bool) \<Rightarrow> 'a list \<Rightarrow> 'a list" where
  "trim_right P s = rev (dropWhile P (rev s))"

lemma index_of_None_iff: "index_of s p = None \<longleftrightarrow> \<not> sublist p s"
  by (induction s) (auto simp: sublist_Cons_right)

lemma contains_iff [gostr]: "contains s p \<longleftrightarrow> sublist p s"
  by (simp add: contains_def index_of_None_iff)

lemma index_of_skip:
  assumes "\<And>i. i < length xs \<Longrightarrow> \<not> prefix p (drop i (xs @ ys))" and "prefix p ys"
  shows "index_of (xs @ ys) p = Some (length xs)"
  using assms
proof (induction xs)
  case Nil
  then show ?case by (cases ys) auto
next
  case (Cons x xs)
  have "\<not> prefix p (drop i (xs @ ys))" if "i < length xs" for i
    using Cons.prems(1) [of "Suc i"] that by simp
  with Cons have "index_of (xs @ ys) p = Some (length xs)" by blast
  with Cons.prems(1) [of 0] show ?case by simp
qed

lemma index_of_prefix: "index_of s p = Some i \<Longrightarrow> prefix p (drop i s) \<and> i + length p \<le> length s"
proof (induction s arbitrary: i)
  case Nil
  then show ?case by (simp split: if_splits)
next
  case (Cons x xs)
  then show ?case
    by (fastforce split: if_splits dest: prefix_length_le)
qed

lemma prefix_nth: "prefix p l \<Longrightarrow> k < length p \<Longrightarrow> l ! k = p ! k"
  by (auto elim!: prefixE simp: nth_append)

lemma trim_right_append [gostr]:
  "trim_right P (xs @ ys) = (if trim_right P ys = [] then trim_right P xs else xs @ trim_right P ys)"
  by (auto simp: trim_right_def dropWhile_append dropWhile_eq_Nil_conv)

lemma length_dropWhile_less [termination_simp]: "length (dropWhile P xs) < Suc (length xs)"
  by (simp add: le_imp_less_Suc length_dropWhile_le)

lemma trim_right_idem [simp]: "trim_right P (trim_right P s) = trim_right P s"
  by (simp add: trim_right_def)

lemma trim_left_idem [simp]: "trim_left P (trim_left P s) = trim_left P s"
  by (simp add: trim_left_def)

lemma trim_right_Nil [simp]: "trim_right P [] = []"
  by (simp add: trim_right_def)

lemma trim_right_snoc [simp]: "trim_right P (xs @ [x]) = (if P x then trim_right P xs else xs @ [x])"
  by (simp add: trim_right_def)

lemma trim_right_last: "trim_right P s \<noteq> [] \<Longrightarrow> \<not> P (last (trim_right P s))"
proof -
  assume "trim_right P s \<noteq> []"
  then have "dropWhile P (rev s) \<noteq> []" by (simp add: trim_right_def)
  then have "\<not> P (hd (dropWhile P (rev s)))" by (rule hd_dropWhile)
  then show ?thesis by (simp add: trim_right_def last_rev)
qed

lemma trim_right_id: "s = [] \<or> \<not> P (last s) \<Longrightarrow> trim_right P s = s"
  by (cases s rule: rev_cases) auto

lemma trim_left_id: "s = [] \<or> \<not> P (hd s) \<Longrightarrow> trim_left P s = s"
  by (cases s) (auto simp: trim_left_def)

lemma set_trim_right: "set (trim_right P s) \<subseteq> set s"
  by (auto simp: trim_right_def dest: set_dropWhileD)

lemma set_trim_left: "set (trim_left P s) \<subseteq> set s"
  by (auto simp: trim_left_def dest: set_dropWhileD)

lemma length_trim_right: "length (trim_right P s) \<le> length s"
  by (metis length_rev length_dropWhile_le trim_right_def)

lemma prefix_trim_right: "prefix (trim_right P s) s"
  by (metis rev_rev_ident suffix_dropWhile suffix_to_prefix trim_right_def)

text \<open>
  UTF-8 decoding as Go's \<^verbatim>\<open>for range\<close> and \<^verbatim>\<open>strings.Map\<close> do it: a malformed byte is one
  \<open>RuneError\<close> (U+FFFD) of width one; overlong forms, surrogates and values beyond U+10FFFF are
  malformed.
\<close>

type_synonym rune = nat

definition cont_byte :: "nat \<Rightarrow> nat \<Rightarrow> nat \<Rightarrow> bool" where
  "cont_byte lo hi b \<longleftrightarrow> lo \<le> b \<and> b \<le> hi"

definition decode_rune :: "nat list \<Rightarrow> rune \<times> nat" where
  "decode_rune bs =
    (case bs of
       [] \<Rightarrow> (65533, 0)
     | b0 # r \<Rightarrow>
       if b0 < 128 then (b0, 1)
       else if 194 \<le> b0 \<and> b0 \<le> 223 then
         (case r of b1 # _ \<Rightarrow> if cont_byte 128 191 b1
             then ((b0 - 192) * 64 + (b1 - 128), 2) else (65533, 1)
          | [] \<Rightarrow> (65533, 1))
       else if 224 \<le> b0 \<and> b0 \<le> 239 then
         (case r of b1 # b2 # _ \<Rightarrow>
             if cont_byte (if b0 = 224 then 160 else 128) (if b0 = 237 then 159 else 191) b1 \<and>
                cont_byte 128 191 b2
             then ((b0 - 224) * 4096 + (b1 - 128) * 64 + (b2 - 128), 3) else (65533, 1)
          | _ \<Rightarrow> (65533, 1))
       else if 240 \<le> b0 \<and> b0 \<le> 244 then
         (case r of b1 # b2 # b3 # _ \<Rightarrow>
             if cont_byte (if b0 = 240 then 144 else 128) (if b0 = 244 then 143 else 191) b1 \<and>
                cont_byte 128 191 b2 \<and> cont_byte 128 191 b3
             then ((b0 - 240) * 262144 + (b1 - 128) * 4096 + (b2 - 128) * 64 + (b3 - 128), 4)
             else (65533, 1)
          | _ \<Rightarrow> (65533, 1))
       else (65533, 1))"

lemma decode_rune_width: "bs \<noteq> [] \<Longrightarrow> 1 \<le> snd (decode_rune bs)"
  by (auto simp: decode_rune_def split: list.splits)

function decode_runes :: "nat list \<Rightarrow> rune list" where
  "decode_runes bs =
    (if bs = [] then []
     else fst (decode_rune bs) # decode_runes (drop (snd (decode_rune bs)) bs))"
  by pat_completeness auto
termination
  by (relation "measure length") (use decode_rune_width in \<open>auto simp: Suc_le_eq\<close>)

declare decode_runes.simps [simp del]

lemma decode_runes_Nil [simp]: "decode_runes [] = []"
  by (simp add: decode_runes.simps)

lemma decode_runes_ascii [simp]: "b < 128 \<Longrightarrow> decode_runes (b # bs) = b # decode_runes bs"
  by (subst decode_runes.simps) (simp add: decode_rune_def)

definition bytes :: "string \<Rightarrow> nat list" where
  "bytes s = map of_char s"

definition runes :: "string \<Rightarrow> rune list" where
  "runes s = decode_runes (bytes s)"

definition ascii_string :: "rune list \<Rightarrow> string" where
  "ascii_string rs = map char_of rs"

lemma decode_runes_all_ascii: "\<forall>r \<in> set rs. r < 128 \<Longrightarrow> decode_runes rs = rs"
  by (induction rs) auto

lemma runes_ascii_string: "\<forall>r \<in> set rs. r < 128 \<Longrightarrow> runes (ascii_string rs) = rs"
proof -
  assume a: "\<forall>r \<in> set rs. r < 128"
  then have "map (of_char \<circ> char_of) rs = rs"
    by (intro map_idI) (auto simp: of_char_of)
  with a show ?thesis
    by (simp add: runes_def bytes_def ascii_string_def decode_runes_all_ascii)
qed

lemma length_ascii_string [simp]: "length (ascii_string rs) = length rs"
  by (simp add: ascii_string_def)

text \<open>\<^verbatim>\<open>unicode.IsSpace\<close>, and the test \<^verbatim>\<open>strings.TrimSpace(s) == ""\<close>.\<close>

definition is_space :: "rune \<Rightarrow> bool" where
  "is_space r \<longleftrightarrow> (9 \<le> r \<and> r \<le> 13) \<or> r = 32 \<or> r = 133 \<or> r = 160 \<or> r = 5760
     \<or> (8192 \<le> r \<and> r \<le> 8202) \<or> r = 8232 \<or> r = 8233 \<or> r = 8239 \<or> r = 8287 \<or> r = 12288"

lemma is_space_code [code]:
  "is_space r \<longleftrightarrow> (let n = int r in (9 \<le> n \<and> n \<le> 13) \<or> n = 32 \<or> n = 133 \<or> n = 160 \<or> n = 5760
     \<or> (8192 \<le> n \<and> n \<le> 8202) \<or> n = 8232 \<or> n = 8233 \<or> n = 8239 \<or> n = 8287 \<or> n = 12288)"
  by (auto simp: is_space_def Let_def)

definition blank :: "string \<Rightarrow> bool" where
  "blank s \<longleftrightarrow> list_all is_space (runes s)"

lemma blank_Nil [simp]: "blank []"
  by (simp add: blank_def runes_def bytes_def)

lemma not_blank: "(of_char c :: nat) < 128 \<Longrightarrow> \<not> is_space (of_char c) \<Longrightarrow> \<not> blank (c # cs)"
  by (simp add: blank_def runes_def bytes_def)

text \<open>\<^verbatim>\<open>strings.ReplaceAll(s, old, new)\<close> for a non-empty \<^verbatim>\<open>old\<close>.\<close>

function replace_all :: "'a list \<Rightarrow> 'a list \<Rightarrow> 'a list \<Rightarrow> 'a list" where
  "replace_all [] old new = []"
| "replace_all (x # xs) old new =
     (if old \<noteq> [] \<and> prefix old (x # xs) then new @ replace_all (drop (length old) (x # xs)) old new
      else x # replace_all xs old new)"
  by pat_completeness auto
termination
  by (relation "measure (\<lambda>(s, _, _). length s)") auto

lemma replace_all_absent: "\<not> sublist old s \<Longrightarrow> replace_all s old new = s"
  by (induction s old new rule: replace_all.induct) (auto simp: sublist_Cons_right)

text \<open>\<^verbatim>\<open>strconv.FormatInt(n, 10)\<close> for \<open>n \<ge> 0\<close>, the values the code formats (Unix times).\<close>

fun nat_digits :: "nat \<Rightarrow> string" where
  "nat_digits n = (if n < 10 then [char_of (48 + n)] else nat_digits (n div 10) @ [char_of (48 + n mod 10)])"

declare nat_digits.simps [simp del]

definition format_int :: "int \<Rightarrow> string" where
  "format_int i = (if i < 0 then CHR ''-'' # nat_digits (nat (- i)) else nat_digits (nat i))"

section \<open>Sums as results\<close>

text \<open>A fallible Go call returns \<open>Inl e\<close> for its error and \<open>Inr v\<close> for its value.\<close>

definition bind_res :: "'e + 'a \<Rightarrow> ('a \<Rightarrow> 'e + 'b) \<Rightarrow> 'e + 'b" where
  "bind_res m f = (case m of Inl e \<Rightarrow> Inl e | Inr v \<Rightarrow> f v)"

lemma bind_res_simps [simp]:
  "bind_res (Inl e) f = Inl e" "bind_res (Inr v) f = f v"
  by (simp_all add: bind_res_def)

lemma bind_res_Inr_iff: "bind_res m f = Inr w \<longleftrightarrow> (\<exists>v. m = Inr v \<and> f v = Inr w)"
  by (cases m) auto

end
