(* ===== verification/Board.thy ===== *)
theory Board
  imports Prelude
begin

text \<open>
  \<^verbatim>\<open>internal/board/board.go\<close>: the ticket record, its status, type and agent-status enums, the
  slug derivation and the two status transitions.

  The enums are Go string types, so a field may hold any string (a hand-edited file, a
  legacy JSON); they are strings here too, with one abbreviation per constant of the source.
\<close>

section \<open>Slugify\<close>

text \<open>
  \<^verbatim>\<open>strings.ToLower\<close> and \<^verbatim>\<open>unicode.IsLetter/IsDigit\<close> on the runes of the title.  On ASCII they are
  written out.  Beyond ASCII, \<open>ulow\<close> and \<open>ulet\<close> are the tables of package \<^verbatim>\<open>unicode\<close>; the two
  code points whose lower case is an ASCII letter (U+0130 and the Kelvin sign U+212A) are
  written out as well.
\<close>

definition is_upper :: "rune \<Rightarrow> bool" where
  "is_upper r \<longleftrightarrow> 65 \<le> r \<and> r \<le> 90"

definition is_lower :: "rune \<Rightarrow> bool" where
  "is_lower r \<longleftrightarrow> 97 \<le> r \<and> r \<le> 122"

definition is_digit :: "rune \<Rightarrow> bool" where
  "is_digit r \<longleftrightarrow> 48 \<le> r \<and> r \<le> 57"

definition dash :: rune where
  "dash = 45"

definition to_lower :: "(rune \<Rightarrow> rune) \<Rightarrow> rune \<Rightarrow> rune" where
  "to_lower ulow r =
     (if is_upper r then r + 32 else if r < 128 then r
      else if r = 304 then 105 else if r = 8490 then 107 else ulow r)"

definition letter_or_digit :: "(rune \<Rightarrow> bool) \<Rightarrow> rune \<Rightarrow> bool" where
  "letter_or_digit ulet r \<longleftrightarrow>
     (if r < 128 then is_upper r \<or> is_lower r \<or> is_digit r else ulet r)"

definition alnum :: "rune \<Rightarrow> bool" where
  "alnum r \<longleftrightarrow> is_lower r \<or> is_digit r"

text \<open>\<^verbatim>\<open>nonAlphanumericRegex.ReplaceAllString(slug, "-")\<close>: each maximal run outside
  \<^verbatim>\<open>[a-z0-9-]\<close> becomes one dash.\<close>

fun squash :: "rune list \<Rightarrow> rune list" where
  "squash [] = []"
| "squash (r # rs) =
     (if alnum r \<or> r = dash then r # squash rs
      else dash # squash (dropWhile (\<lambda>x. \<not> (alnum x \<or> x = dash)) rs))"

text \<open>\<^verbatim>\<open>strings.ReplaceAll(slug, "--", "-")\<close>, and the loop that repeats it while a double dash is
  left.\<close>

fun replace_dd :: "rune list \<Rightarrow> rune list" where
  "replace_dd (a # b # rs) = (if a = dash \<and> b = dash then dash # replace_dd rs else a # replace_dd (b # rs))"
| "replace_dd rs = rs"

fun has_dd :: "rune list \<Rightarrow> bool" where
  "has_dd (a # b # rs) = (a = dash \<and> b = dash \<or> has_dd (b # rs))"
| "has_dd rs = False"

lemma length_replace_dd: "length (replace_dd rs) \<le> length rs"
  by (induction rs rule: replace_dd.induct) auto

lemma replace_dd_shrinks: "has_dd rs \<Longrightarrow> length (replace_dd rs) < length rs"
proof (induction rs rule: replace_dd.induct)
  case (1 a b rs)
  then show ?case using length_replace_dd [of rs] by auto
qed auto

function collapse :: "rune list \<Rightarrow> rune list" where
  "collapse rs = (if has_dd rs then collapse (replace_dd rs) else rs)"
  by pat_completeness auto
termination
  by (relation "measure length") (auto simp: replace_dd_shrinks)

declare collapse.simps [simp del]

definition trim_dash :: "rune list \<Rightarrow> rune list" where
  "trim_dash rs = trim_right (\<lambda>r. r = dash) (trim_left (\<lambda>r. r = dash) rs)"

definition slug_limit :: "int \<Rightarrow> nat" where
  "slug_limit maxLen = (if maxLen \<le> 0 then 40 else nat maxLen)"

definition slug_runes :: "(rune \<Rightarrow> bool) \<Rightarrow> (rune \<Rightarrow> rune) \<Rightarrow> rune list \<Rightarrow> rune list" where
  "slug_runes ulet ulow rs =
     collapse (trim_dash (squash
       (map (\<lambda>r. if letter_or_digit ulet r then r else dash) (map (to_lower ulow) rs))))"

definition Slugify_with :: "(rune \<Rightarrow> bool) \<Rightarrow> (rune \<Rightarrow> rune) \<Rightarrow> string \<Rightarrow> int \<Rightarrow> string" where
  "Slugify_with ulet ulow s maxLen =
     (let slug = slug_runes ulet ulow (runes s);
          n = slug_limit maxLen
      in ascii_string (if n < length slug then trim_right (\<lambda>r. r = dash) (take n slug) else slug))"

text \<open>
  \<^verbatim>\<open>Slugify\<close> with the Unicode tables fixed: no letter beyond ASCII, no case mapping beyond the
  two special code points.  Theorem \<open>Slugify_tables_irrelevant\<close> below shows that the real
  tables give the same slug.
\<close>

definition Slugify :: "string \<Rightarrow> int \<Rightarrow> string" where
  "Slugify = Slugify_with (\<lambda>_. False) (\<lambda>r. r)"

section \<open>Statuses, types, agent statuses\<close>

type_synonym TicketID = string
type_synonym TicketStatus = string
type_synonym TicketType = string
type_synonym AgentStatus = string

abbreviation (input) StatusBacklog :: TicketStatus where "StatusBacklog \<equiv> ''backlog''"
abbreviation (input) StatusNext :: TicketStatus where "StatusNext \<equiv> ''next''"
abbreviation (input) StatusInProgress :: TicketStatus where "StatusInProgress \<equiv> ''in_progress''"
abbreviation (input) StatusInReview :: TicketStatus where "StatusInReview \<equiv> ''in_review''"
abbreviation (input) StatusDone :: TicketStatus where "StatusDone \<equiv> ''done''"
abbreviation (input) StatusArchived :: TicketStatus where "StatusArchived \<equiv> ''archived''"

abbreviation (input) TypeFreeform :: TicketType where "TypeFreeform \<equiv> ''''"
abbreviation (input) TypeResearch :: TicketType where "TypeResearch \<equiv> ''research''"
abbreviation (input) TypeSpec :: TicketType where "TypeSpec \<equiv> ''spec''"
abbreviation (input) TypeImplement :: TicketType where "TypeImplement \<equiv> ''implement''"
abbreviation (input) TypeReview :: TicketType where "TypeReview \<equiv> ''review''"

abbreviation (input) AgentNone :: AgentStatus where "AgentNone \<equiv> ''none''"
abbreviation (input) AgentIdle :: AgentStatus where "AgentIdle \<equiv> ''idle''"
abbreviation (input) AgentWorking :: AgentStatus where "AgentWorking \<equiv> ''working''"
abbreviation (input) AgentWaiting :: AgentStatus where "AgentWaiting \<equiv> ''waiting''"
abbreviation (input) AgentCompleted :: AgentStatus where "AgentCompleted \<equiv> ''completed''"
abbreviation (input) AgentError :: AgentStatus where "AgentError \<equiv> ''error''"
abbreviation (input) AgentStuck :: AgentStatus where "AgentStuck \<equiv> ''stuck''"
abbreviation (input) AgentSubagents :: AgentStatus where "AgentSubagents \<equiv> ''subagents''"

datatype board_error = BadStatus string | BadType string | ErrTicketNotFound

definition ParseStatus :: "string \<Rightarrow> board_error + TicketStatus" where
  "ParseStatus s =
     (if s = StatusBacklog \<or> s = StatusNext \<or> s = StatusInProgress \<or> s = StatusInReview
         \<or> s = StatusDone \<or> s = StatusArchived
      then Inr s else Inl (BadStatus s))"

definition ParseTicketType :: "string \<Rightarrow> board_error + TicketType" where
  "ParseTicketType s =
     (if s = TypeFreeform \<or> s = TypeResearch \<or> s = TypeSpec \<or> s = TypeImplement \<or> s = TypeReview
      then Inr s
      else if s = ''freeform'' then Inr TypeFreeform
      else Inl (BadType s))"

section \<open>Tickets\<close>

record Ticket =
  t_ID :: TicketID
  t_ProjectID :: string
  t_Title :: string
  t_Description :: string
  t_Status :: TicketStatus
  t_UseWorktree :: bool
  t_WorktreePath :: string
  t_BranchName :: string
  t_BaseBranch :: string
  t_AgentType :: string
  t_AgentStatus :: AgentStatus
  t_AgentSpawnedAt :: "time option"
  t_AgentPort :: int
  t_AgentSessionID :: string
  t_CreatedBySession :: string
  t_CreatedAt :: time
  t_UpdatedAt :: time
  t_StartedAt :: "time option"
  t_CompletedAt :: "time option"
  t_StatusChangedAt :: "time option"
  t_Labels :: "string list"
  t_Priority :: int
  t_Meta :: "(string, string) gomap"
  t_Type :: TicketType
  t_BlockedBy :: "TicketID list"

text \<open>\<^verbatim>\<open>NewTicket\<close>: \<open>now\<close> is \<^verbatim>\<open>time.Now()\<close> and \<open>uuid\<close> the string of \<^verbatim>\<open>uuid.New()\<close>.\<close>

definition NewTicket :: "time \<Rightarrow> string \<Rightarrow> string \<Rightarrow> string \<Rightarrow> Ticket" where
  "NewTicket now uuid title projectID =
     \<lparr> t_ID = uuid, t_ProjectID = projectID, t_Title = title, t_Description = [],
       t_Status = StatusBacklog, t_UseWorktree = True, t_WorktreePath = [],
       t_BranchName = [], t_BaseBranch = [], t_AgentType = [], t_AgentStatus = AgentNone,
       t_AgentSpawnedAt = None, t_AgentPort = 0, t_AgentSessionID = [],
       t_CreatedBySession = [], t_CreatedAt = now, t_UpdatedAt = now, t_StartedAt = None,
       t_CompletedAt = None, t_StatusChangedAt = Some now, t_Labels = [], t_Priority = 3,
       t_Meta = [], t_Type = TypeFreeform, t_BlockedBy = [] \<rparr>"

definition Touch :: "time \<Rightarrow> Ticket \<Rightarrow> Ticket" where
  "Touch now t = t\<lparr>t_UpdatedAt := now\<rparr>"

definition SetStatus :: "time \<Rightarrow> TicketStatus \<Rightarrow> Ticket \<Rightarrow> Ticket" where
  "SetStatus now status t =
     (let t1 = t\<lparr>t_Status := status, t_UpdatedAt := now, t_StatusChangedAt := Some now\<rparr>;
          t2 = (if status = StatusInProgress then t1\<lparr>t_StartedAt := Some now\<rparr>
                else if status = StatusDone then t1\<lparr>t_CompletedAt := Some now\<rparr>
                else t1)
      in if status = StatusBacklog \<or> status = StatusNext \<or> status = StatusInProgress
         then (if t_AgentStatus t2 = AgentCompleted then t2\<lparr>t_AgentStatus := AgentNone\<rparr> else t2)
                \<lparr>t_CompletedAt := None\<rparr>
         else t2)"

definition SetAgentStatus :: "time \<Rightarrow> AgentStatus \<Rightarrow> Ticket \<Rightarrow> Ticket \<times> bool" where
  "SetAgentStatus now as t =
     (if t_AgentStatus t = as then (t, False)
      else (t\<lparr>t_AgentStatus := as, t_UpdatedAt := now, t_StatusChangedAt := Some now\<rparr>, True))"

record Column =
  c_ID :: string
  c_Name :: string
  c_Status :: TicketStatus
  c_Color :: string
  c_Limit :: int

definition DefaultColumns :: "Column list" where
  "DefaultColumns =
     [\<lparr>c_ID = ''backlog'', c_Name = ''Backlog'', c_Status = StatusBacklog, c_Color = ''#89b4fa'', c_Limit = 0\<rparr>,
      \<lparr>c_ID = ''next'', c_Name = ''Next'', c_Status = StatusNext, c_Color = ''#94e2d5'', c_Limit = 0\<rparr>,
      \<lparr>c_ID = ''in-progress'', c_Name = ''In Progress'', c_Status = StatusInProgress, c_Color = ''#f9e2af'', c_Limit = 3\<rparr>,
      \<lparr>c_ID = ''in-review'', c_Name = ''In Review'', c_Status = StatusInReview, c_Color = ''#cba6f7'', c_Limit = 0\<rparr>,
      \<lparr>c_ID = ''done'', c_Name = ''Done'', c_Status = StatusDone, c_Color = ''#a6e3a1'', c_Limit = 0\<rparr>]"


section \<open>The shape of a slug\<close>

definition slug_chars :: "rune list \<Rightarrow> bool" where
  "slug_chars rs \<longleftrightarrow> (\<forall>r \<in> set rs. alnum r \<or> r = dash)"

definition is_slug :: "rune list \<Rightarrow> bool" where
  "is_slug rs \<longleftrightarrow> slug_chars rs \<and> \<not> has_dd rs \<and> (rs \<noteq> [] \<longrightarrow> hd rs \<noteq> dash \<and> last rs \<noteq> dash)"

lemma slug_chars_simps [simp]:
  "slug_chars []" "slug_chars (r # rs) \<longleftrightarrow> (alnum r \<or> r = dash) \<and> slug_chars rs"
  by (auto simp: slug_chars_def)

lemma slug_chars_subset: "slug_chars rs \<Longrightarrow> set xs \<subseteq> set rs \<Longrightarrow> slug_chars xs"
  by (auto simp: slug_chars_def)

lemma slug_chars_ascii: "slug_chars rs \<Longrightarrow> \<forall>r \<in> set rs. r < 128"
  by (auto simp: slug_chars_def alnum_def is_lower_def is_digit_def dash_def)

lemma not_alnum_dash [simp]: "\<not> alnum dash"
  by (simp add: alnum_def is_lower_def is_digit_def dash_def)

lemma slug_chars_squash: "slug_chars (squash rs)"
  by (induction rs rule: squash.induct) auto

lemma squash_id: "slug_chars rs \<Longrightarrow> squash rs = rs"
  by (induction rs) auto

lemma set_replace_dd: "set (replace_dd rs) \<subseteq> set rs"
  by (induction rs rule: replace_dd.induct) auto

lemma replace_dd_Nil [simp]: "replace_dd rs = [] \<longleftrightarrow> rs = []"
  by (induction rs rule: replace_dd.induct) auto

lemma hd_replace_dd [simp]: "hd (replace_dd rs) = hd rs"
  by (induction rs rule: replace_dd.induct) auto

lemma last_replace_dd [simp]: "last (replace_dd rs) = last rs"
  by (induction rs rule: replace_dd.induct) auto

lemma collapse_props:
  "\<not> has_dd (collapse rs) \<and> set (collapse rs) \<subseteq> set rs \<and> hd (collapse rs) = hd rs
   \<and> last (collapse rs) = last rs \<and> (collapse rs = [] \<longleftrightarrow> rs = [])"
proof (induction rs rule: collapse.induct)
  case (1 rs)
  show ?case
  proof (cases "has_dd rs")
    case True
    with 1 set_replace_dd [of rs] show ?thesis by (auto simp: collapse.simps [of rs])
  next
    case False
    then show ?thesis by (simp add: collapse.simps [of rs])
  qed
qed

lemma collapse_id: "\<not> has_dd rs \<Longrightarrow> collapse rs = rs"
  by (simp add: collapse.simps)

lemma trim_dash_ends:
  "trim_dash rs \<noteq> [] \<Longrightarrow> hd (trim_dash rs) \<noteq> dash \<and> last (trim_dash rs) \<noteq> dash"
proof -
  let ?l = "trim_left (\<lambda>r. r = dash) rs"
  assume ne: "trim_dash rs \<noteq> []"
  then have "?l \<noteq> []" by (auto simp: trim_dash_def)
  then have "hd ?l \<noteq> dash"
    using hd_dropWhile [of "\<lambda>r. r = dash" rs] by (simp add: trim_left_def)
  moreover have "hd (trim_dash rs) = hd ?l"
    using ne prefix_trim_right [of "\<lambda>r. r = dash" ?l] unfolding trim_dash_def
    by (metis hd_append2 prefixE)
  moreover have "last (trim_dash rs) \<noteq> dash"
    using ne trim_right_last [of "\<lambda>r. r = dash" ?l] unfolding trim_dash_def by auto
  ultimately show ?thesis by simp
qed

lemma set_trim_dash: "set (trim_dash rs) \<subseteq> set rs"
  unfolding trim_dash_def using set_trim_left set_trim_right by fast

lemma is_slug_slug_runes: "is_slug (slug_runes ulet ulow rs)"
proof -
  let ?t = "trim_dash (squash
       (map (\<lambda>r. if letter_or_digit ulet r then r else dash) (map (to_lower ulow) rs)))"
  let ?c = "collapse ?t"
  have p: "\<not> has_dd ?c" "set ?c \<subseteq> set ?t" "hd ?c = hd ?t" "last ?c = last ?t" "?c = [] \<longleftrightarrow> ?t = []"
    using collapse_props [of ?t] by blast+
  have "slug_chars ?t"
    by (rule slug_chars_subset [OF slug_chars_squash set_trim_dash])
  then have "slug_chars ?c" using p(2) by (rule slug_chars_subset)
  moreover have "hd ?c \<noteq> dash \<and> last ?c \<noteq> dash" if "?c \<noteq> []"
    unfolding p(3,4) using that p(5) by (intro trim_dash_ends) simp
  ultimately show ?thesis
    using p(1) unfolding slug_runes_def is_slug_def by blast
qed

lemma has_dd_append: "has_dd xs \<Longrightarrow> has_dd (xs @ ys)"
  by (induction xs rule: has_dd.induct) (auto split: list.splits)

lemma is_slug_take:
  assumes "is_slug rs" "0 < n"
  shows "is_slug (trim_right (\<lambda>r. r = dash) (take n rs))"
proof -
  let ?u = "trim_right (\<lambda>r. r = dash) (take n rs)"
  obtain ys where rs: "rs = ?u @ ys"
    using prefix_trim_right take_is_prefix prefix_order.trans prefixE by metis
  have "slug_chars ?u"
    using assms(1) rs slug_chars_subset [of rs ?u] by (metis is_slug_def Un_upper1 set_append)
  moreover have "\<not> has_dd ?u"
    using assms(1) rs has_dd_append is_slug_def by metis
  moreover have "hd ?u \<noteq> dash" if "?u \<noteq> []"
    using assms(1) rs that by (metis append_is_Nil_conv hd_append2 is_slug_def)
  moreover have "last ?u \<noteq> dash" if "?u \<noteq> []"
    using that by (rule trim_right_last)
  ultimately show ?thesis by (simp add: is_slug_def)
qed

lemma slug_limit_pos: "0 < slug_limit n"
  by (simp add: slug_limit_def)

lemma Slugify_with_slug:
  "\<exists>rs. Slugify_with ulet ulow s n = ascii_string rs \<and> is_slug rs \<and> length rs \<le> slug_limit n"
proof -
  let ?r = "slug_runes ulet ulow (runes s)"
  let ?t = "trim_right (\<lambda>r. r = dash) (take (slug_limit n) ?r)"
  have "is_slug ?r" by (rule is_slug_slug_runes)
  moreover from this have "is_slug ?t" by (rule is_slug_take) (rule slug_limit_pos)
  moreover have "length ?t \<le> slug_limit n"
    using length_trim_right [of "\<lambda>r. r = dash" "take (slug_limit n) ?r"] by simp
  ultimately show ?thesis
    by (auto simp: Slugify_with_def Let_def not_less)
qed

lemma to_lower_alnum: "alnum r \<or> r = dash \<Longrightarrow> to_lower ulow r = r"
  by (auto simp: to_lower_def alnum_def is_lower_def is_digit_def is_upper_def dash_def)

lemma letter_or_digit_alnum: "alnum r \<Longrightarrow> letter_or_digit ulet r"
  by (auto simp: letter_or_digit_def alnum_def is_lower_def is_digit_def)

lemma slug_runes_id: "is_slug rs \<Longrightarrow> slug_runes ulet ulow rs = rs"
proof -
  assume s: "is_slug rs"
  then have c: "slug_chars rs" and e: "rs = [] \<or> hd rs \<noteq> dash \<and> last rs \<noteq> dash"
    by (auto simp: is_slug_def)
  have "map (\<lambda>r. if letter_or_digit ulet r then r else dash) (map (to_lower ulow) rs) = rs"
    using c by (auto simp: slug_chars_def to_lower_alnum letter_or_digit_alnum intro!: map_idI)
  moreover have "trim_dash rs = rs"
    using e by (auto simp: trim_dash_def trim_left_id trim_right_id)
  ultimately show ?thesis
    using s by (simp add: slug_runes_def squash_id [OF c] collapse_id is_slug_def)
qed

lemma Slugify_slug_id:
  "is_slug rs \<Longrightarrow> length rs \<le> slug_limit n \<Longrightarrow> Slugify (ascii_string rs) n = ascii_string rs"
proof -
  assume s: "is_slug rs" and l: "length rs \<le> slug_limit n"
  then have "runes (ascii_string rs) = rs"
    by (intro runes_ascii_string slug_chars_ascii) (simp add: is_slug_def)
  with s l show ?thesis
    by (simp add: Slugify_def Slugify_with_def slug_runes_id)
qed

section \<open>The Unicode tables do not matter\<close>

text \<open>
  The reference for the pipeline: \<open>norm\<close> keeps the letters and digits and puts one dash for each
  maximal run of anything else.
\<close>

fun norm :: "rune list \<Rightarrow> rune list" where
  "norm [] = []"
| "norm (r # rs) = (if alnum r then r # norm rs else dash # norm (dropWhile (\<lambda>x. \<not> alnum x) rs))"

lemma norm_drop: "norm (dropWhile (\<lambda>x. \<not> alnum x) (dropWhile P rs)) = norm (dropWhile (\<lambda>x. \<not> alnum x) rs)"
  if "\<And>x. P x \<Longrightarrow> \<not> alnum x"
  using that by (induction rs) auto

lemma norm_squash_drop:
  "norm (dropWhile (\<lambda>x. \<not> alnum x) (squash rs)) = norm (dropWhile (\<lambda>x. \<not> alnum x) rs) \<and>
   norm (squash rs) = norm rs"
proof (induction rs rule: squash.induct)
  case (2 r rs)
  then show ?case
    using norm_drop [of "\<lambda>x. \<not> (alnum x \<or> x = dash)" rs] by auto
qed simp

lemma norm_replace_dd:
  "norm (dropWhile (\<lambda>x. \<not> alnum x) (replace_dd rs)) = norm (dropWhile (\<lambda>x. \<not> alnum x) rs) \<and>
   norm (replace_dd rs) = norm rs"
  by (induction rs rule: replace_dd.induct) auto

lemma norm_id: "slug_chars rs \<Longrightarrow> \<not> has_dd rs \<Longrightarrow> norm rs = rs"
  by (induction rs rule: has_dd.induct) auto

lemma collapse_norm: "slug_chars rs \<Longrightarrow> collapse rs = norm rs"
proof (induction rs rule: collapse.induct)
  case (1 rs)
  show ?case
  proof (cases "has_dd rs")
    case True
    have "slug_chars (replace_dd rs)"
      using "1.prems" set_replace_dd slug_chars_subset by blast
    with 1 True show ?thesis by (simp add: collapse.simps [of rs] norm_replace_dd)
  next
    case False
    with "1.prems" show ?thesis by (simp add: collapse.simps [of rs] norm_id)
  qed
qed

lemma norm_head: "norm (dropWhile (\<lambda>x. \<not> alnum x) rs) = [] \<or> alnum (hd (norm (dropWhile (\<lambda>x. \<not> alnum x) rs)))"
  by (induction rs) auto

lemma trim_left_norm:
  "slug_chars rs \<Longrightarrow> norm (trim_left (\<lambda>r. r = dash) rs) = trim_left (\<lambda>r. r = dash) (norm rs)"
proof (cases rs)
  case (Cons r rs')
  assume c: "slug_chars rs"
  have d: "slug_chars xs \<Longrightarrow> dropWhile (\<lambda>r. r = dash) xs = dropWhile (\<lambda>x. \<not> alnum x) xs" for xs
    by (induction xs) auto
  let ?d = "norm (dropWhile (\<lambda>x. \<not> alnum x) rs')"
  have "dropWhile (\<lambda>r. r = dash) ?d = ?d"
    using norm_head [of rs'] by (cases ?d) auto
  with Cons c d [of rs'] show ?thesis
    by (auto simp: trim_left_def)
qed (simp add: trim_left_def)

lemma norm_append:
  "u \<noteq> [] \<Longrightarrow> alnum (last u) \<Longrightarrow> norm (u @ d) = norm u @ norm d"
proof (induction u rule: norm.induct)
  case (2 r rs)
  show ?case
  proof (cases "rs = []")
    case False
    with 2 have l: "last rs \<in> set rs" "alnum (last rs)" by auto
    have a: "dropWhile (\<lambda>x. \<not> alnum x) (rs @ d) = dropWhile (\<lambda>x. \<not> alnum x) rs @ d"
      using l by (intro dropWhile_append1) auto
    have b: "dropWhile (\<lambda>x. \<not> alnum x) rs \<noteq> []"
      using l by (auto simp: dropWhile_eq_Nil_conv)
    then have "last (dropWhile (\<lambda>x. \<not> alnum x) rs) = last rs"
      by (metis last_appendR takeWhile_dropWhile_id)
    with 2 False l a b show ?thesis by auto
  qed (use 2 in auto)
qed simp

lemma norm_dashes: "\<forall>r \<in> set d. r = dash \<Longrightarrow> norm d = [] \<or> norm d = [dash]"
proof (cases d)
  case (Cons r rs)
  assume "\<forall>r \<in> set d. r = dash"
  with Cons have "dropWhile (\<lambda>x. \<not> alnum x) rs = []" and "r = dash"
    by (auto simp: dropWhile_eq_Nil_conv)
  then have "norm (r # rs) = dash # norm []" by (simp only: norm.simps not_alnum_dash if_False)
  with Cons show ?thesis by simp
qed simp

lemma norm_snoc: "alnum x \<Longrightarrow> \<exists>w. norm (v @ [x]) = w @ [x]"
proof (induction v rule: norm.induct)
  case (2 r rs)
  have "dropWhile (\<lambda>x. \<not> alnum x) (rs @ [x]) = dropWhile (\<lambda>x. \<not> alnum x) rs @ [x]"
    using 2 by (auto simp: dropWhile_append)
  with 2 show ?case by (cases "alnum r") auto
qed simp

lemma norm_last: "u \<noteq> [] \<Longrightarrow> alnum (last u) \<Longrightarrow> norm u \<noteq> [] \<and> last (norm u) = last u"
proof -
  assume u: "u \<noteq> []" "alnum (last u)"
  obtain w where "norm (butlast u @ [last u]) = w @ [last u]"
    using norm_snoc [OF u(2)] by blast
  with u(1) show ?thesis by simp
qed

lemma trim_right_norm:
  "slug_chars rs \<Longrightarrow> norm (trim_right (\<lambda>r. r = dash) rs) = trim_right (\<lambda>r. r = dash) (norm rs)"
proof -
  let ?u = "trim_right (\<lambda>r. r = dash) rs"
  assume c: "slug_chars rs"
  obtain d where d: "rs = ?u @ d" and dd: "\<forall>r \<in> set d. r = dash"
  proof -
    have "rs = ?u @ rev (takeWhile (\<lambda>r. r = dash) (rev rs))"
      by (metis rev_append rev_rev_ident takeWhile_dropWhile_id trim_right_def)
    then show ?thesis
      by (rule that) (auto dest: set_takeWhileD)
  qed
  show ?thesis
  proof (cases "?u = []")
    case True
    with d have "rs = d" by simp
    moreover have "norm ?u = []" by (simp only: True norm.simps)
    moreover have "trim_right (\<lambda>r. r = dash) (norm d) = []"
      using norm_dashes [OF dd] by (auto simp: trim_right_def)
    ultimately show ?thesis by simp
  next
    case False
    have "last ?u \<noteq> dash" using False by (rule trim_right_last)
    moreover have "last ?u \<in> set rs" using False d by (metis Un_iff last_in_set set_append)
    ultimately have a: "alnum (last ?u)" using c by (auto simp: slug_chars_def)
    have "norm rs = norm ?u @ norm d"
      using norm_append [OF False a, of d] d by simp
    moreover have "norm ?u \<noteq> []" "last (norm ?u) \<noteq> dash"
      using norm_last [OF False a] a by auto
    ultimately show ?thesis
      using norm_dashes [OF dd] trim_right_id [of "norm ?u" "\<lambda>r. r = dash"] by auto
  qed
qed

lemma slug_runes_norm:
  "slug_runes ulet ulow rs = trim_dash (norm
     (map (\<lambda>r. if letter_or_digit ulet r then r else dash) (map (to_lower ulow) rs)))"
proof -
  let ?m = "map (\<lambda>r. if letter_or_digit ulet r then r else dash) (map (to_lower ulow) rs)"
  have s: "slug_chars (squash ?m)" by (rule slug_chars_squash)
  have l: "slug_chars (trim_left (\<lambda>r. r = dash) (squash ?m))"
    using s set_trim_left by (rule slug_chars_subset)
  have t: "slug_chars (trim_dash (squash ?m))"
    using s set_trim_dash by (rule slug_chars_subset)
  have "slug_runes ulet ulow rs = norm (trim_dash (squash ?m))"
    unfolding slug_runes_def by (rule collapse_norm [OF t])
  also have "\<dots> = trim_dash (norm (squash ?m))"
    unfolding trim_dash_def by (simp only: trim_right_norm [OF l] trim_left_norm [OF s])
  finally show ?thesis by (simp only: norm_squash_drop)
qed

lemma norm_class:
  "list_all2 (\<lambda>x y. x = y \<or> \<not> alnum x \<and> \<not> alnum y) xs ys \<Longrightarrow>
     norm xs = norm ys \<and> norm (dropWhile (\<lambda>x. \<not> alnum x) xs) = norm (dropWhile (\<lambda>x. \<not> alnum x) ys)"
  by (induction rule: list_all2_induct) auto

text \<open>What \<open>unicode.ToLower\<close> guarantees beyond ASCII: apart from the two code points written out,
  it stays beyond ASCII.\<close>

definition lower_table :: "(rune \<Rightarrow> rune) \<Rightarrow> bool" where
  "lower_table ulow \<longleftrightarrow> (\<forall>r \<ge> 128. r \<noteq> 304 \<longrightarrow> r \<noteq> 8490 \<longrightarrow> 128 \<le> ulow r)"

definition kept :: "(rune \<Rightarrow> bool) \<Rightarrow> (rune \<Rightarrow> rune) \<Rightarrow> rune \<Rightarrow> rune" where
  "kept ulet ulow r = (if letter_or_digit ulet (to_lower ulow r) then to_lower ulow r else dash)"

lemma map_kept: "map (\<lambda>r. if letter_or_digit ulet r then r else dash) (map (to_lower ulow) rs) =
    map (kept ulet ulow) rs"
  by (simp add: kept_def)

lemma kept_class:
  assumes "lower_table ulow"
  shows "kept ulet ulow r = kept (\<lambda>_. False) (\<lambda>r. r) r \<or>
    \<not> alnum (kept ulet ulow r) \<and> \<not> alnum (kept (\<lambda>_. False) (\<lambda>r. r) r)"
proof (cases "r < 128 \<or> r = 304 \<or> r = 8490")
  case True
  then have eq: "to_lower ulow r = to_lower (\<lambda>r. r) r" "to_lower ulow r < 128"
    by (auto simp: to_lower_def is_upper_def)
  then have "letter_or_digit ulet (to_lower ulow r) = letter_or_digit (\<lambda>_. False) (to_lower ulow r)"
    by (simp add: letter_or_digit_def)
  with eq show ?thesis by (simp add: kept_def)
next
  case False
  then have "128 \<le> ulow r" using assms by (auto simp: lower_table_def)
  with False show ?thesis
    by (auto simp: kept_def to_lower_def is_upper_def alnum_def is_lower_def is_digit_def dash_def
        letter_or_digit_def)
qed

lemma slug_runes_tables:
  assumes "lower_table ulow"
  shows "slug_runes ulet ulow rs = slug_runes (\<lambda>_. False) (\<lambda>r. r) rs"
proof -
  have "list_all2 (\<lambda>x y. x = y \<or> \<not> alnum x \<and> \<not> alnum y)
     (map (kept ulet ulow) rs) (map (kept (\<lambda>_. False) (\<lambda>r. r)) rs)"
    by (simp only: list_all2_map1 list_all2_map2) (rule list_all2_refl, rule kept_class [OF assms])
  from norm_class [OF this] show ?thesis by (simp only: slug_runes_norm map_kept)
qed


section \<open>Life cycle of a ticket\<close>

text \<open>The transitions a ticket goes through under a clock that never runs backwards.\<close>

inductive ticket_run :: "time \<Rightarrow> Ticket \<Rightarrow> bool" where
  run_new: "ticket_run now (NewTicket now uuid title projectID)"
| run_status: "ticket_run c t \<Longrightarrow> c \<le> now \<Longrightarrow> ticket_run now (SetStatus now status t)"
| run_agent: "ticket_run c t \<Longrightarrow> c \<le> now \<Longrightarrow> ticket_run now (fst (SetAgentStatus now as t))"
| run_touch: "ticket_run c t \<Longrightarrow> c \<le> now \<Longrightarrow> ticket_run now (Touch now t)"

definition active_status :: "TicketStatus \<Rightarrow> bool" where
  "active_status s \<longleftrightarrow> s = StatusBacklog \<or> s = StatusNext \<or> s = StatusInProgress"

definition stamp_within :: "time \<Rightarrow> time \<Rightarrow> time option \<Rightarrow> bool" where
  "stamp_within lo hi x \<longleftrightarrow> (case x of None \<Rightarrow> True | Some v \<Rightarrow> lo \<le> v \<and> v \<le> hi)"

definition lifecycle_ok :: "time \<Rightarrow> Ticket \<Rightarrow> bool" where
  "lifecycle_ok c t \<longleftrightarrow>
     (active_status (t_Status t) \<longrightarrow> t_CompletedAt t = None) \<and>
     (t_Status t = StatusDone \<longrightarrow> t_CompletedAt t \<noteq> None) \<and>
     (t_Status t = StatusInProgress \<longrightarrow> t_StartedAt t \<noteq> None) \<and>
     t_StatusChangedAt t \<noteq> None \<and> t_CreatedAt t \<le> t_UpdatedAt t \<and> t_UpdatedAt t \<le> c \<and>
     stamp_within (t_CreatedAt t) (t_UpdatedAt t) (t_StatusChangedAt t) \<and>
     stamp_within (t_CreatedAt t) (t_UpdatedAt t) (t_StartedAt t) \<and>
     stamp_within (t_CreatedAt t) (t_UpdatedAt t) (t_CompletedAt t)"

lemmas lifecycle_defs = lifecycle_ok_def active_status_def stamp_within_def

lemma lifecycle_NewTicket: "lifecycle_ok now (NewTicket now uuid title projectID)"
  by (simp add: lifecycle_defs NewTicket_def)

lemma stamp_within_mono: "stamp_within lo hi x \<Longrightarrow> hi \<le> hi' \<Longrightarrow> stamp_within lo hi' x"
  by (auto simp: stamp_within_def split: option.splits)

lemma stamp_within_simps [simp]:
  "stamp_within lo hi None" "stamp_within lo hi (Some v) \<longleftrightarrow> lo \<le> v \<and> v \<le> hi"
  by (simp_all add: stamp_within_def)

lemma lifecycle_SetStatus:
  assumes "lifecycle_ok c t" "c \<le> now"
  shows "lifecycle_ok now (SetStatus now status t)"
proof -
  have le: "t_CreatedAt t \<le> now" "t_UpdatedAt t \<le> now"
    using assms by (auto simp: lifecycle_ok_def)
  have "stamp_within (t_CreatedAt t) now (t_StartedAt t)" "stamp_within (t_CreatedAt t) now (t_CompletedAt t)"
    using assms stamp_within_mono by (auto simp: lifecycle_ok_def intro: le(2))
  with le show ?thesis
    by (auto simp: lifecycle_ok_def active_status_def SetStatus_def Let_def)
qed

lemma lifecycle_SetAgentStatus:
  assumes "lifecycle_ok c t" "c \<le> now"
  shows "lifecycle_ok now (fst (SetAgentStatus now as t))"
proof -
  have le: "t_UpdatedAt t \<le> now" using assms by (auto simp: lifecycle_ok_def)
  show ?thesis
    using assms le stamp_within_mono [OF _ le]
    by (auto simp: lifecycle_ok_def SetAgentStatus_def)
qed

lemma lifecycle_Touch:
  assumes "lifecycle_ok c t" "c \<le> now"
  shows "lifecycle_ok now (Touch now t)"
proof -
  have le: "t_UpdatedAt t \<le> now" using assms by (auto simp: lifecycle_ok_def)
  show ?thesis
    using assms le stamp_within_mono [OF _ le]
    by (auto simp: lifecycle_ok_def Touch_def)
qed

text \<open>The identity and content fields that no transition writes.\<close>

lemma SetStatus_frame [simp]:
  "t_ID (SetStatus now s t) = t_ID t" "t_ProjectID (SetStatus now s t) = t_ProjectID t"
  "t_Title (SetStatus now s t) = t_Title t" "t_WorktreePath (SetStatus now s t) = t_WorktreePath t"
  "t_AgentSessionID (SetStatus now s t) = t_AgentSessionID t"
  "t_BlockedBy (SetStatus now s t) = t_BlockedBy t" "t_Type (SetStatus now s t) = t_Type t"
  "t_Status (SetStatus now s t) = s"
  by (simp_all add: SetStatus_def Let_def)

lemma Touch_frame [simp]:
  "t_ID (Touch now t) = t_ID t" "t_ProjectID (Touch now t) = t_ProjectID t"
  "t_Title (Touch now t) = t_Title t" "t_Status (Touch now t) = t_Status t"
  "t_AgentSessionID (Touch now t) = t_AgentSessionID t"
  "t_WorktreePath (Touch now t) = t_WorktreePath t" "t_Type (Touch now t) = t_Type t"
  "t_BlockedBy (Touch now t) = t_BlockedBy t"
  by (simp_all add: Touch_def)

lemma SetAgentStatus_frame [simp]:
  "t_ID (fst (SetAgentStatus now as t)) = t_ID t"
  "t_Status (fst (SetAgentStatus now as t)) = t_Status t"
  "t_AgentStatus (fst (SetAgentStatus now as t)) = as"
  "snd (SetAgentStatus now as t) = (t_AgentStatus t \<noteq> as)"
  by (auto simp: SetAgentStatus_def)

section \<open>Properties\<close>

text \<open>Every slug is made of lower-case ASCII letters, digits and single dashes only, neither
  starts nor ends with a dash, and is at most as long as the limit (40 when the limit is not
  positive).\<close>

theorem Slugify_shape:
  "\<exists>rs. Slugify s n = ascii_string rs \<and> is_slug rs \<and> length (Slugify s n) \<le> slug_limit n"
  using Slugify_with_slug [of "\<lambda>_. False" "\<lambda>r. r" s n] by (auto simp: Slugify_def)

text \<open>Slugging a slug changes nothing, so a file name or branch name derived from an already
  derived slug is stable.\<close>

theorem Slugify_idempotent: "Slugify (Slugify s n) n = Slugify s n"
  using Slugify_with_slug [of "\<lambda>_. False" "\<lambda>r. r" s n] by (auto simp: Slugify_def [symmetric] Slugify_slug_id)

text \<open>The slug does not depend on the Unicode letter and case tables: whatever the tables say
  beyond ASCII (as long as lower-casing stays beyond ASCII except for the two code points that
  do not), the code computes the slug of the table-free reference.\<close>

theorem Slugify_tables_irrelevant:
  assumes "lower_table ulow"
  shows "Slugify_with ulet ulow s n = Slugify s n"
  by (simp add: Slugify_def Slugify_with_def slug_runes_tables [OF assms])

theorem Slugify_tables_irrelevant_witness:
  "lower_table (\<lambda>r. if r = 196 then 228 else r) \<and>
   Slugify_with (\<lambda>r. r = 228) (\<lambda>r. if r = 196 then 228 else r) (map char_of [195::nat, 132, 98, 99]) 40 = ''bc''"
proof -
  have l: "lower_table (\<lambda>r. if r = 196 then 228 else r)" by (simp add: lower_table_def)
  have "Slugify (map char_of [195::nat, 132, 98, 99]) 40 = ''bc''" by code_simp
  with l Slugify_tables_irrelevant [OF l, of "\<lambda>r. r = 228" "map char_of [195::nat, 132, 98, 99]" 40]
  show ?thesis by simp
qed

text \<open>Along every sequence of status, agent-status and touch transitions of a ticket under a
  monotone clock: a ticket in an active column has no completion time, a done ticket has one, a
  ticket in progress has a start time, the status-change stamp is always set, and every stamp
  lies between creation and the last update.\<close>

theorem ticket_lifecycle:
  assumes "ticket_run c t"
  shows "lifecycle_ok c t"
  using assms
  by (induction rule: ticket_run.induct)
    (auto intro: lifecycle_NewTicket lifecycle_SetStatus lifecycle_SetAgentStatus lifecycle_Touch)

theorem ticket_lifecycle_witness:
  "lifecycle_ok 7 (SetStatus 7 StatusBacklog (SetStatus 5 StatusDone (NewTicket 1 ''u'' ''T'' ''p'')))"
  by (rule ticket_lifecycle) (intro run_status [of 5] run_status [of 1] run_new; simp)

text \<open>Moving a ticket into an active column clears a stale completed badge and the completion
  time and leaves every live agent status alone; moving it to in-review, done or archived never
  touches the agent status.\<close>

theorem SetStatus_done_flags:
  "(if active_status s
    then t_CompletedAt (SetStatus now s t) = None \<and>
         t_AgentStatus (SetStatus now s t) =
           (if t_AgentStatus t = AgentCompleted then AgentNone else t_AgentStatus t)
    else t_AgentStatus (SetStatus now s t) = t_AgentStatus t \<and>
         t_CompletedAt (SetStatus now s t) = (if s = StatusDone then Some now else t_CompletedAt t))"
  by (simp add: SetStatus_def active_status_def Let_def)

end
