(* ===== verification/Workflow.thy ===== *)
theory Workflow
  imports Board
begin

text \<open>
  \<^verbatim>\<open>internal/workflow/gate.go\<close>: the practice gate that orders the research, spec, implement,
  review pipeline over the \<^verbatim>\<open>BlockedBy\<close> links.  The consumer interface \<^verbatim>\<open>TicketLookup\<close> is the locale
  \<open>ticket_lookup\<close>; theory GlobalStore interprets it on the model of \<^verbatim>\<open>GlobalTicketStore.Get\<close>.
\<close>

datatype gate_error = ErrMissingSpec | ErrMissingImpl

text \<open>A lookup returns \<^verbatim>\<open>(*Ticket, error)\<close>; the pointer may be nil.\<close>

type_synonym lookup = "TicketID \<Rightarrow> board_error + Ticket option"

definition statusRank :: "TicketStatus \<Rightarrow> int" where
  "statusRank s =
     (if s = StatusBacklog then 0
      else if s = StatusNext then 1
      else if s = StatusInProgress then 2
      else if s = StatusInReview then 3
      else if s = StatusDone \<or> s = StatusArchived then 4
      else 0)"

fun hasUpstream_loop :: "TicketID list \<Rightarrow> lookup \<Rightarrow> TicketType \<Rightarrow> TicketStatus \<Rightarrow> bool" where
  "hasUpstream_loop [] lk wantType minStatus = False"
| "hasUpstream_loop (i # ids) lk wantType minStatus =
     (case lk i of
        Inl e \<Rightarrow> hasUpstream_loop ids lk wantType minStatus
      | Inr None \<Rightarrow> hasUpstream_loop ids lk wantType minStatus
      | Inr (Some up) \<Rightarrow>
          if t_Type up = wantType \<and> statusRank (t_Status up) \<ge> statusRank minStatus then True
          else hasUpstream_loop ids lk wantType minStatus)"

definition hasUpstream :: "Ticket \<Rightarrow> lookup \<Rightarrow> TicketType \<Rightarrow> TicketStatus \<Rightarrow> bool" where
  "hasUpstream t lk wantType minStatus = hasUpstream_loop (t_BlockedBy t) lk wantType minStatus"

definition CheckPrerequisite :: "Ticket option \<Rightarrow> lookup option \<Rightarrow> gate_error option" where
  "CheckPrerequisite t lk =
     (case (t, lk) of
        (Some t, Some lk) \<Rightarrow>
          if t_Type t = TypeImplement then
            (if \<not> hasUpstream t lk TypeSpec StatusDone then Some ErrMissingSpec else None)
          else if t_Type t = TypeReview then
            (if \<not> hasUpstream t lk TypeImplement StatusInReview then Some ErrMissingImpl else None)
          else None
      | _ \<Rightarrow> None)"

section \<open>Lemmas\<close>

lemma hasUpstream_loop_iff:
  "hasUpstream_loop ids lk ty mn \<longleftrightarrow>
     (\<exists>i \<in> set ids. \<exists>up. lk i = Inr (Some up) \<and> t_Type up = ty \<and> statusRank (t_Status up) \<ge> statusRank mn)"
  by (induction ids) (auto split: sum.splits option.splits if_splits)

lemma hasUpstream_iff:
  "hasUpstream t lk ty mn \<longleftrightarrow>
     (\<exists>i \<in> set (t_BlockedBy t). \<exists>up. lk i = Inr (Some up) \<and> t_Type up = ty \<and>
        statusRank (t_Status up) \<ge> statusRank mn)"
  by (simp add: hasUpstream_def hasUpstream_loop_iff)

lemma statusRank_done: "statusRank s \<ge> statusRank StatusDone \<longleftrightarrow> s = StatusDone \<or> s = StatusArchived"
  by (simp add: statusRank_def)

lemma statusRank_in_review:
  "statusRank s \<ge> statusRank StatusInReview \<longleftrightarrow> s = StatusInReview \<or> s = StatusDone \<or> s = StatusArchived"
  by (simp add: statusRank_def)

section \<open>The lookup interface\<close>

locale ticket_lookup =
  fixes get :: "'s \<Rightarrow> lookup" and inv :: "'s \<Rightarrow> bool"
  assumes get_ID: "inv s \<Longrightarrow> get s i = Inr (Some t) \<Longrightarrow> t_ID t = i"
begin

lemma hasUpstream_blocker:
  assumes "inv s" "hasUpstream t (get s) ty mn"
  shows "\<exists>up. get s (t_ID up) = Inr (Some up) \<and> t_ID up \<in> set (t_BlockedBy t) \<and> t_Type up = ty \<and>
    statusRank (t_Status up) \<ge> statusRank mn"
proof -
  obtain i up where "i \<in> set (t_BlockedBy t)" "get s i = Inr (Some up)" "t_Type up = ty"
      "statusRank (t_Status up) \<ge> statusRank mn"
    using assms(2) by (auto simp: hasUpstream_iff)
  moreover from this assms(1) have "t_ID up = i" by (simp add: get_ID)
  ultimately show ?thesis by blast
qed

lemma gate_implement_open:
  assumes "inv s" "t_Type t = TypeImplement" "CheckPrerequisite (Some t) (Some (get s)) = None"
  shows "\<exists>up. get s (t_ID up) = Inr (Some up) \<and> t_ID up \<in> set (t_BlockedBy t) \<and>
    t_Type up = TypeSpec \<and> (t_Status up = StatusDone \<or> t_Status up = StatusArchived)"
proof -
  have "hasUpstream t (get s) TypeSpec StatusDone"
    using assms(2,3) by (simp add: CheckPrerequisite_def split: if_splits)
  from hasUpstream_blocker [OF assms(1) this] show ?thesis
    unfolding statusRank_done by blast
qed

lemma gate_review_open:
  assumes "inv s" "t_Type t = TypeReview" "CheckPrerequisite (Some t) (Some (get s)) = None"
  shows "\<exists>up. get s (t_ID up) = Inr (Some up) \<and> t_ID up \<in> set (t_BlockedBy t) \<and>
    t_Type up = TypeImplement \<and>
    (t_Status up = StatusInReview \<or> t_Status up = StatusDone \<or> t_Status up = StatusArchived)"
proof -
  have "hasUpstream t (get s) TypeImplement StatusInReview"
    using assms(2,3) by (simp add: CheckPrerequisite_def split: if_splits)
  from hasUpstream_blocker [OF assms(1) this] show ?thesis
    unfolding statusRank_in_review by blast
qed

end

section \<open>Properties\<close>

text \<open>The gate refuses an implement ticket exactly when none of its links resolves to a spec that
  is done or archived, refuses a review ticket exactly when none resolves to an implement in
  review or later, with the error naming the missing stage, and lets every other type start;
  dangling links never satisfy it.\<close>

theorem CheckPrerequisite_exact:
  "CheckPrerequisite (Some t) (Some lk) =
     (if t_Type t = TypeImplement \<and>
         \<not> (\<exists>i \<in> set (t_BlockedBy t). \<exists>up. lk i = Inr (Some up) \<and> t_Type up = TypeSpec \<and>
              (t_Status up = StatusDone \<or> t_Status up = StatusArchived))
      then Some ErrMissingSpec
      else if t_Type t = TypeReview \<and>
         \<not> (\<exists>i \<in> set (t_BlockedBy t). \<exists>up. lk i = Inr (Some up) \<and> t_Type up = TypeImplement \<and>
              (t_Status up = StatusInReview \<or> t_Status up = StatusDone \<or> t_Status up = StatusArchived))
      then Some ErrMissingImpl else None)"
  unfolding CheckPrerequisite_def hasUpstream_iff statusRank_done statusRank_in_review
  by simp

text \<open>Progress upstream never closes the gate: if every ticket the links resolve to keeps its type
  and does not move back in the pipeline order, a ticket that could start still can.\<close>

theorem CheckPrerequisite_monotone:
  assumes "CheckPrerequisite (Some t) (Some lk) = None"
    and "\<forall>i up. lk i = Inr (Some up) \<longrightarrow>
      (\<exists>up'. lk' i = Inr (Some up') \<and> t_Type up' = t_Type up \<and>
        statusRank (t_Status up) \<le> statusRank (t_Status up'))"
  shows "CheckPrerequisite (Some t) (Some lk') = None"
proof -
  have "hasUpstream t lk' ty mn" if u: "hasUpstream t lk ty mn" for ty mn
  proof -
    obtain i up where "i \<in> set (t_BlockedBy t)" "lk i = Inr (Some up)" "t_Type up = ty"
        "statusRank mn \<le> statusRank (t_Status up)"
      using u by (auto simp: hasUpstream_iff)
    with assms(2) show ?thesis unfolding hasUpstream_iff by (meson order_trans)
  qed
  with assms(1) show ?thesis
    by (auto simp: CheckPrerequisite_def split: if_splits)
qed

theorem CheckPrerequisite_monotone_witness:
  "CheckPrerequisite (Some ((NewTicket 0 ''k'' ''K'' ''p'')\<lparr>t_Type := TypeReview, t_BlockedBy := [''x'', ''u'']\<rparr>))
     (Some (\<lambda>i. if i = ''u'' then Inr (Some (SetStatus 1 StatusDone
        ((NewTicket 0 ''u'' ''U'' ''p'')\<lparr>t_Type := TypeImplement\<rparr>))) else Inl ErrTicketNotFound)) = None"
proof (rule CheckPrerequisite_monotone
    [of _ "\<lambda>i. if i = ''u'' then Inr (Some (SetStatus 1 StatusInReview
        ((NewTicket 0 ''u'' ''U'' ''p'')\<lparr>t_Type := TypeImplement\<rparr>))) else Inl ErrTicketNotFound"])
  show "CheckPrerequisite (Some ((NewTicket 0 ''k'' ''K'' ''p'')\<lparr>t_Type := TypeReview, t_BlockedBy := [''x'', ''u'']\<rparr>))
     (Some (\<lambda>i. if i = ''u'' then Inr (Some (SetStatus 1 StatusInReview
        ((NewTicket 0 ''u'' ''U'' ''p'')\<lparr>t_Type := TypeImplement\<rparr>))) else Inl ErrTicketNotFound)) = None"
    by (simp add: CheckPrerequisite_def hasUpstream_def NewTicket_def statusRank_def)
qed (simp add: statusRank_def)

end
