(* ===== verification/ClaudeSettings.thy ===== *)
theory ClaudeSettings
  imports Board
begin

text \<open>
  \<^verbatim>\<open>internal/agent/claude_settings.go\<close>: the additive merge of Claude Code approvals between a
  worktree and its repository, the policy gate on a status transition, and the review-and-prune
  pass over the repository's allow list with its snapshot and audit log.

  A settings file is a JSON value; only its object shape matters.  The disk is a map from a
  root directory to what its \<^verbatim>\<open>.claude\<close> directory holds.  Every system call can fail: a
  predicate on \<open>settings_call\<close> decides which, and the theorems hold for every such predicate.
\<close>

datatype json =
    JNull
  | JBool bool
  | JNum int
  | JStr string
  | JArr "json list"
  | JObj "(string \<times> json) list"

type_synonym settings = "(string, json) gomap"

text \<open>The checked type assertions \<^verbatim>\<open>m[k].(map[string]any)\<close> and \<^verbatim>\<open>m[k].([]any)\<close>: nil when absent or of
  another type.\<close>

definition as_object :: "settings \<Rightarrow> string \<Rightarrow> settings option" where
  "as_object m k = (case mget m k of Some (JObj obj) \<Rightarrow> Some obj | _ \<Rightarrow> None)"

definition as_array :: "settings \<Rightarrow> string \<Rightarrow> json list" where
  "as_array m k = (case mget m k of Some (JArr xs) \<Rightarrow> xs | _ \<Rightarrow> [])"

definition strings_of :: "json list \<Rightarrow> string set" where
  "strings_of xs = {s. JStr s \<in> set xs}"

section \<open>Merging\<close>

text \<open>The inner loop of \<^verbatim>\<open>mergeSettingsLocal\<close> over one bucket's source list; \<open>seen\<close> is the set of
  keys of the Go map of that name.\<close>

fun merge_list :: "json list \<Rightarrow> json list \<times> string list \<times> string list \<Rightarrow> json list \<times> string list \<times> string list" where
  "merge_list [] (dstList, seen, added) = (dstList, seen, added)"
| "merge_list (e # es) (dstList, seen, added) =
     (case e of
        JStr s \<Rightarrow> if List.member seen s then merge_list es (dstList, seen, added)
          else merge_list es (dstList @ [JStr s], s # seen, added @ [s])
      | _ \<Rightarrow> merge_list es (dstList, seen, added))"

fun seen_strings :: "json list \<Rightarrow> string list" where
  "seen_strings [] = []"
| "seen_strings (e # es) = (case e of JStr s \<Rightarrow> s # seen_strings es | _ \<Rightarrow> seen_strings es)"

definition merge_bucket :: "settings \<Rightarrow> string \<Rightarrow> settings \<times> string list \<Rightarrow> settings \<times> string list" where
  "merge_bucket srcPerms bucket acc =
     (case acc of (dstPerms, added) \<Rightarrow>
       let srcList = as_array srcPerms bucket in
       if srcList = [] then (dstPerms, added)
       else
         let dstList = as_array dstPerms bucket;
             (dstList', _, added') = merge_list srcList (dstList, seen_strings dstList, added)
         in (if dstList' \<noteq> [] then mput bucket (JArr dstList') dstPerms else dstPerms, added'))"

definition buckets :: "string list" where
  "buckets = [''allow'', ''ask'', ''deny'']"

definition mergeSettingsLocal :: "settings \<Rightarrow> settings \<Rightarrow> settings \<times> string list" where
  "mergeSettingsLocal dst src =
     (case as_object src ''permissions'' of
        None \<Rightarrow> (dst, [])
      | Some srcPerms \<Rightarrow>
          let dstPerms = (case as_object dst ''permissions'' of None \<Rightarrow> [] | Some p \<Rightarrow> p);
              (dstPerms', added) = fold (merge_bucket srcPerms) buckets (dstPerms, [])
          in (if dstPerms' \<noteq> [] then mput ''permissions'' (JObj dstPerms') dst else dst, added))"

section \<open>The prune verdict\<close>

record PruneRecord =
  pr_Entry :: string
  pr_Reason :: string

definition hardDenyVerbPrefixes :: "string list" where
  "hardDenyVerbPrefixes =
     [''git push'', ''gh pr create'', ''gh pr merge'', ''gh repo'', ''gh auth'', ''gh api'',
      ''git remote add'', ''git remote set-url'', ''git remote rename'', ''git config --global'',
      ''chmod'', ''sudo'', ''op'', ''aws'', ''kubectl'', ''docker run'']"

definition hardDenyPathSubstrings :: "string list" where
  "hardDenyPathSubstrings = [''/.ssh/'', ''/.aws/'', ''/.config/gh/'', ''/.config/op/'']"

definition pathAllowlistRoots :: "string list" where
  "pathAllowlistRoots =
     [''~/Documents/'', ''~/.config/openkanban/'', ''~/.cache/openkanban/'', ''~/manifold/dev/'',
      ''~/.claude/projects/'', ''/tmp/'', ''/private/tmp/'', ''/var/folders/'']"

text \<open>\<open>home\<close> is the memoized result of \<^verbatim>\<open>getResolvedHome\<close>, \<open>None\<close> when it failed.\<close>

fun resolve_roots :: "string option \<Rightarrow> string list \<Rightarrow> string list" where
  "resolve_roots home [] = []"
| "resolve_roots home (p # ps) =
     (if has_prefix p ''~/'' then
        (case home of
           None \<Rightarrow> resolve_roots home ps
         | Some h \<Rightarrow> if h = [] then resolve_roots home ps else (h @ drop 1 p) # resolve_roots home ps)
      else p # resolve_roots home ps)"

definition resolvedPathAllowlist :: "string option \<Rightarrow> string list" where
  "resolvedPathAllowlist home = resolve_roots home pathAllowlistRoots"

definition re_delim :: "char \<Rightarrow> bool" where
  "re_delim c \<longleftrightarrow> c = CHR 0x09 \<or> c = CHR 0x0A \<or> c = CHR 0x0C \<or> c = CHR 0x0D \<or> c = CHR '' ''
     \<or> c = CHR 0x27 \<or> c = CHR 0x22"

text \<open>The capture of \<^verbatim>\<open>pathTokenRe\<close> at the head of the text: a slash or tilde-slash and at least one
  more character up to white space or a quote; and all leftmost non-overlapping matches.\<close>

definition token_at :: "string \<Rightarrow> (string \<times> string) option" where
  "token_at s =
     (let body = takeWhile (\<lambda>c. \<not> re_delim c) s
      in if has_prefix body ''~/'' \<and> 2 < length body \<or> has_prefix body ''/'' \<and> 1 < length body
         then Some (body, dropWhile (\<lambda>c. \<not> re_delim c) s) else None)"

lemma token_at_shorter: "token_at s = Some (tok, rest) \<Longrightarrow> length rest < length s"
proof -
  assume t: "token_at s = Some (tok, rest)"
  then have "tok \<noteq> []" and "s = tok @ rest"
    by (auto simp: token_at_def Let_def split: if_splits)
  then show ?thesis by simp
qed

function path_tokens :: "bool \<Rightarrow> string \<Rightarrow> string list" where
  "path_tokens start s =
     (case (if start then token_at s else None) of
        Some (tok, rest) \<Rightarrow> tok # path_tokens False rest
      | None \<Rightarrow>
          (case s of
             [] \<Rightarrow> []
           | c # cs \<Rightarrow>
               (case (if re_delim c then token_at cs else None) of
                  Some (tok, rest) \<Rightarrow> tok # path_tokens False rest
                | None \<Rightarrow> path_tokens False cs)))"
  by pat_completeness auto
termination
  by (relation "measure (\<lambda>(_, s). length s)")
    (auto split: if_splits dest!: token_at_shorter)

declare path_tokens.simps [simp del]

definition hasGlob :: "string \<Rightarrow> bool" where
  "hasGlob arg \<longleftrightarrow> contains arg ''*'' \<or> contains arg ''./...''"

definition extractBashArg :: "string \<Rightarrow> string option" where
  "extractBashArg entry =
     (if \<not> has_prefix entry ''Bash('' \<or> \<not> has_suffix entry '')'' then None
      else Some (take (length entry - 1 - 5) (drop 5 entry)))"

definition inPathAllowlist :: "string option \<Rightarrow> string \<Rightarrow> bool" where
  "inPathAllowlist home path =
     (let path' = (if has_prefix path ''~/'' then map_option (\<lambda>h. h @ drop 1 path) home else Some path)
      in case path' of
           None \<Rightarrow> False
         | Some p \<Rightarrow> list_ex (\<lambda>root. has_prefix p root \<or>
               has_suffix root ''/'' \<and> p = take (length root - 1) root) (resolvedPathAllowlist home))"

definition hard_deny :: "string \<Rightarrow> bool" where
  "hard_deny arg \<longleftrightarrow>
     list_ex (\<lambda>p. arg = p \<or> has_prefix arg (p @ '' '')) hardDenyVerbPrefixes \<or>
     list_ex (\<lambda>sub. contains arg sub) hardDenyPathSubstrings"

definition pruneVerdict :: "string option \<Rightarrow> string \<Rightarrow> string" where
  "pruneVerdict home arg =
     (if hard_deny arg then ''hard-deny''
      else if 3 \<le> length (filter (\<lambda>c. c = CHR 0x5C) arg) then ''escape-soup''
      else let matches = path_tokens True arg in
        if matches \<noteq> [] then
          (if list_ex (\<lambda>m. \<not> inPathAllowlist home m) matches then ''untrusted-path'' else [])
        else if 30 < length arg \<and> \<not> hasGlob arg then ''long-no-glob''
        else [])"

text \<open>The decision for one entry of the allow list: its reason when it is pruned.\<close>

definition entry_verdict :: "string option \<Rightarrow> json \<Rightarrow> PruneRecord option" where
  "entry_verdict home e =
     (case e of
        JStr s \<Rightarrow>
          (case extractBashArg s of
             None \<Rightarrow> None
           | Some arg \<Rightarrow> if pruneVerdict home arg \<noteq> []
               then Some \<lparr>pr_Entry = s, pr_Reason = pruneVerdict home arg\<rparr> else None)
      | _ \<Rightarrow> None)"

fun prune_loop :: "string option \<Rightarrow> json list \<Rightarrow> json list \<times> PruneRecord list" where
  "prune_loop home [] = ([], [])"
| "prune_loop home (e # es) =
     (case entry_verdict home e of
        Some r \<Rightarrow> (fst (prune_loop home es), r # snd (prune_loop home es))
      | None \<Rightarrow> (e # fst (prune_loop home es), snd (prune_loop home es)))"

definition reviewAndPrune :: "string option \<Rightarrow> settings \<Rightarrow> settings \<times> PruneRecord list" where
  "reviewAndPrune home perms =
     (case as_object perms ''permissions'' of
        None \<Rightarrow> (perms, [])
      | Some permsInner \<Rightarrow>
          let allowList = as_array permsInner ''allow'' in
          if allowList = [] then (perms, [])
          else let (kept, pruned) = prune_loop home allowList in
            if pruned = [] then (perms, [])
            else (mput ''permissions'' (JObj (mput ''allow'' (JArr kept) permsInner)) perms, pruned))"

section \<open>Files\<close>

text \<open>
  What a root's \<^verbatim>\<open>.claude\<close> directory holds: the settings file (absent, empty, unparsable, or a JSON
  object), the snapshots by file name, the audit log by line, and whether the inner gitignore
  is there.  \<open>git_ignores\<close> is the answer of \<^verbatim>\<open>git check-ignore\<close> for a root.
\<close>

datatype settings_file = SF_absent | SF_empty | SF_bad | SF_json settings

record claude_dir =
  cd_file :: settings_file
  cd_snapshots :: "(string, settings_file) gomap"
  cd_log :: "string list"
  cd_gitignore :: bool

type_synonym sdisk = "(string, claude_dir) gomap"

datatype settings_call =
    C_read string | C_mkdir string | C_write string | C_gitignore string
  | C_snap_read string | C_snap_write string | C_readdir string | C_remove string string
  | C_log_open string | C_log_write string nat

datatype settings_error = SE_io settings_call | SE_parse string

type_synonym sfaults = "settings_call \<Rightarrow> bool"

definition empty_claude_dir :: claude_dir where
  "empty_claude_dir = \<lparr>cd_file = SF_absent, cd_snapshots = [], cd_log = [], cd_gitignore = False\<rparr>"

definition claude_of :: "sdisk \<Rightarrow> string \<Rightarrow> claude_dir" where
  "claude_of d root = (case mget d root of None \<Rightarrow> empty_claude_dir | Some c \<Rightarrow> c)"

definition readClaudeSettings :: "sfaults \<Rightarrow> sdisk \<Rightarrow> string \<Rightarrow> settings_error + settings" where
  "readClaudeSettings F d root =
     (if F (C_read root) then Inl (SE_io (C_read root))
      else case cd_file (claude_of d root) of
        SF_absent \<Rightarrow> Inr []
      | SF_empty \<Rightarrow> Inr []
      | SF_bad \<Rightarrow> Inl (SE_parse root)
      | SF_json m \<Rightarrow> Inr m)"

definition writeClaudeSettings :: "sfaults \<Rightarrow> sdisk \<Rightarrow> string \<Rightarrow> settings \<Rightarrow> sdisk \<times> settings_error option" where
  "writeClaudeSettings F d root m =
     (if F (C_mkdir root) then (d, Some (SE_io (C_mkdir root)))
      else if F (C_write root) then (d, Some (SE_io (C_write root)))
      else (mput root ((claude_of d root)\<lparr>cd_file := SF_json m\<rparr>) d, None))"

definition ensureRepoSettingsScaffolding ::
  "sfaults \<Rightarrow> (string \<Rightarrow> bool) \<Rightarrow> sdisk \<Rightarrow> string \<Rightarrow> sdisk \<times> settings_error option" where
  "ensureRepoSettingsScaffolding F git_ignores d repo =
     (if F (C_mkdir repo) then (d, Some (SE_io (C_mkdir repo)))
      else if git_ignores repo then (d, None)
      else if cd_gitignore (claude_of d repo) then (d, None)
      else if F (C_gitignore repo) then (d, Some (SE_io (C_gitignore repo)))
      else (mput repo ((claude_of d repo)\<lparr>cd_gitignore := True\<rparr>) d, None))"

definition SeedClaudeSettings ::
  "sfaults \<Rightarrow> (string \<Rightarrow> bool) \<Rightarrow> sdisk \<Rightarrow> string \<Rightarrow> string \<Rightarrow> sdisk \<times> settings_error option" where
  "SeedClaudeSettings F gi d worktree repo =
     (if worktree = [] \<or> repo = [] \<or> worktree = repo then (d, None)
      else case ensureRepoSettingsScaffolding F gi d repo of
        (d1, Some e) \<Rightarrow> (d1, Some e)
      | (d1, None) \<Rightarrow>
          (case readClaudeSettings F d1 repo of
             Inl e \<Rightarrow> (d1, Some e)
           | Inr src \<Rightarrow>
               (case readClaudeSettings F d1 worktree of
                  Inl e \<Rightarrow> (d1, Some e)
                | Inr dst \<Rightarrow> writeClaudeSettings F d1 worktree (fst (mergeSettingsLocal dst src)))))"

definition PromoteClaudeSettings ::
  "sfaults \<Rightarrow> (string \<Rightarrow> bool) \<Rightarrow> sdisk \<Rightarrow> string \<Rightarrow> string \<Rightarrow> sdisk \<times> (settings_error + string list)" where
  "PromoteClaudeSettings F gi d worktree repo =
     (if worktree = [] \<or> repo = [] \<or> worktree = repo then (d, Inr [])
      else case readClaudeSettings F d worktree of
        Inl e \<Rightarrow> (d, Inl e)
      | Inr src \<Rightarrow>
          (case ensureRepoSettingsScaffolding F gi d repo of
             (d1, Some e) \<Rightarrow> (d1, Inl e)
           | (d1, None) \<Rightarrow>
               (case readClaudeSettings F d1 repo of
                  Inl e \<Rightarrow> (d1, Inl e)
                | Inr dst \<Rightarrow>
                    (case mergeSettingsLocal dst src of (merged, added) \<Rightarrow>
                      if added = [] then (d1, Inr [])
                      else (case writeClaudeSettings F d1 repo merged of
                              (d2, Some e) \<Rightarrow> (d2, Inl e)
                            | (d2, None) \<Rightarrow> (d2, Inr added))))))"

definition PromoteClaudeSettingsOnTransition ::
  "sfaults \<Rightarrow> (string \<Rightarrow> bool) \<Rightarrow> sdisk \<Rightarrow> string \<Rightarrow> string \<Rightarrow> TicketStatus \<Rightarrow> TicketStatus \<Rightarrow>
     sdisk \<times> (settings_error + string list)" where
  "PromoteClaudeSettingsOnTransition F gi d worktree repo oldStatus newStatus =
     (if oldStatus = newStatus then (d, Inr [])
      else if newStatus \<noteq> StatusInReview \<and> newStatus \<noteq> StatusDone then (d, Inr [])
      else if worktree = [] \<or> repo = [] then (d, Inr [])
      else PromoteClaudeSettings F gi d worktree repo)"

section \<open>Snapshots, audit log, the review pass\<close>

definition snapshotPrefix :: string where
  "snapshotPrefix = ''settings.local.json.bak.''"

definition snapshotKeepCount :: nat where
  "snapshotKeepCount = 3"

fun remove_snaps :: "sfaults \<Rightarrow> string \<Rightarrow> string list \<Rightarrow> (string, settings_file) gomap \<Rightarrow>
    (string, settings_file) gomap \<times> settings_error option" where
  "remove_snaps F repo [] snaps = (snaps, None)"
| "remove_snaps F repo (n # ns) snaps =
     (if F (C_remove repo n) then (snaps, Some (SE_io (C_remove repo n)))
      else remove_snaps F repo ns (mdel n snaps))"

definition rotateSnapshots :: "sfaults \<Rightarrow> sdisk \<Rightarrow> string \<Rightarrow> sdisk \<times> settings_error option" where
  "rotateSnapshots F d repo =
     (if F (C_readdir repo) then (d, Some (SE_io (C_readdir repo)))
      else let c = claude_of d repo; names = map fst (cd_snapshots c) in
        if length names \<le> snapshotKeepCount then (d, None)
        else let sorted = sort names;
                 (snaps', e) = remove_snaps F repo (take (length sorted - snapshotKeepCount) sorted)
                   (cd_snapshots c)
          in (mput repo (c\<lparr>cd_snapshots := snaps'\<rparr>) d, e))"

definition snapshotSettings :: "sfaults \<Rightarrow> int \<Rightarrow> sdisk \<Rightarrow> string \<Rightarrow> sdisk \<times> settings_error option" where
  "snapshotSettings F nanos d repo =
     (if F (C_snap_read repo) then (d, Some (SE_io (C_snap_read repo)))
      else let c = claude_of d repo in
        if cd_file c = SF_absent then (d, None)
        else if F (C_snap_write repo) then (d, Some (SE_io (C_snap_write repo)))
        else rotateSnapshots F
          (mput repo (c\<lparr>cd_snapshots := mput (snapshotPrefix @ format_int nanos) (cd_file c) (cd_snapshots c)\<rparr>) d)
          repo)"

text \<open>One line of the log: time stamp, reason, entry.\<close>

definition log_line :: "string \<Rightarrow> PruneRecord \<Rightarrow> string" where
  "log_line ts r = ts @ '' '' @ pr_Reason r @ '' '' @ pr_Entry r"

fun append_records :: "sfaults \<Rightarrow> string \<Rightarrow> string \<Rightarrow> nat \<Rightarrow> PruneRecord list \<Rightarrow> string list \<Rightarrow>
    string list \<times> settings_error option" where
  "append_records F repo ts i [] lg = (lg, None)"
| "append_records F repo ts i (r # rs) lg =
     (if F (C_log_write repo i) then (lg, Some (SE_io (C_log_write repo i)))
      else append_records F repo ts (Suc i) rs (lg @ [log_line ts r]))"

definition appendPrunedLog :: "sfaults \<Rightarrow> string \<Rightarrow> sdisk \<Rightarrow> string \<Rightarrow> PruneRecord list \<Rightarrow> sdisk \<times> settings_error option" where
  "appendPrunedLog F ts d repo pruned =
     (if pruned = [] then (d, None)
      else if F (C_mkdir repo) then (d, Some (SE_io (C_mkdir repo)))
      else if F (C_log_open repo) then (d, Some (SE_io (C_log_open repo)))
      else let c = claude_of d repo; (lg, e) = append_records F repo ts 0 pruned (cd_log c)
        in (mput repo (c\<lparr>cd_log := lg\<rparr>) d, e))"

record review_env =
  re_faults :: sfaults
  re_home :: "string option"
  re_nanos :: int
  re_stamp :: string

text \<open>The result is the pair \<^verbatim>\<open>(records, error)\<close> of the code: both may be present.\<close>

definition ReviewAndPruneRepoSettings ::
  "review_env \<Rightarrow> sdisk \<Rightarrow> string \<Rightarrow> sdisk \<times> PruneRecord list \<times> settings_error option" where
  "ReviewAndPruneRepoSettings E d repo =
     (let F = re_faults E in
      if repo = [] then (d, [], None)
      else case readClaudeSettings F d repo of
        Inl e \<Rightarrow> (d, [], Some e)
      | Inr cur \<Rightarrow>
          (case reviewAndPrune (re_home E) cur of (cleaned, pruned) \<Rightarrow>
            if pruned = [] then (d, [], None)
            else (case snapshotSettings F (re_nanos E) d repo of
                (d1, Some e) \<Rightarrow> (d1, [], Some e)
              | (d1, None) \<Rightarrow>
                  (case writeClaudeSettings F d1 repo cleaned of
                     (d2, Some e) \<Rightarrow> (d2, [], Some e)
                   | (d2, None) \<Rightarrow>
                       (case appendPrunedLog F (re_stamp E) d2 repo pruned of
                          (d3, e) \<Rightarrow> (d3, pruned, e))))))"

section \<open>Lemmas on merging\<close>

text \<open>The strings a merge adds to a bucket: the source strings not seen yet, first occurrences, in
  order.\<close>

fun fresh :: "json list \<Rightarrow> string list \<Rightarrow> string list" where
  "fresh [] seen = []"
| "fresh (JStr s # es) seen = (if s \<in> set seen then fresh es seen else s # fresh es (s # seen))"
| "fresh (_ # es) seen = fresh es seen"

definition bucket_of :: "settings \<Rightarrow> string \<Rightarrow> json list" where
  "bucket_of m b = (case as_object m ''permissions'' of None \<Rightarrow> [] | Some p \<Rightarrow> as_array p b)"

lemma set_seen_strings [simp]: "set (seen_strings es) = strings_of es"
  by (induction es) (auto simp: strings_of_def split: json.splits)

lemma merge_list_fresh:
  "fst (merge_list es (dl, seen, ad)) = dl @ map JStr (fresh es seen) \<and>
   snd (snd (merge_list es (dl, seen, ad))) = ad @ fresh es seen"
  by (induction es seen arbitrary: dl ad rule: fresh.induct) auto

lemma fresh_props: "distinct (fresh es seen) \<and> set (fresh es seen) = strings_of es - set seen"
  by (induction es seen rule: fresh.induct) (auto simp: strings_of_def)

lemma as_array_mput: "as_array (mput k v m) k' = (if k' = k then (case v of JArr xs \<Rightarrow> xs | _ \<Rightarrow> []) else as_array m k')"
  by (simp add: as_array_def)

lemma merge_bucket_fresh:
  assumes "merge_bucket sp b (dp, ad) = (dp', ad')"
  shows "as_array dp' k = (if k = b
           then as_array dp b @ map JStr (fresh (as_array sp b) (seen_strings (as_array dp b)))
           else as_array dp k)"
    and "ad' = ad @ fresh (as_array sp b) (seen_strings (as_array dp b))"
    and "k \<noteq> b \<Longrightarrow> mget dp' k = mget dp k"
proof -
  obtain seen' where m: "merge_list (as_array sp b) (as_array dp b, seen_strings (as_array dp b), ad) =
      (as_array dp b @ map JStr (fresh (as_array sp b) (seen_strings (as_array dp b))), seen',
       ad @ fresh (as_array sp b) (seen_strings (as_array dp b)))"
    using merge_list_fresh by (metis prod.collapse)
  show "as_array dp' k = (if k = b
           then as_array dp b @ map JStr (fresh (as_array sp b) (seen_strings (as_array dp b)))
           else as_array dp k)"
    and "ad' = ad @ fresh (as_array sp b) (seen_strings (as_array dp b))"
    and "k \<noteq> b \<Longrightarrow> mget dp' k = mget dp k"
    using assms m by (auto simp: merge_bucket_def as_array_mput Let_def split: if_splits)
qed

abbreviation perms_of :: "settings \<Rightarrow> settings" where
  "perms_of m \<equiv> (case as_object m ''permissions'' of None \<Rightarrow> [] | Some p \<Rightarrow> p)"

lemma as_array_Nil [simp]: "as_array [] b = []"
  by (simp add: as_array_def)

lemma bucket_of_perms: "bucket_of m b = as_array (perms_of m) b"
  by (simp add: bucket_of_def split: option.splits)

lemma perms_of_mput [simp]:
  "perms_of (mput ''permissions'' (JObj p) m) = p"
  "k \<noteq> ''permissions'' \<Longrightarrow> perms_of (mput k v m) = perms_of m"
  by (auto simp: as_object_def)

lemma fresh_Nil [simp]: "fresh [] seen = []"
  by simp

lemma merge_no_perms: "as_object src ''permissions'' = None \<Longrightarrow> mergeSettingsLocal dst src = (dst, [])"
  by (simp add: mergeSettingsLocal_def)

lemma mergeSettingsLocal_fresh:
  assumes "mergeSettingsLocal dst src = (m, added)"
  shows "added = concat (map (\<lambda>b. fresh (bucket_of src b) (seen_strings (bucket_of dst b))) buckets)"
    and "b \<in> set buckets \<Longrightarrow>
      bucket_of m b = bucket_of dst b @ map JStr (fresh (bucket_of src b) (seen_strings (bucket_of dst b)))"
    and "b \<notin> set buckets \<Longrightarrow> bucket_of m b = bucket_of dst b"
    and "k \<noteq> ''permissions'' \<Longrightarrow> mget m k = mget dst k"
proof -
  let ?goal = "added = concat (map (\<lambda>b. fresh (bucket_of src b) (seen_strings (bucket_of dst b))) buckets) \<and>
    (\<forall>b. bucket_of m b = (if b \<in> set buckets
       then bucket_of dst b @ map JStr (fresh (bucket_of src b) (seen_strings (bucket_of dst b)))
       else bucket_of dst b)) \<and>
    (\<forall>k. k \<noteq> ''permissions'' \<longrightarrow> mget m k = mget dst k)"
  have ?goal
  proof (cases "as_object src ''permissions''")
    case None
    then have "bucket_of src b = []" for b by (simp add: bucket_of_def)
    with assms None show ?thesis by (simp add: merge_no_perms buckets_def)
  next
    case (Some sp)
    let ?dp = "perms_of dst"
    obtain p1 a1 where s1: "merge_bucket sp ''allow'' (?dp, []) = (p1, a1)" by fastforce
    obtain p2 a2 where s2: "merge_bucket sp ''ask'' (p1, a1) = (p2, a2)" by fastforce
    obtain p3 a3 where s3: "merge_bucket sp ''deny'' (p2, a2) = (p3, a3)" by fastforce
    have m: "m = (if p3 \<noteq> [] then mput ''permissions'' (JObj p3) dst else dst)" "added = a3"
      using assms Some s1 s2 s3
      by (auto simp: mergeSettingsLocal_def buckets_def Let_def split: option.splits)
    have b: "bucket_of m b = as_array p3 b" for b
    proof (cases "p3 = []")
      case True
      have "as_array ?dp b = []"
        using merge_bucket_fresh(1) [OF s1, of b] merge_bucket_fresh(1) [OF s2, of b]
          merge_bucket_fresh(1) [OF s3, of b] True
        by (auto split: if_splits)
      with True m show ?thesis by (simp add: bucket_of_perms)
    next
      case False
      with m show ?thesis by (simp add: bucket_of_perms)
    qed
    have src: "bucket_of src b = as_array sp b" for b
      using Some by (simp add: bucket_of_def)
    note as = merge_bucket_fresh(1) [OF s1] merge_bucket_fresh(1) [OF s2] merge_bucket_fresh(1) [OF s3]
    note ad = merge_bucket_fresh(2) [OF s1] merge_bucket_fresh(2) [OF s2] merge_bucket_fresh(2) [OF s3]
    have "added = concat (map (\<lambda>b. fresh (bucket_of src b) (seen_strings (bucket_of dst b))) buckets)"
      unfolding src bucket_of_perms [of dst] buckets_def by (simp add: m(2) ad as)
    moreover have "bucket_of m b = (if b \<in> set buckets
       then bucket_of dst b @ map JStr (fresh (bucket_of src b) (seen_strings (bucket_of dst b)))
       else bucket_of dst b)" for b
      unfolding b src bucket_of_perms [of dst] buckets_def by (simp add: as)
    moreover have "k \<noteq> ''permissions'' \<Longrightarrow> mget m k = mget dst k" for k
      by (simp add: m(1))
    ultimately show ?thesis by blast
  qed
  then show "added = concat (map (\<lambda>b. fresh (bucket_of src b) (seen_strings (bucket_of dst b))) buckets)"
    and "b \<in> set buckets \<Longrightarrow>
      bucket_of m b = bucket_of dst b @ map JStr (fresh (bucket_of src b) (seen_strings (bucket_of dst b)))"
    and "b \<notin> set buckets \<Longrightarrow> bucket_of m b = bucket_of dst b"
    and "k \<noteq> ''permissions'' \<Longrightarrow> mget m k = mget dst k"
    by auto
qed

lemma strings_of_append [simp]: "strings_of (xs @ ys) = strings_of xs \<union> strings_of ys"
  by (auto simp: strings_of_def)

lemma strings_of_map_JStr [simp]: "strings_of (map JStr xs) = set xs"
  by (auto simp: strings_of_def)

section \<open>Lemmas on pruning\<close>

lemma prune_loop_filter:
  "prune_loop home es =
     (filter (\<lambda>e. entry_verdict home e = None) es, List.map_filter (entry_verdict home) es)"
  by (induction es) (auto simp: map_filter_simps split: option.splits)

lemma map_filter_Nil_iff: "List.map_filter f xs = [] \<longleftrightarrow> (\<forall>x \<in> set xs. f x = None)"
  by (induction xs) (auto simp: map_filter_simps split: option.splits)

lemma bucket_reviewAndPrune:
  "bucket_of (fst (reviewAndPrune home m)) b =
     (if b = ''allow'' then filter (\<lambda>e. entry_verdict home e = None) (bucket_of m b) else bucket_of m b)"
proof (cases "as_object m ''permissions''")
  case None
  then show ?thesis by (simp add: reviewAndPrune_def bucket_of_def)
next
  case (Some p)
  let ?al = "as_array p ''allow''"
  show ?thesis
  proof (cases "List.map_filter (entry_verdict home) ?al = []")
    case True
    then have "filter (\<lambda>e. entry_verdict home e = None) ?al = ?al"
      by (simp add: map_filter_Nil_iff filter_id_conv)
    with Some True show ?thesis
      by (simp add: reviewAndPrune_def bucket_of_def prune_loop_filter Let_def)
  next
    case False
    then have "?al \<noteq> []" by (auto simp: map_filter_simps)
    with Some False show ?thesis
      by (simp add: reviewAndPrune_def prune_loop_filter Let_def bucket_of_perms as_array_mput)
  qed
qed

lemma pruned_reviewAndPrune:
  "snd (reviewAndPrune home m) = List.map_filter (entry_verdict home) (bucket_of m ''allow'')"
  by (auto simp: reviewAndPrune_def bucket_of_def prune_loop_filter Let_def map_filter_simps
      split: option.splits)

lemma other_keys_reviewAndPrune:
  "k \<noteq> ''permissions'' \<Longrightarrow> mget (fst (reviewAndPrune home m)) k = mget m k"
  by (auto simp: reviewAndPrune_def Let_def split: option.splits prod.splits)

lemma extractBashArg_Bash [simp]: "extractBashArg (''Bash('' @ arg @ '')'') = Some arg"
  by (simp add: extractBashArg_def suffix_def)

lemma hard_deny_verdict: "hard_deny arg \<Longrightarrow> pruneVerdict home arg = ''hard-deny''"
  by (simp add: pruneVerdict_def)

lemma entry_verdict_hard_deny:
  "hard_deny arg \<Longrightarrow> entry_verdict home (JStr (''Bash('' @ arg @ '')'')) \<noteq> None"
proof -
  assume "hard_deny arg"
  then have "pruneVerdict home arg = ''hard-deny''" by (rule hard_deny_verdict)
  moreover have "extractBashArg (''Bash('' @ arg @ '')'') = Some arg" by (rule extractBashArg_Bash)
  ultimately show ?thesis unfolding entry_verdict_def by (simp del: append.simps append_Cons)
qed

section \<open>Lemmas on the files\<close>

lemma claude_of_mput [simp]: "claude_of (mput r c d) r' = (if r' = r then c else claude_of d r')"
  by (simp add: claude_of_def)

lemma readClaudeSettings_clean:
  "readClaudeSettings F d root = Inr m \<Longrightarrow> \<not> F' (C_read root) \<Longrightarrow>
   cd_file (claude_of d' root) = cd_file (claude_of d root) \<Longrightarrow> readClaudeSettings F' d' root = Inr m"
  by (auto simp: readClaudeSettings_def split: if_splits settings_file.splits)

lemma remove_snaps_keep:
  "n \<notin> set ns \<Longrightarrow> mget (fst (remove_snaps F repo ns snaps)) n = mget snaps n"
  by (induction ns arbitrary: snaps) auto

lemma max_not_dropped:
  assumes "distinct xs" "x \<in> set xs" "\<forall>y \<in> set xs. y \<le> (x :: 'a :: linorder)" "0 < k"
  shows "x \<notin> set (take (length xs - k) (sort xs))"
proof
  let ?s = "sort xs" let ?m = "length xs - k"
  assume "x \<in> set (take ?m ?s)"
  then obtain i where i: "i < ?m" "?s ! i = x" by (auto simp: in_set_conv_nth)
  with assms(4) have l: "Suc i < length ?s" by simp
  then have "?s ! i \<le> ?s ! Suc i" by (intro sorted_nth_mono) auto
  moreover have "?s ! Suc i \<le> x"
    using assms(3) l by (metis nth_mem set_sort)
  ultimately have "?s ! Suc i = ?s ! i" using i by simp
  with l assms(1) show False by (simp add: nth_eq_iff_index_eq)
qed

lemma rotateSnapshots_file [simp]:
  "cd_file (claude_of (fst (rotateSnapshots F d repo)) r) = cd_file (claude_of d r)"
  by (simp add: rotateSnapshots_def Let_def split: prod.splits)

lemma snapshotSettings_file [simp]:
  "cd_file (claude_of (fst (snapshotSettings F n d repo)) r) = cd_file (claude_of d r)"
  by (simp add: snapshotSettings_def Let_def)

lemma appendPrunedLog_file [simp]:
  "cd_file (claude_of (fst (appendPrunedLog F ts d repo rs)) r) = cd_file (claude_of d r)"
  "cd_snapshots (claude_of (fst (appendPrunedLog F ts d repo rs)) r) = cd_snapshots (claude_of d r)"
  by (simp_all add: appendPrunedLog_def Let_def split: prod.splits)

lemma rotateSnapshots_keeps_latest:
  assumes "mwf (cd_snapshots (claude_of d repo))" "mget (cd_snapshots (claude_of d repo)) n = Some f"
    and "\<forall>n' \<in> fst ` set (cd_snapshots (claude_of d repo)). n' \<le> n"
  shows "mget (cd_snapshots (claude_of (fst (rotateSnapshots F d repo)) repo)) n = Some f"
proof -
  let ?names = "map fst (cd_snapshots (claude_of d repo))"
  have "n \<notin> set (take (length ?names - snapshotKeepCount) (sort ?names))"
    using assms by (intro max_not_dropped) (auto simp: mwf_def snapshotKeepCount_def intro: rev_image_eqI dest!: map_of_SomeD)
  then show ?thesis
    using assms(2) remove_snaps_keep [of n]
    by (auto simp: rotateSnapshots_def Let_def split: prod.splits; metis fst_conv)
qed

lemma snapshotSettings_saves:
  assumes "snapshotSettings F nanos d repo = (d', None)" "cd_file (claude_of d repo) \<noteq> SF_absent"
    and "mwf (cd_snapshots (claude_of d repo))"
    and "\<forall>n \<in> fst ` set (cd_snapshots (claude_of d repo)). n \<le> snapshotPrefix @ format_int nanos"
  shows "mget (cd_snapshots (claude_of d' repo)) (snapshotPrefix @ format_int nanos) =
    Some (cd_file (claude_of d repo))"
proof -
  let ?n = "snapshotPrefix @ format_int nanos" let ?c = "claude_of d repo"
  let ?d1 = "mput repo (?c\<lparr>cd_snapshots := mput ?n (cd_file ?c) (cd_snapshots ?c)\<rparr>) d"
  have "d' = fst (rotateSnapshots F ?d1 repo)"
    using assms(1,2) by (auto simp: snapshotSettings_def Let_def split: if_splits)
  moreover have "mget (cd_snapshots (claude_of (fst (rotateSnapshots F ?d1 repo)) repo)) ?n =
      Some (cd_file ?c)"
  proof (rule rotateSnapshots_keeps_latest)
    show "mwf (cd_snapshots (claude_of ?d1 repo))" using assms(3) by simp
    show "mget (cd_snapshots (claude_of ?d1 repo)) ?n = Some (cd_file ?c)" by simp
    show "\<forall>n' \<in> fst ` set (cd_snapshots (claude_of ?d1 repo)). n' \<le> ?n"
      using assms(3,4) by (auto simp: set_mput)
  qed
  ultimately show ?thesis by simp
qed

lemma write_file_eq:
  "writeClaudeSettings F d root m = (d', None) \<Longrightarrow>
     cd_file (claude_of d' root) = SF_json m \<and> cd_snapshots (claude_of d' root) = cd_snapshots (claude_of d root)"
  by (auto simp: writeClaudeSettings_def split: if_splits)

lemma write_file_err: "writeClaudeSettings F d root m = (d', Some e) \<Longrightarrow> d' = d"
  by (auto simp: writeClaudeSettings_def split: if_splits)

text \<open>The successful runs of the review pass, in one place: nothing to prune, or snapshot, write,
  log.\<close>

lemma Review_cases:
  assumes "ReviewAndPruneRepoSettings E d repo = (d', recs, e)" "repo \<noteq> []"
    and "readClaudeSettings (re_faults E) d repo = Inr cur"
  obtains (clean) "d' = d" "recs = []" "e = None" "snd (reviewAndPrune (re_home E) cur) = []"
  | (snap_failed) d1 er where "snapshotSettings (re_faults E) (re_nanos E) d repo = (d1, Some er)"
      "d' = d1" "recs = []" "e = Some er"
  | (write_failed) d1 er where "snapshotSettings (re_faults E) (re_nanos E) d repo = (d1, None)"
      "d' = d1" "recs = []" "e = Some er"
  | (written) d1 d2 where "snapshotSettings (re_faults E) (re_nanos E) d repo = (d1, None)"
      "writeClaudeSettings (re_faults E) d1 repo (fst (reviewAndPrune (re_home E) cur)) = (d2, None)"
      "d' = fst (appendPrunedLog (re_faults E) (re_stamp E) d2 repo recs)"
      "recs = snd (reviewAndPrune (re_home E) cur)" "recs \<noteq> []"
  using assms
  by (auto simp: ReviewAndPruneRepoSettings_def Let_def write_file_err
      split: if_splits prod.splits option.splits)

lemma reviewAndPrune_twice: "snd (reviewAndPrune home (fst (reviewAndPrune home m))) = []"
  unfolding pruned_reviewAndPrune by (simp add: bucket_reviewAndPrune map_filter_Nil_iff)

section \<open>Properties\<close>

text \<open>The merge of approvals is additive and exact: in each of the allow, ask and deny buckets the
  destination keeps all its entries in order and gains, behind them, exactly the source strings it
  did not have, each once; nothing else in the file changes; and the returned list names exactly
  the additions, allow before ask before deny.\<close>

theorem mergeSettingsLocal_additive:
  "\<exists>new. snd (mergeSettingsLocal dst src) = concat (map new buckets) \<and>
     (\<forall>b. bucket_of (fst (mergeSettingsLocal dst src)) b =
        (if b \<in> set buckets then bucket_of dst b @ map JStr (new b) else bucket_of dst b) \<and>
        distinct (new b) \<and> set (new b) = strings_of (bucket_of src b) - strings_of (bucket_of dst b)) \<and>
     (\<forall>k. k \<noteq> ''permissions'' \<longrightarrow> mget (fst (mergeSettingsLocal dst src)) k = mget dst k)"
proof -
  obtain m added where m: "mergeSettingsLocal dst src = (m, added)" by fastforce
  let ?new = "\<lambda>b. fresh (bucket_of src b) (seen_strings (bucket_of dst b))"
  show ?thesis
    using mergeSettingsLocal_fresh [OF m] fresh_props
    by (intro exI [of _ ?new]) (simp add: m)
qed

theorem mergeSettingsLocal_additive_witness:
  "mget (fst (mergeSettingsLocal [(''model'', JStr ''m'')]
     [(''permissions'', JObj [(''allow'', JArr [JStr ''a''])]), (''model'', JStr ''n'')])) ''model'' = Some (JStr ''m'')"
proof -
  let ?src = "[(''permissions'', JObj [(''allow'', JArr [JStr ''a''])]), (''model'', JStr ''n'')]"
  have "mget (fst (mergeSettingsLocal [(''model'', JStr ''m'')] ?src)) ''model'' = mget [(''model'', JStr ''m'')] ''model''"
    using mergeSettingsLocal_additive [of "[(''model'', JStr ''m'')]" ?src]
    by (elim exE conjE allE [of _ "''model''"]) simp
  then show ?thesis by simp
qed

text \<open>Merging is idempotent: merging the same source again adds nothing and leaves every bucket as
  it is.\<close>

theorem mergeSettingsLocal_idempotent:
  "snd (mergeSettingsLocal (fst (mergeSettingsLocal dst src)) src) = [] \<and>
   bucket_of (fst (mergeSettingsLocal (fst (mergeSettingsLocal dst src)) src)) b =
     bucket_of (fst (mergeSettingsLocal dst src)) b"
proof -
  obtain m added where m: "mergeSettingsLocal dst src = (m, added)" by fastforce
  obtain m2 added2 where m2: "mergeSettingsLocal m src = (m2, added2)" by fastforce
  have nil: "fresh (bucket_of src b) (seen_strings (bucket_of m b)) = []" if "b \<in> set buckets" for b
  proof -
    have "set (fresh (bucket_of src b) (seen_strings (bucket_of m b))) = {}"
      using mergeSettingsLocal_fresh(2) [OF m that] fresh_props by auto
    then show ?thesis by simp
  qed
  have "added2 = []"
    using mergeSettingsLocal_fresh(1) [OF m2] nil by simp
  moreover have "bucket_of m2 b = bucket_of m b"
    using mergeSettingsLocal_fresh(2,3) [OF m2, of b] nil [of b] by (cases "b \<in> set buckets") auto
  ultimately show ?thesis by (simp add: m m2)
qed



text \<open>After the review no Bash approval that starts with a hard-denied verb (\<^verbatim>\<open>git push\<close>, \<^verbatim>\<open>sudo\<close>,
  \<^verbatim>\<open>op\<close> and the others), or that names a secret directory, is left in the allow list, whatever the
  home directory, the path allow list and the other heuristics say.\<close>

theorem reviewAndPrune_no_hard_deny:
  assumes "JStr (''Bash('' @ arg @ '')'') \<in> set (bucket_of (fst (reviewAndPrune home m)) ''allow'')"
  shows "(\<forall>p \<in> set hardDenyVerbPrefixes. arg \<noteq> p \<and> \<not> has_prefix arg (p @ '' '')) \<and>
    (\<forall>sub \<in> set hardDenyPathSubstrings. \<not> sublist sub arg)"
proof -
  have "entry_verdict home (JStr (''Bash('' @ arg @ '')'')) = None"
    using assms by (simp only: bucket_reviewAndPrune if_P set_filter mem_Collect_eq)
  then have "\<not> hard_deny arg" using entry_verdict_hard_deny by blast
  then show ?thesis
    by (simp only: hard_deny_def list_ex_iff contains_iff) blast
qed

theorem reviewAndPrune_no_hard_deny_witness:
  "\<not> (\<exists>p \<in> set hardDenyVerbPrefixes. ''go test'' = p \<or> has_prefix ''go test'' (p @ '' ''))"
proof -
  let ?m = "[(''permissions'', JObj [(''allow'', JArr [JStr ''Bash(sudo ls)'', JStr ''Bash(go test)''])])]"
  have "JStr ''Bash(go test)'' \<in> set (bucket_of (fst (reviewAndPrune None ?m)) ''allow'')"
    by code_simp
  then have "JStr (''Bash('' @ ''go test'' @ '')'') \<in> set (bucket_of (fst (reviewAndPrune None ?m)) ''allow'')"
    by simp
  from reviewAndPrune_no_hard_deny [OF this] show ?thesis by blast
qed

text \<open>The idempotency contract: once a review of a repository has completed without an error, a
  later review of the same disk (any environment with the same home directory that can read the
  file) writes, snapshots and logs nothing at all.\<close>

theorem Review_second_run_inert:
  assumes "ReviewAndPruneRepoSettings E d repo = (d', recs, None)"
    and "re_home E' = re_home E" and "\<not> re_faults E' (C_read repo)"
  shows "ReviewAndPruneRepoSettings E' d' repo = (d', [], None)"
proof (cases "repo = []")
  case False
  obtain cur where cur: "readClaudeSettings (re_faults E) d repo = Inr cur"
    using assms(1) False by (auto simp: ReviewAndPruneRepoSettings_def Let_def split: sum.splits)
  have "\<exists>m. readClaudeSettings (re_faults E') d' repo = Inr m \<and> snd (reviewAndPrune (re_home E) m) = []"
    using assms(1) False cur
  proof (cases rule: Review_cases)
    case clean
    with readClaudeSettings_clean [of "re_faults E" d repo cur "re_faults E'" d'] cur assms(3)
    show ?thesis by auto
  next
    case (written d1 d2)
    have "cd_file (claude_of d' repo) = SF_json (fst (reviewAndPrune (re_home E) cur))"
      using written(3) write_file_eq [OF written(2)] by simp
    then show ?thesis
      using assms(3) reviewAndPrune_twice by (simp add: readClaudeSettings_def)
  qed simp_all
  with False assms(2) show ?thesis
    by (auto simp: ReviewAndPruneRepoSettings_def Let_def split: prod.splits)
qed (use assms in \<open>simp add: ReviewAndPruneRepoSettings_def\<close>)

definition review_example_env :: review_env where
  "review_example_env = \<lparr>re_faults = (\<lambda>_. False), re_home = None, re_nanos = 7, re_stamp = ''t''\<rparr>"

definition review_example_disk :: sdisk where
  "review_example_disk =
     [(''/r'', empty_claude_dir\<lparr>cd_file := SF_json
        [(''permissions'', JObj [(''allow'', JArr [JStr ''Bash(op read)'', JStr ''Skill(x)''])])]\<rparr>)]"

lemma review_example:
  "snd (ReviewAndPruneRepoSettings review_example_env review_example_disk ''/r'') =
     ([\<lparr>pr_Entry = ''Bash(op read)'', pr_Reason = ''hard-deny''\<rparr>], None)"
  by code_simp

theorem Review_second_run_inert_witness:
  "\<exists>d'. ReviewAndPruneRepoSettings review_example_env d' ''/r'' = (d', [], None) \<and>
     d' = fst (ReviewAndPruneRepoSettings review_example_env review_example_disk ''/r'')"
proof -
  let ?r = "ReviewAndPruneRepoSettings review_example_env review_example_disk ''/r''"
  have r: "?r = (fst ?r, fst (snd ?r), None)" using review_example by (metis prod.collapse snd_conv)
  show ?thesis
    using Review_second_run_inert [OF r, of review_example_env]
    by (auto simp: review_example_env_def)
qed

text \<open>Every prune is recoverable: for every pattern of I/O failures, if the review pass changes the
  settings file then the snapshot it named after the current time holds the previous content and
  survives the rotation, provided no existing snapshot is named later.\<close>

theorem Review_recoverable:
  assumes "ReviewAndPruneRepoSettings E d repo = (d', recs, e)"
    and "cd_file (claude_of d' repo) \<noteq> cd_file (claude_of d repo)"
    and "mwf (cd_snapshots (claude_of d repo))"
    and "\<forall>n \<in> fst ` set (cd_snapshots (claude_of d repo)). n \<le> snapshotPrefix @ format_int (re_nanos E)"
  shows "mget (cd_snapshots (claude_of d' repo)) (snapshotPrefix @ format_int (re_nanos E)) =
    Some (cd_file (claude_of d repo))"
proof -
  have ne: "repo \<noteq> []" using assms(1,2) by (auto simp: ReviewAndPruneRepoSettings_def)
  obtain cur where cur: "readClaudeSettings (re_faults E) d repo = Inr cur"
    using assms(1,2) ne by (auto simp: ReviewAndPruneRepoSettings_def Let_def split: sum.splits)
  show ?thesis
    using assms(1) ne cur
  proof (cases rule: Review_cases)
    case clean
    with assms(2) show ?thesis by simp
  next
    case (snap_failed d1 er)
    with assms(2) snapshotSettings_file [of "re_faults E" "re_nanos E" d repo repo] show ?thesis by simp
  next
    case (write_failed d1 er)
    with assms(2) snapshotSettings_file [of "re_faults E" "re_nanos E" d repo repo] show ?thesis by simp
  next
    case (written d1 d2)
    have "cd_file (claude_of d repo) \<noteq> SF_absent"
    proof
      assume "cd_file (claude_of d repo) = SF_absent"
      with cur have "cur = []" by (auto simp: readClaudeSettings_def split: if_splits)
      with written(4,5) show False by (simp add: reviewAndPrune_def as_object_def)
    qed
    from snapshotSettings_saves [OF written(1) this assms(3,4)] written(3) write_file_eq [OF written(2)]
    show ?thesis by simp
  qed
qed

theorem Review_recoverable_witness:
  "mget (cd_snapshots (claude_of (fst (ReviewAndPruneRepoSettings review_example_env review_example_disk ''/r'')) ''/r''))
     (snapshotPrefix @ format_int 7) = Some (cd_file (claude_of review_example_disk ''/r''))"
proof -
  let ?r = "ReviewAndPruneRepoSettings review_example_env review_example_disk ''/r''"
  have r: "?r = (fst ?r, fst (snd ?r), snd (snd ?r))" by simp
  have "cd_file (claude_of (fst ?r) ''/r'') \<noteq> cd_file (claude_of review_example_disk ''/r'')"
    by code_simp
  from Review_recoverable [OF r this] show ?thesis
    by (simp add: review_example_env_def review_example_disk_def claude_of_def empty_claude_dir_def)
qed

end
