(* ===== verification/Disk.thy ===== *)
theory Disk
  imports Prelude
begin

text \<open>
  The part of package \<^verbatim>\<open>os\<close> the storage code uses, on a tree of files under the configuration
  directory.  A path is the list of its components below that directory, a node is a directory
  or a file with its content and modification time, and the disk is a map from paths to nodes.
  Every call can fail: the argument \<open>F\<close> decides which calls do, and theorems are proved for
  every \<open>F\<close>.  A failed call leaves the disk as it is.
\<close>

type_synonym path = "string list"

datatype node = DirN | FileN (fdata: string) (fmtime: time)

type_synonym disk = "(path, node) gomap"

datatype syscall =
    MkdirAll path | CreateTemp path string | WriteTmp path | CloseTmp path
  | Rename path path | Remove path | RemoveAll path | ReadFile path | WriteFile path
  | StatCall path | ReadDir path

datatype io_error = NotExist path | NotDir path | IsDir path | NotEmpty path | TempExhausted | Failed syscall

type_synonym faults = "syscall \<Rightarrow> bool"

definition prefixes_of :: "path \<Rightarrow> path list" where
  "prefixes_of p = map (\<lambda>n. take (Suc n) p) [0..<length p]"

definition is_file :: "disk \<Rightarrow> path \<Rightarrow> bool" where
  "is_file d p \<longleftrightarrow> (case mget d p of Some (FileN _ _) \<Rightarrow> True | _ \<Rightarrow> False)"

definition parent_ok :: "disk \<Rightarrow> path \<Rightarrow> bool" where
  "parent_ok d p \<longleftrightarrow> butlast p = [] \<or> mget d (butlast p) = Some DirN"

text \<open>The entries of a directory, in the order \<^verbatim>\<open>ReadDir\<close> and \<^verbatim>\<open>WalkDir\<close> give them.\<close>

definition children :: "disk \<Rightarrow> path \<Rightarrow> string list" where
  "children d p = sort (remdups (map (\<lambda>(q, _). last q) (filter (\<lambda>(q, _). q \<noteq> [] \<and> butlast q = p) d)))"

definition os_MkdirAll :: "faults \<Rightarrow> path \<Rightarrow> disk \<Rightarrow> disk \<times> io_error option" where
  "os_MkdirAll F p d =
     (if F (MkdirAll p) then (d, Some (Failed (MkdirAll p)))
      else case find (is_file d) (prefixes_of p) of
        Some q \<Rightarrow> (d, Some (NotDir q))
      | None \<Rightarrow> (fold (\<lambda>q d. if mget d q = None then mput q DirN d else d) (prefixes_of p) d, None))"

text \<open>\<^verbatim>\<open>os.CreateTemp(dir, base + ".tmp-*")\<close>: it tries random suffixes (\<open>rnds\<close>) until one names no
  existing file.\<close>

definition tmp_name :: "string \<Rightarrow> string \<Rightarrow> string" where
  "tmp_name base r = base @ ''.tmp-'' @ r"

definition os_CreateTemp :: "faults \<Rightarrow> time \<Rightarrow> path \<Rightarrow> string \<Rightarrow> string list \<Rightarrow> disk \<Rightarrow> disk \<times> (io_error + path)" where
  "os_CreateTemp F now dir base rnds d =
     (if F (CreateTemp dir base) then (d, Inl (Failed (CreateTemp dir base)))
      else if dir \<noteq> [] \<and> mget d dir \<noteq> Some DirN then (d, Inl (NotExist dir))
      else case find (\<lambda>r. mget d (dir @ [tmp_name base r]) = None) rnds of
        None \<Rightarrow> (d, Inl TempExhausted)
      | Some r \<Rightarrow> (mput (dir @ [tmp_name base r]) (FileN [] now) d, Inr (dir @ [tmp_name base r])))"

text \<open>\<^verbatim>\<open>tmp.Write(data)\<close> on the open file, and \<^verbatim>\<open>os.WriteFile\<close>.  A failed write may have written a part
  of the data; the parameter \<open>part\<close> of \<open>os_Write\<close> says how much.\<close>

definition os_Write :: "faults \<Rightarrow> time \<Rightarrow> nat \<Rightarrow> path \<Rightarrow> string \<Rightarrow> disk \<Rightarrow> disk \<times> io_error option" where
  "os_Write F now part p data d =
     (if F (WriteTmp p) then (mput p (FileN (take part data) now) d, Some (Failed (WriteTmp p)))
      else (mput p (FileN data now) d, None))"

definition os_WriteFile :: "faults \<Rightarrow> time \<Rightarrow> path \<Rightarrow> string \<Rightarrow> disk \<Rightarrow> disk \<times> io_error option" where
  "os_WriteFile F now p data d =
     (if F (WriteFile p) then (d, Some (Failed (WriteFile p)))
      else if \<not> parent_ok d p then (d, Some (NotExist p))
      else if mget d p = Some DirN then (d, Some (IsDir p))
      else (mput p (FileN data now) d, None))"

definition os_Close :: "faults \<Rightarrow> path \<Rightarrow> io_error option" where
  "os_Close F p = (if F (CloseTmp p) then Some (Failed (CloseTmp p)) else None)"

definition move_tree :: "path \<Rightarrow> path \<Rightarrow> disk \<Rightarrow> disk" where
  "move_tree p q d = map (\<lambda>(x, n). (if prefix p x then q @ drop (length p) x else x, n)) d"

definition os_Rename :: "faults \<Rightarrow> path \<Rightarrow> path \<Rightarrow> disk \<Rightarrow> disk \<times> io_error option" where
  "os_Rename F p q d =
     (if F (Rename p q) then (d, Some (Failed (Rename p q)))
      else if \<not> parent_ok d q then (d, Some (NotExist q))
      else case mget d p of
        None \<Rightarrow> (d, Some (NotExist p))
      | Some (FileN c m) \<Rightarrow>
          if mget d q = Some DirN then (d, Some (IsDir q))
          else (mput q (FileN c m) (mdel p d), None)
      | Some DirN \<Rightarrow>
          (case mget d q of
             Some (FileN _ _) \<Rightarrow> (d, Some (NotDir q))
           | Some DirN \<Rightarrow> if children d q \<noteq> [] then (d, Some (NotEmpty q))
               else (move_tree p q (mdel q d), None)
           | None \<Rightarrow> (move_tree p q d, None)))"

definition os_Remove :: "faults \<Rightarrow> path \<Rightarrow> disk \<Rightarrow> disk \<times> io_error option" where
  "os_Remove F p d =
     (if F (Remove p) then (d, Some (Failed (Remove p)))
      else case mget d p of
        None \<Rightarrow> (d, Some (NotExist p))
      | Some DirN \<Rightarrow> if children d p \<noteq> [] then (d, Some (NotEmpty p)) else (mdel p d, None)
      | Some (FileN _ _) \<Rightarrow> (mdel p d, None))"

definition os_RemoveAll :: "faults \<Rightarrow> path \<Rightarrow> disk \<Rightarrow> disk \<times> io_error option" where
  "os_RemoveAll F p d =
     (if F (RemoveAll p) then (d, Some (Failed (RemoveAll p)))
      else (filter (\<lambda>(q, _). \<not> prefix p q) d, None))"

definition os_ReadFile :: "faults \<Rightarrow> path \<Rightarrow> disk \<Rightarrow> io_error + string" where
  "os_ReadFile F p d =
     (if F (ReadFile p) then Inl (Failed (ReadFile p))
      else case mget d p of
        None \<Rightarrow> Inl (NotExist p)
      | Some DirN \<Rightarrow> Inl (IsDir p)
      | Some (FileN c _) \<Rightarrow> Inr c)"

definition os_Exists :: "faults \<Rightarrow> path \<Rightarrow> disk \<Rightarrow> bool" where
  "os_Exists F p d \<longleftrightarrow> \<not> F (StatCall p) \<and> mget d p \<noteq> None"

definition os_ReadDir :: "faults \<Rightarrow> path \<Rightarrow> disk \<Rightarrow> io_error + string list" where
  "os_ReadDir F p d =
     (if F (ReadDir p) then Inl (Failed (ReadDir p))
      else case mget d p of
        Some DirN \<Rightarrow> Inr (children d p)
      | Some (FileN _ _) \<Rightarrow> Inl (NotDir p)
      | None \<Rightarrow> Inl (NotExist p))"

definition not_exist :: "io_error \<Rightarrow> bool" where
  "not_exist e \<longleftrightarrow> (case e of NotExist _ \<Rightarrow> True | _ \<Rightarrow> False)"

section \<open>Lemmas\<close>

lemma not_exist_simps [simp]:
  "not_exist (NotExist p)" "\<not> not_exist (NotDir p)" "\<not> not_exist (IsDir p)" "\<not> not_exist (NotEmpty p)"
  "\<not> not_exist TempExhausted" "\<not> not_exist (Failed c)"
  by (simp_all add: not_exist_def)

lemma distinct_children [simp]: "distinct (children d p)"
  by (simp add: children_def)

lemma in_children: "mget d (p @ [f]) \<noteq> None \<Longrightarrow> f \<in> set (children d p)"
proof -
  assume "mget d (p @ [f]) \<noteq> None"
  then obtain n where "(p @ [f], n) \<in> set d" by (auto dest: map_of_SomeD)
  then show ?thesis by (force simp: children_def image_iff)
qed

lemma children_Nil: "children d p = [] \<Longrightarrow> mget d (p @ [f]) = None"
  using in_children [of d p f] by fastforce

lemma mget_mkdir_fold:
  "mget (fold (\<lambda>q d. if mget d q = None then mput q DirN d else d) qs d) p =
     (if mget d p = None \<and> p \<in> set qs then Some DirN else mget d p)"
  by (induction qs arbitrary: d) auto

lemma mget_os_MkdirAll:
  "mget (fst (os_MkdirAll F p d)) q \<in> {mget d q, Some DirN}"
  "mget d q \<noteq> None \<Longrightarrow> mget (fst (os_MkdirAll F p d)) q = mget d q"
  by (auto simp: os_MkdirAll_def mget_mkdir_fold split: option.splits)

lemma os_MkdirAll_ok:
  assumes "os_MkdirAll F p d = (d', None)" "p \<noteq> []"
  shows "mget d' p = Some DirN"
proof -
  have p: "p \<in> set (prefixes_of p)"
    using assms(2) by (auto simp: prefixes_of_def image_iff intro!: bexI [of _ "length p - 1"])
  then have nf: "\<not> is_file d p"
    using assms(1) by (auto simp: os_MkdirAll_def find_None_iff split: if_splits option.splits)
  have d': "d' = fold (\<lambda>q d. if mget d q = None then mput q DirN d else d) (prefixes_of p) d"
    using assms(1) by (auto simp: os_MkdirAll_def split: if_splits option.splits)
  show ?thesis
    using p nf by (auto simp: d' mget_mkdir_fold is_file_def split: option.splits node.splits)
qed

lemma mwf_mkdir_fold: "mwf d \<Longrightarrow> mwf (fold (\<lambda>q d. if mget d q = None then mput q DirN d else d) qs d)"
  by (induction qs arbitrary: d) auto

lemma mwf_os_MkdirAll [simp]: "mwf d \<Longrightarrow> mwf (fst (os_MkdirAll F p d))"
  by (auto simp: os_MkdirAll_def mwf_mkdir_fold split: option.splits)

lemma os_CreateTemp_ok:
  assumes "os_CreateTemp F now dir base rnds d = (d', Inr p)"
  shows "mget d p = None" "d' = mput p (FileN [] now) d" "\<exists>r. p = dir @ [tmp_name base r]"
  using assms by (auto simp: os_CreateTemp_def find_Some_iff split: if_splits option.splits)

lemma os_CreateTemp_err: "os_CreateTemp F now dir base rnds d = (d', Inl e) \<Longrightarrow> d' = d"
  by (auto simp: os_CreateTemp_def split: if_splits option.splits)

lemma mget_os_Write [simp]:
  "q \<noteq> p \<Longrightarrow> mget (fst (os_Write F now part p data d)) q = mget d q"
  by (simp add: os_Write_def)

lemma mget_os_Remove: "mget (fst (os_Remove F p d)) q \<in> {mget d q, None} \<and>
  (q \<noteq> p \<longrightarrow> mget (fst (os_Remove F p d)) q = mget d q)"
  by (auto simp: os_Remove_def split: option.splits node.splits)

lemma os_Remove_file:
  "is_file d p \<Longrightarrow> \<not> F (Remove p) \<Longrightarrow> os_Remove F p d = (mdel p d, None)"
  by (auto simp: os_Remove_def is_file_def split: option.splits node.splits)

lemma mwf_os_Remove [simp]: "mwf d \<Longrightarrow> mwf (fst (os_Remove F p d))"
  by (auto simp: os_Remove_def split: option.splits node.splits)

lemma os_Rename_err: "os_Rename F p q d = (d', Some e) \<Longrightarrow> d' = d"
  by (auto simp: os_Rename_def split: if_splits option.splits node.splits)

lemma os_Rename_file:
  "mget d p = Some (FileN c m) \<Longrightarrow> os_Rename F p q d = (d', None) \<Longrightarrow>
     d' = mput q (FileN c m) (mdel p d) \<and> mget d q \<noteq> Some DirN"
  by (auto simp: os_Rename_def split: if_splits)

end
