(* ===== verification/TicketMd.thy ===== *)
theory TicketMd
  imports Board
begin

text \<open>
  \<^verbatim>\<open>internal/project/ticket_md.go\<close>: a ticket as a Markdown file with YAML front matter.  The YAML
  library is a parameter (a pair of partial functions); what the code relies on is stated as
  \<open>yaml_ok\<close> where a theorem needs it.
\<close>

section \<open>Front matter\<close>

record Frontmatter =
  fm_ID :: TicketID
  fm_ProjectID :: string
  fm_Title :: string
  fm_Status :: TicketStatus
  fm_Type :: TicketType
  fm_Priority :: int
  fm_Labels :: "string list"
  fm_CreatedAt :: time
  fm_UpdatedAt :: time
  fm_StartedAt :: "time option"
  fm_CompletedAt :: "time option"
  fm_StatusChangedAt :: "time option"
  fm_UseWorktree :: bool
  fm_WorktreePath :: string
  fm_BranchName :: string
  fm_BaseBranch :: string
  fm_AgentType :: string
  fm_AgentStatus :: AgentStatus
  fm_AgentSpawnedAt :: "time option"
  fm_AgentPort :: int
  fm_AgentSessionID :: string
  fm_SessionOwned :: bool
  fm_CreatedBySession :: string
  fm_BlockedBy :: "TicketID list"
  fm_Meta :: "(string, string) gomap"

definition validStatuses :: "TicketStatus list" where
  "validStatuses = [StatusBacklog, StatusNext, StatusInProgress, StatusInReview, StatusDone, StatusArchived]"

definition validAgentStatuses :: "AgentStatus list" where
  "validAgentStatuses =
     [AgentNone, AgentIdle, AgentWorking, AgentWaiting, AgentSubagents, AgentCompleted, AgentError]"

definition validAgentTypes :: "string list" where
  "validAgentTypes =
     ['''', ''claude'', ''claude-custom'', ''claude-lean'', ''claude-research'', ''claude-spec'',
      ''claude-review'', ''opencode'', ''aider'', ''gemini'', ''codex'']"

definition toFrontmatter :: "Ticket \<Rightarrow> Frontmatter" where
  "toFrontmatter t =
     \<lparr> fm_ID = t_ID t, fm_ProjectID = t_ProjectID t, fm_Title = t_Title t, fm_Status = t_Status t,
       fm_Type = t_Type t, fm_Priority = t_Priority t, fm_Labels = t_Labels t,
       fm_CreatedAt = t_CreatedAt t, fm_UpdatedAt = t_UpdatedAt t, fm_StartedAt = t_StartedAt t,
       fm_CompletedAt = t_CompletedAt t, fm_StatusChangedAt = t_StatusChangedAt t,
       fm_UseWorktree = t_UseWorktree t, fm_WorktreePath = t_WorktreePath t,
       fm_BranchName = t_BranchName t, fm_BaseBranch = t_BaseBranch t,
       fm_AgentType = t_AgentType t, fm_AgentStatus = t_AgentStatus t,
       fm_AgentSpawnedAt = t_AgentSpawnedAt t, fm_AgentPort = t_AgentPort t,
       fm_AgentSessionID = t_AgentSessionID t, fm_SessionOwned = False,
       fm_CreatedBySession = t_CreatedBySession t, fm_BlockedBy = t_BlockedBy t, fm_Meta = t_Meta t \<rparr>"

definition fromFrontmatter :: "Frontmatter \<Rightarrow> string \<Rightarrow> Ticket" where
  "fromFrontmatter fm body =
     \<lparr> t_ID = fm_ID fm, t_ProjectID = fm_ProjectID fm, t_Title = fm_Title fm, t_Description = body,
       t_Status = fm_Status fm, t_UseWorktree = fm_UseWorktree fm, t_WorktreePath = fm_WorktreePath fm,
       t_BranchName = fm_BranchName fm, t_BaseBranch = fm_BaseBranch fm,
       t_AgentType = fm_AgentType fm, t_AgentStatus = fm_AgentStatus fm,
       t_AgentSpawnedAt = fm_AgentSpawnedAt fm, t_AgentPort = fm_AgentPort fm,
       t_AgentSessionID = fm_AgentSessionID fm, t_CreatedBySession = fm_CreatedBySession fm,
       t_CreatedAt = fm_CreatedAt fm, t_UpdatedAt = fm_UpdatedAt fm, t_StartedAt = fm_StartedAt fm,
       t_CompletedAt = fm_CompletedAt fm, t_StatusChangedAt = fm_StatusChangedAt fm,
       t_Labels = fm_Labels fm, t_Priority = fm_Priority fm, t_Meta = fm_Meta fm,
       t_Type = fm_Type fm, t_BlockedBy = fm_BlockedBy fm \<rparr>"

datatype md_error =
    NilTicket | YamlMarshal
  | MissingOpenFence | MissingCloseFence | YamlParse
  | EmptyID | EmptyTitle | InvalidStatus string | InvalidAgentStatus string
  | InvalidAgentType string | InvalidType board_error

text \<open>\<^verbatim>\<open>validateFrontmatter\<close>: strict on present but invalid values, lenient on missing ones.  \<open>now\<close> is
  \<^verbatim>\<open>time.Now()\<close>; the zero time is \<open>0\<close>.\<close>

definition backfill :: "time \<Rightarrow> Frontmatter \<Rightarrow> Frontmatter" where
  "backfill now fm =
     (let fm1 = (if fm_CreatedAt fm = 0 then fm\<lparr>fm_CreatedAt := now\<rparr> else fm);
          fm2 = (if fm_UpdatedAt fm1 = 0 then fm1\<lparr>fm_UpdatedAt := now\<rparr> else fm1);
          fm3 = (if fm_StatusChangedAt fm2 = None
                 then fm2\<lparr>fm_StatusChangedAt := Some (fm_UpdatedAt fm2)\<rparr> else fm2)
      in if fm_Priority fm3 = 0 then fm3\<lparr>fm_Priority := 3\<rparr> else fm3)"

definition validateFrontmatter :: "time \<Rightarrow> Frontmatter \<Rightarrow> md_error + Frontmatter" where
  "validateFrontmatter now fm =
     (if blank (fm_ID fm) then Inl EmptyID
      else if blank (fm_Title fm) then Inl EmptyTitle
      else if fm_Status fm \<noteq> [] \<and> fm_Status fm \<notin> set validStatuses then Inl (InvalidStatus (fm_Status fm))
      else
        let fm1 = (if fm_Status fm = [] then fm\<lparr>fm_Status := StatusBacklog\<rparr> else fm) in
        if fm_AgentStatus fm1 \<noteq> [] \<and> fm_AgentStatus fm1 \<notin> set validAgentStatuses
        then Inl (InvalidAgentStatus (fm_AgentStatus fm1))
        else
          let fm2 = (if fm_AgentStatus fm1 = [] then fm1\<lparr>fm_AgentStatus := AgentNone\<rparr> else fm1) in
          if fm_AgentType fm2 \<notin> set validAgentTypes then Inl (InvalidAgentType (fm_AgentType fm2))
          else case ParseTicketType (fm_Type fm2) of
            Inl e \<Rightarrow> Inl (InvalidType e)
          | Inr _ \<Rightarrow> Inr (backfill now fm2))"

section \<open>Files\<close>

record yaml_lib =
  y_Marshal :: "Frontmatter \<Rightarrow> string option"
  y_Unmarshal :: "string \<Rightarrow> Frontmatter option"

definition nl :: char where
  "nl = CHR 0x0A"

definition frontmatterFence :: string where
  "frontmatterFence = ''---'' @ [nl]"

definition fenceClose :: string where
  "fenceClose = nl # ''---'' @ [nl]"

definition is_nl :: "char \<Rightarrow> bool" where
  "is_nl c \<longleftrightarrow> c = nl"

definition MarshalTicket :: "yaml_lib \<Rightarrow> Ticket option \<Rightarrow> md_error + string" where
  "MarshalTicket Y tp =
     (case tp of
        None \<Rightarrow> Inl NilTicket
      | Some t \<Rightarrow>
          (case y_Marshal Y (toFrontmatter t) of
             None \<Rightarrow> Inl YamlMarshal
           | Some yml \<Rightarrow>
               let body = trim_right is_nl (t_Description t)
               in Inr (frontmatterFence @ yml @ ''---'' @ [nl, nl] @ body @ [nl])))"

definition UnmarshalTicket :: "yaml_lib \<Rightarrow> time \<Rightarrow> string \<Rightarrow> md_error + Ticket" where
  "UnmarshalTicket Y now s =
     (if \<not> has_prefix s frontmatterFence then Inl MissingOpenFence
      else
        let rest = drop (length frontmatterFence) s in
        case index_of rest fenceClose of
          None \<Rightarrow> Inl MissingCloseFence
        | Some end' \<Rightarrow>
            let yamlPart = take (end' + 1) rest;
                body = trim_right is_nl (trim_left is_nl (drop (end' + length fenceClose) rest))
            in (case y_Unmarshal Y yamlPart of
                  None \<Rightarrow> Inl YamlParse
                | Some fm \<Rightarrow>
                    (case validateFrontmatter now fm of
                       Inl e \<Rightarrow> Inl e
                     | Inr fm' \<Rightarrow> Inr (fromFrontmatter fm' body))))"

definition TicketFilename :: "Ticket \<Rightarrow> string" where
  "TicketFilename t =
     (let slug = Slugify (t_Title t) 40;
          slug' = (if slug = [] then ''untitled'' else slug);
          uuidTail = (if length (t_ID t) > 8 then take 8 (t_ID t) else t_ID t)
      in slug' @ ''-'' @ uuidTail @ ''.md'')"

section \<open>Lemmas\<close>

text \<open>What the code relies on of the YAML library for one front matter value: it marshals to a text
  that ends in a newline and has no line \<open>---\<close> (YAML indents block scalars), and the text parses
  back to the value.\<close>

definition yaml_ok :: "yaml_lib \<Rightarrow> Frontmatter \<Rightarrow> bool" where
  "yaml_ok Y fm \<longleftrightarrow> (\<exists>s. y_Marshal Y fm = Some s \<and> y_Unmarshal Y s = Some fm \<and>
     has_suffix s [nl] \<and> \<not> contains s fenceClose)"

definition trim_nl :: "string \<Rightarrow> string" where
  "trim_nl s = trim_right is_nl (trim_left is_nl s)"

lemma fenceClose_unfold: "fenceClose = [nl, CHR ''-'', CHR ''-'', CHR ''-'', nl]"
  by (simp add: fenceClose_def)

lemma nl_dash [simp]: "nl \<noteq> CHR ''-''" "CHR ''-'' \<noteq> nl"
  by (simp_all add: nl_def)

lemma index_fence:
  assumes "\<not> sublist fenceClose (y @ [nl])"
  shows "index_of (y @ nl # ''---'' @ nl # r) fenceClose = Some (length y)"
proof -
  have "\<not> prefix fenceClose (drop i (y @ nl # ''---'' @ nl # r))" if i: "i < length y" for i
  proof
    let ?t = "y @ nl # ''---'' @ nl # r"
    assume p: "prefix fenceClose (drop i ?t)"
    have c: "?t ! (i + k) = fenceClose ! k" if "k < length fenceClose" for k
      using prefix_nth [OF p that] i by (simp add: nth_drop del: drop_append)
    have dash: "?t ! (i + k) = CHR ''-''" if "k \<in> {1, 2, 3}" for k
      using c [of k] that by (auto simp: fenceClose_unfold)
    have at: "?t ! length y = nl" by (simp add: nth_append)
    have "i + k \<noteq> length y" if "k \<in> {1, 2, 3}" for k
      using dash [OF that] at by auto
    from this [of 1] this [of 2] this [of 3] have short: "i + 4 \<le> length y"
      using i by simp
    obtain zs where zs: "drop i ?t = fenceClose @ zs" using p by (auto simp: prefix_def)
    have five: "length fenceClose = 5" by (simp add: fenceClose_unfold)
    have "take 5 (drop i ?t) = take 5 (drop i (y @ [nl]))"
      using short i by (auto simp: take_Cons')
    moreover have "take 5 (drop i ?t) = fenceClose" unfolding zs using five by simp
    ultimately have "prefix fenceClose (drop i (y @ [nl]))"
      by (metis take_is_prefix)
    then have "sublist fenceClose (drop i (y @ [nl]))" by (rule prefix_imp_sublist)
    then have "sublist fenceClose (y @ [nl])"
      using sublist_drop sublist_order.order.trans by blast
    with assms show False by simp
  qed
  then show ?thesis
    by (intro index_of_skip) (auto simp: fenceClose_unfold)
qed

lemma trim_left_append:
  "trim_left P (xs @ ys) = (if trim_left P xs = [] then trim_left P ys else trim_left P xs @ ys)"
  by (auto simp: trim_left_def dropWhile_append dropWhile_eq_Nil_conv)

lemma trim_Nil_iff: "trim_left P s = [] \<longleftrightarrow> (\<forall>c \<in> set s. P c)" "trim_right P s = [] \<longleftrightarrow> (\<forall>c \<in> set s. P c)"
  by (simp_all add: trim_left_def trim_right_def dropWhile_eq_Nil_conv)

lemma trim_right_split:
  obtains z where "s = trim_right P s @ z" "\<forall>c \<in> set z. P c"
proof
  show "s = trim_right P s @ rev (takeWhile P (rev s))"
    unfolding trim_right_def rev_append [symmetric] by simp
  show "\<forall>c \<in> set (rev (takeWhile P (rev s))). P c"
    by (auto dest: set_takeWhileD)
qed

lemma trim_body:
  "trim_right is_nl (trim_left is_nl (nl # trim_right is_nl desc @ [nl])) = trim_nl desc"
proof -
  obtain z where z: "desc = trim_right is_nl desc @ z" and zn: "\<forall>c \<in> set z. is_nl c"
    by (rule trim_right_split)
  define b where "b = trim_right is_nl desc"
  have nl: "is_nl nl" by (simp add: is_nl_def)
  have d: "desc = b @ z" using z by (simp add: b_def)
  have z0: "trim_right is_nl z = []" "trim_left is_nl z = []" using zn by (simp_all add: trim_Nil_iff)
  have l: "trim_left is_nl (nl # b @ [nl]) = (if trim_left is_nl b = [] then [] else trim_left is_nl b @ [nl])"
    using nl trim_left_append [of is_nl b "[nl]"] by (simp add: trim_left_def)
  have r: "trim_left is_nl (b @ z) = (if trim_left is_nl b = [] then [] else trim_left is_nl b @ z)"
    by (simp add: trim_left_append z0)
  have e: "trim_right is_nl (x @ z) = trim_right is_nl x" for x
    by (simp add: trim_right_append z0)
  show ?thesis
    unfolding b_def [symmetric] unfolding d trim_nl_def l r by (simp add: e nl)
qed

lemma Unmarshal_Marshal:
  assumes "yaml_ok Y (toFrontmatter t)"
  shows "\<exists>data. MarshalTicket Y (Some t) = Inr data \<and>
    UnmarshalTicket Y now data =
      (case validateFrontmatter now (toFrontmatter t) of
         Inl e \<Rightarrow> Inl e
       | Inr fm \<Rightarrow> Inr (fromFrontmatter fm (trim_nl (t_Description t))))"
proof -
  obtain s where m: "y_Marshal Y (toFrontmatter t) = Some s"
    and u: "y_Unmarshal Y s = Some (toFrontmatter t)"
    and e: "has_suffix s [nl]" and f: "\<not> contains s fenceClose"
    using assms by (auto simp: yaml_ok_def)
  obtain y where y: "s = y @ [nl]" using e by (auto simp: suffix_def)
  let ?body = "trim_right is_nl (t_Description t)"
  let ?rest = "y @ nl # ''---'' @ nl # nl # ?body @ [nl]"
  have idx: "index_of ?rest fenceClose = Some (length y)"
    using f y by (intro index_fence) (simp add: contains_iff)
  have d: "drop (length y + length fenceClose) ?rest = nl # ?body @ [nl]"
    by (simp add: fenceClose_unfold)
  have t: "trim_right is_nl (trim_left is_nl (nl # ?body @ [nl])) = trim_nl (t_Description t)"
    by (rule trim_body)
  have pre: "has_prefix (frontmatterFence @ ?rest) frontmatterFence" by (simp only: prefixI)
  have drop_fence: "drop (length frontmatterFence) (frontmatterFence @ ?rest) = ?rest" by simp
  have take_s: "take (length y + 1) ?rest = s" by (simp add: y)
  have M: "MarshalTicket Y (Some t) = Inr (frontmatterFence @ ?rest)"
    by (simp add: MarshalTicket_def m y Let_def)
  have U: "UnmarshalTicket Y now (frontmatterFence @ ?rest) =
      (case validateFrontmatter now (toFrontmatter t) of
         Inl e \<Rightarrow> Inl e
       | Inr fm \<Rightarrow> Inr (fromFrontmatter fm (trim_nl (t_Description t))))"
    unfolding UnmarshalTicket_def Let_def
    by (simp only: pre drop_fence idx d t take_s u
        option.case simp_thms if_False)
  from M U show ?thesis by blast
qed

text \<open>The tickets a file can hold: what \<^verbatim>\<open>validateFrontmatter\<close> accepts unchanged.\<close>

definition storable :: "Ticket \<Rightarrow> bool" where
  "storable t \<longleftrightarrow>
     \<not> blank (t_ID t) \<and> \<not> blank (t_Title t) \<and> t_Status t \<in> set validStatuses \<and>
     t_AgentStatus t \<in> set validAgentStatuses \<and> t_AgentType t \<in> set validAgentTypes \<and>
     t_Type t \<in> {TypeFreeform, TypeResearch, TypeSpec, TypeImplement, TypeReview} \<and>
     t_CreatedAt t \<noteq> 0 \<and> t_UpdatedAt t \<noteq> 0 \<and> t_StatusChangedAt t \<noteq> None \<and> t_Priority t \<noteq> 0"

lemma backfill_simps [simp]:
  "fm_ID (backfill now fm) = fm_ID fm" "fm_Title (backfill now fm) = fm_Title fm"
  "fm_Status (backfill now fm) = fm_Status fm" "fm_AgentStatus (backfill now fm) = fm_AgentStatus fm"
  "fm_AgentType (backfill now fm) = fm_AgentType fm" "fm_Type (backfill now fm) = fm_Type fm"
  "fm_CreatedAt (backfill now fm) = (if fm_CreatedAt fm = 0 then now else fm_CreatedAt fm)"
  "fm_UpdatedAt (backfill now fm) = (if fm_UpdatedAt fm = 0 then now else fm_UpdatedAt fm)"
  "fm_StatusChangedAt (backfill now fm) \<noteq> None"
  "fm_Priority (backfill now fm) = (if fm_Priority fm = 0 then 3 else fm_Priority fm)"
  by (simp_all add: backfill_def Let_def)

lemma backfill_id:
  "fm_CreatedAt fm \<noteq> 0 \<Longrightarrow> fm_UpdatedAt fm \<noteq> 0 \<Longrightarrow> fm_StatusChangedAt fm \<noteq> None \<Longrightarrow>
   fm_Priority fm \<noteq> 0 \<Longrightarrow> backfill now fm = fm"
  by (simp add: backfill_def)

lemma valid_nonempty: "s \<in> set validStatuses \<Longrightarrow> s \<noteq> []" "s \<in> set validAgentStatuses \<Longrightarrow> s \<noteq> []"
  by (auto simp: validStatuses_def validAgentStatuses_def)

lemma backfill_defaults: "StatusBacklog \<in> set validStatuses" "AgentNone \<in> set validAgentStatuses"
  by (simp_all add: validStatuses_def validAgentStatuses_def)

lemma toFrontmatter_simps [simp]:
  "fm_ID (toFrontmatter t) = t_ID t" "fm_Title (toFrontmatter t) = t_Title t"
  "fm_Status (toFrontmatter t) = t_Status t" "fm_AgentStatus (toFrontmatter t) = t_AgentStatus t"
  "fm_AgentType (toFrontmatter t) = t_AgentType t" "fm_Type (toFrontmatter t) = t_Type t"
  "fm_CreatedAt (toFrontmatter t) = t_CreatedAt t" "fm_UpdatedAt (toFrontmatter t) = t_UpdatedAt t"
  "fm_StatusChangedAt (toFrontmatter t) = t_StatusChangedAt t"
  "fm_Priority (toFrontmatter t) = t_Priority t"
  by (simp_all add: toFrontmatter_def)

lemma ParseTicketType_known:
  "t \<in> {TypeFreeform, TypeResearch, TypeSpec, TypeImplement, TypeReview} \<Longrightarrow>
     \<exists>x. ParseTicketType t = Inr x"
  by (auto simp: ParseTicketType_def)

lemma validate_storable:
  assumes "storable t"
  shows "validateFrontmatter now (toFrontmatter t) = Inr (toFrontmatter t)"
proof -
  obtain x where "ParseTicketType (t_Type t) = Inr x"
    using ParseTicketType_known [of "t_Type t"] assms by (auto simp: storable_def)
  then show ?thesis
    using assms valid_nonempty [of "t_Status t"] valid_nonempty [of "t_AgentStatus t"]
    by (simp add: storable_def validateFrontmatter_def backfill_id)
qed

lemma from_toFrontmatter: "fromFrontmatter (toFrontmatter t) b = t\<lparr>t_Description := b\<rparr>"
  by (simp add: fromFrontmatter_def toFrontmatter_def)

text \<open>Everything a successful validation establishes.\<close>

lemma validate_Inr:
  assumes "validateFrontmatter now fm = Inr fm'"
  obtains fm0 where "fm' = backfill now fm0" "\<not> blank (fm_ID fm0)" "\<not> blank (fm_Title fm0)"
    "fm_Status fm0 \<in> set validStatuses" "fm_AgentStatus fm0 \<in> set validAgentStatuses"
    "fm_AgentType fm0 \<in> set validAgentTypes" "fm_ID fm0 = fm_ID fm"
proof -
  define fm1 where "fm1 = (if fm_Status fm = [] then fm\<lparr>fm_Status := StatusBacklog\<rparr> else fm)"
  define fm2 where "fm2 = (if fm_AgentStatus fm1 = [] then fm1\<lparr>fm_AgentStatus := AgentNone\<rparr> else fm1)"
  have v: "\<not> blank (fm_ID fm)" "\<not> blank (fm_Title fm)" "fm_Status fm = [] \<or> fm_Status fm \<in> set validStatuses"
    "fm_AgentStatus fm1 = [] \<or> fm_AgentStatus fm1 \<in> set validAgentStatuses"
    "fm_AgentType fm2 \<in> set validAgentTypes" "fm' = backfill now fm2"
    using assms
    by (simp_all add: validateFrontmatter_def Let_def fm1_def [symmetric] fm2_def [symmetric]
        split: if_split_asm sum.split_asm)
  have one: "fm_Status fm1 \<in> set validStatuses" "fm_ID fm1 = fm_ID fm" "fm_Title fm1 = fm_Title fm"
    using v(3) backfill_defaults by (auto simp: fm1_def)
  have two: "fm_AgentStatus fm2 \<in> set validAgentStatuses" "fm_ID fm2 = fm_ID fm1" "fm_Title fm2 = fm_Title fm1"
    "fm_Status fm2 = fm_Status fm1"
    using v(4) backfill_defaults by (auto simp: fm2_def)
  show ?thesis
    by (rule that [of fm2]) (simp_all add: v one two)
qed

lemma validate_valid:
  assumes "validateFrontmatter now fm = Inr fm'" "now \<noteq> 0"
  shows "fm_Status fm' \<in> set validStatuses \<and> fm_AgentStatus fm' \<in> set validAgentStatuses \<and>
    fm_AgentType fm' \<in> set validAgentTypes \<and> fm_CreatedAt fm' \<noteq> 0 \<and> fm_UpdatedAt fm' \<noteq> 0 \<and>
    fm_StatusChangedAt fm' \<noteq> None \<and> fm_Priority fm' \<noteq> 0 \<and> fm_ID fm' = fm_ID fm \<and>
    \<not> blank (fm_ID fm') \<and> \<not> blank (fm_Title fm')"
  using assms(1)
proof (rule validate_Inr)
qed (simp add: assms(2))

section \<open>Properties\<close>

text \<open>C35: Round trip: a storable ticket written by \<^verbatim>\<open>MarshalTicket\<close> and read back by \<^verbatim>\<open>UnmarshalTicket\<close> is the
  same ticket, except that leading and trailing newlines of the description are gone.\<close>

theorem ticket_file_roundtrip:
  assumes "yaml_ok Y (toFrontmatter t)" and "storable t"
  shows "\<exists>data. MarshalTicket Y (Some t) = Inr data \<and>
    UnmarshalTicket Y now data = Inr (t\<lparr>t_Description := trim_nl (t_Description t)\<rparr>)"
  using Unmarshal_Marshal [OF assms(1), of now]
  by (simp add: validate_storable [OF assms(2)] from_toFrontmatter)

definition example_ticket :: Ticket where
  "example_ticket = (NewTicket 5 ''0a1b2c3d-e'' ''Fix it'' ''p'')\<lparr>t_Description := [nl] @ ''- a'' @ fenceClose @ ''b'' @ [nl]\<rparr>"

definition example_yaml :: yaml_lib where
  "example_yaml = \<lparr>y_Marshal = (\<lambda>fm. Some (''id: '' @ fm_ID fm @ [nl])),
     y_Unmarshal = (\<lambda>s. if s = ''id: 0a1b2c3d-e'' @ [nl] then Some (toFrontmatter example_ticket) else None)\<rparr>"

lemma example_yaml_ok: "yaml_ok example_yaml (toFrontmatter example_ticket)"
proof -
  have "index_of (''id: 0a1b2c3d-e'' @ [nl]) fenceClose = None" by code_simp
  then show ?thesis
    by (simp add: yaml_ok_def example_yaml_def contains_def example_ticket_def toFrontmatter_def
        NewTicket_def suffix_def)
qed

lemma example_storable: "storable example_ticket"
proof -
  have ids: "\<not> blank ''0a1b2c3d-e''" "\<not> blank ''Fix it''"
    by (simp_all add: not_blank is_space_def)
  have enums: "StatusBacklog \<in> set validStatuses" "AgentNone \<in> set validAgentStatuses" "[] \<in> set validAgentTypes"
    by (simp_all add: validStatuses_def validAgentStatuses_def validAgentTypes_def)
  show ?thesis
    unfolding storable_def example_ticket_def NewTicket_def Ticket.simps Ticket.update_convs
    using ids enums by simp
qed

theorem ticket_file_roundtrip_witness:
  "\<exists>data. MarshalTicket example_yaml (Some example_ticket) = Inr data \<and>
     UnmarshalTicket example_yaml 9 data =
       Inr (example_ticket\<lparr>t_Description := ''- a'' @ fenceClose @ ''b''\<rparr>)"
proof -
  have "trim_nl (t_Description example_ticket) = ''- a'' @ fenceClose @ ''b''"
    by code_simp
  with ticket_file_roundtrip [OF example_yaml_ok example_storable, of 9] show ?thesis by simp
qed



text \<open>A ticket whose agent status is the daemon's transient \<^verbatim>\<open>stuck\<close> verdict can be written but its
  file cannot be read back: the parser rejects the whole ticket.\<close>

theorem stuck_ticket_unreadable:
  assumes "yaml_ok Y (toFrontmatter (t\<lparr>t_AgentStatus := AgentStuck\<rparr>))" and "storable t"
  shows "\<exists>data. MarshalTicket Y (Some (t\<lparr>t_AgentStatus := AgentStuck\<rparr>)) = Inr data \<and>
    UnmarshalTicket Y now data = Inl (InvalidAgentStatus AgentStuck)"
proof -
  have "AgentStuck \<notin> set validAgentStatuses" "AgentStuck \<noteq> []" by (simp_all add: validAgentStatuses_def)
  then have "validateFrontmatter now (toFrontmatter (t\<lparr>t_AgentStatus := AgentStuck\<rparr>)) =
      Inl (InvalidAgentStatus AgentStuck)"
    using assms(2) valid_nonempty [of "t_Status t"]
    by (simp add: storable_def validateFrontmatter_def)
  with Unmarshal_Marshal [OF assms(1), of now] show ?thesis by simp
qed

definition stuck_yaml :: yaml_lib where
  "stuck_yaml = \<lparr>y_Marshal = (\<lambda>fm. Some (''id: x'' @ [nl])),
     y_Unmarshal = (\<lambda>s. Some (toFrontmatter (example_ticket\<lparr>t_AgentStatus := AgentStuck\<rparr>)))\<rparr>"

theorem stuck_ticket_unreadable_witness:
  "\<exists>data. MarshalTicket stuck_yaml (Some (example_ticket\<lparr>t_AgentStatus := AgentStuck\<rparr>)) = Inr data \<and>
     UnmarshalTicket stuck_yaml 9 data = Inl (InvalidAgentStatus AgentStuck)"
proof (rule stuck_ticket_unreadable [OF _ example_storable])
  have "index_of (''id: x'' @ [nl]) fenceClose = None" by code_simp
  then show "yaml_ok stuck_yaml (toFrontmatter (example_ticket\<lparr>t_AgentStatus := AgentStuck\<rparr>))"
    by (simp add: yaml_ok_def stuck_yaml_def contains_def suffix_def)
qed

text \<open>Two tickets with ids of at least eight characters share a file name exactly when their slugs
  (with the fallback for an empty one) and the first eight characters of their ids agree; so
  distinct tickets may collide on one file.\<close>

theorem TicketFilename_collision:
  assumes "8 \<le> length (t_ID t)" and "8 \<le> length (t_ID t')"
  shows "TicketFilename t = TicketFilename t' \<longleftrightarrow>
    (let slug = \<lambda>t. if Slugify (t_Title t) 40 = [] then ''untitled'' else Slugify (t_Title t) 40
     in slug t = slug t' \<and> take 8 (t_ID t) = take 8 (t_ID t'))"
proof -
  have f: "TicketFilename t = (if Slugify (t_Title t) 40 = [] then ''untitled'' else Slugify (t_Title t) 40)
      @ ''-'' @ take 8 (t_ID t) @ ''.md''" if "8 \<le> length (t_ID t)" for t
    using that by (auto simp: TicketFilename_def Let_def)
  have eq: "length (''-'' @ take 8 (t_ID t) @ ''.md'') = length (''-'' @ take 8 (t_ID t') @ ''.md'')"
    using assms by simp
  show ?thesis
    unfolding f [OF assms(1)] f [OF assms(2)] Let_def
    by (simp only: append_eq_append_conv [OF disjI2 [OF eq]] same_append_eq)
      (simp only: append_same_eq)
qed

theorem TicketFilename_collision_witness:
  "TicketFilename (NewTicket 0 ''0a1b2c3d-e'' ''Fix it'' ''p'') = TicketFilename (NewTicket 0 ''0a1b2c3d-f'' ''fix  it!'' ''p'')"
proof -
  have "Slugify ''Fix it'' 40 = ''fix-it''" "Slugify ''fix  it!'' 40 = ''fix-it''" by code_simp+
  then show ?thesis
    by (subst TicketFilename_collision) (simp_all add: NewTicket_def)
qed

end
