(* ===== verification/AtomicWrite.thy ===== *)
theory AtomicWrite
  imports Disk TicketMd
begin

text \<open>
  The write-to-temporary-then-rename sequence that \<^verbatim>\<open>TicketStore.SaveTicket\<close>,
  \<^verbatim>\<open>ProjectRegistry.Save\<close> and \<^verbatim>\<open>FilterRegistry.Save\<close> (\<^verbatim>\<open>internal/project\<close>) share, and the environment of
  the storage code: \<open>io_env\<close> holds what the operating system and the libraries answer while an
  operation runs, namely which system calls fail, the clock, how much of a failed write reached
  the disk, the random suffixes of \<^verbatim>\<open>os.CreateTemp\<close>, the YAML library and the JSON decoder of the
  legacy ticket file.
\<close>

record io_env =
  e_faults :: faults
  e_now :: time
  e_part :: nat
  e_rnds :: "string list"
  e_yaml :: yaml_lib
  e_json :: "string \<Rightarrow> (string \<times> (TicketID, Ticket option) gomap) option"

datatype aw_error = AW_create io_error | AW_write io_error | AW_close io_error | AW_rename io_error

definition write_via_tmp :: "io_env \<Rightarrow> path \<Rightarrow> string \<Rightarrow> string \<Rightarrow> disk \<Rightarrow> disk \<times> aw_error option" where
  "write_via_tmp E dir base data d =
     (let F = e_faults E in
      case os_CreateTemp F (e_now E) dir base (e_rnds E) d of
        (d1, Inl e) \<Rightarrow> (d1, Some (AW_create e))
      | (d1, Inr tmp) \<Rightarrow>
          (case os_Write F (e_now E) (e_part E) tmp data d1 of
             (d2, Some e) \<Rightarrow> (fst (os_Remove F tmp d2), Some (AW_write e))
           | (d2, None) \<Rightarrow>
               (case os_Close F tmp of
                  Some e \<Rightarrow> (fst (os_Remove F tmp d2), Some (AW_close e))
                | None \<Rightarrow>
                    (case os_Rename F tmp (dir @ [base]) d2 of
                       (d3, Some e) \<Rightarrow> (fst (os_Remove F tmp d3), Some (AW_rename e))
                     | (d3, None) \<Rightarrow> (d3, None)))))"

section \<open>Lemmas\<close>

lemma tmp_name_neq [simp]: "tmp_name base r \<noteq> base" "base \<noteq> tmp_name base r"
  by (auto simp: tmp_name_def)

text \<open>The three outcomes: the disk before the temporary file, the disk with a temporary file left
  over or removed again, and the committed file.\<close>

lemma write_via_tmp_cases:
  assumes "write_via_tmp E dir base data d = (d', r)"
  obtains (fail) e x where "r = Some e" "mget d (dir @ [tmp_name base x]) = None"
      "\<And>q. q \<noteq> dir @ [tmp_name base x] \<Longrightarrow> mget d' q = mget d q"
  | (refuse) e where "r = Some e" "d' = d"
  | (commit) "r = None" "mget d' (dir @ [base]) = Some (FileN data (e_now E))"
      "\<And>q. q \<noteq> dir @ [base] \<Longrightarrow> mget d' q = mget d q"
proof -
  let ?F = "e_faults E"
  obtain d1 t where c: "os_CreateTemp ?F (e_now E) dir base (e_rnds E) d = (d1, t)" by force
  show ?thesis
  proof (cases t)
    case (Inl e)
    then show ?thesis
      using refuse [of "AW_create e"] assms c os_CreateTemp_err [of ?F "e_now E" dir base "e_rnds E" d d1 e]
      by (simp add: write_via_tmp_def)
  next
    case (Inr tmp)
    note ok = os_CreateTemp_ok [OF c [unfolded Inr]]
    obtain d2 w where w: "os_Write ?F (e_now E) (e_part E) tmp data d1 = (d2, w)" by force
    have d2: "mget d2 q = mget d q" if "q \<noteq> tmp" for q
      using that w ok(2) mget_os_Write [OF that, of ?F "e_now E" "e_part E" data d1] by simp
    have gone: "mget (fst (os_Remove ?F tmp x)) q = mget d q" if "q \<noteq> tmp" "mget x q = mget d q" for x q
      using mget_os_Remove [of ?F tmp x q] that by simp
    obtain y where tmp: "tmp = dir @ [tmp_name base y]" using ok(3) by blast
    note failed = fail [OF _ ok(1) [unfolded tmp], folded tmp]
    show ?thesis
    proof (cases "w = None \<and> os_Close ?F tmp = None")
      case False
      then obtain e where "r = Some e" "d' = fst (os_Remove ?F tmp d2)"
        using assms c Inr w
        by (cases w; cases "os_Close ?F tmp") (auto simp: write_via_tmp_def)
      then show ?thesis using failed gone d2 by metis
    next
      case True
      then have t2: "mget d2 tmp = Some (FileN data (e_now E))"
        using w by (auto simp: os_Write_def split: if_splits)
      obtain d3 x where rn: "os_Rename ?F tmp (dir @ [base]) d2 = (d3, x)" by force
      show ?thesis
      proof (cases x)
        case None
        then have "d3 = mput (dir @ [base]) (FileN data (e_now E)) (mdel tmp d2)"
          using os_Rename_file [OF t2] rn by simp
        moreover have "d' = d3" "r = None" using assms c Inr w True rn None by (auto simp: write_via_tmp_def)
        ultimately show ?thesis using commit d2 ok(1) by simp
      next
        case (Some e)
        then have "d3 = d2" using os_Rename_err rn by metis
        moreover have "d' = fst (os_Remove ?F tmp d3)" "r = Some (AW_rename e)"
          using assms c Inr w True rn Some by (auto simp: write_via_tmp_def)
        ultimately show ?thesis using failed gone d2 by metis
      qed
    qed
  qed
qed

text \<open>A failed write leaves every existing file alone; a successful one changes the target only.\<close>

lemma write_via_tmp_err:
  assumes "write_via_tmp E dir base data d = (d', Some e)" "mget d q \<noteq> None"
  shows "mget d' q = mget d q"
  using assms(1)
proof (cases rule: write_via_tmp_cases)
  case (fail e' x)
  then show ?thesis using assms(2) by metis
qed simp_all

lemma write_via_tmp_ok:
  assumes "write_via_tmp E dir base data d = (d', None)"
  shows "mget d' (dir @ [base]) = Some (FileN data (e_now E))"
    "q \<noteq> dir @ [base] \<Longrightarrow> mget d' q = mget d q"
proof -
  have "mget d' (dir @ [base]) = Some (FileN data (e_now E)) \<and>
      (q \<noteq> dir @ [base] \<longrightarrow> mget d' q = mget d q)"
    using assms by (cases rule: write_via_tmp_cases) simp_all
  then show "mget d' (dir @ [base]) = Some (FileN data (e_now E))"
    "q \<noteq> dir @ [base] \<Longrightarrow> mget d' q = mget d q" by simp_all
qed

lemma write_via_tmp_existing:
  assumes "write_via_tmp E dir base data d = (d', r)" "mget d q \<noteq> None" "q \<noteq> dir @ [base]"
  shows "mget d' q = mget d q"
proof (cases r)
  case None
  then show ?thesis using write_via_tmp_ok(2) assms by blast
next
  case (Some e)
  then show ?thesis using write_via_tmp_err assms by blast
qed

lemma write_via_tmp_new:
  assumes "write_via_tmp E dir base data d = (d', r)" "q \<noteq> dir @ [base]" "\<And>x. q \<noteq> dir @ [tmp_name base x]"
  shows "mget d' q = mget d q"
  using assms(1)
proof (cases rule: write_via_tmp_cases)
  case (fail e x)
  then show ?thesis using assms(3) by metis
qed (use assms in simp_all)

end
