(* ===== verification/Migration.thy ===== *)
theory Migration
  imports AtomicWrite
begin

text \<open>
  \<^verbatim>\<open>internal/project/migration.go\<close>: the one-way conversion of a project's legacy
  \<^verbatim>\<open>tickets/<id>.json\<close> into the directory \<^verbatim>\<open>tickets/<id>/\<close> with one Markdown file per ticket.
  The state is the disk; the environment \<open>io_env\<close> is the one of theory AtomicWrite.
\<close>

definition ticketsDir :: path where
  "ticketsDir = [''tickets'']"

datatype MigrationState = MigrationNotNeeded | MigrationPending | MigrationInProgressOrphan | MigrationComplete

datatype mig_error =
    CleanOrphan io_error | ReadLegacy io_error | ParseLegacy | RenameStale io_error
  | CreateWorkspace io_error | MarshalFailed TicketID md_error | WriteFailed TicketID io_error
  | ReadBack io_error | ParseBack md_error | IdMismatch | TitleMismatch | StatusMismatch
  | ProjectMismatch | LabelsMismatch | BlockedByMismatch | ValidateFailed TicketID mig_error
  | FinalNotEmpty | RemoveFinal io_error | PromoteFailed io_error

definition legacyJSONPath :: "string \<Rightarrow> path" where
  "legacyJSONPath pid = ticketsDir @ [pid @ ''.json'']"

definition perTicketDirPath :: "string \<Rightarrow> path" where
  "perTicketDirPath pid = ticketsDir @ [pid]"

definition migratingWorkspacePath :: "string \<Rightarrow> path" where
  "migratingWorkspacePath pid = ticketsDir @ [pid @ ''.migrating'']"

text \<open>\<^verbatim>\<open>time.Now().Unix()\<close>: seconds since 1970 of an instant counted in nanoseconds from Go's zero time.\<close>

definition unix_seconds :: "time \<Rightarrow> int" where
  "unix_seconds now = now div 1000000000 - 62135596800"

definition stalePath :: "io_env \<Rightarrow> string \<Rightarrow> path" where
  "stalePath E pid = ticketsDir @ [pid @ ''.json'' @ ''.stale-'' @ format_int (unix_seconds (e_now E))]"

definition migratedPath :: "string \<Rightarrow> path" where
  "migratedPath pid = ticketsDir @ [pid @ ''.json'' @ ''.migrated'']"

definition MigrationStateFor :: "io_env \<Rightarrow> string \<Rightarrow> disk \<Rightarrow> MigrationState" where
  "MigrationStateFor E pid d =
     (let dirExists = os_Exists (e_faults E) (perTicketDirPath pid) d;
          legacyExists = os_Exists (e_faults E) (legacyJSONPath pid) d;
          migratingExists = os_Exists (e_faults E) (migratingWorkspacePath pid) d
      in if migratingExists then MigrationInProgressOrphan
         else if dirExists \<and> \<not> legacyExists then MigrationComplete
         else if legacyExists then MigrationPending
         else MigrationNotNeeded)"

definition validateRoundTrip :: "io_env \<Rightarrow> Ticket \<Rightarrow> path \<Rightarrow> disk \<Rightarrow> mig_error option" where
  "validateRoundTrip E src p d =
     (case os_ReadFile (e_faults E) p d of
        Inl e \<Rightarrow> Some (ReadBack e)
      | Inr data \<Rightarrow>
          (case UnmarshalTicket (e_yaml E) (e_now E) data of
             Inl e \<Rightarrow> Some (ParseBack e)
           | Inr got \<Rightarrow>
               if t_ID got \<noteq> t_ID src then Some IdMismatch
               else if t_Title got \<noteq> t_Title src then Some TitleMismatch
               else if t_Status got \<noteq> t_Status src then Some StatusMismatch
               else if t_ProjectID got \<noteq> t_ProjectID src then Some ProjectMismatch
               else if length (t_Labels got) \<noteq> length (t_Labels src) then Some LabelsMismatch
               else if length (t_BlockedBy got) \<noteq> length (t_BlockedBy src) then Some BlockedByMismatch
               else None))"

text \<open>\<^verbatim>\<open>isStaleSnapshot\<close>: the scan of the directory and the two loops.\<close>

fun dir_state :: "io_env \<Rightarrow> path \<Rightarrow> disk \<Rightarrow> string list \<Rightarrow> (TicketID, time) gomap \<Rightarrow> (TicketID, time) gomap option" where
  "dir_state E dir d [] st = Some st"
| "dir_state E dir d (n # ns) st =
     (if mget d (dir @ [n]) = Some DirN \<or> \<not> has_suffix n ''.md'' then dir_state E dir d ns st
      else case os_ReadFile (e_faults E) (dir @ [n]) d of
        Inl e \<Rightarrow> None
      | Inr data \<Rightarrow>
          (case UnmarshalTicket (e_yaml E) (e_now E) data of
             Inl e \<Rightarrow> None
           | Inr t \<Rightarrow> dir_state E dir d ns (mput (t_ID t) (t_UpdatedAt t) st)))"

fun covered :: "(TicketID, Ticket option) gomap \<Rightarrow> (TicketID, time) gomap \<Rightarrow> bool" where
  "covered [] st = True"
| "covered ((i, None) # m) st = covered m st"
| "covered ((i, Some lt) # m) st =
     (case mget st i of
        None \<Rightarrow> False
      | Some u \<Rightarrow> if u < t_UpdatedAt lt then False else covered m st)"

definition isStaleSnapshot :: "io_env \<Rightarrow> (TicketID, Ticket option) gomap \<Rightarrow> path \<Rightarrow> disk \<Rightarrow> bool" where
  "isStaleSnapshot E legacy dir d =
     (if legacy = [] then
        (case os_ReadDir (e_faults E) dir d of Inl e \<Rightarrow> False | Inr es \<Rightarrow> es \<noteq> [])
      else case os_ReadDir (e_faults E) dir d of
        Inl e \<Rightarrow> False
      | Inr es \<Rightarrow>
          (case dir_state E dir d es [] of None \<Rightarrow> False | Some st \<Rightarrow> covered legacy st))"

definition backfill_project :: "string \<Rightarrow> Ticket \<Rightarrow> Ticket" where
  "backfill_project pid t = (if t_ProjectID t = [] then t\<lparr>t_ProjectID := pid\<rparr> else t)"

text \<open>The loop that writes and validates each ticket, in the order of the ids, and its body.\<close>

definition write_one :: "io_env \<Rightarrow> path \<Rightarrow> Ticket \<Rightarrow> disk \<Rightarrow> disk \<times> mig_error option" where
  "write_one E ws t d =
     (case MarshalTicket (e_yaml E) (Some t) of
        Inl e \<Rightarrow> (d, Some (MarshalFailed (t_ID t) e))
      | Inr blob \<Rightarrow>
          (case os_WriteFile (e_faults E) (e_now E) (ws @ [TicketFilename t]) blob d of
             (d1, Some e) \<Rightarrow> (d1, Some (WriteFailed (t_ID t) e))
           | (d1, None) \<Rightarrow>
               (case validateRoundTrip E t (ws @ [TicketFilename t]) d1 of
                  Some e \<Rightarrow> (d1, Some (ValidateFailed (t_ID t) e))
                | None \<Rightarrow> (d1, None))))"

fun write_all :: "io_env \<Rightarrow> path \<Rightarrow> string \<Rightarrow> (TicketID, Ticket option) gomap \<Rightarrow> TicketID list \<Rightarrow> nat \<Rightarrow>
    disk \<Rightarrow> disk \<times> (mig_error + nat)" where
  "write_all E ws lpid m [] written d = (d, Inr written)"
| "write_all E ws lpid m (i # ids) written d =
     (case mget m i of
        Some (Some t) \<Rightarrow>
          (case write_one E ws (backfill_project lpid t) d of
             (d1, Some e) \<Rightarrow> (d1, Inl e)
           | (d1, None) \<Rightarrow> write_all E ws lpid m ids (Suc written) d1)
      | _ \<Rightarrow> write_all E ws lpid m ids written d)"

definition clear_final :: "io_env \<Rightarrow> path \<Rightarrow> disk \<Rightarrow> disk \<times> mig_error option" where
  "clear_final E fin d =
     (case os_ReadDir (e_faults E) fin d of
        Inl e \<Rightarrow> (d, None)
      | Inr es \<Rightarrow>
          if es \<noteq> [] then (d, Some FinalNotEmpty)
          else (case os_Remove (e_faults E) fin d of
                  (d1, Some e) \<Rightarrow> (d1, Some (RemoveFinal e))
                | (d1, None) \<Rightarrow> (d1, None)))"

definition promote_workspace :: "io_env \<Rightarrow> string \<Rightarrow> nat \<Rightarrow> disk \<Rightarrow> disk \<times> (mig_error + nat)" where
  "promote_workspace E pid written d =
     (case clear_final E (perTicketDirPath pid) d of
        (d1, Some e) \<Rightarrow> (d1, Inl e)
      | (d1, None) \<Rightarrow>
          (case os_Rename (e_faults E) (migratingWorkspacePath pid) (perTicketDirPath pid) d1 of
             (d2, Some e) \<Rightarrow> (d2, Inl (PromoteFailed e))
           | (d2, None) \<Rightarrow>
               (fst (os_Rename (e_faults E) (legacyJSONPath pid) (migratedPath pid) d2), Inr written)))"

definition cleanup_on_fail :: "io_env \<Rightarrow> string \<Rightarrow> disk \<times> (mig_error + nat) \<Rightarrow> disk \<times> (mig_error + nat)" where
  "cleanup_on_fail E pid r =
     (case r of
        (d, Inl e) \<Rightarrow> (fst (os_RemoveAll (e_faults E) (migratingWorkspacePath pid) d), Inl e)
      | (d, Inr n) \<Rightarrow> (d, Inr n))"

definition runMigration :: "io_env \<Rightarrow> string \<Rightarrow> disk \<Rightarrow> disk \<times> (mig_error + nat)" where
  "runMigration E pid d =
     (case os_ReadFile (e_faults E) (legacyJSONPath pid) d of
        Inl e \<Rightarrow> (d, Inl (ReadLegacy e))
      | Inr data \<Rightarrow>
          (case e_json E data of
             None \<Rightarrow> (d, Inl ParseLegacy)
           | Some (lpid, tickets) \<Rightarrow>
               if isStaleSnapshot E tickets (perTicketDirPath pid) d then
                 (case os_Rename (e_faults E) (legacyJSONPath pid) (stalePath E pid) d of
                    (d1, Some e) \<Rightarrow> (d1, Inl (RenameStale e))
                  | (d1, None) \<Rightarrow> (d1, Inr 0))
               else (case os_MkdirAll (e_faults E) (migratingWorkspacePath pid) d of
                   (d1, Some e) \<Rightarrow> (d1, Inl (CreateWorkspace e))
                 | (d1, None) \<Rightarrow>
                     cleanup_on_fail E pid
                       (case write_all E (migratingWorkspacePath pid) lpid tickets (sort (map fst tickets)) 0 d1 of
                          (d2, Inl e) \<Rightarrow> (d2, Inl e)
                        | (d2, Inr n) \<Rightarrow> promote_workspace E pid n d2))))"

definition MigrateProjectToPerTicket :: "io_env \<Rightarrow> string \<Rightarrow> disk \<Rightarrow> disk \<times> (mig_error + nat)" where
  "MigrateProjectToPerTicket E pid d =
     (case MigrationStateFor E pid d of
        MigrationComplete \<Rightarrow> (d, Inr 0)
      | MigrationNotNeeded \<Rightarrow> (d, Inr 0)
      | MigrationPending \<Rightarrow> runMigration E pid d
      | MigrationInProgressOrphan \<Rightarrow>
          (case os_RemoveAll (e_faults E) (migratingWorkspacePath pid) d of
             (d1, Some e) \<Rightarrow> (d1, Inl (CleanOrphan e))
           | (d1, None) \<Rightarrow>
               if MigrationStateFor E pid d1 \<noteq> MigrationPending then (d1, Inr 0)
               else runMigration E pid d1))"

section \<open>Lemmas\<close>

lemmas mig_paths = legacyJSONPath_def perTicketDirPath_def migratingWorkspacePath_def stalePath_def
  migratedPath_def ticketsDir_def

lemma path_neq [simp]:
  "legacyJSONPath pid \<noteq> perTicketDirPath pid" "legacyJSONPath pid \<noteq> migratingWorkspacePath pid"
  "perTicketDirPath pid \<noteq> migratingWorkspacePath pid" "legacyJSONPath pid \<noteq> migratedPath pid"
  "legacyJSONPath pid \<noteq> stalePath E pid"
  "migratedPath pid \<noteq> perTicketDirPath pid"
  "legacyJSONPath pid \<noteq> migratingWorkspacePath pid @ [f]"
  "perTicketDirPath pid @ [g] \<noteq> migratingWorkspacePath pid @ [f]"
  "perTicketDirPath pid \<noteq> migratingWorkspacePath pid @ [f]"
  "legacyJSONPath pid \<noteq> perTicketDirPath pid @ [f]" "migratedPath pid \<noteq> perTicketDirPath pid @ [f]"
  "stalePath E pid \<noteq> perTicketDirPath pid @ [f]" "migratingWorkspacePath pid \<noteq> perTicketDirPath pid @ r"
  "migratingWorkspacePath pid \<noteq> []" "perTicketDirPath pid \<noteq> []"
  by (simp_all add: mig_paths)

lemmas path_neq_sym [simp] = path_neq [symmetric]

lemma path_not_prefix [simp]:
  "\<not> prefix (migratingWorkspacePath pid) (legacyJSONPath pid)"
  "\<not> prefix (perTicketDirPath pid) (legacyJSONPath pid)"
  "\<not> prefix (migratingWorkspacePath pid) (perTicketDirPath pid @ r)"
  "\<not> prefix (migratingWorkspacePath pid) (perTicketDirPath pid)"
  "\<not> prefix (perTicketDirPath pid @ [f]) (migratingWorkspacePath pid)"
  "\<not> prefix (perTicketDirPath pid) (migratingWorkspacePath pid)"
  by (simp_all add: mig_paths)

lemma mget_os_WriteFile:
  "q \<noteq> p \<Longrightarrow> mget (fst (os_WriteFile F now p data d)) q = mget d q"
  by (simp add: os_WriteFile_def)

lemma os_WriteFile_ok:
  "os_WriteFile F now p data d = (d', None) \<Longrightarrow> d' = mput p (FileN data now) d"
  by (simp add: os_WriteFile_def split: if_splits)

lemma mget_os_RemoveAll:
  "\<not> prefix p q \<Longrightarrow> mget (fst (os_RemoveAll F p d)) q = mget d q"
  by (induction d) (auto simp: os_RemoveAll_def)

lemma mget_move_tree_out:
  "\<not> prefix p x \<Longrightarrow> \<not> prefix q x \<Longrightarrow> mget (move_tree p q d) x = mget d x"
  by (induction d) (auto simp: move_tree_def)

lemma mget_move_tree_in:
  assumes "mget d (q @ r) = None" "\<not> prefix p (q @ r)"
  shows "mget (move_tree p q d) (q @ r) = mget d (p @ r)"
  using assms
proof (induction d)
  case (Cons a d)
  obtain x n where a: "a = (x, n)" by force
  then have "x \<noteq> q @ r" and IH: "mget (move_tree p q d) (q @ r) = mget d (p @ r)"
    using Cons by (auto split: if_splits)
  then show ?case
    using a by (auto simp: move_tree_def elim!: prefixE)
qed (simp add: move_tree_def)

lemma os_Rename_out:
  "x \<noteq> p \<Longrightarrow> x \<noteq> q \<Longrightarrow> \<not> prefix p x \<Longrightarrow> \<not> prefix q x \<Longrightarrow> mget (fst (os_Rename F p q d)) x = mget d x"
  by (auto simp: os_Rename_def mget_move_tree_out split: option.splits node.splits)

lemma os_Rename_file_out:
  "is_file d p \<Longrightarrow> x \<noteq> p \<Longrightarrow> x \<noteq> q \<Longrightarrow> mget (fst (os_Rename F p q d)) x = mget d x"
  by (auto simp: os_Rename_def is_file_def split: option.splits node.splits)

lemma os_Rename_file_moves:
  assumes "mget d p = Some (FileN c m)" "p \<noteq> q"
  shows "mget (fst (os_Rename F p q d)) p = Some (FileN c m) \<or> mget (fst (os_Rename F p q d)) q = Some (FileN c m)"
  using assms by (auto simp: os_Rename_def)

lemma write_one_frame:
  "q \<noteq> ws @ [TicketFilename t] \<Longrightarrow> mget (fst (write_one E ws t d)) q = mget d q"
  using mget_os_WriteFile [of q "ws @ [TicketFilename t]"]
  by (auto simp: write_one_def split: sum.splits prod.splits option.splits) (metis fst_conv)+

lemma write_one_ok:
  assumes "write_one E ws t d = (d', None)"
  shows "\<exists>blob. MarshalTicket (e_yaml E) (Some t) = Inr blob \<and>
    mget d' (ws @ [TicketFilename t]) = Some (FileN blob (e_now E)) \<and>
    validateRoundTrip E t (ws @ [TicketFilename t]) d' = None"
  using assms
  by (auto simp: write_one_def dest!: os_WriteFile_ok split: sum.splits prod.splits option.splits)

lemma TicketFilename_backfill [simp]: "TicketFilename (backfill_project pid t) = TicketFilename t"
  by (simp add: TicketFilename_def backfill_project_def)

text \<open>The tickets the loop writes, in its order, and what a written ticket looks like on disk.\<close>

definition live :: "(TicketID, Ticket option) gomap \<Rightarrow> TicketID list \<Rightarrow> Ticket list" where
  "live m ids = List.map_filter (\<lambda>i. case mget m i of None \<Rightarrow> None | Some x \<Rightarrow> x) ids"

definition persisted :: "io_env \<Rightarrow> Ticket \<Rightarrow> path \<Rightarrow> disk \<Rightarrow> bool" where
  "persisted E t p d \<longleftrightarrow> (\<exists>blob got. mget d p = Some (FileN blob (e_now E)) \<and>
     MarshalTicket (e_yaml E) (Some t) = Inr blob \<and> UnmarshalTicket (e_yaml E) (e_now E) blob = Inr got \<and>
     t_ID got = t_ID t \<and> t_Title got = t_Title t \<and> t_Status got = t_Status t \<and>
     t_ProjectID got = t_ProjectID t \<and> length (t_Labels got) = length (t_Labels t) \<and>
     length (t_BlockedBy got) = length (t_BlockedBy t))"

lemma live_simps [simp]:
  "live m [] = []"
  "mget m i = None \<Longrightarrow> live m (i # ids) = live m ids"
  "mget m i = Some None \<Longrightarrow> live m (i # ids) = live m ids"
  "mget m i = Some (Some t) \<Longrightarrow> live m (i # ids) = t # live m ids"
  by (simp_all add: live_def map_filter_simps)

lemma write_one_persisted:
  assumes "write_one E ws t d = (d', None)"
  shows "persisted E t (ws @ [TicketFilename t]) d'"
  using write_one_ok [OF assms]
  by (auto simp: persisted_def validateRoundTrip_def os_ReadFile_def
      split: if_split_asm sum.split_asm option.split_asm node.split_asm)

lemma persisted_frame: "persisted E t p d \<Longrightarrow> mget d' p' = mget d p \<Longrightarrow> persisted E t p' d'"
  by (simp add: persisted_def)

lemma write_all_cases:
  obtains
    (nil) "ids = []"
  | (skip) i ids' where "ids = i # ids'" "live m ids = live m ids'"
      "\<And>n d. write_all E ws lpid m ids n d = write_all E ws lpid m ids' n d"
  | (one) i ids' t where "ids = i # ids'" "live m ids = t # live m ids'"
      "\<And>n d. write_all E ws lpid m ids n d =
         (case write_one E ws (backfill_project lpid t) d of
            (d1, Some e) \<Rightarrow> (d1, Inl e) | (d1, None) \<Rightarrow> write_all E ws lpid m ids' (Suc n) d1)"
proof (cases ids)
  case (Cons i ids')
  show ?thesis
  proof (cases "mget m i")
    case (Some x)
    then show ?thesis using Cons skip one by (cases x) simp_all
  qed (use Cons skip in simp)
qed (use nil in simp)

lemma write_all_frame:
  "q \<notin> (\<lambda>t. ws @ [TicketFilename t]) ` set (live m ids) \<Longrightarrow>
     mget (fst (write_all E ws lpid m ids n d)) q = mget d q"
proof (induction ids arbitrary: n d)
  case (Cons j js)
  show ?case
  proof (rule write_all_cases [where ids = "j # js" and m = m and E = E and ws = ws and lpid = lpid])
    fix i ids' t
    assume *: "j # js = i # ids'" "live m (j # js) = t # live m ids'"
      "\<And>n d. write_all E ws lpid m (j # js) n d =
         (case write_one E ws (backfill_project lpid t) d of
            (d1, Some e) \<Rightarrow> (d1, Inl e) | (d1, None) \<Rightarrow> write_all E ws lpid m ids' (Suc n) d1)"
    obtain d1 r where w: "write_one E ws (backfill_project lpid t) d = (d1, r)" by force
    have "mget (fst (write_one E ws (backfill_project lpid t) d)) q = mget d q"
      using Cons.prems *(2) by (intro write_one_frame) auto
    then have "mget d1 q = mget d q" by (simp add: w)
    moreover have "mget (fst (write_all E ws lpid m ids' (Suc n) d1)) q = mget d1 q"
      using Cons *(1,2) by auto
    ultimately show ?thesis by (cases r) (simp_all add: *(3) w del: write_all.simps)
  qed (use Cons in auto)
qed simp

lemma write_all_out:
  "(\<And>f. q \<noteq> ws @ [f]) \<Longrightarrow> mget (fst (write_all E ws lpid m ids n d)) q = mget d q"
  by (rule write_all_frame) auto

lemma write_all_ok:
  assumes "write_all E ws lpid m ids n d = (d', Inr n')"
  shows "n' = n + length (live m ids)"
    "distinct (map TicketFilename (live m ids)) \<Longrightarrow> t \<in> set (live m ids) \<Longrightarrow>
       persisted E (backfill_project lpid t) (ws @ [TicketFilename t]) d'"
proof -
  have "n' = n + length (live m ids) \<and> (distinct (map TicketFilename (live m ids)) \<longrightarrow>
    (\<forall>t \<in> set (live m ids). persisted E (backfill_project lpid t) (ws @ [TicketFilename t]) d'))"
    using assms
  proof (induction ids arbitrary: n d)
    case (Cons j js)
    show ?case
    proof (rule write_all_cases [where ids = "j # js" and m = m and E = E and ws = ws and lpid = lpid])
      fix i ids' t
      assume *: "j # js = i # ids'" "live m (j # js) = t # live m ids'"
        "\<And>n d. write_all E ws lpid m (j # js) n d =
           (case write_one E ws (backfill_project lpid t) d of
              (d1, Some e) \<Rightarrow> (d1, Inl e) | (d1, None) \<Rightarrow> write_all E ws lpid m ids' (Suc n) d1)"
      obtain d1 where w: "write_one E ws (backfill_project lpid t) d = (d1, None)"
        and r: "write_all E ws lpid m ids' (Suc n) d1 = (d', Inr n')"
        using Cons.prems by (auto simp: *(3) simp del: write_all.simps split: prod.splits option.splits)
      from r have IH: "n' = Suc n + length (live m ids') \<and> (distinct (map TicketFilename (live m ids')) \<longrightarrow>
          (\<forall>t \<in> set (live m ids'). persisted E (backfill_project lpid t) (ws @ [TicketFilename t]) d'))"
        using Cons.IH *(1) by blast
      have "persisted E (backfill_project lpid t) (ws @ [TicketFilename t]) d'"
        if "TicketFilename t \<notin> TicketFilename ` set (live m ids')"
      proof (rule persisted_frame)
        show "persisted E (backfill_project lpid t) (ws @ [TicketFilename t]) d1"
          using write_one_persisted [OF w] by simp
        have "mget (fst (write_all E ws lpid m ids' (Suc n) d1)) (ws @ [TicketFilename t]) =
            mget d1 (ws @ [TicketFilename t])"
          using that by (intro write_all_frame) auto
        then show "mget d' (ws @ [TicketFilename t]) = mget d1 (ws @ [TicketFilename t])" by (simp add: r)
      qed
      with IH *(2) show ?thesis by auto
    qed (use Cons in auto)
  qed simp
  then show "n' = n + length (live m ids)"
    "distinct (map TicketFilename (live m ids)) \<Longrightarrow> t \<in> set (live m ids) \<Longrightarrow>
       persisted E (backfill_project lpid t) (ws @ [TicketFilename t]) d'"
    by blast+
qed

lemma clear_final_cases:
  assumes "clear_final E fin d = (d', r)"
  shows "(d' = d \<and> (r = None \<longrightarrow> children d fin = [] \<or> os_ReadDir (e_faults E) fin d \<noteq> Inr (children d fin))) \<or>
    (d' = mdel fin d \<and> mget d fin = Some DirN \<and> children d fin = [])"
  using assms
  by (auto simp: clear_final_def os_ReadDir_def os_Remove_def
      split: sum.splits if_splits option.splits node.splits)

lemma clear_final_out: "q \<noteq> fin \<Longrightarrow> mget (fst (clear_final E fin d)) q = mget d q"
  using clear_final_cases [of E fin d "fst (clear_final E fin d)" "snd (clear_final E fin d)"] by auto

text \<open>The legacy file and its two renamed copies.\<close>

definition legacy_kept :: "io_env \<Rightarrow> string \<Rightarrow> node \<Rightarrow> disk \<Rightarrow> bool" where
  "legacy_kept E pid n d \<longleftrightarrow>
     mget d (legacyJSONPath pid) = Some n \<or> mget d (migratedPath pid) = Some n \<or>
     mget d (stalePath E pid) = Some n"

lemma legacy_kept_at: "mget d' (legacyJSONPath pid) = mget d (legacyJSONPath pid) \<Longrightarrow>
    mget d (legacyJSONPath pid) = Some n \<Longrightarrow> legacy_kept E pid n d'"
  by (simp add: legacy_kept_def)

lemma promote_legacy:
  assumes "mget d (legacyJSONPath pid) = Some (FileN c m)"
    and "promote_workspace E pid n d = (d', r)"
  shows "(\<exists>e. r = Inl e \<and> mget d' (legacyJSONPath pid) = Some (FileN c m)) \<or>
    (r = Inr n \<and> legacy_kept E pid (FileN c m) d')"
proof -
  obtain d1 r1 where c: "clear_final E (perTicketDirPath pid) d = (d1, r1)" by force
  have d1: "mget d1 (legacyJSONPath pid) = Some (FileN c m)"
    using clear_final_out [of "legacyJSONPath pid" "perTicketDirPath pid" E d] assms(1) c by simp
  obtain d2 r2 where w: "os_Rename (e_faults E) (migratingWorkspacePath pid) (perTicketDirPath pid) d1 = (d2, r2)"
    by force
  have d2: "mget d2 (legacyJSONPath pid) = Some (FileN c m)"
    using os_Rename_out [of "legacyJSONPath pid" "migratingWorkspacePath pid" "perTicketDirPath pid" "e_faults E" d1]
    by (simp add: w d1)
  from os_Rename_file_moves [OF this, of "migratedPath pid" "e_faults E"] show ?thesis
    using assms(2) c w d1 d2
    by (auto simp: promote_workspace_def legacy_kept_def split: option.splits)
qed

lemma runMigration_legacy:
  assumes "mget d (legacyJSONPath pid) = Some (FileN c m)"
  shows "legacy_kept E pid (FileN c m) (fst (runMigration E pid d))"
proof (cases "os_ReadFile (e_faults E) (legacyJSONPath pid) d")
  case (Inr data)
  show ?thesis
  proof (cases "e_json E data")
    case (Some lt)
    then obtain lpid tickets where js: "e_json E data = Some (lpid, tickets)" by (cases lt) auto
    show ?thesis
    proof (cases "isStaleSnapshot E tickets (perTicketDirPath pid) d")
      case True
      from os_Rename_file_moves [OF assms, of "stalePath E pid" "e_faults E"] show ?thesis
        using Inr js True
        by (auto simp: runMigration_def legacy_kept_def split: prod.splits option.splits)
    next
      case False
      obtain d1 r1 where mk: "os_MkdirAll (e_faults E) (migratingWorkspacePath pid) d = (d1, r1)" by force
      have d1: "mget d1 (legacyJSONPath pid) = Some (FileN c m)"
        using mget_os_MkdirAll(2) [of d "legacyJSONPath pid" "e_faults E" "migratingWorkspacePath pid"] assms mk
        by simp
      obtain d2 r2 where w: "write_all E (migratingWorkspacePath pid) lpid tickets (sort (map fst tickets)) 0 d1 = (d2, r2)"
        by force
      have d2: "mget d2 (legacyJSONPath pid) = Some (FileN c m)"
        using write_all_out [of "legacyJSONPath pid" "migratingWorkspacePath pid" E lpid tickets
            "sort (map fst tickets)" 0 d1] by (simp add: w d1)
      have clean: "mget (fst (os_RemoveAll (e_faults E) (migratingWorkspacePath pid) x)) (legacyJSONPath pid) =
          mget x (legacyJSONPath pid)" for x
        by (rule mget_os_RemoveAll) simp
      show ?thesis
      proof (cases r2)
        case (Inl e)
        then show ?thesis
          using \<open>os_ReadFile _ _ _ = _\<close> js False mk w d1 clean [of d2] d2
          by (cases r1) (auto simp: runMigration_def legacy_kept_def cleanup_on_fail_def)
      next
        case r2: (Inr n)
        obtain d3 r3 where p: "promote_workspace E pid n d2 = (d3, r3)" by force
        from promote_legacy [OF d2 p] show ?thesis
          using \<open>os_ReadFile _ _ _ = _\<close> js False mk w d1 clean [of d3] r2 p
          by (cases r1) (auto simp: runMigration_def legacy_kept_def cleanup_on_fail_def)
      qed
    qed
  qed (use assms Inr in \<open>simp add: runMigration_def legacy_kept_def\<close>)
qed (use assms in \<open>simp add: runMigration_def legacy_kept_def\<close>)

lemma os_RemoveAll_err: "os_RemoveAll F p d = (d', Some e) \<Longrightarrow> d' = d"
  by (simp add: os_RemoveAll_def split: if_splits)

lemma migrate_legacy:
  assumes "mget d (legacyJSONPath pid) = Some (FileN c m)"
  shows "legacy_kept E pid (FileN c m) (fst (MigrateProjectToPerTicket E pid d))"
proof -
  obtain d1 r where rm: "os_RemoveAll (e_faults E) (migratingWorkspacePath pid) d = (d1, r)" by force
  have d1: "mget d1 (legacyJSONPath pid) = Some (FileN c m)"
    using mget_os_RemoveAll [of "migratingWorkspacePath pid" "legacyJSONPath pid" "e_faults E" d] rm assms by simp
  have keep: "legacy_kept E pid (FileN c m) d" "legacy_kept E pid (FileN c m) d1"
    using assms d1 by (simp_all add: legacy_kept_def)
  show ?thesis
    using keep runMigration_legacy [OF assms, of E] runMigration_legacy [OF d1, of E] rm
    by (cases r) (auto simp: MigrateProjectToPerTicket_def split: MigrationState.splits)
qed

lemma mget_os_MkdirAll_out: "\<not> prefix q p \<Longrightarrow> mget (fst (os_MkdirAll F p d)) q = mget d q"
proof -
  assume "\<not> prefix q p"
  then have "q \<notin> set (prefixes_of p)" by (auto simp: prefixes_of_def take_is_prefix)
  then show ?thesis by (auto simp: os_MkdirAll_def mget_mkdir_fold split: option.splits)
qed

text \<open>The workspace is promoted only onto a missing or an empty directory.\<close>

lemma promote_moves:
  assumes p: "promote_workspace E pid n d = (d', Inr k)" and ws: "mget d (migratingWorkspacePath pid) = Some DirN"
    and lg: "is_file d (legacyJSONPath pid)"
    and orphan: "mget d (perTicketDirPath pid) = None \<Longrightarrow> mget d (perTicketDirPath pid @ [f]) = None"
  shows "k = n \<and> mget d (perTicketDirPath pid @ [f]) = None \<and>
    mget d' (perTicketDirPath pid @ [f]) = mget d (migratingWorkspacePath pid @ [f])"
proof -
  let ?fin = "perTicketDirPath pid" and ?ws = "migratingWorkspacePath pid" and ?F = "e_faults E"
  obtain d1 where c: "clear_final E ?fin d = (d1, None)"
    using p by (auto simp: promote_workspace_def split: prod.splits option.splits)
  obtain d2 where w: "os_Rename ?F ?ws ?fin d1 = (d2, None)"
    using p c by (auto simp: promote_workspace_def split: prod.splits option.splits)
  have d': "k = n" "d' = fst (os_Rename ?F (legacyJSONPath pid) (migratedPath pid) d2)"
    using p c w by (auto simp: promote_workspace_def)
  have out1: "mget d1 q = mget d q" if "q \<noteq> ?fin" for q
    using clear_final_out [OF that, of E d] c by simp
  have ws1: "mget d1 ?ws = Some DirN" using ws by (simp add: out1)
  have none: "mget d (?fin @ [f]) = None" and none1: "mget d1 (?fin @ [f]) = None"
    and mv: "mget d2 (?fin @ [f]) = mget d1 (?ws @ [f])"
  proof -
    have sub: "mget d1 (?fin @ [f]) = mget d (?fin @ [f])" by (simp add: out1)
    have r: "(d2 = move_tree ?ws ?fin (mdel ?fin d1) \<and> mget d1 ?fin = Some DirN \<and> children d1 ?fin = []) \<or>
        (d2 = move_tree ?ws ?fin d1 \<and> mget d1 ?fin = None)"
      using w ws1 by (auto simp: os_Rename_def split: if_splits option.splits node.splits)
    show n: "mget d (?fin @ [f]) = None"
      using clear_final_cases [OF c] r children_Nil [of d1 ?fin f] children_Nil [of d ?fin f] orphan
      by (auto simp: sub)
    show n1: "mget d1 (?fin @ [f]) = None" using n sub by simp
    then show "mget d2 (?fin @ [f]) = mget d1 (?ws @ [f])"
      using r mget_move_tree_in [of d1 ?fin "[f]" ?ws] mget_move_tree_in [of "mdel ?fin d1" ?fin "[f]" ?ws]
      by auto
  qed
  have "is_file d2 (legacyJSONPath pid)"
    using lg os_Rename_out [of "legacyJSONPath pid" ?ws ?fin ?F d1] w out1 [of "legacyJSONPath pid"]
    by (simp add: is_file_def)
  then have "mget d' (?fin @ [f]) = mget d2 (?fin @ [f])"
    unfolding d'(2) by (rule os_Rename_file_out) simp_all
  with mv out1 [of "?ws @ [f]"] none d'(1) show ?thesis by simp
qed

text \<open>The tickets of the legacy file, in the order of the migration.\<close>

definition legacy_live :: "(TicketID, Ticket option) gomap \<Rightarrow> Ticket list" where
  "legacy_live m = live m (sort (map fst m))"

lemma runMigration_complete:
  assumes r: "runMigration E pid d = (d', Inr n)" "0 < n"
    and lg: "mget d (legacyJSONPath pid) = Some (FileN c m)" and js: "e_json E c = Some (lpid, ts)"
    and dist: "distinct (map TicketFilename (legacy_live ts))" and t: "t \<in> set (legacy_live ts)"
    and orphan: "\<And>f. mget d (perTicketDirPath pid) = None \<Longrightarrow> mget d (perTicketDirPath pid @ [f]) = None"
  shows "n = length (legacy_live ts) \<and>
    persisted E (backfill_project lpid t) (perTicketDirPath pid @ [TicketFilename t]) d'"
proof -
  let ?fin = "perTicketDirPath pid" and ?ws = "migratingWorkspacePath pid" and ?F = "e_faults E"
  have rd: "os_ReadFile ?F (legacyJSONPath pid) d = Inr c"
    using r(1) lg by (auto simp: runMigration_def os_ReadFile_def split: if_splits)
  have ns: "\<not> isStaleSnapshot E ts ?fin d"
    using r rd js by (auto simp: runMigration_def split: prod.splits option.splits)
  obtain d1 where mk: "os_MkdirAll ?F ?ws d = (d1, None)"
    using r(1) rd js ns by (auto simp: runMigration_def split: prod.splits option.splits)
  obtain d2 k where w: "write_all E ?ws lpid ts (sort (map fst ts)) 0 d1 = (d2, Inr k)"
    using r(1) rd js ns mk by (auto simp: runMigration_def cleanup_on_fail_def split: prod.splits sum.splits)
  have p: "promote_workspace E pid k d2 = (d', Inr n)"
    using r(1) rd js ns mk w by (auto simp: runMigration_def cleanup_on_fail_def split: prod.splits sum.splits)
  have out: "mget d2 q = mget d q" if "\<not> prefix q ?ws" "\<And>f. q \<noteq> ?ws @ [f]" for q
    using write_all_out [of q ?ws E lpid ts "sort (map fst ts)" 0 d1] that(2)
      mget_os_MkdirAll_out [OF that(1), of ?F d] by (simp add: w mk)
  have ws: "mget d2 ?ws = Some DirN"
    using write_all_out [of ?ws ?ws E lpid ts "sort (map fst ts)" 0 d1] os_MkdirAll_ok [OF mk]
    by (simp add: w)
  have isf: "is_file d2 (legacyJSONPath pid)"
    using out [of "legacyJSONPath pid"] lg by (simp add: is_file_def mig_paths)
  have mv: "n = k \<and> mget d2 (?fin @ [f]) = None \<and> mget d' (?fin @ [f]) = mget d2 (?ws @ [f])" for f
    using orphan [of f] out by (intro promote_moves [OF p ws isf]) simp
  note ok = write_all_ok [OF w, folded legacy_live_def]
  have "persisted E (backfill_project lpid t) (?fin @ [TicketFilename t]) d'"
    by (rule persisted_frame [OF ok(2) [OF dist t]]) (use mv in blast)
  with ok(1) mv show ?thesis by simp
qed

text \<open>What the orphan clean-up of an interrupted migration leaves alone.\<close>

lemma migrate_cases:
  assumes "MigrateProjectToPerTicket E pid d = (d', r)"
  obtains (id) "d' = d" "\<And>n. r = Inr n \<Longrightarrow> n = 0"
  | (clean) "d' = fst (os_RemoveAll (e_faults E) (migratingWorkspacePath pid) d)" "r = Inr 0"
  | (run) "runMigration E pid d = (d', r)"
  | (clean_run) "runMigration E pid (fst (os_RemoveAll (e_faults E) (migratingWorkspacePath pid) d)) = (d', r)"
proof (cases "MigrationStateFor E pid d")
  case MigrationInProgressOrphan
  obtain d1 x where rm: "os_RemoveAll (e_faults E) (migratingWorkspacePath pid) d = (d1, x)" by force
  show ?thesis
  proof (cases x)
    case None
    show ?thesis
    proof (cases "MigrationStateFor E pid d1 = MigrationPending")
      case True
      then have "runMigration E pid d1 = (d', r)"
        using assms MigrationInProgressOrphan rm None by (simp add: MigrateProjectToPerTicket_def)
      then show ?thesis using clean_run rm by simp
    next
      case False
      then have "d' = d1" "r = Inr 0"
        using assms MigrationInProgressOrphan rm None by (simp_all add: MigrateProjectToPerTicket_def)
      then show ?thesis using clean rm by simp
    qed
  next
    case (Some e)
    then have "d' = d" "r = Inl (CleanOrphan e)"
      using assms MigrationInProgressOrphan rm os_RemoveAll_err [of "e_faults E" "migratingWorkspacePath pid" d d1]
      by (simp_all add: MigrateProjectToPerTicket_def)
    then show ?thesis using id by simp
  qed
next
  case MigrationPending
  then show ?thesis using assms run by (simp add: MigrateProjectToPerTicket_def)
qed (use assms id in \<open>auto simp: MigrateProjectToPerTicket_def\<close>)

lemma runMigration_dir_kept:
  assumes fin: "mget d (perTicketDirPath pid) = Some DirN"
    and x: "mget d (perTicketDirPath pid @ [f]) = Some n0"
  shows "mget (fst (runMigration E pid d)) (perTicketDirPath pid @ [f]) = Some n0"
proof -
  let ?fin = "perTicketDirPath pid" and ?ws = "migratingWorkspacePath pid" and ?F = "e_faults E"
  have clean: "mget (fst (os_RemoveAll ?F ?ws y)) (?fin @ [f]) = mget y (?fin @ [f])" for y
    by (rule mget_os_RemoveAll) simp
  have promote: "mget (fst (promote_workspace E pid k y)) (?fin @ [f]) = Some n0"
    if y: "mget y ?fin = Some DirN" "mget y (?fin @ [f]) = Some n0" for y k
  proof -
    have ch: "children y ?fin \<noteq> []" using children_Nil [of y ?fin f] y(2) by auto
    obtain y1 r1 where c: "clear_final E ?fin y = (y1, r1)" by force
    have "y1 = y" using clear_final_cases [OF c] ch by auto
    moreover have "\<exists>e. snd (os_Rename ?F ?ws ?fin y) = Some e" "fst (os_Rename ?F ?ws ?fin y) = y"
      using y ch by (auto simp: os_Rename_def split: option.splits node.splits)
    ultimately show ?thesis
      using c y by (cases r1) (auto simp: promote_workspace_def split: prod.splits)
  qed
  show ?thesis
  proof (cases "os_ReadFile ?F (legacyJSONPath pid) d")
    case rd: (Inr data)
    then have lg: "is_file d (legacyJSONPath pid)"
      by (auto simp: os_ReadFile_def is_file_def split: if_splits option.splits node.splits)
    show ?thesis
    proof (cases "e_json E data")
      case (Some lt)
      then obtain lpid ts where js: "e_json E data = Some (lpid, ts)" by (cases lt) auto
      show ?thesis
      proof (cases "isStaleSnapshot E ts ?fin d")
        case True
        have "mget (fst (os_Rename ?F (legacyJSONPath pid) (stalePath E pid) d)) (?fin @ [f]) = Some n0"
          using os_Rename_file_out [OF lg, of "?fin @ [f]"] x by simp
        then show ?thesis
          using rd js True by (auto simp: runMigration_def split: prod.splits option.splits)
      next
        case False
        obtain d1 r1 where mk: "os_MkdirAll ?F ?ws d = (d1, r1)" by force
        obtain d2 r2 where w: "write_all E ?ws lpid ts (sort (map fst ts)) 0 d1 = (d2, r2)" by force
        have keep: "mget d1 q = mget d q" "mget d2 q = mget d q"
          if "\<not> prefix q ?ws" "\<And>g. q \<noteq> ?ws @ [g]" for q
          using write_all_out [of q ?ws E lpid ts "sort (map fst ts)" 0 d1] that
            mget_os_MkdirAll_out [OF that(1), of ?F d] by (simp_all add: w mk)
        have k: "mget d1 (?fin @ [f]) = Some n0" "mget d2 (?fin @ [f]) = Some n0" "mget d2 ?fin = Some DirN"
          using keep x fin by simp_all
        show ?thesis
        proof (cases r2)
          case (Inl e)
          then show ?thesis
            using rd js False mk w k clean [of d2]
            by (cases r1) (auto simp: runMigration_def cleanup_on_fail_def)
        next
          case (Inr j)
          obtain d3 r3 where p: "promote_workspace E pid j d2 = (d3, r3)" by force
          have "mget d3 (?fin @ [f]) = Some n0" using promote [OF k(3,2), of j] p by simp
          then show ?thesis
            using rd js False mk w k clean [of d3] p Inr
            by (cases r1; cases r3) (auto simp: runMigration_def cleanup_on_fail_def)
        qed
      qed
    qed (use x rd in \<open>simp add: runMigration_def\<close>)
  qed (use x in \<open>simp add: runMigration_def\<close>)
qed

section \<open>Properties\<close>

text \<open>A migration never loses the legacy data: whatever system calls fail and whatever the legacy file
  holds, after the migration its content is still a file, under its own name or under one of the
  two names the code renames it to (\<^verbatim>\<open>.migrated\<close>, \<^verbatim>\<open>.stale-<ts>\<close>).\<close>

theorem migration_legacy_kept:
  assumes "mget d (legacyJSONPath pid) = Some (FileN c m)"
  shows "\<exists>p \<in> {legacyJSONPath pid, migratedPath pid, stalePath E pid}.
    mget (fst (MigrateProjectToPerTicket E pid d)) p = Some (FileN c m)"
  using migrate_legacy [OF assms, of E] by (auto simp: legacy_kept_def)

definition mig_example_env :: io_env where
  "mig_example_env = \<lparr>e_faults = (\<lambda>c. False), e_now = 9, e_part = 0, e_rnds = [''1''], e_yaml = example_yaml,
     e_json = (\<lambda>s. if s = ''J'' then Some (''p'', [(''0a1b2c3d-e'', Some example_ticket), (''x'', None)]) else None)\<rparr>"

definition mig_example_disk :: disk where
  "mig_example_disk = [(ticketsDir, DirN), (legacyJSONPath ''p'', FileN ''J'' 1),
     (migratingWorkspacePath ''p'', DirN), (migratingWorkspacePath ''p'' @ [''a''], FileN ''z'' 1)]"

theorem migration_legacy_kept_witness:
  "\<exists>p \<in> {legacyJSONPath ''p'', migratedPath ''p'', stalePath mig_example_env ''p''}.
    mget (fst (MigrateProjectToPerTicket mig_example_env ''p'' mig_example_disk)) p = Some (FileN ''J'' 1)"
  by (rule migration_legacy_kept) (simp add: mig_example_disk_def mig_paths)

text \<open>A migration never touches a ticket file that is already in the project's directory: every entry
  of an existing directory is the same afterwards, for every pattern of failures.\<close>

theorem migration_dir_kept:
  assumes "mget d (perTicketDirPath pid) = Some DirN"
    and "mget d (perTicketDirPath pid @ [f]) = Some n"
  shows "mget (fst (MigrateProjectToPerTicket E pid d)) (perTicketDirPath pid @ [f]) = Some n"
proof -
  obtain d' r where m: "MigrateProjectToPerTicket E pid d = (d', r)" by force
  let ?d1 = "fst (os_RemoveAll (e_faults E) (migratingWorkspacePath pid) d)"
  have d1: "mget ?d1 (perTicketDirPath pid) = Some DirN" "mget ?d1 (perTicketDirPath pid @ [f]) = Some n"
    using assms by (simp_all add: mget_os_RemoveAll)
  from m show ?thesis
    by (cases rule: migrate_cases)
      (use assms d1 runMigration_dir_kept [OF assms, of E] runMigration_dir_kept [OF d1, of E] m in simp_all)
qed

theorem migration_dir_kept_witness:
  "mget (fst (MigrateProjectToPerTicket mig_example_env ''p''
       ((perTicketDirPath ''p'', DirN) # (perTicketDirPath ''p'' @ [''a''], FileN ''q'' 2) # mig_example_disk)))
     (perTicketDirPath ''p'' @ [''a'']) = Some (FileN ''q'' 2)"
  by (rule migration_dir_kept) (simp_all add: mig_paths)

text \<open>A migration that reports \<open>n > 0\<close> tickets has moved every ticket of the legacy file: each is a
  file of the project's directory that parses back with the same id, title, status, project and
  numbers of labels and blockers, provided the file names of the tickets are distinct and the
  directory tree has no orphan below a missing directory.\<close>

theorem migration_complete:
  assumes "MigrateProjectToPerTicket E pid d = (d', Inr n)" "0 < n"
    and "mget d (legacyJSONPath pid) = Some (FileN c m)" "e_json E c = Some (lpid, ts)"
    and "distinct (map TicketFilename (legacy_live ts))" "t \<in> set (legacy_live ts)"
    and "\<And>f. mget d (perTicketDirPath pid) = None \<Longrightarrow> mget d (perTicketDirPath pid @ [f]) = None"
  shows "n = length (legacy_live ts) \<and>
    persisted E (backfill_project lpid t) (perTicketDirPath pid @ [TicketFilename t]) d'"
proof -
  let ?d1 = "fst (os_RemoveAll (e_faults E) (migratingWorkspacePath pid) d)"
  have out: "mget ?d1 q = mget d q" if "\<not> prefix (migratingWorkspacePath pid) q" for q
    using that by (rule mget_os_RemoveAll)
  from assms(1) show ?thesis
  proof (cases rule: migrate_cases)
    case id
    then show ?thesis using assms(2) by blast
  next
    case clean
    then show ?thesis using assms(2) by simp
  next
    case run
    then show ?thesis by (rule runMigration_complete [OF _ assms(2-7)])
  next
    case clean_run
    then show ?thesis
      by (rule runMigration_complete [OF _ assms(2) _ assms(4-6)]) (use assms(3,7) in \<open>simp_all add: out\<close>)
  qed
qed

theorem migration_complete_witness:
  "persisted mig_example_env example_ticket (perTicketDirPath ''p'' @ [TicketFilename example_ticket])
     (fst (MigrateProjectToPerTicket mig_example_env ''p'' mig_example_disk))"
proof -
  let ?r = "MigrateProjectToPerTicket mig_example_env ''p'' mig_example_disk"
  let ?ts = "[(''0a1b2c3d-e'', Some example_ticket), (''x'', None)]"
  have "snd ?r = Inr 1" by code_simp
  then have r: "?r = (fst ?r, Inr 1)" by (metis prod.collapse)
  have l: "legacy_live ?ts = [example_ticket]" by code_simp
  have b: "backfill_project ''p'' example_ticket = example_ticket"
    by (simp add: backfill_project_def example_ticket_def NewTicket_def)
  have j: "e_json mig_example_env ''J'' = Some (''p'', ?ts)"
    by (simp add: mig_example_env_def)
  have "1 = length (legacy_live ?ts) \<and> persisted mig_example_env (backfill_project ''p'' example_ticket)
      (perTicketDirPath ''p'' @ [TicketFilename example_ticket]) (fst ?r)"
    by (rule migration_complete [OF r _ _ j]) (simp_all add: l mig_example_disk_def mig_paths)
  then show ?thesis by (simp add: b)
qed

end
