(* ===== verification/Registry.thy ===== *)
theory Registry
  imports AtomicWrite
begin

text \<open>
  \<^verbatim>\<open>internal/project/project.go\<close>, \<^verbatim>\<open>store.go\<close>, \<^verbatim>\<open>filter.go\<close> and \<^verbatim>\<open>branch.go\<close>: projects, the registry of
  projects (\<^verbatim>\<open>projects.json\<close>), saved filters (\<^verbatim>\<open>filters.json\<close>) and the branch name cascade.
  The JSON codec of the two files is a pair of functions (\<open>json_lib\<close>); \<^verbatim>\<open>config.ConfigDir\<close> is the
  root of the disk model and does not fail.
\<close>

section \<open>Projects\<close>

record ProjectSettings =
  ps_AutoSpawnAgent :: bool
  ps_AutoCreateBranch :: bool
  ps_DefaultAgent :: string
  ps_Model :: string
  ps_IgnoreTicketBriefs :: bool
  ps_BranchPrefix :: string
  ps_BranchNaming :: string
  ps_BranchTemplate :: string
  ps_SlugMaxLength :: int

record Project =
  p_ID :: string
  p_Name :: string
  p_RepoPath :: string
  p_WorktreeDir :: string
  p_CreatedAt :: time
  p_UpdatedAt :: time
  p_Settings :: ProjectSettings

text \<open>\<open>now\<close> is \<^verbatim>\<open>time.Now()\<close>, \<open>uuid\<close> the string of \<^verbatim>\<open>uuid.New()\<close>.\<close>

definition NewProject :: "time \<Rightarrow> string \<Rightarrow> string \<Rightarrow> string \<Rightarrow> Project" where
  "NewProject now uuid name repoPath =
     \<lparr> p_ID = uuid, p_Name = name, p_RepoPath = repoPath, p_WorktreeDir = repoPath @ ''-worktrees'',
       p_CreatedAt = now, p_UpdatedAt = now,
       p_Settings = \<lparr> ps_AutoSpawnAgent = True, ps_AutoCreateBranch = True, ps_DefaultAgent = [],
         ps_Model = [], ps_IgnoreTicketBriefs = False, ps_BranchPrefix = [], ps_BranchNaming = [],
         ps_BranchTemplate = [], ps_SlugMaxLength = 0 \<rparr> \<rparr>"

definition GetWorktreeDir :: "Project \<Rightarrow> string" where
  "GetWorktreeDir p = (if p_WorktreeDir p \<noteq> [] then p_WorktreeDir p else p_RepoPath p @ ''-worktrees'')"

definition GetBranchPrefix :: "Project \<Rightarrow> string" where
  "GetBranchPrefix p = (if ps_BranchPrefix (p_Settings p) \<noteq> [] then ps_BranchPrefix (p_Settings p) else ''task/'')"

definition GetBranchTemplate :: "Project \<Rightarrow> string" where
  "GetBranchTemplate p =
     (if ps_BranchTemplate (p_Settings p) \<noteq> [] then ps_BranchTemplate (p_Settings p) else ''{prefix}{slug}'')"

definition GetSlugMaxLength :: "Project \<Rightarrow> int" where
  "GetSlugMaxLength p = (if ps_SlugMaxLength (p_Settings p) > 0 then ps_SlugMaxLength (p_Settings p) else 40)"

definition Project_Touch :: "time \<Rightarrow> Project \<Rightarrow> Project" where
  "Project_Touch now p = p\<lparr>p_UpdatedAt := now\<rparr>"

section \<open>Branch names\<close>

text \<open>The fields of \<^verbatim>\<open>config.BoardSettings\<close> the cascade reads.\<close>

record BoardSettings =
  bs_BranchPrefix :: string
  bs_BranchTemplate :: string
  bs_SlugMaxLength :: int

definition branchPrefix :: "Project option \<Rightarrow> BoardSettings \<Rightarrow> string" where
  "branchPrefix proj defaults =
     (case proj of
        Some p \<Rightarrow> if ps_BranchPrefix (p_Settings p) \<noteq> [] then ps_BranchPrefix (p_Settings p)
          else if bs_BranchPrefix defaults \<noteq> [] then bs_BranchPrefix defaults else ''task/''
      | None \<Rightarrow> if bs_BranchPrefix defaults \<noteq> [] then bs_BranchPrefix defaults else ''task/'')"

definition branchTemplate :: "Project option \<Rightarrow> BoardSettings \<Rightarrow> string" where
  "branchTemplate proj defaults =
     (case proj of
        Some p \<Rightarrow> if ps_BranchTemplate (p_Settings p) \<noteq> [] then ps_BranchTemplate (p_Settings p)
          else if bs_BranchTemplate defaults \<noteq> [] then bs_BranchTemplate defaults else ''{prefix}{slug}''
      | None \<Rightarrow> if bs_BranchTemplate defaults \<noteq> [] then bs_BranchTemplate defaults else ''{prefix}{slug}'')"

definition branchSlugMaxLength :: "Project option \<Rightarrow> BoardSettings \<Rightarrow> int" where
  "branchSlugMaxLength proj defaults =
     (case proj of
        Some p \<Rightarrow> if ps_SlugMaxLength (p_Settings p) > 0 then ps_SlugMaxLength (p_Settings p)
          else if bs_SlugMaxLength defaults > 0 then bs_SlugMaxLength defaults else 40
      | None \<Rightarrow> if bs_SlugMaxLength defaults > 0 then bs_SlugMaxLength defaults else 40)"

definition BranchNameForTitle :: "string \<Rightarrow> Project option \<Rightarrow> BoardSettings \<Rightarrow> string" where
  "BranchNameForTitle title proj defaults =
     (let slug = Slugify title (branchSlugMaxLength proj defaults)
      in replace_all (replace_all (branchTemplate proj defaults) ''{prefix}'' (branchPrefix proj defaults))
           ''{slug}'' slug)"

section \<open>JSON files\<close>

record 'a json_lib =
  jl_enc :: "'a \<Rightarrow> string option"
  jl_dec :: "string \<Rightarrow> 'a option"

datatype file_error = FE_read io_error | FE_parse | FE_mkdir io_error | FE_marshal | FE_tmp aw_error

definition load_json :: "io_env \<Rightarrow> 'a json_lib \<Rightarrow> string \<Rightarrow> 'a \<Rightarrow> disk \<Rightarrow> file_error + 'a" where
  "load_json E J name fresh d =
     (case os_ReadFile (e_faults E) [name] d of
        Inl e \<Rightarrow> if not_exist e then Inr fresh else Inl (FE_read e)
      | Inr data \<Rightarrow> (case jl_dec J data of None \<Rightarrow> Inl FE_parse | Some r \<Rightarrow> Inr r))"

definition save_json :: "io_env \<Rightarrow> 'a json_lib \<Rightarrow> string \<Rightarrow> 'a \<Rightarrow> disk \<Rightarrow> disk \<times> file_error option" where
  "save_json E J name r d =
     (case os_MkdirAll (e_faults E) [] d of
        (d1, Some e) \<Rightarrow> (d1, Some (FE_mkdir e))
      | (d1, None) \<Rightarrow>
          (case jl_enc J r of
             None \<Rightarrow> (d1, Some FE_marshal)
           | Some data \<Rightarrow>
               (case write_via_tmp E [] name data d1 of
                  (d2, Some e) \<Rightarrow> (d2, Some (FE_tmp e))
                | (d2, None) \<Rightarrow> (d2, None))))"

section \<open>The project registry\<close>

type_synonym ProjectRegistry = "(string, Project) gomap"

datatype reg_error = ErrProjectNotFound | ErrDuplicatePath | ErrTicketHasWorktree | RE_file file_error

definition projects_file :: string where
  "projects_file = ''projects.json''"

definition newRegistry :: ProjectRegistry where
  "newRegistry = []"

definition LoadRegistry :: "io_env \<Rightarrow> ProjectRegistry json_lib \<Rightarrow> disk \<Rightarrow> file_error + ProjectRegistry" where
  "LoadRegistry E J d = load_json E J projects_file newRegistry d"

definition ReloadFromDisk :: "io_env \<Rightarrow> ProjectRegistry json_lib \<Rightarrow> disk \<Rightarrow> ProjectRegistry \<Rightarrow>
    ProjectRegistry \<times> file_error option" where
  "ReloadFromDisk E J d r =
     (case LoadRegistry E J d of Inl e \<Rightarrow> (r, Some e) | Inr fresh \<Rightarrow> (fresh, None))"

definition Registry_Save :: "io_env \<Rightarrow> ProjectRegistry json_lib \<Rightarrow> ProjectRegistry \<Rightarrow> disk \<Rightarrow> disk \<times> reg_error option" where
  "Registry_Save E J r d =
     (case save_json E J projects_file r d of (d1, e) \<Rightarrow> (d1, map_option RE_file e))"

definition Registry_Add :: "io_env \<Rightarrow> ProjectRegistry json_lib \<Rightarrow> Project \<Rightarrow> ProjectRegistry \<Rightarrow> disk \<Rightarrow>
    ProjectRegistry \<times> disk \<times> reg_error option" where
  "Registry_Add E J p r d =
     (if list_ex (\<lambda>(i, existing). p_RepoPath existing = p_RepoPath p) r then (r, d, Some ErrDuplicatePath)
      else let r' = mput (p_ID p) p r in (r', Registry_Save E J r' d))"

definition Registry_Get :: "string \<Rightarrow> ProjectRegistry \<Rightarrow> reg_error + Project" where
  "Registry_Get i r = (case mget r i of None \<Rightarrow> Inl ErrProjectNotFound | Some p \<Rightarrow> Inr p)"

definition FindByPath :: "string \<Rightarrow> ProjectRegistry \<Rightarrow> reg_error + Project" where
  "FindByPath repoPath r =
     (case find (\<lambda>(i, p). p_RepoPath p = repoPath) r of
        None \<Rightarrow> Inl ErrProjectNotFound | Some (i, p) \<Rightarrow> Inr p)"

definition Registry_Update :: "io_env \<Rightarrow> ProjectRegistry json_lib \<Rightarrow> Project \<Rightarrow> ProjectRegistry \<Rightarrow> disk \<Rightarrow>
    ProjectRegistry \<times> disk \<times> reg_error option" where
  "Registry_Update E J p r d =
     (if mget r (p_ID p) = None then (r, d, Some ErrProjectNotFound)
      else let r' = mput (p_ID p) (Project_Touch (e_now E) p) r in (r', Registry_Save E J r' d))"

definition Registry_Delete :: "io_env \<Rightarrow> ProjectRegistry json_lib \<Rightarrow> string \<Rightarrow> ProjectRegistry \<Rightarrow> disk \<Rightarrow>
    ProjectRegistry \<times> disk \<times> reg_error option" where
  "Registry_Delete E J i r d =
     (if mget r i = None then (r, d, Some ErrProjectNotFound)
      else let r' = mdel i r in (r', Registry_Save E J r' d))"

definition Registry_List :: "ProjectRegistry \<Rightarrow> Project list" where
  "Registry_List r = sort_key p_Name (map snd r)"

section \<open>Saved filters\<close>

record SavedFilter =
  sf_ID :: string
  sf_Name :: string
  sf_ProjectIDs :: "string list"
  sf_Statuses :: "string list"
  sf_Labels :: "string list"
  sf_IsDefault :: bool

definition NewFilter :: "string \<Rightarrow> string \<Rightarrow> SavedFilter" where
  "NewFilter uuid name = \<lparr>sf_ID = uuid, sf_Name = name, sf_ProjectIDs = [], sf_Statuses = [], sf_Labels = [],
     sf_IsDefault = False\<rparr>"

definition Matches :: "SavedFilter \<Rightarrow> Ticket \<Rightarrow> bool" where
  "Matches f t =
     (if sf_ProjectIDs f \<noteq> [] \<and> \<not> list_ex (\<lambda>pid. pid = t_ProjectID t) (sf_ProjectIDs f) then False
      else if sf_Statuses f \<noteq> [] \<and> \<not> list_ex (\<lambda>s. s = t_Status t) (sf_Statuses f) then False
      else if sf_Labels f \<noteq> [] \<and>
          \<not> list_ex (\<lambda>fl. list_ex (\<lambda>tl. fl = tl) (t_Labels t)) (sf_Labels f) then False
      else True)"

type_synonym FilterRegistry = "(string, SavedFilter) gomap"

definition filters_file :: string where
  "filters_file = ''filters.json''"

definition newFilterRegistry :: FilterRegistry where
  "newFilterRegistry = []"

definition LoadFilterRegistry :: "io_env \<Rightarrow> FilterRegistry json_lib \<Rightarrow> disk \<Rightarrow> file_error + FilterRegistry" where
  "LoadFilterRegistry E J d = load_json E J filters_file newFilterRegistry d"

definition Filter_Save :: "io_env \<Rightarrow> FilterRegistry json_lib \<Rightarrow> FilterRegistry \<Rightarrow> disk \<Rightarrow> disk \<times> file_error option" where
  "Filter_Save E J r d = save_json E J filters_file r d"

definition Filter_Add :: "io_env \<Rightarrow> FilterRegistry json_lib \<Rightarrow> SavedFilter \<Rightarrow> FilterRegistry \<Rightarrow> disk \<Rightarrow>
    FilterRegistry \<times> disk \<times> file_error option" where
  "Filter_Add E J f r d = (let r' = mput (sf_ID f) f r in (r', Filter_Save E J r' d))"

definition Filter_Get :: "string \<Rightarrow> FilterRegistry \<Rightarrow> SavedFilter option" where
  "Filter_Get i r = mget r i"

definition GetDefault :: "FilterRegistry \<Rightarrow> SavedFilter option" where
  "GetDefault r = map_option snd (find (\<lambda>(i, f). sf_IsDefault f) r)"

definition Filter_Delete :: "io_env \<Rightarrow> FilterRegistry json_lib \<Rightarrow> string \<Rightarrow> FilterRegistry \<Rightarrow> disk \<Rightarrow>
    FilterRegistry \<times> disk \<times> file_error option" where
  "Filter_Delete E J i r d = (let r' = mdel i r in (r', Filter_Save E J r' d))"

definition Filter_List :: "FilterRegistry \<Rightarrow> SavedFilter list" where
  "Filter_List r = map snd r"

section \<open>Lemmas\<close>

lemma os_MkdirAll_root [simp]: "os_MkdirAll F [] d = (d, if F (MkdirAll []) then Some (Failed (MkdirAll [])) else None)"
  by (simp add: os_MkdirAll_def prefixes_of_def)

text \<open>A save either commits the new content or leaves the file as it was.\<close>

lemma save_json_file:
  assumes "save_json E J name r d = (d', res)"
  shows "(res = None \<and> (\<exists>data. jl_enc J r = Some data \<and> mget d' [name] = Some (FileN data (e_now E)))) \<or>
    (res \<noteq> None \<and> mget d' [name] = mget d [name])"
proof (cases "e_faults E (MkdirAll []) \<or> jl_enc J r = None")
  case True
  then show ?thesis using assms by (auto simp: save_json_def split: option.splits)
next
  case False
  then obtain data where data: "jl_enc J r = Some data" "\<not> e_faults E (MkdirAll [])" by auto
  obtain d2 x where w: "write_via_tmp E [] name data d = (d2, x)" by force
  have r: "d' = d2" "res = map_option FE_tmp x"
    using assms data w by (auto simp: save_json_def split: option.splits)
  from w show ?thesis
  proof (cases rule: write_via_tmp_cases)
    case (fail e y)
    then show ?thesis using fail(3) [of "[name]"] by (simp add: r)
  qed (simp_all add: r data(1))
qed

lemma load_json_eq:
  "mget d' [name] = mget d [name] \<Longrightarrow> load_json E J name fresh d' = load_json E J name fresh d"
  by (simp add: load_json_def os_ReadFile_def)

text \<open>The registry invariant: keys are ids, no two projects share a repository.\<close>

definition reg_inv :: "ProjectRegistry \<Rightarrow> bool" where
  "reg_inv r \<longleftrightarrow> mwf r \<and> (\<forall>(i, p) \<in> set r. p_ID p = i) \<and>
     (\<forall>(i, p) \<in> set r. \<forall>(j, q) \<in> set r. p_RepoPath p = p_RepoPath q \<longrightarrow> i = j)"

lemma reg_inv_new: "reg_inv newRegistry"
  by (simp add: reg_inv_def newRegistry_def)

lemma reg_inv_put:
  assumes "reg_inv r" "\<And>i q. (i, q) \<in> set r \<Longrightarrow> i \<noteq> p_ID p \<Longrightarrow> p_RepoPath q \<noteq> p_RepoPath p"
  shows "reg_inv (mput (p_ID p) p r)"
proof -
  have w: "mwf r" using assms(1) by (simp add: reg_inv_def)
  show ?thesis
    unfolding reg_inv_def set_mput [OF w]
    using assms by (fastforce simp: reg_inv_def)
qed

lemma reg_inv_del: "reg_inv r \<Longrightarrow> reg_inv (mdel i r)"
  by (auto simp: reg_inv_def set_mdel)

lemma reg_inv_Add: "reg_inv r \<Longrightarrow> reg_inv (fst (Registry_Add E J p r d))"
  by (auto simp: Registry_Add_def Let_def list_ex_iff intro!: reg_inv_put)

lemma reg_inv_Delete: "reg_inv r \<Longrightarrow> reg_inv (fst (Registry_Delete E J i r d))"
  by (auto simp: Registry_Delete_def Let_def intro: reg_inv_del)

lemma reg_inv_Update:
  assumes "reg_inv r" "\<And>q. mget r (p_ID p) = Some q \<Longrightarrow> p_RepoPath q = p_RepoPath p"
  shows "reg_inv (fst (Registry_Update E J p r d))"
proof (cases "mget r (p_ID p)")
  case (Some q)
  then have q: "(p_ID p, q) \<in> set r" "p_RepoPath q = p_RepoPath p"
    using assms(2) by (auto dest: map_of_SomeD)
  have "reg_inv (mput (p_ID (Project_Touch (e_now E) p)) (Project_Touch (e_now E) p) r)"
    by (rule reg_inv_put [OF assms(1)]) (use q assms(1) in \<open>fastforce simp: Project_Touch_def reg_inv_def\<close>)
  then show ?thesis using Some by (simp add: Registry_Update_def Let_def Project_Touch_def)
qed (use assms in \<open>simp add: Registry_Update_def\<close>)

text \<open>Everything the program does to its registry: additions, deletions, reloads and updates that keep
  the path.\<close>

inductive reg_run :: "ProjectRegistry \<Rightarrow> bool" where
  rr_new: "reg_run newRegistry"
| rr_add: "reg_run r \<Longrightarrow> reg_run (fst (Registry_Add E J p r d))"
| rr_delete: "reg_run r \<Longrightarrow> reg_run (fst (Registry_Delete E J i r d))"
| rr_update: "reg_run r \<Longrightarrow> mget r (p_ID p) = Some q \<Longrightarrow> p_RepoPath q = p_RepoPath p \<Longrightarrow>
    reg_run (fst (Registry_Update E J p r d))"

lemma reg_run_inv: "reg_run r \<Longrightarrow> reg_inv r"
  by (induction rule: reg_run.induct) (auto intro: reg_inv_new reg_inv_Add reg_inv_Delete reg_inv_Update)

lemma FindByPath_iff:
  assumes "reg_inv r"
  shows "FindByPath path r = Inr p \<longleftrightarrow> p \<in> snd ` set r \<and> p_RepoPath p = path"
proof
  assume "FindByPath path r = Inr p"
  then show "p \<in> snd ` set r \<and> p_RepoPath p = path"
    by (auto simp: FindByPath_def find_Some_iff image_iff split: option.splits) (metis nth_mem snd_conv)+
next
  assume p: "p \<in> snd ` set r \<and> p_RepoPath p = path"
  then obtain i where i: "(i, p) \<in> set r" by auto
  then have "find (\<lambda>(i, p). p_RepoPath p = path) r \<noteq> None"
    using p by (auto simp: find_None_iff)
  then obtain j q where f: "find (\<lambda>(i, p). p_RepoPath p = path) r = Some (j, q)" by auto
  then have jq: "(j, q) \<in> set r" "p_RepoPath q = path"
    by (auto simp: find_Some_iff) (metis nth_mem)
  then have "i = j" using assms i p by (force simp: reg_inv_def)
  moreover have "mwf r" using assms by (simp add: reg_inv_def)
  ultimately have "q = p" using i jq(1) by (simp add: in_set_mget)
  with f show "FindByPath path r = Inr p" by (simp add: FindByPath_def)
qed

lemma replace_all_skip:
  assumes "old \<noteq> []" "hd old \<notin> set xs"
  shows "replace_all (xs @ ys) old new = xs @ replace_all ys old new"
  using assms by (induction xs) (auto simp: prefix_def neq_Nil_conv)

lemma replace_all_head:
  "old \<noteq> [] \<Longrightarrow> replace_all (old @ ys) old new = new @ replace_all ys old new"
  by (cases old) auto

lemma Matches_iff:
  "Matches f t \<longleftrightarrow> (sf_ProjectIDs f = [] \<or> t_ProjectID t \<in> set (sf_ProjectIDs f)) \<and>
     (sf_Statuses f = [] \<or> t_Status t \<in> set (sf_Statuses f)) \<and>
     (sf_Labels f = [] \<or> set (sf_Labels f) \<inter> set (t_Labels t) \<noteq> {})"
  by (auto simp: Matches_def list_ex_iff)

section \<open>Properties\<close>

text \<open>Whatever sequence of additions, deletions and path-keeping updates built the registry, a lookup
  by repository path finds exactly the project registered for that path: there is at most one,
  and the map's iteration order does not matter.\<close>

theorem FindByPath_exact:
  assumes "reg_run r"
  shows "(FindByPath path r = Inr p) = (Registry_Get (p_ID p) r = Inr p \<and> p_RepoPath p = path)"
proof -
  have r: "reg_inv r" using assms by (rule reg_run_inv)
  then have "mwf r" by (simp add: reg_inv_def)
  have "p \<in> snd ` set r \<longleftrightarrow> mget r (p_ID p) = Some p"
  proof
    assume "p \<in> snd ` set r"
    then obtain i where "(i, p) \<in> set r" by auto
    moreover from this r have "p_ID p = i" by (auto simp: reg_inv_def)
    ultimately show "mget r (p_ID p) = Some p" using \<open>mwf r\<close> by (simp add: in_set_mget)
  qed (force dest: map_of_SomeD)
  then show ?thesis
    by (simp add: FindByPath_iff [OF r] Registry_Get_def split: option.splits)
qed

definition reg_example_env :: io_env where
  "reg_example_env = \<lparr>e_faults = (\<lambda>c. False), e_now = 9, e_part = 0, e_rnds = [''1''],
     e_yaml = example_yaml, e_json = (\<lambda>s. None)\<rparr>"

definition reg_example_project :: Project where
  "reg_example_project = NewProject 3 ''p1'' ''demo'' ''/repo''"

definition reg_example_json :: "ProjectRegistry json_lib" where
  "reg_example_json = \<lparr>jl_enc = (\<lambda>r. Some (concat (map fst r))),
     jl_dec = (\<lambda>s. if s = ''p1'' then Some [(''p1'', reg_example_project)] else None)\<rparr>"

theorem FindByPath_exact_witness:
  "FindByPath ''/repo'' (fst (Registry_Add reg_example_env reg_example_json reg_example_project newRegistry []))
     = Inr reg_example_project"
proof -
  have "reg_run (fst (Registry_Add reg_example_env reg_example_json reg_example_project newRegistry []))"
    by (intro reg_run.intros)
  from FindByPath_exact [OF this, of "''/repo''" reg_example_project] show ?thesis
    by (simp add: Registry_Add_def newRegistry_def Registry_Get_def reg_example_project_def NewProject_def Let_def)
qed

text \<open>Saving the registry is all or nothing, for every pattern of failures and every amount of a
  partial write: after a save that reports success a load returns the saved registry, after a
  save that reports an error a load returns what it returned before.\<close>

theorem Registry_Save_atomic:
  assumes "Registry_Save E J r d = (d', res)"
    and "\<And>data. jl_enc J r = Some data \<Longrightarrow> jl_dec J data = Some r"
    and "\<not> e_faults E' (ReadFile [projects_file])"
  shows "LoadRegistry E' J d' = (if res = None then Inr r else LoadRegistry E' J d)"
proof -
  obtain x where x: "save_json E J projects_file r d = (d', x)" "res = map_option RE_file x"
    using assms(1) by (auto simp: Registry_Save_def split: prod.splits)
  from save_json_file [OF x(1)] show ?thesis
    using assms(2,3) load_json_eq [of d' projects_file d E' J newRegistry]
    by (auto simp: LoadRegistry_def load_json_def os_ReadFile_def x(2))
qed

theorem Registry_Save_atomic_witness:
  "LoadRegistry reg_example_env reg_example_json
     (fst (Registry_Save reg_example_env reg_example_json [(''p1'', reg_example_project)] [])) =
   Inr [(''p1'', reg_example_project)]"
proof -
  let ?r = "Registry_Save reg_example_env reg_example_json [(''p1'', reg_example_project)] []"
  have "snd ?r = None" by code_simp
  then have r: "?r = (fst ?r, None)" by (metis prod.collapse)
  show ?thesis
    using Registry_Save_atomic [OF r, of reg_example_env]
    by (simp add: reg_example_json_def reg_example_env_def)
qed

text \<open>With the default template the branch of a ticket is the effective prefix followed by the slug of
  its title, for every title and every prefix without a brace; the slug is cut at the effective
  maximum length of the cascade (project, then global defaults, then 40).\<close>

theorem BranchName_default_template:
  assumes "branchTemplate proj defaults = ''{prefix}{slug}''"
    and "CHR ''{'' \<notin> set (branchPrefix proj defaults)"
  shows "BranchNameForTitle title proj defaults =
    branchPrefix proj defaults @ Slugify title (branchSlugMaxLength proj defaults)"
proof -
  have "replace_all (''{prefix}'' @ ''{slug}'') ''{prefix}'' p = p @ replace_all ''{slug}'' ''{prefix}'' p" for p
    by (rule replace_all_head) simp
  then have one: "replace_all ''{prefix}{slug}'' ''{prefix}'' p = p @ ''{slug}''" for p
    by (simp add: prefix_def)
  have "replace_all (''{slug}'' @ []) ''{slug}'' s = s @ replace_all [] ''{slug}'' s" for s
    by (rule replace_all_head) simp
  then have "replace_all (p @ ''{slug}'') ''{slug}'' s = p @ s" if "CHR ''{'' \<notin> set p" for p s
    using that replace_all_skip [of "''{slug}''" p "''{slug}''" s] by simp
  with assms one show ?thesis by (simp only: BranchNameForTitle_def Let_def)
qed

theorem BranchName_default_template_witness:
  "BranchNameForTitle ''Fix it'' (Some reg_example_project)
     \<lparr>bs_BranchPrefix = ''dev/'', bs_BranchTemplate = [], bs_SlugMaxLength = 0\<rparr> = ''dev/fix-it''"
proof -
  have s: "Slugify ''Fix it'' 40 = ''fix-it''" by code_simp
  show ?thesis
    by (subst BranchName_default_template)
      (simp_all add: branchTemplate_def branchPrefix_def branchSlugMaxLength_def reg_example_project_def
        NewProject_def s)
qed

end
