(* ===== verification/TicketStore.thy ===== *)
theory TicketStore
  imports Migration Registry ClaudeSettings
begin

text \<open>
  \<^verbatim>\<open>internal/project/tickets.go\<close>, the type \<^verbatim>\<open>TicketStore\<close>: the tickets of one project, one Markdown
  file each.  Tickets are shared by pointer between the store of a project and the global index,
  so they live in a heap: a \<open>ref\<close> is a \<^verbatim>\<open>*board.Ticket\<close>, and the operations act on a \<open>world\<close> of heap,
  disk and the \<^verbatim>\<open>.claude\<close> settings.  A directory walk visits the entries in name order, as
  \<^verbatim>\<open>filepath.WalkDir\<close> does.  An operation reads the clock once.
\<close>

type_synonym ref = nat

record world =
  w_heap :: "Ticket list"
  w_disk :: disk
  w_settings :: sdisk

definition deref :: "world \<Rightarrow> ref \<Rightarrow> Ticket" where
  "deref w r = w_heap w ! r"

definition set_ticket :: "ref \<Rightarrow> Ticket \<Rightarrow> world \<Rightarrow> world" where
  "set_ticket r t w = w\<lparr>w_heap := (w_heap w)[r := t]\<rparr>"

definition alloc :: "Ticket \<Rightarrow> world \<Rightarrow> world \<times> ref" where
  "alloc t w = (w\<lparr>w_heap := w_heap w @ [t]\<rparr>, length (w_heap w))"

record TicketStore =
  ts_ProjectID :: string
  ts_Tickets :: "(TicketID, ref) gomap"
  ts_UpdatedAt :: time
  ts_paths :: "(TicketID, path) gomap"
  ts_repoPath :: string

datatype store_error =
    TS_nil | TS_mkdir io_error | TS_marshal md_error | TS_tmp aw_error | TS_remove io_error
  | TS_walk io_error | TS_not_found | TS_read io_error | TS_parse md_error

definition NewTicketStore :: "time \<Rightarrow> string \<Rightarrow> string \<Rightarrow> TicketStore" where
  "NewTicketStore now projectID repoPath =
     \<lparr>ts_ProjectID = projectID, ts_Tickets = [], ts_UpdatedAt = now, ts_paths = [], ts_repoPath = repoPath\<rparr>"

definition ticketDir :: "TicketStore \<Rightarrow> path" where
  "ticketDir s = ticketsDir @ [ts_ProjectID s]"

section \<open>Saving and deleting\<close>

definition remove_stale :: "io_env \<Rightarrow> path option \<Rightarrow> path \<Rightarrow> disk \<Rightarrow> disk" where
  "remove_stale E old newPath d =
     (case old of
        None \<Rightarrow> d
      | Some oldPath \<Rightarrow> if oldPath \<noteq> newPath then fst (os_Remove (e_faults E) oldPath d) else d)"

definition SaveTicket :: "io_env \<Rightarrow> ref option \<Rightarrow> TicketStore \<Rightarrow> world \<Rightarrow> TicketStore \<times> world \<times> store_error option" where
  "SaveTicket E tp s w =
     (case tp of
        None \<Rightarrow> (s, w, Some TS_nil)
      | Some r \<Rightarrow>
          let t = backfill_project (ts_ProjectID s) (deref w r);
              w1 = set_ticket r t w;
              dir = ticketDir s
          in (case os_MkdirAll (e_faults E) dir (w_disk w1) of
                (d1, Some e) \<Rightarrow> (s, w1\<lparr>w_disk := d1\<rparr>, Some (TS_mkdir e))
              | (d1, None) \<Rightarrow>
                  (case MarshalTicket (e_yaml E) (Some t) of
                     Inl e \<Rightarrow> (s, w1\<lparr>w_disk := d1\<rparr>, Some (TS_marshal e))
                   | Inr data \<Rightarrow>
                       (case write_via_tmp E dir (TicketFilename t) data d1 of
                          (d2, Some e) \<Rightarrow> (s, w1\<lparr>w_disk := d2\<rparr>, Some (TS_tmp e))
                        | (d2, None) \<Rightarrow>
                            let newPath = dir @ [TicketFilename t]
                            in (s\<lparr>ts_paths := mput (t_ID t) newPath (ts_paths s),
                                  ts_Tickets := mput (t_ID t) r (ts_Tickets s), ts_UpdatedAt := e_now E\<rparr>,
                                w1\<lparr>w_disk := remove_stale E (mget (ts_paths s) (t_ID t)) newPath d2\<rparr>, None)))))"

definition DeleteTicketFile :: "io_env \<Rightarrow> TicketID \<Rightarrow> TicketStore \<Rightarrow> world \<Rightarrow> TicketStore \<times> world \<times> store_error option" where
  "DeleteTicketFile E i s w =
     (case mget (ts_paths s) i of
        None \<Rightarrow> (s, w, None)
      | Some p \<Rightarrow>
          (case os_Remove (e_faults E) p (w_disk w) of
             (d1, Some e) \<Rightarrow>
               if not_exist e then (s\<lparr>ts_paths := mdel i (ts_paths s)\<rparr>, w\<lparr>w_disk := d1\<rparr>, None)
               else (s, w\<lparr>w_disk := d1\<rparr>, Some (TS_remove e))
           | (d1, None) \<Rightarrow> (s\<lparr>ts_paths := mdel i (ts_paths s)\<rparr>, w\<lparr>w_disk := d1\<rparr>, None)))"

fun save_refs :: "io_env \<Rightarrow> ref list \<Rightarrow> TicketStore \<Rightarrow> world \<Rightarrow> TicketStore \<times> world \<times> store_error option" where
  "save_refs E [] s w = (s, w, None)"
| "save_refs E (r # rs) s w =
     (case SaveTicket E (Some r) s w of
        (s1, w1, Some e) \<Rightarrow> (s1, w1, Some e)
      | (s1, w1, None) \<Rightarrow> save_refs E rs s1 w1)"

definition Store_SaveAll :: "io_env \<Rightarrow> TicketStore \<Rightarrow> world \<Rightarrow> TicketStore \<times> world \<times> store_error option" where
  "Store_SaveAll E s w = save_refs E (map snd (ts_Tickets s)) s w"

definition Store_Add :: "ref \<Rightarrow> TicketStore \<Rightarrow> world \<Rightarrow> TicketStore \<times> world" where
  "Store_Add r s w =
     (let t = (deref w r)\<lparr>t_ProjectID := ts_ProjectID s\<rparr>
      in (s\<lparr>ts_Tickets := mput (t_ID t) r (ts_Tickets s)\<rparr>, set_ticket r t w))"

definition Store_Get :: "TicketID \<Rightarrow> TicketStore \<Rightarrow> store_error + ref" where
  "Store_Get i s = (case mget (ts_Tickets s) i of None \<Rightarrow> Inl TS_not_found | Some r \<Rightarrow> Inr r)"

definition Store_Delete :: "io_env \<Rightarrow> TicketID \<Rightarrow> TicketStore \<Rightarrow> world \<Rightarrow> TicketStore \<times> world \<times> store_error option" where
  "Store_Delete E i s w =
     (if mget (ts_Tickets s) i = None then (s, w, Some TS_not_found)
      else case DeleteTicketFile E i s w of
        (s1, w1, Some e) \<Rightarrow> (s1, w1, Some e)
      | (s1, w1, None) \<Rightarrow> (s1\<lparr>ts_Tickets := mdel i (ts_Tickets s1)\<rparr>, w1, None))"

section \<open>Moving a ticket to a status\<close>

text \<open>\<open>RE\<close> is the environment of the settings review, \<open>gi\<close> the answers of \<^verbatim>\<open>git check-ignore\<close>.  Errors of
  the two settings calls are logged only.\<close>

definition Store_Move :: "io_env \<Rightarrow> review_env \<Rightarrow> (string \<Rightarrow> bool) \<Rightarrow> TicketID \<Rightarrow> TicketStatus \<Rightarrow> TicketStore \<Rightarrow>
    world \<Rightarrow> world \<times> string list \<times> PruneRecord list \<times> store_error option" where
  "Store_Move E RE gi i newStatus s w =
     (case mget (ts_Tickets s) i of
        None \<Rightarrow> (w, [], [], Some TS_not_found)
      | Some r \<Rightarrow>
          let t = deref w r;
              w1 = set_ticket r (SetStatus (e_now E) newStatus t) w;
              (sd1, res) = PromoteClaudeSettingsOnTransition (re_faults RE) gi (w_settings w1)
                 (t_WorktreePath t) (ts_repoPath s) (t_Status t) newStatus;
              added = (case res of Inl e \<Rightarrow> [] | Inr a \<Rightarrow> a);
              (sd2, pruned, err) = ReviewAndPruneRepoSettings RE sd1 (ts_repoPath s)
          in (w1\<lparr>w_settings := sd2\<rparr>, added, pruned, None))"

section \<open>Queries\<close>

definition Store_GetByStatus :: "TicketStatus \<Rightarrow> TicketStore \<Rightarrow> world \<Rightarrow> ref list" where
  "Store_GetByStatus status s w = filter (\<lambda>r. t_Status (deref w r) = status) (map snd (ts_Tickets s))"

definition Store_All :: "TicketStore \<Rightarrow> ref list" where
  "Store_All s = map snd (ts_Tickets s)"

definition Store_Count :: "TicketStore \<Rightarrow> nat" where
  "Store_Count s = length (ts_Tickets s)"

definition CountByStatus :: "TicketStatus \<Rightarrow> TicketStore \<Rightarrow> world \<Rightarrow> nat" where
  "CountByStatus status s w =
     fold (\<lambda>(i, r) n. if t_Status (deref w r) = status then Suc n else n) (ts_Tickets s) 0"

section \<open>Loading a directory\<close>

record load_state =
  ls_store :: TicketStore
  ls_world :: world
  ls_mtimes :: "(TicketID, time) gomap"

definition is_tmp_name :: "string \<Rightarrow> bool" where
  "is_tmp_name n \<longleftrightarrow> contains n ''.tmp-'' \<or> has_suffix n ''.tmp''"

definition sweep :: "io_env \<Rightarrow> path \<Rightarrow> load_state \<Rightarrow> load_state" where
  "sweep E p st = st\<lparr>ls_world := (ls_world st)\<lparr>w_disk := fst (os_Remove (e_faults E) p (w_disk (ls_world st)))\<rparr>\<rparr>"

definition install :: "path \<Rightarrow> time \<Rightarrow> Ticket \<Rightarrow> load_state \<Rightarrow> load_state" where
  "install p mtime t st =
     (case alloc t (ls_world st) of (w1, r) \<Rightarrow>
        st\<lparr>ls_store := (ls_store st)\<lparr>ts_Tickets := mput (t_ID t) r (ts_Tickets (ls_store st)),
                                      ts_paths := mput (t_ID t) p (ts_paths (ls_store st))\<rparr>,
           ls_world := w1, ls_mtimes := mput (t_ID t) mtime (ls_mtimes st)\<rparr>)"

definition load_entry :: "io_env \<Rightarrow> string \<Rightarrow> path \<Rightarrow> string \<Rightarrow> load_state \<Rightarrow> load_state" where
  "load_entry E pid dir n st =
     (let p = dir @ [n]; F = e_faults E in
      case mget (w_disk (ls_world st)) p of
        None \<Rightarrow> st
      | Some DirN \<Rightarrow> st
      | Some (FileN c mtime) \<Rightarrow>
          if is_tmp_name n then sweep E p st
          else if \<not> has_suffix n ''.md'' then st
          else if F (StatCall p) then st
          else (case os_ReadFile F p (w_disk (ls_world st)) of
              Inl e \<Rightarrow> st
            | Inr data \<Rightarrow>
                (case UnmarshalTicket (e_yaml E) (e_now E) data of
                   Inl e \<Rightarrow> st
                 | Inr t0 \<Rightarrow>
                     let t = backfill_project pid t0 in
                     case mget (ts_paths (ls_store st)) (t_ID t) of
                       Some prevPath \<Rightarrow>
                         if (case mget (ls_mtimes st) (t_ID t) of None \<Rightarrow> 0 | Some m \<Rightarrow> m) < mtime
                         then install p mtime t (sweep E prevPath st)
                         else sweep E p st
                     | None \<Rightarrow> install p mtime t st)))"

definition load_dir :: "io_env \<Rightarrow> Project \<Rightarrow> world \<Rightarrow> world \<times> (store_error + TicketStore)" where
  "load_dir E project w =
     (let store = NewTicketStore (e_now E) (p_ID project) (p_RepoPath project); dir = ticketDir store in
      if e_faults E (StatCall dir) then (w, Inl (TS_walk (Failed (StatCall dir))))
      else case os_ReadDir (e_faults E) dir (w_disk w) of
        Inl e \<Rightarrow> (w, Inl (TS_walk e))
      | Inr names \<Rightarrow>
          let st = fold (load_entry E (p_ID project) dir) names \<lparr>ls_store = store, ls_world = w, ls_mtimes = []\<rparr>
          in (ls_world st, Inr ((ls_store st)\<lparr>ts_UpdatedAt := e_now E\<rparr>)))"

definition LoadTicketStore :: "io_env \<Rightarrow> Project \<Rightarrow> world \<Rightarrow> world \<times> (store_error + TicketStore)" where
  "LoadTicketStore E project w =
     (let d1 = fst (MigrateProjectToPerTicket E (p_ID project) (w_disk w));
          dir = ticketDir (NewTicketStore (e_now E) (p_ID project) (p_RepoPath project))
      in case os_MkdirAll (e_faults E) dir d1 of
           (d2, Some e) \<Rightarrow> (w\<lparr>w_disk := d2\<rparr>, Inl (TS_mkdir e))
         | (d2, None) \<Rightarrow> load_dir E project (w\<lparr>w_disk := d2\<rparr>))"

section \<open>Lemmas on saving\<close>

lemma deref_set [simp]: "r < length (w_heap w) \<Longrightarrow> deref (set_ticket r t w) r = t"
  "r \<noteq> r' \<Longrightarrow> deref (set_ticket r t w) r' = deref w r'"
  by (simp_all add: deref_def set_ticket_def)

lemma set_ticket_disk [simp]: "w_disk (set_ticket r t w) = w_disk w" "w_settings (set_ticket r t w) = w_settings w"
  "length (w_heap (set_ticket r t w)) = length (w_heap w)"
  by (simp_all add: set_ticket_def)

lemma backfill_project_ID [simp]: "t_ID (backfill_project pid t) = t_ID t"
  by (simp add: backfill_project_def)

lemma remove_stale_out:
  "Some q \<noteq> old \<Longrightarrow> mget (remove_stale E old newPath d) q = mget d q"
  "mget (remove_stale E old newPath d) newPath = mget d newPath"
  using mget_os_Remove [of "e_faults E"] by (auto simp: remove_stale_def split: option.splits)

lemma mkdir_existing:
  "os_MkdirAll F p d = (d', r) \<Longrightarrow> mget d q \<noteq> None \<Longrightarrow> mget d' q = mget d q"
  using mget_os_MkdirAll(2) [of d q F p] by simp

text \<open>The two outcomes of a save: an error leaves the store and every existing file alone, a success
  writes the new file, removes at most the file the ticket had before and leaves the rest alone.\<close>

lemma SaveTicket_cases:
  assumes "SaveTicket E (Some r) s w = (s', w', res)"
  defines "t \<equiv> backfill_project (ts_ProjectID s) (deref w r)"
  defines "new \<equiv> ticketDir s @ [TicketFilename t]"
  obtains (error) e where "res = Some e" "s' = s" "w_heap w' = w_heap (set_ticket r t w)"
      "w_settings w' = w_settings w" "\<And>q. mget (w_disk w) q \<noteq> None \<Longrightarrow> mget (w_disk w') q = mget (w_disk w) q"
  | (ok) data where "res = None" "MarshalTicket (e_yaml E) (Some t) = Inr data"
      "s' = s\<lparr>ts_paths := mput (t_ID t) new (ts_paths s), ts_Tickets := mput (t_ID t) r (ts_Tickets s),
              ts_UpdatedAt := e_now E\<rparr>"
      "w_heap w' = w_heap (set_ticket r t w)" "w_settings w' = w_settings w"
      "mget (w_disk w') new = Some (FileN data (e_now E))"
      "\<And>q. mget (w_disk w) q \<noteq> None \<Longrightarrow> q \<noteq> new \<Longrightarrow> mget (ts_paths s) (t_ID t) \<noteq> Some q \<Longrightarrow>
         mget (w_disk w') q = mget (w_disk w) q"
proof -
  let ?F = "e_faults E" and ?dir = "ticketDir s"
  obtain d1 m where mk: "os_MkdirAll ?F ?dir (w_disk w) = (d1, m)" by force
  have d1: "mget d1 q = mget (w_disk w) q" if "mget (w_disk w) q \<noteq> None" for q
    using mkdir_existing [OF mk that] .
  show ?thesis
  proof (cases m)
    case (Some e)
    then show ?thesis
      using error [of "TS_mkdir e"] assms(1) mk d1 by (auto simp: SaveTicket_def Let_def t_def [symmetric])
  next
    case m: None
    show ?thesis
    proof (cases "MarshalTicket (e_yaml E) (Some t)")
      case (Inl e)
      then show ?thesis
        using error [of "TS_marshal e"] assms(1) mk d1 m by (auto simp: SaveTicket_def Let_def t_def [symmetric])
    next
      case (Inr data)
      obtain d2 x where wr: "write_via_tmp E ?dir (TicketFilename t) data d1 = (d2, x)" by force
      show ?thesis
      proof (cases x)
        case (Some e)
        have "mget d2 q = mget (w_disk w) q" if "mget (w_disk w) q \<noteq> None" for q
          using write_via_tmp_err [OF wr [unfolded Some], of q] d1 [OF that] that by simp
        then show ?thesis
          using error [of "TS_tmp e"] assms(1) mk m Inr wr Some
          by (auto simp: SaveTicket_def Let_def t_def [symmetric])
      next
        case None
        note ok2 = write_via_tmp_ok [OF wr [unfolded None]]
        let ?d3 = "remove_stale E (mget (ts_paths s) (t_ID t)) new d2"
        have "mget ?d3 new = Some (FileN data (e_now E))"
          using ok2(1) by (simp add: remove_stale_out(2) new_def)
        moreover have "mget ?d3 q = mget (w_disk w) q"
          if "mget (w_disk w) q \<noteq> None" "q \<noteq> new" "mget (ts_paths s) (t_ID t) \<noteq> Some q" for q
          using ok2(2) [of q] d1 [OF that(1)] that remove_stale_out(1) [of q "mget (ts_paths s) (t_ID t)" E new d2]
          by (auto simp: new_def)
        ultimately show ?thesis
          using ok [of data] assms(1) mk m Inr wr None
          by (auto simp: SaveTicket_def Let_def t_def [symmetric] new_def [symmetric])
      qed
    qed
  qed
qed

lemma SaveTicket_error_out:
  assumes "SaveTicket E (Some r) s w = (s', w', Some e)"
    and "\<not> prefix (ticketDir s) q" "\<not> prefix q (ticketDir s)"
  shows "mget (w_disk w') q = mget (w_disk w) q"
proof -
  let ?t = "backfill_project (ts_ProjectID s) (deref w r)"
  obtain d1 m where mk: "os_MkdirAll (e_faults E) (ticketDir s) (w_disk w) = (d1, m)" by force
  then have d1: "mget d1 q = mget (w_disk w) q"
    using mget_os_MkdirAll_out [OF assms(3), of "e_faults E" "w_disk w"] by simp
  show ?thesis
  proof (cases "m \<noteq> None \<or> (\<exists>x. MarshalTicket (e_yaml E) (Some ?t) = Inl x)")
    case True
    then show ?thesis using assms(1) mk d1 by (auto simp: SaveTicket_def Let_def split: option.splits)
  next
    case False
    then obtain data where data: "m = None" "MarshalTicket (e_yaml E) (Some ?t) = Inr data"
      by (cases "MarshalTicket (e_yaml E) (Some ?t)") auto
    obtain d2 x where wr: "write_via_tmp E (ticketDir s) (TicketFilename ?t) data d1 = (d2, x)" by force
    have "mget d2 q = mget d1 q" using wr by (rule write_via_tmp_new) (use assms(2) in auto)
    then show ?thesis
      using assms(1) mk data wr d1 by (cases x) (auto simp: SaveTicket_def Let_def)
  qed
qed

section \<open>Lemmas on loading\<close>

text \<open>The ticket a directory entry contributes, with its modification time.\<close>

definition md_candidate :: "io_env \<Rightarrow> path \<Rightarrow> disk \<Rightarrow> string \<Rightarrow> (time \<times> Ticket) option" where
  "md_candidate E dir d n =
     (case mget d (dir @ [n]) of
        Some (FileN c m) \<Rightarrow>
          if is_tmp_name n \<or> \<not> has_suffix n ''.md'' \<or> e_faults E (StatCall (dir @ [n])) \<or>
             e_faults E (ReadFile (dir @ [n])) then None
          else (case UnmarshalTicket (e_yaml E) (e_now E) c of Inl e \<Rightarrow> None | Inr t \<Rightarrow> Some (m, t))
      | _ \<Rightarrow> None)"

abbreviation ls_disk :: "load_state \<Rightarrow> disk" where "ls_disk st \<equiv> w_disk (ls_world st)"
abbreviation ls_paths :: "load_state \<Rightarrow> (TicketID, path) gomap" where "ls_paths st \<equiv> ts_paths (ls_store st)"
abbreviation ls_tickets :: "load_state \<Rightarrow> (TicketID, ref) gomap" where "ls_tickets st \<equiv> ts_Tickets (ls_store st)"

lemma sweep_simps [simp]:
  "ls_store (sweep E p st) = ls_store st" "ls_mtimes (sweep E p st) = ls_mtimes st"
  "w_heap (ls_world (sweep E p st)) = w_heap (ls_world st)"
  "q \<noteq> p \<Longrightarrow> mget (ls_disk (sweep E p st)) q = mget (ls_disk st) q"
  using mget_os_Remove [of "e_faults E" p] by (simp_all add: sweep_def)

lemma sweep_gone: "is_file (ls_disk st) p \<Longrightarrow> \<not> e_faults E (Remove p) \<Longrightarrow> mget (ls_disk (sweep E p st)) p = None"
  by (simp add: sweep_def os_Remove_file)

lemma install_simps [simp]:
  "ls_tickets (install p m t st) = mput (t_ID t) (length (w_heap (ls_world st))) (ls_tickets st)"
  "ls_paths (install p m t st) = mput (t_ID t) p (ls_paths st)"
  "ls_mtimes (install p m t st) = mput (t_ID t) m (ls_mtimes st)"
  "ls_disk (install p m t st) = ls_disk st"
  "w_heap (ls_world (install p m t st)) = w_heap (ls_world st) @ [t]"
  by (simp_all add: install_def alloc_def)

lemma load_entry_none:
  assumes "md_candidate E dir (ls_disk st) n = None"
  shows "load_entry E pid dir n st \<in> {st, sweep E (dir @ [n]) st}"
  using assms
  by (auto simp: md_candidate_def load_entry_def Let_def os_ReadFile_def
      split: option.splits node.splits if_splits sum.splits)

lemma load_entry_some:
  assumes "md_candidate E dir (ls_disk st) n = Some (m, t0)"
  shows "load_entry E pid dir n st =
    (case mget (ls_paths st) (t_ID t0) of
       Some prev \<Rightarrow>
         if (case mget (ls_mtimes st) (t_ID t0) of None \<Rightarrow> 0 | Some m' \<Rightarrow> m') < m
         then install (dir @ [n]) m (backfill_project pid t0) (sweep E prev st)
         else sweep E (dir @ [n]) st
     | None \<Rightarrow> install (dir @ [n]) m (backfill_project pid t0) st)"
proof -
  obtain c where c: "mget (ls_disk st) (dir @ [n]) = Some (FileN c m)" "\<not> is_tmp_name n" "has_suffix n ''.md''"
    "\<not> e_faults E (StatCall (dir @ [n]))" "\<not> e_faults E (ReadFile (dir @ [n]))"
    "UnmarshalTicket (e_yaml E) (e_now E) c = Inr t0"
    using assms by (auto simp: md_candidate_def split: option.splits node.splits if_splits sum.splits)
  then have "os_ReadFile (e_faults E) (dir @ [n]) (ls_disk st) = Inr c" by (simp add: os_ReadFile_def)
  with c show ?thesis
    by (cases "mget (ls_paths st) (t_ID t0)") (simp_all add: load_entry_def Let_def)
qed

text \<open>The invariant of the walk after the entries \<open>ns\<close>: unvisited entries are untouched, every id seen is
  held by a visited file of the largest modification time, and a visited file that lost against
  another one of its id is gone, unless its removal failed.\<close>

definition entry_ok :: "io_env \<Rightarrow> string \<Rightarrow> path \<Rightarrow> disk \<Rightarrow> string list \<Rightarrow> load_state \<Rightarrow> TicketID \<Rightarrow> bool" where
  "entry_ok E pid dir d0 ns st i \<longleftrightarrow>
     (mget (ls_tickets st) i = None \<and> mget (ls_paths st) i = None \<and> mget (ls_mtimes st) i = None \<and>
        (\<forall>n \<in> set ns. \<forall>m t. md_candidate E dir d0 n = Some (m, t) \<longrightarrow> t_ID t \<noteq> i)) \<or>
     (\<exists>r m n t. mget (ls_tickets st) i = Some r \<and> mget (ls_paths st) i = Some (dir @ [n]) \<and>
        mget (ls_mtimes st) i = Some m \<and> n \<in> set ns \<and> md_candidate E dir d0 n = Some (m, t) \<and> t_ID t = i \<and>
        mget (ls_disk st) (dir @ [n]) = mget d0 (dir @ [n]) \<and> r < length (w_heap (ls_world st)) \<and>
        deref (ls_world st) r = backfill_project pid t \<and>
        (\<forall>n' \<in> set ns. \<forall>m' t'. md_candidate E dir d0 n' = Some (m', t') \<longrightarrow> t_ID t' = i \<longrightarrow> m' \<le> m))"

definition loser_gone :: "io_env \<Rightarrow> path \<Rightarrow> disk \<Rightarrow> load_state \<Rightarrow> string \<Rightarrow> bool" where
  "loser_gone E dir d0 st n \<longleftrightarrow>
     (\<forall>m t. md_candidate E dir d0 n = Some (m, t) \<longrightarrow>
        mget (ls_paths st) (t_ID t) = Some (dir @ [n]) \<or> mget (ls_disk st) (dir @ [n]) = None \<or>
        e_faults E (Remove (dir @ [n])))"

definition load_inv :: "io_env \<Rightarrow> string \<Rightarrow> path \<Rightarrow> disk \<Rightarrow> string list \<Rightarrow> load_state \<Rightarrow> bool" where
  "load_inv E pid dir d0 ns st \<longleftrightarrow>
     (\<forall>n. n \<notin> set ns \<longrightarrow> mget (ls_disk st) (dir @ [n]) = mget d0 (dir @ [n])) \<and>
     (\<forall>i. entry_ok E pid dir d0 ns st i) \<and> (\<forall>n \<in> set ns. loser_gone E dir d0 st n)"

lemma md_candidate_cong:
  "mget d (dir @ [n]) = mget d' (dir @ [n]) \<Longrightarrow> md_candidate E dir d n = md_candidate E dir d' n"
  by (simp add: md_candidate_def)

lemma md_candidate_file: "md_candidate E dir d n = Some x \<Longrightarrow> is_file d (dir @ [n])"
  by (auto simp: md_candidate_def is_file_def split: option.splits node.splits)

text \<open>Entries of ids that the step does not concern keep their place.\<close>

lemma entry_ok_keep:
  assumes "entry_ok E pid dir d0 ns st i"
    and "mget (ls_tickets st') i = mget (ls_tickets st) i" "mget (ls_paths st') i = mget (ls_paths st) i"
    and "mget (ls_mtimes st') i = mget (ls_mtimes st) i"
    and "\<And>n. mget (ls_paths st) i = Some (dir @ [n]) \<Longrightarrow> mget (ls_disk st') (dir @ [n]) = mget (ls_disk st) (dir @ [n])"
    and "\<And>r. r < length (w_heap (ls_world st)) \<Longrightarrow> r < length (w_heap (ls_world st')) \<and>
       deref (ls_world st') r = deref (ls_world st) r"
    and "\<And>m t. md_candidate E dir d0 n = Some (m, t) \<Longrightarrow> t_ID t = i \<Longrightarrow>
       \<exists>m'. mget (ls_mtimes st) i = Some m' \<and> m \<le> m'"
  shows "entry_ok E pid dir d0 (ns @ [n]) st' i"
  using assms(1) [unfolded entry_ok_def]
proof (elim disjE exE conjE)
  assume "mget (ls_tickets st) i = None" "mget (ls_paths st) i = None" "mget (ls_mtimes st) i = None"
    "\<forall>n \<in> set ns. \<forall>m t. md_candidate E dir d0 n = Some (m, t) \<longrightarrow> t_ID t \<noteq> i"
  then have "mget (ls_tickets st') i = None \<and> mget (ls_paths st') i = None \<and> mget (ls_mtimes st') i = None \<and>
      (\<forall>n \<in> set (ns @ [n]). \<forall>m t. md_candidate E dir d0 n = Some (m, t) \<longrightarrow> t_ID t \<noteq> i)"
    using assms(2-4) assms(7) by auto
  then show ?thesis unfolding entry_ok_def by (rule disjI1)
next
  fix r m k t
  assume *: "mget (ls_tickets st) i = Some r" "mget (ls_paths st) i = Some (dir @ [k])" "mget (ls_mtimes st) i = Some m"
    "k \<in> set ns" "md_candidate E dir d0 k = Some (m, t)" "t_ID t = i"
    "mget (ls_disk st) (dir @ [k]) = mget d0 (dir @ [k])" "r < length (w_heap (ls_world st))"
    "deref (ls_world st) r = backfill_project pid t"
    "\<forall>n' \<in> set ns. \<forall>m' t'. md_candidate E dir d0 n' = Some (m', t') \<longrightarrow> t_ID t' = i \<longrightarrow> m' \<le> m"
  have "\<forall>n' \<in> set (ns @ [n]). \<forall>m' t'. md_candidate E dir d0 n' = Some (m', t') \<longrightarrow> t_ID t' = i \<longrightarrow> m' \<le> m"
    using *(10) assms(7) *(3) by auto
  then show ?thesis unfolding entry_ok_def
    using * assms(2-6) by (intro disjI2 exI [of _ r] exI [of _ m] exI [of _ k] exI [of _ t]) simp
qed

lemma entry_okD:
  assumes "entry_ok E pid dir d0 ns st i" "mget (ls_paths st) i = Some p"
  obtains m k t where "p = dir @ [k]" "k \<in> set ns" "mget (ls_mtimes st) i = Some m"
    "md_candidate E dir d0 k = Some (m, t)" "t_ID t = i" "mget (ls_disk st) p = mget d0 p"
    "\<And>n' m' t'. n' \<in> set ns \<Longrightarrow> md_candidate E dir d0 n' = Some (m', t') \<Longrightarrow> t_ID t' = i \<Longrightarrow> m' \<le> m"
  using assms by (auto simp: entry_ok_def)

lemma entry_okN:
  "entry_ok E pid dir d0 ns st i \<Longrightarrow> mget (ls_paths st) i = None \<Longrightarrow> k \<in> set ns \<Longrightarrow>
     md_candidate E dir d0 k = Some (m, t) \<Longrightarrow> t_ID t \<noteq> i"
  by (auto simp: entry_ok_def)

lemma loser_gone_keep:
  assumes "loser_gone E dir d0 st k"
    and "\<And>m t. md_candidate E dir d0 k = Some (m, t) \<Longrightarrow> mget (ls_paths st') (t_ID t) = mget (ls_paths st) (t_ID t)"
    and "mget (ls_disk st) (dir @ [k]) = None \<Longrightarrow> mget (ls_disk st') (dir @ [k]) = None"
  shows "loser_gone E dir d0 st' k"
  using assms unfolding loser_gone_def by metis

lemma sweep_None: "mget (ls_disk st) q = None \<Longrightarrow> mget (ls_disk (sweep E p st)) q = None"
  using mget_os_Remove [of "e_faults E" p "ls_disk st" q] by (auto simp: sweep_def)

lemma deref_install [simp]:
  "r < length (w_heap (ls_world st)) \<Longrightarrow> deref (ls_world (install p m t (sweep E q st))) r = deref (ls_world st) r"
  "r < length (w_heap (ls_world st)) \<Longrightarrow> deref (ls_world (install p m t st)) r = deref (ls_world st) r"
  "deref (ls_world (sweep E q st)) r = deref (ls_world st) r"
  by (simp_all add: deref_def nth_append)

lemma load_step_drop:
  assumes inv: "load_inv E pid dir d0 ns st" and n: "n \<notin> set ns"
    and st': "st' = st \<or> st' = sweep E (dir @ [n]) st"
    and older: "\<And>m t. md_candidate E dir d0 n = Some (m, t) \<Longrightarrow>
      \<exists>m'. mget (ls_mtimes st) (t_ID t) = Some m' \<and> m \<le> m'"
    and gone: "loser_gone E dir d0 st' n"
  shows "load_inv E pid dir d0 (ns @ [n]) st'"
proof -
  have same: "ls_store st' = ls_store st" "ls_mtimes st' = ls_mtimes st" "w_heap (ls_world st') = w_heap (ls_world st)"
    using st' by auto
  have disk: "mget (ls_disk st') (dir @ [k]) = mget (ls_disk st) (dir @ [k])" if "k \<noteq> n" for k
    using st' that by auto
  have "entry_ok E pid dir d0 (ns @ [n]) st' i" for i
  proof (rule entry_ok_keep)
    show i: "entry_ok E pid dir d0 ns st i" using inv by (simp add: load_inv_def)
    fix k assume "mget (ls_paths st) i = Some (dir @ [k])"
    with i have "k \<in> set ns" by (rule entry_okD) simp
    with n disk show "mget (ls_disk st') (dir @ [k]) = mget (ls_disk st) (dir @ [k])" by metis
  next
    fix m t assume "md_candidate E dir d0 n = Some (m, t)" "t_ID t = i"
    then show "\<exists>m'. mget (ls_mtimes st) i = Some m' \<and> m \<le> m'" using older by blast
  qed (simp_all add: same deref_def)
  moreover have "loser_gone E dir d0 st' k" if "k \<in> set ns" for k
  proof (rule loser_gone_keep)
    show "loser_gone E dir d0 st k" using inv that by (simp add: load_inv_def)
    show "mget (ls_disk st) (dir @ [k]) = None \<Longrightarrow> mget (ls_disk st') (dir @ [k]) = None"
      using disk [of k] that n by metis
  qed (simp add: same)
  ultimately show ?thesis
    using inv disk gone by (auto simp: load_inv_def)
qed

lemma load_step_install:
  assumes inv: "load_inv E pid dir d0 ns st" and n: "n \<notin> set ns"
    and c: "md_candidate E dir d0 n = Some (m, t)"
    and st0: "(mget (ls_paths st) (t_ID t) = None \<and> st0 = st) \<or>
      (\<exists>prev m'. mget (ls_paths st) (t_ID t) = Some prev \<and> mget (ls_mtimes st) (t_ID t) = Some m' \<and> m' < m \<and>
         st0 = sweep E prev st)"
  shows "load_inv E pid dir d0 (ns @ [n]) (install (dir @ [n]) m (backfill_project pid t) st0)"
proof -
  let ?st' = "install (dir @ [n]) m (backfill_project pid t) st0"
  have eok: "entry_ok E pid dir d0 ns st i" for i using inv by (simp add: load_inv_def)
  have same: "ls_store st0 = ls_store st" "ls_mtimes st0 = ls_mtimes st" "w_heap (ls_world st0) = w_heap (ls_world st)"
    using st0 by auto
  have none: "mget (ls_disk st) q = None \<Longrightarrow> mget (ls_disk st0) q = None" for q
    using st0 sweep_None by metis
  have winner: "\<exists>k mk tk. mget (ls_paths st) (t_ID t) = Some (dir @ [k]) \<and> k \<in> set ns \<and>
      md_candidate E dir d0 k = Some (mk, tk) \<and> t_ID tk = t_ID t \<and> st0 = sweep E (dir @ [k]) st \<and>
      mget (ls_disk st) (dir @ [k]) = mget d0 (dir @ [k])"
    if ne: "st0 \<noteq> st"
  proof -
    obtain prev where "mget (ls_paths st) (t_ID t) = Some prev" "st0 = sweep E prev st" using st0 ne by auto
    with entry_okD [OF eok this(1)] show ?thesis by metis
  qed
  have disk: "mget (ls_disk st0) (dir @ [j]) = mget (ls_disk st) (dir @ [j])"
    if noid: "\<And>mj tj. md_candidate E dir d0 j = Some (mj, tj) \<Longrightarrow> j \<in> set ns \<Longrightarrow> t_ID tj \<noteq> t_ID t" for j
  proof (cases "st0 = st")
    case False
    then obtain k where "st0 = sweep E (dir @ [k]) st" "j \<noteq> k" using winner noid by metis
    then show ?thesis by simp
  qed simp
  have other: "entry_ok E pid dir d0 (ns @ [n]) ?st' i" if i: "i \<noteq> t_ID t" for i
  proof (rule entry_ok_keep [OF eok])
    fix k assume k: "mget (ls_paths st) i = Some (dir @ [k])"
    obtain m' t' where "md_candidate E dir d0 k = Some (m', t')" "t_ID t' = i"
      using entry_okD [OF eok k] by (metis append1_eq_conv)
    then show "mget (ls_disk ?st') (dir @ [k]) = mget (ls_disk st) (dir @ [k])" using disk [of k] i by auto
  next
    fix r assume "r < length (w_heap (ls_world st))"
    then show "r < length (w_heap (ls_world ?st')) \<and> deref (ls_world ?st') r = deref (ls_world st) r"
      by (simp add: same deref_def nth_append)
  qed (use i c in \<open>auto simp: same\<close>)
  have mine: "entry_ok E pid dir d0 (ns @ [n]) ?st' (t_ID t)"
  proof -
    have le: "m' \<le> m" if a: "n' \<in> set (ns @ [n])" "md_candidate E dir d0 n' = Some (m', t')" "t_ID t' = t_ID t" for n' m' t'
    proof (cases "n' = n")
      case False
      then have n': "n' \<in> set ns" using a by simp
      show ?thesis
      proof (cases "mget (ls_paths st) (t_ID t)")
        case None
        then show ?thesis using entry_okN [OF eok None n' a(2)] a(3) by simp
      next
        case (Some p)
        then obtain m1 where "mget (ls_mtimes st) (t_ID t) = Some m1" "m1 < m" using st0 by auto
        moreover from entry_okD [OF eok Some] have "mget (ls_mtimes st) (t_ID t) = Some m2 \<Longrightarrow> m' \<le> m2" for m2
          using n' a by (metis option.inject)
        ultimately show ?thesis by fastforce
      qed
    qed (use a c in simp)
    have "mget (ls_disk st0) (dir @ [n]) = mget (ls_disk st) (dir @ [n])" by (rule disk) (use n in simp)
    then have d: "mget (ls_disk st0) (dir @ [n]) = mget d0 (dir @ [n])" using inv n by (simp add: load_inv_def)
    show ?thesis unfolding entry_ok_def
      using le c d
      by (intro disjI2 exI [of _ "length (w_heap (ls_world st0))"] exI [of _ m] exI [of _ n] exI [of _ t])
        (auto simp: deref_def)
  qed
  have lose: "loser_gone E dir d0 ?st' k" if k: "k \<in> set ns" for k
  proof -
    have lk: "loser_gone E dir d0 st k" using inv k by (simp add: load_inv_def)
    show ?thesis unfolding loser_gone_def
    proof (intro allI impI)
      fix mk tk assume ck: "md_candidate E dir d0 k = Some (mk, tk)"
      show "mget (ls_paths ?st') (t_ID tk) = Some (dir @ [k]) \<or> mget (ls_disk ?st') (dir @ [k]) = None \<or>
          e_faults E (Remove (dir @ [k]))"
      proof (cases "t_ID tk = t_ID t")
        case False
        then show ?thesis using lk ck none [of "dir @ [k]"] by (auto simp: loser_gone_def same)
      next
        case True
        then have "mget (ls_paths st) (t_ID t) \<noteq> None" using entry_okN [OF eok _ k ck] by auto
        then have "st0 \<noteq> st \<or> ls_disk st0 = ls_disk st" by simp
        show ?thesis
        proof (cases "mget (ls_paths st) (t_ID t) = Some (dir @ [k])")
          case w: True
          then have s: "st0 = sweep E (dir @ [k]) st" using st0 by auto
          have "mget (ls_disk st) (dir @ [k]) = mget d0 (dir @ [k])" by (rule entry_okD [OF eok w])
          then have "is_file (ls_disk st) (dir @ [k])"
            using md_candidate_file [OF ck] by (simp add: is_file_def)
          then show ?thesis using sweep_gone [of st "dir @ [k]" E] s by auto
        next
          case False
          then show ?thesis using lk ck True none [of "dir @ [k]"] by (auto simp: loser_gone_def)
        qed
      qed
    qed
  qed
  have "loser_gone E dir d0 ?st' n" using c by (simp add: loser_gone_def)
  moreover have "mget (ls_disk ?st') (dir @ [j]) = mget d0 (dir @ [j])" if "j \<notin> set (ns @ [n])" for j
    using disk [of j] that inv by (auto simp: load_inv_def)
  moreover have "entry_ok E pid dir d0 (ns @ [n]) ?st' i" for i
    using other mine by (cases "i = t_ID t") simp_all
  ultimately show ?thesis using lose by (simp add: load_inv_def)
qed

lemma load_step:
  assumes inv: "load_inv E pid dir d0 ns st" and n: "n \<notin> set ns"
  shows "load_inv E pid dir d0 (ns @ [n]) (load_entry E pid dir n st)"
proof -
  have same: "md_candidate E dir (ls_disk st) n = md_candidate E dir d0 n"
    using inv n by (intro md_candidate_cong) (simp add: load_inv_def)
  show ?thesis
  proof (cases "md_candidate E dir d0 n")
    case None
    with load_entry_none [of E dir st n pid] same
    have "load_entry E pid dir n st = st \<or> load_entry E pid dir n st = sweep E (dir @ [n]) st" by simp
    then show ?thesis
      by (rule load_step_drop [OF inv n]) (use None in \<open>simp_all add: loser_gone_def\<close>)
  next
    case (Some x)
    then obtain m t where c: "md_candidate E dir d0 n = Some (m, t)" by (cases x) auto
    note eq = load_entry_some [OF same [THEN trans, OF c], of pid]
    show ?thesis
    proof (cases "mget (ls_paths st) (t_ID t)")
      case None
      then show ?thesis
        unfolding eq using load_step_install [OF inv n c, of st] by simp
    next
      case (Some prev)
      have "entry_ok E pid dir d0 ns st (t_ID t)" using inv by (simp add: load_inv_def)
      then obtain m' where m': "mget (ls_mtimes st) (t_ID t) = Some m'"
        using Some by (rule entry_okD)
      show ?thesis
      proof (cases "m' < m")
        case True
        then show ?thesis
          unfolding eq using load_step_install [OF inv n c, of "sweep E prev st"] Some m' by simp
      next
        case False
        have "is_file (ls_disk st) (dir @ [n])" using md_candidate_file same c by metis
        then have "loser_gone E dir d0 (sweep E (dir @ [n]) st) n"
          using sweep_gone [of st "dir @ [n]" E] by (auto simp: loser_gone_def)
        then have "load_inv E pid dir d0 (ns @ [n]) (sweep E (dir @ [n]) st)"
          using load_step_drop [OF inv n, of "sweep E (dir @ [n]) st" ] c m' False by simp
        then show ?thesis unfolding eq using Some m' False by simp
      qed
    qed
  qed
qed

lemma load_fold:
  "load_inv E pid dir d0 ns st \<Longrightarrow> distinct (ns @ names) \<Longrightarrow>
     load_inv E pid dir d0 (ns @ names) (fold (load_entry E pid dir) names st)"
proof (induction names arbitrary: ns st)
  case (Cons n names)
  then have "load_inv E pid dir d0 (ns @ [n]) (load_entry E pid dir n st)" by (intro load_step) auto
  from Cons.IH [OF this] Cons.prems(2) show ?case by simp
qed simp

lemma load_dir_inv:
  assumes "load_dir E project w = (w', Inr s)"
  defines "dir \<equiv> ticketsDir @ [p_ID project]"
  shows "\<exists>mt. load_inv E (p_ID project) dir (w_disk w) (children (w_disk w) dir)
    \<lparr>ls_store = s, ls_world = w', ls_mtimes = mt\<rparr>"
proof -
  let ?st = "\<lparr>ls_store = NewTicketStore (e_now E) (p_ID project) (p_RepoPath project), ls_world = w, ls_mtimes = []\<rparr>"
  let ?st' = "fold (load_entry E (p_ID project) dir) (children (w_disk w) dir) ?st"
  have dir: "ticketDir (NewTicketStore (e_now E) (p_ID project) (p_RepoPath project)) = dir"
    by (simp add: dir_def ticketDir_def NewTicketStore_def)
  have r: "w' = ls_world ?st'" "s = (ls_store ?st')\<lparr>ts_UpdatedAt := e_now E\<rparr>"
    using assms(1) by (auto simp: load_dir_def Let_def dir os_ReadDir_def split: if_splits option.splits node.splits)
  have "load_inv E (p_ID project) dir (w_disk w) [] ?st"
    by (simp add: load_inv_def entry_ok_def NewTicketStore_def)
  from load_fold [OF this, of "children (w_disk w) dir"]
  have "load_inv E (p_ID project) dir (w_disk w) (children (w_disk w) dir) ?st'" by simp
  then show ?thesis
    by (intro exI [of _ "ls_mtimes ?st'"]) (simp add: r load_inv_def entry_ok_def loser_gone_def)
qed

lemma md_candidate_child: "md_candidate E dir d n = Some x \<Longrightarrow> n \<in> set (children d dir)"
  by (rule in_children) (auto simp: md_candidate_def split: option.splits)

section \<open>Properties\<close>

definition example_store :: TicketStore where
  "example_store = NewTicketStore 5 ''p'' ''/repo''"

definition example_data :: string where
  "example_data = (case MarshalTicket example_yaml (Some example_ticket) of Inl e \<Rightarrow> [] | Inr data \<Rightarrow> data)"

definition example_world :: world where
  "example_world = \<lparr>w_heap = [example_ticket],
     w_disk = [(ticketsDir, DirN), (ticketsDir @ [''p''], DirN),
       (ticketsDir @ [''p'', ''a.md''], FileN example_data 7), (ticketsDir @ [''p'', ''b.md''], FileN example_data 8),
       (ticketsDir @ [''p'', ''c.md.tmp-1''], FileN ''x'' 6)],
     w_settings = []\<rparr>"

text \<open>Hot-reload safety: whatever fails, saving a ticket leaves every file that exists alone, except the
  ticket's own target file and the file it was last saved to or loaded from.\<close>

theorem SaveTicket_isolation:
  assumes "SaveTicket E (Some r) s w = (s', w', res)" and "mget (w_disk w) q = Some n"
    and "q \<noteq> ticketDir s @ [TicketFilename (deref w r)]"
    and "mget (ts_paths s) (t_ID (deref w r)) \<noteq> Some q"
  shows "mget (w_disk w') q = Some n"
  using assms(1)
proof (cases rule: SaveTicket_cases)
  case (error e)
  then show ?thesis using assms(2) by simp
next
  case (ok data)
  then show ?thesis using ok(7) [of q] assms by simp
qed

theorem SaveTicket_isolation_witness:
  "mget (w_disk (fst (snd (SaveTicket mig_example_env (Some 0) example_store example_world))))
     (ticketsDir @ [''p'', ''a.md'']) = Some (FileN example_data 7)"
proof -
  let ?r = "SaveTicket mig_example_env (Some 0) example_store example_world"
  have r: "?r = (fst ?r, fst (snd ?r), snd (snd ?r))" by simp
  have f: "TicketFilename (deref example_world 0) = ''fix-it-0a1b2c3d.md''" by code_simp
  show ?thesis
    by (rule SaveTicket_isolation [OF r])
      (simp_all add: f, simp_all add: example_world_def example_store_def ticketDir_def NewTicketStore_def ticketsDir_def)
qed

text \<open>C39: A save is all or nothing: if it reports an error, the store's maps are as before and every existing
  file, the ticket's own one included, has its old content; if it reports success, the target file
  holds the whole marshalled ticket and the store points to it.\<close>

theorem SaveTicket_atomic:
  assumes "SaveTicket E (Some r) s w = (s', w', res)"
  shows "if res = None
    then mget (ts_paths s') (t_ID (deref w r)) = Some (ticketDir s @ [TicketFilename (deref w r)]) \<and>
         mget (ts_Tickets s') (t_ID (deref w r)) = Some r \<and>
         (\<exists>data. MarshalTicket (e_yaml E) (Some (backfill_project (ts_ProjectID s) (deref w r))) = Inr data \<and>
            mget (w_disk w') (ticketDir s @ [TicketFilename (deref w r)]) = Some (FileN data (e_now E)))
    else s' = s \<and> (\<forall>q \<in> fst ` set (w_disk w). mget (w_disk w') q = mget (w_disk w) q)"
  using assms
proof (cases rule: SaveTicket_cases)
  case (error e)
  then have "mget (w_disk w') q = mget (w_disk w) q" if "q \<in> fst ` set (w_disk w)" for q
    using that by (simp add: mget_None)
  with error show ?thesis by simp
qed simp

text \<open>A loaded directory resolves duplicate ids to the newest file: a ticket of the store was parsed from
  the file its path names, which is on disk unchanged, and no readable ticket file of the directory
  with that id was newer; every readable ticket file's id is in the store.\<close>

theorem load_dir_newest:
  assumes "load_dir E project w = (w', Inr s)"
    and "md_candidate E (ticketsDir @ [p_ID project]) (w_disk w) n = Some (m, t)"
  shows "\<exists>r k mk tk. mget (ts_Tickets s) (t_ID t) = Some r \<and>
    mget (ts_paths s) (t_ID t) = Some (ticketsDir @ [p_ID project, k]) \<and>
    md_candidate E (ticketsDir @ [p_ID project]) (w_disk w) k = Some (mk, tk) \<and> t_ID tk = t_ID t \<and> m \<le> mk \<and>
    mget (w_disk w') (ticketsDir @ [p_ID project, k]) = mget (w_disk w) (ticketsDir @ [p_ID project, k]) \<and>
    deref w' r = backfill_project (p_ID project) tk"
proof -
  let ?dir = "ticketsDir @ [p_ID project]"
  obtain mt where inv: "load_inv E (p_ID project) ?dir (w_disk w) (children (w_disk w) ?dir)
      \<lparr>ls_store = s, ls_world = w', ls_mtimes = mt\<rparr>" (is "load_inv _ _ _ _ _ ?st")
    using load_dir_inv [OF assms(1)] by blast
  have n: "n \<in> set (children (w_disk w) ?dir)" using assms(2) by (rule md_candidate_child)
  have "entry_ok E (p_ID project) ?dir (w_disk w) (children (w_disk w) ?dir) ?st (t_ID t)"
    using inv by (simp add: load_inv_def)
  moreover have "mget (ts_Tickets s) (t_ID t) \<noteq> None"
    using calculation n assms(2) by (auto simp: entry_ok_def)
  ultimately obtain r mk k tk where "mget (ts_Tickets s) (t_ID t) = Some r"
    "mget (ts_paths s) (t_ID t) = Some (?dir @ [k])" "md_candidate E ?dir (w_disk w) k = Some (mk, tk)"
    "t_ID tk = t_ID t" "mget (w_disk w') (?dir @ [k]) = mget (w_disk w) (?dir @ [k])"
    "deref w' r = backfill_project (p_ID project) tk"
    "\<forall>n' \<in> set (children (w_disk w) ?dir). \<forall>m' t'. md_candidate E ?dir (w_disk w) n' = Some (m', t') \<longrightarrow>
       t_ID t' = t_ID t \<longrightarrow> m' \<le> mk"
    unfolding entry_ok_def by auto
  moreover from this(7) n assms(2) have "m \<le> mk" by blast
  ultimately show ?thesis
    by (intro exI [of _ r] exI [of _ k] exI [of _ mk] exI [of _ tk]) simp
qed

definition example_project :: Project where
  "example_project = NewProject 5 ''p'' ''demo'' ''/repo''"

lemma load_example:
  "md_candidate mig_example_env (ticketsDir @ [p_ID example_project]) (w_disk example_world) ''a.md'' =
     Some (7, example_ticket\<lparr>t_Description := trim_nl (t_Description example_ticket)\<rparr>)"
  "md_candidate mig_example_env (ticketsDir @ [p_ID example_project]) (w_disk example_world) ''b.md'' =
     Some (8, example_ticket\<lparr>t_Description := trim_nl (t_Description example_ticket)\<rparr>)"
  "\<exists>w' s. load_dir mig_example_env example_project example_world = (w', Inr s) \<and>
     mget (ts_paths s) (t_ID example_ticket) = Some (ticketsDir @ [''p'', ''b.md''])"
proof -
  show "md_candidate mig_example_env (ticketsDir @ [p_ID example_project]) (w_disk example_world) ''a.md'' =
     Some (7, example_ticket\<lparr>t_Description := trim_nl (t_Description example_ticket)\<rparr>)" by code_simp
  show "md_candidate mig_example_env (ticketsDir @ [p_ID example_project]) (w_disk example_world) ''b.md'' =
     Some (8, example_ticket\<lparr>t_Description := trim_nl (t_Description example_ticket)\<rparr>)" by code_simp
  have "(case load_dir mig_example_env example_project example_world of
      (w', Inl e) \<Rightarrow> False
    | (w', Inr s) \<Rightarrow> mget (ts_paths s) (t_ID example_ticket) = Some (ticketsDir @ [''p'', ''b.md'']))"
    by code_simp
  then show "\<exists>w' s. load_dir mig_example_env example_project example_world = (w', Inr s) \<and>
     mget (ts_paths s) (t_ID example_ticket) = Some (ticketsDir @ [''p'', ''b.md''])"
    by (auto split: prod.splits sum.splits)
qed

theorem load_dir_newest_witness:
  "\<exists>w' s r. load_dir mig_example_env example_project example_world = (w', Inr s) \<and>
     mget (ts_Tickets s) (t_ID example_ticket) = Some r \<and> t_ID (deref w' r) = t_ID example_ticket"
proof -
  obtain w' s where l: "load_dir mig_example_env example_project example_world = (w', Inr s)"
    using load_example(3) by blast
  from load_dir_newest [OF l load_example(1)] l show ?thesis by fastforce
qed

theorem SaveTicket_atomic_witness:
  "mget (w_disk (fst (snd (SaveTicket mig_example_env (Some 0) example_store example_world))))
     (ticketsDir @ [''p'', ''fix-it-0a1b2c3d.md'']) = Some (FileN example_data 9)"
proof -
  let ?r = "SaveTicket mig_example_env (Some 0) example_store example_world"
  have r: "?r = (fst ?r, fst (snd ?r), snd (snd ?r))" by simp
  have ok: "snd (snd ?r) = None" by code_simp
  have f: "TicketFilename (deref example_world 0) = ''fix-it-0a1b2c3d.md''" by code_simp
  have b: "backfill_project (ts_ProjectID example_store) (deref example_world 0) = example_ticket" by code_simp
  have e: "e_yaml mig_example_env = example_yaml" "e_now mig_example_env = 9" by (simp_all add: mig_example_env_def)
  have d: "ticketDir example_store = ticketsDir @ [''p'']"
    by (simp add: example_store_def ticketDir_def NewTicketStore_def)
  from SaveTicket_atomic [OF r] show ?thesis
    by (auto simp: ok f b e d example_data_def)
qed

text \<open>After a load no two readable ticket files of the directory share an id, unless the removal of the
  older one failed: a readable file that is left is the one the store points to.\<close>

theorem load_dir_no_duplicates:
  assumes "load_dir E project w = (w', Inr s)"
    and "md_candidate E (ticketsDir @ [p_ID project]) (w_disk w) n = Some (m, t)"
    and "mget (w_disk w') (ticketsDir @ [p_ID project, n]) \<noteq> None"
    and "\<not> e_faults E (Remove (ticketsDir @ [p_ID project, n]))"
  shows "mget (ts_paths s) (t_ID t) = Some (ticketsDir @ [p_ID project, n])"
proof -
  let ?dir = "ticketsDir @ [p_ID project]"
  obtain mt where inv: "load_inv E (p_ID project) ?dir (w_disk w) (children (w_disk w) ?dir)
      \<lparr>ls_store = s, ls_world = w', ls_mtimes = mt\<rparr>"
    using load_dir_inv [OF assms(1)] by blast
  have "n \<in> set (children (w_disk w) ?dir)" using assms(2) by (rule md_candidate_child)
  then show ?thesis
    using inv assms(2-4) by (fastforce simp: load_inv_def loser_gone_def)
qed

theorem load_dir_no_duplicates_witness:
  "\<exists>w' s. load_dir mig_example_env example_project example_world = (w', Inr s) \<and>
     mget (w_disk w') (ticketsDir @ [''p'', ''a.md'']) = None"
proof -
  obtain w' s where l: "load_dir mig_example_env example_project example_world = (w', Inr s)"
    "mget (ts_paths s) (t_ID example_ticket) = Some (ticketsDir @ [''p'', ''b.md''])"
    using load_example(3) by blast
  have "\<not> e_faults mig_example_env c" "p_ID example_project = ''p''" for c
    by (simp_all add: mig_example_env_def example_project_def NewProject_def)
  with load_dir_no_duplicates [OF l(1) load_example(1)] l(2)
  have "mget (w_disk w') (ticketsDir @ [''p'', ''a.md'']) = None" by (cases "mget (w_disk w') (ticketsDir @ [''p'', ''a.md''])") auto
  with l(1) show ?thesis by blast
qed

end
