(* ===== verification/GlobalStore.thy ===== *)
theory GlobalStore
  imports TicketStore Workflow
begin

text \<open>
  \<^verbatim>\<open>internal/project/tickets.go\<close>, the type \<^verbatim>\<open>GlobalTicketStore\<close>: the index of all tickets over the
  stores of the projects.  An operation takes the store and the world and returns both.  The
  theory ends with the interpretation of the lookup interface of the workflow gate.
\<close>

record GlobalStore =
  g_registry :: ProjectRegistry
  g_projects :: "(string, Project) gomap"
  g_stores :: "(string, TicketStore) gomap"
  g_all :: "(TicketID, ref) gomap"

datatype global_error = GE_not_found | GE_store store_error | GE_reg reg_error | GE_io io_error

definition set_store :: "string \<Rightarrow> TicketStore \<Rightarrow> GlobalStore \<Rightarrow> GlobalStore" where
  "set_store pid s g = g\<lparr>g_stores := mput pid s (g_stores g)\<rparr>"

definition NewGlobalTicketStore :: "ProjectRegistry \<Rightarrow> GlobalStore" where
  "NewGlobalTicketStore registry = \<lparr>g_registry = registry, g_projects = [], g_stores = [], g_all = []\<rparr>"

text \<open>Enter a loaded project store and its tickets into the index.\<close>

definition index_store :: "Project \<Rightarrow> TicketStore \<Rightarrow> GlobalStore \<Rightarrow> GlobalStore" where
  "index_store p s g =
     g\<lparr>g_projects := mput (p_ID p) p (g_projects g), g_stores := mput (p_ID p) s (g_stores g),
       g_all := fold (\<lambda>(i, r) a. mput i r a) (ts_Tickets s) (g_all g)\<rparr>"

fun load_projects :: "io_env \<Rightarrow> Project list \<Rightarrow> GlobalStore \<Rightarrow> world \<Rightarrow> GlobalStore \<times> world" where
  "load_projects E [] g w = (g, w)"
| "load_projects E (p # ps) g w =
     (case LoadTicketStore E p w of
        (w1, Inl e) \<Rightarrow> load_projects E ps g w1
      | (w1, Inr s) \<Rightarrow> load_projects E ps (index_store p s g) w1)"

definition LoadGlobalTicketStore :: "io_env \<Rightarrow> ProjectRegistry \<Rightarrow> world \<Rightarrow> GlobalStore \<times> world" where
  "LoadGlobalTicketStore E registry w =
     load_projects E (map snd registry) (NewGlobalTicketStore registry) w"

section \<open>Queries\<close>

definition GetProject :: "string \<Rightarrow> GlobalStore \<Rightarrow> Project option" where
  "GetProject i g = mget (g_projects g) i"

definition GetProjectForTicket :: "ref \<Rightarrow> GlobalStore \<Rightarrow> world \<Rightarrow> Project option" where
  "GetProjectForTicket r g w = mget (g_projects g) (t_ProjectID (deref w r))"

definition GetStoreForTicket :: "ref \<Rightarrow> GlobalStore \<Rightarrow> world \<Rightarrow> TicketStore option" where
  "GetStoreForTicket r g w = mget (g_stores g) (t_ProjectID (deref w r))"

definition Global_Get :: "TicketID \<Rightarrow> GlobalStore \<Rightarrow> global_error + ref" where
  "Global_Get i g = (case mget (g_all g) i of None \<Rightarrow> Inl GE_not_found | Some r \<Rightarrow> Inr r)"

definition FindByAgentSessionID :: "string \<Rightarrow> GlobalStore \<Rightarrow> world \<Rightarrow> ref list" where
  "FindByAgentSessionID uuid g w =
     (if uuid = [] then []
      else filter (\<lambda>r. t_AgentSessionID (deref w r) = uuid) (map snd (g_all g)))"

definition Global_GetByStatus :: "TicketStatus \<Rightarrow> GlobalStore \<Rightarrow> world \<Rightarrow> ref list" where
  "Global_GetByStatus status g w = filter (\<lambda>r. t_Status (deref w r) = status) (map snd (g_all g))"

definition Global_All :: "GlobalStore \<Rightarrow> ref list" where
  "Global_All g = map snd (g_all g)"

definition Global_Count :: "GlobalStore \<Rightarrow> nat" where
  "Global_Count g = length (g_all g)"

definition Projects :: "GlobalStore \<Rightarrow> Project list" where
  "Projects g = sort_key p_Name (map snd (g_projects g))"

definition HasProjects :: "GlobalStore \<Rightarrow> bool" where
  "HasProjects g \<longleftrightarrow> length (g_projects g) > 0"

definition HasProject :: "string \<Rightarrow> GlobalStore \<Rightarrow> bool" where
  "HasProject i g \<longleftrightarrow> mget (g_projects g) i \<noteq> None"

definition GetBlockedBy :: "TicketID \<Rightarrow> GlobalStore \<Rightarrow> world \<Rightarrow> ref list" where
  "GetBlockedBy i g w =
     (case mget (g_all g) i of
        None \<Rightarrow> []
      | Some r \<Rightarrow> List.map_filter (\<lambda>b. mget (g_all g) b) (t_BlockedBy (deref w r)))"

definition GetBlocks :: "TicketID \<Rightarrow> GlobalStore \<Rightarrow> world \<Rightarrow> ref list" where
  "GetBlocks i g w = filter (\<lambda>r. list_ex (\<lambda>b. b = i) (t_BlockedBy (deref w r))) (map snd (g_all g))"

definition PathOf :: "TicketID \<Rightarrow> GlobalStore \<Rightarrow> world \<Rightarrow> path option" where
  "PathOf i g w =
     (case mget (g_all g) i of
        None \<Rightarrow> None
      | Some r \<Rightarrow>
          (case mget (g_stores g) (t_ProjectID (deref w r)) of
             None \<Rightarrow> None
           | Some s \<Rightarrow> mget (ts_paths s) i))"

section \<open>Updates\<close>

definition Global_Add :: "ref \<Rightarrow> GlobalStore \<Rightarrow> world \<Rightarrow> GlobalStore \<times> world \<times> global_error option" where
  "Global_Add r g w =
     (let pid = t_ProjectID (deref w r) in
      case mget (g_stores g) pid of
        None \<Rightarrow> (g, w, Some GE_not_found)
      | Some s \<Rightarrow>
          (case Store_Add r s w of (s1, w1) \<Rightarrow>
             ((set_store pid s1 g)\<lparr>g_all := mput (t_ID (deref w r)) r (g_all g)\<rparr>, w1, None)))"

definition Global_Delete :: "io_env \<Rightarrow> TicketID \<Rightarrow> GlobalStore \<Rightarrow> world \<Rightarrow> GlobalStore \<times> world \<times> global_error option" where
  "Global_Delete E i g w =
     (case mget (g_all g) i of
        None \<Rightarrow> (g, w, Some GE_not_found)
      | Some r \<Rightarrow>
          let pid = t_ProjectID (deref w r) in
          (case mget (g_stores g) pid of
             None \<Rightarrow> (g\<lparr>g_all := mdel i (g_all g)\<rparr>, w, None)
           | Some s \<Rightarrow>
               (case Store_Delete E i s w of
                  (s1, w1, Some e) \<Rightarrow> (set_store pid s1 g, w1, Some (GE_store e))
                | (s1, w1, None) \<Rightarrow> ((set_store pid s1 g)\<lparr>g_all := mdel i (g_all g)\<rparr>, w1, None))))"

definition Global_Move :: "io_env \<Rightarrow> review_env \<Rightarrow> (string \<Rightarrow> bool) \<Rightarrow> TicketID \<Rightarrow> TicketStatus \<Rightarrow> GlobalStore \<Rightarrow>
    world \<Rightarrow> world \<times> string list \<times> PruneRecord list \<times> global_error option" where
  "Global_Move E RE gi i newStatus g w =
     (case mget (g_all g) i of
        None \<Rightarrow> (w, [], [], Some GE_not_found)
      | Some r \<Rightarrow>
          (case mget (g_stores g) (t_ProjectID (deref w r)) of
             None \<Rightarrow> (w, [], [], None)
           | Some s \<Rightarrow>
               (case Store_Move E RE gi i newStatus s w of
                  (w1, added, pruned, e) \<Rightarrow> (w1, added, pruned, map_option GE_store e))))"

definition MoveProject :: "io_env \<Rightarrow> TicketID \<Rightarrow> string \<Rightarrow> GlobalStore \<Rightarrow> world \<Rightarrow> GlobalStore \<times> world \<times> global_error option" where
  "MoveProject E i newPid g w =
     (case mget (g_all g) i of
        None \<Rightarrow> (g, w, Some GE_not_found)
      | Some r \<Rightarrow>
          let oldPid = t_ProjectID (deref w r) in
          if oldPid = newPid then (g, w, None)
          else (case mget (g_stores g) newPid of
              None \<Rightarrow> (g, w, Some (GE_reg ErrProjectNotFound))
            | Some dst \<Rightarrow>
                if t_WorktreePath (deref w r) \<noteq> [] then (g, w, Some (GE_reg ErrTicketHasWorktree))
                else
                  (case (case mget (g_stores g) oldPid of
                           None \<Rightarrow> (g, w, None)
                         | Some src \<Rightarrow>
                             (case Store_Delete E i src w of (s1, w1, e) \<Rightarrow> (set_store oldPid s1 g, w1, e))) of
                     (g1, w1, Some e) \<Rightarrow> (g1, w1, Some (GE_store e))
                   | (g1, w1, None) \<Rightarrow>
                       let w2 = set_ticket r (Touch (e_now E) ((deref w1 r)\<lparr>t_ProjectID := newPid\<rparr>)) w1
                       in (case SaveTicket E (Some r) dst w2 of
                             (s2, w3, e) \<Rightarrow> (set_store newPid s2 g1, w3, map_option GE_store e)))))"

definition Global_Save :: "io_env \<Rightarrow> ref \<Rightarrow> GlobalStore \<Rightarrow> world \<Rightarrow> GlobalStore \<times> world \<times> global_error option" where
  "Global_Save E r g w =
     (let pid = t_ProjectID (deref w r) in
      case mget (g_stores g) pid of
        None \<Rightarrow> (g, w, Some GE_not_found)
      | Some s \<Rightarrow>
          (case SaveTicket E (Some r) s w of
             (s1, w1, e) \<Rightarrow> (set_store pid s1 g, w1, map_option GE_store e)))"

fun save_stores :: "io_env \<Rightarrow> string list \<Rightarrow> GlobalStore \<Rightarrow> world \<Rightarrow> GlobalStore \<times> world \<times> global_error option" where
  "save_stores E [] g w = (g, w, None)"
| "save_stores E (pid # pids) g w =
     (case mget (g_stores g) pid of
        None \<Rightarrow> save_stores E pids g w
      | Some s \<Rightarrow>
          (case Store_SaveAll E s w of
             (s1, w1, Some e) \<Rightarrow> (set_store pid s1 g, w1, Some (GE_store e))
           | (s1, w1, None) \<Rightarrow> save_stores E pids (set_store pid s1 g) w1))"

definition Global_SaveAll :: "io_env \<Rightarrow> GlobalStore \<Rightarrow> world \<Rightarrow> GlobalStore \<times> world \<times> global_error option" where
  "Global_SaveAll E g w = save_stores E (map fst (g_stores g)) g w"

definition AddProject :: "io_env \<Rightarrow> Project \<Rightarrow> GlobalStore \<Rightarrow> GlobalStore" where
  "AddProject E p g =
     g\<lparr>g_projects := mput (p_ID p) p (g_projects g),
       g_stores := mput (p_ID p) (NewTicketStore (e_now E) (p_ID p) (p_RepoPath p)) (g_stores g)\<rparr>"

definition AddProjectAndLoad :: "io_env \<Rightarrow> Project \<Rightarrow> GlobalStore \<Rightarrow> world \<Rightarrow> GlobalStore \<times> world \<times> global_error option" where
  "AddProjectAndLoad E p g w =
     (case LoadTicketStore E p w of
        (w1, Inl e) \<Rightarrow> (AddProject E p g, w1, Some (GE_store e))
      | (w1, Inr s) \<Rightarrow> (index_store p s g, w1, None))"

definition archivePath :: "io_env \<Rightarrow> string \<Rightarrow> path" where
  "archivePath E i = ticketsDir @ [''archived'', i @ ''_'' @ format_int (unix_seconds (e_now E))]"

definition archive_dir :: "io_env \<Rightarrow> string \<Rightarrow> disk \<Rightarrow> disk \<times> io_error option" where
  "archive_dir E i d =
     (if os_Exists (e_faults E) (ticketsDir @ [i]) d then
        (case os_MkdirAll (e_faults E) (ticketsDir @ [''archived'']) d of
           (d1, Some e) \<Rightarrow> (d1, Some e)
         | (d1, None) \<Rightarrow> os_Rename (e_faults E) (ticketsDir @ [i]) (archivePath E i) d1)
      else (d, None))"

definition RemoveProject :: "io_env \<Rightarrow> ProjectRegistry json_lib \<Rightarrow> string \<Rightarrow> GlobalStore \<Rightarrow> world \<Rightarrow>
    GlobalStore \<times> world \<times> global_error option" where
  "RemoveProject E J i g w =
     (if mget (g_projects g) i = None then (g, w, Some (GE_reg ErrProjectNotFound))
      else case archive_dir E i (w_disk w) of
        (d1, Some e) \<Rightarrow> (g, w\<lparr>w_disk := d1\<rparr>, Some (GE_io e))
      | (d1, None) \<Rightarrow>
          let w1 = w\<lparr>w_disk := d1\<rparr>;
              all' = filter (\<lambda>(j, r). t_ProjectID (deref w r) \<noteq> i) (g_all g)
          in (case Registry_Delete E J i (g_registry g) d1 of
                (reg, d2, e) \<Rightarrow>
                  (\<lparr>g_registry = reg, g_projects = mdel i (g_projects g), g_stores = mdel i (g_stores g), g_all = all'\<rparr>,
                   w1\<lparr>w_disk := d2\<rparr>, map_option GE_reg e)))"

definition drop_path :: "string \<Rightarrow> path \<Rightarrow> TicketStore \<Rightarrow> GlobalStore \<Rightarrow> GlobalStore" where
  "drop_path pid p s g =
     (case find (\<lambda>(i, q). q = p) (ts_paths s) of
        None \<Rightarrow> g
      | Some (i, _) \<Rightarrow>
          (set_store pid (s\<lparr>ts_Tickets := mdel i (ts_Tickets s), ts_paths := mdel i (ts_paths s)\<rparr>) g)
            \<lparr>g_all := mdel i (g_all g)\<rparr>)"

definition ReloadTicket :: "io_env \<Rightarrow> string \<Rightarrow> path \<Rightarrow> GlobalStore \<Rightarrow> world \<Rightarrow> GlobalStore \<times> world \<times> global_error option" where
  "ReloadTicket E pid p g w =
     (case mget (g_stores g) pid of
        None \<Rightarrow> (g, w, None)
      | Some s \<Rightarrow>
          (case os_ReadFile (e_faults E) p (w_disk w) of
             Inl e \<Rightarrow> if not_exist e then (drop_path pid p s g, w, None) else (g, w, Some (GE_store (TS_read e)))
           | Inr data \<Rightarrow>
               (case UnmarshalTicket (e_yaml E) (e_now E) data of
                  Inl e \<Rightarrow> (g, w, Some (GE_store (TS_parse e)))
                | Inr t0 \<Rightarrow>
                    let t = backfill_project pid t0; (w1, r) = alloc t w
                    in ((set_store pid (s\<lparr>ts_Tickets := mput (t_ID t) r (ts_Tickets s),
                                          ts_paths := mput (t_ID t) p (ts_paths s)\<rparr>) g)
                          \<lparr>g_all := mput (t_ID t) r (g_all g)\<rparr>, w1, None))))"

definition drop_blocker :: "TicketID \<Rightarrow> ref \<Rightarrow> world \<Rightarrow> world" where
  "drop_blocker i r w =
     (let t = deref w r; filtered = filter (\<lambda>b. b \<noteq> i) (t_BlockedBy t) in
      if t_BlockedBy t = [] then w
      else if length filtered \<noteq> length (t_BlockedBy t) then set_ticket r (t\<lparr>t_BlockedBy := filtered\<rparr>) w
      else w)"

definition RemoveBlockerReferences :: "TicketID \<Rightarrow> GlobalStore \<Rightarrow> world \<Rightarrow> world" where
  "RemoveBlockerReferences i g w = fold (drop_blocker i) (map snd (g_all g)) w"

section \<open>The coherence invariant\<close>

text \<open>The index and the stores agree: every indexed ticket is a valid pointer, is filed under its own id,
  and the store of its project holds the same pointer; every ticket of a store is indexed and
  belongs to the project; only tickets of the store have a path.\<close>

definition store_ok :: "GlobalStore \<Rightarrow> world \<Rightarrow> string \<Rightarrow> TicketStore \<Rightarrow> bool" where
  "store_ok g w pid s \<longleftrightarrow> ts_ProjectID s = pid \<and> mwf (ts_Tickets s) \<and>
     (\<forall>i r. mget (ts_Tickets s) i = Some r \<longrightarrow> mget (g_all g) i = Some r \<and> t_ProjectID (deref w r) = pid) \<and>
     (\<forall>i p. mget (ts_paths s) i = Some p \<longrightarrow> mget (ts_Tickets s) i \<noteq> None)"

definition index_ok :: "GlobalStore \<Rightarrow> world \<Rightarrow> TicketID \<Rightarrow> ref \<Rightarrow> bool" where
  "index_ok g w i r \<longleftrightarrow> r < length (w_heap w) \<and> t_ID (deref w r) = i \<and>
     (\<exists>s. mget (g_stores g) (t_ProjectID (deref w r)) = Some s \<and> mget (ts_Tickets s) i = Some r)"

definition gs_inv :: "GlobalStore \<Rightarrow> world \<Rightarrow> bool" where
  "gs_inv g w \<longleftrightarrow> mwf (g_all g) \<and> (\<forall>i r. mget (g_all g) i = Some r \<longrightarrow> index_ok g w i r) \<and>
     (\<forall>pid s. mget (g_stores g) pid = Some s \<longrightarrow> store_ok g w pid s)"

lemma gs_inv_new: "gs_inv (NewGlobalTicketStore reg) w"
  by (simp add: gs_inv_def NewGlobalTicketStore_def)

lemma gs_invD:
  assumes "gs_inv g w" "mget (g_all g) i = Some r"
  obtains s where "r < length (w_heap w)" "t_ID (deref w r) = i"
    "mget (g_stores g) (t_ProjectID (deref w r)) = Some s" "mget (ts_Tickets s) i = Some r"
    "ts_ProjectID s = t_ProjectID (deref w r)"
proof -
  have i: "index_ok g w i r" using assms by (simp add: gs_inv_def)
  then obtain s where s: "mget (g_stores g) (t_ProjectID (deref w r)) = Some s" "mget (ts_Tickets s) i = Some r"
    by (auto simp: index_ok_def)
  have a: "r < length (w_heap w)" "t_ID (deref w r) = i" using i by (simp_all add: index_ok_def)
  have "store_ok g w (t_ProjectID (deref w r)) s" using assms(1) s by (simp add: gs_inv_def)
  then have b: "ts_ProjectID s = t_ProjectID (deref w r)" by (simp add: store_ok_def)
  show ?thesis by (rule that [OF a s b])
qed

lemma store_ok_all: "store_ok g w pid s \<Longrightarrow> mget (ts_Tickets s) i = Some r \<Longrightarrow> mget (g_all g) i = Some r"
  by (simp add: store_ok_def)

lemma gs_inv_storeD:
  assumes "gs_inv g w" "mget (g_stores g) pid = Some s"
  shows "store_ok g w pid s"
  using assms by (simp add: gs_inv_def)

text \<open>Only ids, projects and the extent of the heap matter.\<close>

lemma gs_inv_world:
  assumes "gs_inv g w" "length (w_heap w) \<le> length (w_heap w')"
    and "\<And>r. r < length (w_heap w) \<Longrightarrow> t_ID (deref w' r) = t_ID (deref w r) \<and> t_ProjectID (deref w' r) = t_ProjectID (deref w r)"
  shows "gs_inv g w'"
proof -
  have i: "index_ok g w' i r" if "mget (g_all g) i = Some r" for i r
    using assms that by (fastforce simp: gs_inv_def index_ok_def)
  have "store_ok g w' pid s" if s: "mget (g_stores g) pid = Some s" for pid s
  proof -
    have so: "store_ok g w pid s" using assms(1) s by (simp add: gs_inv_def)
    have "t_ProjectID (deref w' r) = pid" if "mget (ts_Tickets s) i = Some r" for i r
    proof -
      have "mget (g_all g) i = Some r" "t_ProjectID (deref w r) = pid" using so that by (auto simp: store_ok_def)
      moreover from this(1) have "r < length (w_heap w)" using assms(1) by (auto simp: gs_inv_def index_ok_def)
      ultimately show ?thesis using assms(3) by simp
    qed
    with so show ?thesis by (simp add: store_ok_def)
  qed
  with i assms(1) show ?thesis by (simp add: gs_inv_def)
qed

lemma gs_inv_set_ticket:
  assumes "gs_inv g w" "t_ID t = t_ID (deref w r)" "t_ProjectID t = t_ProjectID (deref w r)"
  shows "gs_inv g (set_ticket r t w)"
proof (rule gs_inv_world [OF assms(1)])
  show "t_ID (deref (set_ticket r t w) q) = t_ID (deref w q) \<and>
      t_ProjectID (deref (set_ticket r t w) q) = t_ProjectID (deref w q)" if "q < length (w_heap w)" for q
    using that assms(2,3) by (cases "r = q") simp_all
qed simp

lemma gs_inv_heap: "gs_inv g w \<Longrightarrow> w_heap w' = w_heap w \<Longrightarrow> gs_inv g w'"
  by (erule gs_inv_world) (simp_all add: deref_def)

lemma gs_inv_alloc: "gs_inv g w \<Longrightarrow> gs_inv g (fst (alloc t w))"
  by (erule gs_inv_world) (simp_all add: alloc_def deref_def nth_append)

text \<open>A pointer that the index does not hold may change freely.\<close>

lemma gs_inv_unindexed:
  assumes "gs_inv g w" "\<And>i. mget (g_all g) i \<noteq> Some r"
  shows "gs_inv g (set_ticket r t w)"
proof -
  have i: "index_ok g (set_ticket r t w) i q" if "mget (g_all g) i = Some q" for i q
  proof -
    have "q \<noteq> r" using that assms(2) by auto
    moreover have "index_ok g w i q" using assms(1) that by (simp add: gs_inv_def)
    ultimately show ?thesis by (simp add: index_ok_def)
  qed
  have "store_ok g (set_ticket r t w) pid s" if s: "mget (g_stores g) pid = Some s" for pid s
  proof -
    have so: "store_ok g w pid s" using assms(1) s by (simp add: gs_inv_def)
    have "r \<noteq> q" if "mget (ts_Tickets s) i = Some q" for i q
      using so that assms(2) by (auto simp: store_ok_def)
    with so show ?thesis by (auto simp: store_ok_def)
  qed
  with i assms(1) show ?thesis by (simp add: gs_inv_def)
qed

text \<open>Entering a ticket into the index and its store.\<close>

lemma gs_inv_insert:
  assumes inv: "gs_inv g w" and s: "mget (g_stores g) pid = Some s"
    and r: "r < length (w_heap w)" "t_ProjectID (deref w r) = pid"
    and old: "\<And>q. mget (g_all g) (t_ID (deref w r)) = Some q \<Longrightarrow> t_ProjectID (deref w q) = pid"
    and s': "ts_ProjectID s' = pid \<and> mwf (ts_Tickets s')" "\<And>i. mget (ts_Tickets s') i = mget (mput (t_ID (deref w r)) r (ts_Tickets s)) i"
      "\<And>i. mget (ts_paths s') i \<noteq> None \<Longrightarrow> mget (ts_paths s) i \<noteq> None \<or> i = t_ID (deref w r)"
    and g': "mwf (g_all g')" "\<And>i. mget (g_all g') i = mget (mput (t_ID (deref w r)) r (g_all g)) i"
      "\<And>q. mget (g_stores g') q = mget (mput pid s' (g_stores g)) q"
  shows "gs_inv g' w"
proof -
  let ?i = "t_ID (deref w r)"
  have so: "store_ok g w pid s" using inv s by (rule gs_inv_storeD)
  have "index_ok g' w i q" if "mget (g_all g') i = Some q" for i q
  proof (cases "i = ?i")
    case True
    then show ?thesis using that r s' g' by (auto simp: index_ok_def split: if_splits)
  next
    case False
    then have "mget (g_all g) i = Some q" using that g' by simp
    with inv show ?thesis using s False so
      by (elim gs_invD) (auto simp: index_ok_def g' s' split: if_splits)
  qed
  moreover have "store_ok g' w p x" if x: "mget (g_stores g') p = Some x" for p x
  proof (cases "p = pid")
    case True
    then have "x = s'" using x g' by simp
    have "mget (ts_Tickets s') i \<noteq> None" if "mget (ts_paths s') i = Some y" for i y
      using s'(3) [of i] that so s'(2) by (auto simp: store_ok_def)
    then show ?thesis using so True \<open>x = s'\<close> r s' g'
      by (auto simp: store_ok_def split: if_splits)
  next
    case False
    then have sx: "mget (g_stores g) p = Some x" using x g' by simp
    then have o: "store_ok g w p x" using inv by (simp add: gs_inv_def)
    have "mget (ts_Tickets x) ?i = None"
    proof (rule ccontr)
      assume "mget (ts_Tickets x) ?i \<noteq> None"
      then obtain q where "mget (ts_Tickets x) ?i = Some q" by auto
      with o have "mget (g_all g) ?i = Some q" "t_ProjectID (deref w q) = p" by (auto simp: store_ok_def)
      with old False show False by simp
    qed
    with o show ?thesis by (auto simp: store_ok_def g' split: if_splits)
  qed
  ultimately show ?thesis using g'(1) by (simp add: gs_inv_def)
qed

text \<open>Removing a ticket from the index and its store.\<close>

lemma gs_inv_remove:
  assumes inv: "gs_inv g w" and s: "mget (g_stores g) pid = Some s"
    and i: "\<And>q. mget (g_all g) i = Some q \<Longrightarrow> t_ProjectID (deref w q) = pid"
    and s': "ts_ProjectID s' = pid \<and> mwf (ts_Tickets s')" "\<And>j. mget (ts_Tickets s') j = mget (mdel i (ts_Tickets s)) j"
      "\<And>j. mget (ts_paths s') j \<noteq> None \<Longrightarrow> mget (ts_paths s) j \<noteq> None \<and> j \<noteq> i"
    and g': "mwf (g_all g')" "\<And>j. mget (g_all g') j = mget (mdel i (g_all g)) j"
      "\<And>q. mget (g_stores g') q = mget (mput pid s' (g_stores g)) q"
  shows "gs_inv g' w"
proof -
  have so: "store_ok g w pid s" using inv s by (rule gs_inv_storeD)
  have "index_ok g' w j q" if j: "mget (g_all g') j = Some q" for j q
  proof -
    have "j \<noteq> i" "mget (g_all g) j = Some q" using j g' by (auto split: if_splits)
    with inv show ?thesis using s j g' by (elim gs_invD) (auto simp: index_ok_def g' s' split: if_splits)
  qed
  moreover have "store_ok g' w p x" if x: "mget (g_stores g') p = Some x" for p x
  proof (cases "p = pid")
    case True
    then have "x = s'" using x g' by simp
    have "mget (ts_Tickets s') j \<noteq> None" if "mget (ts_paths s') j = Some y" for j y
      using s'(3) [of j] that so s'(2) by (auto simp: store_ok_def)
    then show ?thesis using so True \<open>x = s'\<close> s' g' by (auto simp: store_ok_def split: if_splits)
  next
    case False
    then have sx: "mget (g_stores g) p = Some x" using x g' by simp
    then have o: "store_ok g w p x" using inv by (simp add: gs_inv_def)
    have "mget (ts_Tickets x) i = None"
    proof (rule ccontr)
      assume "mget (ts_Tickets x) i \<noteq> None"
      then obtain q where "mget (ts_Tickets x) i = Some q" by auto
      with o have "mget (g_all g) i = Some q" "t_ProjectID (deref w q) = p" by (auto simp: store_ok_def)
      with i False show False by simp
    qed
    with o show ?thesis by (auto simp: store_ok_def g' split: if_splits)
  qed
  ultimately show ?thesis using g'(1) by (simp add: gs_inv_def)
qed

section \<open>Every operation keeps the invariant\<close>

lemma set_store_simps [simp]:
  "g_all (set_store pid s g) = g_all g" "g_projects (set_store pid s g) = g_projects g"
  "g_stores (set_store pid s g) = mput pid s (g_stores g)" "g_registry (set_store pid s g) = g_registry g"
  by (simp_all add: set_store_def)

lemma gs_inv_cong:
  assumes "gs_inv g w" "mwf (g_all g')" "\<And>i. mget (g_all g') i = mget (g_all g) i"
    and "\<And>p. mget (g_stores g') p = mget (g_stores g) p"
  shows "gs_inv g' w"
  using assms by (simp add: gs_inv_def index_ok_def store_ok_def)

lemma gs_inv_mwf: "gs_inv g w \<Longrightarrow> mwf (g_all g)"
  by (simp add: gs_inv_def)

lemma ids_kept [simp]:
  "t_ID (SetStatus now st t) = t_ID t" "t_ProjectID (SetStatus now st t) = t_ProjectID t"
  "t_ID (Touch now t) = t_ID t" "t_ProjectID (Touch now t) = t_ProjectID t"
  by (simp_all add: SetStatus_def Touch_def Let_def)

lemma gs_inv_Add:
  assumes inv: "gs_inv g w" and r: "r < length (w_heap w)" "mget (g_all g) (t_ID (deref w r)) = None"
    and a: "Global_Add r g w = (g', w', e)"
  shows "gs_inv g' w'"
proof (cases "mget (g_stores g) (t_ProjectID (deref w r))")
  case None
  then show ?thesis using inv a by (auto simp: Global_Add_def Let_def)
next
  case (Some s)
  let ?t = "(deref w r)\<lparr>t_ProjectID := ts_ProjectID s\<rparr>"
  have pid: "ts_ProjectID s = t_ProjectID (deref w r)" and wf: "mwf (ts_Tickets s)"
    using gs_inv_storeD [OF inv Some] by (simp_all add: store_ok_def)
  have w': "w' = set_ticket r ?t w"
    and g': "g' = (set_store (t_ProjectID (deref w r)) (s\<lparr>ts_Tickets := mput (t_ID (deref w r)) r (ts_Tickets s)\<rparr>) g)
      \<lparr>g_all := mput (t_ID (deref w r)) r (g_all g)\<rparr>"
    using a Some by (auto simp: Global_Add_def Let_def Store_Add_def)
  have inv': "gs_inv g w'" unfolding w' using pid by (intro gs_inv_set_ticket [OF inv]) simp_all
  have d: "deref w' r = ?t" using r by (simp add: w')
  show ?thesis
    by (rule gs_inv_insert [OF inv' Some, of r "s\<lparr>ts_Tickets := mput (t_ID (deref w r)) r (ts_Tickets s)\<rparr>"])
      (use r pid d wf gs_inv_mwf [OF inv] in \<open>simp_all add: g' w'\<close>)
qed

lemma SaveTicket_registered:
  assumes inv: "gs_inv g w" and s: "mget (g_stores g) pid = Some s" and i: "mget (g_all g) i = Some r"
    and pid: "t_ProjectID (deref w r) = pid" and sv: "SaveTicket E (Some r) s w = (s', w', e)"
  shows "gs_inv (set_store pid s' g) w'" "w_heap w' = w_heap w"
proof -
  obtain s0 where r: "r < length (w_heap w)" "t_ID (deref w r) = i" "mget (ts_Tickets s) i = Some r" "ts_ProjectID s = pid"
    using gs_invD [OF inv i] s pid by (metis option.inject)
  have t: "backfill_project (ts_ProjectID s) (deref w r) = deref w r"
    using r pid by (simp add: backfill_project_def)
  then have h: "w_heap (set_ticket r (backfill_project (ts_ProjectID s) (deref w r)) w) = w_heap w"
    using r by (simp add: set_ticket_def deref_def)
  show heap: "w_heap w' = w_heap w"
    using sv by (cases rule: SaveTicket_cases) (simp_all add: h)
  have inv': "gs_inv g w'" using inv heap by (rule gs_inv_heap)
  from sv show "gs_inv (set_store pid s' g) w'"
  proof (cases rule: SaveTicket_cases)
    case (error e)
    then show ?thesis using gs_inv_cong [OF inv', of "set_store pid s' g"] s gs_inv_mwf [OF inv] by simp
  next
    case (ok data)
    have d: "deref w' r = deref w r" by (simp add: deref_def heap)
    have wf: "mwf (ts_Tickets s)" using gs_inv_storeD [OF inv s] by (simp add: store_ok_def)
    show ?thesis
      by (rule gs_inv_insert [OF inv' s, of r s'])
        (use r pid i d wf heap ok(3) t gs_inv_mwf [OF inv] in \<open>simp_all split: if_splits\<close>)
  qed
qed

lemma gs_inv_Save:
  assumes inv: "gs_inv g w" and i: "mget (g_all g) (t_ID (deref w r)) = Some r"
    and sv: "Global_Save E r g w = (g', w', e)"
  shows "gs_inv g' w'" "w_heap w' = w_heap w"
proof -
  have "gs_inv g' w' \<and> w_heap w' = w_heap w"
  proof (cases "mget (g_stores g) (t_ProjectID (deref w r))")
    case (Some s)
    obtain s1 w1 e1 where x: "SaveTicket E (Some r) s w = (s1, w1, e1)" by (cases "SaveTicket E (Some r) s w") auto
    then show ?thesis
      using sv Some SaveTicket_registered [OF inv Some i refl x]
      by (auto simp: Global_Save_def Let_def)
  qed (use inv sv in \<open>auto simp: Global_Save_def Let_def\<close>)
  then show "gs_inv g' w'" "w_heap w' = w_heap w" by simp_all
qed

lemma gs_inv_save_refs:
  assumes "gs_inv g w" "mget (g_stores g) pid = Some s"
    and "\<And>r. r \<in> set rs \<Longrightarrow> \<exists>i. mget (g_all g) i = Some r \<and> t_ProjectID (deref w r) = pid"
    and "save_refs E rs s w = (s', w', e)"
  shows "gs_inv (set_store pid s' g) w' \<and> w_heap w' = w_heap w"
  using assms
proof (induction rs arbitrary: g s w)
  case Nil
  then show ?case using gs_inv_cong [OF Nil(1), of "set_store pid s' g"] gs_inv_mwf [OF Nil(1)] by auto
next
  case (Cons r rs)
  obtain s1 w1 e1 where x: "SaveTicket E (Some r) s w = (s1, w1, e1)" by (cases "SaveTicket E (Some r) s w") auto
  obtain i where i: "mget (g_all g) i = Some r" "t_ProjectID (deref w r) = pid" using Cons.prems(3) [of r] by auto
  note one = SaveTicket_registered [OF Cons.prems(1,2) i x]
  show ?case
  proof (cases e1)
    case None
    have "save_refs E rs s1 w1 = (s', w', e)" using Cons.prems(4) x None by simp
    moreover have "\<And>q. q \<in> set rs \<Longrightarrow>
        \<exists>i. mget (g_all (set_store pid s1 g)) i = Some q \<and> t_ProjectID (deref w1 q) = pid"
      using Cons.prems(3) one(2) by (simp add: deref_def)
    ultimately have "gs_inv (set_store pid s' (set_store pid s1 g)) w' \<and> w_heap w' = w_heap w1"
      using Cons.IH [OF one(1)] by simp
    then show ?thesis
      using gs_inv_cong [of "set_store pid s' (set_store pid s1 g)" w' "set_store pid s' g"]
        gs_inv_mwf [OF Cons.prems(1)] one(2) by simp
  next
    case (Some y)
    then have "s' = s1" "w' = w1" using Cons.prems(4) x by simp_all
    then show ?thesis using one by simp
  qed
qed

lemma gs_inv_save_stores:
  "gs_inv g w \<Longrightarrow> save_stores E pids g w = (g', w', e) \<Longrightarrow> gs_inv g' w' \<and> w_heap w' = w_heap w"
proof (induction pids arbitrary: g w)
  case (Cons pid pids)
  show ?case
  proof (cases "mget (g_stores g) pid")
    case None
    then show ?thesis using Cons by simp
  next
    case (Some s)
    obtain s1 w1 e1 where x: "Store_SaveAll E s w = (s1, w1, e1)" by (cases "Store_SaveAll E s w") auto
    have so: "store_ok g w pid s" using Cons.prems(1) Some by (rule gs_inv_storeD)
    have refs: "\<exists>i. mget (g_all g) i = Some r \<and> t_ProjectID (deref w r) = pid" if r: "r \<in> set (map snd (ts_Tickets s))" for r
    proof -
      obtain i where "(i, r) \<in> set (ts_Tickets s)" using r by auto
      then have "mget (ts_Tickets s) i = Some r" using so by (simp add: in_set_mget store_ok_def)
      then show ?thesis using so by (auto simp: store_ok_def)
    qed
    have all: "gs_inv (set_store pid s1 g) w1 \<and> w_heap w1 = w_heap w"
      by (rule gs_inv_save_refs [OF Cons.prems(1) Some refs x [unfolded Store_SaveAll_def]])
    show ?thesis
    proof (cases e1)
      case None
      then have "save_stores E pids (set_store pid s1 g) w1 = (g', w', e)" using Cons.prems(2) Some x by simp
      then show ?thesis using Cons.IH [of "set_store pid s1 g" w1] all by simp
    next
      case (Some y)
      then show ?thesis using Cons.prems(2) \<open>mget (g_stores g) pid = _\<close> x all by auto
    qed
  qed
qed simp

lemma Store_Delete_cases:
  assumes "Store_Delete E i s w = (s', w', e)"
  obtains (keep) "e \<noteq> None" "s' = s" "w_heap w' = w_heap w"
  | (gone) "e = None" "ts_ProjectID s' = ts_ProjectID s" "ts_Tickets s' = mdel i (ts_Tickets s)"
      "ts_paths s' = mdel i (ts_paths s)" "w_heap w' = w_heap w"
proof -
  have p: "mget (ts_paths s) i = None \<Longrightarrow> mdel i (ts_paths s) = ts_paths s"
    by (simp add: mget_None delete_idem)
  from assms keep gone p show ?thesis
    by (auto simp: Store_Delete_def DeleteTicketFile_def split: if_splits option.splits prod.splits)
qed

lemma gs_inv_Store_Delete:
  assumes inv: "gs_inv g w" and s: "mget (g_stores g) pid = Some s"
    and i: "\<And>q. mget (g_all g) i = Some q \<Longrightarrow> t_ProjectID (deref w q) = pid"
    and x: "Store_Delete E i s w = (s', w', None)"
  shows "gs_inv ((set_store pid s' g)\<lparr>g_all := mdel i (g_all g)\<rparr>) w'"
proof -
  have so: "store_ok g w pid s" using inv s by (rule gs_inv_storeD)
  from x show ?thesis
  proof (cases rule: Store_Delete_cases)
    case gone
    have inv': "gs_inv g w'" using inv gone(5) by (rule gs_inv_heap)
    have d: "deref w' q = deref w q" for q by (simp add: deref_def gone(5))
    show ?thesis
      by (rule gs_inv_remove [OF inv' s, of i s'])
        (use i so gone gs_inv_mwf [OF inv] in \<open>simp_all add: d store_ok_def split: if_splits\<close>)
  qed simp
qed

lemma gs_inv_Delete:
  assumes inv: "gs_inv g w" and x: "Global_Delete E i g w = (g', w', e)"
  shows "gs_inv g' w'"
proof (cases "mget (g_all g) i")
  case (Some r)
  then obtain s where s: "mget (g_stores g) (t_ProjectID (deref w r)) = Some s" using gs_invD [OF inv] by metis
  obtain s1 w1 e1 where y: "Store_Delete E i s w = (s1, w1, e1)" by (cases "Store_Delete E i s w") auto
  show ?thesis
  proof (cases e1)
    case None
    then have "g' = (set_store (t_ProjectID (deref w r)) s1 g)\<lparr>g_all := mdel i (g_all g)\<rparr>" "w' = w1"
      using x Some s y by (auto simp: Global_Delete_def Let_def)
    then show ?thesis using gs_inv_Store_Delete [OF inv s _ y [unfolded None]] Some by simp
  next
    case e: (Some z)
    then have "g' = set_store (t_ProjectID (deref w r)) s1 g" "w' = w1" "s1 = s" "w_heap w1 = w_heap w"
      using x Some s y by (auto simp: Global_Delete_def Let_def elim: Store_Delete_cases)
    then show ?thesis
      using gs_inv_cong [OF gs_inv_heap [OF inv], of w1 g'] s gs_inv_mwf [OF inv] by simp
  qed
qed (use inv x in \<open>auto simp: Global_Delete_def\<close>)

lemma Store_Move_heap:
  "Store_Move E RE gi i st s w = (w', rest) \<Longrightarrow>
     w_heap w' = w_heap (case mget (ts_Tickets s) i of None \<Rightarrow> w
       | Some r \<Rightarrow> set_ticket r (SetStatus (e_now E) st (deref w r)) w)"
  by (auto simp: Store_Move_def Let_def split: option.splits prod.splits)

lemma gs_inv_Move:
  assumes inv: "gs_inv g w" and x: "Global_Move E RE gi i st g w = (w', rest)"
  shows "gs_inv g w'"
proof (cases "mget (g_all g) i")
  case (Some r)
  then obtain s where s: "mget (g_stores g) (t_ProjectID (deref w r)) = Some s" using gs_invD [OF inv] by metis
  obtain w1 y where y: "Store_Move E RE gi i st s w = (w1, y)" by (cases "Store_Move E RE gi i st s w")
  have w': "w' = w1" using x Some s y by (auto simp: Global_Move_def split: prod.splits)
  have "gs_inv g (set_ticket q (SetStatus (e_now E) st (deref w q)) w)" for q
    by (rule gs_inv_set_ticket [OF inv]) simp_all
  then show ?thesis
    using gs_inv_heap [OF _ Store_Move_heap [OF y]] inv w' by (cases "mget (ts_Tickets s) i") simp_all
qed (use inv x in \<open>auto simp: Global_Move_def\<close>)

text \<open>\<^verbatim>\<open>MoveProject\<close> keeps the invariant when it reports no error, or an error before the source file is
  removed (\<open>partial_move\<close> is what is left after a failed write to the destination).\<close>

definition partial_move :: "TicketID \<Rightarrow> GlobalStore \<Rightarrow> world \<Rightarrow> bool" where
  "partial_move i g w \<longleftrightarrow>
     (\<exists>r. mget (g_all g) i = Some r \<and> (\<forall>pid s. mget (g_stores g) pid = Some s \<longrightarrow> mget (ts_Tickets s) i = None))"

lemma gs_inv_MoveProject:
  assumes inv: "gs_inv g w" and x: "MoveProject E i pid g w = (g', w', e)" and e: "\<not> partial_move i g' w'"
  shows "gs_inv g' w'"
proof (cases "mget (g_all g) i")
  case None
  then show ?thesis using inv x by (simp add: MoveProject_def)
next
  case r: (Some r)
  define old where "old = t_ProjectID (deref w r)"
  obtain s where s: "r < length (w_heap w)" "t_ID (deref w r) = i" "mget (g_stores g) old = Some s"
    "mget (ts_Tickets s) i = Some r" "ts_ProjectID s = old" unfolding old_def using inv r by (rule gs_invD)
  show ?thesis
  proof (cases "old = pid \<or> mget (g_stores g) pid = None \<or> t_WorktreePath (deref w r) \<noteq> []")
    case True
    then have "g' = g \<and> w' = w" using x r by (auto simp: MoveProject_def Let_def old_def split: option.splits if_splits)
    then show ?thesis using inv by simp
  next
    case False
    then obtain dst where dst: "mget (g_stores g) pid = Some dst" "old \<noteq> pid" "t_WorktreePath (deref w r) = []" by auto
    obtain s1 w1 e1 where y: "Store_Delete E i s w = (s1, w1, e1)" by (cases "Store_Delete E i s w") auto
    show ?thesis
    proof (cases e1)
      case (Some z)
      then have "g' = set_store old s1 g" "w' = w1" "s1 = s" "w_heap w1 = w_heap w"
        using x r s(3) dst y by (auto simp: MoveProject_def Let_def old_def [symmetric] elim: Store_Delete_cases)
      then show ?thesis using gs_inv_cong [OF gs_inv_heap [OF inv], of w1 g'] s(3) gs_inv_mwf [OF inv] by simp
    next
      case None
      note y = y [unfolded None]
      let ?t = "Touch (e_now E) ((deref w1 r)\<lparr>t_ProjectID := pid\<rparr>)"
      let ?w2 = "set_ticket r ?t w1" and ?g1 = "(set_store old s1 g)\<lparr>g_all := mdel i (g_all g)\<rparr>"
      obtain s2 w3 e2 where sv: "SaveTicket E (Some r) dst ?w2 = (s2, w3, e2)"
        by (cases "SaveTicket E (Some r) dst ?w2") auto
      have g': "g' = set_store pid s2 (set_store old s1 g)" "w' = w3"
        using x r s(3) dst y sv by (auto simp: MoveProject_def Let_def old_def [symmetric])
      have gone: "w_heap w1 = w_heap w" "ts_Tickets s1 = mdel i (ts_Tickets s)"
        using y by (auto elim: Store_Delete_cases)
      have inv1: "gs_inv ?g1 w1"
        by (rule gs_inv_Store_Delete [OF inv s(3) _ y]) (simp add: r old_def)
      have "mget (g_all ?g1) j \<noteq> Some r" for j
      proof
        assume "mget (g_all ?g1) j = Some r"
        then have "j \<noteq> i" "mget (g_all g) j = Some r" by (simp_all split: if_splits)
        then show False using inv s(2) by (auto elim: gs_invD)
      qed
      then have inv2: "gs_inv ?g1 ?w2" using inv1 by (intro gs_inv_unindexed) auto
      have d1: "deref w1 r = deref w r" by (simp add: deref_def gone(1))
      have rl: "r < length (w_heap w1)" using s(1) gone(1) by simp
      have d2: "deref ?w2 r = ?t" using rl by simp
      have so: "store_ok ?g1 ?w2 pid dst"
        by (rule gs_inv_storeD [OF inv2]) (use dst in simp)
      then have b: "backfill_project (ts_ProjectID dst) (deref ?w2 r) = deref ?w2 r"
        unfolding d2 by (simp add: backfill_project_def store_ok_def Touch_def)
      have noi: "mget (ts_Tickets x) i = None" if "mget (g_stores ?g1) p = Some x" for p x
      proof (rule ccontr)
        assume "mget (ts_Tickets x) i \<noteq> None"
        then obtain q where "mget (ts_Tickets x) i = Some q" by auto
        then have "mget (g_all ?g1) i = Some q" by (rule store_ok_all [OF gs_inv_storeD [OF inv2 that]])
        then show False by simp
      qed
      from sv show ?thesis
      proof (cases rule: SaveTicket_cases)
        case (error z)
        have "partial_move i g' w'"
          unfolding partial_move_def
        proof (intro exI [of _ r] conjI allI impI)
          show "mget (g_all g') i = Some r" using r by (simp add: g')
          fix p q assume "mget (g_stores g') p = Some q"
          then show "mget (ts_Tickets q) i = None"
            using noi [of p q] noi [of pid dst] dst(1,2) error(2) by (auto simp: g' split: if_splits)
        qed
        with e show ?thesis by simp
      next
        case (ok data)
        have h: "w_heap w3 = w_heap ?w2" using ok(4) unfolding b by (simp add: set_ticket_def deref_def rl)
        have inv3: "gs_inv ?g1 w3" using inv2 h by (rule gs_inv_heap)
        have d3: "deref w3 r = ?t" using h d2 by (simp add: deref_def)
        have t: "t_ID ?t = i" "t_ProjectID ?t = pid" and ti: "t_ID (deref w1 r) = i" using s(2) d1 by simp_all
        show ?thesis unfolding g'
          using dst b so gs_inv_mwf [OF inv] r rl h d3 ti t ok(3)
          by (intro gs_inv_insert [OF inv3, of pid dst r s2])
            (simp_all add: d2 store_ok_def split: if_splits)
      qed
    qed
  qed
qed

lemma gs_inv_AddProject:
  assumes inv: "gs_inv g w" and "mget (g_stores g) (p_ID p) = None"
  shows "gs_inv (AddProject E p g) w"
proof -
  have "index_ok (AddProject E p g) w i r" if "mget (g_all g) i = Some r" for i r
    using inv that assms(2) by (elim gs_invD) (auto simp: index_ok_def AddProject_def)
  then show ?thesis
    using inv by (auto simp: gs_inv_def store_ok_def AddProject_def NewTicketStore_def)
qed

text \<open>A loaded store that can be entered: its tickets are of its project and new to the index.\<close>

definition loadable :: "GlobalStore \<Rightarrow> world \<Rightarrow> Project \<Rightarrow> TicketStore \<Rightarrow> bool" where
  "loadable g w p s \<longleftrightarrow> ts_ProjectID s = p_ID p \<and> mwf (ts_Tickets s) \<and> mget (g_stores g) (p_ID p) = None \<and>
     (\<forall>i r. mget (ts_Tickets s) i = Some r \<longrightarrow> mget (g_all g) i = None \<and> r < length (w_heap w) \<and>
        t_ID (deref w r) = i \<and> t_ProjectID (deref w r) = p_ID p) \<and>
     (\<forall>i q. mget (ts_paths s) i = Some q \<longrightarrow> mget (ts_Tickets s) i \<noteq> None)"

lemma mget_fold_put:
  "mwf ts \<Longrightarrow> mget (fold (\<lambda>(i, r) a. mput i r a) ts a) i = (case mget ts i of None \<Rightarrow> mget a i | Some r \<Rightarrow> Some r)"
proof (induction ts arbitrary: a)
  case (Cons x ts)
  obtain j q where x: "x = (j, q)" by force
  have "mwf ts" "mget ts j = None" using Cons.prems by (auto simp: x mwf_def mget_None)
  then show ?case using Cons.IH by (auto simp: x split: option.splits)
qed simp

lemma mwf_fold_put: "mwf a \<Longrightarrow> mwf (fold (\<lambda>(i, r) a. mput i r a) ts a)"
  by (induction ts arbitrary: a) auto

lemma gs_inv_index_store:
  assumes inv: "gs_inv g w" and l: "loadable g w p s"
  shows "gs_inv (index_store p s g) w"
proof -
  let ?g' = "index_store p s g"
  have all: "mget (g_all ?g') i = (case mget (ts_Tickets s) i of None \<Rightarrow> mget (g_all g) i | Some r \<Rightarrow> Some r)" for i
    using l by (simp add: index_store_def loadable_def mget_fold_put)
  have st: "g_stores ?g' = mput (p_ID p) s (g_stores g)" by (simp add: index_store_def)
  have "index_ok ?g' w i r" if "mget (g_all ?g') i = Some r" for i r
  proof (cases "mget (ts_Tickets s) i")
    case None
    then have "mget (g_all g) i = Some r" using that by (simp add: all)
    with inv show ?thesis using l by (elim gs_invD) (auto simp: index_ok_def st loadable_def)
  next
    case (Some q)
    then show ?thesis using that l by (auto simp: all index_ok_def st loadable_def)
  qed
  moreover have "store_ok ?g' w pid x" if x: "mget (g_stores ?g') pid = Some x" for pid x
  proof (cases "pid = p_ID p")
    case True
    then have "x = s" using x by (simp add: st)
    have "mget (g_all ?g') i = Some r" if "mget (ts_Tickets s) i = Some r" for i r
      using that by (simp add: all)
    then show ?thesis using \<open>x = s\<close> True l by (auto simp: store_ok_def loadable_def)
  next
    case False
    then have so: "store_ok g w pid x" using x gs_inv_storeD [OF inv] by (simp add: st)
    have "mget (ts_Tickets s) i = None" if "mget (ts_Tickets x) i = Some r" for i r
    proof (rule ccontr)
      assume "mget (ts_Tickets s) i \<noteq> None"
      then have "mget (g_all g) i = None" using l by (auto simp: loadable_def)
      then show False using store_ok_all [OF so that] by simp
    qed
    then show ?thesis using so by (auto simp: store_ok_def all)
  qed
  moreover have "mwf (g_all ?g')" using gs_inv_mwf [OF inv] by (simp add: index_store_def mwf_fold_put)
  ultimately show ?thesis by (simp add: gs_inv_def)
qed

lemma gs_inv_RemoveProject:
  assumes inv: "gs_inv g w" and x: "RemoveProject E J i g w = (g', w', e)"
  shows "gs_inv g' w'"
proof (cases "mget (g_projects g) i = None")
  case True
  then show ?thesis using inv x by (simp add: RemoveProject_def)
next
  case False
  obtain d1 e1 where a: "archive_dir E i (w_disk w) = (d1, e1)" by force
  show ?thesis
  proof (cases e1)
    case (Some z)
    then show ?thesis using x False a gs_inv_heap [OF inv, of "w\<lparr>w_disk := d1\<rparr>"] by (auto simp: RemoveProject_def)
  next
    case None
    obtain reg d2 e2 where rd: "Registry_Delete E J i (g_registry g) d1 = (reg, d2, e2)"
      by (cases "Registry_Delete E J i (g_registry g) d1") auto
    have g': "g_stores g' = mdel i (g_stores g)" "g_all g' = filter (\<lambda>(j, r). t_ProjectID (deref w r) \<noteq> i) (g_all g)"
      and w': "w_heap w' = w_heap w"
      using x False a None rd by (auto simp: RemoveProject_def Let_def)
    have all: "mget (g_all g') j = (case mget (g_all g) j of None \<Rightarrow> None
        | Some r \<Rightarrow> if t_ProjectID (deref w r) \<noteq> i then Some r else None)" for j
      using gs_inv_mwf [OF inv] by (auto simp: g' mget_filter split: option.splits)
    have d: "deref w' q = deref w q" for q by (simp add: deref_def w')
    have "index_ok g' w' j r" if "mget (g_all g') j = Some r" for j r
    proof -
      have "mget (g_all g) j = Some r" "t_ProjectID (deref w r) \<noteq> i"
        using that by (auto simp: all split: option.splits if_splits)
      with inv show ?thesis by (elim gs_invD) (auto simp: index_ok_def g' d w')
    qed
    moreover have "store_ok g' w' pid s" if "mget (g_stores g') pid = Some s" for pid s
    proof -
      have "pid \<noteq> i" "store_ok g w pid s"
        using that gs_inv_storeD [OF inv] by (auto simp: g' split: if_splits)
      then show ?thesis by (auto simp: store_ok_def all d)
    qed
    moreover have "mwf (g_all g')" using gs_inv_mwf [OF inv] by (simp add: g')
    ultimately show ?thesis by (simp add: gs_inv_def)
  qed
qed

lemma gs_inv_drop_path:
  assumes inv: "gs_inv g w" and s: "mget (g_stores g) pid = Some s"
  shows "gs_inv (drop_path pid p s g) w"
proof (cases "find (\<lambda>(i, q). q = p) (ts_paths s)")
  case (Some y)
  then obtain i q where f: "find (\<lambda>(i, q). q = p) (ts_paths s) = Some (i, q)" by (cases y) auto
  have so: "store_ok g w pid s" using inv s by (rule gs_inv_storeD)
  have "(i, q) \<in> set (ts_paths s)" using f by (auto simp: find_Some_iff) (metis nth_mem)
  then have "i \<in> fst ` set (ts_paths s)" by (force simp: image_iff)
  then have "mget (ts_paths s) i \<noteq> None" by (simp add: mget_None)
  then obtain r where "mget (ts_Tickets s) i = Some r" using so by (auto simp: store_ok_def)
  then have i: "mget (g_all g) i = Some r" "t_ProjectID (deref w r) = pid" using so by (auto simp: store_ok_def)
  show ?thesis
    by (rule gs_inv_remove [OF inv s, of i "s\<lparr>ts_Tickets := mdel i (ts_Tickets s), ts_paths := mdel i (ts_paths s)\<rparr>"])
      (use i so f gs_inv_mwf [OF inv] in \<open>simp_all add: drop_path_def store_ok_def split: if_splits\<close>)
qed (use inv in \<open>simp add: drop_path_def\<close>)

lemma gs_inv_Reload:
  assumes inv: "gs_inv g w" and x: "ReloadTicket E pid p g w = (g', w', e)"
    and src: "\<And>data t q. os_ReadFile (e_faults E) p (w_disk w) = Inr data \<Longrightarrow>
      UnmarshalTicket (e_yaml E) (e_now E) data = Inr t \<Longrightarrow>
      t_ProjectID t \<in> {[], pid} \<and> (mget (g_all g) (t_ID t) = Some q \<longrightarrow> t_ProjectID (deref w q) = pid)"
  shows "gs_inv g' w'"
proof (cases "mget (g_stores g) pid")
  case None
  then show ?thesis using inv x by (simp add: ReloadTicket_def)
next
  case s: (Some s)
  show ?thesis
  proof (cases "os_ReadFile (e_faults E) p (w_disk w)")
    case (Inl z)
    then show ?thesis
      using x s inv gs_inv_drop_path [OF inv s, of p] by (auto simp: ReloadTicket_def split: if_splits)
  next
    case data: (Inr data)
    show ?thesis
    proof (cases "UnmarshalTicket (e_yaml E) (e_now E) data")
      case (Inl z)
      then show ?thesis using x s inv data by (simp add: ReloadTicket_def)
    next
      case t0: (Inr t0)
      define t where "t = backfill_project pid t0"
      define r where "r = length (w_heap w)"
      let ?s' = "s\<lparr>ts_Tickets := mput (t_ID t) r (ts_Tickets s), ts_paths := mput (t_ID t) p (ts_paths s)\<rparr>"
      have g': "g' = (set_store pid ?s' g)\<lparr>g_all := mput (t_ID t) r (g_all g)\<rparr>" and w': "w' = fst (alloc t w)"
        using x s data t0 by (auto simp: ReloadTicket_def Let_def alloc_def t_def r_def)
      have t: "t_ID t = t_ID t0" "t_ProjectID t = pid"
        using src [OF data t0] by (auto simp: t_def backfill_project_def)
      have d: "deref w' r = t" "r < length (w_heap w')" "q < length (w_heap w) \<Longrightarrow> deref w' q = deref w q" for q
        by (simp_all add: w' alloc_def r_def deref_def nth_append)
      have inv': "gs_inv g w'" unfolding w' using inv by (rule gs_inv_alloc)
      have so: "store_ok g w pid s" using inv s by (rule gs_inv_storeD)
      show ?thesis
      proof (rule gs_inv_insert [OF inv' s, of r ?s'], goal_cases)
        case (3 q)
        then have q: "mget (g_all g) (t_ID t0) = Some q" by (simp add: d t)
        then have "q < length (w_heap w)" using inv by (auto elim: gs_invD)
        then show ?case using q src [OF data t0] by (simp add: d)
      qed (use so gs_inv_mwf [OF inv] in \<open>simp_all add: d t g' store_ok_def split: if_splits\<close>)
    qed
  qed
qed

lemma gs_inv_drop_blocker: "gs_inv g w \<Longrightarrow> gs_inv g (drop_blocker i r w)"
  by (auto simp: drop_blocker_def Let_def intro: gs_inv_set_ticket)

lemma gs_inv_RemoveBlockers: "gs_inv g w \<Longrightarrow> gs_inv g (RemoveBlockerReferences i g w)"
proof -
  assume "gs_inv g w"
  then have "gs_inv g (fold (drop_blocker i) rs w)" for rs
    by (induction rs arbitrary: w) (simp_all add: gs_inv_drop_blocker)
  then show ?thesis by (simp add: RemoveBlockerReferences_def)
qed

text \<open>Everything the program does with its global store: any sequence of operations, with any failures,
  and any change the rest of the program makes to a ticket's other fields.  \<^verbatim>\<open>MoveProject\<close> takes part
  unless its write to the destination failed.\<close>

inductive gs_run :: "GlobalStore \<Rightarrow> world \<Rightarrow> bool" where
  gr_new: "gs_run (NewGlobalTicketStore reg) w"
| gr_alloc: "gs_run g w \<Longrightarrow> gs_run g (fst (alloc t w))"
| gr_add: "gs_run g w \<Longrightarrow> r < length (w_heap w) \<Longrightarrow> mget (g_all g) (t_ID (deref w r)) = None \<Longrightarrow>
    Global_Add r g w = (g', w', e) \<Longrightarrow> gs_run g' w'"
| gr_edit: "gs_run g w \<Longrightarrow> t_ID t = t_ID (deref w r) \<Longrightarrow> t_ProjectID t = t_ProjectID (deref w r) \<Longrightarrow>
    gs_run g (set_ticket r t w)"
| gr_delete: "gs_run g w \<Longrightarrow> Global_Delete E i g w = (g', w', e) \<Longrightarrow> gs_run g' w'"
| gr_move: "gs_run g w \<Longrightarrow> Global_Move E RE gi i st g w = (w', added, pruned, e) \<Longrightarrow> gs_run g w'"
| gr_move_project: "gs_run g w \<Longrightarrow> MoveProject E i pid g w = (g', w', e) \<Longrightarrow> \<not> partial_move i g' w' \<Longrightarrow> gs_run g' w'"
| gr_save: "gs_run g w \<Longrightarrow> mget (g_all g) (t_ID (deref w r)) = Some r \<Longrightarrow> Global_Save E r g w = (g', w', e) \<Longrightarrow>
    gs_run g' w'"
| gr_save_all: "gs_run g w \<Longrightarrow> Global_SaveAll E g w = (g', w', e) \<Longrightarrow> gs_run g' w'"
| gr_add_project: "gs_run g w \<Longrightarrow> mget (g_stores g) (p_ID p) = None \<Longrightarrow> gs_run (AddProject E p g) w"
| gr_index: "gs_run g w \<Longrightarrow> loadable g w p s \<Longrightarrow> gs_run (index_store p s g) w"
| gr_remove_project: "gs_run g w \<Longrightarrow> RemoveProject E J i g w = (g', w', e) \<Longrightarrow> gs_run g' w'"
| gr_reload: "gs_run g w \<Longrightarrow> ReloadTicket E pid p g w = (g', w', e) \<Longrightarrow>
    (\<And>data t q. os_ReadFile (e_faults E) p (w_disk w) = Inr data \<Longrightarrow>
      UnmarshalTicket (e_yaml E) (e_now E) data = Inr t \<Longrightarrow>
      t_ProjectID t \<in> {[], pid} \<and> (mget (g_all g) (t_ID t) = Some q \<longrightarrow> t_ProjectID (deref w q) = pid)) \<Longrightarrow>
    gs_run g' w'"
| gr_blockers: "gs_run g w \<Longrightarrow> gs_run g (RemoveBlockerReferences i g w)"

lemma gs_run_inv: "gs_run g w \<Longrightarrow> gs_inv g w"
proof (induction rule: gs_run.induct)
  case (gr_reload g w E pid p g' w' e)
  show ?case by (rule gs_inv_Reload [OF gr_reload.IH gr_reload.hyps(2)]) (use gr_reload.hyps(3) in blast)
next
  case (gr_save_all g w E g' w' e)
  then show ?case using gs_inv_save_stores by (auto simp: Global_SaveAll_def)
qed (auto intro: gs_inv_new gs_inv_alloc gs_inv_Add gs_inv_set_ticket gs_inv_Delete gs_inv_Move gs_inv_MoveProject
    gs_inv_Save gs_inv_AddProject gs_inv_index_store gs_inv_RemoveProject gs_inv_RemoveBlockers)

section \<open>The gate's view of the store\<close>

definition Global_lookup :: "GlobalStore \<times> world \<Rightarrow> lookup" where
  "Global_lookup gw i =
     (case Global_Get i (fst gw) of
        Inl e \<Rightarrow> Inl ErrTicketNotFound
      | Inr r \<Rightarrow> Inr (Some (deref (snd gw) r)))"

lemma Global_lookup_iff:
  "Global_lookup (g, w) i = Inr (Some t) \<longleftrightarrow> (\<exists>r. mget (g_all g) i = Some r \<and> t = deref w r)"
  by (auto simp: Global_lookup_def Global_Get_def split: option.splits)

interpretation gate: ticket_lookup Global_lookup "\<lambda>gw. gs_inv (fst gw) (snd gw)"
proof
  fix gw i t
  assume "gs_inv (fst gw) (snd gw)" "Global_lookup gw i = Inr (Some t)"
  then show "t_ID t = i" by (cases gw) (auto simp: Global_lookup_iff elim: gs_invD)
qed

section \<open>An example store\<close>

definition example_gw0 :: "GlobalStore \<times> world" where
  "example_gw0 =
     (AddProject mig_example_env (example_project\<lparr>p_ID := ''q''\<rparr>)
        (AddProject mig_example_env example_project (NewGlobalTicketStore [])),
      fst (alloc example_ticket \<lparr>w_heap = [], w_disk = [], w_settings = []\<rparr>))"

definition example_gw1 :: "GlobalStore \<times> world" where
  "example_gw1 = (case Global_Add 0 (fst example_gw0) (snd example_gw0) of (g, w, e) \<Rightarrow> (g, w))"

definition example_gw :: "GlobalStore \<times> world" where
  "example_gw = (case Global_Save mig_example_env 0 (fst example_gw1) (snd example_gw1) of (g, w, e) \<Rightarrow> (g, w))"

lemma example_run: "gs_run (fst example_gw) (snd example_gw)"
proof -
  have r0: "gs_run (fst example_gw0) (snd example_gw0)"
    unfolding example_gw0_def fst_conv snd_conv
    by (intro gr_add_project gr_alloc gr_new)
      (simp_all add: NewGlobalTicketStore_def AddProject_def example_project_def NewProject_def)
  have r1: "gs_run (fst example_gw1) (snd example_gw1)"
  proof -
    obtain g w e where a: "Global_Add 0 (fst example_gw0) (snd example_gw0) = (g, w, e)"
      by (cases "Global_Add 0 (fst example_gw0) (snd example_gw0)")
    have "0 < length (w_heap (snd example_gw0))"
      "mget (g_all (fst example_gw0)) (t_ID (deref (snd example_gw0) 0)) = None" by code_simp+
    from gr_add [OF r0 this a] show ?thesis by (simp add: example_gw1_def a)
  qed
  obtain g w e where a: "Global_Save mig_example_env 0 (fst example_gw1) (snd example_gw1) = (g, w, e)"
    by (cases "Global_Save mig_example_env 0 (fst example_gw1) (snd example_gw1)")
  have "mget (g_all (fst example_gw1)) (t_ID (deref (snd example_gw1) 0)) = Some 0" by code_simp
  from gr_save [OF r1 this a] show ?thesis by (simp add: example_gw_def a)
qed

section \<open>Properties\<close>



text \<open>The uniqueness scan is complete and exact: it lists, each once, the tickets of the store that
  carry the session id, in every reachable state.\<close>

theorem FindByAgentSessionID_exact:
  assumes "gs_run g w"
  shows "distinct (FindByAgentSessionID uuid g w) \<and>
    (r \<in> set (FindByAgentSessionID uuid g w)) =
      (uuid \<noteq> [] \<and> Global_Get (t_ID (deref w r)) g = Inr r \<and> t_AgentSessionID (deref w r) = uuid)"
proof -
  have inv: "gs_inv g w" using assms by (rule gs_run_inv)
  have wf: "mwf (g_all g)" using inv by (rule gs_inv_mwf)
  have id: "t_ID (deref w r) = i" if "(i, r) \<in> set (g_all g)" for i r
    using that inv wf by (auto simp: in_set_mget elim: gs_invD)
  have "inj_on snd (set (g_all g))"
    by (rule inj_onI) (metis id prod.collapse)
  then have d: "distinct (map snd (g_all g))"
    using wf by (simp add: distinct_map mwf_def)
  have "r \<in> snd ` set (g_all g) \<longleftrightarrow> mget (g_all g) (t_ID (deref w r)) = Some r"
    using id wf by (force simp: in_set_mget [symmetric])
  with d show ?thesis
    by (auto simp: FindByAgentSessionID_def Global_Get_def split: option.splits)
qed

theorem FindByAgentSessionID_exact_witness:
  "distinct (FindByAgentSessionID ''u'' (fst example_gw) (snd example_gw))"
  using FindByAgentSessionID_exact [OF example_run] by blast

text \<open>A deletion that reports success has removed the ticket everywhere: the index does not find it, no
  store holds it, and its file is gone.\<close>

theorem Global_Delete_effective:
  assumes "gs_run g w" and "Global_Delete E i g w = (g', w', None)"
  shows "Global_Get i g' = Inl GE_not_found \<and>
    (\<forall>pid s. mget (g_stores g') pid = Some s \<longrightarrow> Store_Get i s = Inl TS_not_found) \<and>
    (\<forall>p. PathOf i g w = Some p \<longrightarrow> mget (w_disk w') p = None)"
proof -
  have inv: "gs_inv g w" using assms(1) by (rule gs_run_inv)
  have inv': "gs_inv g' w'" using gs_inv_Delete [OF inv assms(2)] .
  obtain r where r: "mget (g_all g) i = Some r"
    using assms(2) by (cases "mget (g_all g) i") (auto simp: Global_Delete_def)
  obtain s where s: "mget (g_stores g) (t_ProjectID (deref w r)) = Some s" using inv r by (rule gs_invD)
  obtain s1 where x: "Store_Delete E i s w = (s1, w', None)" and "g_all g' = mdel i (g_all g)"
    using assms(2) r s by (auto simp: Global_Delete_def Let_def split: prod.splits option.splits)
  then have gone: "mget (g_all g') i = None" by simp
  have "mget (ts_Tickets t) i = None" if "mget (g_stores g') pid = Some t" for pid t
    using store_ok_all [OF gs_inv_storeD [OF inv' that]] gone by (cases "mget (ts_Tickets t) i") auto
  moreover have "mget (w_disk w') p = None" if "PathOf i g w = Some p" for p
  proof -
    have p: "mget (ts_paths s) i = Some p" using that r s by (simp add: PathOf_def)
    show ?thesis
    proof (cases "os_Remove (e_faults E) p (w_disk w)")
      case (Pair d1 o1)
      then show ?thesis
        using x p by (auto simp: Store_Delete_def DeleteTicketFile_def os_Remove_def
            split: if_splits option.splits node.splits)
    qed
  qed
  ultimately show ?thesis using gone by (simp add: Global_Get_def Store_Get_def)
qed

theorem Global_Delete_effective_witness:
  "mget (w_disk (fst (snd (Global_Delete mig_example_env ''0a1b2c3d-e'' (fst example_gw) (snd example_gw)))))
     (ticketsDir @ [''p'', ''fix-it-0a1b2c3d.md'']) = None"
proof -
  let ?r = "Global_Delete mig_example_env ''0a1b2c3d-e'' (fst example_gw) (snd example_gw)"
  have n: "snd (snd ?r) = None" by code_simp
  then have "?r = (fst ?r, fst (snd ?r), None)" by (metis prod.collapse)
  moreover have "PathOf ''0a1b2c3d-e'' (fst example_gw) (snd example_gw) =
      Some (ticketsDir @ [''p'', ''fix-it-0a1b2c3d.md''])" by code_simp
  ultimately show ?thesis using Global_Delete_effective [OF example_run] by blast
qed

text \<open>A move between projects is not atomic: the source file is removed first, so when the write to the
  destination fails (any failure of that write), the ticket's file is gone, no store holds the
  ticket any more although the index still finds it, now under the new project, and it can no
  longer be deleted.\<close>

theorem MoveProject_failure:
  assumes "gs_run g w" "mget (g_all g) i = Some r" "MoveProject E i pid g w = (g', w', Some (GE_store e))"
    and "PathOf i g w = Some (ticketsDir @ [t_ProjectID (deref w r), f])"
    and "\<And>x. e \<noteq> TS_remove x"
  shows "mget (w_disk w') (ticketsDir @ [t_ProjectID (deref w r), f]) = None \<and>
    Global_Get i g' = Inr r \<and> t_ProjectID (deref w' r) = pid \<and> partial_move i g' w' \<and>
    snd (snd (Global_Delete E' i g' w')) = Some (GE_store TS_not_found)"
proof -
  have inv: "gs_inv g w" using assms(1) by (rule gs_run_inv)
  define old where "old = t_ProjectID (deref w r)"
  obtain s where s: "r < length (w_heap w)" "t_ID (deref w r) = i" "mget (g_stores g) old = Some s"
    "mget (ts_Tickets s) i = Some r" "ts_ProjectID s = old" unfolding old_def using inv assms(2) by (rule gs_invD)
  obtain dst where dst: "mget (g_stores g) pid = Some dst" "old \<noteq> pid" "t_WorktreePath (deref w r) = []"
    using assms(2,3) by (auto simp: MoveProject_def Let_def old_def split: option.splits if_splits)
  have dp: "ts_ProjectID dst = pid" using gs_inv_storeD [OF inv dst(1)] by (simp add: store_ok_def)
  have path: "mget (ts_paths s) i = Some (ticketsDir @ [old, f])"
    using assms(2,4) s(3) by (simp add: PathOf_def old_def)
  obtain s1 w1 e1 where y: "Store_Delete E i s w = (s1, w1, e1)" by (cases "Store_Delete E i s w") auto
  have e1: "e1 = None"
  proof (cases e1)
    case (Some z)
    then have "z = e" using assms(2,3) s(3) dst y by (auto simp: MoveProject_def Let_def old_def [symmetric])
    then show ?thesis
      using y Some s(4) path assms(5)
      by (auto simp: Store_Delete_def DeleteTicketFile_def split: option.splits prod.splits if_splits)
  qed
  note y = y [unfolded e1]
  have gone: "mget (w_disk w1) (ticketsDir @ [old, f]) = None"
    using y s(4) path
    by (auto simp: Store_Delete_def DeleteTicketFile_def os_Remove_def split: if_splits option.splits node.splits)
  have h1: "w_heap w1 = w_heap w" "ts_Tickets s1 = mdel i (ts_Tickets s)" using y by (auto elim: Store_Delete_cases)
  let ?t = "Touch (e_now E) ((deref w1 r)\<lparr>t_ProjectID := pid\<rparr>)"
  let ?w2 = "set_ticket r ?t w1"
  obtain s2 w3 e2 where sv: "SaveTicket E (Some r) dst ?w2 = (s2, w3, e2)"
    by (cases "SaveTicket E (Some r) dst ?w2") auto
  have g': "g' = set_store pid s2 (set_store old s1 g)" "w' = w3" "e2 = Some e"
    using assms(2,3) s(3) dst y sv by (auto simp: MoveProject_def Let_def old_def [symmetric])
  note sv = sv [unfolded g'(3)]
  have "mget (w_disk w3) (ticketsDir @ [old, f]) = mget (w_disk ?w2) (ticketsDir @ [old, f])"
    using sv by (rule SaveTicket_error_out) (use dst(2) dp in \<open>simp_all add: ticketDir_def ticketsDir_def\<close>)
  then have 1: "mget (w_disk w') (ticketsDir @ [old, f]) = None" using gone g'(2) by simp
  have dst2: "s2 = dst" "w_heap w3 = w_heap (set_ticket r (backfill_project pid (deref ?w2 r)) ?w2)"
    using sv by (auto elim: SaveTicket_cases simp: dp)
  have rl: "r < length (w_heap w1)" using s(1) h1 by simp
  have pr: "t_ProjectID (deref w' r) = pid"
    using dst2(2) rl g'(2) by (simp add: deref_def set_ticket_def backfill_project_def Touch_def)
  have noi: "mget (ts_Tickets x) i = None" if "mget (g_stores g') p = Some x" for p x
  proof (rule ccontr)
    assume "mget (ts_Tickets x) i \<noteq> None"
    then obtain q where q: "mget (ts_Tickets x) i = Some q" by auto
    then have "p \<noteq> old" using that h1(2) dst(2) by (auto simp: g' split: if_splits)
    then have "mget (g_stores g) p = Some x" using that dst2(1) dst(1) by (auto simp: g' split: if_splits)
    with inv have so: "store_ok g w p x" by (rule gs_inv_storeD)
    then have "mget (g_all g) i = Some q" using q by (rule store_ok_all)
    then have "q = r" using assms(2) by simp
    then have "old = p" using so q by (auto simp: store_ok_def old_def)
    with \<open>p \<noteq> old\<close> show False by simp
  qed
  have all: "mget (g_all g') i = Some r" using assms(2) by (simp add: g')
  have st: "mget (g_stores g') pid = Some dst" using dst2(1) by (simp add: g')
  have "snd (snd (Global_Delete E' i g' w')) = Some (GE_store TS_not_found)"
    using all st noi [OF st] pr by (simp add: Global_Delete_def Let_def Store_Delete_def)
  moreover have "partial_move i g' w'" using all noi by (auto simp: partial_move_def)
  ultimately show ?thesis using 1 all pr by (simp add: Global_Get_def old_def)
qed

definition failing_env :: io_env where
  "failing_env = mig_example_env\<lparr>e_faults := (\<lambda>c. case c of CreateTemp d b \<Rightarrow> True | _ \<Rightarrow> False)\<rparr>"

theorem MoveProject_failure_witness:
  "(case MoveProject failing_env ''0a1b2c3d-e'' ''q'' (fst example_gw) (snd example_gw) of (g, w, e) \<Rightarrow>
     mget (w_disk w) (ticketsDir @ [''p'', ''fix-it-0a1b2c3d.md'']) = None)"
proof -
  let ?m = "MoveProject failing_env ''0a1b2c3d-e'' ''q'' (fst example_gw) (snd example_gw)"
  have e: "snd (snd ?m) = Some (GE_store (TS_tmp (AW_create (Failed (CreateTemp (ticketsDir @ [''q'']) ''fix-it-0a1b2c3d.md'')))))"
    by code_simp
  then have m: "?m = (fst ?m, fst (snd ?m), Some (GE_store (TS_tmp (AW_create (Failed (CreateTemp (ticketsDir @ [''q'']) ''fix-it-0a1b2c3d.md''))))))"
    by (metis prod.collapse)
  have "mget (g_all (fst example_gw)) ''0a1b2c3d-e'' = Some 0"
    "PathOf ''0a1b2c3d-e'' (fst example_gw) (snd example_gw) =
       Some (ticketsDir @ [t_ProjectID (deref (snd example_gw) 0), ''fix-it-0a1b2c3d.md''])"
    "t_ProjectID (deref (snd example_gw) 0) = ''p''" by code_simp+
  with MoveProject_failure [OF example_run this(1) m this(2)] show ?thesis by (simp add: case_prod_beta)
qed

text \<open>The gate on the real store: an implement ticket passes only if one of the tickets it is blocked by
  is in the store, under that id, as a spec ticket that is done or archived.\<close>

theorem gate_on_store:
  assumes "gs_run g w" "t_Type t = TypeImplement"
    and "CheckPrerequisite (Some t) (Some (Global_lookup (g, w))) = None"
  shows "\<exists>r \<in> set (Global_All g). t_ID (deref w r) \<in> set (t_BlockedBy t) \<and> t_Type (deref w r) = TypeSpec \<and>
    (t_Status (deref w r) = StatusDone \<or> t_Status (deref w r) = StatusArchived)"
proof -
  have "gs_inv (fst (g, w)) (snd (g, w))" using assms(1) by (simp add: gs_run_inv)
  from gate.gate_implement_open [OF this assms(2,3)] obtain up where
    up: "Global_lookup (g, w) (t_ID up) = Inr (Some up)" "t_ID up \<in> set (t_BlockedBy t)" "t_Type up = TypeSpec"
      "t_Status up = StatusDone \<or> t_Status up = StatusArchived" by blast
  then obtain r where "mget (g_all g) (t_ID up) = Some r" "up = deref w r" by (auto simp: Global_lookup_iff)
  then have "r \<in> set (Global_All g)" by (force simp: Global_All_def dest: map_of_SomeD)
  with up \<open>up = deref w r\<close> show ?thesis by blast
qed

definition gate_spec :: Ticket where
  "gate_spec = example_ticket\<lparr>t_Type := TypeSpec, t_Status := StatusDone\<rparr>"

definition gate_impl :: Ticket where
  "gate_impl = (NewTicket 5 ''0000impl'' ''Build it'' ''p'')\<lparr>t_Type := TypeImplement, t_BlockedBy := [''x'', ''0a1b2c3d-e'']\<rparr>"

theorem gate_on_store_witness:
  "\<exists>r \<in> set (Global_All (fst example_gw)). t_Type (deref (set_ticket 0 gate_spec (snd example_gw)) r) = TypeSpec"
proof -
  have eq: "t_ID gate_spec = t_ID (deref (snd example_gw) 0)" "t_ProjectID gate_spec = t_ProjectID (deref (snd example_gw) 0)"
    by code_simp+
  have "gs_run (fst example_gw) (set_ticket 0 gate_spec (snd example_gw))"
    by (rule gr_edit [OF example_run eq])
  moreover have "t_Type gate_impl = TypeImplement" by (simp add: gate_impl_def)
  moreover have "CheckPrerequisite (Some gate_impl)
      (Some (Global_lookup (fst example_gw, set_ticket 0 gate_spec (snd example_gw)))) = None" by code_simp
  ultimately show ?thesis using gate_on_store by blast
qed

lemma drop_blocker_deref:
  "q < length (w_heap w) \<Longrightarrow> t_BlockedBy (deref (drop_blocker i r w) q) =
     (if q = r then filter (\<lambda>b. b \<noteq> i) (t_BlockedBy (deref w q)) else t_BlockedBy (deref w q))"
  by (cases "q = r")
    (auto simp: drop_blocker_def Let_def, metis (mono_tags, lifting) filter_True length_filter_less less_irrefl)

lemma drop_blocker_length [simp]: "length (w_heap (drop_blocker i r w)) = length (w_heap w)"
  by (simp add: drop_blocker_def Let_def)

lemma fold_drop_blocker:
  "q < length (w_heap w) \<Longrightarrow> t_BlockedBy (deref (fold (drop_blocker i) rs w) q) =
     (if q \<in> set rs then filter (\<lambda>b. b \<noteq> i) (t_BlockedBy (deref w q)) else t_BlockedBy (deref w q))"
  by (induction rs arbitrary: w) (auto simp: drop_blocker_deref)

text \<open>Removing the references to a ticket unblocks exactly its dependants: afterwards no ticket is
  blocked by it, and every ticket keeps its other blockers.\<close>

theorem RemoveBlockerReferences_exact:
  assumes "gs_run g w" and "r \<in> set (Global_All g)"
  shows "GetBlocks i g (RemoveBlockerReferences i g w) = [] \<and>
    t_BlockedBy (deref (RemoveBlockerReferences i g w) r) = filter (\<lambda>b. b \<noteq> i) (t_BlockedBy (deref w r))"
proof -
  have inv: "gs_inv g w" using assms(1) by (rule gs_run_inv)
  have len: "q < length (w_heap w)" if q: "q \<in> snd ` set (g_all g)" for q
  proof -
    obtain j where "(j, q) \<in> set (g_all g)" using q by auto
    then have "mget (g_all g) j = Some q" using gs_inv_mwf [OF inv] by (simp add: in_set_mget)
    with inv show ?thesis by (rule gs_invD) simp
  qed
  have b: "t_BlockedBy (deref (RemoveBlockerReferences i g w) q) = filter (\<lambda>b. b \<noteq> i) (t_BlockedBy (deref w q))"
    if "q \<in> snd ` set (g_all g)" for q
    using fold_drop_blocker [OF len [OF that], of i "map snd (g_all g)"] that
    by (simp add: RemoveBlockerReferences_def)
  have "GetBlocks i g (RemoveBlockerReferences i g w) = []"
    unfolding GetBlocks_def filter_empty_conv
    by (auto simp: b list_ex_iff)
  with b assms(2) show ?thesis by (simp add: Global_All_def)
qed

theorem RemoveBlockerReferences_exact_witness:
  "GetBlocks ''x'' (fst example_gw) (RemoveBlockerReferences ''x'' (fst example_gw) (snd example_gw)) = []"
proof -
  have "0 \<in> set (Global_All (fst example_gw))" by code_simp
  from RemoveBlockerReferences_exact [OF example_run this] show ?thesis by blast
qed

end
