(* ===== verification/Frame.thy ===== *)
theory Frame
  imports Prelude
begin

unbundle bit_operations_syntax

text \<open>
  \<^verbatim>\<open>internal/daemon/protocol.go\<close>: the length-prefixed frames between clients and daemon, the resize
  payload, and the deadline helpers.  Bytes are \<open>8 word\<close>s, the header a big-endian \<open>32 word\<close>.  A
  reader is the bytes that will still arrive and how the stream ends; a writer is what was
  written and how many more bytes it takes before it fails.
\<close>

type_synonym byte = "8 word"

definition MaxFrameSize :: nat where
  "MaxFrameSize = 2 ^ 20"

definition TypeJSONReq :: byte where "TypeJSONReq = 1"
definition TypeJSONResp :: byte where "TypeJSONResp = 2"
definition TypeJSONPush :: byte where "TypeJSONPush = 3"
definition TypePTYOutput :: byte where "TypePTYOutput = 0x10"
definition TypePTYInput :: byte where "TypePTYInput = 0x11"
definition TypeResize :: byte where "TypeResize = 0x12"
definition TypeDetach :: byte where "TypeDetach = 0x13"

section \<open>Package encoding/binary\<close>

definition put_u32 :: "32 word \<Rightarrow> byte list" where
  "put_u32 v = [ucast (drop_bit 24 v), ucast (drop_bit 16 v), ucast (drop_bit 8 v), ucast v]"

definition get_u32 :: "byte list \<Rightarrow> 32 word" where
  "get_u32 b = push_bit 24 (ucast (b ! 0)) OR push_bit 16 (ucast (b ! 1)) OR push_bit 8 (ucast (b ! 2)) OR ucast (b ! 3)"

definition put_u16 :: "16 word \<Rightarrow> byte list" where
  "put_u16 v = [ucast (drop_bit 8 v), ucast v]"

definition get_u16 :: "byte list \<Rightarrow> 16 word" where
  "get_u16 b = push_bit 8 (ucast (b ! 0)) OR ucast (b ! 1)"

section \<open>Readers and writers\<close>

datatype stream_end = CleanEnd | Deadline | Broken string

type_synonym reader = "byte list \<times> stream_end"

datatype frame_error = EOF | UnexpectedEOF | ZeroLength | FrameTooLarge | DeadlineExceeded | IOError string
  | InvalidResize | DaemonUnresponsive

text \<open>\<^verbatim>\<open>io.ReadFull\<close> for a non-empty buffer.\<close>

definition read_full :: "nat \<Rightarrow> reader \<Rightarrow> (frame_error + byte list) \<times> reader" where
  "read_full n r =
     (case r of (bs, fin) \<Rightarrow>
        if n \<le> length bs then (Inr (take n bs), (drop n bs, fin))
        else (Inl (case fin of
                     CleanEnd \<Rightarrow> if bs = [] then EOF else UnexpectedEOF
                   | Deadline \<Rightarrow> DeadlineExceeded
                   | Broken e \<Rightarrow> IOError e), ([], fin)))"

record writer =
  w_out :: "byte list"
  w_room :: "nat option"
  w_end :: stream_end

definition write_bytes :: "byte list \<Rightarrow> writer \<Rightarrow> writer \<times> frame_error option" where
  "write_bytes bs w =
     (case w_room w of
        None \<Rightarrow> (w\<lparr>w_out := w_out w @ bs\<rparr>, None)
      | Some k \<Rightarrow>
          if length bs \<le> k then (w\<lparr>w_out := w_out w @ bs, w_room := Some (k - length bs)\<rparr>, None)
          else (w\<lparr>w_out := w_out w @ take k bs, w_room := Some 0\<rparr>,
                Some (case w_end w of Deadline \<Rightarrow> DeadlineExceeded | Broken e \<Rightarrow> IOError e | CleanEnd \<Rightarrow> IOError [])))"

section \<open>Frames\<close>

definition WriteFrame :: "byte \<Rightarrow> byte list \<Rightarrow> writer \<Rightarrow> writer \<times> frame_error option" where
  "WriteFrame typ payload w =
     (let total = length payload + 1 in
      if total > MaxFrameSize then (w, Some FrameTooLarge)
      else case write_bytes (put_u32 (of_nat total) @ [typ]) w of
        (w1, Some e) \<Rightarrow> (w1, Some e)
      | (w1, None) \<Rightarrow> if payload \<noteq> [] then write_bytes payload w1 else (w1, None))"

definition ReadFrame :: "reader \<Rightarrow> (frame_error + byte \<times> byte list) \<times> reader" where
  "ReadFrame r =
     (case read_full 4 r of
        (Inl e, r1) \<Rightarrow> (Inl e, r1)
      | (Inr hdr, r1) \<Rightarrow>
          let len = get_u32 hdr in
          if len = 0 then (Inl ZeroLength, r1)
          else if unat len > MaxFrameSize then (Inl FrameTooLarge, r1)
          else (case read_full (unat len) r1 of
                  (Inl e, r2) \<Rightarrow> (Inl e, r2)
                | (Inr body, r2) \<Rightarrow> (Inr (hd body, tl body), r2)))"

text \<open>The deadline helpers: \<open>conn\<close> is the deadline in force on the connection.\<close>

record conn =
  c_read_deadline :: "time option"
  c_write_deadline :: "time option"

definition normalize :: "frame_error \<Rightarrow> frame_error" where
  "normalize e = (if e = DeadlineExceeded then DaemonUnresponsive else e)"

definition WriteFrameCtx :: "time option \<Rightarrow> conn \<Rightarrow> byte \<Rightarrow> byte list \<Rightarrow> writer \<Rightarrow> conn \<times> writer \<times> frame_error option" where
  "WriteFrameCtx ctx c typ payload w =
     (case WriteFrame typ payload w of
        (w1, e) \<Rightarrow> (if ctx = None then c else c\<lparr>c_write_deadline := None\<rparr>, w1, map_option normalize e))"

definition ReadFrameCtx :: "time option \<Rightarrow> conn \<Rightarrow> reader \<Rightarrow> conn \<times> (frame_error + byte \<times> byte list) \<times> reader" where
  "ReadFrameCtx ctx c r =
     (case ReadFrame r of
        (res, r1) \<Rightarrow> (if ctx = None then c else c\<lparr>c_read_deadline := None\<rparr>, map_sum normalize id res, r1))"

section \<open>Resize payloads\<close>

definition EncodeResize :: "16 word \<Rightarrow> 16 word \<Rightarrow> 16 word \<Rightarrow> byte list" where
  "EncodeResize cols rows clientID = put_u16 cols @ put_u16 rows @ put_u16 clientID"

definition DecodeResize :: "byte list \<Rightarrow> frame_error + 16 word \<times> 16 word \<times> 16 word" where
  "DecodeResize payload =
     (if length payload \<noteq> 6 then Inl InvalidResize
      else Inr (get_u16 (take 2 payload), get_u16 (take 2 (drop 2 payload)), get_u16 (take 2 (drop 4 payload))))"

section \<open>Lemmas\<close>

lemma length_put_u32 [simp]: "length (put_u32 v) = 4"
  by (simp add: put_u32_def)

lemma put_u32_Nil [simp]: "put_u32 v \<noteq> []"
  by (simp add: put_u32_def)

lemma length_put_u16 [simp]: "length (put_u16 v) = 2"
  by (simp add: put_u16_def)

lemma get_put_u32 [simp]: "get_u32 (put_u32 v) = v"
proof (rule bit_word_eqI)
  fix n assume "n < LENGTH(32)"
  then consider "n < 8" | "8 \<le> n" "n < 16" | "16 \<le> n" "n < 24" | "24 \<le> n" "n < 32" by fastforce
  then show "bit (get_u32 (put_u32 v)) n = bit v n"
    by cases (auto simp: get_u32_def put_u32_def bit_simps)
qed

lemma get_put_u16 [simp]: "get_u16 (put_u16 v) = v"
proof (rule bit_word_eqI)
  fix n assume "n < LENGTH(16)"
  then consider "n < 8" | "8 \<le> n" "n < 16" by fastforce
  then show "bit (get_u16 (put_u16 v)) n = bit v n"
    by cases (auto simp: get_u16_def put_u16_def bit_simps)
qed

lemma byte_of_u32:
  "ucast (drop_bit 24 (get_u32 [b0, b1, b2, b3])) = b0" "ucast (drop_bit 16 (get_u32 [b0, b1, b2, b3])) = b1"
  "ucast (drop_bit 8 (get_u32 [b0, b1, b2, b3])) = b2" "ucast (get_u32 [b0, b1, b2, b3]) = b3"
proof -
  show "ucast (drop_bit 24 (get_u32 [b0, b1, b2, b3])) = b0"
    by (rule bit_word_eqI) (auto simp: get_u32_def bit_simps dest: bit_imp_le_length)
  show "ucast (drop_bit 16 (get_u32 [b0, b1, b2, b3])) = b1"
    by (rule bit_word_eqI) (auto simp: get_u32_def bit_simps dest: bit_imp_le_length)
  show "ucast (drop_bit 8 (get_u32 [b0, b1, b2, b3])) = b2"
    by (rule bit_word_eqI) (auto simp: get_u32_def bit_simps dest: bit_imp_le_length)
  show "ucast (get_u32 [b0, b1, b2, b3]) = b3"
    by (rule bit_word_eqI) (auto simp: get_u32_def bit_simps dest: bit_imp_le_length)
qed

lemma put_get_u32:
  assumes "length b = 4" shows "put_u32 (get_u32 b) = b"
proof -
  obtain b0 b1 b2 b3 where b: "b = [b0, b1, b2, b3]"
    using assms by (auto simp: length_Suc_conv numeral_eq_Suc)
  show ?thesis unfolding b put_u32_def byte_of_u32 ..
qed

lemma byte_of_u16:
  "ucast (drop_bit 8 (get_u16 [b0, b1])) = b0" "ucast (get_u16 [b0, b1]) = b1"
proof -
  show "ucast (drop_bit 8 (get_u16 [b0, b1])) = b0"
    by (rule bit_word_eqI) (auto simp: get_u16_def bit_simps dest: bit_imp_le_length)
  show "ucast (get_u16 [b0, b1]) = b1"
    by (rule bit_word_eqI) (auto simp: get_u16_def bit_simps dest: bit_imp_le_length)
qed

lemma put_get_u16:
  assumes "length b = 2" shows "put_u16 (get_u16 b) = b"
proof -
  obtain b0 b1 where b: "b = [b0, b1]"
    using assms by (auto simp: length_Suc_conv numeral_eq_Suc)
  show ?thesis unfolding b put_u16_def byte_of_u16 ..
qed

text \<open>The bytes of a frame.\<close>

definition frame :: "byte \<Rightarrow> byte list \<Rightarrow> byte list" where
  "frame t p = put_u32 (of_nat (length p + 1)) @ t # p"

definition frame_ok :: "byte list \<Rightarrow> bool" where
  "frame_ok p \<longleftrightarrow> length p + 1 \<le> MaxFrameSize"

lemma unat_len: "n \<le> MaxFrameSize \<Longrightarrow> unat (of_nat n :: 32 word) = n"
  by (simp add: unsigned_of_nat take_bit_nat_eq_self MaxFrameSize_def)

lemma length_frame [simp]: "length (frame t p) = length p + 5"
  by (simp add: frame_def)

lemma read_full_simps:
  "n \<le> length bs \<Longrightarrow> read_full n (bs, fin) = (Inr (take n bs), (drop n bs, fin))"
  "\<not> n \<le> length bs \<Longrightarrow> fst (read_full n (bs, CleanEnd)) = Inl (if bs = [] then EOF else UnexpectedEOF)"
  by (simp_all add: read_full_def)

lemma ReadFrame_frame:
  assumes "frame_ok p"
  shows "ReadFrame (frame t p @ rest, fin) = (Inr (t, p), (rest, fin))"
proof -
  let ?n = "of_nat (length p + 1) :: 32 word"
  have n: "unat ?n = length p + 1" using assms by (intro unat_len) (simp add: frame_ok_def)
  then have "?n \<noteq> 0" by (metis add_is_0 one_neq_zero unat_0)
  moreover have "read_full 4 (frame t p @ rest, fin) = (Inr (put_u32 ?n), (t # p @ rest, fin))"
    by (simp add: read_full_simps frame_def)
  moreover have "read_full (length p + 1) (t # p @ rest, fin) = (Inr (t # p), (rest, fin))"
    by (simp add: read_full_simps)
  ultimately show ?thesis
    using assms n by (simp add: ReadFrame_def Let_def frame_ok_def del: of_nat_Suc of_nat_add)
qed

lemma ReadFrame_Inr:
  assumes "ReadFrame (bs, fin) = (Inr (t, p), r')"
  shows "\<exists>rest. bs = frame t p @ rest \<and> frame_ok p \<and> r' = (rest, fin)"
proof -
  have 4: "4 \<le> length bs"
    using assms by (auto simp: ReadFrame_def read_full_def split: if_splits)
  define v where "v = get_u32 (take 4 bs)"
  have v: "v \<noteq> 0" "unat v \<le> MaxFrameSize" "unat v \<le> length bs - 4"
    "t = hd (take (unat v) (drop 4 bs))" "p = tl (take (unat v) (drop 4 bs))"
    "r' = (drop (unat v) (drop 4 bs), fin)"
    using assms 4 by (auto simp: ReadFrame_def read_full_def Let_def v_def [symmetric] split: if_splits)
  define body where "body = take (unat v) (drop 4 bs)"
  have "unat v \<noteq> 0" using v(1) by (simp add: unat_eq_zero)
  then have len: "length body = unat v" "body \<noteq> []" using v(3) by (auto simp: body_def)
  then have tp: "body = t # p" using v(4,5) by (simp add: body_def [symmetric])
  then have "length p + 1 = unat v" using len(1) by simp
  then have "of_nat (length p + 1) = (of_nat (unat v) :: 32 word)" by (rule arg_cong)
  then have "of_nat (length p + 1) = v" by simp
  moreover have "put_u32 v = take 4 bs" unfolding v_def by (rule put_get_u32) (use 4 in simp)
  ultimately have "frame t p = take 4 bs @ body" by (simp add: frame_def tp)
  then have "bs = frame t p @ drop (unat v) (drop 4 bs)"
    using append_take_drop_id [of 4 bs] append_take_drop_id [of "unat v" "drop 4 bs"]
    by (metis append_assoc body_def)
  moreover have "frame_ok p" using v(2) len(1) tp by (simp add: frame_ok_def)
  ultimately show ?thesis using v(6) by blast
qed

lemma ReadFrame_partial:
  assumes "frame_ok p" "k < length (frame t p)"
  shows "fst (ReadFrame (take k (frame t p), CleanEnd)) = Inl (if k = 0 \<or> k = 4 then EOF else UnexpectedEOF)"
proof (cases "k < 4")
  case True
  then have "\<not> 4 \<le> length (take k (frame t p))" by simp
  from read_full_simps(2) [OF this] show ?thesis
    using True by (auto simp: ReadFrame_def frame_def split: prod.splits)
next
  case False
  let ?n = "of_nat (length p + 1) :: 32 word"
  have n: "unat ?n = length p + 1" using assms(1) by (intro unat_len) (simp add: frame_ok_def)
  then have n0: "?n \<noteq> 0" by (metis add_is_0 one_neq_zero unat_0)
  define b where "b = take (k - 4) (t # p)"
  have "take k (frame t p) = put_u32 ?n @ b" using False by (simp add: frame_def b_def)
  then have r: "read_full 4 (take k (frame t p), CleanEnd) = (Inr (put_u32 ?n), (b, CleanEnd))"
    by (simp add: read_full_simps)
  have "\<not> length p + 1 \<le> length b" using assms(2) False by (auto simp: b_def min_def)
  from read_full_simps(2) [OF this] show ?thesis
    using False assms(1) n n0 r
    by (auto simp: ReadFrame_def Let_def frame_ok_def b_def split: prod.splits simp del: of_nat_Suc of_nat_add)
qed

lemma ReadFrame_shorter: "ReadFrame r = (Inr m, r') \<Longrightarrow> length (fst r') < length (fst r)"
  using ReadFrame_Inr [of "fst r" "snd r" "fst m" "snd m" r'] by auto

text \<open>A client or daemon reads frames until the first error.\<close>

function read_all :: "reader \<Rightarrow> (byte \<times> byte list) list \<times> frame_error" where
  "read_all r =
     (case ReadFrame r of
        (Inl e, r') \<Rightarrow> ([], e)
      | (Inr m, r') \<Rightarrow> (case read_all r' of (ms, e) \<Rightarrow> (m # ms, e)))"
  by pat_completeness auto
termination
  by (relation "measure (\<lambda>r. length (fst r))") (auto dest: ReadFrame_shorter [OF sym])

declare read_all.simps [simp del]

fun write_all_frames :: "(byte \<times> byte list) list \<Rightarrow> writer \<Rightarrow> writer \<times> frame_error option" where
  "write_all_frames [] w = (w, None)"
| "write_all_frames ((t, p) # ms) w =
     (case WriteFrame t p w of
        (w1, Some e) \<Rightarrow> (w1, Some e)
      | (w1, None) \<Rightarrow> write_all_frames ms w1)"

section \<open>The codec interface\<close>

primrec decode_n :: "('b list \<Rightarrow> ('m \<times> 'b list) option) \<Rightarrow> nat \<Rightarrow> 'b list \<Rightarrow> ('m list \<times> 'b list) option" where
  "decode_n dec 0 bs = Some ([], bs)"
| "decode_n dec (Suc n) bs =
     (case dec bs of
        None \<Rightarrow> None
      | Some (m, rest) \<Rightarrow> map_option (\<lambda>(ms, r). (m # ms, r)) (decode_n dec n rest))"

locale codec =
  fixes enc :: "'m \<Rightarrow> 'b list" and dec :: "'b list \<Rightarrow> ('m \<times> 'b list) option" and valid :: "'m \<Rightarrow> bool"
  assumes dec_iff: "dec bs = Some (m, rest) \<longleftrightarrow> bs = enc m @ rest \<and> valid m"
begin

lemma split_unique:
  assumes "valid m" "valid m'" "enc m @ r = enc m' @ r'"
  shows "m = m' \<and> r = r'"
proof -
  have "dec (enc m @ r) = Some (m, r)" "dec (enc m @ r) = Some (m', r')"
    using assms by (simp_all add: dec_iff)
  then show ?thesis by simp
qed

lemma decode_concat:
  "list_all valid ms \<Longrightarrow> decode_n dec (length ms) (concat (map enc ms) @ rest) = Some (ms, rest)"
proof (induction ms)
  case (Cons m ms)
  then have "dec (concat (map enc (m # ms)) @ rest) = Some (m, concat (map enc ms) @ rest)"
    by (simp add: dec_iff)
  with Cons show ?case by simp
qed simp

lemma concat_unique:
  assumes "list_all valid ms" "list_all valid ms'" "length ms = length ms'"
    and "concat (map enc ms) = concat (map enc ms')"
  shows "ms = ms'"
  using decode_concat [OF assms(1), of "[]"] decode_concat [OF assms(2), of "[]"] assms(3,4) by simp

end

definition dec_frame :: "byte list \<Rightarrow> ((byte \<times> byte list) \<times> byte list) option" where
  "dec_frame bs = (case ReadFrame (bs, CleanEnd) of (Inl e, r) \<Rightarrow> None | (Inr m, r) \<Rightarrow> Some (m, fst r))"

interpretation frames: codec "\<lambda>(t, p). frame t p" dec_frame "\<lambda>(t, p). frame_ok p"
proof
  fix bs and m :: "byte \<times> byte list" and rest
  obtain t p where m: "m = (t, p)" by (cases m)
  show "dec_frame bs = Some (m, rest) \<longleftrightarrow>
      bs = (case m of (t, p) \<Rightarrow> frame t p) @ rest \<and> (case m of (t, p) \<Rightarrow> frame_ok p)"
  proof
    assume "dec_frame bs = Some (m, rest)"
    then obtain r where "ReadFrame (bs, CleanEnd) = (Inr (t, p), r)" "rest = fst r"
      by (auto simp: dec_frame_def m split: prod.splits sum.splits)
    from ReadFrame_Inr [OF this(1)] this(2) show "bs = (case m of (t, p) \<Rightarrow> frame t p) @ rest \<and> (case m of (t, p) \<Rightarrow> frame_ok p)"
      by (auto simp: m)
  next
    assume "bs = (case m of (t, p) \<Rightarrow> frame t p) @ rest \<and> (case m of (t, p) \<Rightarrow> frame_ok p)"
    then show "dec_frame bs = Some (m, rest)"
      by (auto simp: dec_frame_def m ReadFrame_frame)
  qed
qed

definition dec_resize :: "byte list \<Rightarrow> ((16 word \<times> 16 word \<times> 16 word) \<times> byte list) option" where
  "dec_resize bs = (case DecodeResize (take 6 bs) of Inl e \<Rightarrow> None | Inr m \<Rightarrow> Some (m, drop 6 bs))"

lemma DecodeResize_iff: "DecodeResize bs = Inr (c, r, i) \<longleftrightarrow> bs = EncodeResize c r i"
proof
  assume d: "DecodeResize bs = Inr (c, r, i)"
  then have len: "length bs = 6" by (simp add: DecodeResize_def split: if_splits)
  then have "c = get_u16 (take 2 bs)" "r = get_u16 (take 2 (drop 2 bs))" "i = get_u16 (take 2 (drop 4 bs))"
    using d by (simp_all add: DecodeResize_def)
  then have "EncodeResize c r i = take 2 bs @ take 2 (drop 2 bs) @ take 2 (drop 4 bs)"
    using len by (simp add: EncodeResize_def put_get_u16)
  also have "\<dots> = bs" using len by (auto simp: length_Suc_conv numeral_eq_Suc)
  finally show "bs = EncodeResize c r i" ..
qed (simp add: DecodeResize_def EncodeResize_def)

interpretation resizes: codec "\<lambda>(c, r, i). EncodeResize c r i" dec_resize "\<lambda>m. True"
proof
  fix bs :: "byte list" and m :: "16 word \<times> 16 word \<times> 16 word" and rest
  obtain c r i where m: "m = (c, r, i)" by (cases m) auto
  have "dec_resize bs = Some ((c, r, i), rest) \<longleftrightarrow> take 6 bs = EncodeResize c r i \<and> rest = drop 6 bs"
    by (auto simp: dec_resize_def DecodeResize_iff [symmetric] split: sum.splits)
  also have "\<dots> \<longleftrightarrow> bs = EncodeResize c r i @ rest"
    by (auto simp: EncodeResize_def) (metis append_take_drop_id append_assoc)
  finally show "dec_resize bs = Some (m, rest) \<longleftrightarrow> bs = (case m of (c, r, i) \<Rightarrow> EncodeResize c r i) @ rest \<and> True"
    by (simp add: m)
qed

section \<open>Streams of frames\<close>

lemma write_bytes_eq:
  "write_bytes bs w = (case w_room w of
     None \<Rightarrow> (w\<lparr>w_out := w_out w @ bs\<rparr>, None)
   | Some k \<Rightarrow> (w\<lparr>w_out := w_out w @ take k bs, w_room := Some (k - length bs)\<rparr>,
       if length bs \<le> k then None
       else Some (case w_end w of Deadline \<Rightarrow> DeadlineExceeded | Broken e \<Rightarrow> IOError e | CleanEnd \<Rightarrow> IOError [])))"
  by (auto simp: write_bytes_def split: option.splits)

lemma WriteFrame_ok:
  assumes "frame_ok p"
  shows "fst (WriteFrame t p w) = w\<lparr>w_out := w_out w @ (case w_room w of None \<Rightarrow> frame t p | Some k \<Rightarrow> take k (frame t p)),
      w_room := map_option (\<lambda>k. k - length (frame t p)) (w_room w)\<rparr>"
    "snd (WriteFrame t p w) = None \<longleftrightarrow> (\<forall>k. w_room w = Some k \<longrightarrow> length (frame t p) \<le> k)"
  using assms
  by (auto simp: WriteFrame_def Let_def write_bytes_eq frame_ok_def frame_def take_Cons' split: option.splits)

lemma write_all_frames_ok:
  assumes "list_all (\<lambda>(t, p). frame_ok p) ms"
  shows "w_out (fst (write_all_frames ms w)) = w_out w @
      (case w_room w of None \<Rightarrow> concat (map (\<lambda>(t, p). frame t p) ms)
       | Some k \<Rightarrow> take k (concat (map (\<lambda>(t, p). frame t p) ms)))"
    "snd (write_all_frames ms w) = None \<longleftrightarrow>
       (\<forall>k. w_room w = Some k \<longrightarrow> length (concat (map (\<lambda>(t, p). frame t p) ms)) \<le> k)"
proof -
  have "w_out (fst (write_all_frames ms w)) = w_out w @
      (case w_room w of None \<Rightarrow> concat (map (\<lambda>(t, p). frame t p) ms)
       | Some k \<Rightarrow> take k (concat (map (\<lambda>(t, p). frame t p) ms))) \<and>
    (snd (write_all_frames ms w) = None \<longleftrightarrow>
       (\<forall>k. w_room w = Some k \<longrightarrow> length (concat (map (\<lambda>(t, p). frame t p) ms)) \<le> k))"
    using assms
  proof (induction ms arbitrary: w)
    case (Cons m ms)
    obtain t p where m: "m = (t, p)" by (cases m)
    then have ok: "frame_ok p" and oks: "list_all (\<lambda>(t, p). frame_ok p) ms" using Cons.prems by simp_all
    obtain w1 r where wf: "WriteFrame t p w = (w1, r)" by (cases "WriteFrame t p w")
    note one = WriteFrame_ok [OF ok, of t w, unfolded wf fst_conv snd_conv]
    show ?case
    proof (cases r)
      case None
      then show ?thesis using one Cons.IH [OF oks, of w1]
        by (cases "w_room w") (auto simp: m wf)
    next
      case (Some e)
      then obtain k where "w_room w = Some k" "k < length (frame t p)" using one(2) by (auto simp: not_le)
      then show ?thesis using one Some by (auto simp: m wf)
    qed
  qed (auto split: option.splits)
  then show "w_out (fst (write_all_frames ms w)) = w_out w @
      (case w_room w of None \<Rightarrow> concat (map (\<lambda>(t, p). frame t p) ms)
       | Some k \<Rightarrow> take k (concat (map (\<lambda>(t, p). frame t p) ms)))"
    "snd (write_all_frames ms w) = None \<longleftrightarrow>
       (\<forall>k. w_room w = Some k \<longrightarrow> length (concat (map (\<lambda>(t, p). frame t p) ms)) \<le> k)" by blast+
qed

lemma read_all_take:
  "list_all (\<lambda>(t, p). frame_ok p) ms \<Longrightarrow> \<exists>j err. j \<le> length ms \<and> err \<in> {EOF, UnexpectedEOF} \<and>
     read_all (take k (concat (map (\<lambda>(t, p). frame t p) ms)), CleanEnd) = (take j ms, err) \<and>
     (length (concat (map (\<lambda>(t, p). frame t p) ms)) \<le> k \<longrightarrow> j = length ms \<and> err = EOF)"
proof (induction ms arbitrary: k)
  case Nil
  show ?case
    by (subst read_all.simps) (simp add: ReadFrame_def read_full_def)
next
  case (Cons m ms)
  obtain t p where m: "m = (t, p)" by (cases m)
  then have ok: "frame_ok p" and oks: "list_all (\<lambda>(t, p). frame_ok p) ms" using Cons.prems by simp_all
  let ?rest = "concat (map (\<lambda>(t, p). frame t p) ms)"
  show ?case
  proof (cases "k < length (frame t p)")
    case True
    then have "take k (concat (map (\<lambda>(t, p). frame t p) (m # ms))) = take k (frame t p)" by (simp add: m)
    moreover have "fst (ReadFrame (take k (frame t p), CleanEnd)) = Inl (if k = 0 \<or> k = 4 then EOF else UnexpectedEOF)"
      using ok True by (rule ReadFrame_partial)
    then have "read_all (take k (frame t p), CleanEnd) = (take 0 (m # ms), if k = 0 \<or> k = 4 then EOF else UnexpectedEOF)"
      by (subst read_all.simps) (auto split: prod.splits)
    ultimately show ?thesis
      using True by (intro exI [of _ 0] exI [of _ "if k = 0 \<or> k = 4 then EOF else UnexpectedEOF"]) (simp add: m)
  next
    case False
    let ?k = "k - length (frame t p)"
    have "take k (concat (map (\<lambda>(t, p). frame t p) (m # ms))) = frame t p @ take ?k ?rest" using False by (simp add: m)
    moreover have "read_all (frame t p @ take ?k ?rest, CleanEnd) =
        (case read_all (take ?k ?rest, CleanEnd) of (xs, e) \<Rightarrow> ((t, p) # xs, e))"
      by (subst read_all.simps) (simp add: ReadFrame_frame [OF ok])
    moreover obtain j err where "j \<le> length ms" "err \<in> {EOF, UnexpectedEOF}"
      "read_all (take ?k ?rest, CleanEnd) = (take j ms, err)"
      "length ?rest \<le> ?k \<longrightarrow> j = length ms \<and> err = EOF" using Cons.IH [OF oks, of ?k] by blast
    ultimately show ?thesis
      using False by (intro exI [of _ "Suc j"] exI [of _ err]) (auto simp: m)
  qed
qed

section \<open>Properties\<close>


text \<open>A connection that breaks at any byte delivers a prefix of the messages sent and never a wrong one:
  whatever the point at which the writer stops, the reader gets the first \<open>j\<close> messages and then an
  end-of-input error, and all of them when every write succeeded.\<close>

theorem frame_stream_prefix:
  assumes "list_all (\<lambda>(t, p). length p + 1 \<le> MaxFrameSize) ms"
    and "write_all_frames ms \<lparr>w_out = [], w_room = room, w_end = fin\<rparr> = (w, res)"
  shows "\<exists>j err. read_all (w_out w, CleanEnd) = (take j ms, err) \<and> j \<le> length ms \<and> err \<in> {EOF, UnexpectedEOF} \<and>
    (res = None \<longrightarrow> j = length ms \<and> err = EOF)"
proof -
  let ?all = "concat (map (\<lambda>(t, p). frame t p) ms)"
  have ok: "list_all (\<lambda>(t, p). frame_ok p) ms" using assms(1) by (simp add: frame_ok_def)
  note r = write_all_frames_ok [OF ok, of "\<lparr>w_out = [], w_room = room, w_end = fin\<rparr>", unfolded assms(2) fst_conv snd_conv]
  obtain k where k: "w_out w = take k ?all" "res = None \<longrightarrow> length ?all \<le> k"
  proof (cases room)
    case None
    show ?thesis by (rule that [of "length ?all"]) (use r None in simp_all)
  next
    case (Some k)
    show ?thesis by (rule that [of k]) (use r Some in simp_all)
  qed
  obtain j err where "j \<le> length ms" "err \<in> {EOF, UnexpectedEOF}" "read_all (take k ?all, CleanEnd) = (take j ms, err)"
    "length ?all \<le> k \<longrightarrow> j = length ms \<and> err = EOF" using read_all_take [OF ok, of k] by blast
  with k show ?thesis by (intro exI [of _ j] exI [of _ err]) auto
qed

theorem frame_stream_prefix_witness:
  "\<exists>j err. read_all (w_out (fst (write_all_frames [(1, [7, 8]), (2, [9])]
      \<lparr>w_out = [], w_room = Some 9, w_end = Deadline\<rparr>)), CleanEnd) = (take j [(1, [7, 8]), (2, [9])], err) \<and> j \<le> 2"
proof -
  let ?r = "write_all_frames [(1, [7, 8]), (2, [9])] \<lparr>w_out = [], w_room = Some 9, w_end = Deadline\<rparr>"
  have r: "?r = (fst ?r, snd ?r)" by simp
  have ok: "list_all (\<lambda>(t, p). length p + 1 \<le> MaxFrameSize) [(1 :: byte, [7, 8 :: byte]), (2, [9])]"
    by (simp add: MaxFrameSize_def)
  from frame_stream_prefix [OF ok r] show ?thesis by auto
qed

text \<open>A frame cut short is reported as a clean disconnect, not as a partial frame, when the cut falls
  right after the four length bytes; at every other inner byte it is reported as partial.\<close>

theorem ReadFrame_truncated:
  assumes "length p + 1 \<le> MaxFrameSize" and "k < length p + 5"
    and "WriteFrame t p \<lparr>w_out = [], w_room = None, w_end = CleanEnd\<rparr> = (w, None)"
  shows "fst (ReadFrame (take k (w_out w), CleanEnd)) = Inl (if k = 0 \<or> k = 4 then EOF else UnexpectedEOF)"
proof -
  have ok: "frame_ok p" using assms(1) by (simp add: frame_ok_def)
  have "w_out w = frame t p"
    using WriteFrame_ok(1) [OF ok, of t "\<lparr>w_out = [], w_room = None, w_end = CleanEnd\<rparr>"] assms(3) by simp
  then show ?thesis using ReadFrame_partial [OF ok, of k t] assms(2) by simp
qed

theorem ReadFrame_truncated_witness:
  "fst (ReadFrame (take 4 (w_out (fst (WriteFrame 1 [7] \<lparr>w_out = [], w_room = None, w_end = CleanEnd\<rparr>))), CleanEnd)) = Inl EOF"
proof -
  let ?r = "WriteFrame 1 [7] \<lparr>w_out = [], w_room = None, w_end = CleanEnd\<rparr>"
  have "snd ?r = None" by (simp add: WriteFrame_ok(2) frame_ok_def MaxFrameSize_def)
  then have "?r = (fst ?r, None)" by (metis prod.collapse)
  from ReadFrame_truncated [OF _ _ this, of 4] show ?thesis by (simp add: MaxFrameSize_def)
qed

text \<open>Resize payloads are an exact codec on all of \<^verbatim>\<open>uint16\<close>: a payload decodes to a triple exactly when it
  is the encoding of that triple, so every other payload is refused.\<close>

theorem DecodeResize_exact:
  "(DecodeResize bs = Inr (cols, rows, clientID)) = (bs = EncodeResize cols rows clientID) \<and>
   (DecodeResize bs = Inl InvalidResize) = (length bs \<noteq> 6)"
  by (simp add: DecodeResize_iff) (simp add: DecodeResize_def)

end
