(* ===== verification/Pane.thy ===== *)
theory Pane
  imports Frame
begin

text \<open>
  \<^verbatim>\<open>internal/terminal/pane.go\<close>: the PTY-backed pane as the daemon uses it, that is its lifecycle (start,
  graceful and immediate stop, teardown), the read loop, the bounded event subscriptions, the bounded input
  queue with its wedge clock, and the lock-free size mirror.  The operating system and the terminal
  emulator are outside: an operation returns the signals it sends, reads of the PTY and the callbacks
  the emulator makes while it consumes bytes are arguments.  Each definition is one critical section of
  the code or a sequence of them.  Rendering (\<^verbatim>\<open>dirty\<close>, \<^verbatim>\<open>cachedView\<close>, selection, mouse and key translation)
  is not modelled.
\<close>

section \<open>State\<close>

datatype event = OutputEvent "byte list" | ExitEvent string | TitleEvent "byte list" | ModeEvent bool bool bool

text \<open>A buffered Go channel of events.\<close>

record chan =
  ch_buf :: "event list"
  ch_closed :: bool

definition subscriberChanCapacity :: nat where "subscriberChanCapacity = 256"
definition inputChanCapacity :: nat where "inputChanCapacity = 256"

datatype loop = NotStarted | Looping | Finished

text \<open>
  \<open>p_vt\<close> is the size of the emulator once there is one, \<open>p_winch\<close> the window sizes set on the PTY so
  far.  \<open>p_chans\<close> holds every channel that \<^verbatim>\<open>Subscribe\<close> ever made, in order; \<open>p_subscribers\<close> and the
  subscribers' own references are indices into it.
\<close>

record Pane =
  p_id :: string
  p_workdir :: string
  p_sessionName :: string
  p_ticketID :: string
  p_width :: int
  p_height :: int
  p_running :: bool
  p_exitErr :: "string option"
  p_runningAtomic :: bool
  p_pid :: int
  p_pgid :: int
  p_dims :: "64 word"
  p_pty :: bool
  p_vt :: "(int \<times> int) option"
  p_winch :: "(16 word \<times> 16 word) list"
  p_inputCh :: "byte list list option"
  p_inputStop :: bool
  p_tornDown :: bool
  p_wedgedSinceNs :: time
  p_lastWedgeNs :: time
  p_expectedCompletedExit :: bool
  p_mouseEnabled :: bool
  p_altScreenActive :: bool
  p_cursorHidden :: bool
  p_forwardNotifications :: bool
  p_lastActivityNs :: time
  p_title :: "byte list"
  p_scrollbackSize :: int
  p_loop :: loop
  p_readLoopStopped :: bool
  p_subscribers :: "nat list"
  p_chans :: "chan list"

section \<open>Dimensions\<close>

definition packDims :: "int \<Rightarrow> int \<Rightarrow> 64 word" where
  "packDims width height =
     (let w = (if width < 0 then 0 else width); h = (if height < 0 then 0 else height) in
      push_bit 32 (ucast (word_of_int w :: 32 word)) OR ucast (word_of_int h :: 32 word))"

definition unpackDims :: "64 word \<Rightarrow> int \<times> int" where
  "unpackDims v = (uint (ucast (drop_bit 32 v) :: 32 word), uint (ucast v :: 32 word))"

definition New :: "string \<Rightarrow> int \<Rightarrow> int \<Rightarrow> int \<Rightarrow> Pane" where
  "New i width height scrollback =
     \<lparr>p_id = i, p_workdir = [], p_sessionName = [], p_ticketID = [], p_width = width, p_height = height,
      p_running = False, p_exitErr = None, p_runningAtomic = False, p_pid = 0, p_pgid = 0,
      p_dims = packDims width height, p_pty = False, p_vt = None, p_winch = [], p_inputCh = None,
      p_inputStop = False, p_tornDown = False, p_wedgedSinceNs = 0, p_lastWedgeNs = 0,
      p_expectedCompletedExit = False, p_mouseEnabled = False, p_altScreenActive = False,
      p_cursorHidden = False, p_forwardNotifications = False, p_lastActivityNs = 0, p_title = [],
      p_scrollbackSize = (if scrollback \<le> 0 then 10000 else scrollback), p_loop = NotStarted,
      p_readLoopStopped = False, p_subscribers = [], p_chans = []\<rparr>"

definition Size :: "Pane \<Rightarrow> int \<times> int" where
  "Size p = unpackDims (p_dims p)"

definition SetSize :: "int \<Rightarrow> int \<Rightarrow> Pane \<Rightarrow> Pane" where
  "SetSize width height p =
     (if p_width p = width \<and> p_height p = height then p
      else p\<lparr>p_width := width, p_height := height, p_dims := packDims width height,
             p_vt := map_option (\<lambda>_. (width, height)) (p_vt p),
             p_winch := (if p_pty p \<and> p_running p then p_winch p @ [(word_of_int height, word_of_int width)]
                         else p_winch p)\<rparr>)"

section \<open>Subscriptions\<close>

text \<open>The non-blocking send; \<open>None\<close> is the panic of a send on a closed channel.\<close>

definition try_send :: "event \<Rightarrow> chan \<Rightarrow> chan option" where
  "try_send ev c =
     (if ch_closed c then None
      else Some (if length (ch_buf c) < subscriberChanCapacity then c\<lparr>ch_buf := ch_buf c @ [ev]\<rparr> else c))"

text \<open>\<open>close\<close>; \<open>None\<close> is the panic of closing a closed channel.\<close>

definition close_chan :: "chan \<Rightarrow> chan option" where
  "close_chan c = (if ch_closed c then None else Some (c\<lparr>ch_closed := True\<rparr>))"

fun send_each :: "event \<Rightarrow> bool \<Rightarrow> nat list \<Rightarrow> chan list \<Rightarrow> chan list option" where
  "send_each ev closing [] cs = Some cs"
| "send_each ev closing (n # ns) cs =
     (case try_send ev (cs ! n) of
        None \<Rightarrow> None
      | Some c \<Rightarrow>
          (case (if closing then close_chan c else Some c) of
             None \<Rightarrow> None
           | Some c' \<Rightarrow> send_each ev closing ns (cs[n := c'])))"

definition publish :: "event \<Rightarrow> Pane \<Rightarrow> Pane option" where
  "publish ev p = map_option (\<lambda>cs. p\<lparr>p_chans := cs\<rparr>) (send_each ev False (p_subscribers p) (p_chans p))"

definition publishExit :: "string \<Rightarrow> Pane \<Rightarrow> Pane option" where
  "publishExit err p =
     map_option (\<lambda>cs. p\<lparr>p_chans := cs, p_subscribers := []\<rparr>)
       (send_each (ExitEvent err) True (p_subscribers p) (p_chans p))"

definition not_ready :: string where
  "not_ready = ''read loop started before PTY ready''"

definition startReadLoop :: "Pane \<Rightarrow> Pane option" where
  "startReadLoop p =
     (if p_loop p \<noteq> NotStarted then Some p
      else if \<not> p_pty p then publishExit not_ready (p\<lparr>p_loop := Finished\<rparr>)
      else Some (p\<lparr>p_loop := Looping\<rparr>))"

definition Subscribe :: "Pane \<Rightarrow> (Pane \<times> nat) option" where
  "Subscribe p =
     (let n = length (p_chans p);
          p1 = p\<lparr>p_chans := p_chans p @ [\<lparr>ch_buf = [], ch_closed = False\<rparr>],
                p_subscribers := p_subscribers p @ [n]\<rparr> in
      map_option (\<lambda>p2. (p2, n)) (startReadLoop p1))"

text \<open>The function \<^verbatim>\<open>Subscribe\<close> returns; its \<^verbatim>\<open>sync.Once\<close> makes later calls no-ops, as the absence from
  \<open>p_subscribers\<close> does here.\<close>

definition cancel :: "nat \<Rightarrow> Pane \<Rightarrow> Pane option" where
  "cancel n p =
     (if n \<in> set (p_subscribers p)
      then map_option (\<lambda>c. p\<lparr>p_subscribers := remove1 n (p_subscribers p), p_chans := (p_chans p)[n := c]\<rparr>)
             (close_chan (p_chans p ! n))
      else Some p)"

text \<open>The consumer's receive: \<open>None\<close> blocks, \<open>Some None\<close> is the end of a closed channel.\<close>

definition recv :: "nat \<Rightarrow> Pane \<Rightarrow> (event option \<times> Pane) option" where
  "recv n p =
     (case ch_buf (p_chans p ! n) of
        ev # evs \<Rightarrow> Some (Some ev, p\<lparr>p_chans := (p_chans p)[n := (p_chans p ! n)\<lparr>ch_buf := evs\<rparr>]\<rparr>)
      | [] \<Rightarrow> if ch_closed (p_chans p ! n) then Some (None, p) else None)"

section \<open>Output\<close>

definition bytes_of :: "string \<Rightarrow> byte list" where
  "bytes_of s = map of_char s"

definition esc :: "string \<Rightarrow> byte list" where
  "esc s = 27 # bytes_of s"

definition mouse_enable_seqs :: "byte list list" where
  "mouse_enable_seqs = [esc ''[?1000h'', esc ''[?1002h'', esc ''[?1003h'', esc ''[?1006h'']"

definition mouse_disable_seqs :: "byte list list" where
  "mouse_disable_seqs = [esc ''[?1000l'', esc ''[?1002l'', esc ''[?1003l'', esc ''[?1006l'']"

definition alt_enable_seqs :: "byte list list" where
  "alt_enable_seqs = [esc ''[?1049h'', esc ''[?47h'']"

definition alt_disable_seqs :: "byte list list" where
  "alt_disable_seqs = [esc ''[?1049l'', esc ''[?47l'']"

definition publishModeEventLocked :: "Pane \<Rightarrow> Pane option" where
  "publishModeEventLocked p = publish (ModeEvent (p_mouseEnabled p) (p_altScreenActive p) (p_cursorHidden p)) p"

definition detectMouseModeChanges :: "byte list \<Rightarrow> Pane \<Rightarrow> Pane option" where
  "detectMouseModeChanges d p =
     (if list_ex (contains d) mouse_enable_seqs then
        (if p_mouseEnabled p then Some p else publishModeEventLocked (p\<lparr>p_mouseEnabled := True\<rparr>))
      else if list_ex (contains d) mouse_disable_seqs then
        (if p_mouseEnabled p then publishModeEventLocked (p\<lparr>p_mouseEnabled := False\<rparr>) else Some p)
      else Some p)"

definition detectAltScreenChanges :: "byte list \<Rightarrow> Pane \<Rightarrow> Pane option" where
  "detectAltScreenChanges d p =
     (if list_ex (contains d) alt_enable_seqs then
        (if p_altScreenActive p then Some p else publishModeEventLocked (p\<lparr>p_altScreenActive := True\<rparr>))
      else if list_ex (contains d) alt_disable_seqs then
        (if p_altScreenActive p then publishModeEventLocked (p\<lparr>p_altScreenActive := False\<rparr>) else Some p)
      else Some p)"

text \<open>What the emulator calls while it consumes bytes: the title handler, the notification handler, or the
  cursor-visibility callback.\<close>

datatype vt_call = OscTitle "byte list" | OscNotify "byte list" | CursorVisibility bool

definition parseOscTitlePayload :: "byte list \<Rightarrow> byte list" where
  "parseOscTitlePayload d =
     (let digit = (\<lambda>b. 48 \<le> b \<and> b \<le> 57); i = length (takeWhile digit d) in
      if i > 0 \<and> i < length d \<and> d ! i = 59 then drop (i + 1) d else d)"

definition payloadContainsLetter :: "(rune \<Rightarrow> bool) \<Rightarrow> byte list \<Rightarrow> bool" where
  "payloadContainsLetter is_letter s = list_ex is_letter (decode_runes (map unat s))"

text \<open>The result is the notification sent, if any.\<close>

definition forwardNotificationHandler :: "(rune \<Rightarrow> bool) \<Rightarrow> byte list \<Rightarrow> Pane \<Rightarrow> byte list option" where
  "forwardNotificationHandler is_letter d p =
     (if \<not> p_forwardNotifications p then None
      else let body = parseOscTitlePayload d in
        if body = [] \<or> \<not> payloadContainsLetter is_letter body then None else Some body)"

definition title_handler :: "byte list \<Rightarrow> Pane \<Rightarrow> Pane option" where
  "title_handler d p =
     (let t = parseOscTitlePayload d in publish (TitleEvent t) (p\<lparr>p_title := t\<rparr>))"

definition cursor_handler :: "bool \<Rightarrow> Pane \<Rightarrow> Pane option" where
  "cursor_handler visible p =
     (let newHidden = \<not> visible; prev = p_cursorHidden p; p1 = p\<lparr>p_cursorHidden := newHidden\<rparr> in
      if prev \<noteq> newHidden then publish (ModeEvent (p_mouseEnabled p1) (p_altScreenActive p1) newHidden) p1
      else Some p1)"

fun vt_calls :: "(rune \<Rightarrow> bool) \<Rightarrow> vt_call list \<Rightarrow> Pane \<Rightarrow> (Pane \<times> byte list list) option" where
  "vt_calls L [] p = Some (p, [])"
| "vt_calls L (OscTitle d # cs) p =
     (case title_handler d p of None \<Rightarrow> None | Some p1 \<Rightarrow> vt_calls L cs p1)"
| "vt_calls L (CursorVisibility v # cs) p =
     (case cursor_handler v p of None \<Rightarrow> None | Some p1 \<Rightarrow> vt_calls L cs p1)"
| "vt_calls L (OscNotify d # cs) p =
     map_option (\<lambda>(p1, ns). (p1, (case forwardNotificationHandler L d p of None \<Rightarrow> [] | Some b \<Rightarrow> [b]) @ ns))
       (vt_calls L cs p)"

definition handleOutput :: "(rune \<Rightarrow> bool) \<Rightarrow> vt_call list \<Rightarrow> time \<Rightarrow> byte list \<Rightarrow> Pane \<Rightarrow> (Pane \<times> byte list list) option" where
  "handleOutput L calls now d p =
     (if p_vt p = None then Some (p, [])
      else case detectMouseModeChanges d p of
        None \<Rightarrow> None
      | Some p1 \<Rightarrow>
          (case detectAltScreenChanges d p1 of
             None \<Rightarrow> None
           | Some p2 \<Rightarrow>
               map_option (\<lambda>(p3, ns). (if d \<noteq> [] then p3\<lparr>p_lastActivityNs := now\<rparr> else p3, ns)) (vt_calls L calls p2)))"

definition LastActivity :: "Pane \<Rightarrow> time option" where
  "LastActivity p = (if p_lastActivityNs p = 0 then None else Some (p_lastActivityNs p))"

text \<open>One turn of the read loop: the stop channel is looked at first, then the read returns bytes, an error,
  or both.\<close>

definition read_turn ::
  "(rune \<Rightarrow> bool) \<Rightarrow> vt_call list \<Rightarrow> time \<Rightarrow> byte list \<Rightarrow> string option \<Rightarrow> Pane \<Rightarrow> Pane option" where
  "read_turn L calls now d err p =
     (if p_loop p \<noteq> Looping then Some p
      else if p_readLoopStopped p then publishExit ''EOF'' (p\<lparr>p_loop := Finished\<rparr>)
      else
        case (if d = [] then Some p
              else case handleOutput L calls now d p of None \<Rightarrow> None | Some (p1, _) \<Rightarrow> publish (OutputEvent d) p1) of
          None \<Rightarrow> None
        | Some p2 \<Rightarrow> (case err of None \<Rightarrow> Some p2 | Some e \<Rightarrow> publishExit e (p2\<lparr>p_loop := Finished\<rparr>)))"

section \<open>Input\<close>

datatype input_error = PaneNotRunning | InputBackpressure

definition wedgeRecency :: time where "wedgeRecency = 2000000000"

definition WriteInput :: "time \<Rightarrow> byte list \<Rightarrow> Pane \<Rightarrow> Pane \<times> input_error option" where
  "WriteInput now d p =
     (if \<not> p_runningAtomic p then (p, Some PaneNotRunning)
      else case p_inputCh p of
        None \<Rightarrow> (p, Some PaneNotRunning)
      | Some q \<Rightarrow>
          if length q < inputChanCapacity then (p\<lparr>p_inputCh := Some (q @ [d])\<rparr>, None)
          else
            (let lst = p_lastWedgeNs p;
                 p1 = (if lst = 0 \<or> now - lst > wedgeRecency then p\<lparr>p_wedgedSinceNs := now\<rparr> else p) in
             (p1\<lparr>p_lastWedgeNs := now\<rparr>, Some InputBackpressure)))"

definition WedgedSince :: "time \<Rightarrow> Pane \<Rightarrow> time option" where
  "WedgedSince now p =
     (if p_lastWedgeNs p = 0 \<or> now - p_lastWedgeNs p > wedgeRecency then None
      else if p_wedgedSinceNs p = 0 then None
      else Some (p_wedgedSinceNs p))"

text \<open>The writer goroutine takes one chunk; the result is what it writes to the PTY.\<close>

definition writer_turn :: "Pane \<Rightarrow> Pane \<times> byte list option" where
  "writer_turn p =
     (if p_inputStop p then (p, None)
      else case p_inputCh p of Some (d # q) \<Rightarrow> (p\<lparr>p_inputCh := Some q\<rparr>, Some d) | _ \<Rightarrow> (p, None))"

section \<open>Starting and stopping\<close>

text \<open>\<open>Inr (pid, pgid)\<close> is a successful fork, with \<open>pgid = None\<close> when \<^verbatim>\<open>Getpgid\<close> fails.\<close>

definition StartHeadless :: "string + int \<times> int option \<Rightarrow> Pane \<Rightarrow> (Pane \<times> string option) option" where
  "StartHeadless fork p =
     (case fork of
        Inl e \<Rightarrow> Some (p\<lparr>p_exitErr := Some e\<rparr>, Some e)
      | Inr (pid, pgid) \<Rightarrow>
          map_option (\<lambda>p2. (p2, None))
            (startReadLoop
              (p\<lparr>p_pty := True, p_running := True, p_exitErr := None, p_inputCh := Some [], p_inputStop := False,
                 p_runningAtomic := True, p_dims := packDims (p_width p) (p_height p), p_pid := pid,
                 p_pgid := (case pgid of None \<Rightarrow> p_pgid p | Some g \<Rightarrow> g),
                 p_vt := Some (p_width p, p_height p), p_cursorHidden := False\<rparr>)))"

definition MarkExpectedCompletedExit :: "Pane \<Rightarrow> Pane" where
  "MarkExpectedCompletedExit p = p\<lparr>p_expectedCompletedExit := True\<rparr>"

datatype signal = SIGTERM | SIGKILL
datatype target = Group int | Pid int

text \<open>\<open>own\<close> is the daemon's process group.  The result is the \<^verbatim>\<open>kill(2)\<close> call made, if any.\<close>

definition signalGroup :: "int \<Rightarrow> signal \<Rightarrow> Pane \<Rightarrow> (target \<times> signal) list" where
  "signalGroup own sg p =
     (if p_pgid p > 0 \<and> p_pgid p \<noteq> own \<and> p_pgid p \<noteq> 1 then [(Group (p_pgid p), sg)]
      else if p_pid p > 0 then [(Pid (p_pid p), sg)]
      else [])"

definition doTeardown :: "int \<Rightarrow> bool \<Rightarrow> Pane \<Rightarrow> Pane \<times> (target \<times> signal) list" where
  "doTeardown own alreadyKilled p =
     (let sent = (if alreadyKilled then [] else signalGroup own SIGKILL p);
          p1 = p\<lparr>p_pgid := 0\<rparr>;
          p2 = p1\<lparr>p_pty := False, p_running := False, p_runningAtomic := False,
                  p_inputStop := (p_inputCh p1 \<noteq> None \<or> p_inputStop p1)\<rparr>;
          p3 = (if p_loop p2 \<noteq> NotStarted then p2\<lparr>p_readLoopStopped := True\<rparr> else p2) in
      (p3, sent))"

definition teardownUnlocked :: "int \<Rightarrow> bool \<Rightarrow> Pane \<Rightarrow> Pane \<times> (target \<times> signal) list" where
  "teardownUnlocked own alreadyKilled p =
     (if p_tornDown p then (p, []) else doTeardown own alreadyKilled (p\<lparr>p_tornDown := True\<rparr>))"

definition Stop :: "int \<Rightarrow> Pane \<Rightarrow> Pane \<times> (target \<times> signal) list" where
  "Stop own p = teardownUnlocked own False p"

text \<open>\<^verbatim>\<open>StopGraceful\<close> up to its wait, and after it; other goroutines run in between.\<close>

definition StopGraceful_term :: "int \<Rightarrow> Pane \<Rightarrow> bool \<times> (target \<times> signal) list" where
  "StopGraceful_term own p = (if \<not> p_running p then (False, []) else (True, signalGroup own SIGTERM p))"

definition StopGraceful_kill :: "int \<Rightarrow> Pane \<Rightarrow> Pane \<times> (target \<times> signal) list" where
  "StopGraceful_kill own p =
     (let sent = signalGroup own SIGKILL p in
      case teardownUnlocked own True p of (p1, sent1) \<Rightarrow> (p1, sent @ sent1))"

definition StopGraceful :: "int \<Rightarrow> Pane \<Rightarrow> Pane \<times> (target \<times> signal) list" where
  "StopGraceful own p =
     (case StopGraceful_term own p of
        (False, sent) \<Rightarrow> (p, sent)
      | (True, sent) \<Rightarrow> (case StopGraceful_kill own p of (p1, sent1) \<Rightarrow> (p1, sent @ sent1)))"

section \<open>Lemmas\<close>

lemma capacity_pos [simp]: "0 < subscriberChanCapacity"
  by (simp add: subscriberChanCapacity_def)

text \<open>The effect of one delivery on a channel that is open.\<close>

definition delivered :: "event \<Rightarrow> bool \<Rightarrow> chan \<Rightarrow> chan" where
  "delivered ev closing c =
     c\<lparr>ch_buf := (if length (ch_buf c) < subscriberChanCapacity then ch_buf c @ [ev] else ch_buf c),
       ch_closed := closing\<rparr>"

lemma send_each_open:
  "distinct ns \<Longrightarrow> \<forall>n \<in> set ns. n < length cs \<and> \<not> ch_closed (cs ! n) \<Longrightarrow>
   \<exists>cs'. send_each ev closing ns cs = Some cs' \<and> length cs' = length cs \<and>
     (\<forall>i < length cs. cs' ! i = (if i \<in> set ns then delivered ev closing (cs ! i) else cs ! i))"
proof (induction ns arbitrary: cs)
  case (Cons n ns)
  have n: "n < length cs" "\<not> ch_closed (cs ! n)" using Cons.prems by auto
  let ?cs = "cs[n := delivered ev closing (cs ! n)]"
  have step: "send_each ev closing (n # ns) cs = send_each ev closing ns ?cs"
    using n(2) by (cases closing; cases "cs ! n") (auto simp: try_send_def close_chan_def delivered_def)
  have "\<forall>m \<in> set ns. m < length ?cs \<and> \<not> ch_closed (?cs ! m)"
    using Cons.prems by (auto simp: nth_list_update)
  with Cons.IH [of ?cs] Cons.prems obtain cs' where "send_each ev closing ns ?cs = Some cs'"
    "length cs' = length cs" "\<forall>i < length cs. cs' ! i = (if i \<in> set ns then delivered ev closing (?cs ! i) else ?cs ! i)"
    by auto
  then show ?case using step Cons.prems(1) n(1) by (intro exI [of _ cs']) (auto simp: nth_list_update)
qed simp

text \<open>The well-formedness of the subscription table: exactly the registered channels are open, none is
  over its capacity, and the size mirror agrees with the size.\<close>

definition pane_wf :: "Pane \<Rightarrow> bool" where
  "pane_wf p \<longleftrightarrow> distinct (p_subscribers p) \<and> set (p_subscribers p) \<subseteq> {..<length (p_chans p)} \<and>
     (\<forall>i < length (p_chans p). length (ch_buf (p_chans p ! i)) \<le> subscriberChanCapacity \<and>
        (i \<in> set (p_subscribers p) \<longrightarrow> \<not> ch_closed (p_chans p ! i))) \<and>
     p_dims p = packDims (p_width p) (p_height p)"

lemma pane_wf_New: "pane_wf (New i w h sb)"
  by (simp add: pane_wf_def New_def)

lemma publish_wf:
  assumes "pane_wf p"
  obtains cs where "publish ev p = Some (p\<lparr>p_chans := cs\<rparr>)" "pane_wf (p\<lparr>p_chans := cs\<rparr>)" "length cs = length (p_chans p)"
    "\<forall>i < length (p_chans p). cs ! i = (if i \<in> set (p_subscribers p) then delivered ev False (p_chans p ! i) else p_chans p ! i)"
proof -
  obtain cs where cs: "send_each ev False (p_subscribers p) (p_chans p) = Some cs" "length cs = length (p_chans p)"
    "\<forall>i < length (p_chans p). cs ! i = (if i \<in> set (p_subscribers p) then delivered ev False (p_chans p ! i) else p_chans p ! i)"
    using send_each_open [of "p_subscribers p" "p_chans p" ev False] assms by (auto simp: pane_wf_def)
  have "pane_wf (p\<lparr>p_chans := cs\<rparr>)"
    using assms cs(2,3) by (auto simp: pane_wf_def delivered_def)
  with cs show ?thesis by (intro that [of cs]) (auto simp: publish_def)
qed

lemma publishExit_wf:
  assumes "pane_wf p"
  obtains cs where "publishExit e p = Some (p\<lparr>p_chans := cs, p_subscribers := []\<rparr>)"
    "pane_wf (p\<lparr>p_chans := cs, p_subscribers := []\<rparr>)" "length cs = length (p_chans p)"
    "\<forall>i < length (p_chans p). cs ! i = (if i \<in> set (p_subscribers p) then delivered (ExitEvent e) True (p_chans p ! i) else p_chans p ! i)"
proof -
  obtain cs where cs: "send_each (ExitEvent e) True (p_subscribers p) (p_chans p) = Some cs" "length cs = length (p_chans p)"
    "\<forall>i < length (p_chans p). cs ! i = (if i \<in> set (p_subscribers p) then delivered (ExitEvent e) True (p_chans p ! i) else p_chans p ! i)"
    using send_each_open [of "p_subscribers p" "p_chans p" "ExitEvent e" True] assms by (auto simp: pane_wf_def)
  have "pane_wf (p\<lparr>p_chans := cs, p_subscribers := []\<rparr>)"
    using assms cs(2,3) by (auto simp: pane_wf_def delivered_def)
  with cs show ?thesis by (intro that [of cs]) (auto simp: publishExit_def)
qed

section \<open>Runs of a pane\<close>

text \<open>Everything that goroutines do to one pane, in any order.\<close>

datatype pane_op = Start "string + int \<times> int option" | Sub | Cancel nat | Recv nat
  | Turn "vt_call list" time "byte list" "string option" | Resize int int | Input time "byte list" | Writer
  | StopNow int | GracefulKill int | MarkDone

definition pane_do :: "(rune \<Rightarrow> bool) \<Rightarrow> pane_op \<Rightarrow> Pane \<Rightarrow> Pane option" where
  "pane_do L a p =
     (case a of
        Start f \<Rightarrow> map_option fst (StartHeadless f p)
      | Sub \<Rightarrow> map_option fst (Subscribe p)
      | Cancel n \<Rightarrow> cancel n p
      | Recv n \<Rightarrow> Some (if n < length (p_chans p) then (case recv n p of None \<Rightarrow> p | Some (_, p1) \<Rightarrow> p1) else p)
      | Turn calls now d err \<Rightarrow> read_turn L calls now d err p
      | Resize w h \<Rightarrow> Some (SetSize w h p)
      | Input now d \<Rightarrow> Some (fst (WriteInput now d p))
      | Writer \<Rightarrow> Some (fst (writer_turn p))
      | StopNow own \<Rightarrow> Some (fst (Stop own p))
      | GracefulKill own \<Rightarrow> Some (fst (StopGraceful_kill own p))
      | MarkDone \<Rightarrow> Some (MarkExpectedCompletedExit p))"

fun pane_run :: "(rune \<Rightarrow> bool) \<Rightarrow> pane_op list \<Rightarrow> Pane \<Rightarrow> Pane option" where
  "pane_run L [] p = Some p"
| "pane_run L (a # as) p = (case pane_do L a p of None \<Rightarrow> None | Some p1 \<Rightarrow> pane_run L as p1)"

text \<open>What one operation does to channel \<open>n\<close> and to the read loop; \<open>n\<close> stays registered until the read loop
  ends or the subscription is cancelled.\<close>

definition chan_step :: "nat \<Rightarrow> Pane \<Rightarrow> Pane \<Rightarrow> bool" where
  "chan_step n p p' \<longleftrightarrow> pane_wf p' \<and> length (p_chans p) \<le> length (p_chans p') \<and>
     (p_loop p = Finished \<longrightarrow> p_loop p' = Finished) \<and>
     (n < length (p_chans p) \<longrightarrow>
        (n \<in> set (p_subscribers p') \<longleftrightarrow> n \<in> set (p_subscribers p) \<and> (p_loop p = Finished \<or> p_loop p' \<noteq> Finished)) \<and>
        (ch_closed (p_chans p' ! n) \<longleftrightarrow> ch_closed (p_chans p ! n) \<or>
           n \<in> set (p_subscribers p) \<and> p_loop p \<noteq> Finished \<and> p_loop p' = Finished) \<and>
        (p_loop p = Finished \<longrightarrow> ch_buf (p_chans p ! n) = [] \<longrightarrow> ch_buf (p_chans p' ! n) = []))"

lemma chan_step_refl: "pane_wf p \<Longrightarrow> chan_step n p p"
  by (auto simp: chan_step_def)

lemma chan_step_trans: "chan_step n p p1 \<Longrightarrow> chan_step n p1 p2 \<Longrightarrow> chan_step n p p2"
  unfolding chan_step_def by (cases "p_loop p = Finished"; cases "p_loop p1 = Finished") auto

text \<open>An update of fields that the subscriptions do not depend on.\<close>

definition same_chans :: "Pane \<Rightarrow> Pane \<Rightarrow> bool" where
  "same_chans p p' \<longleftrightarrow> p_chans p' = p_chans p \<and> p_subscribers p' = p_subscribers p \<and>
     (p_loop p' = Finished \<longleftrightarrow> p_loop p = Finished) \<and> p_dims p' = packDims (p_width p') (p_height p')"

lemma chan_step_same: "pane_wf p \<Longrightarrow> same_chans p p' \<Longrightarrow> chan_step n p p'"
  by (auto simp: chan_step_def same_chans_def pane_wf_def)

lemma chan_step_publish:
  assumes "pane_wf p" "p_loop p = Looping"
  obtains p' where "publish ev p = Some p'" "chan_step n p p'" "p_loop p' = Looping" "pane_wf p'"
    "p_vt p' = p_vt p"
proof -
  obtain cs where cs: "publish ev p = Some (p\<lparr>p_chans := cs\<rparr>)" "pane_wf (p\<lparr>p_chans := cs\<rparr>)" "length cs = length (p_chans p)"
    "\<forall>i < length (p_chans p). cs ! i = (if i \<in> set (p_subscribers p) then delivered ev False (p_chans p ! i) else p_chans p ! i)"
    using publish_wf [OF assms(1)] .
  have "chan_step n p (p\<lparr>p_chans := cs\<rparr>)"
    using assms cs(2-4) by (auto simp: chan_step_def delivered_def pane_wf_def)
  with cs assms show ?thesis by (intro that [of "p\<lparr>p_chans := cs\<rparr>"]) auto
qed

text \<open>The end of the read loop.\<close>

lemma chan_step_publishExit:
  assumes "pane_wf p" "p_loop p \<noteq> Finished"
  obtains p' where "publishExit e (p\<lparr>p_loop := Finished\<rparr>) = Some p'" "chan_step n p p'"
proof -
  let ?p = "p\<lparr>p_loop := Finished\<rparr>"
  have "pane_wf ?p" using assms(1) by (simp add: pane_wf_def)
  then obtain cs where cs: "publishExit e ?p = Some (?p\<lparr>p_chans := cs, p_subscribers := []\<rparr>)"
    "pane_wf (?p\<lparr>p_chans := cs, p_subscribers := []\<rparr>)" "length cs = length (p_chans ?p)"
    "\<forall>i < length (p_chans ?p). cs ! i = (if i \<in> set (p_subscribers ?p) then delivered (ExitEvent e) True (p_chans ?p ! i) else p_chans ?p ! i)"
    by (rule publishExit_wf)
  have "chan_step n p (?p\<lparr>p_chans := cs, p_subscribers := []\<rparr>)"
    using assms cs(2-4) by (auto simp: chan_step_def delivered_def pane_wf_def)
  with cs show ?thesis by (intro that)
qed

lemma chan_step_vt_calls:
  assumes "pane_wf p" "p_loop p = Looping"
  shows "\<exists>p' ns. vt_calls L cs p = Some (p', ns) \<and> chan_step n p p' \<and> p_loop p' = Looping \<and> pane_wf p'"
  using assms
proof (induction L cs p rule: vt_calls.induct)
  case (1 L p)
  then show ?case by (simp add: chan_step_refl)
next
  case (2 L d cs p)
  let ?p = "p\<lparr>p_title := parseOscTitlePayload d\<rparr>"
  have p: "same_chans p ?p" using 2(2) by (simp add: same_chans_def pane_wf_def)
  have "pane_wf ?p" using 2(2) by (simp add: pane_wf_def)
  then obtain p1 where p1: "publish (TitleEvent (parseOscTitlePayload d)) ?p = Some p1" "chan_step n ?p p1"
      "p_loop p1 = Looping" "pane_wf p1"
    using 2(3) by (auto elim: chan_step_publish [of ?p "TitleEvent (parseOscTitlePayload d)" n])
  then have h: "title_handler d p = Some p1" by (simp add: title_handler_def Let_def)
  obtain p' ns where "vt_calls L cs p1 = Some (p', ns)" "chan_step n p1 p'" "p_loop p' = Looping" "pane_wf p'"
    using 2(1) [OF h p1(4,3)] by blast
  moreover have "chan_step n p p1" using chan_step_trans [OF chan_step_same [OF 2(2) p] p1(2)] .
  ultimately show ?case using h chan_step_trans by simp
next
  case (3 L v cs p)
  let ?p = "p\<lparr>p_cursorHidden := \<not> v\<rparr>"
  have p: "same_chans p ?p" using 3(2) by (simp add: same_chans_def pane_wf_def)
  have w: "pane_wf ?p" using 3(2) by (simp add: pane_wf_def)
  obtain p1 where h: "cursor_handler v p = Some p1" and p1: "chan_step n ?p p1" "p_loop p1 = Looping" "pane_wf p1"
  proof (cases "p_cursorHidden p = (\<not> v)")
    case True
    then show ?thesis using 3(3) w by (intro that [of ?p]) (simp_all add: cursor_handler_def Let_def chan_step_refl)
  next
    case False
    obtain p1 where "publish (ModeEvent (p_mouseEnabled ?p) (p_altScreenActive ?p) (\<not> v)) ?p = Some p1"
      "chan_step n ?p p1" "p_loop p1 = Looping" "pane_wf p1"
      using w 3(3) by (auto elim: chan_step_publish [of ?p "ModeEvent (p_mouseEnabled ?p) (p_altScreenActive ?p) (\<not> v)" n])
    with False show ?thesis by (intro that [of p1]) (auto simp: cursor_handler_def Let_def)
  qed
  obtain p' ns where "vt_calls L cs p1 = Some (p', ns)" "chan_step n p1 p'" "p_loop p' = Looping" "pane_wf p'"
    using 3(1) [OF h p1(3,2)] by blast
  moreover have "chan_step n p p1" using chan_step_trans [OF chan_step_same [OF 3(2) p] p1(1)] .
  ultimately show ?case using h chan_step_trans by simp
next
  case (4 L d cs p)
  then show ?case by auto
qed

lemma chan_step_mode:
  assumes "pane_wf p" "p_loop p = Looping"
  obtains p' where "detectMouseModeChanges d p = Some p'" "chan_step n p p'" "p_loop p' = Looping" "pane_wf p'" "p_vt p' = p_vt p"
proof -
  have pub: "\<exists>p'. publishModeEventLocked (p\<lparr>p_mouseEnabled := b\<rparr>) = Some p' \<and> chan_step n p p' \<and> p_loop p' = Looping \<and>
      pane_wf p' \<and> p_vt p' = p_vt p" for b
  proof -
    let ?p = "p\<lparr>p_mouseEnabled := b\<rparr>"
    have w: "pane_wf ?p" "same_chans p ?p" using assms(1) by (simp_all add: pane_wf_def same_chans_def)
    obtain p' where "publish (ModeEvent b (p_altScreenActive ?p) (p_cursorHidden ?p)) ?p = Some p'"
      "chan_step n ?p p'" "p_loop p' = Looping" "pane_wf p'" "p_vt p' = p_vt ?p"
      using w assms(2) by (auto elim: chan_step_publish [of ?p "ModeEvent b (p_altScreenActive ?p) (p_cursorHidden ?p)" n])
    then show ?thesis
      using chan_step_trans [OF chan_step_same [OF assms(1) w(2)]] by (auto simp: publishModeEventLocked_def)
  qed
  show ?thesis
    using pub [of True] pub [of False] assms that chan_step_refl [OF assms(1)]
    unfolding detectMouseModeChanges_def by (metis (no_types, lifting))
qed

lemma chan_step_alt:
  assumes "pane_wf p" "p_loop p = Looping"
  obtains p' where "detectAltScreenChanges d p = Some p'" "chan_step n p p'" "p_loop p' = Looping" "pane_wf p'"
proof -
  have pub: "\<exists>p'. publishModeEventLocked (p\<lparr>p_altScreenActive := b\<rparr>) = Some p' \<and> chan_step n p p' \<and> p_loop p' = Looping \<and>
      pane_wf p'" for b
  proof -
    let ?p = "p\<lparr>p_altScreenActive := b\<rparr>"
    have w: "pane_wf ?p" "same_chans p ?p" using assms(1) by (simp_all add: pane_wf_def same_chans_def)
    obtain p' where "publish (ModeEvent (p_mouseEnabled ?p) b (p_cursorHidden ?p)) ?p = Some p'"
      "chan_step n ?p p'" "p_loop p' = Looping" "pane_wf p'"
      using w assms(2) by (auto elim: chan_step_publish [of ?p "ModeEvent (p_mouseEnabled ?p) b (p_cursorHidden ?p)" n])
    then show ?thesis
      using chan_step_trans [OF chan_step_same [OF assms(1) w(2)]] by (auto simp: publishModeEventLocked_def)
  qed
  show ?thesis
    using pub [of True] pub [of False] assms that chan_step_refl [OF assms(1)]
    unfolding detectAltScreenChanges_def by (metis (no_types, lifting))
qed

lemma chan_step_handleOutput:
  assumes "pane_wf p" "p_loop p = Looping"
  shows "\<exists>p' ns. handleOutput L calls now d p = Some (p', ns) \<and> chan_step n p p' \<and> p_loop p' = Looping \<and> pane_wf p'"
proof (cases "p_vt p")
  case None
  then show ?thesis using assms by (simp add: handleOutput_def chan_step_refl)
next
  case (Some v)
  obtain p1 where p1: "detectMouseModeChanges d p = Some p1" "chan_step n p p1" "p_loop p1 = Looping" "pane_wf p1" "p_vt p1 = p_vt p"
    using chan_step_mode [OF assms, of d n] .
  obtain p2 where p2: "detectAltScreenChanges d p1 = Some p2" "chan_step n p1 p2" "p_loop p2 = Looping" "pane_wf p2"
    using chan_step_alt [OF p1(4,3), of d n] .
  obtain p3 ns where p3: "vt_calls L calls p2 = Some (p3, ns)" "chan_step n p2 p3" "p_loop p3 = Looping" "pane_wf p3"
    using chan_step_vt_calls [OF p2(4,3), of L calls n] by blast
  let ?p = "if d \<noteq> [] then p3\<lparr>p_lastActivityNs := now\<rparr> else p3"
  have "same_chans p3 ?p" "pane_wf ?p" "p_loop ?p = Looping"
    using p3(3,4) by (auto simp: same_chans_def pane_wf_def)
  moreover have "chan_step n p p3" using p1(2) p2(2) p3(2) chan_step_trans by blast
  ultimately have "chan_step n p ?p" using chan_step_same [OF p3(4)] chan_step_trans by blast
  with Some p1(1) p2(1) p3(1) \<open>pane_wf ?p\<close> \<open>p_loop ?p = Looping\<close> show ?thesis
    by (intro exI [of _ ?p] exI [of _ ns]) (simp add: handleOutput_def)
qed

lemma chan_step_Subscribe:
  assumes "pane_wf p"
  obtains p' where "Subscribe p = Some (p', length (p_chans p))" "chan_step n p p'"
    "chan_step n (p\<lparr>p_chans := p_chans p @ [\<lparr>ch_buf = [], ch_closed = False\<rparr>],
      p_subscribers := p_subscribers p @ [length (p_chans p)]\<rparr>) p'"
proof -
  let ?p1 = "p\<lparr>p_chans := p_chans p @ [\<lparr>ch_buf = [], ch_closed = False\<rparr>],
    p_subscribers := p_subscribers p @ [length (p_chans p)]\<rparr>"
  have w: "pane_wf ?p1" using assms by (auto simp: pane_wf_def nth_append less_Suc_eq)
  have st: "chan_step n p ?p1" using w by (auto simp: chan_step_def nth_append)
  obtain p' where p': "startReadLoop ?p1 = Some p'" "chan_step n ?p1 p'"
  proof (cases "p_loop p = NotStarted \<and> \<not> p_pty p")
    case True
    then have "p_loop ?p1 \<noteq> Finished" by simp
    from chan_step_publishExit [OF w this, of not_ready n] obtain p2
      where "publishExit not_ready (?p1\<lparr>p_loop := Finished\<rparr>) = Some p2" "chan_step n ?p1 p2" .
    with True show ?thesis by (intro that [of p2]) (simp_all add: startReadLoop_def)
  next
    case False
    show ?thesis
    proof (cases "p_loop p = NotStarted")
      case True
      have "same_chans ?p1 (?p1\<lparr>p_loop := Looping\<rparr>)" using True w by (simp add: same_chans_def pane_wf_def)
      from chan_step_same [OF w this] True False show ?thesis
        by (intro that [of "?p1\<lparr>p_loop := Looping\<rparr>"]) (simp_all add: startReadLoop_def)
    next
      case False
      then show ?thesis using chan_step_refl [OF w] by (intro that [of ?p1]) (simp_all add: startReadLoop_def)
    qed
  qed
  show ?thesis
    using p' chan_step_trans [OF st p'(2)] by (intro that [of p']) (simp_all add: Subscribe_def Let_def)
qed

lemma chan_step_Turn:
  assumes "pane_wf p"
  obtains p' where "read_turn L calls now d err p = Some p'" "chan_step n p p'"
proof (cases "p_loop p = Looping")
  case False
  then show ?thesis using assms chan_step_refl by (intro that [of p]) (simp_all add: read_turn_def)
next
  case True
  show ?thesis
  proof (cases "p_readLoopStopped p")
    case stop: True
    have "p_loop p \<noteq> Finished" using True by simp
    from chan_step_publishExit [OF assms this, of "''EOF''" n] obtain p2
      where "publishExit ''EOF'' (p\<lparr>p_loop := Finished\<rparr>) = Some p2" "chan_step n p p2" .
    with True stop show ?thesis by (intro that [of p2]) (simp_all add: read_turn_def)
  next
    case go: False
    obtain p2 where p2: "(if d = [] then Some p
        else case handleOutput L calls now d p of None \<Rightarrow> None | Some (p1, _) \<Rightarrow> publish (OutputEvent d) p1) = Some p2"
      "chan_step n p p2" "p_loop p2 = Looping" "pane_wf p2"
    proof (cases "d = []")
      case d: True
      with True assms show ?thesis by (intro that [of p]) (simp_all add: chan_step_refl)
    next
      case d: False
      obtain p1 ns where p1: "handleOutput L calls now d p = Some (p1, ns)" "chan_step n p p1" "p_loop p1 = Looping" "pane_wf p1"
        using chan_step_handleOutput [OF assms True] by blast
      obtain p2 where "publish (OutputEvent d) p1 = Some p2" "chan_step n p1 p2" "p_loop p2 = Looping" "pane_wf p2"
        using chan_step_publish [OF p1(4,3), of "OutputEvent d" n] .
      with p1 d chan_step_trans [OF p1(2)] show ?thesis by (intro that [of p2]) simp_all
    qed
    show ?thesis
    proof (cases err)
      case None
      with True go p2 show ?thesis by (intro that [of p2]) (simp_all add: read_turn_def)
    next
      case (Some e)
      have "p_loop p2 \<noteq> Finished" using p2(3) by simp
      from chan_step_publishExit [OF p2(4) this, of e n] obtain p3
        where "publishExit e (p2\<lparr>p_loop := Finished\<rparr>) = Some p3" "chan_step n p2 p3" .
      with True go p2(1) Some chan_step_trans [OF p2(2)] show ?thesis
        by (intro that [of p3]) (simp_all add: read_turn_def)
    qed
  qed
qed

lemma same_chans_teardown: "pane_wf p \<Longrightarrow> same_chans p (fst (teardownUnlocked own k p))"
  by (simp add: teardownUnlocked_def doTeardown_def Let_def same_chans_def pane_wf_def)

lemma fst_StopGraceful_kill: "fst (StopGraceful_kill own p) = fst (teardownUnlocked own True p)"
  by (simp add: StopGraceful_kill_def Let_def split: prod.splits)

lemma same_chans_ops:
  assumes "pane_wf p"
  shows "same_chans p (SetSize w h p)" "same_chans p (fst (WriteInput now d p))" "same_chans p (fst (writer_turn p))"
    "same_chans p (fst (Stop own p))" "same_chans p (fst (StopGraceful_kill own p))" "same_chans p (MarkExpectedCompletedExit p)"
  using assms same_chans_teardown [OF assms]
  by (auto simp: SetSize_def WriteInput_def writer_turn_def Stop_def fst_StopGraceful_kill MarkExpectedCompletedExit_def
      same_chans_def pane_wf_def Let_def split: option.splits list.splits)

lemma pane_do_step:
  assumes "pane_wf p"
  shows "\<exists>p'. pane_do L a p = Some p' \<and> pane_wf p' \<and> (a \<noteq> Cancel n \<longrightarrow> chan_step n p p')"
proof (cases a)
  case (Start f)
  show ?thesis
  proof (cases f)
    case (Inl e)
    have "same_chans p (p\<lparr>p_exitErr := Some e\<rparr>)" using assms by (simp add: same_chans_def pane_wf_def)
    with chan_step_same [OF assms this] Start Inl show ?thesis
      by (auto simp: pane_do_def StartHeadless_def chan_step_def)
  next
    case (Inr r)
    obtain pid pg where r: "r = (pid, pg)" by (cases r)
    let ?p = "p\<lparr>p_pty := True, p_running := True, p_exitErr := None, p_inputCh := Some [], p_inputStop := False,
       p_runningAtomic := True, p_dims := packDims (p_width p) (p_height p), p_pid := pid,
       p_pgid := (case pg of None \<Rightarrow> p_pgid p | Some g \<Rightarrow> g), p_vt := Some (p_width p, p_height p), p_cursorHidden := False\<rparr>"
    let ?q = "if p_loop p = NotStarted then ?p\<lparr>p_loop := Looping\<rparr> else ?p"
    have "same_chans p ?q" using assms by (simp add: same_chans_def pane_wf_def)
    moreover have "startReadLoop ?p = Some ?q" by (simp add: startReadLoop_def)
    ultimately show ?thesis using chan_step_same [OF assms, of ?q n] Start Inr r
      by (auto simp: pane_do_def StartHeadless_def chan_step_def)
  qed
next
  case Sub
  obtain p' where "Subscribe p = Some (p', length (p_chans p))" "chan_step n p p'"
    using chan_step_Subscribe [OF assms] .
  with Sub show ?thesis by (auto simp: pane_do_def chan_step_def)
next
  case (Cancel m)
  show ?thesis
  proof (cases "m \<in> set (p_subscribers p)")
    case True
    then have "m < length (p_chans p)" "\<not> ch_closed (p_chans p ! m)" using assms by (auto simp: pane_wf_def)
    with Cancel True assms show ?thesis
      by (auto simp: pane_do_def cancel_def close_chan_def chan_step_def pane_wf_def nth_list_update dest: set_remove1_subset [THEN subsetD])
  qed (use Cancel assms in \<open>simp add: pane_do_def cancel_def chan_step_refl\<close>)
next
  case (Recv m)
  have cap: "length x2 \<le> subscriberChanCapacity" if "m < length (p_chans p)" "ch_buf (p_chans p ! m) = x1 # x2" for x1 x2
    using that assms unfolding pane_wf_def by (metis Suc_leD length_Cons)
  have "pane_wf p' \<and> chan_step n p p'" if "recv m p = Some (e, p')" "m < length (p_chans p)" for e p'
    using that assms cap
    by (auto simp: recv_def chan_step_def pane_wf_def nth_list_update split: list.splits if_splits)
  with Recv assms show ?thesis
    by (auto simp: pane_do_def chan_step_refl split: option.splits)
next
  case (Turn calls now d err)
  obtain p' where "read_turn L calls now d err p = Some p'" "chan_step n p p'"
    using chan_step_Turn [OF assms] .
  with Turn show ?thesis by (auto simp: pane_do_def chan_step_def)
next
  case (Resize w h)
  from chan_step_same [OF assms same_chans_ops(1) [OF assms]] Resize show ?thesis by (auto simp: pane_do_def chan_step_def)
next
  case (Input now d)
  from chan_step_same [OF assms same_chans_ops(2) [OF assms]] Input show ?thesis by (auto simp: pane_do_def chan_step_def)
next
  case Writer
  from chan_step_same [OF assms same_chans_ops(3) [OF assms]] Writer show ?thesis by (auto simp: pane_do_def chan_step_def)
next
  case (StopNow own)
  from chan_step_same [OF assms same_chans_ops(4) [OF assms]] StopNow show ?thesis by (auto simp: pane_do_def chan_step_def)
next
  case (GracefulKill own)
  from chan_step_same [OF assms same_chans_ops(5) [OF assms]] GracefulKill show ?thesis by (auto simp: pane_do_def chan_step_def)
next
  case MarkDone
  from chan_step_same [OF assms same_chans_ops(6) [OF assms]] MarkDone show ?thesis by (auto simp: pane_do_def chan_step_def)
qed

lemma pane_run_step:
  "pane_wf p \<Longrightarrow> \<exists>p'. pane_run L ops p = Some p' \<and> pane_wf p' \<and> (Cancel n \<notin> set ops \<longrightarrow> chan_step n p p')"
proof (induction ops arbitrary: p)
  case (Cons a ops)
  obtain p1 where p1: "pane_do L a p = Some p1" "pane_wf p1" "a \<noteq> Cancel n \<longrightarrow> chan_step n p p1"
    using pane_do_step [OF Cons.prems] by blast
  with Cons.IH [OF p1(2)] show ?case using chan_step_trans by fastforce
qed (simp add: chan_step_refl)

lemma Subscribe_new:
  assumes "pane_wf p" "Subscribe p = Some (p1, n)"
  shows "pane_wf p1" "n < length (p_chans p1)" "p_loop p = Finished \<longrightarrow> p_loop p1 = Finished"
    "(n \<in> set (p_subscribers p1)) = (p_loop p = Finished \<or> p_loop p1 \<noteq> Finished)"
    "ch_closed (p_chans p1 ! n) = (p_loop p \<noteq> Finished \<and> p_loop p1 = Finished)"
    "p_loop p = Finished \<longrightarrow> ch_buf (p_chans p1 ! n) = []"
proof -
  let ?p = "p\<lparr>p_chans := p_chans p @ [\<lparr>ch_buf = [], ch_closed = False\<rparr>],
      p_subscribers := p_subscribers p @ [length (p_chans p)]\<rparr>"
  obtain p' where "Subscribe p = Some (p', length (p_chans p))" "chan_step (length (p_chans p)) ?p p'"
    using chan_step_Subscribe [OF assms(1), of "length (p_chans p)"] .
  with assms(2) have n: "n = length (p_chans p)" and st: "chan_step (length (p_chans p)) ?p p1" by auto
  then show "pane_wf p1" "n < length (p_chans p1)" "p_loop p = Finished \<longrightarrow> p_loop p1 = Finished"
    "(n \<in> set (p_subscribers p1)) = (p_loop p = Finished \<or> p_loop p1 \<noteq> Finished)"
    "ch_closed (p_chans p1 ! n) = (p_loop p \<noteq> Finished \<and> p_loop p1 = Finished)"
    "p_loop p = Finished \<longrightarrow> ch_buf (p_chans p1 ! n) = []"
    by (auto simp: chan_step_def nth_append)
qed

lemma recv_blocks: "recv n p = None \<longleftrightarrow> ch_buf (p_chans p ! n) = [] \<and> \<not> ch_closed (p_chans p ! n)"
  by (auto simp: recv_def split: list.splits)

lemma exit_seen:
  assumes "pane_wf p" "Subscribe p = Some (p1, n)" "pane_run L ops p1 = Some p2" "Cancel n \<notin> set ops"
  shows "ch_closed (p_chans p2 ! n) = (p_loop p \<noteq> Finished \<and> p_loop p2 = Finished)"
    "p_loop p = Finished \<Longrightarrow> recv n p2 = None"
proof -
  note new = Subscribe_new [OF assms(1,2)]
  have "chan_step n p1 p2" using pane_run_step [OF new(1), of L ops n] assms(3,4) by auto
  with new show c: "ch_closed (p_chans p2 ! n) = (p_loop p \<noteq> Finished \<and> p_loop p2 = Finished)"
    by (auto simp: chan_step_def)
  show "recv n p2 = None" if "p_loop p = Finished"
    using that new c \<open>chan_step n p1 p2\<close> by (auto simp: chan_step_def recv_blocks)
qed

section \<open>The wedge clock\<close>

text \<open>Writes, \<open>Some (now, d)\<close>, and turns of the writer goroutine, \<open>None\<close>, in any order; the result lists the
  times of the writes that were refused.\<close>

fun input_run :: "(time \<times> byte list) option list \<Rightarrow> Pane \<Rightarrow> Pane \<times> time list" where
  "input_run [] p = (p, [])"
| "input_run (None # xs) p = input_run xs (fst (writer_turn p))"
| "input_run (Some (now, d) # xs) p =
     (case WriteInput now d p of
        (p1, e) \<Rightarrow> (case input_run xs p1 of (p2, ts) \<Rightarrow> (p2, (if e = Some InputBackpressure then [now] else []) @ ts)))"

text \<open>The clock after refusals at the given times.\<close>

definition clock_step :: "time \<Rightarrow> time \<times> time \<Rightarrow> time \<times> time" where
  "clock_step t c = (case c of (start, lst) \<Rightarrow> (if lst = 0 \<or> t - lst > wedgeRecency then t else start, t))"

lemma input_run_clock:
  "input_run xs p = (p', ts) \<Longrightarrow>
   (p_wedgedSinceNs p', p_lastWedgeNs p') = fold clock_step ts (p_wedgedSinceNs p, p_lastWedgeNs p)"
proof (induction xs p arbitrary: p' ts rule: input_run.induct)
  case (2 xs p)
  have "p_wedgedSinceNs (fst (writer_turn p)) = p_wedgedSinceNs p" "p_lastWedgeNs (fst (writer_turn p)) = p_lastWedgeNs p"
    by (auto simp: writer_turn_def split: option.splits list.splits)
  with 2 show ?case by simp
next
  case (3 now d xs p)
  obtain p1 e where w: "WriteInput now d p = (p1, e)" by force
  obtain p2 us where r: "input_run xs p1 = (p2, us)" by force
  have "(p_wedgedSinceNs p1, p_lastWedgeNs p1) =
      (if e = Some InputBackpressure then clock_step now (p_wedgedSinceNs p, p_lastWedgeNs p) else (p_wedgedSinceNs p, p_lastWedgeNs p))"
    using w by (auto simp: WriteInput_def clock_step_def Let_def split: if_splits option.splits)
  with 3 w r show ?case by (auto simp: w r)
qed simp

text \<open>The last refusal starts the episode unless it comes soon after the previous one.\<close>

definition episode :: "time list \<Rightarrow> nat \<Rightarrow> bool" where
  "episode ts k \<longleftrightarrow> k < length ts \<and> (k = 0 \<or> ts ! k - ts ! (k - 1) > wedgeRecency) \<and>
     (\<forall>j. k < j \<and> j < length ts \<longrightarrow> ts ! j - ts ! (j - 1) \<le> wedgeRecency)"

lemma episode_snoc:
  "episode (ts @ [t]) k \<longleftrightarrow>
     (if ts = [] \<or> t - last ts > wedgeRecency then k = length ts else episode ts k)"
proof -
  have l: "(ts @ [t]) ! (length ts - 1) = last ts" if "ts \<noteq> []" using that by (simp add: nth_append last_conv_nth)
  show ?thesis
  proof (cases "ts = [] \<or> t - last ts > wedgeRecency")
    case True
    show ?thesis
    proof (cases "ts = []")
      case False
      then have g: "(ts @ [t]) ! length ts - (ts @ [t]) ! (length ts - 1) > wedgeRecency" using True l by (simp add: nth_append)
      have "k = length ts" if "episode (ts @ [t]) k"
      proof (rule ccontr)
        assume "k \<noteq> length ts"
        with that have "k < length ts" by (simp add: episode_def)
        with that have "(ts @ [t]) ! length ts - (ts @ [t]) ! (length ts - 1) \<le> wedgeRecency"
          unfolding episode_def by (metis length_append_singleton lessI)
        with g show False by simp
      qed
      moreover have "episode (ts @ [t]) (length ts)" using g by (simp add: episode_def)
      ultimately show ?thesis using True by auto
    qed (auto simp: episode_def)
  next
    case False
    have sub: "(ts @ [t]) ! j - (ts @ [t]) ! (j - 1) = ts ! j - ts ! (j - 1)" if "j < length ts" for j
    proof -
      have "j - 1 < length ts" using that by simp
      with that show ?thesis unfolding nth_append by simp
    qed
    have lst: "(ts @ [t]) ! length ts - (ts @ [t]) ! (length ts - 1) \<le> wedgeRecency" using False l by (simp add: nth_append)
    show ?thesis
    proof
      assume e: "episode (ts @ [t]) k"
      then have "k \<noteq> length ts" using lst False by (auto simp: episode_def)
      with e sub show "if ts = [] \<or> t - last ts > wedgeRecency then k = length ts else episode ts k"
        using False by (auto simp: episode_def nth_append)
    next
      assume "if ts = [] \<or> t - last ts > wedgeRecency then k = length ts else episode ts k"
      then have e: "episode ts k" using False by auto
      then show "episode (ts @ [t]) k"
        using sub lst by (auto simp: episode_def less_Suc_eq nth_append)
    qed
  qed
qed

lemma clock_episode:
  "list_all (\<lambda>t. 0 < t) ts \<Longrightarrow> ts \<noteq> [] \<Longrightarrow>
   \<exists>k. episode ts k \<and> (\<forall>k'. episode ts k' \<longrightarrow> k' = k) \<and> fold clock_step ts (0, 0) = (ts ! k, last ts)"
proof (induction ts rule: rev_induct)
  case (snoc t ts)
  show ?case
  proof (cases "ts = []")
    case True
    have "episode [t] k \<longleftrightarrow> k = 0" for k using episode_snoc [of "[]" t k] by simp
    with True show ?thesis by (simp add: clock_step_def)
  next
    case False
    have "list_all (\<lambda>t. 0 < t) ts" using snoc.prems by simp
    from snoc.IH [OF this False] obtain k where k: "episode ts k" "\<forall>k'. episode ts k' \<longrightarrow> k' = k"
      "fold clock_step ts (0, 0) = (ts ! k, last ts)" by (elim exE conjE) (rule that)
    have "0 < last ts" using snoc.prems last_in_set [OF False] by (simp add: list_all_iff)
    then have "last ts \<noteq> 0" by simp
    then have f: "fold clock_step (ts @ [t]) (0, 0) = (if t - last ts > wedgeRecency then t else ts ! k, t)"
      by (simp add: k(3) clock_step_def)
    have kl: "k < length ts" using k(1) by (simp add: episode_def)
    show ?thesis
    proof (cases "t - last ts > wedgeRecency")
      case True
      then have "episode (ts @ [t]) k' \<longleftrightarrow> k' = length ts" for k' by (simp add: episode_snoc)
      then have "episode (ts @ [t]) (length ts)" "\<forall>k'. episode (ts @ [t]) k' \<longrightarrow> k' = length ts" by blast+
      moreover have "fold clock_step (ts @ [t]) (0, 0) = ((ts @ [t]) ! length ts, last (ts @ [t]))"
        using f True by simp
      ultimately show ?thesis by blast
    next
      case far: False
      then have "episode (ts @ [t]) k' \<longleftrightarrow> episode ts k'" for k' using False by (simp add: episode_snoc)
      then have "episode (ts @ [t]) k" "\<forall>k'. episode (ts @ [t]) k' \<longrightarrow> k' = k" using k(1,2) by blast+
      moreover have "fold clock_step (ts @ [t]) (0, 0) = ((ts @ [t]) ! k, last (ts @ [t]))"
        using f far kl by (simp add: nth_append)
      ultimately show ?thesis by blast
    qed
  qed
qed simp

section \<open>Properties\<close>

text \<open>Whatever goroutines do to a pane and in whatever order, no send and no close hits a closed channel
  (such an operation would panic and take the daemon with it), no subscriber's queue exceeds its capacity,
  and the lock-free size mirror agrees with the size under the lock.\<close>

theorem pane_never_panics:
  "\<exists>p. pane_run L ops (New i w h scrollback) = Some p \<and>
     list_all (\<lambda>c. length (ch_buf c) \<le> 256) (p_chans p) \<and> p_dims p = packDims (p_width p) (p_height p)"
proof -
  obtain p where p: "pane_run L ops (New i w h scrollback) = Some p" "pane_wf p"
    using pane_run_step [OF pane_wf_New, of L ops i w h scrollback 0] by blast
  then have "list_all (\<lambda>c. length (ch_buf c) \<le> 256) (p_chans p)"
    by (auto simp: pane_wf_def list_all_length subscriberChanCapacity_def)
  with p show ?thesis by (auto simp: pane_wf_def)
qed

text \<open>A subscriber learns that the child is gone exactly when it subscribed before the read loop ended:
  its channel is closed if and only if the loop has ended and had not ended when it subscribed.  A
  subscription that comes after the end of the loop blocks its reader forever, whatever else is done to
  the pane, stopping it included.\<close>

theorem exit_seen_iff:
  assumes "pane_run L ops0 (New i w h scrollback) = Some p" and "Subscribe p = Some (p1, n)"
    and "pane_run L ops p1 = Some p2" and "\<not> list_ex (\<lambda>a. a = Cancel n) ops"
  shows "ch_closed (p_chans p2 ! n) = (p_loop p \<noteq> Finished \<and> p_loop p2 = Finished) \<and>
    (p_loop p = Finished \<longrightarrow> recv n p2 = None)"
proof -
  have "pane_wf p" using pane_run_step [OF pane_wf_New, of L ops0 i w h scrollback 0] assms(1) by auto
  moreover have "Cancel n \<notin> set ops" using assms(4) by (auto simp: list_ex_iff)
  ultimately show ?thesis using exit_seen [OF _ assms(2,3)] by blast
qed

definition fast_exit :: Pane where
  "fast_exit = the (pane_run (\<lambda>_. True) [Start (Inr (77, Some 77)), Turn [] 5 [] (Some ''EOF'')] (New ''t'' 80 24 0))"

theorem exit_seen_iff_witness:
  "recv 0 (the (pane_run (\<lambda>_. True) [StopNow 1, Turn [] 9 [] None] (fst (the (Subscribe fast_exit))))) = None"
proof -
  have 1: "pane_run (\<lambda>_. True) [Start (Inr (77, Some 77)), Turn [] 5 [] (Some ''EOF'')] (New ''t'' 80 24 0) = Some fast_exit"
    "p_loop fast_exit = Finished" by code_simp+
  have 2: "Subscribe fast_exit = Some (fst (the (Subscribe fast_exit)), 0)" by code_simp
  have 3: "pane_run (\<lambda>_. True) [StopNow 1, Turn [] 9 [] None] (fst (the (Subscribe fast_exit))) =
      Some (the (pane_run (\<lambda>_. True) [StopNow 1, Turn [] 9 [] None] (fst (the (Subscribe fast_exit)))))" by code_simp
  show ?thesis using exit_seen_iff [OF 1(1) 2 3] 1(2) by simp
qed

text \<open>The wedge clock is exact: after any mixture of accepted and refused writes, a pane reports a wedge
  since \<open>s\<close> if and only if \<open>s\<close> is the refusal that opened the current episode, that is the last one that
  came more than \<^verbatim>\<open>wedgeRecency\<close> after its predecessor, and the latest refusal is still recent.  Accepted
  writes never reset it.\<close>

theorem WedgedSince_exact:
  assumes "input_run xs p = (p', ts)" and "p_wedgedSinceNs p = 0" and "p_lastWedgeNs p = 0"
    and "list_all (\<lambda>x. \<forall>now d. x = Some (now, d) \<longrightarrow> 0 < now) xs"
  shows "(WedgedSince now p' = Some s) =
    (\<exists>k < length ts. s = ts ! k \<and> (k = 0 \<or> ts ! k - ts ! (k - 1) > wedgeRecency) \<and>
       (\<forall>j. k < j \<and> j < length ts \<longrightarrow> ts ! j - ts ! (j - 1) \<le> wedgeRecency) \<and> now - last ts \<le> wedgeRecency)"
proof -
  have pos: "list_all (\<lambda>t. 0 < t) ts"
    using assms(1,4)
    by (induction xs p arbitrary: p' ts rule: input_run.induct) (auto split: prod.splits)
  have c: "(p_wedgedSinceNs p', p_lastWedgeNs p') = fold clock_step ts (0, 0)"
    using input_run_clock [OF assms(1)] assms(2,3) by simp
  show ?thesis
  proof (cases "ts = []")
    case True
    with c show ?thesis by (simp add: WedgedSince_def)
  next
    case False
    obtain k where k: "episode ts k" "\<forall>k'. episode ts k' \<longrightarrow> k' = k" "fold clock_step ts (0, 0) = (ts ! k, last ts)"
      using clock_episode [OF pos False] by (elim exE conjE) (rule that)
    have kl: "k < length ts" using k(1) by (simp add: episode_def)
    have "0 < ts ! k" "0 < last ts"
      using pos nth_mem [OF kl] last_in_set [OF False] by (simp_all add: list_all_iff)
    then have nz: "ts ! k \<noteq> 0" "last ts \<noteq> 0" by simp_all
    have "WedgedSince now p' = Some s \<longleftrightarrow> s = ts ! k \<and> now - last ts \<le> wedgeRecency"
      using c k(3) nz by (auto simp: WedgedSince_def)
    also have "\<dots> \<longleftrightarrow> (\<exists>k'. episode ts k' \<and> s = ts ! k' \<and> now - last ts \<le> wedgeRecency)"
      using k(1,2) by blast
    also have "\<dots> \<longleftrightarrow> (\<exists>k < length ts. s = ts ! k \<and> (k = 0 \<or> ts ! k - ts ! (k - 1) > wedgeRecency) \<and>
       (\<forall>j. k < j \<and> j < length ts \<longrightarrow> ts ! j - ts ! (j - 1) \<le> wedgeRecency) \<and> now - last ts \<le> wedgeRecency)"
      by (auto simp: episode_def)
    finally show ?thesis .
  qed
qed

definition jammed :: Pane where
  "jammed = (New ''t'' 80 24 0)\<lparr>p_runningAtomic := True, p_inputCh := Some (replicate 256 [1])\<rparr>"

theorem WedgedSince_exact_witness:
  "WedgedSince 8000000000 (fst (input_run [Some (1000000000, [7]), Some (5000000000, [7]), None, Some (6000000000, [8]),
     Some (6500000000, [9])] jammed)) = Some 5000000000"
proof -
  let ?xs = "[Some (1000000000, [7]), Some (5000000000, [7]), None, Some (6000000000, [8]), Some (6500000000, [9 :: byte])]"
  let ?ts = "[1000000000, 5000000000, 6500000000 :: int]"
  have r: "input_run ?xs jammed = (fst (input_run ?xs jammed), ?ts)" by code_simp
  have j: "p_wedgedSinceNs jammed = 0" "p_lastWedgeNs jammed = 0" by (simp_all add: jammed_def New_def)
  have "\<exists>k < length ?ts. 5000000000 = ?ts ! k \<and> (k = 0 \<or> ?ts ! k - ?ts ! (k - 1) > wedgeRecency) \<and>
       (\<forall>j. k < j \<and> j < length ?ts \<longrightarrow> ?ts ! j - ?ts ! (j - 1) \<le> wedgeRecency) \<and> 8000000000 - last ?ts \<le> wedgeRecency"
    by (intro exI [of _ 1]) (auto simp: wedgeRecency_def less_Suc_eq)
  with WedgedSince_exact [OF r j, of 8000000000 5000000000] show ?thesis by simp
qed

text \<open>No signal is ever sent to a process group that is not the child's own: never to the daemon's group, to
  group 1 or to group 0.  After a teardown the group is forgotten, but a graceful stop that was waiting
  meanwhile does not become a no-op: it sends its \<^verbatim>\<open>SIGKILL\<close> to the bare process id, of a child that has
  been reaped.\<close>

theorem signal_targets:
  "list_all (\<lambda>(t, sg). case t of Group g \<Rightarrow> 1 < g \<and> g \<noteq> own \<and> g = p_pgid p | Pid i \<Rightarrow> i = p_pid p) (signalGroup own s p) \<and>
   (p_tornDown p \<or> StopGraceful_kill own (fst (Stop own p)) =
      (fst (Stop own p), if p_pid p > 0 then [(Pid (p_pid p), SIGKILL)] else []))"
proof
  show "list_all (\<lambda>(t, sg). case t of Group g \<Rightarrow> 1 < g \<and> g \<noteq> own \<and> g = p_pgid p | Pid i \<Rightarrow> i = p_pid p) (signalGroup own s p)"
    by (auto simp: signalGroup_def)
  show "p_tornDown p \<or> StopGraceful_kill own (fst (Stop own p)) =
      (fst (Stop own p), if p_pid p > 0 then [(Pid (p_pid p), SIGKILL)] else [])"
    by (simp add: StopGraceful_kill_def Stop_def teardownUnlocked_def doTeardown_def Let_def signalGroup_def)
qed

text \<open>The packed size mirror is read back exactly for every size that fits, negative values read as zero,
  and oversized values wrap modulo \<open>2 ^ 32\<close> (they are not clamped).\<close>

theorem unpack_pack_dims:
  "unpackDims (packDims w h) = (max 0 w mod 2 ^ 32, max 0 h mod 2 ^ 32)"
proof -
  have hi: "ucast (drop_bit 32 (push_bit 32 (ucast a) OR ucast b :: 64 word)) = a" for a b :: "32 word"
    by (rule bit_word_eqI) (auto simp: bit_simps dest: bit_imp_le_length)
  have lo: "ucast (push_bit 32 (ucast a) OR ucast b :: 64 word) = b" for a b :: "32 word"
    by (rule bit_word_eqI) (auto simp: bit_simps dest: bit_imp_le_length)
  have "unpackDims (packDims w h) = (uint (word_of_int (if w < 0 then 0 else w) :: 32 word),
      uint (word_of_int (if h < 0 then 0 else h) :: 32 word))"
    unfolding unpackDims_def packDims_def Let_def hi lo ..
  then show ?thesis by (simp add: uint_word_of_int max_def)
qed

end
