(* ===== verification/Session.thy ===== *)
theory Session
  imports Pane
begin

text \<open>
  \<^verbatim>\<open>internal/daemon/session.go\<close>: a daemon-owned session around one pane, that is its construction, the single
  attach slot with takeover, the set of viewers, the expected-completion flag and the kill.  Every
  \<^verbatim>\<open>attachedClient\<close> the code allocates is an entry of \<open>s_acs\<close>, in order of allocation; a pointer to one is its
  index, so that pointer comparison is comparison of indices.  The wire records of
  \<^verbatim>\<open>protocol.go\<close> that concern sessions are here too.
\<close>

type_synonym client_id = "16 word"

record SpawnReq =
  sp_TicketID :: string
  sp_SessionName :: string
  sp_Command :: string
  sp_Workdir :: string
  sp_Args :: "string list"
  sp_Env :: "string list"
  sp_Cols :: int
  sp_Rows :: int
  sp_Scrollback :: int
  sp_AgentSessionUUID :: string
  sp_AgentType :: string
  sp_ForwardNotifications :: bool

record SessionInfo =
  i_SessionID :: string
  i_TicketID :: string
  i_SessionName :: string
  i_Workdir :: string
  i_Title :: "byte list"
  i_PID :: int
  i_Cols :: int
  i_Rows :: int
  i_Scrollback :: int
  i_Running :: bool
  i_AttachedClient :: client_id
  i_ViewerCount :: nat
  i_StartedAt :: time

text \<open>\<open>ac_unsub\<close> tells whether \<^verbatim>\<open>Unsubscribe\<close> is still set, \<open>ac_detached\<close> whether \<^verbatim>\<open>DetachCh\<close> is closed.\<close>

record attachedClient =
  ac_ClientID :: client_id
  ac_Ch :: nat
  ac_unsub :: bool
  ac_detached :: bool

record Session =
  s_id :: string
  s_ticketID :: string
  s_sessionName :: string
  s_workdir :: string
  s_pane :: Pane
  s_startedAt :: time
  s_agentSessionUUID :: string
  s_agentType :: string
  s_attached :: "nat option"
  s_acs :: "attachedClient list"
  s_viewers :: "client_id list"
  s_expectedCompletion :: bool

section \<open>Construction\<close>

text \<open>The pane before its child is started, with the default size filled in.\<close>

definition new_pane :: "SpawnReq \<Rightarrow> Pane" where
  "new_pane req =
     (let cols = (if sp_Cols req \<le> 0 then 80 else sp_Cols req);
          rows = (if sp_Rows req \<le> 0 then 24 else sp_Rows req);
          p0 = New (sp_TicketID req) cols rows (sp_Scrollback req);
          p1 = (if sp_Workdir req \<noteq> [] then p0\<lparr>p_workdir := sp_Workdir req\<rparr> else p0);
          p2 = (if sp_SessionName req \<noteq> [] then p1\<lparr>p_sessionName := sp_SessionName req\<rparr> else p1);
          p3 = (if sp_TicketID req \<noteq> [] then p2\<lparr>p_ticketID := sp_TicketID req\<rparr> else p2) in
      p3\<lparr>p_forwardNotifications := sp_ForwardNotifications req\<rparr>)"

text \<open>\<open>rand\<close> is the outcome of the id generator, \<open>fork\<close> that of starting the child.\<close>

definition NewSession :: "string + string \<Rightarrow> string + int \<times> int option \<Rightarrow> time \<Rightarrow> SpawnReq \<Rightarrow> (string + Session) option" where
  "NewSession rand fork now req =
     (case rand of
        Inl e \<Rightarrow> Some (Inl (''daemon: generate session id: '' @ e))
      | Inr sid \<Rightarrow>
          (case StartHeadless fork (new_pane req) of
             None \<Rightarrow> None
           | Some (p5, Some e) \<Rightarrow> Some (Inl (''daemon: start pane: '' @ e))
           | Some (p5, None) \<Rightarrow>
               Some (Inr \<lparr>s_id = sid, s_ticketID = sp_TicketID req, s_sessionName = sp_SessionName req,
                          s_workdir = sp_Workdir req, s_pane = p5, s_startedAt = now,
                          s_agentSessionUUID = sp_AgentSessionUUID req, s_agentType = sp_AgentType req,
                          s_attached = None, s_acs = [], s_viewers = [], s_expectedCompletion = False\<rparr>)))"

section \<open>Viewers\<close>

definition SetViewing :: "client_id \<Rightarrow> bool \<Rightarrow> Session \<Rightarrow> Session \<times> nat \<times> bool" where
  "SetViewing c viewing s =
     (let present = (c \<in> set (s_viewers s)) in
      if viewing \<and> \<not> present then
        (let s1 = s\<lparr>s_viewers := c # s_viewers s\<rparr> in (s1, length (s_viewers s1), True))
      else if \<not> viewing \<and> present then
        (let s1 = s\<lparr>s_viewers := remove1 c (s_viewers s)\<rparr> in (s1, length (s_viewers s1), True))
      else (s, length (s_viewers s), False))"

definition RemoveViewer :: "client_id \<Rightarrow> Session \<Rightarrow> Session \<times> bool" where
  "RemoveViewer c s =
     (if c \<in> set (s_viewers s) then (s\<lparr>s_viewers := remove1 c (s_viewers s)\<rparr>, True) else (s, False))"

definition ViewerCount :: "Session \<Rightarrow> nat" where
  "ViewerCount s = length (s_viewers s)"

section \<open>Completion, info, kill\<close>

definition MarkExpectedCompletion :: "Session \<Rightarrow> Session" where
  "MarkExpectedCompletion s =
     s\<lparr>s_expectedCompletion := True, s_pane := MarkExpectedCompletedExit (s_pane s)\<rparr>"

definition ExpectedCompletion :: "Session \<Rightarrow> bool" where
  "ExpectedCompletion s = s_expectedCompletion s"

definition Info :: "Session \<Rightarrow> SessionInfo" where
  "Info s =
     (let attached = (case s_attached s of None \<Rightarrow> 0 | Some k \<Rightarrow> ac_ClientID (s_acs s ! k));
          (cols, rows) = Size (s_pane s) in
      \<lparr>i_SessionID = s_id s, i_TicketID = s_ticketID s, i_SessionName = s_sessionName s, i_Workdir = s_workdir s,
       i_Title = p_title (s_pane s), i_PID = p_pid (s_pane s), i_Cols = cols, i_Rows = rows,
       i_Scrollback = p_scrollbackSize (s_pane s), i_Running = p_runningAtomic (s_pane s),
       i_AttachedClient = attached, i_ViewerCount = ViewerCount s, i_StartedAt = s_startedAt s\<rparr>)"

definition Kill :: "int \<Rightarrow> int \<Rightarrow> Session \<Rightarrow> Session \<times> (target \<times> signal) list" where
  "Kill own graceSeconds s =
     (case (if graceSeconds \<le> 0 then Stop own (s_pane s) else StopGraceful own (s_pane s)) of
        (p, sent) \<Rightarrow> (s\<lparr>s_pane := p\<rparr>, sent))"

section \<open>The attach slot\<close>

datatype attach_error = AlreadyAttached

text \<open>Closes \<^verbatim>\<open>DetachCh\<close> and cancels the subscription of entry \<open>k\<close>, each at most once.\<close>

definition detach_ac :: "nat \<Rightarrow> Session \<Rightarrow> Session option" where
  "detach_ac k s =
     (let ac = s_acs s ! k;
          s1 = s\<lparr>s_acs := (s_acs s)[k := ac\<lparr>ac_detached := True, ac_unsub := False\<rparr>]\<rparr> in
      if ac_unsub ac then map_option (\<lambda>p. s1\<lparr>s_pane := p\<rparr>) (cancel (ac_Ch ac) (s_pane s)) else Some s1)"

text \<open>The result carries the pane as the snapshot saw it and the new entry.\<close>

definition AttemptAttach ::
  "client_id \<Rightarrow> 16 word \<Rightarrow> 16 word \<Rightarrow> bool \<Rightarrow> Session \<Rightarrow> (Session \<times> (attach_error + Pane \<times> nat)) option" where
  "AttemptAttach c cols rows takeover s =
     (if s_attached s \<noteq> None \<and> \<not> takeover then Some (s, Inl AlreadyAttached)
      else
        case (case s_attached s of
                None \<Rightarrow> Some s
              | Some k \<Rightarrow> map_option (\<lambda>s1. s1\<lparr>s_attached := None\<rparr>) (detach_ac k s)) of
          None \<Rightarrow> None
        | Some s1 \<Rightarrow>
            (let snap = s_pane s1 in
             case Subscribe (s_pane s1) of
               None \<Rightarrow> None
             | Some (p, ch) \<Rightarrow>
                 (let k = length (s_acs s1);
                      s2 = s1\<lparr>s_pane := p,
                              s_acs := s_acs s1 @ [\<lparr>ac_ClientID = c, ac_Ch = ch, ac_unsub = True, ac_detached = False\<rparr>],
                              s_attached := Some k\<rparr>;
                      s3 = (if cols > 0 \<and> rows > 0
                            then s2\<lparr>s_pane := SetSize (uint cols) (uint rows) (s_pane s2)\<rparr> else s2) in
                  Some (s3, Inr (snap, k)))))"

definition Detach :: "nat \<Rightarrow> Session \<Rightarrow> Session option" where
  "Detach k s = detach_ac k (if s_attached s = Some k then s\<lparr>s_attached := None\<rparr> else s)"

text \<open>The fan-out goroutine closes \<^verbatim>\<open>DetachCh\<close> when it sees the exit event.\<close>

definition close_detach :: "nat \<Rightarrow> Session \<Rightarrow> Session" where
  "close_detach k s = s\<lparr>s_acs := (s_acs s)[k := (s_acs s ! k)\<lparr>ac_detached := True\<rparr>]\<rparr>"

section \<open>Lemmas\<close>

lemma viewers_op:
  assumes "distinct (s_viewers s)"
  shows "distinct (s_viewers (fst (SetViewing c v s)))"
    "set (s_viewers (fst (SetViewing c v s))) = (if v then insert c (set (s_viewers s)) else set (s_viewers s) - {c})"
    "fst (snd (SetViewing c v s)) = card (set (s_viewers (fst (SetViewing c v s))))"
    "snd (snd (SetViewing c v s)) = (set (s_viewers (fst (SetViewing c v s))) \<noteq> set (s_viewers s))"
  using assms by (auto simp: SetViewing_def Let_def distinct_card [symmetric] set_remove1_eq)

lemma RemoveViewer_SetViewing: "RemoveViewer c s = (fst (SetViewing c False s), snd (snd (SetViewing c False s)))"
  by (simp add: RemoveViewer_def SetViewing_def Let_def)

text \<open>The state of the attach slot: the subscriptions still held are exactly those of the attached entry.\<close>

definition slot_wf :: "Session \<Rightarrow> bool" where
  "slot_wf s \<longleftrightarrow> pane_wf (s_pane s) \<and>
     (\<forall>k < length (s_acs s). ac_unsub (s_acs s ! k) = (s_attached s = Some k) \<and>
        ac_Ch (s_acs s ! k) < length (p_chans (s_pane s)) \<and>
        (s_attached s \<noteq> Some k \<longrightarrow> ac_detached (s_acs s ! k) \<and> ac_Ch (s_acs s ! k) \<notin> set (p_subscribers (s_pane s)))) \<and>
     distinct (map ac_Ch (s_acs s)) \<and>
     (\<forall>k. s_attached s = Some k \<longrightarrow> k < length (s_acs s))"

lemma cancel_wf:
  assumes "pane_wf p"
  obtains p' where "cancel n p = Some p'" "pane_wf p'" "length (p_chans p') = length (p_chans p)"
    "set (p_subscribers p') = set (p_subscribers p) - {n}"
proof (cases "n \<in> set (p_subscribers p)")
  case True
  then have n: "n < length (p_chans p)" "\<not> ch_closed (p_chans p ! n)" using assms by (auto simp: pane_wf_def)
  let ?p = "p\<lparr>p_subscribers := remove1 n (p_subscribers p), p_chans := (p_chans p)[n := (p_chans p ! n)\<lparr>ch_closed := True\<rparr>]\<rparr>"
  have "pane_wf ?p" using assms n by (auto simp: pane_wf_def nth_list_update set_remove1_eq)
  with True n assms show ?thesis
    by (intro that [of ?p]) (auto simp: cancel_def close_chan_def pane_wf_def set_remove1_eq)
qed (use assms in \<open>auto simp: cancel_def intro: that [of p]\<close>)

lemma detach_ac_wf:
  assumes "slot_wf s" "k < length (s_acs s)"
  obtains s' where "Detach k s = Some s'" "slot_wf s'" "s_attached s' = (if s_attached s = Some k then None else s_attached s)"
    "length (s_acs s') = length (s_acs s)" "ac_detached (s_acs s' ! k)"
    "s_attached s \<noteq> Some k \<Longrightarrow> s_pane s' = s_pane s"
    "map ac_ClientID (s_acs s') = map ac_ClientID (s_acs s)"
proof (cases "s_attached s = Some k")
  case True
  let ?ac = "s_acs s ! k"
  have k: "ac_unsub ?ac" "ac_Ch ?ac < length (p_chans (s_pane s))" using assms True by (auto simp: slot_wf_def)
  obtain p' where p': "cancel (ac_Ch ?ac) (s_pane s) = Some p'" "pane_wf p'" "length (p_chans p') = length (p_chans (s_pane s))"
    "set (p_subscribers p') = set (p_subscribers (s_pane s)) - {ac_Ch ?ac}"
    using assms(1) cancel_wf [of "s_pane s" "ac_Ch ?ac"] by (auto simp: slot_wf_def)
  let ?s = "s\<lparr>s_attached := None, s_acs := (s_acs s)[k := ?ac\<lparr>ac_detached := True, ac_unsub := False\<rparr>], s_pane := p'\<rparr>"
  have d: "Detach k s = Some ?s" using True k p'(1) by (simp add: Detach_def detach_ac_def Let_def)
  have m: "map ac_Ch (s_acs ?s) = map ac_Ch (s_acs s)"
    using assms(2) by (simp add: map_update list_update_same_conv)
  have "slot_wf ?s"
    using assms True p' m by (auto simp: slot_wf_def nth_list_update)
  moreover have "map ac_ClientID (s_acs ?s) = map ac_ClientID (s_acs s)"
    using assms(2) by (simp add: map_update list_update_same_conv)
  ultimately show ?thesis using d assms(2) True by (intro that [of ?s]) auto
next
  case False
  let ?ac = "s_acs s ! k"
  have k: "\<not> ac_unsub ?ac" "ac_detached ?ac" using assms False by (auto simp: slot_wf_def)
  have "?ac\<lparr>ac_detached := True, ac_unsub := False\<rparr> = ?ac" using k by (cases ?ac) simp
  then have "(s_acs s)[k := ?ac\<lparr>ac_detached := True, ac_unsub := False\<rparr>] = s_acs s" by (simp only: list_update_id)
  then have "Detach k s = Some s"
    using False k by (simp add: Detach_def detach_ac_def Let_def)
  with False assms k show ?thesis by (intro that [of s]) auto
qed

lemma displace_eq: "map_option (\<lambda>s1. s1\<lparr>s_attached := None\<rparr>) (detach_ac k s) = detach_ac k (s\<lparr>s_attached := None\<rparr>)"
  by (cases s) (auto simp: detach_ac_def Let_def option.map_comp comp_def)

text \<open>Installing a new attacher in an empty slot.\<close>

lemma install_wf:
  assumes "slot_wf s" "s_attached s = None"
  obtains p' where "Subscribe (s_pane s) = Some (p', length (p_chans (s_pane s)))"
    "slot_wf (s\<lparr>s_pane := p', s_acs := s_acs s @ [\<lparr>ac_ClientID = c, ac_Ch = length (p_chans (s_pane s)), ac_unsub = True, ac_detached = False\<rparr>],
       s_attached := Some (length (s_acs s))\<rparr>)"
    "p_pid p' = p_pid (s_pane s)" "p_running p' = p_running (s_pane s)" "p_pgid p' = p_pgid (s_pane s)"
    "p_runningAtomic p' = p_runningAtomic (s_pane s)"
proof -
  let ?p = "s_pane s"
  have w: "pane_wf ?p" using assms(1) by (simp add: slot_wf_def)
  obtain p' where p': "Subscribe ?p = Some (p', length (p_chans ?p))" using chan_step_Subscribe [OF w] by blast
  have st: "chan_step n ?p p'" for n
    using chan_step_Subscribe [OF w, of n] p' by (metis option.inject prod.inject)
  note new = Subscribe_new [OF w p']
  have old: "n \<notin> set (p_subscribers p')" if "n < length (p_chans ?p)" "n \<notin> set (p_subscribers ?p)" for n
    using st [of n] that by (auto simp: chan_step_def)
  let ?s = "s\<lparr>s_pane := p', s_acs := s_acs s @ [\<lparr>ac_ClientID = c, ac_Ch = length (p_chans ?p), ac_unsub = True, ac_detached = False\<rparr>],
       s_attached := Some (length (s_acs s))\<rparr>"
  have chs: "\<forall>k < length (s_acs s). ac_Ch (s_acs s ! k) < length (p_chans ?p) \<and> \<not> ac_unsub (s_acs s ! k) \<and>
      ac_detached (s_acs s ! k) \<and> ac_Ch (s_acs s ! k) \<notin> set (p_subscribers ?p)"
    using assms by (auto simp: slot_wf_def)
  have d: "distinct (map ac_Ch (s_acs s))" "length (p_chans ?p) \<notin> ac_Ch ` set (s_acs s)"
    using assms(1) chs by (auto simp: slot_wf_def in_set_conv_nth)
  have len: "length (p_chans ?p) < length (p_chans p')" by (rule new(2))
  have "slot_wf ?s"
    unfolding slot_wf_def
  proof (intro conjI)
    show "pane_wf (s_pane ?s)" using new(1) by simp
    show "\<forall>k<length (s_acs ?s). ac_unsub (s_acs ?s ! k) = (s_attached ?s = Some k) \<and> ac_Ch (s_acs ?s ! k) < length (p_chans (s_pane ?s)) \<and>
        (s_attached ?s \<noteq> Some k \<longrightarrow> ac_detached (s_acs ?s ! k) \<and> ac_Ch (s_acs ?s ! k) \<notin> set (p_subscribers (s_pane ?s)))"
      using chs old len by (auto simp: nth_append less_Suc_eq)
    show "distinct (map ac_Ch (s_acs ?s))" using d by simp
    show "\<forall>k. s_attached ?s = Some k \<longrightarrow> k < length (s_acs ?s)" by simp
  qed
  moreover have "p_pid p' = p_pid ?p" "p_running p' = p_running ?p" "p_pgid p' = p_pgid ?p" "p_runningAtomic p' = p_runningAtomic ?p"
    using p' by (auto simp: Subscribe_def startReadLoop_def publishExit_def Let_def split: if_splits)
  ultimately show ?thesis using p' by (intro that)
qed

lemma slot_wf_pane:
  "slot_wf s \<Longrightarrow> pane_wf p \<Longrightarrow> length (p_chans (s_pane s)) \<le> length (p_chans p) \<Longrightarrow>
   \<forall>n < length (p_chans (s_pane s)). n \<in> set (p_subscribers p) \<longrightarrow> n \<in> set (p_subscribers (s_pane s)) \<Longrightarrow>
   slot_wf (s\<lparr>s_pane := p\<rparr>)"
  unfolding slot_wf_def by (auto intro: less_le_trans)

lemma slot_wf_same: "slot_wf s \<Longrightarrow> same_chans (s_pane s) p \<Longrightarrow> slot_wf (s\<lparr>s_pane := p\<rparr>)"
  by (rule slot_wf_pane) (auto simp: slot_wf_def same_chans_def pane_wf_def)

lemma AttemptAttach_wf:
  assumes "slot_wf s" "s_attached s = None \<or> takeover"
  obtains s' snap where "AttemptAttach c cols rows takeover s = Some (s', Inr (snap, length (s_acs s)))" "slot_wf s'"
    "s_attached s' = Some (length (s_acs s))" "length (s_acs s') = Suc (length (s_acs s))"
    "ac_ClientID (s_acs s' ! length (s_acs s)) = c"
    "\<And>k. s_attached s = Some k \<Longrightarrow> ac_detached (s_acs s' ! k) \<and> \<not> ac_unsub (s_acs s' ! k)"
    "p_pid (s_pane s') = p_pid (s_pane s)" "p_running (s_pane s') = p_running (s_pane s)"
proof -
  obtain s1 where s1: "(case s_attached s of None \<Rightarrow> Some s | Some k \<Rightarrow> map_option (\<lambda>s1. s1\<lparr>s_attached := None\<rparr>) (detach_ac k s)) = Some s1"
    "slot_wf s1" "s_attached s1 = None" "length (s_acs s1) = length (s_acs s)"
    "\<And>k. s_attached s = Some k \<Longrightarrow> ac_detached (s_acs s1 ! k)"
    "p_pid (s_pane s1) = p_pid (s_pane s)" "p_running (s_pane s1) = p_running (s_pane s)"
  proof (cases "s_attached s")
    case None
    then show ?thesis using assms(1) by (intro that [of s]) auto
  next
    case (Some k)
    then have k: "k < length (s_acs s)" using assms(1) by (simp add: slot_wf_def)
    obtain s1 where s1: "Detach k s = Some s1" "slot_wf s1" "s_attached s1 = None" "length (s_acs s1) = length (s_acs s)"
      "ac_detached (s_acs s1 ! k)"
      using detach_ac_wf [OF assms(1) k] Some by auto
    have "p_pid (s_pane s1) = p_pid (s_pane s) \<and> p_running (s_pane s1) = p_running (s_pane s)"
      using s1(1) by (auto simp: Detach_def detach_ac_def cancel_def Let_def split: if_splits)
    with s1 Some show ?thesis by (intro that [of s1]) (auto simp: displace_eq Detach_def)
  qed
  let ?ac = "\<lparr>ac_ClientID = c, ac_Ch = length (p_chans (s_pane s1)), ac_unsub = True, ac_detached = False\<rparr>"
  obtain p' where p': "Subscribe (s_pane s1) = Some (p', length (p_chans (s_pane s1)))"
    "slot_wf (s1\<lparr>s_pane := p', s_acs := s_acs s1 @ [?ac], s_attached := Some (length (s_acs s1))\<rparr>)"
    "p_pid p' = p_pid (s_pane s1)" "p_running p' = p_running (s_pane s1)"
    using install_wf [OF s1(2,3), of c] by blast
  let ?s2 = "s1\<lparr>s_pane := p', s_acs := s_acs s1 @ [?ac], s_attached := Some (length (s_acs s1))\<rparr>"
  let ?s3 = "if cols > 0 \<and> rows > 0 then ?s2\<lparr>s_pane := SetSize (uint cols) (uint rows) (s_pane ?s2)\<rparr> else ?s2"
  have r: "AttemptAttach c cols rows takeover s = Some (?s3, Inr (s_pane s1, length (s_acs s)))"
    using assms(2) s1(1,4) p'(1) by (auto simp: AttemptAttach_def Let_def)
  have "pane_wf p'" using p'(2) by (simp add: slot_wf_def)
  then have "slot_wf ?s3"
    using p'(2) slot_wf_same [OF p'(2), of "SetSize (uint cols) (uint rows) p'"] same_chans_ops(1) [of p'] by simp
  moreover have "\<not> ac_unsub (s_acs s1 ! k)" if "s_attached s = Some k" for k
  proof -
    have "k < length (s_acs s)" using that assms(1) by (simp add: slot_wf_def)
    then show ?thesis using s1(2-4) by (simp add: slot_wf_def)
  qed
  ultimately show ?thesis
    using r s1 p'(3,4) assms(1)
    by (intro that [OF r]) (auto simp: nth_append slot_wf_def SetSize_def)
qed

section \<open>Runs of a session\<close>

text \<open>What goroutines do to one session.  The subscription of an attach is cancelled only by way of its
  entry; \<open>SPane (Cancel n)\<close> is a cancel by another subscriber.\<close>

datatype session_op = SAttach client_id "16 word" "16 word" bool | SDetach nat | SFanoutExit nat | SPane pane_op
  | SView client_id bool | SGone client_id | SDone | SKill int int

definition session_do :: "(rune \<Rightarrow> bool) \<Rightarrow> session_op \<Rightarrow> Session \<Rightarrow> Session option" where
  "session_do L a s =
     (case a of
        SAttach c cols rows takeover \<Rightarrow> map_option fst (AttemptAttach c cols rows takeover s)
      | SDetach k \<Rightarrow> if k < length (s_acs s) then Detach k s else Some s
      | SFanoutExit k \<Rightarrow> Some (if k < length (s_acs s) then close_detach k s else s)
      | SPane b \<Rightarrow>
          if list_ex (\<lambda>ac. b = Cancel (ac_Ch ac)) (s_acs s) then Some s
          else map_option (\<lambda>p. s\<lparr>s_pane := p\<rparr>) (pane_do L b (s_pane s))
      | SView c v \<Rightarrow> Some (fst (SetViewing c v s))
      | SGone c \<Rightarrow> Some (fst (RemoveViewer c s))
      | SDone \<Rightarrow> Some (MarkExpectedCompletion s)
      | SKill own g \<Rightarrow> Some (fst (Kill own g s)))"

fun session_run :: "(rune \<Rightarrow> bool) \<Rightarrow> session_op list \<Rightarrow> Session \<Rightarrow> Session option" where
  "session_run L [] s = Some s"
| "session_run L (a # as) s = (case session_do L a s of None \<Rightarrow> None | Some s1 \<Rightarrow> session_run L as s1)"

lemma slot_wf_viewers: "slot_wf s \<Longrightarrow> slot_wf (fst (SetViewing c v s)) \<and> slot_wf (fst (RemoveViewer c s))"
  by (auto simp: slot_wf_def SetViewing_def RemoveViewer_def Let_def)

lemma slot_wf_kill: "slot_wf s \<Longrightarrow> slot_wf (fst (Kill own g s))"
proof -
  assume s: "slot_wf s"
  then have w: "pane_wf (s_pane s)" by (simp add: slot_wf_def)
  have g: "fst (StopGraceful own p) = p \<or> fst (StopGraceful own p) = fst (StopGraceful_kill own p)" for p
    by (auto simp: StopGraceful_def StopGraceful_term_def split: prod.splits)
  have "same_chans (s_pane s) (s_pane s)" using w by (simp add: same_chans_def pane_wf_def)
  then have "same_chans (s_pane s) (s_pane (fst (Kill own g s)))"
    using same_chans_ops(4,5) [OF w, of own] g [of "s_pane s"]
    by (auto simp: Kill_def split: prod.splits)
  moreover have "fst (Kill own g s) = s\<lparr>s_pane := s_pane (fst (Kill own g s))\<rparr>" by (simp add: Kill_def split: prod.splits)
  ultimately show ?thesis using slot_wf_same [OF s] by metis
qed

lemma session_do_wf:
  assumes "slot_wf s"
  shows "\<exists>s'. session_do L a s = Some s' \<and> slot_wf s'"
proof (cases a)
  case (SAttach c cols rows takeover)
  show ?thesis
  proof (cases "s_attached s = None \<or> takeover")
    case True
    obtain s' snap where "AttemptAttach c cols rows takeover s = Some (s', Inr (snap, length (s_acs s)))" "slot_wf s'"
      using AttemptAttach_wf [OF assms True, of c cols rows] by blast
    with SAttach show ?thesis by (simp add: session_do_def)
  next
    case False
    then have "AttemptAttach c cols rows takeover s = Some (s, Inl AlreadyAttached)" by (auto simp: AttemptAttach_def)
    with SAttach assms show ?thesis by (simp add: session_do_def)
  qed
next
  case (SDetach k)
  with assms show ?thesis by (auto simp: session_do_def elim: detach_ac_wf [of s k])
next
  case (SFanoutExit k)
  have "map ac_Ch (s_acs (close_detach k s)) = map ac_Ch (s_acs s)" if "k < length (s_acs s)"
    using that by (simp add: close_detach_def map_update list_update_same_conv)
  then have "slot_wf (close_detach k s)" if "k < length (s_acs s)"
    using that assms by (auto simp: slot_wf_def close_detach_def nth_list_update)
  with SFanoutExit assms show ?thesis by (simp add: session_do_def)
next
  case (SPane b)
  have w: "pane_wf (s_pane s)" using assms by (simp add: slot_wf_def)
  show ?thesis
  proof (cases "list_ex (\<lambda>ac. b = Cancel (ac_Ch ac)) (s_acs s)")
    case False
    obtain p' where p': "pane_do L b (s_pane s) = Some p'" "pane_wf p'" using pane_do_step [OF w, of L b] by blast
    have st: "b \<noteq> Cancel n \<longrightarrow> chan_step n (s_pane s) p'" for n using pane_do_step [OF w, of L b n] p'(1) by auto
    have ge: "length (p_chans (s_pane s)) \<le> length (p_chans p') \<and>
        (\<forall>n < length (p_chans (s_pane s)). n \<in> set (p_subscribers p') \<longrightarrow> n \<in> set (p_subscribers (s_pane s)))"
    proof (cases "\<exists>n. b = Cancel n")
      case True
      then obtain n where "b = Cancel n" ..
      then have "cancel n (s_pane s) = Some p'" using p'(1) by (simp add: pane_do_def)
      moreover obtain q where "cancel n (s_pane s) = Some q" "length (p_chans q) = length (p_chans (s_pane s))"
        "set (p_subscribers q) = set (p_subscribers (s_pane s)) - {n}" using cancel_wf [OF w] by blast
      ultimately show ?thesis by simp
    next
      case no: False
      then show ?thesis using st by (auto simp: chan_step_def)
    qed
    then have "slot_wf (s\<lparr>s_pane := p'\<rparr>)" using slot_wf_pane [OF assms p'(2)] by blast
    with SPane False p' show ?thesis by (simp add: session_do_def)
  qed (use SPane assms in \<open>simp add: session_do_def\<close>)
next
  case (SView c v)
  with assms show ?thesis by (simp add: session_do_def slot_wf_viewers)
next
  case (SGone c)
  with assms show ?thesis by (simp add: session_do_def slot_wf_viewers)
next
  case SDone
  have "same_chans (s_pane s) (MarkExpectedCompletedExit (s_pane s))" using assms by (intro same_chans_ops) (simp add: slot_wf_def)
  from slot_wf_same [OF assms this] SDone show ?thesis
    by (auto simp: session_do_def MarkExpectedCompletion_def slot_wf_def)
next
  case (SKill own g)
  with assms show ?thesis by (simp add: session_do_def slot_wf_kill)
qed

lemma session_run_wf: "slot_wf s \<Longrightarrow> \<exists>s'. session_run L ops s = Some s' \<and> slot_wf s'"
proof (induction ops arbitrary: s)
  case (Cons a ops)
  from session_do_wf [OF Cons.prems, of L a] Cons.IH show ?case by auto
qed simp

lemma slot_wf_New:
  assumes "NewSession rand fork now req = Some (Inr s)"
  shows "slot_wf s"
proof -
  have "pane_wf (new_pane req)" by (simp add: new_pane_def Let_def pane_wf_def New_def)
  then obtain q where q: "pane_do (\<lambda>_. True) (Start fork) (new_pane req) = Some q" "pane_wf q"
    using pane_do_step [of "new_pane req" "\<lambda>_. True" "Start fork" 0] by blast
  obtain p where p: "StartHeadless fork (new_pane req) = Some (p, None)" "s_pane s = p" "s_acs s = []" "s_attached s = None"
    using assms by (auto simp: NewSession_def split: sum.splits option.splits)
  with q have "pane_wf (s_pane s)" by (simp add: pane_do_def)
  with p show ?thesis by (simp add: slot_wf_def)
qed

section \<open>Properties\<close>

text \<open>The attach slot never leaks: in every run of a session no operation panics, and every attacher but the
  current one has had its detach channel closed and its pane subscription cancelled, whichever of takeover,
  detach and exit came first.\<close>

theorem attach_slot_exclusive:
  assumes "NewSession rand fork now req = Some (Inr s0)"
  shows "\<exists>s. session_run L ops s0 = Some s \<and>
    list_all (\<lambda>k. s_attached s = Some k \<or>
        (ac_detached (s_acs s ! k) \<and> ac_Ch (s_acs s ! k) \<notin> set (p_subscribers (s_pane s)))) [0..<length (s_acs s)]"
proof -
  obtain s where "session_run L ops s0 = Some s" "slot_wf s"
    using session_run_wf [OF slot_wf_New [OF assms]] by blast
  then show ?thesis by (intro exI [of _ s]) (auto simp: slot_wf_def list_all_iff)
qed

definition example_req :: SpawnReq where
  "example_req = \<lparr>sp_TicketID = ''t1'', sp_SessionName = ''s1'', sp_Command = ''claude'', sp_Workdir = ''/w'', sp_Args = [],
     sp_Env = [], sp_Cols = 0, sp_Rows = 40, sp_Scrollback = 0, sp_AgentSessionUUID = [], sp_AgentType = ''claude'',
     sp_ForwardNotifications = True\<rparr>"

definition example_session :: Session where
  "example_session = (case NewSession (Inr ''id1'') (Inr (77, Some 77)) 5 example_req of Some (Inr s) \<Rightarrow> s)"

lemma example_session: "NewSession (Inr ''id1'') (Inr (77, Some 77)) 5 example_req = Some (Inr example_session)"
  by code_simp

theorem attach_slot_exclusive_witness:
  "\<exists>s. session_run (\<lambda>_. True) [SAttach 1 80 24 False, SAttach 2 90 30 True, SDetach 0] example_session = Some s \<and>
    list_all (\<lambda>k. s_attached s = Some k \<or>
        (ac_detached (s_acs s ! k) \<and> ac_Ch (s_acs s ! k) \<notin> set (p_subscribers (s_pane s)))) [0..<length (s_acs s)]"
  by (rule attach_slot_exclusive [OF example_session])

text \<open>An attach without takeover is refused, with no effect, exactly when somebody is attached.  Otherwise
  the caller becomes the attacher, the displaced one is told, the child is untouched, and the displaced
  client's own late detach changes nothing any more.\<close>

theorem AttemptAttach_exact:
  assumes "NewSession rand fork now req = Some (Inr s0)" and "session_run L ops s0 = Some s"
  shows "if s_attached s \<noteq> None \<and> \<not> takeover then AttemptAttach c cols rows takeover s = Some (s, Inl AlreadyAttached)
    else \<exists>s1 snap k. AttemptAttach c cols rows takeover s = Some (s1, Inr (snap, k)) \<and> s_attached s1 = Some k \<and>
      ac_ClientID (s_acs s1 ! k) = c \<and> p_pid (s_pane s1) = p_pid (s_pane s) \<and> p_running (s_pane s1) = p_running (s_pane s) \<and>
      (case s_attached s of None \<Rightarrow> True
       | Some old \<Rightarrow> ac_detached (s_acs s1 ! old) \<and> Detach old s1 = Some s1)"
proof -
  have w: "slot_wf s" using session_run_wf [OF slot_wf_New [OF assms(1)], of L ops] assms(2) by auto
  show ?thesis
  proof (cases "s_attached s = None \<or> takeover")
    case False
    then show ?thesis by (auto simp: AttemptAttach_def)
  next
    case True
    obtain s1 snap where s1: "AttemptAttach c cols rows takeover s = Some (s1, Inr (snap, length (s_acs s)))" "slot_wf s1"
      "s_attached s1 = Some (length (s_acs s))" "ac_ClientID (s_acs s1 ! length (s_acs s)) = c"
      "\<And>k. s_attached s = Some k \<Longrightarrow> ac_detached (s_acs s1 ! k) \<and> \<not> ac_unsub (s_acs s1 ! k)"
      "p_pid (s_pane s1) = p_pid (s_pane s)" "p_running (s_pane s1) = p_running (s_pane s)"
      using AttemptAttach_wf [OF w True, of c cols rows] by blast
    have late: "Detach old s1 = Some s1" if "s_attached s = Some old" for old
    proof -
      have "old < length (s_acs s)" using that w by (simp add: slot_wf_def)
      then have "s_attached s1 \<noteq> Some old" using s1(3) by simp
      moreover have "(s_acs s1 ! old)\<lparr>ac_detached := True, ac_unsub := False\<rparr> = s_acs s1 ! old"
        using s1(5) [OF that] by (cases "s_acs s1 ! old") simp
      then have "(s_acs s1)[old := (s_acs s1 ! old)\<lparr>ac_detached := True, ac_unsub := False\<rparr>] = s_acs s1"
        by (simp only: list_update_id)
      ultimately show ?thesis using s1(5) [OF that] by (simp add: Detach_def detach_ac_def Let_def)
    qed
    with True s1 show ?thesis by (auto split: option.splits)
  qed
qed

theorem AttemptAttach_exact_witness:
  "\<exists>s1 snap k. AttemptAttach 2 90 30 True (the (session_run (\<lambda>_. True) [SAttach 1 80 24 False] example_session)) =
     Some (s1, Inr (snap, k)) \<and> s_attached s1 = Some k \<and> ac_ClientID (s_acs s1 ! k) = 2"
proof -
  let ?s = "the (session_run (\<lambda>_. True) [SAttach 1 80 24 False] example_session)"
  have r: "session_run (\<lambda>_. True) [SAttach 1 80 24 False] example_session = Some ?s" by code_simp
  have "\<not> (s_attached ?s \<noteq> None \<and> \<not> True)" by simp
  with AttemptAttach_exact [OF example_session r, of True 2 90 30] show ?thesis by auto
qed

text \<open>A client views a session exactly when its last request says so, the count the code returns is the
  number of such clients, and a change is reported exactly when the set changed, so repeated requests are
  never announced twice.\<close>

theorem viewers_exact:
  assumes "s_viewers s = []"
  shows "(c \<in> set (s_viewers (fold (\<lambda>(c, v) x. fst (SetViewing c v x)) calls s))) = (map_of (rev calls) c = Some True) \<and>
    ViewerCount (fold (\<lambda>(c, v) x. fst (SetViewing c v x)) calls s) = card {c. map_of (rev calls) c = Some True} \<and>
    snd (snd (SetViewing c v (fold (\<lambda>(c, v) x. fst (SetViewing c v x)) calls s))) = (v \<noteq> (map_of (rev calls) c = Some True))"
proof -
  let ?f = "\<lambda>(c, v) x. fst (SetViewing c v x)"
  have "distinct (s_viewers (fold ?f calls s)) \<and> set (s_viewers (fold ?f calls s)) = {c. map_of (rev calls) c = Some True}"
  proof (induction calls rule: rev_induct)
    case (snoc cv calls)
    obtain c v where "cv = (c, v)" by (cases cv)
    with snoc viewers_op [of "fold ?f calls s" c v] show ?case by (auto split: if_splits)
  qed (simp add: assms)
  then have d: "distinct (s_viewers (fold ?f calls s))" and m: "set (s_viewers (fold ?f calls s)) = {c. map_of (rev calls) c = Some True}"
    by blast+
  have "ViewerCount (fold ?f calls s) = card {c. map_of (rev calls) c = Some True}"
    using distinct_card [OF d] m by (simp add: ViewerCount_def)
  moreover have "snd (snd (SetViewing c v (fold ?f calls s))) = (v \<noteq> (map_of (rev calls) c = Some True))"
    using m by (auto simp: SetViewing_def Let_def)
  ultimately show ?thesis using m by auto
qed

theorem viewers_exact_witness:
  "ViewerCount (fold (\<lambda>(c, v) x. fst (SetViewing c v x)) [(1, True), (2, True), (1, True), (2, False)] example_session) =
     card {c. map_of (rev [(1 :: client_id, True), (2, True), (1, True), (2, False)]) c = Some True}"
proof -
  have "s_viewers example_session = []" by code_simp
  from viewers_exact [OF this, where calls = "[(1, True), (2, True), (1, True), (2, False)]"] show ?thesis by blast
qed

end
