(* ===== verification/SessionReg.thy ===== *)
theory SessionReg
  imports Prelude
begin

text \<open>
  \<^verbatim>\<open>internal/daemon/registry.go\<close> and \<^verbatim>\<open>sem.go\<close>: the daemon's session registry and its connection semaphore.
  A registry is a Go map from session ids to session pointers; every writer clones and publishes
  under one lock, so that each operation is one function on the published map.  \<open>tid\<close> gives the
  (immutable) ticket of a session pointer.
\<close>

type_synonym sref = nat
type_synonym registry = "(string, sref) gomap"

definition reg_get :: "string \<Rightarrow> registry \<Rightarrow> sref option" where
  "reg_get i r = mget r i"

definition reg_len :: "registry \<Rightarrow> nat" where
  "reg_len r = length r"

fun find_ticket :: "(sref \<Rightarrow> string) \<Rightarrow> string \<Rightarrow> registry \<Rightarrow> sref option" where
  "find_ticket tid t [] = None"
| "find_ticket tid t ((i, x) # r) = (if tid x = t then Some x else find_ticket tid t r)"

definition reg_findByTicket :: "(sref \<Rightarrow> string) \<Rightarrow> string \<Rightarrow> registry \<Rightarrow> sref option" where
  "reg_findByTicket tid t r = (if t = [] then None else find_ticket tid t r)"

definition reg_store :: "string \<Rightarrow> sref \<Rightarrow> registry \<Rightarrow> registry" where
  "reg_store i x r = mput i x r"

definition reg_delete :: "string \<Rightarrow> registry \<Rightarrow> registry" where
  "reg_delete i r = mdel i r"

definition reg_deleteIf :: "string \<Rightarrow> sref \<Rightarrow> registry \<Rightarrow> registry \<times> bool" where
  "reg_deleteIf i want r = (if mget r i \<noteq> Some want then (r, False) else (mdel i r, True))"

definition reg_storeIfNoTicket ::
  "(sref \<Rightarrow> string) \<Rightarrow> string \<Rightarrow> string \<Rightarrow> sref \<Rightarrow> registry \<Rightarrow> registry \<times> sref \<times> bool" where
  "reg_storeIfNoTicket tid t i x r =
     (case (if t \<noteq> [] then find_ticket tid t r else None) of
        Some existing \<Rightarrow> (r, existing, False)
      | None \<Rightarrow> (mput i x r, x, True))"

definition reg_drain :: "registry \<Rightarrow> registry \<times> sref list" where
  "reg_drain r = ([], map snd r)"

section \<open>The connection semaphore\<close>

definition maxConcurrentConns :: nat where "maxConcurrentConns = 256"

definition tryAcquire :: "nat \<Rightarrow> nat \<times> bool" where
  "tryAcquire n = (if n < maxConcurrentConns then (Suc n, True) else (n, False))"

definition sem_release :: "nat \<Rightarrow> nat" where
  "sem_release n = n - 1"

section \<open>The contract\<close>

text \<open>
  What the daemon relies on: a registry holds at most one session per ticket, a conditional store either
  finds the owner of the ticket or makes the new session its owner, and a conditional delete removes
  that entry or nothing.
\<close>

locale session_registry =
  fixes get :: "'k \<Rightarrow> 'r \<Rightarrow> 's option"
    and store_new :: "'t \<Rightarrow> 'k \<Rightarrow> 's \<Rightarrow> 'r \<Rightarrow> 'r \<times> 's \<times> bool"
    and delete_if :: "'k \<Rightarrow> 's \<Rightarrow> 'r \<Rightarrow> 'r \<times> bool"
    and tid :: "'s \<Rightarrow> 't"
    and good :: "'r \<Rightarrow> bool"
    and real :: "'t \<Rightarrow> bool"
  assumes store_owned: "good r \<Longrightarrow> real t \<Longrightarrow> get k' r = Some y \<Longrightarrow> tid y = t \<Longrightarrow>
      \<exists>w k. store_new t k0 x r = (r, w, False) \<and> tid w = t \<and> get k r = Some w"
    and store_free: "good r \<Longrightarrow> real t \<Longrightarrow> (\<And>k y. get k r = Some y \<Longrightarrow> tid y \<noteq> t) \<Longrightarrow>
      \<exists>r'. store_new t k0 x r = (r', x, True) \<and> good r' \<and> (\<forall>k. get k r' = (if k = k0 then Some x else get k r))"
    and delete_if_eq: "good r \<Longrightarrow>
      \<exists>r'. delete_if k0 x r = (r', get k0 r = Some x) \<and> good r' \<and>
        (\<forall>k. get k r' = (if k = k0 \<and> get k0 r = Some x then None else get k r))"
begin

definition one_per_ticket :: "'r \<Rightarrow> bool" where
  "one_per_ticket r \<longleftrightarrow> good r \<and> (\<forall>k y k' y'. get k r = Some y \<and> get k' r = Some y' \<and> tid y = tid y' \<longrightarrow> k = k')"

lemma store_cases:
  assumes "good r" "real (tid x)"
  obtains (owned) w k where "store_new (tid x) k0 x r = (r, w, False)" "tid w = tid x" "get k r = Some w"
  | (stored) r' where "store_new (tid x) k0 x r = (r', x, True)" "good r'"
      "\<And>k. get k r' = (if k = k0 then Some x else get k r)" "\<And>k y. get k r = Some y \<Longrightarrow> tid y \<noteq> tid x"
proof (cases "\<exists>k y. get k r = Some y \<and> tid y = tid x")
  case True
  then show ?thesis using store_owned [OF assms, of _ _ k0 x] owned by metis
next
  case False
  then show ?thesis using store_free [OF assms, of k0 x] stored by metis
qed

lemma store_one_per_ticket:
  assumes "one_per_ticket r" "real (tid x)"
  shows "one_per_ticket (fst (store_new (tid x) k0 x r))"
proof -
  have "good r" using assms(1) by (simp add: one_per_ticket_def)
  from this assms(2) show ?thesis
  proof (cases rule: store_cases [of r x k0])
    case (owned w k)
    then show ?thesis using assms(1) by simp
  next
    case (stored r')
    have n: False if "get k r = Some y" "tid y = tid x \<or> tid x = tid y" for k y using stored(4) [OF that(1)] that(2) by simp
    show ?thesis using assms(1) stored(1-3) unfolding one_per_ticket_def by (auto split: if_splits dest: n)
  qed
qed

lemma delete_one_per_ticket:
  assumes "one_per_ticket r" shows "one_per_ticket (fst (delete_if k0 x r))"
proof -
  have "good r" using assms by (simp add: one_per_ticket_def)
  from delete_if_eq [OF this, of k0 x] obtain r' where "delete_if k0 x r = (r', get k0 r = Some x)" "good r'"
    "\<forall>k. get k r' = (if k = k0 \<and> get k0 r = Some x then None else get k r)" by blast
  then show ?thesis using assms unfolding one_per_ticket_def by (auto split: if_splits)
qed

text \<open>Two stores for one ticket agree on the winner, whichever comes first.\<close>

lemma store_winner:
  assumes "one_per_ticket r" "real (tid x)" "tid y = tid x"
    and "store_new (tid x) kx x r = (r1, w1, b1)" "store_new (tid y) ky y r1 = (r2, w2, b2)"
  shows "w2 = w1 \<and> \<not> b2 \<and> r2 = r1"
proof -
  have g: "good r" using assms(1) by (simp add: one_per_ticket_def)
  have o: "one_per_ticket r1" using store_one_per_ticket [OF assms(1,2), of kx] assms(4) by simp
  then have g1: "good r1" by (simp add: one_per_ticket_def)
  obtain k1 where k1: "get k1 r1 = Some w1" "tid w1 = tid x"
    using g assms(2)
  proof (cases rule: store_cases [of r x kx])
    case (owned w k)
    then show ?thesis using assms(4) that by simp
  next
    case (stored r')
    then show ?thesis using assms(4) that [of kx] by simp
  qed
  have "real (tid y)" using assms(2,3) by simp
  with g1 show ?thesis
  proof (cases rule: store_cases [of r1 y ky])
    case (owned w k)
    have "k = k1" using o owned(2,3) k1 assms(3) unfolding one_per_ticket_def by metis
    with owned k1 assms(5) show ?thesis by auto
  next
    case (stored r')
    then show ?thesis using k1 assms(3) by metis
  qed
qed

end

section \<open>The registry meets the contract\<close>

lemma find_ticket_Some: "find_ticket tid t r = Some x \<Longrightarrow> tid x = t \<and> (\<exists>i. (i, x) \<in> set r)"
  by (induction tid t r rule: find_ticket.induct) (auto split: if_splits)

lemma find_ticket_None: "find_ticket tid t r = None \<longleftrightarrow> (\<forall>(i, x) \<in> set r. tid x \<noteq> t)"
  by (induction tid t r rule: find_ticket.induct) auto

definition named :: "string \<Rightarrow> bool" where
  "named t \<longleftrightarrow> t \<noteq> []"

text \<open>The theory's consumers fix the heap, that is \<open>tid\<close>; the interpretation is for every one.\<close>

interpretation sreg: session_registry reg_get "reg_storeIfNoTicket tid" reg_deleteIf tid mwf named for tid :: "sref \<Rightarrow> string"
proof
  fix r :: registry and t k' y and k0 x
  assume r: "mwf r" "named t" "reg_get k' r = Some y" "tid y = t"
  then have "(k', y) \<in> set r" by (simp add: reg_get_def mget_in_set)
  with r(4) obtain w where w: "find_ticket tid t r = Some w"
    using find_ticket_None [of tid t r] by (cases "find_ticket tid t r") auto
  from find_ticket_Some [OF w] obtain i where "tid w = t" "(i, w) \<in> set r" by blast
  with r(1,2) w show "\<exists>w k. reg_storeIfNoTicket tid t k0 x r = (r, w, False) \<and> tid w = t \<and> reg_get k r = Some w"
    by (intro exI [of _ w] exI [of _ i]) (simp add: reg_storeIfNoTicket_def named_def reg_get_def in_set_mget)
next
  fix r :: registry and t k0 x
  assume r: "mwf r" "named t" "\<And>k y. reg_get k r = Some y \<Longrightarrow> tid y \<noteq> t"
  then have "find_ticket tid t r = None"
    by (auto simp: find_ticket_None reg_get_def in_set_mget [OF r(1), symmetric])
  with r(1) show "\<exists>r'. reg_storeIfNoTicket tid t k0 x r = (r', x, True) \<and> mwf r' \<and>
      (\<forall>k. reg_get k r' = (if k = k0 then Some x else reg_get k r))"
    by (simp add: reg_storeIfNoTicket_def reg_get_def)
next
  fix r :: registry and k0 x
  assume "mwf r"
  then show "\<exists>r'. reg_deleteIf k0 x r = (r', reg_get k0 r = Some x) \<and> mwf r' \<and>
      (\<forall>k. reg_get k r' = (if k = k0 \<and> reg_get k0 r = Some x then None else reg_get k r))"
    by (auto simp: reg_deleteIf_def reg_get_def)
qed

lemma findByTicket_iff:
  assumes "sreg.one_per_ticket tid r" "t \<noteq> []"
  shows "reg_findByTicket tid t r = Some x \<longleftrightarrow> tid x = t \<and> (\<exists>i. reg_get i r = Some x)"
proof -
  have m: "mwf r" using assms(1) by (simp add: sreg.one_per_ticket_def)
  show ?thesis
  proof
    assume "reg_findByTicket tid t r = Some x"
    then show "tid x = t \<and> (\<exists>i. reg_get i r = Some x)"
      using assms(2) m by (auto simp: reg_findByTicket_def reg_get_def in_set_mget dest!: find_ticket_Some)
  next
    assume x: "tid x = t \<and> (\<exists>i. reg_get i r = Some x)"
    then obtain i where i: "reg_get i r = Some x" "tid x = t" by blast
    then have "(i, x) \<in> set r" by (simp add: reg_get_def mget_in_set)
    with i(2) have "find_ticket tid t r \<noteq> None" by (auto simp: find_ticket_None)
    then obtain y where y: "find_ticket tid t r = Some y" by blast
    then obtain j where "tid y = t" "reg_get j r = Some y"
      using m by (auto simp: reg_get_def in_set_mget dest!: find_ticket_Some)
    with i assms(1) have "j = i" unfolding sreg.one_per_ticket_def by metis
    with i y \<open>reg_get j r = Some y\<close> show "reg_findByTicket tid t r = Some x"
      using assms(2) by (simp add: reg_findByTicket_def)
  qed
qed

end
