(* ===== verification/Server.thy ===== *)
theory Server
  imports Session SessionReg
begin

text \<open>
  \<^verbatim>\<open>internal/daemon/server.go\<close> and \<^verbatim>\<open>attach.go\<close>: the state of the daemon and every request handler.  Sessions and
  connections are heap objects; a pointer to one is its index in \<open>sv_sessions\<close> or \<open>sv_conns\<close>.  The
  goroutines that outlive a handler (tracked kills, exit watchers, drain watchers, pending shutdowns,
  attaches, abandoned spawns) are entries of the state, and their turns are functions here; theory ServerRun
  interleaves them.  \<open>None\<close> is a panic of a channel operation.
\<close>

section \<open>Messages\<close>

record SessionEvent =
  ev_Event :: string
  ev_SessionID :: string
  ev_TicketID :: string
  ev_Status :: string
  ev_Expected :: bool
  ev_Reason :: string
  ev_LastActivityAt :: "time option"

record OwnsResp =
  ow_Owned :: bool
  ow_SessionID :: string
  ow_SessionName :: string
  ow_OwnedByTicketID :: string
  ow_Conflict :: bool
  ow_ConflictSessionIDs :: "string list"

record PrepareExitResp =
  pe_ClientCount :: nat
  pe_OtherTUIClients :: nat
  pe_OtherActiveClients :: nat
  pe_Persistent :: bool
  pe_Sessions :: "SessionInfo list"

record HealthResp =
  h_Sessions :: nat
  h_InflightHandlers :: int
  h_InflightKills :: int
  h_ReapFailures :: int
  h_DispatchSeq :: "64 word"

datatype message = HelloResp nat client_id bool | SpawnResp string int | ListResp "SessionInfo list" | KillResp
  | TicketDoneResp string bool | OwnsRespM OwnsResp | SubscribeResp | PrepareExitRespM PrepareExitResp | CancelExitResp
  | ShutdownResp nat | AttachResp client_id nat | PeekResp nat | SetViewingResp nat | HealthRespM HealthResp
  | ErrorResp string string

text \<open>A request after \<^verbatim>\<open>json.Unmarshal\<close>; \<open>Inl\<close> is its error, which the code ignores where there is no sum.\<close>

datatype request = HelloReq "string + string" | SpawnReqM "string + SpawnReq" | ListReq | KillReq "string + string \<times> int"
  | TicketDoneReq "string + string" | OwnsReq "string + string" | SubscribeReq | PrepareExitReq | CancelExitReq
  | ShutdownReq bool | AttachReq "string + string \<times> 16 word \<times> 16 word \<times> bool" | PeekReq "string + string"
  | SetViewingReq "string + string \<times> bool" | HealthReq | UnknownReq string

datatype outgoing = Msg message | PushEv SessionEvent | Bin byte "byte list"

section \<open>State\<close>

record clientConn =
  c_id :: client_id
  c_subscribed :: bool
  c_name :: string
  c_exiting :: bool
  c_open :: bool
  c_out :: "outgoing list"

datatype spawn_pc = AtGate | AtFast | AtNew | AtStore sref | AtRecheck sref | AtWatch sref | AtEmit sref
  | Returned "string + string \<times> int"

record spawn =
  g_conn :: nat
  g_req :: SpawnReq
  g_pc :: spawn_pc

datatype drain_pc = AtPoll | AtClients | AtStop | AtExit

datatype serve_state = Serving | Exited | AcceptFailed

record Server =
  sv_persistent :: bool
  sv_own :: int
  sv_sessions :: "Session list"
  sv_reg :: registry
  sv_conns :: "clientConn list"
  sv_clients :: "(client_id, nat) gomap"
  sv_nextClientID :: client_id
  sv_shutdown :: bool
  sv_listening :: bool
  sv_serve :: serve_state
  sv_sem :: nat
  sv_events :: "SessionEvent list"
  sv_pendingRestart :: bool
  sv_drainPending :: bool
  sv_dispatchSeq :: "64 word"
  sv_inflight :: int
  sv_shortInflight :: int
  sv_suspectedWedged :: bool
  sv_inflightKills :: int
  sv_reapFailures :: int
  sv_spawns :: "spawn list"
  sv_kills :: "(sref \<times> int \<times> bool) list"
  sv_watchers :: "(sref \<times> nat) list"
  sv_attaches :: "(nat \<times> sref \<times> nat) list"
  sv_drains :: "drain_pc list"
  sv_stops :: nat
  sv_signals :: "(sref \<times> target \<times> signal) list"

definition NewServer :: "bool \<Rightarrow> int \<Rightarrow> Server" where
  "NewServer persistent own =
     \<lparr>sv_persistent = persistent, sv_own = own, sv_sessions = [], sv_reg = [], sv_conns = [], sv_clients = [],
      sv_nextClientID = 0, sv_shutdown = False, sv_listening = True, sv_serve = Serving, sv_sem = 0, sv_events = [],
      sv_pendingRestart = False, sv_drainPending = False, sv_dispatchSeq = 0, sv_inflight = 0, sv_shortInflight = 0,
      sv_suspectedWedged = False, sv_inflightKills = 0, sv_reapFailures = 0, sv_spawns = [], sv_kills = [],
      sv_watchers = [], sv_attaches = [], sv_drains = [], sv_stops = 0, sv_signals = []\<rparr>"

abbreviation sess :: "Server \<Rightarrow> sref \<Rightarrow> Session" where
  "sess s r \<equiv> sv_sessions s ! r"

abbreviation tid :: "Server \<Rightarrow> sref \<Rightarrow> string" where
  "tid s r \<equiv> s_ticketID (sv_sessions s ! r)"

definition put_session :: "sref \<Rightarrow> Session \<Rightarrow> Server \<Rightarrow> Server" where
  "put_session r x s = s\<lparr>sv_sessions := (sv_sessions s)[r := x]\<rparr>"

definition put_conn :: "nat \<Rightarrow> clientConn \<Rightarrow> Server \<Rightarrow> Server" where
  "put_conn k c s = s\<lparr>sv_conns := (sv_conns s)[k := c]\<rparr>"

text \<open>A write to a closed connection fails and is only logged.\<close>

definition write_out :: "nat \<Rightarrow> outgoing \<Rightarrow> Server \<Rightarrow> Server" where
  "write_out k m s =
     (let c = sv_conns s ! k in if c_open c then put_conn k (c\<lparr>c_out := c_out c @ [m]\<rparr>) s else s)"

definition writeResp :: "nat \<Rightarrow> message \<Rightarrow> Server \<Rightarrow> Server" where
  "writeResp k m s = write_out k (Msg m) s"

definition writeError :: "nat \<Rightarrow> string \<Rightarrow> string \<Rightarrow> Server \<Rightarrow> Server" where
  "writeError k code msg s = writeResp k (ErrorResp code msg) s"

section \<open>Events\<close>

definition events_cap :: nat where "events_cap = 64"

definition emitEvent :: "SessionEvent \<Rightarrow> Server \<Rightarrow> Server" where
  "emitEvent ev s = (if length (sv_events s) < events_cap then s\<lparr>sv_events := sv_events s @ [ev]\<rparr> else s)"

definition session_event :: "string \<Rightarrow> Session \<Rightarrow> SessionEvent" where
  "session_event e x =
     \<lparr>ev_Event = e, ev_SessionID = s_id x, ev_TicketID = s_ticketID x, ev_Status = [], ev_Expected = False,
      ev_Reason = [], ev_LastActivityAt = None\<rparr>"

definition dispatchSessionEvent :: "SessionEvent \<Rightarrow> Server \<Rightarrow> Server" where
  "dispatchSessionEvent ev s =
     (let subs = filter (\<lambda>k. c_subscribed (sv_conns s ! k)) (map snd (sv_clients s)) in
      fold (\<lambda>k. write_out k (PushEv ev)) subs s)"

definition broadcastEvents :: "Server \<Rightarrow> Server" where
  "broadcastEvents s =
     (if sv_shutdown s then s
      else case sv_events s of
        [] \<Rightarrow> s
      | ev # evs \<Rightarrow> dispatchSessionEvent ev (s\<lparr>sv_events := evs\<rparr>))"

section \<open>Kills and shutdown\<close>

definition kill_session :: "sref \<Rightarrow> int \<Rightarrow> Server \<Rightarrow> Server" where
  "kill_session r grace s =
     (case Kill (sv_own s) grace (sess s r) of
        (x, sent) \<Rightarrow> (put_session r x s)\<lparr>sv_signals := sv_signals s @ map (\<lambda>(t, sg). (r, t, sg)) sent\<rparr>)"

definition shutdownGraceSeconds :: int where "shutdownGraceSeconds = 3"

definition trackedKill :: "sref \<Rightarrow> int \<Rightarrow> Server \<Rightarrow> Server" where
  "trackedKill r grace s = s\<lparr>sv_inflightKills := sv_inflightKills s + 1, sv_kills := sv_kills s @ [(r, grace, False)]\<rparr>"

text \<open>The reap timeout of kill \<open>i\<close> fires; kill \<open>i\<close> completes.\<close>

definition kill_timeout :: "nat \<Rightarrow> Server \<Rightarrow> Server" where
  "kill_timeout i s =
     (case sv_kills s ! i of (r, g, late) \<Rightarrow>
        if late then s
        else s\<lparr>sv_reapFailures := sv_reapFailures s + 1, sv_kills := (sv_kills s)[i := (r, g, True)]\<rparr>)"

definition kill_done :: "nat \<Rightarrow> Server \<Rightarrow> Server" where
  "kill_done i s =
     (case sv_kills s ! i of (r, g, late) \<Rightarrow>
        (let s1 = kill_session r g s in
         s1\<lparr>sv_kills := take i (sv_kills s) @ drop (Suc i) (sv_kills s),
            sv_reapFailures := sv_reapFailures s - (if late then 1 else 0),
            sv_inflightKills := sv_inflightKills s - 1\<rparr>))"

definition initiateShutdown :: "Server \<Rightarrow> Server" where
  "initiateShutdown s = (if sv_shutdown s then s else s\<lparr>sv_shutdown := True, sv_listening := False\<rparr>)"

definition closeClientConns :: "Server \<Rightarrow> Server" where
  "closeClientConns s =
     s\<lparr>sv_conns := fold (\<lambda>k cs. cs[k := (cs ! k)\<lparr>c_open := False\<rparr>]) (map snd (sv_clients s)) (sv_conns s)\<rparr>"

definition cleanup :: "Server \<Rightarrow> Server" where
  "cleanup s =
     (case reg_drain (sv_reg s) of
        (r, live) \<Rightarrow> fold (\<lambda>x. kill_session x shutdownGraceSeconds) live (s\<lparr>sv_reg := r\<rparr>))"

section \<open>Clients\<close>

definition registerClient :: "Server \<Rightarrow> Server \<times> nat" where
  "registerClient s =
     (let i = sv_nextClientID s + 1; k = length (sv_conns s) in
      (s\<lparr>sv_nextClientID := i,
         sv_conns := sv_conns s @ [\<lparr>c_id = i, c_subscribed = False, c_name = [], c_exiting = False, c_open = True, c_out = []\<rparr>],
         sv_clients := mput i k (sv_clients s)\<rparr>, k))"

definition unregisterClient :: "nat \<Rightarrow> Server \<Rightarrow> Server \<times> nat" where
  "unregisterClient k s =
     (let s1 = s\<lparr>sv_clients := mdel (c_id (sv_conns s ! k)) (sv_clients s)\<rparr> in (s1, length (sv_clients s1)))"

definition cleanupViewersForClient :: "client_id \<Rightarrow> Server \<Rightarrow> Server" where
  "cleanupViewersForClient c s =
     fold (\<lambda>r s1. case RemoveViewer c (sess s1 r) of
             (x, gone) \<Rightarrow> (let s2 = put_session r x s1 in if gone then emitEvent (session_event ''unviewing'' x) s2 else s2))
       (map snd (sv_reg s)) s"

definition handleLastClientDisconnect :: "Server \<Rightarrow> Server" where
  "handleLastClientDisconnect s =
     (let live = reg_len (sv_reg s) in
      if sv_persistent s then s
      else if live > 0 then
        (if \<not> sv_drainPending s then s\<lparr>sv_drainPending := True, sv_drains := sv_drains s @ [AtPoll]\<rparr> else s)
      else initiateShutdown s)"

text \<open>The deferred part of \<^verbatim>\<open>handleConn\<close>, and the accept loop's way to refuse a connection.\<close>

definition disconnect :: "nat \<Rightarrow> Server \<Rightarrow> Server" where
  "disconnect k s =
     (let s1 = put_conn k ((sv_conns s ! k)\<lparr>c_open := False\<rparr>) s;
          s2 = cleanupViewersForClient (c_id (sv_conns s1 ! k)) s1 in
      case unregisterClient k s2 of
        (s3, remaining) \<Rightarrow>
          (let s4 = (if remaining = 0 then handleLastClientDisconnect s3 else s3) in s4\<lparr>sv_sem := sem_release (sv_sem s4)\<rparr>))"

definition accept :: "Server \<Rightarrow> Server" where
  "accept s =
     (case registerClient s of
        (s1, k) \<Rightarrow>
          (case tryAcquire (sv_sem s1) of
             (n, True) \<Rightarrow> s1\<lparr>sv_sem := n\<rparr>
           | (n, False) \<Rightarrow>
               (let s2 = writeError k ''server_busy'' ''daemon at connection capacity'' s1;
                    s3 = put_conn k ((sv_conns s2 ! k)\<lparr>c_open := False\<rparr>) s2 in
                fst (unregisterClient k s3))))"

section \<open>Handlers\<close>

definition handleHello :: "nat \<Rightarrow> string \<Rightarrow> Server \<Rightarrow> Server \<times> message" where
  "handleHello k name s =
     (let s1 = put_conn k ((sv_conns s ! k)\<lparr>c_name := name\<rparr>) s in
      (s1, HelloResp (length (sv_clients s1)) (c_id (sv_conns s1 ! k)) (sv_suspectedWedged s1)))"

record spawn_env =
  e_rand :: "string + string"
  e_fork :: "string + int \<times> int option"
  e_time :: time

definition spawn_gate :: "SpawnReq \<Rightarrow> Server \<Rightarrow> spawn_pc" where
  "spawn_gate req s =
     (if sv_shutdown s then Returned (Inl ''spawn: daemon is shutting down'')
      else if sp_TicketID req = [] then Returned (Inl ''spawn: empty TicketID rejected (anonymous sessions disallowed)'')
      else AtFast)"

definition spawn_fast :: "SpawnReq \<Rightarrow> Server \<Rightarrow> spawn_pc" where
  "spawn_fast req s =
     (case reg_findByTicket (tid s) (sp_TicketID req) (sv_reg s) of
        Some r \<Rightarrow> Returned (Inr (s_id (sess s r), p_pid (s_pane (sess s r))))
      | None \<Rightarrow> AtNew)"

definition spawn_new :: "spawn_env \<Rightarrow> SpawnReq \<Rightarrow> Server \<Rightarrow> (Server \<times> spawn_pc) option" where
  "spawn_new E req s =
     (case NewSession (e_rand E) (e_fork E) (e_time E) req of
        None \<Rightarrow> None
      | Some (Inl e) \<Rightarrow> Some (s, Returned (Inl e))
      | Some (Inr x) \<Rightarrow> Some (s\<lparr>sv_sessions := sv_sessions s @ [x]\<rparr>, AtStore (length (sv_sessions s))))"

definition spawn_store :: "SpawnReq \<Rightarrow> sref \<Rightarrow> Server \<Rightarrow> Server \<times> spawn_pc" where
  "spawn_store req r s =
     (case reg_storeIfNoTicket (tid s) (sp_TicketID req) (s_id (sess s r)) r (sv_reg s) of
        (reg, winner, True) \<Rightarrow> (s\<lparr>sv_reg := reg\<rparr>, AtRecheck r)
      | (reg, winner, False) \<Rightarrow>
          (kill_session r 0 s, Returned (Inr (s_id (sess s winner), p_pid (s_pane (sess s winner))))))"

definition spawn_recheck :: "sref \<Rightarrow> Server \<Rightarrow> Server \<times> spawn_pc" where
  "spawn_recheck r s =
     (if sv_shutdown s then
        (kill_session r 0 (s\<lparr>sv_reg := fst (reg_deleteIf (s_id (sess s r)) r (sv_reg s))\<rparr>),
         Returned (Inl ''spawn: daemon is shutting down''))
      else (s, AtWatch r))"

definition watchSessionExit :: "sref \<Rightarrow> Server \<Rightarrow> Server option" where
  "watchSessionExit r s =
     map_option (\<lambda>(p, ch). (put_session r ((sess s r)\<lparr>s_pane := p\<rparr>) s)\<lparr>sv_watchers := sv_watchers s @ [(r, ch)]\<rparr>)
       (Subscribe (s_pane (sess s r)))"

definition spawn_emit :: "sref \<Rightarrow> Server \<Rightarrow> Server \<times> spawn_pc" where
  "spawn_emit r s =
     (emitEvent ((session_event ''started'' (sess s r))\<lparr>ev_Status := ''working'',
          ev_LastActivityAt := LastActivity (s_pane (sess s r))\<rparr>) s,
      Returned (Inr (s_id (sess s r), p_pid (s_pane (sess s r)))))"

definition spawn_turn :: "spawn_env \<Rightarrow> SpawnReq \<Rightarrow> spawn_pc \<Rightarrow> Server \<Rightarrow> (Server \<times> spawn_pc) option" where
  "spawn_turn E req pc s =
     (case pc of
        AtGate \<Rightarrow> Some (s, spawn_gate req s)
      | AtFast \<Rightarrow> Some (s, spawn_fast req s)
      | AtNew \<Rightarrow> spawn_new E req s
      | AtStore r \<Rightarrow> Some (spawn_store req r s)
      | AtRecheck r \<Rightarrow> Some (spawn_recheck r s)
      | AtWatch r \<Rightarrow> map_option (\<lambda>s1. (s1, AtEmit r)) (watchSessionExit r s)
      | AtEmit r \<Rightarrow> Some (spawn_emit r s)
      | Returned res \<Rightarrow> Some (s, pc))"

fun spawn_turns :: "nat \<Rightarrow> spawn_env \<Rightarrow> SpawnReq \<Rightarrow> spawn_pc \<Rightarrow> Server \<Rightarrow> (Server \<times> spawn_pc) option" where
  "spawn_turns 0 E req pc s = Some (s, pc)"
| "spawn_turns (Suc n) E req pc s =
     (case spawn_turn E req pc s of None \<Rightarrow> None | Some (s1, pc1) \<Rightarrow> spawn_turns n E req pc1 s1)"

text \<open>The handler without interference: its seven critical sections in order.\<close>

definition handleSpawn :: "spawn_env \<Rightarrow> SpawnReq \<Rightarrow> Server \<Rightarrow> (Server \<times> (string + string \<times> int)) option" where
  "handleSpawn E req s =
     (case spawn_turns 7 E req AtGate s of
        Some (s1, Returned res) \<Rightarrow> Some (s1, res)
      | _ \<Rightarrow> None)"

definition handleList :: "Server \<Rightarrow> SessionInfo list" where
  "handleList s = map (\<lambda>(i, r). Info (sess s r)) (sv_reg s)"

definition handleKill :: "string \<Rightarrow> int \<Rightarrow> Server \<Rightarrow> Server" where
  "handleKill i grace s =
     (case reg_get i (sv_reg s) of
        None \<Rightarrow> s
      | Some r \<Rightarrow> trackedKill r grace (s\<lparr>sv_reg := reg_delete i (sv_reg s)\<rparr>))"

definition handleTicketDone :: "string \<Rightarrow> Server \<Rightarrow> Server \<times> message" where
  "handleTicketDone t s =
     (if t = [] then (s, TicketDoneResp [] False)
      else
        (let ms = filter (\<lambda>r. tid s r = t) (map snd (sv_reg s));
             s1 = fold (\<lambda>m s. s\<lparr>sv_reg := fst (reg_deleteIf (s_id (sess s m)) m (sv_reg s))\<rparr>) ms s in
         case ms of
           [] \<Rightarrow> (s1, TicketDoneResp [] False)
         | m # _ \<Rightarrow>
             (fold (\<lambda>m s. trackedKill m shutdownGraceSeconds (put_session m (MarkExpectedCompletion (sess s m)) s)) ms s1,
              TicketDoneResp (s_id (sess s m)) True)))"

definition not_owned :: OwnsResp where
  "not_owned = \<lparr>ow_Owned = False, ow_SessionID = [], ow_SessionName = [], ow_OwnedByTicketID = [], ow_Conflict = False,
     ow_ConflictSessionIDs = []\<rparr>"

definition handleOwns :: "string \<Rightarrow> Server \<Rightarrow> OwnsResp" where
  "handleOwns uuid s =
     (if uuid = [] then not_owned
      else
        (case filter (\<lambda>r. s_agentSessionUUID (sess s r) = uuid) (map snd (sv_reg s)) of
           [] \<Rightarrow> not_owned
         | m # ms \<Rightarrow>
             \<lparr>ow_Owned = True, ow_SessionID = s_id (sess s m), ow_SessionName = s_sessionName (sess s m),
              ow_OwnedByTicketID = s_ticketID (sess s m), ow_Conflict = (ms \<noteq> []),
              ow_ConflictSessionIDs = (if ms = [] then [] else map (\<lambda>r. s_id (sess s r)) (m # ms))\<rparr>))"

definition handleSubscribe :: "nat \<Rightarrow> Server \<Rightarrow> Server" where
  "handleSubscribe k s = put_conn k ((sv_conns s ! k)\<lparr>c_subscribed := True\<rparr>) s"

definition handleSetViewing :: "nat \<Rightarrow> string \<Rightarrow> bool \<Rightarrow> Server \<Rightarrow> Server \<times> message" where
  "handleSetViewing k i viewing s =
     (case reg_get i (sv_reg s) of
        None \<Rightarrow> (s, SetViewingResp 0)
      | Some r \<Rightarrow>
          (case SetViewing (c_id (sv_conns s ! k)) viewing (sess s r) of
             (x, count, changed) \<Rightarrow>
               (let s1 = put_session r x s in
                ((if changed then emitEvent (session_event (if viewing then ''viewing'' else ''unviewing'') x) s1 else s1),
                 SetViewingResp count))))"

definition handleHealth :: "Server \<Rightarrow> HealthResp" where
  "handleHealth s =
     \<lparr>h_Sessions = reg_len (sv_reg s), h_InflightHandlers = sv_inflight s, h_InflightKills = sv_inflightKills s,
      h_ReapFailures = sv_reapFailures s, h_DispatchSeq = sv_dispatchSeq s\<rparr>"

definition ClientNameTUI :: string where "ClientNameTUI = ''openkanban-tui''"

definition handlePrepareExit :: "nat \<Rightarrow> Server \<Rightarrow> Server \<times> PrepareExitResp" where
  "handlePrepareExit k s =
     (let s1 = put_conn k ((sv_conns s ! k)\<lparr>c_exiting := True\<rparr>) s;
          others = filter (\<lambda>(i, k'). i \<noteq> c_id (sv_conns s1 ! k)) (sv_clients s1) in
      (s1, \<lparr>pe_ClientCount = length (sv_clients s1),
            pe_OtherTUIClients = length (filter (\<lambda>(i, k'). c_name (sv_conns s1 ! k') = ClientNameTUI) others),
            pe_OtherActiveClients = length (filter (\<lambda>(i, k'). \<not> c_exiting (sv_conns s1 ! k')) others),
            pe_Persistent = sv_persistent s1, pe_Sessions = handleList s1\<rparr>))"

definition handleCancelExit :: "nat \<Rightarrow> Server \<Rightarrow> Server" where
  "handleCancelExit k s = put_conn k ((sv_conns s ! k)\<lparr>c_exiting := False\<rparr>) s"

text \<open>\<^verbatim>\<open>Kill\<close> never fails, so every drained session counts; the shutdown itself runs in its own goroutine.\<close>

definition handleShutdown :: "Server \<Rightarrow> Server \<times> nat" where
  "handleShutdown s =
     (case reg_drain (sv_reg s) of
        (r, live) \<Rightarrow>
          (let s1 = fold (\<lambda>x. kill_session x shutdownGraceSeconds) live (s\<lparr>sv_reg := r\<rparr>) in
           (s1\<lparr>sv_stops := Suc (sv_stops s1)\<rparr>, length live)))"

end
