(* ===== verification/Attach.thy ===== *)
theory Attach
  imports Server
begin

text \<open>
  \<^verbatim>\<open>internal/daemon/attach.go\<close>: the attach and peek handlers, the snapshot chunking, the fan-out of pane events
  and the inbound binary loop.  An attach blocks its connection's goroutine; while it lasts it is an entry
  \<open>(connection, session, attachedClient)\<close> of \<open>sv_attaches\<close>.  \<open>snap\<close> is the serializer of a pane's screen.
\<close>

definition snapshotChunkSize :: nat where "snapshotChunkSize = 65536"

function chunks :: "byte list \<Rightarrow> byte list list" where
  "chunks d = (if d = [] then [] else take snapshotChunkSize d # chunks (drop snapshotChunkSize d))"
  by pat_completeness auto
termination
  by (relation "measure length") (auto simp: snapshotChunkSize_def)

declare chunks.simps [simp del]

text \<open>\<open>False\<close> is a write error, on a connection that is gone.\<close>

definition writeSnapshotChunks :: "nat \<Rightarrow> byte list \<Rightarrow> Server \<Rightarrow> Server \<times> bool" where
  "writeSnapshotChunks k d s =
     (if d = [] then (s, True)
      else if \<not> c_open (sv_conns s ! k) then (s, False)
      else (fold (\<lambda>c. write_out k (Bin TypePTYOutput c)) (chunks d) s, True))"

text \<open>\<^verbatim>\<open>fmt\<close>'s \<^verbatim>\<open>%q\<close> on printable strings.\<close>

definition quoted :: "string \<Rightarrow> string" where
  "quoted t = CHR 0x22 # t @ [CHR 0x22]"

definition with_activity :: "string \<Rightarrow> Session \<Rightarrow> SessionEvent" where
  "with_activity e x = (session_event e x)\<lparr>ev_LastActivityAt := LastActivity (s_pane x)\<rparr>"

definition dims_ok :: "16 word \<Rightarrow> 16 word \<Rightarrow> bool" where
  "dims_ok cols rows \<longleftrightarrow> \<not> (cols > 1024 \<or> rows > 1024)"

text \<open>The handler up to the start of the binary loop; the flag tells whether the loop was entered.\<close>

definition handleAttach ::
  "(Pane \<Rightarrow> byte list) \<Rightarrow> nat \<Rightarrow> string \<Rightarrow> 16 word \<Rightarrow> 16 word \<Rightarrow> bool \<Rightarrow> Server \<Rightarrow> (Server \<times> bool) option" where
  "handleAttach snap k i cols0 rows0 takeover s =
     (let cols = (if cols0 = 0 then 80 else cols0); rows = (if rows0 = 0 then 24 else rows0) in
      if \<not> dims_ok cols rows then
        Some (writeError k ''bad_request''
               (''dims out of range: '' @ nat_digits (unat cols) @ ''x'' @ nat_digits (unat rows)) s, False)
      else
        case reg_get i (sv_reg s) of
          None \<Rightarrow> Some (writeError k ''session_not_found'' (''session '' @ quoted i @ '' not found'') s, False)
        | Some r \<Rightarrow>
            (case AttemptAttach (c_id (sv_conns s ! k)) cols rows takeover (sess s r) of
               None \<Rightarrow> None
             | Some (x, Inl AlreadyAttached) \<Rightarrow>
                 Some (writeError k ''already_attached'' ''daemon: session already has an attached client'' (put_session r x s), False)
             | Some (x, Inr (p, ac)) \<Rightarrow>
                 (let d = snap p;
                      s1 = writeResp k (AttachResp (c_id (sv_conns s ! k)) (length d)) (put_session r x s);
                      s2 = emitEvent ((with_activity ''attached'' x)\<lparr>ev_SessionID := i\<rparr>) s1 in
                  case writeSnapshotChunks k d s2 of
                    (s3, False) \<Rightarrow> map_option (\<lambda>y. (put_session r y s3, False)) (Detach ac (sess s3 r))
                  | (s3, True) \<Rightarrow> Some (s3\<lparr>sv_attaches := sv_attaches s3 @ [(k, r, ac)]\<rparr>, True))))"

text \<open>The end of attach \<open>n\<close>.\<close>

definition attach_end :: "nat \<Rightarrow> Server \<Rightarrow> Server option" where
  "attach_end n s =
     (case sv_attaches s ! n of (k, r, ac) \<Rightarrow>
        map_option (\<lambda>y. emitEvent (with_activity ''detached'' y)
             ((put_session r y s)\<lparr>sv_attaches := take n (sv_attaches s) @ drop (Suc n) (sv_attaches s)\<rparr>))
          (Detach ac (sess s r)))"

definition handlePeek :: "(Pane \<Rightarrow> byte list) \<Rightarrow> nat \<Rightarrow> string \<Rightarrow> Server \<Rightarrow> Server" where
  "handlePeek snap k i s =
     (case reg_get i (sv_reg s) of
        None \<Rightarrow> writeError k ''session_not_found'' (''session '' @ quoted i @ '' not found'') s
      | Some r \<Rightarrow>
          (let d = snap (s_pane (sess s r)) in
           fst (writeSnapshotChunks k d (writeResp k (PeekResp (length d)) s))))"

text \<open>One event of the fan-out goroutine; the flag tells whether it goes on.\<close>

definition fanOut_event :: "nat \<Rightarrow> sref \<Rightarrow> nat \<Rightarrow> event \<Rightarrow> Server \<Rightarrow> Server \<times> bool" where
  "fanOut_event k r ac ev s =
     (case ev of
        OutputEvent d \<Rightarrow>
          (if d = [] then (s, True)
           else if c_open (sv_conns s ! k) then (write_out k (Bin TypePTYOutput d) s, True)
           else (s, False))
      | ExitEvent e \<Rightarrow> (let s1 = write_out k (Bin TypeDetach []) s in (put_session r (close_detach ac (sess s1 r)) s1, True))
      | TitleEvent t \<Rightarrow> (s, True)
      | ModeEvent m a c \<Rightarrow> (s, True))"

text \<open>One inbound frame; the flag tells whether the loop goes on.\<close>

definition binary_frame :: "time \<Rightarrow> nat \<Rightarrow> sref \<Rightarrow> byte \<Rightarrow> byte list \<Rightarrow> Server \<Rightarrow> Server \<times> bool" where
  "binary_frame now k r typ payload s =
     (if typ = TypePTYInput then
        (if payload = [] then (s, True)
         else case WriteInput now payload (s_pane (sess s r)) of
           (p, e) \<Rightarrow>
             (let s1 = put_session r ((sess s r)\<lparr>s_pane := p\<rparr>) s in
              case e of
                None \<Rightarrow> (s1, True)
              | Some InputBackpressure \<Rightarrow> (s1, True)
              | Some PaneNotRunning \<Rightarrow> (write_out k (Bin TypeDetach []) s1, False)))
      else if typ = TypeResize then
        (case DecodeResize payload of
           Inl e \<Rightarrow> (s, True)
         | Inr (cols, rows, _) \<Rightarrow>
             if cols = 0 \<or> rows = 0 \<or> \<not> dims_ok cols rows then (s, True)
             else (put_session r ((sess s r)\<lparr>s_pane := SetSize (uint cols) (uint rows) (s_pane (sess s r))\<rparr>) s, True))
      else if typ = TypeDetach then (s, False)
      else (s, True))"

text \<open>The keepalive deadline passed without a frame.\<close>

definition binary_timeout :: "nat \<Rightarrow> sref \<Rightarrow> nat \<Rightarrow> Server \<Rightarrow> Server \<times> bool" where
  "binary_timeout k r ac s =
     (if ac_detached (s_acs (sess s r) ! ac) then (s, False)
      else if c_open (sv_conns s ! k) then (write_out k (Bin TypePTYOutput []) s, True)
      else (s, False))"

section \<open>Lemmas\<close>

lemma concat_chunks: "concat (chunks d) = d"
proof (induction d rule: chunks.induct)
  case (1 d)
  then show ?case by (subst chunks.simps) simp
qed

lemma chunks_bounds: "c \<in> set (chunks d) \<Longrightarrow> c \<noteq> [] \<and> length c \<le> snapshotChunkSize"
proof (induction d rule: chunks.induct)
  case (1 d)
  then show ?case
    using chunks.simps [of d] by (auto simp: snapshotChunkSize_def split: if_splits)
qed

lemma write_out_conns:
  "length (sv_conns (write_out k m s)) = length (sv_conns s)"
  "k < length (sv_conns s) \<Longrightarrow> c_open (sv_conns s ! k) \<Longrightarrow>
    sv_conns (write_out k m s) ! k = (sv_conns s ! k)\<lparr>c_out := c_out (sv_conns s ! k) @ [m]\<rparr>"
  by (simp_all add: write_out_def put_conn_def Let_def)

lemma write_outs_conns:
  "k < length (sv_conns s) \<Longrightarrow> c_open (sv_conns s ! k) \<Longrightarrow>
   sv_conns (fold (\<lambda>c. write_out k (f c)) cs s) ! k = (sv_conns s ! k)\<lparr>c_out := c_out (sv_conns s ! k) @ map f cs\<rparr>"
proof (induction cs arbitrary: s)
  case (Cons c cs)
  then show ?case by (simp add: write_out_conns)
qed simp

section \<open>Properties\<close>

text \<open>A peek answers with the announced size and then, in order, output frames whose payloads concatenate to
  the whole snapshot; each frame is non-empty and small enough for \<^verbatim>\<open>WriteFrame\<close> to accept it, whatever
  the length of the snapshot.\<close>

theorem peek_ships_snapshot:
  assumes "k < length (sv_conns s)" and "c_open (sv_conns s ! k)" and "reg_get i (sv_reg s) = Some r"
  shows "\<exists>cs. c_out (sv_conns (handlePeek snap k i s) ! k) =
      c_out (sv_conns s ! k) @ Msg (PeekResp (length (concat cs))) # map (Bin TypePTYOutput) cs \<and>
    concat cs = snap (s_pane (sess s r)) \<and>
    list_all (\<lambda>c. c \<noteq> [] \<and> snd (WriteFrame TypePTYOutput c \<lparr>w_out = [], w_room = None, w_end = CleanEnd\<rparr>) = None) cs"
proof -
  let ?d = "snap (s_pane (sess s r))"
  let ?s1 = "writeResp k (PeekResp (length ?d)) s"
  have s1: "sv_conns ?s1 ! k = (sv_conns s ! k)\<lparr>c_out := c_out (sv_conns s ! k) @ [Msg (PeekResp (length ?d))]\<rparr>"
    "k < length (sv_conns ?s1)"
    using assms(1,2) by (simp_all add: writeResp_def write_out_conns)
  have "c_out (sv_conns (fst (writeSnapshotChunks k ?d ?s1)) ! k) =
      c_out (sv_conns ?s1 ! k) @ map (Bin TypePTYOutput) (chunks ?d)"
  proof (cases "?d = []")
    case True
    then have "chunks ?d = []" by (subst chunks.simps) simp
    with True show ?thesis by (simp add: writeSnapshotChunks_def)
  next
    case False
    have "c_open (sv_conns ?s1 ! k)" using s1(1) assms(2) by simp
    with False s1(2) show ?thesis by (simp add: writeSnapshotChunks_def write_outs_conns)
  qed
  moreover have "list_all (\<lambda>c. c \<noteq> [] \<and> snd (WriteFrame TypePTYOutput c \<lparr>w_out = [], w_room = None, w_end = CleanEnd\<rparr>) = None) (chunks ?d)"
    unfolding list_all_iff
  proof
    fix c assume c: "c \<in> set (chunks ?d)"
    then have "frame_ok c" using chunks_bounds [of c ?d] by (simp add: frame_ok_def MaxFrameSize_def snapshotChunkSize_def)
    with c show "c \<noteq> [] \<and> snd (WriteFrame TypePTYOutput c \<lparr>w_out = [], w_room = None, w_end = CleanEnd\<rparr>) = None"
      using chunks_bounds [of c ?d] by (simp add: WriteFrame_ok(2))
  qed
  ultimately show ?thesis
    using s1(1) assms(3) by (intro exI [of _ "chunks ?d"]) (simp add: handlePeek_def Let_def concat_chunks)
qed

definition peeked :: Server where
  "peeked = (fst (registerClient (NewServer False 9)))\<lparr>sv_sessions := [example_session], sv_reg := [(''id1'', 0)]\<rparr>"

theorem peek_ships_snapshot_witness:
  "\<exists>cs. c_out (sv_conns (handlePeek (\<lambda>p. [1, 2, 3]) 0 ''id1'' peeked) ! 0) =
      Msg (PeekResp (length (concat cs))) # map (Bin TypePTYOutput) cs \<and> concat cs = [1, 2, 3]"
proof -
  have "0 < length (sv_conns peeked)" "c_open (sv_conns peeked ! 0)" "reg_get ''id1'' (sv_reg peeked) = Some 0"
    "c_out (sv_conns peeked ! 0) = []"
    by (simp_all add: peeked_def registerClient_def NewServer_def Let_def reg_get_def)
  with peek_ships_snapshot [OF this(1-3), of "\<lambda>p. [1, 2, 3]"] show ?thesis by auto
qed

end
