(* ===== verification/Dispatch.thy ===== *)
theory Dispatch
  imports Attach
begin

text \<open>
  The rest of \<^verbatim>\<open>internal/daemon/server.go\<close> and \<^verbatim>\<open>watchdog.go\<close>: the request dispatcher and the daemon's background
  goroutines, that is exit watchers, the drain watcher of default mode, the stale-binary check, the
  activity broadcaster with its stuck detection, and the wedge watchdog.
\<close>

section \<open>Dispatch\<close>

text \<open>What one request meets: whether the handler beats its deadline, the spawn's outcomes and the screen
  serializer.\<close>

record dispatch_env =
  d_timely :: bool
  d_spawn :: spawn_env
  d_snap :: "Pane \<Rightarrow> byte list"

text \<open>\<^verbatim>\<open>runHandlerWithDeadline\<close> with the reply.  An abandoned handler still runs to its end; only its reply is
  replaced.\<close>

definition short :: "bool \<Rightarrow> string \<Rightarrow> nat \<Rightarrow> (Server \<Rightarrow> Server \<times> message) \<Rightarrow> Server \<Rightarrow> Server" where
  "short timely name k h s =
     (case h (s\<lparr>sv_shortInflight := sv_shortInflight s + 1\<rparr>) of
        (s1, resp) \<Rightarrow>
          writeResp k (if timely then resp else ErrorResp ''daemon_unresponsive'' (name @ '' handler timed out''))
            (s1\<lparr>sv_shortInflight := sv_shortInflight s1 - 1\<rparr>))"

definition bad_request :: "nat \<Rightarrow> string \<Rightarrow> Server \<Rightarrow> Server" where
  "bad_request k e s = writeError k ''bad_request'' e s"

definition finish_dispatch :: "Server \<Rightarrow> Server" where
  "finish_dispatch s = s\<lparr>sv_inflight := sv_inflight s - 1, sv_dispatchSeq := sv_dispatchSeq s + 1\<rparr>"

definition spawn_message :: "string + string \<times> int \<Rightarrow> message" where
  "spawn_message r = (case r of Inl e \<Rightarrow> ErrorResp ''spawn_failed'' e | Inr (i, pid) \<Rightarrow> SpawnResp i pid)"

definition dispatch_body :: "dispatch_env \<Rightarrow> nat \<Rightarrow> request \<Rightarrow> Server \<Rightarrow> (Server \<times> bool) option" where
  "dispatch_body E k req s =
     (case req of
        HelloReq (Inl e) \<Rightarrow> Some (bad_request k e s, False)
      | HelloReq (Inr name) \<Rightarrow> Some (short (d_timely E) ''hello'' k (handleHello k name) s, False)
      | SpawnReqM (Inl e) \<Rightarrow> Some (bad_request k e s, False)
      | SpawnReqM (Inr q) \<Rightarrow>
          (case handleSpawn (d_spawn E) q (s\<lparr>sv_shortInflight := sv_shortInflight s + 1\<rparr>) of
             None \<Rightarrow> None
           | Some (s1, r) \<Rightarrow>
               Some (writeResp k (if d_timely E then spawn_message r
                                  else ErrorResp ''daemon_unresponsive'' ''spawn handler timed out'')
                       (s1\<lparr>sv_shortInflight := sv_shortInflight s1 - 1\<rparr>), False))
      | ListReq \<Rightarrow> Some (short (d_timely E) ''list'' k (\<lambda>s. (s, ListResp (handleList s))) s, False)
      | KillReq (Inl e) \<Rightarrow> Some (bad_request k e s, False)
      | KillReq (Inr (i, g)) \<Rightarrow> Some (short (d_timely E) ''kill'' k (\<lambda>s. (handleKill i g s, KillResp)) s, False)
      | TicketDoneReq (Inl e) \<Rightarrow> Some (bad_request k e s, False)
      | TicketDoneReq (Inr t) \<Rightarrow> Some (short (d_timely E) ''ticket_done'' k (handleTicketDone t) s, False)
      | OwnsReq (Inl e) \<Rightarrow> Some (bad_request k e s, False)
      | OwnsReq (Inr u) \<Rightarrow> Some (short (d_timely E) ''owns'' k (\<lambda>s. (s, OwnsRespM (handleOwns u s))) s, False)
      | SubscribeReq \<Rightarrow> Some (short (d_timely E) ''subscribe'' k (\<lambda>s. (handleSubscribe k s, SubscribeResp)) s, False)
      | PrepareExitReq \<Rightarrow>
          Some (short (d_timely E) ''prepare_exit'' k
                  (\<lambda>s. case handlePrepareExit k s of (s1, r) \<Rightarrow> (s1, PrepareExitRespM r)) s, False)
      | CancelExitReq \<Rightarrow> Some (short (d_timely E) ''cancel_exit'' k (\<lambda>s. (handleCancelExit k s, CancelExitResp)) s, False)
      | ShutdownReq force \<Rightarrow> (case handleShutdown s of (s1, n) \<Rightarrow> Some (writeResp k (ShutdownResp n) s1, False))
      | AttachReq (Inl e) \<Rightarrow> Some (bad_request k e s, False)
      | AttachReq (Inr (i, cols, rows, takeover)) \<Rightarrow> handleAttach (d_snap E) k i cols rows takeover s
      | PeekReq (Inl e) \<Rightarrow> Some (bad_request k e s, False)
      | PeekReq (Inr i) \<Rightarrow>
          (let s1 = handlePeek (d_snap E) k i (s\<lparr>sv_shortInflight := sv_shortInflight s + 1\<rparr>);
               s2 = s1\<lparr>sv_shortInflight := sv_shortInflight s1 - 1\<rparr> in
           Some (if d_timely E then s2 else writeError k ''daemon_unresponsive'' ''peek handler timed out'' s2, False))
      | SetViewingReq (Inl e) \<Rightarrow> Some (bad_request k e s, False)
      | SetViewingReq (Inr (i, v)) \<Rightarrow> Some (short (d_timely E) ''set_viewing'' k (handleSetViewing k i v) s, False)
      | HealthReq \<Rightarrow> Some (short (d_timely E) ''health'' k (\<lambda>s. (s, HealthRespM (handleHealth s))) s, False)
      | UnknownReq t \<Rightarrow> Some (writeError k ''unknown_message'' (''unknown message type '' @ quoted t) s, False))"

text \<open>The flag tells whether the connection is now in an attach, which ends with \<open>attach_return\<close>.\<close>

definition dispatch :: "dispatch_env \<Rightarrow> nat \<Rightarrow> request \<Rightarrow> Server \<Rightarrow> Server option" where
  "dispatch E k req s =
     (case dispatch_body E k req (s\<lparr>sv_inflight := sv_inflight s + 1\<rparr>) of
        None \<Rightarrow> None
      | Some (s1, attached) \<Rightarrow> Some (if attached then s1 else finish_dispatch s1))"

definition attach_return :: "nat \<Rightarrow> Server \<Rightarrow> Server option" where
  "attach_return n s = map_option finish_dispatch (attach_end n s)"

text \<open>A frame in JSON mode: the flag tells whether the read loop goes on.  \<open>decode\<close> is \<^verbatim>\<open>DecodeEnvelope\<close> with the
  unmarshalling of the body.\<close>

definition conn_frame ::
  "(byte list \<Rightarrow> string + request) \<Rightarrow> dispatch_env \<Rightarrow> nat \<Rightarrow> byte \<Rightarrow> byte list \<Rightarrow> Server \<Rightarrow> (Server \<times> bool) option" where
  "conn_frame decode E k typ payload s =
     (if typ \<noteq> TypeJSONReq then Some (writeError k ''protocol_error'' ''unexpected frame type'' s, False)
      else case decode payload of
        Inl e \<Rightarrow> Some (writeError k ''bad_envelope'' e s, True)
      | Inr req \<Rightarrow> map_option (\<lambda>s1. (s1, True)) (dispatch E k req s))"

section \<open>Exit watchers\<close>

definition exited_event :: "Session \<Rightarrow> SessionEvent" where
  "exited_event x =
     (session_event ''exited'' x)\<lparr>ev_Expected := ExpectedCompletion x,
        ev_Reason := (if ExpectedCompletion x then ''ticket_done'' else ''natural_exit''),
        ev_LastActivityAt := LastActivity (s_pane x)\<rparr>"

text \<open>The deferred part of watcher \<open>i\<close>: remove, announce, reclaim the pane, unsubscribe.\<close>

definition watch_finish :: "nat \<Rightarrow> Server \<Rightarrow> Server option" where
  "watch_finish i s =
     (case sv_watchers s ! i of (r, ch) \<Rightarrow>
        (let s1 = s\<lparr>sv_reg := fst (reg_deleteIf (s_id (sess s r)) r (sv_reg s)),
                    sv_watchers := take i (sv_watchers s) @ drop (Suc i) (sv_watchers s)\<rparr>;
             s2 = emitEvent (exited_event (sess s1 r)) s1;
             s3 = kill_session r 0 s2 in
         map_option (\<lambda>p. put_session r ((sess s3 r)\<lparr>s_pane := p\<rparr>) s3) (cancel ch (s_pane (sess s3 r)))))"

text \<open>One receive of watcher \<open>i\<close>; \<open>None\<close> is a panic, \<open>Some None\<close> means that it is blocked.\<close>

definition watch_turn :: "nat \<Rightarrow> Server \<Rightarrow> Server option option" where
  "watch_turn i s =
     (case sv_watchers s ! i of (r, ch) \<Rightarrow>
        (case recv ch (s_pane (sess s r)) of
           None \<Rightarrow> Some None
         | Some (ev, p) \<Rightarrow>
             (let s1 = put_session r ((sess s r)\<lparr>s_pane := p\<rparr>) s in
              case ev of
                None \<Rightarrow> map_option Some (watch_finish i s1)
              | Some (ExitEvent e) \<Rightarrow> map_option Some (watch_finish i s1)
              | Some _ \<Rightarrow> Some (Some s1))))"

section \<open>Staleness and draining\<close>

definition stalenessStep :: "bool \<Rightarrow> Server \<Rightarrow> Server \<times> bool" where
  "stalenessStep stale s =
     (if \<not> stale then (s, False)
      else
        (let s1 = s\<lparr>sv_pendingRestart := True\<rparr> in
         if reg_len (sv_reg s1) = 0 then (initiateShutdown s1, True)
         else (s1, \<not> sv_persistent s1)))"

text \<open>One step of drain watcher \<open>i\<close> between two of its critical sections.\<close>

definition drain_turn :: "nat \<Rightarrow> Server \<Rightarrow> Server" where
  "drain_turn i s =
     (let goto = (\<lambda>pc s. s\<lparr>sv_drains := (sv_drains s)[i := pc]\<rparr>) in
      case sv_drains s ! i of
        AtPoll \<Rightarrow>
          (if sv_shutdown s then goto AtExit s
           else if reg_len (sv_reg s) > 0 then s
           else goto AtClients s)
      | AtClients \<Rightarrow> if length (sv_clients s) = 0 then goto AtStop s else goto AtExit s
      | AtStop \<Rightarrow> goto AtExit (initiateShutdown s)
      | AtExit \<Rightarrow> s\<lparr>sv_drainPending := False, sv_drains := take i (sv_drains s) @ drop (Suc i) (sv_drains s)\<rparr>)"

section \<open>The activity broadcaster\<close>

definition stuckThreshold :: time where "stuckThreshold = 4000000000"

definition checkSessionWedge :: "time \<Rightarrow> string \<Rightarrow> sref \<Rightarrow> string list \<Rightarrow> Server \<Rightarrow> Server \<times> string list" where
  "checkSessionWedge now i r stuckSeen s =
     (case WedgedSince now (s_pane (sess s r)) of
        None \<Rightarrow> (s, removeAll i stuckSeen)
      | Some since \<Rightarrow>
          if now - since < stuckThreshold then (s, removeAll i stuckSeen)
          else if i \<in> set stuckSeen then (s, stuckSeen)
          else (emitEvent ((session_event ''status'' (sess s r))\<lparr>ev_SessionID := i, ev_Status := ''stuck'',
                    ev_LastActivityAt := LastActivity (s_pane (sess s r))\<rparr>) s, i # stuckSeen))"

text \<open>\<open>grid\<close> is \<^verbatim>\<open>GetContentTry\<close> (\<open>None\<close>: the pane's lock is held), \<open>detect\<close> is \<^verbatim>\<open>DetectStatusWithActivity\<close> of
  \<^verbatim>\<open>internal/agent\<close> with the empty string for \<^verbatim>\<open>AgentNone\<close>.\<close>

type_synonym detector = "string \<Rightarrow> string \<Rightarrow> string \<Rightarrow> bool \<Rightarrow> string \<Rightarrow> time option \<Rightarrow> string"

definition resolveStatusVerdict ::
  "detector \<Rightarrow> string \<Rightarrow> string \<Rightarrow> string \<Rightarrow> bool \<Rightarrow> string \<Rightarrow> time option \<Rightarrow> string" where
  "resolveStatusVerdict detect agentType sessionName workdir running content lastActivity =
     (if agentType = [] \<or> agentType = ''opencode'' \<or> sessionName = [] then []
      else detect agentType sessionName workdir running content lastActivity)"

definition resolveSessionStatus :: "detector \<Rightarrow> (Pane \<Rightarrow> string option) \<Rightarrow> Session \<Rightarrow> string" where
  "resolveSessionStatus detect grid x =
     (if s_agentType x = [] \<or> s_agentType x = ''opencode'' then []
      else case grid (s_pane x) of
        None \<Rightarrow> []
      | Some content \<Rightarrow>
          resolveStatusVerdict detect (s_agentType x) (s_sessionName x) (s_workdir x) True content (LastActivity (s_pane x)))"

definition activity_one ::
  "detector \<Rightarrow> (Pane \<Rightarrow> string option) \<Rightarrow> time \<Rightarrow> string \<times> sref \<Rightarrow>
   Server \<times> (string, time) gomap \<times> string list \<Rightarrow> Server \<times> (string, time) gomap \<times> string list" where
  "activity_one detect grid now p st =
     (case p of (i, r) \<Rightarrow> case st of (s, lastSeen, stuckSeen) \<Rightarrow>
        (case checkSessionWedge now i r stuckSeen s of
           (s1, stuck1) \<Rightarrow>
             (case LastActivity (s_pane (sess s1 r)) of
                None \<Rightarrow> (s1, lastSeen, stuck1)
              | Some la \<Rightarrow>
                  (if (case mget lastSeen i of Some prev \<Rightarrow> la \<le> prev | None \<Rightarrow> False) then (s1, lastSeen, stuck1)
                   else
                     (emitEvent ((session_event ''activity'' (sess s1 r))\<lparr>ev_SessionID := i, ev_LastActivityAt := Some la,
                          ev_Status := resolveSessionStatus detect grid (sess s1 r)\<rparr>) s1,
                      mput i la lastSeen, stuck1)))))"

definition activity_tick ::
  "detector \<Rightarrow> (Pane \<Rightarrow> string option) \<Rightarrow> time \<Rightarrow> Server \<times> (string, time) gomap \<times> string list \<Rightarrow>
   Server \<times> (string, time) gomap \<times> string list" where
  "activity_tick detect grid now st =
     (case st of (s, lastSeen, stuckSeen) \<Rightarrow>
        fold (activity_one detect grid now) (sv_reg s)
          (s, filter (\<lambda>(i, t). mget (sv_reg s) i \<noteq> None) lastSeen, filter (\<lambda>i. mget (sv_reg s) i \<noteq> None) stuckSeen))"

section \<open>The wedge watchdog\<close>

record wedgeSample =
  w_seq :: "64 word"
  w_inflight :: int
  w_pendingRestart :: bool
  w_nowNanos :: time

record wedgeMonitor =
  m_wedgeNanos :: time
  m_staleNanos :: time
  m_lastSeq :: "64 word"
  m_lastSeqChangeNs :: time
  m_primed :: bool

definition newWedgeMonitor :: "int \<Rightarrow> int \<Rightarrow> wedgeMonitor" where
  "newWedgeMonitor wedgeSeconds staleWedgeSeconds =
     \<lparr>m_wedgeNanos = wedgeSeconds * 1000000000, m_staleNanos = staleWedgeSeconds * 1000000000, m_lastSeq = 0,
      m_lastSeqChangeNs = 0, m_primed = False\<rparr>"

definition evaluate :: "wedgeSample \<Rightarrow> wedgeMonitor \<Rightarrow> wedgeMonitor \<times> bool \<times> string" where
  "evaluate s w =
     (if \<not> m_primed w \<or> w_seq s \<noteq> m_lastSeq w then
        (w\<lparr>m_primed := True, m_lastSeq := w_seq s, m_lastSeqChangeNs := w_nowNanos s\<rparr>, False, [])
      else if w_inflight s \<le> 0 then (w, False, [])
      else
        (let frozen = w_nowNanos s - m_lastSeqChangeNs w in
         if w_pendingRestart s \<and> frozen > m_staleNanos w then (w, True, ''stale binary wedged (no dispatch completion)'')
         else if frozen > m_wedgeNanos w then (w, True, ''dispatch wedged (no completion with work in flight)'')
         else (w, False, [])))"

definition daemon_event :: "string \<Rightarrow> string \<Rightarrow> SessionEvent" where
  "daemon_event e reason =
     \<lparr>ev_Event = e, ev_SessionID = [], ev_TicketID = [], ev_Status = [], ev_Expected = False, ev_Reason = reason,
      ev_LastActivityAt = None\<rparr>"

text \<open>One tick before shutdown.\<close>

definition watchdog_tick :: "time \<Rightarrow> wedgeMonitor \<times> Server \<Rightarrow> wedgeMonitor \<times> Server" where
  "watchdog_tick now st =
     (case st of (mon, s) \<Rightarrow>
        (case evaluate \<lparr>w_seq = sv_dispatchSeq s, w_inflight = sv_shortInflight s,
                        w_pendingRestart = sv_pendingRestart s, w_nowNanos = now\<rparr> mon of
           (mon1, suspect, reason) \<Rightarrow>
             (let s1 = s\<lparr>sv_suspectedWedged := suspect\<rparr> in
              (mon1,
               if \<not> suspect then (if sv_suspectedWedged s then emitEvent (daemon_event ''daemon_unwedged'' []) s1 else s1)
               else if \<not> sv_suspectedWedged s then emitEvent (daemon_event ''daemon_wedged'' reason) s1
               else s1))))"

text \<open>After shutdown: \<open>elapsed\<close> is when \<^verbatim>\<open>Serve\<close> returned, if it did; the result tells whether the process is
  forced to exit.\<close>

definition shutdownCompletionDeadline :: time where "shutdownCompletionDeadline = 30000000000"

definition awaitShutdownCompletion :: "time \<Rightarrow> time option \<Rightarrow> bool" where
  "awaitShutdownCompletion deadline elapsed =
     (let d = (if deadline \<le> 0 then shutdownCompletionDeadline else deadline) in
      case elapsed of None \<Rightarrow> True | Some t \<Rightarrow> d < t)"

end
