(* ===== verification/ServerRun.thy ===== *)
theory ServerRun
  imports Dispatch
begin

text \<open>
  The daemon as a transition system.  Every goroutine advances in steps that are the critical sections of the
  code (requests other than spawns are one step each); any interleaving is a run.  The invariant says which
  goroutine answers for every session, and yields that a ticket never has two sessions, that no child
  outlives a shutdown, and that the kill gauges are exact.
\<close>

section \<open>Steps\<close>

text \<open>What goroutines of the pane and of an attach do to a session on their own.\<close>

definition benign :: "session_op \<Rightarrow> bool" where
  "benign a \<longleftrightarrow>
     (case a of
        SFanoutExit k \<Rightarrow> True
      | SPane b \<Rightarrow> (case b of Turn c t d e \<Rightarrow> True | Resize w h \<Rightarrow> True | Input t d \<Rightarrow> True | Writer \<Rightarrow> True | Recv n \<Rightarrow> True | _ \<Rightarrow> False)
      | _ \<Rightarrow> False)"

text \<open>\<^verbatim>\<open>newSessionID\<close> draws a fresh id and a forked child has a positive process id.\<close>

definition env_ok :: "spawn_env \<Rightarrow> Server \<Rightarrow> bool" where
  "env_ok E s \<longleftrightarrow> list_all (\<lambda>x. e_rand E \<noteq> Inr (s_id x)) (sv_sessions s) \<and>
     (case e_fork E of Inl e \<Rightarrow> True | Inr (pid, pgid) \<Rightarrow> 0 < pid)"

definition spawn_start :: "nat \<Rightarrow> SpawnReq \<Rightarrow> Server \<Rightarrow> Server" where
  "spawn_start k q s =
     s\<lparr>sv_inflight := sv_inflight s + 1, sv_shortInflight := sv_shortInflight s + 1,
       sv_spawns := sv_spawns s @ [\<lparr>g_conn = k, g_req = q, g_pc = AtGate\<rparr>]\<rparr>"

definition spawn_end :: "nat \<Rightarrow> (string + string \<times> int) \<Rightarrow> bool \<Rightarrow> Server \<Rightarrow> Server" where
  "spawn_end i res timely s =
     finish_dispatch (writeResp (g_conn (sv_spawns s ! i))
       (if timely then spawn_message res else ErrorResp ''daemon_unresponsive'' ''spawn handler timed out'')
       (s\<lparr>sv_shortInflight := sv_shortInflight s - 1, sv_spawns := take i (sv_spawns s) @ drop (Suc i) (sv_spawns s)\<rparr>))"

definition serve_exit :: "serve_state \<Rightarrow> Server \<Rightarrow> Server" where
  "serve_exit e s = (cleanup (closeClientConns s))\<lparr>sv_serve := e, sv_listening := False\<rparr>"

inductive sv_step :: "Server \<Rightarrow> Server \<Rightarrow> bool" where
  st_accept: "sv_listening s \<Longrightarrow> sv_step s (accept s)"
| st_disconnect: "k < length (sv_conns s) \<Longrightarrow> sv_step s (disconnect k s)"
| st_request: "(\<And>q. req \<noteq> SpawnReqM (Inr q)) \<Longrightarrow> dispatch E k req s = Some s' \<Longrightarrow> sv_step s s'"
| st_spawn: "sv_step s (spawn_start k q s)"
| st_spawn_turn: "i < length (sv_spawns s) \<Longrightarrow> (g_pc (sv_spawns s ! i) = AtNew \<Longrightarrow> env_ok E s) \<Longrightarrow>
    spawn_turn E (g_req (sv_spawns s ! i)) (g_pc (sv_spawns s ! i)) s = Some (s', pc) \<Longrightarrow>
    sv_step s (s'\<lparr>sv_spawns := (sv_spawns s')[i := (sv_spawns s ! i)\<lparr>g_pc := pc\<rparr>]\<rparr>)"
| st_spawn_end: "i < length (sv_spawns s) \<Longrightarrow> g_pc (sv_spawns s ! i) = Returned res \<Longrightarrow> sv_step s (spawn_end i res timely s)"
| st_kill_timeout: "i < length (sv_kills s) \<Longrightarrow> sv_step s (kill_timeout i s)"
| st_kill_done: "i < length (sv_kills s) \<Longrightarrow> sv_step s (kill_done i s)"
| st_watch: "i < length (sv_watchers s) \<Longrightarrow> watch_turn i s = Some (Some s') \<Longrightarrow> sv_step s s'"
| st_attach_end: "n < length (sv_attaches s) \<Longrightarrow> attach_return n s = Some s' \<Longrightarrow> sv_step s s'"
| st_session: "r < length (sv_sessions s) \<Longrightarrow> benign a \<Longrightarrow> session_do L a (sess s r) = Some x \<Longrightarrow> sv_step s (put_session r x s)"
| st_drain: "i < length (sv_drains s) \<Longrightarrow> sv_step s (drain_turn i s)"
| st_stop: "0 < sv_stops s \<Longrightarrow> sv_step s (initiateShutdown (s\<lparr>sv_stops := sv_stops s - 1\<rparr>))"
| st_cancel: "sv_step s (initiateShutdown s)"
| st_stale: "sv_step s (fst (stalenessStep stale s))"
| st_event: "sv_step s (broadcastEvents s)"
| st_activity: "sv_step s (fst (activity_tick detect grid now (s, lastSeen, stuckSeen)))"
| st_watchdog: "sv_step s (snd (watchdog_tick now (mon, s)))"
| st_exit: "sv_serve s = Serving \<Longrightarrow> sv_shutdown s \<Longrightarrow> sv_step s (serve_exit Exited s)"
| st_accept_error: "sv_serve s = Serving \<Longrightarrow> sv_listening s \<Longrightarrow> sv_step s (serve_exit AcceptFailed s)"

inductive sv_reach :: "Server \<Rightarrow> bool" where
  reach_init: "sv_reach (NewServer persistent own)"
| reach_step: "sv_reach s \<Longrightarrow> sv_step s s' \<Longrightarrow> sv_reach s'"

section \<open>What a pane operation leaves alone\<close>

definition life :: "Pane \<Rightarrow> bool \<times> bool \<times> int" where
  "life p = (p_tornDown p, p_running p, p_pid p)"

lemma life_publish: "publish ev p = Some p' \<Longrightarrow> life p' = life p"
  by (auto simp: publish_def life_def)

lemma life_publishExit: "publishExit e p = Some p' \<Longrightarrow> life p' = life p"
  by (auto simp: publishExit_def life_def)

lemma life_startReadLoop: "startReadLoop p = Some p' \<Longrightarrow> life p' = life p"
  by (auto simp: startReadLoop_def life_def publishExit_def split: if_splits)

lemma life_Subscribe: "Subscribe p = Some (p', n) \<Longrightarrow> life p' = life p"
  by (auto simp: Subscribe_def Let_def dest!: life_startReadLoop) (simp add: life_def)

lemma life_cancel: "cancel n p = Some p' \<Longrightarrow> life p' = life p"
  by (auto simp: cancel_def life_def split: if_splits)

lemma life_recv: "recv n p = Some (e, p') \<Longrightarrow> life p' = life p"
  by (auto simp: recv_def life_def split: list.splits if_splits)

lemma life_mode:
  "publishModeEventLocked (p\<lparr>p_mouseEnabled := b\<rparr>) = Some q \<Longrightarrow> life q = life p"
  "publishModeEventLocked (p\<lparr>p_altScreenActive := b\<rparr>) = Some q \<Longrightarrow> life q = life p"
  unfolding publishModeEventLocked_def by (drule life_publish, simp add: life_def)+

lemma life_detect: "detectMouseModeChanges d p = Some p' \<Longrightarrow> life p' = life p"
    "detectAltScreenChanges d p = Some p' \<Longrightarrow> life p' = life p"
  unfolding detectMouseModeChanges_def detectAltScreenChanges_def
  by (simp_all split: if_split_asm add: life_mode)

lemma life_vt_calls: "vt_calls L cs p = Some (p', ns) \<Longrightarrow> life p' = life p"
proof (induction L cs p arbitrary: p' ns rule: vt_calls.induct)
  case (2 L d cs p)
  have "life q = life p" if "title_handler d p = Some q" for q
    using that by (auto simp: title_handler_def publish_def life_def Let_def)
  with 2 show ?case by (auto split: option.splits)
next
  case (3 L v cs p)
  have "life q = life p" if "cursor_handler v p = Some q" for q
    using that by (auto simp: cursor_handler_def publish_def life_def Let_def split: if_splits)
  with 3 show ?case by (auto split: option.splits)
next
  case (4 L d cs p)
  then show ?case by auto
qed auto

lemma life_handleOutput: "handleOutput L cs now d p = Some (p', ns) \<Longrightarrow> life p' = life p"
proof -
  assume h: "handleOutput L cs now d p = Some (p', ns)"
  show "life p' = life p"
  proof (cases "p_vt p")
    case None
    with h show ?thesis by (simp add: handleOutput_def)
  next
    case (Some v)
    with h obtain p1 where p1: "detectMouseModeChanges d p = Some p1" by (auto simp: handleOutput_def split: option.splits)
    with h Some obtain p2 where p2: "detectAltScreenChanges d p1 = Some p2" by (auto simp: handleOutput_def split: option.splits)
    with h Some p1 obtain p3 ms where p3: "vt_calls L cs p2 = Some (p3, ms)" by (auto simp: handleOutput_def)
    have "life p' = life p3" using h Some p1 p2 p3 by (auto simp: handleOutput_def life_def split: if_split_asm)
    with p1 p2 p3 show ?thesis using life_detect life_vt_calls by metis
  qed
qed

lemma life_read_turn: "read_turn L cs now d err p = Some p' \<Longrightarrow> life p' = life p"
proof -
  assume t: "read_turn L cs now d err p = Some p'"
  have out: "life q = life p" if "(if d = [] then Some p else case handleOutput L cs now d p of None \<Rightarrow> None
      | Some (p1, _) \<Rightarrow> publish (OutputEvent d) p1) = Some q" for q
    using that life_handleOutput life_publish by (fastforce split: if_splits option.splits)
  have fin: "life (p\<lparr>p_loop := l\<rparr>) = life p" for p l by (simp add: life_def)
  from t show ?thesis
    unfolding read_turn_def using out life_publishExit fin
    by (fastforce split: if_splits option.splits)
qed

lemma life_pane_do:
  assumes "pane_do L b p = Some p'" "benign (SPane b)"
  shows "life p' = life p"
proof (cases b)
  case (Turn c t d e)
  with assms life_read_turn show ?thesis by (auto simp: pane_do_def)
next
  case (Resize w h)
  with assms show ?thesis by (auto simp: pane_do_def SetSize_def life_def split: if_splits)
next
  case (Input t d)
  with assms show ?thesis by (auto simp: pane_do_def WriteInput_def life_def Let_def split: option.splits if_splits)
next
  case Writer
  with assms show ?thesis by (auto simp: pane_do_def writer_turn_def life_def split: option.splits list.splits if_splits)
next
  case (Recv n)
  with assms life_recv show ?thesis by (fastforce simp: pane_do_def split: if_splits option.splits)
qed (use assms in \<open>auto simp: benign_def\<close>)

text \<open>What the daemon's invariant reads of a session.\<close>

definition lv :: "Session \<Rightarrow> string \<times> string \<times> bool \<times> bool \<times> int" where
  "lv x = (s_id x, s_ticketID x, life (s_pane x))"

lemma lv_pane: "life p = life (s_pane x) \<Longrightarrow> lv (x\<lparr>s_pane := p\<rparr>) = lv x"
  by (simp add: lv_def)

lemma lv_detach_ac: "detach_ac k x = Some y \<Longrightarrow> lv y = lv x"
  by (auto simp: detach_ac_def lv_def Let_def dest: life_cancel split: if_splits)

lemma lv_Detach: "Detach k x = Some y \<Longrightarrow> lv y = lv x"
  by (auto simp: Detach_def dest!: lv_detach_ac split: if_splits) (simp_all add: lv_def)

lemma lv_AttemptAttach: "AttemptAttach c cols rows t x = Some (y, res) \<Longrightarrow> lv y = lv x"
proof -
  assume a: "AttemptAttach c cols rows t x = Some (y, res)"
  show "lv y = lv x"
  proof (cases "s_attached x \<noteq> None \<and> \<not> t")
    case True
    with a show ?thesis by (simp add: AttemptAttach_def)
  next
    case False
    with a obtain x1 where x1: "(case s_attached x of None \<Rightarrow> Some x | Some k \<Rightarrow> map_option (\<lambda>s1. s1\<lparr>s_attached := None\<rparr>) (detach_ac k x)) = Some x1"
      and sub: "\<exists>p ch. Subscribe (s_pane x1) = Some (p, ch) \<and> s_id y = s_id x1 \<and> s_ticketID y = s_ticketID x1 \<and> life (s_pane y) = life p"
      by (auto simp: AttemptAttach_def Let_def life_def SetSize_def split: option.splits if_splits)
    have "lv x1 = lv x" using x1 by (auto split: option.splits dest!: lv_detach_ac) (simp_all add: lv_def)
    moreover have "lv y = lv x1" using sub life_Subscribe by (fastforce simp: lv_def)
    ultimately show ?thesis by simp
  qed
qed

lemma lv_session_do: "session_do L a x = Some y \<Longrightarrow> benign a \<Longrightarrow> lv y = lv x"
  by (cases a) (auto simp: session_do_def benign_def close_detach_def lv_def dest: life_pane_do [unfolded benign_def] split: if_splits)

lemma lv_viewers: "lv (fst (SetViewing c v x)) = lv x" "lv (fst (RemoveViewer c x)) = lv x" "lv (MarkExpectedCompletion x) = lv x"
  by (auto simp: SetViewing_def RemoveViewer_def MarkExpectedCompletion_def MarkExpectedCompletedExit_def lv_def life_def Let_def)

section \<open>Extensions\<close>

text \<open>\<open>torn s r\<close>: session \<open>r\<close> has been torn down.  \<open>ext R s s'\<close>: from \<open>s\<close> to \<open>s'\<close> sessions only progressed, those of
  \<open>R\<close> are torn down in \<open>s'\<close>, and the registry and the goroutines that answer for sessions are the same.\<close>

definition torn :: "Server \<Rightarrow> sref \<Rightarrow> bool" where
  "torn s r = p_tornDown (s_pane (sess s r))"

definition alive_ok :: "Server \<Rightarrow> bool" where
  "alive_ok s \<longleftrightarrow> (\<forall>r < length (sv_sessions s). 0 < p_pid (s_pane (sess s r)) \<and> (p_running (s_pane (sess s r)) \<or> torn s r))"

definition sig_ok :: "Server \<Rightarrow> bool" where
  "sig_ok s \<longleftrightarrow> (\<forall>r < length (sv_sessions s). torn s r \<longrightarrow> (\<exists>t. (r, t, SIGKILL) \<in> set (sv_signals s)))"

definition ids :: "Server \<Rightarrow> (string \<times> string) list" where
  "ids s = map (\<lambda>x. (s_id x, s_ticketID x)) (sv_sessions s)"

definition ext :: "sref set \<Rightarrow> Server \<Rightarrow> Server \<Rightarrow> bool" where
  "ext R s s' \<longleftrightarrow> ids s' = ids s \<and> sv_reg s' = sv_reg s \<and> sv_kills s' = sv_kills s \<and> sv_spawns s' = sv_spawns s \<and>
     sv_serve s' = sv_serve s \<and> sv_inflightKills s' = sv_inflightKills s \<and> sv_reapFailures s' = sv_reapFailures s \<and>
     (sv_shutdown s \<longrightarrow> sv_shutdown s') \<and>
     (alive_ok s \<and> sig_ok s \<longrightarrow> alive_ok s' \<and> sig_ok s' \<and> (\<forall>r < length (sv_sessions s). torn s r \<or> r \<in> R \<longrightarrow> torn s' r))"

lemma ids_length: "ids s' = ids s \<Longrightarrow> length (sv_sessions s') = length (sv_sessions s)"
  unfolding ids_def by (metis length_map)

lemma ids_nth: "ids s' = ids s \<Longrightarrow> r < length (sv_sessions s) \<Longrightarrow> s_id (sess s' r) = s_id (sess s r) \<and> tid s' r = tid s r"
proof -
  assume i: "ids s' = ids s" and r: "r < length (sv_sessions s)"
  then have "ids s' ! r = ids s ! r" by simp
  with r ids_length [OF i] show ?thesis by (simp add: ids_def)
qed

lemma ext_refl [simp]: "ext {} s s"
  by (simp add: ext_def)

lemma ext_trans: "ext R s s1 \<Longrightarrow> ext R' s1 s2 \<Longrightarrow> ext (R \<union> R') s s2"
  unfolding ext_def using ids_length [of s1 s] by (auto dest: ids_length)

lemma ext_trans0: "ext R s s1 \<Longrightarrow> ext {} s1 s2 \<Longrightarrow> ext R s s2"
  using ext_trans [of R s s1 "{}" s2] by simp

lemma ext_mono: "ext R s s' \<Longrightarrow> R' \<subseteq> R \<Longrightarrow> ext R' s s'"
  unfolding ext_def by blast

lemma ext_fold: "(\<And>x s. x \<in> set xs \<Longrightarrow> ext {} s (f x s)) \<Longrightarrow> ext {} s (fold f xs s)"
proof (induction xs arbitrary: s)
  case (Cons x xs)
  have "ext {} s (f x s)" using Cons.prems by simp
  moreover have "ext {} (f x s) (fold f xs (f x s))" using Cons by simp
  ultimately show ?case using ext_trans0 by simp
qed simp

text \<open>Changes of other fields, and of one session as far as the invariant does not see it.\<close>

lemma ext_other:
  assumes "sv_sessions s' = sv_sessions s" "sv_reg s' = sv_reg s" "sv_kills s' = sv_kills s" "sv_spawns s' = sv_spawns s"
    "sv_serve s' = sv_serve s" "sv_inflightKills s' = sv_inflightKills s" "sv_reapFailures s' = sv_reapFailures s"
    "sv_signals s' = sv_signals s" "sv_shutdown s \<longrightarrow> sv_shutdown s'"
  shows "ext {} s s'"
  using assms by (auto simp: ext_def ids_def alive_ok_def sig_ok_def torn_def)

lemma ext_put_session: "lv x = lv (sess s r) \<Longrightarrow> ext {} s (put_session r x s)"
proof (cases "r < length (sv_sessions s)")
  case True
  assume x: "lv x = lv (sess s r)"
  then have "ids (put_session r x s) = ids s"
    using True by (simp add: ids_def put_session_def map_update list_update_same_conv lv_def)
  with x True show ?thesis
    by (auto simp: ext_def put_session_def alive_ok_def sig_ok_def torn_def lv_def life_def nth_list_update)
qed (simp add: put_session_def list_update_beyond)

lemma ext_conn: "ext {} s (put_conn k c s)" "ext {} s (write_out k m s)" "ext {} s (writeResp k r s)"
    "ext {} s (writeError k code msg s)" "ext {} s (emitEvent ev s)"
  by (auto intro!: ext_other simp: put_conn_def write_out_def writeResp_def writeError_def emitEvent_def Let_def)

lemma ext_emit: "ext R s u \<Longrightarrow> ext R s (emitEvent ev u)"
  by (rule ext_trans0 [OF _ ext_conn(5)])

lemma ext_shutdown: "ext {} s (initiateShutdown s)"
  by (auto intro!: ext_other simp: initiateShutdown_def)

lemma Kill_life:
  assumes "Kill own g x = (y, sent)"
  shows "s_id y = s_id x" "s_ticketID y = s_ticketID x" "p_pid (s_pane y) = p_pid (s_pane x)"
    "p_running (s_pane x) \<or> p_tornDown (s_pane x) \<Longrightarrow> p_tornDown (s_pane y)"
    "p_running (s_pane x) \<Longrightarrow> \<not> p_tornDown (s_pane x) \<Longrightarrow> 0 < p_pid (s_pane x) \<Longrightarrow> \<exists>t. (t, SIGKILL) \<in> set sent"
  using assms
  by (auto simp: Kill_def Stop_def StopGraceful_def StopGraceful_term_def StopGraceful_kill_def teardownUnlocked_def
      doTeardown_def signalGroup_def Let_def split: if_splits prod.splits)

lemma ext_kill_session: "ext {r} s (kill_session r g s)"
proof (cases "r < length (sv_sessions s)")
  case True
  obtain y sent where k: "Kill (sv_own s) g (sess s r) = (y, sent)" by force
  note y = Kill_life [OF k]
  let ?s = "kill_session r g s"
  have s': "?s = (put_session r y s)\<lparr>sv_signals := sv_signals s @ map (\<lambda>(t, sg). (r, t, sg)) sent\<rparr>"
    by (simp add: kill_session_def k)
  have i: "ids ?s = ids s"
    using True y(1,2) by (simp add: s' ids_def put_session_def map_update list_update_same_conv)
  have sess': "sess ?s q = (if q = r then y else sess s q)" if "q < length (sv_sessions s)" for q
    using that by (simp add: s' put_session_def nth_list_update)
  have "alive_ok ?s \<and> sig_ok ?s \<and> (\<forall>q < length (sv_sessions s). torn s q \<or> q \<in> {r} \<longrightarrow> torn ?s q)"
    if ok: "alive_ok s" "sig_ok s"
  proof (intro conjI)
    have r: "0 < p_pid (s_pane (sess s r))" "p_running (s_pane (sess s r)) \<or> p_tornDown (s_pane (sess s r))"
      using ok(1) True by (auto simp: alive_ok_def torn_def)
    show t: "\<forall>q < length (sv_sessions s). torn s q \<or> q \<in> {r} \<longrightarrow> torn ?s q"
      using sess' y(4) r(2) by (auto simp: torn_def)
    show "alive_ok ?s"
      using ok(1) sess' y(3,4) r ids_length [OF i] by (auto simp: alive_ok_def torn_def)
    have "\<exists>t. (r, t, SIGKILL) \<in> set (sv_signals ?s)"
    proof (cases "torn s r")
      case torn: True
      then show ?thesis using ok(2) True by (auto simp: sig_ok_def s')
    next
      case False
      then have "p_running (s_pane (sess s r))" "\<not> p_tornDown (s_pane (sess s r))" using r(2) by (auto simp: torn_def)
      from y(5) [OF this r(1)] obtain t where "(t, SIGKILL) \<in> set sent" by blast
      then have "(r, t, SIGKILL) \<in> set (sv_signals ?s)" by (auto simp: s' intro: rev_image_eqI)
      then show ?thesis by blast
    qed
    moreover have "\<exists>t. (q, t, SIGKILL) \<in> set (sv_signals ?s)" if "q \<noteq> r" "q < length (sv_sessions s)" "torn ?s q" for q
      using that ok(2) sess' by (auto simp: sig_ok_def torn_def s')
    ultimately show "sig_ok ?s"
      using ids_length [OF i] unfolding sig_ok_def by metis
  qed
  with i show ?thesis by (simp add: ext_def s' put_session_def)
next
  case False
  then show ?thesis
    by (auto simp: kill_session_def put_session_def list_update_beyond ext_def ids_def alive_ok_def sig_ok_def torn_def
        split: prod.splits)
qed

lemma ext_kill_all: "ext (set rs) s (fold (\<lambda>r. kill_session r g) rs s)"
proof (induction rs arbitrary: s)
  case (Cons r rs)
  from ext_trans [OF ext_kill_session [of r s g] Cons.IH [of "kill_session r g s"]] show ?case by simp
qed simp

section \<open>The invariant\<close>

text \<open>Every session that is not torn down has somebody who answers for it: the registry, a kill in flight, or a
  spawn that has not registered it yet.\<close>

definition held :: "Server \<Rightarrow> sref \<Rightarrow> bool" where
  "held s r \<longleftrightarrow> torn s r \<or> r \<in> snd ` set (sv_reg s) \<or> r \<in> fst ` set (sv_kills s) \<or> AtStore r \<in> g_pc ` set (sv_spawns s)"

definition reg_ok :: "Server \<Rightarrow> bool" where
  "reg_ok s \<longleftrightarrow> sreg.one_per_ticket (tid s) (sv_reg s) \<and>
     (\<forall>(i, r) \<in> set (sv_reg s). r < length (sv_sessions s) \<and> s_id (sess s r) = i \<and> tid s r \<noteq> [])"

definition spawn_ok :: "Server \<Rightarrow> spawn \<Rightarrow> bool" where
  "spawn_ok s g \<longleftrightarrow>
     (case g_pc g of
        AtFast \<Rightarrow> sp_TicketID (g_req g) \<noteq> []
      | AtNew \<Rightarrow> sp_TicketID (g_req g) \<noteq> []
      | AtStore r \<Rightarrow> r < length (sv_sessions s) \<and> tid s r = sp_TicketID (g_req g) \<and> tid s r \<noteq> []
      | AtRecheck r \<Rightarrow> r < length (sv_sessions s)
      | _ \<Rightarrow> True)"

definition gauges_ok :: "Server \<Rightarrow> bool" where
  "gauges_ok s \<longleftrightarrow> sv_inflightKills s = int (length (sv_kills s)) \<and>
     sv_reapFailures s = int (length (filter (\<lambda>(r, g, late). late) (sv_kills s)))"

definition exit_ok :: "Server \<Rightarrow> bool" where
  "exit_ok s \<longleftrightarrow> (sv_serve s = Exited \<longrightarrow> sv_shutdown s \<and>
     (\<forall>r \<in> snd ` set (sv_reg s). AtRecheck r \<in> g_pc ` set (sv_spawns s)))"

definition sv_inv :: "Server \<Rightarrow> bool" where
  "sv_inv s \<longleftrightarrow> reg_ok s \<and> distinct (map s_id (sv_sessions s)) \<and> alive_ok s \<and> sig_ok s \<and>
     (\<forall>r < length (sv_sessions s). held s r) \<and> (\<forall>g \<in> set (sv_spawns s). spawn_ok s g) \<and> gauges_ok s \<and> exit_ok s"

lemma sv_inv_New: "sv_inv (NewServer persistent own)"
  by (auto simp: sv_inv_def NewServer_def reg_ok_def sreg.one_per_ticket_def alive_ok_def sig_ok_def gauges_ok_def exit_ok_def reg_get_def)

lemma one_per_ticket_subset:
  assumes "sreg.one_per_ticket t r" "set r' \<subseteq> set r" "mwf r'"
  shows "sreg.one_per_ticket t r'"
proof -
  have m: "mwf r" using assms(1) by (simp add: sreg.one_per_ticket_def)
  have "reg_get k r = Some y" if "reg_get k r' = Some y" for k y
    using that assms(2,3) m by (auto simp: reg_get_def in_set_mget [symmetric])
  then show ?thesis using assms(1,3) unfolding sreg.one_per_ticket_def by blast
qed

lemma one_per_ticket_cong:
  assumes "sreg.one_per_ticket t r" "\<And>i x. (i, x) \<in> set r \<Longrightarrow> t' x = t x"
  shows "sreg.one_per_ticket t' r"
proof -
  have "t' y = t y" if "reg_get k r = Some y" for k y using that assms(2) by (auto simp: reg_get_def dest: mget_in_set)
  then show ?thesis using assms(1) unfolding sreg.one_per_ticket_def by metis
qed

text \<open>The shape of every step but those of spawns: some entries leave the registry or the kills, and the sessions
  they held are torn down or handed to a kill.\<close>

lemma inv_base:
  assumes inv: "sv_inv s"
    and b: "sv_sessions b = sv_sessions s" "sv_signals b = sv_signals s" "sv_spawns b = sv_spawns s" "sv_serve b = sv_serve s"
      "sv_shutdown s \<longrightarrow> sv_shutdown b"
    and reg: "set (sv_reg b) \<subseteq> set (sv_reg s)" "mwf (sv_reg b)"
    and gone: "\<And>r. r \<in> snd ` set (sv_reg s) \<or> r \<in> fst ` set (sv_kills s) \<Longrightarrow>
      r \<in> R \<or> torn s r \<or> r \<in> snd ` set (sv_reg b) \<or> r \<in> fst ` set (sv_kills b)"
    and g: "gauges_ok b" and e: "ext R b s'"
  shows "sv_inv s'"
proof -
  have ids: "ids s' = ids s" using e b(1) by (simp add: ext_def ids_def)
  note len = ids_length [OF ids] and nth = ids_nth [OF ids]
  have ok: "alive_ok b" "sig_ok b" using inv b(1,2) by (simp_all add: sv_inv_def alive_ok_def sig_ok_def torn_def)
  have tb: "torn b r = torn s r" for r using b(1) by (simp add: torn_def)
  have same: "sv_reg s' = sv_reg b" "sv_kills s' = sv_kills b" "sv_spawns s' = sv_spawns s" "sv_serve s' = sv_serve s"
    "sv_shutdown s \<longrightarrow> sv_shutdown s'" "alive_ok s'" "sig_ok s'" "gauges_ok s'"
    "\<And>r. r < length (sv_sessions s) \<Longrightarrow> torn s r \<or> r \<in> R \<Longrightarrow> torn s' r"
    using e b ok g tb by (auto simp: ext_def gauges_ok_def)
  have "reg_ok s'"
  proof -
    have r: "r < length (sv_sessions s) \<and> s_id (sess s r) = i \<and> tid s r \<noteq> []" if "(i, r) \<in> set (sv_reg b)" for i r
      using that reg(1) inv by (auto simp: sv_inv_def reg_ok_def)
    have "sreg.one_per_ticket (tid s) (sv_reg b)"
      using inv reg by (auto simp: sv_inv_def reg_ok_def intro: one_per_ticket_subset)
    then have "sreg.one_per_ticket (tid s') (sv_reg b)"
      by (rule one_per_ticket_cong) (use r nth in blast)
    with r nth len same(1) show ?thesis by (auto simp: reg_ok_def)
  qed
  moreover have "distinct (map s_id (sv_sessions s'))"
  proof -
    have "map s_id (sv_sessions s') = map s_id (sv_sessions s)"
      using nth len by (intro nth_equalityI) auto
    then show ?thesis using inv by (simp add: sv_inv_def)
  qed
  moreover have "held s' r" if "r < length (sv_sessions s')" for r
  proof -
    have "r < length (sv_sessions s)" using that len by simp
    with inv have "held s r" by (simp add: sv_inv_def)
    with gone [of r] same \<open>r < length (sv_sessions s)\<close> show ?thesis unfolding held_def by metis
  qed
  moreover have "spawn_ok s' g" if "g \<in> set (sv_spawns s')" for g
  proof -
    have "spawn_ok s g" using that inv same(3) by (simp add: sv_inv_def)
    then show ?thesis using nth len by (auto simp: spawn_ok_def split: spawn_pc.splits)
  qed
  moreover have "exit_ok s'"
    using inv same reg(1) by (auto simp: sv_inv_def exit_ok_def)
  ultimately show ?thesis using same by (simp add: sv_inv_def)
qed

lemma inv_ext: "sv_inv s \<Longrightarrow> ext R s s' \<Longrightarrow> sv_inv s'"
  by (rule inv_base [of s s R]) (auto simp: sv_inv_def reg_ok_def sreg.one_per_ticket_def)

lemma ext_put_fun:
  assumes "\<And>x. lv (f x) = lv x"
  shows "ext {} s (put_session r (f (sess s r)) s)"
  by (rule ext_put_session) (simp add: assms)

subsection \<open>Requests and background goroutines\<close>

lemma ext_handlers:
  "ext {} s (fst (handleHello k n s))" "ext {} s (handleSubscribe k s)" "ext {} s (handleCancelExit k s)"
  "ext {} s (fst (handlePrepareExit k s))" "ext {} s (finish_dispatch s)" "ext {} s (bad_request k e s)"
  by (auto intro!: ext_other simp: handleHello_def handleSubscribe_def handleCancelExit_def handlePrepareExit_def put_conn_def
      finish_dispatch_def bad_request_def writeError_def writeResp_def write_out_def Let_def)

lemma ext_SetViewing: "ext {} s (fst (handleSetViewing k i v s))"
proof (cases "reg_get i (sv_reg s)")
  case None
  then show ?thesis by (simp add: handleSetViewing_def)
next
  case (Some r)
  obtain x count changed where x: "SetViewing (c_id (sv_conns s ! k)) v (sess s r) = (x, count, changed)" by (metis prod_cases3)
  then have "lv x = lv (sess s r)" using lv_viewers(1) [of "c_id (sv_conns s ! k)" v "sess s r"] by simp
  then have "ext {} s (put_session r x s)" by (rule ext_put_session)
  then show ?thesis using Some x ext_conn(5) ext_trans0 by (simp add: handleSetViewing_def Let_def)
qed

lemma ext_chunks: "ext {} s (fst (writeSnapshotChunks k d s))"
  by (auto simp: writeSnapshotChunks_def intro!: ext_fold ext_conn)

lemma ext_Peek: "ext {} s (handlePeek snap k i s)"
  using ext_conn(3,4) ext_chunks ext_trans0 by (fastforce simp: handlePeek_def Let_def split: option.splits)

lemma ext_Attach: "handleAttach snap k i cols rows t s = Some (s', b) \<Longrightarrow> ext {} s s'"
proof -
  assume a: "handleAttach snap k i cols rows t s = Some (s', b)"
  define cols1 where "cols1 = (if cols = 0 then 80 else cols)"
  define rows1 where "rows1 = (if rows = 0 then 24 else rows)"
  show "ext {} s s'"
  proof (cases "dims_ok cols1 rows1")
    case False
    with a show ?thesis using ext_conn(4) by (auto simp: handleAttach_def Let_def cols1_def rows1_def split: if_splits)
  next
    case True
    show ?thesis
    proof (cases "reg_get i (sv_reg s)")
      case None
      with a True show ?thesis using ext_conn(4) by (auto simp: handleAttach_def Let_def cols1_def rows1_def split: if_splits)
    next
      case (Some r)
      obtain x res where x: "AttemptAttach (c_id (sv_conns s ! k)) cols1 rows1 t (sess s r) = Some (x, res)"
        using a True Some by (auto simp: handleAttach_def Let_def cols1_def rows1_def split: option.splits if_splits)
      then have p: "ext {} s (put_session r x s)" by (intro ext_put_session) (rule lv_AttemptAttach)
      show ?thesis
      proof (cases res)
        case (Inl e)
        with a True Some x have "s' = writeError k ''already_attached'' ''daemon: session already has an attached client'' (put_session r x s)"
          by (cases e) (simp add: handleAttach_def Let_def cols1_def [symmetric] rows1_def [symmetric])
        then show ?thesis using ext_trans0 [OF p ext_conn(4)] by simp
      next
        case (Inr pa)
        obtain p0 ac where pa: "pa = (p0, ac)" by (cases pa)
        define s2 where "s2 = emitEvent ((with_activity ''attached'' x)\<lparr>ev_SessionID := i\<rparr>)
          (writeResp k (AttachResp (c_id (sv_conns s ! k)) (length (snap p0))) (put_session r x s))"
        have e2: "ext {} s s2" unfolding s2_def using ext_trans0 [OF ext_trans0 [OF p ext_conn(3)] ext_conn(5)] .
        obtain s3 ok where w: "writeSnapshotChunks k (snap p0) s2 = (s3, ok)" by force
        have e3: "ext {} s s3" using ext_trans0 [OF e2 ext_chunks [of s2 k "snap p0"]] w by simp
        show ?thesis
        proof (cases ok)
          case True
          with a \<open>dims_ok cols1 rows1\<close> Some x Inr pa w have "s' = s3\<lparr>sv_attaches := sv_attaches s3 @ [(k, r, ac)]\<rparr>"
            by (simp add: handleAttach_def Let_def cols1_def [symmetric] rows1_def [symmetric] s2_def)
          then have "ext {} s3 s'" by (auto intro: ext_other)
          with e3 show ?thesis by (rule ext_trans0)
        next
          case False
          with a \<open>dims_ok cols1 rows1\<close> Some x Inr pa w obtain y where "Detach ac (sess s3 r) = Some y" "s' = put_session r y s3"
            by (auto simp: handleAttach_def Let_def cols1_def [symmetric] rows1_def [symmetric] s2_def)
          then have "ext {} s3 s'" using ext_put_session [OF lv_Detach] by simp
          with e3 show ?thesis by (rule ext_trans0)
        qed
      qed
    qed
  qed
qed

lemma gauges_tracked:
  "gauges_ok s \<Longrightarrow> gauges_ok (trackedKill r g s)"
  by (auto simp: gauges_ok_def trackedKill_def)

lemma inv_Kill:
  assumes "sv_inv s" shows "sv_inv (handleKill i g s)"
proof (cases "reg_get i (sv_reg s)")
  case None
  with assms show ?thesis by (simp add: handleKill_def)
next
  case (Some r)
  let ?b = "trackedKill r g (s\<lparr>sv_reg := reg_delete i (sv_reg s)\<rparr>)"
  have m: "mwf (sv_reg s)" using assms by (simp add: sv_inv_def reg_ok_def sreg.one_per_ticket_def)
  have "sv_inv ?b"
  proof (rule inv_base [OF assms, of ?b "{}"])
    show "set (sv_reg ?b) \<subseteq> set (sv_reg s)" "mwf (sv_reg ?b)"
      using m by (auto simp: trackedKill_def reg_delete_def set_mdel)
    show "q \<in> {} \<or> torn s q \<or> q \<in> snd ` set (sv_reg ?b) \<or> q \<in> fst ` set (sv_kills ?b)"
      if "q \<in> snd ` set (sv_reg s) \<or> q \<in> fst ` set (sv_kills s)" for q
      using that m Some by (force simp: trackedKill_def reg_delete_def set_mdel reg_get_def in_set_mget)
    show "gauges_ok ?b" using assms by (intro gauges_tracked) (simp add: sv_inv_def gauges_ok_def)
  qed (simp_all add: trackedKill_def)
  with Some show ?thesis by (simp add: handleKill_def)
qed

text \<open>The registry after a list of conditional deletes.\<close>

lemma deleteIf_fields:
  assumes "mwf (sv_reg s)"
  shows "\<exists>r'. fold (\<lambda>m s. s\<lparr>sv_reg := fst (reg_deleteIf (s_id (sess s m)) m (sv_reg s))\<rparr>) ms s = s\<lparr>sv_reg := r'\<rparr> \<and>
    set r' \<subseteq> set (sv_reg s) \<and> mwf r' \<and> (\<forall>i r. (i, r) \<in> set (sv_reg s) \<longrightarrow> (i, r) \<in> set r' \<or> r \<in> set ms)"
  using assms
proof (induction ms arbitrary: s)
  case (Cons m ms)
  let ?s = "s\<lparr>sv_reg := fst (reg_deleteIf (s_id (sess s m)) m (sv_reg s))\<rparr>"
  have sub: "set (sv_reg ?s) \<subseteq> set (sv_reg s)" "mwf (sv_reg ?s)"
    using Cons.prems by (auto simp: reg_deleteIf_def set_mdel)
  have one: "(i, r) \<in> set (sv_reg ?s) \<or> r = m" if "(i, r) \<in> set (sv_reg s)" for i r
    using that Cons.prems by (auto simp: reg_deleteIf_def set_mdel in_set_mget)
  obtain r' where r': "fold (\<lambda>m s. s\<lparr>sv_reg := fst (reg_deleteIf (s_id (sess s m)) m (sv_reg s))\<rparr>) ms ?s = ?s\<lparr>sv_reg := r'\<rparr>"
    "set r' \<subseteq> set (sv_reg ?s)" "mwf r'" "\<forall>i r. (i, r) \<in> set (sv_reg ?s) \<longrightarrow> (i, r) \<in> set r' \<or> r \<in> set ms"
    using Cons.IH [OF sub(2)] by blast
  have "\<forall>i r. (i, r) \<in> set (sv_reg s) \<longrightarrow> (i, r) \<in> set r' \<or> r \<in> set (m # ms)" using one r'(4) by auto
  with r' sub(1) show ?case by (intro exI [of _ r']) auto
next
  case Nil
  then show ?case by (intro exI [of _ "sv_reg s"]) simp
qed

text \<open>Marking and handing a list of sessions to kills.\<close>

lemma mark_kill_fields:
  "\<exists>xs. fold (\<lambda>m s. trackedKill m g (put_session m (MarkExpectedCompletion (sess s m)) s)) ms s =
     s\<lparr>sv_sessions := xs, sv_inflightKills := sv_inflightKills s + int (length ms),
       sv_kills := sv_kills s @ map (\<lambda>m. (m, g, False)) ms\<rparr> \<and> map lv xs = map lv (sv_sessions s)"
proof (induction ms arbitrary: s)
  case (Cons m ms)
  let ?s = "trackedKill m g (put_session m (MarkExpectedCompletion (sess s m)) s)"
  obtain xs where xs: "fold (\<lambda>m s. trackedKill m g (put_session m (MarkExpectedCompletion (sess s m)) s)) ms ?s =
     ?s\<lparr>sv_sessions := xs, sv_inflightKills := sv_inflightKills ?s + int (length ms),
       sv_kills := sv_kills ?s @ map (\<lambda>m. (m, g, False)) ms\<rparr>" "map lv xs = map lv (sv_sessions ?s)"
    using Cons.IH by blast
  have "map lv (sv_sessions ?s) = map lv (sv_sessions s)"
    by (cases "m < length (sv_sessions s)")
      (simp_all add: trackedKill_def put_session_def map_update lv_viewers list_update_same_conv list_update_beyond)
  with xs show ?case by (intro exI [of _ xs]) (simp add: trackedKill_def put_session_def)
next
  case Nil
  then show ?case by (intro exI [of _ "sv_sessions s"]) simp
qed

lemma ext_lv:
  assumes "map lv xs = map lv (sv_sessions s)"
  shows "ext {} s (s\<lparr>sv_sessions := xs\<rparr>)"
proof -
  have len: "length xs = length (sv_sessions s)" using assms by (metis length_map)
  have n: "lv (xs ! r) = lv (sess s r)" if "r < length (sv_sessions s)" for r
    using that assms len by (metis nth_map)
  have "ids (s\<lparr>sv_sessions := xs\<rparr>) = ids s"
    using n len by (auto simp: ids_def lv_def intro!: nth_equalityI)
  with n len show ?thesis by (auto simp: ext_def alive_ok_def sig_ok_def torn_def lv_def life_def)
qed

lemma inv_TicketDone:
  assumes "sv_inv s" shows "sv_inv (fst (handleTicketDone t s))"
proof (cases "t = []")
  case True
  with assms show ?thesis by (simp add: handleTicketDone_def)
next
  case False
  define ms where "ms = filter (\<lambda>r. tid s r = t) (map snd (sv_reg s))"
  have "mwf (sv_reg s)" using assms by (simp add: sv_inv_def reg_ok_def sreg.one_per_ticket_def)
  then obtain r' where r': "fold (\<lambda>m s. s\<lparr>sv_reg := fst (reg_deleteIf (s_id (sess s m)) m (sv_reg s))\<rparr>) ms s = s\<lparr>sv_reg := r'\<rparr>"
    "set r' \<subseteq> set (sv_reg s)" "mwf r'" "\<forall>i r. (i, r) \<in> set (sv_reg s) \<longrightarrow> (i, r) \<in> set r' \<or> r \<in> set ms"
    using deleteIf_fields by blast
  obtain xs where xs: "fold (\<lambda>m s. trackedKill m shutdownGraceSeconds (put_session m (MarkExpectedCompletion (sess s m)) s)) ms (s\<lparr>sv_reg := r'\<rparr>) =
     s\<lparr>sv_reg := r', sv_sessions := xs, sv_inflightKills := sv_inflightKills s + int (length ms),
       sv_kills := sv_kills s @ map (\<lambda>m. (m, shutdownGraceSeconds, False)) ms\<rparr>" "map lv xs = map lv (sv_sessions s)"
    using mark_kill_fields [of shutdownGraceSeconds ms "s\<lparr>sv_reg := r'\<rparr>"] by auto
  let ?b = "s\<lparr>sv_reg := r', sv_inflightKills := sv_inflightKills s + int (length ms),
       sv_kills := sv_kills s @ map (\<lambda>m. (m, shutdownGraceSeconds, False)) ms\<rparr>"
  have e: "fst (handleTicketDone t s) = ?b\<lparr>sv_sessions := xs\<rparr>"
  proof (cases ms)
    case Nil
    then have "xs = sv_sessions s \<or> True" by simp
    have "fst (handleTicketDone t s) = s\<lparr>sv_reg := r'\<rparr>"
      using False Nil r'(1) by (simp add: handleTicketDone_def Let_def ms_def)
    moreover have "s\<lparr>sv_reg := r'\<rparr> = ?b\<lparr>sv_sessions := xs\<rparr>" using xs(1) Nil by simp
    ultimately show ?thesis by simp
  next
    case (Cons m ms')
    then have "fst (handleTicketDone t s) =
        fold (\<lambda>m s. trackedKill m shutdownGraceSeconds (put_session m (MarkExpectedCompletion (sess s m)) s)) ms (s\<lparr>sv_reg := r'\<rparr>)"
      using False r'(1) unfolding handleTicketDone_def Let_def ms_def [symmetric] by simp
    then show ?thesis using xs(1) by simp
  qed
  show ?thesis
    unfolding e
  proof (rule inv_base [OF assms, of ?b "{}"])
    show "q \<in> {} \<or> torn s q \<or> q \<in> snd ` set (sv_reg ?b) \<or> q \<in> fst ` set (sv_kills ?b)"
      if "q \<in> snd ` set (sv_reg s) \<or> q \<in> fst ` set (sv_kills s)" for q
      using that r'(4) by force
    have k: "length (filter (\<lambda>(r, g, late). late) (map (\<lambda>m. (m, shutdownGraceSeconds, False)) ms)) = 0"
      by (simp add: filter_map comp_def)
    show "gauges_ok ?b" using assms k by (simp add: sv_inv_def gauges_ok_def)
    show "ext {} ?b (?b\<lparr>sv_sessions := xs\<rparr>)" by (rule ext_lv) (use xs(2) in simp)
  qed (use r' in simp_all)
qed

lemma inv_kill_all:
  assumes "sv_inv s" "ext {} (fold (\<lambda>x. kill_session x g) (map snd (sv_reg s)) (s\<lparr>sv_reg := []\<rparr>)) s'"
  shows "sv_inv s'"
proof (rule inv_base [OF assms(1), of "s\<lparr>sv_reg := []\<rparr>" "set (map snd (sv_reg s))"])
  show "ext (set (map snd (sv_reg s))) (s\<lparr>sv_reg := []\<rparr>) s'" using ext_trans0 [OF ext_kill_all assms(2)] .
  show "gauges_ok (s\<lparr>sv_reg := []\<rparr>)" using assms(1) by (simp add: sv_inv_def gauges_ok_def)
qed auto

lemma inv_Shutdown:
  assumes "sv_inv s" shows "sv_inv (fst (handleShutdown s))"
proof (rule inv_kill_all [OF assms, of shutdownGraceSeconds])
  let ?s1 = "fold (\<lambda>x. kill_session x shutdownGraceSeconds) (map snd (sv_reg s)) (s\<lparr>sv_reg := []\<rparr>)"
  show "ext {} ?s1 (fst (handleShutdown s))"
    by (rule ext_other) (simp_all add: handleShutdown_def reg_drain_def Let_def)
qed

lemma inv_short:
  assumes "sv_inv s" "\<And>u. sv_inv u \<Longrightarrow> sv_inv (fst (h u))"
  shows "sv_inv (short timely name k h s)"
proof -
  let ?u = "s\<lparr>sv_shortInflight := sv_shortInflight s + 1\<rparr>"
  have "sv_inv ?u" using assms(1) by (rule inv_ext) (rule ext_other, simp_all)
  then have i: "sv_inv (fst (h ?u))" by (rule assms(2))
  obtain u r where h: "h ?u = (u, r)" by force
  have "ext {} u (u\<lparr>sv_shortInflight := sv_shortInflight u - 1\<rparr>)" by (rule ext_other) simp_all
  from ext_trans0 [OF this ext_conn(3)] i h show ?thesis by (auto simp: short_def intro: inv_ext)
qed

lemma inv_short_ext:
  "sv_inv s \<Longrightarrow> (\<And>u. ext {} u (fst (h u))) \<Longrightarrow> sv_inv (short timely name k h s)"
  by (rule inv_short) (auto intro: inv_ext)

lemma inv_dispatch_body:
  assumes "dispatch_body E k req s = Some (s', b)" "sv_inv s" "\<And>q. req \<noteq> SpawnReqM (Inr q)"
  shows "sv_inv s'"
proof -
  have bad: "sv_inv (bad_request k e s)" "sv_inv (writeError k c m s)" for e c m
    using inv_ext [OF assms(2) ext_handlers(6)] inv_ext [OF assms(2) ext_conn(4)] by blast+
  have prep: "ext {} u (fst (case handlePrepareExit k u of (s1, r) \<Rightarrow> (s1, PrepareExitRespM r)))" for u
    using ext_handlers(4) [of u k] by (cases "handlePrepareExit k u") simp
  show ?thesis
  proof (cases req)
    case (HelloReq x)
    with assms bad show ?thesis by (cases x) (auto simp: dispatch_body_def intro!: inv_short_ext ext_handlers)
  next
    case (SpawnReqM x)
    with assms bad show ?thesis by (cases x) (auto simp: dispatch_body_def)
  next
    case ListReq
    with assms show ?thesis by (auto simp: dispatch_body_def intro!: inv_short_ext)
  next
    case (KillReq x)
    with assms bad show ?thesis by (cases x) (auto simp: dispatch_body_def intro!: inv_short inv_Kill)
  next
    case (TicketDoneReq x)
    with assms bad show ?thesis by (cases x) (auto simp: dispatch_body_def intro!: inv_short inv_TicketDone)
  next
    case (OwnsReq x)
    with assms bad show ?thesis by (cases x) (auto simp: dispatch_body_def intro!: inv_short_ext)
  next
    case SubscribeReq
    with assms show ?thesis by (auto simp: dispatch_body_def intro!: inv_short_ext ext_handlers)
  next
    case PrepareExitReq
    with assms prep show ?thesis by (auto simp: dispatch_body_def intro!: inv_short_ext)
  next
    case CancelExitReq
    with assms show ?thesis by (auto simp: dispatch_body_def intro!: inv_short_ext ext_handlers)
  next
    case (ShutdownReq f)
    with assms show ?thesis
      using inv_ext [OF inv_Shutdown [OF assms(2)] ext_conn(3)] by (auto simp: dispatch_body_def split: prod.splits)
  next
    case (AttachReq x)
    with assms bad show ?thesis by (cases x) (auto simp: dispatch_body_def intro: inv_ext dest: ext_Attach)
  next
    case (PeekReq x)
    show ?thesis
    proof (cases x)
      case (Inl e)
      with assms bad PeekReq show ?thesis by (auto simp: dispatch_body_def)
    next
      case (Inr i)
      let ?u = "s\<lparr>sv_shortInflight := sv_shortInflight s + 1\<rparr>"
      let ?s1 = "handlePeek (d_snap E) k i ?u"
      let ?s2 = "?s1\<lparr>sv_shortInflight := sv_shortInflight ?s1 - 1\<rparr>"
      have "ext {} s ?u" "ext {} ?s1 ?s2" by (rule ext_other, simp_all)+
      then have "ext {} s ?s2" using ext_Peek ext_trans0 by meson
      then have "sv_inv ?s2" "sv_inv (writeError k c m ?s2)" for c m
        using inv_ext [OF assms(2)] ext_conn(4) ext_trans0 by blast+
      with assms PeekReq Inr show ?thesis by (auto simp: dispatch_body_def Let_def)
    qed
  next
    case (SetViewingReq x)
    with assms bad show ?thesis by (cases x) (auto simp: dispatch_body_def intro!: inv_short_ext ext_SetViewing)
  next
    case HealthReq
    with assms show ?thesis by (auto simp: dispatch_body_def intro!: inv_short_ext)
  next
    case (UnknownReq t)
    with assms bad show ?thesis by (auto simp: dispatch_body_def)
  qed
qed

lemma inv_dispatch:
  assumes "dispatch E k req s = Some s'" "sv_inv s" "\<And>q. req \<noteq> SpawnReqM (Inr q)"
  shows "sv_inv s'"
proof -
  let ?u = "s\<lparr>sv_inflight := sv_inflight s + 1\<rparr>"
  have "sv_inv ?u" using assms(2) by (rule inv_ext) (rule ext_other, simp_all)
  moreover obtain s1 b where "dispatch_body E k req ?u = Some (s1, b)" "s' = (if b then s1 else finish_dispatch s1)"
    using assms(1) by (auto simp: dispatch_def split: option.splits)
  ultimately show ?thesis using inv_dispatch_body assms(3) inv_ext [OF _ ext_handlers(5)] by metis
qed

subsection \<open>Clients, drains, broadcasts\<close>

lemma ext_cleanupViewers: "ext {} s (cleanupViewersForClient c s)"
  unfolding cleanupViewersForClient_def
proof (rule ext_fold)
  fix r s
  obtain x gone where x: "RemoveViewer c (sess s r) = (x, gone)" by force
  then have "lv x = lv (sess s r)" using lv_viewers(2) [of c "sess s r"] by simp
  then have "ext {} s (put_session r x s)" by (rule ext_put_session)
  with x ext_conn(5) ext_trans0 show "ext {} s (case RemoveViewer c (sess s r) of
      (x, gone) \<Rightarrow> let s2 = put_session r x s in if gone then emitEvent (session_event ''unviewing'' x) s2 else s2)"
    by (simp add: Let_def)
qed

lemma ext_lastClient: "ext {} s (handleLastClientDisconnect s)"
  by (auto simp: handleLastClientDisconnect_def Let_def intro!: ext_shutdown ext_other)

lemma ext_disconnect: "ext {} s (disconnect k s)"
proof -
  let ?s1 = "put_conn k ((sv_conns s ! k)\<lparr>c_open := False\<rparr>) s"
  let ?s2 = "cleanupViewersForClient (c_id (sv_conns ?s1 ! k)) ?s1"
  obtain s3 remaining where u: "unregisterClient k ?s2 = (s3, remaining)" by force
  then have "ext {} ?s2 s3" by (auto simp: unregisterClient_def Let_def intro!: ext_other)
  then have "ext {} s s3" using ext_trans0 [OF ext_trans0 [OF ext_conn(1) ext_cleanupViewers]] by blast
  moreover define s4 where "s4 = (if remaining = 0 then handleLastClientDisconnect s3 else s3)"
  moreover have "ext {} s3 s4" by (simp add: s4_def ext_lastClient)
  moreover have "ext {} s4 (s4\<lparr>sv_sem := sem_release (sv_sem s4)\<rparr>)" by (rule ext_other) simp_all
  ultimately have "ext {} s (s4\<lparr>sv_sem := sem_release (sv_sem s4)\<rparr>)" by (blast intro: ext_trans0)
  moreover have "disconnect k s = s4\<lparr>sv_sem := sem_release (sv_sem s4)\<rparr>"
    unfolding disconnect_def Let_def u s4_def by simp
  ultimately show ?thesis by simp
qed

lemma ext_accept: "ext {} s (accept s)"
proof -
  have "sv_sessions (accept s) = sv_sessions s \<and> sv_reg (accept s) = sv_reg s \<and> sv_kills (accept s) = sv_kills s \<and>
    sv_spawns (accept s) = sv_spawns s \<and> sv_serve (accept s) = sv_serve s \<and> sv_inflightKills (accept s) = sv_inflightKills s \<and>
    sv_reapFailures (accept s) = sv_reapFailures s \<and> sv_signals (accept s) = sv_signals s \<and> sv_shutdown (accept s) = sv_shutdown s"
    by (simp add: accept_def registerClient_def tryAcquire_def unregisterClient_def writeError_def writeResp_def write_out_def
        put_conn_def Let_def)
  then show ?thesis by (intro ext_other) simp_all
qed

lemma ext_drain: "ext {} s (drain_turn i s)"
proof -
  have "ext {} (initiateShutdown s) ((initiateShutdown s)\<lparr>sv_drains := ds\<rparr>)" for ds by (rule ext_other) simp_all
  then have sh: "ext {} s ((initiateShutdown s)\<lparr>sv_drains := ds\<rparr>)" for ds using ext_trans0 [OF ext_shutdown] by blast
  show ?thesis
    by (cases "sv_drains s ! i") (auto simp: drain_turn_def Let_def sh intro!: ext_other)
qed

lemma ext_stale: "ext {} s (fst (stalenessStep stale s))"
proof -
  let ?u = "s\<lparr>sv_pendingRestart := True\<rparr>"
  have "ext {} s ?u" by (rule ext_other) simp_all
  with ext_trans0 [OF this ext_shutdown] show ?thesis by (simp add: stalenessStep_def Let_def)
qed

lemma ext_event: "ext {} s (broadcastEvents s)"
proof (cases "sv_shutdown s \<or> sv_events s = []")
  case True
  then show ?thesis by (auto simp: broadcastEvents_def)
next
  case False
  then obtain ev evs where e: "sv_events s = ev # evs" by (cases "sv_events s") auto
  have "ext {} s (s\<lparr>sv_events := evs\<rparr>)" by (rule ext_other) simp_all
  moreover have "ext {} u (dispatchSessionEvent ev u)" for u
    by (auto simp: dispatchSessionEvent_def Let_def intro!: ext_fold ext_conn)
  ultimately show ?thesis using False e ext_trans0 by (auto simp: broadcastEvents_def)
qed

lemma ext_activity: "ext {} s (fst (activity_tick detect grid now (s, lastSeen, stuckSeen)))"
proof -
  have one: "ext {} s (fst (activity_one detect grid now p (s, l, k)))" for p s l k
  proof -
    obtain i r where p: "p = (i, r)" by (cases p)
    have w: "ext {} s (fst (checkSessionWedge now i r k s))"
      by (auto simp: checkSessionWedge_def intro!: ext_conn split: option.splits)
    obtain s1 k1 where c: "checkSessionWedge now i r k s = (s1, k1)" by force
    show ?thesis
      using w ext_trans0 [OF w ext_conn(5)]
      by (auto simp: activity_one_def p c split: option.splits)
  qed
  have "ext {} s (fst (fold (activity_one detect grid now) ps (s, l, k)))" for ps l k
  proof (induction ps arbitrary: s l k)
    case (Cons p ps)
    obtain s1 l1 k1 where 1: "activity_one detect grid now p (s, l, k) = (s1, l1, k1)" by (metis prod_cases3)
    with one [of s p l k] have "ext {} s s1" by simp
    with Cons.IH [of s1 l1 k1] 1 ext_trans0 show ?case by simp
  qed simp
  then show ?thesis by (simp add: activity_tick_def)
qed

lemma ext_watchdog: "ext {} s (snd (watchdog_tick now (mon, s)))"
proof -
  have "ext {} s (s\<lparr>sv_suspectedWedged := b\<rparr>)" for b by (rule ext_other) simp_all
  then show ?thesis by (auto simp: watchdog_tick_def Let_def intro: ext_emit split: prod.splits)
qed

lemma ext_attach_return: "attach_return n s = Some s' \<Longrightarrow> ext {} s s'"
proof -
  assume a: "attach_return n s = Some s'"
  obtain k r ac where n: "sv_attaches s ! n = (k, r, ac)" by (metis prod_cases3)
  then obtain y where y: "Detach ac (sess s r) = Some y" using a by (auto simp: attach_return_def attach_end_def)
  let ?u = "put_session r y s"
  have "ext {} s ?u" using ext_put_session [OF lv_Detach [OF y]] .
  moreover have "ext {} ?u (?u\<lparr>sv_attaches := as\<rparr>)" for as by (rule ext_other) simp_all
  ultimately have "ext {} s (?u\<lparr>sv_attaches := as\<rparr>)" for as using ext_trans0 by blast
  then show ?thesis
    using a n y ext_trans0 [OF ext_trans0 [OF _ ext_conn(5)] ext_handlers(5)]
    by (auto simp: attach_return_def attach_end_def)
qed

subsection \<open>Kills, watchers, exit\<close>

lemma inv_kill_timeout:
  assumes "sv_inv s" "i < length (sv_kills s)"
  shows "sv_inv (kill_timeout i s)"
proof -
  obtain r g late where i: "sv_kills s ! i = (r, g, late)" by (metis prod_cases3)
  show ?thesis
  proof (cases late)
    case True
    with assms i show ?thesis by (simp add: kill_timeout_def)
  next
    case False
    let ?b = "s\<lparr>sv_reapFailures := sv_reapFailures s + 1, sv_kills := (sv_kills s)[i := (r, g, True)]\<rparr>"
    have split: "sv_kills s = take i (sv_kills s) @ (r, g, False) # drop (Suc i) (sv_kills s)"
      using id_take_nth_drop [OF assms(2)] i False by simp
    have k': "(sv_kills s)[i := (r, g, True)] = take i (sv_kills s) @ (r, g, True) # drop (Suc i) (sv_kills s)"
      using assms(2) by (simp add: upd_conv_take_nth_drop)
    have "fst ` set (sv_kills ?b) = fst ` set (sv_kills s)"
      by (subst split) (simp add: k')
    moreover have "length (filter (\<lambda>(r, g, late). late) (sv_kills ?b)) = Suc (length (filter (\<lambda>(r, g, late). late) (sv_kills s)))"
      by (subst (2) split) (simp add: k')
    moreover have "length (sv_kills ?b) = length (sv_kills s)" by simp
    ultimately have g: "gauges_ok ?b" and k: "fst ` set (sv_kills ?b) = fst ` set (sv_kills s)"
      using assms(1) by (simp_all add: sv_inv_def gauges_ok_def)
    have "sv_inv ?b"
    proof (rule inv_base [OF assms(1), of ?b "{}"])
      show "q \<in> {} \<or> torn s q \<or> q \<in> snd ` set (sv_reg ?b) \<or> q \<in> fst ` set (sv_kills ?b)"
        if "q \<in> snd ` set (sv_reg s) \<or> q \<in> fst ` set (sv_kills s)" for q
        using that unfolding k by simp
      show "mwf (sv_reg ?b)" using assms(1) by (simp add: sv_inv_def reg_ok_def sreg.one_per_ticket_def)
    qed (simp_all add: g)
    with i False show ?thesis by (simp add: kill_timeout_def)
  qed
qed

lemma inv_kill_done:
  assumes "sv_inv s" "i < length (sv_kills s)"
  shows "sv_inv (kill_done i s)"
proof -
  obtain r g late where i: "sv_kills s ! i = (r, g, late)" by (metis prod_cases3)
  define K where "K = take i (sv_kills s) @ drop (Suc i) (sv_kills s)"
  have split: "sv_kills s = take i (sv_kills s) @ (r, g, late) # drop (Suc i) (sv_kills s)"
    using id_take_nth_drop [OF assms(2)] i by simp
  have k: "fst ` set (sv_kills s) = insert r (fst ` set K)" by (subst split) (simp add: K_def)
  have n: "length (sv_kills s) = Suc (length K)" by (subst split) (simp add: K_def)
  have l: "length (filter (\<lambda>(r, g, late). late) (sv_kills s)) =
      (if late then 1 else 0) + length (filter (\<lambda>(r, g, late). late) K)" by (subst split) (simp add: K_def)
  let ?b = "s\<lparr>sv_kills := K, sv_reapFailures := sv_reapFailures s - (if late then 1 else 0), sv_inflightKills := sv_inflightKills s - 1\<rparr>"
  show ?thesis
  proof (rule inv_base [OF assms(1), of ?b "{r}"])
    show "q \<in> {r} \<or> torn s q \<or> q \<in> snd ` set (sv_reg ?b) \<or> q \<in> fst ` set (sv_kills ?b)"
      if "q \<in> snd ` set (sv_reg s) \<or> q \<in> fst ` set (sv_kills s)" for q
      using that unfolding k by simp blast
    show "gauges_ok ?b"
      using assms(1) n l by (simp add: sv_inv_def gauges_ok_def)
    have "kill_done i s = (kill_session r g s)\<lparr>sv_kills := K, sv_reapFailures := sv_reapFailures ?b, sv_inflightKills := sv_inflightKills ?b\<rparr>"
      by (simp add: kill_done_def i Let_def K_def)
    also have "\<dots> = kill_session r g ?b"
      by (simp add: kill_session_def put_session_def split: prod.splits)
    finally show "ext {r} ?b (kill_done i s)" by (simp add: ext_kill_session)
    show "mwf (sv_reg ?b)" using assms(1) by (simp add: sv_inv_def reg_ok_def sreg.one_per_ticket_def)
  qed simp_all
qed

lemma inv_watch_finish:
  assumes "sv_inv s" "watch_finish i s = Some s'"
  shows "sv_inv s'"
proof -
  obtain r ch where i: "sv_watchers s ! i = (r, ch)" by force
  let ?b = "s\<lparr>sv_reg := fst (reg_deleteIf (s_id (sess s r)) r (sv_reg s)),
              sv_watchers := take i (sv_watchers s) @ drop (Suc i) (sv_watchers s)\<rparr>"
  let ?s3 = "kill_session r 0 (emitEvent (exited_event (sess ?b r)) ?b)"
  obtain p where p: "cancel ch (s_pane (sess ?s3 r)) = Some p" "s' = put_session r ((sess ?s3 r)\<lparr>s_pane := p\<rparr>) ?s3"
    using assms(2) i by (auto simp: watch_finish_def Let_def)
  have m: "mwf (sv_reg s)" using assms(1) by (simp add: sv_inv_def reg_ok_def sreg.one_per_ticket_def)
  show ?thesis
  proof (rule inv_base [OF assms(1), of ?b "{r}"])
    show "set (sv_reg ?b) \<subseteq> set (sv_reg s)" "mwf (sv_reg ?b)" using m by (auto simp: reg_deleteIf_def set_mdel)
    show "q \<in> {r} \<or> torn s q \<or> q \<in> snd ` set (sv_reg ?b) \<or> q \<in> fst ` set (sv_kills ?b)"
      if "q \<in> snd ` set (sv_reg s) \<or> q \<in> fst ` set (sv_kills s)" for q
      using that m by (force simp: reg_deleteIf_def set_mdel in_set_mget)
    show "gauges_ok ?b" using assms(1) by (simp add: sv_inv_def gauges_ok_def)
    have "ext {} ?s3 s'" unfolding p(2) by (rule ext_put_session, rule lv_pane, rule life_cancel [OF p(1)])
    moreover have "ext {r} ?b ?s3" using ext_trans [OF ext_conn(5) ext_kill_session] by simp
    ultimately show "ext {r} ?b s'" using ext_trans0 by blast
  qed simp_all
qed

lemma inv_watch_turn:
  assumes "sv_inv s" "watch_turn i s = Some (Some s')"
  shows "sv_inv s'"
proof -
  obtain r ch where i: "sv_watchers s ! i = (r, ch)" by force
  obtain ev p where e: "recv ch (s_pane (sess s r)) = Some (ev, p)"
    using assms(2) i by (auto simp: watch_turn_def split: option.splits)
  let ?u = "put_session r ((sess s r)\<lparr>s_pane := p\<rparr>) s"
  have u: "sv_inv ?u"
    using assms(1) by (rule inv_ext) (rule ext_put_session, rule lv_pane, rule life_recv [OF e])
  have "s' = ?u \<or> watch_finish i ?u = Some s'"
    using assms(2) i e by (auto simp: watch_turn_def Let_def split: option.splits event.splits)
  with u inv_watch_finish show ?thesis by blast
qed

lemma serve_exit_eq:
  "serve_exit e s = (fold (\<lambda>x. kill_session x shutdownGraceSeconds) (map snd (sv_reg s)) ((closeClientConns s)\<lparr>sv_reg := []\<rparr>))
     \<lparr>sv_serve := e, sv_listening := False\<rparr>"
  by (simp add: serve_exit_def cleanup_def reg_drain_def closeClientConns_def)

lemma inv_serve_exit:
  assumes "sv_inv s" "e = Exited \<longrightarrow> sv_shutdown s"
  shows "sv_inv (serve_exit e s)"
proof -
  let ?c = "closeClientConns s"
  have "ext {} s ?c" by (rule ext_other) (simp_all add: closeClientConns_def)
  then have c: "sv_inv ?c" using assms(1) inv_ext by blast
  let ?k = "fold (\<lambda>x. kill_session x shutdownGraceSeconds) (map snd (sv_reg ?c)) (?c\<lparr>sv_reg := []\<rparr>)"
  have k: "sv_inv ?k" by (rule inv_kill_all [OF c ext_refl])
  have "ext (set (map snd (sv_reg ?c))) (?c\<lparr>sv_reg := []\<rparr>) ?k" by (rule ext_kill_all)
  then have "sv_reg ?k = []" "sv_shutdown s \<longrightarrow> sv_shutdown ?k" by (simp_all add: ext_def closeClientConns_def)
  moreover have "serve_exit e s = ?k\<lparr>sv_serve := e, sv_listening := False\<rparr>"
    by (simp add: serve_exit_eq closeClientConns_def)
  ultimately show ?thesis
    using k assms(2)
    by (simp add: sv_inv_def reg_ok_def alive_ok_def sig_ok_def torn_def held_def spawn_ok_def gauges_ok_def exit_ok_def
        cong: spawn_pc.case_cong)
qed

end
