(* ===== verification/DaemonSafety.thy ===== *)
theory DaemonSafety
  imports ServerRun
begin

text \<open>
  The spawn turns preserve the invariant of theory ServerRun, so that every reachable state of the daemon
  satisfies it; the safety and liveness properties of the daemon, and the exact behaviour of its handlers.
\<close>

subsection \<open>Spawns\<close>

definition set_pc :: "nat \<Rightarrow> spawn_pc \<Rightarrow> Server \<Rightarrow> Server" where
  "set_pc i pc s = s\<lparr>sv_spawns := (sv_spawns s)[i := (sv_spawns s ! i)\<lparr>g_pc := pc\<rparr>]\<rparr>"

lemma set_pc_keep:
  assumes "g \<in> set (sv_spawns s)" shows "g \<in> set (sv_spawns (set_pc i pc s)) \<or> g = sv_spawns s ! i"
proof -
  from assms obtain j where j: "j < length (sv_spawns s)" "g = sv_spawns s ! j" by (auto simp: in_set_conv_nth)
  then have "g \<in> set (sv_spawns (set_pc i pc s))" if "j \<noteq> i"
    using that by (auto simp: set_pc_def in_set_conv_nth intro!: exI [of _ j])
  with j show ?thesis by blast
qed

lemma set_pc_pcs:
  "p \<in> g_pc ` set (sv_spawns s) \<Longrightarrow> p \<noteq> g_pc (sv_spawns s ! i) \<Longrightarrow> p \<in> g_pc ` set (sv_spawns (set_pc i pc s))"
  using set_pc_keep [of _ s i pc] by blast

lemma set_pc_new: "i < length (sv_spawns s) \<Longrightarrow> pc \<in> g_pc ` set (sv_spawns (set_pc i pc s))"
  using set_update_memI [of i "sv_spawns s" "(sv_spawns s ! i)\<lparr>g_pc := pc\<rparr>"] by (force simp: set_pc_def)

lemma set_pc_set:
  "g \<in> set (sv_spawns (set_pc i pc s)) \<Longrightarrow> g = (sv_spawns s ! i)\<lparr>g_pc := pc\<rparr> \<or> g \<in> set (sv_spawns s)"
  using set_update_subset_insert [of "sv_spawns s" i] by (auto simp: set_pc_def)

lemma set_pc_sel [simp]:
  "sv_sessions (set_pc i pc s) = sv_sessions s" "sv_reg (set_pc i pc s) = sv_reg s" "sv_kills (set_pc i pc s) = sv_kills s"
  "sv_signals (set_pc i pc s) = sv_signals s" "sv_serve (set_pc i pc s) = sv_serve s" "sv_shutdown (set_pc i pc s) = sv_shutdown s"
  by (simp_all add: set_pc_def)

text \<open>Spawn \<open>i\<close> may give up what it answers for.\<close>

definition may_leave :: "nat \<Rightarrow> Server \<Rightarrow> bool" where
  "may_leave i s \<longleftrightarrow>
     (case g_pc (sv_spawns s ! i) of
        AtStore r \<Rightarrow> torn s r
      | AtRecheck r \<Rightarrow> \<not> sv_shutdown s \<or> r \<notin> snd ` set (sv_reg s)
      | _ \<Rightarrow> True)"

lemma spawn_ok_other:
  "sv_sessions s' = sv_sessions s \<Longrightarrow> spawn_ok s' g = spawn_ok s g"
  by (simp add: spawn_ok_def cong: spawn_pc.case_cong)

lemma inv_spawns:
  assumes inv: "sv_inv s" and leave: "may_leave i s" and i: "i < length (sv_spawns s)"
    and gs: "\<And>g. g \<in> set (sv_spawns s) \<Longrightarrow> g \<in> set gs \<or> g = sv_spawns s ! i" and ok: "\<forall>g \<in> set gs. spawn_ok s g"
  shows "sv_inv (s\<lparr>sv_spawns := gs\<rparr>)"
proof -
  let ?s = "s\<lparr>sv_spawns := gs\<rparr>"
  have pcs: "pc \<in> g_pc ` set gs \<or> pc = g_pc (sv_spawns s ! i)" if "pc \<in> g_pc ` set (sv_spawns s)" for pc
    using that gs by blast
  have h: "held ?s r" if "held s r" for r
    using that pcs leave by (auto simp: held_def torn_def may_leave_def split: spawn_pc.splits)
  have e: "exit_ok ?s"
    unfolding exit_ok_def
  proof (intro impI conjI ballI)
    assume "sv_serve ?s = Exited"
    then have x: "sv_shutdown s" "\<forall>r \<in> snd ` set (sv_reg s). AtRecheck r \<in> g_pc ` set (sv_spawns s)"
      using inv by (simp_all add: sv_inv_def exit_ok_def)
    then show "sv_shutdown ?s" by simp
    fix r assume "r \<in> snd ` set (sv_reg ?s)"
    then have r: "r \<in> snd ` set (sv_reg s)" by simp
    with x(2) have "AtRecheck r \<in> g_pc ` set gs \<or> AtRecheck r = g_pc (sv_spawns s ! i)" using pcs by blast
    moreover have "AtRecheck r \<noteq> g_pc (sv_spawns s ! i)" using leave x(1) r by (auto simp: may_leave_def split: spawn_pc.splits)
    ultimately show "AtRecheck r \<in> g_pc ` set (sv_spawns ?s)" by simp
  qed
  have l: "\<forall>r < length (sv_sessions s). held ?s r" using inv h by (simp add: sv_inv_def)
  have o: "\<forall>g \<in> set gs. spawn_ok ?s g" using ok by (simp add: spawn_ok_other [of ?s s])
  show ?thesis
    using inv l e o by (simp add: sv_inv_def reg_ok_def alive_ok_def sig_ok_def torn_def gauges_ok_def)
qed

lemma inv_set_pc:
  assumes "sv_inv s" "may_leave i s" "i < length (sv_spawns s)" "spawn_ok s ((sv_spawns s ! i)\<lparr>g_pc := pc\<rparr>)"
  shows "sv_inv (set_pc i pc s)"
proof -
  have "sv_inv (s\<lparr>sv_spawns := sv_spawns (set_pc i pc s)\<rparr>)"
  proof (rule inv_spawns [OF assms(1-3) set_pc_keep])
    show "\<forall>g \<in> set (sv_spawns (set_pc i pc s)). spawn_ok s g"
    proof
      fix g assume "g \<in> set (sv_spawns (set_pc i pc s))"
      from set_pc_set [OF this] show "spawn_ok s g" using assms(1,4) by (auto simp: sv_inv_def)
    qed
  qed
  then show ?thesis by (simp add: set_pc_def)
qed

lemma inv_spawn_end:
  assumes "sv_inv s" "i < length (sv_spawns s)" "g_pc (sv_spawns s ! i) = Returned res"
  shows "sv_inv (spawn_end i res timely s)"
proof -
  let ?gs = "take i (sv_spawns s) @ drop (Suc i) (sv_spawns s)"
  have split: "sv_spawns s = take i (sv_spawns s) @ sv_spawns s ! i # drop (Suc i) (sv_spawns s)"
    using assms(2) by (simp add: id_take_nth_drop [symmetric])
  have set: "set (sv_spawns s) = insert (sv_spawns s ! i) (set ?gs)" by (subst (1) split) auto
  have "sv_inv (s\<lparr>sv_spawns := ?gs\<rparr>)"
  proof (rule inv_spawns [OF assms(1) _ assms(2)])
    show "may_leave i s" using assms(3) by (simp add: may_leave_def)
    show "g \<in> set ?gs \<or> g = sv_spawns s ! i" if "g \<in> set (sv_spawns s)" for g using that set by blast
    show "\<forall>g \<in> set ?gs. spawn_ok s g" using assms(1) set by (auto simp: sv_inv_def)
  qed
  moreover have "ext {} (s\<lparr>sv_spawns := ?gs\<rparr>) (s\<lparr>sv_shortInflight := sv_shortInflight s - 1, sv_spawns := ?gs\<rparr>)"
    by (rule ext_other) simp_all
  ultimately show ?thesis
    unfolding spawn_end_def using inv_ext [OF _ ext_trans0 [OF ext_trans0 [OF _ ext_conn(3)] ext_handlers(5)]] by blast
qed

lemma inv_spawn_start: "sv_inv s \<Longrightarrow> sv_inv (spawn_start k q s)"
proof -
  assume inv: "sv_inv s"
  let ?g = "\<lparr>g_conn = k, g_req = q, g_pc = AtGate\<rparr>"
  have e: "ext {} (s\<lparr>sv_spawns := sv_spawns s @ [?g]\<rparr>) (spawn_start k q s)"
    unfolding spawn_start_def by (rule ext_other) simp_all
  have "held (s\<lparr>sv_spawns := sv_spawns s @ [?g]\<rparr>) r" if "held s r" for r
    using that by (auto simp: held_def torn_def)
  moreover have "exit_ok (s\<lparr>sv_spawns := sv_spawns s @ [?g]\<rparr>)" using inv by (auto simp: sv_inv_def exit_ok_def)
  moreover have "spawn_ok (s\<lparr>sv_spawns := sv_spawns s @ [?g]\<rparr>) g = spawn_ok s g" for g by (rule spawn_ok_other) simp
  moreover have "spawn_ok s ?g" by (simp add: spawn_ok_def)
  ultimately have "sv_inv (s\<lparr>sv_spawns := sv_spawns s @ [?g]\<rparr>)"
    using inv by (simp add: sv_inv_def reg_ok_def alive_ok_def sig_ok_def torn_def gauges_ok_def)
  with e show ?thesis by (rule inv_ext [rotated])
qed

text \<open>The fork: a new session, held by its spawn.\<close>

lemma NewSession_start:
  assumes "NewSession rand fork now q = Some (Inr x)"
  shows "rand = Inr (s_id x)" "s_ticketID x = sp_TicketID q" "p_running (s_pane x)" "\<not> p_tornDown (s_pane x)"
    "\<exists>pgid. fork = Inr (p_pid (s_pane x), pgid)"
proof -
  obtain sid where r: "rand = Inr sid" using assms by (cases rand) (auto simp: NewSession_def)
  obtain p5 where p: "StartHeadless fork (new_pane q) = Some (p5, None)" "x = \<lparr>s_id = sid, s_ticketID = sp_TicketID q,
      s_sessionName = sp_SessionName q, s_workdir = sp_Workdir q, s_pane = p5, s_startedAt = now,
      s_agentSessionUUID = sp_AgentSessionUUID q, s_agentType = sp_AgentType q, s_attached = None, s_acs = [],
      s_viewers = [], s_expectedCompletion = False\<rparr>"
    using assms r by (auto simp: NewSession_def split: option.splits prod.splits)
  with r show "rand = Inr (s_id x)" "s_ticketID x = sp_TicketID q" by simp_all
  have n: "\<not> p_tornDown (new_pane q)" by (simp add: new_pane_def New_def Let_def)
  obtain pid pgid where f: "fork = Inr (pid, pgid)" using p(1) by (cases fork) (auto simp: StartHeadless_def)
  with p(1) n have "p_running p5 \<and> \<not> p_tornDown p5 \<and> p_pid p5 = pid"
    by (auto simp: StartHeadless_def Let_def dest!: life_startReadLoop simp: life_def)
  with p(2) f show "p_running (s_pane x)" "\<not> p_tornDown (s_pane x)" "\<exists>pgid. fork = Inr (p_pid (s_pane x), pgid)" by simp_all
qed

lemma inv_spawn_new:
  assumes inv: "sv_inv s" and i: "i < length (sv_spawns s)" and pc: "g_pc (sv_spawns s ! i) = AtNew" and env: "env_ok E s"
    and x: "NewSession (e_rand E) (e_fork E) (e_time E) (g_req (sv_spawns s ! i)) = Some (Inr x)"
  shows "sv_inv (set_pc i (AtStore (length (sv_sessions s))) (s\<lparr>sv_sessions := sv_sessions s @ [x]\<rparr>))"
proof -
  let ?n = "length (sv_sessions s)" and ?g = "sv_spawns s ! i"
  let ?t = "set_pc i (AtStore ?n) (s\<lparr>sv_sessions := sv_sessions s @ [x]\<rparr>)"
  note x = NewSession_start [OF x]
  have old: "sess ?t r = sess s r" if "r < ?n" for r using that by (simp add: set_pc_def nth_append)
  have new: "sess ?t ?n = x" by (simp add: set_pc_def)
  have pid: "0 < p_pid (s_pane x)" using env x(5) by (auto simp: env_ok_def)
  have fresh: "s_id x \<notin> s_id ` set (sv_sessions s)" using env x(1) by (auto simp: env_ok_def list_all_iff)
  have pcs: "p \<in> g_pc ` set (sv_spawns ?t)" if "p \<in> g_pc ` set (sv_spawns s)" "p \<noteq> AtNew" for p
    using that set_pc_pcs [of p "s\<lparr>sv_sessions := sv_sessions s @ [x]\<rparr>" i "AtStore ?n"] pc by simp
  have store: "AtStore ?n \<in> g_pc ` set (sv_spawns ?t)"
    using set_pc_new [of i "s\<lparr>sv_sessions := sv_sessions s @ [x]\<rparr>"] i by simp
  have same: "sv_reg ?t = sv_reg s" "sv_kills ?t = sv_kills s" "sv_signals ?t = sv_signals s" "sv_serve ?t = sv_serve s"
    "sv_shutdown ?t = sv_shutdown s" "length (sv_sessions ?t) = Suc ?n" by (simp_all add: set_pc_def)
  have "reg_ok ?t"
  proof -
    have r: "r < ?n \<and> s_id (sess s r) = k \<and> tid s r \<noteq> []" if "(k, r) \<in> set (sv_reg s)" for k r
      using that inv by (auto simp: sv_inv_def reg_ok_def)
    have "sreg.one_per_ticket (tid ?t) (sv_reg s)"
    proof (rule one_per_ticket_cong [of "tid s"])
      show "sreg.one_per_ticket (tid s) (sv_reg s)" using inv by (simp add: sv_inv_def reg_ok_def)
      show "tid ?t q = tid s q" if "(k, q) \<in> set (sv_reg s)" for k q using old [of q] r [OF that] by simp
    qed
    moreover have "r < length (sv_sessions ?t) \<and> s_id (sess ?t r) = k \<and> tid ?t r \<noteq> []" if "(k, r) \<in> set (sv_reg ?t)" for k r
      using r [of k r] that old [of r] same by simp
    ultimately show ?thesis using same by (auto simp: reg_ok_def)
  qed
  moreover have "distinct (map s_id (sv_sessions ?t))" using inv fresh by (auto simp: sv_inv_def set_pc_def)
  moreover have "alive_ok ?t"
    using inv x pid old new same(6) by (auto simp: sv_inv_def alive_ok_def torn_def less_Suc_eq)
  moreover have "sig_ok ?t"
    using inv x(4) old new same by (auto simp: sv_inv_def sig_ok_def torn_def less_Suc_eq)
  moreover have "held ?t r" if "r < length (sv_sessions ?t)" for r
  proof (cases "r = ?n")
    case True
    with store show ?thesis by (simp add: held_def)
  next
    case False
    with that same(6) have r: "r < ?n" by simp
    with inv have "held s r" by (simp add: sv_inv_def)
    with pcs old [OF r] same show ?thesis by (auto simp: held_def torn_def)
  qed
  moreover have "spawn_ok ?t g" if "g \<in> set (sv_spawns ?t)" for g
  proof -
    have "g = ?g\<lparr>g_pc := AtStore ?n\<rparr> \<or> g \<in> set (sv_spawns s)"
      using set_pc_set [OF that] by simp
    moreover have "spawn_ok ?t g" if "g \<in> set (sv_spawns s)"
    proof -
      have "spawn_ok s g" using that inv by (simp add: sv_inv_def)
      then show ?thesis using old same(6) by (cases "g_pc g") (auto simp: spawn_ok_def)
    qed
    moreover have "spawn_ok ?t (?g\<lparr>g_pc := AtStore ?n\<rparr>)"
    proof -
      have "spawn_ok s ?g" using inv i by (simp add: sv_inv_def)
      then have "sp_TicketID (g_req ?g) \<noteq> []" using pc by (simp add: spawn_ok_def)
      then show ?thesis using new x(2) same(6) by (simp add: spawn_ok_def)
    qed
    ultimately show ?thesis by blast
  qed
  moreover have "gauges_ok ?t" using inv by (simp add: sv_inv_def gauges_ok_def set_pc_def)
  moreover have "exit_ok ?t" using inv pcs same by (auto simp: sv_inv_def exit_ok_def)
  ultimately show ?thesis by (simp add: sv_inv_def)
qed

text \<open>The conditional store.\<close>

lemma inv_spawn_stored:
  assumes inv: "sv_inv s" and i: "i < length (sv_spawns s)" and pc: "g_pc (sv_spawns s ! i) = AtStore r"
    and st: "reg_storeIfNoTicket (tid s) (sp_TicketID (g_req (sv_spawns s ! i))) (s_id (sess s r)) r (sv_reg s) = (m, w, True)"
  shows "sv_inv (set_pc i (AtRecheck r) (s\<lparr>sv_reg := m\<rparr>))"
proof -
  let ?g = "sv_spawns s ! i"
  let ?t = "set_pc i (AtRecheck r) (s\<lparr>sv_reg := m\<rparr>)"
  have "spawn_ok s ?g" using inv i by (simp add: sv_inv_def)
  then have r: "r < length (sv_sessions s)" "tid s r = sp_TicketID (g_req ?g)" "tid s r \<noteq> []"
    using pc by (auto simp: spawn_ok_def)
  have m: "m = mput (s_id (sess s r)) r (sv_reg s)"
    using st by (simp add: reg_storeIfNoTicket_def split: option.splits if_splits)
  have wf: "mwf (sv_reg s)" using inv by (simp add: sv_inv_def reg_ok_def sreg.one_per_ticket_def)
  have one: "sreg.one_per_ticket (tid s) m"
    using sreg.store_one_per_ticket [of "tid s" "sv_reg s" r "s_id (sess s r)"] inv st r(2,3)
    by (simp add: sv_inv_def reg_ok_def named_def)
  have mem: "(k, q) \<in> set m \<longleftrightarrow> (if k = s_id (sess s r) then q = r else (k, q) \<in> set (sv_reg s))" for k q
    using wf by (auto simp: m in_set_mget)
  have uniq: "q = r" if "q < length (sv_sessions s)" "s_id (sess s q) = s_id (sess s r)" for q
    using that r(1) inv by (auto simp: sv_inv_def distinct_conv_nth)
  have keep: "q \<in> snd ` set m" if q: "q \<in> snd ` set (sv_reg s)" for q
  proof -
    from q obtain k where k: "(k, q) \<in> set (sv_reg s)" by auto
    then have "k = s_id (sess s r) \<Longrightarrow> q = r" using inv uniq by (auto simp: sv_inv_def reg_ok_def)
    with k have "(k, q) \<in> set m" by (auto simp: mem)
    then show ?thesis by force
  qed
  have rin: "r \<in> snd ` set m" using mem [of "s_id (sess s r)" r] by force
  have pcs: "p \<in> g_pc ` set (sv_spawns ?t)" if "p \<in> g_pc ` set (sv_spawns s)" "p \<noteq> AtStore r" for p
    using that set_pc_pcs [of p "s\<lparr>sv_reg := m\<rparr>" i "AtRecheck r"] pc by simp
  have re: "AtRecheck r \<in> g_pc ` set (sv_spawns ?t)"
    using set_pc_new [of i "s\<lparr>sv_reg := m\<rparr>"] i by simp
  have same: "sv_reg ?t = m" "sv_kills ?t = sv_kills s" "sv_sessions ?t = sv_sessions s" "sv_serve ?t = sv_serve s"
    "sv_shutdown ?t = sv_shutdown s" by (simp_all add: set_pc_def)
  have "reg_ok ?t"
    using one mem inv r by (auto simp: same reg_ok_def sv_inv_def split: if_splits)
  moreover have "held ?t q" if "q < length (sv_sessions s)" for q
  proof -
    have "held s q" using that inv by (simp add: sv_inv_def)
    then show ?thesis using keep rin pcs [of "AtStore q"] by (auto simp: held_def torn_def same)
  qed
  moreover have "spawn_ok ?t g" if "g \<in> set (sv_spawns ?t)" for g
  proof -
    have "g = ?g\<lparr>g_pc := AtRecheck r\<rparr> \<or> g \<in> set (sv_spawns s)"
      using set_pc_set [OF that] by simp
    then have "spawn_ok s g" using inv r(1) by (auto simp: sv_inv_def spawn_ok_def)
    then show ?thesis by (simp add: spawn_ok_other [of ?t s] same)
  qed
  moreover have "exit_ok ?t"
    unfolding exit_ok_def
  proof (intro impI conjI ballI)
    assume e: "sv_serve ?t = Exited"
    then show "sv_shutdown ?t" using inv by (simp add: same sv_inv_def exit_ok_def)
    fix q assume "q \<in> snd ` set (sv_reg ?t)"
    then obtain k where "(k, q) \<in> set m" by (auto simp: same)
    then have "q = r \<or> q \<in> snd ` set (sv_reg s)" by (force simp: mem split: if_splits)
    moreover have "AtRecheck q \<in> g_pc ` set (sv_spawns s)" if "q \<in> snd ` set (sv_reg s)"
      using that e inv unfolding same sv_inv_def exit_ok_def by blast
    ultimately show "AtRecheck q \<in> g_pc ` set (sv_spawns ?t)" using re pcs [of "AtRecheck q"] by blast
  qed
  moreover have "alive_ok ?t" "sig_ok ?t" "gauges_ok ?t"
    using inv by (simp_all add: sv_inv_def alive_ok_def sig_ok_def torn_def gauges_ok_def set_pc_def)
  ultimately show ?thesis using inv by (simp add: sv_inv_def same)
qed

lemma deleteIf_registered:
  assumes "sv_inv s" shows "r \<notin> snd ` set (fst (reg_deleteIf (s_id (sess s r)) r (sv_reg s)))"
proof
  have m: "mwf (sv_reg s)" using assms by (simp add: sv_inv_def reg_ok_def sreg.one_per_ticket_def)
  assume "r \<in> snd ` set (fst (reg_deleteIf (s_id (sess s r)) r (sv_reg s)))"
  then obtain k where k: "(k, r) \<in> set (fst (reg_deleteIf (s_id (sess s r)) r (sv_reg s)))" by auto
  then have "(k, r) \<in> set (sv_reg s)" using m by (auto simp: reg_deleteIf_def set_mdel split: if_splits)
  then have "k = s_id (sess s r)" "mget (sv_reg s) k = Some r"
    using assms m by (auto simp: sv_inv_def reg_ok_def in_set_mget)
  with k m show False by (simp add: reg_deleteIf_def set_mdel)
qed

lemma inv_delete_kill:
  assumes "sv_inv s"
  shows "sv_inv (kill_session r 0 (s\<lparr>sv_reg := fst (reg_deleteIf (s_id (sess s r)) r (sv_reg s))\<rparr>))"
proof -
  let ?b = "s\<lparr>sv_reg := fst (reg_deleteIf (s_id (sess s r)) r (sv_reg s))\<rparr>"
  have m: "mwf (sv_reg s)" using assms(1) by (simp add: sv_inv_def reg_ok_def sreg.one_per_ticket_def)
  show ?thesis
  proof (rule inv_base [OF assms(1), of ?b "{r}"])
    show "set (sv_reg ?b) \<subseteq> set (sv_reg s)" "mwf (sv_reg ?b)" using m by (auto simp: reg_deleteIf_def set_mdel)
    show "q \<in> {r} \<or> torn s q \<or> q \<in> snd ` set (sv_reg ?b) \<or> q \<in> fst ` set (sv_kills ?b)"
      if "q \<in> snd ` set (sv_reg s) \<or> q \<in> fst ` set (sv_kills s)" for q
      using that m by (force simp: reg_deleteIf_def set_mdel in_set_mget)
    show "gauges_ok ?b" using assms(1) by (simp add: sv_inv_def gauges_ok_def)
    show "ext {r} ?b (kill_session r 0 ?b)" by (rule ext_kill_session)
  qed simp_all
qed

lemma ext_watchSessionExit: "watchSessionExit r s = Some s' \<Longrightarrow> ext {} s s'"
proof -
  assume a: "watchSessionExit r s = Some s'"
  then obtain p ch where p: "Subscribe (s_pane (sess s r)) = Some (p, ch)"
    and s': "s' = (put_session r ((sess s r)\<lparr>s_pane := p\<rparr>) s)\<lparr>sv_watchers := sv_watchers s @ [(r, ch)]\<rparr>"
    by (auto simp: watchSessionExit_def)
  let ?u = "put_session r ((sess s r)\<lparr>s_pane := p\<rparr>) s"
  have "ext {} s ?u" by (rule ext_put_session, rule lv_pane, rule life_Subscribe [OF p])
  moreover have "ext {} ?u s'" unfolding s' by (rule ext_other) simp_all
  ultimately show ?thesis by (rule ext_trans0)
qed

lemma kill_session_sel [simp]:
  "sv_spawns (kill_session r g s) = sv_spawns s" "sv_reg (kill_session r g s) = sv_reg s"
  "sv_shutdown (kill_session r g s) = sv_shutdown s" "length (sv_sessions (kill_session r g s)) = length (sv_sessions s)"
  by (simp_all add: kill_session_def put_session_def split: prod.splits)

lemma kill_torn: "sv_inv s \<Longrightarrow> r < length (sv_sessions s) \<Longrightarrow> torn (kill_session r g s) r"
  using ext_kill_session [of r s g] by (simp add: ext_def sv_inv_def)

lemma inv_spawn_turn:
  assumes inv: "sv_inv s" and i: "i < length (sv_spawns s)" and env: "g_pc (sv_spawns s ! i) = AtNew \<Longrightarrow> env_ok E s"
    and t: "spawn_turn E (g_req (sv_spawns s ! i)) (g_pc (sv_spawns s ! i)) s = Some (s', pc)"
  shows "sv_inv (set_pc i pc s') \<and> sv_spawns s' = sv_spawns s"
proof -
  let ?g = "sv_spawns s ! i"
  have ok: "spawn_ok s ?g" using inv i by (simp add: sv_inv_def)
  have plain: "sv_inv (set_pc i pc s)" if "may_leave i s" "spawn_ok s (?g\<lparr>g_pc := pc\<rparr>)" for pc
    using inv_set_pc [OF inv _ i] that by blast
  show ?thesis
  proof (cases "g_pc ?g")
    case AtGate
    with t have s: "s' = s" "pc = spawn_gate (g_req ?g) s" by (auto simp: spawn_turn_def)
    have "may_leave i s" "spawn_ok s (?g\<lparr>g_pc := pc\<rparr>)"
      using s AtGate by (simp_all add: may_leave_def spawn_gate_def spawn_ok_def)
    with s(1) show ?thesis using plain by simp
  next
    case AtFast
    with t have s: "s' = s" "pc = spawn_fast (g_req ?g) s" by (auto simp: spawn_turn_def)
    have "may_leave i s" "spawn_ok s (?g\<lparr>g_pc := pc\<rparr>)"
      using s AtFast ok by (auto simp: may_leave_def spawn_fast_def spawn_ok_def split: option.splits)
    with s(1) show ?thesis using plain by simp
  next
    case AtNew
    with t obtain y where y: "NewSession (e_rand E) (e_fork E) (e_time E) (g_req ?g) = Some y"
      by (auto simp: spawn_turn_def spawn_new_def split: option.splits)
    show ?thesis
    proof (cases y)
      case (Inl e)
      with t y AtNew have s: "s' = s" "pc = Returned (Inl e)" by (simp_all add: spawn_turn_def spawn_new_def)
      have "may_leave i s" "spawn_ok s (?g\<lparr>g_pc := pc\<rparr>)" using s AtNew by (simp_all add: may_leave_def spawn_ok_def)
      with s(1) show ?thesis using plain by simp
    next
      case (Inr x)
      with t y AtNew have s: "s' = s\<lparr>sv_sessions := sv_sessions s @ [x]\<rparr>" "pc = AtStore (length (sv_sessions s))"
        by (simp_all add: spawn_turn_def spawn_new_def)
      show ?thesis using inv_spawn_new [OF inv i AtNew env [OF AtNew]] y Inr s by simp
    qed
  next
    case (AtStore r)
    then have r: "r < length (sv_sessions s)" using ok by (simp add: spawn_ok_def)
    obtain m w b where st: "reg_storeIfNoTicket (tid s) (sp_TicketID (g_req ?g)) (s_id (sess s r)) r (sv_reg s) = (m, w, b)"
      by (metis prod_cases3)
    show ?thesis
    proof (cases b)
      case True
      with t AtStore st have "s' = s\<lparr>sv_reg := m\<rparr>" "pc = AtRecheck r" by (simp_all add: spawn_turn_def spawn_store_def)
      with inv_spawn_stored [OF inv i AtStore] st True show ?thesis by simp
    next
      case False
      with t AtStore st have s: "s' = kill_session r 0 s" and "\<exists>res. pc = Returned res"
        by (auto simp: spawn_turn_def spawn_store_def)
      then obtain res where pc: "pc = Returned res" by blast
      have "sv_inv s'" unfolding s by (rule inv_ext [OF inv ext_kill_session])
      moreover have "may_leave i s'" using kill_torn [OF inv r] AtStore by (simp add: may_leave_def s)
      moreover have "spawn_ok s' ((sv_spawns s' ! i)\<lparr>g_pc := pc\<rparr>)" by (simp add: pc spawn_ok_def)
      ultimately show ?thesis using inv_set_pc i s by simp
    qed
  next
    case (AtRecheck r)
    show ?thesis
    proof (cases "sv_shutdown s")
      case True
      with t AtRecheck obtain res where s: "pc = Returned res"
        "s' = kill_session r 0 (s\<lparr>sv_reg := fst (reg_deleteIf (s_id (sess s r)) r (sv_reg s))\<rparr>)"
        by (auto simp: spawn_turn_def spawn_recheck_def)
      have "sv_inv s'" unfolding s(2) by (rule inv_delete_kill [OF inv])
      moreover have "may_leave i s'" using deleteIf_registered [OF inv, of r] AtRecheck by (simp add: may_leave_def s(2))
      moreover have "spawn_ok s' ((sv_spawns s' ! i)\<lparr>g_pc := pc\<rparr>)" by (simp add: s(1) spawn_ok_def)
      ultimately show ?thesis using inv_set_pc i s(2) by simp
    next
      case False
      with t AtRecheck have s: "s' = s" "pc = AtWatch r" by (simp_all add: spawn_turn_def spawn_recheck_def)
      have "may_leave i s" "spawn_ok s (?g\<lparr>g_pc := pc\<rparr>)"
        using s AtRecheck False by (simp_all add: may_leave_def spawn_ok_def)
      with s(1) show ?thesis using plain by simp
    qed
  next
    case (AtWatch r)
    with t obtain w: "watchSessionExit r s = Some s'" "pc = AtEmit r" by (auto simp: spawn_turn_def)
    then have e: "ext {} s s'" by (intro ext_watchSessionExit)
    then have sp: "sv_spawns s' = sv_spawns s" by (simp add: ext_def)
    have "may_leave i s'" "spawn_ok s' ((sv_spawns s' ! i)\<lparr>g_pc := pc\<rparr>)"
      using AtWatch w(2) sp by (simp_all add: may_leave_def spawn_ok_def)
    with inv_set_pc [OF inv_ext [OF inv e]] i sp show ?thesis by simp
  next
    case (AtEmit r)
    with t obtain res where w: "pc = Returned res" and e: "ext {} s s'"
      using ext_conn(5) by (auto simp: spawn_turn_def spawn_emit_def)
    then have sp: "sv_spawns s' = sv_spawns s" by (simp add: ext_def)
    have "may_leave i s'" "spawn_ok s' ((sv_spawns s' ! i)\<lparr>g_pc := pc\<rparr>)"
      using AtEmit w sp by (simp_all add: may_leave_def spawn_ok_def)
    with inv_set_pc [OF inv_ext [OF inv e]] i sp show ?thesis by simp
  next
    case (Returned res)
    with t have s: "s' = s" "pc = Returned res" by (simp_all add: spawn_turn_def)
    have "may_leave i s" "spawn_ok s (?g\<lparr>g_pc := pc\<rparr>)" using s Returned by (simp_all add: may_leave_def spawn_ok_def)
    with s(1) show ?thesis using plain by simp
  qed
qed

section \<open>Every reachable state\<close>

lemma inv_step: "sv_step s s' \<Longrightarrow> sv_inv s \<Longrightarrow> sv_inv s'"
proof (induction rule: sv_step.induct)
  case (st_accept s) then show ?case using inv_ext ext_accept by blast
next
  case (st_disconnect k s) then show ?case using inv_ext ext_disconnect by blast
next
  case (st_request req E k s s') then show ?case using inv_dispatch by blast
next
  case (st_spawn s k q) then show ?case by (rule inv_spawn_start)
next
  case (st_spawn_turn i s E s' pc)
  from inv_spawn_turn [OF st_spawn_turn(4,1-3)] have "sv_inv (set_pc i pc s')" "sv_spawns s' = sv_spawns s" by simp_all
  then show ?case by (simp add: set_pc_def)
next
  case (st_spawn_end i s res timely) then show ?case by (intro inv_spawn_end)
next
  case (st_kill_timeout i s) then show ?case by (intro inv_kill_timeout)
next
  case (st_kill_done i s) then show ?case by (intro inv_kill_done)
next
  case (st_watch i s s') then show ?case using inv_watch_turn by blast
next
  case (st_attach_end n s s') then show ?case using inv_ext ext_attach_return by blast
next
  case (st_session r s a L x) then show ?case using inv_ext ext_put_session lv_session_do by blast
next
  case (st_drain i s) then show ?case using inv_ext ext_drain by blast
next
  case (st_stop s)
  have "ext {} s (s\<lparr>sv_stops := sv_stops s - 1\<rparr>)" by (rule ext_other) simp_all
  with st_stop show ?case using inv_ext ext_trans0 ext_shutdown by blast
next
  case (st_cancel s) then show ?case using inv_ext ext_shutdown by blast
next
  case (st_stale s stale) then show ?case using inv_ext ext_stale by blast
next
  case (st_event s) then show ?case using inv_ext ext_event by blast
next
  case (st_activity s detect grid now lastSeen stuckSeen) then show ?case using inv_ext ext_activity by blast
next
  case (st_watchdog s now mon) then show ?case using inv_ext ext_watchdog by blast
next
  case (st_exit s) then show ?case by (intro inv_serve_exit) simp_all
next
  case (st_accept_error s) then show ?case by (intro inv_serve_exit) simp_all
qed

lemma reach_inv: "sv_reach s \<Longrightarrow> sv_inv s"
  by (induction rule: sv_reach.induct) (simp_all add: sv_inv_New inv_step)

section \<open>Schedules\<close>

text \<open>Finite schedules, for concrete runs.\<close>

datatype act = Accept | Disconnect nat | Request dispatch_env nat request | SpawnStart nat SpawnReq | SpawnTurn nat spawn_env
  | SpawnEnd nat bool | KillDone nat | WatchTurn nat | DrainTurn nat | SessionOp sref session_op | StopRuns | ServeExit serve_state

definition plain_request :: "request \<Rightarrow> bool" where
  "plain_request req = (case req of SpawnReqM (Inr q) \<Rightarrow> False | _ \<Rightarrow> True)"

definition sv_do :: "act \<Rightarrow> Server \<Rightarrow> Server option" where
  "sv_do a s =
     (case a of
        Accept \<Rightarrow> if sv_listening s then Some (accept s) else None
      | Disconnect k \<Rightarrow> if k < length (sv_conns s) then Some (disconnect k s) else None
      | Request E k req \<Rightarrow> if plain_request req then dispatch E k req s else None
      | SpawnStart k q \<Rightarrow> Some (spawn_start k q s)
      | SpawnTurn i E \<Rightarrow>
          (if i < length (sv_spawns s) \<and> (g_pc (sv_spawns s ! i) = AtNew \<longrightarrow> env_ok E s) then
             (case spawn_turn E (g_req (sv_spawns s ! i)) (g_pc (sv_spawns s ! i)) s of
                None \<Rightarrow> None
              | Some (s', pc) \<Rightarrow> Some (s'\<lparr>sv_spawns := (sv_spawns s')[i := (sv_spawns s ! i)\<lparr>g_pc := pc\<rparr>]\<rparr>))
           else None)
      | SpawnEnd i timely \<Rightarrow>
          (if i < length (sv_spawns s) then
             (case g_pc (sv_spawns s ! i) of Returned res \<Rightarrow> Some (spawn_end i res timely s) | _ \<Rightarrow> None)
           else None)
      | KillDone i \<Rightarrow> if i < length (sv_kills s) then Some (kill_done i s) else None
      | WatchTurn i \<Rightarrow> if i < length (sv_watchers s) then (case watch_turn i s of Some r \<Rightarrow> r | None \<Rightarrow> None) else None
      | DrainTurn i \<Rightarrow> if i < length (sv_drains s) then Some (drain_turn i s) else None
      | SessionOp r b \<Rightarrow>
          (if r < length (sv_sessions s) \<and> benign b then
             map_option (\<lambda>x. put_session r x s) (session_do (\<lambda>_. True) b (sess s r))
           else None)
      | StopRuns \<Rightarrow> if 0 < sv_stops s then Some (initiateShutdown (s\<lparr>sv_stops := sv_stops s - 1\<rparr>)) else None
      | ServeExit e \<Rightarrow>
          (case e of
             Exited \<Rightarrow> if sv_serve s = Serving \<and> sv_shutdown s then Some (serve_exit Exited s) else None
           | AcceptFailed \<Rightarrow> if sv_serve s = Serving \<and> sv_listening s then Some (serve_exit AcceptFailed s) else None
           | Serving \<Rightarrow> None))"

fun sv_run :: "act list \<Rightarrow> Server \<Rightarrow> Server option" where
  "sv_run [] s = Some s"
| "sv_run (a # as) s = (case sv_do a s of None \<Rightarrow> None | Some s' \<Rightarrow> sv_run as s')"

lemma plain_request: "plain_request req \<Longrightarrow> req \<noteq> SpawnReqM (Inr q)"
  by (auto simp: plain_request_def)

lemma sv_do_step: "sv_do a s = Some s' \<Longrightarrow> sv_step s s'"
proof (cases a)
  case (Request E k req)
  then show "sv_do a s = Some s' \<Longrightarrow> sv_step s s'"
    using st_request [of req E k s s'] plain_request [of req] by (simp add: sv_do_def split: if_splits)
next
  case (SpawnTurn i E)
  then show "sv_do a s = Some s' \<Longrightarrow> sv_step s s'"
    by (auto simp: sv_do_def split: if_splits option.splits intro: st_spawn_turn)
next
  case StopRuns
  then show "sv_do a s = Some s' \<Longrightarrow> sv_step s s'"
    using st_stop [of s] by (auto simp: sv_do_def split: if_splits)
next
  case (ServeExit e)
  then show "sv_do a s = Some s' \<Longrightarrow> sv_step s s'"
    by (auto simp: sv_do_def split: if_splits serve_state.splits intro: st_exit st_accept_error)
qed (auto simp: sv_do_def split: if_splits option.splits spawn_pc.splits intro: sv_step.intros)

lemma sv_run_reach: "sv_run as s = Some s' \<Longrightarrow> sv_reach s \<Longrightarrow> sv_reach s'"
  by (induction as s rule: sv_run.induct) (auto split: option.splits dest: sv_do_step intro: reach_step)

lemma run_reach: "sv_run as (NewServer persistent own) \<noteq> None \<Longrightarrow> sv_reach (the (sv_run as (NewServer persistent own)))"
  using sv_run_reach reach_init by fastforce

abbreviation spawn_acts :: "nat \<Rightarrow> spawn_env \<Rightarrow> act list" where
  "spawn_acts i E \<equiv> replicate 7 (SpawnTurn i E) @ [SpawnEnd i True]"

definition example_env :: "string \<Rightarrow> int \<Rightarrow> spawn_env" where
  "example_env i pid = \<lparr>e_rand = Inr i, e_fork = Inr (pid, Some pid), e_time = 7\<rparr>"

definition child_exit :: session_op where
  "child_exit = SPane (Turn [] 9 [] (Some ''EOF''))"

section \<open>Properties\<close>

subsection \<open>Sessions\<close>

text \<open>C2: One session per ticket: in every reachable state of the daemon, whatever the interleaving of spawns,
  kills, exits and shutdowns, no two registered sessions have the same ticket, and each is
  registered under its own id, for a non-empty ticket.\<close>

theorem one_session_per_ticket:
  assumes "sv_reach s"
  shows "distinct (map (\<lambda>(i, r). tid s r) (sv_reg s)) \<and>
    list_all (\<lambda>(i, r). r < length (sv_sessions s) \<and> s_id (sess s r) = i \<and> tid s r \<noteq> []) (sv_reg s)"
proof
  have inv: "reg_ok s" using reach_inv [OF assms] by (simp add: sv_inv_def)
  then show "list_all (\<lambda>(i, r). r < length (sv_sessions s) \<and> s_id (sess s r) = i \<and> tid s r \<noteq> []) (sv_reg s)"
    by (auto simp: reg_ok_def list_all_iff)
  have m: "mwf (sv_reg s)" and one: "sreg.one_per_ticket (tid s) (sv_reg s)"
    using inv by (auto simp: reg_ok_def sreg.one_per_ticket_def)
  have "p = q" if p: "p \<in> set (sv_reg s)" and q: "q \<in> set (sv_reg s)" and t: "tid s (snd p) = tid s (snd q)" for p q
  proof -
    have g: "reg_get (fst p) (sv_reg s) = Some (snd p)" "reg_get (fst q) (sv_reg s) = Some (snd q)"
      using p q m by (simp_all add: reg_get_def in_set_mget [symmetric])
    with t one have "fst p = fst q" unfolding sreg.one_per_ticket_def by blast
    with g show ?thesis by (simp add: prod_eq_iff)
  qed
  then have "inj_on (\<lambda>(i, r). tid s r) (set (sv_reg s))" by (auto intro!: inj_onI)
  moreover have "distinct (sv_reg s)" using m by (auto simp: mwf_def distinct_map)
  ultimately show "distinct (map (\<lambda>(i, r). tid s r) (sv_reg s))" by (simp add: distinct_map)
qed

text \<open>Two clients race to spawn for one ticket: the second turn of each comes before the store of the other.\<close>

definition raced :: Server where
  "raced = the (sv_run ([Accept, Accept, SpawnStart 0 example_req, SpawnStart 1 example_req] @
     concat (replicate 3 [SpawnTurn 0 (example_env ''a'' 71), SpawnTurn 1 (example_env ''b'' 72)]) @
     spawn_acts 1 (example_env ''b'' 72) @ spawn_acts 0 (example_env ''a'' 71)) (NewServer False 1))"

lemma raced: "sv_reach raced"
  unfolding raced_def by (rule run_reach) code_simp

lemma raced_value: "map fst (sv_reg raced) = [''b''] \<and> length (sv_sessions raced) = 2"
  by code_simp

theorem one_session_per_ticket_witness:
  "distinct (map (\<lambda>(i, r). tid raced r) (sv_reg raced)) \<and>
    list_all (\<lambda>(i, r). r < length (sv_sessions raced) \<and> s_id (sess raced r) = i \<and> tid raced r \<noteq> []) (sv_reg raced) \<and>
    map fst (sv_reg raced) = [''b''] \<and> length (sv_sessions raced) = 2"
  using one_session_per_ticket [OF raced] raced_value by simp




text \<open>The same race, now with a shutdown while one spawn is about to store its session.\<close>

definition closed_acts :: "act list" where
  "closed_acts = [Accept, Accept, SpawnStart 0 example_req, SpawnStart 1 (example_req\<lparr>sp_TicketID := ''t2''\<rparr>)] @
     concat (replicate 3 [SpawnTurn 0 (example_env ''a'' 71), SpawnTurn 1 (example_env ''b'' 72)]) @
     spawn_acts 1 (example_env ''b'' 72) @
     [Request \<lparr>d_timely = True, d_spawn = example_env ''z'' 9, d_snap = \<lambda>p. []\<rparr> 1 (ShutdownReq False), StopRuns, ServeExit Exited] @
     spawn_acts 0 (example_env ''a'' 71)"

definition closed :: Server where
  "closed = the (sv_run closed_acts (NewServer False 1))"

lemma closed: "sv_reach closed"
  unfolding closed_def by (rule run_reach) code_simp

lemma closed_value:
  "sv_serve closed = Exited \<and> length (sv_kills closed) = 0 \<and> length (sv_spawns closed) = 0 \<and> length (sv_sessions closed) = 2"
  by (intro conjI) (code_simp, code_simp, code_simp, code_simp)



definition one_spawned :: Server where
  "one_spawned = the (sv_run ([Accept, SpawnStart 0 example_req] @ spawn_acts 0 (example_env ''a'' 71)) (NewServer False 1))"

lemma one_spawned: "sv_reach one_spawned"
  unfolding one_spawned_def by (rule run_reach) code_simp


subsection \<open>Spawns\<close>

lemma NewSession_total:
  obtains e where "NewSession rand fork now q = Some (Inl e)"
  | x p ch where "NewSession rand fork now q = Some (Inr x)" "Subscribe (s_pane x) = Some (p, ch)"
proof (cases "NewSession rand fork now q")
  case None
  have "pane_wf (new_pane q)" by (simp add: new_pane_def Let_def pane_wf_def New_def)
  then obtain p where "pane_do (\<lambda>_. True) (Start fork) (new_pane q) = Some p"
    using pane_do_step [of "new_pane q" "\<lambda>_. True" "Start fork" 0] by blast
  with None show ?thesis by (auto simp: NewSession_def pane_do_def split: sum.splits option.splits)
next
  case (Some y)
  show ?thesis
  proof (cases y)
    case (Inr x)
    then have "slot_wf x" using Some slot_wf_New by blast
    then have "pane_wf (s_pane x)" by (simp add: slot_wf_def)
    then obtain p where "pane_do (\<lambda>_. True) Sub (s_pane x) = Some p"
      using pane_do_step [of "s_pane x" "\<lambda>_. True" Sub 0] by blast
    then obtain ch where "Subscribe (s_pane x) = Some (p, ch)" by (auto simp: pane_do_def)
    with Some Inr that show ?thesis by blast
  qed (use Some that in blast)
qed

text \<open>The seven critical sections in one piece.\<close>

lemma spawn_turns_gate:
  assumes "\<not> sv_shutdown s" "sp_TicketID q \<noteq> []" "reg_findByTicket (tid s) (sp_TicketID q) (sv_reg s) = None"
  shows "spawn_turns 7 E q AtGate s = spawn_turns 5 E q AtNew s"
  using assms by (simp add: eval_nat_numeral spawn_turn_def spawn_gate_def spawn_fast_def)

lemma spawn_turns_stop: "spawn_turns n E q (Returned res) s = Some (s, Returned res)"
  by (induction n) (simp_all add: spawn_turn_def)

lemma handleSpawn_refused:
  "sv_shutdown s \<Longrightarrow> handleSpawn E q s = Some (s, Inl ''spawn: daemon is shutting down'')"
  "\<not> sv_shutdown s \<Longrightarrow> sp_TicketID q = [] \<Longrightarrow>
    handleSpawn E q s = Some (s, Inl ''spawn: empty TicketID rejected (anonymous sessions disallowed)'')"
  by (simp_all add: handleSpawn_def eval_nat_numeral spawn_turn_def spawn_gate_def)

lemma handleSpawn_found:
  "\<not> sv_shutdown s \<Longrightarrow> sp_TicketID q \<noteq> [] \<Longrightarrow> reg_findByTicket (tid s) (sp_TicketID q) (sv_reg s) = Some r \<Longrightarrow>
    handleSpawn E q s = Some (s, Inr (s_id (sess s r), p_pid (s_pane (sess s r))))"
  by (simp add: handleSpawn_def eval_nat_numeral spawn_turn_def spawn_gate_def spawn_fast_def)

lemma handleSpawn_failed:
  assumes "\<not> sv_shutdown s" "sp_TicketID q \<noteq> []" "reg_findByTicket (tid s) (sp_TicketID q) (sv_reg s) = None"
    "NewSession (e_rand E) (e_fork E) (e_time E) q = Some (Inl e)"
  shows "handleSpawn E q s = Some (s, Inl e)"
  unfolding handleSpawn_def spawn_turns_gate [OF assms(1-3)]
  using assms(4) by (simp add: eval_nat_numeral spawn_turn_def spawn_new_def)

lemma handleSpawn_new:
  assumes "\<not> sv_shutdown s" "sp_TicketID q \<noteq> []" "reg_findByTicket (tid s) (sp_TicketID q) (sv_reg s) = None"
    and x: "NewSession (e_rand E) (e_fork E) (e_time E) q = Some (Inr x)" "Subscribe (s_pane x) = Some (p, ch)"
    and refs: "\<And>i r. (i, r) \<in> set (sv_reg s) \<Longrightarrow> r < length (sv_sessions s)"
  shows "handleSpawn E q s =
    (let n = length (sv_sessions s);
         s1 = s\<lparr>sv_reg := mput (s_id x) n (sv_reg s), sv_sessions := sv_sessions s @ [x\<lparr>s_pane := p\<rparr>],
                sv_watchers := sv_watchers s @ [(n, ch)]\<rparr> in
     Some (emitEvent ((session_event ''started'' x)\<lparr>ev_Status := ''working'', ev_LastActivityAt := LastActivity p\<rparr>) s1,
           Inr (s_id x, p_pid p)))"
proof -
  let ?n = "length (sv_sessions s)" and ?s1 = "s\<lparr>sv_sessions := sv_sessions s @ [x]\<rparr>"
  have f: "find_ticket (tid s) (sp_TicketID q) (sv_reg s) = None"
    using assms(2,3) by (simp add: reg_findByTicket_def)
  then have "find_ticket (tid ?s1) (sp_TicketID q) (sv_reg s) = None"
    using refs by (fastforce simp: find_ticket_None nth_append)
  then have st: "spawn_store q ?n ?s1 = (?s1\<lparr>sv_reg := mput (s_id x) ?n (sv_reg s)\<rparr>, AtRecheck ?n)"
    by (simp add: spawn_store_def reg_storeIfNoTicket_def nth_append)
  show ?thesis
    unfolding handleSpawn_def spawn_turns_gate [OF assms(1-3)]
    using assms(1) x st
    by (simp add: eval_nat_numeral spawn_turn_def spawn_new_def spawn_recheck_def watchSessionExit_def put_session_def
        spawn_emit_def session_event_def Let_def nth_append)
qed

text \<open>C5: A spawn without interference always returns.  A refused or failed spawn changes nothing; a successful one
  leaves the ticket owned by the session it returns, and any further spawn for the ticket, whatever its other
  parameters, returns the same session and changes nothing.\<close>

theorem spawn_idempotent:
  assumes "sv_reach s" and "env_ok E s"
  shows "\<exists>s' res. handleSpawn E q s = Some (s', res) \<and>
    (case res of
       Inl e \<Rightarrow> s' = s
     | Inr (i, pid) \<Rightarrow>
         (\<exists>r. reg_get i (sv_reg s') = Some r \<and> tid s' r = sp_TicketID q \<and> p_pid (s_pane (sess s' r)) = pid) \<and>
         (\<forall>E' q'. sp_TicketID q' = sp_TicketID q \<longrightarrow> handleSpawn E' q' s' = Some (s', res)))"
proof -
  have inv: "reg_ok s" using reach_inv [OF assms(1)] by (simp add: sv_inv_def)
  then have refs: "r < length (sv_sessions s) \<and> s_id (sess s r) = i" if "(i, r) \<in> set (sv_reg s)" for i r
    using that by (auto simp: reg_ok_def)
  have m: "mwf (sv_reg s)" using inv by (simp add: reg_ok_def sreg.one_per_ticket_def)
  consider (refused) e where "handleSpawn E q s = Some (s, Inl e)"
    | (found) r where "\<not> sv_shutdown s" "sp_TicketID q \<noteq> []" "reg_findByTicket (tid s) (sp_TicketID q) (sv_reg s) = Some r"
    | (new) "\<not> sv_shutdown s" "sp_TicketID q \<noteq> []" "reg_findByTicket (tid s) (sp_TicketID q) (sv_reg s) = None"
    using handleSpawn_refused by (cases "reg_findByTicket (tid s) (sp_TicketID q) (sv_reg s)") blast+
  then show ?thesis
  proof cases
    case refused
    then show ?thesis by simp
  next
    case (found r)
    then have "tid s r = sp_TicketID q" "\<exists>i. (i, r) \<in> set (sv_reg s)"
      by (auto simp: reg_findByTicket_def dest: find_ticket_Some)
    then have "reg_get (s_id (sess s r)) (sv_reg s) = Some r" using refs m by (auto simp: reg_get_def in_set_mget)
    with found \<open>tid s r = sp_TicketID q\<close> show ?thesis
      using handleSpawn_found [OF found(1), of q' for q'] handleSpawn_found [OF found] by simp
  next
    case new
    show ?thesis
    proof (rule NewSession_total [of "e_rand E" "e_fork E" "e_time E" q])
      fix e assume "NewSession (e_rand E) (e_fork E) (e_time E) q = Some (Inl e)"
      with handleSpawn_failed [OF new] show ?thesis by simp
    next
      fix x p ch assume x: "NewSession (e_rand E) (e_fork E) (e_time E) q = Some (Inr x)" "Subscribe (s_pane x) = Some (p, ch)"
      let ?n = "length (sv_sessions s)"
      obtain s' where s': "handleSpawn E q s = Some (s', Inr (s_id x, p_pid p))" "sv_reg s' = mput (s_id x) ?n (sv_reg s)"
        "sv_sessions s' = sv_sessions s @ [x\<lparr>s_pane := p\<rparr>]" "\<not> sv_shutdown s'"
        using handleSpawn_new [OF new x] refs new(1) by (simp add: Let_def emitEvent_def)
      have t: "tid s' ?n = sp_TicketID q" "s_id (sess s' ?n) = s_id x" "p_pid (s_pane (sess s' ?n)) = p_pid p"
        using NewSession_start(2) [OF x(1)] by (simp_all add: s'(3))
      have "find_ticket (tid s) (sp_TicketID q) (sv_reg s) = None" using new(2,3) by (simp add: reg_findByTicket_def)
      then have n: "tid s' r \<noteq> sp_TicketID q" if "(i, r) \<in> set (sv_reg s)" for i r
        using that refs [OF that] by (auto simp: find_ticket_None s'(3) nth_append)
      have "find_ticket (tid s') (sp_TicketID q) (sv_reg s') \<noteq> None"
        using t(1) m by (auto simp: find_ticket_None s'(2) in_set_mget intro!: bexI [of _ "(s_id x, ?n)"])
      then obtain w where w: "find_ticket (tid s') (sp_TicketID q) (sv_reg s') = Some w" by blast
      from find_ticket_Some [OF w] obtain i where "tid s' w = sp_TicketID q" "(i, w) \<in> set (sv_reg s')" by blast
      then have "w = ?n" using n m by (auto simp: s'(2) in_set_mget split: if_splits)
      with w new(2) have f: "reg_findByTicket (tid s') (sp_TicketID q) (sv_reg s') = Some ?n" by (simp add: reg_findByTicket_def)
      have "handleSpawn E' q' s' = Some (s', Inr (s_id x, p_pid p))" if "sp_TicketID q' = sp_TicketID q" for E' q'
        using that handleSpawn_found [OF s'(4), of q' ?n E'] new(2) f t by simp
      with s' t show ?thesis by (auto simp: reg_get_def)
    qed
  qed
qed

theorem spawn_idempotent_witness:
  "\<exists>s' res. handleSpawn (example_env ''b'' 72) (example_req\<lparr>sp_TicketID := ''t2''\<rparr>) one_spawned = Some (s', res) \<and>
    (case res of
       Inl e \<Rightarrow> s' = one_spawned
     | Inr (i, pid) \<Rightarrow>
         (\<exists>r. reg_get i (sv_reg s') = Some r \<and> tid s' r = sp_TicketID (example_req\<lparr>sp_TicketID := ''t2''\<rparr>) \<and>
            p_pid (s_pane (sess s' r)) = pid) \<and>
         (\<forall>E' q'. sp_TicketID q' = sp_TicketID (example_req\<lparr>sp_TicketID := ''t2''\<rparr>) \<longrightarrow> handleSpawn E' q' s' = Some (s', res)))"
proof -
  have "env_ok (example_env ''b'' 72) one_spawned" by code_simp
  from spawn_idempotent [OF one_spawned this, of "example_req\<lparr>sp_TicketID := ''t2''\<rparr>"] show ?thesis .
qed

subsection \<open>The daemon's end\<close>

definition live_dispatch :: "string \<Rightarrow> dispatch_env" where
  "live_dispatch i = \<lparr>d_timely = True, d_spawn = example_env i 71, d_snap = \<lambda>p. []\<rparr>"

definition linger_acts :: "act list" where
  "linger_acts =
     [Accept, SpawnStart 0 example_req] @ spawn_acts 0 (example_env ''a'' 71) @ [Disconnect 0] @
     [SessionOp 0 child_exit, WatchTurn 0, DrainTurn 0, Accept, DrainTurn 0] @
     [SpawnStart 1 example_req] @ spawn_acts 0 (example_env ''b'' 72) @ [Disconnect 1] @
     [DrainTurn 0, SessionOp 1 child_exit, WatchTurn 0]"

text \<open>A drained daemon may linger: default mode promises that the daemon does not outlive its clients and
  sessions, but when a client spawns and leaves between the drain watcher's last check and the reset of its
  pending flag, no watcher takes over; all clients, sessions and goroutines are gone, and nothing initiates the
  shutdown any more.\<close>

theorem daemon_may_linger:
  "\<exists>s. sv_reach s \<and> \<not> sv_persistent s \<and> sv_serve s = Serving \<and> \<not> sv_shutdown s \<and> length (sv_conns s) = 2 \<and>
     length (sv_sessions s) = 2 \<and> length (sv_clients s) = 0 \<and> length (sv_reg s) = 0 \<and> length (sv_drains s) = 0 \<and>
     length (sv_spawns s) = 0 \<and> length (sv_kills s) = 0 \<and> length (sv_watchers s) = 0 \<and> sv_stops s = 0"
proof (intro exI conjI)
  let ?s = "the (sv_run linger_acts (NewServer False 1))"
  show "sv_reach ?s" by (rule run_reach) code_simp
  show "\<not> sv_persistent ?s" by code_simp
  show "sv_serve ?s = Serving" by code_simp
  show "\<not> sv_shutdown ?s" by code_simp
  show "length (sv_conns ?s) = 2" by code_simp
  show "length (sv_sessions ?s) = 2" by code_simp
  show "length (sv_clients ?s) = 0" by code_simp
  show "length (sv_reg ?s) = 0" by code_simp
  show "length (sv_drains ?s) = 0" by code_simp
  show "length (sv_spawns ?s) = 0" by code_simp
  show "length (sv_kills ?s) = 0" by code_simp
  show "length (sv_watchers ?s) = 0" by code_simp
  show "sv_stops ?s = 0" by code_simp
qed

definition orphan_acts :: "act list" where
  "orphan_acts =
     [Accept, SpawnStart 0 example_req] @ replicate 3 (SpawnTurn 0 (example_env ''a'' 71)) @ [ServeExit AcceptFailed] @
     replicate 4 (SpawnTurn 0 (example_env ''a'' 71)) @ [SpawnEnd 0 True]"

text \<open>The accept loop's error exit orphans: when \<^verbatim>\<open>Accept\<close> fails, \<^verbatim>\<open>Serve\<close> drains the registry without closing
  the shutdown channel, so a spawn that was about to store its session passes its recheck, and the
  session is registered in a daemon that has ended.\<close>

theorem accept_error_orphans:
  "\<exists>s. sv_reach s \<and> sv_serve s = AcceptFailed \<and> length (sv_spawns s) = 0 \<and> length (sv_kills s) = 0 \<and>
     map fst (sv_reg s) = [''a''] \<and> \<not> torn s 0"
proof (intro exI conjI)
  let ?s = "the (sv_run orphan_acts (NewServer False 1))"
  show "sv_reach ?s" by (rule run_reach) code_simp
  show "sv_serve ?s = AcceptFailed" by code_simp
  show "length (sv_spawns ?s) = 0" by code_simp
  show "length (sv_kills ?s) = 0" by code_simp
  show "map fst (sv_reg ?s) = [''a'']" by code_simp
  show "\<not> torn ?s 0" by code_simp
qed

definition zombie_acts :: "act list" where
  "zombie_acts =
     [Accept, SpawnStart 0 example_req] @ replicate 5 (SpawnTurn 0 (example_env ''a'' 71)) @ [SessionOp 0 child_exit] @
     replicate 2 (SpawnTurn 0 (example_env ''a'' 71)) @ [SpawnEnd 0 True]"

text \<open>The zombie session: a child that exits before the daemon subscribes to its pane is never noticed.  Its
  session stays registered, its watcher never receives anything, and further spawns for the ticket are
  answered with the dead session.\<close>

theorem zombie_session:
  "\<exists>s. sv_reach s \<and> p_loop (s_pane (sess s 0)) = Finished \<and> map fst (sv_reg s) = [''a''] \<and>
     watch_turn 0 s = Some None \<and> sv_watchers s = [(0, 0)] \<and>
     map_option snd (handleSpawn (example_env ''b'' 72) example_req s) = Some (Inr (''a'', 71))"
proof (intro exI conjI)
  let ?s = "the (sv_run zombie_acts (NewServer False 1))"
  show "sv_reach ?s" by (rule run_reach) code_simp
  show "p_loop (s_pane (sess ?s 0)) = Finished" by code_simp
  show "map fst (sv_reg ?s) = [''a'']" by code_simp
  show "sv_watchers ?s = [(0, 0)]" by code_simp
  show "map_option snd (handleSpawn (example_env ''b'' 72) example_req ?s) = Some (Inr (''a'', 71))" by code_simp
  have "(case watch_turn 0 ?s of Some None \<Rightarrow> True | _ \<Rightarrow> False)" by code_simp
  then show "watch_turn 0 ?s = Some None" by (simp split: option.splits)
qed

subsection \<open>Ticket completion and exit coordination\<close>

text \<open>C8: Completing a ticket takes exactly its session out of the registry, so that the ticket can be spawned again,
  hands that one session to a tracked kill, and marks it so that its exit is announced as expected, with
  reason \<^verbatim>\<open>ticket_done\<close>; every other session stays registered.\<close>

theorem ticket_done_exact:
  assumes "sv_reach s" and "t \<noteq> []" and "reg_findByTicket (tid s) t (sv_reg s) = Some r"
  shows "case handleTicketDone t s of (s', resp) \<Rightarrow>
    resp = TicketDoneResp (s_id (sess s r)) True \<and>
    (\<forall>i. reg_get i (sv_reg s') = (if i = s_id (sess s r) then None else reg_get i (sv_reg s))) \<and>
    reg_findByTicket (tid s') t (sv_reg s') = None \<and> sv_kills s' = sv_kills s @ [(r, shutdownGraceSeconds, False)] \<and>
    ev_Expected (exited_event (sess s' r)) \<and> ev_Reason (exited_event (sess s' r)) = ''ticket_done''"
proof -
  have inv: "reg_ok s" using reach_inv [OF assms(1)] by (simp add: sv_inv_def)
  have m: "mwf (sv_reg s)" using inv by (simp add: reg_ok_def sreg.one_per_ticket_def)
  have "find_ticket (tid s) t (sv_reg s) = Some r" using assms(2,3) by (simp add: reg_findByTicket_def)
  from find_ticket_Some [OF this] have t: "tid s r = t" and "\<exists>i. (i, r) \<in> set (sv_reg s)" by auto
  then have r: "(s_id (sess s r), r) \<in> set (sv_reg s)" "r < length (sv_sessions s)" using inv by (auto simp: reg_ok_def)
  have uniq: "(i, q) = (s_id (sess s r), r)" if "(i, q) \<in> set (sv_reg s)" "tid s q = t" for i q
  proof -
    have g: "reg_get i (sv_reg s) = Some q" "reg_get (s_id (sess s r)) (sv_reg s) = Some r"
      using that(1) r(1) m by (simp_all add: reg_get_def in_set_mget)
    moreover have "tid s q = tid s r" using that(2) t by simp
    ultimately have "i = s_id (sess s r)" using inv unfolding reg_ok_def sreg.one_per_ticket_def by blast
    with g show ?thesis by simp
  qed
  have ms: "filter (\<lambda>q. tid s q = t) (map snd (sv_reg s)) = [r]"
  proof -
    obtain xs ys where sp: "sv_reg s = xs @ (s_id (sess s r), r) # ys" using r(1) by (meson split_list)
    define k where "k = s_id (sess s r)"
    have k: "k \<notin> fst ` set xs" "k \<notin> fst ` set ys" using m by (simp_all add: sp mwf_def k_def)
    have n: "tid s q \<noteq> t" if "(i, q) \<in> set xs \<or> (i, q) \<in> set ys" for i q
    proof
      assume "tid s q = t"
      moreover have "(i, q) \<in> set (sv_reg s)" using that unfolding sp by auto
      ultimately have "i = k" using uniq [of i q] by (simp add: k_def)
      with that k show False by force
    qed
    have "filter (\<lambda>q. tid s q = t) (map snd xs) = []" "filter (\<lambda>q. tid s q = t) (map snd ys) = []"
      using n by (force simp: filter_empty_conv)+
    then show ?thesis using t by (simp add: sp)
  qed
  let ?r' = "mdel (s_id (sess s r)) (sv_reg s)"
  have d: "reg_deleteIf (s_id (sess s r)) r (sv_reg s) = (?r', True)"
    using r(1) m by (simp add: reg_deleteIf_def in_set_mget)
  have h: "handleTicketDone t s =
     (trackedKill r shutdownGraceSeconds (put_session r (MarkExpectedCompletion (sess s r)) (s\<lparr>sv_reg := ?r'\<rparr>)),
      TicketDoneResp (s_id (sess s r)) True)"
    using assms(2) ms d by (simp add: handleTicketDone_def Let_def)
  let ?s' = "fst (handleTicketDone t s)"
  have same: "tid ?s' q = tid s q" for q
    using r(2) by (simp add: h trackedKill_def put_session_def MarkExpectedCompletion_def nth_list_update)
  have "tid s q \<noteq> t" if "(i, q) \<in> set ?r'" for i q
    using that uniq [of i q] m by (auto simp: set_mdel)
  then have "reg_findByTicket (tid ?s') t (sv_reg ?s') = None"
    using assms(2) same by (auto simp: reg_findByTicket_def find_ticket_None h trackedKill_def put_session_def)
  moreover have "sess ?s' r = MarkExpectedCompletion (sess s r)" using r(2) by (simp add: h trackedKill_def put_session_def)
  moreover have "ExpectedCompletion (MarkExpectedCompletion (sess s r))"
    by (simp add: ExpectedCompletion_def MarkExpectedCompletion_def)
  ultimately show ?thesis
    using h m by (auto simp: exited_event_def trackedKill_def put_session_def reg_get_def)
qed

theorem ticket_done_exact_witness:
  "case handleTicketDone ''t1'' one_spawned of (s', resp) \<Rightarrow>
    resp = TicketDoneResp (s_id (sess one_spawned 0)) True \<and>
    (\<forall>i. reg_get i (sv_reg s') = (if i = s_id (sess one_spawned 0) then None else reg_get i (sv_reg one_spawned))) \<and>
    reg_findByTicket (tid s') ''t1'' (sv_reg s') = None \<and>
    sv_kills s' = sv_kills one_spawned @ [(0, shutdownGraceSeconds, False)] \<and>
    ev_Expected (exited_event (sess s' 0)) \<and> ev_Reason (exited_event (sess s' 0)) = ''ticket_done''"
proof -
  have "reg_findByTicket (tid one_spawned) ''t1'' (sv_reg one_spawned) = Some 0" by code_simp
  from ticket_done_exact [OF one_spawned _ this] show ?thesis by simp
qed

text \<open>Clients that prepare their exits, one after the other.\<close>

fun prepare_all :: "nat list \<Rightarrow> Server \<Rightarrow> PrepareExitResp list" where
  "prepare_all [] s = []"
| "prepare_all (k # ks) s = (case handlePrepareExit k s of (s', r) \<Rightarrow> r # prepare_all ks s')"

definition clients_ok :: "Server \<Rightarrow> bool" where
  "clients_ok s \<longleftrightarrow> mwf (sv_clients s) \<and> list_all (\<lambda>(i, k). k < length (sv_conns s) \<and> c_id (sv_conns s ! k) = i) (sv_clients s)"

definition active :: "Server \<Rightarrow> nat list" where
  "active s = filter (\<lambda>k. \<not> c_exiting (sv_conns s ! k)) (map snd (sv_clients s))"

lemma clients_okD: "clients_ok s \<Longrightarrow> (i, k) \<in> set (sv_clients s) \<Longrightarrow> c_id (sv_conns s ! k) = i"
  by (auto simp: clients_ok_def list_all_iff)

lemma clients_inj: "clients_ok s \<Longrightarrow> (i, k) \<in> set (sv_clients s) \<Longrightarrow> (j, k) \<in> set (sv_clients s) \<Longrightarrow> i = j"
  using clients_okD by metis

lemma clients_distinct: "clients_ok s \<Longrightarrow> distinct (map snd (sv_clients s))"
proof -
  assume a: "clients_ok s"
  then have "map fst (sv_clients s) = map (\<lambda>k. c_id (sv_conns s ! k)) (map snd (sv_clients s))"
    by (auto simp: clients_ok_def list_all_iff)
  with a have "distinct (map (\<lambda>k. c_id (sv_conns s ! k)) (map snd (sv_clients s)))" by (simp add: clients_ok_def mwf_def)
  then show ?thesis by (metis distinct_map)
qed

lemma prepare_exit_active:
  assumes "clients_ok s" "handlePrepareExit k s = (s', r)" "k \<in> snd ` set (sv_clients s)"
  shows "clients_ok s'" "active s' = removeAll k (active s)" "sv_clients s' = sv_clients s"
    "pe_OtherActiveClients r = length (removeAll k (active s))"
proof -
  let ?c = "sv_conns s ! k"
  obtain i where i: "(i, k) \<in> set (sv_clients s)" using assms(3) by auto
  then have k: "k < length (sv_conns s)" "c_id ?c = i" using assms(1) by (auto simp: clients_ok_def list_all_iff)
  have s': "s' = put_conn k (?c\<lparr>c_exiting := True\<rparr>) s"
    and r: "pe_OtherActiveClients r =
      length (filter (\<lambda>(j, k'). \<not> c_exiting (sv_conns s' ! k')) (filter (\<lambda>(j, k'). j \<noteq> i) (sv_clients s)))"
    using assms(2) k by (auto simp: handlePrepareExit_def Let_def put_conn_def)
  show "sv_clients s' = sv_clients s" by (simp add: s' put_conn_def)
  show "clients_ok s'" using assms(1) k by (auto simp: clients_ok_def s' put_conn_def list_all_iff nth_list_update)
  have ex: "c_exiting (sv_conns s' ! j) = (j = k \<or> c_exiting (sv_conns s ! j))" for j
    using k by (auto simp: s' put_conn_def nth_list_update)
  show a: "active s' = removeAll k (active s)"
    by (simp add: active_def ex removeAll_filter_not_eq \<open>sv_clients s' = sv_clients s\<close> conj_commute eq_commute [of k])
  have "j \<noteq> i \<longleftrightarrow> k' \<noteq> k" if "(j, k') \<in> set (sv_clients s)" for j k'
    using that i assms(1) clients_inj [OF assms(1)] by (auto simp: clients_ok_def in_set_mget)
  then have "filter (\<lambda>(j, k'). \<not> c_exiting (sv_conns s' ! k')) (filter (\<lambda>(j, k'). j \<noteq> i) (sv_clients s)) =
      filter (\<lambda>(j, k'). \<not> c_exiting (sv_conns s' ! k')) (sv_clients s)"
    by (auto simp: ex intro!: filter_cong)
  moreover have "length (active s') = length (filter (\<lambda>(j, k'). \<not> c_exiting (sv_conns s' ! k')) (sv_clients s))"
    by (simp add: active_def \<open>sv_clients s' = sv_clients s\<close> filter_map comp_def case_prod_unfold)
  ultimately show "pe_OtherActiveClients r = length (removeAll k (active s))" unfolding r a [symmetric] by metis
qed

text \<open>Exit coordination has one last closer: whatever the order in which the connected clients announce their
  exits, they are told that n-1, n-2, ..., 0 other clients stay active, so exactly the last one learns that it
  closes the daemon's last window.\<close>

theorem prepare_exit_last_closer:
  assumes "clients_ok s" and "active s = map snd (sv_clients s)" and "set ks = set (active s)" and "distinct ks"
  shows "map pe_OtherActiveClients (prepare_all ks s) = rev [0..<length ks]"
proof -
  have "map pe_OtherActiveClients (prepare_all ks s) = rev [0..<length ks]"
    if "clients_ok s" "set ks \<subseteq> snd ` set (sv_clients s)" "set ks = set (active s)" "distinct ks" for ks s
    using that
  proof (induction ks arbitrary: s)
    case (Cons k ks)
    obtain s' r where h: "handlePrepareExit k s = (s', r)" by force
    have k: "k \<in> snd ` set (sv_clients s)" using Cons.prems(2) by simp
    note p = prepare_exit_active [OF Cons.prems(1) h k]
    have rm: "set (removeAll k (active s)) = set ks"
      unfolding set_removeAll Cons.prems(3) [symmetric] using Cons.prems(4) by auto
    have "distinct (active s)" using clients_distinct [OF Cons.prems(1)] by (simp add: active_def)
    then have "length (removeAll k (active s)) = card (set (removeAll k (active s)))"
      by (intro distinct_card [symmetric] distinct_removeAll)
    also have "\<dots> = length ks" unfolding rm using Cons.prems(4) by (simp add: distinct_card)
    finally have "length (removeAll k (active s)) = length ks" .
    moreover have "map pe_OtherActiveClients (prepare_all ks s') = rev [0..<length ks]"
    proof (rule Cons.IH [OF p(1)])
      show "set ks \<subseteq> snd ` set (sv_clients s')" using Cons.prems(2) unfolding p(3) by simp
      show "set ks = set (active s')" unfolding p(2) rm ..
      show "distinct ks" using Cons.prems(4) by simp
    qed
    ultimately show ?case using h p(4) by simp
  qed simp
  moreover have "set ks \<subseteq> snd ` set (sv_clients s)" using assms(2,3) by simp
  ultimately show ?thesis using assms by blast
qed

definition three_clients :: Server where
  "three_clients = the (sv_run [Accept, Accept, Accept] (NewServer True 1))"

theorem prepare_exit_last_closer_witness:
  "map pe_OtherActiveClients (prepare_all [2, 0, 1] three_clients) = rev [0..<length [2, 0, 1::nat]]"
proof (rule prepare_exit_last_closer)
  show "clients_ok three_clients" by code_simp
  show "active three_clients = map snd (sv_clients three_clients)" by code_simp
  show "set [2, 0, 1] = set (active three_clients)" by code_simp
qed simp

subsection \<open>The wedge watchdog\<close>

definition watched :: "wedgeSample list \<Rightarrow> wedgeMonitor \<Rightarrow> wedgeMonitor" where
  "watched xs m = fold (\<lambda>x m. fst (evaluate x m)) xs m"

text \<open>The samples of the past that show the sequence number of \<open>x\<close> without interruption, latest first.\<close>

definition frozen_run :: "wedgeSample list \<Rightarrow> wedgeSample \<Rightarrow> wedgeSample list" where
  "frozen_run xs x = takeWhile (\<lambda>y. w_seq y = w_seq x) (rev xs)"

lemma evaluate_fst:
  "fst (evaluate x w) =
     (if \<not> m_primed w \<or> w_seq x \<noteq> m_lastSeq w then
        w\<lparr>m_primed := True, m_lastSeq := w_seq x, m_lastSeqChangeNs := w_nowNanos x\<rparr> else w)"
  by (simp add: evaluate_def Let_def)

lemma watched_state:
  "m_wedgeNanos (watched xs (newWedgeMonitor a b)) = a * 1000000000 \<and>
   m_staleNanos (watched xs (newWedgeMonitor a b)) = b * 1000000000 \<and>
   m_primed (watched xs (newWedgeMonitor a b)) = (xs \<noteq> []) \<and>
   (xs \<noteq> [] \<longrightarrow> m_lastSeq (watched xs (newWedgeMonitor a b)) = w_seq (last xs) \<and>
      m_lastSeqChangeNs (watched xs (newWedgeMonitor a b)) = w_nowNanos (last (frozen_run xs (last xs))))"
proof (induction xs rule: rev_induct)
  case Nil
  then show ?case by (simp add: watched_def newWedgeMonitor_def)
next
  case (snoc x xs)
  let ?w = "watched xs (newWedgeMonitor a b)"
  have w: "watched (xs @ [x]) (newWedgeMonitor a b) = fst (evaluate x ?w)" by (simp add: watched_def)
  have f: "frozen_run (xs @ [x]) x = x # frozen_run xs x" by (simp add: frozen_run_def)
  show ?case
  proof (cases "xs \<noteq> [] \<and> w_seq x = w_seq (last xs)")
    case True
    then have "frozen_run xs x = frozen_run xs (last xs)" by (simp add: frozen_run_def)
    moreover have "frozen_run xs (last xs) \<noteq> []" using True by (cases xs rule: rev_cases) (auto simp: frozen_run_def)
    ultimately show ?thesis using True snoc.IH by (simp add: w f evaluate_fst)
  next
    case False
    then have "frozen_run xs x = []" by (cases xs rule: rev_cases) (auto simp: frozen_run_def)
    with False snoc.IH show ?thesis by (auto simp: w f evaluate_fst)
  qed
qed

text \<open>The watchdog suspects a wedge exactly when short handlers are in flight and the dispatch counter has
  stood still, through every sample since, for longer than the threshold: 90 seconds, or 45 when a newer binary waits.\<close>

theorem evaluate_exact:
  "fst (snd (evaluate x (watched xs (newWedgeMonitor wedge stale)))) \<longleftrightarrow>
     frozen_run xs x \<noteq> [] \<and> 0 < w_inflight x \<and>
     (let frozen = w_nowNanos x - w_nowNanos (last (frozen_run xs x)) in
      frozen > wedge * 1000000000 \<or> w_pendingRestart x \<and> frozen > stale * 1000000000)"
proof (cases "xs \<noteq> [] \<and> w_seq x = w_seq (last xs)")
  case True
  then have f: "frozen_run xs x = frozen_run xs (last xs)" by (simp add: frozen_run_def)
  moreover have "frozen_run xs (last xs) \<noteq> []" using True by (cases xs rule: rev_cases) (auto simp: frozen_run_def)
  ultimately show ?thesis using True watched_state [of xs wedge stale] by (simp add: evaluate_def Let_def)
next
  case False
  then have "frozen_run xs x = []" by (cases xs rule: rev_cases) (auto simp: frozen_run_def)
  with False watched_state [of xs wedge stale] show ?thesis by (auto simp: evaluate_def)
qed

end
