(* ===== verification/PidLock.thy ===== *)
theory PidLock
  imports Prelude
begin

text \<open>
  \<^verbatim>\<open>internal/daemon/pidlock.go\<close> and the life of the pidfile and the socket in \<^verbatim>\<open>server.go\<close> (\<^verbatim>\<open>NewServerWithOptions\<close>,
  the listener's close, the end of \<^verbatim>\<open>cleanup\<close>).  Every system call is a step of one process; processes
  interleave freely and may die at any point, which frees their file lock and leaves the files behind.
\<close>

section \<open>The pidfile's contents\<close>

text \<open>\<^verbatim>\<open>strconv.Atoi\<close> on code points.\<close>

definition digit_code :: "nat \<Rightarrow> bool" where
  "digit_code c \<longleftrightarrow> 48 \<le> c \<and> c \<le> 57"

definition digits_value :: "nat list \<Rightarrow> nat" where
  "digits_value cs = foldl (\<lambda>a c. 10 * a + (c - 48)) 0 cs"

definition atoi :: "nat list \<Rightarrow> int option" where
  "atoi cs =
     (let (neg, ds) = (case cs of c # cs' \<Rightarrow> if c = 45 then (True, cs') else if c = 43 then (False, cs') else (False, cs)
                       | [] \<Rightarrow> (False, []));
          v = (if neg then - int (digits_value ds) else int (digits_value ds)) in
      if ds \<noteq> [] \<and> list_all digit_code ds \<and> - (2 ^ 63) \<le> v \<and> v < 2 ^ 63 then Some v else None)"

definition readPidFile :: "string \<Rightarrow> int" where
  "readPidFile content =
     (let line = trim_right is_space (trim_left is_space (runes (take 32 content)));
          first = takeWhile (\<lambda>c. c \<noteq> 10 \<and> c \<noteq> 13) line in
      case atoi first of None \<Rightarrow> 0 | Some pid \<Rightarrow> pid)"

definition pid_line :: "nat \<Rightarrow> string" where
  "pid_line pid = nat_digits pid @ [CHR 0x0A]"

section \<open>Processes, files, locks\<close>

text \<open>An inode of the pidfile: its contents and the process that holds its flock.\<close>

record inode =
  in_data :: string
  in_owner :: "nat option"

text \<open>The phase of a process, with its inode of the pidfile while it has it open.  The flag of the last phases tells
  whether the process was serving, so that its \<^verbatim>\<open>cleanup\<close> also removes the socket.\<close>

datatype phase = Fresh | Opened nat | Busy nat | Locked nat | Truncated nat | Held nat | Cleared nat | Bound nat | ServingOn nat
  | Closing nat bool | Unlocked bool | PidRemoved | Gone | Refused int

record lockworld =
  w_inodes :: "inode list"
  w_pidpath :: "nat option"
  w_sock :: "nat option"
  w_procs :: "phase list"

definition set_phase :: "nat \<Rightarrow> phase \<Rightarrow> lockworld \<Rightarrow> lockworld" where
  "set_phase p ph w = w\<lparr>w_procs := (w_procs w)[p := ph]\<rparr>"

definition set_inode :: "nat \<Rightarrow> inode \<Rightarrow> lockworld \<Rightarrow> lockworld" where
  "set_inode i x w = w\<lparr>w_inodes := (w_inodes w)[i := x]\<rparr>"

text \<open>\<^verbatim>\<open>open(O_RDWR|O_CREATE)\<close>.\<close>

definition open_pidfile :: "nat \<Rightarrow> lockworld \<Rightarrow> lockworld" where
  "open_pidfile p w =
     (case w_pidpath w of
        Some i \<Rightarrow> set_phase p (Opened i) w
      | None \<Rightarrow>
          (let i = length (w_inodes w) in
           set_phase p (Opened i)
             (w\<lparr>w_inodes := w_inodes w @ [\<lparr>in_data = [], in_owner = None\<rparr>], w_pidpath := Some i\<rparr>)))"

definition unlock :: "nat \<Rightarrow> lockworld \<Rightarrow> lockworld" where
  "unlock i w = set_inode i ((w_inodes w ! i)\<lparr>in_owner := None\<rparr>) w"

text \<open>One system call of \<^verbatim>\<open>AcquirePidLock\<close>; \<open>ok\<close> is the outcome of a call that can fail.\<close>

definition acquire_step :: "(nat \<Rightarrow> nat) \<Rightarrow> nat \<Rightarrow> bool \<Rightarrow> lockworld \<Rightarrow> lockworld" where
  "acquire_step pid p ok w =
     (case w_procs w ! p of
        Fresh \<Rightarrow> if ok then open_pidfile p w else set_phase p Gone w
      | Opened i \<Rightarrow>
          if in_owner (w_inodes w ! i) \<noteq> None then set_phase p (Busy i) w
          else if ok then set_phase p (Locked i) (set_inode i ((w_inodes w ! i)\<lparr>in_owner := Some p\<rparr>) w)
          else set_phase p Gone w
      | Busy i \<Rightarrow> set_phase p (Refused (readPidFile (in_data (w_inodes w ! i)))) w
      | Locked i \<Rightarrow>
          if ok then set_phase p (Truncated i) (set_inode i ((w_inodes w ! i)\<lparr>in_data := []\<rparr>) w)
          else set_phase p Gone (unlock i w)
      | Truncated i \<Rightarrow>
          if ok then set_phase p (Held i) (set_inode i ((w_inodes w ! i)\<lparr>in_data := pid_line (pid p)\<rparr>) w)
          else set_phase p Gone (unlock i w)
      | _ \<Rightarrow> w)"

text \<open>\<^verbatim>\<open>NewServerWithOptions\<close> after the lock: remove a stale socket, listen, chmod.\<close>

definition bind_step :: "nat \<Rightarrow> bool \<Rightarrow> lockworld \<Rightarrow> lockworld" where
  "bind_step p ok w =
     (case w_procs w ! p of
        Held i \<Rightarrow>
          if w_sock w = None then set_phase p (Cleared i) w
          else if ok then set_phase p (Cleared i) (w\<lparr>w_sock := None\<rparr>)
          else set_phase p (Closing i False) w
      | Cleared i \<Rightarrow>
          if ok \<and> w_sock w = None then set_phase p (Bound i) (w\<lparr>w_sock := Some p\<rparr>) else set_phase p (Closing i False) w
      | Bound i \<Rightarrow> if ok then set_phase p (ServingOn i) w else set_phase p (Closing i False) (w\<lparr>w_sock := None\<rparr>)
      | _ \<Rightarrow> w)"

text \<open>The end: the listener's close unlinks the socket, \<^verbatim>\<open>Release\<close> unlocks and removes the pidfile, \<^verbatim>\<open>cleanup\<close> removes
  the socket.\<close>

definition release_step :: "nat \<Rightarrow> lockworld \<Rightarrow> lockworld" where
  "release_step p w =
     (case w_procs w ! p of
        Closing i srv \<Rightarrow> set_phase p (Unlocked srv) (unlock i w)
      | Unlocked srv \<Rightarrow> set_phase p (if srv then PidRemoved else Gone) (w\<lparr>w_pidpath := None\<rparr>)
      | _ \<Rightarrow> w)"

definition close_step :: "nat \<Rightarrow> lockworld \<Rightarrow> lockworld" where
  "close_step p w =
     (case w_procs w ! p of
        ServingOn i \<Rightarrow> set_phase p (Closing i True) (w\<lparr>w_sock := None\<rparr>)
      | PidRemoved \<Rightarrow> set_phase p Gone (w\<lparr>w_sock := None\<rparr>)
      | _ \<Rightarrow> w)"

text \<open>The whole life of a process; \<open>LDie\<close> is its death at an arbitrary point.\<close>

datatype lock_act = LStep nat bool | LDie nat

definition lock_do :: "(nat \<Rightarrow> nat) \<Rightarrow> lock_act \<Rightarrow> lockworld \<Rightarrow> lockworld" where
  "lock_do pid a w =
     (case a of
        LStep p ok \<Rightarrow>
          (case w_procs w ! p of
             Held i \<Rightarrow> bind_step p ok w
           | Cleared i \<Rightarrow> bind_step p ok w
           | Bound i \<Rightarrow> bind_step p ok w
           | ServingOn i \<Rightarrow> close_step p w
           | PidRemoved \<Rightarrow> close_step p w
           | Closing i srv \<Rightarrow> release_step p w
           | Unlocked srv \<Rightarrow> release_step p w
           | _ \<Rightarrow> acquire_step pid p ok w)
      | LDie p \<Rightarrow>
          set_phase p Gone
            (w\<lparr>w_inodes := map (\<lambda>x. if in_owner x = Some p then x\<lparr>in_owner := None\<rparr> else x) (w_inodes w)\<rparr>))"

definition lock_run :: "(nat \<Rightarrow> nat) \<Rightarrow> lock_act list \<Rightarrow> lockworld \<Rightarrow> lockworld" where
  "lock_run pid as w = fold (lock_do pid) as w"

text \<open>\<open>n\<close> processes about to start, over a pidfile left behind, or none.\<close>

definition lock_init :: "nat \<Rightarrow> string option \<Rightarrow> lockworld" where
  "lock_init n stale =
     \<lparr>w_inodes = (case stale of None \<Rightarrow> [] | Some d \<Rightarrow> [\<lparr>in_data = d, in_owner = None\<rparr>]),
      w_pidpath = (case stale of None \<Rightarrow> None | Some d \<Rightarrow> Some 0), w_sock = None, w_procs = replicate n Fresh\<rparr>"

definition holding :: "phase \<Rightarrow> nat option" where
  "holding ph = (case ph of Locked i \<Rightarrow> Some i | Truncated i \<Rightarrow> Some i | Held i \<Rightarrow> Some i | Cleared i \<Rightarrow> Some i
     | Bound i \<Rightarrow> Some i | ServingOn i \<Rightarrow> Some i | Closing i srv \<Rightarrow> Some i | _ \<Rightarrow> None)"

text \<open>The file is written.\<close>

definition announced :: "phase \<Rightarrow> nat option" where
  "announced ph = (case ph of Locked i \<Rightarrow> None | Truncated i \<Rightarrow> None | _ \<Rightarrow> holding ph)"

section \<open>Lemmas\<close>

lemma digits_value_snoc: "digits_value (cs @ [c]) = 10 * digits_value cs + (c - 48)"
  by (simp add: digits_value_def)

lemma nat_digits_codes:
  "list_all digit_code (bytes (nat_digits n)) \<and> bytes (nat_digits n) \<noteq> [] \<and> digits_value (bytes (nat_digits n)) = n"
proof (induction n rule: nat_digits.induct)
  case (1 n)
  show ?case
  proof (cases "n < 10")
    case True
    then show ?thesis by (simp add: nat_digits.simps [of n] bytes_def digits_value_def digit_code_def of_char_of)
  next
    case False
    have "(of_char (char_of (48 + n mod 10) :: char) :: nat) = 48 + n mod 10" by (simp add: of_char_of)
    with 1 [OF False] False show ?thesis
      by (simp add: nat_digits.simps [of n] bytes_def digits_value_snoc digit_code_def)
  qed
qed

lemma length_nat_digits: "n < 10 ^ k \<Longrightarrow> 0 < k \<Longrightarrow> length (nat_digits n) \<le> k"
proof (induction k arbitrary: n)
  case (Suc k)
  show ?case
  proof (cases "n < 10")
    case False
    then have "0 < k" using Suc.prems(1) by (cases k) auto
    moreover have "n div 10 < 10 ^ k" using Suc.prems(1) by (simp add: less_mult_imp_div_less mult.commute)
    ultimately have "length (nat_digits (n div 10)) \<le> k" using Suc.IH by blast
    then show ?thesis using False by (simp add: nat_digits.simps [of n])
  qed (simp add: nat_digits.simps [of n])
qed simp

lemma readPidFile_pid_line: "pid < 2 ^ 63 \<Longrightarrow> readPidFile (pid_line pid) = int pid"
proof -
  assume pid: "pid < 2 ^ 63"
  define ds where "ds = bytes (nat_digits pid)"
  have ds: "list_all digit_code ds" "ds \<noteq> []" "digits_value ds = pid" using nat_digits_codes by (simp_all add: ds_def)
  have "length (nat_digits pid) \<le> 19" by (rule length_nat_digits) (use pid in simp_all)
  then have "take 32 (pid_line pid) = pid_line pid" by (simp add: pid_line_def)
  moreover have "runes (pid_line pid) = ds @ [10]"
  proof -
    have "\<forall>r \<in> set (ds @ [10]). r < 128" using ds(1) by (auto simp: list_all_iff digit_code_def)
    then show ?thesis using decode_runes_all_ascii [of "ds @ [10]"] by (simp add: runes_def pid_line_def bytes_def ds_def)
  qed
  moreover have "digit_code (hd ds)" "digit_code (last ds)" using ds(1,2) by (simp_all add: list_all_iff)
  then have "\<not> is_space (hd ds)" "\<not> is_space (last ds)" by (auto simp: digit_code_def is_space_def)
  ultimately have line: "trim_right is_space (trim_left is_space (runes (take 32 (pid_line pid)))) = ds"
    using ds(2) trim_left_id [of "ds @ [10]" is_space] trim_right_id [of ds is_space] by (simp add: is_space_def [of 10])
  have tw: "takeWhile (\<lambda>c. c \<noteq> 10 \<and> c \<noteq> 13) ds = ds"
    using ds(1) by (auto simp: takeWhile_eq_all_conv list_all_iff digit_code_def)
  have "atoi ds = Some (int pid)"
    using ds pid by (cases ds) (auto simp: atoi_def digit_code_def Let_def)
  then show ?thesis by (simp add: readPidFile_def line tw del: takeWhile_eq_all_conv)
qed

section \<open>Exclusion while nobody removes the pidfile\<close>

definition removes :: "lock_act \<Rightarrow> lockworld \<Rightarrow> bool" where
  "removes a w =
     (case a of LDie p \<Rightarrow> False | LStep p ok \<Rightarrow> (case w_procs w ! p of Unlocked srv \<Rightarrow> True | _ \<Rightarrow> False))"

fun quiet_run :: "(nat \<Rightarrow> nat) \<Rightarrow> lock_act list \<Rightarrow> lockworld \<Rightarrow> bool" where
  "quiet_run pid [] w = True"
| "quiet_run pid (a # as) w =
     ((case a of LStep p ok \<Rightarrow> p | LDie p \<Rightarrow> p) < length (w_procs w) \<and> \<not> removes a w \<and> quiet_run pid as (lock_do pid a w))"

definition open_inode :: "phase \<Rightarrow> nat option" where
  "open_inode ph = (case ph of Opened i \<Rightarrow> Some i | Busy i \<Rightarrow> Some i | _ \<Rightarrow> holding ph)"

definition lock_inv :: "(nat \<Rightarrow> nat) \<Rightarrow> lockworld \<Rightarrow> bool" where
  "lock_inv pid w \<longleftrightarrow>
     (case w_inodes w of
        [] \<Rightarrow> w_pidpath w = None \<and> (\<forall>p < length (w_procs w). open_inode (w_procs w ! p) = None)
      | [x] \<Rightarrow> w_pidpath w = Some 0 \<and>
          (\<forall>p < length (w_procs w). (open_inode (w_procs w ! p) = None \<or> open_inode (w_procs w ! p) = Some 0) \<and>
             (holding (w_procs w ! p) \<noteq> None \<longleftrightarrow> in_owner x = Some p) \<and>
             (announced (w_procs w ! p) \<noteq> None \<longrightarrow> in_data x = pid_line (pid p)))
      | _ \<Rightarrow> False)"

lemma lock_inv_init: "lock_inv pid (lock_init n stale)"
  by (auto simp: lock_inv_def lock_init_def open_inode_def holding_def announced_def split: option.splits)

lemmas phase_defs = open_inode_def holding_def announced_def

lemma open_None: "open_inode ph = None \<Longrightarrow> holding ph = None \<and> announced ph = None"
  by (simp add: phase_defs split: phase.splits)

lemma phase_simps [simp]:
  "open_inode Fresh = None" "holding Fresh = None" "announced Fresh = None"
  "open_inode (Opened i) = Some i" "holding (Opened i) = None" "announced (Opened i) = None"
  "open_inode (Busy i) = Some i" "holding (Busy i) = None" "announced (Busy i) = None"
  "open_inode (Locked i) = Some i" "holding (Locked i) = Some i" "announced (Locked i) = None"
  "open_inode (Truncated i) = Some i" "holding (Truncated i) = Some i" "announced (Truncated i) = None"
  "open_inode (Held i) = Some i" "holding (Held i) = Some i" "announced (Held i) = Some i"
  "open_inode (Cleared i) = Some i" "holding (Cleared i) = Some i" "announced (Cleared i) = Some i"
  "open_inode (Bound i) = Some i" "holding (Bound i) = Some i" "announced (Bound i) = Some i"
  "open_inode (ServingOn i) = Some i" "holding (ServingOn i) = Some i" "announced (ServingOn i) = Some i"
  "open_inode (Closing i b) = Some i" "holding (Closing i b) = Some i" "announced (Closing i b) = Some i"
  "open_inode (Unlocked b) = None" "holding (Unlocked b) = None" "announced (Unlocked b) = None"
  "open_inode PidRemoved = None" "holding PidRemoved = None" "announced PidRemoved = None"
  "open_inode Gone = None" "holding Gone = None" "announced Gone = None"
  "open_inode (Refused k) = None" "holding (Refused k) = None" "announced (Refused k) = None"
  by (simp_all add: phase_defs)

lemma announced_holding: "holding ph = None \<Longrightarrow> announced ph = None"
  by (simp add: phase_defs split: phase.splits)

lemma lock_inv_step:
  assumes inv: "lock_inv pid w" and p: "p < length (w_procs w)" and q: "\<not> removes (LStep p ok) w"
  shows "lock_inv pid (lock_do pid (LStep p ok) w)"
proof (cases "w_inodes w")
  case Nil
  then have o: "open_inode (w_procs w ! q) = None" if "q < length (w_procs w)" for q using inv that by (simp add: lock_inv_def)
  then have n: "holding (w_procs w ! q) = None" "announced (w_procs w ! q) = None" if "q < length (w_procs w)" for q
    using that open_None by blast+
  from o [OF p] Nil inv p q show ?thesis
    by (cases "w_procs w ! p")
      (auto simp: lock_inv_def lock_do_def acquire_step_def close_step_def open_pidfile_def set_phase_def n o
        nth_list_update removes_def)
next
  case (Cons x xs)
  then have xs: "w_inodes w = [x]" using inv by (cases xs) (simp_all add: lock_inv_def)
  then have o: "open_inode (w_procs w ! q) = None \<or> open_inode (w_procs w ! q) = Some 0"
    and own: "holding (w_procs w ! q) \<noteq> None \<longleftrightarrow> in_owner x = Some q" if "q < length (w_procs w)" for q
    using inv that by (simp_all add: lock_inv_def)
  have ann: "announced (w_procs w ! q) = None" if "q < length (w_procs w)" "in_owner x \<noteq> Some q" for q
    using own [OF that(1)] that(2) announced_holding by blast
  show ?thesis
  proof (cases "holding (w_procs w ! p) = None")
    case True
    then have "in_owner x \<noteq> Some p" using own [OF p] by simp
    with True o [OF p] xs inv p q show ?thesis
      by (cases "w_procs w ! p")
        (auto simp: lock_inv_def lock_do_def acquire_step_def release_step_def close_step_def open_pidfile_def set_phase_def
          set_inode_def removes_def nth_list_update ann)
  next
    case False
    then have s: "in_owner x = Some p" using own [OF p] by simp
    have n: "announced (w_procs w ! q) = None" "holding (w_procs w ! q) = None" if "q < length (w_procs w)" "q \<noteq> p" for q
    proof -
      have "in_owner x \<noteq> Some q" using s that(2) by simp
      with ann that(1) own [OF that(1)] show "announced (w_procs w ! q) = None" "holding (w_procs w ! q) = None" by blast+
    qed
    from s False o [OF p] xs inv p q show ?thesis
      by (cases "w_procs w ! p")
        (auto simp: lock_inv_def lock_do_def acquire_step_def bind_step_def release_step_def close_step_def unlock_def
          set_phase_def set_inode_def nth_list_update n)
  qed
qed

lemma lock_inv_die:
  assumes "lock_inv pid w" "p < length (w_procs w)"
  shows "lock_inv pid (lock_do pid (LDie p) w)"
  using assms
  by (auto simp: lock_inv_def lock_do_def set_phase_def nth_list_update split: list.splits)

lemma length_procs: "length (w_procs (lock_do pid a w)) = length (w_procs w)"
  by (auto simp: lock_do_def acquire_step_def bind_step_def release_step_def close_step_def open_pidfile_def set_phase_def
      set_inode_def unlock_def Let_def split: lock_act.splits phase.splits option.splits)

lemma lock_inv_run:
  "lock_inv pid w \<Longrightarrow> quiet_run pid as w \<Longrightarrow> lock_inv pid (lock_run pid as w)"
proof (induction as arbitrary: w)
  case (Cons a as)
  have "lock_inv pid (lock_do pid a w)"
    using Cons.prems lock_inv_step lock_inv_die by (cases a) auto
  then show ?case using Cons by (simp add: lock_run_def)
qed (simp add: lock_run_def)

section \<open>Properties\<close>

text \<open>C9: The pidfile lock excludes: as long as no process has come to remove the pidfile, however many daemons start,
  fail and die in whatever interleaving, at most one of them holds the lock, and once it has announced
  itself a refused contender reads exactly its process id from the file.\<close>

theorem pidlock_exclusive:
  assumes "quiet_run pid as (lock_init n stale)" and "\<forall>p. pid p < 2 ^ 63"
  defines "w \<equiv> lock_run pid as (lock_init n stale)"
  shows "length (filter (\<lambda>ph. holding ph \<noteq> None) (w_procs w)) \<le> 1 \<and>
    list_all (\<lambda>p. announced (w_procs w ! p) = None \<or> readPidFile (in_data (w_inodes w ! 0)) = int (pid p))
      [0..<length (w_procs w)]"
proof -
  have inv: "lock_inv pid w" unfolding w_def by (rule lock_inv_run [OF lock_inv_init assms(1)])
  have "p = q" if p: "p < length (w_procs w)" "holding (w_procs w ! p) \<noteq> None"
    and q: "q < length (w_procs w)" "holding (w_procs w ! q) \<noteq> None" for p q
  proof (cases "w_inodes w")
    case Nil
    then have "open_inode (w_procs w ! p) = None" using inv p(1) by (simp add: lock_inv_def)
    from open_None [OF this] p(2) show ?thesis by simp
  next
    case (Cons x xs)
    then have "in_owner x = Some p" "in_owner x = Some q" using inv p q by (auto simp: lock_inv_def split: list.splits)
    then show ?thesis by simp
  qed
  then have "card {p. p < length (w_procs w) \<and> holding (w_procs w ! p) \<noteq> None} \<le> 1"
    by (intro card_le_Suc0_iff_eq [THEN iffD2, simplified One_nat_def [symmetric]]) auto
  moreover have "length (filter (\<lambda>ph. holding ph \<noteq> None) (w_procs w)) = card {p. p < length (w_procs w) \<and> holding (w_procs w ! p) \<noteq> None}"
    by (rule length_filter_conv_card)
  moreover have "list_all (\<lambda>p. announced (w_procs w ! p) = None \<or> readPidFile (in_data (w_inodes w ! 0)) = int (pid p))
      [0..<length (w_procs w)]"
  proof (cases "w_inodes w")
    case Nil
    then have "open_inode (w_procs w ! p) = None" if "p < length (w_procs w)" for p using inv that by (simp add: lock_inv_def)
    then show ?thesis using open_None by (simp add: list_all_iff)
  next
    case (Cons x xs)
    then have "announced (w_procs w ! p) = None \<or> in_data x = pid_line (pid p)" if "p < length (w_procs w)" for p
      using inv that by (auto simp: lock_inv_def split: list.splits)
    moreover have "readPidFile (pid_line (pid p)) = int (pid p)" for p using assms(2) readPidFile_pid_line by blast
    ultimately show ?thesis unfolding list_all_iff Cons by (metis atLeastLessThan_iff nth_Cons_0 set_upt)
  qed
  ultimately show ?thesis by simp
qed

definition crash_acts :: "lock_act list" where
  "crash_acts = map (\<lambda>p. LStep p True) [0, 1, 0, 0, 0, 1, 1] @ [LDie 0] @ map (\<lambda>p. LStep p True) [2, 2, 2, 2, 2, 2, 2]"

theorem pidlock_exclusive_witness:
  "let w = lock_run (\<lambda>p. 100 + p mod 9) crash_acts (lock_init 3 (Some ''7'')) in
   length (filter (\<lambda>ph. holding ph \<noteq> None) (w_procs w)) \<le> 1 \<and>
    list_all (\<lambda>p. announced (w_procs w ! p) = None \<or> readPidFile (in_data (w_inodes w ! 0)) = int (100 + p mod 9))
      [0..<length (w_procs w)]"
proof -
  have q: "quiet_run (\<lambda>p. 100 + p mod 9) crash_acts (lock_init 3 (Some ''7''))" by code_simp
  have "100 + p mod 9 < 2 ^ 63" for p :: nat
  proof -
    have "100 + p mod 9 < 109" by simp
    also have "(109 :: nat) < 2 ^ 63" by simp
    finally show ?thesis .
  qed
  with pidlock_exclusive [OF q] show ?thesis unfolding Let_def by blast
qed

definition release_race_acts :: "lock_act list" where
  "release_race_acts = map (\<lambda>p. LStep p True) (replicate 7 0 @ [0, 0] @ replicate 7 1 @ [0, 0] @ replicate 7 2)"

text \<open>Removing the pidfile breaks the exclusion: \<^verbatim>\<open>Release\<close> unlocks before it unlinks the path.  A successor may
  lock the old inode in between, and the departing daemon then removes the successor's pidfile and its
  socket, so that a third daemon starts beside the second.\<close>

theorem release_race:
  "w_procs (lock_run id release_race_acts (lock_init 3 None)) ! 1 = ServingOn 0 \<and>
   w_procs (lock_run id release_race_acts (lock_init 3 None)) ! 2 = ServingOn 1 \<and>
   w_sock (lock_run id release_race_acts (lock_init 3 None)) = Some 2"
  by (intro conjI; code_simp)

end
