(* ===== verification/TicketSvc.thy ===== *)
theory TicketSvc
  imports GlobalStore DaemonSafety
begin

text \<open>
  \<^verbatim>\<open>internal/ticketsvc/svc.go\<close>: the funnel for writing a ticket's session id and for attaching to a session.
  \<^verbatim>\<open>TicketStore\<close> is the interface the code declares; its two methods, and the access to tickets behind
  pointers, are arguments of \<open>LinkSession\<close>.  The laws it relies on are a locale, interpreted on the global
  store; the attach gate is composed with the daemon's \<^verbatim>\<open>owns\<close> handler.
\<close>

section \<open>Linking\<close>

record LinkOpts =
  lo_BestEffort :: bool
  lo_Force :: bool

datatype 'e link_error = LE_exclusive | LE_already_linked string "TicketID list" | LE_clear TicketID 'e

text \<open>\<^verbatim>\<open>*board.Ticket\<close> pointers are read and written in the state.\<close>

record ('s, 'r) heap =
  hp_get :: "'r \<Rightarrow> 's \<Rightarrow> Ticket"
  hp_put :: "'r \<Rightarrow> Ticket \<Rightarrow> 's \<Rightarrow> 's"

record ('s, 'r, 'e) store_api =
  st_Find :: "string \<Rightarrow> 's \<Rightarrow> 'r list"
  st_Save :: "'r \<Rightarrow> 's \<Rightarrow> 's \<times> 'e option"

fun clear_conflicts ::
  "('s, 'r) heap \<Rightarrow> ('s, 'r, 'e) store_api \<Rightarrow> time \<Rightarrow> 'r list \<Rightarrow> 's \<Rightarrow> 's \<times> 'e link_error option" where
  "clear_conflicts H S now [] s = (s, None)"
| "clear_conflicts H S now (r # rs) s =
     (let s1 = hp_put H r (Touch now ((hp_get H r s)\<lparr>t_AgentSessionID := []\<rparr>)) s in
      case st_Save S r s1 of
        (s2, Some e) \<Rightarrow> (s2, Some (LE_clear (t_ID (hp_get H r s2)) e))
      | (s2, None) \<Rightarrow> clear_conflicts H S now rs s2)"

definition claim :: "('s, 'r) heap \<Rightarrow> time \<Rightarrow> 'r \<Rightarrow> string \<Rightarrow> 's \<Rightarrow> 's" where
  "claim H now r uuid s = hp_put H r (Touch now ((hp_get H r s)\<lparr>t_AgentSessionID := uuid\<rparr>)) s"

definition LinkSession ::
  "('s, 'r) heap \<Rightarrow> time \<Rightarrow> ('s, 'r, 'e) store_api option \<Rightarrow> 'r option \<Rightarrow> string \<Rightarrow> LinkOpts \<Rightarrow> 's \<Rightarrow>
   's \<times> bool \<times> 'e link_error option" where
  "LinkSession H now store requesting uuid opts s =
     (case (store, requesting) of
        (Some S, Some req) \<Rightarrow>
          if uuid = [] then (s, False, None)
          else if lo_BestEffort opts \<and> lo_Force opts then (s, False, Some LE_exclusive)
          else if t_AgentSessionID (hp_get H req s) = uuid then (s, False, None)
          else
            (let conflicts = filter (\<lambda>r. t_ID (hp_get H r s) \<noteq> t_ID (hp_get H req s)) (st_Find S uuid s) in
             if conflicts \<noteq> [] then
               (if lo_BestEffort opts then (s, False, None)
                else if \<not> lo_Force opts then
                  (s, False, Some (LE_already_linked uuid (map (\<lambda>r. t_ID (hp_get H r s)) conflicts)))
                else
                  (case clear_conflicts H S now conflicts s of
                     (s1, Some e) \<Rightarrow> (s1, False, Some e)
                   | (s1, None) \<Rightarrow> (claim H now req uuid s1, True, None)))
             else (claim H now req uuid s, True, None))
      | _ \<Rightarrow> (s, False, None))"

section \<open>Attaching\<close>

record SessionHolder =
  sh_PID :: int
  sh_Path :: string

record ErrSessionInUse =
  iu_UUID :: string
  iu_HolderPID :: int
  iu_HolderPath :: string
  iu_DaemonSessionID :: string
  iu_DaemonOwnedByTicketID :: string
  iu_ConflictSessionIDs :: "string list"

datatype attach_error = AE_probe string | AE_in_use ErrSessionInUse

type_synonym probe = "string \<Rightarrow> string + SessionHolder \<times> OwnsResp option"

text \<open>\<open>SessionActive\<close> is the \<^verbatim>\<open>lsof\<close> call of \<^verbatim>\<open>internal/agent\<close>, \<open>owns\<close> the daemon's RPC.\<close>

definition NewRealProbe :: "(string \<Rightarrow> string + SessionHolder) \<Rightarrow> (string \<Rightarrow> string + OwnsResp) option \<Rightarrow> probe" where
  "NewRealProbe SessionActive owns uuid =
     (case SessionActive uuid of
        Inl e \<Rightarrow> Inl (''ticketsvc: lsof probe: '' @ e)
      | Inr holder \<Rightarrow>
          (case owns of
             None \<Rightarrow> Inr (holder, None)
           | Some f \<Rightarrow> (case f uuid of Inl e \<Rightarrow> Inr (holder, None) | Inr resp \<Rightarrow> Inr (holder, Some resp))))"

definition in_use :: "string \<Rightarrow> ErrSessionInUse" where
  "in_use uuid = \<lparr>iu_UUID = uuid, iu_HolderPID = 0, iu_HolderPath = [], iu_DaemonSessionID = [],
     iu_DaemonOwnedByTicketID = [], iu_ConflictSessionIDs = []\<rparr>"

definition GateAttach :: "probe option \<Rightarrow> string \<Rightarrow> TicketID \<Rightarrow> attach_error option" where
  "GateAttach p uuid requestingTicketID =
     (case p of
        None \<Rightarrow> None
      | Some f \<Rightarrow>
          if uuid = [] then None
          else
            (case f uuid of
               Inl e \<Rightarrow> Some (AE_probe (''ticketsvc: probe session '' @ uuid @ '': '' @ e))
             | Inr (lsof, own) \<Rightarrow>
                 if sh_PID lsof > 0 then
                   Some (AE_in_use ((in_use uuid)\<lparr>iu_HolderPID := sh_PID lsof, iu_HolderPath := sh_Path lsof\<rparr>))
                 else
                   (case own of
                      None \<Rightarrow> None
                    | Some resp \<Rightarrow>
                        if \<not> ow_Owned resp then None
                        else if ow_Conflict resp then
                          Some (AE_in_use ((in_use uuid)\<lparr>iu_DaemonSessionID := ow_SessionID resp,
                                 iu_ConflictSessionIDs := ow_ConflictSessionIDs resp\<rparr>))
                        else if ow_OwnedByTicketID resp = [] then None
                        else if ow_OwnedByTicketID resp = requestingTicketID then None
                        else
                          Some (AE_in_use ((in_use uuid)\<lparr>iu_DaemonSessionID := ow_SessionID resp,
                                 iu_DaemonOwnedByTicketID := ow_OwnedByTicketID resp\<rparr>)))))"

section \<open>The store's contract\<close>

text \<open>What linking relies on: pointers read back what was written, the uniqueness scan is exact on the listed
  tickets, and a save changes neither the tickets nor the listing.\<close>

locale session_store =
  fixes H :: "('s, 'r) heap" and S :: "('s, 'r, 'e) store_api"
    and good :: "'s \<Rightarrow> bool" and listed :: "'r \<Rightarrow> 's \<Rightarrow> bool" and valid :: "'r \<Rightarrow> 's \<Rightarrow> bool"
  assumes get_put: "valid r s \<Longrightarrow> hp_get H q (hp_put H r t s) = (if q = r then t else hp_get H q s)"
    and put_good: "good s \<Longrightarrow> t_ID t = t_ID (hp_get H r s) \<Longrightarrow> t_ProjectID t = t_ProjectID (hp_get H r s) \<Longrightarrow> good (hp_put H r t s)"
    and put_listed: "valid r s \<Longrightarrow> t_ID t = t_ID (hp_get H r s) \<Longrightarrow> listed q (hp_put H r t s) = listed q s"
    and put_valid: "valid q (hp_put H r t s) = valid q s"
    and listed_valid: "good s \<Longrightarrow> listed r s \<Longrightarrow> valid r s"
    and find_iff: "good s \<Longrightarrow> u \<noteq> [] \<Longrightarrow> r \<in> set (st_Find S u s) \<longleftrightarrow> listed r s \<and> t_AgentSessionID (hp_get H r s) = u"
    and save_same: "good s \<Longrightarrow> listed r s \<Longrightarrow> st_Save S r s = (s', e) \<Longrightarrow>
      good s' \<and> (\<forall>q. hp_get H q s' = hp_get H q s \<and> listed q s' = listed q s \<and> valid q s' = valid q s)"
begin

lemma clear_conflicts_frame:
  assumes "clear_conflicts H S now rs s = (s', e)" "good s" "\<forall>r \<in> set rs. listed r s"
  shows "good s' \<and> (\<forall>q. listed q s' = listed q s \<and> valid q s' = valid q s \<and> t_ID (hp_get H q s') = t_ID (hp_get H q s) \<and>
     (q \<notin> set rs \<longrightarrow> hp_get H q s' = hp_get H q s) \<and>
     (e = None \<longrightarrow> q \<in> set rs \<longrightarrow> t_AgentSessionID (hp_get H q s') = []) \<and>
     (t_AgentSessionID (hp_get H q s') = [] \<or> t_AgentSessionID (hp_get H q s') = t_AgentSessionID (hp_get H q s)))"
  using assms
proof (induction rs arbitrary: s)
  case Nil
  then show ?case by auto
next
  case (Cons r rs)
  let ?s1 = "hp_put H r (Touch now ((hp_get H r s)\<lparr>t_AgentSessionID := []\<rparr>)) s"
  have r: "listed r s" "valid r s" using Cons.prems(2,3) listed_valid by auto
  have g1: "good ?s1" using Cons.prems(2) by (intro put_good) (simp_all add: Touch_def)
  have l1: "listed q ?s1 = listed q s" for q using r(2) by (intro put_listed) (simp_all add: Touch_def)
  have h1: "hp_get H q ?s1 = (if q = r then Touch now ((hp_get H r s)\<lparr>t_AgentSessionID := []\<rparr>) else hp_get H q s)" for q
    using r(2) by (rule get_put)
  obtain s2 e2 where sv: "st_Save S r ?s1 = (s2, e2)" by force
  have s2: "good s2" "hp_get H q s2 = hp_get H q ?s1" "listed q s2 = listed q s" "valid q s2 = valid q s" for q
    using save_same [OF g1 _ sv] r(1) l1 put_valid by auto
  have id: "t_ID (hp_get H q s2) = t_ID (hp_get H q s)" for q unfolding s2(2) h1 by (simp add: Touch_def)
  have emp: "t_AgentSessionID (hp_get H q s2) = [] \<or> t_AgentSessionID (hp_get H q s2) = t_AgentSessionID (hp_get H q s)" for q unfolding s2(2) h1 by (simp add: Touch_def)
  have re: "t_AgentSessionID (hp_get H r s2) = []" unfolding s2(2) h1 by (simp add: Touch_def)
  have oth: "hp_get H q s2 = hp_get H q s" if "q \<noteq> r" for q using that unfolding s2(2) h1 by simp
  show ?case
  proof (cases e2)
    case (Some e0)
    then have "s' = s2" "\<exists>y. e = Some y" using Cons.prems(1) sv by (auto simp: Let_def)
    then show ?thesis using s2(1,3,4) id emp oth by auto
  next
    case None
    then have c: "clear_conflicts H S now rs s2 = (s', e)" using Cons.prems(1) sv by (simp add: Let_def)
    have "\<forall>q \<in> set rs. listed q s2" using Cons.prems(3) s2(3) by simp
    note IH = Cons.IH [OF c s2(1) this]
    show ?thesis
    proof (intro conjI allI)
      show "good s'" using IH by (rule conjunct1)
      fix q
      note q = IH [THEN conjunct2, THEN spec, of q]
      show "listed q s' = listed q s" "valid q s' = valid q s" "t_ID (hp_get H q s') = t_ID (hp_get H q s)"
        using q s2(3) [of q] s2(4) [of q] id [of q] by simp_all
      show "q \<notin> set (r # rs) \<longrightarrow> hp_get H q s' = hp_get H q s" using q oth [of q] by simp
      show "t_AgentSessionID (hp_get H q s') = [] \<or> t_AgentSessionID (hp_get H q s') = t_AgentSessionID (hp_get H q s)"
        using q emp [of q] by (elim conjE disjE) simp_all
      show "e = None \<longrightarrow> q \<in> set (r # rs) \<longrightarrow> t_AgentSessionID (hp_get H q s') = []"
      proof (cases "q \<in> set rs")
        case False
        then have "hp_get H q s' = hp_get H q s2" using q by blast
        with False re show ?thesis by auto
      qed (use q in blast)
    qed
  qed
qed

text \<open>The other listed tickets after a successful link: none carries the session.\<close>

lemma LinkSession_exclusive:
  assumes "LinkSession H now (Some S) (Some req) uuid opts s = (s', True, e)" "good s" "valid req s"
  shows "e = None \<and> t_AgentSessionID (hp_get H req s') = uuid \<and>
    (\<forall>r \<in> set (st_Find S uuid s'). r = req \<or> t_ID (hp_get H r s') = t_ID (hp_get H req s'))"
proof -
  let ?ours = "\<lambda>r. t_ID (hp_get H r s) = t_ID (hp_get H req s)"
  define cs where "cs = filter (\<lambda>r. \<not> ?ours r) (st_Find S uuid s)"
  have u: "uuid \<noteq> []" and n: "t_AgentSessionID (hp_get H req s) \<noteq> uuid" and e: "e = None"
    using assms(1) by (auto simp: LinkSession_def Let_def split: if_splits option.splits prod.splits)
  have l: "\<forall>r \<in> set cs. listed r s" using assms(2) u by (auto simp: cs_def find_iff)
  have req: "req \<notin> set cs" by (simp add: cs_def)
  obtain s1 where s1: "s' = claim H now req uuid s1" "clear_conflicts H S now cs s = (s1, None)"
    using assms(1) u n by (auto simp: LinkSession_def Let_def cs_def split: if_splits option.splits prod.splits)
  note f = clear_conflicts_frame [OF s1(2) assms(2) l]
  have v: "valid req s1" using f assms(3) by simp
  have g: "hp_get H q s' = (if q = req then Touch now ((hp_get H req s1)\<lparr>t_AgentSessionID := uuid\<rparr>) else hp_get H q s1)" for q
    unfolding s1(1) claim_def using v by (rule get_put)
  have good': "good s'" unfolding s1(1) claim_def using f by (intro put_good) (simp_all add: Touch_def)
  have listed': "listed q s' = listed q s" for q
    unfolding s1(1) claim_def using f v put_listed [OF v, of "Touch now ((hp_get H req s1)\<lparr>t_AgentSessionID := uuid\<rparr>)" q]
    by (simp add: Touch_def)
  have "r = req \<or> t_ID (hp_get H r s') = t_ID (hp_get H req s')" if r: "r \<in> set (st_Find S uuid s')" for r
  proof (rule disjCI)
    assume ne: "t_ID (hp_get H r s') \<noteq> t_ID (hp_get H req s')"
    show "r = req"
    proof (rule ccontr)
      assume "r \<noteq> req"
      with g have "hp_get H r s' = hp_get H r s1" by simp
      moreover from r good' u have "listed r s'" "t_AgentSessionID (hp_get H r s') = uuid" by (simp_all add: find_iff)
      ultimately have r1: "listed r s" "t_AgentSessionID (hp_get H r s1) = uuid" using listed' by simp_all
      with f u have "t_AgentSessionID (hp_get H r s) = uuid" by metis
      with r1(1) assms(2) u have "r \<in> set (st_Find S uuid s)" by (simp add: find_iff)
      moreover have "\<not> ?ours r" using ne g f \<open>r \<noteq> req\<close> by (simp add: Touch_def)
      ultimately have "r \<in> set cs" by (simp add: cs_def)
      with f r1(2) u show False by auto
    qed
  qed
  with e g show ?thesis by (auto simp: Touch_def)
qed

end

section \<open>The global store meets the contract\<close>

definition ticket_heap :: "(GlobalStore \<times> world, ref) heap" where
  "ticket_heap = \<lparr>hp_get = (\<lambda>r gw. deref (snd gw) r), hp_put = (\<lambda>r t gw. (fst gw, set_ticket r t (snd gw)))\<rparr>"

definition global_api :: "io_env \<Rightarrow> (GlobalStore \<times> world, ref, global_error) store_api" where
  "global_api E =
     \<lparr>st_Find = (\<lambda>u gw. FindByAgentSessionID u (fst gw) (snd gw)),
      st_Save = (\<lambda>r gw. case Global_Save E r (fst gw) (snd gw) of (g, w, e) \<Rightarrow> ((g, w), e))\<rparr>"

definition gw_listed :: "ref \<Rightarrow> GlobalStore \<times> world \<Rightarrow> bool" where
  "gw_listed r gw \<longleftrightarrow> mget (g_all (fst gw)) (t_ID (deref (snd gw) r)) = Some r"

lemma Find_iff:
  assumes "gs_inv g w" "u \<noteq> []"
  shows "r \<in> set (FindByAgentSessionID u g w) \<longleftrightarrow> mget (g_all g) (t_ID (deref w r)) = Some r \<and> t_AgentSessionID (deref w r) = u"
proof -
  have wf: "mwf (g_all g)" using assms(1) by (rule gs_inv_mwf)
  have "t_ID (deref w r) = i" if "(i, r) \<in> set (g_all g)" for i
    using that assms(1) wf by (auto simp: in_set_mget elim: gs_invD)
  then have "r \<in> snd ` set (g_all g) \<longleftrightarrow> mget (g_all g) (t_ID (deref w r)) = Some r"
    using wf by (force simp: in_set_mget [symmetric])
  with assms(2) show ?thesis by (auto simp: FindByAgentSessionID_def)
qed

lemma Global_Save_index: "Global_Save E r g w = (g', w', e) \<Longrightarrow> g_all g' = g_all g"
  by (auto simp: Global_Save_def set_store_def Let_def split: option.splits prod.splits)

interpretation links: session_store ticket_heap "global_api E" "\<lambda>gw. gs_inv (fst gw) (snd gw)" gw_listed
  "\<lambda>r gw. r < length (w_heap (snd gw))" for E
proof
  fix gw :: "GlobalStore \<times> world" and r q t
  show "r < length (w_heap (snd gw)) \<Longrightarrow>
      hp_get ticket_heap q (hp_put ticket_heap r t gw) = (if q = r then t else hp_get ticket_heap q gw)"
    by (simp add: ticket_heap_def deref_def set_ticket_def nth_list_update)
  show "gs_inv (fst gw) (snd gw) \<Longrightarrow> t_ID t = t_ID (hp_get ticket_heap r gw) \<Longrightarrow>
      t_ProjectID t = t_ProjectID (hp_get ticket_heap r gw) \<Longrightarrow>
      gs_inv (fst (hp_put ticket_heap r t gw)) (snd (hp_put ticket_heap r t gw))"
    by (simp add: ticket_heap_def gs_inv_set_ticket)
  show "r < length (w_heap (snd gw)) \<Longrightarrow> t_ID t = t_ID (hp_get ticket_heap r gw) \<Longrightarrow>
      gw_listed q (hp_put ticket_heap r t gw) = gw_listed q gw"
    by (simp add: ticket_heap_def gw_listed_def deref_def set_ticket_def nth_list_update)
  show "(q < length (w_heap (snd (hp_put ticket_heap r t gw)))) = (q < length (w_heap (snd gw)))"
    by (simp add: ticket_heap_def set_ticket_def)
  show "gs_inv (fst gw) (snd gw) \<Longrightarrow> gw_listed r gw \<Longrightarrow> r < length (w_heap (snd gw))"
    by (auto simp: gw_listed_def elim: gs_invD)
  show "gs_inv (fst gw) (snd gw) \<Longrightarrow> u \<noteq> [] \<Longrightarrow>
      r \<in> set (st_Find (global_api E) u gw) \<longleftrightarrow> gw_listed r gw \<and> t_AgentSessionID (hp_get ticket_heap r gw) = u" for u
    by (simp add: global_api_def gw_listed_def ticket_heap_def Find_iff)
  fix s' e
  assume a: "gs_inv (fst gw) (snd gw)" "gw_listed r gw" "st_Save (global_api E) r gw = (s', e)"
  obtain g' w' where sv: "Global_Save E r (fst gw) (snd gw) = (g', w', e)" "s' = (g', w')"
    using a(3) by (auto simp: global_api_def split: prod.splits)
  from gs_inv_Save [OF a(1) _ sv(1)] a(2) have "gs_inv g' w'" "w_heap w' = w_heap (snd gw)" by (simp_all add: gw_listed_def)
  with sv(2) Global_Save_index [OF sv(1)]
  show "gs_inv (fst s') (snd s') \<and> (\<forall>q. hp_get ticket_heap q s' = hp_get ticket_heap q gw \<and> gw_listed q s' = gw_listed q gw \<and>
      (q < length (w_heap (snd s'))) = (q < length (w_heap (snd gw))))"
    by (simp add: ticket_heap_def gw_listed_def deref_def)
qed

section \<open>Properties\<close>

text \<open>C19: Linking keeps sessions one-to-one: when \<^verbatim>\<open>LinkSession\<close> reports that it wrote, the requesting ticket carries the
  session and no other listed ticket does, whatever tickets carried it before and whatever the options; when it
  reports anything else, the requesting ticket is unchanged.\<close>

theorem LinkSession_one_to_one:
  assumes "gs_run g w" and "req < length (w_heap w)"
    and "LinkSession ticket_heap now (Some (global_api E)) (Some req) uuid opts (g, w) = ((g', w'), written, e)"
  shows "if written then e = None \<and> t_AgentSessionID (deref w' req) = uuid \<and>
       list_all (\<lambda>r. t_ID (deref w' r) = t_ID (deref w' req)) (FindByAgentSessionID uuid g' w')
     else deref w' req = deref w req"
proof (cases written)
  case True
  have "gs_inv g w" using assms(1) by (rule gs_run_inv)
  with links.LinkSession_exclusive [of now E req uuid opts "(g, w)" "(g', w')" e] True assms(2,3)
  show ?thesis by (auto simp: ticket_heap_def global_api_def list_all_iff)
next
  case False
  let ?cs = "filter (\<lambda>r. t_ID (hp_get ticket_heap r (g, w)) \<noteq> t_ID (hp_get ticket_heap req (g, w))) (st_Find (global_api E) uuid (g, w))"
  have "(g', w') = (g, w) \<or> (uuid \<noteq> [] \<and> (\<exists>e'. clear_conflicts ticket_heap (global_api E) now ?cs (g, w) = ((g', w'), Some e')))"
    using assms(3) False by (auto simp: LinkSession_def Let_def split: if_splits option.splits prod.splits)
  then show ?thesis
  proof
    assume "uuid \<noteq> [] \<and> (\<exists>e'. clear_conflicts ticket_heap (global_api E) now ?cs (g, w) = ((g', w'), Some e'))"
    then obtain e' where u: "uuid \<noteq> []" and c: "clear_conflicts ticket_heap (global_api E) now ?cs (g, w) = ((g', w'), Some e')"
      by blast
    have inv: "gs_inv g w" using assms(1) by (rule gs_run_inv)
    then have "\<forall>r \<in> set ?cs. gw_listed r (g, w)" using u by (auto simp: gw_listed_def global_api_def Find_iff)
    from links.clear_conflicts_frame [OF c _ this] inv False show ?thesis by (simp add: ticket_heap_def)
  qed (use False in simp)
qed

text \<open>The attach gate against this daemon is exact: with no local process on the session's file, an attach is allowed
  just when the daemon has no session with that UUID, or exactly one and it belongs to the requesting ticket.\<close>

theorem GateAttach_exact:
  assumes "sv_reach s" and "uuid \<noteq> []" and "SessionActive uuid = Inr \<lparr>sh_PID = 0, sh_Path = path\<rparr>"
  shows "GateAttach (Some (NewRealProbe SessionActive (Some (\<lambda>u. Inr (handleOwns u s))))) uuid t = None \<longleftrightarrow>
    (case filter (\<lambda>r. s_agentSessionUUID (sess s r) = uuid) (map snd (sv_reg s)) of
       [] \<Rightarrow> True
     | [r] \<Rightarrow> tid s r = t
     | _ \<Rightarrow> False)"
proof -
  have ok: "reg_ok s" using reach_inv [OF assms(1)] by (simp add: sv_inv_def)
  define ms where "ms = filter (\<lambda>r. s_agentSessionUUID (sess s r) = uuid) (map snd (sv_reg s))"
  have t: "tid s r \<noteq> []" if "r \<in> set ms" for r using that ok by (auto simp: ms_def reg_ok_def)
  show ?thesis
    using assms(2,3) t unfolding ms_def [symmetric]
    by (auto simp: GateAttach_def NewRealProbe_def handleOwns_def ms_def [symmetric] not_owned_def split: list.splits)
qed

definition link_run :: "(GlobalStore \<times> world) \<times> bool \<times> global_error link_error option" where
  "link_run = LinkSession ticket_heap 9 (Some (global_api mig_example_env)) (Some 0) ''u''
     \<lparr>lo_BestEffort = False, lo_Force = True\<rparr> example_gw"

theorem LinkSession_one_to_one_witness:
  "fst (snd link_run) \<and> t_AgentSessionID (deref (snd (fst link_run)) 0) = ''u'' \<and>
     list_all (\<lambda>r. t_ID (deref (snd (fst link_run)) r) = t_ID (deref (snd (fst link_run)) 0))
       (FindByAgentSessionID ''u'' (fst (fst link_run)) (snd (fst link_run)))"
proof -
  have w: "fst (snd link_run)" by code_simp
  have l: "0 < length (w_heap (snd example_gw))" by code_simp
  have "LinkSession ticket_heap 9 (Some (global_api mig_example_env)) (Some 0) ''u'' \<lparr>lo_BestEffort = False, lo_Force = True\<rparr>
      (fst example_gw, snd example_gw) =
    ((fst (fst link_run), snd (fst link_run)), fst (snd link_run), snd (snd link_run))" by (simp add: link_run_def)
  from LinkSession_one_to_one [OF example_run l this] w show ?thesis by simp
qed

definition linked_spawn :: Server where
  "linked_spawn = the (sv_run ([Accept, SpawnStart 0 (example_req\<lparr>sp_AgentSessionUUID := ''u''\<rparr>)] @
     spawn_acts 0 (example_env ''a'' 71)) (NewServer False 1))"

lemma linked_spawn: "sv_reach linked_spawn"
  unfolding linked_spawn_def by (rule run_reach) code_simp

theorem GateAttach_exact_witness:
  "GateAttach (Some (NewRealProbe (\<lambda>u. Inr \<lparr>sh_PID = 0, sh_Path = ''p''\<rparr>) (Some (\<lambda>u. Inr (handleOwns u linked_spawn))))) ''u'' ''t1'' = None \<longleftrightarrow>
    (case filter (\<lambda>r. s_agentSessionUUID (sess linked_spawn r) = ''u'') (map snd (sv_reg linked_spawn)) of
       [] \<Rightarrow> True
     | [r] \<Rightarrow> tid linked_spawn r = ''t1''
     | _ \<Rightarrow> False)"
  by (rule GateAttach_exact [OF linked_spawn]) simp_all

end
