(* ===== verification/AgentDetect.thy ===== *)
theory AgentDetect
  imports Board
begin

text \<open>
  \<^verbatim>\<open>internal/agent/status.go\<close> and \<^verbatim>\<open>cmd/status.go\<close>: how an agent's status is found from its hook's status file, the
  opencode HTTP API and the text on the screen, through a 500 ms cache.  Screens and files are lists of runes
  (\<open>ulow\<close> is \<^verbatim>\<open>unicode.ToLower\<close> beyond ASCII); the file system and the HTTP response are arguments.
\<close>

section \<open>Screens\<close>

fun split_on :: "'a \<Rightarrow> 'a list \<Rightarrow> 'a list list" where
  "split_on c [] = [[]]"
| "split_on c (x # xs) =
     (if x = c then [] # split_on c xs
      else case split_on c xs of l # ls \<Rightarrow> (x # l) # ls | [] \<Rightarrow> [[x]])"

fun join_on :: "'a \<Rightarrow> 'a list list \<Rightarrow> 'a list" where
  "join_on c [] = []"
| "join_on c [l] = l"
| "join_on c (l # ls) = l @ c # join_on c ls"

definition last_n :: "nat \<Rightarrow> 'a list \<Rightarrow> 'a list" where
  "last_n n xs = drop (length xs - n) xs"

definition tail_lines :: "nat \<Rightarrow> rune list \<Rightarrow> rune list" where
  "tail_lines n content = join_on 10 (last_n n (split_on 10 content))"

definition lower :: "(rune \<Rightarrow> rune) \<Rightarrow> rune list \<Rightarrow> rune list" where
  "lower ulow rs = map (to_lower ulow) rs"

definition any_in :: "rune list list \<Rightarrow> rune list \<Rightarrow> bool" where
  "any_in pats s \<longleftrightarrow> list_ex (contains s) pats"

definition permissionPromptSignatures :: "rune list list" where
  "permissionPromptSignatures = map runes [''do you want to'', ''esc to cancel'', ''would you like to proceed'',
     ''would you like to install'', ''would you like to create a manifest'', ''would you like to stash these changes'']"

definition backgroundAgentSignatures :: "rune list list" where
  "backgroundAgentSignatures = map runes [''background agent to finish'', ''background agents to finish'']"

definition activeTurnMarkers :: "rune list list" where
  "activeTurnMarkers = [runes ''esc to interrupt'', runes '' x to stop'', [183, 32, 8595, 32]]"

definition activeTurnSpinnerGlyphs :: "rune list list" where
  "activeTurnSpinnerGlyphs = map (\<lambda>g. [g]) [10251, 10265, 10297, 10296, 10300, 10292, 10278, 10279, 10247, 10255]"

definition backgroundWaitVisible :: "(rune \<Rightarrow> rune) \<Rightarrow> rune list \<Rightarrow> bool" where
  "backgroundWaitVisible ulow content \<longleftrightarrow>
     content \<noteq> [] \<and> any_in backgroundAgentSignatures (lower ulow (tail_lines 15 content))"

definition permissionPromptVisible :: "(rune \<Rightarrow> rune) \<Rightarrow> rune list \<Rightarrow> bool" where
  "permissionPromptVisible ulow content \<longleftrightarrow>
     content \<noteq> [] \<and> any_in permissionPromptSignatures (lower ulow (tail_lines 15 content))"

definition activeTurnVisible :: "(rune \<Rightarrow> rune) \<Rightarrow> rune list \<Rightarrow> bool" where
  "activeTurnVisible ulow content \<longleftrightarrow>
     content \<noteq> [] \<and> (any_in activeTurnMarkers (lower ulow (tail_lines 15 content)) \<or>
       any_in activeTurnSpinnerGlyphs (lower ulow (tail_lines 15 content)))"

definition waitingPatterns :: "rune list list" where
  "waitingPatterns = map runes [''waiting for'', ''do you want'', ''would you like'', ''[y/n]'', ''(y/n)'', ''press enter'',
     ''confirm'', ''permission'', ''approve'', ''allow'', ''accept'', ''proceed'']"

definition workingPatterns :: "rune list list" where
  "workingPatterns = map runes ['' x to stop'', ''thinking'', ''processing'', ''running'', ''executing'', ''writing'',
     ''reading'', ''searching'', ''analyzing'', ''generating'', ''fetching'', ''loading'', ''compiling'', ''building'',
     ''installing'', ''calling'', ''invoking''] @
     map (\<lambda>g. [g]) ([9473, 9608, 9619, 9679, 9680, 9683, 9681, 9682] @
       [10251, 10265, 10297, 10296, 10300, 10292, 10278, 10279, 10247, 10255])"

definition errorPatterns :: "rune list list" where
  "errorPatterns = map runes [''error:'', ''failed:'', ''exception:'', ''rate limit'', ''quota exceeded'', ''api error'',
     ''timeout'', ''connection refused'', ''unauthorized'']"

definition idlePatterns :: "rune list list" where
  "idlePatterns = map runes [''$/'', ''cost:'', ''tokens:'', ''messages:'']"

definition detectCodingAgentStatus :: "rune list \<Rightarrow> AgentStatus" where
  "detectCodingAgentStatus recentLower =
     (if any_in backgroundAgentSignatures recentLower then AgentSubagents
      else if any_in waitingPatterns recentLower then AgentWaiting
      else if any_in workingPatterns recentLower then AgentWorking
      else if any_in errorPatterns recentLower then AgentError
      else if any_in idlePatterns recentLower then AgentIdle
      else AgentNone)"

definition detectGenericAgentStatus :: "rune list \<Rightarrow> AgentStatus" where
  "detectGenericAgentStatus recentLower =
     (if any_in (map runes [''error'', ''failed'']) recentLower then AgentError
      else if any_in (map runes [''...'', ''processing'']) recentLower then AgentWorking
      else AgentNone)"

definition detectFromTerminalContent :: "(rune \<Rightarrow> rune) \<Rightarrow> string \<Rightarrow> rune list \<Rightarrow> AgentStatus" where
  "detectFromTerminalContent ulow agentType content =
     (let recentLower = lower ulow (tail_lines 10 content) in
      if agentType \<in> {''opencode'', ''claude'', ''gemini'', ''codex''} then detectCodingAgentStatus recentLower
      else detectGenericAgentStatus recentLower)"

section \<open>Status files\<close>

definition trim_space :: "rune list \<Rightarrow> rune list" where
  "trim_space s = trim_right is_space (trim_left is_space s)"

text \<open>The status a file's contents stand for.\<close>

definition file_status :: "string \<Rightarrow> AgentStatus" where
  "file_status content =
     (let s = trim_space (runes content) in
      if s = runes ''working'' then AgentWorking
      else if s = runes ''done'' \<or> s = runes ''idle'' then AgentIdle
      else if s = runes ''waiting'' \<or> s = runes ''permission'' then AgentWaiting
      else if s = runes ''error'' then AgentError
      else if s = runes ''completed'' then AgentCompleted
      else AgentNone)"

text \<open>The file system: \<open>None\<close> is a read error.  A path is a directory and a file name below it.\<close>

type_synonym status_files = "string \<Rightarrow> string \<Rightarrow> string option"

fun read_dirs :: "status_files \<Rightarrow> string \<Rightarrow> string list \<Rightarrow> AgentStatus" where
  "read_dirs fs name [] = AgentNone"
| "read_dirs fs name (d # ds) =
     (case fs d (name @ ''.status'') of
        None \<Rightarrow> read_dirs fs name ds
      | Some content \<Rightarrow> if file_status content \<noteq> AgentNone then file_status content else read_dirs fs name ds)"

record StatusDetector =
  sd_cache :: "(string, AgentStatus \<times> time) gomap"
  sd_expiration :: time
  sd_dirs :: "string list"

definition NewStatusDetector :: "string \<Rightarrow> StatusDetector" where
  "NewStatusDetector home =
     \<lparr>sd_cache = [], sd_expiration = 500000000, sd_dirs = [home @ ''/.cache/openkanban-status'']\<rparr>"

definition cached :: "string \<Rightarrow> time \<Rightarrow> StatusDetector \<Rightarrow> AgentStatus option" where
  "cached key now d =
     (case mget (sd_cache d) key of
        None \<Rightarrow> None
      | Some (st, t) \<Rightarrow> if now - t < sd_expiration d then Some st else None)"

definition remember :: "string \<Rightarrow> AgentStatus \<Rightarrow> time \<Rightarrow> StatusDetector \<Rightarrow> StatusDetector" where
  "remember key st now d = d\<lparr>sd_cache := mput key (st, now) (sd_cache d)\<rparr>"

definition readStatusFile :: "status_files \<Rightarrow> time \<Rightarrow> string \<Rightarrow> StatusDetector \<Rightarrow> StatusDetector \<times> AgentStatus" where
  "readStatusFile fs now sessionName d =
     (if sessionName = [] then (d, AgentNone)
      else case cached (''file:'' @ sessionName) now d of
        Some st \<Rightarrow> (d, st)
      | None \<Rightarrow>
          (let st = read_dirs fs sessionName (sd_dirs d) in (remember (''file:'' @ sessionName) st now d, st)))"

section \<open>The opencode API\<close>

text \<open>A decoded \<^verbatim>\<open>/session/status\<close> response maps session ids to types; \<open>None\<close> is any failure.\<close>

type_synonym opencode_api = "int \<Rightarrow> (string, string) gomap option"

definition mapOpencodeStatus :: "string \<Rightarrow> AgentStatus" where
  "mapOpencodeStatus ty =
     (if ty = ''busy'' then AgentWorking else if ty = ''idle'' then AgentIdle else if ty = ''retry'' then AgentError else AgentNone)"

definition queryOpencodeAPIOnPort ::
  "opencode_api \<Rightarrow> time \<Rightarrow> string \<Rightarrow> int \<Rightarrow> StatusDetector \<Rightarrow> StatusDetector \<times> AgentStatus" where
  "queryOpencodeAPIOnPort api now sessionID port d =
     (let key = ''opencode-port:'' @ format_int port @ '':'' @ sessionID in
      case cached key now d of
        Some st \<Rightarrow> (d, st)
      | None \<Rightarrow>
          (case api port of
             None \<Rightarrow> (d, AgentNone)
           | Some resp \<Rightarrow>
               (let st = (if sessionID = [] then AgentNone
                          else case mget resp sessionID of Some ty \<Rightarrow> mapOpencodeStatus ty | None \<Rightarrow> AgentIdle) in
                (remember key st now d, st))))"

definition InvalidateCache :: "string \<Rightarrow> StatusDetector \<Rightarrow> StatusDetector" where
  "InvalidateCache sessionName d =
     (if sessionName = [] then d\<lparr>sd_cache := []\<rparr>
      else
        (let c = mdel (''opencode:'' @ sessionName) (mdel (''file:'' @ sessionName) (sd_cache d)) in
         d\<lparr>sd_cache := filter (\<lambda>(k, v). \<not> (has_prefix k ''opencode-port:'' \<and> has_suffix k ('':'' @ sessionName))) c\<rparr>))"

section \<open>Detection\<close>

record detect_env =
  de_files :: status_files
  de_api :: opencode_api
  de_ulow :: "rune \<Rightarrow> rune"

definition DetectStatusWithPortAPI ::
  "detect_env \<Rightarrow> time \<Rightarrow> string \<Rightarrow> string \<Rightarrow> string \<Rightarrow> int \<Rightarrow> bool \<Rightarrow> rune list \<Rightarrow> StatusDetector \<Rightarrow>
   StatusDetector \<times> AgentStatus" where
  "DetectStatusWithPortAPI E now agentType fileSessionName apiSessionID port processRunning content d =
     (case readStatusFile (de_files E) now fileSessionName d of
        (d1, fileStatus) \<Rightarrow>
          if fileStatus \<noteq> AgentNone \<and> (processRunning \<or> fileStatus = AgentCompleted \<or> fileStatus = AgentError) then
            (d1, fileStatus)
          else if \<not> processRunning then (d1, AgentNone)
          else if agentType = ''opencode'' \<and> port > 0 then
            queryOpencodeAPIOnPort (de_api E) now (if apiSessionID = [] then fileSessionName else apiSessionID) port d1
          else if content \<noteq> [] then (d1, detectFromTerminalContent (de_ulow E) agentType content)
          else (d1, AgentNone))"

definition refine_status :: "(rune \<Rightarrow> rune) \<Rightarrow> rune list \<Rightarrow> time option \<Rightarrow> AgentStatus \<Rightarrow> AgentStatus" where
  "refine_status ulow content lastActivity status =
     (if status = AgentCompleted \<or> status = AgentError then status
      else if backgroundWaitVisible ulow content then AgentSubagents
      else if status = AgentWorking then
        (if permissionPromptVisible ulow content \<and> \<not> activeTurnVisible ulow content then AgentWaiting else status)
      else if status = AgentIdle then
        (if \<not> permissionPromptVisible ulow content \<and> activeTurnVisible ulow content then AgentWorking else status)
      else if status \<noteq> AgentWaiting then status
      else if lastActivity = None then status
      else if permissionPromptVisible ulow content then AgentWaiting
      else if activeTurnVisible ulow content then AgentWorking
      else status)"

definition DetectStatusWithActivity ::
  "detect_env \<Rightarrow> time \<Rightarrow> string \<Rightarrow> string \<Rightarrow> string \<Rightarrow> int \<Rightarrow> bool \<Rightarrow> rune list \<Rightarrow> time option \<Rightarrow>
   StatusDetector \<Rightarrow> StatusDetector \<times> AgentStatus" where
  "DetectStatusWithActivity E now agentType fileSessionName apiSessionID port processRunning content lastActivity d =
     (case DetectStatusWithPortAPI E now agentType fileSessionName apiSessionID port processRunning content d of
        (d1, status) \<Rightarrow> (d1, refine_status (de_ulow E) content lastActivity status))"

section \<open>Writing status files\<close>

definition status_string :: "AgentStatus \<Rightarrow> string" where
  "status_string st =
     (if st = AgentWorking then ''working'' else if st = AgentIdle then ''idle'' else if st = AgentWaiting then ''waiting''
      else if st = AgentCompleted then ''completed'' else if st = AgentError then ''error'' else ''idle'')"

text \<open>A write of a file that succeeds; \<^verbatim>\<open>StatusDir\<close> honours \<^verbatim>\<open>OPENKANBAN_STATUS_DIR\<close>.\<close>

definition StatusDir :: "string \<Rightarrow> string \<Rightarrow> string" where
  "StatusDir env home = (if env \<noteq> [] then env else home @ ''/.cache/openkanban-status'')"

definition WriteStatusFile :: "string \<Rightarrow> string \<Rightarrow> AgentStatus \<Rightarrow> status_files \<Rightarrow> status_files" where
  "WriteStatusFile dir sessionName st fs =
     (\<lambda>d f. if d = dir \<and> f = sessionName @ ''.status'' then Some (status_string st @ [CHR 0x0A]) else fs d f)"

definition CleanupStatusFile :: "string \<Rightarrow> string \<Rightarrow> status_files \<Rightarrow> status_files" where
  "CleanupStatusFile dir sessionName fs = (\<lambda>d f. if d = dir \<and> f = sessionName @ ''.status'' then None else fs d f)"

text \<open>A missing file reads as the empty string; other read errors are not modelled.\<close>

definition ReadStatusFile :: "string \<Rightarrow> string \<Rightarrow> status_files \<Rightarrow> rune list" where
  "ReadStatusFile dir sessionName fs =
     (case fs dir (sessionName @ ''.status'') of None \<Rightarrow> [] | Some content \<Rightarrow> trim_space (runes content))"

definition ReadAgentStatus :: "string \<Rightarrow> string \<Rightarrow> status_files \<Rightarrow> AgentStatus" where
  "ReadAgentStatus dir sessionName fs =
     (if sessionName = [] then AgentNone
      else case fs dir (sessionName @ ''.status'') of None \<Rightarrow> AgentNone | Some content \<Rightarrow> file_status content)"

definition parseAgentStatus :: "string \<Rightarrow> AgentStatus option" where
  "parseAgentStatus state =
     (if state = ''working'' then Some AgentWorking else if state = ''idle'' then Some AgentIdle
      else if state = ''waiting'' then Some AgentWaiting else if state = ''completed'' then Some AgentCompleted
      else if state = ''error'' then Some AgentError else None)"

text \<open>\<^verbatim>\<open>openkanban status set\<close>; \<open>None\<close> is the error exit.\<close>

definition status_set :: "string \<Rightarrow> string \<Rightarrow> string \<Rightarrow> status_files \<Rightarrow> status_files option" where
  "status_set dir session state fs =
     (if session = [] then Some fs
      else case parseAgentStatus state of
        None \<Rightarrow> None
      | Some st \<Rightarrow>
          if st \<noteq> AgentCompleted \<and> st \<noteq> AgentError \<and> ReadStatusFile dir session fs = runes ''completed'' then Some fs
          else Some (WriteStatusFile dir session st fs))"

section \<open>Lemmas\<close>

lemma runes_distinct:
  "runes ''working'' = [119, 111, 114, 107, 105, 110, 103]" "runes ''done'' = [100, 111, 110, 101]"
  "runes ''idle'' = [105, 100, 108, 101]" "runes ''waiting'' = [119, 97, 105, 116, 105, 110, 103]"
  "runes ''permission'' = [112, 101, 114, 109, 105, 115, 115, 105, 111, 110]" "runes ''error'' = [101, 114, 114, 111, 114]"
  "runes ''completed'' = [99, 111, 109, 112, 108, 101, 116, 101, 100]"
  by code_simp+

lemma trim_status_string:
  "trim_space (runes (status_string st @ [CHR 0x0A])) = runes (status_string st)"
proof -
  have "trim_space (runes (w @ [CHR 0x0A])) = runes w" if "w \<in> {''working'', ''idle'', ''waiting'', ''completed'', ''error''}" for w
    using that by (elim insertE emptyE; hypsubst; code_simp)
  then show ?thesis by (simp add: status_string_def)
qed

lemma file_status_string:
  "st \<in> {AgentWorking, AgentIdle, AgentWaiting, AgentCompleted, AgentError} \<Longrightarrow> file_status (status_string st @ [CHR 0x0A]) = st"
  unfolding file_status_def trim_status_string by (auto simp: status_string_def runes_distinct)

text \<open>Cache entries of files: what was read then.\<close>

definition cache_ok :: "(time \<Rightarrow> status_files) \<Rightarrow> time \<Rightarrow> StatusDetector \<Rightarrow> bool" where
  "cache_ok F now d \<longleftrightarrow>
     (\<forall>n st t. mget (sd_cache d) (''file:'' @ n) = Some (st, t) \<longrightarrow> t \<le> now \<and> st = read_dirs (F t) n (sd_dirs d))"

fun poll :: "(time \<Rightarrow> status_files) \<Rightarrow> (time \<times> string) list \<Rightarrow> StatusDetector \<Rightarrow> AgentStatus list" where
  "poll F [] d = []"
| "poll F ((now, n) # qs) d = (case readStatusFile (F now) now n d of (d', st) \<Rightarrow> st # poll F qs d')"

lemma readStatusFile_ok:
  assumes "cache_ok F now d" "n \<noteq> []" "readStatusFile (F now) now n d = (d', st)"
  shows "cache_ok F now d'" "sd_dirs d' = sd_dirs d" "sd_expiration d' = sd_expiration d"
    "0 < sd_expiration d \<Longrightarrow> \<exists>t. now - sd_expiration d < t \<and> t \<le> now \<and> st = read_dirs (F t) n (sd_dirs d)"
proof -
  show "cache_ok F now d'" "sd_dirs d' = sd_dirs d" "sd_expiration d' = sd_expiration d"
    using assms by (auto simp: readStatusFile_def cache_ok_def remember_def Let_def split: option.splits if_splits)
  assume e: "0 < sd_expiration d"
  show "\<exists>t. now - sd_expiration d < t \<and> t \<le> now \<and> st = read_dirs (F t) n (sd_dirs d)"
  proof (cases "cached (''file:'' @ n) now d")
    case None
    then have "st = read_dirs (F now) n (sd_dirs d)" using assms by (simp add: readStatusFile_def Let_def)
    with e show ?thesis by (intro exI [of _ now]) simp
  next
    case (Some x)
    then obtain t where t: "mget (sd_cache d) (''file:'' @ n) = Some (x, t)" "now - t < sd_expiration d"
      by (auto simp: cached_def split: option.splits if_splits)
    moreover have "st = x" using Some assms by (simp add: readStatusFile_def)
    ultimately show ?thesis using assms(1) by (intro exI [of _ t]) (auto simp: cache_ok_def)
  qed
qed

lemma cache_ok_mono: "cache_ok F now d \<Longrightarrow> now \<le> now' \<Longrightarrow> cache_ok F now' d"
  unfolding cache_ok_def by (meson order_trans)

lemma poll_ok:
  assumes "cache_ok F now d" "sorted (now # map fst qs)" "\<forall>q \<in> set qs. snd q \<noteq> []" "0 < sd_expiration d"
  shows "list_all2 (\<lambda>(now, n) st. \<exists>t. now - sd_expiration d < t \<and> t \<le> now \<and> st = read_dirs (F t) n (sd_dirs d)) qs (poll F qs d)"
  using assms
proof (induction F qs d arbitrary: now rule: poll.induct)
  case (2 F t n qs d)
  obtain d' st where r: "readStatusFile (F t) t n d = (d', st)" by force
  have c: "cache_ok F t d" using 2(2,3) by (auto intro: cache_ok_mono)
  have "n \<noteq> []" using 2(4) by simp
  note ok = readStatusFile_ok [OF c this r]
  have "list_all2 (\<lambda>(now, n) st. \<exists>t. now - sd_expiration d' < t \<and> t \<le> now \<and> st = read_dirs (F t) n (sd_dirs d')) qs (poll F qs d')"
    using 2(1) [OF r [symmetric] ok(1)] 2(3-5) ok(3) by simp
  with ok r 2(5) show ?case by simp
qed simp

section \<open>Properties\<close>

text \<open>C23: A prompt is never hidden behind \<^verbatim>\<open>working\<close>: when the last lines of the screen show an approval prompt and no
  sign of an active turn, the detected status is not \<^verbatim>\<open>working\<close>, whatever the status file, the API, the cache
  and the older screen text say.\<close>

theorem prompt_never_working:
  assumes "permissionPromptVisible (de_ulow E) content" and "\<not> activeTurnVisible (de_ulow E) content"
  shows "snd (DetectStatusWithActivity E now agentType f api port running content lastActivity d) \<noteq> AgentWorking"
  using assms by (simp add: DetectStatusWithActivity_def refine_status_def split: prod.splits)

definition example_screen :: "rune list" where
  "example_screen = runes ''running tests'' @ [10] @ runes ''Do you want to proceed?''"

definition example_detect :: detect_env where
  "example_detect = \<lparr>de_files = (\<lambda>d f. Some ''working''), de_api = (\<lambda>p. None), de_ulow = (\<lambda>r. r)\<rparr>"

lemma example_tail:
  "lower (\<lambda>r. r) (tail_lines 15 example_screen) =
     [114, 117, 110, 110, 105, 110, 103, 32, 116, 101, 115, 116, 115, 10, 100, 111, 32, 121, 111, 117, 32, 119, 97, 110,
      116, 32, 116, 111, 32, 112, 114, 111, 99, 101, 101, 100, 63]"
  by code_simp

theorem prompt_never_working_witness:
  "snd (DetectStatusWithActivity example_detect 5 ''claude'' ''s'' ''s'' 0 True example_screen (Some 4) (NewStatusDetector ''/h'')) \<noteq> AgentWorking \<and>
   snd (DetectStatusWithPortAPI example_detect 5 ''claude'' ''s'' ''s'' 0 True example_screen (NewStatusDetector ''/h'')) = AgentWorking"
proof
  have "permissionPromptVisible (de_ulow example_detect) example_screen" by code_simp
  moreover have "\<not> activeTurnVisible (\<lambda>r. r) example_screen"
    unfolding activeTurnVisible_def example_tail
    by (simp add: any_in_def activeTurnMarkers_def activeTurnSpinnerGlyphs_def contains_def runes_def bytes_def)
  ultimately show "snd (DetectStatusWithActivity example_detect 5 ''claude'' ''s'' ''s'' 0 True example_screen (Some 4)
      (NewStatusDetector ''/h'')) \<noteq> AgentWorking"
    by (intro prompt_never_working) (simp_all add: example_detect_def)
  show "snd (DetectStatusWithPortAPI example_detect 5 ''claude'' ''s'' ''s'' 0 True example_screen (NewStatusDetector ''/h'')) = AgentWorking"
    by code_simp
qed

text \<open>Cached status is at most half a second old: in any sequence of polls at non-decreasing times, over a file
  system that changes arbitrarily, each answer is what the status files said at some moment less than 500 ms
  before the poll.\<close>

theorem poll_staleness:
  assumes "sorted (map fst qs)" and "list_all (\<lambda>q. snd q \<noteq> []) qs"
  shows "list_all2 (\<lambda>(now, n) st. \<exists>t. now - 500000000 < t \<and> t \<le> now \<and>
      st = read_dirs (F t) n [home @ ''/.cache/openkanban-status'']) qs (poll F qs (NewStatusDetector home))"
proof (cases qs)
  case (Cons q qs')
  have "cache_ok F (fst q) (NewStatusDetector home)" by (simp add: cache_ok_def NewStatusDetector_def)
  from poll_ok [OF this, of qs] assms Cons show ?thesis by (simp add: NewStatusDetector_def list_all_iff)
qed simp

definition example_files :: "time \<Rightarrow> status_files" where
  "example_files t d f = (if t < 10 then Some ''working'' else None)"

theorem poll_staleness_witness:
  "list_all2 (\<lambda>(now, n) st. \<exists>t. now - 500000000 < t \<and> t \<le> now \<and>
      st = read_dirs (example_files t) n [''/h'' @ ''/.cache/openkanban-status''])
    [(5, ''a''), (20, ''a''), (700000000, ''a'')]
    (poll example_files [(5, ''a''), (20, ''a''), (700000000, ''a'')] (NewStatusDetector ''/h''))"
  by (rule poll_staleness) simp_all

fun status_sets :: "string \<Rightarrow> (string \<times> string) list \<Rightarrow> status_files \<Rightarrow> status_files" where
  "status_sets dir [] fs = fs"
| "status_sets dir ((session, state) # cs) fs =
     status_sets dir cs (case status_set dir session state fs of Some fs' \<Rightarrow> fs' | None \<Rightarrow> fs)"

definition has_completed :: "string \<Rightarrow> string \<Rightarrow> status_files \<Rightarrow> bool" where
  "has_completed dir n fs \<longleftrightarrow> fs dir (n @ ''.status'') = Some (''completed'' @ [CHR 0x0A])"

lemma completed_kept:
  assumes "has_completed dir n fs" "(session, state) \<noteq> (n, ''error'')" "status_set dir session state fs = Some fs'"
  shows "has_completed dir n fs'"
proof (cases "session = n")
  case True
  have "ReadStatusFile dir n fs = runes ''completed''"
    using assms(1) trim_status_string [of AgentCompleted]
    by (simp add: ReadStatusFile_def status_string_def has_completed_def)
  then show ?thesis
    using assms True
    by (auto simp: has_completed_def status_set_def parseAgentStatus_def WriteStatusFile_def status_string_def
        split: if_splits option.splits)
next
  case False
  with assms show ?thesis
    by (auto simp: has_completed_def status_set_def WriteStatusFile_def split: if_splits option.splits)
qed

lemma completed_kept_all:
  "has_completed dir n fs \<Longrightarrow> (n, ''error'') \<notin> set cs \<Longrightarrow> has_completed dir n (status_sets dir cs fs)"
proof (induction cs arbitrary: fs)
  case (Cons c cs)
  obtain session state where c: "c = (session, state)" by force
  with Cons.prems have "(session, state) \<noteq> (n, ''error'')" "(n, ''error'') \<notin> set cs" by auto
  with Cons c show ?case
    by (cases "status_set dir session state fs") (auto intro: completed_kept)
qed simp

text \<open>The status file protocol: what \<^verbatim>\<open>status set\<close> accepts is read back as the state it names, unless the session
  has completed; and a completed session stays completed under every sequence of later commands, of any
  sessions, without an error report of its own.\<close>

theorem status_file_protocol:
  assumes "n \<noteq> []" and "parseAgentStatus state = Some st" and "ReadStatusFile dir n fs \<noteq> runes ''completed''"
  shows "(\<exists>fs'. status_set dir n state fs = Some fs' \<and> ReadAgentStatus dir n fs' = st) \<and>
    ((n, ''error'') \<notin> set cs \<longrightarrow>
      ReadAgentStatus dir n (status_sets dir ((n, ''completed'') # cs) fs) = AgentCompleted)"
proof
  have "st \<in> {AgentWorking, AgentIdle, AgentWaiting, AgentCompleted, AgentError}"
    using assms(2) by (auto simp: parseAgentStatus_def split: if_splits)
  with assms show "\<exists>fs'. status_set dir n state fs = Some fs' \<and> ReadAgentStatus dir n fs' = st"
    by (auto simp: status_set_def ReadAgentStatus_def WriteStatusFile_def file_status_string)
  have "status_set dir n ''completed'' fs = Some (WriteStatusFile dir n AgentCompleted fs)"
    using assms(1) by (simp add: status_set_def parseAgentStatus_def)
  then have "has_completed dir n (status_sets dir ((n, ''completed'') # cs) fs)" if "(n, ''error'') \<notin> set cs"
    using that completed_kept_all [of dir n "WriteStatusFile dir n AgentCompleted fs" cs]
    by (simp add: WriteStatusFile_def status_string_def has_completed_def)
  then show "(n, ''error'') \<notin> set cs \<longrightarrow>
      ReadAgentStatus dir n (status_sets dir ((n, ''completed'') # cs) fs) = AgentCompleted"
    using assms(1) file_status_string [of AgentCompleted]
    by (simp add: ReadAgentStatus_def status_string_def has_completed_def)
qed

theorem status_file_protocol_witness:
  "(\<exists>fs'. status_set ''d'' ''s'' ''waiting'' (\<lambda>d f. None) = Some fs' \<and> ReadAgentStatus ''d'' ''s'' fs' = AgentWaiting) \<and>
   ReadAgentStatus ''d'' ''s'' (status_sets ''d'' [(''s'', ''completed''), (''s'', ''idle''), (''t'', ''error'')] (\<lambda>d f. None)) = AgentCompleted"
proof -
  have "ReadStatusFile ''d'' ''s'' (\<lambda>d f. None) \<noteq> runes ''completed''" by code_simp
  from status_file_protocol [OF _ _ this, of "''waiting''" AgentWaiting "[(''s'', ''idle''), (''t'', ''error'')]"]
  show ?thesis by (simp add: parseAgentStatus_def)
qed

end
