(* ===== verification/PaneView.thy ===== *)
theory PaneView
  imports Attach
begin

text \<open>
  \<^verbatim>\<open>internal/daemonclient/paneview.go\<close>: the client's mirror of a daemon session, that is its attach state machine,
  the snapshot replay, the attach loop, detaching and the render signal.  The emulator is a library: its state
  is the log of the calls made to it, and \<open>E log data\<close> lists the callbacks that writing \<open>data\<close> makes.  Connections
  are numbered in the order they are dialled.  Key and mouse translation, selection and rendering are not
  modelled.  \<open>None\<close> is a panic (a channel closed twice).
\<close>

section \<open>State\<close>

datatype PaneViewState = PaneViewDetached | PaneViewUnattached | PaneViewAttached

datatype tea_msg = PaneAttachedMsg string | PaneDetachedMsg string | PaneOutputMsg string | PaneRenderTickMsg string
  | PaneExitMsg string "string option" | DaemonDisconnectedMsg string

datatype vt_op = VtNew int int int | VtWrite "byte list" | VtResize int int | VtClearScrollback

datatype pv_call = PvCursor bool | PvCursorKeys bool | PvTitle "byte list"

record PaneView =
  pv_id :: string
  pv_state :: PaneViewState
  pv_sessionID :: string
  pv_sessionName :: string
  pv_workdir :: string
  pv_ticketTitle :: string
  pv_width :: int
  pv_height :: int
  pv_scrollbackSize :: int
  pv_vt :: "vt_op list option"
  pv_viewportOffset :: int
  pv_cursorHidden :: bool
  pv_cursorAppMode :: bool
  pv_bracketedPaste :: bool
  pv_mouseEnabled :: bool
  pv_altScreenActive :: bool
  pv_cachedTitle :: "byte list"
  pv_lastInfo :: "SessionInfo option"
  pv_attachConn :: "nat option"
  pv_detachChs :: "bool list"
  pv_detachCh :: nat
  pv_teaMsgs :: "tea_msg list"
  pv_teaClosed :: bool
  pv_renderPending :: bool
  pv_lastAttachErr :: "string option"

definition NewPaneView :: "string \<Rightarrow> string \<Rightarrow> SessionInfo option \<Rightarrow> PaneView" where
  "NewPaneView ticketID sessionID info =
     (let p0 = \<lparr>pv_id = ticketID, pv_state = PaneViewDetached, pv_sessionID = sessionID, pv_sessionName = [],
                pv_workdir = [], pv_ticketTitle = [], pv_width = 0, pv_height = 0, pv_scrollbackSize = 0, pv_vt = None,
                pv_viewportOffset = 0, pv_cursorHidden = False, pv_cursorAppMode = False, pv_bracketedPaste = False,
                pv_mouseEnabled = False, pv_altScreenActive = False, pv_cachedTitle = [], pv_lastInfo = None,
                pv_attachConn = None, pv_detachChs = [False], pv_detachCh = 0, pv_teaMsgs = [], pv_teaClosed = False,
                pv_renderPending = False, pv_lastAttachErr = None\<rparr> in
      case info of
        None \<Rightarrow> p0
      | Some i \<Rightarrow>
          p0\<lparr>pv_lastInfo := Some i, pv_cachedTitle := i_Title i, pv_width := i_Cols i, pv_height := i_Rows i,
             pv_scrollbackSize := i_Scrollback i, pv_workdir := i_Workdir i, pv_sessionName := i_SessionName i,
             pv_state := (if i_Running i then PaneViewUnattached else PaneViewDetached)\<rparr>)"

definition pv_Title :: "PaneView \<Rightarrow> byte list" where
  "pv_Title p =
     (case pv_state p of
        PaneViewAttached \<Rightarrow> pv_cachedTitle p
      | PaneViewUnattached \<Rightarrow> (case pv_lastInfo p of Some i \<Rightarrow> i_Title i | None \<Rightarrow> pv_cachedTitle p)
      | PaneViewDetached \<Rightarrow> [])"

definition pv_Running :: "PaneView \<Rightarrow> bool" where
  "pv_Running p =
     (case pv_state p of
        PaneViewAttached \<Rightarrow> pv_attachConn p \<noteq> None
      | PaneViewUnattached \<Rightarrow> (case pv_lastInfo p of Some i \<Rightarrow> i_Running i | None \<Rightarrow> False)
      | PaneViewDetached \<Rightarrow> False)"

definition Refresh :: "SessionInfo \<Rightarrow> PaneView \<Rightarrow> PaneView" where
  "Refresh i p =
     p\<lparr>pv_lastInfo := Some i,
       pv_cachedTitle := (if i_Title i \<noteq> [] then i_Title i else pv_cachedTitle p),
       pv_workdir := (if i_Workdir i \<noteq> [] \<and> pv_workdir p = [] then i_Workdir i else pv_workdir p),
       pv_sessionName := (if i_SessionName i \<noteq> [] \<and> pv_sessionName p = [] then i_SessionName i else pv_sessionName p),
       pv_state := (if pv_state p = PaneViewDetached \<and> i_Running i then PaneViewUnattached else pv_state p)\<rparr>"

text \<open>The frame, if any, is written to the attach connection.\<close>

definition pv_SetSize :: "client_id \<Rightarrow> int \<Rightarrow> int \<Rightarrow> PaneView \<Rightarrow> PaneView \<times> (nat \<times> byte list) option" where
  "pv_SetSize c width height p =
     (if pv_width p = width \<and> pv_height p = height then (p, None)
      else
        (p\<lparr>pv_width := width, pv_height := height, pv_viewportOffset := 0,
           pv_vt := map_option (\<lambda>log. log @ [VtResize width height]) (pv_vt p)\<rparr>,
         case pv_attachConn p of
           None \<Rightarrow> None
         | Some k \<Rightarrow>
             if pv_state p = PaneViewAttached then
               Some (k, EncodeResize (if width < 0 \<or> width > 0xFFFF then 0 else word_of_int width)
                          (if height < 0 \<or> height > 0xFFFF then 0 else word_of_int height) c)
             else None))"

section \<open>The tea channel\<close>

definition tea_cap :: nat where "tea_cap = 64"

definition emitTeaMsg :: "tea_msg \<Rightarrow> PaneView \<Rightarrow> PaneView" where
  "emitTeaMsg m p =
     (if pv_teaClosed p then p
      else if length (pv_teaMsgs p) < tea_cap then p\<lparr>pv_teaMsgs := pv_teaMsgs p @ [m]\<rparr> else p)"

definition signalRender :: "PaneView \<Rightarrow> PaneView" where
  "signalRender p =
     (if pv_renderPending p then p else emitTeaMsg (PaneOutputMsg (pv_id p)) (p\<lparr>pv_renderPending := True\<rparr>))"

definition consumeRenderSignal :: "PaneView \<Rightarrow> PaneView" where
  "consumeRenderSignal p = p\<lparr>pv_renderPending := False\<rparr>"

text \<open>A read of the channel is armed only while attached, and remembers the detach channel it watches.\<close>

definition readNextMsg :: "PaneView \<Rightarrow> nat option" where
  "readNextMsg p = (if pv_teaClosed p \<or> pv_state p \<noteq> PaneViewAttached then None else Some (pv_detachCh p))"

definition pv_Update :: "tea_msg \<Rightarrow> PaneView \<Rightarrow> PaneView \<times> nat option" where
  "pv_Update m p =
     (case m of
        PaneOutputMsg i \<Rightarrow>
          (if i \<noteq> pv_id p then (p, None) else (let p1 = consumeRenderSignal p in (p1, readNextMsg p1)))
      | PaneAttachedMsg i \<Rightarrow> (p, if i \<noteq> pv_id p then None else readNextMsg p)
      | _ \<Rightarrow> (p, None))"

section \<open>The emulator\<close>

definition initEmulatorLocked :: "PaneView \<Rightarrow> PaneView" where
  "initEmulatorLocked p =
     (if pv_vt p \<noteq> None then p
      else
        (let w = (if pv_width p \<le> 0 then 80 else pv_width p); h = (if pv_height p \<le> 0 then 24 else pv_height p) in
         p\<lparr>pv_width := w, pv_height := h, pv_vt := Some [VtNew w h (pv_scrollbackSize p)], pv_cursorHidden := False,
           pv_cursorAppMode := False, pv_renderPending := False\<rparr>))"

definition teardownEmulatorLocked :: "PaneView \<Rightarrow> PaneView" where
  "teardownEmulatorLocked p = p\<lparr>pv_vt := None\<rparr>"

definition run_call :: "pv_call \<Rightarrow> PaneView \<Rightarrow> PaneView" where
  "run_call c p =
     (case c of
        PvCursor v \<Rightarrow> p\<lparr>pv_cursorHidden := \<not> v\<rparr>
      | PvCursorKeys b \<Rightarrow> p\<lparr>pv_cursorAppMode := b\<rparr>
      | PvTitle d \<Rightarrow> p\<lparr>pv_cachedTitle := parseOscTitlePayload d\<rparr>)"

type_synonym emulator = "vt_op list \<Rightarrow> byte list \<Rightarrow> pv_call list"

text \<open>\<^verbatim>\<open>p.vt.Write\<close>.\<close>

definition vt_write :: "emulator \<Rightarrow> byte list \<Rightarrow> PaneView \<Rightarrow> PaneView" where
  "vt_write E d p =
     (case pv_vt p of
        None \<Rightarrow> p
      | Some log \<Rightarrow> fold run_call (E log d) (p\<lparr>pv_vt := Some (log @ [VtWrite d])\<rparr>))"

definition freshEmulatorLocked :: "emulator \<Rightarrow> PaneView \<Rightarrow> PaneView" where
  "freshEmulatorLocked E p =
     (case pv_vt p of
        None \<Rightarrow> initEmulatorLocked p
      | Some log \<Rightarrow>
          (let p1 = vt_write E (esc ''c'') p in
           p1\<lparr>pv_vt := map_option (\<lambda>l. l @ [VtClearScrollback]) (pv_vt p1), pv_viewportOffset := 0,
              pv_altScreenActive := False, pv_cursorHidden := False, pv_cursorAppMode := False\<rparr>))"

definition hasSeq :: "byte list \<Rightarrow> byte list list \<Rightarrow> bool" where
  "hasSeq d seqs \<longleftrightarrow> list_ex (contains d) seqs"

definition flag :: "byte list \<Rightarrow> byte list list \<Rightarrow> byte list list \<Rightarrow> bool \<Rightarrow> bool" where
  "flag d on off b = (if hasSeq d off then False else if hasSeq d on then True else b)"

definition bracketedPasteEnableSeqs :: "byte list list" where
  "bracketedPasteEnableSeqs = [esc ''[?2004h'']"

definition bracketedPasteDisableSeqs :: "byte list list" where
  "bracketedPasteDisableSeqs = [esc ''[?2004l'']"

definition applyBytesLocked :: "emulator \<Rightarrow> byte list \<Rightarrow> PaneView \<Rightarrow> PaneView" where
  "applyBytesLocked E d p =
     vt_write E d
       (p\<lparr>pv_viewportOffset := (if hasSeq d alt_enable_seqs then 0 else pv_viewportOffset p),
          pv_altScreenActive := flag d alt_enable_seqs alt_disable_seqs (pv_altScreenActive p),
          pv_mouseEnabled := flag d mouse_enable_seqs mouse_disable_seqs (pv_mouseEnabled p),
          pv_bracketedPaste := flag d bracketedPasteEnableSeqs bracketedPasteDisableSeqs (pv_bracketedPaste p)\<rparr>)"

definition applyOutput :: "emulator \<Rightarrow> byte list \<Rightarrow> PaneView \<Rightarrow> PaneView" where
  "applyOutput E d p = (if pv_vt p = None then p else applyBytesLocked E d p)"

section \<open>Attaching\<close>

text \<open>A connection of the attach stream: whether the client has it open, whether its attach loop runs, what was
  written to it.\<close>

record view_conn =
  vc_open :: bool
  vc_loop :: bool
  vc_sent :: "(byte \<times> byte list) list"

text \<open>An \<^verbatim>\<open>Attach\<close> call: waiting for the daemon's answer, replaying the snapshot (connection, bytes missing), or
  returned.\<close>

datatype attach_pc = Shaking bool int int | Replaying nat int | AttachDone "string option"

record view_world =
  vw_pv :: PaneView
  vw_conns :: "view_conn list"
  vw_attaches :: "attach_pc list"
  vw_waits :: nat

definition close_conn :: "nat \<Rightarrow> view_world \<Rightarrow> view_world" where
  "close_conn k w = w\<lparr>vw_conns := (vw_conns w)[k := (vw_conns w ! k)\<lparr>vc_open := False\<rparr>]\<rparr>"

definition end_loop :: "nat \<Rightarrow> view_world \<Rightarrow> view_world" where
  "end_loop k w = w\<lparr>vw_conns := (vw_conns w)[k := (vw_conns w ! k)\<lparr>vc_loop := False\<rparr>]\<rparr>"

definition set_attach :: "nat \<Rightarrow> attach_pc \<Rightarrow> view_world \<Rightarrow> view_world" where
  "set_attach i pc w = w\<lparr>vw_attaches := (vw_attaches w)[i := pc]\<rparr>"

definition attach_begin :: "bool \<Rightarrow> view_world \<Rightarrow> view_world" where
  "attach_begin takeover w =
     (let p = vw_pv w; new = (\<lambda>pc w. w\<lparr>vw_attaches := vw_attaches w @ [pc]\<rparr>) in
      if pv_state p = PaneViewAttached then new (AttachDone None) w
      else if pv_sessionID p = [] then new (AttachDone (Some ''daemonclient: attach without session id'')) w
      else
        (let cols = (if pv_width p \<le> 0 then 80 else pv_width p); rows = (if pv_height p \<le> 0 then 24 else pv_height p) in
         new (Shaking takeover cols rows) (w\<lparr>vw_pv := p\<lparr>pv_width := cols, pv_height := rows\<rparr>\<rparr>)))"

text \<open>Dial, hello and attach request: an error at any of them, or the announced size of the snapshot.\<close>

definition attach_reply :: "emulator \<Rightarrow> nat \<Rightarrow> string + int \<Rightarrow> view_world \<Rightarrow> view_world" where
  "attach_reply E i res w =
     (case vw_attaches w ! i of
        Shaking takeover cols rows \<Rightarrow>
          (case res of
             Inl e \<Rightarrow> set_attach i (AttachDone (Some e)) w
           | Inr n \<Rightarrow>
               set_attach i (Replaying (length (vw_conns w)) n)
                 (w\<lparr>vw_pv := freshEmulatorLocked E (vw_pv w),
                    vw_conns := vw_conns w @ [\<lparr>vc_open = True, vc_loop = False, vc_sent = []\<rparr>]\<rparr>))
      | _ \<Rightarrow> w)"

definition attach_abort :: "nat \<Rightarrow> nat \<Rightarrow> string \<Rightarrow> view_world \<Rightarrow> view_world" where
  "attach_abort i k e w =
     set_attach i (AttachDone (Some e)) ((close_conn k w)\<lparr>vw_pv := teardownEmulatorLocked (vw_pv w)\<rparr>)"

definition attach_replay :: "emulator \<Rightarrow> nat \<Rightarrow> frame_error + byte \<times> byte list \<Rightarrow> view_world \<Rightarrow> view_world" where
  "attach_replay E i res w =
     (case vw_attaches w ! i of
        Replaying k remaining \<Rightarrow>
          (if remaining \<le> 0 then w
           else case res of
             Inl e \<Rightarrow> attach_abort i k ''daemonclient: read snapshot frame'' w
           | Inr (typ, payload) \<Rightarrow>
               (if typ \<noteq> TypePTYOutput then attach_abort i k ''daemonclient: unexpected snapshot frame type'' w
                else if payload = [] then w
                else
                  set_attach i (Replaying k (let r = remaining - int (length payload) in if r < 0 then 0 else r))
                    (w\<lparr>vw_pv := applyOutput E payload (vw_pv w)\<rparr>)))
      | _ \<Rightarrow> w)"

definition attach_publish :: "nat \<Rightarrow> view_world \<Rightarrow> view_world" where
  "attach_publish i w =
     (case vw_attaches w ! i of
        Replaying k remaining \<Rightarrow>
          (if remaining > 0 then w
           else
             (let p = vw_pv w;
                  p1 = p\<lparr>pv_state := PaneViewAttached, pv_attachConn := Some k, pv_lastAttachErr := None\<rparr>;
                  p2 = (if pv_detachChs p ! pv_detachCh p
                        then p1\<lparr>pv_detachChs := pv_detachChs p @ [False], pv_detachCh := length (pv_detachChs p)\<rparr> else p1) in
              set_attach i (AttachDone None)
                (w\<lparr>vw_pv := emitTeaMsg (PaneAttachedMsg (pv_id p)) p2,
                   vw_conns := (vw_conns w)[k := (vw_conns w ! k)\<lparr>vc_loop := True\<rparr>]\<rparr>)))
      | _ \<Rightarrow> w)"

section \<open>Detaching\<close>

text \<open>\<^verbatim>\<open>close(p.detachCh)\<close> and a new channel, with the state changes around them.\<close>

definition to_unattached :: "PaneView \<Rightarrow> PaneView option" where
  "to_unattached p =
     (if pv_detachChs p ! pv_detachCh p then None
      else Some ((teardownEmulatorLocked (p\<lparr>pv_attachConn := None, pv_state := PaneViewUnattached\<rparr>))
        \<lparr>pv_detachChs := (pv_detachChs p)[pv_detachCh p := True] @ [False], pv_detachCh := length (pv_detachChs p)\<rparr>))"

definition detach :: "bool \<Rightarrow> view_world \<Rightarrow> view_world option" where
  "detach sendFrame w =
     (case pv_attachConn (vw_pv w) of
        None \<Rightarrow> Some w
      | Some k \<Rightarrow>
          map_option (\<lambda>p.
              let c = vw_conns w ! k;
                  c1 = (if sendFrame \<and> vc_open c then c\<lparr>vc_sent := vc_sent c @ [(TypeDetach, [])]\<rparr> else c) in
              w\<lparr>vw_pv := p, vw_conns := (vw_conns w)[k := c1\<lparr>vc_open := False\<rparr>], vw_waits := Suc (vw_waits w)\<rparr>)
            (to_unattached (vw_pv w)))"

text \<open>The waiting goroutine: the loops have drained, or 30 seconds have passed.\<close>

definition detach_waited :: "view_world \<Rightarrow> view_world" where
  "detach_waited w =
     (if vw_waits w = 0 then w
      else w\<lparr>vw_waits := vw_waits w - 1, vw_pv := emitTeaMsg (PaneDetachedMsg (pv_id (vw_pv w))) (vw_pv w)\<rparr>)"

definition handleAttachExit :: "nat \<Rightarrow> string \<Rightarrow> bool \<Rightarrow> view_world \<Rightarrow> view_world option" where
  "handleAttachExit k e cleanExit w =
     (if pv_attachConn (vw_pv w) \<noteq> Some k then Some (close_conn k w)
      else
        map_option (\<lambda>p. close_conn k
            (w\<lparr>vw_pv := emitTeaMsg (if cleanExit then PaneDetachedMsg (pv_id p) else DaemonDisconnectedMsg e) p\<rparr>))
          (to_unattached (vw_pv w)))"

text \<open>One turn of \<^verbatim>\<open>attachLoop\<close>: what \<^verbatim>\<open>ReadFrame\<close> returned; an error of a closed connection counts as the end.\<close>

datatype loop_read = LFrame byte "byte list" | LEnd | LError string

definition loop_turn :: "emulator \<Rightarrow> nat \<Rightarrow> loop_read \<Rightarrow> view_world \<Rightarrow> view_world option" where
  "loop_turn E k res w =
     (case res of
        LEnd \<Rightarrow> map_option (end_loop k) (handleAttachExit k [] True w)
      | LError e \<Rightarrow> map_option (end_loop k) (handleAttachExit k e False w)
      | LFrame typ payload \<Rightarrow>
          (let p = vw_pv w in
           if typ = TypePTYOutput then
             Some (if payload = [] then w else w\<lparr>vw_pv := signalRender (applyOutput E payload p)\<rparr>)
           else if typ = TypeDetach then map_option (end_loop k) (handleAttachExit k [] True w)
           else if typ = TypeResize then
             (case DecodeResize payload of
                Inl e \<Rightarrow> Some w
              | Inr (cols, rows, _) \<Rightarrow>
                  Some (if cols = 0 \<or> rows = 0 then w
                        else w\<lparr>vw_pv := signalRender (p\<lparr>pv_width := uint cols, pv_height := uint rows,
                               pv_vt := map_option (\<lambda>log. log @ [VtResize (uint cols) (uint rows)]) (pv_vt p)\<rparr>)\<rparr>))
           else Some w))"

definition Close :: "view_world \<Rightarrow> view_world option" where
  "Close w = map_option (\<lambda>w1. w1\<lparr>vw_pv := (vw_pv w1)\<lparr>pv_teaClosed := True\<rparr>\<rparr>) (detach False w)"

text \<open>\<^verbatim>\<open>Stop\<close> and \<^verbatim>\<open>StopGraceful\<close>; the second component is the \<^verbatim>\<open>Kill\<close> request made.\<close>

definition stop :: "time \<Rightarrow> view_world \<Rightarrow> (view_world \<times> (string \<times> time) option) option" where
  "stop timeout w =
     (let p = vw_pv w in
      if pv_state p = PaneViewDetached \<or> pv_sessionID p = [] then Some (w, None)
      else map_option (\<lambda>w1. (w1, Some (pv_sessionID p, timeout)))
             (if pv_state p = PaneViewAttached then detach True w else Some w))"

section \<open>Runs\<close>

datatype view_act = VBegin bool | VReply nat "string + int" | VReplay nat "frame_error + byte \<times> byte list" | VPublish nat
  | VLoop nat loop_read | VDetach | VWaited | VClose | VStop time | VResize client_id int int | VRefresh SessionInfo | VRead

definition view_do :: "emulator \<Rightarrow> view_act \<Rightarrow> view_world \<Rightarrow> view_world option" where
  "view_do E a w =
     (case a of
        VBegin t \<Rightarrow> Some (attach_begin t w)
      | VReply i res \<Rightarrow> Some (if i < length (vw_attaches w) then attach_reply E i res w else w)
      | VReplay i res \<Rightarrow> Some (if i < length (vw_attaches w) then attach_replay E i res w else w)
      | VPublish i \<Rightarrow> Some (if i < length (vw_attaches w) then attach_publish i w else w)
      | VLoop k res \<Rightarrow> if k < length (vw_conns w) \<and> vc_loop (vw_conns w ! k) then loop_turn E k res w else Some w
      | VDetach \<Rightarrow> detach True w
      | VWaited \<Rightarrow> Some (detach_waited w)
      | VClose \<Rightarrow> Close w
      | VStop t \<Rightarrow> map_option fst (stop t w)
      | VResize c x y \<Rightarrow>
          (case pv_SetSize c x y (vw_pv w) of
             (p, None) \<Rightarrow> Some (w\<lparr>vw_pv := p\<rparr>)
           | (p, Some (k, d)) \<Rightarrow>
               Some (w\<lparr>vw_pv := p, vw_conns := (vw_conns w)[k := (vw_conns w ! k)\<lparr>vc_sent := vc_sent (vw_conns w ! k) @ [(TypeResize, d)]\<rparr>]\<rparr>))
      | VRefresh i \<Rightarrow> Some (w\<lparr>vw_pv := Refresh i (vw_pv w)\<rparr>)
      | VRead \<Rightarrow>
          (case pv_teaMsgs (vw_pv w) of
             [] \<Rightarrow> Some w
           | m # ms \<Rightarrow> Some (w\<lparr>vw_pv := fst (pv_Update m ((vw_pv w)\<lparr>pv_teaMsgs := ms\<rparr>))\<rparr>)))"

fun view_run :: "emulator \<Rightarrow> view_act list \<Rightarrow> view_world \<Rightarrow> view_world option" where
  "view_run E [] w = Some w"
| "view_run E (a # as) w = (case view_do E a w of None \<Rightarrow> None | Some w1 \<Rightarrow> view_run E as w1)"

definition view_init :: "string \<Rightarrow> string \<Rightarrow> SessionInfo option \<Rightarrow> view_world" where
  "view_init ticketID sessionID info = \<lparr>vw_pv = NewPaneView ticketID sessionID info, vw_conns = [], vw_attaches = [], vw_waits = 0\<rparr>"

section \<open>The invariant\<close>

text \<open>What the state machine reads of a view; the emulator operations leave it alone.\<close>

definition core :: "PaneView \<Rightarrow> bool list \<times> nat \<times> PaneViewState \<times> nat option" where
  "core p = (pv_detachChs p, pv_detachCh p, pv_state p, pv_attachConn p)"

lemma core_run_calls: "core (fold run_call cs p) = core p" "pv_teaMsgs (fold run_call cs p) = pv_teaMsgs p"
  by (induction cs arbitrary: p) (auto simp: run_call_def core_def split: pv_call.splits)

lemma core_vt_write: "core (vt_write E d p) = core p" "pv_teaMsgs (vt_write E d p) = pv_teaMsgs p"
  using core_run_calls by (auto simp: vt_write_def core_def split: option.splits)

lemma core_emulator [simp]:
  "core (applyOutput E d p) = core p" "pv_teaMsgs (applyOutput E d p) = pv_teaMsgs p"
  "core (initEmulatorLocked p) = core p" "pv_teaMsgs (initEmulatorLocked p) = pv_teaMsgs p"
  "core (teardownEmulatorLocked p) = core p" "pv_teaMsgs (teardownEmulatorLocked p) = pv_teaMsgs p"
  using core_vt_write
  by (simp_all add: applyOutput_def applyBytesLocked_def initEmulatorLocked_def teardownEmulatorLocked_def core_def Let_def)

lemma core_fresh [simp]:
  "core (freshEmulatorLocked E p) = core p" "pv_teaMsgs (freshEmulatorLocked E p) = pv_teaMsgs p"
  using core_vt_write [of E "esc ''c''" p] by (simp_all add: freshEmulatorLocked_def initEmulatorLocked_def core_def Let_def split: option.splits)

lemma core_emit [simp]: "core (emitTeaMsg m p) = core p" "length (pv_teaMsgs p) \<le> tea_cap \<Longrightarrow> length (pv_teaMsgs (emitTeaMsg m p)) \<le> tea_cap"
  by (auto simp: emitTeaMsg_def core_def)

lemma core_signal [simp]: "core (signalRender p) = core p" "length (pv_teaMsgs p) \<le> tea_cap \<Longrightarrow> length (pv_teaMsgs (signalRender p)) \<le> tea_cap"
  by (auto simp: signalRender_def emitTeaMsg_def core_def)

text \<open>The current detach channel is open; a view is attached exactly when it has a connection, which is then open
  and has its loop running; a replay has a connection of its own.\<close>

definition core_ok :: "bool list \<times> nat \<times> PaneViewState \<times> nat option \<Rightarrow> view_conn list \<Rightarrow> bool" where
  "core_ok c cs \<longleftrightarrow>
     (case c of (chs, ch, st, conn) \<Rightarrow>
        ch < length chs \<and> \<not> chs ! ch \<and> (st = PaneViewAttached \<longleftrightarrow> conn \<noteq> None) \<and>
        (\<forall>k. conn = Some k \<longrightarrow> k < length cs \<and> vc_open (cs ! k) \<and> vc_loop (cs ! k)))"

definition replays_ok :: "attach_pc list \<Rightarrow> view_conn list \<Rightarrow> bool" where
  "replays_ok as cs \<longleftrightarrow>
     (\<forall>i < length as. \<forall>k r. as ! i = Replaying k r \<longrightarrow> k < length cs \<and> vc_open (cs ! k) \<and> \<not> vc_loop (cs ! k)) \<and>
     (\<forall>i < length as. \<forall>j < length as. \<forall>k r r'. as ! i = Replaying k r \<and> as ! j = Replaying k r' \<longrightarrow> i = j)"

definition view_inv :: "view_world \<Rightarrow> bool" where
  "view_inv w \<longleftrightarrow>
     core_ok (core (vw_pv w)) (vw_conns w) \<and> replays_ok (vw_attaches w) (vw_conns w) \<and>
     length (pv_teaMsgs (vw_pv w)) \<le> tea_cap"

lemma replays_finish: "replays_ok as cs \<Longrightarrow> replays_ok (as[i := AttachDone e]) cs"
  unfolding replays_ok_def by (cases "i < length as") (auto simp: nth_list_update list_update_beyond split: if_splits)

text \<open>Closing or starting the loop of one connection.\<close>

lemma replays_update:
  assumes "replays_ok as cs" "vc_open c \<and> \<not> vc_loop c \<or> (\<forall>i < length as. \<forall>r. as ! i \<noteq> Replaying k r)"
  shows "replays_ok as (cs[k := c])"
  using assms unfolding replays_ok_def
  by (cases "k < length cs") (auto simp: nth_list_update list_update_beyond)

lemma replays_looping:
  "replays_ok as cs \<Longrightarrow> vc_loop (cs ! k) \<or> \<not> vc_open (cs ! k) \<Longrightarrow> \<forall>i < length as. \<forall>r. as ! i \<noteq> Replaying k r"
  unfolding replays_ok_def by blast

lemma core_update:
  assumes "core_ok (chs, ch, st, conn) cs" "conn = Some k \<longrightarrow> vc_open c \<and> vc_loop c"
  shows "core_ok (chs, ch, st, conn) (cs[k := c])"
  using assms by (cases "k < length cs") (auto simp: core_ok_def nth_list_update list_update_beyond)

lemma core_unattached:
  assumes "core_ok (core p) cs"
  obtains q where "to_unattached p = Some q" "pv_teaMsgs q = pv_teaMsgs p" "pv_id q = pv_id p"
    "\<And>cs'. core_ok (core q) cs'" "pv_attachConn q = None" "pv_teaClosed q = pv_teaClosed p"
  using assms that by (auto simp: to_unattached_def core_ok_def core_def teardownEmulatorLocked_def nth_append)

lemma inv_detach: "view_inv w \<Longrightarrow> \<exists>w'. detach b w = Some w' \<and> view_inv w'"
proof (cases "pv_attachConn (vw_pv w)")
  case (Some k)
  assume i: "view_inv w"
  then have k: "k < length (vw_conns w)" "vc_loop (vw_conns w ! k)"
    using Some by (auto simp: view_inv_def core_ok_def core_def)
  obtain q where q: "to_unattached (vw_pv w) = Some q" "pv_teaMsgs q = pv_teaMsgs (vw_pv w)" "\<And>cs'. core_ok (core q) cs'"
    using i core_unattached unfolding view_inv_def by metis
  have "\<forall>j < length (vw_attaches w). \<forall>r. vw_attaches w ! j \<noteq> Replaying k r"
    using i k replays_looping unfolding view_inv_def by blast
  with i q Some show ?thesis by (auto simp: detach_def view_inv_def Let_def intro: replays_update)
qed (auto simp: detach_def)

lemma inv_close_conn:
  assumes "view_inv w" "pv_attachConn (vw_pv w) \<noteq> Some k" "\<forall>j < length (vw_attaches w). \<forall>r. vw_attaches w ! j \<noteq> Replaying k r"
  shows "view_inv (close_conn k w)" "view_inv (end_loop k w)"
  using assms core_update [of _ _ _ "pv_attachConn (vw_pv w)" "vw_conns w" k]
  by (auto simp: view_inv_def close_conn_def end_loop_def core_def intro!: replays_update)

lemma inv_exit:
  assumes "view_inv w" "k < length (vw_conns w)" "vc_loop (vw_conns w ! k)"
  shows "\<exists>w'. map_option (end_loop k) (handleAttachExit k e b w) = Some w' \<and> view_inv w'"
proof -
  have r: "\<forall>j < length (vw_attaches w). \<forall>r. vw_attaches w ! j \<noteq> Replaying k r"
    using assms replays_looping unfolding view_inv_def by blast
  show ?thesis
  proof (cases "pv_attachConn (vw_pv w) = Some k")
    case False
    then have "view_inv (close_conn k w)" using assms(1) r by (intro inv_close_conn(1))
    then have "view_inv (end_loop k (close_conn k w))"
      by (rule inv_close_conn(2)) (use False r in \<open>simp_all add: close_conn_def\<close>)
    with False show ?thesis by (simp add: handleAttachExit_def)
  next
    case True
    obtain q where q: "to_unattached (vw_pv w) = Some q" "pv_teaMsgs q = pv_teaMsgs (vw_pv w)" "\<And>cs'. core_ok (core q) cs'"
      "pv_attachConn q = None"
      using assms(1) core_unattached unfolding view_inv_def by metis
    let ?m = "if b then PaneDetachedMsg (pv_id q) else DaemonDisconnectedMsg e"
    let ?w = "w\<lparr>vw_pv := emitTeaMsg ?m q\<rparr>"
    have "view_inv ?w" using assms(1) q by (auto simp: view_inv_def)
    moreover have c: "pv_attachConn (vw_pv ?w) \<noteq> Some k" using q(4) by (simp add: emitTeaMsg_def)
    ultimately have "view_inv (close_conn k ?w)" using r by (intro inv_close_conn(1)) simp_all
    then have "view_inv (end_loop k (close_conn k ?w))"
      by (rule inv_close_conn(2)) (use c r in \<open>simp_all add: close_conn_def\<close>)
    with True q(1) show ?thesis by (simp add: handleAttachExit_def)
  qed
qed

lemma inv_pv:
  assumes "view_inv w" "core p = core (vw_pv w)" "length (pv_teaMsgs p) \<le> tea_cap"
  shows "view_inv (w\<lparr>vw_pv := p\<rparr>)"
  using assms by (simp add: view_inv_def)

lemma inv_loop:
  assumes "view_inv w" "k < length (vw_conns w)" "vc_loop (vw_conns w ! k)"
  shows "\<exists>w'. loop_turn E k res w = Some w' \<and> view_inv w'"
proof (cases res)
  case (LFrame ty payload)
  have t: "length (pv_teaMsgs (vw_pv w)) \<le> tea_cap" using assms(1) by (simp add: view_inv_def)
  have o: "view_inv (w\<lparr>vw_pv := signalRender (applyOutput E payload (vw_pv w))\<rparr>)"
    using assms(1) t by (intro inv_pv) simp_all
  have r: "view_inv (w\<lparr>vw_pv := signalRender ((vw_pv w)\<lparr>pv_width := x, pv_height := y, pv_vt := v\<rparr>)\<rparr>)" for x y v
    using assms(1) t by (intro inv_pv) (simp_all, simp add: core_def)
  show ?thesis
    using LFrame assms(1) o r inv_exit [OF assms] by (auto simp: loop_turn_def Let_def split: sum.splits)
qed (use inv_exit [OF assms] in \<open>auto simp: loop_turn_def\<close>)

lemma inv_attach_pc:
  assumes "view_inv w" "\<And>k r. pc \<noteq> Replaying k r"
  shows "view_inv (w\<lparr>vw_attaches := vw_attaches w @ [pc]\<rparr>)" "view_inv (set_attach i pc w)"
proof -
  show "view_inv (w\<lparr>vw_attaches := vw_attaches w @ [pc]\<rparr>)"
    using assms unfolding view_inv_def replays_ok_def by (simp add: nth_append less_Suc_eq)
  show "view_inv (set_attach i pc w)"
    using assms unfolding view_inv_def replays_ok_def set_attach_def
    by (cases "i < length (vw_attaches w)") (auto simp: nth_list_update list_update_beyond split: if_splits)
qed

lemma inv_begin: "view_inv w \<Longrightarrow> view_inv (attach_begin t w)"
proof -
  assume i: "view_inv w"
  have "view_inv (w\<lparr>vw_pv := (vw_pv w)\<lparr>pv_width := x, pv_height := y\<rparr>\<rparr>)" for x y
    using i by (intro inv_pv) (simp_all add: view_inv_def core_def)
  from inv_attach_pc(1) [OF this] inv_attach_pc(1) [OF i] show ?thesis by (auto simp: attach_begin_def Let_def)
qed

lemma inv_reply: "view_inv w \<Longrightarrow> i < length (vw_attaches w) \<Longrightarrow> view_inv (attach_reply E i res w)"
proof -
  assume inv: "view_inv w" and i: "i < length (vw_attaches w)"
  show ?thesis
  proof (cases "vw_attaches w ! i")
    case (Shaking t x y)
    have "core_ok (core (vw_pv w)) (vw_conns w @ [c])" for c
      using inv by (auto simp: view_inv_def core_ok_def core_def nth_append)
    moreover have "replays_ok ((vw_attaches w)[i := Replaying (length (vw_conns w)) n])
        (vw_conns w @ [\<lparr>vc_open = True, vc_loop = False, vc_sent = []\<rparr>])" for n
      using inv i unfolding view_inv_def replays_ok_def
      by (auto simp: nth_list_update nth_append split: if_splits)
    ultimately show ?thesis
      using inv inv_attach_pc(2) [OF inv] Shaking
      by (auto simp: attach_reply_def view_inv_def set_attach_def split: sum.splits)
  qed (use inv in \<open>simp_all add: attach_reply_def\<close>)
qed

lemma inv_abort:
  assumes "view_inv w" "i < length (vw_attaches w)" "vw_attaches w ! i = Replaying k r"
  shows "view_inv (attach_abort i k e w)"
proof -
  have k: "k < length (vw_conns w)" "\<not> vc_loop (vw_conns w ! k)"
    using assms unfolding view_inv_def replays_ok_def by blast+
  have "replays_ok ((vw_attaches w)[i := AttachDone (Some e)]) (vw_conns w)"
    using assms(1) replays_finish by (simp add: view_inv_def)
  moreover have "\<forall>j < length (vw_attaches w). \<forall>r. (vw_attaches w)[i := AttachDone (Some e)] ! j \<noteq> Replaying k r"
    using assms unfolding view_inv_def replays_ok_def by (auto simp: nth_list_update split: if_splits)
  moreover have "pv_attachConn (vw_pv w) \<noteq> Some k"
    using assms(1) k by (auto simp: view_inv_def core_ok_def core_def)
  ultimately show ?thesis
    using assms(1) core_update [of _ _ _ "pv_attachConn (vw_pv w)" "vw_conns w" k]
    by (auto simp: attach_abort_def set_attach_def close_conn_def view_inv_def core_def teardownEmulatorLocked_def
        intro!: replays_update)
qed

lemma inv_replay: "view_inv w \<Longrightarrow> i < length (vw_attaches w) \<Longrightarrow> view_inv (attach_replay E i res w)"
proof -
  assume inv: "view_inv w" and i: "i < length (vw_attaches w)"
  show ?thesis
  proof (cases "vw_attaches w ! i")
    case (Replaying k r)
    have "replays_ok ((vw_attaches w)[i := Replaying k r']) (vw_conns w)" for r'
      using inv i Replaying unfolding view_inv_def replays_ok_def by (auto simp: nth_list_update split: if_splits)
    with inv have "view_inv (set_attach i (Replaying k r') (w\<lparr>vw_pv := applyOutput E d (vw_pv w)\<rparr>))" for r' d
      by (simp add: view_inv_def set_attach_def)
    with inv i Replaying inv_abort [OF inv i Replaying] show ?thesis
      by (auto simp: attach_replay_def Let_def split: sum.splits)
  qed (use inv in \<open>simp_all add: attach_replay_def\<close>)
qed

lemma inv_publish: "view_inv w \<Longrightarrow> i < length (vw_attaches w) \<Longrightarrow> view_inv (attach_publish i w)"
proof -
  assume inv: "view_inv w" and i: "i < length (vw_attaches w)"
  show ?thesis
  proof (cases "vw_attaches w ! i")
    case (Replaying k r)
    let ?c = "(vw_conns w ! k)\<lparr>vc_loop := True\<rparr>" and ?p = "vw_pv w"
    have k: "k < length (vw_conns w)" "vc_open (vw_conns w ! k)"
      using inv i Replaying unfolding view_inv_def replays_ok_def by blast+
    have "replays_ok ((vw_attaches w)[i := AttachDone None]) (vw_conns w)"
      using inv replays_finish by (simp add: view_inv_def)
    moreover have "\<forall>j < length (vw_attaches w). \<forall>r. (vw_attaches w)[i := AttachDone None] ! j \<noteq> Replaying k r"
      using inv i Replaying unfolding view_inv_def replays_ok_def by (auto simp: nth_list_update split: if_splits)
    ultimately have "replays_ok ((vw_attaches w)[i := AttachDone None]) ((vw_conns w)[k := ?c])"
      by (intro replays_update) simp_all
    moreover have "\<not> pv_detachChs ?p ! pv_detachCh ?p" "pv_detachCh ?p < length (pv_detachChs ?p)"
      using inv by (auto simp: view_inv_def core_ok_def core_def)
    ultimately show ?thesis
      using inv Replaying k by (auto simp: attach_publish_def set_attach_def view_inv_def core_ok_def Let_def)
        (auto simp: core_def)
  qed (use inv in \<open>simp_all add: attach_publish_def\<close>)
qed

lemma view_do_inv: "view_inv w \<Longrightarrow> \<exists>w'. view_do E a w = Some w' \<and> view_inv w'"
proof -
  assume inv: "view_inv w"
  then have t: "length (pv_teaMsgs (vw_pv w)) \<le> tea_cap" by (simp add: view_inv_def)
  show ?thesis
  proof (cases a)
    case VClose
    obtain w1 where w1: "detach False w = Some w1" "view_inv w1" using inv_detach [OF inv] by blast
    have "view_inv (w1\<lparr>vw_pv := (vw_pv w1)\<lparr>pv_teaClosed := True\<rparr>\<rparr>)"
      using w1(2) by (intro inv_pv) (auto simp: view_inv_def core_def)
    with w1(1) VClose show ?thesis by (simp add: view_do_def Close_def)
  next
    case VWaited
    have "view_inv (w\<lparr>vw_pv := emitTeaMsg m (vw_pv w)\<rparr>)" for m using inv t by (intro inv_pv) simp_all
    then have "view_inv (detach_waited w)" using inv by (simp add: detach_waited_def view_inv_def)
    with VWaited show ?thesis by (simp add: view_do_def)
  next
    case (VStop tm)
    with inv inv_detach [OF inv, of True] show ?thesis by (auto simp: view_do_def stop_def Let_def)
  next
    case (VResize c x y)
    have p: "core (fst (pv_SetSize c x y (vw_pv w))) = core (vw_pv w)" "pv_teaMsgs (fst (pv_SetSize c x y (vw_pv w))) = pv_teaMsgs (vw_pv w)"
      by (simp_all add: pv_SetSize_def core_def)
    have k: "pv_attachConn (vw_pv w) = Some k" if "snd (pv_SetSize c x y (vw_pv w)) = Some (k, d)" for k d
      using that by (auto simp: pv_SetSize_def split: if_splits option.splits)
    show ?thesis
    proof (cases "snd (pv_SetSize c x y (vw_pv w))")
      case None
      then show ?thesis using inv p VResize t by (auto simp: view_do_def split: prod.splits option.splits intro!: inv_pv)
    next
      case (Some kd)
      obtain kk d where kd: "kd = (kk, d)" by force
      then have kk: "pv_attachConn (vw_pv w) = Some kk" using k Some by blast
      let ?cs = "(vw_conns w)[kk := (vw_conns w ! kk)\<lparr>vc_sent := vc_sent (vw_conns w ! kk) @ [(TypeResize, d)]\<rparr>]"
      have lp: "vc_open (vw_conns w ! kk)" "vc_loop (vw_conns w ! kk)"
        using inv kk by (auto simp: view_inv_def core_ok_def core_def)
      then have "core_ok (core (vw_pv w)) ?cs" using inv by (auto simp: view_inv_def core_def intro: core_update)
      moreover have "replays_ok (vw_attaches w) ?cs"
        using inv lp replays_looping [of "vw_attaches w" "vw_conns w" kk]
        unfolding view_inv_def by (intro replays_update) blast+
      ultimately show ?thesis
        using p VResize Some kd t
        by (cases "pv_SetSize c x y (vw_pv w)") (auto simp: view_do_def view_inv_def)
    qed
  next
    case (VRefresh s)
    have "core (Refresh s (vw_pv w)) = core (vw_pv w) \<or>
        (pv_state (vw_pv w) = PaneViewDetached \<and> core (Refresh s (vw_pv w)) =
          (pv_detachChs (vw_pv w), pv_detachCh (vw_pv w), PaneViewUnattached, pv_attachConn (vw_pv w)))"
      by (auto simp: Refresh_def core_def)
    moreover have "pv_teaMsgs (Refresh s (vw_pv w)) = pv_teaMsgs (vw_pv w)" by (simp add: Refresh_def)
    ultimately show ?thesis using inv VRefresh t by (auto simp: view_do_def view_inv_def core_ok_def core_def)
  next
    case VRead
    have "view_inv (w\<lparr>vw_pv := fst (pv_Update m ((vw_pv w)\<lparr>pv_teaMsgs := ms\<rparr>))\<rparr>)" if "pv_teaMsgs (vw_pv w) = m # ms" for m ms
      using inv t that
      by (intro inv_pv) (auto simp: pv_Update_def consumeRenderSignal_def core_def Let_def split: tea_msg.splits)
    then show ?thesis using VRead inv by (auto simp: view_do_def split: list.splits)
  qed (use inv inv_begin inv_reply inv_replay inv_publish inv_loop inv_detach in \<open>auto simp: view_do_def\<close>)
qed

lemma view_init_inv: "view_inv (view_init ticketID sessionID info)"
  by (auto simp: view_inv_def view_init_def NewPaneView_def core_ok_def core_def replays_ok_def Let_def split: option.splits)

lemma view_run_inv: "view_inv w \<Longrightarrow> \<exists>w'. view_run E as w = Some w' \<and> view_inv w'"
proof (induction as arbitrary: w)
  case (Cons a as)
  obtain w1 where "view_do E a w = Some w1" "view_inv w1" using view_do_inv [OF Cons.prems] by blast
  with Cons.IH show ?case by simp
qed simp

section \<open>Properties\<close>


lemma vt_run_calls: "pv_vt (fold run_call cs p) = pv_vt p"
  by (induction cs arbitrary: p) (auto simp: run_call_def split: pv_call.splits)

lemma vt_applyOutput: "pv_vt p = Some log \<Longrightarrow> pv_vt (applyOutput E d p) = Some (log @ [VtWrite d])"
  by (simp add: applyOutput_def applyBytesLocked_def vt_write_def vt_run_calls)

lemma vt_fresh: "pv_vt (freshEmulatorLocked E p) \<noteq> None"
  by (auto simp: freshEmulatorLocked_def initEmulatorLocked_def vt_write_def vt_run_calls Let_def split: option.splits)

lemma vt_signals [simp]: "pv_vt (signalRender p) = pv_vt p" "pv_vt (emitTeaMsg m p) = pv_vt p"
  by (simp_all add: signalRender_def emitTeaMsg_def)

lemma view_run_append:
  "view_run E (as @ bs) w = (case view_run E as w of None \<Rightarrow> None | Some w1 \<Rightarrow> view_run E bs w1)"
  by (induction as arbitrary: w) (auto split: option.splits)

lemma replay_run:
  assumes "n < length (vw_attaches w)" "vw_attaches w ! n = Replaying k (int (length (concat cs)))"
    "pv_vt (vw_pv w) = Some log" "[] \<notin> set cs"
  shows "\<exists>w'. view_run E (map (\<lambda>c. VReplay n (Inr (TypePTYOutput, c))) cs) w = Some w' \<and>
     vw_attaches w' = (vw_attaches w)[n := Replaying k 0] \<and> vw_conns w' = vw_conns w \<and>
     pv_vt (vw_pv w') = Some (log @ map VtWrite cs)"
  using assms
proof (induction cs arbitrary: w log)
  case Nil
  then show ?case using list_update_id [of "vw_attaches w" n] by simp
next
  case (Cons c cs)
  let ?w = "set_attach n (Replaying k (int (length (concat cs)))) (w\<lparr>vw_pv := applyOutput E c (vw_pv w)\<rparr>)"
  have c: "c \<noteq> []" using Cons.prems(4) by auto
  then have "\<not> int (length c) + int (length (concat cs)) \<le> 0" by (cases c) auto
  have "view_do E (VReplay n (Inr (TypePTYOutput, c))) w = Some ?w"
    using Cons.prems(1,2) c \<open>\<not> _ \<le> 0\<close> by (simp add: view_do_def attach_replay_def Let_def)
  moreover have "\<exists>w'. view_run E (map (\<lambda>c. VReplay n (Inr (TypePTYOutput, c))) cs) ?w = Some w' \<and>
      vw_attaches w' = (vw_attaches ?w)[n := Replaying k 0] \<and> vw_conns w' = vw_conns ?w \<and>
      pv_vt (vw_pv w') = Some ((log @ [VtWrite c]) @ map VtWrite cs)"
    using Cons.prems by (intro Cons.IH) (simp_all add: set_attach_def vt_applyOutput)
  ultimately show ?case by (simp add: set_attach_def)
qed

lemma output_run:
  assumes "k < length (vw_conns w)" "vc_loop (vw_conns w ! k)" "pv_vt (vw_pv w) = Some log"
  shows "\<exists>w'. view_run E (map (\<lambda>d. VLoop k (LFrame TypePTYOutput d)) ds) w = Some w' \<and>
     core (vw_pv w') = core (vw_pv w) \<and> pv_vt (vw_pv w') = Some (log @ map VtWrite (filter (\<lambda>d. d \<noteq> []) ds))"
  using assms
proof (induction ds arbitrary: w log)
  case (Cons d ds)
  let ?w = "if d = [] then w else w\<lparr>vw_pv := signalRender (applyOutput E d (vw_pv w))\<rparr>"
  have "view_do E (VLoop k (LFrame TypePTYOutput d)) w = Some ?w"
    using Cons.prems by (simp add: view_do_def loop_turn_def Let_def)
  moreover have "\<exists>w'. view_run E (map (\<lambda>d. VLoop k (LFrame TypePTYOutput d)) ds) ?w = Some w' \<and>
      core (vw_pv w') = core (vw_pv ?w) \<and>
      pv_vt (vw_pv w') = Some ((if d = [] then log else log @ [VtWrite d]) @ map VtWrite (filter (\<lambda>d. d \<noteq> []) ds))"
    using Cons.prems by (intro Cons.IH) (simp_all add: vt_applyOutput)
  ultimately show ?case by (cases "d = []") simp_all
qed simp

lemma chunks_nonempty: "[] \<notin> set (chunks d)"
  using chunks_bounds by blast

lemma handleAttach_out:
  assumes "handleAttach snap k i cols rows takeover s = Some (s', True)" "k < length (sv_conns s)" "c_open (sv_conns s ! k)"
  shows "\<exists>d. c_out (sv_conns s' ! k) = c_out (sv_conns s ! k) @
     Msg (AttachResp (c_id (sv_conns s ! k)) (length d)) # map (Bin TypePTYOutput) (chunks d) \<and> (\<exists>p. d = snap p)"
proof -
  from assms(1) obtain r x p ac s3 where
    w: "writeSnapshotChunks k (snap p) (emitEvent ((with_activity ''attached'' x)\<lparr>ev_SessionID := i\<rparr>)
         (writeResp k (AttachResp (c_id (sv_conns s ! k)) (length (snap p))) (put_session r x s))) = (s3, True)"
    and s': "s' = s3\<lparr>sv_attaches := sv_attaches s3 @ [(k, r, ac)]\<rparr>"
    unfolding handleAttach_def Let_def
    by (auto split: if_split_asm option.split_asm sum.split_asm attach_error.split_asm prod.split_asm bool.split_asm)
  let ?d = "snap p" and ?m = "Msg (AttachResp (c_id (sv_conns s ! k)) (length (snap p)))"
  let ?s1 = "writeResp k (AttachResp (c_id (sv_conns s ! k)) (length ?d)) (put_session r x s)"
  let ?s2 = "emitEvent ((with_activity ''attached'' x)\<lparr>ev_SessionID := i\<rparr>) ?s1"
  have s1: "sv_conns ?s1 ! k = (sv_conns s ! k)\<lparr>c_out := c_out (sv_conns s ! k) @ [?m]\<rparr>" "k < length (sv_conns ?s1)"
    using assms(2,3) by (simp_all add: writeResp_def write_out_conns put_session_def)
  then have s2: "sv_conns ?s2 ! k = (sv_conns s ! k)\<lparr>c_out := c_out (sv_conns s ! k) @ [?m]\<rparr>" "k < length (sv_conns ?s2)"
    by (simp_all add: emitEvent_def)
  have "c_out (sv_conns (fst (writeSnapshotChunks k ?d ?s2)) ! k) = c_out (sv_conns ?s2 ! k) @ map (Bin TypePTYOutput) (chunks ?d)"
  proof (cases "?d = []")
    case True
    then have "chunks ?d = []" by (subst chunks.simps) simp
    with True show ?thesis by (simp add: writeSnapshotChunks_def)
  next
    case False
    have "c_open (sv_conns ?s2 ! k)" using s2(1) assms(3) by simp
    with False s2(2) show ?thesis by (simp add: writeSnapshotChunks_def write_outs_conns)
  qed
  with s2(1) show ?thesis unfolding w s' by (intro exI [of _ ?d] conjI) auto
qed


lemma handleAttach_granted:
  assumes "reg_get i (sv_reg s) = Some r" "dims_ok cols rows" "cols \<noteq> 0" "rows \<noteq> 0"
    "AttemptAttach (c_id (sv_conns s ! k)) cols rows takeover (sess s r) = Some (x, Inr (p, ac))"
    "k < length (sv_conns s)" "c_open (sv_conns s ! k)"
  shows "\<exists>s'. handleAttach snap k i cols rows takeover s = Some (s', True)"
proof -
  have "snd (writeSnapshotChunks k d (emitEvent ev (writeResp k m (put_session r x s))))" for d ev m
    using assms(6,7) by (simp add: writeSnapshotChunks_def emitEvent_def writeResp_def write_out_conns put_session_def)
  then show ?thesis
    using assms(1-5) by (auto simp: handleAttach_def Let_def split: prod.split bool.split) (metis snd_conv)
qed

definition example_view :: view_world where
  "example_view = attach_begin False (view_init ''t1'' ''id1'' (Some (Info example_session)))"


text \<open>A loop whose connection has been replaced cannot disturb the attach state, however it ends: the view keeps its
  state, its connection and its emulator.  But output it had already read is not held back: it is written to the
  emulator of the new attach.\<close>

theorem stale_loop:
  assumes "pv_attachConn (vw_pv w) \<noteq> Some k"
  shows "(\<forall>res. (\<forall>ty d. res = LFrame ty d \<longrightarrow> ty = TypeDetach) \<longrightarrow>
      (\<exists>w'. loop_turn E k res w = Some w' \<and> vw_pv w' = vw_pv w \<and> vw_attaches w' = vw_attaches w)) \<and>
    (\<forall>log d. pv_vt (vw_pv w) = Some log \<and> d \<noteq> [] \<longrightarrow>
      map_option (\<lambda>w'. pv_vt (vw_pv w')) (loop_turn E k (LFrame TypePTYOutput d) w) = Some (Some (log @ [VtWrite d])))"
proof (intro conjI allI impI)
  fix res
  assume res: "\<forall>ty d. res = LFrame ty d \<longrightarrow> ty = TypeDetach"
  have ne: "TypeDetach \<noteq> TypePTYOutput" by (simp add: TypeDetach_def TypePTYOutput_def)
  show "\<exists>w'. loop_turn E k res w = Some w' \<and> vw_pv w' = vw_pv w \<and> vw_attaches w' = vw_attaches w"
  proof (cases res)
    case (LFrame ty d)
    with res have "ty = TypeDetach" by blast
    with LFrame assms ne show ?thesis
      by (simp add: loop_turn_def handleAttachExit_def close_conn_def end_loop_def)
  qed (use assms in \<open>simp_all add: loop_turn_def handleAttachExit_def close_conn_def end_loop_def\<close>)
next
  fix log and d :: "byte list"
  assume "pv_vt (vw_pv w) = Some log \<and> d \<noteq> []"
  then show "map_option (\<lambda>w'. pv_vt (vw_pv w')) (loop_turn E k (LFrame TypePTYOutput d) w) = Some (Some (log @ [VtWrite d]))"
    by (simp add: loop_turn_def vt_applyOutput)
qed

text \<open>Attach, detach and attach again while the first loop still has a frame in its buffer.\<close>

definition stale_acts :: "view_act list" where
  "stale_acts = [VBegin False, VReply 0 (Inr 0), VPublish 0, VDetach, VBegin False, VReply 1 (Inr 0), VPublish 1]"

definition stale_view :: view_world where
  "stale_view = the (view_run (\<lambda>log d. []) stale_acts (view_init ''t1'' ''id1'' (Some (Info example_session))))"

theorem stale_loop_witness:
  "vc_loop (vw_conns stale_view ! 0) \<and> pv_attachConn (vw_pv stale_view) = Some 1 \<and>
   (\<exists>w'. loop_turn (\<lambda>log d. []) 0 LEnd stale_view = Some w' \<and> vw_pv w' = vw_pv stale_view) \<and>
   map_option (\<lambda>w'. pv_vt (vw_pv w')) (loop_turn (\<lambda>log d. []) 0 (LFrame TypePTYOutput [7]) stale_view) =
     Some (Some [VtNew 80 40 10000, VtWrite [7]])"
proof -
  have a: "vc_loop (vw_conns stale_view ! 0)" "pv_attachConn (vw_pv stale_view) = Some 1" by code_simp+
  have v: "pv_vt (vw_pv stale_view) = Some [VtNew 80 40 10000]" by code_simp
  have "pv_attachConn (vw_pv stale_view) \<noteq> Some 0" using a(2) by simp
  from stale_loop [OF this, of "\<lambda>log d. []"] have
    "\<exists>w'. loop_turn (\<lambda>log d. []) 0 LEnd stale_view = Some w' \<and> vw_pv w' = vw_pv stale_view"
    "map_option (\<lambda>w'. pv_vt (vw_pv w')) (loop_turn (\<lambda>log d. []) 0 (LFrame TypePTYOutput [7]) stale_view) =
       Some (Some ([VtNew 80 40 10000] @ [VtWrite [7]]))"
    using v by blast+
  with a show ?thesis by simp
qed

text \<open>Events do not change the daemon's mode flags.\<close>

lemma publish_modes:
  "publish ev p = Some p' \<Longrightarrow> p_mouseEnabled p' = p_mouseEnabled p \<and> p_altScreenActive p' = p_altScreenActive p"
  by (auto simp: publish_def)

lemma daemon_alt_screen:
  "detectAltScreenChanges d p = Some p' \<Longrightarrow>
    p_altScreenActive p' = (if hasSeq d alt_enable_seqs then True else if hasSeq d alt_disable_seqs then False else p_altScreenActive p)"
  by (auto simp: detectAltScreenChanges_def publishModeEventLocked_def hasSeq_def dest!: publish_modes split: if_splits)

lemma client_alt_screen:
  "pv_vt v \<noteq> None \<Longrightarrow> pv_altScreenActive (applyOutput E d v) = flag d alt_enable_seqs alt_disable_seqs (pv_altScreenActive v)"
proof -
  have "pv_altScreenActive (fold run_call cs p) = pv_altScreenActive p" for cs p
    by (induction cs arbitrary: p) (auto simp: run_call_def split: pv_call.splits)
  then show "pv_vt v \<noteq> None \<Longrightarrow> ?thesis"
    by (auto simp: applyOutput_def applyBytesLocked_def vt_write_def split: option.splits)
qed

text \<open>The daemon's pane and the client's mirror of it read the same output chunk: if they agreed on whether the
  alternate screen is active they agree after it, except when the chunk both enables and disables it, where
  they always disagree, in whichever order the two sequences come.\<close>

theorem alt_screen_agreement:
  assumes "detectAltScreenChanges d p = Some p'" and "pv_vt v \<noteq> None" and "p_altScreenActive p = pv_altScreenActive v"
  shows "(p_altScreenActive p' = pv_altScreenActive (applyOutput E d v)) =
    (\<not> (hasSeq d alt_enable_seqs \<and> hasSeq d alt_disable_seqs))"
  using daemon_alt_screen [OF assms(1)] client_alt_screen [OF assms(2)] assms(3) by (auto simp: flag_def)

definition both_modes :: "byte list" where
  "both_modes = esc ''[?1049l'' @ esc ''[?1049h''"

theorem alt_screen_agreement_witness:
  "\<exists>p'. detectAltScreenChanges both_modes (s_pane example_session) = Some p' \<and> p_altScreenActive p' \<and>
     \<not> pv_altScreenActive (applyOutput (\<lambda>log d. []) both_modes (vw_pv stale_view))"
proof -
  have "case detectAltScreenChanges both_modes (s_pane example_session) of Some p' \<Rightarrow> p_altScreenActive p' | None \<Rightarrow> False"
    by code_simp
  then obtain p' where p': "detectAltScreenChanges both_modes (s_pane example_session) = Some p'" "p_altScreenActive p'"
    by (auto split: option.splits)
  have v: "pv_vt (vw_pv stale_view) \<noteq> None" "p_altScreenActive (s_pane example_session) = pv_altScreenActive (vw_pv stale_view)"
    by code_simp+
  have "hasSeq both_modes alt_enable_seqs" "hasSeq both_modes alt_disable_seqs" by code_simp+
  with alt_screen_agreement [OF p'(1) v, of "\<lambda>log d. []"] p' show ?thesis by auto
qed

end
