(* ===== verification/UiModel.thy ===== *)
theory UiModel
  imports PaneView AgentDetect
begin

text \<open>
  \<^verbatim>\<open>internal/ui\<close>: the part of the board's model that mirrors the daemon, that is start-up reconciliation
  (\<^verbatim>\<open>model.go\<close>, \<^verbatim>\<open>NewModel\<close>), the daemon's push events (\<^verbatim>\<open>daemon_subscribe.go\<close>), the periodic resync
  (\<^verbatim>\<open>daemon_resync.go\<close>), the status poll, disconnects and reconnects (\<^verbatim>\<open>daemon_reconnect.go\<close>) and the viewing
  indicator.  Panes are pointers into the heap \<open>md_views\<close>; the ticket store is the map of its tickets, and
  \<open>md_saves\<close> lists the saves made.  Logging, rendering and window titles are left out.
\<close>

section \<open>State\<close>

datatype Mode = ModeNormal | ModeInsert | ModeHelp | ModeConfirm | ModeConfirmExit | ModeCreateTicket | ModeEditTicket
  | ModeAgentView | ModeSettings | ModeShuttingDown | ModeSpawning | ModeFilter | ModeCreateProject | ModeEditProject

record confirmExitState =
  ce_sessions :: "SessionInfo list"
  ce_selectedIdx :: int
  ce_killing :: "string set option"

text \<open>\<open>md_client\<close>: no client, or whether its control connection is closed.\<close>

record Model =
  md_mode :: Mode
  md_daemon :: bool
  md_client :: "bool option"
  md_connected :: bool
  md_reconnecting :: bool
  md_wedged :: bool
  md_views :: "view_world list"
  md_panes :: "(TicketID, nat) gomap"
  md_focusedPane :: TicketID
  md_cycleAttachPrompt :: bool
  md_takeoverPrompt :: bool
  md_takeoverTicket :: TicketID
  md_takeoverPane :: "nat option"
  md_columnTickets :: "TicketID list list"
  md_width :: int
  md_height :: int
  md_clientID :: client_id
  md_daemonOwned :: "(TicketID, unit) gomap"
  md_daemonViewing :: "(TicketID, int) gomap"
  md_lastPTYActivity :: "(TicketID, time) gomap"
  md_tickets :: "(TicketID, Ticket) gomap"
  md_saves :: "Ticket list"
  md_viewing :: string
  md_spawningTicket :: TicketID
  md_spawningAgent :: string
  md_confirmQuit :: bool
  md_showConfirm :: bool
  md_confirmExit :: confirmExitState
  md_notification :: string

text \<open>Commands the update loop hands to the runtime.\<close>

datatype cmd = CmdQuit | CmdPrepareExit | CmdCancelExit | CmdKill string | CmdKillUnavailable string | CmdCleanup
  | CmdReadEvents | CmdSubscribe | CmdScheduleResync | CmdListSessions | CmdReconnect | CmdSetViewing string bool
  | CmdAttach TicketID nat bool | CmdPeek nat

text \<open>The outcome of a save, and the clock.\<close>

record ui_env =
  ue_now :: time
  ue_save :: "Ticket \<Rightarrow> string option"

definition notify :: "string \<Rightarrow> Model \<Rightarrow> Model" where
  "notify msg m = m\<lparr>md_notification := msg\<rparr>"

definition saveTicket :: "ui_env \<Rightarrow> Ticket \<Rightarrow> Model \<Rightarrow> Model" where
  "saveTicket E t m =
     (let m1 = m\<lparr>md_saves := md_saves m @ [t]\<rparr> in
      case ue_save E t of
        Some e \<Rightarrow> notify (''Failed to save: '' @ e) m1
      | None \<Rightarrow> m1)"

definition put_ticket :: "Ticket \<Rightarrow> Model \<Rightarrow> Model" where
  "put_ticket t m = m\<lparr>md_tickets := mput (t_ID t) t (md_tickets m)\<rparr>"

text \<open>\<^verbatim>\<open>if ticket.SetAgentStatus(st) { save }\<close>.\<close>

definition set_status :: "ui_env \<Rightarrow> AgentStatus \<Rightarrow> Ticket \<Rightarrow> Model \<Rightarrow> Model" where
  "set_status E st t m =
     (case SetAgentStatus (ue_now E) st t of
        (t1, changed) \<Rightarrow> if changed then saveTicket E t1 (put_ticket t1 m) else m)"

definition view_of :: "Model \<Rightarrow> TicketID \<Rightarrow> PaneView option" where
  "view_of m i = map_option (\<lambda>r. vw_pv (md_views m ! r)) (mget (md_panes m) i)"

text \<open>An operation of the pane behind a pointer; it does not panic (theorem \<open>view_run_safe\<close>).\<close>

definition on_view :: "(view_world \<Rightarrow> view_world option) \<Rightarrow> nat \<Rightarrow> Model \<Rightarrow> Model" where
  "on_view f r m =
     (case f (md_views m ! r) of None \<Rightarrow> m | Some v \<Rightarrow> m\<lparr>md_views := (md_views m)[r := v]\<rparr>)"

definition drop_pane :: "TicketID \<Rightarrow> Model \<Rightarrow> Model" where
  "drop_pane i m =
     (case mget (md_panes m) i of
        None \<Rightarrow> m
      | Some r \<Rightarrow> (on_view Close r m)\<lparr>md_panes := mdel i (md_panes m)\<rparr>)"

definition exitToBoard :: "Model \<Rightarrow> Model" where
  "exitToBoard m =
     (let m1 = (if md_focusedPane m = [] then m
                else case mget (md_panes m) (md_focusedPane m) of
                  None \<Rightarrow> m
                | Some r \<Rightarrow> on_view (detach True) r m) in
      m1\<lparr>md_mode := ModeNormal, md_focusedPane := [], md_cycleAttachPrompt := False\<rparr>)"

text \<open>A fresh pane for a daemon session, with the ticket's title.\<close>

definition new_view :: "Ticket \<Rightarrow> SessionInfo \<Rightarrow> view_world" where
  "new_view t i =
     (let v = view_init (t_ID t) (i_SessionID i) (Some i);
          p0 = vw_pv v;
          p1 = (if i_Workdir i \<noteq> [] then p0\<lparr>pv_workdir := i_Workdir i\<rparr> else p0);
          p2 = (if i_SessionName i \<noteq> [] then p1\<lparr>pv_sessionName := i_SessionName i\<rparr> else p1) in
      v\<lparr>vw_pv := p2\<lparr>pv_ticketTitle := t_Title t\<rparr>\<rparr>)"

definition put_pane :: "TicketID \<Rightarrow> view_world \<Rightarrow> Model \<Rightarrow> Model" where
  "put_pane i v m = m\<lparr>md_views := md_views m @ [v], md_panes := mput i (length (md_views m)) (md_panes m)\<rparr>"

definition add_pane :: "Ticket \<Rightarrow> SessionInfo \<Rightarrow> Model \<Rightarrow> Model" where
  "add_pane t i m = put_pane (t_ID t) (new_view t i) m"

definition own :: "TicketID \<Rightarrow> Model \<Rightarrow> Model" where
  "own i m = m\<lparr>md_daemonOwned := mput i () (md_daemonOwned m)\<rparr>"

definition disown :: "TicketID \<Rightarrow> Model \<Rightarrow> Model" where
  "disown i m = m\<lparr>md_daemonOwned := mdel i (md_daemonOwned m)\<rparr>"

section \<open>Start-up\<close>

text \<open>\<^verbatim>\<open>listSessionsWithRetry\<close>: the outcomes of successive attempts.\<close>

definition session_map :: "SessionInfo list \<Rightarrow> (TicketID, SessionInfo) gomap" where
  "session_map ss = fold (\<lambda>s. mput (i_TicketID s) s) ss []"

fun list_attempts :: "nat \<Rightarrow> (string + SessionInfo list) list \<Rightarrow> string \<Rightarrow> string + (TicketID, SessionInfo) gomap" where
  "list_attempts (Suc n) (Inr ss # rs) e = Inr (session_map ss)"
| "list_attempts (Suc n) (Inl e # rs) _ = list_attempts n rs e"
| "list_attempts _ _ e = Inl e"

definition listSessionsWithRetry :: "int \<Rightarrow> (string + SessionInfo list) list \<Rightarrow> string + (TicketID, SessionInfo) gomap" where
  "listSessionsWithRetry attempts rs = list_attempts (nat (if attempts < 1 then 1 else attempts)) rs []"

text \<open>The outcome of a start-up save is ignored.\<close>

definition startup_status :: "ui_env \<Rightarrow> AgentStatus \<Rightarrow> Ticket \<Rightarrow> Model \<Rightarrow> Model" where
  "startup_status E st t m =
     (case SetAgentStatus (ue_now E) st t of
        (t1, changed) \<Rightarrow> if changed then (put_ticket t1 m)\<lparr>md_saves := md_saves m @ [t1]\<rparr> else m)"

definition startup_ticket :: "ui_env \<Rightarrow> (string \<Rightarrow> AgentStatus) \<Rightarrow> (TicketID, SessionInfo) gomap \<Rightarrow> Ticket \<Rightarrow> Model \<Rightarrow> Model" where
  "startup_ticket E read_status owned t m =
     (case mget owned (t_ID t) of
        None \<Rightarrow> startup_status E AgentNone t m
      | Some i \<Rightarrow>
          (let m1 = add_pane t i m; st = read_status (i_SessionName i) in
           if st \<noteq> AgentNone then startup_status E st t m1 else m1))"

definition startup_own :: "TicketID \<times> SessionInfo \<Rightarrow> Model \<Rightarrow> Model" where
  "startup_own p m =
     (case p of (i, s) \<Rightarrow>
        let m1 = own i m in
        if i_ViewerCount s > 0 then m1\<lparr>md_daemonViewing := mput i (int (i_ViewerCount s)) (md_daemonViewing m1)\<rparr> else m1)"

text \<open>\<open>m0\<close> has the store and the client; \<open>read_status\<close> is \<^verbatim>\<open>agent.ReadAgentStatus\<close> and \<open>wedged\<close> what the daemon said in
  its hello.\<close>

definition NewModel :: "ui_env \<Rightarrow> (string \<Rightarrow> AgentStatus) \<Rightarrow> bool \<Rightarrow> (TicketID, SessionInfo) gomap \<Rightarrow> Model \<Rightarrow> Model" where
  "NewModel E read_status wedged owned m0 =
     (let m1 = fold startup_own owned m0;
          m2 = fold (startup_ticket E read_status owned) (map snd (md_tickets m0)) m1 in
      if md_client m0 \<noteq> None \<and> wedged then m2\<lparr>md_wedged := True\<rparr> else m2)"

section \<open>Push events\<close>

definition applyDaemonStatus :: "ui_env \<Rightarrow> Ticket \<Rightarrow> string \<Rightarrow> Ticket \<times> bool" where
  "applyDaemonStatus E t raw =
     (if raw \<notin> {AgentIdle, AgentWorking, AgentWaiting, AgentSubagents, AgentCompleted, AgentError, AgentStuck} then (t, False)
      else if t_AgentStatus t = AgentCompleted \<and> raw \<noteq> AgentCompleted \<and> raw \<noteq> AgentError then (t, False)
      else SetAgentStatus (ue_now E) raw t)"

definition apply_status :: "ui_env \<Rightarrow> Ticket \<Rightarrow> string \<Rightarrow> Model \<Rightarrow> Model" where
  "apply_status E t raw m =
     (case applyDaemonStatus E t raw of
        (t1, changed) \<Rightarrow> if changed then saveTicket E t1 (put_ticket t1 m) else m)"

definition event_exited :: "ui_env \<Rightarrow> SessionEvent \<Rightarrow> Ticket \<Rightarrow> Model \<Rightarrow> Model" where
  "event_exited E ev t m =
     (let i = ev_TicketID ev;
          m1 = (disown i m)\<lparr>md_daemonViewing := mdel i (md_daemonViewing m), md_lastPTYActivity := mdel i (md_lastPTYActivity m)\<rparr>;
          m2 = set_status E (if ev_Expected ev then AgentCompleted else AgentNone) t m1;
          m3 = drop_pane i m2 in
      if md_focusedPane m3 = i then exitToBoard m3 else m3)"

definition event_unviewing :: "TicketID \<Rightarrow> Model \<Rightarrow> Model" where
  "event_unviewing i m =
     (case mget (md_daemonViewing m) i of
        None \<Rightarrow> m
      | Some n \<Rightarrow>
          if n > 0 then
            (if n - 1 = 0 then m\<lparr>md_daemonViewing := mdel i (md_daemonViewing m)\<rparr>
             else m\<lparr>md_daemonViewing := mput i (n - 1) (md_daemonViewing m)\<rparr>)
          else m)"

definition event_viewing :: "TicketID \<Rightarrow> Model \<Rightarrow> Model" where
  "event_viewing i m =
     m\<lparr>md_daemonViewing :=
         mput i ((case mget (md_daemonViewing m) i of None \<Rightarrow> 0 | Some n \<Rightarrow> n) + 1) (md_daemonViewing m)\<rparr>"

definition event_activity :: "SessionEvent \<Rightarrow> Model \<Rightarrow> Model" where
  "event_activity ev m =
     (case ev_LastActivityAt ev of
        None \<Rightarrow> m
      | Some t \<Rightarrow>
          (case mget (md_lastPTYActivity m) (ev_TicketID ev) of
             Some cur \<Rightarrow> if cur < t then m\<lparr>md_lastPTYActivity := mput (ev_TicketID ev) t (md_lastPTYActivity m)\<rparr> else m
           | None \<Rightarrow> m\<lparr>md_lastPTYActivity := mput (ev_TicketID ev) t (md_lastPTYActivity m)\<rparr>))"

definition applyDaemonSessionEvent :: "ui_env \<Rightarrow> SessionEvent \<Rightarrow> Model \<Rightarrow> Model" where
  "applyDaemonSessionEvent E ev m =
     (if ev_Event ev = ''daemon_wedged'' then m\<lparr>md_wedged := True\<rparr>
      else if ev_Event ev = ''daemon_unwedged'' then m\<lparr>md_wedged := False\<rparr>
      else if ev_TicketID ev = [] then m
      else
        (let m1 = event_activity ev m; i = ev_TicketID ev in
         case mget (md_tickets m1) i of
           None \<Rightarrow> m1
         | Some t \<Rightarrow>
             (if ev_Event ev = ''started'' then
                (if ev_Status ev \<noteq> [] then apply_status E t (ev_Status ev) (own i m1) else set_status E AgentWorking t (own i m1))
              else if ev_Event ev = ''exited'' then event_exited E ev t m1
              else if ev_Event ev = ''viewing'' then event_viewing i m1
              else if ev_Event ev = ''unviewing'' then event_unviewing i m1
              else if ev_Event ev = ''activity'' \<or> ev_Event ev = ''status'' then apply_status E t (ev_Status ev) m1
              else m1)))"

definition handleDaemonSessionEvents :: "ui_env \<Rightarrow> SessionEvent list \<Rightarrow> Model \<Rightarrow> Model \<times> cmd list" where
  "handleDaemonSessionEvents E evs m = (fold (applyDaemonSessionEvent E) evs m, [CmdReadEvents])"

section \<open>The periodic resync\<close>

definition scheduleDaemonResync :: "Model \<Rightarrow> cmd list" where
  "scheduleDaemonResync m = (if md_daemon m then [CmdScheduleResync] else [])"

definition handleDaemonResyncTick :: "Model \<Rightarrow> Model \<times> cmd list" where
  "handleDaemonResyncTick m = (m, if md_daemon m then [CmdListSessions] else [])"

definition maybeReconnectDaemon :: "Model \<Rightarrow> Model \<times> cmd list" where
  "maybeReconnectDaemon m = (if md_reconnecting m then (m, []) else (m\<lparr>md_reconnecting := True\<rparr>, [CmdReconnect]))"

definition reconnect_if_closed :: "Model \<Rightarrow> Model \<times> cmd list" where
  "reconnect_if_closed m = (if md_client m = Some True then maybeReconnectDaemon m else (m, []))"

definition resync_add :: "TicketID \<times> SessionInfo \<Rightarrow> Model \<Rightarrow> Model" where
  "resync_add p m =
     (case p of (i, info) \<Rightarrow>
        if mget (md_panes m) i \<noteq> None then own i m
        else case mget (md_tickets m) i of
          None \<Rightarrow> own i m
        | Some t \<Rightarrow> if md_client m = None then own i m else own i (add_pane t info m))"

definition resync_drop :: "(TicketID, SessionInfo) gomap \<Rightarrow> TicketID \<Rightarrow> Model \<Rightarrow> Model" where
  "resync_drop owned i m =
     (if mget owned i \<noteq> None then m
      else case view_of m i of
        None \<Rightarrow> m
      | Some p \<Rightarrow> if pv_state p = PaneViewAttached then m else disown i (drop_pane i m))"

definition resync_disown :: "(TicketID, SessionInfo) gomap \<Rightarrow> TicketID \<Rightarrow> Model \<Rightarrow> Model" where
  "resync_disown owned i m =
     (if mget owned i \<noteq> None \<or> mget (md_panes m) i \<noteq> None then m else disown i m)"

definition resync :: "(TicketID, SessionInfo) gomap \<Rightarrow> Model \<Rightarrow> Model" where
  "resync owned m =
     (let m1 = fold resync_add owned m;
          m2 = fold (resync_drop owned) (map fst (md_panes m1)) m1 in
      fold (resync_disown owned) (map fst (md_daemonOwned m2)) m2)"

definition handleDaemonResyncMsg :: "string + (TicketID, SessionInfo) gomap \<Rightarrow> Model \<Rightarrow> Model \<times> cmd list" where
  "handleDaemonResyncMsg res m =
     (case res of
        Inl e \<Rightarrow> (case reconnect_if_closed m of (m1, cs) \<Rightarrow> (m1, scheduleDaemonResync m @ cs))
      | Inr owned \<Rightarrow> (let m1 = resync owned m in (m1, scheduleDaemonResync m1)))"

section \<open>Subscriptions, disconnects, reconnects\<close>

definition handleDaemonSubscribeReady :: "Model \<Rightarrow> Model \<times> cmd list" where
  "handleDaemonSubscribeReady m = (m\<lparr>md_connected := True\<rparr>, [CmdReadEvents])"

definition handleDaemonSubscribeFailed :: "Model \<Rightarrow> Model \<times> cmd list" where
  "handleDaemonSubscribeFailed m = (m\<lparr>md_connected := False\<rparr>, [])"

definition handleDaemonSubscribeEnded :: "Model \<Rightarrow> Model \<times> cmd list" where
  "handleDaemonSubscribeEnded m = (m\<lparr>md_connected := False\<rparr>, [])"

definition daemonDisconnected :: "string option \<Rightarrow> Model \<Rightarrow> Model \<times> cmd list" where
  "daemonDisconnected err m =
     (let m1 = fold drop_pane (map fst (md_panes m)) m;
          m2 = (if md_focusedPane m1 \<noteq> [] then exitToBoard m1 else m1);
          m3 = notify (case err of Some e \<Rightarrow> ''Daemon disconnected: '' @ e | None \<Rightarrow> ''Daemon disconnected'')
                 (m2\<lparr>md_connected := False, md_daemonOwned := [], md_daemonViewing := [], md_viewing := []\<rparr>) in
      reconnect_if_closed m3)"

datatype reconnect_result = Reconnected | VersionSkew | ReconnectFailed

definition handleDaemonReconnectedMsg :: "reconnect_result \<Rightarrow> Model \<Rightarrow> Model \<times> cmd list" where
  "handleDaemonReconnectedMsg res m =
     (let m1 = m\<lparr>md_reconnecting := False\<rparr> in
      case res of
        VersionSkew \<Rightarrow> (notify (''Daemon version skew '' @ [CHR 0xE2, CHR 0x80, CHR 0x94] @ '' run `openkanban daemon restart`'') m1, [])
      | ReconnectFailed \<Rightarrow> (m1, [])
      | Reconnected \<Rightarrow> (notify ''Daemon reconnected'' (m1\<lparr>md_client := Some False, md_daemon := True\<rparr>), [CmdSubscribe]))"

section \<open>Pane messages and the status poll\<close>

definition paneDetached :: "TicketID \<Rightarrow> Model \<Rightarrow> Model" where
  "paneDetached i m = (if md_focusedPane m = i then exitToBoard m else m)"

definition paneExited :: "ui_env \<Rightarrow> TicketID \<Rightarrow> Model \<Rightarrow> Model" where
  "paneExited E i m =
     (let m1 = drop_pane i m;
          m2 = (case mget (md_tickets m1) i of
                  None \<Rightarrow> m1
                | Some t \<Rightarrow> if t_AgentStatus t \<noteq> AgentCompleted then set_status E AgentNone t m1 else m1) in
      if md_focusedPane m2 = i then notify ''Agent exited'' (exitToBoard m2) else m2)"

definition poll_status :: "ui_env \<Rightarrow> TicketID \<times> AgentStatus \<Rightarrow> Model \<Rightarrow> Model" where
  "poll_status E p m =
     (case p of (i, st) \<Rightarrow>
        if st = AgentNone then m
        else case mget (md_tickets m) i of
          None \<Rightarrow> m
        | Some t \<Rightarrow>
            if t_AgentStatus t = AgentCompleted \<and> st \<noteq> AgentCompleted \<and> st \<noteq> AgentError then m
            else if t_AgentStatus t = AgentSubagents \<and> (st = AgentWorking \<or> st = AgentWaiting) then m
            else put_ticket (fst (SetAgentStatus (ue_now E) st t)) m)"

definition agentStatusResult :: "ui_env \<Rightarrow> (TicketID, AgentStatus) gomap \<Rightarrow> Model \<Rightarrow> Model" where
  "agentStatusResult E results m = fold (poll_status E) results m"

text \<open>One ticket of \<^verbatim>\<open>pollAgentStatusesAsync\<close> after the back-fill, which yields \<open>apiSessionID\<close>.\<close>

definition poll_one ::
  "detect_env \<Rightarrow> time \<Rightarrow> Ticket \<Rightarrow> PaneView \<Rightarrow> string \<Rightarrow> rune list \<Rightarrow> time option \<Rightarrow> StatusDetector \<Rightarrow>
   StatusDetector \<times> AgentStatus" where
  "poll_one D now t p apiSessionID content lastActivity d =
     (if \<not> pv_Running p then (d, AgentNone)
      else
        (let key1 = pv_sessionName p;
             key2 = (if key1 = [] then t_BranchName t else key1);
             key3 = (if key2 = [] then t_ID t else key2) in
         DetectStatusWithActivity D now (t_AgentType t) key3 apiSessionID (t_AgentPort t) True content lastActivity d))"

section \<open>The viewing indicator\<close>

definition setViewingCmd :: "Model \<Rightarrow> string \<Rightarrow> bool \<Rightarrow> cmd list" where
  "setViewingCmd m sid viewing = (if md_client m = None \<or> sid = [] then [] else [CmdSetViewing sid viewing])"

definition viewing_target :: "Model \<Rightarrow> string" where
  "viewing_target m =
     (if md_mode m = ModeAgentView \<and> md_focusedPane m \<noteq> []
      then (case view_of m (md_focusedPane m) of Some p \<Rightarrow> pv_sessionID p | None \<Rightarrow> [])
      else [])"

definition reconcileViewing :: "Model \<Rightarrow> Model \<times> cmd list" where
  "reconcileViewing m =
     (let target = viewing_target m; prev = md_viewing m in
      if target = prev then (m, [])
      else
        (let m1 = m\<lparr>md_viewing := target\<rparr> in
         (m1, (if prev \<noteq> [] then setViewingCmd m1 prev False else []) @
              (if target \<noteq> [] then setViewingCmd m1 target True else []))))"

definition handleStallRecover :: "Model \<Rightarrow> Model" where
  "handleStallRecover m =
     (if md_mode m \<noteq> ModeAgentView then m
      else
        notify (''Recovered a stalled session view '' @ [CHR 0xE2, CHR 0x80, CHR 0x94] @
                '' detached to the board; re-enter to resume'') (exitToBoard m))"

definition RunningAgentCount :: "Model \<Rightarrow> nat" where
  "RunningAgentCount m = length (filter (\<lambda>(i, r). pv_Running (vw_pv (md_views m ! r))) (md_panes m))"

definition resetSpawnState :: "ui_env \<Rightarrow> TicketID \<Rightarrow> Model \<Rightarrow> Model" where
  "resetSpawnState E i m =
     (let m1 = (case mget (md_tickets m) i of
                  None \<Rightarrow> m
                | Some t \<Rightarrow>
                    (let t1 = t\<lparr>t_AgentSpawnedAt := None\<rparr>;
                         t2 = (if t_Status t1 \<noteq> StatusDone then fst (SetAgentStatus (ue_now E) AgentNone t1) else t1) in
                     saveTicket E t2 (put_ticket t2 m))) in
      m1\<lparr>md_mode := ModeNormal, md_spawningTicket := [], md_spawningAgent := [], md_panes := mdel i (md_panes m1)\<rparr>)"

section \<open>Spawns\<close>

text \<open>What a finished spawn writes into its ticket; \<open>wt\<close> is the worktree's path, its branch and the base branch.\<close>

definition stamp_spawn :: "ui_env \<Rightarrow> string \<times> string \<times> string \<Rightarrow> Ticket \<Rightarrow> Ticket" where
  "stamp_spawn E wt t =
     (let t1 = (if t_AgentSpawnedAt t = None then t\<lparr>t_AgentSpawnedAt := Some (ue_now E)\<rparr> else t) in
      case wt of (path, branch, base) \<Rightarrow>
        if path \<noteq> [] \<and> t_WorktreePath t1 = [] then t1\<lparr>t_WorktreePath := path, t_BranchName := branch, t_BaseBranch := base\<rparr>
        else t1)"

definition save_spawn :: "ui_env \<Rightarrow> string \<times> string \<times> string \<Rightarrow> (Ticket \<Rightarrow> Ticket) \<Rightarrow> TicketID \<Rightarrow> Model \<Rightarrow> Model" where
  "save_spawn E wt f i m =
     (case mget (md_tickets m) i of
        None \<Rightarrow> m
      | Some t \<Rightarrow> (let t1 = stamp_spawn E wt (f t) in saveTicket E t1 (put_ticket t1 m)))"

definition spawnReady :: "ui_env \<Rightarrow> TicketID \<Rightarrow> view_world \<Rightarrow> string \<times> string \<times> string \<Rightarrow> string \<Rightarrow> Model \<Rightarrow> Model" where
  "spawnReady E i v wt notice m =
     (if i \<noteq> md_spawningTicket m then m
      else
        (let m1 = save_spawn E wt (\<lambda>t. t\<lparr>t_AgentType := md_spawningAgent m\<rparr>) i m;
             m2 = (own i (put_pane i v m1))\<lparr>md_focusedPane := i\<rparr>;
             m3 = (if notice \<noteq> [] then notify notice m2 else m2) in
         m3\<lparr>md_mode := ModeAgentView, md_spawningTicket := [], md_spawningAgent := []\<rparr>))"

definition spawnUnattachedReady :: "ui_env \<Rightarrow> TicketID \<Rightarrow> view_world \<Rightarrow> string \<times> string \<times> string \<Rightarrow> Model \<Rightarrow> Model" where
  "spawnUnattachedReady E i v wt m =
     notify ''Agent launched in background'' (own i (put_pane i v (save_spawn E wt id i m)))"

section \<open>The agent view\<close>

definition doAttach :: "TicketID \<Rightarrow> nat option \<Rightarrow> bool \<Rightarrow> Model \<Rightarrow> cmd list" where
  "doAttach i ro takeover m =
     (case ro of None \<Rightarrow> [] | Some r \<Rightarrow> if md_client m = None then [] else [CmdAttach i r takeover])"

definition attachExisting :: "TicketID \<Rightarrow> nat option \<Rightarrow> Model \<Rightarrow> cmd list" where
  "attachExisting i ro m = doAttach i ro False m"

definition clear_takeover :: "Model \<Rightarrow> Model" where
  "clear_takeover m = m\<lparr>md_takeoverPrompt := False, md_takeoverTicket := [], md_takeoverPane := None\<rparr>"

text \<open>A pane the board has dropped meanwhile comes back as a fresh cell of the heap.\<close>

definition armTakeoverPrompt :: "TicketID \<Rightarrow> view_world option \<Rightarrow> Model \<Rightarrow> Model" where
  "armTakeoverPrompt i vo m =
     (let m1 = (case mget (md_panes m) i of
                  Some r \<Rightarrow> own i m
                | None \<Rightarrow> (case vo of Some v \<Rightarrow> own i (put_pane i v m) | None \<Rightarrow> m)) in
      m1\<lparr>md_takeoverTicket := i, md_takeoverPane := mget (md_panes m1) i, md_takeoverPrompt := True, md_focusedPane := i,
         md_mode := ModeAgentView\<rparr>)"

definition handleTakeoverPromptKey :: "string \<Rightarrow> Model \<Rightarrow> Model \<times> cmd list" where
  "handleTakeoverPromptKey key m =
     (if key = ''enter'' \<or> key = ''y'' \<or> key = ''Y'' then
        (clear_takeover m, doAttach (md_takeoverTicket m) (md_takeoverPane m) True m)
      else ((clear_takeover m)\<lparr>md_mode := ModeNormal, md_focusedPane := []\<rparr>, []))"

definition resize_view :: "client_id \<Rightarrow> int \<Rightarrow> int \<Rightarrow> view_world \<Rightarrow> view_world" where
  "resize_view c x y w =
     (case pv_SetSize c x y (vw_pv w) of
        (p, None) \<Rightarrow> w\<lparr>vw_pv := p\<rparr>
      | (p, Some (k, d)) \<Rightarrow>
          w\<lparr>vw_pv := p, vw_conns := (vw_conns w)[k := (vw_conns w ! k)\<lparr>vc_sent := vc_sent (vw_conns w ! k) @ [(TypeResize, d)]\<rparr>]\<rparr>)"

definition is_open :: "Model \<Rightarrow> TicketID \<Rightarrow> bool" where
  "is_open m i \<longleftrightarrow> (case view_of m i of Some p \<Rightarrow> pv_state p \<in> {PaneViewAttached, PaneViewUnattached} | None \<Rightarrow> False)"

definition all_open :: "Model \<Rightarrow> TicketID list" where
  "all_open m = filter (is_open m) (concat (md_columnTickets m))"

fun first_index :: "'a \<Rightarrow> 'a list \<Rightarrow> nat option" where
  "first_index x [] = None"
| "first_index x (y # ys) = (if y = x then Some 0 else map_option Suc (first_index x ys))"

text \<open>\<^verbatim>\<open>focusAndPromptAttach\<close>.\<close>

definition focusAndPromptAttach :: "TicketID \<Rightarrow> Model \<Rightarrow> Model \<times> cmd list" where
  "focusAndPromptAttach target m =
     (let m1 = m\<lparr>md_focusedPane := target\<rparr> in
      case mget (md_panes m) target of
        None \<Rightarrow> (m1\<lparr>md_cycleAttachPrompt := True\<rparr>, [])
      | Some r \<Rightarrow>
          ((on_view (Some \<circ> resize_view (md_clientID m) (md_width m) (md_height m - 2)) r m1)\<lparr>md_cycleAttachPrompt := True\<rparr>,
           if pv_state (vw_pv (md_views m ! r)) = PaneViewUnattached then [CmdPeek r] else []))"

definition cycleUnattachedSession :: "int \<Rightarrow> Model \<Rightarrow> Model \<times> cmd list" where
  "cycleUnattachedSession delta m =
     (if delta \<noteq> 1 \<and> delta \<noteq> -1 then (m, [])
      else
        (let os = all_open m; cur = first_index (md_focusedPane m) os;
             others = (case cur of None \<Rightarrow> length os | Some k \<Rightarrow> length os - 1) in
         if others = 0 then (notify ''No other open sessions'' m, [])
         else focusAndPromptAttach
           (case cur of
              None \<Rightarrow> if delta > 0 then hd os else last os
            | Some k \<Rightarrow> os ! nat ((int k + delta + int (length os)) mod int (length os))) m))"

definition ctrl_backslash :: string where "ctrl_backslash = ''ctrl+'' @ [CHR 0x5C]"

definition handleCycleAttachPromptKey :: "string \<Rightarrow> Model \<Rightarrow> Model \<times> cmd list" where
  "handleCycleAttachPromptKey key m =
     (if key = ''enter'' then
        (case mget (md_panes m) (md_focusedPane m) of
           None \<Rightarrow> (exitToBoard m, [])
         | Some r \<Rightarrow> (m\<lparr>md_cycleAttachPrompt := False\<rparr>, attachExisting (md_focusedPane m) (Some r) m))
      else if key = ''esc'' \<or> key = ''ctrl+g'' then (exitToBoard m, [])
      else if key = ''ctrl+]'' then cycleUnattachedSession 1 m
      else if key = ctrl_backslash then cycleUnattachedSession (-1) m
      else (m, []))"

definition shouldRetryAttachOnEnter :: "PaneView \<Rightarrow> bool" where
  "shouldRetryAttachOnEnter p \<longleftrightarrow> pv_lastAttachErr p \<noteq> None \<and> pv_state p \<noteq> PaneViewAttached"

text \<open>Keys of the pane itself are not modelled; its answers arrive as messages.\<close>

definition handleAgentViewMode :: "string \<Rightarrow> Model \<Rightarrow> Model \<times> cmd list" where
  "handleAgentViewMode key m =
     (if md_takeoverPrompt m then handleTakeoverPromptKey key m
      else if md_cycleAttachPrompt m then handleCycleAttachPromptKey key m
      else
        (case mget (md_panes m) (md_focusedPane m) of
           None \<Rightarrow> (exitToBoard m, [])
         | Some r \<Rightarrow>
             (if key = ''ctrl+]'' then cycleUnattachedSession 1 m
              else if key = ctrl_backslash then cycleUnattachedSession (-1) m
              else if key = ''enter'' \<and> shouldRetryAttachOnEnter (vw_pv (md_views m ! r)) then
                (m, attachExisting (md_focusedPane m) (Some r) m)
              else (m, []))))"

end
