(* ===== verification/ExitGuard.thy ===== *)
theory ExitGuard
  imports UiModel
begin

text \<open>
  \<^verbatim>\<open>internal/ui/exit_guard.go\<close> and the routing of \<^verbatim>\<open>model.go\<close> (\<^verbatim>\<open>dispatchUpdate\<close>, \<^verbatim>\<open>handleQuit\<close>): the modal that stands
  between a quit and live sessions.  A message either comes from the user or answers a command; keys that no
  modelled handler treats leave the model alone.  Rendering is not modelled.
\<close>

section \<open>The modal\<close>

definition ce_reset :: "confirmExitState \<Rightarrow> confirmExitState" where
  "ce_reset s = \<lparr>ce_sessions = [], ce_selectedIdx = 0, ce_killing = None\<rparr>"

definition is_killing :: "string \<Rightarrow> confirmExitState \<Rightarrow> bool" where
  "is_killing i s \<longleftrightarrow> (case ce_killing s of None \<Rightarrow> False | Some K \<Rightarrow> i \<in> K)"

definition add_killing :: "string \<Rightarrow> confirmExitState \<Rightarrow> confirmExitState" where
  "add_killing i s = s\<lparr>ce_killing := Some (insert i (case ce_killing s of None \<Rightarrow> {} | Some K \<Rightarrow> K))\<rparr>"

definition del_killing :: "string \<Rightarrow> confirmExitState \<Rightarrow> confirmExitState" where
  "del_killing i s = s\<lparr>ce_killing := map_option (\<lambda>K. K - {i}) (ce_killing s)\<rparr>"

definition removeSession :: "string \<Rightarrow> confirmExitState \<Rightarrow> confirmExitState" where
  "removeSession i s =
     (let out = filter (\<lambda>si. i_SessionID si \<noteq> i) (ce_sessions s) in
      s\<lparr>ce_sessions := out,
        ce_selectedIdx :=
          (if ce_selectedIdx s \<ge> int (length out) then max 0 (int (length out) - 1) else ce_selectedIdx s)\<rparr>)"

definition open_modal :: "SessionInfo list \<Rightarrow> Model \<Rightarrow> Model" where
  "open_modal ss m =
     m\<lparr>md_confirmExit := (ce_reset (md_confirmExit m))\<lparr>ce_sessions := ss, ce_killing := Some {}\<rparr>, md_mode := ModeConfirmExit\<rparr>"

definition handleQuitRequested :: "Model \<Rightarrow> Model \<times> cmd list" where
  "handleQuitRequested m = (m, if \<not> md_daemon m then [CmdQuit] else [CmdPrepareExit])"

definition handlePrepareExitResult :: "PrepareExitResp \<Rightarrow> Model \<Rightarrow> Model \<times> cmd list" where
  "handlePrepareExitResult resp m =
     (if pe_Persistent resp then (m, [CmdQuit])
      else if pe_OtherActiveClients resp > 0 then (m, [CmdQuit])
      else if pe_Sessions resp = [] then (m, [CmdQuit])
      else (open_modal (pe_Sessions resp) m, []))"

text \<open>The fields a local pane does not know are zero.\<close>

definition local_info :: "TicketID \<Rightarrow> PaneView \<Rightarrow> SessionInfo" where
  "local_info i p =
     \<lparr>i_SessionID = pv_sessionID p, i_TicketID = i, i_SessionName = pv_sessionName p, i_Workdir = [], i_Title = pv_Title p,
      i_PID = 0, i_Cols = 0, i_Rows = 0, i_Scrollback = 0, i_Running = True, i_AttachedClient = 0, i_ViewerCount = 0,
      i_StartedAt = 0\<rparr>"

definition localRunningSessions :: "Model \<Rightarrow> SessionInfo list" where
  "localRunningSessions m =
     map (\<lambda>(i, r). local_info i (vw_pv (md_views m ! r))) (filter (\<lambda>(i, r). pv_Running (vw_pv (md_views m ! r))) (md_panes m))"

definition handlePrepareExitFailed :: "Model \<Rightarrow> Model \<times> cmd list" where
  "handlePrepareExitFailed m =
     (let ss = localRunningSessions m in
      if ss = [] then (m, [CmdQuit])
      else (notify ''Daemon RPC failed; showing locally-known sessions. Kill or cancel.'' (open_modal ss m), []))"

definition handleSessionKilled :: "string \<Rightarrow> Model \<Rightarrow> Model \<times> cmd list" where
  "handleSessionKilled i m =
     (let ce = removeSession i (del_killing i (md_confirmExit m)); m1 = m\<lparr>md_confirmExit := ce\<rparr> in
      if md_mode m1 = ModeConfirmExit \<and> ce_sessions ce = [] then
        (m1\<lparr>md_confirmExit := ce_reset ce, md_mode := ModeNormal\<rparr>, [CmdQuit])
      else (m1, []))"

definition handleSessionKillFailed :: "string \<Rightarrow> string option \<Rightarrow> Model \<Rightarrow> Model \<times> cmd list" where
  "handleSessionKillFailed i err m =
     (let m1 = m\<lparr>md_confirmExit := del_killing i (md_confirmExit m)\<rparr> in
      (case err of None \<Rightarrow> m1 | Some e \<Rightarrow> notify (''Kill failed: '' @ e) m1, []))"

definition killSessionCmd :: "Model \<Rightarrow> string \<Rightarrow> cmd" where
  "killSessionCmd m i = (if md_daemon m then CmdKill i else CmdKillUnavailable i)"

definition cancelExitCmd :: "Model \<Rightarrow> cmd list" where
  "cancelExitCmd m = (if md_daemon m then [CmdCancelExit] else [])"

definition killSelectedSession :: "Model \<Rightarrow> Model \<times> cmd list" where
  "killSelectedSession m =
     (let ce = md_confirmExit m; idx = ce_selectedIdx ce in
      if ce_sessions ce = [] then (m, [])
      else if idx < 0 \<or> idx \<ge> int (length (ce_sessions ce)) then (m, [])
      else
        (let i = i_SessionID (ce_sessions ce ! nat idx) in
         if is_killing i ce then (m, [])
         else (m\<lparr>md_confirmExit := add_killing i ce\<rparr>, [killSessionCmd m i])))"

definition kill_one :: "SessionInfo \<Rightarrow> Model \<times> cmd list \<Rightarrow> Model \<times> cmd list" where
  "kill_one si st =
     (case st of (m, cs) \<Rightarrow>
        let i = i_SessionID si in
        if is_killing i (md_confirmExit m) then (m, cs)
        else (m\<lparr>md_confirmExit := add_killing i (md_confirmExit m)\<rparr>, cs @ [killSessionCmd m i]))"

definition killAllSessions :: "Model \<Rightarrow> Model \<times> cmd list" where
  "killAllSessions m =
     (let ce = md_confirmExit m in
      if ce_sessions ce = [] then (m, [])
      else fold kill_one (ce_sessions ce)
             (m\<lparr>md_confirmExit := ce\<lparr>ce_killing := Some (case ce_killing ce of None \<Rightarrow> {} | Some K \<Rightarrow> K)\<rparr>\<rparr>, []))"

definition handleConfirmExitMode :: "string \<Rightarrow> Model \<Rightarrow> Model \<times> cmd list" where
  "handleConfirmExitMode key m =
     (let ce = md_confirmExit m in
      if key = ''esc'' \<or> key = ''q'' then
        (m\<lparr>md_confirmExit := ce_reset ce, md_mode := ModeNormal\<rparr>, cancelExitCmd m)
      else if key = ''up'' \<or> key = ''k'' then
        (if ce_selectedIdx ce > 0 then m\<lparr>md_confirmExit := ce\<lparr>ce_selectedIdx := ce_selectedIdx ce - 1\<rparr>\<rparr> else m, [])
      else if key = ''down'' \<or> key = ''j'' then
        (if ce_selectedIdx ce < int (length (ce_sessions ce)) - 1
         then m\<lparr>md_confirmExit := ce\<lparr>ce_selectedIdx := ce_selectedIdx ce + 1\<rparr>\<rparr> else m, [])
      else if key = ''x'' \<or> key = ''enter'' then killSelectedSession m
      else if key = ''X'' then killAllSessions m
      else (m, []))"

definition handleQuit :: "Model \<Rightarrow> Model \<times> cmd list" where
  "handleQuit m =
     (if md_daemon m then handleQuitRequested m
      else if RunningAgentCount m = 0 then (m, [CmdQuit])
      else if \<not> md_confirmQuit m then (m\<lparr>md_mode := ModeShuttingDown\<rparr>, [CmdCleanup])
      else (m\<lparr>md_showConfirm := True\<rparr>, []))"

section \<open>Routing\<close>

datatype ui_msg = MEvents "SessionEvent list" | MSubscribeReady | MSubscribeFailed | MSubscribeEnded | MResyncTick
  | MResync "string + (TicketID, SessionInfo) gomap" | MShutdownComplete | MKey string | MQuitRequested
  | MPrepareExit PrepareExitResp | MPrepareExitFailed | MKilled string | MKillFailed string "string option"
  | MPaneDetached TicketID | MPaneExit TicketID "string option" | MPaneOutput TicketID | MAttachFirst TicketID
  | MSpawnReady TicketID view_world "string \<times> string \<times> string" string
  | MSpawnUnattached TicketID view_world "string \<times> string \<times> string" | MSpawnError TicketID string
  | MAttachConflict TicketID "view_world option" | MDisconnected "string option" | MReconnected reconnect_result
  | MStatusPolled "(TicketID, AgentStatus) gomap" | MStallRecover | MExitFocus

definition handleKey :: "string \<Rightarrow> Model \<Rightarrow> Model \<times> cmd list" where
  "handleKey key m =
     (if md_mode m = ModeConfirmExit then handleConfirmExitMode key m
      else if (key = ''ctrl+c'' \<or> key = ''q'') \<and> md_mode m = ModeNormal then handleQuit m
      else if md_mode m = ModeAgentView then handleAgentViewMode key m
      else if key = ''esc'' \<and> md_mode m \<noteq> ModeNormal then (m\<lparr>md_mode := ModeNormal, md_showConfirm := False\<rparr>, [])
      else (m, []))"

text \<open>While a spawn's splash is up only its own messages get through.\<close>

definition spawning_update :: "ui_env \<Rightarrow> ui_msg \<Rightarrow> Model \<Rightarrow> Model \<times> cmd list" where
  "spawning_update E msg m =
     (case msg of
        MSpawnReady i v wt notice \<Rightarrow> (spawnReady E i v wt notice m, [])
      | MSpawnError i e \<Rightarrow>
          (if i = md_spawningTicket m then notify e (m\<lparr>md_mode := ModeNormal, md_spawningTicket := [], md_spawningAgent := []\<rparr>)
           else m, [])
      | MAttachConflict i vo \<Rightarrow>
          (armTakeoverPrompt i vo
             (if i = md_spawningTicket m then m\<lparr>md_spawningTicket := [], md_spawningAgent := []\<rparr> else m), [])
      | MPaneOutput i \<Rightarrow>
          (if i = md_spawningTicket m then m\<lparr>md_mode := ModeAgentView, md_spawningTicket := [], md_spawningAgent := []\<rparr>
           else m, [])
      | MPaneExit i e \<Rightarrow>
          (if i = md_spawningTicket m then
             notify (case e of Some x \<Rightarrow> ''Agent failed: '' @ x | None \<Rightarrow> ''Agent exited unexpectedly'') (resetSpawnState E i m)
           else m, [])
      | MKey key \<Rightarrow>
          (if key = ''esc'' then
             (let i = md_spawningTicket m;
                  m1 = (case mget (md_panes m) i of
                          None \<Rightarrow> m
                        | Some r \<Rightarrow> (on_view (\<lambda>v. map_option fst (stop 0 v)) r m)\<lparr>md_panes := mdel i (md_panes m)\<rparr>) in
              notify ''Spawn cancelled'' (m1\<lparr>md_mode := ModeNormal, md_spawningTicket := [], md_spawningAgent := []\<rparr>))
           else m, [])
      | _ \<Rightarrow> (m, []))"

definition board_update :: "ui_env \<Rightarrow> ui_msg \<Rightarrow> Model \<Rightarrow> Model \<times> cmd list" where
  "board_update E msg m =
     (case msg of
        MKey key \<Rightarrow> handleKey key m
      | MQuitRequested \<Rightarrow> handleQuitRequested m
      | MPrepareExit resp \<Rightarrow> handlePrepareExitResult resp m
      | MPrepareExitFailed \<Rightarrow> handlePrepareExitFailed m
      | MKilled i \<Rightarrow> handleSessionKilled i m
      | MKillFailed i e \<Rightarrow> handleSessionKillFailed i e m
      | MPaneDetached i \<Rightarrow> (paneDetached i m, [])
      | MPaneExit i e \<Rightarrow> (paneExited E i m, [])
      | MAttachFirst i \<Rightarrow> (m, attachExisting i (mget (md_panes m) i) m)
      | MSpawnUnattached i v wt \<Rightarrow> (spawnUnattachedReady E i v wt m, [])
      | MSpawnError i e \<Rightarrow> (notify e m, [])
      | MAttachConflict i vo \<Rightarrow> (armTakeoverPrompt i vo m, [])
      | MDisconnected e \<Rightarrow> daemonDisconnected e m
      | MReconnected r \<Rightarrow> handleDaemonReconnectedMsg r m
      | MStatusPolled rs \<Rightarrow> (agentStatusResult E rs m, [])
      | MStallRecover \<Rightarrow> (handleStallRecover m, [])
      | MExitFocus \<Rightarrow> (exitToBoard m, [])
      | _ \<Rightarrow> (m, []))"

definition dispatchUpdate :: "ui_env \<Rightarrow> ui_msg \<Rightarrow> Model \<Rightarrow> Model \<times> cmd list" where
  "dispatchUpdate E msg m =
     (case msg of
        MEvents evs \<Rightarrow> handleDaemonSessionEvents E evs m
      | MSubscribeReady \<Rightarrow> handleDaemonSubscribeReady m
      | MSubscribeFailed \<Rightarrow> handleDaemonSubscribeFailed m
      | MSubscribeEnded \<Rightarrow> handleDaemonSubscribeEnded m
      | MResyncTick \<Rightarrow> handleDaemonResyncTick m
      | MResync res \<Rightarrow> handleDaemonResyncMsg res m
      | _ \<Rightarrow>
          (if md_mode m = ModeShuttingDown then (m, if msg = MShutdownComplete then [CmdQuit] else [])
           else if md_mode m = ModeSpawning then spawning_update E msg m
           else board_update E msg m))"

text \<open>\<^verbatim>\<open>Update\<close>: a message, then the viewing indicator.\<close>

definition Update :: "ui_env \<Rightarrow> ui_msg \<Rightarrow> Model \<Rightarrow> Model \<times> cmd list" where
  "Update E msg m =
     (case dispatchUpdate E msg m of (m1, cs) \<Rightarrow> (case reconcileViewing m1 of (m2, vs) \<Rightarrow> (m2, cs @ vs)))"

fun updates :: "ui_env \<Rightarrow> ui_msg list \<Rightarrow> Model \<Rightarrow> Model \<times> cmd list" where
  "updates E [] m = (m, [])"
| "updates E (msg # msgs) m =
     (case Update E msg m of (m1, cs) \<Rightarrow> (case updates E msgs m1 of (m2, ds) \<Rightarrow> (m2, cs @ ds)))"

section \<open>What the other handlers leave alone\<close>

text \<open>\<open>aside m m'\<close>: the guard's state is untouched, and the mode is at most sent back to the board.\<close>

definition aside :: "Model \<Rightarrow> Model \<Rightarrow> bool" where
  "aside m m' \<longleftrightarrow> (md_daemon m \<longrightarrow> md_daemon m') \<and> md_confirmExit m' = md_confirmExit m \<and>
     (md_mode m' = md_mode m \<or> md_mode m' = ModeNormal)"

lemma aside_refl [simp]: "aside m m"
  by (simp add: aside_def)

lemma aside_trans: "aside m m1 \<Longrightarrow> aside m1 m2 \<Longrightarrow> aside m m2"
  by (auto simp: aside_def)

lemma aside_fold: "(\<And>x m. aside m (f x m)) \<Longrightarrow> aside m (fold f xs m)"
proof (induction xs arbitrary: m)
  case (Cons x xs)
  then show ?case using aside_trans [of m "f x m"] by simp
qed simp

text \<open>Facts in the form \<open>aside m m1 \<Longrightarrow> aside m (f m1)\<close>, which chain.\<close>

named_theorems aside_facts

lemma aside_basic [aside_facts]:
  assumes "aside m m1"
  shows "aside m (notify s m1)" "aside m (saveTicket E t m1)" "aside m (put_ticket t m1)" "aside m (own i m1)"
    "aside m (disown i m1)" "aside m (put_pane i v' m1)" "aside m (add_pane t si m1)" "aside m (on_view f r m1)" "aside m (drop_pane i m1)"
    "aside m (exitToBoard m1)" "aside m (event_viewing i m1)" "aside m (event_unviewing i m1)" "aside m (event_activity ev m1)"
    "aside m (m1\<lparr>md_wedged := b\<rparr>)" "aside m (m1\<lparr>md_daemonViewing := v, md_lastPTYActivity := a\<rparr>)"
    "aside m (m1\<lparr>md_connected := b, md_daemonOwned := ow, md_daemonViewing := v, md_viewing := vs\<rparr>)"
    "aside m (m1\<lparr>md_reconnecting := b\<rparr>)" "aside m (m1\<lparr>md_focusedPane := i\<rparr>)" "aside m (m1\<lparr>md_cycleAttachPrompt := b\<rparr>)"
    "aside m (clear_takeover m1)" "aside m ((clear_takeover m1)\<lparr>md_mode := ModeNormal, md_focusedPane := i\<rparr>)"
  using assms
  by (auto simp: aside_def notify_def saveTicket_def put_ticket_def own_def disown_def put_pane_def add_pane_def on_view_def
      drop_pane_def clear_takeover_def exitToBoard_def event_viewing_def event_unviewing_def event_activity_def Let_def split: option.splits)

lemma aside_status [aside_facts]:
  assumes "aside m m1" shows "aside m (set_status E st t m1)" "aside m (apply_status E t raw m1)"
  using assms by (auto simp: set_status_def apply_status_def aside_facts split: prod.splits)

lemma aside_event [aside_facts]: "aside m m1 \<Longrightarrow> aside m (applyDaemonSessionEvent E ev m1)"
proof -
  assume a: "aside m m1"
  then have "aside m (event_exited E ev t (event_activity ev m1))" for t
    by (simp add: event_exited_def Let_def aside_facts)
  with a show ?thesis by (simp add: applyDaemonSessionEvent_def Let_def aside_facts split: option.split)
qed

lemma aside_resync [aside_facts]: "aside m m1 \<Longrightarrow> aside m (resync owned m1)"
proof -
  assume a: "aside m m1"
  have "aside m (resync_add p m)" "aside m (resync_drop owned i m)" "aside m (resync_disown owned i m)" for p i m
    by (simp_all add: resync_add_def resync_drop_def resync_disown_def aside_facts split: prod.splits option.splits)
  then have "aside m1 (resync owned m1)"
    unfolding resync_def Let_def by (intro aside_trans [OF aside_trans [OF aside_fold aside_fold] aside_fold])
  with a show ?thesis by (rule aside_trans)
qed

lemma aside_reconnect [aside_facts]: "aside m m1 \<Longrightarrow> aside m (fst (reconnect_if_closed m1))"
  by (simp add: reconnect_if_closed_def maybeReconnectDaemon_def aside_facts)

lemma aside_disconnected: "aside m (fst (daemonDisconnected err m))"
proof -
  have "aside m (fold drop_pane (map fst (md_panes m)) m)" by (intro aside_fold aside_facts) simp
  then show ?thesis by (simp add: daemonDisconnected_def Let_def aside_facts)
qed

lemma aside_polled: "aside m (agentStatusResult E rs m)"
  unfolding agentStatusResult_def
  by (rule aside_fold) (simp add: poll_status_def aside_facts split: prod.splits option.splits)

lemma aside_panes: "aside m (paneDetached i m)" "aside m (paneExited E i m)" "aside m (handleStallRecover m)"
  by (simp_all add: paneDetached_def paneExited_def handleStallRecover_def Let_def aside_facts split: option.splits)

lemma aside_cycle [aside_facts]: "aside m m1 \<Longrightarrow> aside m (fst (cycleUnattachedSession d m1))"
  by (simp add: cycleUnattachedSession_def focusAndPromptAttach_def Let_def aside_facts split: option.splits)

lemma aside_agent_view [aside_facts]: "aside m m1 \<Longrightarrow> aside m (fst (handleAgentViewMode key m1))"
  by (simp add: handleAgentViewMode_def handleTakeoverPromptKey_def handleCycleAttachPromptKey_def aside_facts split: option.splits)

lemma aside_spawns [aside_facts]:
  assumes "aside m m1"
  shows "aside m (save_spawn E wt f i m1)" "aside m (spawnUnattachedReady E i v wt m1)"
  using assms by (simp_all add: save_spawn_def spawnUnattachedReady_def Let_def aside_facts split: option.splits)

text \<open>None of these quits.\<close>

lemma no_quit:
  "CmdQuit \<notin> set (snd (reconnect_if_closed m))" "CmdQuit \<notin> set (snd (daemonDisconnected err m))"
  "CmdQuit \<notin> set (snd (handleDaemonResyncMsg res m))" "CmdQuit \<notin> set (scheduleDaemonResync m)"
  "CmdQuit \<notin> set (snd (handleDaemonReconnectedMsg r m))" "CmdQuit \<notin> set (snd (reconcileViewing m))"
  "CmdQuit \<notin> set (snd (handleAgentViewMode key m))" "CmdQuit \<notin> set (attachExisting i ro m)"
proof -
  have a: "CmdQuit \<notin> set (doAttach i ro b m)" for i ro b m by (simp add: doAttach_def split: option.splits)
  then show "CmdQuit \<notin> set (attachExisting i ro m)" for i ro m by (simp add: attachExisting_def)
  have "CmdQuit \<notin> set (snd (cycleUnattachedSession d m))" for d
    by (simp add: cycleUnattachedSession_def focusAndPromptAttach_def Let_def split: option.splits)
  with a show "CmdQuit \<notin> set (snd (handleAgentViewMode key m))"
    by (simp add: handleAgentViewMode_def handleTakeoverPromptKey_def handleCycleAttachPromptKey_def attachExisting_def
        split: option.splits)
  show r: "CmdQuit \<notin> set (snd (reconnect_if_closed m))" for m
    by (simp add: reconnect_if_closed_def maybeReconnectDaemon_def)
  show s: "CmdQuit \<notin> set (scheduleDaemonResync m)" for m by (simp add: scheduleDaemonResync_def)
  show "CmdQuit \<notin> set (snd (daemonDisconnected err m))" unfolding daemonDisconnected_def Let_def by (rule r)
  show "CmdQuit \<notin> set (snd (handleDaemonResyncMsg res m))"
    using r [of m] s by (auto simp: handleDaemonResyncMsg_def Let_def split: sum.splits prod.splits)
  show "CmdQuit \<notin> set (snd (handleDaemonReconnectedMsg r m))"
    by (simp add: handleDaemonReconnectedMsg_def Let_def split: reconnect_result.splits)
  show "CmdQuit \<notin> set (snd (reconcileViewing m))" by (simp add: reconcileViewing_def setViewingCmd_def Let_def)
qed

section \<open>The guard\<close>

text \<open>Of the sessions \<open>ss\<close> the modal was opened with, those it no longer lists are in \<open>K\<close>.\<close>

definition guarded :: "SessionInfo list \<Rightarrow> string set \<Rightarrow> Model \<Rightarrow> bool" where
  "guarded ss K m \<longleftrightarrow> md_daemon m \<and> md_mode m \<noteq> ModeShuttingDown \<and>
     (md_mode m = ModeConfirmExit \<longrightarrow> (\<forall>s \<in> set ss. s \<in> set (ce_sessions (md_confirmExit m)) \<or> i_SessionID s \<in> K))"

lemma guarded_aside: "guarded ss K m \<Longrightarrow> aside m m' \<Longrightarrow> guarded ss K m'"
  unfolding guarded_def aside_def by force

lemma guarded_mono: "guarded ss K m \<Longrightarrow> K \<subseteq> K' \<Longrightarrow> guarded ss K' m"
  unfolding guarded_def by blast

definition is_killed :: "ui_msg \<Rightarrow> string set" where
  "is_killed msg = (case msg of MKilled i \<Rightarrow> {i} | _ \<Rightarrow> {})"

definition answers_prepare :: "ui_msg \<Rightarrow> bool" where
  "answers_prepare msg \<longleftrightarrow> (case msg of MPrepareExit r \<Rightarrow> True | MPrepareExitFailed \<Rightarrow> True | _ \<Rightarrow> False)"

lemma kill_one_keeps:
  "ce_sessions (md_confirmExit (fst (fold kill_one xs st))) = ce_sessions (md_confirmExit (fst st)) \<and>
   md_mode (fst (fold kill_one xs st)) = md_mode (fst st) \<and> md_daemon (fst (fold kill_one xs st)) = md_daemon (fst st) \<and>
   (CmdQuit \<in> set (snd (fold kill_one xs st)) \<longrightarrow> CmdQuit \<in> set (snd st))"
proof (induction xs arbitrary: st)
  case (Cons x xs)
  have "ce_sessions (md_confirmExit (fst (kill_one x st))) = ce_sessions (md_confirmExit (fst st))"
    "md_mode (fst (kill_one x st)) = md_mode (fst st)" "md_daemon (fst (kill_one x st)) = md_daemon (fst st)"
    "CmdQuit \<in> set (snd (kill_one x st)) \<Longrightarrow> CmdQuit \<in> set (snd st)"
    by (auto simp: kill_one_def add_killing_def killSessionCmd_def Let_def split: prod.splits if_splits)
  with Cons.IH [of "kill_one x st"] show ?case by simp
qed simp

lemma guarded_modal_key:
  assumes "guarded ss K m" "md_mode m = ModeConfirmExit"
  shows "guarded ss K (fst (handleConfirmExitMode key m))" "CmdQuit \<notin> set (snd (handleConfirmExitMode key m))"
proof -
  have sel: "guarded ss K (fst (killSelectedSession m))" "CmdQuit \<notin> set (snd (killSelectedSession m))"
    using assms by (auto simp: killSelectedSession_def guarded_def add_killing_def killSessionCmd_def Let_def)
  have all: "guarded ss K (fst (killAllSessions m))" "CmdQuit \<notin> set (snd (killAllSessions m))"
    using assms
      kill_one_keeps [of "ce_sessions (md_confirmExit m)"
        "(m\<lparr>md_confirmExit := (md_confirmExit m)\<lparr>ce_killing := Some (case ce_killing (md_confirmExit m) of None \<Rightarrow> {} | Some K \<Rightarrow> K)\<rparr>\<rparr>, [])"]
    by (auto simp: killAllSessions_def guarded_def Let_def)
  show "guarded ss K (fst (handleConfirmExitMode key m))"
    using assms sel(1) all(1) by (simp add: handleConfirmExitMode_def Let_def) (auto simp: guarded_def)
  show "CmdQuit \<notin> set (snd (handleConfirmExitMode key m))"
    using sel(2) all(2) by (simp add: handleConfirmExitMode_def cancelExitCmd_def Let_def)
qed

lemma guarded_killed:
  assumes "guarded ss K m"
  shows "guarded ss (insert i K) (fst (handleSessionKilled i m))"
    "CmdQuit \<in> set (snd (handleSessionKilled i m)) \<Longrightarrow> \<forall>s \<in> set ss. i_SessionID s \<in> insert i K"
proof -
  have e: "s \<in> set (filter (\<lambda>si. i_SessionID si \<noteq> i) xs) \<or> i_SessionID s = i" if "s \<in> set xs" for s xs
    using that by auto
  show "guarded ss (insert i K) (fst (handleSessionKilled i m))"
    using assms by (auto simp: handleSessionKilled_def guarded_def removeSession_def del_killing_def Let_def)
  show "\<forall>s \<in> set ss. i_SessionID s \<in> insert i K" if "CmdQuit \<in> set (snd (handleSessionKilled i m))"
  proof -
    have q: "md_mode m = ModeConfirmExit" "filter (\<lambda>si. i_SessionID si \<noteq> i) (ce_sessions (md_confirmExit m)) = []"
      using that by (auto simp: handleSessionKilled_def removeSession_def del_killing_def Let_def split: if_splits)
    show ?thesis using assms q(1) e [of _ "ce_sessions (md_confirmExit m)"] unfolding q(2) guarded_def by fastforce
  qed
qed

lemma guarded_spawn_msgs:
  assumes "guarded ss K m"
  shows "guarded ss K (spawnReady E i v wt notice m)" "guarded ss K (armTakeoverPrompt i vo m)"
proof -
  have d: "md_daemon m" using assms by (simp add: guarded_def)
  have s: "md_daemon (save_spawn E wt f j m)" for f j using aside_spawns(1) [OF aside_refl] d unfolding aside_def by blast
  show "guarded ss K (spawnReady E i v wt notice m)"
    using assms s by (simp add: spawnReady_def guarded_def notify_def own_def put_pane_def Let_def)
  show "guarded ss K (armTakeoverPrompt i vo m)"
    using d by (simp add: armTakeoverPrompt_def guarded_def own_def put_pane_def Let_def split: option.splits)
qed

lemma guarded_spawning: "guarded ss K m \<Longrightarrow> md_mode m = ModeSpawning \<Longrightarrow>
    guarded ss K (fst (spawning_update E msg m)) \<and> CmdQuit \<notin> set (snd (spawning_update E msg m))"
proof -
  assume g: "guarded ss K m"
  have "guarded ss K (m\<lparr>md_spawningTicket := [], md_spawningAgent := []\<rparr>)" using g by (simp add: guarded_def)
  note conflict = guarded_spawn_msgs(2) [OF this] guarded_spawn_msgs(2) [OF g]
  show ?thesis
    using g guarded_spawn_msgs(1) [OF g] conflict
    by (cases msg) (auto simp: spawning_update_def guarded_def notify_def resetSpawnState_def saveTicket_def put_ticket_def
        on_view_def Let_def split: option.split)
qed

lemma guarded_board:
  assumes g: "guarded ss K m" and "\<not> answers_prepare msg"
  shows "guarded ss (K \<union> is_killed msg) (fst (board_update E msg m))"
    "CmdQuit \<in> set (snd (board_update E msg m)) \<Longrightarrow> \<forall>s \<in> set ss. i_SessionID s \<in> K \<union> is_killed msg"
proof -
  have k: "guarded ss K (fst (handleKey key m)) \<and> CmdQuit \<notin> set (snd (handleKey key m))" for key
    using g guarded_modal_key [OF g, of key] guarded_aside [OF g aside_agent_view [OF aside_refl], of key] no_quit(7) [of key m]
    by (simp add: handleKey_def handleQuit_def handleQuitRequested_def) (simp add: guarded_def)
  have d: "guarded ss K (fst (daemonDisconnected err m))" for err by (rule guarded_aside [OF g aside_disconnected])
  have r: "guarded ss K (fst (handleDaemonReconnectedMsg res m))" for res
    using g by (auto simp: handleDaemonReconnectedMsg_def guarded_def notify_def Let_def split: reconnect_result.splits)
  have f: "guarded ss K (fst (handleSessionKillFailed i err m))" for i err
    using g by (auto simp: handleSessionKillFailed_def guarded_def notify_def del_killing_def Let_def split: option.splits)
  have a: "guarded ss K (agentStatusResult E rs m)" "guarded ss K (paneDetached i m)" "guarded ss K (paneExited E i m)"
    "guarded ss K (handleStallRecover m)" "guarded ss K (exitToBoard m)" for rs i
    by (rule guarded_aside [OF g], simp add: aside_polled aside_panes aside_facts)+
  have sp: "guarded ss K (spawnUnattachedReady E i v wt m)" "guarded ss K (notify e m)" for i v wt e
    by (rule guarded_aside [OF g], simp add: aside_facts)+
  show "guarded ss (K \<union> is_killed msg) (fst (board_update E msg m))"
    using assms(2) g k d r f a sp guarded_spawn_msgs(2) [OF g] guarded_killed(1) [OF g]
    by (cases msg) (auto simp: board_update_def is_killed_def answers_prepare_def handleQuitRequested_def)
  show "\<forall>s \<in> set ss. i_SessionID s \<in> K \<union> is_killed msg" if "CmdQuit \<in> set (snd (board_update E msg m))"
    using that assms(2) k no_quit g guarded_killed(2) [OF g]
    by (cases msg)
      (auto simp: board_update_def is_killed_def answers_prepare_def handleQuitRequested_def guarded_def handleSessionKillFailed_def Let_def)
qed

lemma guarded_Update:
  assumes g: "guarded ss K m" and p: "\<not> answers_prepare msg"
  shows "guarded ss (K \<union> is_killed msg) (fst (Update E msg m))"
    "CmdQuit \<in> set (snd (Update E msg m)) \<Longrightarrow> \<forall>s \<in> set ss. i_SessionID s \<in> K \<union> is_killed msg"
proof -
  have v: "guarded ss K' (fst (reconcileViewing m'))" if "guarded ss K' m'" for K' m'
    using that by (auto simp: reconcileViewing_def guarded_def Let_def)
  have ev: "guarded ss K (fold (applyDaemonSessionEvent E) evs m)" for evs
    by (rule guarded_aside [OF g]) (intro aside_fold aside_facts, simp)
  have rs: "guarded ss K (fst (handleDaemonResyncMsg res m))" for res
    using guarded_aside [OF g] aside_reconnect [of m m] aside_resync [of m m]
    by (auto simp: handleDaemonResyncMsg_def Let_def split: sum.splits prod.splits)
  have su: "guarded ss K (m\<lparr>md_connected := b\<rparr>)" for b using g by (simp add: guarded_def)
  have nsd: "md_mode m \<noteq> ModeShuttingDown" using g by (simp add: guarded_def)
  note sp = guarded_spawning [OF g, of E msg]
  have "guarded ss (K \<union> is_killed msg) (fst (dispatchUpdate E msg m))"
    using guarded_board(1) [OF g p, of E] ev rs su nsd g sp
    by (cases msg) (auto simp: dispatchUpdate_def is_killed_def handleDaemonSessionEvents_def handleDaemonSubscribeReady_def
        handleDaemonSubscribeFailed_def handleDaemonSubscribeEnded_def handleDaemonResyncTick_def intro: guarded_mono)
  then show "guarded ss (K \<union> is_killed msg) (fst (Update E msg m))"
    using v by (auto simp: Update_def split: prod.splits) (metis fst_conv)
  have "\<forall>s \<in> set ss. i_SessionID s \<in> K \<union> is_killed msg" if "CmdQuit \<in> set (snd (dispatchUpdate E msg m))"
    using that guarded_board(2) [OF g p, of E] nsd sp no_quit
    by (cases msg) (auto simp: dispatchUpdate_def is_killed_def handleDaemonSessionEvents_def handleDaemonSubscribeReady_def
        handleDaemonSubscribeFailed_def handleDaemonSubscribeEnded_def handleDaemonResyncTick_def split: if_splits)
  then show "\<forall>s \<in> set ss. i_SessionID s \<in> K \<union> is_killed msg" if "CmdQuit \<in> set (snd (Update E msg m))"
    using that no_quit(6) by (auto simp: Update_def split: prod.splits) (metis snd_conv)+
qed

lemma guarded_updates:
  "guarded ss K m \<Longrightarrow> list_all (\<lambda>msg. \<not> answers_prepare msg) msgs \<Longrightarrow> CmdQuit \<in> set (snd (updates E msgs m)) \<Longrightarrow>
    s \<in> set ss \<Longrightarrow> i_SessionID s \<in> K \<or> MKilled (i_SessionID s) \<in> set msgs"
proof (induction msgs arbitrary: m K)
  case (Cons msg msgs)
  obtain m1 cs where u: "Update E msg m = (m1, cs)" by force
  have p: "\<not> answers_prepare msg" "list_all (\<lambda>msg. \<not> answers_prepare msg) msgs" using Cons.prems(2) by simp_all
  have q: "CmdQuit \<in> set cs \<or> CmdQuit \<in> set (snd (updates E msgs m1))"
    using Cons.prems(3) u by (auto split: prod.splits)
  have k: "i_SessionID s \<in> is_killed msg \<Longrightarrow> MKilled (i_SessionID s) = msg"
    by (auto simp: is_killed_def split: ui_msg.splits)
  show ?case
    using q
  proof
    assume "CmdQuit \<in> set cs"
    with guarded_Update(2) [OF Cons.prems(1) p(1), of E] u Cons.prems(4) k show ?thesis by auto
  next
    assume "CmdQuit \<in> set (snd (updates E msgs m1))"
    moreover have "guarded ss (K \<union> is_killed msg) m1" using guarded_Update(1) [OF Cons.prems(1) p(1), of E] u by simp
    ultimately have "i_SessionID s \<in> K \<union> is_killed msg \<or> MKilled (i_SessionID s) \<in> set msgs"
      using Cons.IH p(2) Cons.prems(4) by blast
    with k show ?thesis by auto
  qed
qed simp

section \<open>What a quit means\<close>

lemma modal_opens:
  assumes "md_mode m \<notin> {ModeShuttingDown, ModeSpawning}" "\<not> pe_Persistent resp" "pe_OtherActiveClients resp = 0"
    "pe_Sessions resp \<noteq> []"
  shows "dispatchUpdate E (MPrepareExit resp) m = (open_modal (pe_Sessions resp) m, [])"
  using assms by (simp add: dispatchUpdate_def board_update_def handlePrepareExitResult_def)

lemma guarded_open: "md_daemon m \<Longrightarrow> guarded ss {} (fst (reconcileViewing (open_modal ss m)))"
  by (auto simp: guarded_def open_modal_def reconcileViewing_def Let_def)

text \<open>C6: Once the daemon has answered a quit request of its last TUI, in the default mode, with a list of live
  sessions, then whatever messages follow (keys, pushed events, resyncs, polls, lost connections), unless the
  daemon is asked again, the application quits only after every listed session was reported killed.\<close>

theorem exit_guard_holds:
  assumes "md_daemon m" "md_mode m \<notin> {ModeShuttingDown, ModeSpawning}" "\<not> pe_Persistent resp"
    "pe_OtherActiveClients resp = 0" "pe_Sessions resp \<noteq> []" "list_all (\<lambda>msg. \<not> answers_prepare msg) msgs"
    "CmdQuit \<in> set (snd (updates E (MPrepareExit resp # msgs) m))" "s \<in> set (pe_Sessions resp)"
  shows "MKilled (i_SessionID s) \<in> set msgs"
proof -
  let ?m1 = "fst (reconcileViewing (open_modal (pe_Sessions resp) m))"
  have "CmdQuit \<in> set (snd (updates E msgs ?m1))"
    using assms(7) modal_opens [OF assms(2-5), of E] no_quit(6) [of "open_modal (pe_Sessions resp) m"]
    by (auto simp: Update_def split: prod.splits)
  from guarded_updates [OF guarded_open [OF assms(1)] assms(6) this assms(8)] show ?thesis by simp
qed

definition is_kill :: "cmd \<Rightarrow> bool" where
  "is_kill c \<longleftrightarrow> (case c of CmdKill i \<Rightarrow> True | _ \<Rightarrow> False)"

lemma no_kill_viewing: "filter is_kill (snd (reconcileViewing m)) = []"
  by (simp add: reconcileViewing_def setViewingCmd_def is_kill_def Let_def)

lemma reconcile_keeps:
  "md_confirmExit (fst (reconcileViewing m)) = md_confirmExit m" "md_mode (fst (reconcileViewing m)) = md_mode m"
  "md_daemon (fst (reconcileViewing m)) = md_daemon m"
  by (simp_all add: reconcileViewing_def Let_def)

lemma kill_fold:
  assumes "distinct (map i_SessionID xs)" "md_daemon m" "ce_killing (md_confirmExit m) = Some K"
    "\<forall>x \<in> set xs. i_SessionID x \<notin> K"
  shows "fold kill_one xs (m, cs) =
    (m\<lparr>md_confirmExit := (md_confirmExit m)\<lparr>ce_killing := Some (K \<union> i_SessionID ` set xs)\<rparr>\<rparr>,
     cs @ map (CmdKill \<circ> i_SessionID) xs)"
  using assms
proof (induction xs arbitrary: m cs K)
  case (Cons x xs)
  let ?m1 = "m\<lparr>md_confirmExit := add_killing (i_SessionID x) (md_confirmExit m)\<rparr>"
  have "kill_one x (m, cs) = (?m1, cs @ [CmdKill (i_SessionID x)])"
    using Cons.prems by (simp add: kill_one_def is_killing_def killSessionCmd_def Let_def)
  with Cons.IH [of ?m1 "insert (i_SessionID x) K" "cs @ [CmdKill (i_SessionID x)]"] Cons.prems show ?case
    by (fastforce simp: add_killing_def image_iff)
qed simp

lemma kill_fold_again:
  assumes "ce_killing (md_confirmExit m) = Some K" "\<forall>x \<in> set xs. i_SessionID x \<in> K"
  shows "fold kill_one xs (m, cs) = (m, cs)"
  using assms by (induction xs) (simp_all add: kill_one_def is_killing_def Let_def)

lemma killed_empties:
  assumes "md_mode m = ModeConfirmExit" "ce_sessions (md_confirmExit m) \<noteq> []"
    "\<forall>s \<in> set (ce_sessions (md_confirmExit m)). i_SessionID s \<in> set ids"
  shows "CmdQuit \<in> set (snd (updates E (map MKilled ids) m))"
  using assms
proof (induction ids arbitrary: m)
  case (Cons i ids)
  let ?out = "filter (\<lambda>si. i_SessionID si \<noteq> i) (ce_sessions (md_confirmExit m))"
  have d: "dispatchUpdate E (MKilled i) m = handleSessionKilled i m"
    using Cons.prems(1) by (simp add: dispatchUpdate_def board_update_def)
  show ?case
  proof (cases "?out = []")
    case True
    with Cons.prems(1) have "CmdQuit \<in> set (snd (handleSessionKilled i m))"
      by (simp add: handleSessionKilled_def removeSession_def del_killing_def Let_def)
    with d show ?thesis by (auto simp: Update_def split: prod.splits)
  next
    case False
    let ?m1 = "fst (handleSessionKilled i m)"
    have m1: "md_mode ?m1 = ModeConfirmExit" "ce_sessions (md_confirmExit ?m1) = ?out"
      using False Cons.prems(1) by (auto simp: handleSessionKilled_def removeSession_def del_killing_def Let_def)
    have "CmdQuit \<in> set (snd (updates E (map MKilled ids) (fst (reconcileViewing ?m1))))"
      using Cons.prems(3) False m1 by (intro Cons.IH) (auto simp: reconcile_keeps)
    with d show ?thesis by (auto simp: Update_def split: prod.splits)
  qed
qed simp

text \<open>C28: Kill-all in the exit modal sends one kill per listed session, a second press sends none, and once
  every listed session has been reported killed, in whatever order, the application quits.\<close>

theorem kill_all_quits:
  assumes "md_daemon m" "md_mode m \<notin> {ModeShuttingDown, ModeSpawning}" "\<not> pe_Persistent resp"
    "pe_OtherActiveClients resp = 0" "pe_Sessions resp \<noteq> []" "distinct (map i_SessionID (pe_Sessions resp))"
    "i_SessionID ` set (pe_Sessions resp) \<subseteq> set ids"
  shows "filter is_kill (snd (updates E [MPrepareExit resp, MKey ''X''] m)) = map (CmdKill \<circ> i_SessionID) (pe_Sessions resp) \<and>
    filter is_kill (snd (updates E [MPrepareExit resp, MKey ''X'', MKey ''X''] m)) =
      map (CmdKill \<circ> i_SessionID) (pe_Sessions resp) \<and>
    CmdQuit \<in> set (snd (updates E (MPrepareExit resp # MKey ''X'' # map MKilled ids) m))"
proof -
  let ?ss = "pe_Sessions resp" and ?ids = "i_SessionID ` set (pe_Sessions resp)"
  define m1 where "m1 = fst (reconcileViewing (open_modal ?ss m))"
  define m2 where "m2 = m1\<lparr>md_confirmExit := (md_confirmExit m1)\<lparr>ce_killing := Some ?ids\<rparr>\<rparr>"
  have m1: "md_daemon m1" "md_mode m1 = ModeConfirmExit" "ce_sessions (md_confirmExit m1) = ?ss"
    "ce_killing (md_confirmExit m1) = Some {}"
    using assms(1) by (simp_all add: m1_def reconcile_keeps open_modal_def ce_reset_def)
  have p: "Update E (MPrepareExit resp) m = (m1, snd (reconcileViewing (open_modal ?ss m)))"
    using modal_opens [OF assms(2-5), of E] by (simp add: Update_def m1_def split: prod.splits)
  have x: "dispatchUpdate E (MKey ''X'') m' = killAllSessions m'" if "md_mode m' = ModeConfirmExit" for m'
    using that by (simp add: dispatchUpdate_def board_update_def handleKey_def handleConfirmExitMode_def Let_def)
  have e1: "m1\<lparr>md_confirmExit := (md_confirmExit m1)\<lparr>ce_killing := Some {}\<rparr>\<rparr> = m1"
    using m1(4) by (cases m1, cases "md_confirmExit m1") simp
  have k1: "killAllSessions m1 = (m2, map (CmdKill \<circ> i_SessionID) ?ss)"
    using kill_fold [OF assms(6) m1(1) m1(4), of "[]"] assms(5)
    by (simp add: killAllSessions_def Let_def m1 e1 m2_def)
  let ?m3 = "fst (reconcileViewing m2)"
  have m3: "md_mode ?m3 = ModeConfirmExit" "ce_sessions (md_confirmExit ?m3) = ?ss" "ce_killing (md_confirmExit ?m3) = Some ?ids"
    by (simp_all add: reconcile_keeps m2_def m1)
  have e3: "?m3\<lparr>md_confirmExit := (md_confirmExit ?m3)\<lparr>ce_killing := Some ?ids\<rparr>\<rparr> = ?m3"
    using m3(3) by (cases ?m3, cases "md_confirmExit ?m3") simp
  have k3: "killAllSessions ?m3 = (?m3, [])"
    using kill_fold_again [OF m3(3), of ?ss "[]"] assms(5) by (simp add: killAllSessions_def Let_def m3 e3)
  have fk: "filter is_kill (map (CmdKill \<circ> i_SessionID) ?ss) = map (CmdKill \<circ> i_SessionID) ?ss"
    by (simp add: is_kill_def filter_id_conv)
  have u2: "Update E (MKey ''X'') m1 = (?m3, map (CmdKill \<circ> i_SessionID) ?ss @ snd (reconcileViewing m2))"
    using x [OF m1(2)] k1 by (simp add: Update_def split: prod.splits)
  have u3: "Update E (MKey ''X'') ?m3 = (fst (reconcileViewing ?m3), snd (reconcileViewing ?m3))"
    using x [OF m3(1)] k3 by (simp add: Update_def split: prod.splits)
  have "CmdQuit \<in> set (snd (updates E (map MKilled ids) ?m3))"
    using killed_empties [of ?m3 ids E] m3 assms(5,7) by auto
  then show ?thesis by (simp add: p u2 u3 no_kill_viewing fk split_beta)
qed

text \<open>A board with one attached pane, two live sessions, and the daemon's answer.\<close>

definition wit_info :: "string \<Rightarrow> string \<Rightarrow> SessionInfo" where
  "wit_info sid t =
     \<lparr>i_SessionID = sid, i_TicketID = t, i_SessionName = [], i_Workdir = [], i_Title = [], i_PID = 7, i_Cols = 80, i_Rows = 24,
      i_Scrollback = 0, i_Running = True, i_AttachedClient = 0, i_ViewerCount = 0, i_StartedAt = 0\<rparr>"

definition wit_model :: Model where
  "wit_model =
     \<lparr>md_mode = ModeNormal, md_daemon = True, md_client = Some False, md_connected = True, md_reconnecting = False,
      md_wedged = False, md_views = [], md_panes = [], md_focusedPane = [], md_cycleAttachPrompt = False, md_takeoverPrompt = False,
      md_takeoverTicket = [], md_takeoverPane = None, md_columnTickets = [], md_width = 80, md_height = 24, md_clientID = 1,
      md_daemonOwned = [(''t1'', ()), (''t2'', ())], md_daemonViewing = [], md_lastPTYActivity = [], md_tickets = [],
      md_saves = [], md_viewing = [], md_spawningTicket = [], md_spawningAgent = [], md_confirmQuit = True,
      md_showConfirm = False, md_confirmExit = \<lparr>ce_sessions = [], ce_selectedIdx = 0, ce_killing = None\<rparr>,
      md_notification = []\<rparr>"

definition wit_resp :: PrepareExitResp where
  "wit_resp =
     \<lparr>pe_ClientCount = 1, pe_OtherTUIClients = 0, pe_OtherActiveClients = 0, pe_Persistent = False,
      pe_Sessions = [wit_info ''s1'' ''t1'', wit_info ''s2'' ''t2'']\<rparr>"

definition wit_env :: ui_env where
  "wit_env = \<lparr>ue_now = 100, ue_save = (\<lambda>t. None)\<rparr>"

definition wit_msgs :: "ui_msg list" where
  "wit_msgs = [MKey ''x'', MKilled ''s1'', MResyncTick, MKey ''x'', MQuitRequested, MKilled ''s2'']"

lemma wit_quits: "CmdQuit \<in> set (snd (updates wit_env (MPrepareExit wit_resp # wit_msgs) wit_model))"
  by code_simp

lemma exit_guard_holds_witness:
  "MKilled ''s1'' \<in> set wit_msgs \<and> MKilled ''s2'' \<in> set wit_msgs"
proof -
  have h: "md_daemon wit_model" "md_mode wit_model \<notin> {ModeShuttingDown, ModeSpawning}" "\<not> pe_Persistent wit_resp"
    "pe_OtherActiveClients wit_resp = 0" "pe_Sessions wit_resp \<noteq> []" "list_all (\<lambda>msg. \<not> answers_prepare msg) wit_msgs"
    by (simp_all add: wit_model_def wit_resp_def wit_msgs_def answers_prepare_def)
  show ?thesis
    using exit_guard_holds [OF h wit_quits, of "wit_info ''s1'' ''t1''"]
      exit_guard_holds [OF h wit_quits, of "wit_info ''s2'' ''t2''"]
    by (simp add: wit_resp_def wit_info_def)
qed

lemma kill_all_quits_witness:
  "CmdQuit \<in> set (snd (updates wit_env [MPrepareExit wit_resp, MKey ''X'', MKilled ''s2'', MKilled ''s1''] wit_model))"
  using kill_all_quits [of wit_model wit_resp "[''s2'', ''s1'']" wit_env]
  by (simp add: wit_model_def wit_resp_def wit_info_def)

end
