(* ===== verification/UiSync.thy ===== *)
theory UiSync
  imports ExitGuard
begin

text \<open>
  What the board's mirror of the daemon promises: its panes stay well formed, a resync makes panes and ownership
  agree with the daemon's list, a completed ticket is not demoted, and the viewing indicator follows the focus.
\<close>

section \<open>The shape of the model\<close>

text \<open>Every pane is a pointer of its own into the heap, and tickets are stored under their ID.\<close>

definition ui_wf :: "Model \<Rightarrow> bool" where
  "ui_wf m \<longleftrightarrow> (\<forall>i r. mget (md_panes m) i = Some r \<longrightarrow> r < length (md_views m)) \<and>
     (\<forall>i j r. mget (md_panes m) i = Some r \<longrightarrow> mget (md_panes m) j = Some r \<longrightarrow> i = j) \<and>
     (\<forall>i t. mget (md_tickets m) i = Some t \<longrightarrow> t_ID t = i)"

definition has_pane :: "Model \<Rightarrow> TicketID \<Rightarrow> bool" where
  "has_pane m i \<longleftrightarrow> mget (md_panes m) i \<noteq> None"

definition attached :: "Model \<Rightarrow> TicketID \<Rightarrow> bool" where
  "attached m i \<longleftrightarrow> (case view_of m i of Some p \<Rightarrow> pv_state p = PaneViewAttached | None \<Rightarrow> False)"

definition owns :: "Model \<Rightarrow> TicketID \<Rightarrow> bool" where
  "owns m i \<longleftrightarrow> mget (md_daemonOwned m) i \<noteq> None"

lemma view_of_Some: "view_of m i = Some p \<longleftrightarrow> (\<exists>r. mget (md_panes m) i = Some r \<and> p = vw_pv (md_views m ! r))"
  by (auto simp: view_of_def)

lemma view_of_None: "view_of m i = None \<longleftrightarrow> \<not> has_pane m i"
  by (simp add: view_of_def has_pane_def)

lemma SetAgentStatus_ID [simp]: "t_ID (fst (SetAgentStatus now st t)) = t_ID t"
  by (simp add: SetAgentStatus_def)

lemma has_pane_view: "has_pane m i \<longleftrightarrow> view_of m i \<noteq> None"
  by (simp add: view_of_None)

lemma attached_view: "view_of m i = view_of m' i \<Longrightarrow> attached m i = attached m' i" "view_of m i = None \<Longrightarrow> \<not> attached m i"
  by (auto simp: attached_def)

text \<open>The operations keep the shape; in the form that chains.\<close>

named_theorems wf_facts

lemma wf_on_view [wf_facts]: "ui_wf m \<Longrightarrow> ui_wf (on_view f r m)"
  by (auto simp: ui_wf_def on_view_def split: option.splits)

lemma wf_sub: "ui_wf m \<Longrightarrow> length (md_views m') = length (md_views m) \<Longrightarrow> md_tickets m' = md_tickets m \<Longrightarrow>
    (\<And>i r. mget (md_panes m') i = Some r \<Longrightarrow> mget (md_panes m) i = Some r) \<Longrightarrow> ui_wf m'"
  unfolding ui_wf_def by metis

lemma wf_drop_pane [wf_facts]: "ui_wf m \<Longrightarrow> ui_wf (drop_pane i m)"
  by (rule wf_sub [of m]) (auto simp: drop_pane_def on_view_def split: option.splits if_splits)

lemma wf_put_pane [wf_facts]: "ui_wf m \<Longrightarrow> ui_wf (put_pane i v m)"
  by (auto simp: ui_wf_def put_pane_def less_Suc_eq split: if_splits)

lemma wf_add_pane [wf_facts]: "ui_wf m \<Longrightarrow> ui_wf (add_pane t s m)"
  by (simp add: add_pane_def wf_facts)

lemma wf_put_ticket [wf_facts]: "ui_wf m \<Longrightarrow> ui_wf (put_ticket t m)"
  by (auto simp: ui_wf_def put_ticket_def split: if_splits)

lemma wf_fields [wf_facts]:
  assumes "ui_wf m"
  shows "ui_wf (notify s m)" "ui_wf (saveTicket E t m)" "ui_wf (own i m)" "ui_wf (disown i m)" "ui_wf (event_viewing i m)"
    "ui_wf (event_unviewing i m)" "ui_wf (event_activity ev m)" "ui_wf (m\<lparr>md_wedged := b\<rparr>)" "ui_wf (m\<lparr>md_connected := b\<rparr>)"
    "ui_wf (m\<lparr>md_daemonViewing := v, md_lastPTYActivity := a\<rparr>)" "ui_wf (m\<lparr>md_mode := mo\<rparr>)"
    "ui_wf (m\<lparr>md_connected := b, md_daemonOwned := ow, md_daemonViewing := v, md_viewing := vs\<rparr>)"
    "ui_wf (m\<lparr>md_reconnecting := b\<rparr>)" "ui_wf (m\<lparr>md_viewing := vs\<rparr>)" "ui_wf (m\<lparr>md_confirmExit := ce\<rparr>)"
    "ui_wf (m\<lparr>md_mode := mo, md_focusedPane := fp, md_cycleAttachPrompt := b\<rparr>)" "ui_wf (m\<lparr>md_showConfirm := b\<rparr>)"
    "ui_wf (m\<lparr>md_confirmExit := ce, md_mode := mo\<rparr>)" "ui_wf (m\<lparr>md_client := c, md_daemon := b\<rparr>)"
    "ui_wf (m\<lparr>md_reconnecting := b, md_client := c, md_daemon := b'\<rparr>)"
    "ui_wf (m\<lparr>md_mode := mo, md_spawningTicket := st, md_spawningAgent := sa\<rparr>)"
    "ui_wf (m\<lparr>md_spawningTicket := st, md_spawningAgent := sa\<rparr>)" "ui_wf (m\<lparr>md_focusedPane := fp\<rparr>)"
    "ui_wf (m\<lparr>md_cycleAttachPrompt := b\<rparr>)" "ui_wf (clear_takeover m)" "ui_wf (m\<lparr>md_mode := mo, md_showConfirm := b\<rparr>)"
    "ui_wf (m\<lparr>md_mode := mo, md_focusedPane := fp\<rparr>)"
    "ui_wf (m\<lparr>md_takeoverTicket := fp, md_takeoverPane := tp, md_takeoverPrompt := b, md_focusedPane := fp', md_mode := mo\<rparr>)"
  using assms
  by (auto simp: ui_wf_def notify_def saveTicket_def own_def disown_def event_viewing_def event_unviewing_def event_activity_def
      clear_takeover_def Let_def split: option.splits)

lemma wf_del [wf_facts]: "ui_wf m \<Longrightarrow> ui_wf (m\<lparr>md_panes := mdel i (md_panes m)\<rparr>)"
  by (rule wf_sub [of m]) (auto split: if_splits)

lemma wf_view_del [wf_facts]: "ui_wf m \<Longrightarrow> ui_wf ((on_view f r m)\<lparr>md_panes := mdel i (md_panes m)\<rparr>)"
  by (rule wf_sub [of m]) (auto simp: on_view_def split: option.splits if_splits)

lemma wf_exitToBoard [wf_facts]: "ui_wf m \<Longrightarrow> ui_wf (exitToBoard m)"
  by (simp add: exitToBoard_def Let_def wf_facts split: option.splits)

lemma wf_status [wf_facts]: "ui_wf m \<Longrightarrow> ui_wf (set_status E st t m)" "ui_wf m \<Longrightarrow> ui_wf (apply_status E t raw m)"
  by (simp_all add: set_status_def apply_status_def wf_facts split: prod.splits)

lemma wf_fold: "(\<And>x m. ui_wf m \<Longrightarrow> ui_wf (f x m)) \<Longrightarrow> ui_wf m \<Longrightarrow> ui_wf (fold f xs m)"
  by (induction xs arbitrary: m) simp_all

lemma wf_exited [wf_facts]: "ui_wf m \<Longrightarrow> ui_wf (event_exited E ev t m)"
  by (simp add: event_exited_def Let_def wf_facts)

lemma wf_event [wf_facts]: "ui_wf m \<Longrightarrow> ui_wf (applyDaemonSessionEvent E ev m)"
  by (simp add: applyDaemonSessionEvent_def Let_def wf_facts split: option.splits)

lemma wf_resync [wf_facts]: "ui_wf m \<Longrightarrow> ui_wf (resync owned m)"
proof -
  assume w: "ui_wf m"
  have "ui_wf m \<Longrightarrow> ui_wf (resync_add p m)" "ui_wf m \<Longrightarrow> ui_wf (resync_drop owned i m)" "ui_wf m \<Longrightarrow> ui_wf (resync_disown owned i m)"
    for p i m
    by (simp_all add: resync_add_def resync_drop_def resync_disown_def wf_facts split: prod.splits option.splits)
  with w show ?thesis unfolding resync_def Let_def by (intro wf_fold)
qed

lemma wf_reconnect [wf_facts]: "ui_wf m \<Longrightarrow> ui_wf (fst (reconnect_if_closed m))"
  by (simp add: reconnect_if_closed_def maybeReconnectDaemon_def wf_facts)

lemma wf_disconnected [wf_facts]: "ui_wf m \<Longrightarrow> ui_wf (fst (daemonDisconnected err m))"
  by (simp add: daemonDisconnected_def Let_def wf_facts wf_fold)

lemma wf_messages [wf_facts]:
  assumes "ui_wf m"
  shows "ui_wf (paneDetached i m)" "ui_wf (paneExited E i m)" "ui_wf (handleStallRecover m)" "ui_wf (agentStatusResult E rs m)"
    "ui_wf (fst (handleDaemonReconnectedMsg r m))" "ui_wf (fst (handleDaemonResyncMsg res m))" "ui_wf (resetSpawnState E i m)"
proof -
  have "ui_wf m \<Longrightarrow> ui_wf (poll_status E p m)" for p m by (simp add: poll_status_def wf_facts split: prod.splits option.splits)
  with assms show "ui_wf (agentStatusResult E rs m)" unfolding agentStatusResult_def by (intro wf_fold)
  show "ui_wf (resetSpawnState E i m)"
    using assms by (simp add: resetSpawnState_def Let_def wf_facts ui_wf_def put_ticket_def saveTicket_def notify_def split: option.splits)
  show "ui_wf (fst (handleDaemonResyncMsg res m))"
    using assms by (simp add: handleDaemonResyncMsg_def Let_def wf_facts split_beta split: sum.splits)
  show "ui_wf (fst (handleDaemonReconnectedMsg r m))"
    using assms by (simp add: handleDaemonReconnectedMsg_def Let_def wf_facts split: reconnect_result.splits)
qed (use assms in \<open>simp_all add: paneDetached_def paneExited_def handleStallRecover_def Let_def wf_facts split: option.splits\<close>)

lemma wf_guard_fields: "ui_wf m \<Longrightarrow> md_panes m' = md_panes m \<Longrightarrow> md_views m' = md_views m \<Longrightarrow> md_tickets m' = md_tickets m \<Longrightarrow> ui_wf m'"
  by (rule wf_sub [of m]) simp_all

lemma kill_fold_fields:
  "md_panes (fst (fold kill_one xs st)) = md_panes (fst st) \<and> md_views (fst (fold kill_one xs st)) = md_views (fst st) \<and>
   md_tickets (fst (fold kill_one xs st)) = md_tickets (fst st) \<and>
   md_spawningTicket (fst (fold kill_one xs st)) = md_spawningTicket (fst st)"
  by (induction xs arbitrary: st) (simp_all add: kill_one_def Let_def split: prod.splits)

lemma wf_cycle [wf_facts]: "ui_wf m \<Longrightarrow> ui_wf (fst (cycleUnattachedSession d m))"
  by (simp add: cycleUnattachedSession_def focusAndPromptAttach_def Let_def wf_facts split: option.splits)

lemma wf_agent_view [wf_facts]: "ui_wf m \<Longrightarrow> ui_wf (fst (handleAgentViewMode key m))"
  by (simp add: handleAgentViewMode_def handleTakeoverPromptKey_def handleCycleAttachPromptKey_def wf_facts split: option.splits)

lemma wf_spawns [wf_facts]:
  assumes "ui_wf m"
  shows "ui_wf (spawnReady E i v wt notice m)" "ui_wf (spawnUnattachedReady E i v wt m)" "ui_wf (armTakeoverPrompt i vo m)"
proof -
  have "ui_wf (save_spawn E wt f j m)" for f j using assms by (simp add: save_spawn_def Let_def wf_facts split: option.splits)
  with assms show "ui_wf (spawnReady E i v wt notice m)" "ui_wf (spawnUnattachedReady E i v wt m)" "ui_wf (armTakeoverPrompt i vo m)"
    by (simp_all add: spawnReady_def spawnUnattachedReady_def armTakeoverPrompt_def Let_def wf_facts split: option.splits)
qed

lemma wf_handleKey [wf_facts]: "ui_wf m \<Longrightarrow> ui_wf (fst (handleKey key m))"
proof -
  assume w: "ui_wf m"
  have "ui_wf (fst (killAllSessions m))" "ui_wf (fst (killSelectedSession m))"
    using w by (auto simp: killAllSessions_def killSelectedSession_def Let_def kill_fold_fields intro: wf_guard_fields)
  with w show ?thesis
    by (simp add: handleKey_def handleConfirmExitMode_def handleQuit_def handleQuitRequested_def Let_def wf_facts)
qed

lemma wf_dispatch [wf_facts]: "ui_wf m \<Longrightarrow> ui_wf (fst (dispatchUpdate E msg m))"
proof -
  assume w: "ui_wf m"
  have ev: "ui_wf (fold (applyDaemonSessionEvent E) evs m)" for evs by (rule wf_fold [OF _ w]) (rule wf_event)
  have "ui_wf (fst (handlePrepareExitResult resp m))" "ui_wf (fst (handlePrepareExitFailed m))" for resp
    using w by (simp_all add: handlePrepareExitResult_def handlePrepareExitFailed_def open_modal_def Let_def wf_facts)
  then have "ui_wf (fst (board_update E msg m))"
    using w by (cases msg)
      (simp_all add: board_update_def handleQuitRequested_def handleSessionKilled_def handleSessionKillFailed_def
        Let_def wf_facts split: option.splits)
  moreover have "ui_wf (fst (spawning_update E msg m))"
    using w by (cases msg) (simp_all add: spawning_update_def Let_def wf_facts split: option.splits)
  ultimately show ?thesis
    using w ev by (cases msg)
      (simp_all add: dispatchUpdate_def handleDaemonSessionEvents_def handleDaemonSubscribeReady_def
        handleDaemonSubscribeFailed_def handleDaemonSubscribeEnded_def handleDaemonResyncTick_def wf_facts)
qed

lemma wf_Update [wf_facts]: "ui_wf m \<Longrightarrow> ui_wf (fst (Update E msg m))"
proof -
  assume "ui_wf m"
  then have "ui_wf (fst (dispatchUpdate E msg m))" by (rule wf_facts)
  then show ?thesis by (simp add: Update_def split_beta reconcileViewing_def Let_def wf_facts)
qed

lemma wf_updates: "ui_wf m \<Longrightarrow> ui_wf (fst (updates E msgs m))"
  by (induction msgs arbitrary: m) (simp_all add: split_beta wf_facts)

section \<open>The resync\<close>

lemma fold_keeps: "(\<And>x m. g (f x m) = g m) \<Longrightarrow> g (fold f xs m) = g m"
  by (induction xs arbitrary: m) simp_all

lemma drop_other:
  assumes "ui_wf m" "j \<noteq> i"
  shows "view_of (drop_pane i m) j = view_of m j"
proof (cases "mget (md_panes m) i")
  case (Some r)
  have "mget (md_panes m) j \<noteq> Some r" using assms Some unfolding ui_wf_def by blast
  then show ?thesis
    using assms Some by (cases "mget (md_panes m) j") (auto simp: view_of_def drop_pane_def on_view_def split: option.splits)
qed (simp add: drop_pane_def)

lemma drop_same: "view_of (drop_pane i m) i = None"
  by (auto simp: view_of_def drop_pane_def on_view_def split: option.splits)

lemma drop_fields:
  "md_daemonOwned (drop_pane i m) = md_daemonOwned m" "md_tickets (drop_pane i m) = md_tickets m"
  "md_client (drop_pane i m) = md_client m"
  by (auto simp: drop_pane_def on_view_def split: option.splits)

definition new_pane :: "(TicketID, SessionInfo) gomap \<Rightarrow> Model \<Rightarrow> TicketID \<Rightarrow> PaneView option" where
  "new_pane owned m i =
     (if md_client m = None then None
      else case mget owned i of
        None \<Rightarrow> None
      | Some s \<Rightarrow> map_option (\<lambda>t. vw_pv (new_view t s)) (mget (md_tickets m) i))"

text \<open>What the three loops of a resync do to one ticket.\<close>

lemma resync_add_one:
  assumes "ui_wf m"
  shows "view_of (resync_add (i, s) m) j =
      (if j = i \<and> view_of m i = None then new_pane [(i, s)] m i else view_of m j)"
    "owns (resync_add (i, s) m) j \<longleftrightarrow> j = i \<or> owns m j"
    "md_tickets (resync_add (i, s) m) = md_tickets m" "md_client (resync_add (i, s) m) = md_client m"
proof -
  have id: "mget (md_tickets m) i = Some t \<Longrightarrow> t_ID t = i" for t using assms unfolding ui_wf_def by blast
  have b: "mget (md_panes m) j = Some r \<Longrightarrow> r < length (md_views m)" for j r using assms unfolding ui_wf_def by blast
  have n: "vw_pv ((md_views m @ [x]) ! r) = vw_pv (md_views m ! r)" if "mget (md_panes m) j = Some r" for j r x
    using b [OF that] by (simp add: nth_append)
  have c: "map_option (\<lambda>r. vw_pv ((md_views m @ [x]) ! r)) (mget (md_panes m) j) = map_option (\<lambda>r. vw_pv (md_views m ! r)) (mget (md_panes m) j)"
    for j x by (cases "mget (md_panes m) j") (simp_all add: n)
  show "view_of (resync_add (i, s) m) j =
      (if j = i \<and> view_of m i = None then new_pane [(i, s)] m i else view_of m j)"
    using id by (auto simp: view_of_def resync_add_def own_def add_pane_def put_pane_def new_pane_def c split: option.splits)
  show "owns (resync_add (i, s) m) j \<longleftrightarrow> j = i \<or> owns m j"
    by (auto simp: owns_def resync_add_def own_def add_pane_def put_pane_def split: option.splits)
  show "md_tickets (resync_add (i, s) m) = md_tickets m" "md_client (resync_add (i, s) m) = md_client m"
    by (simp_all add: resync_add_def own_def add_pane_def put_pane_def split: option.splits)
qed

lemma wf_resync_add: "ui_wf m \<Longrightarrow> ui_wf (resync_add p m)"
  by (simp add: resync_add_def wf_facts split: prod.splits option.splits)

lemma resync_adds:
  assumes "ui_wf m" "mwf xs"
  shows "view_of (fold resync_add xs m) j = (if view_of m j = None then new_pane xs m j else view_of m j) \<and>
    (owns (fold resync_add xs m) j \<longleftrightarrow> mget xs j \<noteq> None \<or> owns m j) \<and> ui_wf (fold resync_add xs m)"
  using assms
proof (induction xs arbitrary: m)
  case (Cons p xs)
  obtain i s where p: "p = (i, s)" by force
  let ?m1 = "resync_add (i, s) m"
  have w: "ui_wf m" "ui_wf ?m1" "mwf xs" "mget xs i = None"
    using Cons.prems wf_resync_add [of m "(i, s)"] by (simp_all add: mwf_def p mget_None)
  show ?case
    using Cons.IH [OF w(2,3)] resync_add_one [OF w(1), of i s] w(4)
    by (auto simp: p new_pane_def split: option.splits)
qed (simp add: new_pane_def)

lemma resync_drop_one:
  assumes "ui_wf m"
  shows "view_of (resync_drop owned i m) j =
      (if j = i \<and> mget owned i = None \<and> \<not> attached m i then None else view_of m j)"
    "owns (resync_drop owned i m) j \<longleftrightarrow> owns m j \<and> \<not> (j = i \<and> has_pane m i \<and> mget owned i = None \<and> \<not> attached m i)"
proof -
  have d: "view_of (disown i m') j = view_of m' j" "attached (disown i m') j = attached m' j" for m' j
    by (simp_all add: view_of_def disown_def attached_def)
  show "view_of (resync_drop owned i m) j =
      (if j = i \<and> mget owned i = None \<and> \<not> attached m i then None else view_of m j)"
    using drop_other [OF assms] drop_same [of i m]
    by (auto simp: resync_drop_def d attached_def split: option.splits)
  show "owns (resync_drop owned i m) j \<longleftrightarrow> owns m j \<and> \<not> (j = i \<and> has_pane m i \<and> mget owned i = None \<and> \<not> attached m i)"
    using view_of_None [of m i]
    by (auto simp: resync_drop_def attached_def owns_def disown_def drop_fields split: option.splits)
qed

lemma wf_resync_drop: "ui_wf m \<Longrightarrow> ui_wf (resync_drop owned i m)"
  by (simp add: resync_drop_def wf_facts split: option.splits)

lemma resync_drops:
  assumes "ui_wf m"
  shows "view_of (fold (resync_drop owned) ks m) j =
      (if j \<in> set ks \<and> mget owned j = None \<and> \<not> attached m j then None else view_of m j) \<and>
    (owns (fold (resync_drop owned) ks m) j \<longleftrightarrow>
      owns m j \<and> \<not> (j \<in> set ks \<and> has_pane m j \<and> mget owned j = None \<and> \<not> attached m j))"
  using assms
proof (induction ks arbitrary: m)
  case (Cons i ks)
  let ?m1 = "resync_drop owned i m"
  note o = resync_drop_one [OF Cons.prems, of owned i]
  let ?gone = "j = i \<and> mget owned i = None \<and> \<not> attached m i"
  have v: "(attached ?m1 j \<longleftrightarrow> attached m j \<and> \<not> ?gone) \<and> (has_pane ?m1 j \<longleftrightarrow> has_pane m j \<and> \<not> ?gone)"
  proof (cases ?gone)
    case True
    with o(1) [of j] have "view_of ?m1 j = None" by simp
    with True attached_view(2) [OF this] show ?thesis by (simp add: has_pane_view)
  next
    case False
    with o(1) [of j] have "view_of ?m1 j = view_of m j" by (simp only: if_False)
    with False attached_view(1) [OF this] show ?thesis by (simp only: has_pane_view) blast
  qed
  note IH = Cons.IH [OF wf_resync_drop [OF Cons.prems, of owned i]]
  show ?case
  proof (cases ?gone)
    case True
    then have "\<not> attached ?m1 j" "\<not> has_pane ?m1 j" "view_of ?m1 j = None" using v o(1) [of j] by simp_all
    with True IH o(2) [of j] show ?thesis by auto
  next
    case False
    then have e: "attached ?m1 j = attached m j" "has_pane ?m1 j = has_pane m j" "view_of ?m1 j = view_of m j"
      using v o(1) [of j] by (blast, blast, simp only: if_False)
    have "owns ?m1 j = owns m j" using False o(2) [of j] by blast
    moreover have "j \<in> set (i # ks) \<and> mget owned j = None \<and> \<not> attached m j \<longleftrightarrow>
        j \<in> set ks \<and> mget owned j = None \<and> \<not> attached m j"
      using False by auto
    ultimately show ?thesis using IH e by auto
  qed
qed simp

lemma resync_disowns:
  "view_of (fold (resync_disown owned) ks m) j = view_of m j \<and>
   (owns (fold (resync_disown owned) ks m) j \<longleftrightarrow> owns m j \<and> \<not> (j \<in> set ks \<and> mget owned j = None \<and> \<not> has_pane m j))"
proof (induction ks arbitrary: m)
  case (Cons i ks)
  have "view_of (resync_disown owned i m) j = view_of m j" "has_pane (resync_disown owned i m) j = has_pane m j"
    "owns (resync_disown owned i m) j \<longleftrightarrow> owns m j \<and> \<not> (j = i \<and> mget owned i = None \<and> \<not> has_pane m i)"
    by (auto simp: resync_disown_def disown_def owns_def view_of_def has_pane_def)
  with Cons.IH [of "resync_disown owned i m"] show ?case by auto
qed simp

lemma new_pane_None: "mget owned i = None \<Longrightarrow> new_pane owned m i = None"
  by (simp add: new_pane_def)

lemma in_keys: "k \<in> set (map fst m) \<longleftrightarrow> mget m k \<noteq> None"
  by (simp add: mget_None)

text \<open>C22: After a resync, whatever happened before, a ticket has a pane iff it had one that the daemon still lists
  or that is attached (and then the pane is untouched), or the daemon lists a session for it, the board knows the
  ticket and there is a client (and then the pane is the fresh one of that session); the board counts the ticket
  as the daemon's iff the daemon lists it or it was the daemon's and is attached.\<close>

theorem resync_exact:
  assumes "ui_wf m0" "mwf owned"
  shows "let m = fst (updates E msgs m0); m' = resync owned m in
    view_of m' i =
      (if has_pane m i then (if mget owned i \<noteq> None \<or> attached m i then view_of m i else None) else new_pane owned m i) \<and>
    (owns m' i \<longleftrightarrow> mget owned i \<noteq> None \<or> owns m i \<and> attached m i)"
proof -
  define m where "m = fst (updates E msgs m0)"
  define m1 where "m1 = fold resync_add owned m"
  define m2 where "m2 = fold (resync_drop owned) (map fst (md_panes m1)) m1"
  have w: "ui_wf m" unfolding m_def by (rule wf_updates [OF assms(1)])
  note a = resync_adds [OF w assms(2), of i, folded m1_def]
  have w1: "ui_wf m1" using a by simp
  have k1: "i \<in> set (map fst (md_panes m1)) \<longleftrightarrow> view_of m1 i \<noteq> None"
    unfolding in_keys view_of_def by simp
  have k2: "i \<in> set (map fst (md_daemonOwned m2)) \<longleftrightarrow> owns m2 i" unfolding in_keys owns_def by simp
  note d = resync_drops [OF w1, of owned "map fst (md_panes m1)" i, folded m2_def]
  note e = resync_disowns [of owned "map fst (md_daemonOwned m2)" m2 i]
  have v1: "view_of m1 i = (if has_pane m i then view_of m i else new_pane owned m i)"
    using a by (simp add: has_pane_view)
  have at: "attached m1 i = attached m i" if "mget owned i = None"
  proof (cases "has_pane m i")
    case True
    with v1 show ?thesis by (intro attached_view(1)) simp
  next
    case False
    with v1 new_pane_None [OF that] have "view_of m1 i = None" by simp
    with False show ?thesis using attached_view(2) [of m1 i] attached_view(2) [of m i] by (simp add: has_pane_view)
  qed
  have v2: "view_of m2 i = (if mget owned i = None \<and> \<not> attached m i then None else view_of m1 i)"
    using d k1 at by auto
  have o2: "owns m2 i \<longleftrightarrow> (mget owned i \<noteq> None \<or> owns m i) \<and> \<not> (has_pane m1 i \<and> mget owned i = None \<and> \<not> attached m i)"
    using d [THEN conjunct2] a [THEN conjunct2, THEN conjunct1] k1 at has_pane_view [of m1 i] by blast
  have r: "resync owned m = fold (resync_disown owned) (map fst (md_daemonOwned m2)) m2"
    by (simp add: resync_def Let_def m1_def m2_def)
  have "view_of (resync owned m) i =
      (if has_pane m i then (if mget owned i \<noteq> None \<or> attached m i then view_of m i else None) else new_pane owned m i)"
    using e v2 v1 new_pane_None [of owned i m] by (cases "mget owned i") (simp_all add: r)
  moreover have "owns (resync owned m) i \<longleftrightarrow> mget owned i \<noteq> None \<or> owns m i \<and> attached m i"
  proof (cases "mget owned i")
    case None
    have "has_pane m2 i \<longleftrightarrow> attached m i"
      using v2 None v1 new_pane_None [OF None, of m] attached_view(2) [of m i] by (auto simp: has_pane_view)
    with None e k2 o2 show ?thesis using v1 attached_view(2) [of m i] by (auto simp: r has_pane_view)
  qed (use e k2 o2 in \<open>auto simp: r\<close>)
  ultimately show ?thesis by (simp add: m_def Let_def)
qed

section \<open>Completed is sticky\<close>

definition status_of :: "Model \<Rightarrow> TicketID \<Rightarrow> AgentStatus option" where
  "status_of m i = map_option t_AgentStatus (mget (md_tickets m) i)"

text \<open>The messages that may take ticket \<open>i\<close> out of \<^verbatim>\<open>completed\<close>.\<close>

definition ev_demotes :: "TicketID \<Rightarrow> SessionEvent \<Rightarrow> bool" where
  "ev_demotes i ev \<longleftrightarrow> ev_TicketID ev = i \<and>
     (ev_Event ev = ''started'' \<and> ev_Status ev = [] \<or> ev_Event ev = ''exited'' \<and> \<not> ev_Expected ev \<or>
      ev_Event ev \<in> {''started'', ''activity'', ''status''} \<and> ev_Status ev = AgentError)"

definition demotes :: "TicketID \<Rightarrow> ui_msg \<Rightarrow> bool" where
  "demotes i msg \<longleftrightarrow>
     (case msg of MEvents evs \<Rightarrow> list_ex (ev_demotes i) evs | MStatusPolled rs \<Rightarrow> (i, AgentError) \<in> set rs | _ \<Rightarrow> False)"

definition is_completed :: "TicketID \<Rightarrow> Model \<Rightarrow> bool" where
  "is_completed i m \<longleftrightarrow> ui_wf m \<and> status_of m i = Some AgentCompleted \<and> md_spawningTicket m \<noteq> i"

named_theorems comp_facts

lemma comp_same: "is_completed i m \<Longrightarrow> ui_wf m' \<Longrightarrow> md_tickets m' = md_tickets m \<Longrightarrow> md_spawningTicket m' = md_spawningTicket m \<Longrightarrow> is_completed i m'"
  by (simp add: is_completed_def status_of_def)

lemma comp_wf: "is_completed i m \<Longrightarrow> ui_wf m"
  by (simp add: is_completed_def)

lemma board_frame:
  "md_tickets (notify s m) = md_tickets m" "md_tickets (saveTicket E t m) = md_tickets m" "md_tickets (own j m) = md_tickets m"
  "md_tickets (disown j m) = md_tickets m" "md_tickets (add_pane t si m) = md_tickets m" "md_tickets (on_view f r m) = md_tickets m"
  "md_tickets (drop_pane j m) = md_tickets m" "md_tickets (exitToBoard m) = md_tickets m" "md_tickets (event_viewing j m) = md_tickets m"
  "md_tickets (event_unviewing j m) = md_tickets m" "md_tickets (event_activity ev m) = md_tickets m"
  "md_spawningTicket (notify s m) = md_spawningTicket m" "md_spawningTicket (saveTicket E t m) = md_spawningTicket m"
  "md_spawningTicket (own j m) = md_spawningTicket m" "md_spawningTicket (disown j m) = md_spawningTicket m"
  "md_spawningTicket (add_pane t si m) = md_spawningTicket m" "md_spawningTicket (on_view f r m) = md_spawningTicket m"
  "md_spawningTicket (drop_pane j m) = md_spawningTicket m" "md_spawningTicket (exitToBoard m) = md_spawningTicket m"
  "md_spawningTicket (event_viewing j m) = md_spawningTicket m" "md_spawningTicket (event_unviewing j m) = md_spawningTicket m"
  "md_spawningTicket (event_activity ev m) = md_spawningTicket m"
  "md_tickets (put_pane j v m) = md_tickets m" "md_spawningTicket (put_pane j v m) = md_spawningTicket m"
  "md_tickets (clear_takeover m) = md_tickets m" "md_spawningTicket (clear_takeover m) = md_spawningTicket m"
  by (auto simp: notify_def saveTicket_def own_def disown_def event_viewing_def event_unviewing_def event_activity_def
      add_pane_def put_pane_def on_view_def drop_pane_def clear_takeover_def exitToBoard_def Let_def split: option.splits)

lemma comp_frame [comp_facts]:
  assumes "is_completed i m"
  shows "is_completed i (notify s m)" "is_completed i (saveTicket E t m)" "is_completed i (own j m)" "is_completed i (disown j m)" "is_completed i (add_pane t si m)"
    "is_completed i (on_view f r m)" "is_completed i (drop_pane j m)" "is_completed i (exitToBoard m)" "is_completed i (event_viewing j m)"
    "is_completed i (event_unviewing j m)" "is_completed i (event_activity ev m)" "is_completed i (m\<lparr>md_wedged := b\<rparr>)"
    "is_completed i (m\<lparr>md_daemonViewing := v, md_lastPTYActivity := a\<rparr>)" "is_completed i (m\<lparr>md_connected := b\<rparr>)"
    "is_completed i (m\<lparr>md_connected := b, md_daemonOwned := ow, md_daemonViewing := v, md_viewing := vs\<rparr>)"
    "is_completed i (m\<lparr>md_reconnecting := b\<rparr>)" "is_completed i (m\<lparr>md_viewing := vs\<rparr>)" "is_completed i (m\<lparr>md_confirmExit := ce\<rparr>)"
    "is_completed i (m\<lparr>md_mode := mo\<rparr>)" "is_completed i (m\<lparr>md_showConfirm := b\<rparr>)" "is_completed i (m\<lparr>md_confirmExit := ce, md_mode := mo\<rparr>)"
    "is_completed i (m\<lparr>md_reconnecting := b, md_client := c, md_daemon := b'\<rparr>)"
    "is_completed i (put_pane j vw m)" "is_completed i (m\<lparr>md_focusedPane := fp\<rparr>)" "is_completed i (clear_takeover m)"
    "is_completed i (m\<lparr>md_cycleAttachPrompt := b\<rparr>)" "is_completed i (m\<lparr>md_mode := mo, md_showConfirm := b\<rparr>)"
    "is_completed i (m\<lparr>md_mode := mo, md_focusedPane := fp\<rparr>)"
    "is_completed i (m\<lparr>md_takeoverTicket := fp, md_takeoverPane := tp, md_takeoverPrompt := b, md_focusedPane := fp', md_mode := mo\<rparr>)"
  using assms by (simp_all add: is_completed_def status_of_def board_frame wf_facts)

lemma comp_put: "is_completed i m \<Longrightarrow> t_ID t = i \<longrightarrow> t_AgentStatus t = AgentCompleted \<Longrightarrow> is_completed i (put_ticket t m)"
  using wf_put_ticket [of m t] by (auto simp: is_completed_def status_of_def put_ticket_def)

lemma comp_set_status [comp_facts]: "is_completed i m \<Longrightarrow> t_ID t = i \<longrightarrow> st = AgentCompleted \<Longrightarrow> is_completed i (set_status E st t m)"
  by (simp add: set_status_def SetAgentStatus_def comp_frame comp_put)

lemma comp_ticket: "is_completed i m \<Longrightarrow> mget (md_tickets m) j = Some t \<Longrightarrow> t_ID t = j \<and> (j = i \<longrightarrow> t_AgentStatus t = AgentCompleted)"
  by (auto simp: is_completed_def ui_wf_def status_of_def)

lemma comp_apply [comp_facts]:
  assumes "is_completed i m" "t_ID t = i \<longrightarrow> t_AgentStatus t = AgentCompleted \<and> raw \<noteq> AgentError"
  shows "is_completed i (apply_status E t raw m)"
proof -
  have "apply_status E t raw m = m \<or>
      apply_status E t raw m = set_status E raw t m \<and> (t_AgentStatus t = AgentCompleted \<longrightarrow> raw \<in> {AgentCompleted, AgentError})"
    by (cases "raw \<notin> {AgentIdle, AgentWorking, AgentWaiting, AgentSubagents, AgentCompleted, AgentError, AgentStuck}";
        cases "t_AgentStatus t = AgentCompleted \<and> raw \<noteq> AgentCompleted \<and> raw \<noteq> AgentError")
      (simp_all only: apply_status_def applyDaemonStatus_def set_status_def if_True if_False prod.case, auto)
  then show ?thesis using assms comp_set_status [OF assms(1), of t raw E] by auto
qed

lemma comp_fold: "(\<And>x m. x \<in> set xs \<Longrightarrow> is_completed i m \<Longrightarrow> is_completed i (f x m)) \<Longrightarrow> is_completed i m \<Longrightarrow> is_completed i (fold f xs m)"
  by (induction xs arbitrary: m) simp_all

lemma comp_exited:
  assumes "is_completed i m" "t_ID t = i \<longrightarrow> ev_Expected ev"
  shows "is_completed i (event_exited E ev t m)"
proof -
  have "is_completed i (set_status E (if ev_Expected ev then AgentCompleted else AgentNone) t m1)" if "is_completed i m1" for m1
    using that assms(2) by (intro comp_set_status) auto
  with assms(1) show ?thesis by (simp add: event_exited_def Let_def comp_frame del: if_split split: if_split)
qed

lemma comp_event:
  assumes c: "is_completed i m" and d: "\<not> ev_demotes i ev"
  shows "is_completed i (applyDaemonSessionEvent E ev m)"
proof -
  let ?m1 = "event_activity ev m"
  have m1: "is_completed i ?m1" by (simp add: c comp_frame)
  have branches: "is_completed i (case mget (md_tickets ?m1) (ev_TicketID ev) of None \<Rightarrow> ?m1
      | Some t \<Rightarrow>
          (if ev_Event ev = ''started'' then
             (if ev_Status ev \<noteq> [] then apply_status E t (ev_Status ev) (own (ev_TicketID ev) ?m1)
              else set_status E AgentWorking t (own (ev_TicketID ev) ?m1))
           else if ev_Event ev = ''exited'' then event_exited E ev t ?m1
           else if ev_Event ev = ''viewing'' then event_viewing (ev_TicketID ev) ?m1
           else if ev_Event ev = ''unviewing'' then event_unviewing (ev_TicketID ev) ?m1
           else if ev_Event ev = ''activity'' \<or> ev_Event ev = ''status'' then apply_status E t (ev_Status ev) ?m1
           else ?m1))"
  proof (cases "mget (md_tickets ?m1) (ev_TicketID ev)")
    case (Some t)
    have t: "t_ID t = ev_TicketID ev" "t_ID t = i \<longrightarrow> t_AgentStatus t = AgentCompleted"
      using comp_ticket [OF m1 Some] by auto
    have e: "is_completed i (apply_status E t (ev_Status ev) m')"
      if "is_completed i m'" "ev_Event ev \<in> {''started'', ''activity'', ''status''}" for m'
      using that d t by (intro comp_apply) (auto simp: ev_demotes_def)
    have w: "is_completed i (set_status E AgentWorking t m')"
      if "is_completed i m'" "ev_Event ev = ''started''" "ev_Status ev = []" for m'
      using that d t by (intro comp_set_status) (auto simp: ev_demotes_def)
    have x: "is_completed i (event_exited E ev t ?m1)" if "ev_Event ev = ''exited''"
      using that d t m1 by (intro comp_exited) (auto simp: ev_demotes_def)
    have "is_completed i (own (ev_TicketID ev) ?m1)" "is_completed i (event_viewing (ev_TicketID ev) ?m1)"
      "is_completed i (event_unviewing (ev_TicketID ev) ?m1)"
      by (simp_all add: m1 comp_frame)
    with e w x m1 show ?thesis unfolding Some option.case by auto
  qed (simp add: m1)
  show ?thesis
    unfolding applyDaemonSessionEvent_def Let_def using c branches by (simp only: comp_frame simp_thms split: if_split)
qed

lemma comp_poll: "is_completed i m \<Longrightarrow> p \<noteq> (i, AgentError) \<Longrightarrow> is_completed i (poll_status E p m)"
proof -
  assume c: "is_completed i m" and p: "p \<noteq> (i, AgentError)"
  obtain j st where q: "p = (j, st)" by force
  show ?thesis
  proof (cases "mget (md_tickets m) j")
    case None
    then show ?thesis using c by (simp add: q poll_status_def)
  next
    case (Some t)
    have t: "t_ID t = j" "j = i \<Longrightarrow> t_AgentStatus t = AgentCompleted" using comp_ticket [OF c Some] by simp_all
    have "poll_status E p m = m \<or> poll_status E p m = put_ticket (fst (SetAgentStatus (ue_now E) st t)) m \<and>
        (t_AgentStatus t = AgentCompleted \<longrightarrow> st \<in> {AgentCompleted, AgentError})"
      by (cases "st = AgentNone"; cases "t_AgentStatus t = AgentCompleted \<and> st \<noteq> AgentCompleted \<and> st \<noteq> AgentError";
          cases "t_AgentStatus t = AgentSubagents \<and> (st = AgentWorking \<or> st = AgentWaiting)")
        (simp_all only: q poll_status_def prod.case Some option.case if_True if_False, auto)
    moreover have "t_ID (fst (SetAgentStatus (ue_now E) st t)) = i \<longrightarrow>
        t_AgentStatus (fst (SetAgentStatus (ue_now E) st t)) = AgentCompleted"
      if "t_AgentStatus t = AgentCompleted \<longrightarrow> st \<in> {AgentCompleted, AgentError}"
      using that t p q by (auto simp: SetAgentStatus_def)
    ultimately show ?thesis using c comp_put [OF c] by metis
  qed
qed

lemma comp_resync [comp_facts]: "is_completed i m \<Longrightarrow> is_completed i (resync owned m)"
proof -
  assume c: "is_completed i m"
  have "is_completed i m \<Longrightarrow> is_completed i (resync_add p m)" "is_completed i m \<Longrightarrow> is_completed i (resync_drop owned j m)"
    "is_completed i m \<Longrightarrow> is_completed i (resync_disown owned j m)" for p j m
    by (simp_all add: resync_add_def resync_drop_def resync_disown_def comp_facts split: prod.splits option.splits)
  with c show ?thesis unfolding resync_def Let_def by (intro comp_fold)
qed

lemma comp_reconnect [comp_facts]: "is_completed i m \<Longrightarrow> is_completed i (fst (reconnect_if_closed m))"
  by (simp add: reconnect_if_closed_def maybeReconnectDaemon_def comp_facts)

lemma comp_paneExited [comp_facts]: "is_completed i m \<Longrightarrow> is_completed i (paneExited E j m)"
proof -
  assume c: "is_completed i m"
  then have "mget (md_tickets m) j = Some t \<Longrightarrow> t_AgentStatus t \<noteq> AgentCompleted \<Longrightarrow> t_ID t \<noteq> i" for t
    using comp_ticket by blast
  with c have "is_completed i (case mget (md_tickets (drop_pane j m)) j of
      None \<Rightarrow> drop_pane j m
    | Some t \<Rightarrow> if t_AgentStatus t \<noteq> AgentCompleted then set_status E AgentNone t (drop_pane j m) else drop_pane j m)"
    by (auto simp: board_frame comp_frame intro!: comp_set_status split: option.splits)
  then show ?thesis unfolding paneExited_def Let_def by (simp only: comp_frame simp_thms split: if_split)
qed

lemma comp_agent_view [comp_facts]: "is_completed i m \<Longrightarrow> is_completed i (fst (handleAgentViewMode key m))"
proof -
  have "is_completed i m \<Longrightarrow> is_completed i (fst (cycleUnattachedSession d m))" for d
    by (simp add: cycleUnattachedSession_def focusAndPromptAttach_def Let_def comp_frame split: option.splits)
  then show "is_completed i m \<Longrightarrow> is_completed i (fst (handleAgentViewMode key m))"
    by (simp add: handleAgentViewMode_def handleTakeoverPromptKey_def handleCycleAttachPromptKey_def comp_frame split: option.splits)
qed

lemma comp_save_spawn:
  assumes "is_completed i m" "\<And>t. t_AgentStatus (f t) = t_AgentStatus t \<and> t_ID (f t) = t_ID t"
  shows "is_completed i (save_spawn E wt f j m)"
proof (cases "mget (md_tickets m) j")
  case (Some t)
  have "t_ID (stamp_spawn E wt (f t)) = j" "j = i \<Longrightarrow> t_AgentStatus (stamp_spawn E wt (f t)) = AgentCompleted"
    using comp_ticket [OF assms(1) Some] assms(2) [of t] by (simp_all add: stamp_spawn_def Let_def split: prod.splits)
  with Some assms(1) show ?thesis by (auto simp: save_spawn_def Let_def comp_frame comp_put)
qed (simp add: save_spawn_def assms)

lemma comp_spawns [comp_facts]:
  assumes "is_completed i m"
  shows "is_completed i (spawnUnattachedReady E j v wt m)" "is_completed i (armTakeoverPrompt j vo m)"
  using assms
  by (simp_all add: spawnUnattachedReady_def armTakeoverPrompt_def Let_def comp_frame comp_save_spawn split: option.splits)

lemma comp_messages [comp_facts]:
  assumes "is_completed i m"
  shows "is_completed i (paneDetached j m)" "is_completed i (handleStallRecover m)"
    "is_completed i (fst (handleDaemonReconnectedMsg r m))" "is_completed i (fst (handleDaemonResyncMsg res m))"
    "is_completed i (fst (daemonDisconnected err m))" "is_completed i (fst (handleKey key m))"
proof -
  have "is_completed i (fst (killAllSessions m))" "is_completed i (fst (killSelectedSession m))"
    using assms wf_guard_fields [OF comp_wf [OF assms]]
    by (auto simp: killAllSessions_def killSelectedSession_def Let_def kill_fold_fields intro!: comp_same [OF assms])
  with assms show "is_completed i (fst (handleKey key m))"
    by (simp add: handleKey_def handleConfirmExitMode_def handleQuit_def handleQuitRequested_def Let_def comp_facts)
  show "is_completed i (fst (daemonDisconnected err m))"
    using comp_fold [of "map fst (md_panes m)" i drop_pane m] assms
    by (simp add: daemonDisconnected_def Let_def comp_facts)
  show "is_completed i (fst (handleDaemonResyncMsg res m))"
    using assms by (simp add: handleDaemonResyncMsg_def Let_def comp_facts split_beta split: sum.splits)
  show "is_completed i (fst (handleDaemonReconnectedMsg r m))"
    using assms by (simp add: handleDaemonReconnectedMsg_def Let_def comp_facts split: reconnect_result.splits)
qed (use assms in \<open>simp_all add: paneDetached_def handleStallRecover_def Let_def comp_facts\<close>)

lemma comp_Update:
  assumes c: "is_completed i m" and i: "i \<noteq> []" and d: "\<not> demotes i msg"
  shows "is_completed i (fst (Update E msg m))"
proof -
  have ev: "is_completed i (fold (applyDaemonSessionEvent E) evs m)" if "msg = MEvents evs" for evs
    using d that by (intro comp_fold [OF _ c] comp_event) (auto simp: demotes_def list_ex_iff)
  have pl: "is_completed i (agentStatusResult E rs m)" if "msg = MStatusPolled rs" for rs
    using d that unfolding agentStatusResult_def by (intro comp_fold [OF _ c] comp_poll) (auto simp: demotes_def)
  have pr: "is_completed i (fst (handlePrepareExitResult resp m))" "is_completed i (fst (handlePrepareExitFailed m))" for resp
    using c by (simp_all add: handlePrepareExitResult_def handlePrepareExitFailed_def open_modal_def Let_def comp_frame)
  have b: "is_completed i (fst (board_update E msg m))"
    using c pl pr by (cases msg)
      (simp_all add: board_update_def handleQuitRequested_def handleSessionKilled_def handleSessionKillFailed_def
        Let_def comp_facts split: option.splits)
  have s: "is_completed i (fst (spawning_update E msg m))"
  proof (cases msg)
    case (MSpawnReady j v wt notice)
    have "is_completed i (m'\<lparr>md_mode := mo, md_spawningTicket := [], md_spawningAgent := a\<rparr>)" if "is_completed i m'" for m' mo a
      using that i by (simp add: is_completed_def status_of_def wf_facts)
    with c show ?thesis by (simp add: MSpawnReady spawning_update_def spawnReady_def Let_def comp_frame comp_save_spawn)
  next
    case (MSpawnError j e)
    with c i show ?thesis by (simp add: spawning_update_def is_completed_def status_of_def board_frame wf_facts)
  next
    case (MAttachConflict j vo)
    have "is_completed i (m\<lparr>md_spawningTicket := [], md_spawningAgent := []\<rparr>)"
      using c i by (simp add: is_completed_def status_of_def wf_facts)
    with c show ?thesis by (simp add: MAttachConflict spawning_update_def comp_facts)
  next
    case (MPaneOutput j)
    with c i show ?thesis by (simp add: spawning_update_def is_completed_def status_of_def wf_facts)
  next
    case (MPaneExit j e)
    have "is_completed i (resetSpawnState E j m)" if "j = md_spawningTicket m"
    proof -
      have j: "j \<noteq> i" using c that by (auto simp: is_completed_def)
      have "md_spawningTicket (resetSpawnState E j m) = []" by (simp add: resetSpawnState_def Let_def)
      moreover have "mget (md_tickets (resetSpawnState E j m)) i = mget (md_tickets m) i"
        using j comp_ticket [OF c, of j]
        by (cases "mget (md_tickets m) j") (simp_all add: resetSpawnState_def Let_def board_frame put_ticket_def)
      ultimately show ?thesis using c i wf_messages(7) [OF comp_wf [OF c], of E j] by (simp add: is_completed_def status_of_def)
    qed
    with c MPaneExit show ?thesis by (simp add: spawning_update_def comp_frame)
  next
    case (MKey key)
    have "is_completed i ((on_view f r m)\<lparr>md_panes := mdel j (md_panes m)\<rparr>)" for f r j
      using c wf_view_del [OF comp_wf [OF c]] by (simp add: is_completed_def status_of_def board_frame)
    moreover have "is_completed i (m'\<lparr>md_mode := ModeNormal, md_spawningTicket := [], md_spawningAgent := []\<rparr>)"
      if "is_completed i m'" for m'
      using that i by (simp add: is_completed_def status_of_def wf_facts)
    ultimately show ?thesis using c MKey by (simp add: spawning_update_def Let_def comp_frame split: option.splits)
  qed (use c in \<open>simp_all add: spawning_update_def\<close>)
  have "is_completed i (fst (dispatchUpdate E msg m))"
    using c b s ev by (cases msg)
      (simp_all add: dispatchUpdate_def handleDaemonSessionEvents_def handleDaemonSubscribeReady_def
        handleDaemonSubscribeFailed_def handleDaemonSubscribeEnded_def handleDaemonResyncTick_def comp_facts)
  then show ?thesis by (simp add: Update_def split_beta reconcileViewing_def Let_def comp_frame)
qed

text \<open>A ticket whose agent has completed stays completed under every message, whatever the status files, the
  daemon's status and activity events, resyncs, pane exits and disconnects say, except a session that starts
  without a status, an unexpected exit, and an error report.\<close>

theorem completed_sticky:
  assumes "ui_wf m" "status_of m i = Some AgentCompleted" "md_spawningTicket m \<noteq> i" "i \<noteq> []"
    "list_all (\<lambda>msg. \<not> demotes i msg) msgs"
  shows "status_of (fst (updates E msgs m)) i = Some AgentCompleted"
proof -
  have "is_completed i m \<Longrightarrow> list_all (\<lambda>msg. \<not> demotes i msg) msgs \<Longrightarrow> is_completed i (fst (updates E msgs m))"
    by (induction msgs arbitrary: m) (simp_all add: split_beta comp_Update assms(4))
  with assms show ?thesis by (simp add: is_completed_def)
qed

section \<open>The viewing indicator\<close>

text \<open>What the daemon is told to be viewed, and what the board believes it is.\<close>

fun view_step :: "cmd \<Rightarrow> string set \<Rightarrow> string set" where
  "view_step (CmdSetViewing s True) V = insert s V"
| "view_step (CmdSetViewing s False) V = V - {s}"
| "view_step _ V = V"

definition told :: "cmd list \<Rightarrow> string set \<Rightarrow> string set" where
  "told cs V = fold view_step cs V"

definition believed :: "Model \<Rightarrow> string set" where
  "believed m = {md_viewing m} - {[]}"

definition is_view :: "cmd \<Rightarrow> bool" where
  "is_view c \<longleftrightarrow> (case c of CmdSetViewing s b \<Rightarrow> True | _ \<Rightarrow> False)"

lemma told_append: "told (cs @ ds) V = told ds (told cs V)"
  by (simp add: told_def)

lemma told_none: "\<forall>c \<in> set cs. \<not> is_view c \<Longrightarrow> told cs V = V"
proof (induction cs)
  case (Cons c cs)
  have "view_step c V = V" using Cons.prems by (cases "(c, V)" rule: view_step.cases) (simp_all add: is_view_def)
  with Cons show ?case by (simp add: told_def)
qed (simp add: told_def)

lemma viewing_target_viewing [simp]: "viewing_target (m\<lparr>md_viewing := v\<rparr>) = viewing_target m"
  by (simp add: viewing_target_def view_of_def)

lemma told_reconcile:
  assumes "md_client m \<noteq> None"
  shows "told (snd (reconcileViewing m)) (believed m) = believed (fst (reconcileViewing m))"
    "md_viewing (fst (reconcileViewing m)) = viewing_target (fst (reconcileViewing m))"
    "md_client (fst (reconcileViewing m)) = md_client m"
proof -
  show "told (snd (reconcileViewing m)) (believed m) = believed (fst (reconcileViewing m))"
    using assms by (auto simp: reconcileViewing_def setViewingCmd_def believed_def told_def Let_def)
qed (simp_all add: reconcileViewing_def Let_def)

text \<open>The handlers neither touch the belief nor tell the daemon.\<close>

definition unviewed :: "Model \<Rightarrow> Model \<Rightarrow> bool" where
  "unviewed m m' \<longleftrightarrow> md_viewing m' = md_viewing m \<and> (md_client m \<noteq> None \<longrightarrow> md_client m' \<noteq> None)"

named_theorems unviewed_facts

lemma unviewed_refl [simp]: "unviewed m m"
  by (simp add: unviewed_def)

lemma unviewed_trans: "unviewed m m1 \<Longrightarrow> unviewed m1 m2 \<Longrightarrow> unviewed m m2"
  by (auto simp: unviewed_def)

lemma unviewed_fold: "(\<And>x m. unviewed m (f x m)) \<Longrightarrow> unviewed m (fold f xs m)"
proof (induction xs arbitrary: m)
  case (Cons x xs)
  then show ?case using unviewed_trans [of m "f x m"] by simp
qed simp

lemma unviewed_basic [unviewed_facts]:
  assumes "unviewed m m1"
  shows "unviewed m (notify s m1)" "unviewed m (saveTicket E t m1)" "unviewed m (put_ticket t m1)" "unviewed m (own i m1)"
    "unviewed m (disown i m1)" "unviewed m (add_pane t si m1)" "unviewed m (on_view f r m1)" "unviewed m (drop_pane i m1)"
    "unviewed m (exitToBoard m1)" "unviewed m (event_viewing i m1)" "unviewed m (event_unviewing i m1)"
    "unviewed m (event_activity ev m1)" "unviewed m (m1\<lparr>md_wedged := b\<rparr>)"
    "unviewed m (m1\<lparr>md_daemonViewing := v, md_lastPTYActivity := a\<rparr>)" "unviewed m (m1\<lparr>md_reconnecting := b\<rparr>)"
    "unviewed m (m1\<lparr>md_connected := b\<rparr>)" "unviewed m (m1\<lparr>md_confirmExit := ce\<rparr>)" "unviewed m (m1\<lparr>md_mode := mo\<rparr>)"
    "unviewed m (m1\<lparr>md_confirmExit := ce, md_mode := mo\<rparr>)" "unviewed m (m1\<lparr>md_showConfirm := b\<rparr>)"
    "unviewed m (m1\<lparr>md_reconnecting := b, md_client := Some c, md_daemon := b'\<rparr>)"
    "unviewed m (m1\<lparr>md_panes := ps\<rparr>)" "unviewed m (m1\<lparr>md_mode := mo, md_spawningTicket := st, md_spawningAgent := sa\<rparr>)"
    "unviewed m (m1\<lparr>md_mode := mo, md_spawningTicket := st, md_spawningAgent := sa, md_panes := ps\<rparr>)"
    "unviewed m (put_pane i vw m1)" "unviewed m (m1\<lparr>md_focusedPane := fp\<rparr>)" "unviewed m (clear_takeover m1)"
    "unviewed m (m1\<lparr>md_cycleAttachPrompt := b\<rparr>)" "unviewed m (m1\<lparr>md_mode := mo, md_showConfirm := b\<rparr>)"
    "unviewed m (m1\<lparr>md_mode := mo, md_focusedPane := fp\<rparr>)" "unviewed m (m1\<lparr>md_spawningTicket := st, md_spawningAgent := sa\<rparr>)"
    "unviewed m (m1\<lparr>md_focusedPane := fp, md_mode := mo, md_spawningTicket := st, md_spawningAgent := sa\<rparr>)"
    "unviewed m (m1\<lparr>md_takeoverTicket := fp, md_takeoverPane := tp, md_takeoverPrompt := b, md_focusedPane := fp', md_mode := mo\<rparr>)"
  using assms
  by (auto simp: unviewed_def notify_def saveTicket_def put_ticket_def own_def disown_def put_pane_def add_pane_def on_view_def
      drop_pane_def clear_takeover_def exitToBoard_def event_viewing_def event_unviewing_def event_activity_def Let_def split: option.splits)

lemma unviewed_status [unviewed_facts]:
  assumes "unviewed m m1" shows "unviewed m (set_status E st t m1)" "unviewed m (apply_status E t raw m1)"
  using assms by (auto simp: set_status_def apply_status_def unviewed_facts split: prod.splits)

lemma unviewed_event: "unviewed m (applyDaemonSessionEvent E ev m)"
proof -
  have "unviewed m (event_exited E ev t (event_activity ev m))" for t by (simp add: event_exited_def Let_def unviewed_facts)
  then show ?thesis by (simp add: applyDaemonSessionEvent_def Let_def unviewed_facts split: option.split)
qed

lemma unviewed_resync: "unviewed m (resync owned m)"
proof -
  have "unviewed m (resync_add p m)" "unviewed m (resync_drop owned i m)" "unviewed m (resync_disown owned i m)" for p i m
    by (simp_all add: resync_add_def resync_drop_def resync_disown_def unviewed_facts split: prod.splits option.splits)
  then show ?thesis
    unfolding resync_def Let_def by (intro unviewed_trans [OF unviewed_trans [OF unviewed_fold unviewed_fold] unviewed_fold])
qed

lemma unviewed_agent_view: "unviewed m (fst (handleAgentViewMode key m))"
proof -
  have "unviewed m (fst (cycleUnattachedSession d m))" for d
    by (simp add: cycleUnattachedSession_def focusAndPromptAttach_def Let_def unviewed_facts split: option.splits)
  then show ?thesis
    by (simp add: handleAgentViewMode_def handleTakeoverPromptKey_def handleCycleAttachPromptKey_def unviewed_facts
        split: option.splits)
qed

lemma unviewed_spawns [unviewed_facts]:
  assumes "unviewed m m1"
  shows "unviewed m (spawnReady E i v wt notice m1)" "unviewed m (spawnUnattachedReady E i v wt m1)"
    "unviewed m (armTakeoverPrompt i vo m1)"
proof -
  have "unviewed m (save_spawn E wt f j m1)" for f j
    using assms by (simp add: save_spawn_def Let_def unviewed_facts split: option.splits)
  with assms show "unviewed m (spawnReady E i v wt notice m1)" "unviewed m (spawnUnattachedReady E i v wt m1)"
    "unviewed m (armTakeoverPrompt i vo m1)"
    by (simp_all add: spawnReady_def spawnUnattachedReady_def armTakeoverPrompt_def Let_def unviewed_facts split: option.splits)
qed

lemma no_view_agent_view: "c \<in> set (snd (handleAgentViewMode key m)) \<Longrightarrow> \<not> is_view c" "c \<in> set (attachExisting i ro m) \<Longrightarrow> \<not> is_view c"
proof -
  have a: "\<forall>c \<in> set (doAttach i ro b m). \<not> is_view c" for i ro b m by (auto simp: doAttach_def is_view_def split: option.splits)
  then show "c \<in> set (attachExisting i ro m) \<Longrightarrow> \<not> is_view c" by (simp add: attachExisting_def)
  have "\<forall>c \<in> set (snd (cycleUnattachedSession d m)). \<not> is_view c" for d
    by (simp add: cycleUnattachedSession_def focusAndPromptAttach_def Let_def is_view_def split: option.splits)
  with a have "\<forall>c \<in> set (snd (handleAgentViewMode key m)). \<not> is_view c"
    by (simp add: handleAgentViewMode_def handleTakeoverPromptKey_def handleCycleAttachPromptKey_def attachExisting_def
        split: option.splits)
  then show "c \<in> set (snd (handleAgentViewMode key m)) \<Longrightarrow> \<not> is_view c" by blast
qed

lemma unviewed_polled: "unviewed m (agentStatusResult E rs m)"
  unfolding agentStatusResult_def
  by (rule unviewed_fold) (simp add: poll_status_def unviewed_facts split: prod.splits option.splits)

lemma unviewed_messages:
  "unviewed m (paneDetached i m)" "unviewed m (paneExited E i m)" "unviewed m (handleStallRecover m)"
  "unviewed m (fst (reconnect_if_closed m))" "unviewed m (fst (handleDaemonReconnectedMsg r m))" "unviewed m (resetSpawnState E i m)"
  by (simp_all add: paneDetached_def paneExited_def handleStallRecover_def reconnect_if_closed_def maybeReconnectDaemon_def
      handleDaemonReconnectedMsg_def resetSpawnState_def Let_def unviewed_facts split: option.splits reconnect_result.splits)

lemma kill_fold_unviewed:
  "unviewed (fst st) (fst (fold kill_one xs st)) \<and>
   (\<forall>c \<in> set (snd (fold kill_one xs st)). is_view c \<longrightarrow> c \<in> set (snd st))"
proof (induction xs arbitrary: st)
  case (Cons x xs)
  note IH = Cons.IH [of "kill_one x st"]
  have k: "unviewed (fst st) (fst (kill_one x st))" "\<forall>c \<in> set (snd (kill_one x st)). is_view c \<longrightarrow> c \<in> set (snd st)"
    by (auto simp: kill_one_def killSessionCmd_def is_view_def Let_def unviewed_facts split: prod.splits)
  from unviewed_trans [OF k(1) conjunct1 [OF IH]] conjunct2 [OF IH] k(2) show ?case by simp
qed simp

lemma unviewed_key: "unviewed m (fst (handleKey key m))" "c \<in> set (snd (handleKey key m)) \<Longrightarrow> \<not> is_view c"
proof -
  let ?ce = "md_confirmExit m"
  let ?m1 = "m\<lparr>md_confirmExit := ?ce\<lparr>ce_killing := Some (case ce_killing ?ce of None \<Rightarrow> {} | Some K \<Rightarrow> K)\<rparr>\<rparr>"
  have "unviewed m (fst (fold kill_one (ce_sessions ?ce) (?m1, [])))"
    by (intro unviewed_trans [OF _ conjunct1 [OF kill_fold_unviewed [of "(?m1, [])" "ce_sessions ?ce", unfolded fst_conv]]])
      (simp add: unviewed_facts)
  then have all: "unviewed m (fst (killAllSessions m))" "\<forall>c \<in> set (snd (killAllSessions m)). \<not> is_view c"
    using kill_fold_unviewed [of "(?m1, [])" "ce_sessions ?ce"] by (auto simp: killAllSessions_def Let_def)
  have sel: "unviewed m (fst (killSelectedSession m))" "\<forall>c \<in> set (snd (killSelectedSession m)). \<not> is_view c"
    by (auto simp: killSelectedSession_def killSessionCmd_def is_view_def unviewed_facts Let_def)
  show "unviewed m (fst (handleKey key m))"
    using all(1) sel(1)
    by (simp add: handleKey_def handleConfirmExitMode_def handleQuit_def handleQuitRequested_def Let_def unviewed_facts unviewed_agent_view)
  show "c \<in> set (snd (handleKey key m)) \<Longrightarrow> \<not> is_view c"
    using all(2) sel(2) no_view_agent_view(1) [of c key m]
    by (auto simp: handleKey_def handleConfirmExitMode_def handleQuit_def handleQuitRequested_def cancelExitCmd_def Let_def
        split: if_splits simp: is_view_def)
qed

definition is_disconnect :: "ui_msg \<Rightarrow> bool" where
  "is_disconnect msg \<longleftrightarrow> (case msg of MDisconnected e \<Rightarrow> True | _ \<Rightarrow> False)"

lemma unviewed_dispatch:
  assumes "\<not> is_disconnect msg"
  shows "unviewed m (fst (dispatchUpdate E msg m))"
proof -
  have ev: "unviewed m (fold (applyDaemonSessionEvent E) evs m)" for evs by (intro unviewed_fold unviewed_event)
  have rs: "unviewed m (fst (handleDaemonResyncMsg res m))" for res
    by (simp add: handleDaemonResyncMsg_def Let_def split_beta unviewed_messages unviewed_resync split: sum.splits)
  have "unviewed m (fst (board_update E msg m))"
    using assms by (cases msg)
      (simp_all add: board_update_def is_disconnect_def handleQuitRequested_def handlePrepareExitResult_def
        handlePrepareExitFailed_def open_modal_def handleSessionKilled_def handleSessionKillFailed_def Let_def
        unviewed_facts unviewed_polled unviewed_messages unviewed_key split: option.splits)
  moreover have "unviewed m (fst (spawning_update E msg m))"
    by (cases msg) (simp_all add: spawning_update_def Let_def unviewed_facts unviewed_messages split: option.splits)
  ultimately show ?thesis
    using ev rs by (cases msg)
      (simp_all add: dispatchUpdate_def handleDaemonSessionEvents_def handleDaemonSubscribeReady_def
        handleDaemonSubscribeFailed_def handleDaemonSubscribeEnded_def handleDaemonResyncTick_def unviewed_facts)
qed

lemma no_view_dispatch: "c \<in> set (snd (dispatchUpdate E msg m)) \<Longrightarrow> \<not> is_view c"
proof -
  have rc: "\<forall>c \<in> set (snd (reconnect_if_closed m)). \<not> is_view c" for m
    by (simp add: reconnect_if_closed_def maybeReconnectDaemon_def is_view_def)
  have "\<forall>c \<in> set (snd (board_update E msg m)). \<not> is_view c"
    using rc unviewed_key(2) no_view_agent_view(2) by (cases msg)
      (auto simp: board_update_def handleQuitRequested_def handlePrepareExitResult_def handlePrepareExitFailed_def
        handleSessionKilled_def handleSessionKillFailed_def daemonDisconnected_def handleDaemonReconnectedMsg_def
        Let_def is_view_def split: if_splits reconnect_result.splits)
  moreover have "\<forall>c \<in> set (snd (spawning_update E msg m)). \<not> is_view c"
    by (cases msg) (simp_all add: spawning_update_def)
  moreover have "\<forall>c \<in> set (snd (handleDaemonResyncMsg res m)). \<not> is_view c" for res
    using rc by (auto simp: handleDaemonResyncMsg_def scheduleDaemonResync_def is_view_def Let_def split: sum.splits prod.splits)
      (metis cmd.simps snd_conv)+
  ultimately show "c \<in> set (snd (dispatchUpdate E msg m)) \<Longrightarrow> \<not> is_view c"
    by (cases msg)
      (auto simp: dispatchUpdate_def handleDaemonSessionEvents_def handleDaemonSubscribeReady_def is_view_def
        handleDaemonSubscribeFailed_def handleDaemonSubscribeEnded_def handleDaemonResyncTick_def split: if_splits)
qed

lemma told_Update:
  assumes "md_client m \<noteq> None" "\<not> is_disconnect msg"
  shows "told (snd (Update E msg m)) (believed m) = believed (fst (Update E msg m))"
    "md_viewing (fst (Update E msg m)) = viewing_target (fst (Update E msg m))" "md_client (fst (Update E msg m)) \<noteq> None"
proof -
  obtain m1 cs where d: "dispatchUpdate E msg m = (m1, cs)" by force
  have u: "unviewed m m1" using unviewed_dispatch [OF assms(2), of m E] d by simp
  have c: "md_client m1 \<noteq> None" "believed m1 = believed m" using u assms(1) by (simp_all add: unviewed_def believed_def)
  have n: "told cs V = V" for V using no_view_dispatch [of _ E msg m] d by (intro told_none) simp
  have "fst (Update E msg m) = fst (reconcileViewing m1)" "snd (Update E msg m) = cs @ snd (reconcileViewing m1)"
    by (simp_all add: Update_def d split_beta)
  with told_reconcile [OF c(1)] n c
  show "told (snd (Update E msg m)) (believed m) = believed (fst (Update E msg m))"
    "md_viewing (fst (Update E msg m)) = viewing_target (fst (Update E msg m))" "md_client (fst (Update E msg m)) \<noteq> None"
    by (simp_all add: told_append)
qed

text \<open>While the connection lasts, the viewing reports a board sends, taken in the order issued, leave the daemon
  believing exactly one session viewed, that of the focused pane of the agent view, and none on any other screen.\<close>

theorem viewing_exact:
  assumes "md_client m \<noteq> None" "list_all (\<lambda>msg. \<not> is_disconnect msg) msgs" "md_viewing m = viewing_target m"
  shows "told (snd (updates E msgs m)) ({viewing_target m} - {[]}) = {viewing_target (fst (updates E msgs m))} - {[]}"
proof -
  have "told (snd (updates E msgs m)) (believed m) = believed (fst (updates E msgs m)) \<and>
      md_viewing (fst (updates E msgs m)) = viewing_target (fst (updates E msgs m))"
    using assms
  proof (induction msgs arbitrary: m)
    case (Cons msg msgs)
    have "\<not> is_disconnect msg" using Cons.prems(2) by simp
    note t = told_Update [OF Cons.prems(1) this, of E]
    show ?case using Cons.IH [OF t(3) _ t(2)] Cons.prems(2) t(1) by (simp add: split_beta told_append)
  qed (simp add: told_def)
  with assms(3) show ?thesis by (simp add: believed_def)
qed

section \<open>Examples\<close>

definition wit_ticket :: "string \<Rightarrow> string \<Rightarrow> AgentStatus \<Rightarrow> Ticket" where
  "wit_ticket i title st = (NewTicket 10 i title ''p1'')\<lparr>t_AgentStatus := st\<rparr>"

text \<open>Ticket \<open>t1\<close> has a pane whose session is gone, \<open>t2\<close> a session without a pane, \<open>t3\<close> an agent that completed.\<close>

definition sync_model :: Model where
  "sync_model =
     add_pane (wit_ticket ''t1'' ''one'' AgentIdle) (wit_info ''s1'' ''t1'')
       (wit_model\<lparr>md_tickets :=
          [(''t1'', wit_ticket ''t1'' ''one'' AgentIdle), (''t2'', wit_ticket ''t2'' ''two'' AgentWorking),
           (''t3'', wit_ticket ''t3'' ''three'' AgentCompleted)]\<rparr>)"

lemma sync_model_wf: "ui_wf sync_model"
  unfolding sync_model_def
  by (intro wf_facts) (auto simp: ui_wf_def wit_model_def wit_ticket_def NewTicket_def split: if_splits)

lemma resync_exact_witness:
  "view_of (resync [(''t2'', wit_info ''s2'' ''t2'')] sync_model) ''t1'' = None \<and>
   map_option pv_sessionID (view_of (resync [(''t2'', wit_info ''s2'' ''t2'')] sync_model) ''t2'') = Some ''s2'' \<and>
   \<not> owns (resync [(''t2'', wit_info ''s2'' ''t2'')] sync_model) ''t1''"
proof -
  let ?o = "[(''t2'', wit_info ''s2'' ''t2'')]"
  have o: "mwf ?o" by (simp add: mwf_def)
  have s: "has_pane sync_model ''t1''" "\<not> attached sync_model ''t1''" "\<not> has_pane sync_model ''t2''"
    "map_option pv_sessionID (new_pane ?o sync_model ''t2'') = Some ''s2''"
    by code_simp+
  show ?thesis
    using resync_exact [OF sync_model_wf o, of wit_env "[]" "''t1''"] resync_exact [OF sync_model_wf o, of wit_env "[]" "''t2''"] s
    by (simp add: Let_def)
qed

definition wit_event :: "string \<Rightarrow> string \<Rightarrow> string \<Rightarrow> SessionEvent" where
  "wit_event e i st =
     \<lparr>ev_Event = e, ev_SessionID = ''s3'', ev_TicketID = i, ev_Status = st, ev_Expected = False, ev_Reason = [],
      ev_LastActivityAt = None\<rparr>"

lemma completed_sticky_witness:
  "status_of (fst (updates wit_env
      [MEvents [wit_event ''status'' ''t3'' AgentWorking, wit_event ''exited'' ''t1'' []],
       MStatusPolled [(''t3'', AgentWaiting)], MPaneExit ''t3'' None, MResync (Inr [])] sync_model)) ''t3'' = Some AgentCompleted"
  by (rule completed_sticky [OF sync_model_wf]) (code_simp+)

text \<open>The agent view of \<open>t1\<close>, left.\<close>

definition focus_model :: Model where
  "focus_model = sync_model\<lparr>md_mode := ModeAgentView, md_focusedPane := ''t1'', md_viewing := ''s1''\<rparr>"

lemma viewing_exact_witness:
  "told (snd (updates wit_env [MResyncTick, MExitFocus] focus_model)) {''s1''} = {}"
proof -
  have "md_client focus_model \<noteq> None" "list_all (\<lambda>msg. \<not> is_disconnect msg) [MResyncTick, MExitFocus]"
    "md_viewing focus_model = viewing_target focus_model" "viewing_target focus_model = ''s1''"
    "viewing_target (fst (updates wit_env [MResyncTick, MExitFocus] focus_model)) = []"
    by code_simp+
  then show ?thesis using viewing_exact [of focus_model "[MResyncTick, MExitFocus]" wit_env] by simp
qed

end
