(* ===== verification/UiStartup.thy ===== *)
theory UiStartup
  imports UiSync
begin

text \<open>
  What the board shows when it starts: its panes, the sessions it counts as the daemon's and the agent statuses
  follow the daemon's session list and the status files alone.
\<close>

lemma startup_owned:
  "owns (fold startup_own xs m) i \<longleftrightarrow> mget xs i \<noteq> None \<or> owns m i"
  "md_tickets (fold startup_own xs m) = md_tickets m" "md_panes (fold startup_own xs m) = md_panes m"
  "md_views (fold startup_own xs m) = md_views m"
proof (induction xs arbitrary: m)
  case (Cons p xs)
  obtain j s where p: "p = (j, s)" by force
  {
    case 1
    have "owns (startup_own (j, s) m) i \<longleftrightarrow> j = i \<or> owns m i" by (auto simp: startup_own_def own_def owns_def Let_def)
    with Cons.IH(1) [of "startup_own p m"] show ?case by (auto simp: p)
  next
    case 2
    with Cons.IH(2) show ?case by (simp add: p startup_own_def own_def Let_def)
  next
    case 3
    with Cons.IH(3) show ?case by (simp add: p startup_own_def own_def Let_def)
  next
    case 4
    with Cons.IH(4) show ?case by (simp add: p startup_own_def own_def Let_def)
  }
qed simp_all

definition startup_verdict :: "(string \<Rightarrow> AgentStatus) \<Rightarrow> (TicketID, SessionInfo) gomap \<Rightarrow> Ticket \<Rightarrow> AgentStatus" where
  "startup_verdict read_status owned t =
     (case mget owned (t_ID t) of
        None \<Rightarrow> AgentNone
      | Some s \<Rightarrow> if read_status (i_SessionName s) \<noteq> AgentNone then read_status (i_SessionName s) else t_AgentStatus t)"

lemma startup_one:
  assumes "ui_wf m" "mget (md_tickets m) (t_ID t) = Some t"
  shows "ui_wf (startup_ticket E rd owned t m)"
    "view_of (startup_ticket E rd owned t m) i =
      (if i = t_ID t \<and> mget owned i \<noteq> None then map_option (\<lambda>s. vw_pv (new_view t s)) (mget owned i) else view_of m i)"
    "status_of (startup_ticket E rd owned t m) i = (if i = t_ID t then Some (startup_verdict rd owned t) else status_of m i)"
    "i \<noteq> t_ID t \<Longrightarrow> mget (md_tickets (startup_ticket E rd owned t m)) i = mget (md_tickets m) i"
    "owns (startup_ticket E rd owned t m) i = owns m i"
proof -
  have q: "ui_wf (m'\<lparr>md_saves := x\<rparr>)" if "ui_wf m'" for m' x using that by (rule wf_guard_fields) simp_all
  have w: "ui_wf (startup_status E st t m')" if "ui_wf m'" for st m'
    using that by (simp add: startup_status_def q wf_facts split: prod.splits)
  show "ui_wf (startup_ticket E rd owned t m)"
    using assms(1) by (simp add: startup_ticket_def Let_def w wf_facts split: option.splits)
  have v: "view_of (startup_status E st t m') i = view_of m' i" "owns (startup_status E st t m') i = owns m' i" for st m' i
    by (simp_all add: startup_status_def view_of_def owns_def put_ticket_def split: prod.splits)
  have a: "view_of (add_pane t s m) i = (if i = t_ID t then Some (vw_pv (new_view t s)) else view_of m i)" for s i
  proof (cases "mget (md_panes m) i")
    case (Some r)
    then have "r < length (md_views m)" using assms(1) unfolding ui_wf_def by blast
    with Some show ?thesis by (simp add: view_of_def add_pane_def put_pane_def nth_append)
  qed (simp add: view_of_def add_pane_def put_pane_def)
  show "view_of (startup_ticket E rd owned t m) i =
      (if i = t_ID t \<and> mget owned i \<noteq> None then map_option (\<lambda>s. vw_pv (new_view t s)) (mget owned i) else view_of m i)"
    by (auto simp: startup_ticket_def Let_def v a split: option.splits)
  show "owns (startup_ticket E rd owned t m) i = owns m i"
    by (simp add: startup_ticket_def Let_def v split: option.splits) (simp add: owns_def add_pane_def put_pane_def)
  have s: "status_of (startup_status E st t m') i = (if i = t_ID t then Some st else status_of m' i)"
    if "mget (md_tickets m') (t_ID t) = Some t" for st m'
    using that by (auto simp: startup_status_def SetAgentStatus_def status_of_def put_ticket_def)
  have ap: "md_tickets (add_pane t s m) = md_tickets m" for s by (rule board_frame)
  show "status_of (startup_ticket E rd owned t m) i = (if i = t_ID t then Some (startup_verdict rd owned t) else status_of m i)"
  proof (cases "mget owned (t_ID t)")
    case None
    with s [of m AgentNone, OF assms(2)] show ?thesis by (simp add: startup_ticket_def startup_verdict_def)
  next
    case (Some x)
    have "status_of (add_pane t x m) i = status_of m i" by (simp add: status_of_def ap)
    with Some s [of "add_pane t x m" "rd (i_SessionName x)"] assms(2) show ?thesis
      by (simp add: startup_ticket_def startup_verdict_def Let_def ap) (auto simp: status_of_def)
  qed
  have k: "mget (md_tickets (startup_status E st t m')) i = mget (md_tickets m') i" if "i \<noteq> t_ID t" for st m'
    using that by (simp add: startup_status_def SetAgentStatus_def put_ticket_def)
  show "mget (md_tickets (startup_ticket E rd owned t m)) i = mget (md_tickets m) i" if "i \<noteq> t_ID t"
    using that by (simp add: startup_ticket_def Let_def k ap split: option.splits)
qed

lemma startup_all:
  assumes "ui_wf m" "distinct (map t_ID ts)" "\<And>t. t \<in> set ts \<Longrightarrow> mget (md_tickets m) (t_ID t) = Some t"
  shows "view_of (fold (startup_ticket E rd owned) ts m) i =
      (case find (\<lambda>t. t_ID t = i) ts of
         Some t \<Rightarrow> if mget owned i \<noteq> None then map_option (\<lambda>s. vw_pv (new_view t s)) (mget owned i) else view_of m i
       | None \<Rightarrow> view_of m i) \<and>
    status_of (fold (startup_ticket E rd owned) ts m) i =
      (case find (\<lambda>t. t_ID t = i) ts of Some t \<Rightarrow> Some (startup_verdict rd owned t) | None \<Rightarrow> status_of m i) \<and>
    owns (fold (startup_ticket E rd owned) ts m) i = owns m i"
  using assms
proof (induction ts arbitrary: m)
  case (Cons t ts)
  let ?m1 = "startup_ticket E rd owned t m"
  note o = startup_one [OF Cons.prems(1), where E = E and rd = rd and owned = owned]
  have t: "mget (md_tickets m) (t_ID t) = Some t" using Cons.prems(3) by simp
  have n: "t' \<in> set ts \<Longrightarrow> t_ID t' \<noteq> t_ID t" for t' using Cons.prems(2) by (auto simp: image_iff)
  have "t' \<in> set ts \<Longrightarrow> mget (md_tickets ?m1) (t_ID t') = Some t'" for t'
    using o(4) [OF t n] Cons.prems(3) by simp
  moreover have "distinct (map t_ID ts)" using Cons.prems(2) by simp
  ultimately have IH: "view_of (fold (startup_ticket E rd owned) ts ?m1) i =
      (case find (\<lambda>t. t_ID t = i) ts of
         Some t \<Rightarrow> if mget owned i \<noteq> None then map_option (\<lambda>s. vw_pv (new_view t s)) (mget owned i) else view_of ?m1 i
       | None \<Rightarrow> view_of ?m1 i)"
    "status_of (fold (startup_ticket E rd owned) ts ?m1) i =
      (case find (\<lambda>t. t_ID t = i) ts of Some t \<Rightarrow> Some (startup_verdict rd owned t) | None \<Rightarrow> status_of ?m1 i)"
    "owns (fold (startup_ticket E rd owned) ts ?m1) i = owns ?m1 i"
    using Cons.IH [OF o(1) [OF t]] by blast+
  note o1 = o(2,3,5) [OF t, of i]
  show ?case
  proof (cases "t_ID t = i")
    case True
    then have f: "find (\<lambda>t. t_ID t = i) ts = None" using n by (auto simp: find_None_iff)
    show ?thesis using IH o1 True unfolding f by simp
  next
    case False
    then show ?thesis using IH o1 by (simp split: option.split)
  qed
qed simp

lemma find_ticket:
  assumes "ui_wf m" "mwf (md_tickets m)"
  shows "find (\<lambda>t. t_ID t = i) (map snd (md_tickets m)) = mget (md_tickets m) i"
proof -
  have "find (\<lambda>t. t_ID t = i) (map snd xs) = map_of xs i" if "\<forall>(j, t) \<in> set xs. t_ID t = j" for xs
    using that by (induction xs) auto
  moreover have "\<forall>(j, t) \<in> set (md_tickets m). t_ID t = j"
    using assms by (auto simp: ui_wf_def in_set_mget)
  ultimately show ?thesis by blast
qed

text \<open>At start-up a ticket gets a pane iff the daemon lists a session for it, the board counts exactly the listed
  tickets as the daemon's, and every ticket without a session loses its agent status, while one with a session takes
  the status its file holds, or keeps its own when the file has none.\<close>

theorem startup_exact:
  assumes "ui_wf m0" "mwf (md_tickets m0)" "md_panes m0 = []" "md_daemonOwned m0 = []"
  shows "let m = NewModel E rd wedged owned m0 in
    (has_pane m i \<longleftrightarrow> mget owned i \<noteq> None \<and> mget (md_tickets m0) i \<noteq> None) \<and>
    (owns m i \<longleftrightarrow> mget owned i \<noteq> None) \<and>
    status_of m i = map_option (startup_verdict rd owned) (mget (md_tickets m0) i)"
proof -
  let ?m1 = "fold startup_own owned m0"
  let ?ts = "map snd (md_tickets m0)"
  have w: "ui_wf ?m1" using startup_owned(2-4) assms(1) by (intro wf_guard_fields [OF assms(1)]) simp_all
  have id: "\<forall>(j, t) \<in> set (md_tickets m0). t_ID t = j" using assms(1,2) by (auto simp: ui_wf_def in_set_mget)
  then have "map t_ID ?ts = map fst (md_tickets m0)" by (auto simp: map_eq_conv)
  then have d: "distinct (map t_ID ?ts)" using assms(2) unfolding mwf_def by metis
  have g: "mget (md_tickets ?m1) (t_ID t) = Some t" if "t \<in> set ?ts" for t
    using that id assms(2) by (auto simp: startup_owned(2) in_set_mget [symmetric])
  note a = startup_all [OF w d g, where E = E and rd = rd and owned = owned and i = i, unfolded find_ticket [OF assms(1,2)]]
  have v: "view_of ?m1 i = None" using assms(3) by (simp add: view_of_def startup_owned)
  have s: "status_of ?m1 i = map_option t_AgentStatus (mget (md_tickets m0) i)" by (simp add: status_of_def startup_owned)
  have f: "view_of (m'\<lparr>md_wedged := True\<rparr>) i = view_of m' i" "owns (m'\<lparr>md_wedged := True\<rparr>) i = owns m' i"
    "status_of (m'\<lparr>md_wedged := True\<rparr>) i = status_of m' i" for m'
    by (simp_all add: view_of_def owns_def status_of_def)
  have o: "owns ?m1 i \<longleftrightarrow> mget owned i \<noteq> None" using assms(4) by (simp add: startup_owned) (simp add: owns_def)
  let ?m2 = "fold (startup_ticket E rd owned) ?ts ?m1"
  have m2: "has_pane ?m2 i \<longleftrightarrow> mget owned i \<noteq> None \<and> mget (md_tickets m0) i \<noteq> None"
    "owns ?m2 i \<longleftrightarrow> mget owned i \<noteq> None" "status_of ?m2 i = map_option (startup_verdict rd owned) (mget (md_tickets m0) i)"
    using a v s o by (cases "mget (md_tickets m0) i"; cases "mget owned i"; simp add: has_pane_view)+
  then show ?thesis by (simp add: NewModel_def Let_def has_pane_view f)
qed

lemma startup_exact_witness:
  "status_of (NewModel wit_env (\<lambda>n. AgentWaiting) False [(''t2'', wit_info ''s2'' ''t2'')]
      (wit_model\<lparr>md_tickets :=
        [(''t1'', wit_ticket ''t1'' ''one'' AgentWorking), (''t2'', wit_ticket ''t2'' ''two'' AgentWorking)]\<rparr>
        \<lparr>md_daemonOwned := []\<rparr>)) ''t1'' = Some AgentNone"
proof -
  let ?m = "wit_model\<lparr>md_tickets :=
        [(''t1'', wit_ticket ''t1'' ''one'' AgentWorking), (''t2'', wit_ticket ''t2'' ''two'' AgentWorking)]\<rparr>
        \<lparr>md_daemonOwned := []\<rparr>"
  have h: "ui_wf ?m" "mwf (md_tickets ?m)" "md_panes ?m = []" "md_daemonOwned ?m = []"
    by (auto simp: ui_wf_def mwf_def wit_model_def wit_ticket_def NewTicket_def split: if_splits)
  show ?thesis
    using startup_exact [OF h, of wit_env "\<lambda>n. AgentWaiting" False "[(''t2'', wit_info ''s2'' ''t2'')]" "''t1''"]
    by (simp add: Let_def startup_verdict_def wit_ticket_def NewTicket_def)
qed

end
