(* ===== verification/Leases.thy ===== *)
theory Leases
  imports DaemonSafety
begin

text \<open>
  The daemon as a lease table.  Abstractly the daemon is a partial map from tickets to sessions: a session leases its
  ticket, nobody takes a leased ticket, and a lease ends by being released.  The detailed daemon, with its registry,
  its racing spawns, its kills, watchers and shutdowns, refines it step by step.
\<close>

section \<open>The abstract machine\<close>

type_synonym lease_table = "string \<Rightarrow> sref option"

inductive lease_step :: "lease_table \<Rightarrow> lease_table \<Rightarrow> bool" where
  lease_release: "lease_step L (L(t := None))"
| lease_acquire: "L t = None \<Longrightarrow> r \<notin> ran L \<Longrightarrow> lease_step L (L(t \<mapsto> r))"
| lease_shutdown: "lease_step L (\<lambda>t. None)"

inductive_simps lease_step_iff: "lease_step L L'"

definition owner :: "Server \<Rightarrow> lease_table" where
  "owner s t = reg_findByTicket (tid s) t (sv_reg s)"

definition refs :: "Server \<Rightarrow> sref set" where
  "refs s = snd ` set (sv_reg s)"

section \<open>Reading the table off the registry\<close>

lemma refs_ok: "sv_inv s \<Longrightarrow> r \<in> refs s \<Longrightarrow> r < length (sv_sessions s) \<and> tid s r \<noteq> []"
  by (auto simp: sv_inv_def reg_ok_def refs_def)

lemma owner_iff: "sv_inv s \<Longrightarrow> owner s t = Some r \<longleftrightarrow> t \<noteq> [] \<and> tid s r = t \<and> r \<in> refs s"
proof (cases "t = []")
  case False
  assume inv: "sv_inv s"
  then have o: "sreg.one_per_ticket (tid s) (sv_reg s)" by (simp add: sv_inv_def reg_ok_def)
  then have m: "mwf (sv_reg s)" by (simp add: sreg.one_per_ticket_def)
  have "(\<exists>i. reg_get i (sv_reg s) = Some r) \<longleftrightarrow> r \<in> refs s"
    by (simp add: refs_def reg_get_def in_set_mget [OF m, symmetric]) force
  with findByTicket_iff [OF o False] False show ?thesis by (simp add: owner_def)
qed (simp add: owner_def reg_findByTicket_def)

lemma owner_empty: "owner s [] = None"
  by (simp add: owner_def reg_findByTicket_def)

lemma owner_eqI:
  assumes "sv_inv s" "\<And>t r. L t = Some r \<longleftrightarrow> t \<noteq> [] \<and> tid s r = t \<and> r \<in> refs s"
  shows "owner s = L"
proof
  fix t
  have e: "owner s t = Some r \<longleftrightarrow> L t = Some r" for r unfolding owner_iff [OF assms(1)] assms(2) ..
  show "owner s t = L t"
  proof (cases "L t")
    case None
    with e show ?thesis by (metis option.exhaust)
  next
    case (Some r)
    with e [of r] show ?thesis by simp
  qed
qed

lemma one_ref:
  assumes "sv_inv s" "r \<in> refs s" "q \<in> refs s" "tid s q = tid s r"
  shows "q = r"
proof -
  have "tid s r \<noteq> []" using refs_ok [OF assms(1,2)] by simp
  then have "owner s (tid s r) = Some r" "owner s (tid s r) = Some q" using owner_iff [OF assms(1)] assms by simp_all
  then show ?thesis by simp
qed

text \<open>Three ways a registry changes.\<close>

lemma owner_same:
  assumes "sv_inv s" "sv_inv s'" "refs s' = refs s" "\<And>r. r < length (sv_sessions s) \<Longrightarrow> tid s' r = tid s r"
  shows "owner s' = owner s"
  by (rule owner_eqI [OF assms(2)]) (use owner_iff [OF assms(1)] refs_ok [OF assms(1)] assms(3,4) in auto)

lemma owner_drop:
  assumes "sv_inv s" "sv_inv s'" "refs s' = refs s - {r. tid s r = t}" "\<And>r. r < length (sv_sessions s) \<Longrightarrow> tid s' r = tid s r"
  shows "owner s' = (owner s)(t := None)"
  by (rule owner_eqI [OF assms(2)]) (use owner_iff [OF assms(1)] refs_ok [OF assms(1)] assms(3,4) in auto)

lemma owner_drop_one:
  assumes "sv_inv s" "sv_inv s'" "refs s' = refs s - {r}" "\<And>r. r < length (sv_sessions s) \<Longrightarrow> tid s' r = tid s r"
  shows "\<exists>t. owner s' = (owner s)(t := None)"
proof (cases "r \<in> refs s")
  case True
  have "refs s' = refs s - {q. tid s q = tid s r}" using assms(3) one_ref [OF assms(1) True] by auto
  from owner_drop [OF assms(1,2) this assms(4)] show ?thesis by blast
next
  case False
  with assms have "owner s' = owner s" by (intro owner_same) auto
  then have "owner s' = (owner s)([] := None)" using owner_empty [of s] by auto
  then show ?thesis by blast
qed

lemma owner_ext: "sv_inv s \<Longrightarrow> ext R s s' \<Longrightarrow> owner s' = owner s"
  using inv_ext [of s R s'] ids_nth [of s' s] by (intro owner_same) (auto simp: ext_def refs_def)

section \<open>Steps\<close>

definition leased :: "Server \<Rightarrow> Server \<Rightarrow> bool" where
  "leased s s' \<longleftrightarrow> lease_step (owner s) (owner s')"

lemma leased_same: "owner s' = owner s \<Longrightarrow> leased s s'"
  using lease_release [of "owner s" "[]"] owner_empty [of s] by (simp add: leased_def fun_upd_idem)

lemma leased_ext: "sv_inv s \<Longrightarrow> ext R s s' \<Longrightarrow> leased s s'"
  by (rule leased_same, rule owner_ext)

lemma leased_drop: "\<exists>t. owner s' = (owner s)(t := None) \<Longrightarrow> leased s s'"
  using lease_release [of "owner s"] by (auto simp: leased_def)

lemma leased_right: "leased s s1 \<Longrightarrow> owner s2 = owner s1 \<Longrightarrow> leased s s2"
  by (simp add: leased_def)

lemma leased_left: "owner s1 = owner s \<Longrightarrow> leased s1 s2 \<Longrightarrow> leased s s2"
  by (simp add: leased_def)

text \<open>Deleting entries under their own ids.\<close>

definition keyed :: "Server \<Rightarrow> registry \<Rightarrow> bool" where
  "keyed s reg \<longleftrightarrow> mwf reg \<and> (\<forall>(i, r) \<in> set reg. s_id (sess s r) = i)"

lemma inv_keyed: "sv_inv s \<Longrightarrow> keyed s (sv_reg s)"
  by (auto simp: keyed_def sv_inv_def reg_ok_def sreg.one_per_ticket_def)

lemma keyed_delete:
  assumes "keyed s reg" "mget reg i = Some r"
  shows "snd ` set (mdel i reg) = snd ` set reg - {r}" "keyed s (mdel i reg)"
proof -
  have "(i, r) \<in> set reg" using assms(2) by (rule mget_in_set)
  then have i: "i = s_id (sess s r)" using assms(1) by (auto simp: keyed_def)
  have m: "mwf reg" using assms(1) by (simp add: keyed_def)
  have "k = i \<longleftrightarrow> q = r" if kq: "(k, q) \<in> set reg" for k q
  proof
    assume "k = i"
    then show "q = r" using kq assms(2) in_set_mget [OF m, of k q] by simp
  next
    assume "q = r"
    moreover have "s_id (sess s q) = k" using kq assms(1) unfolding keyed_def by blast
    ultimately show "k = i" using i by simp
  qed
  then have "{p \<in> set reg. fst p \<noteq> i} = {p \<in> set reg. snd p \<noteq> r}" by (metis (mono_tags) prod.collapse)
  then show "snd ` set (mdel i reg) = snd ` set reg - {r}" by (auto simp: set_mdel)
  show "keyed s (mdel i reg)" using assms(1) by (auto simp: keyed_def set_mdel)
qed

lemma keyed_deleteIf:
  assumes "keyed s reg"
  shows "snd ` set (fst (reg_deleteIf (s_id (sess s r)) r reg)) = snd ` set reg - {r}"
    "keyed s (fst (reg_deleteIf (s_id (sess s r)) r reg))"
proof -
  have m: "mwf reg" using assms by (simp add: keyed_def)
  have "(s_id (sess s r), r) \<in> set reg" if "r \<in> snd ` set reg" using that assms by (force simp: keyed_def)
  then have n: "r \<notin> snd ` set reg" if "mget reg (s_id (sess s r)) \<noteq> Some r" using that in_set_mget [OF m] by blast
  with assms keyed_delete [OF assms, of "s_id (sess s r)" r] n
  show "snd ` set (fst (reg_deleteIf (s_id (sess s r)) r reg)) = snd ` set reg - {r}"
    "keyed s (fst (reg_deleteIf (s_id (sess s r)) r reg))"
    by (auto simp: reg_deleteIf_def)
qed

lemma keyed_fold:
  "keyed s (sv_reg s) \<Longrightarrow>
    refs (fold (\<lambda>m s. s\<lparr>sv_reg := fst (reg_deleteIf (s_id (sess s m)) m (sv_reg s))\<rparr>) ms s) = refs s - set ms"
proof (induction ms arbitrary: s)
  case (Cons m ms)
  let ?s = "s\<lparr>sv_reg := fst (reg_deleteIf (s_id (sess s m)) m (sv_reg s))\<rparr>"
  have "keyed ?s (sv_reg ?s)" using keyed_deleteIf(2) [OF Cons.prems, of m] by (simp add: keyed_def)
  from Cons.IH [OF this] keyed_deleteIf(1) [OF Cons.prems, of m] show ?case by (auto simp: refs_def)
qed simp

lemma fold_deleteIf_sessions:
  "sv_sessions (fold (\<lambda>m s. s\<lparr>sv_reg := fst (reg_deleteIf (s_id (sess s m)) m (sv_reg s))\<rparr>) ms s) = sv_sessions s"
  by (induction ms arbitrary: s) simp_all

lemma owner_cong: "sv_reg s' = sv_reg s \<Longrightarrow> ids s' = ids s \<Longrightarrow> sv_inv s \<Longrightarrow> sv_inv s' \<Longrightarrow> owner s' = owner s"
  using ids_nth [of s' s] by (intro owner_same) (auto simp: refs_def)

subsection \<open>Requests\<close>

lemma leased_Kill: "sv_inv s \<Longrightarrow> leased s (handleKill i g s)"
proof (cases "reg_get i (sv_reg s)")
  case None
  then show ?thesis by (simp add: handleKill_def leased_same)
next
  case (Some r)
  assume inv: "sv_inv s"
  have "refs (handleKill i g s) = refs s - {r}"
    using keyed_delete(1) [OF inv_keyed [OF inv]] Some by (simp add: handleKill_def trackedKill_def refs_def reg_delete_def reg_get_def)
  then show ?thesis
    using inv inv_Kill [OF inv, of i g] Some
    by (intro leased_drop owner_drop_one) (auto simp: handleKill_def trackedKill_def)
qed

lemma leased_TicketDone: "sv_inv s \<Longrightarrow> leased s (fst (handleTicketDone t s))"
proof (cases "t = []")
  case True
  then show ?thesis by (simp add: handleTicketDone_def leased_same)
next
  case False
  assume inv: "sv_inv s"
  define ms where "ms = filter (\<lambda>r. tid s r = t) (map snd (sv_reg s))"
  define s1 where "s1 = fold (\<lambda>m s. s\<lparr>sv_reg := fst (reg_deleteIf (s_id (sess s m)) m (sv_reg s))\<rparr>) ms s"
  have sess: "sv_sessions s1 = sv_sessions s" unfolding s1_def by (rule fold_deleteIf_sessions)
  have ms: "set ms = refs s \<inter> {r. tid s r = t}" by (auto simp: ms_def refs_def)
  have r1: "refs s1 = refs s - {r. tid s r = t}" unfolding s1_def keyed_fold [OF inv_keyed [OF inv]] ms by auto
  obtain xs where xs: "fold (\<lambda>m s. trackedKill m shutdownGraceSeconds (put_session m (MarkExpectedCompletion (sess s m)) s)) ms s1 =
      s1\<lparr>sv_sessions := xs, sv_inflightKills := sv_inflightKills s1 + int (length ms),
        sv_kills := sv_kills s1 @ map (\<lambda>m. (m, shutdownGraceSeconds, False)) ms\<rparr>" "map lv xs = map lv (sv_sessions s1)"
    using mark_kill_fields [of shutdownGraceSeconds ms s1] by blast
  have e: "fst (handleTicketDone t s) = (if ms = [] then s1
      else fold (\<lambda>m s. trackedKill m shutdownGraceSeconds (put_session m (MarkExpectedCompletion (sess s m)) s)) ms s1)"
    using False unfolding handleTicketDone_def Let_def ms_def [symmetric] s1_def [symmetric] by (cases ms) simp_all
  have r: "refs (fst (handleTicketDone t s)) = refs s - {r. tid s r = t}" using r1 by (simp add: e xs(1)) (simp add: refs_def)
  have l: "map lv (sv_sessions (fst (handleTicketDone t s))) = map lv (sv_sessions s)" using xs sess by (simp add: e)
  have "tid (fst (handleTicketDone t s)) q = tid s q" if "q < length (sv_sessions s)" for q
  proof -
    have "lv (sess (fst (handleTicketDone t s)) q) = lv (sess s q)" using l that by (metis length_map nth_map)
    then show ?thesis by (simp add: lv_def)
  qed
  from owner_drop [OF inv inv_TicketDone [OF inv] r this] show ?thesis by (intro leased_drop) blast
qed

lemma leased_empty: "sv_inv s' \<Longrightarrow> sv_reg s' = [] \<Longrightarrow> leased s s'"
proof -
  assume "sv_inv s'" "sv_reg s' = []"
  then have "owner s' = (\<lambda>t. None)" by (intro owner_eqI) (auto simp: refs_def)
  then show "leased s s'" by (simp add: leased_def lease_shutdown)
qed

lemma ext_short: "(\<And>u. ext {} u (fst (h u))) \<Longrightarrow> ext {} s (short timely name k h s)"
proof -
  assume h: "\<And>u. ext {} u (fst (h u))"
  let ?u = "s\<lparr>sv_shortInflight := sv_shortInflight s + 1\<rparr>"
  have a: "ext {} s ?u" by (rule ext_other) simp_all
  have b: "ext {} (fst (h ?u)) ((fst (h ?u))\<lparr>sv_shortInflight := sv_shortInflight (fst (h ?u)) - 1\<rparr>)"
    by (rule ext_other) simp_all
  from ext_trans0 [OF ext_trans0 [OF ext_trans0 [OF a h] b] ext_conn(3)] show ?thesis by (simp add: short_def split_beta)
qed

lemma leased_short:
  assumes "sv_inv s" "\<And>u. sv_inv u \<Longrightarrow> leased u (fst (h u))" "\<And>u. sv_inv u \<Longrightarrow> sv_inv (fst (h u))"
  shows "leased s (short timely name k h s)"
proof -
  let ?u = "s\<lparr>sv_shortInflight := sv_shortInflight s + 1\<rparr>"
  have a: "ext {} s ?u" by (rule ext_other) simp_all
  have u: "sv_inv ?u" by (rule inv_ext [OF assms(1) a])
  have b: "ext {} (fst (h ?u)) (short timely name k h s)"
    using ext_trans0 [OF _ ext_conn(3), of "{}" "fst (h ?u)" "(fst (h ?u))\<lparr>sv_shortInflight := sv_shortInflight (fst (h ?u)) - 1\<rparr>"]
      ext_other [of "(fst (h ?u))\<lparr>sv_shortInflight := sv_shortInflight (fst (h ?u)) - 1\<rparr>" "fst (h ?u)"]
    by (simp add: short_def split_beta)
  from leased_left [OF owner_ext [OF assms(1) a] leased_right [OF assms(2) [OF u] owner_ext [OF assms(3) [OF u] b]]] show ?thesis .
qed

lemma leased_dispatch_body:
  assumes "dispatch_body E k req s = Some (s', b)" "sv_inv s" "\<And>q. req \<noteq> SpawnReqM (Inr q)"
  shows "leased s s'"
proof -
  note E = leased_ext [OF assms(2), of "{}"]
  have bad: "leased s (bad_request k e s)" "leased s (writeError k c m s)" for e c m
    using E ext_handlers(6) ext_conn(4) by blast+
  have prep: "ext {} u (fst (case handlePrepareExit k u of (s1, r) \<Rightarrow> (s1, PrepareExitRespM r)))" for u
    using ext_handlers(4) [of u k] by (cases "handlePrepareExit k u") simp
  have sh: "leased s (short timely n k h s)" if "\<And>u. ext {} u (fst (h u))" for timely n h
    using E ext_short [of h, OF that] by blast
  show ?thesis
  proof (cases req)
    case (HelloReq x)
    with assms bad show ?thesis by (cases x) (auto simp: dispatch_body_def intro!: sh ext_handlers)
  next
    case (SpawnReqM x)
    with assms bad show ?thesis by (cases x) (auto simp: dispatch_body_def)
  next
    case ListReq
    with assms show ?thesis by (auto simp: dispatch_body_def intro!: sh)
  next
    case (KillReq x)
    with assms bad show ?thesis by (cases x) (auto simp: dispatch_body_def intro!: leased_short leased_Kill inv_Kill)
  next
    case (TicketDoneReq x)
    with assms bad show ?thesis by (cases x) (auto simp: dispatch_body_def intro!: leased_short leased_TicketDone inv_TicketDone)
  next
    case (OwnsReq x)
    with assms bad show ?thesis by (cases x) (auto simp: dispatch_body_def intro!: sh)
  next
    case SubscribeReq
    with assms show ?thesis by (auto simp: dispatch_body_def intro!: sh ext_handlers)
  next
    case PrepareExitReq
    with assms prep show ?thesis by (auto simp: dispatch_body_def intro!: sh)
  next
    case CancelExitReq
    with assms show ?thesis by (auto simp: dispatch_body_def intro!: sh ext_handlers)
  next
    case (ShutdownReq f)
    have "sv_reg (fst (handleShutdown s)) = []"
      using ext_kill_all [of "map snd (sv_reg s)" "s\<lparr>sv_reg := []\<rparr>" shutdownGraceSeconds]
      by (simp add: handleShutdown_def reg_drain_def ext_def Let_def)
    then have l: "leased s (fst (handleShutdown s))" by (rule leased_empty [OF inv_Shutdown [OF assms(2)]])
    have "leased s (writeResp k r (fst (handleShutdown s)))" for r
      by (rule leased_right [OF l owner_ext [OF inv_Shutdown [OF assms(2)] ext_conn(3)]])
    with assms ShutdownReq show ?thesis by (auto simp: dispatch_body_def split: prod.splits)
  next
    case (AttachReq x)
    with assms bad show ?thesis by (cases x) (auto simp: dispatch_body_def intro: E dest: ext_Attach)
  next
    case (PeekReq x)
    show ?thesis
    proof (cases x)
      case (Inl e)
      with assms bad PeekReq show ?thesis by (auto simp: dispatch_body_def)
    next
      case (Inr i)
      let ?u = "s\<lparr>sv_shortInflight := sv_shortInflight s + 1\<rparr>"
      let ?s1 = "handlePeek (d_snap E) k i ?u"
      let ?s2 = "?s1\<lparr>sv_shortInflight := sv_shortInflight ?s1 - 1\<rparr>"
      have "ext {} s ?u" "ext {} ?s1 ?s2" by (rule ext_other, simp_all)+
      then have "ext {} s ?s2" using ext_Peek ext_trans0 by meson
      then have "leased s ?s2" "leased s (writeError k c m ?s2)" for c m
        using E ext_conn(4) ext_trans0 by blast+
      with assms PeekReq Inr show ?thesis by (auto simp: dispatch_body_def Let_def)
    qed
  next
    case (SetViewingReq x)
    with assms bad show ?thesis by (cases x) (auto simp: dispatch_body_def intro!: sh ext_SetViewing)
  next
    case HealthReq
    with assms show ?thesis by (auto simp: dispatch_body_def intro!: sh)
  next
    case (UnknownReq t)
    with assms bad show ?thesis by (auto simp: dispatch_body_def)
  qed
qed

lemma leased_dispatch:
  assumes "dispatch E k req s = Some s'" "sv_inv s" "\<And>q. req \<noteq> SpawnReqM (Inr q)"
  shows "leased s s'"
proof -
  let ?u = "s\<lparr>sv_inflight := sv_inflight s + 1\<rparr>"
  have a: "ext {} s ?u" by (rule ext_other) simp_all
  have u: "sv_inv ?u" by (rule inv_ext [OF assms(2) a])
  obtain s1 b where d: "dispatch_body E k req ?u = Some (s1, b)" "s' = (if b then s1 else finish_dispatch s1)"
    using assms(1) by (auto simp: dispatch_def split: option.splits)
  have "sv_inv s1" by (rule inv_dispatch_body [OF d(1) u assms(3)])
  then have "owner s' = owner s1" using owner_ext [OF _ ext_handlers(5)] d(2) by simp
  from leased_left [OF owner_ext [OF assms(2) a] leased_right [OF leased_dispatch_body [OF d(1) u assms(3)] this]] show ?thesis .
qed

subsection \<open>Spawns, watchers, exit\<close>

lemma owner_spawns [simp]: "owner (s\<lparr>sv_spawns := gs\<rparr>) = owner s"
  by (simp add: owner_def fun_eq_iff)

lemma owner_set_pc [simp]: "owner (set_pc i pc s) = owner s"
  by (simp add: set_pc_def)

lemma leased_delete:
  assumes "sv_inv s" "sv_inv s'" "ext R (s\<lparr>sv_reg := fst (reg_deleteIf (s_id (sess s r)) r (sv_reg s)), sv_watchers := ws\<rparr>) s'"
  shows "leased s s'"
proof (rule leased_drop, rule owner_drop_one [OF assms(1,2)])
  let ?b = "s\<lparr>sv_reg := fst (reg_deleteIf (s_id (sess s r)) r (sv_reg s)), sv_watchers := ws\<rparr>"
  have i: "ids s' = ids s" "sv_reg s' = sv_reg ?b" using assms(3) by (simp_all add: ext_def) (simp add: ids_def)
  then show "refs s' = refs s - {r}" using keyed_deleteIf(1) [OF inv_keyed [OF assms(1)], of r] by (simp add: refs_def)
  show "q < length (sv_sessions s) \<Longrightarrow> tid s' q = tid s q" for q using ids_nth [OF i(1)] by blast
qed

lemma leased_store:
  assumes inv: "sv_inv s" and i: "i < length (sv_spawns s)" and pc: "g_pc (sv_spawns s ! i) = AtStore r"
    and st: "reg_storeIfNoTicket (tid s) (sp_TicketID (g_req (sv_spawns s ! i))) (s_id (sess s r)) r (sv_reg s) = (m, w, True)"
  shows "leased s (set_pc i (AtRecheck r) (s\<lparr>sv_reg := m\<rparr>))"
proof -
  let ?t = "tid s r" and ?s' = "set_pc i (AtRecheck r) (s\<lparr>sv_reg := m\<rparr>)"
  have "spawn_ok s (sv_spawns s ! i)" using inv i by (simp add: sv_inv_def)
  then have r: "r < length (sv_sessions s)" "tid s r = sp_TicketID (g_req (sv_spawns s ! i))" "?t \<noteq> []"
    using pc by (auto simp: spawn_ok_def)
  have free: "find_ticket (tid s) ?t (sv_reg s) = None" and m: "m = mput (s_id (sess s r)) r (sv_reg s)"
    using st r(2,3) by (auto simp: reg_storeIfNoTicket_def split: option.splits)
  have o: "owner s ?t = None" by (simp add: owner_def reg_findByTicket_def free)
  have n: "q \<notin> refs s" if "tid s q = ?t" for q using o owner_iff [OF inv, of ?t q] that r(3) by auto
  have reg: "mwf (sv_reg s)" "\<forall>(k, q) \<in> set (sv_reg s). q < length (sv_sessions s) \<and> s_id (sess s q) = k"
    using inv by (auto simp: sv_inv_def reg_ok_def sreg.one_per_ticket_def)
  have "distinct (map s_id (sv_sessions s))" using inv by (simp add: sv_inv_def)
  then have u: "q = r" if "q < length (sv_sessions s)" "s_id (sess s q) = s_id (sess s r)" for q
    using that r(1) nth_eq_iff_index_eq [of "map s_id (sv_sessions s)" q r] by simp
  have k: "k \<noteq> s_id (sess s r)" if "(k, q) \<in> set (sv_reg s)" for k q
  proof
    assume "k = s_id (sess s r)"
    with that reg(2) u have "q = r" by blast
    with that n [of r] show False by (force simp: refs_def)
  qed
  have refs: "refs ?s' = insert r (refs s)"
    using k by (force simp: refs_def m set_mput [OF reg(1)] set_pc_def)
  have inv': "sv_inv ?s'" by (rule inv_spawn_stored [OF inv i pc st])
  have t: "tid ?s' q = tid s q" for q by (simp add: set_pc_def)
  have "owner ?s' = (owner s)(?t \<mapsto> r)"
  proof (rule owner_eqI [OF inv'])
    show "((owner s)(?t \<mapsto> r)) t' = Some q \<longleftrightarrow> t' \<noteq> [] \<and> tid ?s' q = t' \<and> q \<in> refs ?s'" for t' q
      using owner_iff [OF inv, of t' q] n [of q] r(3) by (auto simp: refs t)
  qed
  moreover have "r \<notin> ran (owner s)" using n [of r] owner_iff [OF inv] by (auto simp: ran_def)
  ultimately show ?thesis using lease_acquire [of "owner s" ?t r] o by (simp add: leased_def del: owner_set_pc)
qed

lemma leased_spawn_turn:
  assumes inv: "sv_inv s" and i: "i < length (sv_spawns s)" and env: "g_pc (sv_spawns s ! i) = AtNew \<Longrightarrow> env_ok E s"
    and t: "spawn_turn E (g_req (sv_spawns s ! i)) (g_pc (sv_spawns s ! i)) s = Some (s', pc)"
  shows "leased s (set_pc i pc s')"
proof -
  note inv' = inv_spawn_turn [OF inv i env t, THEN conjunct1]
  have same: "leased s (set_pc i pc s')" if "ext R s s'" for R
    using owner_ext [OF inv that] by (intro leased_same) simp
  have idle: "leased s (set_pc i pc s)" by (rule leased_same) simp
  show ?thesis
  proof (cases "g_pc (sv_spawns s ! i)")
    case AtGate
    with t idle show ?thesis by (simp add: spawn_turn_def)
  next
    case AtFast
    with t idle show ?thesis by (simp add: spawn_turn_def)
  next
    case AtNew
    then obtain x where "s' = s \<or> s' = s\<lparr>sv_sessions := sv_sessions s @ [x]\<rparr>"
      using t by (auto simp: spawn_turn_def spawn_new_def split: option.splits sum.splits)
    then have "owner (set_pc i pc s') = owner s"
      using inv inv' by (intro owner_same) (auto simp: refs_def set_pc_def nth_append)
    then show ?thesis by (rule leased_same)
  next
    case (AtStore r)
    obtain m w b where st: "reg_storeIfNoTicket (tid s) (sp_TicketID (g_req (sv_spawns s ! i))) (s_id (sess s r)) r (sv_reg s) = (m, w, b)"
      by (metis prod_cases3)
    show ?thesis
    proof (cases b)
      case True
      with t AtStore st have "s' = s\<lparr>sv_reg := m\<rparr>" "pc = AtRecheck r" by (simp_all add: spawn_turn_def spawn_store_def)
      with leased_store [OF inv i AtStore] st True show ?thesis by simp
    next
      case False
      with t AtStore st have "s' = kill_session r 0 s" by (auto simp: spawn_turn_def spawn_store_def)
      then show ?thesis using ext_kill_session same by metis
    qed
  next
    case (AtRecheck r)
    show ?thesis
    proof (cases "sv_shutdown s")
      case True
      with t AtRecheck have s: "s' = kill_session r 0 (s\<lparr>sv_reg := fst (reg_deleteIf (s_id (sess s r)) r (sv_reg s))\<rparr>)"
        by (auto simp: spawn_turn_def spawn_recheck_def)
      have i': "sv_inv s'" unfolding s by (rule inv_delete_kill [OF inv])
      have "s\<lparr>sv_reg := x, sv_watchers := sv_watchers s\<rparr> = s\<lparr>sv_reg := x\<rparr>" for x by simp
      then have "leased s s'" using leased_delete [OF inv i', where R = "{r}" and r = r and ws = "sv_watchers s"] ext_kill_session s by simp
      then show ?thesis by (rule leased_right) simp
    next
      case False
      with t AtRecheck idle show ?thesis by (simp add: spawn_turn_def spawn_recheck_def)
    qed
  next
    case (AtWatch r)
    with t show ?thesis using ext_watchSessionExit same by (auto simp: spawn_turn_def)
  next
    case (AtEmit r)
    with t show ?thesis using ext_conn(5) same by (auto simp: spawn_turn_def spawn_emit_def)
  next
    case (Returned res)
    with t idle show ?thesis by (simp add: spawn_turn_def)
  qed
qed

lemma leased_watch_finish:
  assumes "sv_inv s" "watch_finish i s = Some s'"
  shows "leased s s'"
proof -
  obtain r ch where i: "sv_watchers s ! i = (r, ch)" by force
  let ?ws = "take i (sv_watchers s) @ drop (Suc i) (sv_watchers s)"
  let ?b = "s\<lparr>sv_reg := fst (reg_deleteIf (s_id (sess s r)) r (sv_reg s)), sv_watchers := ?ws\<rparr>"
  let ?s3 = "kill_session r 0 (emitEvent (exited_event (sess ?b r)) ?b)"
  obtain p where p: "cancel ch (s_pane (sess ?s3 r)) = Some p" "s' = put_session r ((sess ?s3 r)\<lparr>s_pane := p\<rparr>) ?s3"
    using assms(2) i by (auto simp: watch_finish_def Let_def)
  have "ext {} ?s3 s'" unfolding p(2) by (rule ext_put_session, rule lv_pane, rule life_cancel [OF p(1)])
  moreover have "ext {r} ?b ?s3" using ext_trans [OF ext_conn(5) ext_kill_session] by simp
  ultimately have "ext {r} ?b s'" using ext_trans0 by blast
  from leased_delete [OF assms(1) inv_watch_finish [OF assms] this] show ?thesis .
qed

lemma leased_watch_turn:
  assumes "sv_inv s" "watch_turn i s = Some (Some s')"
  shows "leased s s'"
proof -
  obtain r ch where i: "sv_watchers s ! i = (r, ch)" by force
  obtain ev p where e: "recv ch (s_pane (sess s r)) = Some (ev, p)"
    using assms(2) i by (auto simp: watch_turn_def split: option.splits)
  let ?u = "put_session r ((sess s r)\<lparr>s_pane := p\<rparr>) s"
  have x: "ext {} s ?u" by (rule ext_put_session, rule lv_pane, rule life_recv [OF e])
  have "s' = ?u \<or> watch_finish i ?u = Some s'"
    using assms(2) i e by (auto simp: watch_turn_def Let_def split: option.splits event.splits)
  then show ?thesis
  proof
    assume "s' = ?u"
    then show ?thesis using leased_ext [OF assms(1) x] by simp
  next
    assume "watch_finish i ?u = Some s'"
    from leased_left [OF owner_ext [OF assms(1) x] leased_watch_finish [OF inv_ext [OF assms(1) x] this]] show ?thesis .
  qed
qed

lemma leased_exit: "sv_inv s \<Longrightarrow> e = Exited \<longrightarrow> sv_shutdown s \<Longrightarrow> leased s (serve_exit e s)"
proof (rule leased_empty)
  have "ext (set (map snd (sv_reg s))) ((closeClientConns s)\<lparr>sv_reg := []\<rparr>)
      (fold (\<lambda>x. kill_session x shutdownGraceSeconds) (map snd (sv_reg s)) ((closeClientConns s)\<lparr>sv_reg := []\<rparr>))"
    by (rule ext_kill_all)
  then show "sv_reg (serve_exit e s) = []" by (simp add: serve_exit_eq ext_def)
qed (rule inv_serve_exit)

text \<open>A kill in flight keeps the table: its session left the registry when the kill was asked for.\<close>

lemma owner_kills:
  assumes "sv_inv s" "i < length (sv_kills s)"
  shows "owner (kill_timeout i s) = owner s" "owner (kill_done i s) = owner s"
proof -
  show "owner (kill_timeout i s) = owner s"
    by (simp add: kill_timeout_def owner_def fun_eq_iff split: prod.splits)
  obtain r g late where k: "sv_kills s ! i = (r, g, late)" by (metis prod_cases3)
  have "ids (kill_session r g s) = ids s" using ext_kill_session by (simp add: ext_def)
  then have "ids (kill_done i s) = ids s" by (simp add: kill_done_def k Let_def ids_def)
  moreover have "sv_reg (kill_done i s) = sv_reg s" by (simp add: kill_done_def k Let_def)
  ultimately show "owner (kill_done i s) = owner s" using inv_kill_done [OF assms] assms(1) by (intro owner_cong) simp_all
qed

section \<open>The refinement\<close>

lemma leased_step: "sv_step s s' \<Longrightarrow> sv_inv s \<Longrightarrow> leased s s'"
proof (induction rule: sv_step.induct)
  case (st_accept s) then show ?case using leased_ext ext_accept by blast
next
  case (st_disconnect k s) then show ?case using leased_ext ext_disconnect by blast
next
  case (st_request req E k s s') then show ?case using leased_dispatch by blast
next
  case (st_spawn s k q) then show ?case by (intro leased_same) (simp add: spawn_start_def owner_def fun_eq_iff)
next
  case (st_spawn_turn i s E s' pc)
  have "set_pc i pc s' = s'\<lparr>sv_spawns := (sv_spawns s')[i := (sv_spawns s ! i)\<lparr>g_pc := pc\<rparr>]\<rparr>"
    using inv_spawn_turn [OF st_spawn_turn(4,1-3)] by (simp add: set_pc_def)
  with leased_spawn_turn [OF st_spawn_turn(4,1-3)] show ?case by simp
next
  case (st_spawn_end i s res timely)
  have "sv_reg (spawn_end i res timely s) = sv_reg s" "sv_sessions (spawn_end i res timely s) = sv_sessions s"
    by (simp_all add: spawn_end_def finish_dispatch_def writeResp_def write_out_def put_conn_def Let_def)
  then show ?case by (intro leased_same) (simp add: owner_def fun_eq_iff)
next
  case (st_kill_timeout i s) then show ?case by (intro leased_same owner_kills)
next
  case (st_kill_done i s) then show ?case by (intro leased_same owner_kills)
next
  case (st_watch i s s') then show ?case using leased_watch_turn by blast
next
  case (st_attach_end n s s') then show ?case using leased_ext ext_attach_return by blast
next
  case (st_session r s a L x) then show ?case using leased_ext ext_put_session lv_session_do by blast
next
  case (st_drain i s) then show ?case using leased_ext ext_drain by blast
next
  case (st_stop s)
  have "ext {} s (s\<lparr>sv_stops := sv_stops s - 1\<rparr>)" by (rule ext_other) simp_all
  with st_stop show ?case using leased_ext ext_trans0 ext_shutdown by blast
next
  case (st_cancel s) then show ?case using leased_ext ext_shutdown by blast
next
  case (st_stale s stale) then show ?case using leased_ext ext_stale by blast
next
  case (st_event s) then show ?case using leased_ext ext_event by blast
next
  case (st_activity s detect grid now lastSeen stuckSeen) then show ?case using leased_ext ext_activity by blast
next
  case (st_watchdog s now mon) then show ?case using leased_ext ext_watchdog by blast
next
  case (st_exit s) then show ?case by (intro leased_exit) simp_all
next
  case (st_accept_error s) then show ?case by (intro leased_exit) simp_all
qed


text \<open>The session of one client's spawn, killed by request.\<close>

definition leased_one :: Server where
  "leased_one = the (sv_run ([Accept, SpawnStart 0 example_req] @ spawn_acts 0 (example_env ''a'' 71)) (NewServer False 1))"

lemma leased_one: "sv_reach leased_one"
  unfolding leased_one_def by (rule run_reach) code_simp


end
