(* ===== verification/AgentView.thy ===== *)
theory AgentView
  imports UiSync
begin

text \<open>
  Two properties of the agent view's modals: cycling walks the open sessions in a circle, and the takeover warning
  outlives the focus it was raised for.
\<close>

section \<open>Cycling\<close>

definition cycle_key :: "bool \<Rightarrow> ui_msg" where
  "cycle_key fwd = MKey (if fwd then ''ctrl+]'' else ctrl_backslash)"

definition step_of :: "bool \<Rightarrow> int" where
  "step_of fwd = (if fwd then 1 else -1)"

lemma first_index_nth: "distinct xs \<Longrightarrow> k < length xs \<Longrightarrow> first_index (xs ! k) xs = Some k"
proof (induction xs arbitrary: k)
  case (Cons x xs)
  then show ?case by (cases k) (auto simp: nth_mem)
qed simp

lemma pv_SetSize_state: "pv_state (fst (pv_SetSize c x y p)) = pv_state p"
  by (simp add: pv_SetSize_def)

lemma resize_state: "pv_state (vw_pv (resize_view c x y w)) = pv_state (vw_pv w)"
  using pv_SetSize_state [of c x y "vw_pv w"]
  by (auto simp: resize_view_def split: prod.splits option.splits)

lemma open_resized: "is_open (on_view (Some \<circ> resize_view c x y) r m) i = is_open m i"
proof -
  let ?vs = "md_views m"
  have "pv_state (vw_pv (?vs[r := resize_view c x y (?vs ! r)] ! r')) = pv_state (vw_pv (?vs ! r'))" for r'
    by (cases "r < length ?vs") (simp_all add: list_update_beyond nth_list_update resize_state)
  then show ?thesis by (simp add: is_open_def view_of_def on_view_def split: option.split)
qed

lemma open_fields: "is_open (m\<lparr>md_focusedPane := f\<rparr>) i = is_open m i" "is_open (m\<lparr>md_cycleAttachPrompt := b\<rparr>) i = is_open m i"
  "is_open (fst (reconcileViewing m)) i = is_open m i"
proof -
  have "md_panes (fst (reconcileViewing m)) = md_panes m" "md_views (fst (reconcileViewing m)) = md_views m"
    by (simp_all add: reconcileViewing_def Let_def)
  then show "is_open (fst (reconcileViewing m)) i = is_open m i" by (simp add: is_open_def view_of_def)
qed (simp_all add: is_open_def view_of_def)

lemma focus_prompt:
  assumes "m' = fst (focusAndPromptAttach target m)"
  shows "md_focusedPane m' = target" "md_mode m' = md_mode m" "md_takeoverPrompt m' = md_takeoverPrompt m"
    "all_open m' = all_open m" "md_cycleAttachPrompt m'"
proof -
  have o: "is_open m' i = is_open m i" for i
    using open_resized [of "md_clientID m" "md_width m" "md_height m - 2" _ "m\<lparr>md_focusedPane := target\<rparr>" i]
    by (simp add: assms focusAndPromptAttach_def Let_def open_fields split: option.split)
  have f: "md_columnTickets m' = md_columnTickets m" "md_focusedPane m' = target" "md_mode m' = md_mode m"
    "md_takeoverPrompt m' = md_takeoverPrompt m" "md_cycleAttachPrompt m'"
    by (simp_all add: assms focusAndPromptAttach_def on_view_def Let_def split: option.split)
  have "is_open m' = is_open m" using o by (rule ext)
  with f show "md_focusedPane m' = target" "md_mode m' = md_mode m" "md_takeoverPrompt m' = md_takeoverPrompt m"
    "all_open m' = all_open m" "md_cycleAttachPrompt m'"
    by (simp_all add: all_open_def)
qed

lemma reconcile_open: "all_open (fst (reconcileViewing m)) = all_open m" "md_focusedPane (fst (reconcileViewing m)) = md_focusedPane m"
  "md_takeoverPrompt (fst (reconcileViewing m)) = md_takeoverPrompt m"
proof -
  have "is_open (fst (reconcileViewing m)) = is_open m" by (rule ext) (rule open_fields)
  moreover have "md_columnTickets (fst (reconcileViewing m)) = md_columnTickets m" by (simp add: reconcileViewing_def Let_def)
  ultimately show "all_open (fst (reconcileViewing m)) = all_open m" by (simp add: all_open_def)
qed (simp_all add: reconcileViewing_def Let_def)

lemma cycle_press:
  assumes "md_mode m = ModeAgentView" "\<not> md_takeoverPrompt m" "distinct (all_open m)" "2 \<le> length (all_open m)"
    "k < length (all_open m)" "md_focusedPane m = all_open m ! k" "m' = fst (Update E (cycle_key fwd) m)"
  shows "md_mode m' = ModeAgentView" "\<not> md_takeoverPrompt m'" "all_open m' = all_open m"
    "md_focusedPane m' = all_open m ! nat ((int k + step_of fwd) mod int (length (all_open m)))"
proof -
  let ?n = "int (length (all_open m))"
  let ?t = "all_open m ! nat ((int k + step_of fwd) mod ?n)"
  have "md_focusedPane m \<in> set (all_open m)" using assms(5,6) by simp
  then have p: "mget (md_panes m) (md_focusedPane m) \<noteq> None"
    by (auto simp: all_open_def is_open_def view_of_def split: option.splits)
  have i: "first_index (md_focusedPane m) (all_open m) = Some k" unfolding assms(6) by (rule first_index_nth [OF assms(3,5)])
  have "(int k + d + ?n) mod ?n = (int k + d) mod ?n" for d by simp
  then have c: "cycleUnattachedSession (step_of fwd) m = focusAndPromptAttach ?t m"
    using assms(4) i by (simp add: cycleUnattachedSession_def step_of_def Let_def)
  have "handleAgentViewMode (if fwd then ''ctrl+]'' else ctrl_backslash) m = cycleUnattachedSession (step_of fwd) m"
    using assms(2) p by (auto simp: handleAgentViewMode_def handleCycleAttachPromptKey_def step_of_def ctrl_backslash_def)
  then have "dispatchUpdate E (cycle_key fwd) m = focusAndPromptAttach ?t m"
    using assms(1) c by (auto simp: cycle_key_def dispatchUpdate_def board_update_def handleKey_def ctrl_backslash_def)
  then have "m' = fst (reconcileViewing (fst (focusAndPromptAttach ?t m)))" by (simp add: assms(7) Update_def split_beta)
  with focus_prompt [OF refl, of ?t m] assms(1,2)
  show "md_mode m' = ModeAgentView" "\<not> md_takeoverPrompt m'" "all_open m' = all_open m" "md_focusedPane m' = ?t"
    by (simp_all add: reconcile_open reconcile_keeps)
qed

text \<open>In the agent view the two cycling keys walk the open sessions, in board order, in a circle: after any
  sequence of presses the focus is the start moved by their balance, so every open session is reached and a press
  each way returns.\<close>

theorem cycle_walks:
  assumes "md_mode m = ModeAgentView" "\<not> md_takeoverPrompt m" "distinct (all_open m)" "2 \<le> length (all_open m)"
    "k < length (all_open m)" "md_focusedPane m = all_open m ! k"
  shows "md_focusedPane (fst (updates E (map cycle_key ds) m)) =
    all_open m ! nat ((int k + sum_list (map step_of ds)) mod int (length (all_open m)))"
  using assms
proof (induction ds arbitrary: m k)
  case (Cons d ds)
  let ?n = "length (all_open m)" and ?m1 = "fst (Update E (cycle_key d) m)"
  let ?k = "nat ((int k + step_of d) mod int ?n)"
  note c = cycle_press [OF Cons.prems refl, of E d]
  have n: "0 < int ?n" using Cons.prems(4) by linarith
  have k: "?k < ?n" using n pos_mod_bound [OF n] pos_mod_sign [OF n] by (simp add: nat_less_iff)
  have "(int ?k + x) mod int ?n = (int k + (step_of d + x)) mod int ?n" for x
    using pos_mod_sign [OF n] by (simp add: mod_simps add.assoc)
  with Cons.IH [of ?m1 ?k] c Cons.prems(3,4) k show ?case by (simp add: split_beta)
qed simp

section \<open>The stale takeover warning\<close>

text \<open>Leaving the agent view does not drop a takeover warning: back on the board it is still armed for the ticket it
  was raised for, and once another ticket's session opens, the first Enter typed there takes over the old ticket's
  session, which another window holds.\<close>

theorem takeover_outlives_focus:
  assumes m: "md_mode m \<notin> {ModeShuttingDown, ModeSpawning}" "md_client m \<noteq> None" "mget (md_panes m) i = Some r"
    and m1: "m1 = fst (updates E [MAttachConflict i vo, MStallRecover] m)"
    and m2: "m2 = m1\<lparr>md_mode := ModeSpawning, md_spawningTicket := j\<rparr>"
  shows "md_mode m1 = ModeNormal \<and> md_takeoverPrompt m1 \<and>
    md_focusedPane (fst (updates E [MSpawnReady j v wt notice, MKey ''enter''] m2)) = j \<and>
    CmdAttach i r True \<in> set (snd (updates E [MSpawnReady j v wt notice, MKey ''enter''] m2))"
proof -
  let ?pend = "\<lambda>m'. md_takeoverPrompt m' \<and> md_takeoverTicket m' = i \<and> md_takeoverPane m' = Some r \<and> md_client m' \<noteq> None"
  have rv: "?pend (fst (reconcileViewing m')) = ?pend m'" for m' by (simp add: reconcileViewing_def Let_def)
  have a: "?pend (armTakeoverPrompt i vo m) \<and> md_mode (armTakeoverPrompt i vo m) = ModeAgentView"
    using m(2,3) by (simp add: armTakeoverPrompt_def own_def)
  have x: "?pend (exitToBoard m') = ?pend m'" for m'
    by (simp add: exitToBoard_def on_view_def Let_def split: option.splits)
  have h: "?pend (handleStallRecover m') \<and> md_mode (handleStallRecover m') = ModeNormal"
    if "?pend m'" "md_mode m' = ModeAgentView" for m'
    using that x [of m'] by (simp add: handleStallRecover_def notify_def exitToBoard_def Let_def)
  have e1: "fst (Update E (MAttachConflict i vo) m) = fst (reconcileViewing (armTakeoverPrompt i vo m))"
    using m(1) by (simp add: Update_def dispatchUpdate_def board_update_def split_beta)
  have e2: "fst (Update E MStallRecover m') = fst (reconcileViewing (handleStallRecover m'))" if "md_mode m' = ModeAgentView" for m'
    using that by (simp add: Update_def dispatchUpdate_def board_update_def split_beta)
  have p1: "?pend m1 \<and> md_mode m1 = ModeNormal"
    using a h rv reconcile_keeps(2) e2 by (simp add: m1 e1 split_beta)
  have sv: "?pend (save_spawn E wt f k m') = ?pend m'" for f k m'
    by (simp add: save_spawn_def saveTicket_def put_ticket_def notify_def Let_def split: option.splits)
  have s: "?pend (spawnReady E j v wt notice m2) \<and> md_mode (spawnReady E j v wt notice m2) = ModeAgentView \<and>
      md_focusedPane (spawnReady E j v wt notice m2) = j"
    using p1 sv [of _ j m2] by (simp add: m2 spawnReady_def own_def put_pane_def notify_def Let_def)
  let ?m3 = "fst (reconcileViewing (spawnReady E j v wt notice m2))"
  have u3: "Update E (MSpawnReady j v wt notice) m2 = (?m3, snd (reconcileViewing (spawnReady E j v wt notice m2)))"
    by (simp add: Update_def dispatchUpdate_def spawning_update_def m2 split_beta)
  have m3: "?pend ?m3" "md_mode ?m3 = ModeAgentView" "md_focusedPane ?m3 = j"
    using s rv reconcile_keeps(2) reconcile_open(2) by auto
  have "dispatchUpdate E (MKey ''enter'') ?m3 = (clear_takeover ?m3, [CmdAttach i r True])"
    using m3(1,2) by (auto simp: dispatchUpdate_def board_update_def handleKey_def handleAgentViewMode_def
        handleTakeoverPromptKey_def doAttach_def split: option.splits)
  then have "md_focusedPane (fst (Update E (MKey ''enter'') ?m3)) = j" "CmdAttach i r True \<in> set (snd (Update E (MKey ''enter'') ?m3))"
    using m3(3) by (simp_all add: Update_def split_beta reconcile_open clear_takeover_def)
  with p1 u3 show ?thesis by (simp add: split_beta)
qed

section \<open>The stuck verdict\<close>

text \<open>The daemon's stuck verdict does not survive the next status poll.\<close>

theorem stuck_overwritten:
  assumes "ui_wf m" "md_mode m = ModeNormal" "mget (md_tickets m) i = Some t" "i \<noteq> []"
    "t_AgentStatus t \<notin> {AgentCompleted, AgentStuck}" "st \<noteq> AgentNone"
  shows "status_of (fst (updates E [MEvents [wit_event ''status'' i AgentStuck]] m)) i = Some AgentStuck \<and>
    status_of (fst (updates E [MEvents [wit_event ''status'' i AgentStuck], MStatusPolled [(i, st)]] m)) i = Some st"
proof -
  have t: "t_ID t = i" using assms(1,3) by (simp add: ui_wf_def)
  let ?t1 = "fst (SetAgentStatus (ue_now E) AgentStuck t)"
  have a: "event_activity (wit_event ''status'' i AgentStuck) m = m" by (simp add: event_activity_def wit_event_def)
  have ap: "applyDaemonStatus E t AgentStuck = (?t1, True)"
    using assms(5) by (auto simp: applyDaemonStatus_def SetAgentStatus_def)
  have ev: "ev_Event (wit_event ''status'' i AgentStuck) = ''status''" "ev_TicketID (wit_event ''status'' i AgentStuck) = i"
    "ev_Status (wit_event ''status'' i AgentStuck) = AgentStuck" by (simp_all add: wit_event_def)
  have "applyDaemonSessionEvent E (wit_event ''status'' i AgentStuck) m = apply_status E t AgentStuck m"
    using assms(3,4) by (simp add: applyDaemonSessionEvent_def Let_def a ev)
  then have "applyDaemonSessionEvent E (wit_event ''status'' i AgentStuck) m = saveTicket E ?t1 (put_ticket ?t1 m)"
    by (simp only: apply_status_def ap prod.case if_True)
  then have d: "dispatchUpdate E (MEvents [wit_event ''status'' i AgentStuck]) m = (saveTicket E ?t1 (put_ticket ?t1 m), [CmdReadEvents])"
    by (simp add: dispatchUpdate_def handleDaemonSessionEvents_def)
  let ?m1 = "fst (reconcileViewing (saveTicket E ?t1 (put_ticket ?t1 m)))"
  have f: "md_tickets (fst (reconcileViewing m')) = md_tickets m'" for m' by (simp add: reconcileViewing_def Let_def)
  have t1: "t_ID ?t1 = i" "t_AgentStatus ?t1 = AgentStuck" using t by (simp_all add: SetAgentStatus_def)
  have mo: "md_mode (saveTicket E ?t1 m') = md_mode m'" for m'
    by (simp add: saveTicket_def notify_def Let_def split: option.split)
  have tk: "mget (md_tickets (put_ticket ?t1 m)) i = Some ?t1" using t by (simp add: put_ticket_def)
  have m1: "mget (md_tickets ?m1) i = Some ?t1" unfolding f board_frame by (rule tk)
  have n1: "md_mode ?m1 = ModeNormal" unfolding reconcile_keeps mo using assms(2) by (simp add: put_ticket_def)
  have p: "status_of (poll_status E (i, st) m') i = Some st"
    if "mget (md_tickets m') i = Some t'" "t_ID t' = i" "t_AgentStatus t' = AgentStuck" for m' t'
  proof -
    have "poll_status E (i, st) m' = put_ticket (fst (SetAgentStatus (ue_now E) st t')) m'"
      unfolding poll_status_def prod.case that(1) option.case that(3) using assms(6) by simp
    moreover have "t_AgentStatus (fst (SetAgentStatus (ue_now E) st t')) = st" by (simp add: SetAgentStatus_def)
    ultimately show ?thesis using that(2) by (simp add: status_of_def put_ticket_def)
  qed
  have "status_of (poll_status E (i, st) ?m1) i = Some st" by (rule p [OF m1 t1])
  moreover have "dispatchUpdate E (MStatusPolled [(i, st)]) ?m1 = (poll_status E (i, st) ?m1, [])"
    using n1 by (simp add: dispatchUpdate_def board_update_def agentStatusResult_def)
  moreover have "status_of ?m1 i = Some AgentStuck" using m1 t1 by (simp only: status_of_def option.map)
  moreover have "status_of (fst (reconcileViewing m')) i = status_of m' i" for m' by (simp add: status_of_def f)
  ultimately show ?thesis using d by (simp add: Update_def split_beta)
qed

section \<open>Examples\<close>

text \<open>Three open sessions in two columns, the first one focused.\<close>

definition cycle_model :: Model where
  "cycle_model =
     (add_pane (wit_ticket ''t3'' ''three'' AgentIdle) (wit_info ''s3'' ''t3'')
       (add_pane (wit_ticket ''t2'' ''two'' AgentIdle) (wit_info ''s2'' ''t2'') focus_model))
     \<lparr>md_columnTickets := [[''t1'', ''t2''], [''t4'', ''t3'']]\<rparr>"

lemma cycle_walks_witness:
  "md_focusedPane (fst (updates wit_env (map cycle_key [True, True]) cycle_model)) = ''t3'' \<and>
   md_focusedPane (fst (updates wit_env (map cycle_key [False, True, True]) cycle_model)) = ''t2''"
proof -
  have o: "all_open cycle_model = [''t1'', ''t2'', ''t3'']" by code_simp
  have h: "md_mode cycle_model = ModeAgentView" "\<not> md_takeoverPrompt cycle_model" "distinct (all_open cycle_model)"
    "2 \<le> length (all_open cycle_model)" "0 < length (all_open cycle_model)" "md_focusedPane cycle_model = all_open cycle_model ! 0"
    by (simp_all add: o) (simp_all add: cycle_model_def focus_model_def sync_model_def wit_model_def add_pane_def put_pane_def)
  show ?thesis
    using cycle_walks [OF h, of wit_env "[True, True]"] cycle_walks [OF h, of wit_env "[False, True, True]"]
    by (simp add: o step_of_def)
qed

lemma takeover_outlives_focus_witness:
  "CmdAttach ''t1'' 0 True \<in>
     set (snd (updates wit_env [MSpawnReady ''t2'' (view_init ''t2'' ''s2'' None) ([], [], []) [], MKey ''enter'']
       (fst (updates wit_env [MAttachConflict ''t1'' None, MStallRecover] sync_model)
         \<lparr>md_mode := ModeSpawning, md_spawningTicket := ''t2''\<rparr>)))"
proof -
  have h: "md_mode sync_model \<notin> {ModeShuttingDown, ModeSpawning}" "md_client sync_model \<noteq> None"
    "mget (md_panes sync_model) ''t1'' = Some 0"
    by (simp_all add: sync_model_def wit_model_def add_pane_def put_pane_def wit_ticket_def NewTicket_def)
  from takeover_outlives_focus [OF h refl refl] show ?thesis by blast
qed

end
