(* ===== verification/ExitProtocol.thy ===== *)
theory ExitProtocol
  imports DaemonSafety AgentView
begin

text \<open>
  The exit guard end to end: what the daemon answers to a TUI that wants to quit, and what the TUI does with the
  answer.
\<close>

lemma sole_active: "length (removeAll x xs) = 0 \<longleftrightarrow> set xs \<subseteq> {x}"
  by (induction xs) auto

text \<open>C31: End to end, a TUI that asks to quit quits at once iff the daemon is persistent, or some other connection
  is registered that has not announced an exit, or no session is registered; otherwise it shows the modal, listing
  exactly the daemon's registered sessions.  Every connection counts, those a TUI has opened for its own attach
  streams included.\<close>

theorem quit_decision:
  assumes "clients_ok s" "k \<in> snd ` set (sv_clients s)" "md_mode m \<notin> {ModeShuttingDown, ModeSpawning}"
  shows "let resp = snd (handlePrepareExit k s); m' = fst (Update E (MPrepareExit resp) m);
             quits = (CmdQuit \<in> set (snd (Update E (MPrepareExit resp) m))) in
    (quits \<longleftrightarrow> sv_persistent s \<or> \<not> set (active s) \<subseteq> {k} \<or> sv_reg s = []) \<and>
    (\<not> quits \<longrightarrow> md_mode m' = ModeConfirmExit \<and>
      ce_sessions (md_confirmExit m') = map (\<lambda>(i, r). Info (sess s r)) (sv_reg s))"
proof -
  obtain s' resp where h: "handlePrepareExit k s = (s', resp)" by force
  have a: "pe_OtherActiveClients resp = 0 \<longleftrightarrow> set (active s) \<subseteq> {k}"
    unfolding prepare_exit_active(4) [OF assms(1) h assms(2)] by (rule sole_active)
  have p: "pe_Persistent resp = sv_persistent s" "pe_Sessions resp = map (\<lambda>(i, r). Info (sess s r)) (sv_reg s)"
    using h by (auto simp: handlePrepareExit_def handleList_def put_conn_def Let_def)
  have d: "dispatchUpdate E (MPrepareExit resp) m = handlePrepareExitResult resp m"
    using assms(3) by (simp add: dispatchUpdate_def board_update_def)
  have "CmdQuit \<in> set (snd (Update E (MPrepareExit resp) m)) \<longleftrightarrow> CmdQuit \<in> set (snd (handlePrepareExitResult resp m))"
    using no_quit(6) by (simp add: Update_def d split_beta)
  moreover have "CmdQuit \<in> set (snd (handlePrepareExitResult resp m)) \<longleftrightarrow>
      sv_persistent s \<or> \<not> set (active s) \<subseteq> {k} \<or> sv_reg s = []"
    using a p by (auto simp: handlePrepareExitResult_def)
  moreover have "md_mode (fst (Update E (MPrepareExit resp) m)) = ModeConfirmExit \<and>
      ce_sessions (md_confirmExit (fst (Update E (MPrepareExit resp) m))) = map (\<lambda>(i, r). Info (sess s r)) (sv_reg s)"
    if "CmdQuit \<notin> set (snd (handlePrepareExitResult resp m))"
    using that p by (simp add: Update_def d split_beta reconcile_keeps handlePrepareExitResult_def open_modal_def split: if_splits)
  ultimately show ?thesis by (simp add: h Let_def)
qed

text \<open>One TUI with a live session: alone, and with the connection of its own attach stream.\<close>

definition tui_alone :: Server where
  "tui_alone = the (sv_run ([Accept, SpawnStart 0 example_req] @ spawn_acts 0 (example_env ''a'' 71)) (NewServer False 1))"

definition tui_attached :: Server where
  "tui_attached = the (sv_run ([Accept, Accept, SpawnStart 0 example_req] @ spawn_acts 0 (example_env ''a'' 71)) (NewServer False 1))"

lemma quit_decision_witness:
  "CmdQuit \<notin> set (snd (Update wit_env (MPrepareExit (snd (handlePrepareExit 0 tui_alone))) wit_model)) \<and>
   CmdQuit \<in> set (snd (Update wit_env (MPrepareExit (snd (handlePrepareExit 0 tui_attached))) wit_model)) \<and>
   sv_reg tui_attached \<noteq> []"
proof -
  have a: "clients_ok tui_alone" "0 \<in> snd ` set (sv_clients tui_alone)" "\<not> sv_persistent tui_alone"
    "set (active tui_alone) \<subseteq> {0}" "sv_reg tui_alone \<noteq> []"
    by code_simp+
  have b: "clients_ok tui_attached" "0 \<in> snd ` set (sv_clients tui_attached)" "\<not> set (active tui_attached) \<subseteq> {0}"
    "sv_reg tui_attached \<noteq> []"
    by code_simp+
  have m: "md_mode wit_model \<notin> {ModeShuttingDown, ModeSpawning}" by (simp add: wit_model_def)
  show ?thesis
    using quit_decision [OF a(1,2) m, of wit_env] quit_decision [OF b(1,2) m, of wit_env] a b by (simp add: Let_def)
qed

end
