(* ===== verification/StallWatch.thy ===== *)
theory StallWatch
  imports Prelude
begin

text \<open>
  \<^verbatim>\<open>internal/ui/stallwatch.go\<close>: the monitor that notices when the board's main goroutine stops making progress.  The
  main goroutine stamps the monitor when it enters and leaves \<^verbatim>\<open>Update\<close> and \<^verbatim>\<open>View\<close>; a watchdog goroutine samples
  the stamps on every tick.  A run is any interleaving of the two with the pushes of the daemon client, each
  action at its time.  The nil monitor, whose methods do nothing, is not represented.
\<close>

section \<open>The monitor\<close>

datatype stall_phase = PhaseIdle | PhaseUpdate | PhaseView

datatype stallKind = StallInCall | StallStarved | StallManual

record stallMonitor =
  sm_updateSeq :: "64 word"
  sm_phase :: stall_phase
  sm_phaseStart :: time
  sm_inflightMsg :: "string option"
  sm_mode :: "string option"
  sm_numPanes :: int
  sm_numActive :: int
  sm_threshold :: time
  sm_initialized :: bool
  sm_prevSeq :: "64 word"
  sm_lastSeqChange :: time
  sm_pushAtLastSeq :: "64 word"
  sm_dumped :: bool

definition stallThreshold :: time where "stallThreshold = 3000000000"

definition newStallMonitor :: stallMonitor where
  "newStallMonitor =
     \<lparr>sm_updateSeq = 0, sm_phase = PhaseIdle, sm_phaseStart = 0, sm_inflightMsg = None, sm_mode = None,
      sm_numPanes = 0, sm_numActive = 0, sm_threshold = stallThreshold, sm_initialized = False, sm_prevSeq = 0,
      sm_lastSeqChange = 0, sm_pushAtLastSeq = 0, sm_dumped = False\<rparr>"

definition enterUpdate :: "time \<Rightarrow> string \<Rightarrow> string \<Rightarrow> int \<Rightarrow> int \<Rightarrow> stallMonitor \<Rightarrow> stallMonitor" where
  "enterUpdate now msgName mode panes active m =
     m\<lparr>sm_inflightMsg := Some msgName, sm_mode := Some mode, sm_numPanes := panes, sm_numActive := active,
       sm_phaseStart := now, sm_phase := PhaseUpdate\<rparr>"

definition exitUpdate :: "stallMonitor \<Rightarrow> stallMonitor" where
  "exitUpdate m = m\<lparr>sm_phase := PhaseIdle, sm_updateSeq := sm_updateSeq m + 1\<rparr>"

definition enterView :: "time \<Rightarrow> stallMonitor \<Rightarrow> stallMonitor" where
  "enterView now m = m\<lparr>sm_phaseStart := now, sm_phase := PhaseView\<rparr>"

definition exitView :: "stallMonitor \<Rightarrow> stallMonitor" where
  "exitView m = m\<lparr>sm_phase := PhaseIdle\<rparr>"

text \<open>The client's cumulative push and drop counters, or no client at all.\<close>

type_synonym push_drop = "(64 word \<times> 64 word) option"

definition push_now :: "push_drop \<Rightarrow> 64 word" where
  "push_now pd = (case pd of None \<Rightarrow> 0 | Some (pushed, lost) \<Rightarrow> pushed)"

text \<open>The episode bookkeeping at the head of \<^verbatim>\<open>evaluate\<close>: the first sample and every progress re-arm it.\<close>

definition rebase :: "time \<Rightarrow> 64 word \<Rightarrow> stallMonitor \<Rightarrow> stallMonitor" where
  "rebase now push m =
     (if \<not> sm_initialized m then
        m\<lparr>sm_initialized := True, sm_prevSeq := sm_updateSeq m, sm_lastSeqChange := now, sm_pushAtLastSeq := push\<rparr>
      else if sm_updateSeq m \<noteq> sm_prevSeq m then
        m\<lparr>sm_prevSeq := sm_updateSeq m, sm_lastSeqChange := now, sm_pushAtLastSeq := push, sm_dumped := False\<rparr>
      else m)"

definition stall_verdict :: "time \<Rightarrow> 64 word \<Rightarrow> stallMonitor \<Rightarrow> stallKind option" where
  "stall_verdict now push m =
     (if sm_dumped m then None
      else if sm_phase m \<noteq> PhaseIdle then
        (if now - sm_phaseStart m > sm_threshold m then Some StallInCall else None)
      else if now - sm_lastSeqChange m > sm_threshold m \<and> push > sm_pushAtLastSeq m then Some StallStarved
      else None)"

definition stall_evaluate :: "push_drop \<Rightarrow> time \<Rightarrow> stallMonitor \<Rightarrow> stallMonitor \<times> stallKind option" where
  "stall_evaluate pd now m =
     (let m1 = rebase now (push_now pd) m in (m1, stall_verdict now (push_now pd) m1))"

record stall_dump =
  sd_kind :: stallKind
  sd_blocked :: time
  sd_phase :: stall_phase
  sd_msg :: string
  sd_mode :: string
  sd_panes :: int
  sd_active :: int
  sd_seq :: "64 word"
  sd_push :: "64 word"
  sd_pushDelta :: "64 word"
  sd_drop :: "64 word"

definition writeDump :: "push_drop \<Rightarrow> stallKind \<Rightarrow> time \<Rightarrow> stallMonitor \<Rightarrow> stall_dump" where
  "writeDump pd kind now m =
     \<lparr>sd_kind = kind,
      sd_blocked = (if sm_phase m \<noteq> PhaseIdle then now - sm_phaseStart m else now - sm_lastSeqChange m),
      sd_phase = sm_phase m,
      sd_msg = (case sm_inflightMsg m of None \<Rightarrow> [] | Some x \<Rightarrow> x),
      sd_mode = (case sm_mode m of None \<Rightarrow> [] | Some x \<Rightarrow> x),
      sd_panes = sm_numPanes m, sd_active = sm_numActive m, sd_seq = sm_updateSeq m,
      sd_push = push_now pd, sd_pushDelta = push_now pd - sm_pushAtLastSeq m,
      sd_drop = (case pd of None \<Rightarrow> 0 | Some (pushed, lost) \<Rightarrow> lost)\<rparr>"

text \<open>
  What a tick does: the dumps appended to the file when it can be opened, the marker in the log, and whether the
  recovery closure runs.
\<close>

record stall_world =
  sw_mon :: stallMonitor
  sw_counters :: push_drop
  sw_recover :: bool
  sw_running :: bool
  sw_stopped :: bool
  sw_file :: "stall_dump list"
  sw_reports :: "(time \<times> stallKind) list"
  sw_recovered :: nat

definition onTick :: "bool \<Rightarrow> time \<Rightarrow> stall_world \<Rightarrow> stall_world" where
  "onTick open_ok now w =
     (case stall_evaluate (sw_counters w) now (sw_mon w) of
        (m, None) \<Rightarrow> w\<lparr>sw_mon := m\<rparr>
      | (m, Some kind) \<Rightarrow>
          w\<lparr>sw_mon := m\<lparr>sm_dumped := True\<rparr>,
            sw_file := sw_file w @ (if open_ok then [writeDump (sw_counters w) kind now m] else []),
            sw_reports := sw_reports w @ [(now, kind)],
            sw_recovered := sw_recovered w + (if kind = StallStarved \<and> sw_recover w then 1 else 0)\<rparr>)"

definition manualDump :: "bool \<Rightarrow> time \<Rightarrow> stall_world \<Rightarrow> stall_world" where
  "manualDump open_ok now w =
     (if open_ok then w\<lparr>sw_file := sw_file w @ [writeDump (sw_counters w) StallManual now (sw_mon w)]\<rparr> else w)"

definition setRecover :: "stall_world \<Rightarrow> stall_world" where
  "setRecover w = w\<lparr>sw_recover := True\<rparr>"

definition stall_stop :: "stall_world \<Rightarrow> stall_world" where
  "stall_stop w = w\<lparr>sw_stopped := True\<rparr>"

section \<open>Runs\<close>

text \<open>
  The actions of the main goroutine, of the daemon client and of the watchdog's loop.  The loop picks any ready case,
  so a tick may still be served between \<^verbatim>\<open>stop\<close> and the loop's return.
\<close>

datatype stall_act =
    EnterUpdate string string int int | ExitUpdate | EnterView | ExitView
  | Pushed | Dropped | SetRecover | Stop
  | Tick bool | Signal bool | LoopReturn

definition bump :: "64 word \<Rightarrow> 64 word \<Rightarrow> push_drop \<Rightarrow> push_drop" where
  "bump a b pd = map_option (\<lambda>(pushed, lost). (pushed + a, lost + b)) pd"

definition stall_do :: "time \<Rightarrow> stall_act \<Rightarrow> stall_world \<Rightarrow> stall_world" where
  "stall_do now a w =
     (case a of
        EnterUpdate msg mode panes active \<Rightarrow> w\<lparr>sw_mon := enterUpdate now msg mode panes active (sw_mon w)\<rparr>
      | ExitUpdate \<Rightarrow> w\<lparr>sw_mon := exitUpdate (sw_mon w)\<rparr>
      | EnterView \<Rightarrow> w\<lparr>sw_mon := enterView now (sw_mon w)\<rparr>
      | ExitView \<Rightarrow> w\<lparr>sw_mon := exitView (sw_mon w)\<rparr>
      | Pushed \<Rightarrow> w\<lparr>sw_counters := bump 1 0 (sw_counters w)\<rparr>
      | Dropped \<Rightarrow> w\<lparr>sw_counters := bump 0 1 (sw_counters w)\<rparr>
      | SetRecover \<Rightarrow> setRecover w
      | Stop \<Rightarrow> stall_stop w
      | Tick ok \<Rightarrow> if sw_running w then onTick ok now w else w
      | Signal ok \<Rightarrow> if sw_running w then manualDump ok now w else w
      | LoopReturn \<Rightarrow> if sw_stopped w then w\<lparr>sw_running := False\<rparr> else w)"

definition stall_run :: "(time \<times> stall_act) list \<Rightarrow> stall_world \<Rightarrow> stall_world" where
  "stall_run tr w = fold (\<lambda>(t, a). stall_do t a) tr w"

definition stall_init :: "push_drop \<Rightarrow> stall_world" where
  "stall_init pd =
     \<lparr>sw_mon = newStallMonitor, sw_counters = pd, sw_recover = False, sw_running = True, sw_stopped = False,
      sw_file = [], sw_reports = [], sw_recovered = 0\<rparr>"

definition main_act :: "stall_act \<Rightarrow> bool" where
  "main_act a \<longleftrightarrow> (case a of EnterUpdate msg mode p n \<Rightarrow> True | ExitUpdate \<Rightarrow> True | EnterView \<Rightarrow> True | ExitView \<Rightarrow> True | _ \<Rightarrow> False)"

definition enter_act :: "stall_act \<Rightarrow> bool" where
  "enter_act a \<longleftrightarrow> (case a of EnterUpdate msg mode p n \<Rightarrow> True | EnterView \<Rightarrow> True | _ \<Rightarrow> False)"

abbreviation exits :: "(time \<times> stall_act) list \<Rightarrow> nat" where
  "exits tr \<equiv> count_list (map snd tr) ExitUpdate"

abbreviation pushes :: "(time \<times> stall_act) list \<Rightarrow> nat" where
  "pushes tr \<equiv> count_list (map snd tr) Pushed"

lemma stall_run_simps [simp]:
  "stall_run [] w = w"
  "stall_run (p # tr) w = stall_run tr (stall_do (fst p) (snd p) w)"
  "stall_run (tr @ tr') w = stall_run tr' (stall_run tr w)"
  by (simp_all add: stall_run_def case_prod_beta)

lemmas stall_mon_defs = enterUpdate_def exitUpdate_def enterView_def exitView_def rebase_def
lemmas stall_act_defs = stall_mon_defs stall_do_def setRecover_def stall_stop_def manualDump_def bump_def

section \<open>One report per episode\<close>

text \<open>The episode is over its report: nothing but a finished \<^verbatim>\<open>Update\<close> re-arms it.\<close>

definition spent :: "stall_world \<Rightarrow> bool" where
  "spent w \<longleftrightarrow> (let m = sw_mon w in sm_initialized m \<and> sm_dumped m \<and> sm_updateSeq m = sm_prevSeq m)"

lemma onTick_cases:
  obtains (quiet) "onTick ok now w = w\<lparr>sw_mon := rebase now (push_now (sw_counters w)) (sw_mon w)\<rparr>"
      "stall_verdict now (push_now (sw_counters w)) (rebase now (push_now (sw_counters w)) (sw_mon w)) = None"
    | (report) kind where
      "stall_verdict now (push_now (sw_counters w)) (rebase now (push_now (sw_counters w)) (sw_mon w)) = Some kind"
      "spent (onTick ok now w)"
      "sw_reports (onTick ok now w) = sw_reports w @ [(now, kind)]"
      "sw_recovered (onTick ok now w) = sw_recovered w + (if kind = StallStarved \<and> sw_recover w then 1 else 0)"
proof (cases "stall_verdict now (push_now (sw_counters w)) (rebase now (push_now (sw_counters w)) (sw_mon w))")
  case None
  then show ?thesis by (intro quiet) (simp_all add: onTick_def stall_evaluate_def)
next
  case (Some kind)
  then show ?thesis
    by (intro report) (simp_all add: onTick_def stall_evaluate_def spent_def rebase_def)
qed

lemma spent_tick: "spent w \<Longrightarrow> onTick ok now w = w"
  by (simp add: onTick_def stall_evaluate_def spent_def rebase_def stall_verdict_def Let_def)

lemma spent_step:
  assumes "spent w" "a \<noteq> ExitUpdate"
  shows "spent (stall_do t a w) \<and> sw_reports (stall_do t a w) = sw_reports w \<and> sw_recovered (stall_do t a w) = sw_recovered w"
  using assms by (cases a) (auto simp: stall_act_defs spent_tick, auto simp: spent_def Let_def)

lemma spent_run:
  assumes "spent w" "ExitUpdate \<notin> snd ` set tr"
  shows "sw_reports (stall_run tr w) = sw_reports w \<and> sw_recovered (stall_run tr w) = sw_recovered w"
  using assms
proof (induction tr arbitrary: w)
  case (Cons p tr)
  then show ?case using spent_step [of w "snd p" "fst p"] by auto
qed simp

lemma step_reports:
  "(sw_reports (stall_do t a w) = sw_reports w \<and> sw_recovered (stall_do t a w) = sw_recovered w) \<or>
   (\<exists>kind. sw_reports (stall_do t a w) = sw_reports w @ [(t, kind)] \<and> spent (stall_do t a w) \<and>
      sw_recovered (stall_do t a w) \<le> Suc (sw_recovered w) \<and>
      (kind \<noteq> StallStarved \<longrightarrow> sw_recovered (stall_do t a w) = sw_recovered w))"
proof (cases "\<exists>ok. a = Tick ok \<and> sw_running w")
  case True
  then obtain ok where a: "a = Tick ok" "sw_running w" by blast
  show ?thesis
    by (cases rule: onTick_cases [of ok t w]) (use a in \<open>auto simp: stall_do_def\<close>)
next
  case False
  then show ?thesis
    by (cases a) (auto simp: stall_act_defs)
qed

text \<open>
  A stall is reported once: whatever state the monitor is in, a stretch of the run in which the main goroutine
  finishes no \<^verbatim>\<open>Update\<close> adds at most one report and runs the recovery at most once, and only with a report of a
  starved loop; stretches of any length, with any number of ticks.
\<close>
theorem stall_once:
  assumes "ExitUpdate \<notin> snd ` set tr"
  shows "\<exists>new. sw_reports (stall_run tr w) = sw_reports w @ new \<and> length new \<le> 1 \<and>
     sw_recovered (stall_run tr w) \<le> sw_recovered w + length (filter (\<lambda>r. snd r = StallStarved) new)"
  using assms
proof (induction tr arbitrary: w)
  case (Cons p tr)
  let ?w = "stall_do (fst p) (snd p) w"
  have tr: "ExitUpdate \<notin> snd ` set tr" using Cons.prems by simp
  from step_reports [of "fst p" "snd p" w] show ?case
  proof
    assume "sw_reports ?w = sw_reports w \<and> sw_recovered ?w = sw_recovered w"
    then show ?thesis using Cons.IH [OF tr, of ?w] by simp
  next
    assume "\<exists>kind. sw_reports ?w = sw_reports w @ [(fst p, kind)] \<and> spent ?w \<and>
      sw_recovered ?w \<le> Suc (sw_recovered w) \<and> (kind \<noteq> StallStarved \<longrightarrow> sw_recovered ?w = sw_recovered w)"
    then obtain kind where k: "sw_reports ?w = sw_reports w @ [(fst p, kind)]" "spent ?w"
      "sw_recovered ?w \<le> Suc (sw_recovered w)" "kind \<noteq> StallStarved \<longrightarrow> sw_recovered ?w = sw_recovered w" by blast
    then show ?thesis using spent_run [OF k(2) tr] by (intro exI [of _ "[(fst p, kind)]"]) auto
  qed
qed simp

section \<open>Reports are true\<close>

lemma count_split: "count_list (xs @ ys) a = count_list xs a + count_list ys a"
  by (induction xs) auto

text \<open>What the monitor knows of the run that led to it.\<close>

definition knows_phase :: "(time \<times> stall_act) list \<Rightarrow> stallMonitor \<Rightarrow> bool" where
  "knows_phase tr m \<longleftrightarrow>
     (if sm_phase m = PhaseIdle then
        (\<forall>tr1 p tr2. tr = tr1 @ p # tr2 \<and> enter_act (snd p) \<longrightarrow> (\<exists>q \<in> set tr2. main_act (snd q)))
      else (\<exists>tr1 a tr2. tr = tr1 @ (sm_phaseStart m, a) # tr2 \<and> enter_act a \<and> (\<forall>q \<in> set tr2. \<not> main_act (snd q))))"

definition knows_base :: "64 word \<Rightarrow> (time \<times> stall_act) list \<Rightarrow> stallMonitor \<Rightarrow> bool" where
  "knows_base p0 tr m \<longleftrightarrow>
     (sm_initialized m \<longrightarrow>
        (\<exists>tr1 ok tr2. tr = tr1 @ (sm_lastSeqChange m, Tick ok) # tr2 \<and>
           sm_prevSeq m = of_nat (exits tr1) \<and> sm_pushAtLastSeq m = p0 + of_nat (pushes tr1)))"

definition knows :: "64 word \<times> 64 word \<Rightarrow> (time \<times> stall_act) list \<Rightarrow> stall_world \<Rightarrow> bool" where
  "knows pd tr w \<longleftrightarrow>
     sm_updateSeq (sw_mon w) = of_nat (exits tr) \<and> sm_threshold (sw_mon w) = stallThreshold \<and>
     push_now (sw_counters w) = fst pd + of_nat (pushes tr) \<and> sw_counters w \<noteq> None \<and>
     knows_phase tr (sw_mon w) \<and> knows_base (fst pd) tr (sw_mon w)"

lemma knows_phase_other:
  assumes "knows_phase tr m" "\<not> main_act (snd p)" "sm_phase m' = sm_phase m" "sm_phaseStart m' = sm_phaseStart m"
  shows "knows_phase (tr @ [p]) m'"
proof (cases "sm_phase m = PhaseIdle")
  case True
  show ?thesis
    unfolding knows_phase_def using True assms(3)
  proof (simp, intro allI impI, elim conjE)
    fix tr1 t a tr2 assume e: "tr @ [p] = tr1 @ (t, a) # tr2" "enter_act a"
    show "\<exists>q\<in>set tr2. main_act (snd q)"
    proof (cases tr2 rule: rev_cases)
      case Nil
      with e assms(2) show ?thesis by (auto simp: enter_act_def main_act_def split: stall_act.splits)
    next
      case (snoc ys y)
      then have "tr = tr1 @ (t, a) # ys" using e(1) by simp
      then have "\<exists>q\<in>set ys. main_act (snd q)" using assms(1) True e(2) by (simp add: knows_phase_def)
      then show ?thesis using snoc by auto
    qed
  qed
next
  case False
  then obtain tr1 a tr2 where "tr = tr1 @ (sm_phaseStart m, a) # tr2" "enter_act a" "\<forall>q \<in> set tr2. \<not> main_act (snd q)"
    using assms(1) by (auto simp: knows_phase_def)
  then show ?thesis using False assms(2,3,4)
    by (simp add: knows_phase_def, intro exI [of _ tr1], intro exI [of _ a], intro exI [of _ "tr2 @ [p]"]) auto
qed

lemma knows_base_other:
  assumes "knows_base p0 tr m" "sm_initialized m' = sm_initialized m" "sm_lastSeqChange m' = sm_lastSeqChange m"
    "sm_prevSeq m' = sm_prevSeq m" "sm_pushAtLastSeq m' = sm_pushAtLastSeq m"
  shows "knows_base p0 (tr @ [p]) m'"
  using assms unfolding knows_base_def by fastforce

lemma knows_base_rebase:
  assumes "knows_base p0 tr m" "sm_updateSeq m = of_nat (exits tr)" "push = p0 + of_nat (pushes tr)"
  shows "knows_base p0 (tr @ [(now, Tick ok)]) (rebase now push m)"
proof (cases "sm_initialized m \<and> sm_updateSeq m = sm_prevSeq m")
  case True
  then show ?thesis using knows_base_other [OF assms(1), of "rebase now push m"] by (simp add: rebase_def)
next
  case False
  then have "sm_lastSeqChange (rebase now push m) = now" "sm_prevSeq (rebase now push m) = of_nat (exits tr)"
    "sm_pushAtLastSeq (rebase now push m) = p0 + of_nat (pushes tr)"
    using assms(2,3) by (auto simp: rebase_def)
  then show ?thesis
    unfolding knows_base_def by (intro impI exI [of _ tr] exI [of _ ok] exI [of _ "[]"]) simp
qed

lemma knows_phase_enter:
  "sm_phase m \<noteq> PhaseIdle \<Longrightarrow> sm_phaseStart m = t \<Longrightarrow> enter_act a \<Longrightarrow> knows_phase (tr @ [(t, a)]) m"
  by (simp add: knows_phase_def, intro exI [of _ tr], intro exI [of _ a], intro exI [of _ "[]"]) simp

lemma knows_phase_exit:
  assumes "sm_phase m = PhaseIdle" "main_act a" "\<not> enter_act a"
  shows "knows_phase (tr @ [(t, a)]) m"
  unfolding knows_phase_def using assms(1)
proof (simp, intro allI impI, elim conjE)
  fix tr1 t' a' tr2 assume e: "tr @ [(t, a)] = tr1 @ (t', a') # tr2" "enter_act a'"
  then show "\<exists>q\<in>set tr2. main_act (snd q)"
    using assms(2,3) by (cases tr2 rule: rev_cases) auto
qed

lemma tick_mon:
  "sw_counters (onTick ok now w) = sw_counters w"
  "\<exists>b. sw_mon (onTick ok now w) = (rebase now (push_now (sw_counters w)) (sw_mon w))\<lparr>sm_dumped := b\<rparr>"
proof -
  show "sw_counters (onTick ok now w) = sw_counters w"
    by (simp add: onTick_def stall_evaluate_def Let_def split: option.splits)
  let ?m = "rebase now (push_now (sw_counters w)) (sw_mon w)"
  have "sw_mon (onTick ok now w) = ?m\<lparr>sm_dumped := sm_dumped ?m\<rparr> \<or> sw_mon (onTick ok now w) = ?m\<lparr>sm_dumped := True\<rparr>"
    by (simp add: onTick_def stall_evaluate_def Let_def split: option.splits)
  then show "\<exists>b. sw_mon (onTick ok now w) = ?m\<lparr>sm_dumped := b\<rparr>" by blast
qed

lemma knows_tick:
  assumes k: "knows pd tr w"
  shows "knows pd (tr @ [(now, Tick ok)]) (onTick ok now w)"
proof -
  let ?m = "rebase now (push_now (sw_counters w)) (sw_mon w)"
  obtain b where b: "sw_mon (onTick ok now w) = ?m\<lparr>sm_dumped := b\<rparr>" using tick_mon(2) by blast
  have "knows_base (fst pd) (tr @ [(now, Tick ok)]) ?m"
    using k by (intro knows_base_rebase) (auto simp: knows_def)
  then have "knows_base (fst pd) (tr @ [(now, Tick ok)]) (?m\<lparr>sm_dumped := b\<rparr>)"
    by (simp add: knows_base_def)
  moreover have "knows_phase (tr @ [(now, Tick ok)]) (?m\<lparr>sm_dumped := b\<rparr>)"
    using k by (intro knows_phase_other [of tr "sw_mon w"]) (auto simp: knows_def main_act_def rebase_def)
  moreover have "sm_updateSeq ?m = sm_updateSeq (sw_mon w)" "sm_threshold ?m = sm_threshold (sw_mon w)"
    by (simp_all add: rebase_def)
  ultimately show ?thesis using k b by (simp add: knows_def tick_mon(1) count_split)
qed

lemma push_bump: "sw_counters w \<noteq> None \<Longrightarrow> push_now (bump a b (sw_counters w)) = push_now (sw_counters w) + a"
  by (auto simp: bump_def push_now_def)

lemma counters_step: "sw_counters (stall_do t a w) =
   bump (of_nat (count_list [a] Pushed)) (of_nat (count_list [a] Dropped)) (sw_counters w)"
  by (cases a; cases "sw_counters w") (simp_all add: stall_act_defs tick_mon(1) case_prod_beta)

lemma seq_step: "sm_updateSeq (sw_mon (stall_do t a w)) = sm_updateSeq (sw_mon w) + of_nat (count_list [a] ExitUpdate) \<and>
   sm_threshold (sw_mon (stall_do t a w)) = sm_threshold (sw_mon w)"
proof (cases "\<exists>ok. a = Tick ok \<and> sw_running w")
  case True
  then obtain ok where a: "a = Tick ok" "sw_running w" by blast
  obtain b where "sw_mon (onTick ok t w) = (rebase t (push_now (sw_counters w)) (sw_mon w))\<lparr>sm_dumped := b\<rparr>"
    using tick_mon(2) by blast
  then show ?thesis using a by (simp add: stall_do_def rebase_def)
next
  case False
  then show ?thesis by (cases a) (auto simp: stall_act_defs)
qed

lemma knows_step:
  assumes k: "knows pd tr w"
  shows "knows pd (tr @ [(t, a)]) (stall_do t a w)"
proof (cases "\<exists>ok. a = Tick ok \<and> sw_running w")
  case True
  then show ?thesis using knows_tick [OF k] by (auto simp: stall_do_def)
next
  case False
  have kb: "knows_base (fst pd) tr (sw_mon w)" and kp: "knows_phase tr (sw_mon w)" and c: "sw_counters w \<noteq> None"
    using k by (simp_all add: knows_def)
  let ?m = "sw_mon (stall_do t a w)"
  have "sm_initialized ?m = sm_initialized (sw_mon w) \<and> sm_lastSeqChange ?m = sm_lastSeqChange (sw_mon w) \<and>
     sm_prevSeq ?m = sm_prevSeq (sw_mon w) \<and> sm_pushAtLastSeq ?m = sm_pushAtLastSeq (sw_mon w)"
    using False by (cases a) (simp_all add: stall_act_defs)
  then have base: "knows_base (fst pd) (tr @ [(t, a)]) ?m"
    by (intro knows_base_other [OF kb]) simp_all
  have phase: "knows_phase (tr @ [(t, a)]) ?m"
  proof (cases "main_act a")
    case True
    then show ?thesis
    proof (cases "enter_act a")
      case ent: True
      then have "sm_phase ?m \<noteq> PhaseIdle \<and> sm_phaseStart ?m = t"
        by (cases a) (simp_all add: enter_act_def stall_act_defs)
      with ent show ?thesis by (intro knows_phase_enter) simp_all
    next
      case False
      then have "sm_phase ?m = PhaseIdle"
        using True by (cases a) (simp_all add: enter_act_def main_act_def stall_act_defs)
      with False True show ?thesis by (intro knows_phase_exit) simp_all
    qed
  next
    case nm: False
    then have "sm_phase ?m = sm_phase (sw_mon w) \<and> sm_phaseStart ?m = sm_phaseStart (sw_mon w)"
      using False by (cases a) (simp_all add: stall_act_defs main_act_def)
    with nm show ?thesis by (intro knows_phase_other [OF kp]) simp_all
  qed
  have "sw_counters (stall_do t a w) \<noteq> None"
    "push_now (sw_counters (stall_do t a w)) = push_now (sw_counters w) + of_nat (count_list [a] Pushed)"
    using c push_bump [OF c] by (simp_all only: counters_step) (auto simp: bump_def)
  then show ?thesis using k base phase seq_step [of t a w] by (simp add: knows_def count_split add_ac)
qed

lemma knows_run: "knows pd tr (stall_run tr (stall_init (Some pd)))"
proof (induction tr rule: rev_induct)
  case Nil
  show ?case by (simp add: knows_def knows_phase_def knows_base_def stall_init_def newStallMonitor_def push_now_def case_prod_beta)
next
  case (snoc p tr)
  then show ?case using knows_step [of pd tr _ "fst p" "snd p"] by simp
qed

lemma of_nat_word64_inj: "a < 2 ^ 64 \<Longrightarrow> b < 2 ^ 64 \<Longrightarrow> (of_nat a :: 64 word) = of_nat b \<Longrightarrow> a = b"
proof -
  assume a: "a < 2 ^ 64" "b < 2 ^ 64" "(of_nat a :: 64 word) = of_nat b"
  then have "unat (of_nat a :: 64 word) = unat (of_nat b :: 64 word)" by simp
  with a(1,2) show "a = b" by (simp add: unsigned_of_nat take_bit_nat_eq_self)
qed

lemma rebase_seq: "sm_prevSeq (rebase now push m) = sm_updateSeq (rebase now push m)" "sm_initialized (rebase now push m)"
  by (simp_all add: rebase_def)

lemma count_list_pos: "0 < count_list xs a \<longleftrightarrow> a \<in> set xs"
  by (induction xs) auto

text \<open>The truth of a report made at \<open>now\<close> about the run \<open>tr\<close> before it.\<close>

definition main_outside :: "(time \<times> stall_act) list \<Rightarrow> bool" where
  "main_outside tr \<longleftrightarrow> (\<forall>tr1 p tr2. tr = tr1 @ p # tr2 \<and> enter_act (snd p) \<longrightarrow> (\<exists>q \<in> set tr2. main_act (snd q)))"

definition true_stall :: "(time \<times> stall_act) list \<Rightarrow> time \<Rightarrow> stallKind \<Rightarrow> bool" where
  "true_stall tr now kind \<longleftrightarrow>
     (case kind of
        StallInCall \<Rightarrow>
          (\<exists>tr1 t0 a tr2. tr = tr1 @ (t0, a) # tr2 \<and> enter_act a \<and> now - t0 > stallThreshold \<and>
             (\<forall>q \<in> set tr2. \<not> main_act (snd q)))
      | StallStarved \<Rightarrow>
          main_outside tr \<and>
          (\<exists>tr1 t0 ok tr2. tr = tr1 @ (t0, Tick ok) # tr2 \<and> now - t0 > stallThreshold \<and>
             ExitUpdate \<notin> snd ` set tr2 \<and> Pushed \<in> snd ` set tr2)
      | StallManual \<Rightarrow> False)"

lemma verdict_true:
  assumes k: "knows pd tr w" and l: "length tr < 2 ^ 64"
    and v: "stall_verdict now (push_now (sw_counters w)) (rebase now (push_now (sw_counters w)) (sw_mon w)) = Some kind"
  shows "true_stall tr now kind"
proof (cases "sm_phase (sw_mon w) = PhaseIdle")
  case False
  let ?m = "rebase now (push_now (sw_counters w)) (sw_mon w)"
  have m: "sm_phase ?m = sm_phase (sw_mon w)" "sm_phaseStart ?m = sm_phaseStart (sw_mon w)" "sm_threshold ?m = stallThreshold"
    using k by (simp_all add: rebase_def knows_def)
  with v False have kind: "kind = StallInCall" and late: "now - sm_phaseStart (sw_mon w) > stallThreshold"
    by (simp_all add: stall_verdict_def split: if_splits)
  have "knows_phase tr (sw_mon w)" using k by (simp add: knows_def)
  with False late kind show ?thesis
    unfolding knows_phase_def true_stall_def by fastforce
next
  case True
  let ?m = "rebase now (push_now (sw_counters w)) (sw_mon w)"
  have m: "sm_phase ?m = PhaseIdle" "sm_threshold ?m = stallThreshold"
    using k True by (simp_all add: rebase_def knows_def)
  with v have kind: "kind = StallStarved" and late: "now - sm_lastSeqChange ?m > stallThreshold"
    and push: "push_now (sw_counters w) > sm_pushAtLastSeq ?m"
    by (simp_all add: stall_verdict_def split: if_splits)
  have same: "sm_initialized (sw_mon w)" "sm_updateSeq (sw_mon w) = sm_prevSeq (sw_mon w)" "?m = sw_mon w"
    using late by (auto simp: rebase_def stallThreshold_def split: if_splits)
  then obtain tr1 ok tr2 where tr: "tr = tr1 @ (sm_lastSeqChange (sw_mon w), Tick ok) # tr2"
    "sm_prevSeq (sw_mon w) = of_nat (exits tr1)" "sm_pushAtLastSeq (sw_mon w) = fst pd + of_nat (pushes tr1)"
    using k by (auto simp: knows_def knows_base_def)
  have "(of_nat (exits tr) :: 64 word) = of_nat (exits tr1)"
    using same(2) tr(2) k by (simp add: knows_def)
  moreover have "exits tr \<le> length tr" "exits tr1 \<le> length tr1"
    using count_le_length [of "map snd tr" ExitUpdate] count_le_length [of "map snd tr1" ExitUpdate] by simp_all
  ultimately have "exits tr = exits tr1"
    using l tr(1) by (intro of_nat_word64_inj) auto
  then have "count_list (map snd tr2) ExitUpdate = 0" using tr(1) by (simp add: count_split)
  then have e: "ExitUpdate \<notin> snd ` set tr2" by (simp add: count_list_0_iff)
  have "pushes tr2 \<noteq> 0"
  proof
    assume "pushes tr2 = 0"
    then have "push_now (sw_counters w) = sm_pushAtLastSeq ?m"
      using k tr same(3) by (simp add: knows_def count_split)
    with push show False by simp
  qed
  then have "Pushed \<in> snd ` set tr2" by (simp add: count_list_0_iff)
  moreover have "main_outside tr"
    using k True unfolding knows_def knows_phase_def main_outside_def by auto
  moreover have "now - sm_lastSeqChange (sw_mon w) > stallThreshold" using late same(3) by simp
  ultimately show ?thesis using kind tr(1) e unfolding true_stall_def by (simp only: stallKind.case) blast
qed


section \<open>Stalls are reported\<close>

lemma reports_grow: "length (sw_reports w) \<le> length (sw_reports (stall_run tr w))"
proof (induction tr arbitrary: w)
  case (Cons p tr)
  have "length (sw_reports w) \<le> length (sw_reports (stall_do (fst p) (snd p) w))"
    using step_reports [of "fst p" "snd p" w] by auto
  then show ?case using Cons [of "stall_do (fst p) (snd p) w"] by simp
qed simp

text \<open>The report behind the flag that silences the watchdog.\<close>

lemma dumped_has_report:
  assumes "sm_dumped (sw_mon (stall_run tr (stall_init (Some pd))))"
  shows "\<exists>tra trb. tr = tra @ trb \<and>
     sm_prevSeq (sw_mon (stall_run tr (stall_init (Some pd)))) = of_nat (exits tra) \<and>
     length (sw_reports (stall_run tra (stall_init (Some pd)))) < length (sw_reports (stall_run tr (stall_init (Some pd))))"
  using assms
proof (induction tr rule: rev_induct)
  case Nil
  then show ?case by (simp add: stall_init_def newStallMonitor_def)
next
  case (snoc p tr)
  let ?w = "stall_run tr (stall_init (Some pd))" and ?w' = "stall_run (tr @ [p]) (stall_init (Some pd))"
  have w': "?w' = stall_do (fst p) (snd p) ?w" by simp
  have old: ?case if "sm_dumped (sw_mon ?w)" "sm_prevSeq (sw_mon ?w') = sm_prevSeq (sw_mon ?w)"
  proof -
    from snoc.IH [OF that(1)] obtain tra trb where t: "tr = tra @ trb" "sm_prevSeq (sw_mon ?w) = of_nat (exits tra)"
      "length (sw_reports (stall_run tra (stall_init (Some pd)))) < length (sw_reports ?w)" by blast
    moreover have "length (sw_reports ?w) \<le> length (sw_reports ?w')" using reports_grow [of ?w "[p]"] by simp
    ultimately have "tr @ [p] = tra @ (trb @ [p]) \<and> sm_prevSeq (sw_mon ?w') = of_nat (exits tra) \<and>
      length (sw_reports (stall_run tra (stall_init (Some pd)))) < length (sw_reports ?w')"
      using that(2) by (simp only: append_assoc, intro conjI refl, linarith)
    then show ?thesis by blast
  qed
  show ?case
  proof (cases "\<exists>ok. snd p = Tick ok \<and> sw_running ?w")
    case True
    then obtain ok where a: "snd p = Tick ok" "sw_running ?w" by blast
    show ?thesis
    proof (cases rule: onTick_cases [of ok "fst p" ?w])
      case quiet
      have m: "sw_mon ?w' = rebase (fst p) (push_now (sw_counters ?w)) (sw_mon ?w)"
        using quiet(1) a by (simp add: stall_do_def)
      have d: "sm_dumped (rebase (fst p) (push_now (sw_counters ?w)) (sw_mon ?w))"
        using snoc.prems m by simp
      show ?thesis
      proof (cases "sm_initialized (sw_mon ?w)")
        case True
        with d have "rebase (fst p) (push_now (sw_counters ?w)) (sw_mon ?w) = sw_mon ?w"
          by (auto simp: rebase_def split: if_splits)
        with d m show ?thesis by (intro old) simp_all
      next
        case False
        have "sm_dumped (sw_mon (stall_run xs (stall_init (Some pd)))) \<longrightarrow> sm_initialized (sw_mon (stall_run xs (stall_init (Some pd))))" for xs
        proof (induction xs rule: rev_induct)
          case Nil
          show ?case by (simp add: stall_init_def newStallMonitor_def)
        next
          case (snoc q xs)
          then show ?case
            by (cases "snd q") (auto simp: stall_act_defs onTick_def stall_evaluate_def Let_def split: option.splits)
        qed
        with False d show ?thesis by (auto simp: rebase_def)
      qed
    next
      case (report k)
      have "sm_prevSeq (sw_mon ?w') = of_nat (exits tr)"
        using report(2) a knows_run [of pd "tr @ [p]"]
        by (simp add: stall_do_def spent_def Let_def knows_def count_split)
      then show ?thesis using report(3) a
        by (intro exI [of _ tr] exI [of _ "[p]"]) (simp add: stall_do_def)
    qed
  next
    case False
    then have "sm_dumped (sw_mon ?w') = sm_dumped (sw_mon ?w) \<and> sm_prevSeq (sw_mon ?w') = sm_prevSeq (sw_mon ?w)"
      by (cases "snd p") (auto simp: w' stall_act_defs)
    then show ?thesis using snoc.prems by (intro old) simp_all
  qed
qed

lemma not_stopped_runs:
  assumes "sw_running w" "\<not> sw_stopped w" "Stop \<notin> snd ` set tr"
  shows "sw_running (stall_run tr w) \<and> \<not> sw_stopped (stall_run tr w)"
  using assms
proof (induction tr arbitrary: w)
  case (Cons p tr)
  have "sw_running (stall_do (fst p) (snd p) w) \<and> \<not> sw_stopped (stall_do (fst p) (snd p) w)"
    using Cons.prems by (cases "snd p")
      (auto simp: stall_act_defs onTick_def stall_evaluate_def Let_def split: option.splits)
  then show ?case using Cons by simp
qed simp

text \<open>The watchdog has reported since the main goroutine last finished an \<^verbatim>\<open>Update\<close>.\<close>

definition episode_reported :: "64 word \<times> 64 word \<Rightarrow> (time \<times> stall_act) list \<Rightarrow> bool" where
  "episode_reported pd tr \<longleftrightarrow>
     (\<exists>tra trb. tr = tra @ trb \<and> ExitUpdate \<notin> snd ` set trb \<and>
        length (sw_reports (stall_run tra (stall_init (Some pd)))) < length (sw_reports (stall_run tr (stall_init (Some pd)))))"

lemma spent_reported:
  assumes s: "spent (stall_run tr (stall_init (Some pd)))" and l: "length tr < 2 ^ 64"
  shows "episode_reported pd tr"
proof -
  let ?m = "sw_mon (stall_run tr (stall_init (Some pd)))"
  from s have "sm_dumped ?m" and e: "sm_updateSeq ?m = sm_prevSeq ?m" by (simp_all add: spent_def Let_def)
  from dumped_has_report [OF this(1)] obtain tra trb where t: "tr = tra @ trb" "sm_prevSeq ?m = of_nat (exits tra)"
    "length (sw_reports (stall_run tra (stall_init (Some pd)))) < length (sw_reports (stall_run tr (stall_init (Some pd))))"
    by blast
  have "(of_nat (exits tr) :: 64 word) = of_nat (exits tra)"
    using e t(2) knows_run [of pd tr] by (simp add: knows_def)
  moreover have "exits tr \<le> length tr" "exits tra \<le> length tra"
    using count_le_length [of "map snd tr" ExitUpdate] count_le_length [of "map snd tra" ExitUpdate] by simp_all
  ultimately have "exits tr = exits tra" using l t(1) by (intro of_nat_word64_inj) auto
  then have "ExitUpdate \<notin> snd ` set trb" using t(1) by (simp add: count_split count_list_0_iff)
  then show ?thesis using t unfolding episode_reported_def by blast
qed

text \<open>
  A stall is reported: when the main goroutine sits in a call it entered more than three seconds ago, the tick at
  \<open>now\<close> leaves the episode reported, by this tick or one before it, as long as the monitor is not stopped.
\<close>
theorem stall_is_reported:
  assumes "tr = tr1 @ (t0, a) # tr2" "enter_act a" "\<forall>q \<in> set tr2. \<not> main_act (snd q)" "now - t0 > stallThreshold"
    "Stop \<notin> snd ` set tr" "length tr + 1 < 2 ^ 64"
  shows "episode_reported pd (tr @ [(now, Tick ok)])"
proof -
  let ?w = "stall_run tr (stall_init (Some pd))"
  have w: "?w = stall_run tr2 (stall_do t0 a (stall_run tr1 (stall_init (Some pd))))" using assms(1) by simp
  have keep: "sm_phase (sw_mon (stall_run xs w)) = sm_phase (sw_mon w) \<and> sm_phaseStart (sw_mon (stall_run xs w)) = sm_phaseStart (sw_mon w)"
    if "\<forall>q \<in> set xs. \<not> main_act (snd q)" for xs w
    using that
  proof (induction xs arbitrary: w)
    case (Cons p xs)
    have "sm_phase (sw_mon (stall_do (fst p) (snd p) w)) = sm_phase (sw_mon w) \<and>
        sm_phaseStart (sw_mon (stall_do (fst p) (snd p) w)) = sm_phaseStart (sw_mon w)"
      using Cons.prems by (cases "snd p")
        (auto simp: stall_act_defs main_act_def onTick_def stall_evaluate_def Let_def split: option.splits)
    then show ?case using Cons by simp
  qed simp
  have "sm_phase (sw_mon (stall_do t0 a (stall_run tr1 (stall_init (Some pd))))) \<noteq> PhaseIdle \<and>
     sm_phaseStart (sw_mon (stall_do t0 a (stall_run tr1 (stall_init (Some pd))))) = t0"
    using assms(2) by (cases a) (simp_all add: enter_act_def stall_act_defs)
  then have ph: "sm_phase (sw_mon ?w) \<noteq> PhaseIdle" "sm_phaseStart (sw_mon ?w) = t0"
    using keep [OF assms(3)] w by simp_all
  have th: "sm_threshold (sw_mon ?w) = stallThreshold" using knows_run [of pd tr] by (simp add: knows_def)
  have run: "sw_running ?w"
    using not_stopped_runs [OF _ _ assms(5), of "stall_init (Some pd)"] by (simp add: stall_init_def)
  have "spent (onTick ok now ?w)"
  proof (cases rule: onTick_cases [of ok now ?w])
    case quiet
    let ?m = "rebase now (push_now (sw_counters ?w)) (sw_mon ?w)"
    have "sm_phase ?m = sm_phase (sw_mon ?w)" "sm_phaseStart ?m = t0" "sm_threshold ?m = stallThreshold"
      using ph th by (simp_all add: rebase_def)
    then have "sm_dumped ?m" using quiet(2) ph assms(4) by (simp add: stall_verdict_def split: if_splits)
    then show ?thesis using quiet(1) by (simp add: spent_def rebase_seq Let_def)
  qed
  then show ?thesis using run assms(6) by (intro spent_reported) (simp_all add: stall_do_def)
qed

section \<open>Concrete runs\<close>

text \<open>An \<^verbatim>\<open>Update\<close> that hangs for four seconds, with a tick every second.\<close>

definition hung_update :: "(time \<times> stall_act) list" where
  "hung_update = [(0, Tick True), (1000000000, EnterUpdate ''KeyMsg'' ''normal'' 2 1), (2000000000, Tick True),
     (3000000000, Tick True), (4000000000, Tick True), (5000000000, Tick True), (6000000000, Tick True)]"

lemma stall_once_witness:
  "\<exists>new. sw_reports (stall_run hung_update (stall_init (Some (0, 0)))) = sw_reports (stall_init (Some (0, 0))) @ new \<and>
     length new \<le> 1 \<and> sw_recovered (stall_run hung_update (stall_init (Some (0, 0)))) \<le>
       sw_recovered (stall_init (Some (0, 0))) + length (filter (\<lambda>r. snd r = StallStarved) new)"
  by (rule stall_once) (simp add: hung_update_def)

lemma hung_update_reports: "sw_reports (stall_run hung_update (stall_init (Some (0, 0)))) = [(5000000000, StallInCall)]"
  by code_simp


lemma stall_is_reported_witness: "episode_reported (0, 0) (take 6 hung_update @ [(6000000000, Tick True)])"
  by (rule stall_is_reported [where ?t0.0 = 1000000000 and a = "EnterUpdate ''KeyMsg'' ''normal'' 2 1" and
        ?tr1.0 = "[(0, Tick True)]" and ?tr2.0 = "drop 2 (take 6 hung_update)"])
    (simp_all add: hung_update_def enter_act_def main_act_def stallThreshold_def)

text \<open>The other kind: \<^verbatim>\<open>Update\<close> is never entered while the daemon keeps pushing.\<close>

lemma starved_example:
  "sw_reports (stall_run [(0, SetRecover), (0, Tick True), (2000000000, Pushed), (4000000000, Tick False), (5000000000, Tick True)]
     (stall_init (Some (7, 0)))) = [(4000000000, StallStarved)]"
  by code_simp

end
