(* ===== verification/Watch.thy ===== *)
theory Watch
  imports Disk
begin

text \<open>
  \<^verbatim>\<open>internal/watch/watcher.go\<close>: the classification of raw file events and the debouncing loop between fsnotify and
  the board.  A path is the list of its components below the configuration directory, as in theory Disk, so
  \<^verbatim>\<open>filepath.Base\<close> is the last component and \<^verbatim>\<open>filepath.Dir\<close> the rest; the configuration directory itself is the
  empty list, and an event for it is never wanted.  fsnotify is the environment: it offers events and errors to the
  loop in any order.
\<close>

section \<open>Classification\<close>

datatype Domain = DomainUnknown | DomainConfig | DomainProjects | DomainTicket

fun Domain_String :: "Domain \<Rightarrow> string" where
  "Domain_String DomainConfig = ''config''"
| "Domain_String DomainProjects = ''projects''"
| "Domain_String DomainTicket = ''ticket''"
| "Domain_String DomainUnknown = ''unknown''"

record Event =
  we_Domain :: Domain
  we_Path :: path
  we_ProjectID :: string

datatype fsop = OpCreate | OpWrite | OpRemove | OpRename | OpChmod

definition isIgnored :: "string \<Rightarrow> bool" where
  "isIgnored name \<longleftrightarrow>
     name = [] \<or> name = ''.'' \<or> name = ''..'' \<or> has_suffix name ''.tmp'' \<or> has_suffix name ''.swp'' \<or>
     has_suffix name ''~'' \<or> has_prefix name ''.'' \<or> name = ''4913''"

definition classify :: "path \<Rightarrow> fsop set \<Rightarrow> Event option" where
  "classify p ops =
     (if p = [] then None
      else if isIgnored (last p) then None
      else if OpWrite \<notin> ops \<and> OpCreate \<notin> ops \<and> OpRename \<notin> ops \<and> OpRemove \<notin> ops then None
      else if butlast p = [] then
        (if last p = ''config.json'' then Some \<lparr>we_Domain = DomainConfig, we_Path = p, we_ProjectID = []\<rparr>
         else if last p = ''projects.json'' then Some \<lparr>we_Domain = DomainProjects, we_Path = p, we_ProjectID = []\<rparr>
         else None)
      else if butlast (butlast p) = [''tickets''] \<and> has_suffix (last p) ''.md'' then
        Some \<lparr>we_Domain = DomainTicket, we_Path = p, we_ProjectID = last (butlast p)\<rparr>
      else None)"

definition changes :: "fsop set \<Rightarrow> bool" where
  "changes ops \<longleftrightarrow> ops \<inter> {OpCreate, OpWrite, OpRemove, OpRename} \<noteq> {}"

lemma classify_ops: "classify p ops \<noteq> None \<Longrightarrow> changes ops"
  by (auto simp: classify_def changes_def split: if_splits)

text \<open>
  What the loop accepts, exactly: the two files of the configuration directory and the Markdown files two levels down in
  \<^verbatim>\<open>tickets\<close>, under a name that is no editor's or writer's scratch file, for every kind of change but a bare change
  of mode.
\<close>
theorem classify_exact:
  "classify p ops = Some e \<longleftrightarrow>
     changes ops \<and>
     ((p = [''config.json''] \<and> e = \<lparr>we_Domain = DomainConfig, we_Path = p, we_ProjectID = []\<rparr>) \<or>
      (p = [''projects.json''] \<and> e = \<lparr>we_Domain = DomainProjects, we_Path = p, we_ProjectID = []\<rparr>) \<or>
      (\<exists>pid f. p = [''tickets'', pid, f] \<and> has_suffix f ''.md'' \<and> \<not> isIgnored f \<and>
         e = \<lparr>we_Domain = DomainTicket, we_Path = p, we_ProjectID = pid\<rparr>))"
proof -
  have ops: "(OpWrite \<notin> ops \<and> OpCreate \<notin> ops \<and> OpRename \<notin> ops \<and> OpRemove \<notin> ops) = (\<not> changes ops)"
    by (auto simp: changes_def)
  have ign: "\<not> isIgnored ''config.json''" "\<not> isIgnored ''projects.json''"
    by code_simp+
  consider "p = []" | x where "p = [x]" | x y where "p = [x, y]" | x y z where "p = [x, y, z]"
    | x y z u v where "p = x # y # z # u # v"
    by (metis list.exhaust)
  then show ?thesis
  proof cases
    case 5
    then have "butlast (butlast p) \<noteq> [''tickets'']" by simp
    with 5 show ?thesis by (auto simp: classify_def)
  qed (use ign in \<open>auto simp: classify_def ops\<close>)
qed

text \<open>The temporary files of the atomic writes are never reported, nor is a vim probe or swap file.\<close>

lemma temp_not_classified:
  assumes "r \<noteq> []" "\<forall>c \<in> set r. c \<in> set ''0123456789''"
  shows "classify (dir @ [tmp_name base r]) ops = None"
proof -
  have l: "last (tmp_name base r) = last r" using assms(1) by (simp add: tmp_name_def)
  have "last r \<in> set r" using assms(1) by simp
  then have "last r \<noteq> CHR ''d'' \<and> last r \<noteq> CHR ''n''" using assms(2) by fastforce
  then have "\<not> has_suffix (tmp_name base r) ''.md''" "tmp_name base r \<noteq> ''config.json''" "tmp_name base r \<noteq> ''projects.json''"
    using l by (auto simp: suffix_def)
  then show ?thesis by (simp add: classify_def)
qed

section \<open>The watcher\<close>

datatype wloop = AtSelect | Flushing | LoopEnded

record Watcher =
  wa_watched :: "path list"
  wa_debounce :: time
  wa_pending :: "Event list"
  wa_timer :: "time option"
  wa_loop :: wloop
  wa_out :: "Event list"
  wa_done :: bool

definition out_cap :: nat where "out_cap = 16"

definition defaultDebounce :: time where "defaultDebounce = 100000000"

datatype watch_error = WE_new string | WE_add path string | WE_stat path | WE_remove path string

text \<open>\<^verbatim>\<open>fsnotify.NewWatcher\<close>, \<^verbatim>\<open>Add\<close> and \<^verbatim>\<open>Remove\<close> are parameters that may fail.\<close>

definition NewWithDebounce :: "string option \<Rightarrow> (path \<Rightarrow> string option) \<Rightarrow> time \<Rightarrow> watch_error + Watcher" where
  "NewWithDebounce mk add debounce =
     (case mk of
        Some e \<Rightarrow> Inl (WE_new e)
      | None \<Rightarrow>
          (case add [] of
             Some e \<Rightarrow> Inl (WE_add [] e)
           | None \<Rightarrow> Inr \<lparr>wa_watched = [[]], wa_debounce = debounce, wa_pending = [], wa_timer = None, wa_loop = AtSelect,
                          wa_out = [], wa_done = False\<rparr>))"

definition Watch_New :: "string option \<Rightarrow> (path \<Rightarrow> string option) \<Rightarrow> watch_error + Watcher" where
  "Watch_New mk add = NewWithDebounce mk add defaultDebounce"

definition Watch_AddProject :: "faults \<Rightarrow> disk \<Rightarrow> (path \<Rightarrow> string option) \<Rightarrow> string \<Rightarrow> Watcher \<Rightarrow> Watcher \<times> watch_error option" where
  "Watch_AddProject F d add pid w =
     (let dir = [''tickets'', pid] in
      if \<not> os_Exists F dir d then (w, Some (WE_stat dir))
      else case add dir of
        Some e \<Rightarrow> (w, Some (WE_add dir e))
      | None \<Rightarrow> (w\<lparr>wa_watched := wa_watched w @ [dir]\<rparr>, None))"

definition Watch_RemoveProject :: "(path \<Rightarrow> string option) \<Rightarrow> string \<Rightarrow> Watcher \<Rightarrow> Watcher \<times> watch_error option" where
  "Watch_RemoveProject remove pid w =
     (let dir = [''tickets'', pid] in
      case remove dir of
        Some e \<Rightarrow> (w, Some (WE_remove dir e))
      | None \<Rightarrow> (w\<lparr>wa_watched := filter (\<lambda>p. p \<noteq> dir) (wa_watched w)\<rparr>, None))"

definition Watch_Close :: "Watcher \<Rightarrow> Watcher" where
  "Watch_Close w = w\<lparr>wa_done := True\<rparr>"

text \<open>
  One turn of the loop's select, or of the sends inside the timer case.  A map insert is an insert into a list without
  duplicates; stopping, draining and resetting the timer leave it due one debounce later.  A turn that is not
  enabled changes nothing.
\<close>

datatype watch_act =
    FsEvent path "fsop set" | FsError | FsClosed | DoneSeen | TimerFires | SendPending Event | FlushEnds | FlushAborts
  | Receive | CloseCalled

definition loop_event :: "time \<Rightarrow> path \<Rightarrow> fsop set \<Rightarrow> Watcher \<Rightarrow> Watcher" where
  "loop_event now p ops w =
     (case classify p ops of
        None \<Rightarrow> w
      | Some e \<Rightarrow> w\<lparr>wa_pending := (if e \<in> set (wa_pending w) then wa_pending w else wa_pending w @ [e]),
                     wa_timer := Some (now + wa_debounce w)\<rparr>)"

definition watch_do :: "time \<Rightarrow> watch_act \<Rightarrow> Watcher \<Rightarrow> Watcher" where
  "watch_do now a w =
     (case a of
        FsEvent p ops \<Rightarrow> if wa_loop w = AtSelect then loop_event now p ops w else w
      | FsError \<Rightarrow> w
      | FsClosed \<Rightarrow> if wa_loop w = AtSelect \<and> wa_done w then w\<lparr>wa_loop := LoopEnded\<rparr> else w
      | DoneSeen \<Rightarrow> if wa_loop w = AtSelect \<and> wa_done w then w\<lparr>wa_loop := LoopEnded\<rparr> else w
      | TimerFires \<Rightarrow>
          (case wa_timer w of
             None \<Rightarrow> w
           | Some due \<Rightarrow> if wa_loop w = AtSelect \<and> due \<le> now then w\<lparr>wa_loop := Flushing\<rparr> else w)
      | SendPending e \<Rightarrow>
          if wa_loop w = Flushing \<and> e \<in> set (wa_pending w) \<and> length (wa_out w) < out_cap then
            w\<lparr>wa_out := wa_out w @ [e], wa_pending := filter (\<lambda>x. x \<noteq> e) (wa_pending w)\<rparr>
          else w
      | FlushEnds \<Rightarrow> if wa_loop w = Flushing \<and> wa_pending w = [] then w\<lparr>wa_timer := None, wa_loop := AtSelect\<rparr> else w
      | FlushAborts \<Rightarrow> if wa_loop w = Flushing \<and> wa_done w then w\<lparr>wa_loop := LoopEnded\<rparr> else w
      | Receive \<Rightarrow> w\<lparr>wa_out := tl (wa_out w)\<rparr>
      | CloseCalled \<Rightarrow> Watch_Close w)"

definition watch_run :: "(time \<times> watch_act) list \<Rightarrow> Watcher \<Rightarrow> Watcher" where
  "watch_run tr w = fold (\<lambda>(t, a). watch_do t a) tr w"

lemma watch_run_simps [simp]:
  "watch_run [] w = w"
  "watch_run (p # tr) w = watch_run tr (watch_do (fst p) (snd p) w)"
  "watch_run (tr @ tr') w = watch_run tr' (watch_run tr w)"
  by (simp_all add: watch_run_def case_prod_beta)

lemmas watch_defs = watch_do_def loop_event_def Watch_Close_def

section \<open>Nothing is lost, nothing waits for ever\<close>

text \<open>What a turn accepts from fsnotify, and what it puts on the channel.\<close>

definition accepts :: "watch_act \<Rightarrow> Watcher \<Rightarrow> Event option" where
  "accepts a w = (case a of FsEvent p ops \<Rightarrow> if wa_loop w = AtSelect then classify p ops else None | _ \<Rightarrow> None)"

definition emits :: "watch_act \<Rightarrow> Watcher \<Rightarrow> Event option" where
  "emits a w =
     (case a of
        SendPending e \<Rightarrow>
          if wa_loop w = Flushing \<and> e \<in> set (wa_pending w) \<and> length (wa_out w) < out_cap then Some e else None
      | _ \<Rightarrow> None)"

fun emitted :: "(time \<times> watch_act) list \<Rightarrow> Watcher \<Rightarrow> Event list" where
  "emitted [] w = []"
| "emitted (p # tr) w =
     (case emits (snd p) w of None \<Rightarrow> [] | Some e \<Rightarrow> [e]) @ emitted tr (watch_do (fst p) (snd p) w)"

fun received :: "(time \<times> watch_act) list \<Rightarrow> Watcher \<Rightarrow> Event list" where
  "received [] w = []"
| "received (p # tr) w =
     (if snd p = Receive \<and> wa_out w \<noteq> [] then [hd (wa_out w)] else []) @ received tr (watch_do (fst p) (snd p) w)"

lemma step_pending:
  "e \<in> set (wa_pending (watch_do t a w)) \<longleftrightarrow>
     (e \<in> set (wa_pending w) \<or> accepts a w = Some e) \<and> emits a w \<noteq> Some e"
  by (cases a) (auto simp: watch_defs accepts_def emits_def split: option.splits if_splits)

lemma pending_or_emitted:
  "e \<in> set (wa_pending w) \<Longrightarrow> e \<in> set (wa_pending (watch_run tr w)) \<or> e \<in> set (emitted tr w)"
proof (induction tr arbitrary: w)
  case (Cons p tr)
  then show ?case
    using step_pending [of e "fst p" "snd p" w] Cons.IH [of "watch_do (fst p) (snd p) w"]
    by (cases "emits (snd p) w = Some e") auto
qed simp

text \<open>
  No change is lost: an event accepted at any point of any run is emitted after that point or still pending at the end.
  In particular an event that was emitted before and happens again is emitted again.
\<close>
theorem watch_no_lost_event:
  assumes "accepts a (watch_run tr w) = Some e"
  shows "e \<in> set (wa_pending (watch_run (tr @ (t, a) # tr') w)) \<or>
     e \<in> set (emitted tr' (watch_do t a (watch_run tr w)))"
proof -
  have "emits a (watch_run tr w) \<noteq> Some e"
    using assms by (cases a) (auto simp: accepts_def emits_def)
  then have "e \<in> set (wa_pending (watch_do t a (watch_run tr w)))"
    using assms by (simp add: step_pending)
  then show ?thesis using pending_or_emitted by simp
qed

definition watch_inv :: "Watcher \<Rightarrow> bool" where
  "watch_inv w \<longleftrightarrow> distinct (wa_pending w) \<and> length (wa_out w) \<le> out_cap \<and>
     (wa_pending w \<noteq> [] \<and> wa_loop w = AtSelect \<longrightarrow> wa_timer w \<noteq> None)"

lemma watch_inv_step: "watch_inv w \<Longrightarrow> watch_inv (watch_do t a w)"
  by (cases a) (auto simp: watch_inv_def watch_defs split: option.splits)

lemma watch_inv_run: "watch_inv w \<Longrightarrow> watch_inv (watch_run tr w)"
  by (induction tr arbitrary: w) (auto simp: watch_inv_step)

lemma watch_inv_new: "NewWithDebounce mk add deb = Inr w \<Longrightarrow> watch_inv w"
  by (auto simp: NewWithDebounce_def watch_inv_def split: option.splits)

lemma emitted_append: "emitted (xs @ ys) w = emitted xs w @ emitted ys (watch_run xs w)"
  by (induction xs arbitrary: w) auto

lemma received_append: "received (xs @ ys) w = received xs w @ received ys (watch_run xs w)"
  by (induction xs arbitrary: w) auto

text \<open>The channel is a queue: what was received, and what it still holds, is what was emitted.\<close>

lemma channel_fifo: "received tr w @ wa_out (watch_run tr w) = wa_out w @ emitted tr w"
proof (induction tr arbitrary: w)
  case (Cons p tr)
  have "(if snd p = Receive \<and> wa_out w \<noteq> [] then [hd (wa_out w)] else []) @ wa_out (watch_do (fst p) (snd p) w) =
      wa_out w @ (case emits (snd p) w of None \<Rightarrow> [] | Some e \<Rightarrow> [e])"
    by (cases "snd p") (auto simp: watch_defs emits_def split: option.splits)
  then show ?case using Cons [of "watch_do (fst p) (snd p) w"] by (metis append_assoc emitted.simps(2) received.simps(2) watch_run_simps(2))
qed simp

text \<open>The schedule that empties the watcher when nothing more happens on the disk.\<close>

definition drain_schedule :: "time \<Rightarrow> Watcher \<Rightarrow> (time \<times> watch_act) list" where
  "drain_schedule now w =
     replicate (length (wa_out w)) (now, Receive) @ (now, TimerFires) #
       concat (map (\<lambda>e. [(now, SendPending e), (now, Receive)]) (wa_pending w)) @ [(now, FlushEnds)]"

lemma receive_all: "watch_run (replicate (length (wa_out w)) (t, Receive)) w = w\<lparr>wa_out := []\<rparr>"
proof (induction "wa_out w" arbitrary: w)
  case (Cons x xs)
  from Cons(2) have "wa_out w = x # xs" by simp
  moreover have "xs = wa_out (w\<lparr>wa_out := xs\<rparr>)" by simp
  from Cons(1) [OF this] have "watch_run (replicate (length xs) (t, Receive)) (w\<lparr>wa_out := xs\<rparr>) = w\<lparr>wa_out := []\<rparr>"
    by simp
  ultimately show ?case by (simp add: watch_do_def)
qed simp

lemma flush_all:
  assumes "wa_loop w = Flushing" "wa_out w = []" "distinct (wa_pending w)"
  shows "watch_run (concat (map (\<lambda>e. [(t, SendPending e), (t, Receive)]) (wa_pending w))) w = w\<lparr>wa_pending := []\<rparr> \<and>
     emitted (concat (map (\<lambda>e. [(t, SendPending e), (t, Receive)]) (wa_pending w))) w = wa_pending w"
  using assms
proof (induction "wa_pending w" arbitrary: w)
  case (Cons x xs)
  let ?w = "w\<lparr>wa_pending := xs\<rparr>"
  have p: "wa_pending w = x # xs" using Cons(2) by simp
  have "filter (\<lambda>y. y \<noteq> x) xs = xs" using Cons.prems(3) p by (auto simp: filter_id_conv)
  then have s: "watch_do t Receive (watch_do t (SendPending x) w) = ?w"
    using p Cons.prems by (simp add: watch_do_def out_cap_def)
  have e: "emits (SendPending x) w = Some x" "emits Receive (watch_do t (SendPending x) w) = None"
    using p Cons.prems by (simp_all add: emits_def out_cap_def)
  have "watch_run (concat (map (\<lambda>e. [(t, SendPending e), (t, Receive)]) xs)) ?w = w\<lparr>wa_pending := []\<rparr> \<and>
      emitted (concat (map (\<lambda>e. [(t, SendPending e), (t, Receive)]) xs)) ?w = xs"
    using Cons(1) [of ?w] Cons.prems p by simp
  then show ?case by (simp add: p s e)
qed simp


section \<open>The debounce\<close>

lemma timer_step:
  "wa_timer (watch_do t a w) =
     (if accepts a w \<noteq> None then Some (t + wa_debounce w)
      else if a = FlushEnds \<and> wa_loop w = Flushing \<and> wa_pending w = [] then None else wa_timer w) \<and>
   wa_debounce (watch_do t a w) = wa_debounce w"
  by (cases a) (auto simp: watch_defs accepts_def split: option.splits)

text \<open>
  Bursts are coalesced: when the timer fires, every change of the window arrived at least one debounce ago, however
  many there were.
\<close>
theorem watch_debounced:
  assumes "wa_loop (watch_run tr w) = AtSelect" "wa_loop (watch_do now TimerFires (watch_run tr w)) = Flushing"
    and "tr = tr1 @ (t, a) # tr2" "accepts a (watch_run tr1 w) \<noteq> None" "sorted (map fst tr)"
  shows "t + wa_debounce w \<le> now"
proof -
  let ?due = "\<lambda>v. \<forall>d. wa_timer v = Some d \<longrightarrow> t + wa_debounce w \<le> d"
  have deb: "wa_debounce (watch_run xs v) = wa_debounce v" for xs v
    by (induction xs arbitrary: v) (auto simp: timer_step)
  have keep: "?due (watch_run xs v)" if "?due v" "\<forall>p \<in> set xs. t \<le> fst p" "wa_debounce v = wa_debounce w" for xs v
    using that
  proof (induction xs arbitrary: v)
    case (Cons p xs)
    have due: "?due (watch_do (fst p) (snd p) v)" using Cons.prems by (auto simp: timer_step split: if_splits)
    have deb: "wa_debounce (watch_do (fst p) (snd p) v) = wa_debounce w" using Cons.prems by (simp add: timer_step)
    have "\<forall>q \<in> set xs. t \<le> fst q" using Cons.prems by simp
    from Cons.IH [OF due this deb] show ?case by (simp only: watch_run_simps)
  qed simp
  have "?due (watch_do t a (watch_run tr1 w))" using assms(4) by (simp add: timer_step deb)
  moreover have "\<forall>p \<in> set tr2. t \<le> fst p" using assms(3,5) by (auto simp: sorted_append)
  ultimately have "?due (watch_run tr2 (watch_do t a (watch_run tr1 w)))"
    by (intro keep) (simp_all add: timer_step deb)
  then have "?due (watch_run tr w)" using assms(3) by simp
  then show ?thesis using assms(1,2) by (auto simp: watch_do_def split: option.splits if_splits)
qed

section \<open>A concrete run\<close>

definition save_burst :: "(time \<times> watch_act) list" where
  "save_burst =
     [(0, FsEvent [''tickets'', ''p1'', ''.t.md.swp''] {OpCreate}),
      (1, FsEvent [''tickets'', ''p1'', ''t.md''] {OpWrite}),
      (2, FsEvent [''tickets'', ''p1'', ''t.md''] {OpRename, OpCreate}),
      (3, FsEvent [''projects.json''] {OpWrite})]"

definition burst_watcher :: Watcher where
  "burst_watcher = \<lparr>wa_watched = [[]], wa_debounce = 100, wa_pending = [], wa_timer = None, wa_loop = AtSelect,
     wa_out = [], wa_done = False\<rparr>"

lemma burst_new: "NewWithDebounce None (\<lambda>_. None) 100 = Inr burst_watcher"
  by (simp add: NewWithDebounce_def burst_watcher_def)

definition t_md :: Event where
  "t_md = \<lparr>we_Domain = DomainTicket, we_Path = [''tickets'', ''p1'', ''t.md''], we_ProjectID = ''p1''\<rparr>"

definition projects_json :: Event where
  "projects_json = \<lparr>we_Domain = DomainProjects, we_Path = [''projects.json''], we_ProjectID = []\<rparr>"

lemma burst_classify:
  "classify [''tickets'', ''p1'', ''.t.md.swp''] {OpCreate} = None"
  "classify [''tickets'', ''p1'', ''t.md''] {OpWrite} = Some t_md"
  "classify [''tickets'', ''p1'', ''t.md''] {OpRename, OpCreate} = Some t_md"
  "classify [''projects.json''] {OpWrite} = Some projects_json"
  by code_simp+

lemma burst_pending: "watch_run save_burst burst_watcher =
   burst_watcher\<lparr>wa_pending := [t_md, projects_json], wa_timer := Some 103\<rparr>"
  by (simp add: save_burst_def burst_watcher_def watch_do_def loop_event_def burst_classify)
     (simp add: t_md_def projects_json_def)

lemma watch_no_lost_event_witness:
  "projects_json \<in> set (wa_pending (watch_run (take 3 save_burst @ (3, FsEvent [''projects.json''] {OpWrite}) # [(103, TimerFires)]) burst_watcher)) \<or>
   projects_json \<in> set (emitted [(103, TimerFires)] (watch_do 3 (FsEvent [''projects.json''] {OpWrite}) (watch_run (take 3 save_burst) burst_watcher)))"
  by (rule watch_no_lost_event)
    (simp add: save_burst_def burst_watcher_def watch_do_def loop_event_def burst_classify accepts_def)


lemma watch_debounced_witness: "2 + wa_debounce burst_watcher \<le> 103"
  by (rule watch_debounced [where tr = save_burst and ?tr1.0 = "take 2 save_burst" and ?tr2.0 = "drop 3 save_burst" and
        a = "FsEvent [''tickets'', ''p1'', ''t.md''] {OpRename, OpCreate}"])
    (simp_all add: burst_pending, simp_all add: save_burst_def burst_watcher_def watch_do_def loop_event_def burst_classify accepts_def)

end
