(* ===== verification/BoardLayout.thy ===== *)
theory BoardLayout
  imports Prelude
begin

text \<open>
  The vertical layout of a column of the board, \<^verbatim>\<open>internal/ui/model.go\<close> and \<^verbatim>\<open>view.go\<close>: how many cards
  \<^verbatim>\<open>renderColumn\<close> packs below the scroll offset, how \<^verbatim>\<open>ensureTicketVisible\<close> and \<^verbatim>\<open>compactColumnOffsets\<close> choose that
  offset, and which card \<^verbatim>\<open>hitTestTicket\<close> finds under the mouse.  Cards are measured by a function \<open>h\<close> from their
  index to their height in rows; \<open>n\<close> is the number of cards and \<open>content\<close> the rows of the column below its header.
\<close>

definition ticketHeight :: int where "ticketHeight = 8"

definition columnHeaderHeight :: int where "columnHeaderHeight = 3"

definition headerHeight :: int where "headerHeight = 1 + 1 + 2"

definition boardAreaHeight :: "int \<Rightarrow> int" where
  "boardAreaHeight height = height - headerHeight - 1 - 1 - 1"

definition columnContentHeight :: "int \<Rightarrow> int" where
  "columnContentHeight height = boardAreaHeight height - columnHeaderHeight - 1"

text \<open>The cached height of a card, with the fallback for a card that was never rendered.\<close>

definition heightOf :: "int list \<Rightarrow> int \<Rightarrow> int" where
  "heightOf heights i = (if i < int (length heights) \<and> heights ! nat i > 0 then heights ! nat i else ticketHeight)"

lemma heightOf_pos: "heightOf heights i > 0"
  by (simp add: heightOf_def ticketHeight_def)

section \<open>Packing\<close>

text \<open>A row is kept for the overflow indicator while cards remain below.\<close>

definition reserve :: "int \<Rightarrow> int \<Rightarrow> int" where
  "reserve n i = (if i < n - 1 then 1 else 0)"

function pack_loop :: "(int \<Rightarrow> int) \<Rightarrow> int \<Rightarrow> int \<Rightarrow> int \<Rightarrow> int" where
  "pack_loop h n budget i =
     (if i \<ge> n then i
      else if h i + reserve n i > budget then i
      else pack_loop h n (budget - h i) (i + 1))"
  by pat_completeness auto
termination by (relation "measure (\<lambda>(h, n, budget, i). nat (n - i))") auto

declare pack_loop.simps [simp del]

definition budget_at :: "int \<Rightarrow> int \<Rightarrow> int" where
  "budget_at content offset = (if offset > 0 then content - 1 else content)"

text \<open>The index after the last card \<^verbatim>\<open>renderColumn\<close> shows.\<close>

definition render_end :: "(int \<Rightarrow> int) \<Rightarrow> int \<Rightarrow> int \<Rightarrow> int \<Rightarrow> int" where
  "render_end h n content offset =
     (let e = pack_loop h n (budget_at content offset) offset in
      if e = offset \<and> offset < n then offset + 1 else e)"

section \<open>Scrolling to the cursor\<close>

function fits_loop :: "(int \<Rightarrow> int) \<Rightarrow> int \<Rightarrow> int \<Rightarrow> int \<Rightarrow> int \<Rightarrow> int \<Rightarrow> bool" where
  "fits_loop h n active budget used i =
     (if i \<ge> n then False
      else if used + h i + reserve n i > budget then False
      else if i = active then True
      else fits_loop h n active budget (used + h i) (i + 1))"
  by pat_completeness auto
termination by (relation "measure (\<lambda>(h, n, active, budget, used, i). nat (n - i))") auto

declare fits_loop.simps [simp del]

function ensure_loop :: "(int \<Rightarrow> int) \<Rightarrow> int \<Rightarrow> int \<Rightarrow> int \<Rightarrow> int \<Rightarrow> int \<Rightarrow> int" where
  "ensure_loop h n active content budget offset =
     (if fits_loop h n active budget 0 offset \<or> offset \<ge> active then offset
      else ensure_loop h n active content (content - 1) (offset + 1))"
  by pat_completeness auto
termination by (relation "measure (\<lambda>(h, n, active, content, budget, offset). nat (active - offset))") auto

declare ensure_loop.simps [simp del]

definition ensure_offset :: "(int \<Rightarrow> int) \<Rightarrow> int \<Rightarrow> int \<Rightarrow> int \<Rightarrow> int \<Rightarrow> int" where
  "ensure_offset h n content active offset =
     (if active < offset then active
      else max (ensure_loop h n active content (budget_at content offset) offset) 0)"

section \<open>Compaction after a filter\<close>

function compact_loop :: "int \<Rightarrow> int \<Rightarrow> int \<Rightarrow> int" where
  "compact_loop budget used j =
     (if j < 0 then 0
      else if used + ticketHeight + (if j > 0 then 1 else 0) > budget then j + 1
      else compact_loop budget (used + ticketHeight) (j - 1))"
  by pat_completeness auto
termination by (relation "measure (\<lambda>(budget, used, j). nat (j + 1))") auto

declare compact_loop.simps [simp del]

definition compact_offset :: "int \<Rightarrow> int \<Rightarrow> int \<Rightarrow> int" where
  "compact_offset budget n offset =
     (if n = 0 then 0
      else let target = compact_loop budget 0 (n - 1) in if target > offset then offset else target)"

section \<open>Finding the card under the mouse\<close>

function hit_loop :: "(int \<Rightarrow> int) \<Rightarrow> int \<Rightarrow> int \<Rightarrow> int \<Rightarrow> int \<Rightarrow> int" where
  "hit_loop h n y cum i =
     (if i \<ge> n then - 1
      else if y < cum + h i then i
      else hit_loop h n y (cum + h i) (i + 1))"
  by pat_completeness auto
termination by (relation "measure (\<lambda>(h, n, y, cum, i). nat (n - i))") auto

declare hit_loop.simps [simp del]

definition hit_card :: "(int \<Rightarrow> int) \<Rightarrow> int \<Rightarrow> int \<Rightarrow> int \<Rightarrow> int" where
  "hit_card h n offset relativeY =
     (if n = 0 then - 1
      else let y = relativeY - columnHeaderHeight in
        if y < 0 then - 1
        else let y' = (if offset > 0 then y - 1 else y) in
          if y' < 0 then - 1 else hit_loop h n y' 0 offset)"

section \<open>What the loops compute\<close>

definition rows :: "(int \<Rightarrow> int) \<Rightarrow> int \<Rightarrow> int \<Rightarrow> int" where
  "rows h a b = sum h {a..<b}"

lemma rows_self [simp]: "rows h a a = 0"
  by (simp add: rows_def)

lemma rows_step: "a < b \<Longrightarrow> rows h a b = h a + rows h (a + 1) b"
proof -
  assume "a < b"
  then have "{a..<b} = insert a {a + 1..<b}" by auto
  then show ?thesis by (simp add: rows_def)
qed

lemma rows_last: "a \<le> b \<Longrightarrow> rows h a (b + 1) = rows h a b + h b"
proof -
  assume "a \<le> b"
  then have "{a..<b + 1} = insert b {a..<b}" by auto
  then show ?thesis by (simp add: rows_def)
qed

lemma rows_nonneg: "(\<And>i. h i > 0) \<Longrightarrow> rows h a b \<ge> 0"
  unfolding rows_def by (intro sum_nonneg) (simp add: less_imp_le)

lemma rows_split: "a \<le> b \<Longrightarrow> b \<le> c \<Longrightarrow> rows h a c = rows h a b + rows h b c"
proof -
  assume "a \<le> b" "b \<le> c"
  then have "{a..<c} = {a..<b} \<union> {b..<c}" "{a..<b} \<inter> {b..<c} = {}" by auto
  then show ?thesis by (simp add: rows_def sum.union_disjoint)
qed

lemma fits_iff:
  assumes pos: "\<And>i. h i > 0" and "i \<le> active"
  shows "fits_loop h n active budget used i \<longleftrightarrow>
     active < n \<and> used + rows h i (active + 1) + reserve n active \<le> budget"
  using assms(2)
proof (induction "nat (active - i)" arbitrary: i used)
  case 0
  then have "i = active" by simp
  then show ?case by (subst fits_loop.simps) (auto simp: rows_last)
next
  case (Suc k)
  then have lt: "i < active" by simp
  have r: "rows h i (active + 1) = h i + rows h (i + 1) active + h active"
    using lt rows_step [of i "active + 1" h] rows_last [of "i + 1" active h] by simp
  have "rows h (i + 1) active \<ge> 0" using pos by (rule rows_nonneg)
  moreover have "h active > 0" by (rule pos)
  ultimately have over: "active < n \<Longrightarrow> used + h i + reserve n i \<le> used + rows h i (active + 1) + reserve n active"
    using r lt by (simp add: reserve_def)
  have IH: "fits_loop h n active budget (used + h i) (i + 1) \<longleftrightarrow>
      active < n \<and> used + h i + rows h (i + 1) (active + 1) + reserve n active \<le> budget"
    using Suc by (intro Suc.hyps(1)) auto
  show ?case
    using lt over IH rows_step [of i "active + 1" h] by (subst fits_loop.simps) (auto simp: add.assoc)
qed

lemma pack_loop_range: "i \<le> pack_loop h n budget i \<and> (i \<le> n \<longrightarrow> pack_loop h n budget i \<le> n)"
proof (induction h n budget i rule: pack_loop.induct)
  case (1 h n budget i)
  then show ?case by (subst (1 2) pack_loop.simps) auto
qed

lemma pack_loop_fits:
  assumes pos: "\<And>i. h i > 0" and "i \<le> active" "active < n"
  shows "active < pack_loop h n budget i \<longleftrightarrow> rows h i (active + 1) + reserve n active \<le> budget"
  using assms(2)
proof (induction "nat (active - i)" arbitrary: i budget)
  case 0
  then have i: "i = active" by simp
  show ?case
  proof (cases "h i + reserve n i > budget")
    case True
    then show ?thesis using i assms(3) by (subst pack_loop.simps) (auto simp: rows_last)
  next
    case False
    then have "pack_loop h n budget i = pack_loop h n (budget - h i) (i + 1)"
      using i assms(3) by (subst pack_loop.simps) simp
    then show ?thesis using False i pack_loop_range [of "i + 1" h n "budget - h i"] by (simp add: rows_last)
  qed
next
  case (Suc k)
  then have lt: "i < active" by simp
  have r: "rows h i (active + 1) = h i + rows h (i + 1) active + h active"
    using lt rows_step [of i "active + 1" h] rows_last [of "i + 1" active h] by simp
  have "rows h (i + 1) active \<ge> 0" using pos by (rule rows_nonneg)
  moreover have "h active > 0" by (rule pos)
  ultimately have over: "h i + reserve n i \<le> rows h i (active + 1) + reserve n active"
    using r lt assms(3) by (simp add: reserve_def)
  show ?case
  proof (cases "h i + reserve n i > budget")
    case True
    then show ?thesis using over lt assms(3) by (subst pack_loop.simps) simp
  next
    case False
    then have "pack_loop h n budget i = pack_loop h n (budget - h i) (i + 1)"
      using lt assms(3) by (subst pack_loop.simps) simp
    moreover have "active < pack_loop h n (budget - h i) (i + 1) \<longleftrightarrow>
        rows h (i + 1) (active + 1) + reserve n active \<le> budget - h i"
      using Suc by (intro Suc.hyps(1)) auto
    ultimately show ?thesis using rows_step [of i "active + 1" h] lt by simp linarith
  qed
qed

text \<open>The window a column shows from an offset: full cards that fit, and at least one card.\<close>

definition fits_from :: "(int \<Rightarrow> int) \<Rightarrow> int \<Rightarrow> int \<Rightarrow> int \<Rightarrow> int \<Rightarrow> bool" where
  "fits_from h n content active offset \<longleftrightarrow>
     rows h offset (active + 1) + reserve n active \<le> budget_at content offset"

lemma shown_iff:
  assumes "\<And>i. h i > 0" "0 \<le> offset" "offset \<le> i" "i < n"
  shows "i < render_end h n content offset \<longleftrightarrow> fits_from h n content i offset \<or> i = offset"
proof -
  let ?e = "pack_loop h n (budget_at content offset) offset"
  have "i < ?e \<longleftrightarrow> fits_from h n content i offset"
    using pack_loop_fits [of h offset i n "budget_at content offset", OF assms(1)] assms by (simp add: fits_from_def)
  moreover have "offset \<le> ?e" using pack_loop_range by blast
  ultimately show ?thesis using assms by (auto simp: render_end_def Let_def)
qed

lemma ensure_loop_spec:
  assumes pos: "\<And>i. h i > 0" and "active < n"
    and "0 \<le> offset" "offset \<le> active" "budget = budget_at content offset"
  shows "offset \<le> ensure_loop h n active content budget offset \<and> ensure_loop h n active content budget offset \<le> active \<and>
     (ensure_loop h n active content budget offset = active \<or>
      fits_from h n content active (ensure_loop h n active content budget offset)) \<and>
     (\<forall>o'. offset \<le> o' \<and> o' < ensure_loop h n active content budget offset \<longrightarrow> \<not> fits_from h n content active o')"
  using assms(3-5)
proof (induction "nat (active - offset)" arbitrary: offset budget)
  case 0
  then have "offset = active" by simp
  then show ?case by (subst (1 2 3 4 5) ensure_loop.simps) auto
next
  case (Suc k)
  then have lt: "offset < active" by simp
  have f: "fits_loop h n active budget 0 offset \<longleftrightarrow> fits_from h n content active offset"
    using fits_iff [of h offset active n budget 0, OF pos] Suc.prems assms(2) by (simp add: fits_from_def)
  show ?case
  proof (cases "fits_from h n content active offset")
    case True
    then have "ensure_loop h n active content budget offset = offset" using f by (subst ensure_loop.simps) simp
    then show ?thesis using True Suc.prems by auto
  next
    case False
    then have e: "ensure_loop h n active content budget offset = ensure_loop h n active content (content - 1) (offset + 1)"
      using f lt by (subst ensure_loop.simps) simp
    have "content - 1 = budget_at content (offset + 1)" using Suc.prems by (simp add: budget_at_def)
    with Suc(2) Suc.prems lt have IH: "offset + 1 \<le> ensure_loop h n active content (content - 1) (offset + 1) \<and>
       ensure_loop h n active content (content - 1) (offset + 1) \<le> active \<and>
       (ensure_loop h n active content (content - 1) (offset + 1) = active \<or>
        fits_from h n content active (ensure_loop h n active content (content - 1) (offset + 1))) \<and>
       (\<forall>o'. offset + 1 \<le> o' \<and> o' < ensure_loop h n active content (content - 1) (offset + 1) \<longrightarrow> \<not> fits_from h n content active o')"
      by (intro Suc.hyps(1)) auto
    have "\<not> fits_from h n content active o'"
      if "offset \<le> o' \<and> o' < ensure_loop h n active content (content - 1) (offset + 1)" for o'
      using that IH False by (cases "o' = offset") auto
    then show ?thesis unfolding e using IH by auto
  qed
qed

text \<open>
  The cursor is always on screen: after the scroll towards the cursor, the card under it lies in the window the next
  rendering shows; it is shown in full whenever some offset between the old one and the card itself shows it in full,
  and the column scrolls no further than that takes.
\<close>
theorem cursor_on_screen:
  fixes content :: int
  assumes "\<And>i. h i > 0" "0 \<le> offset" "0 \<le> active" "active < n"
  defines "o' \<equiv> ensure_offset h n content active offset"
  shows "0 \<le> o' \<and> o' \<le> active \<and> active < render_end h n content o' \<and>
     (\<forall>o''. offset \<le> o'' \<and> o'' < o' \<longrightarrow> \<not> fits_from h n content active o'') \<and>
     ((\<exists>o'' \<ge> offset. o'' \<le> active \<and> fits_from h n content active o'') \<longrightarrow> fits_from h n content active o')"
proof (cases "active < offset")
  case True
  then have "o' = active" by (simp add: o'_def ensure_offset_def)
  then show ?thesis using True assms(3,4) shown_iff [of h active active n content, OF assms(1)] by auto
next
  case False
  let ?e = "ensure_loop h n active content (budget_at content offset) offset"
  have s: "offset \<le> ?e \<and> ?e \<le> active \<and> (?e = active \<or> fits_from h n content active ?e) \<and>
      (\<forall>o'. offset \<le> o' \<and> o' < ?e \<longrightarrow> \<not> fits_from h n content active o')"
    using False assms by (intro ensure_loop_spec) auto
  have e: "o' = ?e" using False s assms(2) by (simp add: o'_def ensure_offset_def)
  have "active < render_end h n content ?e"
    using shown_iff [of h ?e active n content, OF assms(1)] s assms(2,4) by auto
  moreover have "fits_from h n content active ?e"
    if o: "offset \<le> o''" "o'' \<le> active" "fits_from h n content active o''" for o''
  proof (rule ccontr)
    assume "\<not> ?thesis"
    then have "?e = active" using s by blast
    moreover have "\<not> o'' < ?e" using s o by blast
    ultimately have "o'' = ?e" using o(2) by simp
    with o(3) \<open>\<not> ?thesis\<close> show False by simp
  qed
  ultimately show ?thesis unfolding e using s assms(2) by auto
qed

section \<open>The mouse\<close>

lemma hit_loop_range: "hit_loop h n y cum i = - 1 \<or> i \<le> hit_loop h n y cum i \<and> hit_loop h n y cum i < n"
proof (induction h n y cum i rule: hit_loop.induct)
  case (1 h n y cum i)
  show ?case
  proof (cases "i \<ge> n \<or> y < cum + h i")
    case True
    then show ?thesis by (subst (1 2 3) hit_loop.simps) auto
  next
    case False
    then have "hit_loop h n y cum i = hit_loop h n y (cum + h i) (i + 1)" by (subst hit_loop.simps) simp
    then show ?thesis using "1.IH" False by auto
  qed
qed

lemma hit_loop_iff:
  assumes pos: "\<And>i. h i > 0" and "0 \<le> i0" "i0 \<le> i" "i < n" "cum \<le> y"
  shows "hit_loop h n y cum i0 = i \<longleftrightarrow> cum + rows h i0 i \<le> y \<and> y < cum + rows h i0 i + h i"
  using assms(2,3,5)
proof (induction "nat (i - i0)" arbitrary: i0 cum)
  case 0
  then have i: "i0 = i" by simp
  show ?case
  proof (cases "y < cum + h i")
    case True
    then show ?thesis using i assms(4) "0.prems" by (subst hit_loop.simps) simp
  next
    case False
    then have "hit_loop h n y cum i0 = hit_loop h n y (cum + h i) (i + 1)"
      using i assms(4) by (subst hit_loop.simps) simp
    then show ?thesis using False i hit_loop_range [of h n y "cum + h i" "i + 1"] "0.prems" by auto
  qed
next
  case (Suc k)
  then have lt: "i0 < i" by simp
  show ?case
  proof (cases "y < cum + h i0")
    case True
    have "rows h (i0 + 1) i \<ge> 0" using pos by (rule rows_nonneg)
    then have "\<not> cum + rows h i0 i \<le> y" using True rows_step [OF lt, of h] by simp
    moreover have "hit_loop h n y cum i0 = i0" using True lt assms(4) by (subst hit_loop.simps) simp
    ultimately show ?thesis using lt by simp
  next
    case False
    then have "hit_loop h n y cum i0 = hit_loop h n y (cum + h i0) (i0 + 1)"
      using lt assms(4) by (subst hit_loop.simps) simp
    moreover have "hit_loop h n y (cum + h i0) (i0 + 1) = i \<longleftrightarrow>
        cum + h i0 + rows h (i0 + 1) i \<le> y \<and> y < cum + h i0 + rows h (i0 + 1) i + h i"
      using Suc False by (intro Suc.hyps(1)) auto
    ultimately show ?thesis using rows_step [OF lt, of h] by (simp add: add.assoc)
  qed
qed

text \<open>The first row of a card, counted from the top border of its column.\<close>

definition card_top :: "(int \<Rightarrow> int) \<Rightarrow> int \<Rightarrow> int \<Rightarrow> int" where
  "card_top h offset i = columnHeaderHeight + (if offset > 0 then 1 else 0) + rows h offset i"

text \<open>
  The mouse finds the card that is drawn under it: a row of the column belongs to card \<open>i\<close>, by the layout of the
  rendering, exactly when the hit test on that row answers \<open>i\<close>.
\<close>
theorem hit_card_exact:
  assumes "\<And>i. h i > 0" "0 \<le> offset" "offset \<le> i" "i < n"
  shows "hit_card h n offset y = i \<longleftrightarrow> card_top h offset i \<le> y \<and> y < card_top h offset i + h i"
proof -
  let ?d = "columnHeaderHeight + (if offset > 0 then 1 else 0)"
  have r: "rows h offset i \<ge> 0" using assms(1) by (rule rows_nonneg)
  show ?thesis
  proof (cases "y < ?d")
    case True
    then have "hit_card h n offset y = - 1" by (auto simp: hit_card_def Let_def)
    then show ?thesis using True r assms(2,3) by (simp add: card_top_def)
  next
    case False
    then have "hit_card h n offset y = hit_loop h n (y - ?d) 0 offset"
      using assms by (auto simp: hit_card_def Let_def algebra_simps)
    moreover have "hit_loop h n (y - ?d) 0 offset = i \<longleftrightarrow> 0 + rows h offset i \<le> y - ?d \<and> y - ?d < 0 + rows h offset i + h i"
      using False assms by (intro hit_loop_iff) auto
    ultimately show ?thesis by (auto simp: card_top_def)
  qed
qed

lemma hit_card_exact_witness:
  "hit_card (heightOf [8, 9, 8]) 3 0 15 = 1 \<longleftrightarrow>
     card_top (heightOf [8, 9, 8]) 0 1 \<le> 15 \<and> 15 < card_top (heightOf [8, 9, 8]) 0 1 + heightOf [8, 9, 8] 1"
  by (rule hit_card_exact) (simp_all add: heightOf_pos)

lemma cursor_on_screen_witness:
  "0 \<le> ensure_offset (heightOf []) 5 20 4 0 \<and> ensure_offset (heightOf []) 5 20 4 0 \<le> 4 \<and>
     4 < render_end (heightOf []) 5 20 (ensure_offset (heightOf []) 5 20 4 0) \<and>
     (\<forall>o''. 0 \<le> o'' \<and> o'' < ensure_offset (heightOf []) 5 20 4 0 \<longrightarrow> \<not> fits_from (heightOf []) 5 20 4 o'') \<and>
     ((\<exists>o'' \<ge> 0. o'' \<le> 4 \<and> fits_from (heightOf []) 5 20 4 o'') \<longrightarrow>
        fits_from (heightOf []) 5 20 4 (ensure_offset (heightOf []) 5 20 4 0))"
  by (rule cursor_on_screen) (simp_all add: heightOf_pos)

text \<open>
  Below the last card shown the test goes on: when cards remain below the window, the row of the \<^verbatim>\<open>N more\<close> indicator
  answers the first hidden card.
\<close>

lemma hit_indicator_row:
  assumes "\<And>i. h i > 0" "0 \<le> offset" "e = render_end h n content offset" "e < n"
  shows "hit_card h n offset (card_top h offset e) = e"
proof -
  have "offset \<le> e" using assms(3) pack_loop_range [of offset h n "budget_at content offset"]
    by (auto simp: render_end_def Let_def)
  then show ?thesis using hit_card_exact [of h offset e n "card_top h offset e"] assms by simp
qed

section \<open>Compaction\<close>

definition tail_fits :: "int \<Rightarrow> int \<Rightarrow> int \<Rightarrow> bool" where
  "tail_fits budget n t \<longleftrightarrow> fits_from (\<lambda>i. ticketHeight) n budget (n - 1) t"

lemma tail_fits_iff: "t < n \<Longrightarrow> tail_fits budget n t \<longleftrightarrow> (n - t) * ticketHeight + (if t > 0 then 1 else 0) \<le> budget"
  by (auto simp: tail_fits_def fits_from_def rows_def reserve_def budget_at_def algebra_simps)

lemma tail_fits_mono: "tail_fits budget n t \<Longrightarrow> 0 \<le> t \<Longrightarrow> t \<le> t' \<Longrightarrow> t' < n \<Longrightarrow> tail_fits budget n t'"
  by (auto simp: tail_fits_iff ticketHeight_def split: if_splits)

lemma compact_loop_spec:
  assumes "- 1 \<le> j" "j < n" "used = (n - 1 - j) * ticketHeight"
  shows "0 \<le> compact_loop budget used j \<and> compact_loop budget used j \<le> j + 1 \<and>
     (\<forall>t. compact_loop budget used j \<le> t \<and> t \<le> j \<longrightarrow> tail_fits budget n t) \<and>
     (compact_loop budget used j > 0 \<longrightarrow> \<not> tail_fits budget n (compact_loop budget used j - 1))"
  using assms
proof (induction "nat (j + 1)" arbitrary: j used)
  case 0
  then have "j = - 1" by simp
  then show ?case by (subst (1 2 3 4 5) compact_loop.simps) auto
next
  case (Suc k)
  then have j: "0 \<le> j" by simp
  have f: "tail_fits budget n j \<longleftrightarrow> \<not> used + ticketHeight + (if j > 0 then 1 else 0) > budget"
    using Suc.prems by (subst tail_fits_iff) (auto simp: algebra_simps)
  show ?case
  proof (cases "tail_fits budget n j")
    case False
    then have "compact_loop budget used j = j + 1" using f j by (subst compact_loop.simps) auto
    then show ?thesis using False j by auto
  next
    case True
    then have e: "compact_loop budget used j = compact_loop budget (used + ticketHeight) (j - 1)"
      using f j by (subst compact_loop.simps) auto
    have IH: "0 \<le> compact_loop budget (used + ticketHeight) (j - 1) \<and>
       compact_loop budget (used + ticketHeight) (j - 1) \<le> j - 1 + 1 \<and>
       (\<forall>t. compact_loop budget (used + ticketHeight) (j - 1) \<le> t \<and> t \<le> j - 1 \<longrightarrow> tail_fits budget n t) \<and>
       (compact_loop budget (used + ticketHeight) (j - 1) > 0 \<longrightarrow>
          \<not> tail_fits budget n (compact_loop budget (used + ticketHeight) (j - 1) - 1))"
      using Suc.hyps(2) Suc.prems j by (intro Suc.hyps(1)) (auto simp: algebra_simps)
    have "tail_fits budget n t" if "compact_loop budget (used + ticketHeight) (j - 1) \<le> t" "t \<le> j" for t
      using that IH True by (cases "t = j") auto
    then show ?thesis unfolding e using IH by auto
  qed
qed

text \<open>
  After a filter has shrunk a column, its scroll offset is the smallest one, no larger than before, from which the tail
  still fits (cards at their nominal height); when none fits the offset only comes back into the range of the cards.
\<close>
theorem compact_offset_exact:
  fixes budget :: int
  assumes "0 < n" "0 \<le> offset"
  defines "o' \<equiv> compact_offset budget n offset"
  shows "if \<exists>t. 0 \<le> t \<and> t \<le> offset \<and> t < n \<and> tail_fits budget n t
     then 0 \<le> o' \<and> o' \<le> offset \<and> o' < n \<and> tail_fits budget n o' \<and> (\<forall>t. 0 \<le> t \<and> t < o' \<longrightarrow> \<not> tail_fits budget n t)
     else o' = min offset n"
proof -
  let ?t = "compact_loop budget 0 (n - 1)"
  have s: "0 \<le> ?t \<and> ?t \<le> n - 1 + 1 \<and> (\<forall>t. ?t \<le> t \<and> t \<le> n - 1 \<longrightarrow> tail_fits budget n t) \<and>
      (?t > 0 \<longrightarrow> \<not> tail_fits budget n (?t - 1))"
    using assms(1) by (intro compact_loop_spec) auto
  have below: "\<not> tail_fits budget n t" if "0 \<le> t" "t < ?t" for t
    using that s tail_fits_mono [of budget n t "?t - 1"] by auto
  have o': "o' = (if ?t > offset then offset else ?t)"
    using assms(1) by (simp add: o'_def compact_offset_def Let_def)
  show ?thesis
  proof (cases "\<exists>t. 0 \<le> t \<and> t \<le> offset \<and> t < n \<and> tail_fits budget n t")
    case True
    then obtain t where t: "0 \<le> t" "t \<le> offset" "t < n" "tail_fits budget n t" by blast
    then have "?t \<le> t" using below by force
    then have "o' = ?t" "?t < n" using t o' by auto
    then show ?thesis using True s t below \<open>?t \<le> t\<close> by auto
  next
    case False
    have "\<not> (?t \<le> offset \<and> ?t < n)" using False s by auto
    then show ?thesis using False o' s assms(1) by (auto simp: min_def)
  qed
qed

lemma compact_offset_exact_witness:
  "if \<exists>t. 0 \<le> t \<and> t \<le> 10 \<and> t < 3 \<and> tail_fits 13 3 t
     then 0 \<le> compact_offset 13 3 10 \<and> compact_offset 13 3 10 \<le> 10 \<and> compact_offset 13 3 10 < 3 \<and>
       tail_fits 13 3 (compact_offset 13 3 10) \<and> (\<forall>t. 0 \<le> t \<and> t < compact_offset 13 3 10 \<longrightarrow> \<not> tail_fits 13 3 t)
     else compact_offset 13 3 10 = min 10 3"
  by (rule compact_offset_exact) simp_all

text \<open>
  On a short terminal no offset fits a card with its indicator row, and an offset beyond the shrunken column becomes the
  number of its cards: the column is drawn without any card.
\<close>

lemma compact_offset_blank:
  assumes "0 < n" "n \<le> offset" "budget < ticketHeight + 1" "1 < n"
  shows "compact_offset budget n offset = n \<and> render_end h n budget (compact_offset budget n offset) = n"
proof -
  have l: "compact_loop budget 0 (n - 1) = n"
    using assms by (subst compact_loop.simps) (simp add: ticketHeight_def)
  then have "compact_offset budget n offset = n" using assms by (simp add: compact_offset_def)
  moreover have "render_end h n budget n = n" by (simp add: render_end_def Let_def pack_loop.simps [of h n _ n])
  ultimately show ?thesis by simp
qed

end
