(* ===== verification/GoStrings.thy ===== *)
theory GoStrings
  imports Prelude
begin

text \<open>
  Functions of package \<^verbatim>\<open>strings\<close> that return a part of their argument and so need its bytes and its runes together.
\<close>

text \<open>\<^verbatim>\<open>strings.TrimSpace\<close>: the string cut into the runes \<^verbatim>\<open>for range\<close> decodes, without the spaces at both ends.\<close>

function rune_chunks :: "string \<Rightarrow> (rune \<times> string) list" where
  "rune_chunks s =
     (if s = [] then []
      else (case decode_rune (bytes s) of (r, n) \<Rightarrow> (r, take n s) # rune_chunks (drop (max 1 n) s)))"
  by pat_completeness auto
termination by (relation "measure length") auto

declare rune_chunks.simps [simp del]

definition TrimSpace :: "string \<Rightarrow> string" where
  "TrimSpace s = concat (map snd (trim_right (\<lambda>(r, c). is_space r) (trim_left (\<lambda>(r, c). is_space r) (rune_chunks s))))"

lemma TrimSpace_Nil [simp]: "TrimSpace [] = []"
  by (simp add: TrimSpace_def rune_chunks.simps trim_left_def)

text \<open>\<^verbatim>\<open>strings.ToLower\<close> on the letters A to Z; the file names and the keywords it is used on here are ASCII.\<close>

definition ascii_lower :: "string \<Rightarrow> string" where
  "ascii_lower s = map (\<lambda>c. if CHR ''A'' \<le> c \<and> c \<le> CHR ''Z'' then char_of (of_char c + (32::nat)) else c) s"

text \<open>\<^verbatim>\<open>strings.Split(s, newline)\<close>.\<close>

fun split_lines :: "string \<Rightarrow> string \<Rightarrow> string list" where
  "split_lines acc [] = [rev acc]"
| "split_lines acc (c # cs) = (if c = CHR 0x0A then rev acc # split_lines [] cs else split_lines (c # acc) cs)"

end
