(* ===== verification/BoardView.thy ===== *)
theory BoardView
  imports GlobalStore BoardLayout GoStrings "HOL-Library.Multiset"
begin

text \<open>
  The columns of the board in \<^verbatim>\<open>internal/ui/model.go\<close>: which tickets a column shows under the filters, in which order,
  and where the cursor stands.  The model is the part of \<^verbatim>\<open>ui.Model\<close> these functions read and write, over the global
  ticket store of theory GlobalStore.  Every look at the store's map may come in another order; the parameter
  \<open>it\<close> of a refresh is that order.  The Unicode case table behind \<^verbatim>\<open>strings.ToLower\<close> is the parameter \<open>lower\<close>.
\<close>

section \<open>Modes\<close>

datatype SortMode = SortDefault | SortName | SortAge | SortStatusChange | SortPriority

definition sortModes :: "SortMode list" where
  "sortModes = [SortDefault, SortName, SortAge, SortStatusChange, SortPriority]"

definition next_in :: "'a list \<Rightarrow> 'a \<Rightarrow> 'a \<Rightarrow> 'a" where
  "next_in xs dflt s =
     (case find (\<lambda>i. xs ! i = s) [0..<length xs] of None \<Rightarrow> dflt | Some i \<Rightarrow> xs ! ((i + 1) mod length xs))"

definition nextSortMode :: "SortMode \<Rightarrow> SortMode" where
  "nextSortMode s = next_in sortModes SortDefault s"

fun sortModeLabel :: "SortMode \<Rightarrow> string" where
  "sortModeLabel SortName = ''name (A'' @ [CHR 0xE2, CHR 0x86, CHR 0x92] @ ''Z)''"
| "sortModeLabel SortAge = ''age (newest first)''"
| "sortModeLabel SortStatusChange = ''status change (newest first)''"
| "sortModeLabel SortPriority = ''priority (highest first)''"
| "sortModeLabel SortDefault = ''default''"

datatype SessionFilter = SessionFilterAll | SessionFilterOpen

definition sessionFilters :: "SessionFilter list" where
  "sessionFilters = [SessionFilterAll, SessionFilterOpen]"

definition nextSessionFilter :: "SessionFilter \<Rightarrow> SessionFilter" where
  "nextSessionFilter f = next_in sessionFilters SessionFilterAll f"

fun sessionFilterLabel :: "SessionFilter \<Rightarrow> string" where
  "sessionFilterLabel SessionFilterOpen = ''open sessions''"
| "sessionFilterLabel SessionFilterAll = ''all''"

definition nextStatus :: "TicketStatus \<Rightarrow> TicketStatus" where
  "nextStatus current =
     (if current = StatusBacklog then StatusNext
      else if current = StatusNext then StatusInProgress
      else if current = StatusInProgress then StatusInReview
      else if current = StatusInReview then StatusDone
      else current)"

definition previousStatus :: "TicketStatus \<Rightarrow> TicketStatus" where
  "previousStatus current =
     (if current = StatusDone then StatusInReview
      else if current = StatusInReview then StatusInProgress
      else if current = StatusInProgress then StatusNext
      else if current = StatusNext then StatusBacklog
      else current)"

definition effectivePriority :: "int \<Rightarrow> int" where
  "effectivePriority p = (if p < 1 \<or> p > 5 then 3 else p)"

definition statusChangedAtOrFallback :: "Ticket \<Rightarrow> time" where
  "statusChangedAtOrFallback t = (case t_StatusChangedAt t of Some x \<Rightarrow> x | None \<Rightarrow> t_UpdatedAt t)"

section \<open>Sorting\<close>

text \<open>\<^verbatim>\<open>sort.SliceStable\<close>, as a stable insertion sort over the same comparison.\<close>

fun insert_stable :: "('a \<Rightarrow> 'a \<Rightarrow> bool) \<Rightarrow> 'a \<Rightarrow> 'a list \<Rightarrow> 'a list" where
  "insert_stable lt x [] = [x]"
| "insert_stable lt x (y # ys) = (if lt y x then y # insert_stable lt x ys else x # y # ys)"

definition SliceStable :: "('a \<Rightarrow> 'a \<Rightarrow> bool) \<Rightarrow> 'a list \<Rightarrow> 'a list" where
  "SliceStable lt xs = foldr (insert_stable lt) xs []"

definition sort_less :: "(string \<Rightarrow> string) \<Rightarrow> SortMode \<Rightarrow> Ticket \<Rightarrow> Ticket \<Rightarrow> bool" where
  "sort_less lower mode a b =
     (case mode of
        SortDefault \<Rightarrow> False
      | SortName \<Rightarrow> lower (t_Title a) < lower (t_Title b)
      | SortAge \<Rightarrow> t_CreatedAt a > t_CreatedAt b
      | SortStatusChange \<Rightarrow>
          (let ai = statusChangedAtOrFallback a; aj = statusChangedAtOrFallback b in
           if ai \<noteq> aj then ai > aj else t_CreatedAt a > t_CreatedAt b)
      | SortPriority \<Rightarrow>
          (let x = effectivePriority (t_Priority a); y = effectivePriority (t_Priority b) in
           if x \<noteq> y then x < y else t_CreatedAt a > t_CreatedAt b))"

definition sortTickets :: "(string \<Rightarrow> string) \<Rightarrow> world \<Rightarrow> SortMode \<Rightarrow> ref list \<Rightarrow> ref list" where
  "sortTickets lower w mode rs =
     (if mode = SortDefault then rs else SliceStable (\<lambda>a b. sort_less lower mode (deref w a) (deref w b)) rs)"

lemma mset_insert_stable: "mset (insert_stable lt x ys) = add_mset x (mset ys)"
  by (induction ys) auto

lemma mset_SliceStable: "mset (SliceStable lt xs) = mset xs"
  by (induction xs) (simp_all add: SliceStable_def mset_insert_stable)

lemma set_insert_stable: "set (insert_stable lt x ys) = insert x (set ys)"
  by (induction ys) auto

text \<open>A comparison of keys makes the sort the library's stable sort by that key.\<close>

lemma insert_stable_insort: "insert_stable (\<lambda>a b. k a < k b) x ys = insort_key k x ys"
  by (induction ys) auto

lemma SliceStable_sort_key: "SliceStable (\<lambda>a b. k a < k b) xs = sort_key k xs"
proof -
  have "insert_stable (\<lambda>a b. k a < k b) = insort_key k" by (intro ext insert_stable_insort)
  then show ?thesis by (simp add: SliceStable_def sort_key_def)
qed

text \<open>
  The key of each mode: the lowered title, or a list of integers compared lexicographically.
\<close>

definition num_key :: "SortMode \<Rightarrow> Ticket \<Rightarrow> int list" where
  "num_key mode t =
     (case mode of
        SortAge \<Rightarrow> [- t_CreatedAt t]
      | SortStatusChange \<Rightarrow> [- statusChangedAtOrFallback t, - t_CreatedAt t]
      | SortPriority \<Rightarrow> [effectivePriority (t_Priority t), - t_CreatedAt t]
      | _ \<Rightarrow> [])"

lemma sort_less_key: "mode \<noteq> SortName \<Longrightarrow> sort_less lower mode a b \<longleftrightarrow> num_key mode a < num_key mode b"
  by (cases mode) (auto simp: sort_less_def num_key_def Let_def)

definition sorted_column :: "(string \<Rightarrow> string) \<Rightarrow> world \<Rightarrow> SortMode \<Rightarrow> ref list \<Rightarrow> bool" where
  "sorted_column lower w mode rs \<longleftrightarrow> sorted_wrt (\<lambda>a b. \<not> sort_less lower mode (deref w b) (deref w a)) rs"

text \<open>
  A column is sorted by the mode, keeps exactly its tickets, and keeps the order of tickets the mode does not
  distinguish, so switching modes never loses or doubles a card.
\<close>
theorem sortTickets_exact:
  "mset (sortTickets lower w mode rs) = mset rs \<and> sorted_column lower w mode (sortTickets lower w mode rs) \<and>
   filter (\<lambda>r. \<not> sort_less lower mode (deref w r) (deref w x) \<and> \<not> sort_less lower mode (deref w x) (deref w r))
       (sortTickets lower w mode rs) =
     filter (\<lambda>r. \<not> sort_less lower mode (deref w r) (deref w x) \<and> \<not> sort_less lower mode (deref w x) (deref w r)) rs"
proof -
  have key: "mset ys = mset rs \<and> sorted_wrt (\<lambda>a b. \<not> k b < k a) ys \<and>
      filter (\<lambda>r. \<not> k r < k x \<and> \<not> k x < k r) ys = filter (\<lambda>r. \<not> k r < k x \<and> \<not> k x < k r) rs"
    if "ys = sort_key k rs" for ys and k :: "ref \<Rightarrow> 'k::linorder"
  proof -
    have "sorted (map k ys)" using that by simp
    then have "sorted_wrt (\<lambda>a b. \<not> k b < k a) ys" by (simp add: sorted_wrt_map not_less)
    moreover have "(\<lambda>r. \<not> k r < k x \<and> \<not> k x < k r) = (\<lambda>r. k r = k x)" by (auto simp: fun_eq_iff)
    ultimately show ?thesis using that by (simp add: sort_key_stable)
  qed
  show ?thesis
  proof (cases "mode = SortName")
    case True
    have "sortTickets lower w mode rs = sort_key (\<lambda>r. lower (t_Title (deref w r))) rs"
      using True SliceStable_sort_key [of "\<lambda>r. lower (t_Title (deref w r))"] by (simp add: sortTickets_def sort_less_def)
    from key [OF this] show ?thesis using True by (simp add: sorted_column_def sort_less_def)
  next
    case False
    have "sortTickets lower w mode rs = sort_key (\<lambda>r. num_key mode (deref w r)) rs"
    proof (cases "mode = SortDefault")
      case True
      have "sort_key (\<lambda>r. [] :: int list) rs = rs" for rs :: "ref list"
        by (induction rs) (simp_all add: insort_is_Cons)
      then show ?thesis using True by (simp add: sortTickets_def num_key_def)
    next
      case d: False
      then show ?thesis using SliceStable_sort_key [of "\<lambda>r. num_key mode (deref w r)"]
        by (simp add: sortTickets_def sort_less_key [OF False])
    qed
    from key [OF this] show ?thesis by (simp add: sorted_column_def sort_less_key [OF False])
  qed
qed

lemma set_sortTickets [simp]: "set (sortTickets lower w mode rs) = set rs"
  using sortTickets_exact [of lower w mode rs] mset_eq_setD by blast

section \<open>The board's state\<close>

record BoardView =
  bv_g :: GlobalStore
  bv_w :: world
  bv_owned :: "(TicketID, unit) gomap"
  bv_columns :: "Column list"
  bv_columnTickets :: "ref list list"
  bv_activeColumn :: int
  bv_activeTicket :: int
  bv_scrollOffset :: int
  bv_columnOffsets :: "int list"
  bv_columnTicketHeights :: "int list list"
  bv_width :: int
  bv_height :: int
  bv_sidebarVisible :: bool
  bv_sidebarWidth :: int
  bv_sidebarOpenOnly :: bool
  bv_sortMode :: SortMode
  bv_sessionFilter :: SessionFilter
  bv_alwaysShowWorking :: bool
  bv_filterQuery :: string
  bv_filterProjectIDs :: "(string, bool) gomap"
  bv_notification :: string

abbreviation tk :: "BoardView \<Rightarrow> ref \<Rightarrow> Ticket" where
  "tk m r \<equiv> deref (bv_w m) r"

definition bv_notify :: "string \<Rightarrow> BoardView \<Rightarrow> BoardView" where
  "bv_notify msg m = m\<lparr>bv_notification := msg\<rparr>"

section \<open>Filters\<close>

definition project_selected :: "BoardView \<Rightarrow> string \<Rightarrow> bool" where
  "project_selected m pid \<longleftrightarrow> mget (bv_filterProjectIDs m) pid = Some True"

text \<open>The query, after an optional \<^verbatim>\<open>@project\<close>: \<open>None\<close> when the project does not match, \<open>Some None\<close> when nothing is left.\<close>

definition query_scope :: "(string \<Rightarrow> string) \<Rightarrow> BoardView \<Rightarrow> ref \<Rightarrow> string \<Rightarrow> string option option" where
  "query_scope lower m r query =
     (if \<not> has_prefix query ''@'' then Some (Some query)
      else
        (let (name, rest) = (case index_of query '' '' of
               None \<Rightarrow> (tl query, None)
             | Some i \<Rightarrow> (tl (take i query), Some (drop (i + 1) query))) in
         case GetProjectForTicket r (bv_g m) (bv_w m) of
           None \<Rightarrow> None
         | Some p \<Rightarrow>
             if \<not> contains (lower (p_Name p)) name then None
             else Some (map_option TrimSpace rest)))"

definition ticketMatchesFilter :: "(string \<Rightarrow> string) \<Rightarrow> BoardView \<Rightarrow> ref \<Rightarrow> bool" where
  "ticketMatchesFilter lower m r =
     (let t = tk m r;
          isOpenSession = mget (bv_owned m) (t_ID t) \<noteq> None;
          bypass = bv_alwaysShowWorking m \<and> isOpenSession in
      if \<not> bypass \<and> bv_filterProjectIDs m \<noteq> [] \<and> \<not> project_selected m (t_ProjectID t) then False
      else if bv_sessionFilter m = SessionFilterOpen \<and> \<not> isOpenSession then False
      else if bypass then True
      else if bv_filterQuery m = [] then True
      else (case query_scope lower m r (lower (bv_filterQuery m)) of
          None \<Rightarrow> False
        | Some None \<Rightarrow> True
        | Some (Some query) \<Rightarrow> contains (lower (t_Title t)) query \<or> contains (lower (t_Description t)) query))"

definition sidebarTicketCount :: "BoardView \<Rightarrow> string \<Rightarrow> nat" where
  "sidebarTicketCount m projectID =
     length (filter (\<lambda>r. \<not> (projectID \<noteq> [] \<and> t_ProjectID (tk m r) \<noteq> projectID) \<and>
                        \<not> (bv_sidebarOpenOnly m \<and> (t_Status (tk m r) = StatusDone \<or> t_Status (tk m r) = StatusArchived)))
       (Global_All (bv_g m)))"

definition revealThroughFilters :: "(string \<Rightarrow> string) \<Rightarrow> ref option \<Rightarrow> BoardView \<Rightarrow> BoardView" where
  "revealThroughFilters lower tp m =
     (case tp of
        None \<Rightarrow> m
      | Some r \<Rightarrow>
          if ticketMatchesFilter lower m r then m
          else
            (let m1 = (if bv_filterQuery m \<noteq> [] then m\<lparr>bv_filterQuery := []\<rparr> else m);
                 m2 = (if bv_sessionFilter m1 = SessionFilterOpen then m1\<lparr>bv_sessionFilter := SessionFilterAll\<rparr> else m1) in
             if bv_filterProjectIDs m2 \<noteq> [] \<and> \<not> project_selected m2 (t_ProjectID (tk m r)) then
               m2\<lparr>bv_filterProjectIDs := mput (t_ProjectID (tk m r)) True (bv_filterProjectIDs m2)\<rparr>
             else m2))"

section \<open>Columns and the cursor\<close>

definition resize_to :: "nat \<Rightarrow> 'a \<Rightarrow> 'a list \<Rightarrow> 'a list" where
  "resize_to n zero xs = (if length xs \<noteq> n then replicate n zero else xs)"

definition compactColumnOffsets :: "BoardView \<Rightarrow> BoardView" where
  "compactColumnOffsets m =
     (let budget = columnContentHeight (bv_height m) in
      if budget \<le> 0 then m
      else m\<lparr>bv_columnOffsets :=
        map (\<lambda>i. let offset = bv_columnOffsets m ! i in
              if i < length (bv_columnTickets m)
              then compact_offset budget (int (length (bv_columnTickets m ! i))) offset else offset)
          [0..<length (bv_columnOffsets m)]\<rparr>)"

definition column_of :: "(string \<Rightarrow> string) \<Rightarrow> (nat \<Rightarrow> ref list \<Rightarrow> ref list) \<Rightarrow> BoardView \<Rightarrow> nat \<Rightarrow> Column \<Rightarrow> ref list" where
  "column_of lower it m i col =
     sortTickets lower (bv_w m) (bv_sortMode m)
       (filter (ticketMatchesFilter lower m) (it i (Global_GetByStatus (c_Status col) (bv_g m) (bv_w m))))"

definition refreshColumnTickets :: "(string \<Rightarrow> string) \<Rightarrow> (nat \<Rightarrow> ref list \<Rightarrow> ref list) \<Rightarrow> BoardView \<Rightarrow> BoardView" where
  "refreshColumnTickets lower it m =
     (let n = length (bv_columns m);
          m1 = m\<lparr>bv_columnTickets := map (\<lambda>(i, col). column_of lower it m i col) (enumerate 0 (bv_columns m))\<rparr>;
          m2 = m1\<lparr>bv_columnOffsets := resize_to n 0 (bv_columnOffsets m1)\<rparr>;
          m3 = m2\<lparr>bv_columnTicketHeights := resize_to n [] (bv_columnTicketHeights m2)\<rparr> in
      compactColumnOffsets m3)"

definition ensureTicketVisible :: "BoardView \<Rightarrow> BoardView" where
  "ensureTicketVisible m =
     (let ac = bv_activeColumn m in
      if ac < 0 \<or> ac \<ge> int (length (bv_columnOffsets m)) then m
      else
        (let k = nat ac;
             heights = (if ac < int (length (bv_columnTicketHeights m)) then bv_columnTicketHeights m ! k else []) in
         m\<lparr>bv_columnOffsets := (bv_columnOffsets m)[k :=
            ensure_offset (heightOf heights) (int (length (bv_columnTickets m ! k)))
              (columnContentHeight (bv_height m)) (bv_activeTicket m) (bv_columnOffsets m ! k)]\<rparr>))"

text \<open>\<open>Inl ()\<close> is the panic of an index out of range.\<close>

definition selectedTicket :: "BoardView \<Rightarrow> unit + ref option" where
  "selectedTicket m =
     (if int (length (bv_columnTickets m)) \<le> bv_activeColumn m then Inr None
      else if bv_activeColumn m < 0 then Inl ()
      else
        (let tickets = bv_columnTickets m ! nat (bv_activeColumn m) in
         if int (length tickets) \<le> bv_activeTicket m then Inr None
         else if bv_activeTicket m < 0 then Inl ()
         else Inr (Some (tickets ! nat (bv_activeTicket m)))))"

fun locate_from :: "(ref \<Rightarrow> bool) \<Rightarrow> nat \<Rightarrow> ref list list \<Rightarrow> (nat \<times> nat) option" where
  "locate_from P k [] = None"
| "locate_from P k (tickets # cols) =
     (case find (\<lambda>j. P (tickets ! j)) [0..<length tickets] of
        Some j \<Rightarrow> Some (k, j)
      | None \<Rightarrow> locate_from P (Suc k) cols)"

definition clamp_cursor :: "BoardView \<Rightarrow> BoardView" where
  "clamp_cursor m =
     (if 0 \<le> bv_activeColumn m \<and> bv_activeColumn m < int (length (bv_columnTickets m)) then
        (let n = int (length (bv_columnTickets m ! nat (bv_activeColumn m))) in
         if bv_activeTicket m \<ge> n then m\<lparr>bv_activeTicket := (if n > 0 then n - 1 else 0)\<rparr> else m)
      else m)"

definition selectTicketByID :: "TicketID \<Rightarrow> BoardView \<Rightarrow> BoardView" where
  "selectTicketByID i m =
     (case locate_from (\<lambda>r. t_ID (tk m r) = i) 0 (bv_columnTickets m) of
        Some (c, j) \<Rightarrow> ensureTicketVisible (m\<lparr>bv_activeColumn := int c, bv_activeTicket := int j\<rparr>)
      | None \<Rightarrow> clamp_cursor m)"

text \<open>The shape of every handler that rebuilds the board under the cursor.\<close>

definition keep_selection ::
  "(string \<Rightarrow> string) \<Rightarrow> (nat \<Rightarrow> ref list \<Rightarrow> ref list) \<Rightarrow> (BoardView \<Rightarrow> BoardView) \<Rightarrow> BoardView \<Rightarrow> BoardView" where
  "keep_selection lower it f m =
     (let m1 = refreshColumnTickets lower it (f m) in
      case selectedTicket m of
        Inr (Some r) \<Rightarrow> selectTicketByID (t_ID (tk m1 r)) m1
      | _ \<Rightarrow> m1)"

definition cycleSortMode :: "(string \<Rightarrow> string) \<Rightarrow> (nat \<Rightarrow> ref list \<Rightarrow> ref list) \<Rightarrow> BoardView \<Rightarrow> BoardView" where
  "cycleSortMode lower it m =
     (let m1 = keep_selection lower it (\<lambda>m. m\<lparr>bv_sortMode := nextSortMode (bv_sortMode m)\<rparr>) m in
      bv_notify (''Sort: '' @ sortModeLabel (bv_sortMode m1)) m1)"

definition cycleSessionFilter :: "(string \<Rightarrow> string) \<Rightarrow> (nat \<Rightarrow> ref list \<Rightarrow> ref list) \<Rightarrow> BoardView \<Rightarrow> BoardView" where
  "cycleSessionFilter lower it m =
     (let m1 = keep_selection lower it (\<lambda>m. m\<lparr>bv_sessionFilter := nextSessionFilter (bv_sessionFilter m)\<rparr>) m in
      bv_notify (''Filter: '' @ sessionFilterLabel (bv_sessionFilter m1)) m1)"

definition toggleAlwaysShowWorking :: "(string \<Rightarrow> string) \<Rightarrow> (nat \<Rightarrow> ref list \<Rightarrow> ref list) \<Rightarrow> BoardView \<Rightarrow> BoardView" where
  "toggleAlwaysShowWorking lower it m =
     (let m1 = keep_selection lower it (\<lambda>m. m\<lparr>bv_alwaysShowWorking := \<not> bv_alwaysShowWorking m\<rparr>) m in
      bv_notify (''Always show working: '' @ (if bv_alwaysShowWorking m1 then ''on'' else ''off'')) m1)"

definition clearFilter :: "(string \<Rightarrow> string) \<Rightarrow> (nat \<Rightarrow> ref list \<Rightarrow> ref list) \<Rightarrow> BoardView \<Rightarrow> BoardView" where
  "clearFilter lower it m = refreshColumnTickets lower it (m\<lparr>bv_filterQuery := [], bv_filterProjectIDs := []\<rparr>)"

definition toggleProjectFilter :: "(string \<Rightarrow> string) \<Rightarrow> (nat \<Rightarrow> ref list \<Rightarrow> ref list) \<Rightarrow> string \<Rightarrow> BoardView \<Rightarrow> BoardView" where
  "toggleProjectFilter lower it pid m =
     (let m1 = (if project_selected m pid then m\<lparr>bv_filterProjectIDs := mdel pid (bv_filterProjectIDs m)\<rparr>
                else m\<lparr>bv_filterProjectIDs := mput pid True (bv_filterProjectIDs m)\<rparr>) in
      refreshColumnTickets lower it (m1\<lparr>bv_filterQuery := []\<rparr>))"

definition toggleAllProjects :: "(string \<Rightarrow> string) \<Rightarrow> (nat \<Rightarrow> ref list \<Rightarrow> ref list) \<Rightarrow> BoardView \<Rightarrow> BoardView" where
  "toggleAllProjects lower it m =
     (let ps = Projects (bv_g m);
          allSelected = length (bv_filterProjectIDs m) = length ps \<and> length ps > 0 \<and> list_all (\<lambda>p. project_selected m (p_ID p)) ps;
          m1 = (if allSelected \<or> bv_filterProjectIDs m = [] then
                  bv_notify ''All projects selected'' (m\<lparr>bv_filterProjectIDs := fold (\<lambda>p. mput (p_ID p) True) ps []\<rparr>)
                else bv_notify ''All projects deselected'' (m\<lparr>bv_filterProjectIDs := []\<rparr>)) in
      refreshColumnTickets lower it (m1\<lparr>bv_filterQuery := []\<rparr>))"

section \<open>Moving the cursor\<close>

definition minColumnWidth :: int where "minColumnWidth = 20"
definition columnOverhead :: int where "columnOverhead = 5"

definition boardWidth :: "BoardView \<Rightarrow> int" where
  "boardWidth m = (if bv_sidebarVisible m then bv_width m - bv_sidebarWidth m - 1 else bv_width m)"

text \<open>Go's integer division truncates; \<open>b\<close> is positive in every use.\<close>

definition go_div :: "int \<Rightarrow> int \<Rightarrow> int" where
  "go_div a b = (if a < 0 then - ((- a) div b) else a div b)"

definition calcColumnWidth :: "BoardView \<Rightarrow> int" where
  "calcColumnWidth m =
     (let n = int (length (bv_columns m)) in
      if boardWidth m = 0 \<or> n = 0 then minColumnWidth
      else max (go_div (boardWidth m - n * columnOverhead) n) minColumnWidth)"

definition visibleColumnCount :: "BoardView \<Rightarrow> int \<Rightarrow> int" where
  "visibleColumnCount m colWidth =
     (let n = int (length (bv_columns m)) in
      if boardWidth m = 0 then n
      else min (max (go_div (boardWidth m) (colWidth + columnOverhead)) 1) n)"

definition distributeWidth :: "BoardView \<Rightarrow> int \<Rightarrow> int \<times> int" where
  "distributeWidth m numCols =
     (if numCols = 0 \<or> boardWidth m = 0 then (minColumnWidth, 0)
      else
        (let available = boardWidth m - numCols * 2 - (numCols - 1);
             baseWidth = go_div available numCols; remainder = available - baseWidth * numCols in
         if baseWidth < minColumnWidth then (minColumnWidth, 0) else (baseWidth, remainder)))"

definition ensureColumnVisible :: "BoardView \<Rightarrow> BoardView" where
  "ensureColumnVisible m =
     (let visible = visibleColumnCount m (calcColumnWidth m);
          off = (if bv_activeColumn m < bv_scrollOffset m then bv_activeColumn m
                 else if bv_activeColumn m \<ge> bv_scrollOffset m + visible then bv_activeColumn m - visible + 1
                 else bv_scrollOffset m);
          maxOffset = max (int (length (bv_columns m)) - visible) 0 in
      m\<lparr>bv_scrollOffset := (if off > maxOffset then maxOffset else off)\<rparr>)"

definition moveColumn :: "int \<Rightarrow> BoardView \<Rightarrow> BoardView" where
  "moveColumn delta m =
     (let ac = max (bv_activeColumn m + delta) 0;
          ac' = (if ac \<ge> int (length (bv_columns m)) then int (length (bv_columns m)) - 1 else ac) in
      ensureTicketVisible (ensureColumnVisible (m\<lparr>bv_activeColumn := ac', bv_activeTicket := 0\<rparr>)))"

definition moveTicket :: "int \<Rightarrow> BoardView \<Rightarrow> BoardView" where
  "moveTicket delta m =
     (if int (length (bv_columnTickets m)) \<le> bv_activeColumn m then m
      else
        (let n = int (length (bv_columnTickets m ! nat (bv_activeColumn m)));
             at = max (bv_activeTicket m + delta) 0;
             at' = (if at \<ge> n then max (n - 1) 0 else at) in
         ensureTicketVisible (m\<lparr>bv_activeTicket := at'\<rparr>)))"

text \<open>The hit test of the mouse: which column, and which card of it.\<close>

definition hitTestTicket :: "BoardView \<Rightarrow> int \<Rightarrow> int \<Rightarrow> int" where
  "hitTestTicket m relativeY column =
     (if column < 0 \<or> column \<ge> int (length (bv_columnTickets m)) then - 1
      else
        (let k = nat column;
             offset = (if column < int (length (bv_columnOffsets m)) then bv_columnOffsets m ! k else 0);
             heights = (if column < int (length (bv_columnTicketHeights m)) then bv_columnTicketHeights m ! k else []) in
         hit_card (heightOf heights) (int (length (bv_columnTickets m ! k))) offset relativeY))"

fun hit_column :: "int \<Rightarrow> int \<Rightarrow> int \<Rightarrow> nat \<Rightarrow> nat \<Rightarrow> int \<Rightarrow> int option" where
  "hit_column x baseWidth remainder i 0 startX = None"
| "hit_column x baseWidth remainder i (Suc todo) startX =
     (let w = baseWidth + 3 + (if int i < remainder then 1 else 0) in
      if x \<ge> startX \<and> x < startX + w then Some (int i)
      else hit_column x baseWidth remainder (Suc i) todo (startX + w))"

definition hitTest :: "BoardView \<Rightarrow> int \<Rightarrow> int \<Rightarrow> int \<times> int" where
  "hitTest m x y =
     (if bv_width m = 0 \<or> bv_columns m = [] then (- 1, - 1)
      else
        (let x' = (if bv_sidebarVisible m then x - bv_sidebarWidth m - 1 else x) in
         if y < 2 then (- 1, - 1)
         else
           (let visible = visibleColumnCount m (calcColumnWidth m);
                numVisible = (if bv_scrollOffset m + visible > int (length (bv_columns m))
                              then int (length (bv_columns m)) - bv_scrollOffset m else visible) in
            case distributeWidth m numVisible of
              (baseWidth, remainder) \<Rightarrow>
                (case hit_column x' baseWidth remainder 0 (nat numVisible) (if bv_scrollOffset m > 0 then 2 else 0) of
                   None \<Rightarrow> (- 1, - 1)
                 | Some i \<Rightarrow> (bv_scrollOffset m + i, hitTestTicket m (y - 2) (bv_scrollOffset m + i))))))"

section \<open>Every way to touch the board\<close>

text \<open>\<^verbatim>\<open>handleMouse\<close> on a press of the left button beside the header and the sidebar, without its drag bookkeeping.\<close>

definition press :: "int \<Rightarrow> int \<Rightarrow> BoardView \<Rightarrow> BoardView" where
  "press x y m =
     (case hitTest m x y of
        (col, ticket) \<Rightarrow>
          if col \<ge> 0 then
            (let m1 = m\<lparr>bv_activeColumn := col\<rparr>;
                 m2 = (if ticket \<ge> 0 then m1\<lparr>bv_activeTicket := ticket\<rparr> else m1) in
             ensureColumnVisible m2)
          else m)"

datatype view_act =
    CycleSort | CycleSession | ToggleWorking | ClearFilter | ToggleProject string | ToggleAll | SetQuery string
  | MoveColumn int | MoveTicket int | Press int int | Select TicketID | Refresh | Reveal "ref option"
  | Resize int int | StoreChanged GlobalStore world | OwnedChanged "(TicketID, unit) gomap" | Rendered nat "int list"

definition view_do :: "(string \<Rightarrow> string) \<Rightarrow> (nat \<Rightarrow> ref list \<Rightarrow> ref list) \<Rightarrow> view_act \<Rightarrow> BoardView \<Rightarrow> BoardView" where
  "view_do lower it a m =
     (case a of
        CycleSort \<Rightarrow> cycleSortMode lower it m
      | CycleSession \<Rightarrow> cycleSessionFilter lower it m
      | ToggleWorking \<Rightarrow> toggleAlwaysShowWorking lower it m
      | ClearFilter \<Rightarrow> clearFilter lower it m
      | ToggleProject pid \<Rightarrow> toggleProjectFilter lower it pid m
      | ToggleAll \<Rightarrow> toggleAllProjects lower it m
      | SetQuery q \<Rightarrow> refreshColumnTickets lower it (m\<lparr>bv_filterQuery := q\<rparr>)
      | MoveColumn d \<Rightarrow> moveColumn d m
      | MoveTicket d \<Rightarrow> moveTicket d m
      | Press x y \<Rightarrow> press x y m
      | Select i \<Rightarrow> selectTicketByID i m
      | Refresh \<Rightarrow> refreshColumnTickets lower it m
      | Reveal tp \<Rightarrow> revealThroughFilters lower tp m
      | Resize w h \<Rightarrow> m\<lparr>bv_width := w, bv_height := h\<rparr>
      | StoreChanged g w \<Rightarrow> m\<lparr>bv_g := g, bv_w := w\<rparr>
      | OwnedChanged owned \<Rightarrow> m\<lparr>bv_owned := owned\<rparr>
      | Rendered i heights \<Rightarrow> m\<lparr>bv_columnTicketHeights := (bv_columnTicketHeights m)[i := heights]\<rparr>)"

text \<open>What every handler relies on: one list of cards and one offset per column, and a cursor in a column.\<close>

definition view_ok :: "BoardView \<Rightarrow> bool" where
  "view_ok m \<longleftrightarrow> bv_columns m \<noteq> [] \<and> length (bv_columnTickets m) = length (bv_columns m) \<and>
     length (bv_columnOffsets m) = length (bv_columns m) \<and> (\<forall>o' \<in> set (bv_columnOffsets m). 0 \<le> o') \<and>
     0 \<le> bv_activeColumn m \<and> bv_activeColumn m < int (length (bv_columns m)) \<and> 0 \<le> bv_activeTicket m \<and>
     0 \<le> bv_scrollOffset m"

lemma compact_nonneg: "0 \<le> offset \<Longrightarrow> 0 \<le> compact_offset budget (int n) offset"
proof (cases "n = 0")
  case False
  assume "0 \<le> offset"
  moreover have "0 \<le> compact_loop budget 0 (int n - 1)"
    using compact_loop_spec [of "int n - 1" "int n" 0 budget] False by simp
  ultimately show ?thesis by (simp add: compact_offset_def Let_def)
qed (simp add: compact_offset_def)

lemma set_resize: "x \<in> set (resize_to n z xs) \<Longrightarrow> x = z \<or> x \<in> set xs"
  by (auto simp: resize_to_def split: if_splits)

lemma length_resize [simp]: "length (resize_to n z xs) = n"
  by (simp add: resize_to_def)

lemma compactColumnOffsets_keeps:
  "length (bv_columnOffsets (compactColumnOffsets m)) = length (bv_columnOffsets m) \<and>
   ((\<forall>o' \<in> set (bv_columnOffsets m). 0 \<le> o') \<longrightarrow> (\<forall>o' \<in> set (bv_columnOffsets (compactColumnOffsets m)). 0 \<le> o')) \<and>
   bv_columns (compactColumnOffsets m) = bv_columns m \<and> bv_columnTickets (compactColumnOffsets m) = bv_columnTickets m \<and>
   bv_activeColumn (compactColumnOffsets m) = bv_activeColumn m \<and> bv_activeTicket (compactColumnOffsets m) = bv_activeTicket m \<and>
   bv_scrollOffset (compactColumnOffsets m) = bv_scrollOffset m \<and> bv_g (compactColumnOffsets m) = bv_g m \<and>
   bv_w (compactColumnOffsets m) = bv_w m \<and> bv_height (compactColumnOffsets m) = bv_height m \<and>
   bv_columnTicketHeights (compactColumnOffsets m) = bv_columnTicketHeights m"
  by (auto simp: compactColumnOffsets_def Let_def compact_nonneg)

lemma refresh_keeps:
  "bv_columns (refreshColumnTickets lower it m) = bv_columns m \<and>
   length (bv_columnTickets (refreshColumnTickets lower it m)) = length (bv_columns m) \<and>
   length (bv_columnOffsets (refreshColumnTickets lower it m)) = length (bv_columns m) \<and>
   bv_activeColumn (refreshColumnTickets lower it m) = bv_activeColumn m \<and>
   bv_activeTicket (refreshColumnTickets lower it m) = bv_activeTicket m \<and>
   bv_scrollOffset (refreshColumnTickets lower it m) = bv_scrollOffset m \<and>
   bv_g (refreshColumnTickets lower it m) = bv_g m \<and> bv_w (refreshColumnTickets lower it m) = bv_w m"
  by (simp add: refreshColumnTickets_def Let_def compactColumnOffsets_keeps)

lemma refresh_nonneg:
  assumes "\<forall>o' \<in> set (bv_columnOffsets m). 0 \<le> o'"
  shows "\<forall>o' \<in> set (bv_columnOffsets (refreshColumnTickets lower it m)). 0 \<le> o'"
proof -
  have "\<forall>o' \<in> set (resize_to (length (bv_columns m)) 0 (bv_columnOffsets m)). 0 \<le> o'"
    using assms by (auto dest: set_resize)
  moreover have comp: "(\<forall>o' \<in> set (bv_columnOffsets x). 0 \<le> o') \<Longrightarrow> (\<forall>o' \<in> set (bv_columnOffsets (compactColumnOffsets x)). 0 \<le> o')" for x
    using compactColumnOffsets_keeps [of x] by blast
  ultimately show ?thesis unfolding refreshColumnTickets_def Let_def by (intro comp) simp
qed

lemma refresh_ok: "view_ok m \<Longrightarrow> view_ok (refreshColumnTickets lower it m)"
  using refresh_keeps [of lower it m] refresh_nonneg [of m lower it] by (simp add: view_ok_def)

lemma ensureTicketVisible_keeps:
  "bv_columns (ensureTicketVisible m) = bv_columns m \<and> bv_columnTickets (ensureTicketVisible m) = bv_columnTickets m \<and>
   bv_activeColumn (ensureTicketVisible m) = bv_activeColumn m \<and> bv_activeTicket (ensureTicketVisible m) = bv_activeTicket m \<and>
   bv_scrollOffset (ensureTicketVisible m) = bv_scrollOffset m \<and> bv_w (ensureTicketVisible m) = bv_w m \<and>
   bv_g (ensureTicketVisible m) = bv_g m \<and> bv_height (ensureTicketVisible m) = bv_height m \<and>
   bv_columnTicketHeights (ensureTicketVisible m) = bv_columnTicketHeights m \<and>
   length (bv_columnOffsets (ensureTicketVisible m)) = length (bv_columnOffsets m)"
  by (simp add: ensureTicketVisible_def Let_def)

lemma ensureTicketVisible_nonneg:
  assumes "\<forall>o' \<in> set (bv_columnOffsets m). 0 \<le> o'" "0 \<le> bv_activeTicket m"
  shows "\<forall>o' \<in> set (bv_columnOffsets (ensureTicketVisible m)). 0 \<le> o'"
  using assms by (auto simp: ensureTicketVisible_def Let_def ensure_offset_def dest!: set_update_subset_insert [THEN subsetD])

lemma ensureTicketVisible_ok: "view_ok m \<Longrightarrow> view_ok (ensureTicketVisible m)"
  using ensureTicketVisible_keeps [of m] ensureTicketVisible_nonneg [of m] by (simp add: view_ok_def)

lemma ensureColumnVisible_ok: "view_ok m \<Longrightarrow> view_ok (ensureColumnVisible m)"
  by (auto simp: view_ok_def ensureColumnVisible_def Let_def)

lemma locate_from_Some:
  "locate_from P k cols = Some (c, j) \<Longrightarrow> k \<le> c \<and> c < k + length cols \<and> j < length (cols ! (c - k)) \<and> P (cols ! (c - k) ! j)"
proof (induction cols arbitrary: k)
  case (Cons tickets cols)
  show ?case
  proof (cases "find (\<lambda>j. P (tickets ! j)) [0..<length tickets]")
    case None
    then have "locate_from P (Suc k) cols = Some (c, j)" using Cons.prems by simp
    from Cons.IH [OF this] show ?thesis by (auto simp: Suc_le_eq nth_Cons')
  next
    case (Some a)
    then have "a < length tickets \<and> P (tickets ! a)" by (auto simp: find_Some_iff)
    then show ?thesis using Some Cons.prems by simp
  qed
qed simp

lemma locate_from_None: "locate_from P k cols = None \<longleftrightarrow> (\<forall>tickets \<in> set cols. \<forall>r \<in> set tickets. \<not> P r)"
proof (induction cols arbitrary: k)
  case (Cons tickets cols)
  have "find (\<lambda>j. P (tickets ! j)) [0..<length tickets] = None \<longleftrightarrow> (\<forall>r \<in> set tickets. \<not> P r)"
    by (simp add: find_None_iff Ball_def in_set_conv_nth) metis
  then show ?case using Cons by (auto split: option.splits)
qed simp

lemma select_ok: "view_ok m \<Longrightarrow> view_ok (selectTicketByID i m)"
proof -
  assume ok: "view_ok m"
  show ?thesis
  proof (cases "locate_from (\<lambda>r. t_ID (tk m r) = i) 0 (bv_columnTickets m)")
    case None
    then show ?thesis using ok by (auto simp: selectTicketByID_def clamp_cursor_def Let_def view_ok_def)
  next
    case (Some p)
    then obtain c j where p: "locate_from (\<lambda>r. t_ID (tk m r) = i) 0 (bv_columnTickets m) = Some (c, j)" by (cases p) simp
    have "view_ok (m\<lparr>bv_activeColumn := int c, bv_activeTicket := int j\<rparr>)"
      using ok locate_from_Some [OF p] by (simp add: view_ok_def)
    then show ?thesis using p by (simp add: selectTicketByID_def ensureTicketVisible_ok)
  qed
qed

lemma keep_selection_ok: "view_ok (f m) \<Longrightarrow> view_ok (keep_selection lower it f m)"
  by (auto simp: keep_selection_def Let_def refresh_ok select_ok split: sum.splits option.splits)

lemma hit_column_range: "hit_column x b r i todo s = Some k \<Longrightarrow> int i \<le> k \<and> k < int (i + todo)"
  by (induction x b r i todo s rule: hit_column.induct) (auto simp: Let_def split: if_splits)

lemma hitTest_range:
  assumes "0 \<le> bv_scrollOffset m" "hitTest m x y = (c, t)" "c \<ge> 0"
  shows "c < int (length (bv_columns m))"
  using assms by (auto simp: hitTest_def Let_def split: if_splits option.splits prod.splits dest!: hit_column_range)

lemma press_ok: "view_ok m \<Longrightarrow> view_ok (press x y m)"
proof -
  assume ok: "view_ok m"
  obtain c t where h: "hitTest m x y = (c, t)" by (cases "hitTest m x y") auto
  have "c \<ge> 0 \<Longrightarrow> c < int (length (bv_columns m))" using ok h hitTest_range by (auto simp: view_ok_def)
  then show ?thesis using ok h
    by (auto simp: press_def Let_def intro!: ensureColumnVisible_ok) (auto simp: view_ok_def)
qed

lemma bv_notify_ok [simp]: "view_ok (bv_notify msg m) = view_ok m"
  by (simp add: view_ok_def bv_notify_def)

lemma view_do_ok: "view_ok m \<Longrightarrow> view_ok (view_do lower it a m)"
proof (induction a)
  case (MoveColumn d)
  have "view_ok (m\<lparr>bv_activeColumn := max (bv_activeColumn m + d) 0, bv_activeTicket := 0\<rparr>)"
    if "max (bv_activeColumn m + d) 0 < int (length (bv_columns m))" using MoveColumn that by (simp add: view_ok_def)
  moreover have "view_ok (m\<lparr>bv_activeColumn := int (length (bv_columns m)) - 1, bv_activeTicket := 0\<rparr>)"
    using MoveColumn by (cases "bv_columns m") (simp_all add: view_ok_def)
  ultimately show ?case
    by (auto simp: view_do_def moveColumn_def Let_def not_le intro!: ensureTicketVisible_ok ensureColumnVisible_ok)
next
  case (MoveTicket d)
  then show ?case
    by (auto simp: view_do_def moveTicket_def Let_def intro!: ensureTicketVisible_ok) (auto simp: view_ok_def)
next
  case (Reveal tp)
  then show ?case
    by (auto simp: view_do_def revealThroughFilters_def Let_def view_ok_def split: option.splits)
next
  case CycleSort
  then show ?case by (simp add: view_do_def cycleSortMode_def Let_def) (rule keep_selection_ok, simp add: view_ok_def)
next
  case CycleSession
  then show ?case by (simp add: view_do_def cycleSessionFilter_def Let_def) (rule keep_selection_ok, simp add: view_ok_def)
next
  case ToggleWorking
  then show ?case by (simp add: view_do_def toggleAlwaysShowWorking_def Let_def) (rule keep_selection_ok, simp add: view_ok_def)
next
  case ClearFilter
  then show ?case by (simp add: view_do_def clearFilter_def) (rule refresh_ok, simp add: view_ok_def)
next
  case (ToggleProject pid)
  then show ?case by (simp add: view_do_def toggleProjectFilter_def Let_def) (intro conjI impI refresh_ok, simp_all add: view_ok_def)
next
  case ToggleAll
  then show ?case
    by (simp add: view_do_def toggleAllProjects_def Let_def bv_notify_def) (intro conjI impI refresh_ok, simp_all add: view_ok_def)
next
  case (SetQuery q)
  then show ?case by (simp add: view_do_def) (rule refresh_ok, simp add: view_ok_def)
qed (simp_all add: view_do_def press_ok select_ok refresh_ok, simp_all add: view_ok_def)

section \<open>What the board promises\<close>

definition view_run :: "(string \<Rightarrow> string) \<Rightarrow> ((nat \<Rightarrow> ref list \<Rightarrow> ref list) \<times> view_act) list \<Rightarrow> BoardView \<Rightarrow> BoardView" where
  "view_run lower acts m = fold (\<lambda>(it, a). view_do lower it a) acts m"

lemma view_run_ok: "view_ok m \<Longrightarrow> view_ok (view_run lower acts m)"
  by (induction acts arbitrary: m) (auto simp: view_run_def view_do_ok)

lemma view_ok_no_panic: "view_ok m \<Longrightarrow> selectedTicket m \<noteq> Inl ()"
  by (auto simp: view_ok_def selectedTicket_def Let_def)

text \<open>
  The cursor never leaves the board: whatever keys, clicks, resizes, filters, store changes and renderings come in
  whatever order, and however the maps are iterated, it stands in an existing column, every offset stays in range,
  and looking up the ticket under it never indexes out of bounds.
\<close>
theorem board_cursor_safe:
  assumes "view_ok m"
  shows "view_ok (view_run lower acts m) \<and> selectedTicket (view_run lower acts m) \<noteq> Inl ()"
  using assms view_run_ok view_ok_no_panic by blast

definition permutes :: "(nat \<Rightarrow> ref list \<Rightarrow> ref list) \<Rightarrow> bool" where
  "permutes it \<longleftrightarrow> (\<forall>i xs. mset (it i xs) = mset xs)"

lemma distinct_index: "gs_inv g w \<Longrightarrow> distinct (map snd (g_all g))"
proof -
  assume inv: "gs_inv g w"
  have "inj_on snd (set (g_all g))"
  proof (rule inj_onI)
    fix a b assume ab: "a \<in> set (g_all g)" "b \<in> set (g_all g)" "snd a = snd b"
    have wf: "mwf (g_all g)" using inv by (rule gs_inv_mwf)
    from ab have "mget (g_all g) (fst a) = Some (snd a)" "mget (g_all g) (fst b) = Some (snd b)"
      using in_set_mget [OF wf] by (metis prod.collapse)+
    then have "t_ID (deref w (snd a)) = fst a" "t_ID (deref w (snd b)) = fst b"
      using inv by (metis gs_invD)+
    with ab(3) show "a = b" by (simp add: prod_eq_iff)
  qed
  moreover have "distinct (g_all g)" using gs_inv_mwf [OF inv] by (simp add: mwf_def distinct_map)
  ultimately show ?thesis by (simp add: distinct_map)
qed

lemma refreshed_columns:
  "bv_columnTickets (refreshColumnTickets lower it m) = map (\<lambda>(i, col). column_of lower it m i col) (enumerate 0 (bv_columns m))"
  by (simp add: refreshColumnTickets_def Let_def compactColumnOffsets_keeps)

lemma refreshed_column:
  "k < length (bv_columns m) \<Longrightarrow> bv_columnTickets (refreshColumnTickets lower it m) ! k = column_of lower it m k (bv_columns m ! k)"
  by (simp add: refreshed_columns nth_enumerate_eq)

text \<open>C30: 
  A refreshed board shows exactly what the store holds and the filters admit: a column holds the tickets of its status
  that match, each once, sorted by the chosen mode, whatever the order in which the store's map is walked.
\<close>
theorem board_shows_exactly:
  assumes "gs_inv (bv_g m) (bv_w m)" "permutes it" "k < length (bv_columns m)"
  shows "distinct (bv_columnTickets (refreshColumnTickets lower it m) ! k) \<and>
     set (bv_columnTickets (refreshColumnTickets lower it m) ! k) =
       {r. (\<exists>i. mget (g_all (bv_g m)) i = Some r) \<and> t_Status (tk m r) = c_Status (bv_columns m ! k) \<and> ticketMatchesFilter lower m r} \<and>
     sorted_column lower (bv_w m) (bv_sortMode m) (bv_columnTickets (refreshColumnTickets lower it m) ! k)"
proof -
  let ?st = "c_Status (bv_columns m ! k)"
  let ?all = "Global_GetByStatus ?st (bv_g m) (bv_w m)"
  let ?col = "column_of lower it m k (bv_columns m ! k)"
  have it: "mset (it k ?all) = mset ?all" using assms(2) by (simp add: permutes_def)
  have d: "distinct ?all" using distinct_index [OF assms(1)] by (simp add: Global_GetByStatus_def)
  have "set (map snd (g_all (bv_g m))) = {r. \<exists>i. mget (g_all (bv_g m)) i = Some r}"
    using in_set_mget [OF gs_inv_mwf [OF assms(1)]] by (auto simp: image_iff) force
  then have s: "set ?all = {r. (\<exists>i. mget (g_all (bv_g m)) i = Some r) \<and> t_Status (tk m r) = ?st}"
    by (auto simp: Global_GetByStatus_def)
  have "mset ?col = mset (filter (ticketMatchesFilter lower m) ?all)"
    using sortTickets_exact [of lower "bv_w m" "bv_sortMode m" "filter (ticketMatchesFilter lower m) (it k ?all)"] it
    by (simp add: column_of_def mset_filter)
  then have "distinct ?col \<and> set ?col = set (filter (ticketMatchesFilter lower m) ?all)"
    using d by (metis mset_eq_imp_distinct_iff distinct_filter set_mset_mset)
  moreover have "sorted_column lower (bv_w m) (bv_sortMode m) ?col"
    using sortTickets_exact by (simp add: column_of_def)
  ultimately show ?thesis using s refreshed_column [OF assms(3)] by auto
qed

text \<open>The card under the cursor lies in the window of its column that the next rendering shows.\<close>

definition cursor_shown :: "BoardView \<Rightarrow> bool" where
  "cursor_shown m \<longleftrightarrow>
     (let k = nat (bv_activeColumn m); offset = bv_columnOffsets m ! k;
          heights = (if k < length (bv_columnTicketHeights m) then bv_columnTicketHeights m ! k else []) in
      0 \<le> offset \<and> offset \<le> bv_activeTicket m \<and>
      bv_activeTicket m < render_end (heightOf heights) (int (length (bv_columnTickets m ! k))) (columnContentHeight (bv_height m)) offset)"

lemma ensureTicketVisible_shows:
  assumes "view_ok m" "bv_activeTicket m < int (length (bv_columnTickets m ! nat (bv_activeColumn m)))"
  shows "cursor_shown (ensureTicketVisible m)"
proof -
  let ?k = "nat (bv_activeColumn m)"
  let ?h = "heightOf (if bv_activeColumn m < int (length (bv_columnTicketHeights m)) then bv_columnTicketHeights m ! ?k else [])"
  have k: "?k < length (bv_columnOffsets m)" "0 \<le> bv_columnOffsets m ! ?k" "0 \<le> bv_activeTicket m" "0 \<le> bv_activeColumn m"
    using assms(1) by (auto simp: view_ok_def)
  have hk: "(?k < length (bv_columnTicketHeights m)) = (bv_activeColumn m < int (length (bv_columnTicketHeights m)))"
    using k(4) by auto
  have "\<And>i. ?h i > 0" by (rule heightOf_pos)
  from cursor_on_screen [of ?h, OF this k(2,3) assms(2), of "columnContentHeight (bv_height m)"]
  have c: "0 \<le> ensure_offset ?h (int (length (bv_columnTickets m ! ?k))) (columnContentHeight (bv_height m)) (bv_activeTicket m) (bv_columnOffsets m ! ?k) \<and>
     ensure_offset ?h (int (length (bv_columnTickets m ! ?k))) (columnContentHeight (bv_height m)) (bv_activeTicket m) (bv_columnOffsets m ! ?k) \<le> bv_activeTicket m \<and>
     bv_activeTicket m < render_end ?h (int (length (bv_columnTickets m ! ?k))) (columnContentHeight (bv_height m))
       (ensure_offset ?h (int (length (bv_columnTickets m ! ?k))) (columnContentHeight (bv_height m)) (bv_activeTicket m) (bv_columnOffsets m ! ?k))"
    by blast
  have e: "bv_columnOffsets (ensureTicketVisible m) ! ?k =
      ensure_offset ?h (int (length (bv_columnTickets m ! ?k))) (columnContentHeight (bv_height m)) (bv_activeTicket m) (bv_columnOffsets m ! ?k)"
    using k by (auto simp: ensureTicketVisible_def Let_def)
  show ?thesis
    using c by (cases "bv_activeColumn m < int (length (bv_columnTicketHeights m))")
      (simp_all add: cursor_shown_def Let_def ensureTicketVisible_keeps e hk)
qed

lemma selected_at: "view_ok m \<Longrightarrow> bv_activeTicket m < int (length (bv_columnTickets m ! nat (bv_activeColumn m))) \<Longrightarrow>
   selectedTicket m = Inr (Some (bv_columnTickets m ! nat (bv_activeColumn m) ! nat (bv_activeTicket m)))"
  by (auto simp: selectedTicket_def view_ok_def Let_def)

lemma select_found:
  assumes "view_ok m" "tickets \<in> set (bv_columnTickets m)" "r \<in> set tickets" "t_ID (tk m r) = i"
  shows "\<exists>r'. selectedTicket (selectTicketByID i m) = Inr (Some r') \<and> t_ID (tk m r') = i \<and> cursor_shown (selectTicketByID i m)"
proof -
  have "locate_from (\<lambda>r. t_ID (tk m r) = i) 0 (bv_columnTickets m) \<noteq> None"
    using assms(2-4) by (auto simp: locate_from_None)
  then obtain c j where l: "locate_from (\<lambda>r. t_ID (tk m r) = i) 0 (bv_columnTickets m) = Some (c, j)" by auto
  let ?m = "m\<lparr>bv_activeColumn := int c, bv_activeTicket := int j\<rparr>"
  have cj: "c < length (bv_columnTickets m)" "j < length (bv_columnTickets m ! c)" "t_ID (tk m (bv_columnTickets m ! c ! j)) = i"
    using locate_from_Some [OF l] by auto
  have ok: "view_ok ?m" using assms(1) cj by (simp add: view_ok_def)
  have s: "selectTicketByID i m = ensureTicketVisible ?m" using l by (simp add: selectTicketByID_def)
  have "view_ok (ensureTicketVisible ?m)" using ok by (rule ensureTicketVisible_ok)
  moreover have "bv_activeTicket (ensureTicketVisible ?m) < int (length (bv_columnTickets (ensureTicketVisible ?m) ! nat (bv_activeColumn (ensureTicketVisible ?m))))"
    using cj by (simp add: ensureTicketVisible_keeps)
  ultimately have "selectedTicket (ensureTicketVisible ?m) = Inr (Some (bv_columnTickets m ! c ! j))"
    using selected_at by (simp add: ensureTicketVisible_keeps)
  moreover have "cursor_shown (ensureTicketVisible ?m)" using ok cj by (intro ensureTicketVisible_shows) simp_all
  ultimately show ?thesis using s cj(3) by auto
qed

lemma select_missing:
  assumes "view_ok m" "\<And>tickets r. tickets \<in> set (bv_columnTickets m) \<Longrightarrow> r \<in> set tickets \<Longrightarrow> t_ID (tk m r) \<noteq> i"
  shows "selectTicketByID i m = clamp_cursor m \<and>
     (bv_columnTickets m ! nat (bv_activeColumn m) \<noteq> [] \<longrightarrow> (\<exists>r'. selectedTicket (selectTicketByID i m) = Inr (Some r')))"
proof -
  have "locate_from (\<lambda>r. t_ID (tk m r) = i) 0 (bv_columnTickets m) = None"
    using assms(2) by (auto simp: locate_from_None)
  then have s: "selectTicketByID i m = clamp_cursor m" by (simp add: selectTicketByID_def)
  have "\<exists>r'. selectedTicket (clamp_cursor m) = Inr (Some r')" if "bv_columnTickets m ! nat (bv_activeColumn m) \<noteq> []"
    using assms(1) that by (auto simp: clamp_cursor_def selectedTicket_def Let_def view_ok_def not_le)
  with s show ?thesis by simp
qed

text \<open>
  The cursor follows its ticket: when the sort mode, the session filter or the exemption changes, the ticket under the
  cursor is still under it, wherever the new order puts it, and on screen; only when the new filter hides it does the
  cursor stay in its column, on a ticket whenever the column has one.
\<close>
theorem selection_follows_ticket:
  assumes "view_ok m" "selectedTicket m = Inr (Some r)"
    and "m' = cycleSortMode lower it m \<or> m' = cycleSessionFilter lower it m \<or> m' = toggleAlwaysShowWorking lower it m"
  shows "if \<exists>tickets \<in> set (bv_columnTickets m'). \<exists>q \<in> set tickets. t_ID (tk m' q) = t_ID (tk m r)
     then \<exists>r'. selectedTicket m' = Inr (Some r') \<and> t_ID (tk m' r') = t_ID (tk m r) \<and> cursor_shown m'
     else bv_activeColumn m' = bv_activeColumn m \<and>
       (bv_columnTickets m' ! nat (bv_activeColumn m') \<noteq> [] \<longrightarrow> (\<exists>r'. selectedTicket m' = Inr (Some r')))"
proof -
  obtain f msg where m': "m' = bv_notify msg (keep_selection lower it f m)" and f: "view_ok (f m)" "bv_w (f m) = bv_w m"
      "bv_activeColumn (f m) = bv_activeColumn m"
    using assms(3,1) by (elim disjE) (auto simp: cycleSortMode_def cycleSessionFilter_def toggleAlwaysShowWorking_def Let_def view_ok_def)
  let ?m1 = "refreshColumnTickets lower it (f m)"
  let ?i = "t_ID (tk m r)"
  have ok: "view_ok ?m1" using f(1) by (rule refresh_ok)
  have w: "bv_w ?m1 = bv_w m" "bv_activeColumn ?m1 = bv_activeColumn m" using refresh_keeps [of lower it "f m"] f by simp_all
  have k: "keep_selection lower it f m = selectTicketByID ?i ?m1"
    using assms(2) w by (simp add: keep_selection_def Let_def)
  have same: "bv_columnTickets (selectTicketByID ?i ?m1) = bv_columnTickets ?m1 \<and> bv_w (selectTicketByID ?i ?m1) = bv_w m"
    using w by (auto simp: selectTicketByID_def clamp_cursor_def ensureTicketVisible_keeps Let_def split: option.splits)
  have n: "bv_columnTickets (bv_notify msg x) = bv_columnTickets x" "bv_w (bv_notify msg x) = bv_w x"
      "selectedTicket (bv_notify msg x) = selectedTicket x" "cursor_shown (bv_notify msg x) = cursor_shown x"
      "bv_activeColumn (bv_notify msg x) = bv_activeColumn x" for x
    by (simp_all add: bv_notify_def selectedTicket_def cursor_shown_def Let_def)
  show ?thesis
  proof (cases "\<exists>tickets \<in> set (bv_columnTickets ?m1). \<exists>q \<in> set tickets. t_ID (tk m q) = ?i")
    case True
    then obtain tickets q where "tickets \<in> set (bv_columnTickets ?m1)" "q \<in> set tickets" "t_ID (tk ?m1 q) = ?i"
      using w by auto
    from select_found [OF ok this] True show ?thesis by (simp add: m' k n same w)
  next
    case False
    have "selectTicketByID ?i ?m1 = clamp_cursor ?m1 \<and>
       (bv_columnTickets ?m1 ! nat (bv_activeColumn ?m1) \<noteq> [] \<longrightarrow> (\<exists>r'. selectedTicket (selectTicketByID ?i ?m1) = Inr (Some r')))"
      using False w by (intro select_missing [OF ok]) auto
    moreover have "bv_activeColumn (clamp_cursor ?m1) = bv_activeColumn m \<and>
        bv_columnTickets (clamp_cursor ?m1) = bv_columnTickets ?m1 \<and> bv_w (clamp_cursor ?m1) = bv_w m"
      using w by (auto simp: clamp_cursor_def Let_def)
    ultimately show ?thesis using False by (auto simp: m' k n w)
  qed
qed

text \<open>A ticket the user has just created is never hidden from them.\<close>

lemma reveal_shows: "ticketMatchesFilter lower (revealThroughFilters lower (Some r) m) r"
proof (cases "ticketMatchesFilter lower m r")
  case True
  then show ?thesis by (simp add: revealThroughFilters_def)
next
  case False
  then show ?thesis
    by (simp add: revealThroughFilters_def Let_def)
      (auto simp: ticketMatchesFilter_def project_selected_def Let_def)
qed

lemma status_walk:
  "nextStatus s \<noteq> s \<Longrightarrow> previousStatus (nextStatus s) = s"
  "previousStatus s \<noteq> s \<Longrightarrow> nextStatus (previousStatus s) = s"
  by (auto simp: nextStatus_def previousStatus_def split: if_splits)

lemma effectivePriority_range: "1 \<le> effectivePriority p \<and> effectivePriority p \<le> 5"
  by (simp add: effectivePriority_def)

section \<open>A concrete board\<close>

definition example_view :: BoardView where
  "example_view =
     \<lparr>bv_g = fst example_gw, bv_w = snd example_gw, bv_owned = [], bv_columns = DefaultColumns,
      bv_columnTickets = replicate 5 [], bv_activeColumn = 0, bv_activeTicket = 0, bv_scrollOffset = 0,
      bv_columnOffsets = replicate 5 0, bv_columnTicketHeights = replicate 5 [], bv_width = 120, bv_height = 40,
      bv_sidebarVisible = False, bv_sidebarWidth = 24, bv_sidebarOpenOnly = False, bv_sortMode = SortDefault,
      bv_sessionFilter = SessionFilterAll, bv_alwaysShowWorking = False, bv_filterQuery = [], bv_filterProjectIDs = [],
      bv_notification = []\<rparr>"

lemma example_view_ok: "view_ok example_view"
  by (simp add: view_ok_def example_view_def DefaultColumns_def)

lemma board_cursor_safe_witness:
  "view_ok (view_run id [(\<lambda>i xs. xs, Refresh), (\<lambda>i xs. rev xs, MoveColumn 9), (\<lambda>i xs. xs, CycleSession)] example_view) \<and>
   selectedTicket (view_run id [(\<lambda>i xs. xs, Refresh), (\<lambda>i xs. rev xs, MoveColumn 9), (\<lambda>i xs. xs, CycleSession)] example_view) \<noteq> Inl ()"
  by (rule board_cursor_safe [OF example_view_ok])

lemma board_shows_exactly_witness:
  "distinct (bv_columnTickets (refreshColumnTickets id (\<lambda>i xs. rev xs) example_view) ! 0) \<and>
     set (bv_columnTickets (refreshColumnTickets id (\<lambda>i xs. rev xs) example_view) ! 0) =
       {r. (\<exists>i. mget (g_all (bv_g example_view)) i = Some r) \<and>
          t_Status (tk example_view r) = c_Status (bv_columns example_view ! 0) \<and> ticketMatchesFilter id example_view r} \<and>
     sorted_column id (bv_w example_view) (bv_sortMode example_view) (bv_columnTickets (refreshColumnTickets id (\<lambda>i xs. rev xs) example_view) ! 0)"
proof (rule board_shows_exactly)
  show "gs_inv (bv_g example_view) (bv_w example_view)"
    using gs_run_inv [OF example_run] by (simp add: example_view_def)
qed (simp_all add: permutes_def example_view_def DefaultColumns_def)

definition shown_view :: BoardView where
  "shown_view = refreshColumnTickets id (\<lambda>i xs. xs) example_view"

lemma shown_selected: "selectedTicket shown_view = Inr (Some 0)"
  by code_simp

lemma selection_follows_ticket_witness:
  "if \<exists>tickets \<in> set (bv_columnTickets (cycleSortMode id (\<lambda>i xs. xs) shown_view)). \<exists>q \<in> set tickets.
        t_ID (tk (cycleSortMode id (\<lambda>i xs. xs) shown_view) q) = t_ID (tk shown_view 0)
     then \<exists>r'. selectedTicket (cycleSortMode id (\<lambda>i xs. xs) shown_view) = Inr (Some r') \<and>
       t_ID (tk (cycleSortMode id (\<lambda>i xs. xs) shown_view) r') = t_ID (tk shown_view 0) \<and>
       cursor_shown (cycleSortMode id (\<lambda>i xs. xs) shown_view)
     else bv_activeColumn (cycleSortMode id (\<lambda>i xs. xs) shown_view) = bv_activeColumn shown_view \<and>
       (bv_columnTickets (cycleSortMode id (\<lambda>i xs. xs) shown_view) ! nat (bv_activeColumn (cycleSortMode id (\<lambda>i xs. xs) shown_view)) \<noteq> [] \<longrightarrow>
          (\<exists>r'. selectedTicket (cycleSortMode id (\<lambda>i xs. xs) shown_view) = Inr (Some r')))"
  by (rule selection_follows_ticket [OF _ shown_selected, where it = "\<lambda>i xs. xs" and lower = id])
    (simp_all add: shown_view_def refresh_ok example_view_ok)

end
