(* ===== verification/BoardResync.thy ===== *)
theory BoardResync
  imports BoardView
begin

text \<open>
  \<^verbatim>\<open>internal/ui/board_resync.go\<close>: once a second the board compares the ticket directories with what it saw the tick
  before and reloads what changed.  The scan runs beside the board on a fresh registry and reads only the disk; the
  handler applies its result to the global store of theory GlobalStore and rebuilds the columns of theory BoardView.
\<close>

record boardFileMeta =
  bm_mtime :: time
  bm_size :: nat
  bm_projectID :: string

type_synonym snapshot = "(path, boardFileMeta) gomap"

definition scan_file :: "faults \<Rightarrow> disk \<Rightarrow> string \<Rightarrow> path \<Rightarrow> string \<Rightarrow> snapshot \<Rightarrow> snapshot" where
  "scan_file F d pid dir name snap =
     (case mget d (dir @ [name]) of
        Some (FileN content mtime) \<Rightarrow>
          if \<not> has_suffix name ''.md'' \<or> has_prefix name ''.'' \<or> F (StatCall (dir @ [name])) then snap
          else mput (dir @ [name]) \<lparr>bm_mtime = mtime, bm_size = length content, bm_projectID = pid\<rparr> snap
      | _ \<Rightarrow> snap)"

definition scan_project :: "faults \<Rightarrow> disk \<Rightarrow> string \<Rightarrow> snapshot \<Rightarrow> snapshot" where
  "scan_project F d pid snap =
     (let dir = ticketsDir @ [pid] in
      case os_ReadDir F dir d of
        Inl e \<Rightarrow> snap
      | Inr names \<Rightarrow> fold (scan_file F d pid dir) names snap)"

definition boardScan :: "io_env \<Rightarrow> ProjectRegistry json_lib \<Rightarrow> disk \<Rightarrow> file_error + snapshot \<times> string list" where
  "boardScan E J d =
     (case LoadRegistry E J d of
        Inl e \<Rightarrow> Inl e
      | Inr reg \<Rightarrow>
          (let pids = map (\<lambda>(i, p). p_ID p) reg in
           Inr (fold (scan_project (e_faults E) d) pids [], pids)))"

section \<open>The handler\<close>

type_synonym store_state = "GlobalStore \<times> world \<times> bool"

definition install_project :: "io_env \<Rightarrow> string \<Rightarrow> store_state \<Rightarrow> store_state" where
  "install_project E pid st =
     (case st of (g, w, changed) \<Rightarrow>
        if HasProject pid g then st
        else case mget (g_registry g) pid of
          None \<Rightarrow> st
        | Some p \<Rightarrow> (case AddProjectAndLoad E p g w of (g1, w1, e) \<Rightarrow> (g1, w1, True)))"

definition reload_path :: "io_env \<Rightarrow> string \<Rightarrow> path \<Rightarrow> store_state \<Rightarrow> store_state" where
  "reload_path E pid p st =
     (case st of (g, w, changed) \<Rightarrow>
        (case ReloadTicket E pid p g w of
           (g1, w1, Some e) \<Rightarrow> (g1, w1, changed)
         | (g1, w1, None) \<Rightarrow> (g1, w1, True)))"

definition same_sentinel :: "boardFileMeta \<Rightarrow> boardFileMeta \<Rightarrow> bool" where
  "same_sentinel a b \<longleftrightarrow> bm_mtime a = bm_mtime b \<and> bm_size a = bm_size b"

definition changed_paths :: "snapshot \<Rightarrow> snapshot \<Rightarrow> (path \<times> string) list" where
  "changed_paths old snap =
     map (\<lambda>(p, meta). (p, bm_projectID meta))
       (filter (\<lambda>(p, meta). case mget old p of None \<Rightarrow> True | Some prev \<Rightarrow> \<not> same_sentinel prev meta) snap)"

definition gone_paths :: "snapshot \<Rightarrow> snapshot \<Rightarrow> (path \<times> string) list" where
  "gone_paths old snap =
     map (\<lambda>(p, prev). (p, bm_projectID prev)) (filter (\<lambda>(p, prev). mget snap p = None) old)"

definition apply_scan :: "io_env \<Rightarrow> snapshot \<Rightarrow> snapshot \<Rightarrow> store_state \<Rightarrow> store_state" where
  "apply_scan E old snap st =
     fold (\<lambda>(p, pid). reload_path E pid p) (gone_paths old snap)
       (fold (\<lambda>(p, pid). reload_path E pid p) (changed_paths old snap) st)"

definition handleBoardResyncMsg ::
  "(string \<Rightarrow> string) \<Rightarrow> (nat \<Rightarrow> ref list \<Rightarrow> ref list) \<Rightarrow> io_env \<Rightarrow> ProjectRegistry json_lib \<Rightarrow>
   file_error + snapshot \<times> string list \<Rightarrow> BoardView \<times> snapshot \<Rightarrow> BoardView \<times> snapshot" where
  "handleBoardResyncMsg lower it E J msg ms =
     (case ms of (m, old) \<Rightarrow>
       (case msg of
          Inl e \<Rightarrow> (m, old)
        | Inr (snap, pids) \<Rightarrow>
            (let reg = fst (ReloadFromDisk E J (w_disk (bv_w m)) (g_registry (bv_g m)));
                 st0 = ((bv_g m)\<lparr>g_registry := reg\<rparr>, bv_w m, False) in
             case apply_scan E old snap (fold (install_project E) pids st0) of
               (g, w, changed) \<Rightarrow>
                 (let m1 = m\<lparr>bv_g := g, bv_w := w\<rparr> in
                  ((if changed then
                      (case selectedTicket m1 of
                         Inr (Some r) \<Rightarrow> ensureColumnVisible (keep_selection lower it (\<lambda>m. m) m1)
                       | _ \<Rightarrow> refreshColumnTickets lower it m1)
                    else m1), snap)))))"

section \<open>One reload\<close>

definition file_ticket :: "io_env \<Rightarrow> disk \<Rightarrow> path \<Rightarrow> Ticket option" where
  "file_ticket E d p =
     (case os_ReadFile (e_faults E) p d of
        Inl e \<Rightarrow> None
      | Inr data \<Rightarrow> (case UnmarshalTicket (e_yaml E) (e_now E) data of Inl e \<Rightarrow> None | Inr t \<Rightarrow> Some t))"

definition absent :: "io_env \<Rightarrow> disk \<Rightarrow> path \<Rightarrow> bool" where
  "absent E d p \<longleftrightarrow> (\<exists>e. os_ReadFile (e_faults E) p d = Inl e \<and> not_exist e)"

text \<open>The entry of a ticket in a project's store.\<close>

definition entry :: "GlobalStore \<Rightarrow> string \<Rightarrow> TicketID \<Rightarrow> (ref option \<times> path option) option" where
  "entry g pid i = map_option (\<lambda>s. (mget (ts_Tickets s) i, mget (ts_paths s) i)) (mget (g_stores g) pid)"

lemma reload_loaded:
  assumes "file_ticket E (w_disk w) p = Some t" "mget (g_stores g) pid = Some s"
    and "reload_path E pid p (g, w, c) = (g', w', c')"
  shows "c' \<and> w_disk w' = w_disk w \<and> w_heap w' = w_heap w @ [backfill_project pid t] \<and>
     (\<forall>i. mget (g_all g') i = (if i = t_ID t then Some (length (w_heap w)) else mget (g_all g) i)) \<and>
     (\<forall>q i. entry g' q i = (if q = pid \<and> i = t_ID t then Some (Some (length (w_heap w)), Some p) else entry g q i))"
proof -
  have i: "t_ID (backfill_project pid t) = t_ID t" by (simp add: backfill_project_def)
  show ?thesis using assms
    by (auto simp: file_ticket_def reload_path_def ReloadTicket_def Let_def alloc_def i entry_def split: sum.splits)
qed

lemma reload_dropped:
  assumes "absent E (w_disk w) p" "mget (g_stores g) pid = Some s" "mwf (ts_paths s)"
    and "reload_path E pid p (g, w, c) = (g', w', c')"
  shows "w' = w \<and>
     ((\<forall>i. mget (ts_paths s) i \<noteq> Some p) \<and> g' = g \<or>
      (\<exists>j. mget (ts_paths s) j = Some p \<and> (\<forall>i. mget (g_all g') i = (if i = j then None else mget (g_all g) i)) \<and>
         (\<forall>q i. entry g' q i = (if q = pid \<and> i = j then Some (None, None) else entry g q i)) \<and>
         mget (g_stores g') pid = Some (s\<lparr>ts_Tickets := mdel j (ts_Tickets s), ts_paths := mdel j (ts_paths s)\<rparr>) \<and>
         (\<forall>q. q \<noteq> pid \<longrightarrow> mget (g_stores g') q = mget (g_stores g) q)))"
proof -
  have g': "g' = drop_path pid p s g" "w' = w"
    using assms(1,2,4) by (auto simp: absent_def reload_path_def ReloadTicket_def)
  show ?thesis
  proof (cases "find (\<lambda>(i, q). q = p) (ts_paths s)")
    case None
    then have "\<forall>(i, q) \<in> set (ts_paths s). q \<noteq> p" by (auto simp: find_None_iff)
    then have "\<forall>i. mget (ts_paths s) i \<noteq> Some p" by (auto dest: mget_in_set)
    then show ?thesis using g' None by (simp add: drop_path_def)
  next
    case (Some x)
    then obtain j q where f: "find (\<lambda>(i, q). q = p) (ts_paths s) = Some (j, q)" by (cases x) auto
    then have "(j, q) \<in> set (ts_paths s)" "q = p" by (auto simp: find_Some_iff) (metis nth_mem)
    then have "mget (ts_paths s) j = Some p" using assms(3) by (simp add: in_set_mget)
    then show ?thesis using g' f assms(2)
      by (intro conjI disjI2 exI [of _ j]) (auto simp: drop_path_def entry_def)
  qed
qed

section \<open>All reloads\<close>

definition paths_wf :: "GlobalStore \<Rightarrow> bool" where
  "paths_wf g \<longleftrightarrow> (\<forall>q s. mget (g_stores g) q = Some s \<longrightarrow> mwf (ts_paths s))"

definition known :: "GlobalStore \<Rightarrow> string \<Rightarrow> bool" where
  "known g pid \<longleftrightarrow> mget (g_stores g) pid \<noteq> None"

lemma known_entry: "known g pid \<longleftrightarrow> entry g pid i \<noteq> None"
  by (simp add: known_def entry_def)

lemma paths_wf_reload: "paths_wf g \<Longrightarrow> reload_path E pid p (g, w, c) = (g', w', c') \<Longrightarrow> paths_wf g'"
  by (auto simp: paths_wf_def reload_path_def ReloadTicket_def drop_path_def Let_def alloc_def
      split: option.splits sum.splits if_splits prod.splits)

definition ids_of :: "(path \<Rightarrow> Ticket) \<Rightarrow> (path \<times> string) list \<Rightarrow> TicketID set" where
  "ids_of T xs = (\<lambda>(p, pid). t_ID (T p)) ` set xs"

definition loaded_at :: "GlobalStore \<Rightarrow> world \<Rightarrow> string \<Rightarrow> path \<Rightarrow> Ticket \<Rightarrow> bool" where
  "loaded_at g w pid p t \<longleftrightarrow>
     (\<exists>r. mget (g_all g) (t_ID t) = Some r \<and> r < length (w_heap w) \<and> deref w r = backfill_project pid t \<and>
        entry g pid (t_ID t) = Some (Some r, Some p))"

lemma reload_all:
  assumes "\<forall>(p, pid) \<in> set xs. file_ticket E (w_disk w) p = Some (T p) \<and> known g pid"
    and "distinct (map (\<lambda>(p, pid). t_ID (T p)) xs)" "paths_wf g"
    and "fold (\<lambda>(p, pid). reload_path E pid p) xs (g, w, c) = (g', w', c')"
  shows "c' = (c \<or> xs \<noteq> []) \<and> w_disk w' = w_disk w \<and> (\<exists>new. w_heap w' = w_heap w @ new) \<and> paths_wf g' \<and>
     (\<forall>(p, pid) \<in> set xs. loaded_at g' w' pid p (T p)) \<and>
     (\<forall>i. i \<notin> ids_of T xs \<longrightarrow> mget (g_all g') i = mget (g_all g) i) \<and>
     (\<forall>q i. (\<forall>p. (p, q) \<in> set xs \<longrightarrow> t_ID (T p) \<noteq> i) \<longrightarrow> entry g' q i = entry g q i)"
  using assms
proof (induction xs arbitrary: g w c)
  case (Cons x xs)
  obtain p pid where x: "x = (p, pid)" by (cases x)
  obtain g1 w1 c1 where r: "reload_path E pid p (g, w, c) = (g1, w1, c1)" by (cases "reload_path E pid p (g, w, c)")
  obtain s where s: "mget (g_stores g) pid = Some s" using Cons.prems(1) x by (auto simp: known_def)
  have L: "c1 \<and> w_disk w1 = w_disk w \<and> w_heap w1 = w_heap w @ [backfill_project pid (T p)] \<and>
     (\<forall>i. mget (g_all g1) i = (if i = t_ID (T p) then Some (length (w_heap w)) else mget (g_all g) i)) \<and>
     (\<forall>q i. entry g1 q i = (if q = pid \<and> i = t_ID (T p) then Some (Some (length (w_heap w)), Some p) else entry g q i))"
    using Cons.prems(1) x by (intro reload_loaded [OF _ s r]) auto
  have k: "known g1 q = known g q" for q
    using L s by (auto simp: known_entry [where i = "t_ID (T p)"] entry_def split: if_splits)
  have f: "fold (\<lambda>(p, pid). reload_path E pid p) xs (g1, w1, c1) = (g', w', c')"
    using Cons.prems(4) x r by simp
  have IH: "c' = (c1 \<or> xs \<noteq> []) \<and> w_disk w' = w_disk w1 \<and> (\<exists>new. w_heap w' = w_heap w1 @ new) \<and> paths_wf g' \<and>
     (\<forall>(p, pid) \<in> set xs. loaded_at g' w' pid p (T p)) \<and>
     (\<forall>i. i \<notin> ids_of T xs \<longrightarrow> mget (g_all g') i = mget (g_all g1) i) \<and>
     (\<forall>q i. (\<forall>p. (p, q) \<in> set xs \<longrightarrow> t_ID (T p) \<noteq> i) \<longrightarrow> entry g' q i = entry g1 q i)"
    using Cons.prems L k paths_wf_reload [OF Cons.prems(3) r] by (intro Cons.IH [OF _ _ _ f]) auto
  have nin: "t_ID (T p) \<notin> ids_of T xs" using Cons.prems(2) x by (auto simp: ids_of_def)
  then have nin': "\<forall>p'. (p', q) \<in> set xs \<longrightarrow> t_ID (T p') \<noteq> t_ID (T p)" for q
    by (force simp: ids_of_def)
  obtain new where new: "w_heap w' = w_heap w1 @ new" using IH by blast
  have "loaded_at g' w' pid p (T p)"
    unfolding loaded_at_def
  proof (intro exI [of _ "length (w_heap w)"] conjI)
    show "mget (g_all g') (t_ID (T p)) = Some (length (w_heap w))" using IH nin L by simp
    show "entry g' pid (t_ID (T p)) = Some (Some (length (w_heap w)), Some p)" using IH nin' L by simp
    show "length (w_heap w) < length (w_heap w')" using new L by simp
    show "deref w' (length (w_heap w)) = backfill_project pid (T p)" using new L by (simp add: deref_def nth_append)
  qed
  moreover have "mget (g_all g') i = mget (g_all g) i" if "i \<notin> ids_of T (x # xs)" for i
    using that IH L x by (simp add: ids_of_def)
  moreover have "entry g' q i = entry g q i" if "\<forall>p'. (p', q) \<in> set (x # xs) \<longrightarrow> t_ID (T p') \<noteq> i" for q i
    using that IH L x by auto
  moreover have "\<exists>n. w_heap w' = w_heap w @ n" using new L by simp
  ultimately show ?case using IH L x by auto
qed (auto simp: ids_of_def)

section \<open>All drops\<close>

definition filed_at :: "GlobalStore \<Rightarrow> (path \<times> string) list \<Rightarrow> TicketID \<Rightarrow> bool" where
  "filed_at g ys i \<longleftrightarrow> (\<exists>(p, pid) \<in> set ys. \<exists>r. entry g pid i = Some (r, Some p))"

lemma drop_all:
  assumes "\<forall>(p, pid) \<in> set ys. absent E (w_disk w) p \<and> known g pid" "paths_wf g"
    and "\<forall>(p, pid) \<in> set ys. \<forall>i j r r'. entry g pid i = Some (r, Some p) \<longrightarrow> entry g pid j = Some (r', Some p) \<longrightarrow> i = j"
    and "fold (\<lambda>(p, pid). reload_path E pid p) ys (g, w, c) = (g', w', c')"
  shows "w' = w \<and> (\<forall>i. mget (g_all g') i = (if filed_at g ys i then None else mget (g_all g) i)) \<and>
     (\<forall>q i. (\<forall>p r. (p, q) \<in> set ys \<longrightarrow> entry g q i \<noteq> Some (r, Some p)) \<longrightarrow> entry g' q i = entry g q i)"
  using assms
proof (induction ys arbitrary: g w c)
  case (Cons y ys)
  obtain p pid where y: "y = (p, pid)" by (cases y)
  obtain g1 w1 c1 where r: "reload_path E pid p (g, w, c) = (g1, w1, c1)" by (cases "reload_path E pid p (g, w, c)")
  obtain s where s: "mget (g_stores g) pid = Some s" using Cons.prems(1) y by (auto simp: known_def)
  have wf: "mwf (ts_paths s)" using Cons.prems(2) s by (simp add: paths_wf_def)
  have D: "w1 = w \<and>
     ((\<forall>i. mget (ts_paths s) i \<noteq> Some p) \<and> g1 = g \<or>
      (\<exists>j. mget (ts_paths s) j = Some p \<and> (\<forall>i. mget (g_all g1) i = (if i = j then None else mget (g_all g) i)) \<and>
         (\<forall>q i. entry g1 q i = (if q = pid \<and> i = j then Some (None, None) else entry g q i)) \<and>
         mget (g_stores g1) pid = Some (s\<lparr>ts_Tickets := mdel j (ts_Tickets s), ts_paths := mdel j (ts_paths s)\<rparr>) \<and>
         (\<forall>q. q \<noteq> pid \<longrightarrow> mget (g_stores g1) q = mget (g_stores g) q)))"
    using Cons.prems(1) y by (intro reload_dropped [OF _ s wf r]) auto
  have f: "fold (\<lambda>(p, pid). reload_path E pid p) ys (g1, w1, c1) = (g', w', c')" using Cons.prems(4) y r by simp
  have sub: "entry g1 q i = entry g q i \<or> entry g1 q i = Some (None, None)" for q i using D by (auto split: if_splits)
  have k: "known g1 q = known g q" for q using D s by (cases "q = pid") (auto simp: known_def)
  have inj: "\<forall>(p, pid) \<in> set ys. \<forall>i j r r'. entry g1 pid i = Some (r, Some p) \<longrightarrow> entry g1 pid j = Some (r', Some p) \<longrightarrow> i = j"
  proof clarify
    fix p' pid' i j r r'
    assume "(p', pid') \<in> set ys" "entry g1 pid' i = Some (r, Some p')" "entry g1 pid' j = Some (r', Some p')"
    moreover then have "entry g pid' i = Some (r, Some p')" "entry g pid' j = Some (r', Some p')"
      using sub [of pid' i] sub [of pid' j] by auto
    ultimately show "i = j" using Cons.prems(3) by fastforce
  qed
  have IH: "w' = w1 \<and> (\<forall>i. mget (g_all g') i = (if filed_at g1 ys i then None else mget (g_all g1) i)) \<and>
     (\<forall>q i. (\<forall>p r. (p, q) \<in> set ys \<longrightarrow> entry g1 q i \<noteq> Some (r, Some p)) \<longrightarrow> entry g' q i = entry g1 q i)"
    using Cons.prems(1) D k inj paths_wf_reload [OF Cons.prems(2) r] by (intro Cons.IH [OF _ _ _ f]) auto
  have here: "(\<exists>r. entry g pid i = Some (r, Some p)) = (mget (ts_paths s) i = Some p)" for i
    using s by (simp add: entry_def)
  have uniq: "mget (ts_paths s) i = Some p \<Longrightarrow> mget (ts_paths s) j = Some p \<Longrightarrow> i = j" for i j
    using Cons.prems(3) y here [of i] here [of j] by fastforce
  from D show ?case
  proof (elim conjE disjE exE)
    assume none: "\<forall>i. mget (ts_paths s) i \<noteq> Some p" "g1 = g" and "w1 = w"
    moreover have "filed_at g (y # ys) i = filed_at g ys i" for i using none here y by (auto simp: filed_at_def)
    ultimately show ?thesis using IH by auto
  next
    fix j assume w1: "w1 = w" and j: "mget (ts_paths s) j = Some p"
      "\<forall>i. mget (g_all g1) i = (if i = j then None else mget (g_all g) i)"
      "\<forall>q i. entry g1 q i = (if q = pid \<and> i = j then Some (None, None) else entry g q i)"
    have "filed_at g (y # ys) i \<longleftrightarrow> i = j \<or> filed_at g1 ys i" for i
    proof (cases "i = j")
      case True
      then show ?thesis using j(1) here [of j] y by (auto simp: filed_at_def)
    next
      case False
      then have "mget (ts_paths s) i \<noteq> Some p" using uniq j(1) by blast
      then show ?thesis using False j(3) here [of i] y by (auto simp: filed_at_def)
    qed
    moreover have "entry g' q i = entry g q i" if "\<forall>p r. (p, q) \<in> set (y # ys) \<longrightarrow> entry g q i \<noteq> Some (r, Some p)" for q i
    proof -
      have "\<not> (q = pid \<and> i = j)" using that y j(1) here [of j] by auto
      then have "entry g1 q i = entry g q i" using j(3) by auto
      then show ?thesis using that IH by auto
    qed
    ultimately show ?thesis using IH w1 j(2) by auto
  qed
qed (auto simp: filed_at_def)

section \<open>A tick of the resync\<close>

text \<open>The disk and the store as a tick finds them: it reads every file it looks at, and knows every project.\<close>

definition tick_ok :: "io_env \<Rightarrow> (path \<Rightarrow> Ticket) \<Rightarrow> GlobalStore \<Rightarrow> world \<Rightarrow> snapshot \<Rightarrow> snapshot \<Rightarrow> bool" where
  "tick_ok E T g w old snap \<longleftrightarrow>
     (\<forall>(p, pid) \<in> set (changed_paths old snap). file_ticket E (w_disk w) p = Some (T p) \<and> known g pid) \<and>
     distinct (map (\<lambda>(p, pid). t_ID (T p)) (changed_paths old snap)) \<and>
     (\<forall>(p, pid) \<in> set (gone_paths old snap). absent E (w_disk w) p \<and> known g pid) \<and>
     paths_wf g \<and>
     (\<forall>(p, pid) \<in> set (gone_paths old snap). \<forall>i j r r'.
        entry g pid i = Some (r, Some p) \<longrightarrow> entry g pid j = Some (r', Some p) \<longrightarrow> i = j)"

text \<open>The ticket was filed under a path that is gone, in a project no changed file of which carries it.\<close>

definition dropped :: "(path \<Rightarrow> Ticket) \<Rightarrow> GlobalStore \<Rightarrow> snapshot \<Rightarrow> snapshot \<Rightarrow> TicketID \<Rightarrow> bool" where
  "dropped T g old snap i \<longleftrightarrow>
     (\<exists>(p, pid) \<in> set (gone_paths old snap). (\<exists>r. entry g pid i = Some (r, Some p)) \<and>
        (\<forall>p'. (p', pid) \<in> set (changed_paths old snap) \<longrightarrow> t_ID (T p') \<noteq> i))"

lemma gone_not_changed: "(p, pid) \<in> set (gone_paths old snap) \<Longrightarrow> (p, q) \<notin> set (changed_paths old snap)"
  by (force simp: gone_paths_def changed_paths_def mget_None)

lemma known_unless: "(\<And>q i. entry g' q i = entry g q i \<or> entry g' q i \<noteq> None) \<Longrightarrow> known g pid \<Longrightarrow> known g' pid"
  using known_entry by metis

lemma board_resync_exact_all:
  assumes ok: "tick_ok E T g w old snap" and a: "apply_scan E old snap (g, w, c) = (g', w', c')"
  shows "(\<forall>i. mget (g_all g') i \<noteq> None \<longleftrightarrow> \<not> dropped T g old snap i \<and> (i \<in> ids_of T (changed_paths old snap) \<or> mget (g_all g) i \<noteq> None)) \<and>
     (\<forall>(p, pid) \<in> set (changed_paths old snap). \<not> dropped T g old snap (t_ID (T p)) \<longrightarrow> loaded_at g' w' pid p (T p)) \<and>
     (\<forall>i. i \<notin> ids_of T (changed_paths old snap) \<longrightarrow> \<not> dropped T g old snap i \<longrightarrow> mget (g_all g') i = mget (g_all g) i) \<and>
     (\<forall>r < length (w_heap w). deref w' r = deref w r) \<and> w_disk w' = w_disk w"
proof -
  let ?xs = "changed_paths old snap" and ?ys = "gone_paths old snap"
  obtain g1 w1 c1 where f: "fold (\<lambda>(p, pid). reload_path E pid p) ?xs (g, w, c) = (g1, w1, c1)"
    by (cases "fold (\<lambda>(p, pid). reload_path E pid p) ?xs (g, w, c)")
  have L: "c1 = (c \<or> ?xs \<noteq> []) \<and> w_disk w1 = w_disk w \<and> (\<exists>new. w_heap w1 = w_heap w @ new) \<and> paths_wf g1 \<and>
     (\<forall>(p, pid) \<in> set ?xs. loaded_at g1 w1 pid p (T p)) \<and>
     (\<forall>i. i \<notin> ids_of T ?xs \<longrightarrow> mget (g_all g1) i = mget (g_all g) i) \<and>
     (\<forall>q i. (\<forall>p. (p, q) \<in> set ?xs \<longrightarrow> t_ID (T p) \<noteq> i) \<longrightarrow> entry g1 q i = entry g q i)"
    using ok by (intro reload_all [OF _ _ _ f]) (simp_all add: tick_ok_def)
  have at: "entry g1 pid i = Some (r, Some p) \<longleftrightarrow> entry g pid i = Some (r, Some p) \<and> (\<forall>p'. (p', pid) \<in> set ?xs \<longrightarrow> t_ID (T p') \<noteq> i)"
    if y: "(p, pid) \<in> set ?ys" for p pid i r
  proof (cases "\<exists>p'. (p', pid) \<in> set ?xs \<and> t_ID (T p') = i")
    case True
    then obtain p' where "(p', pid) \<in> set ?xs" "t_ID (T p') = i" by blast
    then have "loaded_at g1 w1 pid p' (T p')" "p' \<noteq> p" using L gone_not_changed [OF y] by auto
    then show ?thesis using True \<open>t_ID (T p') = i\<close> by (auto simp: loaded_at_def)
  next
    case False
    then show ?thesis using L by auto
  qed
  have dr: "filed_at g1 ?ys i = dropped T g old snap i" for i
  proof -
    have "(\<exists>r. entry g1 pid i = Some (r, Some p)) =
        ((\<exists>r. entry g pid i = Some (r, Some p)) \<and> (\<forall>p'. (p', pid) \<in> set ?xs \<longrightarrow> t_ID (T p') \<noteq> i))"
      if "(p, pid) \<in> set ?ys" for p pid
      using at [OF that, of i] by blast
    then show ?thesis unfolding filed_at_def dropped_def by (intro bex_cong refl) blast
  qed
  have same: "entry g1 q i = entry g q i \<or> entry g1 q i \<noteq> None" for q i
    using L by (cases "\<forall>p. (p, q) \<in> set ?xs \<longrightarrow> t_ID (T p) \<noteq> i") (auto simp: loaded_at_def)
  have D: "w' = w1 \<and> (\<forall>i. mget (g_all g') i = (if filed_at g1 ?ys i then None else mget (g_all g1) i)) \<and>
     (\<forall>q i. (\<forall>p r. (p, q) \<in> set ?ys \<longrightarrow> entry g1 q i \<noteq> Some (r, Some p)) \<longrightarrow> entry g' q i = entry g1 q i)"
  proof (rule drop_all)
    show "\<forall>(p, pid) \<in> set ?ys. absent E (w_disk w1) p \<and> known g1 pid"
      using ok L known_unless [of g1 g, OF same] by (auto simp: tick_ok_def)
    show "\<forall>(p, pid) \<in> set ?ys. \<forall>i j r r'. entry g1 pid i = Some (r, Some p) \<longrightarrow> entry g1 pid j = Some (r', Some p) \<longrightarrow> i = j"
      using ok at unfolding tick_ok_def by fastforce
    show "fold (\<lambda>(p, pid). reload_path E pid p) ?ys (g1, w1, c1) = (g', w', c')"
      using a f by (simp add: apply_scan_def)
  qed (use L in simp)
  have loaded: "loaded_at g' w' pid p (T p)" if x: "(p, pid) \<in> set ?xs" "\<not> dropped T g old snap (t_ID (T p))" for p pid
  proof -
    have l: "loaded_at g1 w1 pid p (T p)" using L x by auto
    then obtain r where e: "entry g1 pid (t_ID (T p)) = Some (Some r, Some p)" by (auto simp: loaded_at_def)
    have "\<forall>p' r. (p', pid) \<in> set ?ys \<longrightarrow> entry g1 pid (t_ID (T p)) \<noteq> Some (r, Some p')"
      using e gone_not_changed x(1) by auto
    then have "entry g' pid (t_ID (T p)) = entry g1 pid (t_ID (T p))" using D by blast
    then show ?thesis using l D x(2) dr by (simp add: loaded_at_def)
  qed
  have idx: "mget (g_all g1) i \<noteq> None \<longleftrightarrow> i \<in> ids_of T ?xs \<or> mget (g_all g) i \<noteq> None" for i
    using L by (cases "i \<in> ids_of T ?xs") (auto simp: ids_of_def loaded_at_def)
  obtain new where new: "w_heap w1 = w_heap w @ new" using L by blast
  show ?thesis using D dr idx loaded L new by (auto simp: deref_def nth_append)
qed

lemma registry_irrelevant:
  "tick_ok E T (g\<lparr>g_registry := reg\<rparr>) w old snap = tick_ok E T g w old snap"
  "dropped T (g\<lparr>g_registry := reg\<rparr>) old snap i = dropped T g old snap i"
  by (simp_all add: tick_ok_def dropped_def entry_def known_def paths_wf_def)

lemma install_known: "\<forall>pid \<in> set pids. HasProject pid g \<Longrightarrow> fold (install_project E) pids (g, w, c) = (g, w, c)"
  by (induction pids) (simp_all add: install_project_def)

lemma rebuild_keeps:
  "bv_g (ensureColumnVisible m) = bv_g m" "bv_w (ensureColumnVisible m) = bv_w m"
  "bv_g (keep_selection lower it (\<lambda>m. m) m) = bv_g m" "bv_w (keep_selection lower it (\<lambda>m. m) m) = bv_w m"
  using refresh_keeps [of lower it m]
  by (auto simp: ensureColumnVisible_def keep_selection_def selectTicketByID_def clamp_cursor_def ensureTicketVisible_keeps Let_def
      split: sum.splits option.splits)


text \<open>C25: 
  The flip side of dropping by path: when another program moves a ticket to another project, the tick that sees it loads
  the new file and then, for the old path, removes the ticket's id from the global index, so the board loses a ticket
  that is on the disk.
\<close>
theorem moved_ticket_vanishes:
  assumes "tick_ok E T g w old snap" "apply_scan E old snap (g, w, c) = (g', w', c')"
    and "(p, pid) \<in> set (changed_paths old snap)" "(p0, pid0) \<in> set (gone_paths old snap)" "pid0 \<noteq> pid"
    and "entry g pid0 (t_ID (T p)) = Some (r, Some p0)"
  shows "Global_Get (t_ID (T p)) g' = Inl GE_not_found \<and> file_ticket E (w_disk w') p = Some (T p)"
proof -
  have "t_ID (T p') \<noteq> t_ID (T p)" if "(p', pid0) \<in> set (changed_paths old snap)" for p'
  proof
    assume e: "t_ID (T p') = t_ID (T p)"
    have "distinct (map (\<lambda>(p, pid). t_ID (T p)) (changed_paths old snap))" using assms(1) by (simp add: tick_ok_def)
    then have "inj_on (\<lambda>(p, pid). t_ID (T p)) (set (changed_paths old snap))" by (simp add: distinct_map)
    then have "(p', pid0) = (p, pid)" using that assms(3) e inj_onD [of _ _ "(p', pid0)" "(p, pid)"] by fastforce
    with assms(5) show False by simp
  qed
  then have "dropped T g old snap (t_ID (T p))" using assms(4,6) unfolding dropped_def by blast
  then show ?thesis using board_resync_exact_all [OF assms(1,2)] assms(1,3) by (auto simp: Global_Get_def tick_ok_def)
qed

section \<open>A concrete tick\<close>

definition tick_T :: "path \<Rightarrow> Ticket" where
  "tick_T p = example_ticket\<lparr>t_Description := trim_nl (t_Description example_ticket)\<rparr>"

definition tick_store :: GlobalStore where
  "tick_store =
     \<lparr>g_registry = [], g_projects = [],
      g_stores = [(''p'', NewTicketStore 5 ''p'' ''/r''),
        (''q'', (NewTicketStore 5 ''q'' ''/r'')\<lparr>ts_Tickets := [(''0a1b2c3d-e'', 0)],
           ts_paths := [(''0a1b2c3d-e'', ticketsDir @ [''q'', ''a.md''])]\<rparr>)],
      g_all = [(''0a1b2c3d-e'', 0)]\<rparr>"

definition tick_old :: snapshot where
  "tick_old = [(ticketsDir @ [''q'', ''a.md''], \<lparr>bm_mtime = 3, bm_size = 10, bm_projectID = ''q''\<rparr>)]"

definition tick_snap :: snapshot where
  "tick_snap = [(ticketsDir @ [''p'', ''a.md''], \<lparr>bm_mtime = 7, bm_size = 10, bm_projectID = ''p''\<rparr>)]"

lemma tick_paths: "changed_paths tick_old tick_snap = [(ticketsDir @ [''p'', ''a.md''], ''p'')]"
  "gone_paths tick_old tick_snap = [(ticketsDir @ [''q'', ''a.md''], ''q'')]"
  by (simp_all add: changed_paths_def gone_paths_def tick_old_def tick_snap_def)

lemma tick_id: "t_ID (tick_T p) = ''0a1b2c3d-e''"
  by code_simp

lemma tick_file: "file_ticket mig_example_env (w_disk example_world) (ticketsDir @ [''p'', ''a.md'']) = Some (tick_T p)"
  by code_simp

lemma tick_example: "tick_ok mig_example_env tick_T tick_store example_world tick_old tick_snap"
proof -
  have "absent mig_example_env (w_disk example_world) (ticketsDir @ [''q'', ''a.md''])"
    by (simp add: absent_def os_ReadFile_def mig_example_env_def example_world_def ticketsDir_def)
  moreover have "known tick_store ''p''" "known tick_store ''q''" "paths_wf tick_store"
    by (auto simp: known_def tick_store_def paths_wf_def NewTicketStore_def mwf_def split: if_splits)
  moreover have "i = ''0a1b2c3d-e''" if "entry tick_store ''q'' i = Some (r, Some p)" for i r p
    using that by (auto simp: entry_def tick_store_def NewTicketStore_def split: if_splits)
  then have "i = j" if "entry tick_store ''q'' i = Some (r, Some p)" "entry tick_store ''q'' j = Some (r', Some p)" for i j r r' p
    using that by metis
  ultimately show ?thesis by (simp add: tick_ok_def tick_paths tick_file) metis
qed

definition tick_result :: store_state where
  "tick_result = apply_scan mig_example_env tick_old tick_snap (tick_store, example_world, False)"

lemma tick_result: "apply_scan mig_example_env tick_old tick_snap (tick_store, example_world, False) =
   (fst tick_result, fst (snd tick_result), snd (snd tick_result))"
  by (simp add: tick_result_def)

lemma moved_ticket_vanishes_witness:
  "Global_Get ''0a1b2c3d-e'' (fst tick_result) = Inl GE_not_found \<and>
   file_ticket mig_example_env (w_disk (fst (snd tick_result))) (ticketsDir @ [''p'', ''a.md'']) = Some (tick_T [])"
proof -
  have "entry tick_store ''q'' ''0a1b2c3d-e'' = Some (Some 0, Some (ticketsDir @ [''q'', ''a.md'']))"
    by (simp add: entry_def tick_store_def)
  then show ?thesis
    using moved_ticket_vanishes [OF tick_example tick_result, of "ticketsDir @ [''p'', ''a.md'']" "''p''" "ticketsDir @ [''q'', ''a.md'']" "''q''"]
    by (simp add: tick_paths tick_id) (simp add: tick_T_def)
qed

definition tick_view :: BoardView where
  "tick_view = example_view\<lparr>bv_g := tick_store, bv_w := example_world\<rparr>"


end
