(* ===== verification/ClientRpc.thy ===== *)
theory ClientRpc
  imports Prelude
begin

text \<open>
  \<^verbatim>\<open>internal/daemonclient/client.go\<close>: the control connection of one TUI process.  Several goroutines share it: any
  number of callers of \<^verbatim>\<open>Client.do\<close>, the read loop, and a caller of \<^verbatim>\<open>Close\<close>; the theory has one transition per
  section of those functions that runs under a lock or touches a channel, and the daemon and the request contexts as
  the environment.

  An RPC is a number.  Its channel \<^verbatim>\<open>pending\<close> (capacity one) is \<open>c_chan s i\<close>; the field \<open>c_pending\<close> is
  the field \<^verbatim>\<open>c.pending\<close>, the channel the read loop delivers to.  A frame payload is the text of a JSON envelope, and
  the decoders of \<^verbatim>\<open>encoding/json\<close> are arguments: \<open>de\<close> splits an envelope into type and body, \<open>dr\<close> reads an error
  response, and the call says which bodies decode into its result.
\<close>

section \<open>One call\<close>

datatype rpc_error =
    ErrDaemonUnavailable
  | ErrContext
  | ErrEncode string
  | ErrWrite string
  | ErrRead string
  | ErrEnvelope
  | ErrBadErrorResp
  | ErrRemote string string
  | ErrUnexpected string string
  | ErrDecode string

datatype raw_resp = RawResp string string | RawErr rpc_error

record rpc_call =
  rc_type :: string
  rc_encodes :: bool
  rc_expect :: string
  rc_out :: "(string \<Rightarrow> bool) option"

type_synonym rpc_result = "rpc_error + string"

definition MsgErrorResp :: string where "MsgErrorResp = ''error.resp''"

definition handle_resp :: "(string \<Rightarrow> (string \<times> string) option) \<Rightarrow> rpc_call \<Rightarrow> raw_resp \<Rightarrow> rpc_result" where
  "handle_resp dr c r =
     (case r of
        RawErr e \<Rightarrow> Inl e
      | RawResp t b \<Rightarrow>
          if t = MsgErrorResp then
            (case dr b of None \<Rightarrow> Inl ErrBadErrorResp | Some (code, msg) \<Rightarrow> Inl (ErrRemote code msg))
          else if t \<noteq> rc_expect c then Inl (ErrUnexpected (rc_type c) t)
          else (case rc_out c of
                  None \<Rightarrow> Inr b
                | Some ok \<Rightarrow> if ok b then Inr b else Inl (ErrDecode (rc_expect c))))"

lemma handle_resp_Inr: "handle_resp dr c r = Inr b \<Longrightarrow> r = RawResp (rc_expect c) b"
  by (auto simp: handle_resp_def split: raw_resp.splits if_splits option.splits)

section \<open>The shared state\<close>

datatype rpc_phase = RpcNew | RpcWantLock | RpcLocked | RpcWritten | RpcDone rpc_result

datatype frame_kind = TypeJSONResp | TypeJSONPush | TypeOther

datatype reader_state = RdTop | RdBlocked | RdDeliver nat string | RdExit

record Client =
  c_closed :: bool
  c_closeCh :: bool
  c_connClosed :: bool
  c_pending :: "nat option"
  c_rpcMu :: "nat option"
  c_chan :: "nat \<Rightarrow> raw_resp option"
  c_phase :: "nat \<Rightarrow> rpc_phase"
  c_reader :: reader_state
  c_closing :: bool
  c_inbox :: "(frame_kind \<times> string) list"
  c_wire :: "nat list"

definition dial_client :: Client where
  "dial_client =
     \<lparr>c_closed = False, c_closeCh = False, c_connClosed = False, c_pending = None, c_rpcMu = None,
      c_chan = (\<lambda>_. None), c_phase = (\<lambda>_. RpcNew), c_reader = RdTop, c_closing = False, c_inbox = [], c_wire = []\<rparr>"

text \<open>A send on a channel of capacity one, in a \<^verbatim>\<open>select\<close> with a default: a full channel drops the value.\<close>

definition offer :: "nat \<Rightarrow> raw_resp \<Rightarrow> Client \<Rightarrow> Client" where
  "offer i r s = (if c_chan s i = None then s\<lparr>c_chan := (c_chan s)(i := Some r)\<rparr> else s)"

definition wake_pending :: "rpc_error \<Rightarrow> Client \<Rightarrow> Client" where
  "wake_pending e s =
     (case c_pending s of None \<Rightarrow> s | Some i \<Rightarrow> (offer i (RawErr e) s)\<lparr>c_pending := None\<rparr>)"

definition shut :: "Client \<Rightarrow> Client" where
  "shut s = s\<lparr>c_closed := True, c_closeCh := True, c_connClosed := True\<rparr>"

definition signalDisconnect :: "rpc_error option \<Rightarrow> Client \<Rightarrow> Client" where
  "signalDisconnect e s =
     (if c_closed s then s
      else wake_pending (case e of None \<Rightarrow> ErrDaemonUnavailable | Some e' \<Rightarrow> e') (shut s))"

definition return_rpc :: "nat \<Rightarrow> rpc_result \<Rightarrow> Client \<Rightarrow> Client" where
  "return_rpc i r s = s\<lparr>c_phase := (c_phase s)(i := RpcDone r), c_pending := None, c_rpcMu := None\<rparr>"

section \<open>The steps of a call\<close>

definition do_begin :: "(nat \<Rightarrow> rpc_call) \<Rightarrow> nat \<Rightarrow> Client \<Rightarrow> Client" where
  "do_begin calls i s =
     (if c_closed s then s\<lparr>c_phase := (c_phase s)(i := RpcDone (Inl ErrDaemonUnavailable))\<rparr>
      else if \<not> rc_encodes (calls i) then s\<lparr>c_phase := (c_phase s)(i := RpcDone (Inl (ErrEncode (rc_type (calls i)))))\<rparr>
      else s\<lparr>c_phase := (c_phase s)(i := RpcWantLock)\<rparr>)"

definition do_lock :: "nat \<Rightarrow> Client \<Rightarrow> Client" where
  "do_lock i s =
     s\<lparr>c_rpcMu := Some i, c_pending := Some i, c_chan := (c_chan s)(i := None),
       c_phase := (c_phase s)(i := RpcLocked)\<rparr>"

definition do_write :: "nat \<Rightarrow> string option \<Rightarrow> Client \<Rightarrow> Client" where
  "do_write i werr s =
     (case werr of
        None \<Rightarrow> s\<lparr>c_wire := c_wire s @ [i], c_phase := (c_phase s)(i := RpcWritten)\<rparr>
      | Some w \<Rightarrow> return_rpc i (Inl (ErrWrite w)) (signalDisconnect (Some (ErrWrite w)) s))"

text \<open>
  The three ways out of the final \<^verbatim>\<open>select\<close>.  A context that is done and a closed connection both look at the channel
  once more before they report themselves.
\<close>

definition do_receive :: "(string \<Rightarrow> (string \<times> string) option) \<Rightarrow> (nat \<Rightarrow> rpc_call) \<Rightarrow> nat \<Rightarrow> raw_resp \<Rightarrow> Client \<Rightarrow> Client" where
  "do_receive dr calls i r s = return_rpc i (handle_resp dr (calls i) r) (s\<lparr>c_chan := (c_chan s)(i := None)\<rparr>)"

definition do_giveup :: "(string \<Rightarrow> (string \<times> string) option) \<Rightarrow> (nat \<Rightarrow> rpc_call) \<Rightarrow> rpc_error \<Rightarrow> nat \<Rightarrow> Client \<Rightarrow> Client" where
  "do_giveup dr calls e i s =
     (case c_chan s i of Some r \<Rightarrow> do_receive dr calls i r s | None \<Rightarrow> return_rpc i (Inl e) s)"

section \<open>The read loop and \<^verbatim>\<open>Close\<close>\<close>

definition read_top :: "Client \<Rightarrow> Client" where
  "read_top s = s\<lparr>c_reader := (if c_closed s then RdExit else RdBlocked)\<rparr>"

definition read_frame :: "frame_kind \<Rightarrow> string \<Rightarrow> Client \<Rightarrow> Client" where
  "read_frame k p s =
     (case k of
        TypeJSONResp \<Rightarrow> (case c_pending s of None \<Rightarrow> s\<lparr>c_reader := RdTop\<rparr> | Some i \<Rightarrow> s\<lparr>c_reader := RdDeliver i p\<rparr>)
      | TypeJSONPush \<Rightarrow> s\<lparr>c_reader := RdTop\<rparr>
      | TypeOther \<Rightarrow> s\<lparr>c_reader := RdTop\<rparr>)"

definition deliverResp :: "(string \<Rightarrow> (string \<times> string) option) \<Rightarrow> nat \<Rightarrow> string \<Rightarrow> Client \<Rightarrow> Client" where
  "deliverResp de i p s =
     (offer i (case de p of None \<Rightarrow> RawErr ErrEnvelope | Some (t, b) \<Rightarrow> RawResp t b) s)\<lparr>c_reader := RdTop\<rparr>"

definition read_failed :: "string option \<Rightarrow> Client \<Rightarrow> Client" where
  "read_failed e s = (signalDisconnect (map_option ErrRead e) s)\<lparr>c_reader := RdExit\<rparr>"

definition close_begin :: "Client \<Rightarrow> Client" where
  "close_begin s = (if c_closed s then s else (shut s)\<lparr>c_closing := True\<rparr>)"

definition close_end :: "Client \<Rightarrow> Client" where
  "close_end s = (wake_pending ErrDaemonUnavailable s)\<lparr>c_closing := False\<rparr>"

section \<open>The transition relation\<close>

text \<open>
  \<open>client_own\<close> are the steps of the client's own goroutines, always free to happen; \<open>client_env\<close> are the daemon, which
  answers requests in the order they arrive and may push events or drop the connection at any time.  A read fails only
  when the connection is closed on this side or every frame the daemon sent has been read.  The end of a request's
  context is a relation of its own.
\<close>

inductive client_own :: "(string \<Rightarrow> (string \<times> string) option) \<Rightarrow> (string \<Rightarrow> (string \<times> string) option) \<Rightarrow> (nat \<Rightarrow> rpc_call) \<Rightarrow>
    Client \<Rightarrow> Client \<Rightarrow> bool"
  for de dr calls where
  own_begin: "c_phase s i = RpcNew \<Longrightarrow> client_own de dr calls s (do_begin calls i s)"
| own_lock: "c_phase s i = RpcWantLock \<Longrightarrow> c_rpcMu s = None \<Longrightarrow> client_own de dr calls s (do_lock i s)"
| own_write: "c_phase s i = RpcLocked \<Longrightarrow> werr = None \<longrightarrow> \<not> c_connClosed s \<Longrightarrow> client_own de dr calls s (do_write i werr s)"
| own_receive: "c_phase s i = RpcWritten \<Longrightarrow> c_chan s i = Some r \<Longrightarrow> client_own de dr calls s (do_receive dr calls i r s)"
| own_closed: "c_phase s i = RpcWritten \<Longrightarrow> c_closeCh s \<Longrightarrow>
    client_own de dr calls s (do_giveup dr calls ErrDaemonUnavailable i s)"
| own_top: "c_reader s = RdTop \<Longrightarrow> client_own de dr calls s (read_top s)"
| own_read: "c_reader s = RdBlocked \<Longrightarrow> c_inbox s = (k, p) # rest \<Longrightarrow>
    client_own de dr calls s (read_frame k p (s\<lparr>c_inbox := rest\<rparr>))"
| own_deliver: "c_reader s = RdDeliver i p \<Longrightarrow> client_own de dr calls s (deliverResp de i p s)"
| own_read_closed: "c_reader s = RdBlocked \<Longrightarrow> c_connClosed s \<Longrightarrow> client_own de dr calls s (read_failed e s)"
| own_close_end: "c_closing s \<Longrightarrow> c_reader s = RdExit \<Longrightarrow> client_own de dr calls s (close_end s)"

inductive client_env :: "(nat \<Rightarrow> string) \<Rightarrow> Client \<Rightarrow> Client \<Rightarrow> bool" for answer where
  env_answer: "c_wire s = i # rest \<Longrightarrow> client_env answer s (s\<lparr>c_wire := rest, c_inbox := c_inbox s @ [(TypeJSONResp, answer i)]\<rparr>)"
| env_push: "k \<noteq> TypeJSONResp \<Longrightarrow> client_env answer s (s\<lparr>c_inbox := c_inbox s @ [(k, p)]\<rparr>)"
| env_eof: "c_reader s = RdBlocked \<Longrightarrow> c_inbox s = [] \<Longrightarrow> client_env answer s (read_failed e s)"
| env_close: "client_env answer s (close_begin s)"

inductive client_ctx :: "(string \<Rightarrow> (string \<times> string) option) \<Rightarrow> (nat \<Rightarrow> rpc_call) \<Rightarrow> Client \<Rightarrow> Client \<Rightarrow> bool" for dr calls where
  ctx_done: "c_phase s i = RpcWritten \<Longrightarrow> client_ctx dr calls s (do_giveup dr calls ErrContext i s)"

text \<open>The states a client can reach; \<open>cancel\<close> says whether contexts may end before their answer has come.\<close>

inductive client_run :: "bool \<Rightarrow> (string \<Rightarrow> (string \<times> string) option) \<Rightarrow> (string \<Rightarrow> (string \<times> string) option) \<Rightarrow>
    (nat \<Rightarrow> rpc_call) \<Rightarrow> (nat \<Rightarrow> string) \<Rightarrow> Client \<Rightarrow> bool"
  for cancel de dr calls answer where
  run_dial: "client_run cancel de dr calls answer dial_client"
| run_own: "client_run cancel de dr calls answer s \<Longrightarrow> client_own de dr calls s t \<Longrightarrow> client_run cancel de dr calls answer t"
| run_env: "client_run cancel de dr calls answer s \<Longrightarrow> client_env answer s t \<Longrightarrow> client_run cancel de dr calls answer t"
| run_ctx: "client_run cancel de dr calls answer s \<Longrightarrow> cancel \<Longrightarrow> client_ctx dr calls s t \<Longrightarrow> client_run cancel de dr calls answer t"

section \<open>The shape of every reachable state\<close>

lemma offer_fields [simp]:
  "c_closed (offer i r s) = c_closed s" "c_closeCh (offer i r s) = c_closeCh s" "c_connClosed (offer i r s) = c_connClosed s"
  "c_pending (offer i r s) = c_pending s" "c_rpcMu (offer i r s) = c_rpcMu s" "c_phase (offer i r s) = c_phase s"
  "c_reader (offer i r s) = c_reader s" "c_closing (offer i r s) = c_closing s" "c_inbox (offer i r s) = c_inbox s"
  "c_wire (offer i r s) = c_wire s"
  by (simp_all add: offer_def)

lemma wake_pending_fields [simp]:
  "c_closed (wake_pending e s) = c_closed s" "c_closeCh (wake_pending e s) = c_closeCh s"
  "c_connClosed (wake_pending e s) = c_connClosed s" "c_pending (wake_pending e s) = None"
  "c_rpcMu (wake_pending e s) = c_rpcMu s" "c_phase (wake_pending e s) = c_phase s"
  "c_reader (wake_pending e s) = c_reader s" "c_closing (wake_pending e s) = c_closing s"
  "c_inbox (wake_pending e s) = c_inbox s" "c_wire (wake_pending e s) = c_wire s"
  by (simp_all add: wake_pending_def split: option.splits)

lemma signalDisconnect_fields [simp]:
  "c_closed (signalDisconnect e s)"
  "c_rpcMu (signalDisconnect e s) = c_rpcMu s" "c_phase (signalDisconnect e s) = c_phase s"
  "c_reader (signalDisconnect e s) = c_reader s" "c_closing (signalDisconnect e s) = c_closing s"
  "c_inbox (signalDisconnect e s) = c_inbox s" "c_wire (signalDisconnect e s) = c_wire s"
  by (simp_all add: signalDisconnect_def shut_def)

lemma wake_pending_chan: "c_chan (wake_pending e s) i = c_chan s i \<or> c_chan (wake_pending e s) i = Some (RawErr e) \<and> c_chan s i = None"
  by (simp add: wake_pending_def offer_def split: option.splits)

lemma signalDisconnect_chan: "c_chan (signalDisconnect e s) i = c_chan s i \<or> (\<exists>e'. c_chan (signalDisconnect e s) i = Some (RawErr e'))"
  using wake_pending_chan [of _ "shut s" i] by (simp add: signalDisconnect_def shut_def) blast

definition lock_ok :: "nat option \<Rightarrow> (nat \<Rightarrow> rpc_phase) \<Rightarrow> bool" where
  "lock_ok m ph \<longleftrightarrow> (\<forall>i. (ph i = RpcLocked \<or> ph i = RpcWritten) = (m = Some i))"

definition client_ok :: "Client \<Rightarrow> bool" where
  "client_ok s \<longleftrightarrow>
     c_closeCh s = c_closed s \<and> c_connClosed s = c_closed s \<and> lock_ok (c_rpcMu s) (c_phase s) \<and>
     (c_pending s = None \<or> c_pending s = c_rpcMu s) \<and> (\<not> c_closed s \<longrightarrow> c_pending s = c_rpcMu s) \<and>
     (c_reader s = RdExit \<longrightarrow> c_closed s) \<and> (c_closing s \<longrightarrow> c_closed s)"

lemma lock_ok_free: "lock_ok m ph \<Longrightarrow> ph i = RpcLocked \<or> ph i = RpcWritten \<Longrightarrow> q \<noteq> RpcLocked \<Longrightarrow> q \<noteq> RpcWritten \<Longrightarrow>
    lock_ok None (ph(i := q))"
  unfolding lock_ok_def by (metis fun_upd_apply option.distinct(1) option.inject)

lemma lock_ok_idle: "lock_ok m ph \<Longrightarrow> ph i \<noteq> RpcLocked \<Longrightarrow> ph i \<noteq> RpcWritten \<Longrightarrow> q \<noteq> RpcLocked \<Longrightarrow> q \<noteq> RpcWritten \<Longrightarrow>
    lock_ok m (ph(i := q))"
  by (fastforce simp: lock_ok_def)

lemma lock_ok_take: "lock_ok None ph \<Longrightarrow> q = RpcLocked \<or> q = RpcWritten \<Longrightarrow> lock_ok (Some i) (ph(i := q))"
  by (auto simp: lock_ok_def)

lemma lock_ok_keep: "lock_ok m ph \<Longrightarrow> ph i = RpcLocked \<Longrightarrow> lock_ok m (ph(i := RpcWritten))"
  by (auto simp: lock_ok_def)

lemma lock_ok_holder: "lock_ok m ph \<Longrightarrow> ph i = RpcLocked \<or> ph i = RpcWritten \<Longrightarrow> m = Some i"
  by (auto simp: lock_ok_def)

lemma client_ok_dial: "client_ok dial_client"
  by (simp add: client_ok_def dial_client_def lock_ok_def)

lemma client_ok_return:
  "client_ok s \<Longrightarrow> c_phase s i = RpcLocked \<or> c_phase s i = RpcWritten \<Longrightarrow> client_ok (return_rpc i r s)"
  by (auto simp: client_ok_def return_rpc_def intro!: lock_ok_free)

lemma client_ok_disconnect: "client_ok s \<Longrightarrow> client_ok (signalDisconnect e s)"
  by (auto simp: client_ok_def signalDisconnect_def shut_def)

lemma client_ok_chan [simp]: "client_ok (s\<lparr>c_chan := f\<rparr>) = client_ok s" "client_ok (s\<lparr>c_inbox := x\<rparr>) = client_ok s"
    "client_ok (s\<lparr>c_wire := w\<rparr>) = client_ok s"
  by (simp_all add: client_ok_def)

lemma client_ok_reader: "client_ok s \<Longrightarrow> r = RdExit \<longrightarrow> c_closed s \<Longrightarrow> client_ok (s\<lparr>c_reader := r\<rparr>)"
  by (simp add: client_ok_def)

lemma client_ok_offer: "client_ok (offer i r s) = client_ok s"
  by (simp add: client_ok_def)

lemma client_ok_receive: "client_ok s \<Longrightarrow> c_phase s i = RpcWritten \<Longrightarrow> client_ok (do_receive dr calls i r s)"
  by (simp add: do_receive_def client_ok_return)

lemma client_ok_giveup: "client_ok s \<Longrightarrow> c_phase s i = RpcWritten \<Longrightarrow> client_ok (do_giveup dr calls e i s)"
  by (simp add: do_giveup_def client_ok_return client_ok_receive split: option.splits)

lemma client_ok_read_failed: "client_ok s \<Longrightarrow> client_ok (read_failed e s)"
  by (simp add: read_failed_def client_ok_reader client_ok_disconnect)

lemma client_ok_close_begin: "client_ok s \<Longrightarrow> client_ok (close_begin s)"
  by (auto simp: close_begin_def shut_def client_ok_def)

lemma client_ok_own: "client_own de dr calls s t \<Longrightarrow> client_ok s \<Longrightarrow> client_ok t"
proof (induction rule: client_own.induct)
  case (own_begin s i)
  then show ?case by (auto simp: do_begin_def client_ok_def intro!: lock_ok_idle)
next
  case (own_lock s i)
  then show ?case by (auto simp: do_lock_def client_ok_def intro!: lock_ok_take)
next
  case (own_write s i werr)
  then show ?case
    by (cases werr) (auto simp: do_write_def client_ok_def lock_ok_keep
        intro!: client_ok_return [unfolded client_ok_def] client_ok_disconnect [unfolded client_ok_def])
next
  case (own_read s k p rest)
  then show ?case
    by (auto simp: read_frame_def intro!: client_ok_reader split: frame_kind.split option.split)
next
  case (own_close_end s)
  then show ?case by (auto simp: close_end_def client_ok_def)
qed (auto simp: client_ok_receive client_ok_giveup read_top_def deliverResp_def read_failed_def client_ok_offer
    intro!: client_ok_reader client_ok_disconnect)

lemma client_ok_env: "client_env answer s t \<Longrightarrow> client_ok s \<Longrightarrow> client_ok t"
  by (induction rule: client_env.induct) (auto simp: client_ok_read_failed client_ok_close_begin)

lemma client_ok_ctx: "client_ctx dr calls s t \<Longrightarrow> client_ok s \<Longrightarrow> client_ok t"
  by (induction rule: client_ctx.induct) (simp add: client_ok_giveup)

lemma client_run_ok: "client_run cancel de dr calls answer s \<Longrightarrow> client_ok s"
  by (induction rule: client_run.induct) (auto intro: client_ok_dial client_ok_own client_ok_env client_ok_ctx)

section \<open>Every call returns\<close>

definition owed :: "Client \<Rightarrow> nat \<Rightarrow> bool" where
  "owed s i \<longleftrightarrow> c_chan s i \<noteq> None \<or> (\<exists>p. c_reader s = RdDeliver i p) \<or> (\<exists>p. (TypeJSONResp, p) \<in> set (c_inbox s)) \<or>
     c_wire s \<noteq> []"

definition client_live :: "Client \<Rightarrow> bool" where
  "client_live s \<longleftrightarrow> (\<not> c_closed s \<longrightarrow> (\<forall>i. c_phase s i = RpcWritten \<longrightarrow> owed s i))"

lemma client_liveI: "(\<And>i. \<not> c_closed s \<Longrightarrow> c_phase s i = RpcWritten \<Longrightarrow> owed s i) \<Longrightarrow> client_live s"
  by (simp add: client_live_def)

lemma return_rpc_fields [simp]:
  "c_closed (return_rpc i r s) = c_closed s" "c_chan (return_rpc i r s) = c_chan s" "c_reader (return_rpc i r s) = c_reader s"
  "c_inbox (return_rpc i r s) = c_inbox s" "c_wire (return_rpc i r s) = c_wire s"
  "c_phase (return_rpc i r s) = (c_phase s)(i := RpcDone r)" "c_pending (return_rpc i r s) = None"
  "c_rpcMu (return_rpc i r s) = None" "c_closing (return_rpc i r s) = c_closing s" "c_closeCh (return_rpc i r s) = c_closeCh s"
  by (simp_all add: return_rpc_def)

lemma written_unique: "client_ok s \<Longrightarrow> c_phase s i = RpcWritten \<Longrightarrow> c_phase s j = RpcLocked \<or> c_phase s j = RpcWritten \<Longrightarrow> j = i"
  unfolding client_ok_def by (metis lock_ok_holder option.inject)

lemma written_holds: "client_ok s \<Longrightarrow> c_phase s i = RpcWritten \<Longrightarrow> c_rpcMu s = Some i"
  unfolding client_ok_def by (metis lock_ok_holder)

lemma open_pending: "client_ok s \<Longrightarrow> \<not> c_closed s \<Longrightarrow> c_pending s = c_rpcMu s"
  by (simp add: client_ok_def)

lemma written_pending: "client_ok s \<Longrightarrow> \<not> c_closed s \<Longrightarrow> c_phase s i = RpcWritten \<Longrightarrow> c_pending s = Some i"
  using open_pending [of s] written_holds [of s i] by simp

lemma client_live_return:
  "client_ok s \<Longrightarrow> c_phase s i = RpcWritten \<Longrightarrow> client_live (return_rpc i r (s\<lparr>c_chan := f\<rparr>))"
  by (rule client_liveI) (auto dest: written_unique split: if_splits)

lemma client_live_return': "client_ok s \<Longrightarrow> c_phase s i = RpcWritten \<Longrightarrow> client_live (return_rpc i r s)"
  using client_live_return [of s i r "c_chan s"] by simp

lemma client_live_giveup: "client_ok s \<Longrightarrow> c_phase s i = RpcWritten \<Longrightarrow> client_live (do_giveup dr calls e i s)"
  by (simp add: do_giveup_def do_receive_def client_live_return client_live_return' split: option.splits)

lemma client_live_closed: "c_closed s \<Longrightarrow> client_live s"
  by (simp add: client_live_def)

lemma client_live_own: "client_own de dr calls s t \<Longrightarrow> client_ok s \<Longrightarrow> client_live s \<Longrightarrow> client_live t"
proof (induction rule: client_own.induct)
  case (own_lock s i)
  then have "c_phase s j \<noteq> RpcWritten" for j
    using written_holds [of s j] by auto
  then show ?case by (auto simp: do_lock_def client_live_def)
next
  case (own_write s i werr)
  then show ?case
    by (cases werr) (auto simp: do_write_def client_live_def owed_def dest: written_unique)
next
  case (own_read s k p rest)
  then show ?case
    by (cases k) (auto simp: read_frame_def client_live_def owed_def dest: written_pending split: option.splits)
next
  case (own_deliver s i p)
  then show ?case
    by (auto simp: deliverResp_def client_live_def owed_def offer_def split: option.splits if_splits)
qed (auto simp: do_begin_def do_receive_def read_top_def read_failed_def close_end_def client_live_giveup client_live_return
    client_live_closed, auto simp: client_live_def owed_def client_ok_def)

lemma client_live_env: "client_env answer s t \<Longrightarrow> client_live s \<Longrightarrow> client_live t"
  by (induction rule: client_env.induct)
    (auto simp: read_failed_def close_begin_def shut_def client_live_def owed_def)

lemma client_run_live: "client_run cancel de dr calls answer s \<Longrightarrow> client_live s"
proof (induction rule: client_run.induct)
  case (run_ctx s t)
  from run_ctx(3) show ?case
    by cases (use client_run_ok [OF run_ctx(1)] in \<open>simp add: client_live_giveup\<close>)
next
  case run_dial
  show ?case by (simp add: client_live_def dial_client_def)
qed (auto intro: client_live_own client_live_env client_run_ok)

text \<open>
  The client has no deadlock of its own: when a call is under way, one of its goroutines can move, or the connection is
  up and the daemon has a request it has not answered.
\<close>
theorem client_never_stuck:
  assumes "client_run cancel de dr calls answer s" and "c_phase s i = RpcWantLock \<or> c_phase s i = RpcLocked \<or> c_phase s i = RpcWritten"
  shows "(\<exists>t. client_own de dr calls s t) \<or> (\<not> c_closed s \<and> c_wire s \<noteq> [])"
proof -
  have ok: "client_ok s" and live: "client_live s"
    using assms(1) client_run_ok client_run_live by blast+
  have locked: ?thesis if "c_phase s j = RpcLocked" for j
    using that by (blast intro: own_write [where werr = "Some []"])
  have written: ?thesis if w: "c_phase s j = RpcWritten" for j
  proof (cases "c_closed s \<or> c_chan s j \<noteq> None \<or> c_reader s = RdTop \<or> (\<exists>k p. c_reader s = RdDeliver k p)")
    case True
    with ok w show ?thesis
      by (auto simp: client_ok_def intro: own_closed own_receive own_top own_deliver)
  next
    case False
    with ok have "c_reader s = RdBlocked"
      by (cases "c_reader s") (auto simp: client_ok_def)
    moreover from False live w have "c_inbox s \<noteq> [] \<or> c_wire s \<noteq> []"
      by (auto simp: client_live_def owed_def)
    ultimately show ?thesis
      using False own_read by (cases "c_inbox s") (auto, blast)
  qed
  show ?thesis
  proof (cases "c_rpcMu s")
    case None
    with assms(2) ok show ?thesis
      by (auto simp: client_ok_def dest: lock_ok_holder intro: own_lock)
  next
    case (Some j)
    with ok have "c_phase s j = RpcLocked \<or> c_phase s j = RpcWritten"
      by (auto simp: client_ok_def lock_ok_def)
    with locked written show ?thesis by blast
  qed
qed

lemmas client_step_defs = do_begin_def do_lock_def do_write_def do_receive_def do_giveup_def read_top_def read_frame_def
  deliverResp_def read_failed_def close_end_def

text \<open>
  A bound on the steps the client can still make without a new call, a new frame or the end of a context: every step of
  \<open>client_own\<close> other than the first of a call uses some of it up.
\<close>

fun phase_work :: "rpc_phase \<Rightarrow> nat" where
  "phase_work RpcWantLock = 3"
| "phase_work RpcLocked = 2"
| "phase_work RpcWritten = 1"
| "phase_work _ = 0"

fun reader_work :: "reader_state \<Rightarrow> nat" where
  "reader_work (RdDeliver _ _) = 3"
| "reader_work RdTop = 2"
| "reader_work RdBlocked = 1"
| "reader_work RdExit = 0"

definition calls_work :: "nat set \<Rightarrow> (nat \<Rightarrow> rpc_phase) \<Rightarrow> nat" where
  "calls_work N ph = (\<Sum>i\<in>N. phase_work (ph i))"

definition client_work :: "nat set \<Rightarrow> Client \<Rightarrow> nat" where
  "client_work N s =
     calls_work N (c_phase s) + 3 * length (c_inbox s) + reader_work (c_reader s) + (if c_closing s then 1 else 0)"

definition begun :: "Client \<Rightarrow> nat set" where
  "begun s = {i. c_phase s i \<noteq> RpcNew}"

definition client_cont :: "(string \<Rightarrow> (string \<times> string) option) \<Rightarrow> (string \<Rightarrow> (string \<times> string) option) \<Rightarrow> (nat \<Rightarrow> rpc_call) \<Rightarrow>
    Client \<Rightarrow> Client \<Rightarrow> bool" where
  "client_cont de dr calls s t \<longleftrightarrow> client_own de dr calls s t \<and> begun t = begun s"

lemma calls_work_upd:
  assumes "finite N" "i \<in> N" "phase_work q < phase_work (ph i)"
  shows "calls_work N (ph(i := q)) < calls_work N ph"
  unfolding calls_work_def using assms by (intro sum_strict_mono_ex1) auto

lemma calls_work_done: "finite N \<Longrightarrow> i \<in> N \<Longrightarrow> 0 < phase_work (ph i) \<Longrightarrow> calls_work N (ph(i := RpcDone r)) < calls_work N ph"
  by (rule calls_work_upd) auto

lemma client_cont_work:
  assumes "client_cont de dr calls s t" and fin: "finite (begun s)"
  shows "client_work (begun s) t < client_work (begun s) s"
proof -
  let ?N = "begun s"
  from assms(1) have "client_own de dr calls s t" and same: "begun t = begun s"
    by (auto simp: client_cont_def)
  have busy: "i \<in> ?N" if "phase_work (c_phase s i) > 0" for i
    using that by (auto simp: begun_def)
  have return: "calls_work ?N ((c_phase s)(i := RpcDone r)) < calls_work ?N (c_phase s)" if "phase_work (c_phase s i) > 0" for i r
    by (rule calls_work_done) (use fin busy that in auto)
  from \<open>client_own de dr calls s t\<close> show ?thesis
  proof cases
    case (own_begin i)
    have "i \<in> begun t"
      using own_begin by (auto simp: do_begin_def begun_def)
    moreover have "i \<notin> begun s"
      using own_begin by (auto simp: begun_def)
    ultimately show ?thesis using same by blast
  next
    case (own_lock i)
    then show ?thesis
      using calls_work_upd [OF fin busy, of i RpcLocked "c_phase s"] by (simp add: client_work_def do_lock_def)
  next
    case (own_write i werr)
    then show ?thesis
      using calls_work_upd [OF fin busy, of i RpcWritten "c_phase s"] return [of i]
      by (simp add: client_work_def do_write_def split: option.split)
  next
    case (own_receive i r)
    then show ?thesis
      using return [of i] by (simp add: client_work_def do_receive_def)
  next
    case (own_closed i)
    then show ?thesis
      using return [of i] by (simp add: client_work_def do_giveup_def do_receive_def split: option.split)
  next
    case (own_read k p rest)
    then show ?thesis
      by (simp add: client_work_def read_frame_def split: frame_kind.split option.split)
  qed (simp_all add: client_work_def read_top_def deliverResp_def read_failed_def close_end_def)
qed

lemma finite_begun: "client_run cancel de dr calls answer s \<Longrightarrow> finite (begun s)"
proof (induction rule: client_run.induct)
  case run_dial
  show ?case by (simp add: begun_def dial_client_def)
next
  case (run_own s t)
  have up: "finite {j. (ph(i := q)) j \<noteq> RpcNew}" if "finite {j. ph j \<noteq> RpcNew}" for ph :: "nat \<Rightarrow> rpc_phase" and i q
    by (rule finite_subset [of _ "insert i {j. ph j \<noteq> RpcNew}"]) (use that in auto)
  from run_own(2,3) show ?case
    by (induction rule: client_own.induct)
      (auto simp: client_step_defs begun_def offer_def intro: up split: option.splits frame_kind.splits
        simp del: fun_upd_apply)
next
  case (run_env s t)
  from run_env(2,3) show ?case
    by (induction rule: client_env.induct) (auto simp: read_failed_def close_begin_def shut_def begun_def)
next
  case (run_ctx s t)
  have up: "finite {j. (ph(i := q)) j \<noteq> RpcNew}" if "finite {j. ph j \<noteq> RpcNew}" for ph :: "nat \<Rightarrow> rpc_phase" and i q
    by (rule finite_subset [of _ "insert i {j. ph j \<noteq> RpcNew}"]) (use that in auto)
  from run_ctx(3,4) show ?case
    by (induction rule: client_ctx.induct)
      (auto simp: do_giveup_def do_receive_def begun_def intro: up split: option.splits simp del: fun_upd_apply)
qed

lemma client_cont_steps:
  "(client_cont de dr calls ^^ n) s t \<Longrightarrow> finite (begun s) \<Longrightarrow>
     n + client_work (begun s) t \<le> client_work (begun s) s \<and> begun t = begun s"
proof (induction n arbitrary: t)
  case (Suc n)
  then obtain u where u: "(client_cont de dr calls ^^ n) s u" "client_cont de dr calls u t" by auto
  with Suc have "n + client_work (begun s) u \<le> client_work (begun s) s" "begun u = begun s" by auto
  moreover have "begun t = begun u" using u(2) by (simp add: client_cont_def)
  ultimately show ?case
    using client_cont_work [OF u(2)] Suc.prems(2) by simp
qed simp

lemma client_cont_run:
  "(client_cont de dr calls ^^ n) s t \<Longrightarrow> client_run cancel de dr calls answer s \<Longrightarrow> client_run cancel de dr calls answer t"
proof (induction n arbitrary: t)
  case (Suc n)
  then obtain u where u: "(client_cont de dr calls ^^ n) s u" "client_cont de dr calls u t" by auto
  from u(2) have "client_own de dr calls u t" by (simp add: client_cont_def)
  with Suc.IH [OF u(1) Suc.prems(2)] show ?case by (rule run_own)
qed simp

lemma cont_of_own:
  assumes "client_own de dr calls s t" "\<forall>i. c_phase s i \<noteq> RpcNew \<or> c_phase t i = RpcNew"
  shows "client_cont de dr calls s t"
proof -
  have "c_phase s i = RpcNew" if "c_phase t i = RpcNew" for i
    using assms(1) that
    by (induction rule: client_own.induct)
      (auto simp: client_step_defs offer_def split: option.splits frame_kind.splits if_splits)
  with assms show ?thesis by (auto simp: client_cont_def begun_def)
qed

lemma c_closed_own: "client_own de dr calls s t \<Longrightarrow> c_closed s \<Longrightarrow> c_closed t"
  by (induction rule: client_own.induct)
    (auto simp: client_step_defs offer_def split: option.splits frame_kind.splits)

lemma c_closed_cont: "(client_cont de dr calls ^^ n) s t \<Longrightarrow> c_closed s \<Longrightarrow> c_closed t"
  by (induction n arbitrary: t) (auto simp: client_cont_def intro: c_closed_own)

text \<open>C18: 
  Once the connection is closed, by \<^verbatim>\<open>Close\<close>, a read error or a failed write, the calls under way return within a number
  of steps fixed at that moment, whatever order the goroutines run in and without any help from the daemon: no run of
  their steps is longer than \<open>client_work\<close>, and where such a run cannot go on, no call is waiting.
\<close>
theorem closed_client_settles:
  assumes "client_run cancel de dr calls answer s" and "c_closed s" and "(client_cont de dr calls ^^ n) s t"
  shows "n \<le> client_work (begun s) s \<and> ((\<nexists>u. client_cont de dr calls t u) \<longrightarrow> (\<forall>i. c_phase t i = RpcNew \<or> (\<exists>r. c_phase t i = RpcDone r)))"
proof
  show "n \<le> client_work (begun s) s"
    using client_cont_steps [OF assms(3) finite_begun [OF assms(1)]] by simp
next
  have ok: "client_ok t" and closed: "c_closed t"
    using client_run_ok [OF client_cont_run [OF assms(3,1)]] c_closed_cont [OF assms(3,2)] by auto
  have step: "\<exists>u. client_cont de dr calls t u" if "client_own de dr calls t u" "\<forall>i. c_phase t i \<noteq> RpcNew \<or> c_phase u i = RpcNew" for u
    using cont_of_own that by blast
  have locked: "\<exists>u. client_cont de dr calls t u" if "c_phase t j = RpcLocked" for j
    by (rule step [OF own_write [where werr = "Some []", OF that]]) (auto simp: do_write_def that)
  have written: "\<exists>u. client_cont de dr calls t u" if "c_phase t j = RpcWritten" for j
    by (rule step [OF own_closed [OF that]])
      (use ok closed that in \<open>auto simp: client_ok_def do_giveup_def do_receive_def split: option.split\<close>)
  have want: "\<exists>u. client_cont de dr calls t u" if "c_phase t j = RpcWantLock" for j
  proof (cases "c_rpcMu t")
    case None
    show ?thesis
      by (rule step [OF own_lock [OF that None]]) (auto simp: do_lock_def that)
  next
    case (Some k)
    with ok have "c_phase t k = RpcLocked \<or> c_phase t k = RpcWritten"
      by (auto simp: client_ok_def lock_ok_def)
    with locked written show ?thesis by blast
  qed
  show "(\<nexists>u. client_cont de dr calls t u) \<longrightarrow> (\<forall>i. c_phase t i = RpcNew \<or> (\<exists>r. c_phase t i = RpcDone r))"
    using locked written want by (metis rpc_phase.exhaust)
qed

section \<open>Answers and requests\<close>

text \<open>
  Frames carry no request number: what ties an answer to a call is only that one call is under way at a time.  \<open>matched\<close>
  is the invariant that makes this enough as long as no call gives up before its answer.
\<close>

definition resps :: "(frame_kind \<times> string) list \<Rightarrow> string list" where
  "resps q = map snd (filter (\<lambda>(k, _). k = TypeJSONResp) q)"

definition delivering :: "reader_state \<Rightarrow> string list" where
  "delivering r = (case r of RdDeliver _ p \<Rightarrow> [p] | _ \<Rightarrow> [])"

definition on_way :: "Client \<Rightarrow> nat" where
  "on_way s = length (c_wire s) + length (resps (c_inbox s)) + length (delivering (c_reader s))"

definition own_only :: "(nat \<Rightarrow> string) \<Rightarrow> Client \<Rightarrow> nat \<Rightarrow> bool" where
  "own_only answer s i \<longleftrightarrow> set (c_wire s) \<subseteq> {i} \<and> set (resps (c_inbox s)) \<subseteq> {answer i} \<and> (\<forall>p. c_reader s = RdDeliver i p \<longrightarrow> p = answer i)"

definition chan_own :: "(string \<Rightarrow> (string \<times> string) option) \<Rightarrow> (nat \<Rightarrow> string) \<Rightarrow> Client \<Rightarrow> nat \<Rightarrow> bool" where
  "chan_own de answer s i \<longleftrightarrow> (\<forall>t b. c_chan s i = Some (RawResp t b) \<longrightarrow> de (answer i) = Some (t, b))"

definition matched :: "(string \<Rightarrow> (string \<times> string) option) \<Rightarrow> (nat \<Rightarrow> rpc_call) \<Rightarrow> (nat \<Rightarrow> string) \<Rightarrow> Client \<Rightarrow> bool" where
  "matched de calls answer s \<longleftrightarrow>
     (\<forall>i b. c_phase s i = RpcDone (Inr b) \<longrightarrow> de (answer i) = Some (rc_expect (calls i), b)) \<and>
     (\<forall>i. c_phase s i = RpcWritten \<longrightarrow> own_only answer s i \<and> chan_own de answer s i) \<and>
     (\<not> c_closed s \<longrightarrow>
        (case c_rpcMu s of
           None \<Rightarrow> on_way s = 0
         | Some i \<Rightarrow> if c_phase s i = RpcWritten then on_way s + (if c_chan s i = None then 0 else 1) = 1 \<and> (\<forall>j p. c_reader s = RdDeliver j p \<longrightarrow> j = i)
                   else on_way s = 0 \<and> c_chan s i = None))"

lemma resps_simps [simp]:
  "resps [] = []" "resps ((k, p) # q) = (if k = TypeJSONResp then p # resps q else resps q)" "resps (q @ q') = resps q @ resps q'"
  by (simp_all add: resps_def)

lemma delivering_simps [simp]:
  "delivering RdTop = []" "delivering RdBlocked = []" "delivering RdExit = []" "delivering (RdDeliver i p) = [p]"
  by (simp_all add: delivering_def)

lemma matched_result:
  assumes "matched de calls answer s" "c_phase s i = RpcWritten" "c_chan s i = Some r" "handle_resp dr (calls i) r = Inr b"
  shows "de (answer i) = Some (rc_expect (calls i), b)"
  using assms handle_resp_Inr [OF assms(4)] by (auto simp: matched_def chan_own_def)

lemma matched_return:
  assumes m: "matched de calls answer s" and ok: "client_ok s" and i: "c_phase s i = RpcLocked \<or> c_phase s i = RpcWritten"
    and r: "\<forall>b. r = Inr b \<longrightarrow> de (answer i) = Some (rc_expect (calls i), b)"
    and quiet: "\<not> c_closed s \<Longrightarrow> on_way s = 0"
  shows "matched de calls answer (return_rpc i r (s\<lparr>c_chan := f\<rparr>))"
proof -
  have "c_phase s j \<noteq> RpcWritten" if "j \<noteq> i" for j
    using written_unique [OF ok, of j i] i that by blast
  then show ?thesis
    using m r quiet by (auto simp: matched_def on_way_def)
qed

lemma matched_receive:
  assumes "matched de calls answer s" "client_ok s" "c_phase s i = RpcWritten" "c_chan s i = Some r"
  shows "matched de calls answer (do_receive dr calls i r s)"
  unfolding do_receive_def
proof (rule matched_return [OF assms(1,2)])
  show "\<forall>b. handle_resp dr (calls i) r = Inr b \<longrightarrow> de (answer i) = Some (rc_expect (calls i), b)"
    using matched_result [OF assms(1,3,4)] by blast
  show "\<not> c_closed s \<Longrightarrow> on_way s = 0"
    using assms(1,3,4) written_holds [OF assms(2,3)] by (simp add: matched_def)
qed (use assms in simp)

lemma matched_frame:
  assumes "matched de calls answer s" "c_phase t = c_phase s" "c_rpcMu t = c_rpcMu s"
    and "\<And>i. c_phase s i = RpcWritten \<Longrightarrow> own_only answer s i \<Longrightarrow> own_only answer t i"
    and "\<And>i. c_phase s i = RpcWritten \<Longrightarrow> own_only answer s i \<Longrightarrow> chan_own de answer s i \<Longrightarrow> chan_own de answer t i"
    and "c_closed t"
  shows "matched de calls answer t"
  using assms by (auto simp: matched_def)

lemma matched_disconnect: "matched de calls answer s \<Longrightarrow> matched de calls answer (signalDisconnect e s)"
proof (erule matched_frame)
  fix i assume "chan_own de answer s i"
  then show "chan_own de answer (signalDisconnect e s) i"
    using signalDisconnect_chan [of e s i] by (auto simp: chan_own_def)
qed (auto simp: own_only_def)

lemma matched_begin: "matched de calls answer s \<Longrightarrow> client_ok s \<Longrightarrow> c_phase s i = RpcNew \<Longrightarrow> matched de calls answer (do_begin calls i s)"
proof -
  assume m: "matched de calls answer s" and ok: "client_ok s" and i: "c_phase s i = RpcNew"
  from ok have "lock_ok (c_rpcMu s) (c_phase s)" by (simp add: client_ok_def)
  then have "c_rpcMu s \<noteq> Some i" using i unfolding lock_ok_def by (metis rpc_phase.distinct(3,5))
  with m show ?thesis
    by (auto simp: matched_def do_begin_def on_way_def own_only_def chan_own_def split: option.splits)
qed

lemma matched_lock: "matched de calls answer s \<Longrightarrow> client_ok s \<Longrightarrow> c_rpcMu s = None \<Longrightarrow> matched de calls answer (do_lock i s)"
proof -
  assume m: "matched de calls answer s" and ok: "client_ok s" and free: "c_rpcMu s = None"
  then have "c_phase s j \<noteq> RpcWritten" for j
    using written_holds [OF ok] by fastforce
  with m free show ?thesis
    by (auto simp: matched_def do_lock_def on_way_def)
qed

lemma matched_write_ok:
  assumes m: "matched de calls answer s" and ok: "client_ok s" and i: "c_phase s i = RpcLocked" and up: "\<not> c_closed s"
  shows "matched de calls answer (do_write i None s)"
proof -
  have mu: "c_rpcMu s = Some i"
    using ok i by (auto simp: client_ok_def dest: lock_ok_holder)
  with m i up have "on_way s = 0" "c_chan s i = None"
    by (simp_all add: matched_def)
  moreover have "c_phase s j \<noteq> RpcWritten" for j
    using written_unique [OF ok, of j i] i by auto
  ultimately show ?thesis
    using m mu by (auto simp: matched_def do_write_def on_way_def own_only_def chan_own_def)
qed

lemma matched_write:
  assumes m: "matched de calls answer s" and ok: "client_ok s" and i: "c_phase s i = RpcLocked" and w: "werr = None \<longrightarrow> \<not> c_connClosed s"
  shows "matched de calls answer (do_write i werr s)"
proof (cases werr)
  case None
  with w ok have "\<not> c_closed s" by (simp add: client_ok_def)
  with None show ?thesis using matched_write_ok [OF m ok i] by simp
next
  case (Some e)
  let ?d = "signalDisconnect (Some (ErrWrite e)) s"
  have "matched de calls answer (return_rpc i (Inl (ErrWrite e)) (?d\<lparr>c_chan := c_chan ?d\<rparr>))"
    by (rule matched_return [OF matched_disconnect [OF m] client_ok_disconnect [OF ok]]) (use i in auto)
  with Some show ?thesis by (simp add: do_write_def)
qed

lemma matched_closed_giveup:
  assumes m: "matched de calls answer s" and ok: "client_ok s" and i: "c_phase s i = RpcWritten" and "c_closed s"
  shows "matched de calls answer (do_giveup dr calls e i s)"
proof (cases "c_chan s i")
  case None
  have "matched de calls answer (return_rpc i (Inl e) (s\<lparr>c_chan := c_chan s\<rparr>))"
    by (rule matched_return [OF m ok]) (use i assms(4) in auto)
  with None show ?thesis by (simp add: do_giveup_def)
next
  case (Some r)
  with matched_receive [OF m ok i Some] show ?thesis by (simp add: do_giveup_def)
qed

lemma matched_read:
  assumes m: "matched de calls answer s" and ok: "client_ok s" and r: "c_reader s = RdBlocked" and q: "c_inbox s = (k, p) # rest"
  shows "matched de calls answer (read_frame k p (s\<lparr>c_inbox := rest\<rparr>))"
proof (cases k)
  case TypeJSONResp
  have own: "p = answer i" if "c_phase s i = RpcWritten" for i
    using m that q TypeJSONResp by (auto simp: matched_def own_only_def)
  show ?thesis
  proof (cases "c_closed s")
    case True
    with m r q own TypeJSONResp show ?thesis
      by (auto simp: matched_def read_frame_def own_only_def chan_own_def split: option.splits)
  next
    case False
    then have pend: "c_pending s = c_rpcMu s"
      using ok open_pending by blast
    have "0 < on_way s" using q TypeJSONResp by (simp add: on_way_def)
    with m False obtain i where i: "c_rpcMu s = Some i" "c_phase s i = RpcWritten"
      by (auto simp: matched_def split: option.splits if_splits)
    with m r q own TypeJSONResp pend False show ?thesis
      by (auto simp: matched_def read_frame_def own_only_def chan_own_def on_way_def)
  qed
qed (use m r q in \<open>auto simp: matched_def read_frame_def own_only_def chan_own_def on_way_def split: option.splits if_splits\<close>)

lemma matched_deliver:
  assumes m: "matched de calls answer s" and ok: "client_ok s" and r: "c_reader s = RdDeliver i p"
  shows "matched de calls answer (deliverResp de i p s)"
proof -
  let ?t = "deliverResp de i p s"
  have chan: "chan_own de answer ?t j" if j: "c_phase s j = RpcWritten" for j
    using m j r by (auto simp: matched_def own_only_def chan_own_def deliverResp_def offer_def split: option.splits if_splits)
  have own: "own_only answer ?t j" if "c_phase s j = RpcWritten" for j
    using m that by (auto simp: matched_def own_only_def deliverResp_def)
  have same: "c_phase ?t = c_phase s" "c_rpcMu ?t = c_rpcMu s" "c_closed ?t = c_closed s"
    by (simp_all add: deliverResp_def)
  show ?thesis
  proof (cases "c_closed s")
    case True
    with m own chan same show ?thesis by (simp add: matched_def)
  next
    case False
    have "0 < on_way s" using r by (simp add: on_way_def)
    with m False r have j: "c_rpcMu s = Some i" "c_phase s i = RpcWritten" "on_way s = 1" "c_chan s i = None"
      by (auto simp: matched_def split: option.splits if_splits)
    have "on_way ?t = 0" "(c_chan ?t i = None) = False" "c_reader ?t = RdTop"
      using j r by (simp_all add: on_way_def deliverResp_def offer_def)
    with m own chan same j show ?thesis by (auto simp: matched_def)
  qed
qed

lemma matched_own: "client_own de dr calls s t \<Longrightarrow> client_ok s \<Longrightarrow> matched de calls answer s \<Longrightarrow> matched de calls answer t"
proof (induction rule: client_own.induct)
  case (own_top s)
  let ?t = "read_top s"
  have "on_way ?t = on_way s" "\<forall>j p. c_reader ?t \<noteq> RdDeliver j p" "\<And>i. own_only answer s i \<Longrightarrow> own_only answer ?t i"
    "\<And>i. chan_own de answer ?t i = chan_own de answer s i" "c_phase ?t = c_phase s" "c_chan ?t = c_chan s"
    "c_rpcMu ?t = c_rpcMu s" "c_closed ?t = c_closed s"
    using own_top(1) by (auto simp: on_way_def own_only_def chan_own_def read_top_def)
  with own_top(3) show ?case by (auto simp: matched_def split: option.splits if_splits)
next
  case (own_read_closed s e)
  then show ?case
    by (auto simp: read_failed_def own_only_def chan_own_def
        intro!: matched_frame [of _ _ _ "signalDisconnect (map_option ErrRead e) s"] matched_disconnect)
next
  case (own_close_end s)
  then have "c_closed s" by (simp add: client_ok_def)
  show ?case
  proof (rule matched_frame [OF own_close_end(4)])
    fix i assume "chan_own de answer s i"
    then show "chan_own de answer (close_end s) i"
      using wake_pending_chan [of ErrDaemonUnavailable s i] by (auto simp: chan_own_def close_end_def)
  qed (use \<open>c_closed s\<close> in \<open>auto simp: own_only_def close_end_def\<close>)
qed (auto simp: matched_begin matched_lock matched_write matched_receive matched_read matched_deliver client_ok_def
    intro: matched_closed_giveup [unfolded client_ok_def])

lemma matched_env: "client_env answer s t \<Longrightarrow> client_ok s \<Longrightarrow> matched de calls answer s \<Longrightarrow> matched de calls answer t"
proof (induction rule: client_env.induct)
  case (env_answer s i rest)
  then show ?case
    by (auto simp: matched_def own_only_def chan_own_def on_way_def split: option.splits if_splits)
next
  case (env_push k s p)
  then show ?case
    by (auto simp: matched_def own_only_def chan_own_def on_way_def split: option.splits if_splits)
next
  case (env_eof s e)
  then show ?case
    by (auto simp: read_failed_def own_only_def chan_own_def
        intro!: matched_frame [of _ _ _ "signalDisconnect (map_option ErrRead e) s"] matched_disconnect)
next
  case (env_close s)
  show ?case
    by (rule matched_frame [OF env_close(2)]) (auto simp: close_begin_def shut_def own_only_def chan_own_def)
qed

lemma client_run_matched: "client_run False de dr calls answer s \<Longrightarrow> matched de calls answer s"
proof (induction rule: client_run.induct)
  case run_dial
  show ?case by (simp add: matched_def dial_client_def on_way_def)
qed (auto intro: matched_own matched_env client_run_ok)

text \<open>C14: 
  While no request context ends early, a call that succeeds has the answer to its own request: the daemon's reply to
  that very request, of the type the call expects.  Other calls, pushed events, a lost connection and \<^verbatim>\<open>Close\<close> can come at
  any point.
\<close>
theorem rpc_own_answer:
  assumes "client_run False de dr calls answer s" and "c_phase s i = RpcDone (Inr b)"
  shows "de (answer i) = Some (rc_expect (calls i), b)"
  using client_run_matched [OF assms(1)] assms(2) by (simp add: matched_def)

definition owns_call :: rpc_call where
  "owns_call = \<lparr>rc_type = ''owns.req'', rc_encodes = True, rc_expect = ''owns.resp'', rc_out = Some (\<lambda>_. True)\<rparr>"

definition owns_answer :: "nat \<Rightarrow> string" where
  "owns_answer i = (if i = 0 then ''owned'' else ''free'')"

definition owns_envelope :: "string \<Rightarrow> (string \<times> string) option" where
  "owns_envelope p = Some (''owns.resp'', p)"

text \<open>C15: 
  Without that bound the answer can be another call's.  A call whose context ends leaves its request on the wire; nothing marks
  the answer that comes later, so the next call of the same kind takes it for its own.  Here the first \<^verbatim>\<open>Owns\<close> times out,
  and the second one, which asks about another session, returns the first one's answer without an error.
\<close>
theorem stale_answer_taken:
  "\<exists>s. client_run True owns_envelope (\<lambda>_. None) (\<lambda>_. owns_call) owns_answer s \<and>
     c_phase s 0 = RpcDone (Inl ErrContext) \<and> c_phase s 1 = RpcDone (Inr (owns_answer 0)) \<and> owns_answer 0 \<noteq> owns_answer 1 \<and>
     \<not> c_closed s"
proof -
  let ?run = "client_run True owns_envelope (\<lambda>_. None) (\<lambda>_. owns_call) owns_answer"
  let ?own = "client_own owns_envelope (\<lambda>_. None) (\<lambda>_. owns_call)"
  let ?calls = "\<lambda>_::nat. owns_call" and ?dr = "\<lambda>_::string. None :: (string \<times> string) option"
  define s1 where "s1 = do_write 0 None (do_lock 0 (do_begin ?calls 0 dial_client))"
  define s2 where "s2 = do_giveup ?dr ?calls ErrContext 0 s1"
  define s3 where "s3 = do_write 1 None (do_lock 1 (do_begin ?calls 1 s2))"
  define s4 where "s4 = read_top (s3\<lparr>c_wire := [1], c_inbox := [(TypeJSONResp, ''owned'')]\<rparr>)"
  define s5 where "s5 = deliverResp owns_envelope 1 ''owned'' (read_frame TypeJSONResp ''owned'' (s4\<lparr>c_inbox := []\<rparr>))"
  define s6 where "s6 = do_receive ?dr ?calls 1 (RawResp ''owns.resp'' ''owned'') s5"
  note defs = client_step_defs dial_client_def owns_call_def return_rpc_def offer_def owns_envelope_def
  note states = s1_def s2_def s3_def s4_def s5_def s6_def
  have call: "?run (do_write i None (do_lock i (do_begin ?calls i s)))"
    if "?run s" "c_phase s i = RpcNew" "\<not> c_closed s" "\<not> c_connClosed s" "c_rpcMu s = None" for i s
    by (rule run_own [OF run_own [OF run_own [OF that(1) own_begin] own_lock] own_write])
      (use that in \<open>auto simp: defs\<close>)
  have "?run s1"
    unfolding s1_def by (rule call [OF run_dial]) (simp_all add: dial_client_def)
  then have "?run s2"
    unfolding s2_def by (rule run_ctx) (auto simp: s1_def do_write_def intro: ctx_done)
  then have "?run s3"
    unfolding s3_def by (rule call) (simp_all add: s1_def s2_def defs)
  moreover have "client_env owns_answer s3 (s3\<lparr>c_wire := [1], c_inbox := [(TypeJSONResp, ''owned'')]\<rparr>)"
    using env_answer [of s3 0 "[1]" owns_answer] by (simp add: states defs owns_answer_def)
  ultimately have "?run s4"
    unfolding s4_def by (intro run_own [OF run_env own_top]) (auto simp: states defs)
  then have "?run s5"
    unfolding s5_def
    by (intro run_own [OF run_own [OF _ own_read] own_deliver]) (auto simp: states defs)
  then have "?run s6"
    unfolding s6_def by (rule run_own) (rule own_receive, auto simp: states defs)
  moreover have "c_phase s6 0 = RpcDone (Inl ErrContext)" "c_phase s6 1 = RpcDone (Inr (owns_answer 0))" "\<not> c_closed s6"
    by (simp_all add: states defs handle_resp_def MsgErrorResp_def owns_answer_def)
  ultimately show ?thesis
    by (intro exI [of _ s6]) (simp add: owns_answer_def)
qed

theorem client_never_stuck_witness:
  "(\<exists>t. client_own owns_envelope (\<lambda>_. None) (\<lambda>_. owns_call) (do_begin (\<lambda>_. owns_call) 0 dial_client) t) \<or>
     (\<not> c_closed (do_begin (\<lambda>_. owns_call) 0 dial_client) \<and> c_wire (do_begin (\<lambda>_. owns_call) 0 dial_client) \<noteq> [])"
proof (rule client_never_stuck)
  show "client_run True owns_envelope (\<lambda>_. None) (\<lambda>_. owns_call) owns_answer (do_begin (\<lambda>_. owns_call) 0 dial_client)"
    by (rule run_own [OF run_dial own_begin]) (simp add: dial_client_def)
  show "c_phase (do_begin (\<lambda>_. owns_call) 0 dial_client) 0 = RpcWantLock \<or>
      c_phase (do_begin (\<lambda>_. owns_call) 0 dial_client) 0 = RpcLocked \<or> c_phase (do_begin (\<lambda>_. owns_call) 0 dial_client) 0 = RpcWritten"
    by (simp add: do_begin_def dial_client_def owns_call_def)
qed

theorem closed_client_settles_witness:
  "let s = close_begin (do_begin (\<lambda>_. owns_call) 0 dial_client) in
     (0::nat) \<le> client_work (begun s) s \<and>
     ((\<nexists>u. client_cont owns_envelope (\<lambda>_. None) (\<lambda>_. owns_call) s u) \<longrightarrow>
        (\<forall>i. c_phase s i = RpcNew \<or> (\<exists>r. c_phase s i = RpcDone r)))"
  unfolding Let_def
proof (rule closed_client_settles)
  show "client_run True owns_envelope (\<lambda>_. None) (\<lambda>_. owns_call) owns_answer
      (close_begin (do_begin (\<lambda>_. owns_call) 0 dial_client))"
    by (rule run_env [OF run_own [OF run_dial own_begin] env_close]) (simp add: dial_client_def)
qed (simp_all add: close_begin_def shut_def)

theorem rpc_own_answer_witness: "owns_envelope (owns_answer 0) = Some (rc_expect owns_call, ''owned'')"
proof (rule rpc_own_answer [where calls = "\<lambda>_. owns_call" and answer = owns_answer and de = owns_envelope and i = 0])
  let ?calls = "\<lambda>_::nat. owns_call" and ?dr = "\<lambda>_::string. None :: (string \<times> string) option"
  let ?run = "client_run False owns_envelope ?dr ?calls owns_answer"
  define s1 where "s1 = do_write 0 None (do_lock 0 (do_begin ?calls 0 dial_client))"
  define s2 where "s2 = read_top (s1\<lparr>c_wire := [], c_inbox := [(TypeJSONResp, ''owned'')]\<rparr>)"
  define s3 where "s3 = deliverResp owns_envelope 0 ''owned'' (read_frame TypeJSONResp ''owned'' (s2\<lparr>c_inbox := []\<rparr>))"
  define s4 where "s4 = do_receive ?dr ?calls 0 (RawResp ''owns.resp'' ''owned'') s3"
  note defs = client_step_defs dial_client_def owns_call_def return_rpc_def offer_def owns_envelope_def
  note states = s1_def s2_def s3_def s4_def
  have "?run s1"
    unfolding s1_def
    by (rule run_own [OF run_own [OF run_own [OF run_dial own_begin] own_lock] own_write]) (auto simp: defs)
  moreover have "client_env owns_answer s1 (s1\<lparr>c_wire := [], c_inbox := [(TypeJSONResp, ''owned'')]\<rparr>)"
    using env_answer [of s1 0 "[]" owns_answer] by (simp add: states defs owns_answer_def)
  ultimately have "?run s2"
    unfolding s2_def by (intro run_own [OF run_env own_top]) (auto simp: states defs)
  then have "?run s3"
    unfolding s3_def
    by (intro run_own [OF run_own [OF _ own_read] own_deliver]) (auto simp: states defs)
  then show "?run s4"
    unfolding s4_def by (rule run_own) (rule own_receive, auto simp: states defs)
  show "c_phase s4 0 = RpcDone (Inr ''owned'')"
    by (simp add: states defs handle_resp_def MsgErrorResp_def)
qed

section \<open>The handshake, event subscribers and the calls' arguments\<close>

record HelloResp =
  hr_ClientID :: "16 word"
  hr_ProtocolVersion :: "16 word"
  hr_BinaryVersion :: string
  hr_SuspectedWedged :: bool
  hr_ClientCount :: int

datatype new_error = NewHello rpc_error | ErrProtocolVersionSkew "16 word" "16 word"

definition ProtocolVersion :: "16 word" where "ProtocolVersion = 1"

text \<open>
  What \<^verbatim>\<open>newClient\<close> does with the result of the hello call: the second component says that it closed the connection.
\<close>
definition newClient :: "rpc_error + HelloResp \<Rightarrow> (new_error + HelloResp) \<times> bool" where
  "newClient hello =
     (case hello of
        Inl e \<Rightarrow> (Inl (NewHello e), True)
      | Inr r \<Rightarrow>
          if hr_ProtocolVersion r \<noteq> ProtocolVersion then (Inl (ErrProtocolVersionSkew ProtocolVersion (hr_ProtocolVersion r)), True)
          else (Inr r, False))"

definition kill_grace :: "int \<Rightarrow> int" where
  "kill_grace grace =
     (let secs = (if 0 \<le> grace then grace div 1000000000 else - ((- grace) div 1000000000))
      in if 0 < grace \<and> secs \<le> 0 then 1 else secs)"

lemma kill_grace_window:
  "0 < g \<Longrightarrow> 1 \<le> kill_grace g \<and> g < (kill_grace g + 1) * 1000000000 \<and> (kill_grace g = 1 \<or> kill_grace g * 1000000000 \<le> g)"
proof -
  assume g: "0 < g"
  define q where "q = g div 1000000000"
  have "g = q * 1000000000 + g mod 1000000000" "0 \<le> g mod 1000000000" "g mod 1000000000 < 1000000000"
    by (simp_all add: q_def)
  moreover have "kill_grace g = (if q \<le> 0 then 1 else q)"
    using g by (simp add: kill_grace_def q_def)
  moreover have "0 \<le> q" using g by (simp add: q_def)
  ultimately show ?thesis using g by (auto simp: algebra_simps)
qed

record 'e Subscribers =
  su_chans :: "(nat \<times> 'e list) list"
  su_once :: bool
  su_push :: "64 word"
  su_drop :: "64 word"

definition sub_cap :: nat where "sub_cap = 64"

definition MsgSessionEvent :: string where "MsgSessionEvent = ''session.event''"

definition push_full :: "'e Subscribers \<Rightarrow> (nat \<times> 'e list) list" where
  "push_full s = filter (\<lambda>(_, q). sub_cap \<le> length q) (su_chans s)"

definition handlePush :: "(string \<Rightarrow> (string \<times> string) option) \<Rightarrow> (string \<Rightarrow> 'e option) \<Rightarrow> string \<Rightarrow> 'e Subscribers \<Rightarrow> 'e Subscribers" where
  "handlePush de dev p s =
     (case de p of
        None \<Rightarrow> s
      | Some (t, b) \<Rightarrow>
          if t \<noteq> MsgSessionEvent then s
          else (case dev b of
                  None \<Rightarrow> s
                | Some ev \<Rightarrow>
                    s\<lparr>su_push := su_push s + 1,
                      su_chans := map (\<lambda>(c, q). (c, if length q < sub_cap then q @ [ev] else q)) (su_chans s),
                      su_drop := su_drop s + of_nat (length (push_full s))\<rparr>))"

text \<open>
  \<open>Subscribe\<close> with the channel \<open>c\<close>; \<open>res\<close> is what the subscribe call would return if it is made, and the last
  component says whether it was.
\<close>
definition subscribe_client :: "nat \<Rightarrow> rpc_error option \<Rightarrow> 'e Subscribers \<Rightarrow> (rpc_error + nat) \<times> 'e Subscribers \<times> bool" where
  "subscribe_client c res s =
     (let s1 = s\<lparr>su_chans := AList.update c [] (su_chans s)\<rparr>;
          sent = \<not> su_once s1;
          s2 = s1\<lparr>su_once := True\<rparr>
      in case (if sent then res else None) of
           Some e \<Rightarrow> (Inl e, s2\<lparr>su_chans := AList.delete c (su_chans s2)\<rparr>, sent)
         | None \<Rightarrow> (Inr c, s2, sent))"

definition cancel_sub :: "nat \<Rightarrow> 'e Subscribers \<Rightarrow> 'e Subscribers" where
  "cancel_sub c s = s\<lparr>su_chans := AList.delete c (su_chans s)\<rparr>"

definition push_event :: "'e \<Rightarrow> 'e Subscribers \<Rightarrow> 'e Subscribers" where
  "push_event ev = handlePush (\<lambda>_. Some (MsgSessionEvent, [])) (\<lambda>_. Some ev) []"

definition keep_event :: "'e \<Rightarrow> 'e list \<Rightarrow> 'e list" where
  "keep_event ev q = (if length q < sub_cap then q @ [ev] else q)"

lemma keep_event_take: "keep_event ev q @ take (sub_cap - length (keep_event ev q)) evs = q @ take (sub_cap - length q) (ev # evs)"
proof (cases "length q < sub_cap")
  case True
  then have "sub_cap - length q = Suc (sub_cap - Suc (length q))" by simp
  with True show ?thesis by (simp add: keep_event_def)
qed (simp add: keep_event_def)

lemma keep_event_drop:
  "(\<Sum>(c, q)\<leftarrow>xs. Suc n - (sub_cap - length q)) =
     length (filter (\<lambda>(_, q). sub_cap \<le> length q) xs) +
     (\<Sum>(c, q)\<leftarrow>map (\<lambda>(c, q). (c, keep_event ev q)) xs. n - (sub_cap - length q))"
  by (induction xs) (auto simp: keep_event_def)

text \<open>C34: 
  A burst of events against subscribers that do not read: each keeps, in order, the first events that fit into its
  buffer, and the drop counter has grown by exactly the events that did not fit, summed over the subscribers.  The
  reader is never blocked by a slow subscriber.
\<close>
theorem push_burst:
  "su_chans (fold push_event evs s) = map (\<lambda>(c, q). (c, q @ take (sub_cap - length q) evs)) (su_chans s) \<and>
   su_push (fold push_event evs s) = su_push s + of_nat (length evs) \<and>
   su_drop (fold push_event evs s) =
     su_drop s + of_nat (\<Sum>(c, q)\<leftarrow>su_chans s. length evs - (sub_cap - length q))"
proof (induction evs arbitrary: s)
  case (Cons ev evs)
  let ?s = "push_event ev s"
  have chans: "su_chans ?s = map (\<lambda>(c, q). (c, keep_event ev q)) (su_chans s)"
    and push: "su_push ?s = su_push s + 1" and full: "su_drop ?s = su_drop s + of_nat (length (push_full s))"
    by (simp_all add: push_event_def handlePush_def keep_event_def)
  have "su_chans (fold push_event (ev # evs) s) = map (\<lambda>(c, q). (c, q @ take (sub_cap - length q) (ev # evs))) (su_chans s)"
    using Cons.IH [of ?s] by (simp add: chans comp_def case_prod_beta keep_event_take)
  moreover have "su_drop (fold push_event (ev # evs) s) =
      su_drop s + of_nat (\<Sum>(c, q)\<leftarrow>su_chans s. length (ev # evs) - (sub_cap - length q))"
    using Cons.IH [of ?s] keep_event_drop [of "length evs" "su_chans s" ev]
    by (simp add: chans full push_full_def del: map_map)
  ultimately show ?case
    using Cons.IH [of ?s] push by simp
next
  case Nil
  have "(\<Sum>x\<leftarrow>xs. 0) = (0::nat)" for xs :: "(nat \<times> 'a list) list" by (induction xs) auto
  then show ?case by (simp add: case_prod_beta)
qed

text \<open>
  The once-guard is spent by a failed attempt: after a first \<^verbatim>\<open>Subscribe\<close> whose call fails, every later one succeeds
  without a request, so the daemon is never told to push and the new subscriber's silence looks like a quiet board.
\<close>
theorem subscribe_once_spent:
  assumes "su_once s = False"
  shows "fst (subscribe_client c (Some e) s) = Inl e \<and>
    (\<forall>c' res. let s' = fst (snd (subscribe_client c (Some e) s)) in
       fst (subscribe_client c' res s') = Inr c' \<and> \<not> snd (snd (subscribe_client c' res s')) \<and> c' \<in> fst ` set (su_chans (fst (snd (subscribe_client c' res s')))))"
  using assms by (auto simp: subscribe_client_def Let_def dom_update)

theorem subscribe_once_spent_witness:
  "fst (subscribe_client 1 (Some ErrContext) \<lparr>su_chans = [] :: (nat \<times> string list) list, su_once = False, su_push = 0, su_drop = 0\<rparr>) = Inl ErrContext"
  by (rule subscribe_once_spent [THEN conjunct1]) simp

section \<open>The message types\<close>

datatype rpc_method = RpcHello | RpcSpawn | RpcList | RpcKill | RpcOwns | RpcSetViewing | RpcTicketDone | RpcSubscribe |
  RpcPrepareExit | RpcCancelExit | RpcShutdown

fun method_name :: "rpc_method \<Rightarrow> string" where
  "method_name RpcHello = ''hello''"
| "method_name RpcSpawn = ''spawn''"
| "method_name RpcList = ''list''"
| "method_name RpcKill = ''kill''"
| "method_name RpcOwns = ''owns''"
| "method_name RpcSetViewing = ''set_viewing''"
| "method_name RpcTicketDone = ''ticket_done''"
| "method_name RpcSubscribe = ''subscribe''"
| "method_name RpcPrepareExit = ''prepare_exit''"
| "method_name RpcCancelExit = ''cancel_exit''"
| "method_name RpcShutdown = ''shutdown''"

definition req_type :: "rpc_method \<Rightarrow> string" where "req_type m = method_name m @ ''.req''"
definition resp_type :: "rpc_method \<Rightarrow> string" where "resp_type m = method_name m @ ''.resp''"

text \<open>\<open>Kill\<close> and \<open>Subscribe\<close> pass no result to decode into; \<open>dec m\<close> says which bodies decode for \<open>m\<close>.\<close>

definition call_of :: "(rpc_method \<Rightarrow> string \<Rightarrow> bool) \<Rightarrow> rpc_method \<Rightarrow> rpc_call" where
  "call_of dec m =
     \<lparr>rc_type = req_type m, rc_encodes = True, rc_expect = resp_type m,
      rc_out = (if m = RpcKill \<or> m = RpcSubscribe then None else Some (dec m))\<rparr>"

lemma method_name_inj: "method_name m = method_name m' \<longleftrightarrow> m = m'"
  by (cases m; cases m'; simp)

lemma resp_type_not_error: "resp_type m \<noteq> MsgErrorResp"
  by (cases m) (simp_all add: resp_type_def MsgErrorResp_def)

text \<open>
  What one call makes of an answer, for every method: it succeeds on exactly the bodies of its own response type that
  decode, and an answer meant for a call of another kind is an error that names the request.
\<close>
theorem answer_by_type:
  "handle_resp dr (call_of dec m) (RawResp (resp_type m') b) =
     (if m' \<noteq> m then Inl (ErrUnexpected (req_type m) (resp_type m'))
      else if m = RpcKill \<or> m = RpcSubscribe \<or> dec m b then Inr b
      else Inl (ErrDecode (resp_type m)))"
  using resp_type_not_error [of m'] method_name_inj [of m' m]
  by (auto simp: handle_resp_def call_of_def resp_type_def)

end
