(* ===== verification/Paths.thy ===== *)
theory Paths
  imports Disk
begin

text \<open>
  Paths as strings, and the two functions of package \<^verbatim>\<open>path/filepath\<close> that turn a string into a clean path.
\<close>

fun split_slash :: "string \<Rightarrow> string list" where
  "split_slash [] = [[]]"
| "split_slash (c # s) =
     (if c = CHR ''/'' then [] # split_slash s
      else case split_slash s of x # xs \<Rightarrow> (c # x) # xs | [] \<Rightarrow> [[c]])"

fun join_slash :: "string list \<Rightarrow> string" where
  "join_slash [] = []"
| "join_slash [x] = x"
| "join_slash (x # y # xs) = x @ ''/'' @ join_slash (y # xs)"

text \<open>\<^verbatim>\<open>filepath.Clean(filepath.Join(root, rel))\<close> for an absolute, clean \<open>root\<close>.\<close>

definition clean_step :: "path \<Rightarrow> string \<Rightarrow> path" where
  "clean_step p c = (if c = [] \<or> c = ''.'' then p else if c = ''..'' then butlast p else p @ [c])"

definition clean_join :: "path \<Rightarrow> string \<Rightarrow> path" where
  "clean_join root rel = foldl clean_step root (split_slash rel)"

definition slashed :: "path \<Rightarrow> string" where
  "slashed p = concat (map (\<lambda>x. ''/'' @ x) p)"

lemma slashed_simps [simp]: "slashed [] = []" "slashed (x # p) = ''/'' @ x @ slashed p" "slashed (p @ q) = slashed p @ slashed q"
  by (simp_all add: slashed_def)

lemma slashed_join: "slashed (x # xs) = ''/'' @ join_slash (x # xs)"
  by (induction xs arbitrary: x) simp_all

lemma split_slash_noslash: "CHR ''/'' \<notin> set x \<Longrightarrow> split_slash x = [x]"
  by (induction x) auto

lemma split_slash_append: "CHR ''/'' \<notin> set x \<Longrightarrow> split_slash (x @ ''/'' @ s) = x # split_slash s"
  by (induction x) auto

end
