(* ===== verification/Restore.thy ===== *)
theory Restore
  imports Paths GoStrings
begin

text \<open>
  \<^verbatim>\<open>cmd/backup.go\<close> and \<^verbatim>\<open>cmd/restore.go\<close>: what goes into a backup archive, and what a restore writes where.  Paths
  on the machine are component lists from the root of the file system, as \<^verbatim>\<open>filepath.Abs\<close> and \<^verbatim>\<open>filepath.Join\<close> give them;
  names in the archive are strings with forward slashes.  An archive is the list of its entries, an entry's content is
  what reading it gives (\<open>ZBad\<close> is an entry whose content cannot be read), and the terminal is the list of lines still to be read, empty at end of file.  File modes and
  the compression are left out.
\<close>

section \<open>Names\<close>

definition sanitizeArchiveName :: "string \<Rightarrow> string" where
  "sanitizeArchiveName name =
     (if name = [] then ''_''
      else map (\<lambda>c. if c = CHR ''/'' \<or> c = CHR 0x5C \<or> c = CHR 0x00 then CHR ''_'' else c) name)"

section \<open>Backup\<close>

record manifest_project =
  mp_ID :: string
  mp_Name :: string
  mp_RepoPath :: path

record archive_item =
  ai_Project :: manifest_project
  ai_TicketsDirExists :: bool
  ai_ArchiveDir :: string

definition name_count :: "manifest_project list \<Rightarrow> string \<Rightarrow> nat" where
  "name_count ps n = length (filter (\<lambda>p. sanitizeArchiveName (mp_Name p) = n) ps)"

definition backup_dir :: "manifest_project list \<Rightarrow> manifest_project \<Rightarrow> string" where
  "backup_dir ps p =
     (let s = sanitizeArchiveName (mp_Name p)
      in if 1 < name_count ps s then s @ ''-'' @ take 8 (mp_ID p) else s)"

definition backup_items :: "(path \<Rightarrow> bool) \<Rightarrow> manifest_project list \<Rightarrow> archive_item list" where
  "backup_items dirExists ps =
     map (\<lambda>p. \<lparr>ai_Project = p, ai_TicketsDirExists = dirExists (mp_RepoPath p @ [''tickets'']),
               ai_ArchiveDir = backup_dir ps p\<rparr>)
       (sort_key mp_Name (sort_key mp_ID ps))"

text \<open>
  The tree \<^verbatim>\<open>filepath.Walk\<close> meets: a directory with its entries in name order, a regular file, one that cannot be opened
  and one that has vanished, a symbolic link with what \<^verbatim>\<open>os.Stat\<close> finds behind it, and anything else.
\<close>

datatype fnode =
    FDir "(string \<times> fnode) list" | FReg string | FUnreadable | FVanished | FSym "fnode option" | FSpecial

datatype zip_entry = ZFile (ze_Name: string) string | ZDir (ze_Name: string) | ZBad (ze_Name: string)

datatype walk_ev = WEntry zip_entry | WLink | WBroken

definition tmp_like :: "string \<Rightarrow> bool" where
  "tmp_like name \<longleftrightarrow> contains name ''.tmp-'' \<or> has_suffix name ''.tmp''"

text \<open>One non-directory entry, after a symbolic link has been resolved; the second component is false when the walk stops.\<close>

fun walk_leaf :: "string \<Rightarrow> fnode \<Rightarrow> walk_ev list \<times> bool" where
  "walk_leaf zp (FReg d) = ([WEntry (ZFile zp d)], True)"
| "walk_leaf zp (FDir _) = ([WEntry (ZDir (zp @ ''/''))], True)"
| "walk_leaf zp FUnreadable = ([], False)"
| "walk_leaf zp _ = ([], True)"

fun walk_node :: "string \<Rightarrow> string \<times> fnode \<Rightarrow> walk_ev list \<times> bool"
  and walk_nodes :: "string \<Rightarrow> (string \<times> fnode) list \<Rightarrow> walk_ev list \<times> bool" where
  "walk_node pre (name, FDir cs) =
     (if tmp_like name then ([], True)
      else let r = walk_nodes (pre @ ''/'' @ name) cs in (WEntry (ZDir (pre @ ''/'' @ name @ ''/'')) # fst r, snd r))"
| "walk_node pre (name, FSym t) =
     (if tmp_like name then ([], True)
      else case t of None \<Rightarrow> ([WBroken], True)
           | Some n \<Rightarrow> let r = walk_leaf (pre @ ''/'' @ name) n in (WLink # fst r, snd r))"
| "walk_node pre (name, FReg d) = (if tmp_like name then ([], True) else walk_leaf (pre @ ''/'' @ name) (FReg d))"
| "walk_node pre (name, FUnreadable) = (if tmp_like name then ([], True) else walk_leaf (pre @ ''/'' @ name) FUnreadable)"
| "walk_node pre (name, FVanished) = (if tmp_like name then ([], True) else walk_leaf (pre @ ''/'' @ name) FVanished)"
| "walk_node pre (name, FSpecial) = (if tmp_like name then ([], True) else walk_leaf (pre @ ''/'' @ name) FSpecial)"
| "walk_nodes pre [] = ([], True)"
| "walk_nodes pre (c # cs) =
     (let r = walk_node pre c
      in if snd r then let r' = walk_nodes pre cs in (fst r @ fst r', snd r') else r)"

text \<open>
  \<^verbatim>\<open>writeTreeToZip\<close>: the walk starts at the root without following a link, and the root itself writes no entry.
\<close>

definition writeTreeToZip :: "fnode \<Rightarrow> string \<Rightarrow> walk_ev list \<times> bool" where
  "writeTreeToZip root pre = (case root of FDir cs \<Rightarrow> walk_nodes pre cs | _ \<Rightarrow> ([], True))"

fun entries_of :: "walk_ev list \<Rightarrow> zip_entry list" where
  "entries_of [] = []"
| "entries_of (WEntry e # es) = e # entries_of es"
| "entries_of (_ # es) = entries_of es"

definition tickets_prefix :: "string \<Rightarrow> string" where
  "tickets_prefix dir = ''repos/'' @ dir @ ''/tickets''"

text \<open>
  \<^verbatim>\<open>executeBackupPlan\<close>: the configuration tree if there is one, the ticket trees, and the manifest last.  The second
  component says whether every part went well; a tree that stopped early does not keep the rest from being written.
\<close>

definition executeBackupPlan ::
    "fnode option \<Rightarrow> (archive_item \<Rightarrow> fnode) \<Rightarrow> archive_item list \<Rightarrow> string \<Rightarrow> zip_entry list \<times> bool" where
  "executeBackupPlan cfg tree items manifest =
     (let parts = (case cfg of None \<Rightarrow> [] | Some t \<Rightarrow> [writeTreeToZip t ''config'']) @
            map (\<lambda>it. writeTreeToZip (tree it) (tickets_prefix (ai_ArchiveDir it))) (filter ai_TicketsDirExists items)
      in (concat (map (entries_of \<circ> fst) parts) @ [ZFile ''manifest.json'' manifest], list_all snd parts))"

definition resolveBackupOutputPath :: "(string \<Rightarrow> path) \<Rightarrow> path \<Rightarrow> string \<Rightarrow> string \<Rightarrow> path" where
  "resolveBackupOutputPath to_abs home stamp flag =
     (let auto_name = ''openkanban-'' @ stamp @ ''.zip''
      in if flag = [] then home @ [''backup'', ''openkanban'', auto_name]
         else if has_suffix (ascii_lower flag) ''.zip''
         then to_abs flag
         else to_abs flag @ [auto_name])"

section \<open>Planning a restore\<close>

record missing_repo =
  mr_Project :: manifest_project
  mr_ArchivePrefix :: string

record restorePlan =
  rp_ConfigDir :: path
  rp_ConflictMode :: string
  rp_ProjectRoots :: "(string, path) gomap"
  rp_MissingRepos :: "missing_repo list"
  rp_SkippedRepos :: "(string, bool) gomap"

datatype restore_error =
    InvalidConflictMode string
  | NoManifest
  | MissingRepoAborted string
  | MissingRepoUnanswered
  | RejectedEntry string
  | ConflictUnanswered
  | UnreadableEntry string
  | DestUnreadable path
  | RestoreMkdir path
  | RestoreWrite path

definition validConflictModes :: "string list" where
  "validConflictModes = [''skip'', ''overwrite'', ''prompt'']"

definition isValidConflictMode :: "string \<Rightarrow> bool" where
  "isValidConflictMode mode \<longleftrightarrow> mode \<in> set validConflictModes"

definition restore_mode :: "string \<Rightarrow> restore_error + string" where
  "restore_mode flag =
     (let mode = (if TrimSpace flag = [] then ''prompt'' else TrimSpace flag)
      in if isValidConflictMode mode then Inr mode else Inl (InvalidConflictMode flag))"

definition archive_prefix_of :: "string \<Rightarrow> string option" where
  "archive_prefix_of name =
     (if \<not> has_prefix name ''repos/'' then None
      else let rest = drop 6 name
           in if rest = [] then None
              else map_option (\<lambda>i. tickets_prefix (take i rest)) (index_of rest ''/''))"

definition candidates :: "manifest_project \<Rightarrow> string list" where
  "candidates p =
     (let s = sanitizeArchiveName (mp_Name p)
      in [tickets_prefix s, tickets_prefix (s @ ''-'' @ take 8 (mp_ID p)), tickets_prefix (s @ ''-'' @ mp_ID p)])"

definition matched_prefix :: "string set \<Rightarrow> manifest_project \<Rightarrow> string" where
  "matched_prefix present p =
     (case find (\<lambda>c. c \<in> present) (candidates p) of Some c \<Rightarrow> c | None \<Rightarrow> hd (candidates p))"

definition plan_project :: "(path \<Rightarrow> bool) \<Rightarrow> string set \<Rightarrow> restorePlan \<Rightarrow> manifest_project \<Rightarrow> restorePlan" where
  "plan_project dirExists present plan p =
     (let m = matched_prefix present p
      in if dirExists (mp_RepoPath p) then
           plan\<lparr>rp_ProjectRoots := mput m (mp_RepoPath p @ [''tickets'']) (rp_ProjectRoots plan)\<rparr>
         else plan\<lparr>rp_MissingRepos := rp_MissingRepos plan @ [\<lparr>mr_Project = p, mr_ArchivePrefix = m\<rparr>]\<rparr>)"

definition restore_plan_of ::
    "(path \<Rightarrow> bool) \<Rightarrow> path \<Rightarrow> string \<Rightarrow> zip_entry list \<Rightarrow> manifest_project list \<Rightarrow> restorePlan" where
  "restore_plan_of dirExists configDir mode es ps =
     (let present = set (List.map_filter (archive_prefix_of \<circ> ze_Name) es);
          plan = fold (\<lambda>p plan. plan_project dirExists present plan p) ps
            \<lparr>rp_ConfigDir = configDir, rp_ConflictMode = mode, rp_ProjectRoots = [], rp_MissingRepos = [], rp_SkippedRepos = []\<rparr>
      in plan\<lparr>rp_MissingRepos := sort_key (mp_Name \<circ> mr_Project) (rp_MissingRepos plan)\<rparr>)"

text \<open>\<open>dec\<close> is the decoding of \<^verbatim>\<open>manifest.json\<close>; an undecodable manifest is no manifest.\<close>

definition planRestore ::
    "(string \<Rightarrow> manifest_project list option) \<Rightarrow> (path \<Rightarrow> bool) \<Rightarrow> path \<Rightarrow> string \<Rightarrow> zip_entry list \<Rightarrow> restore_error + restorePlan" where
  "planRestore dec dirExists configDir flag es =
     bind_res (restore_mode flag) (\<lambda>mode.
       case find (\<lambda>e. ze_Name e = ''manifest.json'') es of
         None \<Rightarrow> Inl NoManifest
       | Some (ZDir _) \<Rightarrow> Inl NoManifest
       | Some (ZBad _) \<Rightarrow> Inl NoManifest
       | Some (ZFile _ m) \<Rightarrow>
           (case dec m of
              None \<Rightarrow> Inl NoManifest
            | Some ps \<Rightarrow> Inr (restore_plan_of dirExists configDir mode es ps)))"

fun ask_missing :: "string list \<Rightarrow> (bool \<times> string list) option" where
  "ask_missing [] = None"
| "ask_missing (line # rest) =
     (let ans = TrimSpace line
      in if ans = ''a'' \<or> ans = ''A'' then Some (False, rest)
         else if ans = ''s'' \<or> ans = ''S'' then Some (True, rest)
         else ask_missing rest)"

definition skip_repo :: "string \<Rightarrow> restorePlan \<Rightarrow> restorePlan" where
  "skip_repo pre plan = plan\<lparr>rp_SkippedRepos := mput pre True (rp_SkippedRepos plan)\<rparr>"

fun resolve_missing :: "bool \<Rightarrow> missing_repo list \<Rightarrow> string list \<Rightarrow> restorePlan \<Rightarrow> restore_error + restorePlan \<times> string list" where
  "resolve_missing yes [] inp plan = Inr (plan, inp)"
| "resolve_missing yes (mr # mrs) inp plan =
     (if yes then resolve_missing yes mrs inp (skip_repo (mr_ArchivePrefix mr) plan)
      else case ask_missing inp of
             None \<Rightarrow> Inl MissingRepoUnanswered
           | Some (False, _) \<Rightarrow> Inl (MissingRepoAborted (mp_Name (mr_Project mr)))
           | Some (True, rest) \<Rightarrow> resolve_missing yes mrs rest (skip_repo (mr_ArchivePrefix mr) plan))"

definition resolveMissingRepos :: "bool \<Rightarrow> string list \<Rightarrow> restorePlan \<Rightarrow> restore_error + restorePlan \<times> string list" where
  "resolveMissingRepos yes inp plan = resolve_missing yes (rp_MissingRepos plan) inp plan"

section \<open>Executing a restore\<close>

datatype classifyAction = ClassifyWrite path | ClassifyDrop | ClassifyReject

definition checkRoot :: "path \<Rightarrow> string \<Rightarrow> classifyAction" where
  "checkRoot root rel =
     (if rel = [] \<or> rel = ''/'' then ClassifyReject
      else let cleaned = clean_join root rel
           in if root = [] \<or> \<not> prefix root cleaned then ClassifyReject
              else if cleaned = root then ClassifyReject
              else ClassifyWrite cleaned)"

definition classifyEntry :: "restorePlan \<Rightarrow> string \<Rightarrow> classifyAction" where
  "classifyEntry plan name =
     (if has_prefix name ''config/'' then checkRoot (rp_ConfigDir plan) (drop 7 name)
      else if has_prefix name ''repos/'' then
        (case find (\<lambda>(pre, _). has_prefix name (pre @ ''/'')) (rp_ProjectRoots plan) of
           Some (pre, target) \<Rightarrow> checkRoot target (drop (length pre + 1) name)
         | None \<Rightarrow>
             if \<exists>pre \<in> fst ` set (rp_SkippedRepos plan). has_prefix name (pre @ ''/'') \<or> name = pre then ClassifyDrop
             else ClassifyReject)
      else ClassifyReject)"

text \<open>
  The answer to a conflict: the first character of the first line that gives one.  A \<open>d\<close> shows the difference, or says
  that it cannot, and asks again.
\<close>

datatype choice = ChYes | ChNo | ChAll | ChNone

fun promptConflict :: "string list \<Rightarrow> (choice \<times> string list) option" where
  "promptConflict [] = None"
| "promptConflict (line # rest) =
     (case trim_right (\<lambda>c. c = CHR 0x0A \<or> c = CHR 0x0D) line of
        [] \<Rightarrow> promptConflict rest
      | c # _ \<Rightarrow>
          if c = CHR ''y'' then Some (ChYes, rest)
          else if c = CHR ''n'' then Some (ChNo, rest)
          else if c = CHR ''a'' then Some (ChAll, rest)
          else if c = CHR ''A'' then Some (ChNone, rest)
          else promptConflict rest)"

record restore_state =
  rs_disk :: disk
  rs_yesAll :: bool
  rs_noAll :: bool
  rs_input :: "string list"
  rs_written :: nat
  rs_skipped :: nat

definition skip_entry :: "restore_state \<Rightarrow> restore_state" where
  "skip_entry s = s\<lparr>rs_skipped := Suc (rs_skipped s)\<rparr>"

definition write_entry :: "faults \<Rightarrow> time \<Rightarrow> path \<Rightarrow> string \<Rightarrow> restore_state \<Rightarrow> restore_state \<times> restore_error option" where
  "write_entry F now dest data s =
     (case os_MkdirAll F (butlast dest) (rs_disk s) of
        (d, Some _) \<Rightarrow> (s\<lparr>rs_disk := d\<rparr>, Some (RestoreMkdir dest))
      | (d, None) \<Rightarrow>
          (case os_WriteFile F now dest data d of
             (d', Some _) \<Rightarrow> (s\<lparr>rs_disk := d'\<rparr>, Some (RestoreWrite dest))
           | (d', None) \<Rightarrow> (s\<lparr>rs_disk := d', rs_written := Suc (rs_written s)\<rparr>, None)))"

definition conflict_entry :: "string \<Rightarrow> restore_state \<Rightarrow> restore_error + (bool \<times> restore_state)" where
  "conflict_entry mode s =
     (if mode = ''skip'' then Inr (False, s)
      else if mode = ''overwrite'' then Inr (True, s)
      else if rs_yesAll s then Inr (True, s)
      else if rs_noAll s then Inr (False, s)
      else case promptConflict (rs_input s) of
             None \<Rightarrow> Inl ConflictUnanswered
           | Some (ChYes, rest) \<Rightarrow> Inr (True, s\<lparr>rs_input := rest\<rparr>)
           | Some (ChNo, rest) \<Rightarrow> Inr (False, s\<lparr>rs_input := rest\<rparr>)
           | Some (ChAll, rest) \<Rightarrow> Inr (True, s\<lparr>rs_input := rest, rs_yesAll := True\<rparr>)
           | Some (ChNone, rest) \<Rightarrow> Inr (False, s\<lparr>rs_input := rest, rs_noAll := True\<rparr>))"

definition restore_entry :: "faults \<Rightarrow> time \<Rightarrow> string \<Rightarrow> path \<Rightarrow> string \<Rightarrow> restore_state \<Rightarrow> restore_state \<times> restore_error option" where
  "restore_entry F now mode dest data s =
     (case os_ReadFile F dest (rs_disk s) of
        Inr existing \<Rightarrow>
          if existing = data then (skip_entry s, None)
          else (case conflict_entry mode s of
                  Inl e \<Rightarrow> (s, Some e)
                | Inr (False, s') \<Rightarrow> (skip_entry s', None)
                | Inr (True, s') \<Rightarrow> write_entry F now dest data s')
      | Inl e \<Rightarrow> if not_exist e then write_entry F now dest data s else (s, Some (DestUnreadable dest)))"

definition is_payload :: "zip_entry \<Rightarrow> bool" where
  "is_payload e \<longleftrightarrow> (case e of ZDir _ \<Rightarrow> False | ZFile n _ \<Rightarrow> n \<noteq> ''manifest.json'' | ZBad n \<Rightarrow> n \<noteq> ''manifest.json'')"

fun restore_loop :: "faults \<Rightarrow> time \<Rightarrow> restorePlan \<Rightarrow> zip_entry list \<Rightarrow> restore_state \<Rightarrow> restore_state \<times> restore_error option" where
  "restore_loop F now plan [] s = (s, None)"
| "restore_loop F now plan (e # es) s =
     (if \<not> is_payload e then restore_loop F now plan es s
      else case classifyEntry plan (ze_Name e) of
             ClassifyReject \<Rightarrow> (s, Some (RejectedEntry (ze_Name e)))
           | ClassifyDrop \<Rightarrow> restore_loop F now plan es s
           | ClassifyWrite dest \<Rightarrow>
               (case e of
                  ZFile _ data \<Rightarrow>
                    (case restore_entry F now (rp_ConflictMode plan) dest data s of
                       (s', Some err) \<Rightarrow> (s', Some err)
                     | (s', None) \<Rightarrow> restore_loop F now plan es s')
                | _ \<Rightarrow> (s, Some (UnreadableEntry (ze_Name e)))))"

definition executeRestorePlan ::
    "faults \<Rightarrow> time \<Rightarrow> restorePlan \<Rightarrow> zip_entry list \<Rightarrow> string list \<Rightarrow> disk \<Rightarrow> restore_state \<times> restore_error option" where
  "executeRestorePlan F now plan es inp d =
     (let s0 = \<lparr>rs_disk = d, rs_yesAll = False, rs_noAll = False, rs_input = inp, rs_written = 0, rs_skipped = 0\<rparr>
      in case find (\<lambda>e. is_payload e \<and> classifyEntry plan (ze_Name e) = ClassifyReject) es of
           Some e \<Rightarrow> (s0, Some (RejectedEntry (ze_Name e)))
         | None \<Rightarrow> restore_loop F now plan es s0)"

section \<open>The command\<close>

datatype restore_outcome = RestorePlanned | RestoreAborted | RestoreFailed restore_error | RestoreDone nat nat

definition confirmed :: "string list \<Rightarrow> bool" where
  "confirmed inp \<longleftrightarrow> inp \<noteq> [] \<and> TrimSpace (hd inp) \<in> {''y'', ''Y'', ''yes'', ''YES''}"

definition restore_cmd ::
    "faults \<Rightarrow> time \<Rightarrow> (string \<Rightarrow> manifest_project list option) \<Rightarrow> (path \<Rightarrow> bool) \<Rightarrow> path \<Rightarrow> string \<Rightarrow> bool \<Rightarrow> bool \<Rightarrow>
     zip_entry list \<Rightarrow> string list \<Rightarrow> disk \<Rightarrow> disk \<times> restore_outcome" where
  "restore_cmd F now dec dirExists cfg flag dry yes es inp d =
     (case planRestore dec dirExists cfg flag es of
        Inl e \<Rightarrow> (d, RestoreFailed e)
      | Inr plan \<Rightarrow>
          if dry then (d, RestorePlanned)
          else (case resolveMissingRepos yes inp plan of
                  Inl e \<Rightarrow> (d, RestoreFailed e)
                | Inr (plan', inp') \<Rightarrow>
                    if \<not> yes \<and> \<not> confirmed inp' then (d, RestoreAborted)
                    else (case executeRestorePlan F now plan' es (if yes then inp' else tl inp') d of
                            (s, Some e) \<Rightarrow> (rs_disk s, RestoreFailed e)
                          | (s, None) \<Rightarrow> (rs_disk s, RestoreDone (rs_written s) (rs_skipped s)))))"

section \<open>Where a restore writes\<close>

definition plan_roots :: "restorePlan \<Rightarrow> path set" where
  "plan_roots plan = insert (rp_ConfigDir plan) (snd ` set (rp_ProjectRoots plan))"

definition confined :: "path set \<Rightarrow> disk \<Rightarrow> disk \<Rightarrow> bool" where
  "confined R d d' \<longleftrightarrow>
     (\<forall>p. mget d' p = mget d p \<or> (\<exists>root \<in> R. strict_prefix root p) \<or>
        (mget d p = None \<and> mget d' p = Some DirN \<and> (\<exists>root \<in> R. prefix p root)))"

lemma confined_refl [simp]: "confined R d d"
  by (simp add: confined_def)

lemma confined_trans: "confined R d d' \<Longrightarrow> confined R d' d'' \<Longrightarrow> confined R d d''"
  unfolding confined_def by (metis option.distinct(1))

lemma confined_mono: "confined R d d' \<Longrightarrow> R \<subseteq> R' \<Longrightarrow> confined R' d d'"
  unfolding confined_def by blast

lemma find_SomeD: "find P xs = Some x \<Longrightarrow> x \<in> set xs \<and> P x"
  by (auto simp: find_Some_iff)

lemma checkRoot_below: "checkRoot root rel = ClassifyWrite dest \<Longrightarrow> strict_prefix root dest"
  by (auto simp: checkRoot_def Let_def strict_prefix_def split: if_splits)

lemma classifyEntry_below:
  assumes "classifyEntry plan name = ClassifyWrite dest"
  shows "\<exists>root \<in> plan_roots plan. strict_prefix root dest"
proof (cases "has_prefix name ''config/''")
  case True
  with assms show ?thesis by (auto simp: classifyEntry_def plan_roots_def dest: checkRoot_below)
next
  case False
  with assms obtain pre target where "find (\<lambda>(pre, _). has_prefix name (pre @ ''/'')) (rp_ProjectRoots plan) = Some (pre, target)"
    and "checkRoot target (drop (length pre + 1) name) = ClassifyWrite dest"
    by (auto simp: classifyEntry_def split: if_splits option.splits)
  then have "(pre, target) \<in> set (rp_ProjectRoots plan)" "strict_prefix target dest"
    by (auto dest: find_SomeD checkRoot_below)
  then show ?thesis by (force simp: plan_roots_def)
qed

lemma prefixes_of_prefix: "q \<in> set (prefixes_of p) \<Longrightarrow> prefix q p"
  by (auto simp: prefixes_of_def take_is_prefix)

lemma os_MkdirAll_changes:
  "mget (fst (os_MkdirAll F p d)) q \<noteq> mget d q \<Longrightarrow> prefix q p \<and> mget d q = None \<and> mget (fst (os_MkdirAll F p d)) q = Some DirN"
  by (auto simp: os_MkdirAll_def mget_mkdir_fold dest: prefixes_of_prefix split: option.splits if_splits)

lemma confined_mkdir:
  assumes "root \<in> R" "strict_prefix root dest"
  shows "confined R d (fst (os_MkdirAll F (butlast dest) d))"
  unfolding confined_def
proof (intro allI)
  fix p
  let ?d = "fst (os_MkdirAll F (butlast dest) d)"
  show "mget ?d p = mget d p \<or> (\<exists>root\<in>R. strict_prefix root p) \<or> mget d p = None \<and> mget ?d p = Some DirN \<and> (\<exists>root\<in>R. prefix p root)"
  proof (cases "mget ?d p = mget d p")
    case False
    then have p: "prefix p (butlast dest)" "mget d p = None" "mget ?d p = Some DirN"
      using os_MkdirAll_changes by blast+
    moreover from p(1) have "prefix p dest"
      by (metis prefix_order.trans prefixeq_butlast)
    ultimately show ?thesis
      using assms prefix_same_cases [of root dest p] by (auto simp: strict_prefix_def)
  qed simp
qed

lemma confined_write:
  assumes "root \<in> R" "strict_prefix root dest"
  shows "confined R d (fst (os_WriteFile F now dest data d))"
  using assms by (auto simp: confined_def os_WriteFile_def)

lemma confined_write_entry:
  assumes "root \<in> R" "strict_prefix root dest"
  shows "confined R (rs_disk s) (rs_disk (fst (write_entry F now dest data s)))"
proof -
  obtain d1 e1 where mk: "os_MkdirAll F (butlast dest) (rs_disk s) = (d1, e1)" by fastforce
  obtain d2 e2 where wr: "os_WriteFile F now dest data d1 = (d2, e2)" by fastforce
  have "confined R (rs_disk s) d1" "confined R d1 d2"
    using confined_mkdir [OF assms, where d = "rs_disk s" and F = F]
      confined_write [OF assms, where d = d1 and F = F and now = now and data = data] mk wr by simp_all
  moreover from this have "confined R (rs_disk s) d2" by (rule confined_trans)
  ultimately show ?thesis
    using mk wr by (simp add: write_entry_def split: option.split)
qed

lemma conflict_entry_disk: "conflict_entry mode s = Inr (b, s') \<Longrightarrow> rs_disk s' = rs_disk s"
  by (auto simp: conflict_entry_def split: if_splits option.splits choice.splits prod.splits)

lemma confined_entry:
  assumes "root \<in> R" "strict_prefix root dest"
  shows "confined R (rs_disk s) (rs_disk (fst (restore_entry F now mode dest data s)))"
proof -
  have w: "confined R (rs_disk s) (rs_disk (fst (write_entry F now dest data s')))" if "rs_disk s' = rs_disk s" for s'
    using confined_write_entry [OF assms, where s = s' and F = F and now = now and data = data] that by simp
  show ?thesis
  proof (cases "os_ReadFile F dest (rs_disk s)")
    case (Inl e)
    with w [of s] show ?thesis by (simp add: restore_entry_def)
  next
    case (Inr existing)
    show ?thesis
    proof (cases "conflict_entry mode s")
      case (Inr r)
      then obtain b s' where "conflict_entry mode s = Inr (b, s')" by (cases r) auto
      with w [of s'] \<open>os_ReadFile F dest (rs_disk s) = Inr existing\<close> show ?thesis
        by (cases b) (simp_all add: restore_entry_def skip_entry_def conflict_entry_disk)
    qed (use Inr in \<open>simp add: restore_entry_def skip_entry_def\<close>)
  qed
qed

lemma confined_loop: "confined (plan_roots plan) (rs_disk s) (rs_disk (fst (restore_loop F now plan es s)))"
proof (induction es arbitrary: s)
  case (Cons e es)
  show ?case
  proof (cases "is_payload e \<and> (\<exists>dest. classifyEntry plan (ze_Name e) = ClassifyWrite dest) \<and> (\<exists>n data. e = ZFile n data)")
    case True
    then obtain dest n data where e: "is_payload e" "classifyEntry plan n = ClassifyWrite dest" "e = ZFile n data" by auto
    then obtain root where root: "root \<in> plan_roots plan" "strict_prefix root dest"
      using classifyEntry_below by blast
    show ?thesis
      using e confined_entry [OF root, where s = s and F = F and now = now and mode = "rp_ConflictMode plan" and data = data]
        confined_trans [OF _ Cons.IH]
      by (auto split: prod.splits option.splits)
  next
    case False
    then show ?thesis
      using Cons.IH [of s] by (auto split: classifyAction.splits zip_entry.splits)
  qed
qed simp

lemma executeRestorePlan_confined: "confined (plan_roots plan) d (rs_disk (fst (executeRestorePlan F now plan es inp d)))"
  using confined_loop [of plan "\<lparr>rs_disk = d, rs_yesAll = False, rs_noAll = False, rs_input = inp, rs_written = 0, rs_skipped = 0\<rparr>" F now es]
  by (auto simp: executeRestorePlan_def Let_def split: option.splits)

lemma resolve_missing_roots:
  "resolve_missing yes mrs inp plan = Inr (plan', inp') \<Longrightarrow>
     rp_ProjectRoots plan' = rp_ProjectRoots plan \<and> rp_ConfigDir plan' = rp_ConfigDir plan \<and> rp_ConflictMode plan' = rp_ConflictMode plan"
  by (induction yes mrs inp plan rule: resolve_missing.induct)
    (auto simp: skip_repo_def split: if_splits option.splits prod.splits bool.splits)

lemma set_update_subset: "set (AList.update k v m) \<subseteq> insert (k, v) (set m)"
  by (induction m) auto

lemma plan_project_root:
  "(k, t) \<in> set (rp_ProjectRoots (plan_project dirExists present plan p)) \<Longrightarrow>
     (k, t) \<in> set (rp_ProjectRoots plan) \<or>
     dirExists (mp_RepoPath p) \<and> k = matched_prefix present p \<and> t = mp_RepoPath p @ [''tickets'']"
  using set_update_subset [of "matched_prefix present p" "mp_RepoPath p @ [''tickets'']" "rp_ProjectRoots plan"]
  by (auto simp: plan_project_def Let_def split: if_splits)

lemma plan_projects_root:
  "(k, t) \<in> set (rp_ProjectRoots (fold (\<lambda>p plan. plan_project dirExists present plan p) ps plan)) \<Longrightarrow>
     (k, t) \<in> set (rp_ProjectRoots plan) \<or>
     (\<exists>p \<in> set ps. dirExists (mp_RepoPath p) \<and> k = matched_prefix present p \<and> t = mp_RepoPath p @ [''tickets''])"
proof (induction ps arbitrary: plan)
  case (Cons p ps)
  from Cons.IH [of "plan_project dirExists present plan p"] Cons.prems plan_project_root [of k t dirExists present plan p]
  show ?case by auto
qed simp

lemma plan_projects_config:
  "rp_ConfigDir (fold (\<lambda>p plan. plan_project dirExists present plan p) ps plan) = rp_ConfigDir plan \<and>
   rp_ConflictMode (fold (\<lambda>p plan. plan_project dirExists present plan p) ps plan) = rp_ConflictMode plan"
  by (induction ps arbitrary: plan) (simp_all add: plan_project_def Let_def)

definition archive_projects :: "(string \<Rightarrow> manifest_project list option) \<Rightarrow> zip_entry list \<Rightarrow> manifest_project set" where
  "archive_projects dec es = {p. \<exists>m ps. ZFile ''manifest.json'' m \<in> set es \<and> dec m = Some ps \<and> p \<in> set ps}"

lemma planRestore_cases:
  assumes "planRestore dec dirExists cfg flag es = Inr plan"
  obtains mode m ps where "restore_mode flag = Inr mode" "ZFile ''manifest.json'' m \<in> set es" "dec m = Some ps"
    "plan = restore_plan_of dirExists cfg mode es ps"
proof -
  from assms obtain mode where mode: "restore_mode flag = Inr mode" and body: "(case find (\<lambda>e. ze_Name e = ''manifest.json'') es of
         None \<Rightarrow> Inl NoManifest
       | Some (ZDir _) \<Rightarrow> Inl NoManifest
       | Some (ZBad _) \<Rightarrow> Inl NoManifest
       | Some (ZFile _ m) \<Rightarrow>
           (case dec m of
              None \<Rightarrow> Inl NoManifest
            | Some ps \<Rightarrow> Inr (restore_plan_of dirExists cfg mode es ps))) = Inr plan"
    by (auto simp: planRestore_def bind_res_Inr_iff)
  then obtain n m ps where find: "find (\<lambda>e. ze_Name e = ''manifest.json'') es = Some (ZFile n m)" and dec: "dec m = Some ps"
    and plan: "plan = restore_plan_of dirExists cfg mode es ps"
    by (auto split: option.splits zip_entry.splits)
  from find have "ZFile ''manifest.json'' m \<in> set es" by (auto dest!: find_SomeD)
  with mode dec plan that show ?thesis by blast
qed

lemma restore_plan_of_config [simp]:
  "rp_ConfigDir (restore_plan_of dirExists cfg mode es ps) = cfg" "rp_ConflictMode (restore_plan_of dirExists cfg mode es ps) = mode"
  by (simp_all add: restore_plan_of_def Let_def plan_projects_config)

lemma planRestore_roots:
  assumes "planRestore dec dirExists cfg flag es = Inr plan"
  shows "plan_roots plan \<subseteq> insert cfg ((\<lambda>p. mp_RepoPath p @ [''tickets'']) ` {p \<in> archive_projects dec es. dirExists (mp_RepoPath p)})"
proof -
  from assms obtain mode m ps where man: "ZFile ''manifest.json'' m \<in> set es" "dec m = Some ps"
    and plan: "plan = restore_plan_of dirExists cfg mode es ps"
    by (rule planRestore_cases)
  then have "set ps \<subseteq> archive_projects dec es" by (auto simp: archive_projects_def)
  moreover have "rp_ConfigDir plan = cfg" by (simp add: plan)
  ultimately show ?thesis
    by (auto simp: plan plan_roots_def restore_plan_of_def Let_def dest!: plan_projects_root)
qed

lemma restore_cmd_disk:
  assumes "\<And>plan plan' inp' inp''. planRestore dec dirExists cfg flag es = Inr plan \<Longrightarrow>
      resolveMissingRepos yes inp plan = Inr (plan', inp') \<Longrightarrow>
      confined R d (rs_disk (fst (executeRestorePlan F now plan' es inp'' d)))"
  shows "confined R d (fst (restore_cmd F now dec dirExists cfg flag dry yes es inp d))"
proof (cases "planRestore dec dirExists cfg flag es")
  case (Inr plan)
  show ?thesis
  proof (cases "resolveMissingRepos yes inp plan")
    case res: (Inr r)
    obtain plan' inp' where r: "r = (plan', inp')" by (cases r)
    obtain s e where ex: "executeRestorePlan F now plan' es (if yes then inp' else tl inp') d = (s, e)" by fastforce
    have "confined R d (rs_disk s)"
      using assms [OF Inr res [unfolded r], of "if yes then inp' else tl inp'"] ex by simp
    then show ?thesis
      using Inr res r ex by (simp add: restore_cmd_def split: option.split)
  qed (simp add: restore_cmd_def Inr)
qed (simp add: restore_cmd_def)


section \<open>What a restore refuses and what it keeps\<close>

lemma executeRestorePlan_reject:
  assumes "e \<in> set es" "is_payload e" "classifyEntry plan (ze_Name e) = ClassifyReject"
  shows "rs_disk (fst (executeRestorePlan F now plan es inp d)) = d \<and>
    (\<exists>n. snd (executeRestorePlan F now plan es inp d) = Some (RejectedEntry n))"
proof -
  obtain x where "find (\<lambda>e. is_payload e \<and> classifyEntry plan (ze_Name e) = ClassifyReject) es = Some x"
    using assms by (fastforce simp: find_None_iff)
  then show ?thesis by (simp add: executeRestorePlan_def Let_def)
qed

lemma planRestore_config:
  assumes "planRestore dec dirExists cfg flag es = Inr plan" "resolveMissingRepos yes inp plan = Inr (plan', inp')"
  shows "rp_ConfigDir plan' = cfg \<and> restore_mode flag = Inr (rp_ConflictMode plan')"
proof -
  from assms(1) obtain mode ps where "restore_mode flag = Inr mode" "plan = restore_plan_of dirExists cfg mode es ps"
    by (rule planRestore_cases)
  with assms(2) show ?thesis
    using resolve_missing_roots [of yes "rp_MissingRepos plan" inp plan plan' inp'] by (simp add: resolveMissingRepos_def)
qed

text \<open>
  An archive with an entry that would land outside the configuration directory stops the whole restore before anything
  is written, wherever in the archive the entry stands.
\<close>
theorem zip_slip_stops_restore:
  assumes "ZFile (''config/'' @ rel) data \<in> set es" and "\<not> strict_prefix cfg (clean_join cfg rel)"
  shows "fst (restore_cmd F now dec dirExists cfg flag dry yes es inp d) = d \<and>
    (\<forall>w k. snd (restore_cmd F now dec dirExists cfg flag dry yes es inp d) \<noteq> RestoreDone w k)"
proof (cases "planRestore dec dirExists cfg flag es")
  case (Inr plan)
  show ?thesis
  proof (cases "resolveMissingRepos yes inp plan")
    case res: (Inr r)
    obtain plan' inp' where r: "r = (plan', inp')" by (cases r)
    have "rp_ConfigDir plan' = cfg"
      using planRestore_config [OF Inr res [unfolded r]] by simp
    then have "classifyEntry plan' (''config/'' @ rel) = ClassifyReject"
      using assms(2) by (auto simp: classifyEntry_def checkRoot_def Let_def strict_prefix_def)
    then have "rs_disk (fst (executeRestorePlan F now plan' es i d)) = d \<and>
        (\<exists>n. snd (executeRestorePlan F now plan' es i d) = Some (RejectedEntry n))" for i
      using executeRestorePlan_reject [OF assms(1)] by (simp add: is_payload_def)
    moreover obtain s e where ex: "executeRestorePlan F now plan' es (if yes then inp' else tl inp') d = (s, e)" by fastforce
    ultimately obtain n where "rs_disk s = d" "e = Some (RejectedEntry n)"
      by (metis fst_conv snd_conv)
    with ex show ?thesis
      using Inr res r by (simp add: restore_cmd_def)
  qed (simp add: restore_cmd_def Inr)
qed (simp add: restore_cmd_def)

text \<open>\<open>permits\<close>: the user has asked for overwriting, by the flag or by a line that could answer a conflict with yes.\<close>

definition yes_line :: "string \<Rightarrow> bool" where
  "yes_line line =
     (case trim_right (\<lambda>c. c = CHR 0x0A \<or> c = CHR 0x0D) line of [] \<Rightarrow> False | c # _ \<Rightarrow> c = CHR ''y'' \<or> c = CHR ''a'')"

definition permits :: "string \<Rightarrow> string list \<Rightarrow> bool" where
  "permits mode inp \<longleftrightarrow> mode = ''overwrite'' \<or> mode \<noteq> ''skip'' \<and> (\<exists>line \<in> set inp. yes_line line)"

lemma promptConflict_lines:
  "promptConflict inp = Some (ch, rest) \<Longrightarrow>
     set rest \<subseteq> set inp \<and> (ch = ChYes \<or> ch = ChAll \<longrightarrow> (\<exists>line \<in> set inp. yes_line line))"
  by (induction inp rule: promptConflict.induct) (auto simp: yes_line_def split: list.splits if_splits)

definition keeps_files :: "disk \<Rightarrow> disk \<Rightarrow> bool" where
  "keeps_files d d' \<longleftrightarrow> (\<forall>p. is_file d p \<longrightarrow> mget d' p = mget d p)"

lemma keeps_files_refl [simp]: "keeps_files d d"
  by (simp add: keeps_files_def)

lemma keeps_files_trans: "keeps_files d d' \<Longrightarrow> keeps_files d' d'' \<Longrightarrow> keeps_files d d''"
  by (simp add: keeps_files_def is_file_def)

lemma keeps_write_entry: "mget (rs_disk s) dest = None \<Longrightarrow> keeps_files (rs_disk s) (rs_disk (fst (write_entry F now dest data s)))"
proof -
  assume none: "mget (rs_disk s) dest = None"
  obtain d1 e1 where mk: "os_MkdirAll F (butlast dest) (rs_disk s) = (d1, e1)" by fastforce
  obtain d2 e2 where wr: "os_WriteFile F now dest data d1 = (d2, e2)" by fastforce
  have same: "mget d1 p = mget (rs_disk s) p" if "is_file (rs_disk s) p" for p
    using that os_MkdirAll_changes [of F "butlast dest" "rs_disk s" p] mk by (auto simp: is_file_def split: option.splits)
  moreover have "mget d2 p = mget d1 p" if "is_file (rs_disk s) p" for p
    using wr none that by (auto simp: os_WriteFile_def is_file_def split: if_splits)
  ultimately show ?thesis
    using mk wr by (auto simp: write_entry_def keeps_files_def split: option.splits)
qed

definition unpermitted :: "string \<Rightarrow> restore_state \<Rightarrow> bool" where
  "unpermitted mode s \<longleftrightarrow> \<not> permits mode (rs_input s) \<and> \<not> rs_yesAll s"

lemma conflict_entry_unpermitted:
  assumes "unpermitted mode s" "conflict_entry mode s = Inr (b, s')"
  shows "\<not> b \<and> unpermitted mode s' \<and> rs_disk s' = rs_disk s"
  using assms promptConflict_lines [of "rs_input s"]
  by (auto simp: unpermitted_def permits_def conflict_entry_def split: if_splits option.splits prod.splits choice.splits)

lemma keeps_entry:
  assumes "unpermitted mode s"
  shows "keeps_files (rs_disk s) (rs_disk (fst (restore_entry F now mode dest data s))) \<and>
    unpermitted mode (fst (restore_entry F now mode dest data s))"
proof (cases "os_ReadFile F dest (rs_disk s)")
  case (Inl e)
  have "mget (rs_disk s) dest = None" if "not_exist e"
    using Inl that by (auto simp: os_ReadFile_def split: if_splits option.splits node.splits)
  moreover have "unpermitted mode (fst (write_entry F now dest data s))"
    using assms by (auto simp: write_entry_def unpermitted_def split: prod.splits option.splits)
  ultimately show ?thesis
    using Inl keeps_write_entry [of s dest F now data] assms by (auto simp: restore_entry_def)
next
  case (Inr existing)
  show ?thesis
  proof (cases "conflict_entry mode s")
    case (Inr r)
    then obtain b s' where r: "conflict_entry mode s = Inr (b, s')" by (cases r) auto
    from conflict_entry_unpermitted [OF assms r] have "\<not> b" "unpermitted mode s'" "rs_disk s' = rs_disk s" by auto
    with r assms \<open>os_ReadFile F dest (rs_disk s) = Inr existing\<close> show ?thesis
      by (auto simp: restore_entry_def skip_entry_def unpermitted_def)
  qed (use Inr assms in \<open>simp add: restore_entry_def skip_entry_def unpermitted_def\<close>)
qed

lemma keeps_loop: "unpermitted (rp_ConflictMode plan) s \<Longrightarrow> keeps_files (rs_disk s) (rs_disk (fst (restore_loop F now plan es s)))"
proof (induction es arbitrary: s)
  case (Cons e es)
  show ?case
  proof (cases "is_payload e \<and> (\<exists>dest. classifyEntry plan (ze_Name e) = ClassifyWrite dest) \<and> (\<exists>n data. e = ZFile n data)")
    case True
    then obtain dest n data where e: "is_payload e" "classifyEntry plan n = ClassifyWrite dest" "e = ZFile n data" by auto
    obtain s' r where en: "restore_entry F now (rp_ConflictMode plan) dest data s = (s', r)" by fastforce
    with keeps_entry [OF Cons.prems, of F now dest data] have "keeps_files (rs_disk s) (rs_disk s')" "unpermitted (rp_ConflictMode plan) s'"
      by simp_all
    with e en Cons.IH [of s'] show ?thesis
      by (auto intro: keeps_files_trans split: option.splits)
  next
    case False
    then show ?thesis
      using Cons by (auto split: classifyAction.splits zip_entry.splits)
  qed
qed simp

lemma ask_missing_lines: "ask_missing inp = Some (b, rest) \<Longrightarrow> set rest \<subseteq> set inp"
  by (induction inp rule: ask_missing.induct) (auto simp: Let_def split: if_splits)

lemma resolve_missing_input: "resolve_missing yes mrs inp plan = Inr (plan', inp') \<Longrightarrow> set inp' \<subseteq> set inp"
proof (induction yes mrs inp plan rule: resolve_missing.induct)
  case (2 yes mr mrs inp plan)
  then show ?case
    using ask_missing_lines [of inp] by (fastforce split: if_splits option.splits prod.splits bool.splits)
qed simp


section \<open>Backup and restore\<close>

text \<open>The regular files of a tree as the walk meets them, with their paths below the root.\<close>

fun node_files :: "path \<Rightarrow> string \<times> fnode \<Rightarrow> (path \<times> string) list"
  and nodes_files :: "path \<Rightarrow> (string \<times> fnode) list \<Rightarrow> (path \<times> string) list" where
  "node_files pre (name, FDir cs) = (if tmp_like name then [] else nodes_files (pre @ [name]) cs)"
| "node_files pre (name, FReg d) = (if tmp_like name then [] else [(pre @ [name], d)])"
| "node_files pre (name, FSym t) = (if tmp_like name then [] else case t of Some (FReg d) \<Rightarrow> [(pre @ [name], d)] | _ \<Rightarrow> [])"
| "node_files pre (name, FUnreadable) = []"
| "node_files pre (name, FVanished) = []"
| "node_files pre (name, FSpecial) = []"
| "nodes_files pre [] = []"
| "nodes_files pre (c # cs) = node_files pre c @ nodes_files pre cs"

definition good_name :: "string \<Rightarrow> bool" where
  "good_name n \<longleftrightarrow> n \<noteq> [] \<and> n \<noteq> ''.'' \<and> n \<noteq> ''..'' \<and> CHR ''/'' \<notin> set n"

fun good_node :: "string \<times> fnode \<Rightarrow> bool"
  and good_nodes :: "(string \<times> fnode) list \<Rightarrow> bool" where
  "good_node (name, FDir cs) \<longleftrightarrow> good_name name \<and> distinct (map fst cs) \<and> good_nodes cs"
| "good_node (name, FSym t) \<longleftrightarrow> good_name name \<and> t \<noteq> Some FUnreadable"
| "good_node (name, FReg d) \<longleftrightarrow> good_name name"
| "good_node (name, FUnreadable) \<longleftrightarrow> False"
| "good_node (name, FVanished) \<longleftrightarrow> good_name name"
| "good_node (name, FSpecial) \<longleftrightarrow> good_name name"
| "good_nodes [] \<longleftrightarrow> True"
| "good_nodes (c # cs) \<longleftrightarrow> good_node c \<and> good_nodes cs"

lemma split_join: "\<forall>x \<in> set p. good_name x \<Longrightarrow> p \<noteq> [] \<Longrightarrow> split_slash (join_slash p) = p"
proof (induction p rule: join_slash.induct)
  case (3 x y xs)
  then show ?case using split_slash_append [of x "join_slash (y # xs)"] by (simp add: good_name_def)
qed (simp_all add: split_slash_noslash good_name_def)

lemma clean_join_good: "\<forall>x \<in> set p. good_name x \<Longrightarrow> p \<noteq> [] \<Longrightarrow> clean_join root (join_slash p) = root @ p"
proof -
  assume good: "\<forall>x \<in> set p. good_name x" and "p \<noteq> []"
  have "foldl clean_step root p = root @ p" if "\<forall>x \<in> set p. good_name x" for root p
    using that by (induction p arbitrary: root) (simp_all add: clean_step_def good_name_def)
  with good \<open>p \<noteq> []\<close> show ?thesis by (simp add: clean_join_def split_join)
qed

definition file_entry :: "string \<Rightarrow> path \<times> string \<Rightarrow> zip_entry" where
  "file_entry tp f = ZFile (tp @ slashed (fst f)) (snd f)"

lemma entries_of_append [simp]: "entries_of (xs @ ys) = entries_of xs @ entries_of ys"
  by (induction xs rule: entries_of.induct) simp_all

lemma walk_files:
  "good_node c \<Longrightarrow> snd (walk_node (tp @ slashed pre) c) \<and>
     filter (\<lambda>e. \<exists>n d. e = ZFile n d) (entries_of (fst (walk_node (tp @ slashed pre) c))) = map (file_entry tp) (node_files pre c) \<and>
     (\<forall>e \<in> set (entries_of (fst (walk_node (tp @ slashed pre) c))). \<forall>n. e \<noteq> ZBad n)"
  "good_nodes cs \<Longrightarrow> snd (walk_nodes (tp @ slashed pre) cs) \<and>
     filter (\<lambda>e. \<exists>n d. e = ZFile n d) (entries_of (fst (walk_nodes (tp @ slashed pre) cs))) = map (file_entry tp) (nodes_files pre cs) \<and>
     (\<forall>e \<in> set (entries_of (fst (walk_nodes (tp @ slashed pre) cs))). \<forall>n. e \<noteq> ZBad n)"
proof (induction pre c and pre cs rule: node_files_nodes_files.induct)
  case (1 pre name cs)
  then show ?case by (auto simp: Let_def)
next
  case (3 pre name t)
  then show ?case
  proof (cases t)
    case (Some a)
    with 3 show ?thesis by (cases a) (auto simp: Let_def file_entry_def)
  qed (simp add: Let_def)
qed (auto simp: Let_def file_entry_def)

lemma files_shape:
  "good_node c \<Longrightarrow> f \<in> set (node_files pre c) \<Longrightarrow> \<exists>q. fst f = pre @ fst c # q \<and> (\<forall>x \<in> set (fst c # q). good_name x)"
  "good_nodes cs \<Longrightarrow> f \<in> set (nodes_files pre cs) \<Longrightarrow>
     \<exists>n q. n \<in> fst ` set cs \<and> fst f = pre @ n # q \<and> (\<forall>x \<in> set (n # q). good_name x)"
proof (induction pre c and pre cs arbitrary: f and f rule: node_files_nodes_files.induct)
  case (1 pre name cs)
  then obtain n q where "fst f = (pre @ [name]) @ n # q" "\<forall>x \<in> set (n # q). good_name x"
    by (fastforce split: if_splits)
  with 1 show ?case by auto
next
  case (3 pre name t)
  then show ?case by (auto split: if_splits option.splits fnode.splits)
next
  case (8 pre c cs)
  show ?case
  proof (cases "f \<in> set (node_files pre c)")
    case True
    with 8(1) [of f] 8(3) obtain q where "fst f = pre @ fst c # q" "\<forall>x \<in> set (fst c # q). good_name x" by auto
    then show ?thesis by (intro exI [of _ "fst c"] exI [of _ q]) simp
  next
    case False
    with 8(2) [of f] 8(3,4) obtain n q where "n \<in> fst ` set cs" "fst f = pre @ n # q" "\<forall>x \<in> set (n # q). good_name x" by auto
    then show ?thesis by (intro exI [of _ n] exI [of _ q]) simp
  qed
qed (auto split: if_splits)

definition free :: "path list \<Rightarrow> bool" where
  "free rs \<longleftrightarrow> distinct rs \<and> (\<forall>r \<in> set rs. \<forall>r' \<in> set rs. prefix r r' \<longrightarrow> r = r')"

lemma free_append:
  assumes "free as" "free bs" "\<And>r r'. r \<in> set as \<Longrightarrow> r' \<in> set bs \<Longrightarrow> \<not> prefix r r' \<and> \<not> prefix r' r"
  shows "free (as @ bs)"
  unfolding free_def
proof
  show "distinct (as @ bs)"
    using assms by (fastforce simp: free_def)
  show "\<forall>r \<in> set (as @ bs). \<forall>r' \<in> set (as @ bs). prefix r r' \<longrightarrow> r = r'"
    using assms unfolding free_def set_append by blast
qed

lemma files_free:
  "good_node c \<Longrightarrow> free (map fst (node_files pre c))"
  "good_nodes cs \<Longrightarrow> distinct (map fst cs) \<Longrightarrow> free (map fst (nodes_files pre cs))"
proof (induction pre c and pre cs rule: node_files_nodes_files.induct)
  case (8 pre c cs)
  show ?case
    unfolding nodes_files.simps map_append
  proof (rule free_append)
    fix r r' assume "r \<in> set (map fst (node_files pre c))" "r' \<in> set (map fst (nodes_files pre cs))"
    then obtain f f' where f: "f \<in> set (node_files pre c)" "r = fst f" "f' \<in> set (nodes_files pre cs)" "r' = fst f'" by auto
    have good: "good_node c" "good_nodes cs" using 8(3) by simp_all
    obtain q where "r = pre @ fst c # q" using files_shape(1) [OF good(1) f(1)] f(2) by auto
    moreover obtain n q' where "r' = pre @ n # q'" "n \<in> fst ` set cs" using files_shape(2) [OF good(2) f(3)] f(4) by auto
    ultimately have "r = pre @ fst c # q" "r' = pre @ n # q'" "n \<in> fst ` set cs" by simp_all
    moreover have "fst c \<notin> fst ` set cs" using 8(4) by simp
    ultimately have "fst c \<noteq> n" "r = pre @ fst c # q" "r' = pre @ n # q'" by auto
    then show "\<not> prefix r r' \<and> \<not> prefix r' r" by simp
  qed (use 8 in auto)
qed (auto simp: free_def split: if_splits option.splits fnode.splits)

text \<open>The disk while a fresh configuration directory fills up: \<open>rs\<close> are the files to come, \<open>fs\<close> those already there.\<close>

definition filling :: "path \<Rightarrow> path list \<Rightarrow> (path \<times> string) list \<Rightarrow> time \<Rightarrow> disk \<Rightarrow> bool" where
  "filling cfg rs fs now d \<longleftrightarrow>
     (\<forall>q. prefix q cfg \<longrightarrow> \<not> is_file d q) \<and>
     (\<forall>q. q \<noteq> [] \<longrightarrow> mget d (cfg @ q) = None \<or>
        (\<exists>c. (q, c) \<in> set fs \<and> mget d (cfg @ q) = Some (FileN c now)) \<or>
        (mget d (cfg @ q) = Some DirN \<and> (\<exists>r \<in> set rs. strict_prefix q r))) \<and>
     (\<forall>(q, c) \<in> set fs. mget d (cfg @ q) = Some (FileN c now))"

lemma filling_at:
  "filling cfg rs fs now d \<Longrightarrow> q \<noteq> [] \<Longrightarrow> mget d (cfg @ q) = None \<or>
     (\<exists>c. (q, c) \<in> set fs \<and> mget d (cfg @ q) = Some (FileN c now)) \<or>
     (mget d (cfg @ q) = Some DirN \<and> (\<exists>r \<in> set rs. strict_prefix q r))"
  unfolding filling_def by blast

lemma filling_file: "filling cfg rs fs now d \<Longrightarrow> (q, c) \<in> set fs \<Longrightarrow> mget d (cfg @ q) = Some (FileN c now)"
  unfolding filling_def by blast

lemma filling_above: "filling cfg rs fs now d \<Longrightarrow> prefix q cfg \<Longrightarrow> \<not> is_file d q"
  unfolding filling_def by blast

lemma filling_is_file: "filling cfg rs fs now d \<Longrightarrow> q \<noteq> [] \<Longrightarrow> is_file d (cfg @ q) \<Longrightarrow> q \<in> fst ` set fs"
  by (drule filling_at) (auto simp: is_file_def intro: rev_image_eqI)

lemma prefix_butlast_strict: "r \<noteq> [] \<Longrightarrow> prefix u (butlast r) \<Longrightarrow> strict_prefix u r"
proof -
  assume "r \<noteq> []" "prefix u (butlast r)"
  then obtain z where "butlast r = u @ z" by (auto simp: prefix_def)
  with append_butlast_last_id [OF \<open>r \<noteq> []\<close>] have "r = u @ (z @ [last r])" by simp
  then show ?thesis by (metis append_is_Nil_conv append_self_conv not_Cons_self2 prefixI strict_prefixI)
qed

lemma os_MkdirAll_free:
  assumes "\<And>q. prefix q p \<Longrightarrow> \<not> is_file d q"
  shows "\<exists>d'. os_MkdirAll (\<lambda>_. False) p d = (d', None) \<and>
    (\<forall>q. mget d' q = (if mget d q = None \<and> q \<in> set (prefixes_of p) then Some DirN else mget d q))"
proof -
  have "find (is_file d) (prefixes_of p) = None"
    using assms prefixes_of_prefix by (auto simp: find_None_iff)
  then show ?thesis by (simp add: os_MkdirAll_def mget_mkdir_fold)
qed

lemma filling_step:
  assumes fill: "filling cfg rs fs now d" and free: "free rs" and r: "r \<in> set rs" "r \<notin> fst ` set fs" "r \<noteq> []"
    and fs: "fst ` set fs \<subseteq> set rs" and d: "rs_disk s = d"
  shows "\<exists>d'. restore_entry (\<lambda>_. False) now mode (cfg @ r) data s = (s\<lparr>rs_disk := d', rs_written := Suc (rs_written s)\<rparr>, None) \<and>
     filling cfg rs ((r, data) # fs) now d'"
proof -
  let ?F = "\<lambda>_::syscall. False"
  have nosub: "u \<notin> set rs" if "strict_prefix u r" for u
    using that free r(1) by (auto simp: free_def strict_prefix_def)
  have none: "mget d (cfg @ r) = None"
  proof -
    have "\<not> strict_prefix r r'" if "r' \<in> set rs" for r'
      using that free r(1) by (auto simp: free_def strict_prefix_def)
    moreover have "(r, c) \<notin> set fs" for c using r(2) by force
    ultimately show ?thesis using filling_at [OF fill r(3)] by blast
  qed
  have nofile: "\<not> is_file d q" if q: "prefix q (cfg @ butlast r)" for q
  proof (cases "prefix q cfg")
    case False
    with q obtain u where u: "q = cfg @ u" "u \<noteq> []" "prefix u (butlast r)"
      by (auto simp: prefix_append)
    then have "u \<notin> fst ` set fs"
      using nosub [OF prefix_butlast_strict [OF r(3)]] fs by auto
    with filling_is_file [OF fill u(2)] u(1) show ?thesis by blast
  qed (rule filling_above [OF fill])
  have bl: "butlast (cfg @ r) = cfg @ butlast r" using r(3) by (simp add: butlast_append)
  obtain d1 where mk: "os_MkdirAll ?F (butlast (cfg @ r)) d = (d1, None)"
    and d1: "\<And>q. mget d1 q = (if mget d q = None \<and> q \<in> set (prefixes_of (cfg @ butlast r)) then Some DirN else mget d q)"
    using os_MkdirAll_free [of "cfg @ butlast r" d] nofile bl by auto
  have "\<not> prefix (cfg @ r) (cfg @ butlast r)"
    using r(3) prefix_butlast_strict [of r r] by (auto simp: strict_prefix_def)
  then have none1: "mget d1 (cfg @ r) = None"
    using none d1 [of "cfg @ r"] prefixes_of_prefix [of "cfg @ r" "cfg @ butlast r"] by auto
  have "parent_ok d1 (cfg @ r)"
    using os_MkdirAll_ok [OF mk] by (auto simp: parent_ok_def)
  then have wr: "os_WriteFile ?F now (cfg @ r) data d1 = (mput (cfg @ r) (FileN data now) d1, None)"
    by (simp add: os_WriteFile_def none1)
  let ?d = "mput (cfg @ r) (FileN data now) d1"
  have get: "mget ?d q = mget d q \<or> (mget ?d q = Some DirN \<and> prefix q (cfg @ butlast r))" if "q \<noteq> cfg @ r" for q
    using that d1 prefixes_of_prefix by auto
  have "filling cfg rs ((r, data) # fs) now ?d"
    unfolding filling_def
  proof (intro conjI allI impI)
    fix q assume "prefix q cfg"
    then have "q \<noteq> cfg @ r" using r(3) by (auto simp: prefix_def)
    with get [OF this] filling_above [OF fill \<open>prefix q cfg\<close>] show "\<not> is_file ?d q"
      by (auto simp: is_file_def)
  next
    fix q :: path assume q: "q \<noteq> []"
    show "mget ?d (cfg @ q) = None \<or>
        (\<exists>c. (q, c) \<in> set ((r, data) # fs) \<and> mget ?d (cfg @ q) = Some (FileN c now)) \<or>
        (mget ?d (cfg @ q) = Some DirN \<and> (\<exists>r \<in> set rs. strict_prefix q r))"
    proof (cases "q = r")
      case False
      then have "mget ?d (cfg @ q) = mget d (cfg @ q) \<or> (mget ?d (cfg @ q) = Some DirN \<and> prefix q (butlast r))"
        using get [of "cfg @ q"] by simp
      then show ?thesis
        using filling_at [OF fill q] r(1) prefix_butlast_strict [OF r(3), of q] by (metis list.set_intros(2))
    qed simp
  next
    have "q \<noteq> r" if "(q, c) \<in> set fs" for q c
      using that r(2) by force
    then show "\<forall>(q, c) \<in> set ((r, data) # fs). mget ?d (cfg @ q) = Some (FileN c now)"
      using filling_file [OF fill] d1 by auto
  qed
  moreover have "restore_entry ?F now mode (cfg @ r) data s = (s\<lparr>rs_disk := ?d, rs_written := Suc (rs_written s)\<rparr>, None)"
    by (simp add: restore_entry_def os_ReadFile_def d none write_entry_def mk wr)
  ultimately show ?thesis by blast
qed

lemma checkRoot_good: "\<forall>x \<in> set r. good_name x \<Longrightarrow> r \<noteq> [] \<Longrightarrow> root \<noteq> [] \<Longrightarrow> checkRoot root (join_slash r) = ClassifyWrite (root @ r)"
proof -
  assume r: "\<forall>x \<in> set r. good_name x" "r \<noteq> []" and root: "root \<noteq> []"
  then obtain x xs where x: "r = x # xs" by (cases r) auto
  with r have "CHR ''/'' \<notin> set x" "x \<noteq> []" by (auto simp: good_name_def)
  then obtain a x' where a: "x = a # x'" "a \<noteq> CHR ''/''" by (cases x) auto
  have "\<exists>s. join_slash r = a # s"
    using x a by (cases xs) auto
  with a have "join_slash r \<noteq> []" "join_slash r \<noteq> ''/''" by auto
  then show ?thesis
    using clean_join_good [OF r] r(2) root by (simp add: checkRoot_def)
qed

lemma classify_config: "\<forall>x \<in> set r. good_name x \<Longrightarrow> r \<noteq> [] \<Longrightarrow> rp_ConfigDir plan = cfg \<Longrightarrow> cfg \<noteq> [] \<Longrightarrow>
    classifyEntry plan (''config'' @ slashed r) = ClassifyWrite (cfg @ r)"
proof -
  assume r: "\<forall>x \<in> set r. good_name x" "r \<noteq> []" and cfg: "rp_ConfigDir plan = cfg" "cfg \<noteq> []"
  then obtain x xs where x: "r = x # xs" by (cases r) auto
  then have "''config'' @ slashed r = ''config/'' @ join_slash r"
    using slashed_join by simp
  then show ?thesis
    using checkRoot_good [OF r cfg(2)] cfg(1) by (simp add: classifyEntry_def)
qed

lemma restore_loop_skip:
  "restore_loop F now plan es s = restore_loop F now plan (filter is_payload es) s"
  by (induction es arbitrary: s) (auto split: classifyAction.split zip_entry.split prod.split option.split)

lemma restore_loop_fill:
  assumes "filling cfg rs fs now (rs_disk s)" "free rs" "set (map fst gs) \<subseteq> set rs" "distinct (map fst gs)"
    "fst ` set fs \<inter> fst ` set gs = {}" "fst ` set fs \<subseteq> set rs" "rp_ConfigDir plan = cfg" "cfg \<noteq> []"
    "\<forall>(r, c) \<in> set gs. r \<noteq> [] \<and> (\<forall>x \<in> set r. good_name x)"
  shows "\<exists>d'. restore_loop (\<lambda>_. False) now plan (map (file_entry ''config'') gs) s =
      (s\<lparr>rs_disk := d', rs_written := rs_written s + length gs\<rparr>, None) \<and> filling cfg rs (rev gs @ fs) now d'"
  using assms
proof (induction gs arbitrary: s fs)
  case Nil
  then show ?case by (intro exI [of _ "rs_disk s"]) simp
next
  case (Cons g gs)
  obtain r c where g: "g = (r, c)" by (cases g)
  have r: "r \<in> set rs" "r \<notin> fst ` set fs" "r \<noteq> []" and good: "\<forall>x \<in> set r. good_name x"
    using Cons.prems g by auto
  have cls: "classifyEntry plan (''config'' @ slashed r) = ClassifyWrite (cfg @ r)"
    by (rule classify_config [OF good r(3) Cons.prems(7,8)])
  obtain d1 where d1: "restore_entry (\<lambda>_. False) now (rp_ConflictMode plan) (cfg @ r) c s = (s\<lparr>rs_disk := d1, rs_written := Suc (rs_written s)\<rparr>, None)"
    "filling cfg rs ((r, c) # fs) now d1"
    using filling_step [OF Cons.prems(1,2) r Cons.prems(6) refl] by blast
  let ?s = "s\<lparr>rs_disk := d1, rs_written := Suc (rs_written s)\<rparr>"
  have "\<exists>d'. restore_loop (\<lambda>_. False) now plan (map (file_entry ''config'') gs) ?s =
      (?s\<lparr>rs_disk := d', rs_written := rs_written ?s + length gs\<rparr>, None) \<and> filling cfg rs (rev gs @ ((r, c) # fs)) now d'"
    by (rule Cons.IH) (use Cons.prems d1(2) r g in auto)
  then obtain d' where "restore_loop (\<lambda>_. False) now plan (map (file_entry ''config'') gs) ?s =
      (?s\<lparr>rs_disk := d', rs_written := rs_written ?s + length gs\<rparr>, None)" "filling cfg rs (rev gs @ ((r, c) # fs)) now d'" by blast
  moreover have "is_payload (file_entry ''config'' g)"
    by (simp add: is_payload_def file_entry_def)
  ultimately show ?case
    using cls d1(1) g by (intro exI [of _ d']) (simp add: file_entry_def [of _ "(r, c)"])
qed

lemma walk_names:
  "e \<in> set (entries_of (fst (walk_node pre c))) \<Longrightarrow> has_prefix (ze_Name e) (pre @ ''/'')"
  "e \<in> set (entries_of (fst (walk_nodes pre cs))) \<Longrightarrow> has_prefix (ze_Name e) (pre @ ''/'')"
proof (induction pre c and pre cs arbitrary: e and e rule: walk_node_walk_nodes.induct)
  case (1 pre name cs)
  show ?case
  proof (cases "e = ZDir (pre @ ''/'' @ name @ ''/'')")
    case False
    with 1 have "has_prefix (ze_Name e) ((pre @ ''/'') @ name @ ''/'')" by (auto simp: Let_def split: if_splits)
    then show ?thesis by (rule append_prefixD)
  qed simp
next
  case (2 pre name t)
  then show ?case
  proof (cases t)
    case (Some a)
    with 2 show ?thesis by (cases a) (auto simp: Let_def split: if_splits)
  qed (simp split: if_splits)
next
  case (8 pre c cs)
  then show ?case
    using 8(2) [OF refl] by (cases "snd (walk_node pre c)") (auto simp: Let_def)
qed (auto simp: Let_def split: if_splits)


section \<open>Each project's tickets go back to its own repository\<close>

text \<open>
  Project ids are UUIDs: 36 characters without a slash, and no dash nine places from the end.
\<close>

definition uuid_like :: "string \<Rightarrow> bool" where
  "uuid_like s \<longleftrightarrow> length s = 36 \<and> s ! 27 \<noteq> CHR ''-'' \<and> CHR ''/'' \<notin> set s"

definition sane_projects :: "manifest_project list \<Rightarrow> bool" where
  "sane_projects ps \<longleftrightarrow>
     distinct (map (take 8 \<circ> mp_ID) ps) \<and> (\<forall>p \<in> set ps. uuid_like (mp_ID p)) \<and>
     (\<forall>p \<in> set ps. \<forall>q \<in> set ps.
        sanitizeArchiveName (mp_Name p) \<noteq> sanitizeArchiveName (mp_Name q) @ ''-'' @ take 8 (mp_ID q) \<and>
        sanitizeArchiveName (mp_Name p) \<noteq> sanitizeArchiveName (mp_Name q) @ ''-'' @ mp_ID q)"

lemma sane_distinct: "sane_projects ps \<Longrightarrow> distinct ps"
  by (auto simp: sane_projects_def distinct_map)

lemma sane_id: "sane_projects ps \<Longrightarrow> p \<in> set ps \<Longrightarrow> q \<in> set ps \<Longrightarrow> take 8 (mp_ID p) = take 8 (mp_ID q) \<Longrightarrow> p = q"
  by (auto simp: sane_projects_def distinct_map inj_on_def)

lemma tickets_prefix_inj [simp]: "tickets_prefix a = tickets_prefix b \<longleftrightarrow> a = b"
  by (simp add: tickets_prefix_def)

lemma suffix_not_uuid: "uuid_like i \<Longrightarrow> uuid_like j \<Longrightarrow> a @ ''-'' @ i \<noteq> b @ ''-'' @ take 8 j"
proof
  assume i: "uuid_like i" and j: "uuid_like j" and eq: "a @ ''-'' @ i = b @ ''-'' @ take 8 j"
  have len: "length (''-'' @ take 8 j) = 9" "length i = 36"
    using i j by (simp_all add: uuid_like_def)
  have "rev (a @ ''-'' @ i) ! 8 = rev (b @ ''-'' @ take 8 j) ! 8"
    by (simp only: eq)
  moreover have "rev (b @ ''-'' @ take 8 j) ! 8 = CHR ''-''"
    using len(1) by (simp add: nth_append)
  moreover have "rev (a @ ''-'' @ i) ! 8 = i ! 27"
    using len(2) by (simp add: nth_append rev_nth)
  ultimately show False using i by (simp add: uuid_like_def)
qed

lemma name_count_two:
  "distinct ps \<Longrightarrow> p \<in> set ps \<Longrightarrow> q \<in> set ps \<Longrightarrow> p \<noteq> q \<Longrightarrow> sanitizeArchiveName (mp_Name p) = sanitizeArchiveName (mp_Name q) \<Longrightarrow>
     1 < name_count ps (sanitizeArchiveName (mp_Name q))"
proof -
  assume a: "distinct ps" "p \<in> set ps" "q \<in> set ps" "p \<noteq> q" "sanitizeArchiveName (mp_Name p) = sanitizeArchiveName (mp_Name q)"
  let ?xs = "filter (\<lambda>r. sanitizeArchiveName (mp_Name r) = sanitizeArchiveName (mp_Name q)) ps"
  have "card {p, q} \<le> card (set ?xs)"
    using a by (intro card_mono) auto
  also have "\<dots> = length ?xs" using a(1) by (intro distinct_card) simp
  finally show ?thesis using a(4) by (simp add: name_count_def)
qed

lemma backup_dir_cases:
  assumes "sane_projects ps" "p \<in> set ps"
  obtains "backup_dir ps p = sanitizeArchiveName (mp_Name p)"
    "\<And>q. q \<in> set ps \<Longrightarrow> q \<noteq> p \<Longrightarrow> sanitizeArchiveName (mp_Name q) \<noteq> sanitizeArchiveName (mp_Name p)"
  | "backup_dir ps p = sanitizeArchiveName (mp_Name p) @ ''-'' @ take 8 (mp_ID p)"
    "1 < name_count ps (sanitizeArchiveName (mp_Name p))"
proof (cases "1 < name_count ps (sanitizeArchiveName (mp_Name p))")
  case True
  then show ?thesis using that(2) by (simp add: backup_dir_def Let_def)
next
  case False
  then have "sanitizeArchiveName (mp_Name q) \<noteq> sanitizeArchiveName (mp_Name p)" if "q \<in> set ps" "q \<noteq> p" for q
    using name_count_two [OF sane_distinct [OF assms(1)] that(1) assms(2) that(2)] by blast
  with False show ?thesis using that(1) by (simp add: backup_dir_def Let_def)
qed

text \<open>No other project would look for its tickets where \<open>p\<close>'s are.\<close>

lemma candidates_other:
  assumes sane: "sane_projects ps" and p: "p \<in> set ps" and q: "q \<in> set ps" "q \<noteq> p"
  shows "tickets_prefix (backup_dir ps p) \<notin> set (candidates q)"
proof -
  have uu: "uuid_like (mp_ID p)" "uuid_like (mp_ID q)"
    using sane p q by (auto simp: sane_projects_def)
  have names: "sanitizeArchiveName (mp_Name a) \<noteq> sanitizeArchiveName (mp_Name b) @ ''-'' @ take 8 (mp_ID b)"
    "sanitizeArchiveName (mp_Name a) \<noteq> sanitizeArchiveName (mp_Name b) @ ''-'' @ mp_ID b"
    if "a \<in> set ps" "b \<in> set ps" for a b
    using sane that by (auto simp: sane_projects_def)
  have ids: "take 8 (mp_ID q) \<noteq> take 8 (mp_ID p)"
    using sane_id [OF sane q(1) p] q(2) by blast
  have len: "length (take 8 (mp_ID q)) = length (take 8 (mp_ID p))"
    using uu by (simp add: uuid_like_def)
  from sane p show ?thesis
  proof (cases rule: backup_dir_cases)
    case 1
    then show ?thesis using names [OF p q(1)] 1(2) [OF q] by (auto simp: candidates_def Let_def)
  next
    case 2
    have "sanitizeArchiveName (mp_Name p) @ ''-'' @ take 8 (mp_ID p) \<noteq> sanitizeArchiveName (mp_Name q) @ ''-'' @ take 8 (mp_ID q)"
      using ids len by (metis append.assoc append_eq_append_conv)
    with 2 show ?thesis
      using names [OF q(1) p] suffix_not_uuid [OF uu(2) uu(1), of "sanitizeArchiveName (mp_Name q)" "sanitizeArchiveName (mp_Name p)"]
      by (auto simp: candidates_def Let_def)
  qed
qed

lemma matched_prefix_in: "matched_prefix present p \<in> set (candidates p)"
  by (auto simp: matched_prefix_def candidates_def Let_def dest!: find_SomeD split: option.splits)

lemma own_prefix_matched:
  assumes sane: "sane_projects ps" and p: "p \<in> set ps"
    and present: "present \<subseteq> (\<lambda>q. tickets_prefix (backup_dir ps q)) ` set ps" "tickets_prefix (backup_dir ps p) \<in> present"
  shows "matched_prefix present p = tickets_prefix (backup_dir ps p)"
  using sane p
proof (cases rule: backup_dir_cases)
  case 1
  then show ?thesis using present(2) by (simp add: matched_prefix_def candidates_def Let_def)
next
  case 2
  have "tickets_prefix (sanitizeArchiveName (mp_Name p)) \<notin> present"
  proof
    assume "tickets_prefix (sanitizeArchiveName (mp_Name p)) \<in> present"
    then obtain q where q: "q \<in> set ps" "backup_dir ps q = sanitizeArchiveName (mp_Name p)"
      using present(1) by auto
    have "q = p"
    proof (rule ccontr)
      assume "q \<noteq> p"
      with candidates_other [OF sane q(1) p] q(2) show False by (auto simp: candidates_def Let_def)
    qed
    with q(2) 2(1) show False by simp
  qed
  with 2(1) present(2) show ?thesis by (simp add: matched_prefix_def candidates_def Let_def)
qed

lemma plan_projects_keep:
  "k \<in> fst ` set (rp_ProjectRoots plan) \<Longrightarrow> k \<in> fst ` set (rp_ProjectRoots (fold (\<lambda>p plan. plan_project dirExists present plan p) ps plan))"
  by (induction ps arbitrary: plan) (auto simp: plan_project_def Let_def dom_update)

lemma plan_projects_dom:
  "p \<in> set ps \<Longrightarrow> dirExists (mp_RepoPath p) \<Longrightarrow>
     matched_prefix present p \<in> fst ` set (rp_ProjectRoots (fold (\<lambda>p plan. plan_project dirExists present plan p) ps plan))"
proof (induction ps arbitrary: plan)
  case (Cons q qs)
  show ?case
  proof (cases "p = q")
    case True
    with Cons.prems have "matched_prefix present p \<in> fst ` set (rp_ProjectRoots (plan_project dirExists present plan q))"
      by (simp add: plan_project_def Let_def dom_update)
    then show ?thesis using plan_projects_keep by simp
  qed (use Cons in simp)
qed simp

lemma index_of_append: "CHR ''/'' \<notin> set a \<Longrightarrow> index_of (a @ ''/'' @ b) ''/'' = Some (length a)"
  by (induction a) auto

lemma archive_prefix_of_ticket: "CHR ''/'' \<notin> set dir \<Longrightarrow> has_prefix name (tickets_prefix dir @ ''/'') \<Longrightarrow> archive_prefix_of name = Some (tickets_prefix dir)"
proof -
  assume dir: "CHR ''/'' \<notin> set dir" and "has_prefix name (tickets_prefix dir @ ''/'')"
  then obtain z where name: "name = ''repos/'' @ dir @ ''/'' @ (''tickets/'' @ z)"
    by (auto simp: prefix_def tickets_prefix_def)
  have "index_of (dir @ ''/'' @ (''tickets/'' @ z)) ''/'' = Some (length dir)"
    by (rule index_of_append [OF dir])
  then show ?thesis by (simp add: archive_prefix_of_def Let_def name)
qed

lemma sanitize_noslash: "CHR ''/'' \<notin> set (sanitizeArchiveName n)"
  by (auto simp: sanitizeArchiveName_def)

lemma backup_dir_noslash: "sane_projects ps \<Longrightarrow> p \<in> set ps \<Longrightarrow> CHR ''/'' \<notin> set (backup_dir ps p)"
  using sanitize_noslash [of "mp_Name p"]
  by (auto simp: backup_dir_def Let_def sane_projects_def uuid_like_def dest: in_set_takeD)

lemma candidate_noslash: "uuid_like (mp_ID p) \<Longrightarrow> c \<in> set (candidates p) \<Longrightarrow> \<exists>dir. c = tickets_prefix dir \<and> CHR ''/'' \<notin> set dir"
  using sanitize_noslash [of "mp_Name p"]
  by (auto simp: candidates_def Let_def uuid_like_def dest: in_set_takeD)

lemma tickets_prefix_unique:
  "CHR ''/'' \<notin> set a \<Longrightarrow> CHR ''/'' \<notin> set b \<Longrightarrow> has_prefix name (tickets_prefix a @ ''/'') \<Longrightarrow> has_prefix name (tickets_prefix b @ ''/'') \<Longrightarrow> a = b"
  using archive_prefix_of_ticket [of a name] archive_prefix_of_ticket [of b name] by simp

lemma restore_routes:
  assumes sane: "sane_projects ps" and p: "p \<in> set ps" and "dirExists (mp_RepoPath p)"
    and present: "present \<subseteq> (\<lambda>q. tickets_prefix (backup_dir ps q)) ` set ps" "tickets_prefix (backup_dir ps p) \<in> present"
    and roots: "rp_ProjectRoots plan = rp_ProjectRoots (fold (\<lambda>p plan. plan_project dirExists present plan p) qs plan0)"
    and qs: "set qs = set ps" "rp_ProjectRoots plan0 = []"
    and r: "\<forall>x \<in> set r. good_name x" "r \<noteq> []" and repo: "mp_RepoPath p \<noteq> []"
  shows "classifyEntry plan (tickets_prefix (backup_dir ps p) @ slashed r) = ClassifyWrite (mp_RepoPath p @ ''tickets'' # r)"
proof -
  let ?A = "tickets_prefix (backup_dir ps p)"
  let ?name = "?A @ slashed r"
  obtain x xs where x: "r = x # xs" using r(2) by (cases r) auto
  then have name: "?name = (?A @ ''/'') @ join_slash r"
    using slashed_join by simp
  have own: "matched_prefix present p = ?A"
    by (rule own_prefix_matched [OF sane p present])
  have only: "pre = ?A \<and> t = mp_RepoPath p @ [''tickets'']"
    if kt: "(pre, t) \<in> set (rp_ProjectRoots plan)" and "has_prefix ?name (pre @ ''/'')" for pre t
  proof -
    from kt obtain q where q: "q \<in> set ps" "pre = matched_prefix present q" "t = mp_RepoPath q @ [''tickets'']"
      using qs by (auto simp: roots dest!: plan_projects_root)
    obtain dir where dir: "pre = tickets_prefix dir" "CHR ''/'' \<notin> set dir"
      using candidate_noslash [of q pre] matched_prefix_in [of present q] q sane by (auto simp: sane_projects_def)
    have "has_prefix ?name (?A @ ''/'')" by (simp add: name)
    then have "dir = backup_dir ps p"
      using tickets_prefix_unique [OF dir(2) backup_dir_noslash [OF sane p]] that(2) dir(1) by blast
    moreover have "q = p"
    proof (rule ccontr)
      assume "q \<noteq> p"
      moreover have "?A \<in> set (candidates q)"
        using matched_prefix_in [of present q] q(2) dir(1) \<open>dir = backup_dir ps p\<close> by simp
      ultimately show False using candidates_other [OF sane p q(1)] by blast
    qed
    ultimately show ?thesis using q dir by simp
  qed
  have "?A \<in> fst ` set (rp_ProjectRoots plan)"
    using plan_projects_dom [of p qs dirExists present plan0] own p qs(1) assms(3) by (simp add: roots)
  then obtain t where "(?A, t) \<in> set (rp_ProjectRoots plan)" by auto
  moreover have "has_prefix ?name (?A @ ''/'')" by (simp add: name)
  ultimately obtain e where e: "find (\<lambda>(pre, _). has_prefix ?name (pre @ ''/'')) (rp_ProjectRoots plan) = Some e"
    by (cases "find (\<lambda>(pre, _). has_prefix ?name (pre @ ''/'')) (rp_ProjectRoots plan)") (auto simp: find_None_iff)
  obtain pre t where pt: "e = (pre, t)" by (cases e)
  have "pre = ?A" "t = mp_RepoPath p @ [''tickets'']"
    using only [of pre t] find_SomeD [OF e] pt by auto
  with e pt have found: "find (\<lambda>(pre, _). has_prefix ?name (pre @ ''/'')) (rp_ProjectRoots plan) = Some (?A, mp_RepoPath p @ [''tickets''])"
    by simp
  have "has_prefix ?name ''repos/''" "\<not> has_prefix ?name ''config/''"
    by (simp_all add: tickets_prefix_def)
  moreover have "drop (length ?A + 1) ?name = join_slash r"
    by (simp add: name)
  moreover have "checkRoot (mp_RepoPath p @ [''tickets'']) (join_slash r) = ClassifyWrite ((mp_RepoPath p @ [''tickets'']) @ r)"
    by (rule checkRoot_good [OF r])  simp
  ultimately show ?thesis using found by (simp add: classifyEntry_def)
qed

lemma writeTree_names: "e \<in> set (entries_of (fst (writeTreeToZip t pre))) \<Longrightarrow> has_prefix (ze_Name e) (pre @ ''/'')"
  by (cases t) (auto simp: writeTreeToZip_def dest: walk_names(2))

lemma backup_entries:
  assumes "e \<in> set (fst (executeBackupPlan cfgTree tree items manifest))"
  shows "e = ZFile ''manifest.json'' manifest \<or> has_prefix (ze_Name e) ''config/'' \<or>
    (\<exists>it \<in> set items. has_prefix (ze_Name e) (tickets_prefix (ai_ArchiveDir it) @ ''/''))"
proof -
  from assms consider "e = ZFile ''manifest.json'' manifest"
    | t where "cfgTree = Some t" "e \<in> set (entries_of (fst (writeTreeToZip t ''config'')))"
    | it where "it \<in> set items" "e \<in> set (entries_of (fst (writeTreeToZip (tree it) (tickets_prefix (ai_ArchiveDir it)))))"
    by (cases cfgTree) (auto simp: executeBackupPlan_def Let_def simp del: split_paired_All)
  then show ?thesis
    by cases (auto dest: writeTree_names)
qed

text \<open>
  Two projects may share a name: a backup tells them apart by their ids, and a restore on a machine where the
  repositories stand at their recorded paths sends every ticket back to the repository it came from.  It needs that the
  ids are UUIDs with different first eight characters and that no project is named like another one with its id behind.
\<close>
theorem restore_routes_back:
  assumes "sane_projects ps" and "p \<in> set ps" and "dirExists (mp_RepoPath p)" and "mp_RepoPath p \<noteq> []"
    and "es = fst (executeBackupPlan cfgTree tree (backup_items hasTickets ps) manifest)"
    and "dec manifest = Some (map ai_Project (backup_items hasTickets ps))"
    and "ZFile (tickets_prefix (backup_dir ps p) @ slashed r) data \<in> set es" and "\<forall>x \<in> set r. good_name x" and "r \<noteq> []"
    and "planRestore dec dirExists cfg flag es = Inr plan"
  shows "classifyEntry plan (tickets_prefix (backup_dir ps p) @ slashed r) = ClassifyWrite (mp_RepoPath p @ ''tickets'' # r)"
proof -
  let ?items = "backup_items hasTickets ps"
  let ?A = "\<lambda>q. tickets_prefix (backup_dir ps q)"
  let ?present = "set (List.map_filter (archive_prefix_of \<circ> ze_Name) es)"
  have items: "\<exists>q \<in> set ps. ai_ArchiveDir it = backup_dir ps q" if "it \<in> set ?items" for it
    using that by (auto simp: backup_items_def)
  have entry: "archive_prefix_of (ze_Name e) = None \<or> (\<exists>q \<in> set ps. archive_prefix_of (ze_Name e) = Some (?A q))" if e: "e \<in> set es" for e
  proof -
    consider "e = ZFile ''manifest.json'' manifest" | "has_prefix (ze_Name e) ''config/''"
      | it where "it \<in> set ?items" "has_prefix (ze_Name e) (tickets_prefix (ai_ArchiveDir it) @ ''/'')"
      using backup_entries e unfolding assms(5) by blast
    then show ?thesis
    proof cases
      case 3
      then obtain q where "q \<in> set ps" "ai_ArchiveDir it = backup_dir ps q" using items by blast
      then show ?thesis
        using archive_prefix_of_ticket [OF backup_dir_noslash [OF assms(1)]] 3(2) by auto
    qed (auto simp: archive_prefix_of_def prefix_def)
  qed
  have "?present \<subseteq> ?A ` set ps"
    using entry by (fastforce simp: List.map_filter_def)
  moreover have "?A p \<in> ?present"
  proof -
    obtain x xs where "r = x # xs" using assms(9) by (cases r) auto
    then have "has_prefix (?A p @ slashed r) (?A p @ ''/'')" by simp
    then have "archive_prefix_of (?A p @ slashed r) = Some (?A p)"
      by (rule archive_prefix_of_ticket [OF backup_dir_noslash [OF assms(1,2)]])
    with assms(7) show ?thesis by (force simp: List.map_filter_def)
  qed
  moreover obtain mode m qs where "ZFile ''manifest.json'' m \<in> set es" "dec m = Some qs"
    and plan: "plan = restore_plan_of dirExists cfg mode es qs"
    using assms(10) by (rule planRestore_cases)
  moreover have "m = manifest"
    using backup_entries [of "ZFile ''manifest.json'' m"] calculation(3)
    unfolding assms(5) by (auto simp: prefix_def tickets_prefix_def)
  ultimately have present: "?present \<subseteq> ?A ` set ps" "?A p \<in> ?present" and qs: "set qs = set ps"
    using assms(6) by (auto simp: backup_items_def image_image)
  show ?thesis
  proof (rule restore_routes [where dirExists = dirExists and present = ?present and qs = qs and ps = ps])
    show "rp_ProjectRoots plan = rp_ProjectRoots (fold (\<lambda>p plan. plan_project dirExists ?present plan p) qs
        \<lparr>rp_ConfigDir = cfg, rp_ConflictMode = mode, rp_ProjectRoots = [], rp_MissingRepos = [], rp_SkippedRepos = []\<rparr>)"
      by (simp add: plan restore_plan_of_def Let_def)
  qed (use assms present qs in simp_all)
qed

section \<open>What a backup leaves out\<close>

text \<open>
  A configuration directory that is itself a symbolic link is not followed, although the plan reports it as present:
  the archive holds the manifest alone, and the command succeeds.  A link to a directory further down becomes an empty
  directory in the archive.
\<close>
theorem backup_of_linked_config:
  "executeBackupPlan (Some (FSym (Some (FDir cs)))) tree [] manifest = ([ZFile ''manifest.json'' manifest], True)"
  by (simp add: executeBackupPlan_def writeTreeToZip_def)

lemma backup_of_linked_dir:
  "\<not> tmp_like name \<Longrightarrow>
     entries_of (fst (writeTreeToZip (FDir [(name, FSym (Some (FDir cs)))]) ''config'')) = [ZDir (''config/'' @ name @ ''/'')]"
  by (simp add: writeTreeToZip_def Let_def)

text \<open>
  The manifest is written whatever went wrong before it, so its presence does not show that an archive is complete.
\<close>
theorem backup_manifest_always:
  "last (fst (executeBackupPlan cfg tree items manifest)) = ZFile ''manifest.json'' manifest \<and>
   (\<exists>t. snd (executeBackupPlan (Some t) tree items manifest) = False)"
proof
  show "last (fst (executeBackupPlan cfg tree items manifest)) = ZFile ''manifest.json'' manifest"
    by (simp add: executeBackupPlan_def Let_def)
  have "tmp_like ''f'' = False" by code_simp
  then have "snd (executeBackupPlan (Some (FDir [(''f'', FUnreadable)])) tree items manifest) = False"
    by (simp add: executeBackupPlan_def Let_def writeTreeToZip_def)
  then show "\<exists>t. snd (executeBackupPlan (Some t) tree items manifest) = False" by blast
qed

section \<open>Witnesses\<close>

definition ex_archive :: "zip_entry list" where
  "ex_archive = [ZFile ''config/a'' ''new'', ZFile ''manifest.json'' []]"


theorem zip_slip_stops_restore_witness:
  "fst (restore_cmd (\<lambda>_. False) 5 (\<lambda>_. Some []) (\<lambda>_. True) [''c''] ''overwrite'' False True
      [ZFile ''config/a'' ''x'', ZFile ''config/../../etc/passwd'' ''y'', ZFile ''manifest.json'' []] [] []) = []"
  using zip_slip_stops_restore [of "''../../etc/passwd''" "''y''" "[ZFile ''config/a'' ''x'', ZFile ''config/../../etc/passwd'' ''y'', ZFile ''manifest.json'' []]"
      "[''c'']" "\<lambda>_. False" 5 "\<lambda>_. Some []" "\<lambda>_. True" "''overwrite''" False True "[]" "[]"]
  by (simp add: clean_join_def clean_step_def)


definition ex_home :: disk where "ex_home = [([''h''], DirN)]"

definition ex_tree :: "(string \<times> fnode) list" where
  "ex_tree = [(''config.json'', FReg ''{}''), (''tickets'', FDir [(''p'', FDir [(''t.md'', FReg ''x'')])])]"


definition ex_uuid :: "string \<Rightarrow> string" where "ex_uuid s = s @ ''-0000-0000-0000-000000000000''"

definition ex_twins :: "manifest_project list" where
  "ex_twins = [\<lparr>mp_ID = ex_uuid ''aaaaaaaa'', mp_Name = ''api'', mp_RepoPath = [''x'']\<rparr>,
               \<lparr>mp_ID = ex_uuid ''bbbbbbbb'', mp_Name = ''api'', mp_RepoPath = [''y'']\<rparr>]"

definition ex_twin_archive :: "zip_entry list" where
  "ex_twin_archive = fst (executeBackupPlan None (\<lambda>_. FDir [(''t.md'', FReg ''z'')]) (backup_items (\<lambda>_. True) ex_twins) [])"

lemma planRestore_some: "\<exists>plan. planRestore (\<lambda>_. Some ps) dirExists cfg [] ex_twin_archive = Inr plan"
proof -
  have "find (\<lambda>e. ze_Name e = ''manifest.json'') ex_twin_archive = Some (ZFile ''manifest.json'' [])" by code_simp
  then show ?thesis by (simp add: planRestore_def restore_mode_def isValidConflictMode_def validConflictModes_def)
qed

theorem restore_routes_back_witness:
  "case planRestore (\<lambda>_. Some (map ai_Project (backup_items (\<lambda>_. True) ex_twins))) (\<lambda>_. True) [''c''] [] ex_twin_archive of
     Inl _ \<Rightarrow> False
   | Inr plan \<Rightarrow> classifyEntry plan ''repos/api-bbbbbbbb/tickets/t.md'' = ClassifyWrite [''y'', ''tickets'', ''t.md'']"
proof -
  let ?p = "\<lparr>mp_ID = ex_uuid ''bbbbbbbb'', mp_Name = ''api'', mp_RepoPath = [''y'']\<rparr>"
  have dir: "backup_dir ex_twins ?p = ''api-bbbbbbbb''" by code_simp
  have sane: "sane_projects ex_twins" by code_simp
  have mem: "?p \<in> set ex_twins" by (simp add: ex_twins_def)
  have entry: "ZFile ''repos/api-bbbbbbbb/tickets/t.md'' ''z'' \<in> set ex_twin_archive" by code_simp
  obtain plan where plan: "planRestore (\<lambda>_. Some (map ai_Project (backup_items (\<lambda>_. True) ex_twins))) (\<lambda>_. True) [''c''] [] ex_twin_archive = Inr plan"
    using planRestore_some by blast
  have "classifyEntry plan (tickets_prefix (backup_dir ex_twins ?p) @ slashed [''t.md'']) = ClassifyWrite (mp_RepoPath ?p @ ''tickets'' # [''t.md''])"
    by (rule restore_routes_back [OF sane mem _ _ ex_twin_archive_def _ _ _ _ plan, where data = "''z''"])
      (use entry in \<open>simp_all add: dir tickets_prefix_def good_name_def\<close>)
  then show ?thesis by (simp add: plan dir tickets_prefix_def)
qed

end
