(* ===== verification/Config.thy ===== *)
theory Config
  imports Board GoStrings Disk
begin

text \<open>
  \<^verbatim>\<open>internal/config\<close>: the configuration with its defaults, how a file on disk is completed from them, and the
  validation every start of the program runs.  The decoding of JSON into a configuration that already holds the
  defaults is the parameter \<open>unmarshal\<close>, the search for an executable \<open>lookPath\<close>, the template parser
  \<open>templ\<close> (an error message, or none), and the Unicode case table behind \<^verbatim>\<open>strings.ToLower\<close> is \<open>lower\<close>.
  Maps are association lists, so a statement for every list is one for every iteration order.
\<close>

section \<open>The configuration\<close>

record AgentConfig =
  ac_Label :: string
  ac_Command :: string
  ac_Args :: "string list"
  ac_Enabled :: "bool option"
  ac_Env :: "(string, string) gomap option"
  ac_StatusFile :: string
  ac_InitPrompt :: string
  ac_InitPromptFile :: string

record BoardSettings =
  bs_DefaultAgent :: string
  bs_WorktreeBase :: string
  bs_AutoSpawnAgent :: bool
  bs_AutoCreateBranch :: bool
  bs_BranchPrefix :: string
  bs_BranchNaming :: string
  bs_BranchTemplate :: string
  bs_SlugMaxLength :: int
  bs_InitPrompt :: string
  bs_InitPromptFile :: string

record ThemeColors =
  tc_Base :: string
  tc_Surface :: string
  tc_Overlay :: string
  tc_Text :: string
  tc_Subtext :: string
  tc_Muted :: string
  tc_Primary :: string
  tc_Secondary :: string
  tc_Success :: string
  tc_Warning :: string
  tc_Error :: string
  tc_Info :: string

record UIConfig =
  ui_Theme :: string
  ui_CustomColors :: "ThemeColors option"
  ui_ShowAgentStatus :: bool
  ui_RefreshInterval :: int
  ui_ColumnWidth :: int
  ui_TicketHeight :: int
  ui_SidebarVisible :: bool
  ui_ScrollbackLines :: int

record OpencodeSettings =
  oc_ServerEnabled :: bool
  oc_ServerPort :: int
  oc_PollInterval :: int
  oc_StartupTimeout :: int

record CleanupSettings =
  cl_DeleteWorktree :: bool
  cl_DeleteBranch :: bool
  cl_ForceWorktreeRemoval :: bool

record BehaviorSettings =
  be_ConfirmQuitWithAgents :: bool
  be_CheckForUpdatesOnLaunch :: bool
  be_ForwardAgentNotifications :: bool

record Config =
  cf_Defaults :: BoardSettings
  cf_Agents :: "(string, AgentConfig) gomap"
  cf_UI :: UIConfig
  cf_Cleanup :: CleanupSettings
  cf_Behavior :: BehaviorSettings
  cf_Autostart :: bool
  cf_Opencode :: OpencodeSettings
  cf_Keys :: "(string, string) gomap"

definition RoleForType :: "TicketType \<Rightarrow> string" where
  "RoleForType t =
     (if t = TypeResearch then ''claude-research''
      else if t = TypeSpec then ''claude-spec''
      else if t = TypeImplement then ''claude''
      else if t = TypeReview then ''claude-review''
      else [])"

definition AgentPriority :: "string list" where
  "AgentPriority = [''opencode'', ''claude'', ''claude-custom'', ''gemini'', ''codex'', ''aider'']"

definition DetectAvailableAgent :: "(string \<Rightarrow> bool) \<Rightarrow> (string, AgentConfig) gomap \<Rightarrow> string" where
  "DetectAvailableAgent lookPath agents =
     (case find (\<lambda>n. case mget agents n of Some a \<Rightarrow> lookPath (ac_Command a) | None \<Rightarrow> False) AgentPriority of
        Some n \<Rightarrow> n
      | None \<Rightarrow> hd AgentPriority)"

definition IsEnabled :: "(string \<Rightarrow> bool) \<Rightarrow> AgentConfig \<Rightarrow> bool" where
  "IsEnabled lookPath a = (case ac_Enabled a of Some b \<Rightarrow> b | None \<Rightarrow> lookPath (ac_Command a))"

text \<open>The prompt texts, embedded files and long literals of the program.\<close>

record prompt_texts =
  px_Global :: string
  px_Agent :: string
  px_Lean :: string
  px_Aider :: string
  px_Research :: string
  px_Spec :: string
  px_Review :: string

definition builtin_agent :: "string \<Rightarrow> string \<Rightarrow> string list \<Rightarrow> (string, string) gomap \<Rightarrow> string \<Rightarrow> string \<Rightarrow> AgentConfig" where
  "builtin_agent label cmd args env status prompt =
     \<lparr>ac_Label = label, ac_Command = cmd, ac_Args = args, ac_Enabled = None, ac_Env = Some env, ac_StatusFile = status,
      ac_InitPrompt = prompt, ac_InitPromptFile = []\<rparr>"

definition defaultAgents :: "prompt_texts \<Rightarrow> (string, AgentConfig) gomap" where
  "defaultAgents px =
     (let skip = [''--dangerously-skip-permissions'']; st = ''.claude/status.json''
      in [(''claude'', builtin_agent ''Claude (Default)'' ''claude'' skip [] st (px_Agent px)),
          (''claude-custom'',
             builtin_agent ''Claude (Custom)'' ''claude'' skip [(''CLAUDE_CONFIG_DIR'', ''~/.claude-personal'')] st (px_Agent px)),
          (''claude-lean'',
             builtin_agent ''Claude (Lean)'' ''claude'' (skip @ [''--strict-mcp-config'', ''--exclude-dynamic-system-prompt-sections''])
               [(''CLAUDE_CONFIG_DIR'', ''~/.claude-lean''), (''CLAUDE_CODE_DISABLE_AUTO_MEMORY'', ''1'')] st (px_Lean px)),
          (''claude-research'', builtin_agent ''Claude (Research)'' ''claude'' skip [] st (px_Research px @ px_Agent px)),
          (''claude-spec'', builtin_agent ''Claude (Spec)'' ''claude'' skip [] st (px_Spec px @ px_Agent px)),
          (''claude-review'', builtin_agent ''Claude (Review)'' ''claude'' skip [] st (px_Review px @ px_Agent px)),
          (''opencode'', builtin_agent ''OpenCode'' ''opencode'' [] [] ''.opencode/status.json'' (px_Agent px)),
          (''aider'', builtin_agent ''Aider'' ''aider'' [''--yes''] [] [] (px_Aider px)),
          (''gemini'', builtin_agent ''Gemini'' ''gemini'' [''--yolo''] [] [] (px_Agent px)),
          (''codex'', builtin_agent ''Codex'' ''codex'' [''--full-auto''] [] [] (px_Agent px))])"

definition DefaultConfig :: "(string \<Rightarrow> bool) \<Rightarrow> prompt_texts \<Rightarrow> Config" where
  "DefaultConfig lookPath px =
     \<lparr>cf_Defaults =
        \<lparr>bs_DefaultAgent = DetectAvailableAgent lookPath (defaultAgents px), bs_WorktreeBase = [], bs_AutoSpawnAgent = True,
         bs_AutoCreateBranch = True, bs_BranchPrefix = ''task/'', bs_BranchNaming = ''template'',
         bs_BranchTemplate = ''{prefix}{slug}'', bs_SlugMaxLength = 40, bs_InitPrompt = px_Global px, bs_InitPromptFile = []\<rparr>,
      cf_Agents = defaultAgents px,
      cf_UI =
        \<lparr>ui_Theme = ''catppuccin-mocha'', ui_CustomColors = None, ui_ShowAgentStatus = True, ui_RefreshInterval = 5,
         ui_ColumnWidth = 40, ui_TicketHeight = 4, ui_SidebarVisible = True, ui_ScrollbackLines = 10000\<rparr>,
      cf_Cleanup = \<lparr>cl_DeleteWorktree = True, cl_DeleteBranch = False, cl_ForceWorktreeRemoval = False\<rparr>,
      cf_Behavior =
        \<lparr>be_ConfirmQuitWithAgents = True, be_CheckForUpdatesOnLaunch = True, be_ForwardAgentNotifications = True\<rparr>,
      cf_Autostart = True,
      cf_Opencode = \<lparr>oc_ServerEnabled = True, oc_ServerPort = 4096, oc_PollInterval = 1, oc_StartupTimeout = 10\<rparr>,
      cf_Keys = []\<rparr>"

section \<open>Completing a file from the defaults\<close>

definition merge_agent :: "AgentConfig \<Rightarrow> AgentConfig \<Rightarrow> AgentConfig" where
  "merge_agent dflt u =
     u\<lparr>ac_Label := (if ac_Label u = [] then ac_Label dflt else ac_Label u),
       ac_StatusFile := (if ac_StatusFile u = [] then ac_StatusFile dflt else ac_StatusFile u),
       ac_Env := (if ac_Env u = None then ac_Env dflt else ac_Env u),
       ac_InitPrompt := (if ac_InitPrompt u = [] then ac_InitPrompt dflt else ac_InitPrompt u)\<rparr>"

definition merge_one :: "string \<times> AgentConfig \<Rightarrow> (string, AgentConfig) gomap \<Rightarrow> (string, AgentConfig) gomap" where
  "merge_one da agents =
     (case mget agents (fst da) of
        Some u \<Rightarrow> mput (fst da) (merge_agent (snd da) u) agents
      | None \<Rightarrow> mput (fst da) (snd da) agents)"

definition mergeAgentDefaults :: "prompt_texts \<Rightarrow> Config \<Rightarrow> Config" where
  "mergeAgentDefaults px c = c\<lparr>cf_Agents := fold merge_one (defaultAgents px) (cf_Agents c)\<rparr>"

datatype load_error = LoadRead | LoadJSON string

text \<open>\<open>file\<close> is what reading the file gives: nothing when it does not exist, an error, or its text.\<close>

datatype file_read = FileMissing | FileError | FileText string

definition Load :: "(string \<Rightarrow> bool) \<Rightarrow> prompt_texts \<Rightarrow> (string \<Rightarrow> Config \<Rightarrow> string + Config) \<Rightarrow> file_read \<Rightarrow> load_error + Config" where
  "Load lookPath px unmarshal file =
     (case file of
        FileMissing \<Rightarrow> Inr (DefaultConfig lookPath px)
      | FileError \<Rightarrow> Inl LoadRead
      | FileText data \<Rightarrow>
          (case unmarshal data (DefaultConfig lookPath px) of
             Inl e \<Rightarrow> Inl (LoadJSON e)
           | Inr c \<Rightarrow> Inr (mergeAgentDefaults px c)))"

definition reloadConfig ::
    "(string \<Rightarrow> bool) \<Rightarrow> prompt_texts \<Rightarrow> (string \<Rightarrow> Config \<Rightarrow> string + Config) \<Rightarrow> file_read \<Rightarrow> Config \<Rightarrow> Config \<times> load_error option" where
  "reloadConfig lookPath px unmarshal file c =
     (case Load lookPath px unmarshal file of Inl e \<Rightarrow> (c, Some e) | Inr fresh \<Rightarrow> (fresh, None))"

definition ConfigDir :: "string \<Rightarrow> string \<Rightarrow> string option \<Rightarrow> (string \<Rightarrow> string \<Rightarrow> string) \<Rightarrow> string option" where
  "ConfigDir override xdg home join =
     (if override \<noteq> [] then Some override
      else if xdg \<noteq> [] then Some (join xdg ''openkanban'')
      else map_option (\<lambda>h. join (join h ''.config'') ''openkanban'') home)"

text \<open>\<open>data\<close> is the indented JSON of the configuration; the file is written in place.\<close>

definition saveConfig :: "faults \<Rightarrow> time \<Rightarrow> path \<Rightarrow> string \<Rightarrow> disk \<Rightarrow> disk \<times> io_error option" where
  "saveConfig F now p data d =
     (case os_MkdirAll F (butlast p) d of
        (d1, Some e) \<Rightarrow> (d1, Some e)
      | (d1, None) \<Rightarrow> os_WriteFile F now p data d1)"

definition underAny :: "string \<Rightarrow> string list \<Rightarrow> bool" where
  "underAny clean dirs \<longleftrightarrow> (\<exists>d \<in> set dirs. d \<noteq> [] \<and> (clean = d \<or> has_prefix clean (d @ ''/'')))"

section \<open>Prompts\<close>

text \<open>What the reading of a prompt file needs from the machine: home, \<^verbatim>\<open>ConfigDir\<close>, the path functions and the files.\<close>

record prompt_env =
  pe_Home :: "string option"
  pe_ConfigDir :: "string option"
  pe_Join :: "string \<Rightarrow> string \<Rightarrow> string"
  pe_IsAbs :: "string \<Rightarrow> bool"
  pe_Read :: "string \<Rightarrow> file_read"

definition prompt_path :: "prompt_env \<Rightarrow> string \<Rightarrow> string" where
  "prompt_path E p =
     (let r = (if has_prefix p ''~/'' then (case pe_Home E of Some h \<Rightarrow> pe_Join E h (drop 2 p) | None \<Rightarrow> p) else p)
      in if pe_IsAbs E r then r else case pe_ConfigDir E of Some d \<Rightarrow> pe_Join E d r | None \<Rightarrow> r)"

definition readPromptFile :: "prompt_env \<Rightarrow> string \<Rightarrow> string option" where
  "readPromptFile E path =
     (let p = TrimSpace path
      in if p = [] then None
         else case pe_Read E (prompt_path E p) of
                FileText data \<Rightarrow> if TrimSpace data = [] then None else Some data
              | _ \<Rightarrow> None)"

definition default_prompt :: "prompt_env \<Rightarrow> prompt_texts \<Rightarrow> Config \<Rightarrow> string" where
  "default_prompt E px c =
     (case readPromptFile E (bs_InitPromptFile (cf_Defaults c)) of
        Some s \<Rightarrow> s
      | None \<Rightarrow> if bs_InitPrompt (cf_Defaults c) \<noteq> [] then bs_InitPrompt (cf_Defaults c) else px_Global px)"

definition GetEffectiveInitPrompt :: "prompt_env \<Rightarrow> prompt_texts \<Rightarrow> Config \<Rightarrow> string \<Rightarrow> string" where
  "GetEffectiveInitPrompt E px c agentType =
     (case mget (cf_Agents c) agentType of
        None \<Rightarrow> default_prompt E px c
      | Some a \<Rightarrow>
          (case readPromptFile E (ac_InitPromptFile a) of
             Some s \<Rightarrow> s
           | None \<Rightarrow> if ac_InitPrompt a \<noteq> [] then ac_InitPrompt a else default_prompt E px c))"

section \<open>Themes\<close>

definition ThemeNames :: "string list" where
  "ThemeNames =
     [''catppuccin-mocha'', ''catppuccin-macchiato'', ''catppuccin-frappe'', ''catppuccin-latte'', ''tokyo-night'',
      ''tokyo-night-storm'', ''tokyo-night-light'', ''gruvbox-dark'', ''gruvbox-light'', ''nord'', ''dracula'', ''one-dark'',
      ''solarized-dark'', ''solarized-light'', ''rose-pine'', ''rose-pine-moon'', ''rose-pine-dawn'', ''kanagawa'',
      ''everforest-dark'', ''everforest-light'']"

definition override_color :: "string \<Rightarrow> string \<Rightarrow> string" where
  "override_color custom builtin = (if custom \<noteq> [] then custom else builtin)"

definition override_colors :: "ThemeColors \<Rightarrow> ThemeColors \<Rightarrow> ThemeColors" where
  "override_colors u t =
     \<lparr>tc_Base = override_color (tc_Base u) (tc_Base t), tc_Surface = override_color (tc_Surface u) (tc_Surface t),
      tc_Overlay = override_color (tc_Overlay u) (tc_Overlay t), tc_Text = override_color (tc_Text u) (tc_Text t),
      tc_Subtext = override_color (tc_Subtext u) (tc_Subtext t), tc_Muted = override_color (tc_Muted u) (tc_Muted t),
      tc_Primary = override_color (tc_Primary u) (tc_Primary t), tc_Secondary = override_color (tc_Secondary u) (tc_Secondary t),
      tc_Success = override_color (tc_Success u) (tc_Success t), tc_Warning = override_color (tc_Warning u) (tc_Warning t),
      tc_Error = override_color (tc_Error u) (tc_Error t), tc_Info = override_color (tc_Info u) (tc_Info t)\<rparr>"

text \<open>\<open>builtin\<close> is the table \<^verbatim>\<open>BuiltinThemes\<close>, a literal of colors; a missing entry is Go's zero value.\<close>

definition GetTheme :: "(string, ThemeColors) gomap \<Rightarrow> ThemeColors \<Rightarrow> string \<Rightarrow> ThemeColors option \<Rightarrow> ThemeColors" where
  "GetTheme builtin zero name custom =
     (let t = (case mget builtin name of
                 Some t \<Rightarrow> t
               | None \<Rightarrow> (case mget builtin ''catppuccin-mocha'' of Some t \<Rightarrow> t | None \<Rightarrow> zero))
      in case custom of None \<Rightarrow> t | Some u \<Rightarrow> override_colors u t)"

section \<open>Validation\<close>

datatype vmessage =
    MustBeOneOf string
  | MustBePositive
  | UndefinedAgent string
  | NeedsPlaceholder
  | BadTemplate string
  | RequiredMissing
  | NotInPath string
  | UnknownTheme string
  | PortRange
  | RestatedRule string
  | OverlapsGlobal string string string
  | BadJSON string

datatype vvalue = NoValue | StrValue string | IntValue int

record ValidationError =
  ve_Section :: string
  ve_Field :: string
  ve_Message :: vmessage
  ve_Value :: vvalue

record ValidationResult =
  vr_Errors :: "ValidationError list"
  vr_Warnings :: "ValidationError list"

definition HasErrors :: "ValidationResult \<Rightarrow> bool" where
  "HasErrors r \<longleftrightarrow> vr_Errors r \<noteq> []"

definition HasWarnings :: "ValidationResult \<Rightarrow> bool" where
  "HasWarnings r \<longleftrightarrow> vr_Warnings r \<noteq> []"

definition verr :: "string \<Rightarrow> string \<Rightarrow> vmessage \<Rightarrow> vvalue \<Rightarrow> ValidationError" where
  "verr sec fld msg v = \<lparr>ve_Section = sec, ve_Field = fld, ve_Message = msg, ve_Value = v\<rparr>"

definition AddError :: "string \<Rightarrow> string \<Rightarrow> vmessage \<Rightarrow> vvalue \<Rightarrow> ValidationResult \<Rightarrow> ValidationResult" where
  "AddError sec fld msg v r = r\<lparr>vr_Errors := vr_Errors r @ [verr sec fld msg v]\<rparr>"

definition AddWarning :: "string \<Rightarrow> string \<Rightarrow> vmessage \<Rightarrow> vvalue \<Rightarrow> ValidationResult \<Rightarrow> ValidationResult" where
  "AddWarning sec fld msg v r = r\<lparr>vr_Warnings := vr_Warnings r @ [verr sec fld msg v]\<rparr>"

text \<open>\<open>render\<close> writes a message and \<open>show\<close> a value; one block of lines per finding.\<close>

definition format_findings :: "(vmessage \<Rightarrow> string) \<Rightarrow> (vvalue \<Rightarrow> string) \<Rightarrow> ValidationError list \<Rightarrow> string" where
  "format_findings render shown es =
     concat (map (\<lambda>e.
       ''  ['' @ ve_Section e @ '']'' @ (if ve_Field e \<noteq> [] then '' '' @ ve_Field e else []) @ [CHR 0x0A] @
       ''    '' @ render (ve_Message e) @ [CHR 0x0A] @
       (if ve_Value e \<noteq> NoValue then ''    got: '' @ shown (ve_Value e) @ [CHR 0x0A] else []) @ [CHR 0x0A]) es)"

definition FormatErrors :: "(vmessage \<Rightarrow> string) \<Rightarrow> (vvalue \<Rightarrow> string) \<Rightarrow> ValidationResult \<Rightarrow> string" where
  "FormatErrors render shown r = format_findings render shown (vr_Errors r)"

definition FormatWarnings :: "(vmessage \<Rightarrow> string) \<Rightarrow> (vvalue \<Rightarrow> string) \<Rightarrow> ValidationResult \<Rightarrow> string" where
  "FormatWarnings render shown r = format_findings render shown (vr_Warnings r)"

text \<open>
  The regular expressions of \<^verbatim>\<open>validateInitPromptOverlap\<close>, on ASCII text.  \<open>ws\<close> is the class \<^verbatim>\<open>\s\<close>, \<open>word\<close> the class
  behind \<^verbatim>\<open>\b\<close>.
\<close>

definition ws :: "char \<Rightarrow> bool" where
  "ws c \<longleftrightarrow> c = CHR '' '' \<or> c = CHR 0x09 \<or> c = CHR 0x0A \<or> c = CHR 0x0C \<or> c = CHR 0x0D"

definition word_char :: "char \<Rightarrow> bool" where
  "word_char c \<longleftrightarrow> (CHR ''a'' \<le> c \<and> c \<le> CHR ''z'') \<or> (CHR ''A'' \<le> c \<and> c \<le> CHR ''Z'') \<or> (CHR ''0'' \<le> c \<and> c \<le> CHR ''9'') \<or> c = CHR ''_''"

definition never_push_at :: "string \<Rightarrow> bool" where
  "never_push_at s \<longleftrightarrow>
     (let verb = (\<lambda>t. let u = (case t of c # t' \<Rightarrow> if c = CHR 0x60 \<or> c = CHR 0x27 then t' else t | [] \<Rightarrow> t)
                      in has_prefix u ''gh pr create'' \<or> has_prefix u ''git push'')
      in has_prefix s ''never'' \<and>
         (let t = drop 5 s; t' = dropWhile ws t
          in t \<noteq> [] \<and> ws (hd t) \<and>
             (verb t' \<or> has_prefix t' ''run'' \<and> (let v = drop 3 t' in v \<noteq> [] \<and> ws (hd v) \<and> verb (dropWhile ws v)))))"

fun at_any :: "(string \<Rightarrow> bool) \<Rightarrow> string \<Rightarrow> bool" where
  "at_any P [] \<longleftrightarrow> P []"
| "at_any P (c # s) \<longleftrightarrow> P (c # s) \<or> at_any P s"

fun global_rule_from :: "bool \<Rightarrow> string \<Rightarrow> bool" where
  "global_rule_from prev [] \<longleftrightarrow> False"
| "global_rule_from prev (c # s) \<longleftrightarrow>
     (\<not> prev \<and> has_prefix (c # s) ''global rule'' \<and> (let t = drop 11 (c # s) in t = [] \<or> \<not> word_char (hd t))) \<or>
     global_rule_from (word_char c) s"

definition strongRuleMarkers :: "((string \<Rightarrow> bool) \<times> string) list" where
  "strongRuleMarkers =
     [(\<lambda>p. contains (ascii_lower p) ''hard rule'', ''HARD RULE''),
      (\<lambda>p. at_any never_push_at (ascii_lower p), ''NEVER gh pr create / git push''),
      (\<lambda>p. global_rule_from False (ascii_lower p), ''global rule'')]"

definition globalRuleKeywords :: "string list" where
  "globalRuleKeywords =
     [''push'', ''PR'', ''pull request'', ''gh pr'', ''git push'', ''signing'', ''gpg'', ''ssh'', ''ticket creation'']"

text \<open>
  \<^verbatim>\<open>(?m)^##\s+(.+)$\<close> at the start of a line: the space is greedy and may cross line ends, and gives characters back until
  one that is no line end is left for the text.
\<close>

definition h2_text :: "string \<Rightarrow> string option" where
  "h2_text s =
     (if \<not> has_prefix s ''##'' then None
      else let t = drop 2 s; n = length (takeWhile ws t)
           in map_option (\<lambda>k. takeWhile (\<lambda>c. c \<noteq> CHR 0x0A) (drop k t))
                (find (\<lambda>k. drop k t \<noteq> [] \<and> hd (drop k t) \<noteq> CHR 0x0A) (rev [1..<Suc n])))"

definition h2_end :: "string \<Rightarrow> string \<Rightarrow> nat" where
  "h2_end s h =
     (let t = drop 2 s; n = length (takeWhile ws t)
      in case find (\<lambda>k. drop k t \<noteq> [] \<and> hd (drop k t) \<noteq> CHR 0x0A) (rev [1..<Suc n]) of
           Some k \<Rightarrow> 2 + k + length h
         | None \<Rightarrow> 1)"

function h2_scan :: "bool \<Rightarrow> string \<Rightarrow> string list" where
  "h2_scan start [] = []"
| "h2_scan start (c # s) =
     (case (if start then h2_text (c # s) else None) of
        Some h \<Rightarrow> TrimSpace h # h2_scan False (drop (max 1 (h2_end (c # s) h)) (c # s))
      | None \<Rightarrow> h2_scan (c = CHR 0x0A) s)"
  by pat_completeness auto
termination by (relation "measure (length \<circ> snd)") auto

definition extractH2Headers :: "string \<Rightarrow> string list" where
  "extractH2Headers md = h2_scan True md"

definition sharedRuleKeyword :: "(string \<Rightarrow> string) \<Rightarrow> string \<Rightarrow> string \<Rightarrow> string" where
  "sharedRuleKeyword lower a b =
     (case find (\<lambda>kw. contains (lower a) (lower kw) \<and> contains (lower b) (lower kw)) globalRuleKeywords of
        Some kw \<Rightarrow> kw
      | None \<Rightarrow> [])"

definition overlap_step ::
    "(string \<Rightarrow> string) \<Rightarrow> string \<times> string \<Rightarrow> string list \<times> vmessage list \<Rightarrow> string list \<times> vmessage list" where
  "overlap_step lower hg acc =
     (let kw = sharedRuleKeyword lower (fst hg) (snd hg); key = fst hg @ ''|'' @ snd hg
      in if kw = [] \<or> key \<in> set (fst acc) then acc
         else (key # fst acc, snd acc @ [OverlapsGlobal (fst hg) (snd hg) kw]))"

text \<open>\<open>md\<close> is the global file, when it is there and can be read.\<close>

definition validateInitPromptOverlap :: "(string \<Rightarrow> string) \<Rightarrow> string \<Rightarrow> string option \<Rightarrow> vmessage list" where
  "validateInitPromptOverlap lower prompt md =
     map (RestatedRule \<circ> snd) (filter (\<lambda>m. fst m prompt) strongRuleMarkers) @
     (case md of
        None \<Rightarrow> []
      | Some g \<Rightarrow>
          snd (fold (overlap_step lower) (List.product (extractH2Headers prompt) (extractH2Headers g)) ([], [])))"

record validate_env =
  en_LookPath :: "string \<Rightarrow> bool"
  en_Templ :: "string \<Rightarrow> string option"
  en_Lower :: "string \<Rightarrow> string"
  en_GlobalMd :: "string option"
  en_Themes :: "string list"

definition check_prompt :: "validate_env \<Rightarrow> string \<Rightarrow> string \<Rightarrow> ValidationResult \<Rightarrow> ValidationResult" where
  "check_prompt E sec prompt r =
     (if prompt = [] then r
      else let r = (case en_Templ E prompt of Some e \<Rightarrow> AddError sec ''init_prompt'' (BadTemplate e) NoValue r | None \<Rightarrow> r)
           in fold (\<lambda>m. AddWarning sec ''init_prompt'' m NoValue) (validateInitPromptOverlap (en_Lower E) prompt (en_GlobalMd E)) r)"

definition on_cond :: "bool \<Rightarrow> ('a \<Rightarrow> 'a) \<Rightarrow> 'a \<Rightarrow> 'a" where
  "on_cond b f r = (if b then f r else r)"

definition validateDefaults :: "validate_env \<Rightarrow> Config \<Rightarrow> ValidationResult \<Rightarrow> ValidationResult" where
  "validateDefaults E c r =
     (let d = cf_Defaults c;
          r = on_cond (bs_BranchNaming d \<notin> {''template'', ''ai'', ''prompt'', []})
                (AddError ''defaults'' ''branch_naming'' (MustBeOneOf (bs_BranchNaming d)) (StrValue (bs_BranchNaming d))) r;
          r = on_cond (bs_SlugMaxLength d < 0)
                (AddError ''defaults'' ''slug_max_length'' MustBePositive (IntValue (bs_SlugMaxLength d))) r;
          r = on_cond (bs_DefaultAgent d \<noteq> [] \<and> mget (cf_Agents c) (bs_DefaultAgent d) = None)
                (AddError ''defaults'' ''default_agent'' (UndefinedAgent (bs_DefaultAgent d)) (StrValue (bs_DefaultAgent d))) r;
          r = on_cond (bs_BranchTemplate d \<noteq> [] \<and> \<not> contains (bs_BranchTemplate d) ''{slug}'' \<and> \<not> contains (bs_BranchTemplate d) ''{prefix}'')
                (AddWarning ''defaults'' ''branch_template'' NeedsPlaceholder (StrValue (bs_BranchTemplate d))) r
      in check_prompt E ''defaults'' (bs_InitPrompt d) r)"

definition validate_agent :: "validate_env \<Rightarrow> string \<Rightarrow> string \<times> AgentConfig \<Rightarrow> ValidationResult \<Rightarrow> ValidationResult" where
  "validate_agent E dflt na r =
     (let sec = ''agents.'' @ fst na; a = snd na;
          r = (if ac_Command a = [] then AddError sec ''command'' RequiredMissing NoValue r
               else if fst na = dflt \<and> \<not> en_LookPath E (ac_Command a)
               then AddWarning sec ''command'' (NotInPath (ac_Command a)) (StrValue (ac_Command a)) r
               else r)
      in check_prompt E sec (ac_InitPrompt a) r)"

definition validateAgents :: "validate_env \<Rightarrow> Config \<Rightarrow> ValidationResult \<Rightarrow> ValidationResult" where
  "validateAgents E c r = fold (validate_agent E (bs_DefaultAgent (cf_Defaults c))) (cf_Agents c) r"

definition validateUI :: "validate_env \<Rightarrow> Config \<Rightarrow> ValidationResult \<Rightarrow> ValidationResult" where
  "validateUI E c r =
     (let u = cf_UI c;
          r = on_cond (ui_Theme u \<noteq> [] \<and> ui_Theme u \<notin> set (en_Themes E))
                (AddWarning ''ui'' ''theme'' (UnknownTheme (ui_Theme u)) (StrValue (ui_Theme u))) r;
          r = on_cond (ui_ColumnWidth u \<le> 0) (AddError ''ui'' ''column_width'' MustBePositive (IntValue (ui_ColumnWidth u))) r;
          r = on_cond (ui_TicketHeight u \<le> 0) (AddError ''ui'' ''ticket_height'' MustBePositive (IntValue (ui_TicketHeight u))) r
      in on_cond (ui_RefreshInterval u \<le> 0) (AddError ''ui'' ''refresh_interval'' MustBePositive (IntValue (ui_RefreshInterval u))) r)"

definition validateOpencode :: "Config \<Rightarrow> ValidationResult \<Rightarrow> ValidationResult" where
  "validateOpencode c r =
     (let oc = cf_Opencode c;
          r = on_cond (oc_ServerPort oc \<le> 0 \<or> 65535 < oc_ServerPort oc)
                (AddError ''opencode'' ''server_port'' PortRange (IntValue (oc_ServerPort oc))) r
      in on_cond (oc_PollInterval oc < 0) (AddError ''opencode'' ''poll_interval'' MustBePositive (IntValue (oc_PollInterval oc))) r)"

definition Validate :: "validate_env \<Rightarrow> Config \<Rightarrow> ValidationResult" where
  "Validate E c =
     validateOpencode c (validateUI E c (validateAgents E c (validateDefaults E c \<lparr>vr_Errors = [], vr_Warnings = []\<rparr>)))"

definition LoadWithValidation ::
    "prompt_texts \<Rightarrow> (string \<Rightarrow> Config \<Rightarrow> string + Config) \<Rightarrow> validate_env \<Rightarrow> file_read \<Rightarrow>
     Config option \<times> ValidationResult option \<times> load_error option" where
  "LoadWithValidation px unmarshal E file =
     (let dflt = DefaultConfig (en_LookPath E) px
      in case file of
           FileMissing \<Rightarrow> (Some dflt, Some (Validate E dflt), None)
         | FileError \<Rightarrow> (None, None, Some LoadRead)
         | FileText data \<Rightarrow>
             (case unmarshal data dflt of
                Inl e \<Rightarrow> (None, Some (AddError ''json'' [] (BadJSON e) NoValue \<lparr>vr_Errors = [], vr_Warnings = []\<rparr>), Some (LoadJSON e))
              | Inr c \<Rightarrow> (let c = mergeAgentDefaults px c in (Some c, Some (Validate E c), None))))"

section \<open>What is an error and what is a warning\<close>

lemma AddError_simps [simp]:
  "vr_Errors (AddError sec fld msg v r) = vr_Errors r @ [verr sec fld msg v]" "vr_Errors (AddWarning sec fld msg v r) = vr_Errors r"
  by (simp_all add: AddError_def AddWarning_def)

lemma warnings_errors [simp]: "vr_Errors (fold (\<lambda>m. AddWarning sec fld m v) ms r) = vr_Errors r"
  by (induction ms arbitrary: r) simp_all

definition templ_errors :: "(string \<Rightarrow> string option) \<Rightarrow> string \<Rightarrow> string \<Rightarrow> ValidationError list" where
  "templ_errors templ sec prompt =
     (if prompt = [] then [] else case templ prompt of Some e \<Rightarrow> [verr sec ''init_prompt'' (BadTemplate e) NoValue] | None \<Rightarrow> [])"

definition agent_errors :: "(string \<Rightarrow> string option) \<Rightarrow> string \<times> AgentConfig \<Rightarrow> ValidationError list" where
  "agent_errors templ na =
     (let sec = ''agents.'' @ fst na
      in (if ac_Command (snd na) = [] then [verr sec ''command'' RequiredMissing NoValue] else []) @
         templ_errors templ sec (ac_InitPrompt (snd na)))"

definition int_error :: "bool \<Rightarrow> string \<Rightarrow> string \<Rightarrow> vmessage \<Rightarrow> int \<Rightarrow> ValidationError list" where
  "int_error bad sec fld msg i = (if bad then [verr sec fld msg (IntValue i)] else [])"

definition config_errors :: "(string \<Rightarrow> string option) \<Rightarrow> Config \<Rightarrow> ValidationError list" where
  "config_errors templ c =
     (let d = cf_Defaults c; u = cf_UI c; oc = cf_Opencode c
      in (if bs_BranchNaming d \<in> {''template'', ''ai'', ''prompt'', []} then []
          else [verr ''defaults'' ''branch_naming'' (MustBeOneOf (bs_BranchNaming d)) (StrValue (bs_BranchNaming d))]) @
         int_error (bs_SlugMaxLength d < 0) ''defaults'' ''slug_max_length'' MustBePositive (bs_SlugMaxLength d) @
         (if bs_DefaultAgent d \<noteq> [] \<and> mget (cf_Agents c) (bs_DefaultAgent d) = None
          then [verr ''defaults'' ''default_agent'' (UndefinedAgent (bs_DefaultAgent d)) (StrValue (bs_DefaultAgent d))] else []) @
         templ_errors templ ''defaults'' (bs_InitPrompt d) @
         concat (map (agent_errors templ) (cf_Agents c)) @
         int_error (ui_ColumnWidth u \<le> 0) ''ui'' ''column_width'' MustBePositive (ui_ColumnWidth u) @
         int_error (ui_TicketHeight u \<le> 0) ''ui'' ''ticket_height'' MustBePositive (ui_TicketHeight u) @
         int_error (ui_RefreshInterval u \<le> 0) ''ui'' ''refresh_interval'' MustBePositive (ui_RefreshInterval u) @
         int_error (oc_ServerPort oc \<le> 0 \<or> 65535 < oc_ServerPort oc) ''opencode'' ''server_port'' PortRange (oc_ServerPort oc) @
         int_error (oc_PollInterval oc < 0) ''opencode'' ''poll_interval'' MustBePositive (oc_PollInterval oc))"

lemma check_prompt_errors [simp]: "vr_Errors (check_prompt E sec prompt r) = vr_Errors r @ templ_errors (en_Templ E) sec prompt"
  by (simp add: check_prompt_def templ_errors_def Let_def split: option.split)

lemma on_cond_errors [simp]:
  "vr_Errors (on_cond b (AddError sec fld msg v) r) = vr_Errors r @ (if b then [verr sec fld msg v] else [])"
  "vr_Errors (on_cond b (AddWarning sec fld msg v) r) = vr_Errors r"
  by (simp_all add: on_cond_def)

lemma validate_agent_errors [simp]:
  "vr_Errors (validate_agent E dflt na r) = vr_Errors r @ agent_errors (en_Templ E) na"
  by (simp add: validate_agent_def agent_errors_def Let_def)

lemma validateAgents_errors [simp]:
  "vr_Errors (validateAgents E c r) = vr_Errors r @ concat (map (agent_errors (en_Templ E)) (cf_Agents c))"
proof -
  have "vr_Errors (fold (validate_agent E dflt) nas r) = vr_Errors r @ concat (map (agent_errors (en_Templ E)) nas)" for dflt nas
    by (induction nas arbitrary: r) simp_all
  then show ?thesis by (simp add: validateAgents_def)
qed

text \<open>
  The errors of a validation, in order, as one expression over the configuration: they come from the configuration and
  the template parser alone.  Which programs are installed, which rules the global file holds and which themes exist
  can only warn, so none of them can keep the program from starting.
\<close>
theorem validate_errors_exact: "vr_Errors (Validate E c) = config_errors (en_Templ E) c"
  by (simp add: Validate_def validateOpencode_def validateUI_def validateDefaults_def config_errors_def int_error_def Let_def)

section \<open>Loading\<close>

lemma merge_one_get:
  "mget (merge_one da agents) n =
     (if n = fst da then Some (case mget agents n of Some u \<Rightarrow> merge_agent (snd da) u | None \<Rightarrow> snd da) else mget agents n)"
  by (simp add: merge_one_def split: option.split)

lemma merge_fold_get:
  "distinct (map fst ds) \<Longrightarrow> mget (fold merge_one ds agents) n =
     (case mget ds n of None \<Rightarrow> mget agents n
      | Some dflt \<Rightarrow> Some (case mget agents n of Some u \<Rightarrow> merge_agent dflt u | None \<Rightarrow> dflt))"
proof (induction ds arbitrary: agents)
  case (Cons d ds)
  have "mget ds (fst d) = None" using Cons.prems by (simp add: map_of_eq_None_iff)
  with Cons show ?case by (cases d) (auto simp: merge_one_get split: option.splits)
qed simp

lemma defaultAgents_distinct: "distinct (map fst (defaultAgents px))"
  by (simp add: defaultAgents_def Let_def)

lemma merge_agent_idem [simp]: "merge_agent d (merge_agent d u) = merge_agent d u" "merge_agent d d = d"
  by (simp_all add: merge_agent_def)

text \<open>
  The completion of a loaded configuration, agent by agent: a built-in agent the file leaves out is there, a field the
  file sets is kept, the label, status file, environment and prompt of a built-in agent are filled in where they are
  missing, and an agent of the user's own is untouched.  Completing twice changes nothing.
\<close>
theorem merge_agents_exact:
  "mget (cf_Agents (mergeAgentDefaults px c)) n =
     (case mget (defaultAgents px) n of None \<Rightarrow> mget (cf_Agents c) n
      | Some dflt \<Rightarrow> Some (case mget (cf_Agents c) n of Some u \<Rightarrow> merge_agent dflt u | None \<Rightarrow> dflt)) \<and>
   mget (cf_Agents (mergeAgentDefaults px (mergeAgentDefaults px c))) n = mget (cf_Agents (mergeAgentDefaults px c)) n"
  by (auto simp: mergeAgentDefaults_def merge_fold_get defaultAgents_distinct split: option.split)

lemma DefaultConfig_agents: "mget (cf_Agents (DefaultConfig lookPath px)) n = mget (defaultAgents px) n"
  by (simp add: DefaultConfig_def)

lemma priority_builtin: "n \<in> set AgentPriority \<Longrightarrow> mget (defaultAgents px) n \<noteq> None"
  by (auto simp: AgentPriority_def defaultAgents_def Let_def)

lemma DetectAvailableAgent_priority: "DetectAvailableAgent lookPath agents \<in> set AgentPriority"
proof (cases "find (\<lambda>n. case mget agents n of Some a \<Rightarrow> lookPath (ac_Command a) | None \<Rightarrow> False) AgentPriority")
  case None
  then show ?thesis by (simp add: DetectAvailableAgent_def) (simp add: AgentPriority_def)
next
  case (Some n)
  then have "n \<in> set AgentPriority" by (auto simp: find_Some_iff)
  with Some show ?thesis by (simp add: DetectAvailableAgent_def)
qed

definition builtin_prompts :: "prompt_texts \<Rightarrow> string list" where
  "builtin_prompts px = px_Global px # map (ac_InitPrompt \<circ> snd) (defaultAgents px)"

lemma defaultAgents_commands: "na \<in> set (defaultAgents px) \<Longrightarrow> ac_Command (snd na) \<noteq> []"
  by (auto simp: defaultAgents_def builtin_agent_def Let_def)

lemma defaultAgents_no_errors:
  "\<forall>p \<in> set (builtin_prompts px). templ p = None \<Longrightarrow> concat (map (agent_errors templ) (defaultAgents px)) = []"
  using defaultAgents_commands by (auto simp: builtin_prompts_def agent_errors_def templ_errors_def Let_def)

text \<open>
  Without a configuration file the program starts: the built-in configuration has no errors on any machine, whatever
  is installed there, as long as the built-in prompts parse.
\<close>
theorem default_config_valid:
  assumes "\<forall>p \<in> set (builtin_prompts px). en_Templ E p = None"
  shows "snd (snd (LoadWithValidation px unmarshal E FileMissing)) = None \<and>
    (\<exists>r. fst (snd (LoadWithValidation px unmarshal E FileMissing)) = Some r \<and> \<not> HasErrors r)"
proof -
  let ?c = "DefaultConfig (en_LookPath E) px"
  have agent: "mget (defaultAgents px) (DetectAvailableAgent (en_LookPath E) (defaultAgents px)) \<noteq> None"
    by (rule priority_builtin [OF DetectAvailableAgent_priority])
  have "templ_errors (en_Templ E) ''defaults'' (px_Global px) = []"
    using assms by (simp add: builtin_prompts_def templ_errors_def)
  then have "config_errors (en_Templ E) ?c = []"
    using defaultAgents_no_errors [OF assms] agent
    by (simp add: config_errors_def int_error_def DefaultConfig_def Let_def del: concat_eq_Nil_conv)
  then show ?thesis
    using validate_errors_exact [of E ?c] by (simp add: LoadWithValidation_def Let_def HasErrors_def)
qed

text \<open>
  Every pipeline role has an agent after a load, whatever the file says: the agent a ticket's type asks for is always
  configured, with a prompt that is not empty.
\<close>
theorem role_agent_configured:
  assumes "Load lookPath px unmarshal file = Inr c" and "RoleForType t \<noteq> []" and "px_Agent px \<noteq> []"
  shows "\<exists>a. mget (cf_Agents c) (RoleForType t) = Some a \<and> ac_InitPrompt a \<noteq> []"
proof -
  have builtin: "\<exists>d. mget (defaultAgents px) (RoleForType t) = Some d \<and> ac_InitPrompt d \<noteq> []"
    using assms(2,3) by (auto simp: RoleForType_def defaultAgents_def builtin_agent_def Let_def split: if_splits)
  consider "c = DefaultConfig lookPath px" | c0 where "c = mergeAgentDefaults px c0"
    using assms(1) by (auto simp: Load_def split: file_read.splits sum.splits)
  then show ?thesis
  proof cases
    case 1
    with builtin show ?thesis by (simp add: DefaultConfig_agents)
  next
    case 2
    have get: "mget (cf_Agents c) n = (case mget (defaultAgents px) n of None \<Rightarrow> mget (cf_Agents c0) n
      | Some dflt \<Rightarrow> Some (case mget (cf_Agents c0) n of Some u \<Rightarrow> merge_agent dflt u | None \<Rightarrow> dflt))" for n
      by (simp add: 2 mergeAgentDefaults_def merge_fold_get defaultAgents_distinct)
    from builtin show ?thesis
      by (auto simp: get merge_agent_def split: option.splits)
  qed
qed

text \<open>
  The prompt an agent gets: a readable, non-blank prompt file beats the inline prompt at both levels, the agent's own
  settings beat the defaults, and with the built-in text behind everything the result is never empty.
\<close>
theorem effective_prompt_nonempty:
  assumes "px_Global px \<noteq> []"
  shows "GetEffectiveInitPrompt E px c n \<noteq> [] \<and>
    (\<forall>a s. mget (cf_Agents c) n = Some a \<and> readPromptFile E (ac_InitPromptFile a) = Some s \<longrightarrow> GetEffectiveInitPrompt E px c n = s)"
proof -
  have "s \<noteq> []" if "readPromptFile E p = Some s" for p s
    using that by (auto simp: readPromptFile_def Let_def split: if_splits file_read.splits)
  then show ?thesis
    using assms by (auto simp: GetEffectiveInitPrompt_def default_prompt_def split: option.splits)
qed

section \<open>Witnesses\<close>

definition ex_prompts :: prompt_texts where
  "ex_prompts = \<lparr>px_Global = ''g'', px_Agent = ''a'', px_Lean = ''l'', px_Aider = ''d'', px_Research = ''r'', px_Spec = ''s'', px_Review = ''v''\<rparr>"

definition ex_env :: validate_env where
  "ex_env = \<lparr>en_LookPath = (\<lambda>_. False), en_Templ = (\<lambda>_. None), en_Lower = ascii_lower, en_GlobalMd = None, en_Themes = ThemeNames\<rparr>"

theorem default_config_valid_witness:
  "snd (snd (LoadWithValidation ex_prompts (\<lambda>_. Inr) ex_env FileMissing)) = None"
  by (rule default_config_valid [THEN conjunct1]) (simp add: ex_env_def)

theorem role_agent_configured_witness:
  "\<exists>a. mget (cf_Agents (mergeAgentDefaults ex_prompts ((DefaultConfig (\<lambda>_. False) ex_prompts)\<lparr>cf_Agents := []\<rparr>))) ''claude-spec'' = Some a \<and>
     ac_InitPrompt a \<noteq> []"
  using role_agent_configured [of "\<lambda>_. False" ex_prompts "\<lambda>_ c. Inr (c\<lparr>cf_Agents := []\<rparr>)" "FileText []"
      "mergeAgentDefaults ex_prompts ((DefaultConfig (\<lambda>_. False) ex_prompts)\<lparr>cf_Agents := []\<rparr>)" TypeSpec]
  by (simp add: Load_def RoleForType_def ex_prompts_def)

theorem effective_prompt_nonempty_witness:
  "GetEffectiveInitPrompt
     \<lparr>pe_Home = None, pe_ConfigDir = None, pe_Join = (@), pe_IsAbs = (\<lambda>_. True), pe_Read = (\<lambda>_. FileText '' '')\<rparr> ex_prompts
     (DefaultConfig (\<lambda>_. False) ex_prompts) ''nobody'' \<noteq> []"
  by (rule effective_prompt_nonempty [THEN conjunct1]) (simp add: ex_prompts_def)

end
