(* ===== verification/Sessions.thy ===== *)
theory Sessions
  imports Disk GoStrings
begin

text \<open>
  \<^verbatim>\<open>internal/agent/sessions.go\<close>: where the Claude CLI keeps the transcript of a session, which session of a worktree is
  alive, and the three operations that touch the CLI's files: moving a transcript to the bucket its ticket is started
  from, deleting a dead one, and removing the priming entries from the input history.

  The disk is the tree below the home directory.  A transcript line is read by the parameter \<open>ev\<close> (type, role and the
  text of the content, or nothing for a malformed line); \<open>lines\<close> cuts a file the way \<^verbatim>\<open>bufio.Scanner\<close> does, and says
  whether it stopped at a line that is too long.
\<close>

section \<open>Buckets\<close>

definition is_hex :: "char \<Rightarrow> bool" where
  "is_hex c \<longleftrightarrow> (CHR ''0'' \<le> c \<and> c \<le> CHR ''9'') \<or> (CHR ''a'' \<le> c \<and> c \<le> CHR ''f'')"

fun uuid_shape :: "nat list \<Rightarrow> string \<Rightarrow> bool" where
  "uuid_shape [] s \<longleftrightarrow> False"
| "uuid_shape [n] s \<longleftrightarrow> length s = n \<and> list_all is_hex s"
| "uuid_shape (n # m # ns) s \<longleftrightarrow>
     n < length s \<and> list_all is_hex (take n s) \<and> s ! n = CHR ''-'' \<and> uuid_shape (m # ns) (drop (Suc n) s)"

definition is_session_uuid :: "string \<Rightarrow> bool" where
  "is_session_uuid s \<longleftrightarrow> uuid_shape [8, 4, 4, 4, 12] s"

definition bucket_char :: "char \<Rightarrow> char" where
  "bucket_char c =
     (if (CHR ''A'' \<le> c \<and> c \<le> CHR ''Z'') \<or> (CHR ''a'' \<le> c \<and> c \<le> CHR ''z'') \<or> (CHR ''0'' \<le> c \<and> c \<le> CHR ''9'') then c
      else CHR ''-'')"

definition EncodeClaudeBucket :: "string \<Rightarrow> string" where
  "EncodeClaudeBucket workdir = map bucket_char workdir"

definition claudeProjectsRoot :: path where
  "claudeProjectsRoot = [''.claude'', ''projects'']"

definition ProjectDirFor :: "string \<Rightarrow> path" where
  "ProjectDirFor workdir = claudeProjectsRoot @ [EncodeClaudeBucket workdir]"

definition jsonl :: "string \<Rightarrow> string" where
  "jsonl uuid = uuid @ ''.jsonl''"

definition ResumeResolvable :: "faults \<Rightarrow> string \<Rightarrow> string \<Rightarrow> disk \<Rightarrow> bool" where
  "ResumeResolvable F uuid worktree d \<longleftrightarrow>
     is_session_uuid uuid \<and> worktree \<noteq> [] \<and> os_Exists F (ProjectDirFor worktree @ [jsonl uuid]) d"

datatype session_error =
    NotUUID string
  | NoTranscript
  | AlreadyPresent path
  | BucketFailed io_error
  | SidecarFailed io_error
  | TranscriptFailed io_error
  | DirUnreadable io_error
  | OpenFailed io_error
  | NoLsof
  | LsofFailed
  | BadPid string
  | SignalFailed
  | StillHeld

text \<open>\<^verbatim>\<open>filepath.Glob(root/*/<uuid>.jsonl)\<close>: the buckets in name order that have an entry of that name.\<close>

definition session_glob :: "string \<Rightarrow> disk \<Rightarrow> path list" where
  "session_glob uuid d =
     filter (\<lambda>p. mget d p \<noteq> None)
       (map (\<lambda>b. claudeProjectsRoot @ [b, jsonl uuid])
          (filter (\<lambda>b. mget d (claudeProjectsRoot @ [b]) = Some DirN) (children d claudeProjectsRoot)))"

definition SessionPath :: "string \<Rightarrow> disk \<Rightarrow> session_error + path" where
  "SessionPath uuid d =
     (if \<not> is_session_uuid uuid then Inl (NotUUID uuid)
      else case session_glob uuid d of [] \<Rightarrow> Inl NoTranscript | p # _ \<Rightarrow> Inr p)"

section \<open>Who holds a transcript\<close>

text \<open>\<open>lsof\<close> is what the external program answers for a path: the outcome of looking it up and running it.\<close>

datatype lsof_run = LsofMissing | LsofNone | LsofError | LsofOut string

definition pid_digit :: "char \<Rightarrow> bool" where
  "pid_digit c \<longleftrightarrow> CHR ''0'' \<le> c \<and> c \<le> CHR ''9''"

definition pid_value :: "string \<Rightarrow> int" where
  "pid_value s = foldl (\<lambda>n c. 10 * n + (int (of_char c) - 48)) 0 s"

definition in_int64 :: "int \<Rightarrow> int option" where
  "in_int64 i = (if - (2 ^ 63) \<le> i \<and> i < 2 ^ 63 then Some i else None)"

fun Atoi :: "string \<Rightarrow> int option" where
  "Atoi [] = None"
| "Atoi (c # cs) =
     (let neg = (c = CHR ''-''); ds = (if c = CHR ''-'' \<or> c = CHR ''+'' then cs else c # cs)
      in if ds = [] \<or> \<not> list_all pid_digit ds then None
         else in_int64 (if neg then - pid_value ds else pid_value ds))"

fun first_pid :: "string list \<Rightarrow> session_error + int" where
  "first_pid [] = Inr 0"
| "first_pid (l # ls) =
     (let t = TrimSpace l
      in if t = [] then first_pid ls else case Atoi t of None \<Rightarrow> Inl (BadPid t) | Some n \<Rightarrow> Inr n)"

definition SessionActive :: "(path \<Rightarrow> lsof_run) \<Rightarrow> string \<Rightarrow> disk \<Rightarrow> session_error + int" where
  "SessionActive lsof uuid d =
     (case SessionPath uuid d of
        Inl e \<Rightarrow> Inl e
      | Inr p \<Rightarrow>
          (case lsof p of
             LsofMissing \<Rightarrow> Inl NoLsof
           | LsofNone \<Rightarrow> Inr 0
           | LsofError \<Rightarrow> Inl LsofFailed
           | LsofOut out \<Rightarrow> first_pid (split_lines [] (TrimSpace out))))"

section \<open>Which session is alive\<close>

record transcript_event =
  te_Type :: string
  te_Role :: string
  te_Content :: string

datatype content_part = Part (pt_Type: string) (pt_Text: string)

fun join_parts :: "string \<Rightarrow> content_part list \<Rightarrow> string" where
  "join_parts acc [] = acc"
| "join_parts acc (p # ps) =
     (if pt_Type p = ''text'' \<and> pt_Text p \<noteq> [] then join_parts ((if acc \<noteq> [] then acc @ [CHR 0x0A] else acc) @ pt_Text p) ps
      else join_parts acc ps)"

text \<open>\<open>as_string\<close> and \<open>as_parts\<close> are the two decodings of a content field that the code tries in turn.\<close>

definition extractAssistantText :: "(string \<Rightarrow> string option) \<Rightarrow> (string \<Rightarrow> content_part list option) \<Rightarrow> string \<Rightarrow> string" where
  "extractAssistantText as_string as_parts content =
     (if content = [] then []
      else case as_string content of
             Some s \<Rightarrow> s
           | None \<Rightarrow> (case as_parts content of Some ps \<Rightarrow> join_parts [] ps | None \<Rightarrow> []))"

record json_reader =
  jr_Event :: "string \<Rightarrow> transcript_event option"
  jr_String :: "string \<Rightarrow> string option"
  jr_Parts :: "string \<Rightarrow> content_part list option"
  jr_Lines :: "string \<Rightarrow> string list \<times> bool"

definition real_line :: "json_reader \<Rightarrow> string \<Rightarrow> bool" where
  "real_line J line \<longleftrightarrow>
     (case jr_Event J line of
        None \<Rightarrow> False
      | Some e \<Rightarrow>
          te_Type e = ''assistant'' \<and> te_Role e = ''assistant'' \<and>
          (let t = TrimSpace (extractAssistantText (jr_String J) (jr_Parts J) (te_Content e))
           in t \<noteq> [] \<and> t \<noteq> ''No response requested.''))"

definition jsonlHasRealAssistantContent :: "json_reader \<Rightarrow> faults \<Rightarrow> path \<Rightarrow> disk \<Rightarrow> session_error + bool" where
  "jsonlHasRealAssistantContent J F p d =
     (case os_ReadFile F p d of
        Inl e \<Rightarrow> Inl (OpenFailed e)
      | Inr data \<Rightarrow> Inr (list_ex (real_line J) (fst (jr_Lines J data))))"

definition transcript_mtime :: "disk \<Rightarrow> path \<Rightarrow> time option" where
  "transcript_mtime d p = (case mget d p of Some (FileN _ t) \<Rightarrow> Some t | _ \<Rightarrow> None)"

definition newer :: "disk \<Rightarrow> path \<Rightarrow> string \<Rightarrow> (path \<times> time) option \<Rightarrow> (path \<times> time) option" where
  "newer d dir name best =
     (if \<not> has_suffix name ''.jsonl'' then best
      else case transcript_mtime d (dir @ [name]) of
             None \<Rightarrow> best
           | Some t \<Rightarrow> (case best of None \<Rightarrow> Some (dir @ [name], t) | Some (p, t0) \<Rightarrow> if t0 < t then Some (dir @ [name], t) else best))"

definition latestClaudeJSONL :: "faults \<Rightarrow> string \<Rightarrow> disk \<Rightarrow> session_error + path option" where
  "latestClaudeJSONL F worktree d =
     (if worktree = [] then Inr None
      else let dir = ProjectDirFor worktree
           in case os_ReadDir F dir d of
                Inl e \<Rightarrow> if not_exist e then Inr None else Inl (DirUnreadable e)
              | Inr names \<Rightarrow> Inr (map_option fst (fold (newer d dir) names None)))"

definition IsClaudeSessionDead :: "json_reader \<Rightarrow> faults \<Rightarrow> string \<Rightarrow> disk \<Rightarrow> bool \<times> path option \<times> session_error option" where
  "IsClaudeSessionDead J F worktree d =
     (case latestClaudeJSONL F worktree d of
        Inl e \<Rightarrow> (False, None, Some e)
      | Inr None \<Rightarrow> (True, None, None)
      | Inr (Some p) \<Rightarrow>
          (case jsonlHasRealAssistantContent J F p d of
             Inl e \<Rightarrow> (False, Some p, Some e)
           | Inr alive \<Rightarrow> (\<not> alive, Some p, None)))"

definition trim_suffix :: "string \<Rightarrow> string \<Rightarrow> string" where
  "trim_suffix s suf = (if has_suffix s suf then take (length s - length suf) s else s)"

definition FindClaudeSession :: "json_reader \<Rightarrow> faults \<Rightarrow> string \<Rightarrow> disk \<Rightarrow> string" where
  "FindClaudeSession J F worktree d =
     (case latestClaudeJSONL F worktree d of
        Inr (Some p) \<Rightarrow>
          (case jsonlHasRealAssistantContent J F p d of
             Inr True \<Rightarrow> (let u = trim_suffix (last p) ''.jsonl'' in if is_session_uuid u then u else [])
           | _ \<Rightarrow> [])
      | _ \<Rightarrow> [])"

section \<open>Moving a transcript\<close>

text \<open>
  \<open>holder\<close> is the answer of \<^verbatim>\<open>SessionActive\<close>: the process that has the transcript open, 0 for none, or an error.
\<close>

definition NormalizeSessionBucket ::
    "faults \<Rightarrow> session_error + int \<Rightarrow> string \<Rightarrow> string \<Rightarrow> disk \<Rightarrow> disk \<times> (session_error + bool)" where
  "NormalizeSessionBucket F holder uuid worktree d =
     (if \<not> is_session_uuid uuid \<or> worktree = [] then (d, Inr False)
      else case SessionPath uuid d of
        Inl NoTranscript \<Rightarrow> (d, Inr False)
      | Inl e \<Rightarrow> (d, Inl e)
      | Inr src \<Rightarrow>
          (let dir = ProjectDirFor worktree; dst = dir @ [jsonl uuid]
           in if butlast src = dir then (d, Inr False)
              else case holder of
                Inl e \<Rightarrow> (d, Inl e)
              | Inr pid \<Rightarrow>
                  if pid \<noteq> 0 then (d, Inr False)
                  else if os_Exists F dst d then (d, Inl (AlreadyPresent dst))
                  else case os_MkdirAll F dir d of
                    (d1, Some e) \<Rightarrow> (d1, Inl (BucketFailed e))
                  | (d1, None) \<Rightarrow>
                      (let side = butlast src @ [uuid];
                           r = (if \<not> F (StatCall side) \<and> mget d1 side = Some DirN then os_Rename F side (dir @ [uuid]) d1 else (d1, None))
                       in case r of
                            (d2, Some e) \<Rightarrow> (d2, Inl (SidecarFailed e))
                          | (d2, None) \<Rightarrow>
                              (case os_Rename F src dst d2 of
                                 (d3, Some e) \<Rightarrow> (d3, Inl (TranscriptFailed e))
                               | (d3, None) \<Rightarrow> (d3, Inr True)))))"

section \<open>Ending a session by force\<close>

text \<open>
  \<open>fails\<close> says for which signal the call returns an error other than \<^verbatim>\<open>ESRCH\<close>; \<^verbatim>\<open>os.Process.Signal\<close> reports a
  process that is already gone as \<^verbatim>\<open>ErrProcessDone\<close>, which is such an error.  \<open>polls\<close> are the answers of
  \<^verbatim>\<open>SessionActive\<close> before the deadline and \<open>late\<close> the ones, thirty at most, behind the second signal.  The result
  holds the signals that were sent.
\<close>

datatype os_signal = SIGTERM | SIGKILL

fun poll_free :: "(session_error + int) list \<Rightarrow> session_error option option" where
  "poll_free [] = None"
| "poll_free (Inl e # ps) = Some (Some e)"
| "poll_free (Inr pid # ps) = (if pid = 0 then Some None else poll_free ps)"

definition ForceExitSession ::
    "session_error + int \<Rightarrow> (os_signal \<Rightarrow> bool) \<Rightarrow> (session_error + int) list \<Rightarrow> (session_error + int) list \<Rightarrow>
     (os_signal \<times> int) list \<times> session_error option" where
  "ForceExitSession holder fails polls late =
     (case holder of
        Inl e \<Rightarrow> ([], Some e)
      | Inr pid \<Rightarrow>
          if pid = 0 then ([], None)
          else if fails SIGTERM then ([(SIGTERM, pid)], Some SignalFailed)
          else case poll_free polls of
            Some r \<Rightarrow> ([(SIGTERM, pid)], r)
          | None \<Rightarrow>
              if fails SIGKILL then ([(SIGTERM, pid), (SIGKILL, pid)], Some SignalFailed)
              else ([(SIGTERM, pid), (SIGKILL, pid)],
                    case poll_free (take 30 late) of Some r \<Rightarrow> r | None \<Rightarrow> Some StillHeld))"

section \<open>The input history\<close>

text \<open>
  The variable \<^verbatim>\<open>match\<close> outlives a line: decoding writes the fields a line has and leaves the others as the line
  before left them.  \<open>decode\<close> gives, for a line, whether decoding succeeded and what it wrote.
\<close>

record history_match =
  hm_SessionID :: string
  hm_Display :: string

type_synonym history_decode = "string \<Rightarrow> bool \<times> string option \<times> string option"

definition decode_into :: "bool \<times> string option \<times> string option \<Rightarrow> history_match \<Rightarrow> history_match" where
  "decode_into r m =
     \<lparr>hm_SessionID = (case fst (snd r) of Some s \<Rightarrow> s | None \<Rightarrow> hm_SessionID m),
      hm_Display = (case snd (snd r) of Some s \<Rightarrow> s | None \<Rightarrow> hm_Display m)\<rparr>"

definition authored :: "string \<Rightarrow> string list \<Rightarrow> history_match \<Rightarrow> bool" where
  "authored uuid pres m \<longleftrightarrow>
     hm_SessionID m = uuid \<and> list_ex (\<lambda>p. p \<noteq> [] \<and> has_prefix (hm_Display m) p) pres"

fun purge_lines :: "history_decode \<Rightarrow> string \<Rightarrow> string list \<Rightarrow> history_match \<Rightarrow> string list \<Rightarrow> string list" where
  "purge_lines decode uuid pres m [] = []"
| "purge_lines decode uuid pres m (l # ls) =
     (let m' = decode_into (decode l) m
      in if fst (decode l) \<and> authored uuid pres m' then purge_lines decode uuid pres m' ls
         else l # purge_lines decode uuid pres m' ls)"

definition unlines :: "string list \<Rightarrow> string" where
  "unlines ls = concat (map (\<lambda>l. l @ [CHR 0x0A]) ls)"

definition PurgeClaudePrimingHistory ::
    "json_reader \<Rightarrow> history_decode \<Rightarrow> faults \<Rightarrow> time \<Rightarrow> nat \<Rightarrow> string list \<Rightarrow> path \<Rightarrow> string \<Rightarrow> string list \<Rightarrow> disk \<Rightarrow>
     disk \<times> io_error option" where
  "PurgeClaudePrimingHistory J decode F now part rnds p uuid pres d =
     (if p = [] \<or> uuid = [] \<or> pres = [] then (d, None)
      else case os_ReadFile F p d of
        Inl e \<Rightarrow> (d, if not_exist e then None else Some e)
      | Inr data \<Rightarrow>
          (case os_CreateTemp F now (butlast p) (last p) rnds d of
             (d1, Inl e) \<Rightarrow> (d1, Some e)
           | (d1, Inr tmp) \<Rightarrow>
               (let ls = jr_Lines J data;
                    out = unlines (purge_lines decode uuid pres \<lparr>hm_SessionID = [], hm_Display = []\<rparr> (fst ls))
                in case os_Write F now part tmp out d1 of
                     (d2, Some e) \<Rightarrow> (fst (os_Remove F tmp d2), Some e)
                   | (d2, None) \<Rightarrow>
                       if snd ls then (fst (os_Remove F tmp d2), Some (Failed (ReadFile p)))
                       else case os_Close F tmp of
                         Some e \<Rightarrow> (fst (os_Remove F tmp d2), Some e)
                       | None \<Rightarrow>
                           (case os_Rename F tmp p d2 of
                              (d3, Some e) \<Rightarrow> (fst (os_Remove F tmp d3), Some e)
                            | (d3, None) \<Rightarrow> (d3, None)))))"

definition ClaudePrimingPrefixes :: "string list" where
  "ClaudePrimingPrefixes =
     [''You have been spawned by OpenKanban for focused work on one ticket.'',
      ''OpenKanban has scoped this session to ticket '' @ [CHR 0x22]]"

definition history_path :: path where "history_path = [''.claude'', ''history.jsonl'']"

definition DeleteClaudeSession ::
    "json_reader \<Rightarrow> history_decode \<Rightarrow> faults \<Rightarrow> time \<Rightarrow> nat \<Rightarrow> string list \<Rightarrow> path \<Rightarrow> disk \<Rightarrow> disk \<times> io_error option" where
  "DeleteClaudeSession J decode F now part rnds p d =
     (if p = [] then (d, None)
      else case os_Remove F p d of
        (d1, Some e) \<Rightarrow> (d1, Some e)
      | (d1, None) \<Rightarrow>
          (let u = trim_suffix (last p) ''.jsonl''
           in if \<not> is_session_uuid u then (d1, None)
              else (fst (PurgeClaudePrimingHistory J decode F now part rnds history_path u ClaudePrimingPrefixes d1), None)))"

section \<open>The newest transcript\<close>

definition newest :: "disk \<Rightarrow> path \<Rightarrow> string set \<Rightarrow> (path \<times> time) option \<Rightarrow> bool" where
  "newest d dir names best \<longleftrightarrow>
     (case best of
        None \<Rightarrow> \<forall>n \<in> names. has_suffix n ''.jsonl'' \<longrightarrow> transcript_mtime d (dir @ [n]) = None
      | Some (p, t) \<Rightarrow>
          (\<exists>n \<in> names. p = dir @ [n] \<and> has_suffix n ''.jsonl'' \<and> transcript_mtime d p = Some t) \<and>
          (\<forall>n \<in> names. has_suffix n ''.jsonl'' \<longrightarrow> (\<forall>t'. transcript_mtime d (dir @ [n]) = Some t' \<longrightarrow> t' \<le> t)))"

lemma newest_step: "newest d dir names best \<Longrightarrow> newest d dir (insert n names) (newer d dir n best)"
  by (auto simp: newest_def newer_def split: option.splits if_splits prod.splits)

lemma newest_fold: "newest d dir names0 best \<Longrightarrow> newest d dir (names0 \<union> set names) (fold (newer d dir) names best)"
proof (induction names arbitrary: names0 best)
  case (Cons n names)
  from Cons.IH [OF newest_step [OF Cons.prems, of n]] show ?case by simp
qed simp

lemma latest_newest:
  assumes "latestClaudeJSONL F worktree d = Inr (Some p)"
  shows "\<exists>n t. p = ProjectDirFor worktree @ [n] \<and> has_suffix n ''.jsonl'' \<and> transcript_mtime d p = Some t \<and> worktree \<noteq> []"
proof -
  from assms obtain names t where names: "os_ReadDir F (ProjectDirFor worktree) d = Inr names" "worktree \<noteq> []"
    and best: "fold (newer d (ProjectDirFor worktree)) names None = Some (p, t)"
    by (auto simp: latestClaudeJSONL_def Let_def split: if_splits sum.splits)
  have "newest d (ProjectDirFor worktree) (set names) (Some (p, t))"
    using newest_fold [of d "ProjectDirFor worktree" "{}" None names] best by (simp add: newest_def)
  with names show ?thesis by (auto simp: newest_def)
qed

lemma trim_suffix_jsonl: "has_suffix n ''.jsonl'' \<Longrightarrow> n = jsonl (trim_suffix n ''.jsonl'')"
  by (auto simp: trim_suffix_def jsonl_def suffix_def)

text \<open>
  The session that is written back to a ticket is one the ticket can be resumed with: it is not a dead one, its
  transcript is the one the deadness test looks at, and the CLI will find it from the same worktree.
\<close>
theorem found_session_resumable:
  assumes "FindClaudeSession J F worktree d = u" and "u \<noteq> []"
  shows "IsClaudeSessionDead J F worktree d = (False, Some (ProjectDirFor worktree @ [jsonl u]), None) \<and>
    ResumeResolvable (\<lambda>_. False) u worktree d"
proof -
  from assms obtain p where p: "latestClaudeJSONL F worktree d = Inr (Some p)" "jsonlHasRealAssistantContent J F p d = Inr True"
    and u: "u = trim_suffix (last p) ''.jsonl''" "is_session_uuid u"
    by (auto simp: FindClaudeSession_def Let_def split: sum.splits option.splits bool.splits if_splits)
  from latest_newest [OF p(1)] obtain n t where n: "p = ProjectDirFor worktree @ [n]" "has_suffix n ''.jsonl''"
    "transcript_mtime d p = Some t" "worktree \<noteq> []" by blast
  then have "n = jsonl u" using trim_suffix_jsonl [OF n(2)] u(1) by simp
  with n p u show ?thesis
    by (auto simp: IsClaudeSessionDead_def ResumeResolvable_def os_Exists_def transcript_mtime_def split: option.splits)
qed

text \<open>
  A transcript that the scanner gives up on is judged by the lines before that point: the error is not looked at, so a
  session whose first over-long line comes before any answer counts as dead, and is offered for deletion.
\<close>
lemma overlong_line_counts_as_dead:
  assumes "latestClaudeJSONL F worktree d = Inr (Some p)" "os_ReadFile F p d = Inr data" "jr_Lines J data = ([], True)"
  shows "IsClaudeSessionDead J F worktree d = (True, Some p, None)"
  using assms by (simp add: IsClaudeSessionDead_def jsonlHasRealAssistantContent_def)

section \<open>A transcript is moved or stays, never lost\<close>

lemma mget_move_tree_other: "\<not> prefix p x \<Longrightarrow> \<not> prefix q x \<Longrightarrow> mget (move_tree p q d) x = mget d x"
  by (induction d) (auto simp: move_tree_def)

lemma mget_os_Rename_other:
  "\<not> prefix p x \<Longrightarrow> \<not> prefix q x \<Longrightarrow> mget (fst (os_Rename F p q d)) x = mget d x"
  by (auto simp: os_Rename_def mget_move_tree_other split: option.splits node.splits)

lemma jsonl_not_side: "\<not> prefix (b @ [u]) (b' @ [jsonl u])" if "length b = length b'"
proof
  assume "prefix (b @ [u]) (b' @ [jsonl u])"
  with that have "u = jsonl u" by (auto simp: prefix_def append_eq_append_conv)
  then show False by (simp add: jsonl_def)
qed

lemma SessionPath_shape:
  assumes "SessionPath uuid d = Inr src"
  shows "\<exists>b. src = claudeProjectsRoot @ [b, jsonl uuid] \<and> mget d src \<noteq> None \<and> is_session_uuid uuid"
proof -
  from assms have "src \<in> set (session_glob uuid d)" "is_session_uuid uuid"
    by (auto simp: SessionPath_def split: if_splits list.splits)
  then show ?thesis by (auto simp: session_glob_def)
qed

lemma normalize_cases:
  assumes "NormalizeSessionBucket F holder uuid worktree d = (d', r)" and "SessionPath uuid d = Inr src"
    and "mget d src = Some (FileN c m)"
  defines "dst \<equiv> ProjectDirFor worktree @ [jsonl uuid]"
  shows "(r = Inr True \<and> mget d' dst = Some (FileN c m) \<and> mget d' src = None \<and> src \<noteq> dst) \<or>
         (r \<noteq> Inr True \<and> mget d' src = Some (FileN c m))"
proof -
  obtain b where src: "src = claudeProjectsRoot @ [b, jsonl uuid]"
    using SessionPath_shape [OF assms(2)] by blast
  let ?dir = "ProjectDirFor worktree"
  let ?side = "butlast src @ [uuid]"
  have side: "\<not> prefix ?side src" "\<not> prefix (?dir @ [uuid]) src"
    using jsonl_not_side [of "claudeProjectsRoot @ [b]" "claudeProjectsRoot @ [b]" uuid]
      jsonl_not_side [of ?dir "claudeProjectsRoot @ [b]" uuid] by (simp_all add: src butlast_append ProjectDirFor_def)
  obtain d1 e1 where mk: "os_MkdirAll F ?dir d = (d1, e1)" by fastforce
  have keep1: "mget d1 src = Some (FileN c m)"
    using mget_os_MkdirAll(2) [of d src F ?dir] assms(3) mk by simp
  obtain d2 e2 where sd: "(if \<not> F (StatCall ?side) \<and> mget d1 ?side = Some DirN then os_Rename F ?side (?dir @ [uuid]) d1 else (d1, None)) = (d2, e2)"
    by fastforce
  have keep2: "mget d2 src = Some (FileN c m)"
    using sd keep1 mget_os_Rename_other [OF side, of F d1] by (auto split: if_splits)
  obtain d3 e3 where rn: "os_Rename F src dst d2 = (d3, e3)" by fastforce
  show ?thesis
  proof (cases "is_session_uuid uuid \<and> worktree \<noteq> [] \<and> butlast src \<noteq> ?dir \<and> holder = Inr 0 \<and> \<not> os_Exists F dst d \<and> e1 = None \<and> e2 = None")
    case True
    then have res: "(d', r) = (d3, case e3 of Some e \<Rightarrow> Inl (TranscriptFailed e) | None \<Rightarrow> Inr True)"
      using assms(1,2) mk sd rn
      by (simp add: NormalizeSessionBucket_def Let_def dst_def split: option.splits)
    have "src \<noteq> dst"
      using True by (auto simp: dst_def)
    show ?thesis
    proof (cases e3)
      case None
      with rn keep2 have "d3 = mput dst (FileN c m) (mdel src d2)"
        by (auto simp: os_Rename_def split: if_splits)
      with None res \<open>src \<noteq> dst\<close> show ?thesis by simp
    next
      case (Some e)
      with rn have "d3 = d2" using os_Rename_err by blast
      with Some keep2 res show ?thesis by simp
    qed
  next
    case False
    then have "r \<noteq> Inr True \<and> (d' = d \<or> d' = d1 \<or> d' = d2)"
      using assms(1,2) mk sd
      by (auto simp: NormalizeSessionBucket_def Let_def dst_def split: if_splits sum.splits option.splits)
    with keep1 keep2 assms(3) show ?thesis by auto
  qed
qed

text \<open>C20: 
  Whatever fails on the way, a call leaves the transcript, with its content, either where it was or in the bucket of the
  worktree, and says which: after a move the CLI finds it from the worktree and the old place is empty, and in every
  other case nothing has happened to it.
\<close>
theorem normalize_never_loses:
  assumes "SessionPath uuid d = Inr src" and "mget d src = Some (FileN c m)"
    and "NormalizeSessionBucket F holder uuid worktree d = (d', r)"
  shows "(r = Inr True \<and> mget d' (ProjectDirFor worktree @ [jsonl uuid]) = Some (FileN c m) \<and> mget d' src = None) \<or>
         (r \<noteq> Inr True \<and> mget d' src = Some (FileN c m))"
  using normalize_cases [OF assms(3,1,2)] by blast

text \<open>
  And it does move: with no process holding it, no faults, and nothing of that name in the worktree's bucket yet, a
  transcript found in any other bucket is afterwards one the CLI can resume from the worktree.
\<close>
theorem normalize_makes_resumable:
  assumes "SessionPath uuid d = Inr src" and "mget d src = Some (FileN c m)" and "worktree \<noteq> []"
    and "butlast src \<noteq> ProjectDirFor worktree"
    and "mget d (ProjectDirFor worktree @ [jsonl uuid]) = None" and "mget d (ProjectDirFor worktree @ [uuid]) = None"
    and "\<forall>q. prefix q (ProjectDirFor worktree) \<longrightarrow> \<not> is_file d q"
  shows "\<exists>d'. NormalizeSessionBucket (\<lambda>_. False) (Inr 0) uuid worktree d = (d', Inr True) \<and>
    ResumeResolvable (\<lambda>_. False) uuid worktree d'"
proof -
  let ?F = "\<lambda>_::syscall. False"
  let ?dir = "ProjectDirFor worktree"
  let ?dst = "?dir @ [jsonl uuid]"
  let ?side = "butlast src @ [uuid]"
  obtain b where src: "src = claudeProjectsRoot @ [b, jsonl uuid]" and uuid: "is_session_uuid uuid"
    using SessionPath_shape [OF assms(1)] by blast
  obtain d' r where call: "NormalizeSessionBucket ?F (Inr 0) uuid worktree d = (d', r)" by fastforce
  have nofile: "find (is_file d) (prefixes_of ?dir) = None"
    using assms(7) by (auto simp: find_None_iff prefixes_of_def take_is_prefix)
  obtain d1 where mk: "os_MkdirAll ?F ?dir d = (d1, None)"
    and d1: "\<And>q. mget d1 q = (if mget d q = None \<and> q \<in> set (prefixes_of ?dir) then Some DirN else mget d q)"
    by (simp add: os_MkdirAll_def nofile mget_mkdir_fold)
  have dirN: "mget d1 ?dir = Some DirN"
    using os_MkdirAll_ok [OF mk] by (simp add: ProjectDirFor_def)
  have short: "?dir @ [x] \<notin> set (prefixes_of ?dir)" for x
    by (auto simp: prefixes_of_def dest!: arg_cong [where f = length])
  have none: "mget d1 ?dst = None" "mget d1 (?dir @ [uuid]) = None"
    using d1 short assms(5,6) by simp_all
  have keep1: "mget d1 src = Some (FileN c m)"
    using mget_os_MkdirAll(2) [of d src ?F ?dir] assms(2) mk by simp
  have sides: "\<not> prefix ?side src" "\<not> prefix (?dir @ [uuid]) src" "\<not> prefix ?side ?dst" "\<not> prefix (?dir @ [uuid]) ?dst"
    "\<not> prefix ?side ?dir" "\<not> prefix (?dir @ [uuid]) ?dir"
    using jsonl_not_side [of "claudeProjectsRoot @ [b]" "claudeProjectsRoot @ [b]" uuid]
      jsonl_not_side [of ?dir "claudeProjectsRoot @ [b]" uuid] jsonl_not_side [of "claudeProjectsRoot @ [b]" ?dir uuid]
      jsonl_not_side [of ?dir ?dir uuid]
    by (auto simp: src butlast_append ProjectDirFor_def prefix_def)
  obtain d2 where d2: "(if mget d1 ?side = Some DirN then os_Rename ?F ?side (?dir @ [uuid]) d1 else (d1, None)) = (d2, None)"
  proof (cases "mget d1 ?side = Some DirN")
    case True
    then have "os_Rename ?F ?side (?dir @ [uuid]) d1 = (move_tree ?side (?dir @ [uuid]) d1, None)"
      using dirN none(2) by (simp add: os_Rename_def parent_ok_def)
    with True that show ?thesis by simp
  next
    case False
    with that show ?thesis by simp
  qed
  have same2: "mget d2 x = mget d1 x" if "\<not> prefix ?side x" "\<not> prefix (?dir @ [uuid]) x" for x
    using d2 mget_os_Rename_other [OF that, of ?F d1] by (auto split: if_splits)
  have "os_Rename ?F src ?dst d2 = (mput ?dst (FileN c m) (mdel src d2), None)"
    using same2 sides keep1 none dirN by (simp add: os_Rename_def parent_ok_def)
  then have "r = Inr True"
    using call assms(1,3,4,5) uuid mk d2
    by (simp add: NormalizeSessionBucket_def Let_def os_Exists_def)
  with normalize_never_loses [OF assms(1,2) call] call uuid assms(3) show ?thesis
    by (auto simp: ResumeResolvable_def os_Exists_def)
qed

section \<open>Purging the history\<close>

text \<open>
  Where every line that decodes has both fields, nothing is carried over and the purge drops the entries of the session
  that begin with a prefix, and keeps every other line, malformed ones included, verbatim and in order.
\<close>
definition authored_line :: "history_decode \<Rightarrow> string \<Rightarrow> string list \<Rightarrow> string \<Rightarrow> bool" where
  "authored_line decode uuid pres l \<longleftrightarrow>
     (case decode l of
        (True, Some s, Some t) \<Rightarrow> authored uuid pres \<lparr>hm_SessionID = s, hm_Display = t\<rparr>
      | _ \<Rightarrow> False)"

definition both_fields :: "history_decode \<Rightarrow> string \<Rightarrow> bool" where
  "both_fields decode l \<longleftrightarrow> (fst (decode l) \<longrightarrow> fst (snd (decode l)) \<noteq> None \<and> snd (snd (decode l)) \<noteq> None)"

lemma authored_line_fresh:
  "both_fields decode l \<Longrightarrow>
   fst (decode l) \<and> authored uuid pres (decode_into (decode l) m) \<longleftrightarrow> authored_line decode uuid pres l"
  by (cases "decode l" rule: prod_cases3) (auto simp: both_fields_def authored_line_def decode_into_def split: option.splits bool.splits)

theorem purge_exact:
  assumes "\<forall>l \<in> set ls. both_fields decode l"
  shows "purge_lines decode uuid pres m ls = filter (\<lambda>l. \<not> authored_line decode uuid pres l) ls"
  using assms
proof (induction ls arbitrary: m)
  case (Cons l ls)
  from Cons.prems have "both_fields decode l" by simp
  then show ?case
    using Cons.IH [of "decode_into (decode l) m"] Cons.prems authored_line_fresh [of decode l uuid pres m]
    by (simp add: Let_def)
qed simp

text \<open>
  Without that: a line that decodes with neither field, which is the user's own, is judged by what the line before it
  left behind, and goes with it.
\<close>
lemma purge_drops_carried:
  assumes "authored_line decode uuid pres l" and "decode l' = (True, None, None)"
  shows "purge_lines decode uuid pres m (l # l' # ls) =
    purge_lines decode uuid pres (decode_into (decode l) m) ls"
  using assms by (auto simp: authored_line_def decode_into_def Let_def split: prod.splits option.splits bool.splits)

lemma authored_nonempty: "authored_line decode uuid pres l \<Longrightarrow> uuid \<noteq> [] \<Longrightarrow> pres \<noteq> []"
  by (auto simp: authored_line_def authored_def split: prod.splits option.splits bool.splits)

text \<open>
  The two refusals: without a session or without prefixes nothing is touched.  And a purge that fails leaves the history
  as it was.
\<close>
lemma purge_not_wildcard: "uuid = [] \<or> pres = [] \<Longrightarrow> PurgeClaudePrimingHistory J decode F now part rnds p uuid pres d = (d, None)"
  by (auto simp: PurgeClaudePrimingHistory_def)

lemma mget_temp: "os_CreateTemp F now dir name rnds d = (d1, Inr tmp) \<Longrightarrow> mget d x \<noteq> None \<Longrightarrow> mget d1 x = mget d x \<and> x \<noteq> tmp"
  using os_CreateTemp_ok [of F now dir name rnds d d1 tmp] by auto

theorem purge_failure_keeps_history:
  assumes "PurgeClaudePrimingHistory J decode F now part rnds p uuid pres d = (d', Some e)" and "mget d p \<noteq> None"
  shows "mget d' p = mget d p"
proof (cases "os_CreateTemp F now (butlast p) (last p) rnds d")
  case (Pair d1 t)
  obtain data where rd: "os_ReadFile F p d = Inr data \<or> d' = d"
    using assms by (auto simp: PurgeClaudePrimingHistory_def split: if_splits sum.splits)
  show ?thesis
  proof (cases t)
    case (Inl e)
    have "d1 = d" using os_CreateTemp_err Pair Inl by metis
    with rd Pair Inl assms show ?thesis
      by (auto simp: PurgeClaudePrimingHistory_def split: if_splits sum.splits)
  next
    case (Inr tmp)
    define out where "out = unlines (purge_lines decode uuid pres \<lparr>hm_SessionID = [], hm_Display = []\<rparr> (fst (jr_Lines J data)))"
    obtain d2 e2 where wr: "os_Write F now part tmp out d1 = (d2, e2)" by fastforce
    obtain d3 e3 where rn: "os_Rename F tmp p d2 = (d3, e3)" by fastforce
    have neq: "p \<noteq> tmp" and k1: "mget d1 p = mget d p"
      using mget_temp [of F now "butlast p" "last p" rnds d d1 tmp p] Pair Inr assms(2) by simp_all
    have k2: "mget d2 p = mget d p"
      using mget_os_Write [OF neq, of F now part out d1] wr k1 by simp
    have r: "mget (fst (os_Remove F tmp d2)) p = mget d p"
      using mget_os_Remove [of F tmp d2 p] k2 neq by simp
    have r3: "mget (fst (os_Remove F tmp d3)) p = mget d p" if "e3 \<noteq> None"
      using that rn os_Rename_err [of F tmp p d2 d3] r by auto
    from rd show ?thesis
    proof
      assume "os_ReadFile F p d = Inr data"
      with assms(1) Pair Inr wr rn r r3 show ?thesis
        by (auto simp: PurgeClaudePrimingHistory_def Let_def out_def split: if_splits option.splits)
    qed simp
  qed
qed

section \<open>Force exit\<close>

lemma poll_free_Some: "poll_free ps = Some None \<Longrightarrow> Inr 0 \<in> set ps"
  by (induction ps rule: poll_free.induct) (auto split: if_splits)

text \<open>
  Success means that the process was seen to be gone; every signal goes to the process that held the transcript when the
  call began; and it is killed only after it was asked to leave and did not within the time.
\<close>
theorem force_exit_sound:
  "case ForceExitSession holder fails polls late of (sent, r) \<Rightarrow>
     (r = None \<longrightarrow> holder = Inr 0 \<or> Inr 0 \<in> set polls \<or> Inr 0 \<in> set (take 30 late)) \<and>
     (\<forall>(sg, pid) \<in> set sent. holder = Inr pid \<and> pid \<noteq> 0) \<and>
     (SIGKILL \<in> fst ` set sent \<longrightarrow> map fst sent = [SIGTERM, SIGKILL] \<and> Inr 0 \<notin> set polls)"
proof -
  have "poll_free polls = None \<Longrightarrow> Inr 0 \<notin> set polls"
    by (induction polls rule: poll_free.induct) (auto split: if_splits)
  then show ?thesis
    using poll_free_Some [of polls] poll_free_Some [of "take 30 late"]
    by (auto simp: ForceExitSession_def split: sum.splits option.splits)
qed

section \<open>The point between the two renames\<close>

text \<open>
  The side directory goes first, so when the second rename does not happen the transcript is still in its old bucket,
  without its side directory, which is already in the new one.
\<close>
definition split_home :: disk where
  "split_home =
     [([''.claude''], DirN), ([''.claude'', ''projects''], DirN), ([''.claude'', ''projects'', ''-old''], DirN),
      ([''.claude'', ''projects'', ''-old'', ''01234567-0123-0123-0123-0123456789ab''], DirN),
      ([''.claude'', ''projects'', ''-old'', ''01234567-0123-0123-0123-0123456789ab.jsonl''], FileN ''x'' 1)]"

definition split_src :: path where
  "split_src = [''.claude'', ''projects'', ''-old'', ''01234567-0123-0123-0123-0123456789ab.jsonl'']"

definition split_dst :: path where
  "split_dst = [''.claude'', ''projects'', ''-w'', ''01234567-0123-0123-0123-0123456789ab.jsonl'']"

lemma sidecar_moves_alone:
  "(case NormalizeSessionBucket (\<lambda>c. c = Rename split_src split_dst) (Inr 0) ''01234567-0123-0123-0123-0123456789ab'' ''/w'' split_home of
      (d, r) \<Rightarrow>
        r = Inl (TranscriptFailed (Failed (Rename split_src split_dst))) \<and>
        mget d split_src = Some (FileN ''x'' 1) \<and>
        mget d [''.claude'', ''projects'', ''-old'', ''01234567-0123-0123-0123-0123456789ab''] = None \<and>
        mget d [''.claude'', ''projects'', ''-w'', ''01234567-0123-0123-0123-0123456789ab''] = Some DirN)"
  by code_simp

text \<open>
  A holder that leaves between the look-up and the first signal, which is what the caller wants, is reported as a
  failure: the error of that signal is not the one the code exempts.
\<close>
lemma gone_holder_is_an_error:
  "pid \<noteq> 0 \<Longrightarrow> fails SIGTERM \<Longrightarrow> ForceExitSession (Inr pid) fails polls late = ([(SIGTERM, pid)], Some SignalFailed)"
  by (simp add: ForceExitSession_def)

text \<open>Only a non-empty line that is not a number makes the answer of a running \<^verbatim>\<open>lsof\<close> an error.\<close>
lemma first_pid_cases:
  "case first_pid ls of
     Inl e \<Rightarrow> \<exists>l \<in> set ls. TrimSpace l \<noteq> [] \<and> Atoi (TrimSpace l) = None \<and> e = BadPid (TrimSpace l)
   | Inr n \<Rightarrow> (n = 0 \<and> (\<forall>l \<in> set ls. TrimSpace l = [])) \<or> (\<exists>l \<in> set ls. Atoi (TrimSpace l) = Some n)"
  by (induction ls) (auto simp: Let_def split: option.splits sum.splits)

lemma session_active_examples:
  "first_pid (split_lines [] (TrimSpace (''812'' @ [CHR 0x0A] @ ''95'' @ [CHR 0x0A]))) = Inr 812"
  "first_pid (split_lines [] (TrimSpace [])) = Inr 0"
  "first_pid (split_lines [] (TrimSpace ''x1'')) = Inl (BadPid ''x1'')"
  by code_simp+

text \<open>A witness of the safety of a move: one that fails between its two renames.\<close>
theorem normalize_never_loses_witness:
  "\<exists>d' r. NormalizeSessionBucket (\<lambda>c. c = Rename split_src split_dst) (Inr 0) ''01234567-0123-0123-0123-0123456789ab'' ''/w'' split_home = (d', r) \<and>
     r \<noteq> Inr True \<and> mget d' split_src = Some (FileN ''x'' 1)"
proof -
  let ?N = "NormalizeSessionBucket (\<lambda>c. c = Rename split_src split_dst) (Inr 0) ''01234567-0123-0123-0123-0123456789ab'' ''/w'' split_home"
  have path: "SessionPath ''01234567-0123-0123-0123-0123456789ab'' split_home = Inr split_src" by code_simp
  have src: "mget split_home split_src = Some (FileN ''x'' 1)" by code_simp
  have "snd ?N \<noteq> Inr True" using sidecar_moves_alone by (auto split: prod.splits)
  moreover obtain d' r where n: "?N = (d', r)" by fastforce
  ultimately show ?thesis using normalize_never_loses [OF path src n] by auto
qed

end
