(* ===== verification/Hooks.thy ===== *)
theory Hooks
  imports ClaudeSettings Migration GoStrings
begin

text \<open>
  \<^verbatim>\<open>cmd/hooks.go\<close>: the entries that make Claude Code report an agent's status, merged into the user's settings file and
  taken out of it again.

  A settings value is the JSON value of ClaudeSettings; \<open>decode\<close> and \<open>encode\<close> are the JSON library.  The disk is that
  of Disk.  Printed output is left out.
\<close>

section \<open>Entries\<close>

definition hookCommandPrefix :: string where
  "hookCommandPrefix = ''openkanban status set ''"

record hookEntry =
  he_Event :: string
  he_Command :: string

definition managedHooks :: "hookEntry list" where
  "managedHooks =
     [\<lparr>he_Event = ''SessionStart'', he_Command = ''openkanban status set working''\<rparr>,
      \<lparr>he_Event = ''UserPromptSubmit'', he_Command = ''openkanban status set working''\<rparr>,
      \<lparr>he_Event = ''PostToolUse'', he_Command = ''openkanban status set working''\<rparr>,
      \<lparr>he_Event = ''Stop'', he_Command = ''openkanban status set idle''\<rparr>,
      \<lparr>he_Event = ''Notification'', he_Command = ''openkanban status set waiting''\<rparr>]"

definition canonicalEntry :: "string \<Rightarrow> json" where
  "canonicalEntry command =
     JObj [(''hooks'', JArr [JObj [(''type'', JStr ''command''), (''command'', JStr command)]])]"

definition our_command :: "json \<Rightarrow> bool" where
  "our_command h =
     (case h of
        JObj hobj \<Rightarrow> has_prefix (case mget hobj ''command'' of Some (JStr c) \<Rightarrow> c | _ \<Rightarrow> []) hookCommandPrefix
      | _ \<Rightarrow> False)"

definition isOursOrEmpty :: "json \<Rightarrow> bool" where
  "isOursOrEmpty item =
     (case item of
        JObj obj \<Rightarrow> (case mget obj ''hooks'' of Some (JArr inner) \<Rightarrow> list_ex our_command inner | _ \<Rightarrow> False)
      | _ \<Rightarrow> False)"

section \<open>Merging\<close>

datatype hooks_error =
    HooksNotObject
  | EventNotArray string
  | HooksRead io_error
  | HooksParse
  | HooksBackup io_error
  | HooksParent io_error
  | HooksTemp io_error
  | HooksRename io_error

fun replace_ours :: "json \<Rightarrow> json list \<Rightarrow> json list option" where
  "replace_ours c [] = None"
| "replace_ours c (x # xs) = (if isOursOrEmpty x then Some (c # xs) else map_option (Cons x) (replace_ours c xs))"

definition upsertEventEntry :: "settings \<Rightarrow> hookEntry \<Rightarrow> hooks_error + settings" where
  "upsertEventEntry hooksMap entry =
     (let canonical = canonicalEntry (he_Command entry)
      in case mget hooksMap (he_Event entry) of
           None \<Rightarrow> Inr (mput (he_Event entry) (JArr [canonical]) hooksMap)
         | Some (JArr items) \<Rightarrow>
             Inr (mput (he_Event entry)
                    (JArr (case replace_ours canonical items of Some s \<Rightarrow> s | None \<Rightarrow> items @ [canonical])) hooksMap)
         | Some _ \<Rightarrow> Inl (EventNotArray (he_Event entry)))"

fun upsert_entries :: "settings \<Rightarrow> hookEntry list \<Rightarrow> hooks_error + settings" where
  "upsert_entries hooksMap [] = Inr hooksMap"
| "upsert_entries hooksMap (e # es) = bind_res (upsertEventEntry hooksMap e) (\<lambda>m. upsert_entries m es)"

definition mergeHooks :: "settings \<Rightarrow> hookEntry list \<Rightarrow> hooks_error + settings" where
  "mergeHooks s entries =
     bind_res
       (case mget s ''hooks'' of
          None \<Rightarrow> Inr []
        | Some (JObj m) \<Rightarrow> Inr m
        | Some _ \<Rightarrow> Inl HooksNotObject)
       (\<lambda>m. bind_res (upsert_entries m entries) (\<lambda>m'. Inr (mput ''hooks'' (JObj m') s)))"

section \<open>Removing\<close>

text \<open>What is left of one event's value, and how many entries went.\<close>

definition scrub_event :: "json \<Rightarrow> nat \<times> json option" where
  "scrub_event raw =
     (case raw of
        JArr items \<Rightarrow>
          (let kept = filter (\<lambda>x. \<not> isOursOrEmpty x) items
           in (length items - length kept, if kept = [] then None else Some (JArr kept)))
      | _ \<Rightarrow> (0, Some raw))"

fun scrub_events :: "settings \<Rightarrow> nat \<times> settings" where
  "scrub_events [] = (0, [])"
| "scrub_events ((event, raw) # m) =
     (case (scrub_event raw, scrub_events m) of
        ((n, None), (k, rest)) \<Rightarrow> (n + k, rest)
      | ((n, Some r), (k, rest)) \<Rightarrow> (n + k, (event, r) # rest))"

definition removeManagedHooks :: "settings \<Rightarrow> hooks_error + nat \<times> settings" where
  "removeManagedHooks s =
     (case mget s ''hooks'' of
        None \<Rightarrow> Inr (0, s)
      | Some (JObj m) \<Rightarrow>
          (case scrub_events m of (n, m') \<Rightarrow>
             Inr (n, if m' = [] then mdel ''hooks'' s else mput ''hooks'' (JObj m') s))
      | Some _ \<Rightarrow> Inl HooksNotObject)"

section \<open>The settings file\<close>

definition readSettings :: "faults \<Rightarrow> path \<Rightarrow> disk \<Rightarrow> hooks_error + string \<times> bool" where
  "readSettings F dest d =
     (case os_ReadFile F dest d of
        Inl e \<Rightarrow> if not_exist e then Inr ([], False) else Inl (HooksRead e)
      | Inr data \<Rightarrow> Inr (data, True))"

definition parseSettings :: "(string \<Rightarrow> json option) \<Rightarrow> string \<Rightarrow> hooks_error + settings" where
  "parseSettings decode data =
     (if data = [] \<or> TrimSpace data = [] then Inr []
      else case decode data of
        Some (JObj m) \<Rightarrow> Inr m
      | Some JNull \<Rightarrow> Inr []
      | _ \<Rightarrow> Inl HooksParse)"

definition sibling :: "path \<Rightarrow> string \<Rightarrow> path" where
  "sibling p suf = butlast p @ [last p @ suf]"

text \<open>Writing the temporary file and renaming it over the settings, which both commands end with.\<close>

definition replace_settings :: "faults \<Rightarrow> time \<Rightarrow> path \<Rightarrow> string \<Rightarrow> disk \<Rightarrow> disk \<times> hooks_error option" where
  "replace_settings F now dest data d =
     (let tmp = sibling dest ''.tmp''
      in case os_WriteFile F now tmp data d of
           (d1, Some e) \<Rightarrow> (d1, Some (HooksTemp e))
         | (d1, None) \<Rightarrow>
             (case os_Rename F tmp dest d1 of
                (d2, Some e) \<Rightarrow> (fst (os_Remove F tmp d2), Some (HooksRename e))
              | (d2, None) \<Rightarrow> (d2, None)))"

definition backup_settings :: "faults \<Rightarrow> time \<Rightarrow> string \<Rightarrow> path \<Rightarrow> string \<Rightarrow> disk \<Rightarrow> disk \<times> hooks_error option" where
  "backup_settings F now stamp dest original d =
     (case os_WriteFile F now (sibling dest (''.bak-'' @ stamp)) original d of
        (d1, Some e) \<Rightarrow> (d1, Some (HooksBackup e))
      | (d1, None) \<Rightarrow> (d1, None))"

definition installHooks ::
    "(string \<Rightarrow> json option) \<Rightarrow> (json \<Rightarrow> string) \<Rightarrow> faults \<Rightarrow> time \<Rightarrow> string \<Rightarrow> path \<Rightarrow> bool \<Rightarrow> disk \<Rightarrow> disk \<times> hooks_error option" where
  "installHooks decode encode F now stamp dest dryRun d =
     (case readSettings F dest d of
        Inl e \<Rightarrow> (d, Some e)
      | Inr (original, existed) \<Rightarrow>
          (case bind_res (parseSettings decode original) (\<lambda>s. mergeHooks s managedHooks) of
             Inl e \<Rightarrow> (d, Some e)
           | Inr s \<Rightarrow>
               if dryRun then (d, None)
               else (case (if existed then backup_settings F now stamp dest original d else (d, None)) of
                  (d1, Some e) \<Rightarrow> (d1, Some e)
                | (d1, None) \<Rightarrow>
                    (case os_MkdirAll F (butlast dest) d1 of
                       (d2, Some e) \<Rightarrow> (d2, Some (HooksParent e))
                     | (d2, None) \<Rightarrow> replace_settings F now dest (encode (JObj s) @ [CHR 0x0A]) d2))))"

definition uninstallHooks ::
    "(string \<Rightarrow> json option) \<Rightarrow> (json \<Rightarrow> string) \<Rightarrow> faults \<Rightarrow> time \<Rightarrow> string \<Rightarrow> path \<Rightarrow> bool \<Rightarrow> disk \<Rightarrow> disk \<times> hooks_error option" where
  "uninstallHooks decode encode F now stamp dest dryRun d =
     (case readSettings F dest d of
        Inl e \<Rightarrow> (d, Some e)
      | Inr (original, existed) \<Rightarrow>
          if \<not> existed then (d, None)
          else (case bind_res (parseSettings decode original) removeManagedHooks of
             Inl e \<Rightarrow> (d, Some e)
           | Inr (removed, s) \<Rightarrow>
               if removed = 0 \<or> dryRun then (d, None)
               else (case backup_settings F now stamp dest original d of
                  (d1, Some e) \<Rightarrow> (d1, Some e)
                | (d1, None) \<Rightarrow> replace_settings F now dest (encode (JObj s) @ [CHR 0x0A]) d1)))"

section \<open>What an install changes\<close>

definition entries_at :: "settings \<Rightarrow> string \<Rightarrow> json list" where
  "entries_at s event = (case as_object s ''hooks'' of Some m \<Rightarrow> as_array m event | None \<Rightarrow> [])"

definition foreign :: "json list \<Rightarrow> json list" where
  "foreign xs = filter (\<lambda>x. \<not> isOursOrEmpty x) xs"

lemma canonical_ours: "e \<in> set managedHooks \<Longrightarrow> isOursOrEmpty (canonicalEntry (he_Command e))"
  by (auto simp: managedHooks_def canonicalEntry_def isOursOrEmpty_def our_command_def hookCommandPrefix_def)

lemma managed_distinct: "distinct (map he_Event managedHooks)"
  by (simp add: managedHooks_def)

lemma replace_ours_None: "replace_ours c xs = None \<longleftrightarrow> foreign xs = xs"
proof (induction xs)
  case (Cons x xs)
  have "foreign xs \<noteq> x # xs"
  proof
    assume "foreign xs = x # xs"
    then have "length (foreign xs) = Suc (length xs)" by simp
    with length_filter_le [of "\<lambda>x. \<not> isOursOrEmpty x" xs] show False unfolding foreign_def by linarith
  qed
  with Cons show ?case by (auto simp: foreign_def)
qed (simp add: foreign_def)

lemma replace_ours_foreign: "replace_ours c xs = Some ys \<Longrightarrow> isOursOrEmpty c \<Longrightarrow> foreign ys = foreign xs \<and> c \<in> set ys"
  by (induction xs arbitrary: ys) (auto simp: foreign_def split: if_splits)

text \<open>The array an install leaves at an event, and that a second install leaves it as it is.\<close>

definition upserted :: "json \<Rightarrow> json list \<Rightarrow> json list" where
  "upserted c xs = (case replace_ours c xs of Some s \<Rightarrow> s | None \<Rightarrow> xs @ [c])"

lemma upserted_foreign: "isOursOrEmpty c \<Longrightarrow> foreign (upserted c xs) = foreign xs \<and> c \<in> set (upserted c xs)"
  using replace_ours_foreign [of c xs] by (auto simp: upserted_def foreign_def split: option.splits)

lemma replace_ours_twice: "replace_ours c xs = Some ys \<Longrightarrow> isOursOrEmpty c \<Longrightarrow> replace_ours c ys = Some ys"
  by (induction xs arbitrary: ys) (auto split: if_splits)

lemma replace_ours_snoc: "replace_ours c xs = None \<Longrightarrow> isOursOrEmpty c \<Longrightarrow> replace_ours c (xs @ [c]) = Some (xs @ [c])"
  by (induction xs) (auto split: if_splits)

lemma upserted_twice: "isOursOrEmpty c \<Longrightarrow> upserted c (upserted c xs) = upserted c xs"
  using replace_ours_twice [of c xs] replace_ours_snoc [of c xs] by (auto simp: upserted_def split: option.splits)

lemma upsert_Inr:
  "upsertEventEntry m e = Inr m' \<longleftrightarrow>
     (mget m (he_Event e) = None \<or> (\<exists>xs. mget m (he_Event e) = Some (JArr xs))) \<and>
     m' = mput (he_Event e) (JArr (upserted (canonicalEntry (he_Command e)) (as_array m (he_Event e)))) m"
  by (auto simp: upsertEventEntry_def upserted_def as_array_def Let_def split: option.splits json.splits)

lemma update_id: "mget m k = Some v \<Longrightarrow> mput k v m = m"
  by (induction m) auto

lemma as_array_mput2: "as_array (mput k v m) k' = (if k' = k then (case v of JArr xs \<Rightarrow> xs | _ \<Rightarrow> []) else as_array m k')"
  by (auto simp: as_array_def split: json.splits)

definition command_at :: "hookEntry list \<Rightarrow> string \<Rightarrow> string option" where
  "command_at es event = map_option he_Command (find (\<lambda>e. he_Event e = event) es)"

lemma command_at_None: "event \<notin> he_Event ` set es \<Longrightarrow> command_at es event = None"
  by (auto simp: command_at_def find_None_iff image_iff)

text \<open>The array at every event after the loop over distinct events, and the values of the other keys.\<close>

lemma upsert_entries_get:
  assumes "upsert_entries m es = Inr m'" and "distinct (map he_Event es)"
  shows "as_array m' ev = (case command_at es ev of Some c \<Rightarrow> upserted (canonicalEntry c) (as_array m ev) | None \<Rightarrow> as_array m ev) \<and>
    (command_at es ev = None \<longrightarrow> mget m' ev = mget m ev) \<and>
    (\<forall>c. command_at es ev = Some c \<longrightarrow> mget m' ev = Some (JArr (upserted (canonicalEntry c) (as_array m ev))))"
  using assms
proof (induction es arbitrary: m)
  case (Cons e es)
  from Cons.prems obtain m1 where m1: "upsertEventEntry m e = Inr m1" "upsert_entries m1 es = Inr m'"
    by (auto simp: bind_res_Inr_iff)
  note m1' = m1(1) [unfolded upsert_Inr, THEN conjunct2]
  show ?case
  proof (cases "ev = he_Event e")
    case True
    then have "command_at es ev = None" using Cons.prems(2) command_at_None [of ev es] by auto
    with Cons.IH [OF m1(2)] Cons.prems(2) True show ?thesis
      by (simp add: command_at_def m1' as_array_mput2)
  next
    case False
    then have same: "command_at (e # es) ev = command_at es ev" "as_array m1 ev = as_array m ev" "mget m1 ev = mget m ev"
      by (auto simp: command_at_def m1' as_array_mput2)
    from Cons.IH [OF m1(2)] Cons.prems(2) show ?thesis by (simp only: same) simp
  qed
qed (simp add: command_at_def)

lemma mergeHooks_Inr:
  "mergeHooks s es = Inr s' \<longleftrightarrow>
     (\<exists>m m'. (mget s ''hooks'' = None \<and> m = [] \<or> mget s ''hooks'' = Some (JObj m)) \<and> upsert_entries m es = Inr m' \<and>
        s' = mput ''hooks'' (JObj m') s)"
  by (auto simp: mergeHooks_def bind_res_Inr_iff split: option.splits json.splits)

lemma command_at_managed: "command_at managedHooks ev = Some c \<Longrightarrow> isOursOrEmpty (canonicalEntry c)"
  using canonical_ours by (auto simp: command_at_def find_Some_iff)

text \<open>
  An install that succeeds leaves every other key of the settings and every event it does not manage as they were; on a
  managed event it keeps the user's entries, in their order, and the canonical entry is there.
\<close>
theorem install_exact:
  assumes "mergeHooks s managedHooks = Inr s'"
  shows "(\<forall>k. k \<noteq> ''hooks'' \<longrightarrow> mget s' k = mget s k) \<and>
    (\<forall>ev. case command_at managedHooks ev of
        None \<Rightarrow> entries_at s' ev = entries_at s ev
      | Some c \<Rightarrow> foreign (entries_at s' ev) = foreign (entries_at s ev) \<and> canonicalEntry c \<in> set (entries_at s' ev))"
proof -
  from assms obtain m m' where m: "mget s ''hooks'' = None \<and> m = [] \<or> mget s ''hooks'' = Some (JObj m)"
    and up: "upsert_entries m managedHooks = Inr m'" and s': "s' = mput ''hooks'' (JObj m') s"
    by (auto simp: mergeHooks_Inr)
  have at: "entries_at s ev = as_array m ev" "entries_at s' ev = as_array m' ev" for ev
    using m s' by (auto simp: entries_at_def as_object_def as_array_def)
  show ?thesis
  proof (intro conjI allI impI)
    fix ev
    show "case command_at managedHooks ev of None \<Rightarrow> entries_at s' ev = entries_at s ev
      | Some c \<Rightarrow> foreign (entries_at s' ev) = foreign (entries_at s ev) \<and> canonicalEntry c \<in> set (entries_at s' ev)"
      using upsert_entries_get [OF up managed_distinct, of ev] command_at_managed [of ev] upserted_foreign
      by (simp add: at split: option.splits)
  qed (simp add: s')
qed

text \<open>A second install changes nothing.\<close>

lemma upsert_entries_fixed:
  assumes "\<forall>e \<in> set es. \<exists>xs. mget m (he_Event e) = Some (JArr xs) \<and> upserted (canonicalEntry (he_Command e)) xs = xs"
  shows "upsert_entries m es = Inr m"
  using assms
proof (induction es)
  case (Cons e es)
  then obtain xs where "mget m (he_Event e) = Some (JArr xs)" "upserted (canonicalEntry (he_Command e)) xs = xs" by auto
  then have "upsertEventEntry m e = Inr m"
    by (auto simp: upsert_Inr as_array_def update_id)
  with Cons show ?case by simp
qed simp

lemma command_at_in: "e \<in> set es \<Longrightarrow> distinct (map he_Event es) \<Longrightarrow> command_at es (he_Event e) = Some (he_Command e)"
  by (induction es) (auto simp: command_at_def)

theorem install_idempotent:
  assumes "mergeHooks s managedHooks = Inr s'"
  shows "mergeHooks s' managedHooks = Inr s'"
proof -
  from assms obtain m m' where up: "upsert_entries m managedHooks = Inr m'" and s': "s' = mput ''hooks'' (JObj m') s"
    by (auto simp: mergeHooks_Inr)
  have "upsert_entries m' managedHooks = Inr m'"
  proof (rule upsert_entries_fixed)
    show "\<forall>e \<in> set managedHooks. \<exists>xs. mget m' (he_Event e) = Some (JArr xs) \<and> upserted (canonicalEntry (he_Command e)) xs = xs"
      using upsert_entries_get [OF up managed_distinct] command_at_in [OF _ managed_distinct] canonical_ours upserted_twice
      by blast
  qed
  then show ?thesis by (auto simp: mergeHooks_Inr s' update_id)
qed

section \<open>Uninstalling what was installed\<close>

definition untouched :: "settings \<Rightarrow> bool" where
  "untouched s \<longleftrightarrow>
     (case mget s ''hooks'' of
        None \<Rightarrow> True
      | Some (JObj m) \<Rightarrow> m \<noteq> [] \<and> list_all (\<lambda>(ev, v). case v of JArr xs \<Rightarrow> xs \<noteq> [] \<and> foreign xs = xs | _ \<Rightarrow> True) m
      | Some _ \<Rightarrow> True)"

lemma scrub_clean:
  "list_all (\<lambda>(ev, v). case v of JArr xs \<Rightarrow> xs \<noteq> [] \<and> foreign xs = xs | _ \<Rightarrow> True) m \<Longrightarrow> scrub_events m = (0, m)"
  by (induction m) (auto simp: scrub_event_def foreign_def split: json.splits)

lemma upserted_clean: "foreign xs = xs \<Longrightarrow> upserted c xs = xs @ [c]"
  using replace_ours_None [of c xs] by (simp add: upserted_def)

lemma scrub_put:
  assumes "scrub_events m = (k, m0)" and "isOursOrEmpty c"
    and "mget m ev = None \<or> (\<exists>xs. mget m ev = Some (JArr xs) \<and> xs \<noteq> [] \<and> foreign xs = xs)"
  shows "scrub_events (mput ev (JArr (as_array m ev @ [c])) m) = (Suc k, m0)"
  using assms
proof (induction m arbitrary: k m0)
  case Nil
  then show ?case by (simp add: as_array_def scrub_event_def)
next
  case (Cons p m)
  obtain e raw where p: "p = (e, raw)" by (cases p)
  obtain k' r' where rest: "scrub_events m = (k', r')" by fastforce
  show ?case
  proof (cases "e = ev")
    case True
    with Cons.prems p rest show ?thesis by (auto simp: as_array_def scrub_event_def foreign_def)
  next
    case False
    then have "as_array (p # m) ev = as_array m ev" by (simp add: as_array_def p)
    with Cons.IH [OF rest] Cons.prems p rest False show ?thesis by (auto split: prod.splits option.splits)
  qed
qed

lemma scrub_upserts:
  assumes "upsert_entries m es = Inr m'" and "distinct (map he_Event es)" and "scrub_events m = (k, m0)"
    and "\<forall>e \<in> set es. isOursOrEmpty (canonicalEntry (he_Command e)) \<and>
      (\<forall>xs. mget m (he_Event e) = Some (JArr xs) \<longrightarrow> xs \<noteq> [] \<and> foreign xs = xs)"
  shows "scrub_events m' = (k + length es, m0)"
  using assms
proof (induction es arbitrary: m k)
  case (Cons e es)
  from Cons.prems(1) obtain m1 where m1: "upsertEventEntry m e = Inr m1" "upsert_entries m1 es = Inr m'"
    by (auto simp: bind_res_Inr_iff)
  have arr: "foreign (as_array m (he_Event e)) = as_array m (he_Event e)"
    using Cons.prems(4) m1(1) by (auto simp: upsert_Inr as_array_def foreign_def)
  then have m1': "m1 = mput (he_Event e) (JArr (as_array m (he_Event e) @ [canonicalEntry (he_Command e)])) m"
    using m1(1) by (simp add: upsert_Inr upserted_clean)
  have "scrub_events m1 = (Suc k, m0)"
    unfolding m1' by (rule scrub_put [OF Cons.prems(3)]) (use Cons.prems(4) m1(1) in \<open>auto simp: upsert_Inr\<close>)
  moreover have "\<forall>e' \<in> set es. mget m1 (he_Event e') = mget m (he_Event e')"
    using Cons.prems(2) by (auto simp: m1' image_iff)
  ultimately show ?case using Cons.IH [OF m1(2)] Cons.prems(2,4) by simp
qed simp

lemma delete_update: "mget s k = None \<Longrightarrow> mdel k (mput k v s) = s"
  by (induction s) (auto simp: AList.delete_eq)

lemma update_update: "mput k v (mput k w s) = mput k v s"
  by (induction s) auto

text \<open>C21: 
  Uninstalling after an install gives the settings back exactly, where there was nothing of ours before and no empty
  arrays or empty hooks object, which an uninstall also tidies away.
\<close>
theorem uninstall_undoes_install:
  assumes "mergeHooks s managedHooks = Inr s'" and "untouched s"
  shows "removeManagedHooks s' = Inr (5, s)"
proof -
  from assms(1) obtain m m' where m: "mget s ''hooks'' = None \<and> m = [] \<or> mget s ''hooks'' = Some (JObj m)"
    and up: "upsert_entries m managedHooks = Inr m'" and s': "s' = mput ''hooks'' (JObj m') s"
    by (auto simp: mergeHooks_Inr)
  have clean: "list_all (\<lambda>(ev, v). case v of JArr xs \<Rightarrow> xs \<noteq> [] \<and> foreign xs = xs | _ \<Rightarrow> True) m"
    using m assms(2) by (auto simp: untouched_def)
  have "\<forall>e \<in> set managedHooks. isOursOrEmpty (canonicalEntry (he_Command e)) \<and>
      (\<forall>xs. mget m (he_Event e) = Some (JArr xs) \<longrightarrow> xs \<noteq> [] \<and> foreign xs = xs)"
    using clean canonical_ours by (fastforce simp: list_all_iff dest: mget_in_set)
  from scrub_upserts [OF up managed_distinct scrub_clean [OF clean] this]
  have scrub: "scrub_events m' = (5, m)" by (simp add: managedHooks_def)
  from m show ?thesis
  proof
    assume "mget s ''hooks'' = None \<and> m = []"
    with scrub show ?thesis by (simp add: removeManagedHooks_def s' delete_update)
  next
    assume "mget s ''hooks'' = Some (JObj m)"
    with scrub assms(2) show ?thesis
      by (simp add: removeManagedHooks_def s' update_update update_id untouched_def)
  qed
qed

definition user_settings :: settings where
  "user_settings =
     [(''model'', JStr ''opus''),
      (''hooks'', JObj [(''Stop'', JArr [JObj [(''hooks'', JArr [JObj [(''type'', JStr ''command''), (''command'', JStr ''say done'')]])]])])]"

theorem uninstall_undoes_install_witness:
  "\<exists>s'. mergeHooks user_settings managedHooks = Inr s' \<and> removeManagedHooks s' = Inr (5, user_settings)"
proof -
  have "untouched user_settings" by code_simp
  moreover obtain s' where "mergeHooks user_settings managedHooks = Inr s'"
    by (simp add: user_settings_def mergeHooks_def managedHooks_def upsertEventEntry_def Let_def)
  ultimately show ?thesis using uninstall_undoes_install [of user_settings s'] by blast
qed

text \<open>After an uninstall nothing of ours is left on any event.\<close>

lemma scrub_events_foreign:
  "scrub_events m = (n, m') \<Longrightarrow> (ev, JArr xs) \<in> set m' \<Longrightarrow> foreign xs = xs \<and> xs \<noteq> []"
  by (induction m arbitrary: n m')
    (auto simp: scrub_event_def foreign_def Let_def split: prod.splits option.splits json.splits if_splits)

theorem uninstall_leaves_none:
  assumes "removeManagedHooks s = Inr (n, s')"
  shows "foreign (entries_at s' ev) = entries_at s' ev"
proof -
  from assms have "mget s' ''hooks'' = None \<or> (\<exists>m k m'. mget s' ''hooks'' = Some (JObj m') \<and> scrub_events m = (k, m'))"
    by (fastforce simp: removeManagedHooks_def split: option.splits json.splits prod.splits if_splits)
  then show ?thesis
    using scrub_events_foreign
    by (force simp: entries_at_def as_object_def as_array_def foreign_def split: option.splits json.splits dest: mget_in_set)
qed

text \<open>
  An entry counts as ours when any of its commands is, and is then treated as a whole: a command of the user's in the
  same entry is lost by an install and by an uninstall.  And an install rewrites the first entry of ours only.
\<close>

definition command_hook :: "string \<Rightarrow> json" where
  "command_hook c = JObj [(''type'', JStr ''command''), (''command'', JStr c)]"

definition group :: "json list \<Rightarrow> json" where
  "group hs = JObj [(''hooks'', JArr hs)]"

lemma shared_entry_lost:
  "isOursOrEmpty (group [command_hook ''say done'', command_hook ''openkanban status set idle''])"
  "(case mergeHooks [(''hooks'', JObj [(''Stop'', JArr [group [command_hook ''say done'', command_hook ''openkanban status set idle'']])])] managedHooks of
      Inr s \<Rightarrow> entries_at s ''Stop'' = [group [command_hook ''openkanban status set idle'']] | Inl _ \<Rightarrow> False)"
  "removeManagedHooks [(''hooks'', JObj [(''Stop'', JArr [group [command_hook ''say done'', command_hook ''openkanban status set idle'']])])] =
     Inr (1, [])"
  by code_simp+

lemma second_entry_kept:
  "(case mergeHooks [(''hooks'', JObj [(''Stop'', JArr [group [command_hook ''openkanban status set a''], group [command_hook ''openkanban status set b'']])])] managedHooks of
      Inr s \<Rightarrow> entries_at s ''Stop'' = [group [command_hook ''openkanban status set idle''], group [command_hook ''openkanban status set b'']] | Inl _ \<Rightarrow> False)"
  by code_simp

section \<open>The file on disk\<close>

lemma sibling_neq: "dest \<noteq> [] \<Longrightarrow> suf \<noteq> [] \<Longrightarrow> sibling dest suf \<noteq> dest"
  by (metis append_self_conv last_snoc sibling_def)

lemma sibling_inj: "sibling dest a = sibling dest b \<longleftrightarrow> a = b"
  by (simp add: sibling_def)

lemma replace_settings_err:
  "replace_settings F now dest data d = (d', Some e) \<Longrightarrow> dest \<noteq> [] \<Longrightarrow> mget d' dest = mget d dest"
  using sibling_neq [of dest "''.tmp''"]
  by (auto simp: replace_settings_def Let_def split: prod.splits option.splits dest!: os_Rename_err)
    (metis fst_conv mget_os_Remove mget_os_WriteFile)+

lemma replace_settings_ok:
  assumes "replace_settings F now dest data d = (d', None)" and "dest \<noteq> []"
  shows "mget d' dest = Some (FileN data now) \<and> (\<forall>q. q \<noteq> dest \<and> q \<noteq> sibling dest ''.tmp'' \<longrightarrow> mget d' q = mget d q)"
proof -
  from assms obtain d1 where w: "os_WriteFile F now (sibling dest ''.tmp'') data d = (d1, None)"
    and r: "os_Rename F (sibling dest ''.tmp'') dest d1 = (d', None)"
    by (auto simp: replace_settings_def Let_def split: prod.splits option.splits)
  from os_WriteFile_ok [OF w] have d1: "d1 = mput (sibling dest ''.tmp'') (FileN data now) d" .
  have "d' = mput dest (FileN data now) (mdel (sibling dest ''.tmp'') d1)"
    using os_Rename_file [OF _ r] d1 by simp
  with d1 show ?thesis by simp
qed

text \<open>
  Neither command ever loses the user's file: when it fails, or only previews, the file is what it was; when it writes,
  the old text is in the backup.
\<close>
theorem install_recoverable:
  assumes "installHooks decode encode F now stamp dest dryRun d = (d', r)" and "mget d dest = Some (FileN old t)" and "dest \<noteq> []"
  shows "mget d' dest = Some (FileN old t) \<or>
    (r = None \<and> \<not> dryRun \<and> mget d' (sibling dest (''.bak-'' @ stamp)) = Some (FileN old now) \<and>
     (\<exists>s s'. parseSettings decode old = Inr s \<and> mergeHooks s managedHooks = Inr s' \<and>
        mget d' dest = Some (FileN (encode (JObj s') @ [CHR 0x0A]) now)))"
proof -
  let ?bak = "sibling dest (''.bak-'' @ stamp)"
  obtain d1 e1 where bk: "backup_settings F now stamp dest old d = (d1, e1)" by fastforce
  obtain d2 e2 where mk: "os_MkdirAll F (butlast dest) d1 = (d2, e2)" by fastforce
  have neq: "?bak \<noteq> dest" "?bak \<noteq> sibling dest ''.tmp''"
    using sibling_neq [of dest "''.bak-'' @ stamp"] assms(3) by (simp_all add: sibling_inj)
  have k1: "mget d1 dest = Some (FileN old t)"
    using bk assms(2) mget_os_WriteFile [of dest ?bak F now old d] neq(1)
    by (auto simp: backup_settings_def split: prod.splits option.splits)
  have k2: "mget d2 dest = Some (FileN old t)"
    using mget_os_MkdirAll(2) [of d1 dest F "butlast dest"] k1 mk by simp
  show ?thesis
  proof (cases "d' = d \<or> d' = d1 \<or> d' = d2")
    case True
    with assms(2) k1 k2 show ?thesis by auto
  next
    case False
    with assms(1,2) bk mk obtain s s' where s: "parseSettings decode old = Inr s" "mergeHooks s managedHooks = Inr s'" "\<not> dryRun"
      and oks: "e1 = None" "e2 = None"
      and rep: "replace_settings F now dest (encode (JObj s') @ [CHR 0x0A]) d2 = (d', r)"
      by (auto simp: installHooks_def readSettings_def os_ReadFile_def bind_res_Inr_iff
          split: if_splits sum.splits option.splits prod.splits)
    show ?thesis
    proof (cases r)
      case None
      have "mget d1 ?bak = Some (FileN old now)"
        using bk oks by (auto simp: backup_settings_def split: prod.splits option.splits dest!: os_WriteFile_ok)
      then have "mget d2 ?bak = Some (FileN old now)"
        using mget_os_MkdirAll(2) [of d1 ?bak F "butlast dest"] mk by simp
      with replace_settings_ok [OF _ assms(3)] rep None neq s show ?thesis by auto
    next
      case (Some e)
      with replace_settings_err [OF _ assms(3)] rep k2 show ?thesis by simp
    qed
  qed
qed

text \<open>An uninstall that finds nothing of ours touches nothing at all, so repeating it makes no backups.\<close>
lemma uninstall_without_hooks:
  assumes "os_ReadFile F dest d = Inr old" and "parseSettings decode old = Inr s" and "removeManagedHooks s = Inr (0, s')"
  shows "uninstallHooks decode encode F now stamp dest dryRun d = (d, None)"
  using assms by (simp add: uninstallHooks_def readSettings_def)

end
