(* ===== verification/Git.thy ===== *)
theory Git
  imports Paths GoStrings Registry
begin

text \<open>
  \<^verbatim>\<open>internal/git/worktree.go\<close>: the worktree of a ticket, its branch, and the repository behind a directory.

  The \<^verbatim>\<open>git\<close> program is the parameter \<open>git\<close>: given the directory it runs in and its arguments it changes a state, which
  is the disk and whatever else it keeps, and gives its standard output, its combined output and whether it succeeded.
  \<open>links\<close> is \<^verbatim>\<open>filepath.EvalSymlinks\<close>.  A directory is a path of the disk; where the code hands one to git or reads one
  from it, it is the string with slashes.
\<close>

section \<open>Names\<close>

definition trim_prefix :: "string \<Rightarrow> string \<Rightarrow> string" where
  "trim_prefix s p = (if has_prefix s p then drop (length p) s else s)"

definition cut_prefix :: "string \<Rightarrow> string \<Rightarrow> string option" where
  "cut_prefix s p = (if has_prefix s p then Some (drop (length p) s) else None)"

definition sanitizeBranchName :: "string \<Rightarrow> string" where
  "sanitizeBranchName name =
     map (\<lambda>c. if c = CHR ''/'' then CHR ''-'' else c)
       (trim_prefix (trim_prefix (trim_prefix name ''refs/heads/'') ''agent/'') ''feature/'')"

section \<open>The list of worktrees\<close>

record Worktree =
  wt_Path :: string
  wt_HEAD :: string
  wt_Branch :: string

definition no_worktree :: Worktree where
  "no_worktree = \<lparr>wt_Path = [], wt_HEAD = [], wt_Branch = []\<rparr>"

fun parse_list :: "Worktree \<Rightarrow> string list \<Rightarrow> Worktree list" where
  "parse_list current [] = (if wt_Path current \<noteq> [] then [current] else [])"
| "parse_list current (line # lines) =
     (case cut_prefix line ''worktree '' of
        Some p \<Rightarrow>
          (if wt_Path current \<noteq> [] then [current] else []) @ parse_list \<lparr>wt_Path = p, wt_HEAD = [], wt_Branch = []\<rparr> lines
      | None \<Rightarrow>
          (case cut_prefix line ''HEAD '' of
             Some h \<Rightarrow> parse_list (current\<lparr>wt_HEAD := h\<rparr>) lines
           | None \<Rightarrow>
               (case cut_prefix line ''branch refs/heads/'' of
                  Some b \<Rightarrow> parse_list (current\<lparr>wt_Branch := b\<rparr>) lines
                | None \<Rightarrow> parse_list current lines)))"

definition parseWorktreeList :: "string \<Rightarrow> Worktree list" where
  "parseWorktreeList output = parse_list no_worktree (split_lines [] output)"

section \<open>Running git\<close>

record git_result =
  gr_Stdout :: string
  gr_Output :: string
  gr_OK :: bool

type_synonym 'w git = "path \<Rightarrow> string list \<Rightarrow> disk \<times> 'w \<Rightarrow> (disk \<times> 'w) \<times> git_result"
type_synonym evalsymlinks = "disk \<Rightarrow> string \<Rightarrow> string option"

record WorktreeManager =
  repoPath :: path
  baseDir :: path

datatype git_error =
    BaseDirFailed io_error
  | WrongBranch path string string
  | AddFailed string
  | UsedElsewhere string
  | CheckedOutAt string
  | AddAfterPrune string
  | ListFailed
  | NotListed path
  | RemoveFailed string
  | RemoveDirFailed io_error
  | DeleteFailed string
  | BranchFailed string
  | CheckoutFailed string
  | StatusFailed

definition ListWorktrees :: "'w git \<Rightarrow> WorktreeManager \<Rightarrow> disk \<times> 'w \<Rightarrow> (disk \<times> 'w) \<times> (git_error + Worktree list)" where
  "ListWorktrees git m s =
     (case git (repoPath m) [''worktree'', ''list'', ''--porcelain''] s of
        (s', r) \<Rightarrow> (s', if gr_OK r then Inr (parseWorktreeList (gr_Stdout r)) else Inl ListFailed))"

text \<open>The result is absolute, as every path the code compares is.\<close>

definition canonicalPath :: "evalsymlinks \<Rightarrow> disk \<Rightarrow> string \<Rightarrow> path" where
  "canonicalPath links d p = clean_join [] (case links d p of Some r \<Rightarrow> r | None \<Rightarrow> p)"

definition BranchForWorktree ::
    "'w git \<Rightarrow> evalsymlinks \<Rightarrow> WorktreeManager \<Rightarrow> path \<Rightarrow> disk \<times> 'w \<Rightarrow> (disk \<times> 'w) \<times> (git_error + string)" where
  "BranchForWorktree git links m p s =
     (case ListWorktrees git m s of
        (s', Inl e) \<Rightarrow> (s', Inl e)
      | (s', Inr wts) \<Rightarrow>
          (s', case find (\<lambda>wt. canonicalPath links (fst s') (wt_Path wt) = canonicalPath links (fst s') (slashed p)) wts of
                 Some wt \<Rightarrow> Inr (trim_prefix (wt_Branch wt) ''refs/heads/'')
               | None \<Rightarrow> Inl (NotListed p)))"

definition conflictingWorktreePath :: "'w git \<Rightarrow> WorktreeManager \<Rightarrow> string \<Rightarrow> disk \<times> 'w \<Rightarrow> (disk \<times> 'w) \<times> string" where
  "conflictingWorktreePath git m branchName s =
     (case ListWorktrees git m s of
        (s', Inl e) \<Rightarrow> (s', [])
      | (s', Inr wts) \<Rightarrow>
          (s', case find (\<lambda>wt. trim_prefix (wt_Branch wt) ''refs/heads/'' = trim_prefix branchName ''refs/heads/'') wts of
                 Some wt \<Rightarrow> wt_Path wt
               | None \<Rightarrow> []))"

definition isValidWorktree :: "faults \<Rightarrow> path \<Rightarrow> disk \<Rightarrow> bool" where
  "isValidWorktree F p d \<longleftrightarrow> \<not> F (StatCall (p @ [''.git''])) \<and> is_file d (p @ [''.git''])"

section \<open>Making a worktree\<close>

definition used_by :: string where "used_by = ''is already used by worktree at''"

definition resolveBranchCheckedOutElsewhere ::
    "'w git \<Rightarrow> evalsymlinks \<Rightarrow> faults \<Rightarrow> WorktreeManager \<Rightarrow> string \<Rightarrow> path \<Rightarrow> disk \<times> 'w \<Rightarrow> (disk \<times> 'w) \<times> (git_error + path)" where
  "resolveBranchCheckedOutElsewhere git links F m branchName worktreePath s =
     (case conflictingWorktreePath git m branchName s of
        (s1, conflict) \<Rightarrow>
          if conflict = [] then (s1, Inl (UsedElsewhere branchName))
          else if os_Exists F (canonicalPath links (fst s1) conflict) (fst s1) then (s1, Inl (CheckedOutAt conflict))
          else
            (let s2 = fst (git (repoPath m) [''worktree'', ''prune''] s1)
             in case git (repoPath m) [''worktree'', ''add'', slashed worktreePath, branchName] s2 of
                  (s3, r) \<Rightarrow> (s3, if gr_OK r then Inr worktreePath else Inl (AddAfterPrune (gr_Output r)))))"

definition add_worktree ::
    "'w git \<Rightarrow> evalsymlinks \<Rightarrow> faults \<Rightarrow> WorktreeManager \<Rightarrow> string \<Rightarrow> string \<Rightarrow> path \<Rightarrow> disk \<times> 'w \<Rightarrow> (disk \<times> 'w) \<times> (git_error + path)" where
  "add_worktree git links F m branchName baseBranch worktreePath s =
     (case git (repoPath m) [''worktree'', ''add'', ''-b'', branchName, slashed worktreePath, baseBranch] s of
        (s1, r) \<Rightarrow>
          if gr_OK r then (s1, Inr worktreePath)
          else if contains (gr_Output r) ''already exists'' then
            (case git (repoPath m) [''worktree'', ''add'', slashed worktreePath, branchName] s1 of
               (s2, r2) \<Rightarrow>
                 if gr_OK r2 then (s2, Inr worktreePath)
                 else if contains (gr_Output r2) used_by then
                   resolveBranchCheckedOutElsewhere git links F m branchName worktreePath s2
                 else (s2, Inl (AddFailed (gr_Output r2))))
          else if contains (gr_Output r) used_by then resolveBranchCheckedOutElsewhere git links F m branchName worktreePath s1
          else (s1, Inl (AddFailed (gr_Output r))))"

definition CreateWorktree ::
    "'w git \<Rightarrow> evalsymlinks \<Rightarrow> faults \<Rightarrow> WorktreeManager \<Rightarrow> string \<Rightarrow> string \<Rightarrow> disk \<times> 'w \<Rightarrow> (disk \<times> 'w) \<times> (git_error + path)" where
  "CreateWorktree git links F m branchName baseBranch s =
     (case os_MkdirAll F (baseDir m) (fst s) of
        (d1, Some e) \<Rightarrow> ((d1, snd s), Inl (BaseDirFailed e))
      | (d1, None) \<Rightarrow>
          (let worktreePath = clean_join (baseDir m) (sanitizeBranchName branchName);
               expectedBranch = trim_prefix branchName ''refs/heads/''
           in if os_Exists F worktreePath d1 then
                if isValidWorktree F worktreePath d1 then
                  (case BranchForWorktree git links m worktreePath (d1, snd s) of
                     (s2, Inl e) \<Rightarrow> (s2, Inl e)
                   | (s2, Inr branch) \<Rightarrow>
                       (s2, if branch \<noteq> expectedBranch then Inl (WrongBranch worktreePath branch expectedBranch) else Inr worktreePath))
                else add_worktree git links F m branchName baseBranch worktreePath (fst (os_RemoveAll F worktreePath d1), snd s)
              else add_worktree git links F m branchName baseBranch worktreePath (d1, snd s)))"

definition RemoveWorktree :: "'w git \<Rightarrow> faults \<Rightarrow> WorktreeManager \<Rightarrow> path \<Rightarrow> disk \<times> 'w \<Rightarrow> (disk \<times> 'w) \<times> git_error option" where
  "RemoveWorktree git F m p s =
     (case git (repoPath m) [''worktree'', ''remove'', slashed p, ''--force''] s of
        (s1, r) \<Rightarrow>
          if \<not> gr_OK r \<and> \<not> contains (gr_Output r) ''not a working tree'' then (s1, Some (RemoveFailed (gr_Output r)))
          else if os_Exists F p (fst s1) then
            (case os_RemoveAll F p (fst s1) of
               (d2, Some e) \<Rightarrow> ((d2, snd s1), Some (RemoveDirFailed e))
             | (d2, None) \<Rightarrow> ((d2, snd s1), None))
          else (s1, None))"

section \<open>Branches\<close>

definition GetDefaultBranch :: "'w git \<Rightarrow> WorktreeManager \<Rightarrow> disk \<times> 'w \<Rightarrow> (disk \<times> 'w) \<times> string" where
  "GetDefaultBranch git m s =
     (case git (repoPath m) [''symbolic-ref'', ''refs/remotes/origin/HEAD''] s of
        (s1, r) \<Rightarrow>
          if gr_OK r then (s1, trim_prefix (TrimSpace (gr_Stdout r)) ''refs/remotes/origin/'')
          else case git (repoPath m) [''rev-parse'', ''--verify'', ''main''] s1 of
            (s2, r2) \<Rightarrow>
              if gr_OK r2 then (s2, ''main'')
              else case git (repoPath m) [''rev-parse'', ''--verify'', ''master''] s2 of
                (s3, r3) \<Rightarrow> (s3, if gr_OK r3 then ''master'' else ''main''))"

definition DeleteBranch :: "'w git \<Rightarrow> WorktreeManager \<Rightarrow> string \<Rightarrow> disk \<times> 'w \<Rightarrow> (disk \<times> 'w) \<times> git_error option" where
  "DeleteBranch git m b s =
     (case git (repoPath m) [''branch'', ''-D'', b] s of
        (s1, r) \<Rightarrow> (s1, if gr_OK r then None else Some (DeleteFailed (gr_Output r))))"

definition DeleteMergedBranch :: "'w git \<Rightarrow> WorktreeManager \<Rightarrow> string \<Rightarrow> disk \<times> 'w \<Rightarrow> (disk \<times> 'w) \<times> (git_error + bool)" where
  "DeleteMergedBranch git m b s =
     (case git (repoPath m) [''branch'', ''-d'', b] s of
        (s1, r) \<Rightarrow>
          (s1, if gr_OK r then Inr True
               else if contains (gr_Output r) ''not fully merged'' then Inr False
               else Inl (DeleteFailed (gr_Output r))))"

definition BranchExists :: "'w git \<Rightarrow> WorktreeManager \<Rightarrow> string \<Rightarrow> disk \<times> 'w \<Rightarrow> (disk \<times> 'w) \<times> bool" where
  "BranchExists git m b s =
     (case git (repoPath m) [''rev-parse'', ''--verify'', b] s of (s1, r) \<Rightarrow> (s1, gr_OK r))"

definition CreateBranch :: "'w git \<Rightarrow> WorktreeManager \<Rightarrow> string \<Rightarrow> string \<Rightarrow> disk \<times> 'w \<Rightarrow> (disk \<times> 'w) \<times> git_error option" where
  "CreateBranch git m b base s =
     (case git (repoPath m) [''branch'', b, base] s of
        (s1, r) \<Rightarrow> (s1, if gr_OK r then None else Some (BranchFailed (gr_Output r))))"

definition CheckoutBranch :: "'w git \<Rightarrow> WorktreeManager \<Rightarrow> string \<Rightarrow> disk \<times> 'w \<Rightarrow> (disk \<times> 'w) \<times> git_error option" where
  "CheckoutBranch git m b s =
     (case git (repoPath m) [''checkout'', b] s of
        (s1, r) \<Rightarrow> (s1, if gr_OK r then None else Some (CheckoutFailed (gr_Output r))))"

definition SetupBranch :: "'w git \<Rightarrow> WorktreeManager \<Rightarrow> string \<Rightarrow> string \<Rightarrow> disk \<times> 'w \<Rightarrow> (disk \<times> 'w) \<times> git_error option" where
  "SetupBranch git m b base s =
     (case BranchExists git m b s of
        (s1, True) \<Rightarrow> CheckoutBranch git m b s1
      | (s1, False) \<Rightarrow>
          (case CreateBranch git m b base s1 of
             (s2, Some e) \<Rightarrow> (s2, Some e)
           | (s2, None) \<Rightarrow> CheckoutBranch git m b s2))"

definition HasUncommittedChanges :: "'w git \<Rightarrow> path \<Rightarrow> disk \<times> 'w \<Rightarrow> (disk \<times> 'w) \<times> (git_error + bool)" where
  "HasUncommittedChanges git p s =
     (case git p [''status'', ''--porcelain''] s of
        (s1, r) \<Rightarrow> (s1, if gr_OK r then Inr (TrimSpace (gr_Stdout r) \<noteq> []) else Inl StatusFailed))"

text \<open>\<^verbatim>\<open>strings.Cut(s, sep)\<close> up to the separator.\<close>

definition cut_before :: "string \<Rightarrow> string \<Rightarrow> string option" where
  "cut_before s sep = (case index_of s sep of Some i \<Rightarrow> Some (take i s) | None \<Rightarrow> None)"

definition ResolveMainRepo :: "faults \<Rightarrow> path \<Rightarrow> disk \<Rightarrow> path" where
  "ResolveMainRepo F p d =
     (let gitPath = p @ [''.git'']
      in if F (StatCall gitPath) \<or> mget d gitPath = None \<or> mget d gitPath = Some DirN then p
         else case os_ReadFile F gitPath d of
           Inl e \<Rightarrow> p
         | Inr content \<Rightarrow>
             (case cut_prefix (TrimSpace content) ''gitdir: '' of
                None \<Rightarrow> p
              | Some after \<Rightarrow>
                  (case cut_before after ''/.git/worktrees/'' of
                     None \<Rightarrow> p
                   | Some repo \<Rightarrow> clean_join [] repo)))"

section \<open>Reading git's listing\<close>

text \<open>One worktree as \<^verbatim>\<open>git worktree list --porcelain\<close> prints it: the attributes, other lines, and an empty line.\<close>

record listing =
  li_Path :: string
  li_HEAD :: "string option"
  li_Branch :: "string option"
  li_Notes :: "string list"

definition one_line :: "string \<Rightarrow> bool" where
  "one_line s \<longleftrightarrow> CHR 0x0A \<notin> set s"

definition other_line :: "string \<Rightarrow> bool" where
  "other_line l \<longleftrightarrow>
     one_line l \<and> cut_prefix l ''worktree '' = None \<and> cut_prefix l ''HEAD '' = None \<and> cut_prefix l ''branch refs/heads/'' = None"

definition good_listing :: "listing \<Rightarrow> bool" where
  "good_listing l \<longleftrightarrow>
     li_Path l \<noteq> [] \<and> one_line (li_Path l) \<and> case_option True one_line (li_HEAD l) \<and> case_option True one_line (li_Branch l) \<and>
     list_all other_line (li_Notes l)"

definition listing_lines :: "listing \<Rightarrow> string list" where
  "listing_lines l =
     [''worktree '' @ li_Path l] @
     (case li_HEAD l of Some h \<Rightarrow> [''HEAD '' @ h] | None \<Rightarrow> []) @
     (case li_Branch l of Some b \<Rightarrow> [''branch refs/heads/'' @ b] | None \<Rightarrow> []) @
     li_Notes l @ [[]]"

definition print_listing :: "listing list \<Rightarrow> string" where
  "print_listing ls = concat (map (\<lambda>l. l @ [CHR 0x0A]) (concat (map listing_lines ls)))"

definition listed_worktree :: "listing \<Rightarrow> Worktree" where
  "listed_worktree l =
     \<lparr>wt_Path = li_Path l,
      wt_HEAD = (case li_HEAD l of Some h \<Rightarrow> h | None \<Rightarrow> []),
      wt_Branch = (case li_Branch l of Some b \<Rightarrow> b | None \<Rightarrow> [])\<rparr>"

lemma split_lines_line: "one_line l \<Longrightarrow> split_lines acc (l @ CHR 0x0A # s) = (rev acc @ l) # split_lines [] s"
  by (induction l arbitrary: acc) (auto simp: one_line_def)

lemma split_lines_concat:
  "list_all one_line ls \<Longrightarrow> split_lines [] (concat (map (\<lambda>l. l @ [CHR 0x0A]) ls)) = ls @ [[]]"
  by (induction ls) (simp_all add: split_lines_line)

lemma cut_prefix_append [simp]: "cut_prefix (p @ s) p = Some s"
  by (simp add: cut_prefix_def)

lemma parse_list_other: "list_all other_line ns \<Longrightarrow> parse_list cur (ns @ ls) = parse_list cur ls"
  by (induction ns) (simp_all add: other_line_def)

lemma listing_head_lines:
  "cut_prefix (''HEAD '' @ h) ''worktree '' = None"
  "cut_prefix (''branch refs/heads/'' @ b) ''worktree '' = None" "cut_prefix (''branch refs/heads/'' @ b) ''HEAD '' = None"
  "cut_prefix [] ''worktree '' = None" "cut_prefix [] ''HEAD '' = None" "cut_prefix [] ''branch refs/heads/'' = None"
  by (simp_all add: cut_prefix_def)

lemma parse_listing:
  assumes "good_listing l"
  shows "parse_list cur (listing_lines l @ ls) =
    (if wt_Path cur \<noteq> [] then [cur] else []) @ parse_list (listed_worktree l) ls"
proof -
  have others: "parse_list w (li_Notes l @ [] # ls) = parse_list w ls" for w
    using assms parse_list_other [of "li_Notes l" w "[] # ls"] by (simp add: good_listing_def listing_head_lines)
  have tail: "parse_list w ((case li_HEAD l of Some h \<Rightarrow> [''HEAD '' @ h] | None \<Rightarrow> []) @
      (case li_Branch l of Some b \<Rightarrow> [''branch refs/heads/'' @ b] | None \<Rightarrow> []) @ li_Notes l @ [] # ls) =
    parse_list (listed_worktree l) ls" if "w = \<lparr>wt_Path = li_Path l, wt_HEAD = [], wt_Branch = []\<rparr>" for w
    using that others listing_head_lines cut_prefix_append [of "''HEAD ''"] cut_prefix_append [of "''branch refs/heads/''"]
    by (simp add: listed_worktree_def split: option.splits)
  show ?thesis
    using tail [OF refl] cut_prefix_append [of "''worktree ''" "li_Path l"] by (simp add: listing_lines_def)
qed

lemma one_line_listing: "good_listing l \<Longrightarrow> list_all one_line (listing_lines l)"
  by (auto simp: good_listing_def listing_lines_def one_line_def other_line_def list_all_iff split: option.splits)

lemma parse_listings:
  "list_all good_listing ls \<Longrightarrow> wt_Path cur \<noteq> [] \<Longrightarrow>
   parse_list cur (concat (map listing_lines ls) @ [[]]) = cur # map listed_worktree ls"
proof (induction ls arbitrary: cur)
  case (Cons l ls)
  then have "wt_Path (listed_worktree l) \<noteq> []" by (simp add: listed_worktree_def good_listing_def)
  with Cons show ?case by (simp add: parse_listing)
qed (simp add: listing_head_lines)

text \<open>
  What git prints for any worktrees is read back as those worktrees, in their order: bare, detached, locked and prunable
  ones included, with an empty head or branch where git prints none.
\<close>
theorem worktree_list_roundtrip:
  assumes "list_all good_listing ls"
  shows "parseWorktreeList (print_listing ls) = map listed_worktree ls"
proof -
  have lines: "list_all one_line (concat (map listing_lines ls))"
    using assms one_line_listing by (fastforce simp: list_all_iff)
  show ?thesis
  proof (cases ls)
    case Nil
    then show ?thesis by (simp add: parseWorktreeList_def print_listing_def no_worktree_def listing_head_lines)
  next
    case (Cons l rest)
    with assms have "wt_Path (listed_worktree l) \<noteq> []" by (simp add: listed_worktree_def good_listing_def)
    with Cons assms show ?thesis
      by (simp add: parseWorktreeList_def print_listing_def split_lines_concat [OF lines, unfolded Cons, simplified]
          parse_listing parse_listings no_worktree_def)
  qed
qed

definition listing_example :: "listing list" where
  "listing_example =
     [\<lparr>li_Path = ''/r/app'', li_HEAD = Some ''a1'', li_Branch = Some ''main'', li_Notes = []\<rparr>,
      \<lparr>li_Path = ''/r/app-worktrees/x'', li_HEAD = Some ''b2'', li_Branch = None, li_Notes = [''detached'', ''locked'']\<rparr>]"

theorem worktree_list_roundtrip_witness:
  "parseWorktreeList (print_listing listing_example) =
     [\<lparr>wt_Path = ''/r/app'', wt_HEAD = ''a1'', wt_Branch = ''main''\<rparr>,
      \<lparr>wt_Path = ''/r/app-worktrees/x'', wt_HEAD = ''b2'', wt_Branch = []\<rparr>]"
proof -
  have "list_all good_listing listing_example" by code_simp
  from worktree_list_roundtrip [OF this] show ?thesis by (simp add: listing_example_def listed_worktree_def)
qed

section \<open>What making a worktree deletes\<close>

text \<open>The documented behaviour of git that is relied on: adding, listing and pruning keep every file outside \<^verbatim>\<open>.git\<close>.\<close>

definition leaves_files :: "'w git \<Rightarrow> WorktreeManager \<Rightarrow> bool" where
  "leaves_files git m \<longleftrightarrow>
     (\<forall>cmd args s p c t. cmd \<in> {''add'', ''list'', ''prune''} \<and> \<not> prefix (repoPath m @ [''.git'']) p \<and> mget (fst s) p = Some (FileN c t) \<longrightarrow>
        mget (fst (fst (git (repoPath m) (''worktree'' # cmd # args) s))) p = Some (FileN c t))"

lemma leaves_filesD:
  "leaves_files git m \<Longrightarrow> cmd \<in> {''add'', ''list'', ''prune''} \<Longrightarrow> \<not> prefix (repoPath m @ [''.git'']) p \<Longrightarrow>
   mget (fst s) p = Some (FileN c t) \<Longrightarrow> mget (fst (fst (git (repoPath m) (''worktree'' # cmd # args) s))) p = Some (FileN c t)"
  unfolding leaves_files_def by blast

lemma keeps_list:
  "leaves_files git m \<Longrightarrow> \<not> prefix (repoPath m @ [''.git'']) p \<Longrightarrow> mget (fst s) p = Some (FileN c t) \<Longrightarrow>
   mget (fst (fst (ListWorktrees git m s))) p = Some (FileN c t)"
  using leaves_filesD [of git m "''list''" p s c t "[''--porcelain'']"]
  by (cases "git (repoPath m) [''worktree'', ''list'', ''--porcelain''] s") (simp add: ListWorktrees_def)

lemma keeps_conflicting:
  "leaves_files git m \<Longrightarrow> \<not> prefix (repoPath m @ [''.git'']) p \<Longrightarrow> mget (fst s) p = Some (FileN c t) \<Longrightarrow>
   mget (fst (fst (conflictingWorktreePath git m b s))) p = Some (FileN c t)"
  using keeps_list [of git m p s c t] by (auto simp: conflictingWorktreePath_def split: prod.splits sum.splits)

lemma keeps_branch:
  "leaves_files git m \<Longrightarrow> \<not> prefix (repoPath m @ [''.git'']) p \<Longrightarrow> mget (fst s) p = Some (FileN c t) \<Longrightarrow>
   mget (fst (fst (BranchForWorktree git links m w s))) p = Some (FileN c t)"
  using keeps_list [of git m p s c t] by (auto simp: BranchForWorktree_def split: prod.splits sum.splits)

lemma keeps_resolve:
  assumes "leaves_files git m" "\<not> prefix (repoPath m @ [''.git'']) p" "mget (fst s) p = Some (FileN c t)"
  shows "mget (fst (fst (resolveBranchCheckedOutElsewhere git links F m b w s))) p = Some (FileN c t)"
proof -
  obtain s1 conf where c: "conflictingWorktreePath git m b s = (s1, conf)" by fastforce
  define s2 where "s2 = fst (git (repoPath m) [''worktree'', ''prune''] s1)"
  have k1: "mget (fst s1) p = Some (FileN c t)" using keeps_conflicting [OF assms, of b] c by simp
  have k2: "mget (fst s2) p = Some (FileN c t)"
    unfolding s2_def using leaves_filesD [OF assms(1) _ assms(2) k1, of "''prune''" "[]"] by simp
  obtain s3 r3 where g3: "git (repoPath m) [''worktree'', ''add'', slashed w, b] s2 = (s3, r3)" by fastforce
  have k3: "mget (fst s3) p = Some (FileN c t)"
    using leaves_filesD [OF assms(1) _ assms(2) k2, of "''add''" "[slashed w, b]"] g3 by simp
  show ?thesis
    using k1 k3 by (simp add: resolveBranchCheckedOutElsewhere_def c Let_def s2_def [symmetric] g3)
qed

lemma keeps_add:
  assumes "leaves_files git m" "\<not> prefix (repoPath m @ [''.git'']) p" "mget (fst s) p = Some (FileN c t)"
  shows "mget (fst (fst (add_worktree git links F m b base w s))) p = Some (FileN c t)"
proof -
  obtain s1 r1 where g1: "git (repoPath m) [''worktree'', ''add'', ''-b'', b, slashed w, base] s = (s1, r1)" by fastforce
  obtain s2 r2 where g2: "git (repoPath m) [''worktree'', ''add'', slashed w, b] s1 = (s2, r2)" by fastforce
  have k1: "mget (fst s1) p = Some (FileN c t)"
    using leaves_filesD [OF assms(1) _ assms(2,3), of "''add''" "[''-b'', b, slashed w, base]"] g1 by simp
  have k2: "mget (fst s2) p = Some (FileN c t)"
    using leaves_filesD [OF assms(1) _ assms(2) k1, of "''add''" "[slashed w, b]"] g2 by simp
  show ?thesis
    using k1 k2 keeps_resolve [OF assms(1,2) k1] keeps_resolve [OF assms(1,2) k2] by (simp add: add_worktree_def g1 g2)
qed


section \<open>Where a worktree is\<close>

lemma branch_noslash: "CHR ''/'' \<notin> set (sanitizeBranchName b)"
  by (auto simp: sanitizeBranchName_def)

lemma clean_join_name:
  "CHR ''/'' \<notin> set x \<Longrightarrow> clean_join base x = (if x = [] \<or> x = ''.'' then base else if x = ''..'' then butlast base else base @ [x])"
  by (simp add: clean_join_def split_slash_noslash clean_step_def)

text \<open>A branch name that leaves something after sanitizing, other than dots, has a directory of its own right below the base.\<close>
lemma worktree_below_base:
  "sanitizeBranchName b \<notin> {[], ''.'', ''..''} \<Longrightarrow> clean_join (baseDir m) (sanitizeBranchName b) = baseDir m @ [sanitizeBranchName b]"
  by (simp add: clean_join_name [OF branch_noslash])

text \<open>Otherwise it stands for the base itself, or for the directory the base is in, and that is what the call clears.\<close>
lemma create_clears_base:
  assumes "sanitizeBranchName b = []" and "mget d (baseDir m) = Some DirN" and "mget d (baseDir m @ [''.git'']) = None"
    and "\<forall>q \<in> set (prefixes_of (baseDir m)). mget d q = Some DirN"
  shows "\<exists>d'. CreateWorktree git links (\<lambda>_. False) m b base (d, w) =
      add_worktree git links (\<lambda>_. False) m b base (baseDir m) (d', w) \<and>
    (\<forall>p. prefix (baseDir m) p \<longrightarrow> mget d' p = None)"
proof -
  have here: "clean_join (baseDir m) (sanitizeBranchName b) = baseDir m"
    using clean_join_name [OF branch_noslash, of "baseDir m" b] assms(1) by simp
  have "find (is_file d) (prefixes_of (baseDir m)) = None"
    using assms(4) by (simp add: find_None_iff is_file_def)
  moreover have "fold (\<lambda>q d. if mget d q = None then mput q DirN d else d) qs d = d" if "\<forall>q \<in> set qs. mget d q = Some DirN" for qs
    using that by (induction qs) auto
  ultimately have mk: "os_MkdirAll (\<lambda>_. False) (baseDir m) d = (d, None)"
    using assms(4) by (simp add: os_MkdirAll_def)
  define d' where "d' = fst (os_RemoveAll (\<lambda>_. False) (baseDir m) d)"
  have "mget d' p = None" if "prefix (baseDir m) p" for p
    unfolding d'_def using that by (induction d) (auto simp: os_RemoveAll_def)
  moreover have "CreateWorktree git links (\<lambda>_. False) m b base (d, w) =
      add_worktree git links (\<lambda>_. False) m b base (baseDir m) (d', w)"
    using assms(2,3) by (simp add: CreateWorktree_def mk here Let_def os_Exists_def isValidWorktree_def is_file_def d'_def)
  ultimately show ?thesis by blast
qed


definition wipe_manager :: WorktreeManager where
  "wipe_manager = \<lparr>repoPath = [''r''], baseDir = [''r-worktrees'']\<rparr>"

definition wipe_disk :: disk where
  "wipe_disk =
     [([''r''], DirN), ([''r-worktrees''], DirN), ([''r-worktrees'', ''old''], DirN),
      ([''r-worktrees'', ''old'', ''.git''], FileN ''gitdir: /r/.git/worktrees/old'' 1),
      ([''r-worktrees'', ''old'', ''draft.txt''], FileN ''uncommitted'' 1)]"

definition feature_prefix :: BoardSettings where
  "feature_prefix = \<lparr>bs_BranchPrefix = ''feature/'', bs_BranchTemplate = [], bs_SlugMaxLength = 0\<rparr>"

definition refusing_git :: "unit git" where
  "refusing_git dir args s = (s, \<lparr>gr_Stdout = [], gr_Output = ''fatal: not a valid branch name'', gr_OK = False\<rparr>)"



section \<open>Removing a worktree\<close>

text \<open>
  With no fault of the file system a removal that git did, or declined because the directory is no worktree of the
  repository, leaves nothing there; any other answer of git leaves the removal to the user.
\<close>
lemma remove_worktree_gone:
  assumes "RemoveWorktree git (\<lambda>_. False) m p s = (s', None)"
  shows "mget (fst s') p = None"
proof -
  obtain s1 r where g: "git (repoPath m) [''worktree'', ''remove'', slashed p, ''--force''] s = (s1, r)" by fastforce
  have "os_RemoveAll (\<lambda>_. False) p d = (d', e) \<Longrightarrow> mget d' p = None" for d d' e
    by (induction d arbitrary: d') (auto simp: os_RemoveAll_def)
  with assms show ?thesis
    by (auto simp: RemoveWorktree_def g os_Exists_def split: if_splits prod.splits option.splits)
qed

lemma remove_worktree_refused:
  "git (repoPath m) [''worktree'', ''remove'', slashed p, ''--force''] s = (s1, r) \<Longrightarrow> \<not> gr_OK r \<Longrightarrow>
   \<not> contains (gr_Output r) ''not a working tree'' \<Longrightarrow> RemoveWorktree git F m p s = (s1, Some (RemoveFailed (gr_Output r)))"
  by (simp add: RemoveWorktree_def)

end
