(* ===== verification/TicketCmd.thy ===== *)
theory TicketCmd
  imports TicketSvc Git Sessions AgentDetect Workflow "HOL-Library.Multiset"
begin

text \<open>
  The ticket commands of \<^verbatim>\<open>cmd\<close>: \<^verbatim>\<open>ticket new\<close>, \<^verbatim>\<open>delete\<close>, \<^verbatim>\<open>move\<close>, \<^verbatim>\<open>done\<close> and \<^verbatim>\<open>in-review\<close>, with the resolution of the
  projects and tickets they name, the guard against agents, and the clean-up of worktrees and sessions.

  A command runs on \<open>cli\<close>: the ticket stores' world, the disk below git, the home directory of the Claude CLI, the
  status files, and what was asked of the daemon and of other processes.  The flags of a command are a record; the
  environment \<open>cli_env\<close> holds what the outside answers.  Every store that is loaded is a separate copy, as in the code.
  Printed output is left out.
\<close>

section \<open>Running a command\<close>

datatype owner_probe = DaemonDown | DaemonFails | DaemonOwns bool string

record cleanup_config =
  cc_DeleteWorktree :: bool
  cc_DeleteBranch :: bool
  cc_Defaults :: BoardSettings

datatype stdin = Terminal | Piped string | PipeBroken

record 'w cli_env =
  ce_IO :: io_env
  ce_Review :: review_env
  ce_Ignores :: "string \<Rightarrow> bool"
  ce_Codec :: "ProjectRegistry json_lib"
  ce_EnvTicket :: string
  ce_EnvSession :: string
  ce_Probe :: "string \<Rightarrow> owner_probe"
  ce_KillFails :: "string \<Rightarrow> bool"
  ce_DoneFails :: "TicketID \<Rightarrow> bool"
  ce_Lsof :: "path \<Rightarrow> lsof_run"
  ce_SignalFails :: "os_signal \<Rightarrow> bool"
  ce_Polls :: "(session_error + int) list"
  ce_Late :: "(session_error + int) list"
  ce_Git :: "'w git"
  ce_Links :: evalsymlinks
  ce_GitFaults :: faults
  ce_Config :: "cleanup_config option"
  ce_Stdin :: stdin
  ce_ReadFile :: "string \<Rightarrow> string option"
  ce_StatusDir :: string
  ce_StatusFails :: bool
  ce_NewID :: string

record 'w cli =
  ci_World :: world
  ci_Git :: "disk \<times> 'w"
  ci_Home :: disk
  ci_Status :: status_files
  ci_Killed :: "string list"
  ci_Done :: "TicketID list"
  ci_Signals :: "(os_signal \<times> int) list"

datatype cmd_error =
    Usage string
  | BadFlag board_error
  | RegistryFailed file_error
  | NoProject string
  | AmbiguousProject string
  | NoTicket string
  | AmbiguousTicket string
  | LooksLikeProject string
  | LegacyStorage string
  | LoadFailed store_error
  | AgentRefused string
  | Prerequisite gate_error
  | NotLinkable session_error
  | HeldByDaemon string
  | HeldByProcess int
  | ProbeFailed
  | KillFailed string
  | LinkFailed "global_error link_error"
  | ConfigFailed
  | ProvisionFailed git_error
  | MoveFailed store_error
  | SaveFailed store_error
  | DeleteTicketFailed store_error
  | DescriptionFailed
  | StatusFileFailed
  | NoSessionTicket

type_synonym ('w, 'a) cmd = "'w cli \<Rightarrow> 'w cli \<times> (cmd_error + 'a)"

definition return :: "'a \<Rightarrow> ('w, 'a) cmd" where
  "return a s = (s, Inr a)"

definition fail :: "cmd_error \<Rightarrow> ('w, 'a) cmd" where
  "fail e s = (s, Inl e)"

definition check :: "bool \<Rightarrow> cmd_error \<Rightarrow> ('w, unit) cmd" where
  "check b e s = (s, if b then Inr () else Inl e)"

definition lift :: "cmd_error + 'a \<Rightarrow> ('w, 'a) cmd" where
  "lift r s = (s, r)"

definition andthen :: "('w, 'a) cmd \<Rightarrow> ('a \<Rightarrow> ('w, 'b) cmd) \<Rightarrow> ('w, 'b) cmd" where
  "andthen m f s = (case m s of (s1, Inl e) \<Rightarrow> (s1, Inl e) | (s1, Inr a) \<Rightarrow> f a s1)"

section \<open>Projects and tickets by name\<close>

definition load_registry :: "'w cli_env \<Rightarrow> ('w, ProjectRegistry) cmd" where
  "load_registry E s =
     (s, case LoadRegistry (ce_IO E) (ce_Codec E) (w_disk (ci_World s)) of Inl e \<Rightarrow> Inl (RegistryFailed e) | Inr r \<Rightarrow> Inr r)"

definition load_tickets :: "'w cli_env \<Rightarrow> Project \<Rightarrow> ('w, TicketStore) cmd" where
  "load_tickets E p s =
     (case LoadTicketStore (ce_IO E) p (ci_World s) of
        (w, Inl e) \<Rightarrow> (s\<lparr>ci_World := w\<rparr>, Inl (LoadFailed e))
      | (w, Inr st) \<Rightarrow> (s\<lparr>ci_World := w\<rparr>, Inr st))"

fun find_in_projects :: "'w cli_env \<Rightarrow> TicketID \<Rightarrow> Project list \<Rightarrow> 'w cli \<Rightarrow> 'w cli \<times> (ref \<times> TicketStore) option" where
  "find_in_projects E i [] s = (s, None)"
| "find_in_projects E i (p # ps) s =
     (case load_tickets E p s of
        (s1, Inl e) \<Rightarrow> find_in_projects E i ps s1
      | (s1, Inr st) \<Rightarrow>
          (case Store_Get i st of
             Inr r \<Rightarrow> (s1, Some (r, st))
           | Inl _ \<Rightarrow> find_in_projects E i ps s1))"

definition findTicketAcrossProjects ::
    "'w cli_env \<Rightarrow> ProjectRegistry \<Rightarrow> TicketID \<Rightarrow> 'w cli \<Rightarrow> 'w cli \<times> (ref \<times> TicketStore) option" where
  "findTicketAcrossProjects E registry i s = find_in_projects E i (Registry_List registry) s"

definition resolveProject :: "ProjectRegistry \<Rightarrow> string \<Rightarrow> cmd_error + Project" where
  "resolveProject reg arg =
     (if arg = [] then Inl (Usage ''--project value is empty'')
      else
        let exact = filter (\<lambda>p. p_Name p = arg \<or> p_ID p = arg) (Registry_List reg);
            pre = filter (\<lambda>p. \<not> (p_Name p = arg \<or> p_ID p = arg) \<and> 4 \<le> length arg \<and> has_prefix (p_ID p) arg) (Registry_List reg)
        in case exact of
             [p] \<Rightarrow> Inr p
           | _ # _ # _ \<Rightarrow> Inl (AmbiguousProject arg)
           | [] \<Rightarrow>
               (case pre of
                  [p] \<Rightarrow> Inr p
                | _ # _ # _ \<Rightarrow> Inl (AmbiguousProject arg)
                | [] \<Rightarrow> Inl (NoProject arg)))"

definition projectIDHint :: "ProjectRegistry \<Rightarrow> string \<Rightarrow> bool" where
  "projectIDHint reg arg \<longleftrightarrow>
     list_ex (\<lambda>p. p_ID p = arg) (Registry_List reg) \<or>
     4 \<le> length arg \<and> list_ex (\<lambda>p. has_prefix (p_ID p) arg) (Registry_List reg)"

text \<open>\<^verbatim>\<open>strings.ToLower(arg)\<close> equals a slug: compared by runes, since a slug is ASCII.\<close>

definition slug_matches :: "string \<Rightarrow> Ticket \<Rightarrow> bool" where
  "slug_matches arg t \<longleftrightarrow> map (to_lower (\<lambda>r. r)) (runes arg) = runes (Slugify (t_Title t) 40)"

definition resolve_tiers :: "ProjectRegistry \<Rightarrow> string \<Rightarrow> ref list \<Rightarrow> ref list \<Rightarrow> cmd_error + ref" where
  "resolve_tiers reg arg idPrefix slugMatch =
     (case idPrefix of
        [r] \<Rightarrow> Inr r
      | _ # _ # _ \<Rightarrow> Inl (AmbiguousTicket arg)
      | [] \<Rightarrow>
          (case slugMatch of
             [r] \<Rightarrow> Inr r
           | _ # _ # _ \<Rightarrow> Inl (AmbiguousTicket arg)
           | [] \<Rightarrow> if projectIDHint reg arg then Inl (LooksLikeProject arg) else Inl (NoTicket arg)))"

definition resolveTicket :: "TicketStore \<Rightarrow> ProjectRegistry \<Rightarrow> string \<Rightarrow> world \<Rightarrow> cmd_error + ref" where
  "resolveTicket store registry arg w =
     (if arg = [] then Inl (Usage ''--id value is empty'')
      else case find (\<lambda>r. t_ID (deref w r) = arg) (Store_All store) of
        Some r \<Rightarrow> Inr r
      | None \<Rightarrow>
          resolve_tiers registry arg
            (if 4 \<le> length arg then filter (\<lambda>r. has_prefix (t_ID (deref w r)) arg) (Store_All store) else [])
            (filter (\<lambda>r. slug_matches arg (deref w r)) (Store_All store)))"

section \<open>Guards\<close>

definition inAgentSession :: "'w cli_env \<Rightarrow> bool" where
  "inAgentSession E \<longleftrightarrow> ce_EnvSession E \<noteq> [] \<or> ce_EnvTicket E \<noteq> []"

definition guardAgentStatusChange :: "'w cli_env \<Rightarrow> TicketStatus \<Rightarrow> bool \<Rightarrow> ('w, unit) cmd" where
  "guardAgentStatusChange E target force = check (force \<or> \<not> inAgentSession E) (AgentRefused target)"

text \<open>
  The prerequisite gate of Workflow over \<^verbatim>\<open>ticketGraphLookup\<close>, whose look-ups load the stores of the projects.
\<close>

fun upstream_loop ::
    "'w cli_env \<Rightarrow> ProjectRegistry \<Rightarrow> TicketType \<Rightarrow> TicketStatus \<Rightarrow> TicketID list \<Rightarrow> 'w cli \<Rightarrow> 'w cli \<times> bool" where
  "upstream_loop E reg wantType minStatus [] s = (s, False)"
| "upstream_loop E reg wantType minStatus (i # is) s =
     (case findTicketAcrossProjects E reg i s of
        (s1, None) \<Rightarrow> upstream_loop E reg wantType minStatus is s1
      | (s1, Some (r, _)) \<Rightarrow>
          (let up = deref (ci_World s1) r
           in if t_Type up = wantType \<and> statusRank (t_Status up) \<ge> statusRank minStatus then (s1, True)
              else upstream_loop E reg wantType minStatus is s1))"

definition check_prerequisite :: "'w cli_env \<Rightarrow> ProjectRegistry \<Rightarrow> Ticket \<Rightarrow> 'w cli \<Rightarrow> 'w cli \<times> gate_error option" where
  "check_prerequisite E reg t s =
     (if t_Type t = TypeImplement then
        (case upstream_loop E reg TypeSpec StatusDone (t_BlockedBy t) s of
           (s1, ok) \<Rightarrow> (s1, if ok then None else Some ErrMissingSpec))
      else if t_Type t = TypeReview then
        (case upstream_loop E reg TypeImplement StatusInReview (t_BlockedBy t) s of
           (s1, ok) \<Rightarrow> (s1, if ok then None else Some ErrMissingImpl))
      else (s, None))"

definition checkStartPrerequisite :: "'w cli_env \<Rightarrow> ProjectRegistry \<Rightarrow> ref \<Rightarrow> bool \<Rightarrow> ('w, unit) cmd" where
  "checkStartPrerequisite E reg r force s =
     (if force then (s, Inr ())
      else case check_prerequisite E reg (deref (ci_World s) r) s of
        (s1, Some e) \<Rightarrow> (s1, Inl (Prerequisite e))
      | (s1, None) \<Rightarrow> (s1, Inr ()))"

section \<open>The daemon and the processes behind a session\<close>

definition killDaemonSession :: "'w cli_env \<Rightarrow> string \<Rightarrow> ('w, unit) cmd" where
  "killDaemonSession E sid s =
     (if ce_KillFails E sid then (s, Inl (KillFailed sid)) else (s\<lparr>ci_Killed := ci_Killed s @ [sid]\<rparr>, Inr ()))"

text \<open>Best effort in every command: an error is printed and forgotten.\<close>

definition notifyDaemonTicketDone :: "'w cli_env \<Rightarrow> TicketID \<Rightarrow> 'w cli \<Rightarrow> 'w cli" where
  "notifyDaemonTicketDone E i s = (if ce_DoneFails E i then s else s\<lparr>ci_Done := ci_Done s @ [i]\<rparr>)"

definition force_exit :: "'w cli_env \<Rightarrow> string \<Rightarrow> ('w, unit) cmd" where
  "force_exit E uuid s =
     (case ForceExitSession (SessionActive (ce_Lsof E) uuid (ci_Home s)) (ce_SignalFails E) (ce_Polls E) (ce_Late E) of
        (sent, r) \<Rightarrow>
          (s\<lparr>ci_Signals := ci_Signals s @ sent\<rparr>, case r of None \<Rightarrow> Inr () | Some e \<Rightarrow> Inl (NotLinkable e)))"

definition free_session :: "'w cli_env \<Rightarrow> string \<Rightarrow> bool \<Rightarrow> ('w, unit) cmd" where
  "free_session E uuid force s =
     (case ce_Probe E uuid of
        DaemonFails \<Rightarrow> (s, Inl ProbeFailed)
      | DaemonOwns True sid \<Rightarrow> if \<not> force then (s, Inl (HeldByDaemon sid)) else killDaemonSession E sid s
      | _ \<Rightarrow>
          (case SessionActive (ce_Lsof E) uuid (ci_Home s) of
             Inl e \<Rightarrow> (s, Inl (NotLinkable e))
           | Inr pid \<Rightarrow>
               if pid = 0 then (s, Inr ())
               else if \<not> force then (s, Inl (HeldByProcess pid))
               else force_exit E uuid s))"

record new_opts =
  no_Project :: string
  no_Title :: string
  no_Description :: string
  no_DescriptionFile :: string
  no_Status :: string
  no_Type :: string
  no_Labels :: string
  no_Priority :: int
  no_NoWorktree :: bool
  no_Worktree :: bool
  no_AllowMigration :: bool
  no_Session :: string
  no_Migrate :: bool
  no_Force :: bool
  no_CreatedBy :: string
  no_BlockedBy :: string
  no_WorktreeFrom :: string

definition link_session :: "'w cli_env \<Rightarrow> ref \<Rightarrow> string \<Rightarrow> bool \<Rightarrow> GlobalStore \<Rightarrow> ('w, unit) cmd" where
  "link_session E r uuid force g s =
     (case LinkSession ticket_heap (e_now (ce_IO E)) (Some (global_api (ce_IO E))) (Some r) uuid
             \<lparr>lo_BestEffort = False, lo_Force = force\<rparr> (g, ci_World s) of
        ((_, w), _, Some e) \<Rightarrow> (s\<lparr>ci_World := w\<rparr>, Inl (LinkFailed e))
      | ((_, w), _, None) \<Rightarrow> (s\<lparr>ci_World := w\<rparr>, Inr ()))"

definition modify_ticket :: "ref \<Rightarrow> (Ticket \<Rightarrow> Ticket) \<Rightarrow> ('w, unit) cmd" where
  "modify_ticket r f s = (s\<lparr>ci_World := set_ticket r (f (deref (ci_World s) r)) (ci_World s)\<rparr>, Inr ())"

definition applySessionFlags :: "'w cli_env \<Rightarrow> new_opts \<Rightarrow> ref \<Rightarrow> GlobalStore \<Rightarrow> ('w, unit) cmd" where
  "applySessionFlags E opts r g =
     andthen (check (\<not> (no_Migrate opts \<and> no_Session opts = [])) (Usage ''--migrate requires --session'')) (\<lambda>_.
     andthen (check (\<not> (no_Force opts \<and> \<not> no_Migrate opts \<and> no_Session opts = [])) (Usage ''--force requires --migrate or --session'')) (\<lambda>_.
     andthen
       (if no_Session opts = [] then return ()
        else
          let uuid = TrimSpace (no_Session opts)
          in andthen (check (is_session_uuid uuid) (NotLinkable (NotUUID uuid))) (\<lambda>_.
             andthen (\<lambda>s. (s, case SessionPath uuid (ci_Home s) of Inl e \<Rightarrow> Inl (NotLinkable e) | Inr p \<Rightarrow> Inr p)) (\<lambda>_.
             andthen (if no_Migrate opts then free_session E uuid (no_Force opts) else return ()) (\<lambda>_.
             link_session E r uuid (no_Force opts) g))))
       (\<lambda>_. if no_CreatedBy opts = [] then return () else modify_ticket r (\<lambda>t. t\<lparr>t_CreatedBySession := no_CreatedBy opts\<rparr>))))"

section \<open>Making a ticket\<close>

definition resolveTicketDescription :: "'w cli_env \<Rightarrow> new_opts \<Rightarrow> cmd_error + string" where
  "resolveTicketDescription E opts =
     (if no_Description opts \<noteq> [] \<and> no_DescriptionFile opts \<noteq> [] then
        Inl (Usage ''--description and --description-file are mutually exclusive'')
      else if no_Description opts \<noteq> [] then Inr (no_Description opts)
      else if no_DescriptionFile opts \<noteq> [] then
        (case ce_ReadFile E (no_DescriptionFile opts) of None \<Rightarrow> Inl DescriptionFailed | Some d \<Rightarrow> Inr d)
      else case ce_Stdin E of Piped d \<Rightarrow> Inr d | PipeBroken \<Rightarrow> Inl DescriptionFailed | Terminal \<Rightarrow> Inr [])"

fun split_commas :: "string \<Rightarrow> string \<Rightarrow> string list" where
  "split_commas acc [] = [rev acc]"
| "split_commas acc (c # cs) = (if c = CHR '','' then rev acc # split_commas [] cs else split_commas (c # acc) cs)"

definition comma_items :: "string \<Rightarrow> string list" where
  "comma_items s = filter (\<lambda>x. x \<noteq> []) (map TrimSpace (split_commas [] s))"

definition check_new_flags :: "new_opts \<Rightarrow> cmd_error + string" where
  "check_new_flags opts =
     (let title = TrimSpace (no_Title opts)
      in if title = [] then Inl (Usage ''--title must not be empty'')
         else if no_Priority opts < 0 \<or> 5 < no_Priority opts then Inl (Usage ''--priority must be 0-5 (0 = use default)'')
         else case (if no_Status opts \<noteq> [] then ParseStatus (no_Status opts) else Inr []) of
           Inl e \<Rightarrow> Inl (BadFlag e)
         | Inr _ \<Rightarrow>
             if no_Worktree opts \<and> no_NoWorktree opts then Inl (Usage ''--worktree and --no-worktree are contradictory'')
             else if no_WorktreeFrom opts \<noteq> [] \<and> no_Worktree opts then Inl (Usage ''--worktree-from is contradictory with --worktree'')
             else if no_WorktreeFrom opts \<noteq> [] \<and> no_NoWorktree opts then
               Inl (Usage ''--worktree-from and --no-worktree are contradictory'')
             else Inr title)"

definition new_project_ref :: "'w cli_env \<Rightarrow> new_opts \<Rightarrow> ProjectRegistry \<Rightarrow> ('w, string) cmd" where
  "new_project_ref E opts reg s =
     (if no_Project opts \<noteq> [] then (s, Inr (no_Project opts))
      else if ce_EnvTicket E = [] then (s, Inl (Usage ''--project is required''))
      else case findTicketAcrossProjects E reg (ce_EnvTicket E) s of
        (s1, Some (r, _)) \<Rightarrow>
          (s1, if t_ProjectID (deref (ci_World s1) r) = [] then Inl (Usage ''--project is required'')
               else Inr (t_ProjectID (deref (ci_World s1) r)))
      | (s1, None) \<Rightarrow> (s1, Inl (Usage ''--project is required'')))"

definition legacy_pending :: "'w cli_env \<Rightarrow> Project \<Rightarrow> 'w cli \<Rightarrow> bool" where
  "legacy_pending E p s \<longleftrightarrow> MigrationStateFor (ce_IO E) (p_ID p) (w_disk (ci_World s)) = MigrationPending"

text \<open>The fields a flag sets on the ticket that \<^verbatim>\<open>NewTicket\<close> made.\<close>

definition new_fields :: "new_opts \<Rightarrow> string \<Rightarrow> Ticket \<Rightarrow> cmd_error + Ticket" where
  "new_fields opts desc t0 =
     (let t1 = t0\<lparr>t_Description := desc, t_Status := (if no_Status opts \<noteq> [] then no_Status opts else t_Status t0),
                  t_Priority := (if 0 < no_Priority opts then no_Priority opts else t_Priority t0),
                  t_Labels := (if no_Labels opts \<noteq> [] then t_Labels t0 @ comma_items (no_Labels opts) else t_Labels t0),
                  t_UseWorktree := (if no_NoWorktree opts then False else t_UseWorktree t0)\<rparr>
      in case (if no_Type opts \<noteq> [] then ParseTicketType (no_Type opts) else Inr (t_Type t1)) of
           Inl e \<Rightarrow> Inl (BadFlag e)
         | Inr ty \<Rightarrow>
             Inr (t1\<lparr>t_Type := ty,
                     t_UseWorktree :=
                       (if (ty = TypeResearch \<or> ty = TypeSpec) \<and> \<not> no_Worktree opts \<and> \<not> no_NoWorktree opts \<and> no_WorktreeFrom opts = []
                        then False else t_UseWorktree t1)\<rparr>))"

fun add_blockers :: "'w cli_env \<Rightarrow> ProjectRegistry \<Rightarrow> ref \<Rightarrow> string list \<Rightarrow> ('w, unit) cmd" where
  "add_blockers E reg r [] s = (s, Inr ())"
| "add_blockers E reg r (dep # deps) s =
     (if dep = t_ID (deref (ci_World s) r) then (s, Inl (Usage ''--blocked-by: a ticket cannot block itself''))
      else case findTicketAcrossProjects E reg dep s of
        (s1, None) \<Rightarrow> (s1, Inl (NoTicket dep))
      | (s1, Some _) \<Rightarrow>
          andthen (modify_ticket r (\<lambda>t. t\<lparr>t_BlockedBy := t_BlockedBy t @ [dep]\<rparr>)) (\<lambda>_. add_blockers E reg r deps) s1)"

text \<open>A ticket that is created resting is only warned about.\<close>

definition new_gate :: "'w cli_env \<Rightarrow> ProjectRegistry \<Rightarrow> new_opts \<Rightarrow> ref \<Rightarrow> ('w, unit) cmd" where
  "new_gate E reg opts r s =
     (case check_prerequisite E reg (deref (ci_World s) r) s of
        (s1, Some e) \<Rightarrow>
          (s1, if t_Status (deref (ci_World s1) r) = StatusInProgress \<and> \<not> no_Force opts then Inl (Prerequisite e) else Inr ())
      | (s1, None) \<Rightarrow> (s1, Inr ()))"

definition adopt_worktree :: "'w cli_env \<Rightarrow> ProjectRegistry \<Rightarrow> Project \<Rightarrow> string \<Rightarrow> ref \<Rightarrow> ('w, unit) cmd" where
  "adopt_worktree E reg p from r s =
     (case findTicketAcrossProjects E reg from s of
        (s1, None) \<Rightarrow> (s1, Inl (NoTicket from))
      | (s1, Some (src, _)) \<Rightarrow>
          (let t = deref (ci_World s1) src
           in if t_ProjectID t \<noteq> p_ID p then (s1, Inl (Usage ''--worktree-from: ticket belongs to a different project''))
              else if t_WorktreePath t = [] then (s1, Inl (Usage ''--worktree-from: ticket has no worktree to reuse''))
              else modify_ticket r
                (\<lambda>x. x\<lparr>t_UseWorktree := True, t_WorktreePath := t_WorktreePath t, t_BranchName := t_BranchName t,
                       t_BaseBranch := t_BaseBranch t\<rparr>) s1))"

definition abs_path :: "string \<Rightarrow> path" where
  "abs_path p = clean_join [] p"

definition project_manager :: "Project \<Rightarrow> WorktreeManager" where
  "project_manager p = \<lparr>repoPath = abs_path (p_RepoPath p), baseDir = abs_path (GetWorktreeDir p)\<rparr>"

definition provision_worktree :: "'w cli_env \<Rightarrow> Project \<Rightarrow> ref \<Rightarrow> ('w, unit) cmd" where
  "provision_worktree E p r s =
     (case ce_Config E of
        None \<Rightarrow> (s, Inl ConfigFailed)
      | Some cfg \<Rightarrow>
          (let m = project_manager p;
               (g1, base) = GetDefaultBranch (ce_Git E) m (ci_Git s);
               branch = BranchNameForTitle (t_Title (deref (ci_World s) r)) (Some p) (cc_Defaults cfg)
           in case CreateWorktree (ce_Git E) (ce_Links E) (ce_GitFaults E) m branch base g1 of
                (g2, Inl e) \<Rightarrow> (s\<lparr>ci_Git := g2\<rparr>, Inl (ProvisionFailed e))
              | (g2, Inr wt) \<Rightarrow>
                  (let w = ci_World s;
                       sd = fst (SeedClaudeSettings (re_faults (ce_Review E)) (ce_Ignores E) (w_settings w) (slashed wt) (p_RepoPath p))
                   in modify_ticket r
                        (\<lambda>t. t\<lparr>t_WorktreePath := slashed wt, t_BranchName := branch, t_BaseBranch := base\<rparr>)
                        (s\<lparr>ci_Git := g2, ci_World := w\<lparr>w_settings := sd\<rparr>\<rparr>))))"

definition save_new :: "'w cli_env \<Rightarrow> Project \<Rightarrow> ref \<Rightarrow> TicketStore \<Rightarrow> ('w, unit) cmd" where
  "save_new E p r store s =
     (case SaveTicket (ce_IO E) (Some r) store (ci_World s) of
        (_, w, None) \<Rightarrow> (s\<lparr>ci_World := w\<rparr>, Inr ())
      | (_, w, Some e) \<Rightarrow>
          (let wt = t_WorktreePath (deref w r);
               g = (if wt \<noteq> [] then fst (RemoveWorktree (ce_Git E) (ce_GitFaults E) (project_manager p) (abs_path wt) (ci_Git s)) else ci_Git s)
           in (s\<lparr>ci_World := w, ci_Git := g\<rparr>, Inl (SaveFailed e))))"

definition global_stores :: "'w cli_env \<Rightarrow> ProjectRegistry \<Rightarrow> ('w, GlobalStore) cmd" where
  "global_stores E reg s =
     (case LoadGlobalTicketStore (ce_IO E) reg (ci_World s) of (g, w) \<Rightarrow> (s\<lparr>ci_World := w\<rparr>, Inr g))"

definition alloc_ticket :: "Ticket \<Rightarrow> ('w, ref) cmd" where
  "alloc_ticket t s = (case alloc t (ci_World s) of (w, r) \<Rightarrow> (s\<lparr>ci_World := w\<rparr>, Inr r))"

definition guard_new_status :: "'w cli_env \<Rightarrow> new_opts \<Rightarrow> ('w, unit) cmd" where
  "guard_new_status E opts =
     (if no_Status opts = StatusInProgress \<or> no_Status opts = StatusDone
      then guardAgentStatusChange E (no_Status opts) (no_Force opts) else return ())"

text \<open>What follows the session flags: blockers, gate, worktree, save.\<close>

definition finish_new :: "'w cli_env \<Rightarrow> new_opts \<Rightarrow> ProjectRegistry \<Rightarrow> Project \<Rightarrow> TicketStore \<Rightarrow> ref \<Rightarrow> ('w, ref) cmd" where
  "finish_new E opts reg p store r =
     andthen (if no_BlockedBy opts = [] then return () else add_blockers E reg r (comma_items (no_BlockedBy opts))) (\<lambda>_.
     andthen (new_gate E reg opts r) (\<lambda>_.
     andthen (if no_WorktreeFrom opts = [] then return () else adopt_worktree E reg p (no_WorktreeFrom opts) r) (\<lambda>_.
     andthen (if no_Worktree opts then provision_worktree E p r else return ()) (\<lambda>_.
     andthen (save_new E p r store) (\<lambda>_. return r)))))"

definition ticket_new :: "'w cli_env \<Rightarrow> new_opts \<Rightarrow> ('w, ref) cmd" where
  "ticket_new E opts =
     andthen (lift (check_new_flags opts)) (\<lambda>title.
     andthen (load_registry E) (\<lambda>reg.
     andthen (new_project_ref E opts reg) (\<lambda>pref.
     andthen (lift (resolveProject reg pref)) (\<lambda>p.
     andthen (\<lambda>s. check (\<not> (legacy_pending E p s \<and> \<not> no_AllowMigration opts)) (LegacyStorage (p_Name p)) s) (\<lambda>_.
     andthen (load_tickets E p) (\<lambda>store.
     andthen (lift (resolveTicketDescription E opts)) (\<lambda>desc.
     andthen (guard_new_status E opts) (\<lambda>_.
     andthen (lift (new_fields opts desc (NewTicket (e_now (ce_IO E)) (ce_NewID E) title (p_ID p)))) (\<lambda>t.
     andthen (alloc_ticket t) (\<lambda>r.
     andthen (global_stores E reg) (\<lambda>g.
     andthen (applySessionFlags E opts r g) (\<lambda>_.
     finish_new E opts reg p store r))))))))))))"

section \<open>Deleting a ticket\<close>

definition release_session :: "'w cli_env \<Rightarrow> Ticket \<Rightarrow> ('w, unit) cmd" where
  "release_session E t =
     (if t_AgentSessionID t = [] then return ()
      else case ce_Probe E (t_AgentSessionID t) of
        DaemonFails \<Rightarrow> fail ProbeFailed
      | DaemonOwns True sid \<Rightarrow> killDaemonSession E sid
      | _ \<Rightarrow> return ())"

definition delete_worktree_of :: "'w cli_env \<Rightarrow> Project \<Rightarrow> Ticket \<Rightarrow> 'w cli \<Rightarrow> 'w cli" where
  "delete_worktree_of E p t s =
     (case ce_Config E of
        None \<Rightarrow> s
      | Some cfg \<Rightarrow>
          (let m = project_manager p;
               g1 = (if t_WorktreePath t \<noteq> [] \<and> cc_DeleteWorktree cfg
                     then fst (RemoveWorktree (ce_Git E) (ce_GitFaults E) m (abs_path (t_WorktreePath t)) (ci_Git s)) else ci_Git s);
               g2 = (if cc_DeleteBranch cfg \<and> t_BranchName t \<noteq> [] then fst (DeleteMergedBranch (ce_Git E) m (t_BranchName t) g1) else g1)
           in s\<lparr>ci_Git := g2\<rparr>))"

definition delete_from_store :: "'w cli_env \<Rightarrow> TicketStore \<Rightarrow> TicketID \<Rightarrow> ('w, unit) cmd" where
  "delete_from_store E store i s =
     (case Store_Delete (ce_IO E) i store (ci_World s) of
        (_, w, Some e) \<Rightarrow> (s\<lparr>ci_World := w\<rparr>, Inl (DeleteTicketFailed e))
      | (_, w, None) \<Rightarrow> (s\<lparr>ci_World := w\<rparr>, Inr ()))"

text \<open>How every command that names a project and a ticket gets at them.\<close>

definition named_ticket :: "'w cli_env \<Rightarrow> string \<Rightarrow> string \<Rightarrow> ('w, ProjectRegistry \<times> Project \<times> TicketStore \<times> ref) cmd" where
  "named_ticket E project ident =
     andthen (load_registry E) (\<lambda>reg.
     andthen (lift (resolveProject reg project)) (\<lambda>p.
     andthen (\<lambda>s. check (\<not> legacy_pending E p s) (LegacyStorage (p_Name p)) s) (\<lambda>_.
     andthen (load_tickets E p) (\<lambda>store s.
       (s, case resolveTicket store reg ident (ci_World s) of Inl e \<Rightarrow> Inl e | Inr r \<Rightarrow> Inr (reg, p, store, r))))))"

definition ticket_delete :: "'w cli_env \<Rightarrow> string \<Rightarrow> string \<Rightarrow> ('w, unit) cmd" where
  "ticket_delete E project ident =
     andthen (check (project \<noteq> []) (Usage ''--project is required'')) (\<lambda>_.
     andthen (check (ident \<noteq> []) (Usage ''--id is required'')) (\<lambda>_.
     andthen (named_ticket E project ident) (\<lambda>(reg, p, store, r) s.
       (let t = deref (ci_World s) r
        in andthen (release_session E t) (\<lambda>_ s1.
             delete_from_store E store (t_ID t)
               (delete_worktree_of E p t (notifyDaemonTicketDone E (t_ID t) s1))) s))))"

section \<open>Moving a ticket\<close>

definition move_in_store :: "'w cli_env \<Rightarrow> TicketStore \<Rightarrow> ref \<Rightarrow> TicketStatus \<Rightarrow> ('w, unit) cmd" where
  "move_in_store E store r target s =
     (case Store_Move (ce_IO E) (ce_Review E) (ce_Ignores E) (t_ID (deref (ci_World s) r)) target store (ci_World s) of
        (w, _, _, Some e) \<Rightarrow> (s\<lparr>ci_World := w\<rparr>, Inl (MoveFailed e))
      | (w, _, _, None) \<Rightarrow> (s\<lparr>ci_World := w\<rparr>, Inr ()))"

definition save_ticket :: "'w cli_env \<Rightarrow> TicketStore \<Rightarrow> ref \<Rightarrow> ('w, unit) cmd" where
  "save_ticket E store r s =
     (case SaveTicket (ce_IO E) (Some r) store (ci_World s) of
        (_, w, Some e) \<Rightarrow> (s\<lparr>ci_World := w\<rparr>, Inl (SaveFailed e))
      | (_, w, None) \<Rightarrow> (s\<lparr>ci_World := w\<rparr>, Inr ()))"

definition moved_agent_status :: "TicketStatus \<Rightarrow> TicketStatus \<Rightarrow> AgentStatus option" where
  "moved_agent_status current target =
     (if target = StatusInReview \<or> target = StatusDone then Some AgentCompleted
      else if current = StatusInProgress \<and> (target = StatusBacklog \<or> target = StatusNext) then Some AgentNone
      else None)"

definition stamp_agent :: "'w cli_env \<Rightarrow> ref \<Rightarrow> AgentStatus option \<Rightarrow> ('w, unit) cmd" where
  "stamp_agent E r a =
     (case a of None \<Rightarrow> return () | Some st \<Rightarrow> modify_ticket r (\<lambda>t. fst (SetAgentStatus (e_now (ce_IO E)) st t)))"

text \<open>The part of \<^verbatim>\<open>ticket move\<close> behind the look-up; it says whether anything moved.\<close>

definition move_found ::
    "'w cli_env \<Rightarrow> ProjectRegistry \<Rightarrow> TicketStore \<Rightarrow> ref \<Rightarrow> TicketStatus \<Rightarrow> bool \<Rightarrow> ('w, bool) cmd" where
  "move_found E reg store r target force s =
     (let t = deref (ci_World s) r; current = t_Status t
      in if current = target then (s, Inr False)
         else
           andthen (guardAgentStatusChange E target force) (\<lambda>_.
           andthen (if target = StatusInProgress then checkStartPrerequisite E reg r force else return ()) (\<lambda>_.
           andthen (move_in_store E store r target) (\<lambda>_.
           andthen (stamp_agent E r (moved_agent_status current target)) (\<lambda>_.
           andthen (save_ticket E store r) (\<lambda>_ s1.
             (if current = StatusInProgress then notifyDaemonTicketDone E (t_ID t) s1 else s1, Inr True)))))) s)"

definition ticket_move :: "'w cli_env \<Rightarrow> string \<Rightarrow> string \<Rightarrow> string \<Rightarrow> bool \<Rightarrow> ('w, bool) cmd" where
  "ticket_move E project ident status force =
     andthen (check (project \<noteq> []) (Usage ''--project is required'')) (\<lambda>_.
     andthen (check (ident \<noteq> []) (Usage ''--id is required'')) (\<lambda>_.
     andthen (check (status \<noteq> []) (Usage ''--status is required'')) (\<lambda>_.
     andthen (lift (case ParseStatus status of Inl e \<Rightarrow> Inl (BadFlag e) | Inr t \<Rightarrow> Inr t)) (\<lambda>target.
     andthen (named_ticket E project ident) (\<lambda>(reg, p, store, r).
       move_found E reg store r target force)))))"

section \<open>Wrapping up from inside a session\<close>

definition loadSessionTicket :: "'w cli_env \<Rightarrow> ('w, ref \<times> TicketStore) cmd" where
  "loadSessionTicket E =
     andthen (check (ce_EnvTicket E \<noteq> []) NoSessionTicket) (\<lambda>_.
     andthen (load_registry E) (\<lambda>reg s.
       (case findTicketAcrossProjects E reg (ce_EnvTicket E) s of
          (s1, None) \<Rightarrow> (s1, Inl (NoTicket (ce_EnvTicket E)))
        | (s1, Some found) \<Rightarrow> (s1, Inr found))))"

definition write_status :: "'w cli_env \<Rightarrow> ('w, unit) cmd" where
  "write_status E s =
     (if ce_EnvSession E = [] then (s, Inr ())
      else if ce_StatusFails E then (s, Inl StatusFileFailed)
      else (s\<lparr>ci_Status := WriteStatusFile (ce_StatusDir E) (ce_EnvSession E) AgentCompleted (ci_Status s)\<rparr>, Inr ()))"

definition wrapUpSessionTicketAt :: "'w cli_env \<Rightarrow> TicketStatus \<Rightarrow> bool \<Rightarrow> ('w, unit) cmd" where
  "wrapUpSessionTicketAt E target force =
     andthen (loadSessionTicket E) (\<lambda>(r, store) s.
       (let t = deref (ci_World s) r
        in andthen
             (if t_Status t = target then return ()
              else
                andthen (guardAgentStatusChange E target force) (\<lambda>_.
                andthen (move_in_store E store r target) (\<lambda>_.
                andthen (stamp_agent E r (Some AgentCompleted)) (\<lambda>_.
                save_ticket E store r))))
             (\<lambda>_. andthen (write_status E) (\<lambda>_ s1. (notifyDaemonTicketDone E (t_ID t) s1, Inr ()))) s))"

section \<open>Lemmas on the steps\<close>

named_theorems cmd_steps \<open>the simple steps of a command\<close>

lemma andthen_Inr: "andthen m f s = (s', Inr b) \<longleftrightarrow> (\<exists>s1 a. m s = (s1, Inr a) \<and> f a s1 = (s', Inr b))"
  by (auto simp: andthen_def split: prod.splits sum.splits)

lemma andthen_unit:
  assumes "andthen m f s = (s', Inr b)"
  obtains s1 where "m s = (s1, Inr ())" "f () s1 = (s', Inr b)"
  using assms by (auto simp: andthen_Inr)

lemma andthen_fst:
  "andthen m f s = (case m s of (s1, Inl e) \<Rightarrow> (s1, Inl e) | (s1, Inr a) \<Rightarrow> f a s1)"
  by (simp add: andthen_def)

lemma step_simps [cmd_steps]:
  "return a s = (s', Inr b) \<longleftrightarrow> s' = s \<and> b = a"
  "check c e s = (s', Inr u) \<longleftrightarrow> s' = s \<and> c"
  "lift r s = (s', Inr b) \<longleftrightarrow> s' = s \<and> r = Inr b"
  by (auto simp: return_def check_def lift_def)

text \<open>Loading tickets never touches a ticket that is in memory: it only adds to the heap.\<close>

lemma load_entry_heap: "\<exists>ts. w_heap (ls_world (load_entry E pid dir n st)) = w_heap (ls_world st) @ ts"
  by (auto simp: load_entry_def Let_def split: option.splits node.splits sum.splits)

lemma load_fold_heap: "\<exists>ts. w_heap (ls_world (fold (load_entry E pid dir) ns st)) = w_heap (ls_world st) @ ts"
proof (induction ns arbitrary: st)
  case (Cons n ns)
  obtain ts where "w_heap (ls_world (load_entry E pid dir n st)) = w_heap (ls_world st) @ ts"
    using load_entry_heap by blast
  with Cons [of "load_entry E pid dir n st"] show ?case by auto
qed simp

lemma LoadTicketStore_heap: "\<exists>ts. w_heap (fst (LoadTicketStore E p w)) = w_heap w @ ts"
proof -
  have "\<exists>ts. w_heap (fst (load_dir E p v)) = w_heap v @ ts" for v
    using load_fold_heap [of E "p_ID p" "ticketDir (NewTicketStore (e_now E) (p_ID p) (p_RepoPath p))" _
        "\<lparr>ls_store = NewTicketStore (e_now E) (p_ID p) (p_RepoPath p), ls_world = v, ls_mtimes = []\<rparr>"]
    by (auto simp: load_dir_def Let_def split: sum.splits)
  from this [of "w\<lparr>w_disk := _\<rparr>"] show ?thesis
    by (simp add: LoadTicketStore_def Let_def split: prod.splits option.splits)
qed

definition grown :: "'w cli \<Rightarrow> 'w cli \<Rightarrow> bool" where
  "grown s s' \<longleftrightarrow>
     (\<exists>ts. w_heap (ci_World s') = w_heap (ci_World s) @ ts) \<and> w_settings (ci_World s') = w_settings (ci_World s) \<and>
     ci_Git s' = ci_Git s \<and> ci_Home s' = ci_Home s \<and> ci_Status s' = ci_Status s \<and> ci_Killed s' = ci_Killed s \<and>
     ci_Done s' = ci_Done s \<and> ci_Signals s' = ci_Signals s"

lemma grown_refl [simp]: "grown s s"
  by (simp add: grown_def)

lemma grown_trans: "grown s t \<Longrightarrow> grown t u \<Longrightarrow> grown s u"
  by (auto simp: grown_def)

lemma grown_deref: "grown s s' \<Longrightarrow> r < length (w_heap (ci_World s)) \<Longrightarrow> deref (ci_World s') r = deref (ci_World s) r \<and> r < length (w_heap (ci_World s'))"
  by (auto simp: grown_def deref_def nth_append)

lemma load_fold_settings: "w_settings (ls_world (fold (load_entry E pid dir) ns st)) = w_settings (ls_world st)"
proof (induction ns arbitrary: st)
  case (Cons n ns)
  have "w_settings (ls_world (load_entry E pid dir n st)) = w_settings (ls_world st)"
    by (auto simp: load_entry_def Let_def sweep_def install_def alloc_def split: option.splits node.splits sum.splits)
  with Cons show ?case by simp
qed simp

lemma LoadTicketStore_settings: "w_settings (fst (LoadTicketStore E p w)) = w_settings w"
  by (auto simp: LoadTicketStore_def load_dir_def Let_def load_fold_settings split: prod.splits option.splits sum.splits)

lemma grown_load: "grown s (fst (load_tickets E p s))"
  using LoadTicketStore_heap [of "ce_IO E" p "ci_World s"] LoadTicketStore_settings [of "ce_IO E" p "ci_World s"]
  by (auto simp: load_tickets_def grown_def split: prod.splits sum.splits)

lemma grown_find_in: "grown s (fst (find_in_projects E i ps s))"
proof (induction ps arbitrary: s)
  case (Cons p ps)
  obtain s1 res where l: "load_tickets E p s = (s1, res)" by fastforce
  have "grown s s1" using grown_load [of s E p] l by simp
  with Cons [of s1] show ?case by (auto simp: l split: sum.splits intro: grown_trans)
qed simp

lemma grown_find: "grown s (fst (findTicketAcrossProjects E reg i s))"
  by (simp add: findTicketAcrossProjects_def grown_find_in)

lemma grown_upstream: "grown s (fst (upstream_loop E reg ty mn js s))"
proof (induction js arbitrary: s)
  case (Cons i js)
  obtain s1 f where l: "findTicketAcrossProjects E reg i s = (s1, f)" by fastforce
  have "grown s s1" using grown_find [of s E reg i] l by simp
  with Cons [of s1] show ?case by (auto simp: l Let_def split: option.splits intro: grown_trans)
qed simp

lemma grown_prerequisite: "grown s (fst (check_prerequisite E reg t s))"
  using grown_upstream [of s E reg TypeSpec StatusDone "t_BlockedBy t"] grown_upstream [of s E reg TypeImplement StatusInReview "t_BlockedBy t"]
  by (auto simp: check_prerequisite_def split: prod.splits)

lemma grown_start: "grown s (fst (checkStartPrerequisite E reg r force s))"
  using grown_prerequisite [of s E reg "deref (ci_World s) r"] by (auto simp: checkStartPrerequisite_def split: prod.splits option.splits)

lemma named_ticket_grown: "grown s (fst (named_ticket E project ident s))"
proof -
  have "grown t (fst (load_tickets E p t))" for t p by (rule grown_load)
  then show ?thesis
    by (auto simp: named_ticket_def andthen_def load_registry_def lift_def check_def split: prod.splits sum.splits)
      (metis fst_conv)+
qed

section \<open>An agent does not move tickets\<close>

text \<open>
  Inside an agent's session, without \<^verbatim>\<open>--force\<close>, no status of any ticket changes, in memory or in the settings, nobody's
  session is ended and nothing is asked of git: the command at most loads stores.  A repeated \<^verbatim>\<open>done\<close>, on a ticket
  that is done, still writes the status file and tells the daemon.
\<close>
lemma move_found_refused:
  assumes "inAgentSession E"
  shows "fst (move_found E reg store r target False s) = s \<and> snd (move_found E reg store r target False s) \<noteq> Inr True"
  using assms by (simp add: move_found_def Let_def andthen_def guardAgentStatusChange_def check_def)

theorem agent_cannot_move:
  assumes "inAgentSession E"
  shows "grown s (fst (ticket_move E project ident status False s)) \<and> snd (ticket_move E project ident status False s) \<noteq> Inr True"
proof -
  obtain s1 res where n: "named_ticket E project ident s = (s1, res)" by fastforce
  have "grown s s1" using named_ticket_grown [of s E project ident] n by simp
  with n move_found_refused [OF assms] show ?thesis
    by (auto simp: ticket_move_def andthen_def check_def lift_def split: sum.splits prod.splits)
qed

section \<open>What a move does\<close>

lemma Store_Move_ok:
  assumes "Store_Move E RE gi i target st w = (w', added, pruned, None)" and "mget (ts_Tickets st) i = Some r"
  shows "w_heap w' = w_heap (set_ticket r (SetStatus (e_now E) target (deref w r)) w) \<and> w_disk w' = w_disk w"
  using assms by (auto simp: Store_Move_def Let_def set_ticket_def split: prod.splits)

lemma move_in_store_ok:
  assumes "move_in_store E store r target s = (s', Inr u)" and "r < length (w_heap (ci_World s))"
    and "mget (ts_Tickets store) (t_ID (deref (ci_World s) r)) = Some r"
  shows "deref (ci_World s') r = SetStatus (e_now (ce_IO E)) target (deref (ci_World s) r) \<and> r < length (w_heap (ci_World s'))"
proof -
  obtain w a b where mv: "Store_Move (ce_IO E) (ce_Review E) (ce_Ignores E) (t_ID (deref (ci_World s) r)) target store (ci_World s) = (w, a, b, None)"
    and s': "s' = s\<lparr>ci_World := w\<rparr>"
    using assms(1) by (auto simp: move_in_store_def split: prod.splits option.splits)
  from Store_Move_ok [OF mv assms(3)] assms(2) show ?thesis by (simp add: s' deref_def set_ticket_def)
qed

lemma stamp_agent_ok:
  assumes "stamp_agent E r a s = (s', Inr u)" and "r < length (w_heap (ci_World s))"
  shows "deref (ci_World s') r =
      (case a of Some st \<Rightarrow> fst (SetAgentStatus (e_now (ce_IO E)) st (deref (ci_World s) r)) | None \<Rightarrow> deref (ci_World s) r) \<and>
    r < length (w_heap (ci_World s'))"
  using assms by (cases a) (auto simp: stamp_agent_def modify_ticket_def return_def deref_def set_ticket_def)

lemma save_ticket_ok:
  assumes "save_ticket E store r s = (s', Inr u)" and "r < length (w_heap (ci_World s))"
  defines "t \<equiv> backfill_project (ts_ProjectID store) (deref (ci_World s) r)"
  shows "deref (ci_World s') r = t \<and> ci_Done s' = ci_Done s \<and>
    (\<exists>data. MarshalTicket (e_yaml (ce_IO E)) (Some t) = Inr data \<and>
       mget (w_disk (ci_World s')) (ticketDir store @ [TicketFilename t]) = Some (FileN data (e_now (ce_IO E))))"
proof -
  obtain st w where sv: "SaveTicket (ce_IO E) (Some r) store (ci_World s) = (st, w, None)" and s': "s' = s\<lparr>ci_World := w\<rparr>"
    using assms(1) by (auto simp: save_ticket_def split: prod.splits option.splits)
  from sv show ?thesis
    by (cases rule: SaveTicket_cases) (use assms(2) in \<open>auto simp: s' t_def deref_def set_ticket_def\<close>)
qed


section \<open>Naming a ticket\<close>

definition one_of :: "'a list \<Rightarrow> 'a option option" where
  "one_of xs = (case xs of [] \<Rightarrow> None | [x] \<Rightarrow> Some (Some x) | _ \<Rightarrow> Some None)"

lemma one_of_mset: "mset xs = mset ys \<Longrightarrow> one_of xs = one_of ys"
  by (cases xs rule: remdups_adj.cases; cases ys rule: remdups_adj.cases) (simp_all add: one_of_def)

lemma resolve_tiers_one:
  "resolve_tiers reg arg xs ys =
     (case one_of xs of
        Some (Some r) \<Rightarrow> Inr r
      | Some None \<Rightarrow> Inl (AmbiguousTicket arg)
      | None \<Rightarrow>
          (case one_of ys of
             Some (Some r) \<Rightarrow> Inr r
           | Some None \<Rightarrow> Inl (AmbiguousTicket arg)
           | None \<Rightarrow> if projectIDHint reg arg then Inl (LooksLikeProject arg) else Inl (NoTicket arg)))"
  by (simp add: resolve_tiers_def one_of_def split: list.splits)

lemma find_by_id:
  assumes "inj_on f (set xs)"
  shows "find (\<lambda>r. f r = a) xs = (if a \<in> f ` set xs then Some (THE r. r \<in> set xs \<and> f r = a) else None)"
proof (cases "a \<in> f ` set xs")
  case True
  then obtain r where r: "find (\<lambda>r. f r = a) xs = Some r" by (cases "find (\<lambda>r. f r = a) xs") (auto simp: find_None_iff)
  then have "r \<in> set xs \<and> f r = a" by (auto simp: find_Some_iff)
  with assms have "(THE r. r \<in> set xs \<and> f r = a) = r" by (intro the_equality) (auto dest: inj_onD)
  with r True show ?thesis by simp
next
  case False
  then show ?thesis by (auto simp: find_None_iff)
qed

text \<open>
  The tickets of a store come from a Go map, in any order.  Which ticket an argument names, and whether it is ambiguous,
  does not depend on that order.
\<close>
theorem resolveTicket_order_irrelevant:
  assumes "mset (Store_All store) = mset (Store_All store')" and "inj_on (\<lambda>r. t_ID (deref w r)) (set (Store_All store))"
  shows "resolveTicket store reg arg w = resolveTicket store' reg arg w"
proof -
  have m: "one_of (filter P (Store_All store)) = one_of (filter P (Store_All store'))" for P
    by (intro one_of_mset) (simp only: mset_filter assms(1))
  have s: "set (Store_All store) = set (Store_All store')" using assms(1) by (rule mset_eq_setD)
  then have f: "find (\<lambda>r. t_ID (deref w r) = arg) (Store_All store) = find (\<lambda>r. t_ID (deref w r) = arg) (Store_All store')"
    using find_by_id [OF assms(2)] find_by_id [of "\<lambda>r. t_ID (deref w r)" "Store_All store'"] assms(2) by simp
  have "one_of (if c then filter P (Store_All store) else []) = one_of (if c then filter P (Store_All store') else [])" for c P
    using m by simp
  with f m show ?thesis by (simp only: resolveTicket_def resolve_tiers_one)
qed

text \<open>A full id names its ticket, whatever the titles and the other ids are.\<close>
lemma resolveTicket_by_id:
  "r \<in> set (Store_All store) \<Longrightarrow> inj_on (\<lambda>r. t_ID (deref w r)) (set (Store_All store)) \<Longrightarrow> t_ID (deref w r) \<noteq> [] \<Longrightarrow>
   resolveTicket store reg (t_ID (deref w r)) w = Inr r"
  by (auto simp: resolveTicket_def find_by_id inj_on_def intro!: the_equality)

section \<open>What a deletion asks of git\<close>

text \<open>A git that writes down what it is asked.\<close>

definition logging :: "'w git \<Rightarrow> (string list list \<times> 'w) git" where
  "logging git dir args s =
     (case git dir args (fst s, snd (snd s)) of (s', r) \<Rightarrow> ((fst s', fst (snd s) @ [args], snd s'), r))"

definition git_log :: "(string list list \<times> 'w) cli \<Rightarrow> string list list" where
  "git_log s = fst (snd (ci_Git s))"

lemma log_RemoveWorktree:
  "fst (snd (fst (RemoveWorktree (logging git) F m p s))) = fst (snd s) @ [[''worktree'', ''remove'', slashed p, ''--force'']]"
  by (auto simp: RemoveWorktree_def logging_def split: prod.splits option.splits)

lemma log_DeleteMergedBranch:
  "fst (snd (fst (DeleteMergedBranch (logging git) m b s))) = fst (snd s) @ [[''branch'', ''-d'', b]]"
  by (auto simp: DeleteMergedBranch_def logging_def split: prod.splits)

definition delete_requests :: "'w cli_env \<Rightarrow> Ticket \<Rightarrow> string list list" where
  "delete_requests E t =
     (case ce_Config E of
        None \<Rightarrow> []
      | Some cfg \<Rightarrow>
          (if t_WorktreePath t \<noteq> [] \<and> cc_DeleteWorktree cfg
           then [[''worktree'', ''remove'', slashed (abs_path (t_WorktreePath t)), ''--force'']] else []) @
          (if cc_DeleteBranch cfg \<and> t_BranchName t \<noteq> [] then [[''branch'', ''-d'', t_BranchName t]] else []))"

lemma log_delete_worktree_of:
  assumes "ce_Git E = logging git"
  shows "git_log (delete_worktree_of E p t s) = git_log s @ delete_requests E t"
  using assms log_RemoveWorktree [of git] log_DeleteMergedBranch [of git]
  by (auto simp: git_log_def delete_worktree_of_def delete_requests_def Let_def split: option.splits)

lemma ticket_delete_ok:
  assumes "ticket_delete E project ident s = (s', Inr u)"
  obtains s1 reg p store r s2 where "named_ticket E project ident s = (s1, Inr (reg, p, store, r))"
    "release_session E (deref (ci_World s1) r) s1 = (s2, Inr ())"
    "delete_from_store E store (t_ID (deref (ci_World s1) r))
       (delete_worktree_of E p (deref (ci_World s1) r) (notifyDaemonTicketDone E (t_ID (deref (ci_World s1) r)) s2)) = (s', Inr ())"
  using assms by (auto simp: ticket_delete_def andthen_Inr check_def Let_def)

text \<open>C13: 
  A deletion that succeeds asks git exactly for the removals the configuration allows: the ticket's own worktree, and its
  branch in the form that git refuses for unmerged work.  No branch is ever force-deleted.
\<close>
theorem delete_asks_git_exactly:
  assumes "ticket_delete E project ident s = (s', Inr u)" and "ce_Git E = logging git"
  shows "\<exists>s1 reg p store r. named_ticket E project ident s = (s1, Inr (reg, p, store, r)) \<and>
    git_log s' = git_log s @ delete_requests E (deref (ci_World s1) r) \<and>
    Store_Get (t_ID (deref (ci_World s1) r)) store \<noteq> Inl TS_not_found"
proof -
  from assms(1) obtain s1 reg p store r s2 where n: "named_ticket E project ident s = (s1, Inr (reg, p, store, r))"
    and rel: "release_session E (deref (ci_World s1) r) s1 = (s2, Inr ())"
    and del: "delete_from_store E store (t_ID (deref (ci_World s1) r))
       (delete_worktree_of E p (deref (ci_World s1) r) (notifyDaemonTicketDone E (t_ID (deref (ci_World s1) r)) s2)) = (s', Inr ())"
    by (rule ticket_delete_ok)
  have "git_log s1 = git_log s" using named_ticket_grown [of s E project ident] n by (simp add: grown_def git_log_def)
  moreover have "git_log s2 = git_log s1"
    using rel by (auto simp: release_session_def return_def fail_def killDaemonSession_def git_log_def split: if_splits owner_probe.splits bool.splits)
  moreover have "git_log (notifyDaemonTicketDone E i x) = git_log x" for i and x :: "(string list list \<times> 'a) cli"
    by (simp add: notifyDaemonTicketDone_def git_log_def)
  moreover have "git_log s' = git_log (delete_worktree_of E p (deref (ci_World s1) r)
      (notifyDaemonTicketDone E (t_ID (deref (ci_World s1) r)) s2))" and "Store_Get (t_ID (deref (ci_World s1) r)) store \<noteq> Inl TS_not_found"
    using del by (auto simp: delete_from_store_def git_log_def Store_Delete_def Store_Get_def split: prod.splits option.splits if_splits)
  ultimately have "git_log s' = git_log s @ delete_requests E (deref (ci_World s1) r)"
    by (simp add: log_delete_worktree_of [OF assms(2)])
  with n \<open>Store_Get (t_ID (deref (ci_World s1) r)) store \<noteq> Inl TS_not_found\<close> show ?thesis by blast
qed

section \<open>A new ticket that is not saved\<close>

text \<open>
  A ticket that was to share another ticket's worktree, and then cannot be saved, takes that worktree with it: the
  roll-back removes, by force, whatever worktree the ticket names, not only one that this call made.
\<close>
theorem adopted_worktree_removed:
  assumes "findTicketAcrossProjects E reg from s = (s0, Some (src, sst))" and "adopt_worktree E reg p from r s = (s1, Inr u)"
    and "r < length (w_heap (ci_World s))" and "SaveTicket (ce_IO E) (Some r) store (ci_World s1) = (st, w, Some e)"
  shows "save_new E p r store s1 =
    (s1\<lparr>ci_World := w, ci_Git := fst (RemoveWorktree (ce_Git E) (ce_GitFaults E) (project_manager p)
       (abs_path (t_WorktreePath (deref (ci_World s0) src))) (ci_Git s))\<rparr>, Inl (SaveFailed e))"
proof -
  have g: "grown s s0" using grown_find [of s E reg "from"] assms(1) by simp
  have len: "r < length (w_heap (ci_World s0))" using grown_deref [OF g assms(3)] by blast
  have path: "t_WorktreePath (deref (ci_World s1) r) = t_WorktreePath (deref (ci_World s0) src)"
    and wt: "t_WorktreePath (deref (ci_World s0) src) \<noteq> []" and git: "ci_Git s1 = ci_Git s" and len1: "r < length (w_heap (ci_World s1))"
    using assms(2) len g by (auto simp: adopt_worktree_def assms(1) Let_def modify_ticket_def grown_def deref_def set_ticket_def split: if_splits)
  have "t_WorktreePath (deref w r) = t_WorktreePath (deref (ci_World s1) r)"
    using assms(4) len1 by (cases rule: SaveTicket_cases) (simp_all add: deref_def set_ticket_def backfill_project_def)
  with path wt git show ?thesis by (simp add: save_new_def assms(4) Let_def)
qed

text \<open>
  The session flags act at once: with \<^verbatim>\<open>--force\<close> the session is ended and its link is taken from the ticket that had
  it.  A later refusal, an unknown blocker for one, undoes nothing, so the session then belongs to no ticket.
\<close>
lemma failed_new_keeps_claim:
  assumes "applySessionFlags E opts r g s = (s1, Inr u)" and "no_BlockedBy opts \<noteq> []" and "comma_items (no_BlockedBy opts) = dep # deps"
    and "dep \<noteq> t_ID (deref (ci_World s1) r)" and "findTicketAcrossProjects E reg dep s1 = (s2, None)"
  shows "andthen (applySessionFlags E opts r g) (\<lambda>_. finish_new E opts reg p store r) s = (s2, Inl (NoTicket dep)) \<and> grown s1 s2"
  using assms grown_find [of s1 E reg dep] by (simp add: andthen_def finish_new_def)

section \<open>Concrete commands\<close>

definition quiet_git :: "unit git" where
  "quiet_git dir args s = (s, \<lparr>gr_Stdout = [], gr_Output = [], gr_OK = True\<rparr>)"

definition cmd_env :: "'w git \<Rightarrow> 'w cli_env" where
  "cmd_env git =
     \<lparr>ce_IO = mig_example_env, ce_Review = review_example_env, ce_Ignores = (\<lambda>_. True),
      ce_Codec = \<lparr>jl_enc = (\<lambda>_. Some []), jl_dec = (\<lambda>_. Some [(''p'', example_project)])\<rparr>,
      ce_EnvTicket = [], ce_EnvSession = [], ce_Probe = (\<lambda>_. DaemonDown), ce_KillFails = (\<lambda>_. False), ce_DoneFails = (\<lambda>_. False),
      ce_Lsof = (\<lambda>_. LsofNone), ce_SignalFails = (\<lambda>_. False), ce_Polls = [], ce_Late = [], ce_Git = git, ce_Links = (\<lambda>_. Some),
      ce_GitFaults = (\<lambda>_. False),
      ce_Config = Some \<lparr>cc_DeleteWorktree = True, cc_DeleteBranch = True,
        cc_Defaults = \<lparr>bs_BranchPrefix = [], bs_BranchTemplate = [], bs_SlugMaxLength = 0\<rparr>\<rparr>,
      ce_Stdin = Terminal, ce_ReadFile = (\<lambda>_. None), ce_StatusDir = ''s'', ce_StatusFails = False, ce_NewID = ''n''\<rparr>"

definition cmd_state :: "disk \<Rightarrow> 'w \<Rightarrow> 'w cli" where
  "cmd_state d w =
     \<lparr>ci_World = \<lparr>w_heap = [], w_disk = d, w_settings = []\<rparr>, ci_Git = ([], w), ci_Home = [], ci_Status = (\<lambda>_ _. None), ci_Killed = [],
      ci_Done = [], ci_Signals = []\<rparr>"

text \<open>
  Looking a ticket up is not read-only: it loads the stores of all projects, and loading migrates.  So a project whose
  storage waits for a migration, which \<^verbatim>\<open>ticket new\<close> refuses to run by itself, is migrated by the look-up of any
  ticket, before the refusal is even considered when the project comes from the environment.
\<close>
definition legacy_disk :: disk where
  "legacy_disk = [([''projects.json''], FileN ''r'' 1), (ticketsDir, DirN), (legacyJSONPath ''p'', FileN ''J'' 1)]"

lemma lookup_migrates:
  "legacy_pending (cmd_env quiet_git) example_project (cmd_state legacy_disk ())"
  "\<not> legacy_pending (cmd_env quiet_git) example_project
     (fst (findTicketAcrossProjects (cmd_env quiet_git) [(''p'', example_project)] ''unknown'' (cmd_state legacy_disk ())))"
  by code_simp+

definition one_ticket_disk :: disk where
  "one_ticket_disk =
     (case MarshalTicket example_yaml (Some example_ticket) of
        Inr data \<Rightarrow> [([''projects.json''], FileN ''r'' 1), (ticketsDir, DirN), (ticketsDir @ [''p''], DirN),
                    (ticketsDir @ [''p'', ''a.md''], FileN data 7)]
      | Inl _ \<Rightarrow> [])"

definition loaded_one :: "unit cli \<times> (cmd_error + ProjectRegistry \<times> Project \<times> TicketStore \<times> ref)" where
  "loaded_one = named_ticket (cmd_env quiet_git) ''demo'' ''0a1b2c3d-e'' (cmd_state one_ticket_disk ())"

definition moved_one :: "unit cli \<times> (cmd_error + bool)" where
  "moved_one = (case loaded_one of (s, Inr (reg, p, store, r)) \<Rightarrow> move_found (cmd_env quiet_git) reg store r StatusDone False s)"

lemma moved_one_ok: "snd moved_one = Inr True"
  by code_simp


definition delete_state :: "(string list list \<times> unit) cli" where
  "delete_state = cmd_state one_ticket_disk ([], ())"

definition delete_cmd_env :: "(string list list \<times> unit) cli_env" where
  "delete_cmd_env = cmd_env (logging quiet_git)"

theorem delete_asks_git_exactly_witness:
  "\<exists>s'. ticket_delete delete_cmd_env ''demo'' ''0a1b2c3d'' delete_state = (s', Inr ()) \<and>
     (\<exists>s1 reg p store r. named_ticket delete_cmd_env ''demo'' ''0a1b2c3d'' delete_state = (s1, Inr (reg, p, store, r)) \<and>
        git_log s' = delete_requests delete_cmd_env (deref (ci_World s1) r))"
proof -
  have "snd (ticket_delete delete_cmd_env ''demo'' ''0a1b2c3d'' delete_state) = Inr ()" by code_simp
  then obtain s' where d: "ticket_delete delete_cmd_env ''demo'' ''0a1b2c3d'' delete_state = (s', Inr ())" by (auto simp: prod_eq_iff)
  have g: "ce_Git delete_cmd_env = logging quiet_git" by (simp add: delete_cmd_env_def cmd_env_def)
  have "git_log delete_state = []" by (simp add: git_log_def delete_state_def cmd_state_def)
  with delete_asks_git_exactly [OF d g] obtain s1 reg p store r
    where "named_ticket delete_cmd_env ''demo'' ''0a1b2c3d'' delete_state = (s1, Inr (reg, p, store, r))"
      "git_log s' = delete_requests delete_cmd_env (deref (ci_World s1) r)" by auto
  with d show ?thesis by blast
qed

end
