(* ===== verification/Spec2Isabelle.thy ===== *)
theory Spec2Isabelle
  imports Board Workflow ClaudeSettings GlobalStore Migration Registry DaemonSafety PidLock TicketSvc AgentDetect UiStartup Leases ExitProtocol
    StallWatch Watch BoardResync ClientRpc Restore Config Sessions Hooks TicketCmd
begin

text \<open>
  A verification development of OpenKanban, a Kanban board for the terminal whose tickets run coding agents.

  \<^bold>\<open>The program.\<close>  A background daemon (\<^verbatim>\<open>internal/daemon\<close>) owns one agent process per ticket, each behind a pseudo
  terminal (\<^verbatim>\<open>internal/terminal\<close>).  Board programs (\<^verbatim>\<open>internal/ui\<close>) connect over a Unix socket with length-prefixed
  frames, ask for sessions to be spawned, listed or killed, attach to one session at a time, receive pushed events
  and follow the terminal's bytes through a client (\<^verbatim>\<open>internal/daemonclient\<close>).  Tickets are Markdown files
  (\<^verbatim>\<open>internal/board\<close>, \<^verbatim>\<open>internal/project\<close>), linked to agent sessions by \<^verbatim>\<open>internal/ticketsvc\<close> and gated by
  \<^verbatim>\<open>internal/workflow\<close>; an agent's status comes from status files, its API or its screen (\<^verbatim>\<open>internal/agent\<close>).
  A ticket's agent works in a git worktree (\<^verbatim>\<open>internal/git\<close>); a watcher (\<^verbatim>\<open>internal/watch\<close>) and a periodic scan bring
  changes of the files back to the board.  The command line (\<^verbatim>\<open>cmd\<close>) works on the same files and asks the same daemon.

  \<^bold>\<open>Theories, by layer.\<close>
  \<^item> Shared: Prelude (Go strings and runes, package strings, Go maps as association lists with their laws);
    GoStrings (\<^verbatim>\<open>TrimSpace\<close>, splitting into lines); Paths (\<^verbatim>\<open>path/filepath\<close> on the paths of the disk); Disk
    (files below a directory, with calls that can fail); AtomicWrite (write to a temporary file, then rename).
  \<^item> Tickets and projects: Board (\<^verbatim>\<open>board.go\<close>: slugs, enumerations, the ticket and its mutators); Workflow
    (\<^verbatim>\<open>workflow/gate.go\<close>); Registry (\<^verbatim>\<open>project.go\<close>, \<^verbatim>\<open>store.go\<close>, \<^verbatim>\<open>branch.go\<close>, \<^verbatim>\<open>filter.go\<close>); TicketMd
    (\<^verbatim>\<open>ticket_md.go\<close>); TicketStore and GlobalStore (\<^verbatim>\<open>tickets.go\<close>: one project's store, and the index over all);
    Migration (\<^verbatim>\<open>migration.go\<close>); TicketSvc (\<^verbatim>\<open>ticketsvc/svc.go\<close>).
  \<^item> Agents: AgentDetect (\<^verbatim>\<open>agent/status.go\<close>, \<^verbatim>\<open>cmd/status.go\<close>); ClaudeSettings (\<^verbatim>\<open>agent/claude_settings.go\<close>);
    Sessions (\<^verbatim>\<open>agent/sessions.go\<close>: the transcripts of the Claude CLI below the home directory).
  \<^item> Around them: Config (\<^verbatim>\<open>internal/config\<close>: defaults, completion and validation of the settings); Watch
    (\<^verbatim>\<open>watch/watcher.go\<close>: classification and debouncing of file events); Git (\<^verbatim>\<open>git/worktree.go\<close>: worktrees and branches).
  \<^item> Command line: TicketCmd (\<^verbatim>\<open>cmd/ticket*.go\<close>: new, delete, move, done, in-review); Hooks (\<^verbatim>\<open>cmd/hooks.go\<close>: the status
    hooks in the user's Claude settings); Restore (\<^verbatim>\<open>cmd/backup.go\<close>, \<^verbatim>\<open>cmd/restore.go\<close>: the archive and what a restore
    writes where).
  \<^item> Daemon: Frame (\<^verbatim>\<open>daemon/protocol.go\<close>); Pane (\<^verbatim>\<open>terminal/pane.go\<close>); Session (\<^verbatim>\<open>daemon/session.go\<close>); SessionReg
    (\<^verbatim>\<open>daemon/registry.go\<close>, \<^verbatim>\<open>sem.go\<close>); Server (the state and handlers of \<^verbatim>\<open>daemon/server.go\<close>); Dispatch (its request
    dispatcher, background loops and \<^verbatim>\<open>watchdog.go\<close>); Attach (\<^verbatim>\<open>daemon/attach.go\<close>); ServerRun (the interleaving of
    every goroutine as a step relation, and its invariant); DaemonSafety (what holds in every reachable state); Leases
    (the abstract lease table the daemon refines); PidLock (\<^verbatim>\<open>daemon/pidlock.go\<close> and the socket of \<^verbatim>\<open>server.go\<close>).
  \<^item> Board program: PaneView (\<^verbatim>\<open>daemonclient/paneview.go\<close>); UiModel (the model of \<^verbatim>\<open>ui/model.go\<close> with
    \<^verbatim>\<open>daemon_resync.go\<close>, \<^verbatim>\<open>daemon_subscribe.go\<close> and \<^verbatim>\<open>daemon_reconnect.go\<close>); ExitGuard (\<^verbatim>\<open>ui/exit_guard.go\<close> and the
    message dispatcher); UiSync, UiStartup and AgentView (what the mirror of the daemon promises); ExitProtocol (the
    exit guard together with the daemon that answers it); ClientRpc (\<^verbatim>\<open>daemonclient/client.go\<close>: the request client under
    every interleaving of its calls, its read loop and \<^verbatim>\<open>Close\<close>); StallWatch (\<^verbatim>\<open>ui/stallwatch.go\<close>); BoardLayout,
    BoardView and BoardResync (the columns, the cursor, scrolling, filters and mouse hits of \<^verbatim>\<open>ui/model.go\<close> and
    \<^verbatim>\<open>ui/view.go\<close>, and \<^verbatim>\<open>ui/board_resync.go\<close>).

  \<^bold>\<open>How state and operations correspond.\<close>  A struct is a record with the field names of the source, prefixed; a
  method is a function of the same name that returns the updated record; an error is the left value of a sum or an
  option, and a panic is \<open>None\<close>.  Go strings are char lists of bytes, decoded to runes where the code ranges over
  runes.  Go maps are association lists with distinct keys, so a range over a map is a fold in some order and
  every theorem holds for each order.  Objects shared by pointer (sessions, connections, panes, tickets) live in a
  list or map of the state and a pointer is an index.  A goroutine is a program counter in the state; one step is one
  critical section, or one system call in PidLock, and other goroutines may step in between.  Integers keep their
  width where the code can wrap (frame lengths, sizes, sequence numbers) and are \<open>int\<close> or \<open>nat\<close> elsewhere; times are
  integers of nanoseconds, supplied by the environment.

  \<^bold>\<open>What the lemmas show.\<close>  Board, TicketMd and Frame: round trips, type invariants and error branches of the data
  formats.  TicketStore, GlobalStore, Registry, Migration and ClaudeSettings: each operation keeps the store coherent
  with the disk, whichever call fails, and never loses the old contents.  Pane and Session: no goroutine interleaving
  panics on a channel, subscribers see every exit, one client holds a session's attach slot.  ServerRun,
  DaemonSafety, Leases: at most one session per ticket, no child outlives a shutdown, gauges are exact, and each
  step of the daemon is a step of the lease table or leaves it alone.  PaneView: the client's stream equals what
  the daemon sent for that attach, and stale loops never write.  UiSync, UiStartup, AgentView, ExitGuard, ExitProtocol:
  the board's mirror, its modals and its exit.  ClientRpc: a call gets an answer to its own request or none, except
  after a time-out, and every call ends once the client is closed.  StallWatch: a report of a stall is true and is made
  once.  Watch: every change is delivered, after the quiet time.  BoardLayout, BoardView, BoardResync: the cursor stays
  on a card that is on the screen, the columns show exactly the tickets the filters leave, and a scan makes the board
  agree with the files it loaded.  Config: which settings are rejected, and that the defaults are not.  Sessions: moving a
  transcript never loses it; what is written back to a ticket can be resumed.  Git: what the creation of a worktree may
  delete, and the round trip of git's listing.  TicketCmd: what a move changes and who may make it; what a deletion asks of
  git; that names resolve independently of map order.  Hooks: uninstalling undoes installing.  Restore: nothing is written
  outside the roots, kept files are kept, and a restore of a backup gives the files back.  Where the code does what it
  should not, a theorem beside the others says on which inputs.

  \<^bold>\<open>Interfaces.\<close>  The locale \<open>codec\<close> (Frame) states an encoder with a prefix-decoder and is interpreted on frames and on
  resize payloads; \<open>session_registry\<close> (SessionReg) states the conditional store and delete the spawn race relies on
  and is interpreted on the registry's operations; \<open>ticket_lookup\<close> (Workflow) and \<open>session_store\<close> (TicketSvc) state
  what the gate and the link service need of a ticket store, and are interpreted on the global store.

  \<^bold>\<open>Bounds and fuel.\<close>  A spawn without interference takes seven turns, one for each of its critical sections, so the
  fuel 7 of \<open>handleSpawn\<close> reaches \<open>Returned\<close> (theorem \<open>spawn_idempotent\<close>).  Retries (\<open>list_attempts\<close>) run the
  count the code runs.  No other recursion needs fuel: loops over data are structural, and the unbounded loops
  of goroutines are runs of any length.

  \<^bold>\<open>Parameters.\<close>  The YAML and JSON codecs, uuid generation, the clock, the Unicode lower-case table, the terminal
  emulator and its serializer, the fork of a process and the file system's failures are arguments; what a theorem
  needs of one is a named hypothesis with a witness on a concrete instance.  The \<^verbatim>\<open>git\<close> program is a function from its
  directory and arguments, relied on only to keep files outside \<^verbatim>\<open>.git\<close> when it adds, lists and prunes
  (\<open>leaves_files\<close>); \<^verbatim>\<open>lsof\<close>, signals and the daemon's answers to the command line are functions of the environment.
  The configuration directory, the home directory and the directories git works in are disks of their own.

  \<^bold>\<open>Not modelled.\<close>  Styling and the drawing of the screen, text selection, the forms and their text inputs; the spawn
  command line and the prompt templates; dialling and auto-starting the daemon and its recovery, launchd and its services,
  notifications and the self-update (calls to other programs); the deletion of a ticket from the board; flag parsing and
  printed output under \<^verbatim>\<open>cmd\<close>, ticket listings; file modes, the compression of an archive; log lines and stack dumps; the
  quoting of \<^verbatim>\<open>%q\<close> in error texts.
\<close>

end
